(* ===== verification/Cube_Prelude.thy ===== *)
theory Cube_Prelude
  imports Main "HOL-Library.Word"
begin

text \<open>
  Shared ground of the development: machine integers, error codes of the C library, the
  flat byte memory the string functions run on, byte buffers as lists, and the generic
  lemmas on them that the component theories use.
\<close>

unbundle bit_operations_syntax

section \<open>Types and constants\<close>

type_synonym byte = "8 word"
type_synonym u16 = "16 word"
type_synonym u32 = "32 word"
type_synonym u64 = "64 word"
type_synonym addr = nat
type_synonym mem = "nat \<Rightarrow> 8 word"

abbreviation (input) EINVAL :: int where "EINVAL \<equiv> 22"
abbreviation (input) ENOMEM :: int where "ENOMEM \<equiv> 12"
abbreviation (input) ENOSPC :: int where "ENOSPC \<equiv> 28"
abbreviation (input) DIGEST_SIZE :: nat where "DIGEST_SIZE \<equiv> 32"

named_theorems mem_simps \<open>reading and writing the flat memory\<close>
named_theorems buf_simps \<open>byte buffers as lists\<close>

section \<open>C integers\<close>

text \<open>
  A C \<^verbatim>\<open>int\<close> is modelled as an \<^typ>\<open>int\<close>; where the source can leave the
  range, the two's-complement wrap-around of the target is written out with \<open>wrap32\<close>.
\<close>

definition wrap32 :: "int \<Rightarrow> int" where
  "wrap32 n = (n + 2147483648) mod 4294967296 - 2147483648"

lemma wrap32_id [simp]:
  "-2147483648 \<le> n \<Longrightarrow> n \<le> 2147483647 \<Longrightarrow> wrap32 n = n"
  by (simp add: wrap32_def)

lemma wrap32_range: "-2147483648 \<le> wrap32 n \<and> wrap32 n \<le> 2147483647"
proof -
  have "0 \<le> (n + 2147483648) mod 4294967296" "(n + 2147483648) mod 4294967296 < 4294967296"
    by simp_all
  then show ?thesis unfolding wrap32_def by linarith
qed

text \<open>C division truncates towards zero.\<close>

definition c_div :: "int \<Rightarrow> int \<Rightarrow> int" where
  "c_div a b = (if 0 \<le> a then a div b else - ((- a) div b))"

definition c_mod :: "int \<Rightarrow> int \<Rightarrow> int" where
  "c_mod a b = (if 0 \<le> a then a mod b else - ((- a) mod b))"

lemma c_div_nonneg [simp]: "0 \<le> a \<Longrightarrow> c_div a b = a div b"
  by (simp add: c_div_def)

lemma c_mod_nonneg [simp]: "0 \<le> a \<Longrightarrow> c_mod a b = a mod b"
  by (simp add: c_mod_def)

lemma uint_inj_iff [simp]: "uint a = uint b \<longleftrightarrow> a = (b :: 'a::len word)"
  by (simp add: word_uint_eq_iff)

lemma uint_zero_iff [simp]: "uint a = 0 \<longleftrightarrow> a = (0 :: 'a::len word)"
  by (simp add: uint_0_iff)

lemma unat_byte_less [simp]: "unat (b :: byte) < 256"
  using unsigned_less [of b, where ?'a = nat] by simp

lemma Suc_unat_minus_one:
  fixes w :: "'a::len word"
  assumes "w \<noteq> 0"
  shows "Suc (unat (w - 1)) = unat w"
proof -
  have "0 < unat w" using assms by (simp add: unat_gt_0)
  then show ?thesis using assms by (simp add: unat_minus_one)
qed

section \<open>The flat memory\<close>

definition mem_bytes :: "mem \<Rightarrow> nat \<Rightarrow> nat \<Rightarrow> byte list" where
  "mem_bytes m a n = map (\<lambda>i. m (a + i)) [0..<n]"

fun mem_write :: "mem \<Rightarrow> nat \<Rightarrow> byte list \<Rightarrow> mem" where
  "mem_write m a [] = m"
| "mem_write m a (b # bs) = mem_write (m(a := b)) (a + 1) bs"

text \<open>\<open>cstr m a s\<close>: the bytes \<open>s\<close>, none of them NUL, stand at \<open>a\<close> and are terminated.\<close>

definition cstr :: "mem \<Rightarrow> nat \<Rightarrow> byte list \<Rightarrow> bool" where
  "cstr m a s \<longleftrightarrow> mem_bytes m a (length s) = s \<and> 0 \<notin> set s \<and> m (a + length s) = 0"

text \<open>Two address ranges that do not meet.\<close>

definition disjoint_range :: "nat \<Rightarrow> nat \<Rightarrow> nat \<Rightarrow> nat \<Rightarrow> bool" where
  "disjoint_range a n b k \<longleftrightarrow> a + n \<le> b \<or> b + k \<le> a"

lemma length_mem_bytes [simp, mem_simps]: "length (mem_bytes m a n) = n"
  by (simp add: mem_bytes_def)

lemma nth_mem_bytes [simp, mem_simps]: "i < n \<Longrightarrow> mem_bytes m a n ! i = m (a + i)"
  by (simp add: mem_bytes_def)

lemma mem_bytes_0 [simp, mem_simps]: "mem_bytes m a 0 = []"
  by (simp add: mem_bytes_def)

lemma mem_bytes_Suc: "mem_bytes m a (Suc n) = m a # mem_bytes m (Suc a) n"
  by (simp add: mem_bytes_def upt_conv_Cons map_Suc_upt [symmetric] del: upt_Suc)

lemma mem_bytes_append: "mem_bytes m a (n + k) = mem_bytes m a n @ mem_bytes m (a + n) k"
  by (rule nth_equalityI) (auto simp: nth_append)

lemma mem_bytes_cong:
  "(\<And>x. a \<le> x \<Longrightarrow> x < a + n \<Longrightarrow> m x = m' x) \<Longrightarrow> mem_bytes m a n = mem_bytes m' a n"
  by (simp add: mem_bytes_def)

lemma mem_bytes_eq_iff: "mem_bytes m a n = mem_bytes m' b n \<longleftrightarrow> (\<forall>i<n. m (a + i) = m' (b + i))"
  by (auto simp: list_eq_iff_nth_eq)

lemma take_mem_bytes [simp, mem_simps]: "take k (mem_bytes m a n) = mem_bytes m a (min k n)"
  by (cases "k \<le> n") (auto simp: mem_bytes_def take_map min_def)

lemma mem_write_apply [mem_simps]:
  "mem_write m a bs x = (if a \<le> x \<and> x < a + length bs then bs ! (x - a) else m x)"
proof (induction bs arbitrary: m a)
  case Nil
  then show ?case by auto
next
  case (Cons b bs)
  have "x - a = Suc (x - Suc a)" if "a < x" using that by simp
  then show ?case by (auto simp: Cons.IH nth_Cons split: nat.splits)
qed

lemma mem_bytes_mem_write [simp, mem_simps]: "mem_bytes (mem_write m a bs) a (length bs) = bs"
  by (rule nth_equalityI) (auto simp: mem_write_apply)

lemma mem_bytes_mem_write_disjoint:
  "disjoint_range a (length bs) b n \<Longrightarrow> mem_bytes (mem_write m a bs) b n = mem_bytes m b n"
  by (rule mem_bytes_cong) (auto simp: mem_write_apply disjoint_range_def)

lemma mem_write_append: "mem_write m a (xs @ ys) = mem_write (mem_write m a xs) (a + length xs) ys"
  by (rule ext) (auto simp: mem_write_apply nth_append)

lemma cstr_nth: "cstr m a s \<Longrightarrow> i < length s \<Longrightarrow> m (a + i) = s ! i \<and> s ! i \<noteq> 0"
  by (metis cstr_def nth_mem_bytes nth_mem)

lemma cstr_end: "cstr m a s \<Longrightarrow> m (a + length s) = 0"
  by (simp add: cstr_def)

lemma cstrI:
  "(\<And>i. i < length s \<Longrightarrow> m (a + i) = s ! i) \<Longrightarrow> 0 \<notin> set s \<Longrightarrow> m (a + length s) = 0 \<Longrightarrow> cstr m a s"
  by (auto simp: cstr_def intro: nth_equalityI)

lemma cstr_Nil [simp]: "cstr m a [] \<longleftrightarrow> m a = 0"
  by (simp add: cstr_def)

lemma cstr_Cons: "cstr m a (b # s) \<longleftrightarrow> m a = b \<and> b \<noteq> 0 \<and> cstr m (Suc a) s"
  by (auto simp: cstr_def mem_bytes_Suc)

lemma cstr_unique: "cstr m a s \<Longrightarrow> cstr m a t \<Longrightarrow> s = t"
proof (induction s arbitrary: a t)
  case Nil
  then show ?case by (cases t) (auto simp: cstr_Cons)
next
  case (Cons b s)
  then show ?case by (cases t) (auto simp: cstr_Cons)
qed

lemma cstr_cong:
  "(\<And>x. a \<le> x \<Longrightarrow> x \<le> a + length s \<Longrightarrow> m' x = m x) \<Longrightarrow> cstr m a s \<Longrightarrow> cstr m' a s"
  by (rule cstrI) (auto simp: cstr_def list_eq_iff_nth_eq)

section \<open>Buffers as byte lists\<close>

text \<open>
  Where a buffer is an object of its own, its bytes are a list; \<open>buf_put\<close> is the effect of
  copying \<open>bs\<close> to offset \<open>off\<close>, for a copy that stays inside the buffer.
\<close>

definition buf_put :: "'a list \<Rightarrow> nat \<Rightarrow> 'a list \<Rightarrow> 'a list" where
  "buf_put buf off bs = take off buf @ bs @ drop (off + length bs) buf"

lemma length_buf_put [simp, buf_simps]:
  "off + length bs \<le> length buf \<Longrightarrow> length (buf_put buf off bs) = length buf"
  by (simp add: buf_put_def)

lemma nth_buf_put [buf_simps]:
  "off + length bs \<le> length buf \<Longrightarrow> i < length buf \<Longrightarrow>
   buf_put buf off bs ! i = (if off \<le> i \<and> i < off + length bs then bs ! (i - off) else buf ! i)"
  by (auto simp: buf_put_def nth_append min_def)

lemma buf_put_Nil [simp, buf_simps]: "buf_put buf off [] = buf"
  by (simp add: buf_put_def)

lemma take_nth_slice: "off + n \<le> length buf \<Longrightarrow> i < n \<Longrightarrow> take n (drop off buf) ! i = buf ! (off + i)"
  by simp

section \<open>Integers as bytes\<close>

text \<open>The \<open>k\<close> bytes of an integer in memory, lowest first, and the unsigned value they stand for.\<close>

definition le_bytes :: "nat \<Rightarrow> int \<Rightarrow> byte list" where
  "le_bytes k v = map (\<lambda>i. word_of_int (v div 256 ^ i)) [0..<k]"

fun le_value :: "byte list \<Rightarrow> int" where
  "le_value [] = 0"
| "le_value (b # bs) = uint b + 256 * le_value bs"

lemma length_le_bytes [simp]: "length (le_bytes k v) = k"
  by (simp add: le_bytes_def)

lemma le_bytes_Suc: "le_bytes (Suc k) v = word_of_int v # le_bytes k (v div 256)"
  by (simp add: le_bytes_def upt_conv_Cons map_Suc_upt [symmetric] zdiv_zmult2_eq del: upt_Suc)

lemma le_value_le_bytes: "le_value (le_bytes k v) = v mod 256 ^ k"
proof (induction k arbitrary: v)
  case 0
  then show ?case by (simp add: le_bytes_def)
next
  case (Suc k)
  have "v mod (256 * 256 ^ k) = 256 * (v div 256 mod 256 ^ k) + v mod 256"
    by (rule zmod_zmult2_eq) simp
  then show ?case by (simp add: le_bytes_Suc Suc.IH uint_word_of_int take_bit_eq_mod)
qed

section \<open>Strings as byte lists\<close>

text \<open>\<open>Strncmp(a,b,n)==0\<close> on strings given without their NUL.\<close>

fun strneq :: "nat \<Rightarrow> byte list \<Rightarrow> byte list \<Rightarrow> bool" where
  "strneq 0 a b = True"
| "strneq (Suc n) a b =
     (let x = (if a = [] then 0 else hd a); y = (if b = [] then 0 else hd b)
      in x = y \<and> (x = 0 \<or> strneq n (tl a) (tl b)))"

lemma strneq_same: "strneq n a a"
  by (induction n arbitrary: a) (auto simp: Let_def)

end
