(* ===== verification/Cube_Memfunc.thy ===== *)
theory Cube_Memfunc
  imports Cube_Prelude
begin

text \<open>
  The memory and string routines of \<^verbatim>\<open>cubelib/string/memfunc.c\<close> (first half of the
  file), on the flat byte memory. Each routine takes the memory and the addresses the C
  function gets and returns the new memory with the C result. A loop that runs to a NUL
  byte is a \<^theory_text>\<open>partial_function (option)\<close>: \<open>None\<close> is a run that never ends.
\<close>

section \<open>Memory routines\<close>

text \<open>\<open>while(count-->0) *d++=*s++\<close>: bytes are copied upwards, one at a time.\<close>

fun memcpy_loop :: "mem \<Rightarrow> nat \<Rightarrow> nat \<Rightarrow> nat \<Rightarrow> mem" where
  "memcpy_loop m d s 0 = m"
| "memcpy_loop m d s (Suc count) = memcpy_loop (m(d := m s)) (d + 1) (s + 1) count"

definition Memcpy :: "mem \<Rightarrow> nat \<Rightarrow> nat \<Rightarrow> u32 \<Rightarrow> mem \<times> nat" where
  "Memcpy m dest src count =
     (if dest = src then (m, src) else (memcpy_loop m dest src (unat count), dest))"

text \<open>
  \<open>while(--n && *buf1 == *buf2)\<close>: the counter is decremented before it is tested, as a
  32-bit value, so a call with \<open>n = 0\<close> starts from \<open>-1\<close>.
\<close>

function memcmp_loop :: "mem \<Rightarrow> nat \<Rightarrow> nat \<Rightarrow> u32 \<Rightarrow> int" where
  "memcmp_loop m buf1 buf2 n =
     (if n - 1 \<noteq> 0 \<and> m buf1 = m buf2 then memcmp_loop m (buf1 + 1) (buf2 + 1) (n - 1)
      else uint (m buf1) - uint (m buf2))"
  by pat_completeness auto
termination
proof (relation "measure (\<lambda>(m, buf1, buf2, n). unat (n - 1))", goal_cases)
  case 1
  then show ?case by simp
next
  case (2 m buf1 buf2 n)
  then have "unat (n - 1 - 1) < unat (n - 1)"
    by (metis measure_unat)
  then show ?case by simp
qed

declare memcmp_loop.simps [simp del]

definition Memcmp :: "mem \<Rightarrow> nat \<Rightarrow> nat \<Rightarrow> u32 \<Rightarrow> int" where
  "Memcmp m s1 s2 n = memcmp_loop m s1 s2 n"

text \<open>\<open>for(su=s;n>0;++su,--n) *su=uc\<close>, with \<open>c\<close> truncated to a byte.\<close>

fun memset_loop :: "mem \<Rightarrow> nat \<Rightarrow> byte \<Rightarrow> nat \<Rightarrow> mem" where
  "memset_loop m su uc 0 = m"
| "memset_loop m su uc (Suc n) = memset_loop (m(su := uc)) (su + 1) uc n"

definition Memset :: "mem \<Rightarrow> nat \<Rightarrow> int \<Rightarrow> int \<Rightarrow> mem \<times> nat" where
  "Memset m s c n = (memset_loop m s (word_of_int c) (nat n), s)"

section \<open>String routines\<close>

partial_function (option) strcpy_loop :: "mem \<Rightarrow> nat \<Rightarrow> nat \<Rightarrow> mem option" where
  "strcpy_loop m d s =
     (if m s \<noteq> 0 then strcpy_loop (m(d := m s)) (d + 1) (s + 1) else Some (m(d := 0)))"

definition Strcpy :: "mem \<Rightarrow> nat \<Rightarrow> nat \<Rightarrow> (mem \<times> nat) option" where
  "Strcpy m dest src =
     (if dest = src then Some (m, src)
      else map_option (\<lambda>m'. (m', dest)) (strcpy_loop m dest src))"

text \<open>
  \<open>while((*s!=0)&&(n--))\<close>: the loop returns the memory, the position in the destination
  and the counter left, which decides whether a NUL is written.
\<close>

partial_function (option) strncpy_loop ::
  "mem \<Rightarrow> nat \<Rightarrow> nat \<Rightarrow> int \<Rightarrow> (mem \<times> nat \<times> int) option" where
  "strncpy_loop m d s n =
     (if m s \<noteq> 0
      then (if n \<noteq> 0 then strncpy_loop (m(d := m s)) (d + 1) (s + 1) (n - 1)
            else Some (m, d, n - 1))
      else Some (m, d, n))"

definition Strncpy :: "mem \<Rightarrow> nat \<Rightarrow> nat \<Rightarrow> int \<Rightarrow> (mem \<times> nat) option" where
  "Strncpy m dest src n =
     (if dest = src then Some (m, src)
      else case strncpy_loop m dest src n of
             None \<Rightarrow> None
           | Some (m', d, n') \<Rightarrow> Some (if n' > 0 then m'(d := 0) else m', dest))"

partial_function (option) Strcmp :: "mem \<Rightarrow> nat \<Rightarrow> nat \<Rightarrow> int option" where
  "Strcmp m s1 s2 =
     (let ret = uint (m s1) - uint (m s2)
      in if ret = 0 \<and> m s1 \<noteq> 0 then Strcmp m (s1 + 1) (s2 + 1) else Some ret)"

text \<open>\<open>while(--n && *s1 && *s1==*s2)\<close>; the argument is the counter before the decrement.\<close>

fun strncmp_loop :: "mem \<Rightarrow> nat \<Rightarrow> nat \<Rightarrow> nat \<Rightarrow> int" where
  "strncmp_loop m s1 s2 0 = 0"
| "strncmp_loop m s1 s2 (Suc n) =
     (if n \<noteq> 0 \<and> m s1 \<noteq> 0 \<and> m s1 = m s2 then strncmp_loop m (s1 + 1) (s2 + 1) n
      else uint (m s1) - uint (m s2))"

definition Strncmp :: "mem \<Rightarrow> nat \<Rightarrow> nat \<Rightarrow> int \<Rightarrow> int" where
  "Strncmp m s1 s2 n = (if n \<le> 0 then 0 else strncmp_loop m s1 s2 (nat n))"

partial_function (option) strend_loop :: "mem \<Rightarrow> nat \<Rightarrow> nat option" where
  "strend_loop m cp = (if m cp \<noteq> 0 then strend_loop m (cp + 1) else Some cp)"

definition Strcat :: "mem \<Rightarrow> nat \<Rightarrow> nat \<Rightarrow> (mem \<times> nat) option" where
  "Strcat m dest src =
     (case strend_loop m dest of
        None \<Rightarrow> None
      | Some cp \<Rightarrow> map_option (\<lambda>m'. (m', dest)) (strcpy_loop m cp src))"

text \<open>
  \<open>Strncat\<close>: \<open>n\<close> is the size of the destination. \<open>while(n-- && *cp) cp++\<close> finds its end,
  \<open>while(n-- && (*cp++=*src++))\<close> copies into what is left.
\<close>

partial_function (option) strncat_end_loop :: "mem \<Rightarrow> nat \<Rightarrow> int \<Rightarrow> (nat \<times> int) option" where
  "strncat_end_loop m cp n =
     (if n = 0 then Some (cp, n - 1)
      else if m cp \<noteq> 0 then strncat_end_loop m (cp + 1) (n - 1) else Some (cp, n - 1))"

partial_function (option) strncat_copy_loop :: "mem \<Rightarrow> nat \<Rightarrow> nat \<Rightarrow> int \<Rightarrow> mem option" where
  "strncat_copy_loop m cp src n =
     (if n = 0 then Some m
      else if m src = 0 then Some (m(cp := 0))
      else strncat_copy_loop (m(cp := m src)) (cp + 1) (src + 1) (n - 1))"

definition Strncat :: "mem \<Rightarrow> nat \<Rightarrow> nat \<Rightarrow> int \<Rightarrow> (mem \<times> nat) option" where
  "Strncat m dest src n =
     (case strncat_end_loop m dest n of
        None \<Rightarrow> None
      | Some (cp, n') \<Rightarrow>
          if n' < 0 then Some (m, dest)
          else map_option (\<lambda>m'. (m', dest)) (strncat_copy_loop m cp src n'))"

partial_function (option) strlen_loop :: "mem \<Rightarrow> nat \<Rightarrow> nat \<Rightarrow> nat option" where
  "strlen_loop m str i = (if m (str + i) \<noteq> 0 then strlen_loop m str (i + 1) else Some i)"

definition Strlen :: "mem \<Rightarrow> nat \<Rightarrow> nat option" where
  "Strlen m str = strlen_loop m str 0"

text \<open>\<open>for(i=0;i<n && str[i];i++)\<close>; the last argument is \<open>n - i\<close>.\<close>

fun strnlen_loop :: "mem \<Rightarrow> nat \<Rightarrow> nat \<Rightarrow> nat \<Rightarrow> nat" where
  "strnlen_loop m str i 0 = i"
| "strnlen_loop m str i (Suc k) = (if m (str + i) \<noteq> 0 then strnlen_loop m str (i + 1) k else i)"

definition Strnlen :: "mem \<Rightarrow> nat \<Rightarrow> int \<Rightarrow> nat" where
  "Strnlen m str n = strnlen_loop m str 0 (nat n)"

section \<open>Properties of the memory routines\<close>

text \<open>Updates of the memory are unfolded on demand only.\<close>

declare fun_upd_apply [simp del] fun_upd_same [simp] fun_upd_other [simp]

lemma memcpy_loop_outside: "\<not> (d \<le> x \<and> x < d + n) \<Longrightarrow> memcpy_loop m d s n x = m x"
  by (induction n arbitrary: m d s) (auto simp: fun_upd_apply)

text \<open>
  The upward copy is exact whenever the destination does not begin inside the source:
  the ranges may be disjoint, or overlap with the destination below.
\<close>

lemma memcpy_loop_copy:
  "d \<le> s \<or> s + n \<le> d \<Longrightarrow> memcpy_loop m d s n = mem_write m d (mem_bytes m s n)"
proof (induction n arbitrary: m d s)
  case 0
  then show ?case by simp
next
  case (Suc n)
  have "memcpy_loop (m(d := m s)) (d + 1) (s + 1) n
      = mem_write (m(d := m s)) (d + 1) (mem_bytes (m(d := m s)) (s + 1) n)"
    using Suc.prems by (intro Suc.IH) auto
  also have "mem_bytes (m(d := m s)) (s + 1) n = mem_bytes m (s + 1) n"
    using Suc.prems by (intro mem_bytes_cong) (auto simp: fun_upd_apply)
  finally show ?case by (simp add: mem_bytes_Suc)
qed

lemma memset_loop_write: "memset_loop m s c n = mem_write m s (replicate n c)"
  by (induction n arbitrary: m s) auto

lemma memcmp_loop_zero_iff:
  "n \<noteq> 0 \<Longrightarrow> memcmp_loop m p q n = 0 \<longleftrightarrow> (\<forall>i<unat n. m (p + i) = m (q + i))"
proof (induction m p q n rule: memcmp_loop.induct)
  case (1 m p q n)
  obtain k where k: "unat n = Suc k" using \<open>n \<noteq> 0\<close> by (metis not0_implies_Suc unat_eq_0)
  then have k1: "unat (n - 1) = k" by (metis Suc_unat_minus_one \<open>n \<noteq> 0\<close> nat.inject)
  have all: "(\<forall>i<Suc k. m (p + i) = m (q + i)) \<longleftrightarrow>
      m p = m q \<and> (\<forall>i<k. m (p + 1 + i) = m (q + 1 + i))"
    by (auto simp: less_Suc_eq_0_disj)
  show ?case
  proof (cases "n - 1 \<noteq> 0 \<and> m p = m q")
    case True
    then show ?thesis using "1.IH" k k1 all by (simp add: memcmp_loop.simps [of m p q n])
  next
    case False
    have "n - 1 = 0 \<longleftrightarrow> k = 0" using k1 by (metis unat_0 unat_eq_0)
    then show ?thesis using False k all
      by (auto simp: memcmp_loop.simps [of m p q n])
  qed
qed

lemma memcmp_loop_first_diff:
  "i < unat n \<Longrightarrow> m (p + i) \<noteq> m (q + i) \<Longrightarrow> (\<forall>j<i. m (p + j) = m (q + j)) \<Longrightarrow>
   memcmp_loop m p q n = uint (m (p + i)) - uint (m (q + i))"
proof (induction m p q n arbitrary: i rule: memcmp_loop.induct)
  case (1 m p q n)
  show ?case
  proof (cases i)
    case 0
    then show ?thesis using "1.prems" by (simp add: memcmp_loop.simps [of m p q n])
  next
    case (Suc j)
    have "n \<noteq> 0" using "1.prems"(1) by auto
    then have u: "unat n = Suc (unat (n - 1))" by (simp add: Suc_unat_minus_one)
    then have "unat (n - 1) \<noteq> 0" using "1.prems"(1) Suc by simp
    then have c: "n - 1 \<noteq> 0 \<and> m p = m q" using "1.prems"(3) Suc by fastforce
    have "memcmp_loop m (p + 1) (q + 1) (n - 1)
        = uint (m (p + 1 + j)) - uint (m (q + 1 + j))"
      using c "1.prems" Suc u by (intro "1.IH") auto
    then show ?thesis using c Suc by (simp add: memcmp_loop.simps [of m p q n])
  qed
qed

section \<open>Properties of the string routines\<close>

lemma strlen_loop_cstr: "cstr m (str + i) s \<Longrightarrow> strlen_loop m str i = Some (i + length s)"
proof (induction s arbitrary: i)
  case Nil
  then show ?case by (subst strlen_loop.simps) simp
next
  case (Cons b s)
  then have "strlen_loop m str (i + 1) = Some (i + 1 + length s)"
    by (intro Cons.IH) (simp add: cstr_Cons)
  then show ?case using Cons.prems by (subst strlen_loop.simps) (simp add: cstr_Cons)
qed

lemma Strlen_cstr: "cstr m str s \<Longrightarrow> Strlen m str = Some (length s)"
  using strlen_loop_cstr [of m str 0 s] by (simp add: Strlen_def)

lemma strlen_loop_Some:
  assumes "strlen_loop m str i = Some r"
  shows "i \<le> r \<and> m (str + r) = 0 \<and> (\<forall>j. i \<le> j \<longrightarrow> j < r \<longrightarrow> m (str + j) \<noteq> 0)"
proof (rule strlen_loop.raw_induct
    [where P = "\<lambda>m str i r. i \<le> r \<and> m (str + r) = 0 \<and> (\<forall>j. i \<le> j \<longrightarrow> j < r \<longrightarrow> m (str + j) \<noteq> 0)",
      OF _ assms])
  fix f and m :: mem and str i r :: nat
  assume IH: "\<And>m str i r. f m str i = Some r \<Longrightarrow>
      i \<le> r \<and> m (str + r) = 0 \<and> (\<forall>j. i \<le> j \<longrightarrow> j < r \<longrightarrow> m (str + j) \<noteq> 0)"
    and eq: "(if m (str + i) \<noteq> 0 then f m str (i + 1) else Some i) = Some r"
  show "i \<le> r \<and> m (str + r) = 0 \<and> (\<forall>j. i \<le> j \<longrightarrow> j < r \<longrightarrow> m (str + j) \<noteq> 0)"
  proof (cases "m (str + i) = 0")
    case False
    then have "f m str (i + 1) = Some r" using eq by simp
    note r = IH [OF this]
    have "m (str + j) \<noteq> 0" if "i \<le> j" "j < r" for j
    proof (cases "j = i")
      case False
      then have "i + 1 \<le> j" using that by simp
      then show ?thesis using r that by blast
    qed (use \<open>m (str + i) \<noteq> 0\<close> in simp)
    then show ?thesis using r by auto
  qed (use eq in auto)
qed

lemma Strlen_Some: "Strlen m str = Some n \<Longrightarrow> cstr m str (mem_bytes m str n)"
  using strlen_loop_Some [of m str 0 n]
  by (intro cstrI) (auto simp: Strlen_def in_set_conv_nth)

lemma strnlen_loop_le: "strnlen_loop m str i k \<le> i + k"
  by (induction m str i k rule: strnlen_loop.induct) auto

lemma strnlen_loop_takeWhile:
  "strnlen_loop m str i k = i + length (takeWhile (\<lambda>b. b \<noteq> 0) (mem_bytes m (str + i) k))"
  by (induction m str i k rule: strnlen_loop.induct) (auto simp: mem_bytes_Suc)

lemma Strnlen_takeWhile:
  "Strnlen m str n = length (takeWhile (\<lambda>b. b \<noteq> 0) (mem_bytes m str (nat n)))"
  using strnlen_loop_takeWhile [of m str 0 "nat n"] by (simp add: Strnlen_def)

lemma takeWhile_cstr:
  "cstr m a s \<Longrightarrow> takeWhile (\<lambda>b. b \<noteq> 0) (mem_bytes m a k) = take k s"
proof (induction s arbitrary: a k)
  case Nil
  then show ?case by (cases k) (auto simp: mem_bytes_Suc)
next
  case (Cons b s)
  then show ?case by (cases k) (auto simp: mem_bytes_Suc cstr_Cons)
qed

lemma Strnlen_cstr: "cstr m str s \<Longrightarrow> Strnlen m str n = min (nat n) (length s)"
  by (simp add: Strnlen_takeWhile takeWhile_cstr)

lemma cstr_upd_outside: "x < a \<or> a + length s < x \<Longrightarrow> cstr (m(x := b)) a s = cstr m a s"
proof -
  assume "x < a \<or> a + length s < x"
  then have "mem_bytes (m(x := b)) a (length s) = mem_bytes m a (length s)"
    and "(m(x := b)) (a + length s) = m (a + length s)"
    by (auto intro: mem_bytes_cong simp: fun_upd_apply)
  then show ?thesis by (simp add: cstr_def)
qed

lemma strcpy_loop_copy:
  "cstr m s str \<Longrightarrow> disjoint_range d (length str + 1) s (length str + 1) \<or> d < s \<Longrightarrow>
   strcpy_loop m d s = Some (mem_write m d (str @ [0]))"
proof (induction str arbitrary: m d s)
  case Nil
  then show ?case by (simp add: strcpy_loop.simps)
next
  case (Cons b str)
  have "cstr (m(d := b)) (Suc s) str"
    using Cons.prems by (subst cstr_upd_outside) (auto simp: cstr_Cons disjoint_range_def)
  then have "strcpy_loop (m(d := b)) (Suc d) (Suc s) = Some (mem_write (m(d := b)) (Suc d) (str @ [0]))"
    using Cons.prems by (intro Cons.IH) (auto simp: disjoint_range_def)
  then show ?case using Cons.prems
    by (simp add: strcpy_loop.simps [of m d s] cstr_Cons)
qed

lemma cstr_mem_write: "0 \<notin> set s \<Longrightarrow> cstr (mem_write m a (s @ [0])) a s"
  by (rule cstrI) (auto simp: mem_write_apply nth_append)

lemma strncpy_loop_copy:
  "cstr m s str \<Longrightarrow> disjoint_range d (length str + 1) s (length str + 1) \<Longrightarrow> 0 \<le> n \<Longrightarrow>
   strncpy_loop m d s n =
     Some (mem_write m d (take (nat n) str), d + min (nat n) (length str),
           if nat n < length str then -1 else n - int (length str))"
proof (induction str arbitrary: m d s n)
  case Nil
  then show ?case by (simp add: strncpy_loop.simps)
next
  case (Cons b str)
  show ?case
  proof (cases "n = 0")
    case True
    then show ?thesis using Cons.prems by (simp add: strncpy_loop.simps [of m d s 0] cstr_Cons)
  next
    case False
    then have "0 \<le> n - 1" using Cons.prems(3) by simp
    then obtain k where "n - 1 = int k" using zero_le_imp_eq_int by blast
    then have k: "nat n = Suc k" "n = int k + 1" by auto
    have "cstr (m(d := b)) (Suc s) str"
      using Cons.prems by (subst cstr_upd_outside) (auto simp: cstr_Cons disjoint_range_def)
    then have "strncpy_loop (m(d := b)) (Suc d) (Suc s) (int k) =
        Some (mem_write (m(d := b)) (Suc d) (take k str), Suc d + min k (length str),
              if k < length str then -1 else int k - int (length str))"
      using Cons.IH [of "m(d := b)" "Suc s" "Suc d" "int k"] Cons.prems
      by (auto simp: disjoint_range_def)
    then show ?thesis using Cons.prems k
      by (simp add: strncpy_loop.simps [of m d s "int k + 1"] cstr_Cons)
  qed
qed

lemma Strncpy_cstr:
  assumes "cstr m src s" "dest \<noteq> src" "0 \<le> n"
    and "disjoint_range dest (length s + 1) src (length s + 1)"
  shows "Strncpy m dest src n =
    Some (mem_write m dest (take (nat n) s @ (if length s < nat n then [0] else [])), dest)"
proof -
  have "int (length s) < n \<longleftrightarrow> length s < nat n" using assms(3) by linarith
  then show ?thesis using assms
    by (auto simp: Strncpy_def strncpy_loop_copy mem_write_append)
qed

lemma Strcmp_cstr:
  "cstr m p s \<Longrightarrow> cstr m q t \<Longrightarrow> \<exists>r. Strcmp m p q = Some r \<and> (r = 0 \<longleftrightarrow> s = t)"
proof (induction s arbitrary: p q t)
  case Nil
  then show ?case by (cases t) (auto simp: Strcmp.simps [of m p q] cstr_Cons)
next
  case (Cons b s)
  show ?case
  proof (cases "\<exists>t'. t = b # t'")
    case True
    then obtain t' where t: "t = b # t'" by blast
    have "\<exists>r. Strcmp m (Suc p) (Suc q) = Some r \<and> (r = 0 \<longleftrightarrow> s = t')"
      using Cons.prems t by (intro Cons.IH) (auto simp: cstr_Cons)
    then show ?thesis using Cons.prems t by (simp add: Strcmp.simps [of m p q] cstr_Cons)
  next
    case False
    then have "m q \<noteq> m p" using Cons.prems by (cases t) (auto simp: cstr_Cons)
    then show ?thesis using Cons.prems False
      by (auto simp: Strcmp.simps [of m p q] cstr_Cons Let_def)
  qed
qed

lemma strncmp_loop_zero_iff:
  "cstr m p s \<Longrightarrow> cstr m q t \<Longrightarrow> 0 < n \<Longrightarrow>
   strncmp_loop m p q n = 0 \<longleftrightarrow> take n s = take n t"
proof (induction n arbitrary: p q s t)
  case 0
  then show ?case by simp
next
  case (Suc n)
  show ?case
  proof (cases "n \<noteq> 0 \<and> m p \<noteq> 0 \<and> m p = m q")
    case True
    then obtain b s' t' where st: "s = b # s'" "t = b # t'" "cstr m (Suc p) s'" "cstr m (Suc q) t'"
      using Suc.prems by (cases s; cases t) (auto simp: cstr_Cons)
    have "strncmp_loop m (Suc p) (Suc q) n = 0 \<longleftrightarrow> take n s' = take n t'"
      using True st by (intro Suc.IH) auto
    then show ?thesis using True st by auto
  next
    case False
    then show ?thesis using Suc.prems
      by (cases s; cases t) (auto simp: cstr_Cons)
  qed
qed

lemma strend_loop_cstr: "cstr m cp s \<Longrightarrow> strend_loop m cp = Some (cp + length s)"
proof (induction s arbitrary: cp)
  case Nil
  then show ?case by (subst strend_loop.simps) simp
next
  case (Cons b s)
  then have "strend_loop m (cp + 1) = Some (cp + 1 + length s)"
    by (intro Cons.IH) (simp add: cstr_Cons)
  then show ?case using Cons.prems by (subst strend_loop.simps) (simp add: cstr_Cons)
qed

lemma strncat_end_loop_cstr:
  "cstr m cp s \<Longrightarrow> int (length s) < n \<Longrightarrow>
   strncat_end_loop m cp n = Some (cp + length s, n - int (length s) - 1)"
proof (induction s arbitrary: cp n)
  case Nil
  then show ?case by (subst strncat_end_loop.simps) simp
next
  case (Cons b s)
  then have "strncat_end_loop m (cp + 1) (n - 1) = Some (cp + 1 + length s, n - 1 - int (length s) - 1)"
    by (intro Cons.IH) (auto simp: cstr_Cons)
  then show ?case using Cons.prems by (subst strncat_end_loop.simps) (simp add: cstr_Cons)
qed

lemma strncat_copy_loop_cstr:
  "cstr m src t \<Longrightarrow> disjoint_range cp (length t + 1) src (length t + 1) \<Longrightarrow>
   int (length t) < n \<Longrightarrow> strncat_copy_loop m cp src n = Some (mem_write m cp (t @ [0]))"
proof (induction t arbitrary: m cp src n)
  case Nil
  then show ?case by (subst strncat_copy_loop.simps) simp
next
  case (Cons b t)
  have "cstr (m(cp := b)) (Suc src) t"
    using Cons.prems by (subst cstr_upd_outside) (auto simp: cstr_Cons disjoint_range_def)
  then have "strncat_copy_loop (m(cp := b)) (Suc cp) (Suc src) (n - 1)
      = Some (mem_write (m(cp := b)) (Suc cp) (t @ [0]))"
    using Cons.prems by (intro Cons.IH) (auto simp: disjoint_range_def)
  then show ?case using Cons.prems
    by (subst strncat_copy_loop.simps) (simp add: cstr_Cons)
qed

lemma cstr_append_write:
  assumes "cstr m dest s" "0 \<notin> set t"
  shows "cstr (mem_write m (dest + length s) (t @ [0])) dest (s @ t)"
proof (rule cstrI)
  fix i assume "i < length (s @ t)"
  then show "mem_write m (dest + length s) (t @ [0]) (dest + i) = (s @ t) ! i"
    using cstr_nth [OF assms(1)] by (auto simp: mem_write_apply nth_append)
next
  show "0 \<notin> set (s @ t)" using assms by (simp add: cstr_def)
qed (simp add: mem_write_apply nth_append)

text \<open>\<open>Memcpy\<close>, a plain upward byte loop, copies exactly as \<^verbatim>\<open>memmove\<close> does whenever
  the destination does not start inside the source: the destination then holds what the
  source held before the call, every other byte is unchanged, and the destination is
  returned.\<close>

theorem Memcpy_copies:
  assumes "dest \<le> src \<or> src + unat count \<le> dest"
  shows "fst (Memcpy m dest src count) = mem_write m dest (mem_bytes m src (unat count))
    \<and> mem_bytes (fst (Memcpy m dest src count)) dest (unat count) = mem_bytes m src (unat count)
    \<and> snd (Memcpy m dest src count) = dest"
proof (cases "dest = src")
  case True
  have "mem_write m src (mem_bytes m src (unat count)) = m"
    by (rule ext) (auto simp: mem_write_apply)
  then show ?thesis using True by (simp add: Memcpy_def)
next
  case False
  have "mem_bytes (mem_write m dest (mem_bytes m src (unat count))) dest (unat count)
      = mem_bytes m src (unat count)"
    using mem_bytes_mem_write [of m dest "mem_bytes m src (unat count)"] by simp
  then show ?thesis using assms False by (simp add: Memcpy_def memcpy_loop_copy)
qed

theorem Memcpy_copies_witness:
  "fst (Memcpy (\<lambda>a. of_nat a) 3 5 4) 6 = 8 \<and> mem_bytes (fst (Memcpy (\<lambda>a. of_nat a) 3 5 4)) 3 4 = [5, 6, 7, 8]"
proof -
  have pre: "(3::nat) \<le> 5 \<or> 5 + unat (4::u32) \<le> 3" by simp
  have b: "mem_bytes (\<lambda>a. of_nat a :: byte) 5 4 = [5, 6, 7, 8]"
    by (simp add: mem_bytes_def upt_rec)
  note copied = Memcpy_copies [OF pre, of "\<lambda>a. of_nat a"]
  have "fst (Memcpy (\<lambda>a. of_nat a) 3 5 4) = mem_write (\<lambda>a. of_nat a) 3 [5, 6, 7, 8]"
    using copied b by simp
  then have "fst (Memcpy (\<lambda>a. of_nat a) 3 5 4) 6 = 8" by simp
  moreover have "mem_bytes (fst (Memcpy (\<lambda>a. of_nat a) 3 5 4)) 3 (unat (4::u32))
      = mem_bytes (\<lambda>a. of_nat a) 5 (unat (4::u32))"
    using copied by blast
  ultimately show ?thesis using b by simp
qed

text \<open>\<open>Memcmp\<close> on a positive length is 0 exactly when the two ranges are equal, and
  otherwise the difference of the first two bytes that differ, read unsigned.\<close>

theorem Memcmp_correct:
  assumes "0 < n"
  shows "(Memcmp m p q n = 0 \<longleftrightarrow> mem_bytes m p (unat n) = mem_bytes m q (unat n))
    \<and> (\<forall>i < unat n. m (p + i) \<noteq> m (q + i) \<and> (\<forall>j < i. m (p + j) = m (q + j)) \<longrightarrow>
          Memcmp m p q n = uint (m (p + i)) - uint (m (q + i)))"
proof -
  have "n \<noteq> 0" using assms by simp
  then show ?thesis
    by (simp add: Memcmp_def memcmp_loop_zero_iff mem_bytes_eq_iff memcmp_loop_first_diff)
qed

theorem Memcmp_correct_witness:
  "Memcmp (\<lambda>a. if a = 12 then 9 else 4) 0 10 5 = -5 \<and> Memcmp (\<lambda>a. 4) 0 10 5 = 0"
proof -
  have n: "0 < (5::u32)" by simp
  have "Memcmp (\<lambda>a. if a = 12 then 9 else 4) 0 10 5 = uint (4::byte) - uint (9::byte)"
    using Memcmp_correct [OF n, of "\<lambda>a. if a = 12 then 9 else 4" 0 10]
    by (auto dest: spec [of _ 2])
  moreover have "Memcmp (\<lambda>a. 4) 0 10 5 = 0"
    using Memcmp_correct [OF n, of "\<lambda>a. 4" 0 10] by (simp add: mem_bytes_def)
  ultimately show ?thesis by simp
qed

text \<open>\<open>Strcat\<close> terminates on terminated strings whose storage does not meet and leaves
  their concatenation, terminated, in the destination; \<open>Strlen\<close> of it is the sum.\<close>

theorem Strcat_concatenates:
  assumes "cstr m dest s" "cstr m src t"
    and "disjoint_range dest (length s + length t + 1) src (length t + 1)"
  shows "\<exists>m'. Strcat m dest src = Some (m', dest) \<and> cstr m' dest (s @ t)
    \<and> Strlen m' dest = Some (length s + length t)"
proof -
  have "disjoint_range (dest + length s) (length t + 1) src (length t + 1)"
    using assms(3) by (auto simp: disjoint_range_def)
  then have "strcpy_loop m (dest + length s) src = Some (mem_write m (dest + length s) (t @ [0]))"
    using assms(2) by (simp add: strcpy_loop_copy)
  moreover have "cstr (mem_write m (dest + length s) (t @ [0])) dest (s @ t)"
    using assms by (intro cstr_append_write) (auto simp: cstr_def)
  ultimately show ?thesis using assms(1) Strlen_cstr
    by (fastforce simp: Strcat_def strend_loop_cstr)
qed

theorem Strcat_concatenates_witness:
  "\<exists>m'. Strcat (\<lambda>a. if a = 0 then 65 else if a = 10 then 66 else 0) 0 10 = Some (m', 0) \<and> cstr m' 0 [65, 66]"
proof -
  let ?m = "\<lambda>a::nat. if a = 0 then 65 else if a = 10 then 66 else 0 :: byte"
  have "cstr ?m 0 [65]" "cstr ?m 10 [66]" by (simp_all add: cstr_Cons)
  moreover have "disjoint_range 0 (length [65::byte] + length [66::byte] + 1) 10 (length [66::byte] + 1)"
    by (simp add: disjoint_range_def)
  ultimately have "\<exists>m'. Strcat ?m 0 10 = Some (m', 0) \<and> cstr m' 0 ([65] @ [66])
    \<and> Strlen m' 0 = Some (length [65::byte] + length [66::byte])"
    by (rule Strcat_concatenates)
  then show ?thesis by auto
qed

end
