(* ===== verification/Cube_Strconv.thy ===== *)
theory Cube_Strconv
  imports Cube_Memfunc
begin

text \<open>
  The second half of \<^verbatim>\<open>cubelib/string/memfunc.c\<close>: field splitting, decimal and hexadecimal
  conversion, bit search, uuid tests and bitmaps, on the flat byte memory.
\<close>

section \<open>Field splitting\<close>

partial_function (option) skip_spaces :: "mem \<Rightarrow> nat \<Rightarrow> nat \<Rightarrow> nat option" where
  "skip_spaces m str i = (if m (str + i) = 32 then skip_spaces m str (i + 1) else Some i)"

text \<open>The last argument is \<open>limit - offset\<close>.\<close>

fun field_loop :: "mem \<Rightarrow> nat \<Rightarrow> nat \<Rightarrow> byte \<Rightarrow> nat \<Rightarrow> nat \<Rightarrow> nat \<Rightarrow> mem \<times> nat" where
  "field_loop m name str IFS offset i 0 = (m(name := 0), i)"
| "field_loop m name str IFS offset i (Suc k) =
     (if m (str + i) = IFS \<or> m (str + i) = 0 then (m(name + offset := 0), i)
      else field_loop (m(name + offset := m (str + i))) name str IFS (offset + 1) (i + 1) k)"

definition maxnamelen :: int where
  "maxnamelen = 257"

definition Getfiledfromstr ::
  "mem \<Rightarrow> nat \<Rightarrow> nat \<Rightarrow> byte \<Rightarrow> int \<Rightarrow> (mem \<times> nat) option" where
  "Getfiledfromstr m name str IFS maxsize =
     (let limit = (if maxsize = 0 then maxnamelen else maxsize)
      in case skip_spaces m str 0 of
           None \<Rightarrow> None
         | Some i \<Rightarrow>
             if m (str + i) = 0 then Some (m, 0)
             else Some (field_loop m name str IFS 0 i (nat limit)))"

section \<open>Decimal conversion\<close>

text \<open>\<open>do { str[len++]=n%10+'0'; n=n/10; } while(n>0)\<close>: the digits, least significant first.\<close>

function itoa_digits :: "int \<Rightarrow> byte list" where
  "itoa_digits n =
     word_of_int (c_mod n 10 + 48) # (if c_div n 10 > 0 then itoa_digits (c_div n 10) else [])"
  by pat_completeness auto
termination
  by (relation "measure nat") (auto simp: c_div_def split: if_splits)

declare itoa_digits.simps [simp del]

text \<open>\<open>for(i=0;i<len/2;i++)\<close> swaps \<open>str[i]\<close> with \<open>str[len-1-i]\<close>.\<close>

fun swap_loop :: "byte list \<Rightarrow> nat \<Rightarrow> nat \<Rightarrow> byte list" where
  "swap_loop str i 0 = str"
| "swap_loop str i (Suc k) =
     swap_loop (str[i := str ! (length str - 1 - i), length str - 1 - i := str ! i]) (i + 1) k"

definition Itoa :: "mem \<Rightarrow> int \<Rightarrow> nat \<Rightarrow> mem \<times> nat" where
  "Itoa m n str =
     (let n' = (if n < 0 then wrap32 (- n) else n);
          ds = itoa_digits n' @ (if n < 0 then [45] else []);
          len = length ds
      in (mem_write m str (swap_loop ds 0 (len div 2) @ [0]), len))"

definition isdigit_c :: "byte \<Rightarrow> bool" where
  "isdigit_c c \<longleftrightarrow> 48 \<le> c \<and> c \<le> 57"

definition ishexdigit_c :: "byte \<Rightarrow> bool" where
  "ishexdigit_c c \<longleftrightarrow> (48 \<le> c \<and> c \<le> 57) \<or> (97 \<le> c \<and> c \<le> 102) \<or> (65 \<le> c \<and> c \<le> 70)"

definition get_char_value :: "byte \<Rightarrow> int" where
  "get_char_value c =
     (if isdigit_c c then uint c - 48
      else if 97 \<le> c \<and> c \<le> 102 then uint c - 97 + 10
      else if 65 \<le> c \<and> c \<le> 70 then uint c - 65 + 10
      else - EINVAL)"

text \<open>
  The head loop of \<open>Atoi\<close>: \<open>None\<close> is its \<open>return 0\<close>, \<open>Some (i, base)\<close> the position and base
  it leaves with. A space advances \<open>i\<close> in the body and again in the loop header.
\<close>

function atoi_head :: "mem \<Rightarrow> nat \<Rightarrow> nat \<Rightarrow> nat \<Rightarrow> (nat \<times> int) option" where
  "atoi_head m s str_len i =
     (if i < str_len then
        if m (s + i) = 0 then Some (i, 10)
        else if m (s + i) = 32 then atoi_head m s str_len (i + 2)
        else if m (s + i) = 48 then
          (if m (s + i + 1) = 0 then None
           else if m (s + i + 1) = 98 \<or> m (s + i + 1) = 66 then Some (i + 2, 2)
           else if m (s + i + 1) = 120 \<or> m (s + i + 1) = 88 then Some (i + 2, 16)
           else Some (i + 1, 8))
        else Some (i, 10)
      else Some (i, 10))"
  by pat_completeness auto
termination
  by (relation "measure (\<lambda>(m, s, str_len, i). str_len - i)") auto

declare atoi_head.simps [simp del]

text \<open>\<open>for(;i<str_len;i++)\<close>; the last argument is \<open>str_len - i\<close>.\<close>

fun atoi_tail :: "mem \<Rightarrow> nat \<Rightarrow> nat \<Rightarrow> int \<Rightarrow> int \<Rightarrow> nat \<Rightarrow> int" where
  "atoi_tail m s i base ret 0 = ret"
| "atoi_tail m s i base ret (Suc k) =
     (if m (s + i) = 0 then ret
      else let temp_value = get_char_value (m (s + i))
           in if temp_value < 0 \<or> temp_value \<ge> base then - EINVAL
              else atoi_tail m s (i + 1) base (wrap32 (ret * base + temp_value)) k)"

definition Atoi :: "mem \<Rightarrow> nat \<Rightarrow> int \<Rightarrow> int" where
  "Atoi m s maxlen =
     (let str_len = (if maxlen = 0 then Strnlen m s (int DIGEST_SIZE) else Strnlen m s maxlen)
      in case atoi_head m s str_len 0 of
           None \<Rightarrow> 0
         | Some (i, base) \<Rightarrow> atoi_tail m s i base 0 (str_len - i))"

section \<open>Lowest set bit\<close>

definition lowbit_masks :: "u64 list" where
  "lowbit_masks =
     [0x00000000FFFFFFFF, 0x0000FFFF0000FFFF, 0x00FF00FF00FF00FF,
      0x0F0F0F0F0F0F0F0F, 0x3333333333333333, 0x5555555555555555]"

fun lowbit_loop :: "u64 list \<Rightarrow> u64 \<Rightarrow> nat \<Rightarrow> nat \<Rightarrow> nat" where
  "lowbit_loop [] value ret offset = ret"
| "lowbit_loop (mk # mks) value ret offset =
     (if mk AND value = 0 then lowbit_loop mks value (ret + offset) (offset div 2)
      else lowbit_loop mks (value AND mk) ret (offset div 2))"

definition get_lowest_bit :: "u64 \<Rightarrow> nat" where
  "get_lowest_bit value = (if value = 0 then 0 else lowbit_loop lowbit_masks value 0 32 + 1)"

text \<open>A \<^verbatim>\<open>long long\<close> whose low bytes are filled by \<open>Memcpy\<close> on the little-endian target.\<close>

fun le_word :: "byte list \<Rightarrow> u64" where
  "le_word [] = 0"
| "le_word (b # bs) = ucast b OR push_bit 8 (le_word bs)"

function getlowestbit_loop :: "mem \<Rightarrow> nat \<Rightarrow> nat \<Rightarrow> bool \<Rightarrow> nat \<Rightarrow> nat \<Rightarrow> nat" where
  "getlowestbit_loop m adr sz b i ret =
     (if i < sz then
        let test = le_word (mem_bytes m (adr + i) (if i + 8 > sz then sz - i else 8))
        in if b then
             (if test = 0 then getlowestbit_loop m adr sz b (i + 8) (ret + 64)
              else ret + get_lowest_bit test)
           else
             (if test = - 1 then getlowestbit_loop m adr sz b (i + 8) (ret + 64)
              else ret + get_lowest_bit (NOT test))
      else 0)"
  by pat_completeness auto
termination
  by (relation "measure (\<lambda>(m, adr, sz, b, i, ret). sz - i)") auto

declare getlowestbit_loop.simps [simp del]

definition Getlowestbit :: "mem \<Rightarrow> nat \<Rightarrow> int \<Rightarrow> bool \<Rightarrow> nat" where
  "Getlowestbit m adr sz b =
     (if sz \<le> 0 then 0
      else if sz \<le> 8 then
        (let test = le_word (mem_bytes m adr (nat sz))
         in if b then get_lowest_bit test else get_lowest_bit (NOT test))
      else getlowestbit_loop m adr (nat sz) b 0 0)"

section \<open>Uuid tests\<close>

fun validuuid_loop :: "mem \<Rightarrow> nat \<Rightarrow> nat \<Rightarrow> nat \<Rightarrow> bool" where
  "validuuid_loop m uuid i 0 = True"
| "validuuid_loop m uuid i (Suc k) =
     (if ishexdigit_c (m (uuid + i)) then validuuid_loop m uuid (i + 1) k else False)"

definition Isvaliduuid :: "mem \<Rightarrow> nat \<Rightarrow> bool" where
  "Isvaliduuid m uuid = validuuid_loop m uuid 0 (DIGEST_SIZE * 2)"

text \<open>\<open>compvalue\<close> is the address of the local array of the two routines.\<close>

definition Isstrinuuid :: "mem \<Rightarrow> nat \<Rightarrow> nat \<Rightarrow> bool" where
  "Isstrinuuid m compvalue uuid =
     (let m' = fst (Memset m compvalue 0 (int DIGEST_SIZE));
          len = Strnlen m' uuid (int DIGEST_SIZE)
      in if len > DIGEST_SIZE div 4 * 3 then False
         else if Memcmp m' compvalue (uuid + len) (of_nat (DIGEST_SIZE - len)) = 0
         then (if len \<le> DIGEST_SIZE div 4 * 3 then True
               else (\<forall>i < len. \<not> 127 \<le> m' (uuid + i)))
         else False)"

definition Isemptyuuid :: "mem \<Rightarrow> nat \<Rightarrow> nat \<Rightarrow> bool" where
  "Isemptyuuid m compvalue uuid =
     (Memcmp (fst (Memset m compvalue 0 (int DIGEST_SIZE))) compvalue uuid (of_nat DIGEST_SIZE) = 0)"

section \<open>Bitmaps\<close>

definition bitmap_set :: "mem \<Rightarrow> nat \<Rightarrow> nat \<Rightarrow> mem" where
  "bitmap_set m bitmap site =
     (let c = push_bit (site mod 8) 1
      in m(bitmap + site div 8 := m (bitmap + site div 8) OR c))"

definition bitmap_clear :: "mem \<Rightarrow> nat \<Rightarrow> nat \<Rightarrow> mem" where
  "bitmap_clear m bitmap site =
     (let c = push_bit (site mod 8) 1
      in m(bitmap + site div 8 := m (bitmap + site div 8) AND NOT c))"

definition bitmap_get :: "mem \<Rightarrow> nat \<Rightarrow> nat \<Rightarrow> int" where
  "bitmap_get m bitmap site =
     (let c = push_bit (site mod 8) 1 in uint (m (bitmap + site div 8) AND c))"

fun allset_loop :: "mem \<Rightarrow> nat \<Rightarrow> nat \<Rightarrow> nat \<Rightarrow> bool" where
  "allset_loop m bitmap i 0 = True"
| "allset_loop m bitmap i (Suc k) =
     (if m (bitmap + i) \<noteq> 0xff then False else allset_loop m bitmap (i + 1) k)"

definition bitmap_is_allset :: "mem \<Rightarrow> nat \<Rightarrow> nat \<Rightarrow> bool" where
  "bitmap_is_allset m bitmap sz =
     (if \<not> allset_loop m bitmap 0 (sz div 8) then False
      else if sz mod 8 = 0 then True
      else m (bitmap + sz div 8) = drop_bit (7 - sz mod 8) 0x7f)"

section \<open>Hexadecimal conversion\<close>

definition hex_char :: "byte \<Rightarrow> byte" where
  "hex_char tempdata = (if tempdata > 9 then tempdata - 10 + 97 else tempdata + 48)"

fun bin_2_hex_loop :: "mem \<Rightarrow> nat \<Rightarrow> nat \<Rightarrow> nat \<Rightarrow> nat \<Rightarrow> mem" where
  "bin_2_hex_loop m bin hex i 0 = m"
| "bin_2_hex_loop m bin hex i (Suc k) =
     (let m1 = m(hex + i * 2 := hex_char (drop_bit 4 (m (bin + i))));
          m2 = m1(hex + i * 2 + 1 := hex_char (m1 (bin + i) AND 0x0f))
      in bin_2_hex_loop m2 bin hex (i + 1) k)"

definition bin_2_hex :: "mem \<Rightarrow> nat \<Rightarrow> nat \<Rightarrow> nat \<Rightarrow> mem \<times> int" where
  "bin_2_hex m bin sz hex = (bin_2_hex_loop m bin hex 0 sz, int sz * 2)"

text \<open>The digit value of \<open>hex_2_bin\<close>: letters are \<open>hex[i]-'a'\<close> and \<open>hex[i]-'A'\<close>, without 10.\<close>

definition hex_2_bin_value :: "byte \<Rightarrow> byte option" where
  "hex_2_bin_value c =
     (if 48 \<le> c \<and> c \<le> 57 then Some (c - 48)
      else if 97 \<le> c \<and> c \<le> 102 then Some (c - 97)
      else if 65 \<le> c \<and> c \<le> 70 then Some (c - 65)
      else None)"

fun hex_2_bin_loop :: "mem \<Rightarrow> nat \<Rightarrow> nat \<Rightarrow> nat \<Rightarrow> nat \<Rightarrow> mem \<times> bool" where
  "hex_2_bin_loop m hex bin i 0 = (m, True)"
| "hex_2_bin_loop m hex bin i (Suc k) =
     (case hex_2_bin_value (m (hex + i)) of
        None \<Rightarrow> (m, False)
      | Some var \<Rightarrow>
          if i mod 2 = 0 then hex_2_bin_loop (m(bin + i div 2 := var * 0x10)) hex bin (i + 1) k
          else hex_2_bin_loop (m(bin + i div 2 := m (bin + i div 2) + var)) hex bin (i + 1) k)"

definition hex_2_bin :: "mem \<Rightarrow> nat \<Rightarrow> int \<Rightarrow> nat \<Rightarrow> mem \<times> int" where
  "hex_2_bin m hex sz bin =
     (let len = Strnlen m hex sz
      in if len mod 2 \<noteq> 0 then (m, - EINVAL)
         else case hex_2_bin_loop m hex bin 0 len of
                (m', ok) \<Rightarrow> (m', if ok then int (len div 2) else - EINVAL))"

section \<open>Properties: decimal conversion\<close>

lemma length_swap_loop [simp]: "length (swap_loop xs i k) = length xs"
  by (induction xs i k rule: swap_loop.induct) auto

lemma swap_loop_middle:
  "length p = length q \<Longrightarrow> length xs div 2 = k \<Longrightarrow>
   swap_loop (p @ xs @ q) (length p) k = p @ rev xs @ q"
proof (induction k arbitrary: p xs q)
  case 0
  then have "length xs \<le> 1" by arith
  then have "rev xs = xs" by (cases xs) auto
  then show ?case by simp
next
  case (Suc k)
  then have "2 \<le> length xs" by linarith
  then obtain a ys where "xs = a # ys" "ys \<noteq> []"
    by (cases xs) (auto simp: Suc_le_eq)
  then obtain mid b where xs: "xs = a # mid @ [b]" by (cases ys rule: rev_cases) auto
  let ?l = "p @ xs @ q"
  have pos: "length ?l - 1 - length p = length p + Suc (length mid)" using Suc.prems xs by simp
  have "?l[length p := ?l ! (length ?l - 1 - length p), length ?l - 1 - length p := ?l ! length p]
      = (p @ [b]) @ mid @ ([a] @ q)"
    unfolding pos using xs by (simp add: nth_append list_update_append)
  then have "swap_loop ?l (length p) (Suc k) = swap_loop ((p @ [b]) @ mid @ ([a] @ q)) (length (p @ [b])) k"
    by (metis length_append_singleton swap_loop.simps(2) Suc_eq_plus1)
  also have "\<dots> = (p @ [b]) @ rev mid @ ([a] @ q)"
    using Suc.prems xs by (intro Suc.IH) auto
  finally show ?case using xs by simp
qed

lemma swap_loop_rev: "swap_loop xs 0 (length xs div 2) = rev xs"
  using swap_loop_middle [of "[]" "[]" xs] by simp

lemma itoa_digits_unfold:
  "0 \<le> n \<Longrightarrow> itoa_digits n = word_of_int (n mod 10 + 48) # (if 10 \<le> n then itoa_digits (n div 10) else [])"
  by (subst itoa_digits.simps) auto

definition dec_char :: "byte \<Rightarrow> bool" where
  "dec_char b \<longleftrightarrow> (\<exists>d. 0 \<le> d \<and> d < 10 \<and> b = word_of_int d + 48)"

lemma uint_digit: "0 \<le> d \<Longrightarrow> d < 10 \<Longrightarrow> uint (word_of_int d + 48 :: byte) = d + 48"
proof -
  assume d: "0 \<le> d" "d < 10"
  have "uint (word_of_int (d + 48) :: byte) = (d + 48) mod 256" by (subst uint_word_of_int) simp
  then show ?thesis using d by simp
qed

lemma get_char_value_digit:
  "0 \<le> d \<Longrightarrow> d < 10 \<Longrightarrow> get_char_value (word_of_int d + 48) = d"
  by (simp add: get_char_value_def isdigit_c_def word_le_def uint_digit)

lemma dec_char_not: "dec_char b \<Longrightarrow> b \<noteq> 0 \<and> b \<noteq> 32"
proof -
  assume "dec_char b"
  then obtain d where "0 \<le> d" "uint b = d + 48" by (auto simp: dec_char_def uint_digit)
  then have "uint b \<noteq> uint (0 :: byte)" "uint b \<noteq> uint (32 :: byte)" by auto
  then show ?thesis by metis
qed

lemma itoa_digits_dec: "0 \<le> n \<Longrightarrow> list_all dec_char (itoa_digits n)"
proof (induction n rule: itoa_digits.induct)
  case (1 n)
  have "dec_char (word_of_int (n mod 10) + 48)"
    unfolding dec_char_def by (rule exI [of _ "n mod 10"]) simp
  then show ?case using 1 by (simp add: itoa_digits_unfold [of n])
qed

lemma itoa_digits_length: "0 \<le> n \<Longrightarrow> n < 10 ^ k \<Longrightarrow> 0 < k \<Longrightarrow> length (itoa_digits n) \<le> k"
proof (induction k arbitrary: n)
  case (Suc k)
  then show ?case
  proof (cases "10 \<le> n")
    case True
    then have "0 < k" using Suc.prems by (cases k) auto
    moreover have "n div 10 < 10 ^ k" using Suc.prems(2) by simp
    ultimately show ?thesis using Suc.IH [of "n div 10"] Suc.prems True by (simp add: itoa_digits_unfold [of n])
  qed (simp add: itoa_digits_unfold [of n])
qed simp

text \<open>The value of a digit string, read left to right with the 32-bit wrap of the code.\<close>

fun dec_fold :: "int \<Rightarrow> byte list \<Rightarrow> int" where
  "dec_fold ret [] = ret"
| "dec_fold ret (b # bs) = dec_fold (wrap32 (ret * 10 + get_char_value b)) bs"

lemma dec_fold_append: "dec_fold ret (xs @ ys) = dec_fold (dec_fold ret xs) ys"
  by (induction xs arbitrary: ret) auto

lemma atoi_tail_digits:
  "mem_bytes m (s + i) (length bs) = bs \<Longrightarrow> list_all dec_char bs \<Longrightarrow>
   atoi_tail m s i 10 ret (length bs) = dec_fold ret bs"
proof (induction bs arbitrary: i ret)
  case (Cons b bs)
  then obtain d where d: "0 \<le> d" "d < 10" "b = word_of_int d + 48" by (auto simp: dec_char_def)
  have "b \<noteq> 0" using Cons.prems dec_char_not by auto
  moreover have "m (s + i) = b" "mem_bytes m (s + (i + 1)) (length bs) = bs"
    using Cons.prems by (simp_all add: mem_bytes_Suc)
  ultimately show ?case using Cons d by (simp add: get_char_value_digit Let_def)
qed simp

lemma dec_fold_itoa: "0 \<le> n \<Longrightarrow> n \<le> 2147483647 \<Longrightarrow> dec_fold 0 (rev (itoa_digits n)) = n"
proof (induction n rule: itoa_digits.induct)
  case (1 n)
  have v: "get_char_value (word_of_int (n mod 10) + 48) = n mod 10"
    by (rule get_char_value_digit) auto
  have "dec_fold 0 (if 10 \<le> n then rev (itoa_digits (n div 10)) else []) = n div 10"
    using 1 by auto
  then show ?case using 1(2,3) v
    by (cases "10 \<le> n") (simp_all add: itoa_digits_unfold [of n] dec_fold_append)
qed

lemma itoa_digits_last: "0 < n \<Longrightarrow> last (itoa_digits n) \<noteq> 48"
proof (induction n rule: itoa_digits.induct)
  case (1 n)
  show ?case
  proof (cases "10 \<le> n")
    case True
    moreover have "itoa_digits (n div 10) \<noteq> []" by (subst itoa_digits.simps) simp
    ultimately show ?thesis using 1 by (simp add: itoa_digits_unfold [of n] pos_imp_zdiv_pos_iff)
  next
    case False
    then have "uint (word_of_int n + 48 :: byte) = n + 48" using 1(2) by (intro uint_digit) auto
    then have "uint (word_of_int n + 48 :: byte) \<noteq> uint (48 :: byte)" using 1(2) by simp
    then have "word_of_int n + 48 \<noteq> (48 :: byte)" by metis
    then show ?thesis using False 1(2) by (simp add: itoa_digits_unfold [of n])
  qed
qed

lemma Atoi_head_digit:
  "0 < len \<Longrightarrow> m s \<noteq> 0 \<Longrightarrow> m s \<noteq> 32 \<Longrightarrow> m s \<noteq> 48 \<Longrightarrow> atoi_head m s len 0 = Some (0, 10)"
  by (subst atoi_head.simps) simp

lemma Itoa_nonneg:
  "0 \<le> n \<Longrightarrow> Itoa m n str = (mem_write m str (rev (itoa_digits n) @ [0]), length (itoa_digits n))"
  by (simp add: Itoa_def Let_def swap_loop_rev)

section \<open>Properties: lowest set bit\<close>

text \<open>\<open>lowbit_inv p j v ret\<close>: after the masks for the bits above \<open>j\<close>, the bits left in \<open>v\<close> agree
  with the lowest one, \<open>p\<close>, from position \<open>j\<close> up, and \<open>ret\<close> is that part of \<open>p\<close>.\<close>

definition lowbit_inv :: "nat \<Rightarrow> nat \<Rightarrow> u64 \<Rightarrow> nat \<Rightarrow> bool" where
  "lowbit_inv p j v ret \<longleftrightarrow> bit v p \<and> ret = p div 2 ^ j * 2 ^ j
     \<and> (\<forall>n. bit v n \<longrightarrow> p \<le> n \<and> n div 2 ^ j = p div 2 ^ j)"

definition mask_for :: "u64 \<Rightarrow> nat \<Rightarrow> bool" where
  "mask_for mk j \<longleftrightarrow> (\<forall>n < 64. bit mk n \<longleftrightarrow> even (n div 2 ^ j))"

lemma div_step: "(n::nat) div 2 ^ j = 2 * (n div 2 ^ Suc j) + (n div 2 ^ j) mod 2"
proof -
  have "n div 2 ^ Suc j = n div 2 ^ j div 2" by (simp add: power_Suc2 div_mult2_eq del: power_Suc)
  then show ?thesis by simp
qed

lemma lowbit_step:
  assumes inv: "lowbit_inv p (Suc j) v ret" and mk: "mask_for mk j"
  shows "if mk AND v = 0 then lowbit_inv p j v (ret + 2 ^ j) else lowbit_inv p j (v AND mk) ret"
proof -
  have bits: "bit v n \<Longrightarrow> bit mk n \<longleftrightarrow> even (n div 2 ^ j)" for n
    using mk bit_imp_le_length [of v n] by (simp add: mask_for_def)
  have eqd: "n div 2 ^ j = 2 * (p div 2 ^ Suc j) + (n div 2 ^ j) mod 2" if "bit v n" for n
  proof -
    have "n div 2 ^ Suc j = p div 2 ^ Suc j" using inv that unfolding lowbit_inv_def by blast
    then show ?thesis using div_step [of n j] by (simp only:)
  qed
  have bp: "bit v p" and ret: "ret = p div 2 ^ Suc j * 2 ^ Suc j"
    and least: "\<And>n. bit v n \<Longrightarrow> p \<le> n"
    using inv unfolding lowbit_inv_def by blast+
  show ?thesis
  proof (cases "mk AND v = 0")
    case True
    then have "\<not> bit mk n" if "bit v n" for n
      using that by (metis bit_0_eq bit_and_iff bot_apply bot_bool_def)
    then have m1: "(n div 2 ^ j) mod 2 = 1" if "bit v n" for n
      using that bits by (metis odd_iff_mod_2_eq_one)
    have pd: "p div 2 ^ j = 2 * (p div 2 ^ Suc j) + 1" using eqd [OF bp] m1 [OF bp] by linarith
    have "ret + 2 ^ j = p div 2 ^ j * 2 ^ j" unfolding ret pd by (simp add: algebra_simps)
    moreover have "n div 2 ^ j = p div 2 ^ j" if "bit v n" for n
      using eqd [OF that] m1 [OF that] pd by linarith
    ultimately have "lowbit_inv p j v (ret + 2 ^ j)"
      using bp least unfolding lowbit_inv_def by blast
    then show ?thesis using True by simp
  next
    case False
    then obtain n where "bit (mk AND v) n" by (metis bit_eqI bit_0_eq bot_apply bot_bool_def)
    then have n: "bit v n" "(n div 2 ^ j) mod 2 = 0" using bits by (auto simp: bit_and_iff)
    have "p div 2 ^ j \<le> n div 2 ^ j" using least [OF n(1)] by (rule div_le_mono)
    then have pd: "p div 2 ^ j = 2 * (p div 2 ^ Suc j)" using eqd [OF n(1)] eqd [OF bp] n(2) by linarith
    have "bit mk p" using bits [OF bp] pd by simp
    moreover have "ret = p div 2 ^ j * 2 ^ j" unfolding ret pd by simp
    moreover have "k div 2 ^ j = p div 2 ^ j" if "bit (v AND mk) k" for k
    proof -
      have k: "bit v k" "even (k div 2 ^ j)" using that bits [of k] by (auto simp: bit_and_iff)
      then have "(k div 2 ^ j) mod 2 = 0" by (simp only: even_iff_mod_2_eq_zero)
      then show ?thesis using eqd [OF k(1)] pd by linarith
    qed
    ultimately have "lowbit_inv p j (v AND mk) ret"
      using bp least unfolding lowbit_inv_def bit_and_iff by blast
    then show ?thesis using False by simp
  qed
qed

lemma lowbit_loop_correct:
  "lowbit_inv p (length mks) v ret \<Longrightarrow> (\<And>i. i < length mks \<Longrightarrow> mask_for (mks ! i) (length mks - 1 - i)) \<Longrightarrow>
   offset = 2 ^ (length mks - 1) \<Longrightarrow> lowbit_loop mks v ret offset = p"
proof (induction mks arbitrary: v ret offset)
  case Nil
  then show ?case by (simp add: lowbit_inv_def)
next
  case (Cons mk mks)
  have rest: "mask_for (mks ! i) (length mks - 1 - i)" if "i < length mks" for i
    using Cons.prems(2) [of "Suc i"] that by simp
  have off: "mks \<noteq> [] \<Longrightarrow> offset div 2 = 2 ^ (length mks - 1)"
    using Cons.prems(3) by (cases mks) auto
  have "mask_for mk (length mks)" using Cons.prems(2) [of 0] by simp
  with Cons.prems(1) have st: "if mk AND v = 0 then lowbit_inv p (length mks) v (ret + 2 ^ length mks)
      else lowbit_inv p (length mks) (v AND mk) ret"
    by (intro lowbit_step) auto
  have fin: "lowbit_loop mks w r (offset div 2) = p" if "lowbit_inv p (length mks) w r" for w r
  proof (cases "mks = []")
    case True
    then show ?thesis using that by (simp add: lowbit_inv_def)
  qed (intro Cons.IH [OF that rest] off)
  show ?case
  proof (cases "mk AND v = 0")
    case True
    then show ?thesis using st fin Cons.prems(3) by simp
  next
    case False
    then show ?thesis using st fin by simp
  qed
qed

lemma mask_for_code: "mask_for mk j \<longleftrightarrow> list_all (\<lambda>n. bit mk n \<longleftrightarrow> even (n div 2 ^ j)) [0..<64]"
  by (auto simp: mask_for_def list_all_iff)

lemma lowbit_masks_ok: "i < length lowbit_masks \<Longrightarrow> mask_for (lowbit_masks ! i) (length lowbit_masks - 1 - i)"
proof -
  have "list_all (\<lambda>(i, mk). list_all (\<lambda>n. bit mk n \<longleftrightarrow> even (n div 2 ^ (5 - i))) [0..<64])
      (zip [0..<6] lowbit_masks)"
    by code_simp
  then have "\<forall>i<6. mask_for (lowbit_masks ! i) (5 - i)"
    by (simp add: mask_for_code list_all_length lowbit_masks_def)
  moreover have "length lowbit_masks = 6" by (simp add: lowbit_masks_def)
  ultimately show "i < length lowbit_masks \<Longrightarrow> ?thesis" by simp
qed

section \<open>Properties: uuids, bitmaps, hexadecimal\<close>

lemma validuuid_loop_iff: "validuuid_loop m uuid i k \<longleftrightarrow> list_all ishexdigit_c (mem_bytes m (uuid + i) k)"
  by (induction m uuid i k rule: validuuid_loop.induct) (auto simp: mem_bytes_Suc)

lemma Isvaliduuid_iff: "Isvaliduuid m uuid \<longleftrightarrow> list_all ishexdigit_c (mem_bytes m uuid 64)"
  using validuuid_loop_iff [of m uuid 0 64] by (simp add: Isvaliduuid_def)

lemma zero_region_iff:
  "disjoint_range c n u n \<Longrightarrow>
   (\<forall>i<n. mem_write m c (replicate n 0) (c + i) = mem_write m c (replicate n 0) (u + i))
     \<longleftrightarrow> mem_bytes m u n = replicate n 0"
proof -
  assume d: "disjoint_range c n u n"
  have "mem_write m c (replicate n 0) (c + i) = 0" if "i < n" for i
    using that by (simp add: mem_write_apply)
  moreover have "mem_write m c (replicate n 0) (u + i) = m (u + i)" if "i < n" for i
    using that d by (auto simp: mem_write_apply disjoint_range_def)
  ultimately show ?thesis by (auto simp: list_eq_iff_nth_eq)
qed

lemma Isemptyuuid_iff:
  assumes "disjoint_range compvalue DIGEST_SIZE uuid DIGEST_SIZE"
  shows "Isemptyuuid m compvalue uuid \<longleftrightarrow> mem_bytes m uuid DIGEST_SIZE = replicate DIGEST_SIZE 0"
proof -
  let ?m = "mem_write m compvalue (replicate DIGEST_SIZE 0)"
  have "Isemptyuuid m compvalue uuid \<longleftrightarrow> (\<forall>i<DIGEST_SIZE. ?m (compvalue + i) = ?m (uuid + i))"
    by (simp add: Isemptyuuid_def Memcmp_def Memset_def memset_loop_write memcmp_loop_zero_iff)
  also have "\<dots> \<longleftrightarrow> mem_bytes m uuid DIGEST_SIZE = replicate DIGEST_SIZE 0"
    using assms by (rule zero_region_iff)
  finally show ?thesis .
qed

lemma bitmap_get_iff: "bitmap_get m bm s \<noteq> 0 \<longleftrightarrow> bit (m (bm + s div 8)) (s mod 8)"
proof -
  have "m (bm + s div 8) AND push_bit (s mod 8) 1 \<noteq> 0 \<longleftrightarrow> bit (m (bm + s div 8)) (s mod 8)"
    by (rule bit_iff_and_push_bit_not_eq_0 [symmetric])
  then show ?thesis by (simp add: bitmap_get_def Let_def)
qed

lemma bit_two_power: "bit ((2::byte) ^ a) b \<longleftrightarrow> a = b \<and> b < 8"
  by (auto simp: bit_exp_iff)

lemma site_eq_iff: "s div 8 = t div 8 \<Longrightarrow> (s mod 8 = t mod 8) = (s = (t::nat))"
  by (metis div_mult_mod_eq)

lemma allset_loop_iff: "allset_loop m bm i k \<longleftrightarrow> (\<forall>j<k. m (bm + i + j) = 0xff)"
proof (induction m bm i k rule: allset_loop.induct)
  case (2 m bm i k)
  have "(\<forall>j<Suc k. m (bm + i + j) = 0xff) \<longleftrightarrow> m (bm + i) = 0xff \<and> (\<forall>j<k. m (bm + (i + 1) + j) = 0xff)"
    by (auto simp: less_Suc_eq_0_disj)
  then show ?case using 2 by simp
qed simp

definition drop_ten :: "byte \<Rightarrow> byte" where
  "drop_ten n = (if n > 9 then n - 10 else n)"

lemma nibble_hex: "n < (16::byte) \<Longrightarrow> hex_2_bin_value (hex_char n) = Some (drop_ten n) \<and> hex_char n \<noteq> 0"
proof -
  have all: "\<forall>k < 16. hex_2_bin_value (hex_char (of_nat k)) = Some (drop_ten (of_nat k))
      \<and> hex_char (of_nat k) \<noteq> 0"
    by code_simp
  assume "n < 16"
  then have "unat n < 16" by (simp add: word_less_nat_alt)
  then show ?thesis using all [rule_format, of "unat n"] by simp
qed

lemma high_nibble: "drop_bit 4 (b::byte) < 16"
proof -
  have "unat b div 16 < 16" using unat_byte_less [of b] by linarith
  then have "unat (drop_bit 4 b) < 16" by (simp only: unat_drop_bit_eq) (simp add: drop_bit_eq_div)
  then show ?thesis by (simp add: word_less_nat_alt)
qed

lemma low_nibble: "(b::byte) AND 0x0f < 16"
proof -
  have "b AND 0x0f \<le> 0x0f" by (rule word_and_le1)
  also have "(0x0f :: byte) < 16" by simp
  finally show ?thesis .
qed

definition hex_of :: "byte list \<Rightarrow> byte list" where
  "hex_of bs = concat (map (\<lambda>b. [hex_char (drop_bit 4 b), hex_char (b AND 0x0f)]) bs)"

lemma hex_of_simps [simp]:
  "hex_of [] = []"
  "hex_of (b # bs) = hex_char (drop_bit 4 b) # hex_char (b AND 0x0f) # hex_of bs"
  "length (hex_of bs) = 2 * length bs"
  by (auto simp: hex_of_def length_concat sum_list_triv comp_def)

lemma hex_of_nonzero: "0 \<notin> set (hex_of bs)"
  by (induction bs) (auto simp: nibble_hex high_nibble low_nibble dest: sym)

lemma bin_2_hex_loop_write:
  "disjoint_range (hex + 2 * i) (2 * k) (bin + i) k \<Longrightarrow>
   bin_2_hex_loop m bin hex i k = mem_write m (hex + 2 * i) (hex_of (mem_bytes m (bin + i) k))"
proof (induction m bin hex i k rule: bin_2_hex_loop.induct)
  case (2 m bin hex i k)
  let ?m1 = "m(hex + i * 2 := hex_char (drop_bit 4 (m (bin + i))))"
  let ?m2 = "?m1(hex + i * 2 + 1 := hex_char (?m1 (bin + i) AND 0x0f))"
  have b: "?m1 (bin + i) = m (bin + i)" using "2.prems" by (auto simp: fun_upd_apply disjoint_range_def)
  have "bin_2_hex_loop ?m2 bin hex (i + 1) k
      = mem_write ?m2 (hex + 2 * (i + 1)) (hex_of (mem_bytes ?m2 (bin + (i + 1)) k))"
    using "2.prems" by (intro "2.IH" refl) (auto simp: disjoint_range_def)
  moreover have "mem_bytes ?m2 (bin + (i + 1)) k = mem_bytes m (bin + (i + 1)) k"
    using "2.prems" by (intro mem_bytes_cong) (auto simp: fun_upd_apply disjoint_range_def)
  ultimately show ?case unfolding bin_2_hex_loop.simps Let_def b
    by (simp add: mem_bytes_Suc mult.commute add.commute add.left_commute)
qed simp

definition unhex_byte :: "byte \<Rightarrow> byte" where
  "unhex_byte b = drop_ten (drop_bit 4 b) * 0x10 + drop_ten (b AND 0x0f)"

lemma unat_drop_ten: "unat (drop_ten n) = (if 9 < unat n then unat n - 10 else unat n)"
proof (cases "9 < unat n")
  case True
  then have "10 \<le> n" by (simp add: word_le_nat_alt)
  then have "unat (n - 10) = unat n - 10" by (simp add: unat_sub)
  then show ?thesis using True by (simp add: drop_ten_def word_less_nat_alt)
qed (simp add: drop_ten_def word_less_nat_alt)

lemma unat_nibbles: "unat (drop_bit 4 (b::byte)) = unat b div 16" "unat (b AND 0x0f) = unat b mod 16"
proof -
  show "unat (drop_bit 4 b) = unat b div 16" by (simp only: unat_drop_bit_eq) (simp add: drop_bit_eq_div)
  have "b AND 0x0f = take_bit 4 b" by (simp add: take_bit_eq_mask mask_eq_exp_minus_1)
  then show "unat (b AND 0x0f) = unat b mod 16"
    by (simp only: unsigned_take_bit_eq) (simp add: take_bit_eq_mod)
qed

lemma drop_ten_nat:
  fixes h l :: nat
  assumes "h < 16" "l < 16"
  shows "(if 9 < h then h - 10 else h) * 16 + (if 9 < l then l - 10 else l) < 256"
    and "((if 9 < h then h - 10 else h) * 16 + (if 9 < l then l - 10 else l) = h * 16 + l) \<longleftrightarrow> h \<le> 9 \<and> l \<le> 9"
  using assms by (cases "9 < h"; cases "9 < l"; simp; linarith)+

lemma unhex_byte_eq_iff: "unhex_byte b = b \<longleftrightarrow> drop_bit 4 b \<le> 9 \<and> b AND 0x0f \<le> 9"
proof -
  let ?h = "unat b div 16" and ?l = "unat b mod 16"
  let ?d = "\<lambda>n::nat. if 9 < n then n - 10 else n"
  have b16: "?h < 16" "?l < 16" using unat_byte_less [of b] by linarith+
  then have lt: "?d ?h * 16 + ?d ?l < 256" by (rule drop_ten_nat)
  have "unat (unhex_byte b) = (unat (drop_ten (drop_bit 4 b)) * 16 + unat (drop_ten (b AND 0x0f))) mod 256"
    by (simp add: unhex_byte_def unat_word_ariths mod_simps del: unat_drop_ten)
  then have u: "unat (unhex_byte b) = ?d ?h * 16 + ?d ?l"
    unfolding unat_drop_ten unat_nibbles using lt by (simp only: mod_less)
  have "unhex_byte b = b \<longleftrightarrow> unat (unhex_byte b) = unat b" by (simp add: word_unat_eq_iff)
  also have "\<dots> \<longleftrightarrow> ?d ?h * 16 + ?d ?l = ?h * 16 + ?l" unfolding u by simp
  also have "\<dots> \<longleftrightarrow> ?h \<le> 9 \<and> ?l \<le> 9" using b16 by (rule drop_ten_nat)
  finally show ?thesis by (simp add: word_le_nat_alt unat_nibbles)
qed

lemma hex_2_bin_loop_write:
  "mem_bytes m (hex + 2 * j) (2 * length bs) = hex_of bs \<Longrightarrow>
   disjoint_range (bin + j) (length bs) (hex + 2 * j) (2 * length bs) \<Longrightarrow>
   hex_2_bin_loop m hex bin (2 * j) (2 * length bs) = (mem_write m (bin + j) (map unhex_byte bs), True)"
proof (induction bs arbitrary: m j)
  case (Cons b bs)
  let ?hi = "drop_ten (drop_bit 4 b) * 0x10"
  let ?m1 = "m(bin + j := ?hi)"
  let ?m2 = "m(bin + j := unhex_byte b)"
  have h: "m (hex + 2 * j) = hex_char (drop_bit 4 b)" "m (Suc (hex + 2 * j)) = hex_char (b AND 0x0f)"
    and rest: "mem_bytes m (hex + 2 * Suc j) (2 * length bs) = hex_of bs"
    using Cons.prems(1) by (simp_all add: mem_bytes_Suc)
  have ne: "Suc (hex + 2 * j) \<noteq> bin + j" using Cons.prems(2) by (auto simp: disjoint_range_def)
  have "mem_bytes ?m2 (hex + 2 * Suc j) (2 * length bs) = mem_bytes m (hex + 2 * Suc j) (2 * length bs)"
    using Cons.prems(2) by (intro mem_bytes_cong) (auto simp: fun_upd_apply disjoint_range_def)
  then have IH: "hex_2_bin_loop ?m2 hex bin (2 * Suc j) (2 * length bs)
      = (mem_write ?m2 (bin + Suc j) (map unhex_byte bs), True)"
    using Cons.prems(2) rest by (intro Cons.IH) (auto simp: disjoint_range_def)
  have "hex_2_bin_loop m hex bin (2 * j) (2 * length (b # bs))
      = hex_2_bin_loop ?m1 hex bin (Suc (2 * j)) (Suc (2 * length bs))"
    using h by (simp add: nibble_hex high_nibble)
  also have "\<dots> = hex_2_bin_loop ?m2 hex bin (2 * Suc j) (2 * length bs)"
    using h ne by (simp add: nibble_hex low_nibble unhex_byte_def)
  finally show ?case using IH by simp
qed simp

section \<open>Theorems\<close>

text \<open>Decimal round trip: for every non-negative \<^verbatim>\<open>int\<close>, \<open>Atoi\<close> of the string that \<open>Itoa\<close>
  writes gives the number back, and \<open>Itoa\<close> returns the length of the terminated string.\<close>

theorem Atoi_Itoa:
  assumes "0 \<le> n" "n \<le> 2147483647"
  shows "Atoi (fst (Itoa m n str)) str 0 = n
    \<and> cstr (fst (Itoa m n str)) str (rev (itoa_digits n)) \<and> snd (Itoa m n str) = length (itoa_digits n)"
proof -
  let ?ds = "rev (itoa_digits n)" and ?m = "fst (Itoa m n str)"
  have m: "?m = mem_write m str (?ds @ [0])" using assms by (simp add: Itoa_nonneg)
  have dec: "list_all dec_char ?ds" using itoa_digits_dec assms by (simp add: list_all_iff)
  then have c: "cstr ?m str ?ds"
    unfolding m by (intro cstr_mem_write) (auto simp: list_all_iff dest: dec_char_not)
  have len: "0 < length ?ds" "length ?ds \<le> 10"
    using itoa_digits_length [of n 10] assms by (auto simp: itoa_digits_unfold)
  then have sl: "Strnlen ?m str (int DIGEST_SIZE) = length ?ds"
    using Strnlen_cstr [OF c, of 32] by simp
  have bytes: "mem_bytes ?m (str + 0) (length ?ds) = ?ds" using c by (simp add: cstr_def)
  have "Atoi ?m str 0 = n"
  proof (cases "n = 0")
    case True
    have "?ds = [48]" by (simp add: True itoa_digits_unfold)
    then have "?m str = 48" "?m (str + 1) = 0" "length ?ds = 1" using c by (auto simp: cstr_Cons)
    then have "atoi_head ?m str (length ?ds) 0 = None"
      by (subst atoi_head.simps) simp
    then show ?thesis using True sl by (simp add: Atoi_def Let_def)
  next
    case False
    have hd: "?m str = last (itoa_digits n)"
      using cstr_nth [OF c, of 0] len by (simp add: hd_conv_nth [symmetric] hd_rev)
    then have "?m str \<noteq> 48" "dec_char (?m str)"
      using itoa_digits_last [of n] False assms dec len by (auto simp: list_all_iff)
    then have "atoi_head ?m str (length ?ds) 0 = Some (0, 10)"
      using len dec_char_not by (intro Atoi_head_digit) auto
    then have "Atoi ?m str 0 = dec_fold 0 ?ds"
      using sl atoi_tail_digits [OF bytes dec] by (simp add: Atoi_def Let_def)
    then show ?thesis using dec_fold_itoa assms by simp
  qed
  then show ?thesis using c assms by (simp add: Itoa_nonneg)
qed

theorem Atoi_Itoa_witness: "Atoi (fst (Itoa (\<lambda>_. 0) 305 7)) 7 0 = 305 \<and> snd (Itoa (\<lambda>_. 0) 305 7) = 3"
proof -
  have "itoa_digits 305 = [53, 48, 51]" by (simp add: itoa_digits_unfold)
  then show ?thesis using Atoi_Itoa [of 305 "\<lambda>_. 0" 7] by simp
qed

text \<open>The binary search of \<open>_get_lowest_bit\<close> finds the lowest set bit of a non-zero
  64-bit value and numbers it from 1; it returns 0 only for zero.\<close>

theorem get_lowest_bit_correct:
  assumes "bit v p" "\<forall>q < p. \<not> bit v q"
  shows "get_lowest_bit v = p + 1"
proof -
  have "p < 64" using assms(1) bit_imp_le_length [of v p] by simp
  moreover have "n < 64" if "bit v n" for n using that bit_imp_le_length [of v n] by simp
  ultimately have "lowbit_inv p 6 v 0"
    using assms by (auto simp: lowbit_inv_def not_less [symmetric])
  moreover have len: "length lowbit_masks = 6" by (simp add: lowbit_masks_def)
  ultimately have "lowbit_loop lowbit_masks v 0 32 = p"
    using lowbit_masks_ok by (intro lowbit_loop_correct) auto
  moreover have "v \<noteq> 0" using assms(1) by auto
  ultimately show ?thesis by (simp add: get_lowest_bit_def)
qed

theorem get_lowest_bit_correct_witness: "get_lowest_bit 40 = 4"
proof -
  have "bit (40::u64) 3" "\<forall>q < 3. \<not> bit (40::u64) q" by code_simp+
  then show ?thesis using get_lowest_bit_correct [of 40 3] by simp
qed

text \<open>Bitmap laws: after \<open>bitmap_set\<close> the site reads as set and every other site as before;
  after \<open>bitmap_clear\<close> it reads as clear; and \<open>bitmap_is_allset\<close> on a whole number of bytes
  holds exactly when every site reads as set.\<close>

theorem bitmap_laws:
  "(bitmap_get (bitmap_set m bm s) bm t \<noteq> 0 \<longleftrightarrow> t = s \<or> bitmap_get m bm t \<noteq> 0)
   \<and> (bitmap_get (bitmap_clear m bm s) bm t \<noteq> 0 \<longleftrightarrow> t \<noteq> s \<and> bitmap_get m bm t \<noteq> 0)
   \<and> (bitmap_is_allset m bm (8 * n) \<longleftrightarrow> (\<forall>u < 8 * n. bitmap_get m bm u \<noteq> 0))"
proof (intro conjI)
  have mod8: "t mod 8 < 8" by simp
  show "bitmap_get (bitmap_set m bm s) bm t \<noteq> 0 \<longleftrightarrow> t = s \<or> bitmap_get m bm t \<noteq> 0"
    using mod8 site_eq_iff [of s t]
    by (auto simp: bitmap_get_iff bitmap_set_def Let_def fun_upd_apply bit_or_iff bit_two_power)
  show "bitmap_get (bitmap_clear m bm s) bm t \<noteq> 0 \<longleftrightarrow> t \<noteq> s \<and> bitmap_get m bm t \<noteq> 0"
    using mod8 site_eq_iff [of s t]
    by (auto simp: bitmap_get_iff bitmap_clear_def Let_def fun_upd_apply bit_and_iff bit_not_iff
        bit_two_power)
  have byte: "b = 0xff \<longleftrightarrow> (\<forall>k<8. bit b k)" for b :: byte
  proof -
    have "\<forall>k<8. bit (0xff :: byte) k" by code_simp
    then show ?thesis by (auto intro!: bit_word_eqI)
  qed
  have "bitmap_is_allset m bm (8 * n) \<longleftrightarrow> (\<forall>j<n. \<forall>k<8. bit (m (bm + j)) k)"
    by (simp add: bitmap_is_allset_def allset_loop_iff byte)
  also have "\<dots> \<longleftrightarrow> (\<forall>u < 8 * n. bit (m (bm + u div 8)) (u mod 8))"
  proof (intro iffI allI impI)
    fix j k assume all: "\<forall>u < 8 * n. bit (m (bm + u div 8)) (u mod 8)" and "j < n" "k < (8::nat)"
    then have "8 * j + k < 8 * n" by linarith
    then show "bit (m (bm + j)) k" using all [rule_format, of "8 * j + k"] \<open>k < 8\<close> by simp
  qed (simp add: less_mult_imp_div_less mult.commute)
  finally show "bitmap_is_allset m bm (8 * n) \<longleftrightarrow> (\<forall>u < 8 * n. bitmap_get m bm u \<noteq> 0)"
    by (simp add: bitmap_get_iff)
qed

text \<open>What \<open>hex_2_bin\<close> makes of the output of \<open>bin_2_hex\<close>: it accepts it and returns the
  right length, but every nibble above 9 comes back 10 too small, so the bytes are recovered
  exactly when no nibble is a letter.\<close>

theorem hex_2_bin_of_bin_2_hex:
  assumes "disjoint_range hex (2 * n) bin n" "disjoint_range out n hex (2 * n)"
  shows "let m' = fst (bin_2_hex m bin n hex); r = hex_2_bin m' hex (2 * int n) out
    in snd r = int n \<and> mem_bytes (fst r) out n = map unhex_byte (mem_bytes m bin n)
       \<and> (mem_bytes (fst r) out n = mem_bytes m bin n \<longleftrightarrow>
            (\<forall>i < n. drop_bit 4 (m (bin + i)) \<le> 9 \<and> m (bin + i) AND 0x0f \<le> 9))"
proof -
  let ?bs = "mem_bytes m bin n" and ?m = "fst (bin_2_hex m bin n hex)"
  have m: "?m = mem_write m hex (hex_of ?bs)"
    using assms(1) bin_2_hex_loop_write [of hex 0 n bin m] by (simp add: bin_2_hex_def)
  have hb: "mem_bytes ?m hex (2 * n) = hex_of ?bs"
    unfolding m using mem_bytes_mem_write [of m hex "hex_of ?bs"] by simp
  have tw: "takeWhile (\<lambda>b. b \<noteq> 0) (hex_of ?bs) = hex_of ?bs"
    using hex_of_nonzero [of ?bs] by (subst takeWhile_eq_all_conv) blast
  have "Strnlen ?m hex (2 * int n) = length (takeWhile (\<lambda>b. b \<noteq> 0) (mem_bytes ?m hex (2 * n)))"
    by (simp add: Strnlen_takeWhile nat_mult_distrib)
  then have len: "Strnlen ?m hex (2 * int n) = 2 * n"
    by (simp only: hb tw) simp
  have "hex_2_bin_loop ?m hex out 0 (2 * n) = (mem_write ?m out (map unhex_byte ?bs), True)"
    using hex_2_bin_loop_write [of ?m hex 0 ?bs out] hb assms(2) by simp
  moreover have "mem_bytes (mem_write ?m out (map unhex_byte ?bs)) out n = map unhex_byte ?bs"
    using mem_bytes_mem_write [of ?m out "map unhex_byte ?bs"] by simp
  moreover have "map unhex_byte ?bs = ?bs \<longleftrightarrow>
      (\<forall>i < n. drop_bit 4 (m (bin + i)) \<le> 9 \<and> m (bin + i) AND 0x0f \<le> 9)"
    by (auto simp: list_eq_iff_nth_eq unhex_byte_eq_iff)
  ultimately show ?thesis using len by (simp add: hex_2_bin_def Let_def)
qed

theorem hex_2_bin_of_bin_2_hex_witness:
  "mem_bytes (fst (hex_2_bin (fst (bin_2_hex (\<lambda>a. 0xab) 0 1 10)) 10 2 20)) 20 1 = [0x01]"
proof -
  have d: "disjoint_range 10 (2 * 1) 0 1" "disjoint_range 20 1 10 (2 * 1)" by (simp_all add: disjoint_range_def)
  have "unhex_byte 0xab = 0x01" by code_simp
  then show ?thesis using hex_2_bin_of_bin_2_hex [OF d, of "\<lambda>a. 0xab"]
    by (simp add: Let_def mem_bytes_def)
qed

end
