(* ===== verification/Cube_List.thy ===== *)
theory Cube_List
  imports Main
begin

text \<open>
  The circular doubly linked lists of \<^verbatim>\<open>cubelib/include/list.h\<close> and the record lists of
  \<^verbatim>\<open>attrlist.h\<close>. The heap holds the links and the record of every node; \<^verbatim>\<open>struct List_head\<close>
  is the first member of \<^verbatim>\<open>Record_List\<close>, so both have the node's address. The predicate
  \<open>dlist h p xs\<close> abstracts a ring with head \<open>p\<close> to the list of its nodes, and every list
  operation is shown to be the list operation it stands for.
\<close>

section \<open>The heap and the list operations\<close>

record 'a lheap =
  nxt :: "nat \<Rightarrow> nat"
  prv :: "nat \<Rightarrow> nat"
  rcd :: "nat \<Rightarrow> 'a"

definition set_nxt :: "nat \<Rightarrow> nat \<Rightarrow> 'a lheap \<Rightarrow> 'a lheap" where
  "set_nxt a v h = h\<lparr>nxt := (nxt h)(a := v)\<rparr>"

definition set_prv :: "nat \<Rightarrow> nat \<Rightarrow> 'a lheap \<Rightarrow> 'a lheap" where
  "set_prv a v h = h\<lparr>prv := (prv h)(a := v)\<rparr>"

definition set_rcd :: "nat \<Rightarrow> 'a \<Rightarrow> 'a lheap \<Rightarrow> 'a lheap" where
  "set_rcd a r h = h\<lparr>rcd := (rcd h)(a := r)\<rparr>"

definition INIT_LIST_HEAD :: "nat \<Rightarrow> 'a lheap \<Rightarrow> 'a lheap" where
  "INIT_LIST_HEAD p h = set_prv p p (set_nxt p p h)"

definition list_add_between :: "nat \<Rightarrow> nat \<Rightarrow> nat \<Rightarrow> 'a lheap \<Rightarrow> 'a lheap" where
  "list_add_between new prev next h =
     set_nxt prev new (set_prv new prev (set_nxt new next (set_prv next new h)))"

definition List_cat :: "nat \<Rightarrow> nat \<Rightarrow> 'a lheap \<Rightarrow> 'a lheap" where
  "List_cat newlist prev h =
     (let newtail = prv h newlist;
          h1 = set_prv newlist prev h;
          h2 = set_nxt newtail (nxt h1 prev) h1;
          h3 = set_prv (nxt h2 prev) newtail h2
      in set_nxt prev newlist h3)"

definition List_add :: "nat \<Rightarrow> nat \<Rightarrow> 'a lheap \<Rightarrow> 'a lheap" where
  "List_add new head h = list_add_between new head (nxt h head) h"

definition List_add_tail :: "nat \<Rightarrow> nat \<Rightarrow> 'a lheap \<Rightarrow> 'a lheap" where
  "List_add_tail new head h = list_add_between new (prv h head) head h"

definition List_del :: "nat \<Rightarrow> 'a lheap \<Rightarrow> 'a lheap" where
  "List_del head h =
     (if nxt h head = head then h
      else let h1 = set_prv (nxt h head) (prv h head) h;
               h2 = set_nxt (prv h1 head) (nxt h1 head) h1;
               h3 = set_prv head head h2
           in set_nxt head head h3)"

text \<open>
  The search loops over a ring: \<open>curr\<close> runs from the first node to the head. \<open>Some None\<close> is
  the C result \<open>NULL\<close>, \<open>None\<close> a walk that never comes back to the head.
\<close>

partial_function (option) ring_find ::
  "'a lheap \<Rightarrow> (nat \<Rightarrow> bool) \<Rightarrow> nat \<Rightarrow> nat \<Rightarrow> nat option option" where
  "ring_find h ok head cur =
     (if cur = head then Some None
      else if ok cur then Some (Some cur)
      else ring_find h ok head (nxt h cur))"

partial_function (option) ring_count :: "'a lheap \<Rightarrow> nat \<Rightarrow> nat \<Rightarrow> nat \<Rightarrow> nat option" where
  "ring_count h root list no =
     (if list = root then Some no else ring_count h root (nxt h list) (no + 1))"

definition get_record_List_no :: "'a lheap \<Rightarrow> nat \<Rightarrow> nat option" where
  "get_record_List_no h root = ring_count h root (nxt h root) 0"

section \<open>Rings\<close>

fun chain :: "'a lheap \<Rightarrow> nat list \<Rightarrow> bool" where
  "chain h (a # b # xs) \<longleftrightarrow> nxt h a = b \<and> prv h b = a \<and> chain h (b # xs)"
| "chain h _ \<longleftrightarrow> True"

definition dlist :: "'a lheap \<Rightarrow> nat \<Rightarrow> nat list \<Rightarrow> bool" where
  "dlist h p xs \<longleftrightarrow> distinct (p # xs) \<and> chain h (p # xs @ [p])"

lemma heap_sel [simp]:
  "nxt (set_nxt a v h) = (nxt h)(a := v)" "prv (set_nxt a v h) = prv h" "rcd (set_nxt a v h) = rcd h"
  "nxt (set_prv a v h) = nxt h" "prv (set_prv a v h) = (prv h)(a := v)" "rcd (set_prv a v h) = rcd h"
  "nxt (set_rcd a r h) = nxt h" "prv (set_rcd a r h) = prv h" "rcd (set_rcd a r h) = (rcd h)(a := r)"
  by (simp_all add: set_nxt_def set_prv_def set_rcd_def)

lemma chain_cong:
  "(\<And>a. a \<in> set (butlast xs) \<Longrightarrow> nxt h' a = nxt h a) \<Longrightarrow>
   (\<And>a. a \<in> set (tl xs) \<Longrightarrow> prv h' a = prv h a) \<Longrightarrow> chain h' xs = chain h xs"
proof (induction xs)
  case (Cons a xs)
  then show ?case by (cases xs) auto
qed simp

lemma chain_append: "chain h (xs @ a # ys) \<longleftrightarrow> chain h (xs @ [a]) \<and> chain h (a # ys)"
proof (induction xs)
  case (Cons b xs)
  then show ?case by (cases xs) auto
qed simp

lemma chain_append2 [simp]:
  "chain h (xs @ a # b # ys) \<longleftrightarrow> chain h (xs @ [a]) \<and> nxt h a = b \<and> prv h b = a \<and> chain h (b # ys)"
  by (subst chain_append) simp

lemma in_set_tl: "x \<in> set (tl xs) \<Longrightarrow> x \<in> set xs"
  by (cases xs) auto

lemma dlist_frame:
  assumes "dlist h p xs" "\<And>a. a \<in> set (p # xs) \<Longrightarrow> nxt h' a = nxt h a \<and> prv h' a = prv h a"
  shows "dlist h' p xs"
proof -
  have "chain h' (p # xs @ [p]) = chain h (p # xs @ [p])"
    by (rule chain_cong) (use assms(2) in \<open>auto simp: butlast_append\<close>)
  then show ?thesis using assms(1) by (simp add: dlist_def)
qed

lemma chain_unique:
  "chain h (a # xs @ [p]) \<Longrightarrow> chain h (a # ys @ [p]) \<Longrightarrow> p \<notin> set xs \<Longrightarrow> p \<notin> set ys \<Longrightarrow> xs = ys"
proof (induction xs arbitrary: a ys)
  case Nil
  then show ?case by (cases ys) auto
next
  case (Cons x xs)
  then show ?case by (cases ys) auto
qed

lemma dlist_unique: "dlist h p xs \<Longrightarrow> dlist h p ys \<Longrightarrow> xs = ys"
  using chain_unique [of h p xs p ys] by (simp add: dlist_def)

lemma dlist_init: "dlist (INIT_LIST_HEAD p h) p []"
  by (simp add: dlist_def INIT_LIST_HEAD_def)

lemma dlist_nxt_head: "dlist h p xs \<Longrightarrow> nxt h p = hd (xs @ [p])"
  by (cases xs) (auto simp: dlist_def)

lemma dlist_prv_head: "dlist h p xs \<Longrightarrow> prv h p = last (p # xs)"
proof (cases xs rule: rev_cases)
  case (snoc ys y)
  assume "dlist h p xs"
  then have "chain h ((p # ys) @ y # p # [])" using snoc by (simp add: dlist_def)
  then show ?thesis using snoc unfolding chain_append2 by simp
qed (simp add: dlist_def)

lemma dlist_nxt_mid: "dlist h p (ys @ x # zs) \<Longrightarrow> nxt h x = hd (zs @ [p])"
proof -
  assume "dlist h p (ys @ x # zs)"
  then have "chain h ((p # ys) @ x # (zs @ [p]))" by (simp add: dlist_def)
  then have "chain h (x # zs @ [p])" by (rule chain_append [THEN iffD1, THEN conjunct2])
  then show ?thesis by (cases zs) auto
qed

lemma dlist_prv_mid: "dlist h p (ys @ x # zs) \<Longrightarrow> prv h x = last (p # ys)"
proof (cases ys rule: rev_cases)
  case Nil
  assume "dlist h p (ys @ x # zs)"
  then show ?thesis using Nil by (simp add: dlist_def)
next
  case (snoc us y)
  assume "dlist h p (ys @ x # zs)"
  then have "chain h ((p # us) @ y # (x # zs @ [p]))" using snoc by (simp add: dlist_def)
  then have "chain h (y # x # zs @ [p])" by (rule chain_append [THEN iffD1, THEN conjunct2])
  then show ?thesis using snoc by simp
qed

lemma chain_insert:
  assumes "chain h (us @ [a])" "chain h (b # vs)"
    and "new \<notin> set (us @ a # b # vs)" "a \<notin> set us" "a \<notin> set (butlast (b # vs))"
    and "b \<notin> set (tl (us @ [a]))" "b \<notin> set vs"
  shows "chain (list_add_between new a b h) (us @ a # new # b # vs)"
proof -
  let ?h = "list_add_between new a b h"
  have "chain ?h (us @ [a]) = chain h (us @ [a])"
    by (rule chain_cong) (use assms in \<open>auto simp: list_add_between_def dest: in_set_tl\<close>)
  moreover have "chain ?h (b # vs) = chain h (b # vs)"
    by (rule chain_cong) (use assms in \<open>auto simp: list_add_between_def dest: in_set_butlastD split: if_splits\<close>)
  ultimately show ?thesis using assms(1-3)
    by (auto simp: list_add_between_def)
qed

text \<open>Insertion between two neighbours of a ring.\<close>

lemma dlist_insert:
  assumes d: "dlist h p (ys @ zs)" and new: "new \<notin> set (p # ys @ zs)"
  shows "dlist (list_add_between new (last (p # ys)) (hd (zs @ [p])) h) p (ys @ new # zs)"
proof -
  obtain us a where pys: "p # ys = us @ [a]" by (metis rev_exhaust list.distinct(1))
  obtain b vs where zsp: "zs @ [p] = b # vs" by (cases zs) auto
  have ends: "last (p # ys) = a" "hd (zs @ [p])= b" using pys zsp by simp_all
  have "chain h ((p # ys) @ (zs @ [p]))" using d by (simp add: dlist_def)
  then have "chain h (us @ a # b # vs)" unfolding pys zsp by simp
  then have c: "chain h (us @ [a])" "chain h (b # vs)"
    by simp_all
  have dist: "distinct (p # ys)" "distinct (zs @ [p])" "set (p # ys) \<inter> set zs = {}"
    "set ys \<inter> set (zs @ [p]) = {}"
    using d by (auto simp: dlist_def)
  have "a \<notin> set us" "b \<notin> set vs" using dist(1,2) unfolding pys zsp by simp_all
  moreover have "a \<notin> set (butlast (b # vs))"
    using dist(3) unfolding pys zsp [symmetric] by auto
  moreover have "b \<notin> set (tl (us @ [a]))"
    using dist(4) unfolding pys [symmetric] zsp by auto
  moreover have "new \<notin> set ((us @ [a]) @ (b # vs))"
    using new unfolding pys [symmetric] zsp [symmetric] by auto
  ultimately have "chain (list_add_between new a b h) (us @ a # new # b # vs)"
    using c by (intro chain_insert) auto
  moreover have "us @ a # new # b # vs = p # (ys @ new # zs) @ [p]"
    using pys zsp by (metis append.assoc append_Cons append_Nil)
  ultimately show ?thesis using d new unfolding ends by (auto simp: dlist_def)
qed

lemma dlist_add_tail:
  "dlist h p xs \<Longrightarrow> new \<notin> set (p # xs) \<Longrightarrow> dlist (List_add_tail new p h) p (xs @ [new])"
  using dlist_insert [of h p xs "[]" new] dlist_prv_head [of h p xs] by (simp add: List_add_tail_def)

lemma dlist_add:
  "dlist h p xs \<Longrightarrow> new \<notin> set (p # xs) \<Longrightarrow> dlist (List_add new p h) p (new # xs)"
  using dlist_insert [of h p "[]" xs new] dlist_nxt_head [of h p xs] by (simp add: List_add_def)

text \<open>Removal of a node leaves the ring without it and the node as a ring of its own.\<close>

lemma chain_remove:
  assumes "chain h (us @ [a])" "chain h (b # vs)"
    and "x \<notin> set (us @ a # b # vs)" "a \<notin> set us" "a \<notin> set (butlast (b # vs))"
    and "b \<notin> set (tl (us @ [a]))" "b \<notin> set vs"
  shows "chain (set_nxt x x (set_prv x x (set_nxt a b (set_prv b a h)))) (us @ a # b # vs)"
proof -
  let ?h = "set_nxt x x (set_prv x x (set_nxt a b (set_prv b a h)))"
  have "chain ?h (us @ [a]) = chain h (us @ [a])"
    by (rule chain_cong) (use assms in \<open>auto dest: in_set_tl\<close>)
  moreover have "chain ?h (b # vs) = chain h (b # vs)"
    by (rule chain_cong) (use assms in \<open>auto dest: in_set_butlastD split: if_splits\<close>)
  ultimately show ?thesis using assms(1-3) by auto
qed

lemma dlist_del:
  assumes d: "dlist h p (ys @ x # zs)"
  shows "dlist (List_del x h) p (ys @ zs)" and "dlist (List_del x h) x []"
proof -
  obtain us a where pys: "p # ys = us @ [a]" by (metis rev_exhaust list.distinct(1))
  obtain b vs where zsp: "zs @ [p] = b # vs" by (cases zs) auto
  have n: "nxt h x = b" "prv h x = a" using dlist_nxt_mid [OF d] dlist_prv_mid [OF d] pys zsp by simp_all
  have dist: "distinct (p # ys)" "distinct (zs @ [p])" "set (p # ys) \<inter> set zs = {}"
    "set ys \<inter> set (zs @ [p]) = {}" "x \<notin> set (p # ys)" "x \<notin> set (zs @ [p])"
    using d by (auto simp: dlist_def)
  have xab: "x \<noteq> a" "x \<noteq> b" using dist(5,6) pys zsp by auto
  then have del: "List_del x h = set_nxt x x (set_prv x x (set_nxt a b (set_prv b a h)))"
    using n by (simp add: List_del_def Let_def)
  have "chain h ((p # ys) @ x # (zs @ [p]))" using d by (simp add: dlist_def)
  then have "chain h (us @ a # x # b # vs)" unfolding pys zsp by simp
  then have c: "chain h (us @ [a])" "chain h (b # vs)"
    by simp_all
  have "a \<notin> set us" "b \<notin> set vs" using dist(1,2) unfolding pys zsp by simp_all
  moreover have "a \<notin> set (butlast (b # vs))" using dist(3) unfolding pys zsp [symmetric] by auto
  moreover have "b \<notin> set (tl (us @ [a]))" using dist(4) unfolding pys [symmetric] zsp by auto
  moreover have "x \<notin> set ((us @ [a]) @ (b # vs))"
    using dist(5,6) unfolding pys [symmetric] zsp [symmetric] by auto
  ultimately have "chain (List_del x h) (us @ a # b # vs)"
    unfolding del using c by (intro chain_remove) auto
  moreover have "us @ a # b # vs = p # (ys @ zs) @ [p]"
    using pys zsp by (metis append.assoc append_Cons append_Nil)
  ultimately show "dlist (List_del x h) p (ys @ zs)" using d by (auto simp: dlist_def)
  show "dlist (List_del x h) x []" by (simp add: dlist_def del)
qed

lemma List_del_outside:
  assumes "dlist h p (ys @ x # zs)" "q \<notin> set (p # ys @ x # zs)"
  shows "nxt (List_del x h) q = nxt h q" "prv (List_del x h) q = prv h q"
proof -
  have "nxt h x \<in> set (p # ys @ x # zs)" "prv h x \<in> set (p # ys @ x # zs)"
    using dlist_nxt_mid [OF assms(1)] dlist_prv_mid [OF assms(1)] by (auto simp: hd_append)
  then show "nxt (List_del x h) q = nxt h q" "prv (List_del x h) q = prv h q"
    using assms(2) by (auto simp: List_del_def Let_def)
qed

lemma List_add_tail_outside:
  assumes "dlist h p xs" "q \<notin> set (p # xs)" "q \<noteq> new"
  shows "nxt (List_add_tail new p h) q = nxt h q" "prv (List_add_tail new p h) q = prv h q"
proof -
  have "prv h p \<in> set (p # xs)" using dlist_prv_head [OF assms(1)] by auto
  then show "nxt (List_add_tail new p h) q = nxt h q" "prv (List_add_tail new p h) q = prv h q"
    using assms(2,3) by (auto simp: List_add_tail_def list_add_between_def)
qed

lemma rcd_list_ops [simp]:
  "rcd (INIT_LIST_HEAD p h) = rcd h" "rcd (List_add_tail new p h) = rcd h"
  "rcd (List_add new p h) = rcd h" "rcd (List_del x h) = rcd h"
  by (simp_all add: INIT_LIST_HEAD_def List_add_tail_def List_add_def list_add_between_def
      List_del_def Let_def)

text \<open>Walks over a ring end, and visit its nodes in order.\<close>

lemma ring_find_walk:
  "dlist h p (ys @ zs) \<Longrightarrow> ring_find h ok p (hd (zs @ [p])) = Some (find ok zs)"
proof (induction zs arbitrary: ys)
  case Nil
  then show ?case by (simp add: ring_find.simps)
next
  case (Cons z zs)
  have "z \<noteq> p" using Cons.prems by (auto simp: dlist_def)
  moreover have "ring_find h ok p (hd (zs @ [p])) = Some (find ok zs)"
    using Cons.prems Cons.IH [of "ys @ [z]"] by simp
  ultimately show ?case using dlist_nxt_mid [OF Cons.prems]
    by (simp add: ring_find.simps [of h ok p z])
qed

lemma ring_find_dlist: "dlist h p xs \<Longrightarrow> ring_find h ok p (nxt h p) = Some (find ok xs)"
  using ring_find_walk [of h p "[]" xs ok] dlist_nxt_head [of h p xs] by simp

lemma ring_count_walk:
  "dlist h p (ys @ zs) \<Longrightarrow> ring_count h p (hd (zs @ [p])) n = Some (n + length zs)"
proof (induction zs arbitrary: ys n)
  case Nil
  then show ?case by (simp add: ring_count.simps)
next
  case (Cons z zs)
  have "z \<noteq> p" using Cons.prems by (auto simp: dlist_def)
  moreover have "ring_count h p (hd (zs @ [p])) (n + 1) = Some (n + 1 + length zs)"
    using Cons.prems Cons.IH [of "ys @ [z]" "n + 1"] by simp
  ultimately show ?case using dlist_nxt_mid [OF Cons.prems]
    by (simp add: ring_count.simps [of h p z])
qed

lemma get_record_List_no_dlist: "dlist h p xs \<Longrightarrow> get_record_List_no h p = Some (length xs)"
  using ring_count_walk [of h p "[]" xs 0] dlist_nxt_head [of h p xs] by (simp add: get_record_List_no_def)

end
