(* ===== verification/Cube_Containers.thy ===== *)
theory Cube_Containers
  imports Cube_Prelude Cube_List
begin

text \<open>
  The pointer stack, the pointer queue and the list queue of \<^verbatim>\<open>cubelib/basefunc/basefunc.c\<close>.
  The cells of the two arrays are a function on indices relative to the first cell, so
  that a write below or above the array is visible. The list queue lives on the heap of
  \<open>Cube_List\<close>; the address of a new slot is the result of \<open>Calloc0\<close>, \<open>None\<close> for \<open>NULL\<close>.
\<close>

section \<open>The pointer stack\<close>

record 'a pstack =
  ps_cells :: "int \<Rightarrow> 'a"
  ps_curr :: int
  ps_size :: int

definition init_pointer_stack :: "int \<Rightarrow> (int \<Rightarrow> 'a) option \<Rightarrow> 'a pstack option" where
  "init_pointer_stack sz buffer =
     (case buffer of
        None \<Rightarrow> None
      | Some cells \<Rightarrow> Some \<lparr>ps_cells = cells, ps_curr = 0, ps_size = sz\<rparr>)"

definition pointer_stack_push :: "'a pstack \<Rightarrow> 'a \<Rightarrow> 'a pstack \<times> int" where
  "pointer_stack_push s p =
     (if ps_curr s + 1 \<ge> ps_size s then (s, - ENOSPC)
      else (s\<lparr>ps_cells := (ps_cells s)(ps_curr s := p), ps_curr := ps_curr s + 1\<rparr>, 0))"

definition pointer_stack_pop :: "'a pstack \<Rightarrow> 'a pstack \<times> 'a option" where
  "pointer_stack_pop s =
     (let c = ps_curr s - 1
      in if c < 0 then (s\<lparr>ps_curr := c\<rparr>, None)
         else (s\<lparr>ps_curr := c\<rparr>, Some (ps_cells s c)))"

section \<open>The pointer queue\<close>

record 'a pqueue =
  pq_buffer :: "int \<Rightarrow> 'a"
  pq_size :: int
  pq_head :: int
  pq_tail :: int

text \<open>\<open>zero\<close> is the null pointer that \<open>Memset\<close> fills the buffer with.\<close>

definition init_pointer_queue :: "int \<Rightarrow> 'a \<Rightarrow> bool \<Rightarrow> 'a pqueue option" where
  "init_pointer_queue sz zero alloc_ok =
     (if \<not> alloc_ok then None
      else Some \<lparr>pq_buffer = (\<lambda>_. zero), pq_size = sz, pq_head = -1, pq_tail = 0\<rparr>)"

definition pointer_queue_put :: "'a pqueue \<Rightarrow> 'a \<Rightarrow> 'a pqueue \<times> int" where
  "pointer_queue_put q p =
     (let store = (\<lambda>hd. (q\<lparr>pq_head := hd, pq_buffer := (pq_buffer q)(hd := p)\<rparr>, 0))
      in if pq_head q = -1 then store 0
         else if pq_head q = pq_size q - 1 then
           (if pq_tail q = 0 then (q, - ENOSPC) else store 0)
         else
           (if pq_head q + 1 = pq_tail q then (q, - ENOSPC) else store (pq_head q + 1)))"

definition pointer_queue_get :: "'a pqueue \<Rightarrow> 'a pqueue \<times> 'a option \<times> int" where
  "pointer_queue_get q =
     (if pq_head q = -1 then (q, None, - EINVAL)
      else let p = pq_buffer q (pq_tail q)
           in if pq_tail q = pq_head q then (q\<lparr>pq_head := -1, pq_tail := 0\<rparr>, Some p, 0)
              else if pq_tail q = pq_size q - 1 then (q\<lparr>pq_tail := 0\<rparr>, Some p, 0)
              else (q\<lparr>pq_tail := pq_tail q + 1\<rparr>, Some p, 0))"

section \<open>The list queue\<close>

text \<open>
  \<open>lq_list\<close> is the address of the embedded head \<^verbatim>\<open>queue_list\<close>, \<open>lq_curr\<close> the cursor (\<open>None\<close> for
  \<open>NULL\<close>); \<open>lq_freed\<close> collects the slots handed to \<open>Free\<close>.
\<close>

record 'a lqueue =
  lq_heap :: "'a lheap"
  lq_list :: nat
  lq_num :: int
  lq_curr :: "nat option"
  lq_freed :: "nat list"

definition init_list_queue :: "'a lheap \<Rightarrow> nat option \<Rightarrow> 'a lqueue option" where
  "init_list_queue h queue =
     (case queue of
        None \<Rightarrow> None
      | Some p \<Rightarrow> Some \<lparr>lq_heap = INIT_LIST_HEAD p h, lq_list = p, lq_num = 0, lq_curr = None,
                      lq_freed = []\<rparr>)"

definition list_queue_put :: "'a lqueue \<Rightarrow> nat option \<Rightarrow> 'a \<Rightarrow> 'a lqueue \<times> int" where
  "list_queue_put q slot r =
     (case slot of
        None \<Rightarrow> (q, - EINVAL)
      | Some s \<Rightarrow>
          let h = List_add_tail s (lq_list q) (set_rcd s r (INIT_LIST_HEAD s (lq_heap q)));
              q' = q\<lparr>lq_heap := h, lq_num := lq_num q + 1\<rparr>
          in (q', lq_num q'))"

definition list_queue_get :: "'a lqueue \<Rightarrow> 'a lqueue \<times> 'a option \<times> int" where
  "list_queue_get q =
     (if lq_num q = 0 then (q, None, 0)
      else let slot = nxt (lq_heap q) (lq_list q);
               q' = q\<lparr>lq_num := lq_num q - 1, lq_heap := List_del slot (lq_heap q),
                      lq_freed := slot # lq_freed q\<rparr>
           in (q', Some (rcd (lq_heap q) slot), lq_num q'))"

definition list_queue_getfirst :: "'a lqueue \<Rightarrow> 'a lqueue \<times> 'a option" where
  "list_queue_getfirst q =
     (if lq_num q = 0 then (q, None)
      else let slot = nxt (lq_heap q) (lq_list q)
           in (q\<lparr>lq_curr := Some slot\<rparr>, Some (rcd (lq_heap q) slot)))"

definition list_queue_getnext :: "'a lqueue \<Rightarrow> 'a lqueue \<times> 'a option" where
  "list_queue_getnext q =
     (if lq_num q = 0 then (q, None)
      else case lq_curr q of
             None \<Rightarrow> (q, None)
           | Some c \<Rightarrow>
               let slot = nxt (lq_heap q) c
               in if slot = lq_list q then (q\<lparr>lq_curr := None\<rparr>, None)
                  else (q\<lparr>lq_curr := Some slot\<rparr>, Some (rcd (lq_heap q) slot)))"

text \<open>
  \<open>list_queue_removecurr\<close>: the cursor is cleared at the last slot and then overwritten with
  its successor in any case; the slot is freed without leaving the ring.
\<close>

definition list_queue_removecurr :: "'a lqueue \<Rightarrow> 'a lqueue \<times> 'a option" where
  "list_queue_removecurr q =
     (if lq_num q = 0 then (q, None)
      else case lq_curr q of
             None \<Rightarrow> (q, None)
           | Some slot \<Rightarrow>
               let r = rcd (lq_heap q) slot;
                   q1 = (if nxt (lq_heap q) slot = lq_list q then q\<lparr>lq_curr := None\<rparr> else q);
                   q2 = q1\<lparr>lq_curr := Some (nxt (lq_heap q1) slot)\<rparr>
               in (q2\<lparr>lq_freed := slot # lq_freed q2\<rparr>, Some r))"

section \<open>The contract of a first-in first-out queue\<close>

text \<open>
  \<open>cont\<close> abstracts a queue to the list of its elements, \<open>ready q x\<close> says that \<open>x\<close> can be put
  (there is room, or the slot it brings is fresh), \<open>val x\<close> is the element it carries.
\<close>

locale fifo =
  fixes invar :: "'q \<Rightarrow> bool"
    and cont :: "'q \<Rightarrow> 'a list"
    and ready :: "'q \<Rightarrow> 'x \<Rightarrow> bool"
    and val :: "'x \<Rightarrow> 'a"
    and put :: "'q \<Rightarrow> 'x \<Rightarrow> 'q"
    and get :: "'q \<Rightarrow> 'q \<times> 'a option"
  assumes put_invar: "invar q \<Longrightarrow> ready q x \<Longrightarrow> invar (put q x)"
    and put_cont: "invar q \<Longrightarrow> ready q x \<Longrightarrow> cont (put q x) = cont q @ [val x]"
    and get_empty: "invar q \<Longrightarrow> cont q = [] \<Longrightarrow> get q = (q, None)"
    and get_cons: "invar q \<Longrightarrow> cont q = y # ys \<Longrightarrow> \<exists>q'. get q = (q', Some y) \<and> invar q' \<and> cont q' = ys"
begin

fun put_all :: "'q \<Rightarrow> 'x list \<Rightarrow> 'q" where
  "put_all q [] = q"
| "put_all q (x # xs) = put_all (put q x) xs"

fun ready_all :: "'q \<Rightarrow> 'x list \<Rightarrow> bool" where
  "ready_all q [] = True"
| "ready_all q (x # xs) = (ready q x \<and> ready_all (put q x) xs)"

fun get_all :: "nat \<Rightarrow> 'q \<Rightarrow> 'a list" where
  "get_all 0 q = []"
| "get_all (Suc n) q = (case get q of (q', None) \<Rightarrow> [] | (q', Some y) \<Rightarrow> y # get_all n q')"

lemma put_all_cont:
  "invar q \<Longrightarrow> ready_all q xs \<Longrightarrow> invar (put_all q xs) \<and> cont (put_all q xs) = cont q @ map val xs"
  by (induction xs arbitrary: q) (auto simp: put_invar put_cont)

lemma get_all_cont: "invar q \<Longrightarrow> get_all n q = take n (cont q)"
proof (induction n arbitrary: q)
  case (Suc n)
  show ?case
  proof (cases "cont q")
    case Nil
    then show ?thesis using get_empty Suc.prems by simp
  next
    case (Cons y ys)
    then obtain q' where "get q = (q', Some y)" "invar q'" "cont q' = ys"
      using get_cons Suc.prems by blast
    then show ?thesis using Suc.IH Cons by simp
  qed
qed simp

lemma fifo_order:
  assumes "invar q" "ready_all q xs"
  shows "get_all n (put_all q xs) = take n (cont q @ map val xs)"
  using put_all_cont [OF assms] get_all_cont by simp

end

section \<open>The stack\<close>

definition ps_invar :: "'a pstack \<Rightarrow> bool" where
  "ps_invar s \<longleftrightarrow> 0 \<le> ps_curr s \<and> ps_curr s < ps_size s"

definition ps_abs :: "'a pstack \<Rightarrow> 'a list" where
  "ps_abs s = rev (map (\<lambda>i. ps_cells s (int i)) [0..<nat (ps_curr s)])"

lemma ps_abs_push:
  "0 \<le> ps_curr s \<Longrightarrow>
   ps_abs (s\<lparr>ps_cells := (ps_cells s)(ps_curr s := p), ps_curr := ps_curr s + 1\<rparr>) = p # ps_abs s"
  by (auto simp: ps_abs_def nat_add_distrib)

lemma ps_abs_pop:
  assumes "0 < ps_curr s"
  shows "ps_abs s = ps_cells s (ps_curr s - 1) # ps_abs (s\<lparr>ps_curr := ps_curr s - 1\<rparr>)"
proof -
  obtain k where k: "ps_curr s = int k + 1" using assms zero_less_imp_eq_int [of "ps_curr s"]
    by (metis of_nat_Suc gr0_implies_Suc add.commute)
  then show ?thesis by (simp add: ps_abs_def nat_add_distrib)
qed

section \<open>The pointer queue is a bounded queue\<close>

definition pq_invar :: "'a pqueue \<Rightarrow> bool" where
  "pq_invar q \<longleftrightarrow> 0 < pq_size q \<and> -1 \<le> pq_head q \<and> pq_head q < pq_size q
     \<and> 0 \<le> pq_tail q \<and> pq_tail q < pq_size q \<and> (pq_head q = -1 \<longrightarrow> pq_tail q = 0)"

definition pq_cont :: "'a pqueue \<Rightarrow> 'a list" where
  "pq_cont q =
     (if pq_head q = -1 then []
      else if pq_tail q \<le> pq_head q then map (pq_buffer q) [pq_tail q..pq_head q]
      else map (pq_buffer q) ([pq_tail q..pq_size q - 1] @ [0..pq_head q]))"

definition pq_full :: "'a pqueue \<Rightarrow> bool" where
  "pq_full q \<longleftrightarrow> int (length (pq_cont q)) = pq_size q"

lemma upto_snoc: "i \<le> j \<Longrightarrow> [i..j] = [i..j - 1] @ [j]"
  by (rule upto_rec2)

lemma upto_Cons_int: "i \<le> j \<Longrightarrow> [i..j] = i # [i + 1..j]"
  by (rule upto_rec1)

lemma map_upd_other: "x \<notin> set xs \<Longrightarrow> map (f(x := v)) xs = map f xs"
  by (induction xs) auto

lemma pq_full_iff:
  assumes "pq_invar q"
  shows "pq_full q \<longleftrightarrow> pq_head q \<noteq> -1 \<and>
    (pq_head q = pq_size q - 1 \<and> pq_tail q = 0 \<or> pq_head q + 1 = pq_tail q)"
  using assms by (auto simp: pq_full_def pq_cont_def pq_invar_def)

lemma pointer_queue_put_full: "pq_invar q \<Longrightarrow> pq_full q \<Longrightarrow> pointer_queue_put q p = (q, - ENOSPC)"
  by (auto simp: pq_full_iff pointer_queue_put_def pq_invar_def)

lemma pointer_queue_put_ok:
  assumes "pq_invar q" "\<not> pq_full q"
  shows "snd (pointer_queue_put q p) = 0" "pq_invar (fst (pointer_queue_put q p))"
    "pq_size (fst (pointer_queue_put q p)) = pq_size q"
    "pq_cont (fst (pointer_queue_put q p)) = pq_cont q @ [p]"
proof -
  have nf: "pq_head q = -1 \<or> (pq_head q = pq_size q - 1 \<longrightarrow> pq_tail q \<noteq> 0) \<and> pq_head q + 1 \<noteq> pq_tail q"
    using assms pq_full_iff by blast
  then show "snd (pointer_queue_put q p) = 0" "pq_invar (fst (pointer_queue_put q p))"
    "pq_size (fst (pointer_queue_put q p)) = pq_size q"
    using assms(1) by (auto simp: pointer_queue_put_def pq_invar_def Let_def)
  show "pq_cont (fst (pointer_queue_put q p)) = pq_cont q @ [p]"
  proof (cases "pq_head q = -1")
    case True
    then show ?thesis using assms(1) by (simp add: pointer_queue_put_def pq_cont_def pq_invar_def)
  next
    case False
    have up: "[pq_tail q..pq_head q + 1] = [pq_tail q..pq_head q] @ [pq_head q + 1]"
      if "pq_tail q \<le> pq_head q + 1" using upto_snoc [OF that] by simp
    have up0: "[0..pq_head q + 1] = [0..pq_head q] @ [pq_head q + 1]"
      if "-1 \<le> pq_head q" using upto_snoc [of 0 "pq_head q + 1"] that by simp
    show ?thesis using nf False assms(1)
      by (auto simp: pointer_queue_put_def pq_cont_def pq_invar_def Let_def up up0 map_upd_other
          simp del: fun_upd_apply)
        (auto simp: map_upd_other)
  qed
qed

lemma pointer_queue_get_empty: "pq_cont q = [] \<Longrightarrow> pq_invar q \<Longrightarrow> pointer_queue_get q = (q, None, - EINVAL)"
  by (auto simp: pq_cont_def pointer_queue_get_def pq_invar_def split: if_splits)

lemma pointer_queue_get_ok:
  assumes "pq_invar q" "pq_cont q = y # ys"
  shows "\<exists>q'. pointer_queue_get q = (q', Some y, 0) \<and> pq_invar q' \<and> pq_size q' = pq_size q \<and> pq_cont q' = ys"
proof -
  have h: "pq_head q \<noteq> -1" using assms(2) by (auto simp: pq_cont_def)
  show ?thesis
  proof (cases "pq_tail q \<le> pq_head q")
    case True
    then have "y = pq_buffer q (pq_tail q)" "ys = map (pq_buffer q) [pq_tail q + 1..pq_head q]"
      using assms(2) h upto_Cons_int [OF True] by (auto simp: pq_cont_def)
    then show ?thesis using True h assms(1)
      by (auto simp: pointer_queue_get_def pq_invar_def pq_cont_def Let_def)
  next
    case False
    then have "pq_tail q \<le> pq_size q - 1" using assms(1) by (simp add: pq_invar_def)
    then have "y = pq_buffer q (pq_tail q)"
      "ys = map (pq_buffer q) ([pq_tail q + 1..pq_size q - 1] @ [0..pq_head q])"
      using assms(2) h False upto_Cons_int [of "pq_tail q" "pq_size q - 1"] by (auto simp: pq_cont_def)
    then show ?thesis using False h assms(1)
      by (auto simp: pointer_queue_get_def pq_invar_def pq_cont_def Let_def)
  qed
qed

definition pq_put1 :: "'a pqueue \<Rightarrow> 'a \<Rightarrow> 'a pqueue" where
  "pq_put1 q p = fst (pointer_queue_put q p)"

definition pq_get1 :: "'a pqueue \<Rightarrow> 'a pqueue \<times> 'a option" where
  "pq_get1 q = (case pointer_queue_get q of (q', p, r) \<Rightarrow> (q', p))"

interpretation pqf: fifo pq_invar pq_cont "\<lambda>q x. \<not> pq_full q" "\<lambda>x. x" pq_put1 pq_get1
proof unfold_locales
  fix q :: "'a pqueue" and y ys
  assume "pq_invar q" "pq_cont q = y # ys"
  from pointer_queue_get_ok [OF this]
  show "\<exists>q'. pq_get1 q = (q', Some y) \<and> pq_invar q' \<and> pq_cont q' = ys"
    by (auto simp: pq_get1_def)
qed (simp_all add: pq_put1_def pq_get1_def pointer_queue_put_ok pointer_queue_get_empty)

section \<open>Runs of the pointer queue\<close>

datatype 'a qop = QPut 'a | QGet

text \<open>The answers of a run: return code and the pointer handed out, if any.\<close>

fun pq_run :: "'a pqueue \<Rightarrow> 'a qop list \<Rightarrow> (int \<times> 'a option) list" where
  "pq_run q [] = []"
| "pq_run q (QPut x # ops) = (case pointer_queue_put q x of (q', r) \<Rightarrow> (r, None) # pq_run q' ops)"
| "pq_run q (QGet # ops) = (case pointer_queue_get q of (q', p, r) \<Rightarrow> (r, p) # pq_run q' ops)"

text \<open>The specification: a list of at most \<open>n\<close> elements.\<close>

fun bounded_run :: "int \<Rightarrow> 'a list \<Rightarrow> 'a qop list \<Rightarrow> (int \<times> 'a option) list" where
  "bounded_run n xs [] = []"
| "bounded_run n xs (QPut x # ops) =
     (if int (length xs) = n then (- ENOSPC, None) # bounded_run n xs ops
      else (0, None) # bounded_run n (xs @ [x]) ops)"
| "bounded_run n [] (QGet # ops) = (- EINVAL, None) # bounded_run n [] ops"
| "bounded_run n (x # xs) (QGet # ops) = (0, Some x) # bounded_run n xs ops"

lemma pq_run_bounded: "pq_invar q \<Longrightarrow> pq_run q ops = bounded_run (pq_size q) (pq_cont q) ops"
proof (induction ops arbitrary: q)
  case (Cons a ops)
  note IH = Cons.IH and inv = Cons.prems
  show ?case
  proof (cases a)
    case (QPut x)
    show ?thesis
    proof (cases "pq_full q")
      case True
      then show ?thesis using QPut Cons pointer_queue_put_full [OF Cons.prems True]
        by (simp add: pq_full_def)
    next
      case False
      obtain q' r where p: "pointer_queue_put q x = (q', r)" by fastforce
      have "r = 0" "pq_invar q'" "pq_size q' = pq_size q" "pq_cont q' = pq_cont q @ [x]"
        using pointer_queue_put_ok [OF Cons.prems False, of x] p by simp_all
      then show ?thesis using QPut p False Cons.IH [of q'] by (simp add: pq_full_def)
    qed
  next
    case QGet
    show ?thesis
    proof (cases "pq_cont q")
      case Nil
      then show ?thesis using QGet IH [OF inv] pointer_queue_get_empty [OF Nil inv] by simp
    next
      case (Cons y ys)
      obtain q' where "pointer_queue_get q = (q', Some y, 0)" "pq_invar q'" "pq_size q' = pq_size q" "pq_cont q' = ys"
        using pointer_queue_get_ok [OF inv Cons] by blast
      then show ?thesis using QGet IH [of q'] Cons by simp
    qed
  qed
qed simp

lemma init_pointer_queue_ok:
  "0 < n \<Longrightarrow> init_pointer_queue n z True = Some q \<Longrightarrow> pq_invar q \<and> pq_size q = n \<and> pq_cont q = []"
  by (auto simp: init_pointer_queue_def pq_invar_def pq_cont_def)

text \<open>(C24) The pointer queue refines a bounded first-in first-out queue: a run of any puts and gets
  on a new queue of size \<open>n\<close> gives the answers of a list of at most \<open>n\<close> elements, the error codes
  \<open>-ENOSPC\<close> on a full and \<open>-EINVAL\<close> on an empty queue included.\<close>

theorem pointer_queue_refines_bounded_fifo:
  assumes "0 < n" "init_pointer_queue n z True = Some q"
  shows "pq_run q ops = bounded_run n [] ops"
  using pq_run_bounded [of q ops] init_pointer_queue_ok [OF assms] by simp

theorem pointer_queue_refines_bounded_fifo_witness:
  "pq_run \<lparr>pq_buffer = (\<lambda>_. 0), pq_size = 2, pq_head = -1, pq_tail = 0\<rparr>
     [QPut (5::int), QPut 6, QPut 7, QGet, QPut 8, QGet, QGet, QGet]
   = [(0, None), (0, None), (- 28, None), (0, Some 5), (0, None), (0, Some 6), (0, Some 8), (- 22, None)]"
  by (subst pointer_queue_refines_bounded_fifo [of 2 0]) (simp_all add: init_pointer_queue_def)

section \<open>Runs of the pointer stack\<close>

datatype 'a sop = SPush 'a | SPop

fun ps_run :: "'a pstack \<Rightarrow> 'a sop list \<Rightarrow> (int \<times> 'a option) list" where
  "ps_run s [] = []"
| "ps_run s (SPush x # ops) = (case pointer_stack_push s x of (s', r) \<Rightarrow> (r, None) # ps_run s' ops)"
| "ps_run s (SPop # ops) = (case pointer_stack_pop s of (s', p) \<Rightarrow> (0, p) # ps_run s' ops)"

fun stack_run :: "int \<Rightarrow> 'a list \<Rightarrow> 'a sop list \<Rightarrow> (int \<times> 'a option) list" where
  "stack_run n xs [] = []"
| "stack_run n xs (SPush x # ops) =
     (if int (length xs) + 1 \<ge> n then (- ENOSPC, None) # stack_run n xs ops
      else (0, None) # stack_run n (x # xs) ops)"
| "stack_run n [] (SPop # ops) = (0, None) # stack_run n [] ops"
| "stack_run n (x # xs) (SPop # ops) = (0, Some x) # stack_run n xs ops"

text \<open>No pop of the run meets an empty stack.\<close>

fun pops_covered :: "int \<Rightarrow> nat \<Rightarrow> 'a sop list \<Rightarrow> bool" where
  "pops_covered n k [] = True"
| "pops_covered n k (SPush x # ops) = pops_covered n (if int k + 1 \<ge> n then k else k + 1) ops"
| "pops_covered n k (SPop # ops) = (0 < k \<and> pops_covered n (k - 1) ops)"

lemma length_ps_abs [simp]: "length (ps_abs s) = nat (ps_curr s)"
  by (simp add: ps_abs_def)

lemma ps_run_stack:
  "ps_invar s \<Longrightarrow> pops_covered (ps_size s) (length (ps_abs s)) ops \<Longrightarrow>
   ps_run s ops = stack_run (ps_size s) (ps_abs s) ops"
proof (induction ops arbitrary: s)
  case (Cons a ops)
  have inv: "0 \<le> ps_curr s" "ps_curr s < ps_size s" using Cons.prems by (simp_all add: ps_invar_def)
  show ?case
  proof (cases a)
    case (SPush x)
    let ?s = "s\<lparr>ps_cells := (ps_cells s)(ps_curr s := x), ps_curr := ps_curr s + 1\<rparr>"
    show ?thesis
    proof (cases "ps_curr s + 1 \<ge> ps_size s")
      case True
      then show ?thesis using SPush Cons inv by (simp add: pointer_stack_push_def)
    next
      case False
      have "ps_abs ?s = x # ps_abs s" by (rule ps_abs_push [OF inv(1)])
      moreover have "ps_invar ?s" using False inv by (simp add: ps_invar_def)
      ultimately show ?thesis
        using Cons.IH [of ?s] Cons.prems SPush False inv by (simp add: pointer_stack_push_def nat_add_distrib)
    qed
  next
    case SPop
    let ?s = "s\<lparr>ps_curr := ps_curr s - 1\<rparr>"
    have c: "0 < ps_curr s" using Cons.prems SPop by simp
    then have "ps_invar ?s" using inv by (simp add: ps_invar_def)
    moreover have "length (ps_abs ?s) = length (ps_abs s) - 1" using c by simp
    ultimately show ?thesis
      using Cons.IH [of ?s] Cons.prems SPop c ps_abs_pop [OF c]
      by (simp add: pointer_stack_pop_def Let_def nat_diff_distrib)
  qed
qed simp

text \<open>The pointer stack refines a last-in first-out stack that holds at most \<open>size - 1\<close>
  elements (the last cell is never used), as long as no pop meets an empty stack.\<close>

theorem pointer_stack_refines_lifo:
  assumes "0 < n" "init_pointer_stack n (Some cells) = Some s" "pops_covered n 0 ops"
  shows "ps_run s ops = stack_run n [] ops"
  using ps_run_stack [of s ops] assms by (auto simp: init_pointer_stack_def ps_invar_def ps_abs_def)

theorem pointer_stack_refines_lifo_witness:
  "ps_run \<lparr>ps_cells = (\<lambda>_. 0), ps_curr = 0, ps_size = 3\<rparr>
     [SPush (5::int), SPush 6, SPush 7, SPop, SPop]
   = [(0, None), (0, None), (- 28, None), (0, Some 6), (0, Some 5)]"
  by (subst pointer_stack_refines_lifo [of 3 "\<lambda>_. 0"]) (simp_all add: init_pointer_stack_def)

text \<open>A pop of the empty stack is not undone: it leaves the cursor below the first cell, and
  the next push reports success while it writes in front of the array and the element
  it stored is not what the following pop returns.\<close>

theorem pointer_stack_pop_empty_underflow:
  assumes "0 < n" "init_pointer_stack n (Some cells) = Some s"
    and "pointer_stack_pop s = (s1, r)" "pointer_stack_push s1 x = (s2, c)"
  shows "r = None \<and> c = 0 \<and> ps_cells s2 (- 1) = x \<and> snd (pointer_stack_pop s2) = None"
  using assms by (auto simp: init_pointer_stack_def pointer_stack_pop_def pointer_stack_push_def Let_def)

theorem pointer_stack_pop_empty_underflow_witness:
  "ps_cells (fst (pointer_stack_push (fst (pointer_stack_pop
     \<lparr>ps_cells = (\<lambda>_. 0 :: int), ps_curr = 0, ps_size = 4\<rparr>)) 9)) (- 1) = 9"
  using pointer_stack_pop_empty_underflow
    [of 4 "\<lambda>_. 0 :: int" "\<lparr>ps_cells = (\<lambda>_. 0 :: int), ps_curr = 0, ps_size = 4\<rparr>" _ _ 9]
  by (simp add: init_pointer_stack_def pointer_stack_pop_def pointer_stack_push_def)

section \<open>The list queue\<close>

fun ring_walk :: "'a lheap \<Rightarrow> nat \<Rightarrow> nat \<Rightarrow> nat list" where
  "ring_walk h 0 a = []"
| "ring_walk h (Suc n) a = a # ring_walk h n (nxt h a)"

lemma ring_walk_dlist_aux:
  "dlist h p (ys @ zs) \<Longrightarrow> ring_walk h (length zs) (hd (zs @ [p])) = zs"
proof (induction zs arbitrary: ys)
  case (Cons z zs)
  then show ?case using dlist_nxt_mid [OF Cons.prems] Cons.IH [of "ys @ [z]"] by simp
qed simp

lemma ring_walk_dlist: "dlist h p xs \<Longrightarrow> ring_walk h (length xs) (nxt h p) = xs"
  using ring_walk_dlist_aux [of h p "[]" xs] dlist_nxt_head [of h p xs] by simp

definition lq_nodes :: "'a lqueue \<Rightarrow> nat list" where
  "lq_nodes q = ring_walk (lq_heap q) (nat (lq_num q)) (nxt (lq_heap q) (lq_list q))"

definition lq_cont :: "'a lqueue \<Rightarrow> 'a list" where
  "lq_cont q = map (rcd (lq_heap q)) (lq_nodes q)"

definition lq_invar :: "'a lqueue \<Rightarrow> bool" where
  "lq_invar q \<longleftrightarrow> dlist (lq_heap q) (lq_list q) (lq_nodes q) \<and> 0 \<le> lq_num q"

lemma lq_invarI:
  assumes "dlist (lq_heap q) (lq_list q) xs" "lq_num q = int (length xs)"
  shows "lq_invar q \<and> lq_nodes q = xs"
proof -
  have "lq_nodes q = xs" using assms ring_walk_dlist [OF assms(1)] by (simp add: lq_nodes_def)
  then show ?thesis using assms by (simp add: lq_invar_def)
qed

lemma length_ring_walk [simp]: "length (ring_walk h n a) = n"
  by (induction n arbitrary: a) auto

lemma length_lq_nodes: "lq_invar q \<Longrightarrow> int (length (lq_nodes q)) = lq_num q"
  by (simp add: lq_invar_def lq_nodes_def)

definition lq_fresh :: "'a lqueue \<Rightarrow> nat \<times> 'a \<Rightarrow> bool" where
  "lq_fresh q x \<longleftrightarrow> fst x \<notin> set (lq_list q # lq_nodes q)"

definition lq_put1 :: "'a lqueue \<Rightarrow> nat \<times> 'a \<Rightarrow> 'a lqueue" where
  "lq_put1 q x = fst (list_queue_put q (Some (fst x)) (snd x))"

definition lq_get1 :: "'a lqueue \<Rightarrow> 'a lqueue \<times> 'a option" where
  "lq_get1 q = (case list_queue_get q of (q', p, r) \<Rightarrow> (q', p))"

lemma list_queue_put_ok:
  assumes "lq_invar q" "lq_fresh q (s, r)"
  shows "lq_invar (fst (list_queue_put q (Some s) r))"
    "lq_nodes (fst (list_queue_put q (Some s) r)) = lq_nodes q @ [s]"
    "lq_cont (fst (list_queue_put q (Some s) r)) = lq_cont q @ [r]"
    "snd (list_queue_put q (Some s) r) = int (length (lq_cont q)) + 1"
proof -
  let ?h1 = "set_rcd s r (INIT_LIST_HEAD s (lq_heap q))"
  let ?q = "fst (list_queue_put q (Some s) r)"
  have d: "dlist (lq_heap q) (lq_list q) (lq_nodes q)" using assms(1) by (simp add: lq_invar_def)
  have fresh: "s \<notin> set (lq_list q # lq_nodes q)" using assms(2) by (simp add: lq_fresh_def)
  then have "dlist ?h1 (lq_list q) (lq_nodes q)"
    by (intro dlist_frame [OF d]) (auto simp: INIT_LIST_HEAD_def)
  from dlist_add_tail [OF this fresh]
  have "dlist (lq_heap ?q) (lq_list ?q) (lq_nodes q @ [s])"
    by (simp add: list_queue_put_def Let_def)
  moreover have "lq_num ?q = int (length (lq_nodes q @ [s]))"
    using length_lq_nodes [OF assms(1)] by (simp add: list_queue_put_def Let_def)
  ultimately have i: "lq_invar ?q \<and> lq_nodes ?q = lq_nodes q @ [s]" by (rule lq_invarI)
  then show "lq_invar ?q" "lq_nodes ?q = lq_nodes q @ [s]" by auto
  show "snd (list_queue_put q (Some s) r) = int (length (lq_cont q)) + 1"
    using length_lq_nodes [OF assms(1)] by (simp add: list_queue_put_def Let_def lq_cont_def)
  have "map (rcd (lq_heap ?q)) (lq_nodes q) = map (rcd (lq_heap q)) (lq_nodes q)"
    using fresh by (auto simp: list_queue_put_def Let_def)
  then show "lq_cont ?q = lq_cont q @ [r]"
    using i by (simp add: lq_cont_def) (simp add: list_queue_put_def Let_def)
qed

lemma list_queue_get_empty:
  assumes "lq_invar q" "lq_cont q = []"
  shows "list_queue_get q = (q, None, 0)"
  using assms length_lq_nodes [OF assms(1)] by (simp add: lq_cont_def list_queue_get_def)

lemma list_queue_get_ok:
  assumes "lq_invar q" "lq_nodes q = s # ss"
  shows "\<exists>q'. list_queue_get q = (q', Some (rcd (lq_heap q) s), int (length ss)) \<and> lq_invar q'
     \<and> lq_nodes q' = ss \<and> lq_cont q' = map (rcd (lq_heap q)) ss \<and> lq_freed q' = s # lq_freed q"
proof -
  have d: "dlist (lq_heap q) (lq_list q) ([] @ s # ss)" using assms by (simp add: lq_invar_def)
  have n: "lq_num q = int (length ss) + 1" using length_lq_nodes [OF assms(1)] assms(2) by simp
  have hd: "nxt (lq_heap q) (lq_list q) = s" using dlist_nxt_head [OF d] by simp
  let ?q = "fst (list_queue_get q)"
  have q: "?q = q\<lparr>lq_num := lq_num q - 1, lq_heap := List_del s (lq_heap q), lq_freed := s # lq_freed q\<rparr>"
    using n hd by (simp add: list_queue_get_def Let_def)
  have "lq_invar ?q \<and> lq_nodes ?q = ss"
    by (rule lq_invarI) (use dlist_del(1) [OF d] n q in simp_all)
  then show ?thesis using n hd q
    by (intro exI [of _ ?q]) (auto simp: list_queue_get_def Let_def lq_cont_def)
qed

interpretation lqf: fifo lq_invar lq_cont lq_fresh snd lq_put1 lq_get1
proof unfold_locales
  fix q :: "'a lqueue" and y ys
  assume a: "lq_invar q" "lq_cont q = y # ys"
  then obtain s ss where n: "lq_nodes q = s # ss" "rcd (lq_heap q) s = y" "map (rcd (lq_heap q)) ss = ys"
    by (auto simp: lq_cont_def)
  from list_queue_get_ok [OF a(1) n(1)] n(2,3)
  show "\<exists>q'. lq_get1 q = (q', Some y) \<and> lq_invar q' \<and> lq_cont q' = ys"
    by (auto simp: lq_get1_def)
qed (auto simp: lq_put1_def lq_get1_def list_queue_put_ok list_queue_get_empty)

lemma init_list_queue_ok:
  "init_list_queue h (Some p) = Some q \<Longrightarrow> lq_invar q \<and> lq_cont q = [] \<and> lq_nodes q = [] \<and> lq_list q = p"
  using lq_invarI [of q "[]"] by (auto simp: init_list_queue_def lq_cont_def dlist_init)

lemma lqf_ready_all:
  "lq_invar q \<Longrightarrow> distinct (map fst xs) \<Longrightarrow> set (map fst xs) \<inter> set (lq_list q # lq_nodes q) = {} \<Longrightarrow>
   lqf.ready_all q xs"
proof (induction xs arbitrary: q)
  case (Cons x xs)
  obtain s r where x: "x = (s, r)" by (cases x)
  have f: "lq_fresh q (s, r)" using Cons.prems x by (auto simp: lq_fresh_def)
  have "lq_list (lq_put1 q x) = lq_list q" by (simp add: lq_put1_def list_queue_put_def Let_def)
  moreover have "lq_nodes (lq_put1 q x) = lq_nodes q @ [s]" "lq_invar (lq_put1 q x)"
    using list_queue_put_ok [OF Cons.prems(1) f] x by (simp_all add: lq_put1_def)
  ultimately show ?case using Cons.IH [of "lq_put1 q x"] Cons.prems f x by auto
qed simp

text \<open>(C25) The list queue is first-in first-out without bound: records put into a new queue, each in
  its own slot, are returned in the order they were put, followed by nothing.\<close>

theorem list_queue_fifo_order:
  assumes "init_list_queue h (Some p) = Some q" "distinct (p # map fst xs)"
  shows "lqf.get_all n (lqf.put_all q xs) = take n (map snd xs)"
proof -
  have q: "lq_invar q" "lq_cont q = []" "lq_nodes q = []" "lq_list q = p"
    using init_list_queue_ok [OF assms(1)] by auto
  then have "lqf.ready_all q xs" using lqf_ready_all [of q xs] assms(2) by auto
  from lqf.fifo_order [OF q(1) this] q(2) show ?thesis by simp
qed

theorem list_queue_fifo_order_witness:
  "\<exists>q. init_list_queue \<lparr>nxt = (\<lambda>a. a), prv = (\<lambda>a. a), rcd = (\<lambda>a. 0 :: int)\<rparr> (Some 9) = Some q \<and>
     lqf.get_all 4 (lqf.put_all q [(1, 10), (2, 20), (3, 30)]) = [10, 20, 30]"
proof -
  obtain q where q: "init_list_queue \<lparr>nxt = (\<lambda>a. a), prv = (\<lambda>a. a), rcd = (\<lambda>a. 0 :: int)\<rparr> (Some 9) = Some q"
    by (simp add: init_list_queue_def)
  show ?thesis using list_queue_fifo_order [OF q, of "[(1, 10), (2, 20), (3, 30)]" 4] q by simp
qed

text \<open>The walk with \<open>list_queue_getfirst\<close> and \<open>list_queue_getnext\<close>.\<close>

fun lq_scan_from :: "nat \<Rightarrow> 'a lqueue \<Rightarrow> 'a list" where
  "lq_scan_from 0 q = []"
| "lq_scan_from (Suc n) q =
     (case list_queue_getnext q of (q', None) \<Rightarrow> [] | (q', Some r) \<Rightarrow> r # lq_scan_from n q')"

definition lq_scan :: "nat \<Rightarrow> 'a lqueue \<Rightarrow> 'a list" where
  "lq_scan n q =
     (case list_queue_getfirst q of (q', None) \<Rightarrow> [] | (q', Some r) \<Rightarrow> r # lq_scan_from n q')"

lemma lq_scan_from_walk:
  assumes "dlist (lq_heap q) (lq_list q) (ys @ y # zs)" "lq_curr q = Some y" "lq_num q \<noteq> 0"
  shows "length zs < n \<Longrightarrow> lq_scan_from n q = map (rcd (lq_heap q)) zs"
  using assms
proof (induction n arbitrary: q ys y zs)
  case (Suc n)
  show ?case
  proof (cases zs)
    case Nil
    then show ?thesis using Suc.prems dlist_nxt_mid [OF Suc.prems(2)]
      by (simp add: list_queue_getnext_def)
  next
    case (Cons z us)
    have "nxt (lq_heap q) y = z" "z \<noteq> lq_list q"
      using Suc.prems dlist_nxt_mid [OF Suc.prems(2)] Cons by (auto simp: dlist_def)
    then have "list_queue_getnext q = (q\<lparr>lq_curr := Some z\<rparr>, Some (rcd (lq_heap q) z))"
      using Suc.prems by (simp add: list_queue_getnext_def)
    then show ?thesis
      using Suc.IH [of us "q\<lparr>lq_curr := Some z\<rparr>" "ys @ [y]" z] Suc.prems Cons by simp
  qed
qed simp

text \<open>Scanning a list queue with \<open>list_queue_getfirst\<close> and then \<open>list_queue_getnext\<close> until it
  answers NULL visits every record once, in queue order.\<close>

theorem list_queue_scan_complete:
  assumes "lq_invar q" "length (lq_cont q) \<le> n"
  shows "lq_scan n q = lq_cont q"
proof (cases "lq_nodes q")
  case Nil
  then show ?thesis using length_lq_nodes [OF assms(1)]
    by (simp add: lq_scan_def list_queue_getfirst_def lq_cont_def)
next
  case (Cons s ss)
  have d: "dlist (lq_heap q) (lq_list q) ([] @ s # ss)" using assms(1) Cons by (simp add: lq_invar_def)
  have n: "lq_num q \<noteq> 0" using length_lq_nodes [OF assms(1)] Cons by auto
  then have f: "list_queue_getfirst q = (q\<lparr>lq_curr := Some s\<rparr>, Some (rcd (lq_heap q) s))"
    using dlist_nxt_head [OF d] by (simp add: list_queue_getfirst_def)
  have "lq_scan_from n (q\<lparr>lq_curr := Some s\<rparr>) = map (rcd (lq_heap q)) ss"
    using lq_scan_from_walk [of "q\<lparr>lq_curr := Some s\<rparr>" "[]" s ss n] d n assms(2) Cons
    by (simp add: lq_cont_def)
  then show ?thesis using f Cons by (simp add: lq_scan_def lq_cont_def)
qed

theorem list_queue_scan_complete_witness:
  "lq_scan 2 \<lparr>lq_heap = \<lparr>nxt = (\<lambda>a. a)(0 := 1, 1 := 2, 2 := 0), prv = (\<lambda>a. a)(0 := 2, 1 := 0, 2 := 1),
      rcd = (\<lambda>a. 10 * a)\<rparr>, lq_list = 0, lq_num = 2, lq_curr = None, lq_freed = []\<rparr> = [10, 20 :: nat]"
  by (subst list_queue_scan_complete)
    (simp_all add: lq_invar_def lq_cont_def lq_nodes_def dlist_def numeral_2_eq_2)

text \<open>\<open>list_queue_removecurr\<close> frees the slot of the cursor but neither takes it out of the ring
  nor counts it off: the freed slot is still the first one of the queue, so the next
  \<open>list_queue_get\<close> reads the freed slot, returns the removed record again and frees it twice.\<close>

theorem list_queue_removecurr_keeps_freed_slot:
  assumes "lq_invar q" "lq_nodes q = s # ss" "lq_curr q = Some s" "list_queue_removecurr q = (q', r)"
  shows "r = Some (rcd (lq_heap q) s) \<and> s \<in> set (lq_freed q') \<and> lq_nodes q' = lq_nodes q
     \<and> (\<exists>q'' n. list_queue_get q' = (q'', r, n) \<and> lq_freed q'' = s # s # lq_freed q)"
proof -
  have n: "lq_num q \<noteq> 0" using length_lq_nodes [OF assms(1)] assms(2) by auto
  then have q': "q' = q\<lparr>lq_curr := Some (nxt (lq_heap q) s), lq_freed := s # lq_freed q\<rparr>"
      "r = Some (rcd (lq_heap q) s)"
    using assms(3,4) by (auto simp: list_queue_removecurr_def Let_def split: if_splits)
  then have nodes: "lq_nodes q' = s # ss" "lq_invar q'" using assms(1,2) by (simp_all add: lq_nodes_def lq_invar_def)
  from list_queue_get_ok [OF nodes(2,1)] show ?thesis using q' nodes(1) assms(2) by auto
qed

theorem list_queue_removecurr_keeps_freed_slot_witness:
  "\<exists>q' q'' n. list_queue_removecurr \<lparr>lq_heap = \<lparr>nxt = (\<lambda>a. a)(0 := 1, 1 := 0), prv = (\<lambda>a. a)(0 := 1, 1 := 0),
      rcd = (\<lambda>a. 10 * a)\<rparr>, lq_list = 0, lq_num = 1, lq_curr = Some 1, lq_freed = []\<rparr> = (q', Some (10 :: nat))
    \<and> list_queue_get q' = (q'', Some 10, n) \<and> lq_freed q'' = [1, 1]"
proof -
  let ?q = "\<lparr>lq_heap = \<lparr>nxt = (\<lambda>a. a)(0 := 1, 1 := 0), prv = (\<lambda>a. a)(0 := 1, 1 := 0),
      rcd = (\<lambda>a. 10 * a)\<rparr>, lq_list = 0, lq_num = 1, lq_curr = Some 1, lq_freed = []\<rparr> :: nat lqueue"
  obtain q' r where q': "list_queue_removecurr ?q = (q', r)" by fastforce
  have "lq_nodes ?q = [1]" by (simp add: lq_nodes_def)
  moreover have "lq_invar ?q" by (simp add: lq_invar_def lq_nodes_def dlist_def)
  ultimately show ?thesis
    using list_queue_removecurr_keeps_freed_slot [of ?q 1 "[]" q' r] q' by auto
qed

end
