(* ===== verification/Cube_Alloc.thy ===== *)
theory Cube_Alloc
  imports Cube_Prelude Cube_Memfunc
begin

text \<open>
  \<^verbatim>\<open>cubelib/alloc/alloc.c\<close>: the tagged allocator \<open>Talloc\<close>, \<open>Salloc\<close>, \<open>Dalloc\<close>, \<open>Calloc\<close>,
  \<open>Palloc\<close>, \<open>Free\<close>, and the block list behind \<open>general_alloc\<close>, \<open>general_free\<close> and \<open>TmemReset\<close>.
  The answer of \<^verbatim>\<open>malloc\<close> is an argument: \<open>None\<close> for \<open>NULL\<close>, else the address of a block. An
  operation that would write through \<open>NULL\<close> has no result (\<open>None\<close>).
\<close>

section \<open>Descriptors\<close>

abbreviation (input) ALLOC_TEMP :: u32 where "ALLOC_TEMP \<equiv> 1"
abbreviation (input) ALLOC_STATIC :: u32 where "ALLOC_STATIC \<equiv> 2"
abbreviation (input) ALLOC_CACHE :: u32 where "ALLOC_CACHE \<equiv> 3"
abbreviation (input) ALLOC_DYNAMIC :: u32 where "ALLOC_DYNAMIC \<equiv> 4"

definition get32 :: "mem \<Rightarrow> nat \<Rightarrow> u32" where
  "get32 m a = ucast (m a) OR push_bit 8 (ucast (m (a + 1))) OR push_bit 16 (ucast (m (a + 2)))
     OR push_bit 24 (ucast (m (a + 3)))"

definition put32 :: "mem \<Rightarrow> nat \<Rightarrow> u32 \<Rightarrow> mem" where
  "put32 m a w = m(a := ucast w, a + 1 := ucast (drop_bit 8 w), a + 2 := ucast (drop_bit 16 w),
     a + 3 := ucast (drop_bit 24 w))"

definition put_ptr :: "mem \<Rightarrow> nat \<Rightarrow> nat \<Rightarrow> mem" where
  "put_ptr m a p = mem_write m a (map (\<lambda>i. of_nat (p div 256 ^ i)) [0..<8])"

definition get_ptr :: "mem \<Rightarrow> nat \<Rightarrow> nat" where
  "get_ptr m a = (\<Sum>i<8. unat (m (a + i)) * 256 ^ i)"

definition Pointer_Desc :: "mem \<Rightarrow> nat \<Rightarrow> u32" where
  "Pointer_Desc m pointer = get32 m (pointer - 4)"

definition Pointer_Type :: "mem \<Rightarrow> nat \<Rightarrow> u32" where
  "Pointer_Type m pointer = drop_bit 28 (Pointer_Desc m pointer AND 0xF0000000)"

definition Pointer_Size :: "mem \<Rightarrow> nat \<Rightarrow> u32" where
  "Pointer_Size m pointer = Pointer_Desc m pointer AND 0x0FFFFFFF"

section \<open>The tagged allocator\<close>

type_synonym allocated = "mem \<times> nat option"

definition Talloc :: "mem \<Rightarrow> nat option \<Rightarrow> int \<Rightarrow> allocated" where
  "Talloc m block sz =
     (case block of
        None \<Rightarrow> (m, None)
      | Some p \<Rightarrow>
          let m1 = put32 m p (word_of_int sz);
              m2 = put32 m1 p (get32 m1 p OR push_bit 28 ALLOC_TEMP)
          in (m2, Some (p + 4)))"

definition Talloc0 :: "mem \<Rightarrow> nat option \<Rightarrow> int \<Rightarrow> allocated" where
  "Talloc0 m block sz =
     (case Talloc m block sz of
        (m', None) \<Rightarrow> (m', None)
      | (m', Some p) \<Rightarrow> (fst (Memset m' p 0 sz), Some p))"

text \<open>
  \<open>TFree\<close>, \<open>SFree\<close>, \<open>DFree\<close> and \<open>CFree\<close> answer the address they give to \<^verbatim>\<open>free\<close>.
\<close>

definition TFree :: "nat \<Rightarrow> nat" where
  "TFree pointer = pointer - 4"

text \<open>
  \<open>Salloc\<close> lacks the \<^verbatim>\<open>return NULL\<close> under its null test: the statement that stores the size is
  the body of the test, so it runs for \<open>NULL\<close> only, and a real block is only or-ed with its type.
\<close>

definition Salloc :: "mem \<Rightarrow> nat option \<Rightarrow> int \<Rightarrow> allocated option" where
  "Salloc m block sz =
     (case block of
        None \<Rightarrow> None
      | Some p \<Rightarrow> Some (put32 m p (get32 m p OR push_bit 28 ALLOC_STATIC), Some (p + 4)))"

definition Salloc0 :: "mem \<Rightarrow> nat option \<Rightarrow> int \<Rightarrow> allocated option" where
  "Salloc0 m block sz =
     (case Salloc m block sz of
        None \<Rightarrow> None
      | Some (m', None) \<Rightarrow> Some (m', None)
      | Some (m', Some p) \<Rightarrow> Some (fst (Memset m' p 0 sz), Some p))"

definition SFree :: "nat \<Rightarrow> nat" where
  "SFree pointer = pointer - 4"

definition Dalloc :: "mem \<Rightarrow> nat option \<Rightarrow> int \<Rightarrow> nat \<Rightarrow> allocated" where
  "Dalloc m block sz base =
     (case block of
        None \<Rightarrow> (m, None)
      | Some p \<Rightarrow>
          let m1 = put_ptr m p base;
              m2 = put32 m1 (p + 8) (word_of_int sz);
              m3 = put32 m2 (p + 8) (get32 m2 (p + 8) OR push_bit 28 ALLOC_DYNAMIC)
          in (m3, Some (p + 4 + 8)))"

definition Dalloc0 :: "mem \<Rightarrow> nat option \<Rightarrow> int \<Rightarrow> nat \<Rightarrow> allocated" where
  "Dalloc0 m block sz base =
     (case Dalloc m block sz base of
        (m', None) \<Rightarrow> (m', None)
      | (m', Some p) \<Rightarrow> (fst (Memset m' p 0 sz), Some p))"

definition Dpointer_set :: "mem \<Rightarrow> nat \<Rightarrow> nat \<Rightarrow> mem \<times> nat" where
  "Dpointer_set m pointer base =
     (let m1 = (if base \<noteq> 0 then put_ptr m base pointer else m)
      in (put_ptr m1 (pointer - 4 - 8) base, pointer))"

definition DFree :: "nat \<Rightarrow> nat" where
  "DFree pointer = pointer - 4 - 8"

definition Calloc :: "mem \<Rightarrow> nat option \<Rightarrow> int \<Rightarrow> allocated" where
  "Calloc m block sz =
     (case block of
        None \<Rightarrow> (m, None)
      | Some p \<Rightarrow>
          let m1 = put32 m p (word_of_int sz);
              m2 = put32 m1 p (get32 m1 p OR push_bit 28 ALLOC_CACHE)
          in (m2, Some (p + 4)))"

definition Calloc0 :: "mem \<Rightarrow> nat option \<Rightarrow> int \<Rightarrow> allocated" where
  "Calloc0 m block sz =
     (case Calloc m block sz of
        (m', None) \<Rightarrow> (m', None)
      | (m', Some p) \<Rightarrow> (fst (Memset m' p 0 sz), Some p))"

definition CFree :: "nat \<Rightarrow> nat" where
  "CFree pointer = pointer - 4"

definition Palloc :: "mem \<Rightarrow> nat option \<Rightarrow> int \<Rightarrow> nat \<Rightarrow> allocated option" where
  "Palloc m block sz base =
     (let t = Pointer_Type m base
      in if t = ALLOC_TEMP then Some (Talloc m block sz)
         else if t = ALLOC_STATIC then Salloc m block sz
         else if t = ALLOC_DYNAMIC then Some (Dalloc m block sz base)
         else if t = ALLOC_CACHE then Some (Dalloc m block sz base)
         else Some (m, None))"

definition Palloc0 :: "mem \<Rightarrow> nat option \<Rightarrow> int \<Rightarrow> nat \<Rightarrow> allocated option" where
  "Palloc0 m block sz base =
     (case Palloc m block sz base of
        None \<Rightarrow> None
      | Some (m', None) \<Rightarrow> Some (m', None)
      | Some (m', Some p) \<Rightarrow> Some (fst (Memset m' p 0 sz), Some p))"

text \<open>\<open>Free\<close> answers the return code and the block given to \<^verbatim>\<open>free\<close>, if any.\<close>

definition Free :: "mem \<Rightarrow> nat \<Rightarrow> int \<times> nat option" where
  "Free m pointer =
     (let t = Pointer_Type m pointer
      in if t = ALLOC_TEMP then (0, Some (TFree pointer))
         else if t = ALLOC_STATIC then (- EINVAL, None)
         else if t = ALLOC_DYNAMIC then (0, Some (DFree pointer))
         else if t = ALLOC_CACHE then (0, Some (CFree pointer))
         else (- EINVAL, None))"

definition Free0 :: "mem \<Rightarrow> nat \<Rightarrow> mem \<times> int \<times> nat option" where
  "Free0 m pointer =
     (let sz = uint (Pointer_Size m pointer);
          m' = fst (Memset m pointer 0 sz)
      in (m', 0, snd (Free m' pointer)))"

section \<open>Codec lemmas\<close>

lemma get32_put32 [simp, mem_simps]: "get32 (put32 m a w) a = w"
proof (rule bit_word_eqI)
  fix n :: nat
  assume "n < LENGTH(32)"
  moreover have "n < 8 \<or> 8 \<le> n \<and> n < 16 \<and> 8 + (n - 8) = n \<or> 16 \<le> n \<and> n < 24 \<and> 16 + (n - 16) = n
      \<or> 24 \<le> n \<and> 24 + (n - 24) = n" by linarith
  ultimately show "bit (get32 (put32 m a w) a) n = bit w n"
    unfolding get32_def put32_def by (auto simp: fun_upd_apply bit_simps)
qed

lemma put32_outside: "x < a \<or> a + 4 \<le> x \<Longrightarrow> put32 m a w x = m x"
  by (auto simp: put32_def fun_upd_apply)

lemma get32_cong: "(\<And>x. a \<le> x \<Longrightarrow> x < a + 4 \<Longrightarrow> m x = m' x) \<Longrightarrow> get32 m a = get32 m' a"
  by (simp add: get32_def)

lemma get32_put32_other: "b + 4 \<le> a \<or> a + 4 \<le> b \<Longrightarrow> get32 (put32 m a w) b = get32 m b"
  by (rule get32_cong) (auto intro!: put32_outside)

lemma base256_digits:
  "(\<Sum>i<k. (p div 256 ^ i mod 256) * 256 ^ i) = p mod 256 ^ k" for p :: nat
proof (induction k)
  case (Suc k)
  have "p mod 256 ^ Suc k = p mod 256 ^ k + 256 ^ k * (p div 256 ^ k mod 256)"
    using mod_mult2_eq [of p "256 ^ k" 256] by (simp add: mult.commute)
  then show ?case using Suc by (simp add: mult.commute)
qed simp

lemma get_ptr_put_ptr [simp, mem_simps]: "p < 2 ^ 64 \<Longrightarrow> get_ptr (put_ptr m a p) a = p"
proof -
  assume p: "p < 2 ^ 64"
  have "get_ptr (put_ptr m a p) a = (\<Sum>i<8. (p div 256 ^ i mod 256) * 256 ^ i)"
    unfolding get_ptr_def
    by (rule sum.cong) (auto simp: put_ptr_def mem_write_apply unat_of_nat simp del: upt_Suc upt_rec_numeral)
  also have "\<dots> = p" using p base256_digits [of p 8] by simp
  finally show ?thesis .
qed

lemma put_ptr_outside: "x < a \<or> a + 8 \<le> x \<Longrightarrow> put_ptr m a p x = m x"
  by (auto simp: put_ptr_def mem_write_apply simp del: upt_Suc upt_rec_numeral)

lemma tag_masks: "(0xF0000000 :: u32) = NOT (mask 28)" "(0x0FFFFFFF :: u32) = mask 28"
  by (simp_all add: mask_eq_exp_minus_1)

lemma bit_small_int: "0 \<le> sz \<Longrightarrow> sz < 2 ^ 28 \<Longrightarrow> 28 \<le> n \<Longrightarrow> \<not> bit (sz :: int) n"
  by (metis bit_take_bit_iff linorder_not_le take_bit_int_eq_self)

lemma tagged_desc:
  assumes "0 \<le> sz" "sz < 2 ^ 28"
  shows "drop_bit 28 ((word_of_int sz OR push_bit 28 t) AND (0xF0000000 :: u32)) = take_bit 4 t"
    and "(word_of_int sz OR push_bit 28 t) AND (0x0FFFFFFF :: u32) = word_of_int sz"
proof -
  show "drop_bit 28 ((word_of_int sz OR push_bit 28 t) AND (0xF0000000 :: u32)) = take_bit 4 t"
    unfolding tag_masks
    by (rule bit_word_eqI) (auto simp: bit_simps bit_small_int [OF assms])
  show "(word_of_int sz OR push_bit 28 t) AND (0x0FFFFFFF :: u32) = word_of_int sz"
    unfolding tag_masks
    using bit_small_int [OF assms] by (intro bit_word_eqI) (auto simp: bit_simps not_less not_le [symmetric])
qed

lemma Memset_keeps_header: "a + 4 \<le> p \<Longrightarrow> get32 (fst (Memset m p c n)) a = get32 m a"
  by (rule get32_cong) (auto simp: Memset_def memset_loop_write mem_write_apply)

lemma Memset_zero_bytes: "0 \<le> n \<Longrightarrow> i < nat n \<Longrightarrow> fst (Memset m p 0 n) (p + i) = 0"
  by (simp add: Memset_def memset_loop_write mem_write_apply)

lemma get_ptr_cong: "(\<And>x. a \<le> x \<Longrightarrow> x < a + 8 \<Longrightarrow> m x = m' x) \<Longrightarrow> get_ptr m a = get_ptr m' a"
  unfolding get_ptr_def by (rule sum.cong) auto

lemma Dalloc0_Some:
  "Dalloc0 m (Some q) sz base = (fst (Dalloc0 m (Some q) sz base), Some (q + 12))"
  "x \<notin> {q..<q + 12 + nat sz} \<Longrightarrow> fst (Dalloc0 m (Some q) sz base) x = m x"
proof -
  show "Dalloc0 m (Some q) sz base = (fst (Dalloc0 m (Some q) sz base), Some (q + 12))" by (simp add: Dalloc0_def Dalloc_def Let_def)
  assume "x \<notin> {q..<q + 12 + nat sz}"
  then consider "x < q" | "q + 12 + nat sz \<le> x" by fastforce
  then show "fst (Dalloc0 m (Some q) sz base) x = m x"
    by cases (simp_all add: Dalloc0_def Dalloc_def Memset_def memset_loop_write mem_write_apply put32_outside put_ptr_outside Let_def)
qed

text \<open>A block from \<open>Talloc0\<close> or \<open>Calloc0\<close> of a size below \<open>2^28\<close> is zeroed, its descriptor gives
  back the allocation type and the size, and \<open>Free\<close> hands exactly the block of \<^verbatim>\<open>malloc\<close> back.\<close>

theorem tagged_alloc_roundtrip:
  assumes "0 \<le> sz" "sz < 2 ^ 28"
    and "alloc = Talloc0 \<and> tag = ALLOC_TEMP \<or> alloc = Calloc0 \<and> tag = ALLOC_CACHE"
    and "alloc m (Some p) sz = (m', r)"
  shows "r = Some (p + 4) \<and> Pointer_Type m' (p + 4) = tag \<and> uint (Pointer_Size m' (p + 4)) = sz
    \<and> Free m' (p + 4) = (0, Some p) \<and> (\<forall>i<nat sz. m' (p + 4 + i) = 0)"
proof -
  have desc: "get32 m' p = word_of_int sz OR push_bit 28 tag" and r: "r = Some (p + 4)"
    and z: "\<exists>m0. m' = fst (Memset m0 (p + 4) 0 sz)"
    using assms(3,4) by (auto simp: Talloc0_def Talloc_def Calloc0_def Calloc_def Let_def Memset_keeps_header)
  have tag: "take_bit 4 tag = tag" using assms(3) by auto
  have t: "Pointer_Type m' (p + 4) = tag"
    using desc tagged_desc(1) [OF assms(1,2)] tag by (simp add: Pointer_Type_def Pointer_Desc_def)
  have "uint (Pointer_Size m' (p + 4)) = sz"
    using desc tagged_desc(2) [OF assms(1,2)] assms(1,2)
    by (simp add: Pointer_Size_def Pointer_Desc_def unsigned_of_int take_bit_int_eq_self)
  moreover have "Free m' (p + 4) = (0, Some p)"
    using t assms(3) by (auto simp: Free_def TFree_def CFree_def)
  moreover have "\<forall>i<nat sz. m' (p + 4 + i) = 0" using z Memset_zero_bytes [OF assms(1)] by blast
  ultimately show ?thesis using r t by blast
qed

theorem tagged_alloc_roundtrip_witness:
  "\<exists>m'. Talloc0 (\<lambda>_. 7) (Some 100) 3 = (m', Some 104) \<and> Free m' 104 = (0, Some 100)"
proof -
  obtain m' r where "Talloc0 (\<lambda>_. 7) (Some 100) 3 = (m', r)" by fastforce
  then show ?thesis using tagged_alloc_roundtrip [of 3 Talloc0 ALLOC_TEMP "\<lambda>_. 7" 100 m' r] by auto
qed

text \<open>A block from \<open>Dalloc0\<close> also keeps the base pointer in front of its descriptor, and \<open>Free\<close>
  skips both when it releases the block.\<close>

theorem dynamic_alloc_roundtrip:
  assumes "0 \<le> sz" "sz < 2 ^ 28" "base < 2 ^ 64" "Dalloc0 m (Some p) sz base = (m', r)"
  shows "r = Some (p + 12) \<and> Pointer_Type m' (p + 12) = ALLOC_DYNAMIC \<and> uint (Pointer_Size m' (p + 12)) = sz
    \<and> get_ptr m' p = base \<and> Free m' (p + 12) = (0, Some p) \<and> (\<forall>i<nat sz. m' (p + 12 + i) = 0)"
proof -
  let ?m1 = "put_ptr m p base"
  let ?m3 = "put32 (put32 ?m1 (p + 8) (word_of_int sz)) (p + 8) (word_of_int sz OR push_bit 28 ALLOC_DYNAMIC)"
  have m': "m' = fst (Memset ?m3 (p + 12) 0 sz)" and r: "r = Some (p + 12)"
    using assms(4) by (auto simp: Dalloc0_def Dalloc_def Let_def add.commute [of 12])
  have desc: "get32 m' (p + 8) = word_of_int sz OR push_bit 28 ALLOC_DYNAMIC"
    unfolding m' by (simp add: Memset_keeps_header del: push_bit_numeral)
  have pd: "Pointer_Desc m' (p + 12) = get32 m' (p + 8)"
    by (simp add: Pointer_Desc_def add.commute [of 8])
  have t: "Pointer_Type m' (p + 12) = ALLOC_DYNAMIC"
    using desc pd tagged_desc(1) [OF assms(1,2), of ALLOC_DYNAMIC] by (simp add: Pointer_Type_def)
  have "uint (Pointer_Size m' (p + 12)) = sz"
    using desc pd tagged_desc(2) [OF assms(1,2), of ALLOC_DYNAMIC] assms(1,2)
    by (simp add: Pointer_Size_def unsigned_of_int take_bit_int_eq_self)
  moreover have "get_ptr m' p = get_ptr ?m1 p" unfolding m'
    by (rule get_ptr_cong) (simp add: Memset_def memset_loop_write mem_write_apply put32_outside)
  moreover have "Free m' (p + 12) = (0, Some p)" using t by (simp add: Free_def DFree_def)
  ultimately show ?thesis using r t m' assms(3) Memset_zero_bytes [OF assms(1)] by simp
qed

theorem dynamic_alloc_roundtrip_witness:
  "\<exists>m'. Dalloc0 (\<lambda>_. 7) (Some 100) 3 500 = (m', Some 112) \<and> get_ptr m' 100 = 500
     \<and> Free m' 112 = (0, Some 100)"
proof -
  obtain m' r where "Dalloc0 (\<lambda>_. 7) (Some 100) 3 500 = (m', r)" by fastforce
  then show ?thesis using dynamic_alloc_roundtrip [of 3 500 "\<lambda>_. 7" 100 m' r] by auto
qed

text \<open>\<open>Salloc\<close> never stores the size: on a block of \<^verbatim>\<open>malloc\<close> the size field stays whatever the
  block held and the type is the old type bits or-ed with \<open>ALLOC_STATIC\<close>, so \<open>Free\<close> can accept a
  static block; without memory it has no result, since it writes through \<open>NULL\<close>.\<close>

theorem Salloc_stale_descriptor:
  "Salloc m None sz = None \<and>
   (\<exists>m'. Salloc m (Some p) sz = Some (m', Some (p + 4)) \<and>
      Pointer_Size m' (p + 4) = get32 m p AND 0x0FFFFFFF \<and>
      Pointer_Type m' (p + 4) = drop_bit 28 (get32 m p) OR ALLOC_STATIC)"
proof -
  have "(w OR push_bit 28 t) AND 0x0FFFFFFF = w AND (0x0FFFFFFF :: u32)" for w t
    unfolding tag_masks by (rule bit_word_eqI) (auto simp: bit_simps)
  from this [of _ ALLOC_STATIC]
  have "(w OR 536870912) AND 0x0FFFFFFF = w AND (0x0FFFFFFF :: u32)" for w by simp
  moreover have "drop_bit 28 ((w OR push_bit 28 t) AND 0xF0000000) = drop_bit 28 w OR take_bit 4 (t :: u32)" for w t
    unfolding tag_masks by (rule bit_word_eqI) (auto simp: bit_simps dest: bit_imp_le_length)
  from this [of _ ALLOC_STATIC]
  have "drop_bit 28 ((w OR 536870912) AND 0xF0000000) = drop_bit 28 w OR ALLOC_STATIC" for w by simp
  ultimately show ?thesis
    by (simp add: Salloc_def Pointer_Size_def Pointer_Type_def Pointer_Desc_def)
qed

section \<open>The block list\<close>

text \<open>
  \<^verbatim>\<open>POINTER_LIST\<close> nodes by address, 16 bytes each, the payload right behind them; the size field
  has 16 bits. The counters of \<^verbatim>\<open>struct alloc_struct\<close> are unbounded integers here.
\<close>

record block =
  bk_type :: byte
  bk_flag :: byte
  bk_size :: u16
  bk_next :: "nat option"

record alloc_struct =
  total_size :: int
  occupy_size :: int
  pointer_no :: int
  al_first :: "nat option"
  al_tail :: "nat option"

type_synonym blocks = "nat \<Rightarrow> block"

definition alloc_empty :: alloc_struct where
  "alloc_empty = \<lparr>total_size = 0, occupy_size = 0, pointer_no = 0, al_first = None, al_tail = None\<rparr>"

definition general_alloc ::
  "byte \<Rightarrow> byte \<Rightarrow> blocks \<Rightarrow> alloc_struct \<Rightarrow> nat option \<Rightarrow> int \<Rightarrow> (blocks \<times> alloc_struct) \<times> nat option" where
  "general_alloc type flag bs st mem_list sz =
     (case mem_list of
        None \<Rightarrow> ((bs, st), None)
      | Some p \<Rightarrow>
          let realsize = sz + 16;
              bs1 = bs(p := \<lparr>bk_type = type, bk_flag = flag, bk_size = word_of_int sz, bk_next = None\<rparr>);
              st1 = st\<lparr>total_size := total_size st + sz, occupy_size := occupy_size st + realsize,
                       pointer_no := pointer_no st + 1\<rparr>
          in case al_tail st of
               None \<Rightarrow> ((bs1, st1\<lparr>al_first := Some p, al_tail := Some p\<rparr>), Some (p + 16))
             | Some t \<Rightarrow> ((bs1(t := (bs1 t)\<lparr>bk_next := Some p\<rparr>), st1\<lparr>al_tail := Some p\<rparr>), Some (p + 16)))"

definition alloc_pointer_type :: "blocks \<Rightarrow> nat \<Rightarrow> byte" where
  "alloc_pointer_type bs pointer = bk_type (bs (pointer - 16))"

text \<open>The search for the predecessor; a walk through \<open>NULL\<close> or without end has no result.\<close>

partial_function (option) unlink_loop ::
  "blocks \<Rightarrow> alloc_struct \<Rightarrow> nat \<Rightarrow> nat option \<Rightarrow> (blocks \<times> alloc_struct \<times> bool) option" where
  "unlink_loop bs st mem_list priv =
     (if priv = None then None
      else if bk_next (bs (the priv)) = None then Some (bs, st, False)
      else if bk_next (bs (the priv)) = Some mem_list then
        Some (bs(the priv := (bs (the priv))\<lparr>bk_next := bk_next (bs mem_list)\<rparr>),
              (if al_tail st = Some mem_list then st\<lparr>al_tail := priv\<rparr> else st), True)
      else unlink_loop bs st mem_list (bk_next (bs (the priv))))"

text \<open>\<open>general_free\<close> answers its code and the block given to \<^verbatim>\<open>free\<close>.\<close>

definition general_free ::
  "nat \<Rightarrow> blocks \<Rightarrow> alloc_struct \<Rightarrow> ((blocks \<times> alloc_struct) \<times> int \<times> nat option) option" where
  "general_free pointer bs st =
     (let mem_list = pointer - 16;
          st1 = st\<lparr>total_size := total_size st - uint (bk_size (bs mem_list)),
                   occupy_size := occupy_size st - (uint (bk_size (bs mem_list)) + 16),
                   pointer_no := pointer_no st - 1\<rparr>
      in if Some mem_list = al_first st then
           let st2 = st1\<lparr>al_first := Some mem_list\<rparr>;
               st3 = (if Some mem_list = al_tail st2 then st2\<lparr>al_tail := None\<rparr> else st2)
           in Some ((bs, st3), 0, Some mem_list)
         else
           (case unlink_loop bs st1 mem_list (al_first st1) of
              None \<Rightarrow> None
            | Some (bs', st', False) \<Rightarrow> Some ((bs', st'), - EINVAL, None)
            | Some (bs', st', True) \<Rightarrow> Some ((bs', st'), 0, Some mem_list)))"

partial_function (option) reset_loop ::
  "blocks \<Rightarrow> alloc_struct \<Rightarrow> nat option \<Rightarrow> nat list \<Rightarrow> (alloc_struct \<times> nat list) option" where
  "reset_loop bs st priv freed =
     (if priv = None then Some (st, freed)
      else reset_loop bs
            (st\<lparr>total_size := total_size st - uint (bk_size (bs (the priv))),
                occupy_size := occupy_size st - (uint (bk_size (bs (the priv))) + 16),
                pointer_no := pointer_no st - 1\<rparr>)
            (bk_next (bs (the priv))) (freed @ [the priv]))"

definition TmemReset :: "blocks \<Rightarrow> alloc_struct \<Rightarrow> (alloc_struct \<times> nat list) option" where
  "TmemReset bs st =
     map_option (\<lambda>(st', freed). (st'\<lparr>al_first := None, al_tail := None\<rparr>, freed))
       (reset_loop bs st (al_first st) [])"

text \<open>The list a state stands for: \<open>blist bs a xs\<close> holds for the nodes \<open>xs\<close> from link \<open>a\<close> to \<open>NULL\<close>.\<close>

fun blist :: "blocks \<Rightarrow> nat option \<Rightarrow> nat list \<Rightarrow> bool" where
  "blist bs a [] \<longleftrightarrow> a = None"
| "blist bs a (x # xs) \<longleftrightarrow> a = Some x \<and> blist bs (bk_next (bs x)) xs"

definition blocks_size :: "blocks \<Rightarrow> nat list \<Rightarrow> int" where
  "blocks_size bs xs = (\<Sum>x\<leftarrow>xs. uint (bk_size (bs x)))"

definition alloc_inv :: "blocks \<Rightarrow> alloc_struct \<Rightarrow> nat list \<Rightarrow> bool" where
  "alloc_inv bs st xs \<longleftrightarrow> distinct xs \<and> blist bs (al_first st) xs
     \<and> al_tail st = (if xs = [] then None else Some (last xs))
     \<and> total_size st = blocks_size bs xs \<and> occupy_size st = blocks_size bs xs + 16 * int (length xs)
     \<and> pointer_no st = int (length xs)"

lemma blist_cong: "(\<And>x. x \<in> set xs \<Longrightarrow> bk_next (bs x) = bk_next (bs' x)) \<Longrightarrow> blist bs a xs = blist bs' a xs"
  by (induction xs arbitrary: a) auto

lemma blocks_size_cong: "(\<And>x. x \<in> set xs \<Longrightarrow> bk_size (bs x) = bk_size (bs' x)) \<Longrightarrow> blocks_size bs xs = blocks_size bs' xs"
  unfolding blocks_size_def by (metis (mono_tags, lifting) map_eq_conv)

lemma blocks_size_simps [simp]:
  "blocks_size bs [] = 0" "blocks_size bs (x # xs) = uint (bk_size (bs x)) + blocks_size bs xs"
  "blocks_size bs (xs @ ys) = blocks_size bs xs + blocks_size bs ys"
  by (simp_all add: blocks_size_def)

text \<open>Linking the last node of a list to a new one, and unlinking an inner one.\<close>

lemma blist_snoc:
  "blist bs a (xs @ [t]) \<Longrightarrow> distinct (xs @ [t, p]) \<Longrightarrow> bk_next (bs p) = None \<Longrightarrow>
   blist (bs(t := (bs t)\<lparr>bk_next := Some p\<rparr>)) a (xs @ [t, p])"
  by (induction xs arbitrary: a) (auto simp: fun_upd_apply)

lemma blist_unlink:
  "blist bs a (ys @ y # x # zs) \<Longrightarrow> distinct (ys @ y # x # zs) \<Longrightarrow>
   blist (bs(y := (bs y)\<lparr>bk_next := bk_next (bs x)\<rparr>)) a (ys @ y # zs)"
proof (induction ys arbitrary: a)
  case Nil
  then have "blist (bs(y := (bs y)\<lparr>bk_next := bk_next (bs x)\<rparr>)) (bk_next (bs x)) zs
      = blist bs (bk_next (bs x)) zs"
    by (intro blist_cong) (auto simp: fun_upd_apply)
  then show ?case using Nil by simp
qed (auto simp: fun_upd_apply)

lemma unlink_loop_finds:
  "blist bs a (ys @ y # x # zs) \<Longrightarrow> distinct (ys @ y # x # zs) \<Longrightarrow>
   unlink_loop bs st x a =
     Some (bs(y := (bs y)\<lparr>bk_next := bk_next (bs x)\<rparr>),
           (if al_tail st = Some x then st\<lparr>al_tail := Some y\<rparr> else st), True)"
proof (induction ys arbitrary: a)
  case Nil
  then show ?case by (simp add: unlink_loop.simps [of _ _ _ "Some y"])
next
  case (Cons u ys)
  have "bk_next (bs u) = Some (hd (ys @ [y]))" "hd (ys @ [y]) \<noteq> x"
    using Cons.prems by (cases ys; auto)+
  then show ?case using Cons.IH [of "bk_next (bs u)"] Cons.prems
    by (simp add: unlink_loop.simps [of _ _ _ "Some u"])
qed

lemma reset_loop_all:
  "blist bs a xs \<Longrightarrow> reset_loop bs st a freed =
     Some (st\<lparr>total_size := total_size st - blocks_size bs xs,
              occupy_size := occupy_size st - (blocks_size bs xs + 16 * int (length xs)),
              pointer_no := pointer_no st - int (length xs)\<rparr>, freed @ xs)"
proof (induction xs arbitrary: a st freed)
  case Nil
  then show ?case by (simp add: reset_loop.simps)
next
  case (Cons x xs)
  then show ?case by (simp add: reset_loop.simps [of _ _ "Some x"] algebra_simps)
qed

text \<open>\<open>general_alloc\<close> appends the new block to the block list and keeps the size counters equal
  to the sums over the list, for sizes the 16-bit size field can hold.\<close>

theorem general_alloc_appends:
  assumes "alloc_inv bs st xs" "p \<notin> set xs" "0 \<le> sz" "sz < 65536"
    and "general_alloc ty fl bs st (Some p) sz = ((bs', st'), r)"
  shows "alloc_inv bs' st' (xs @ [p]) \<and> r = Some (p + 16) \<and> total_size st' = total_size st + sz
    \<and> alloc_pointer_type bs' (p + 16) = ty"
proof (cases xs rule: rev_cases)
  case Nil
  then show ?thesis using assms
    by (auto simp: general_alloc_def alloc_inv_def Let_def alloc_pointer_type_def fun_upd_apply
        unsigned_of_int take_bit_int_eq_self)
next
  case (snoc ys t)
  let ?b = "\<lparr>bk_type = ty, bk_flag = fl, bk_size = word_of_int sz, bk_next = None\<rparr>"
  let ?bs = "bs(p := ?b)"
  have tail: "al_tail st = Some t" and dist: "distinct (ys @ [t, p])"
    using assms(1,2) snoc by (auto simp: alloc_inv_def)
  then have bs': "bs' = ?bs(t := (?bs t)\<lparr>bk_next := Some p\<rparr>)" and r: "r = Some (p + 16)"
    and st': "st' = st\<lparr>total_size := total_size st + sz, occupy_size := occupy_size st + (sz + 16),
                   pointer_no := pointer_no st + 1, al_tail := Some p\<rparr>"
    using assms(5) by (auto simp: general_alloc_def Let_def)
  have "blist ?bs (al_first st) xs = blist bs (al_first st) xs"
    by (rule blist_cong) (use assms(2) in \<open>auto simp: fun_upd_apply\<close>)
  then have "blist bs' (al_first st) (ys @ [t, p])"
    unfolding bs' using blist_snoc [of ?bs "al_first st" ys t p] assms(1) snoc dist
    by (simp add: alloc_inv_def fun_upd_apply)
  moreover have "blocks_size bs' xs = blocks_size bs xs"
    by (rule blocks_size_cong) (use assms(2) in \<open>auto simp: bs' fun_upd_apply\<close>)
  moreover have "uint (bk_size (bs' p)) = sz" "bk_type (bs' p) = ty"
    using assms(3,4) dist by (auto simp: bs' fun_upd_apply unsigned_of_int take_bit_int_eq_self)
  ultimately show ?thesis
    using assms(1) snoc dist r st' by (auto simp: alloc_inv_def alloc_pointer_type_def)
qed

text \<open>\<open>general_free\<close> of a block that is not the first of the list takes it out of the list,
  gives it to \<^verbatim>\<open>free\<close> and keeps the counters right.\<close>

theorem general_free_removes:
  assumes "alloc_inv bs st (ys @ y # x # zs)"
  shows "\<exists>bs' st'. general_free (x + 16) bs st = Some ((bs', st'), 0, Some x)
     \<and> alloc_inv bs' st' (ys @ y # zs)"
proof -
  let ?bs = "bs(y := (bs y)\<lparr>bk_next := bk_next (bs x)\<rparr>)"
  let ?st = "st\<lparr>total_size := total_size st - uint (bk_size (bs x)),
                   occupy_size := occupy_size st - (uint (bk_size (bs x)) + 16),
                   pointer_no := pointer_no st - 1\<rparr>"
  have l: "blist bs (al_first st) (ys @ y # x # zs)" and d: "distinct (ys @ y # x # zs)"
    using assms by (simp_all add: alloc_inv_def)
  have "Some x \<noteq> al_first st" using l d by (cases ys) auto
  then have "general_free (x + 16) bs st =
      Some ((?bs, if al_tail ?st = Some x then ?st\<lparr>al_tail := Some y\<rparr> else ?st), 0, Some x)"
    using unlink_loop_finds [OF l d, of ?st] by (simp add: general_free_def Let_def)
  moreover have "blist ?bs (al_first st) (ys @ y # zs)" by (rule blist_unlink [OF l d])
  moreover have "blocks_size ?bs (ys @ y # zs) = blocks_size bs (ys @ y # zs)"
    by (rule blocks_size_cong) (auto simp: fun_upd_apply)
  moreover have "al_tail st = Some x \<longleftrightarrow> zs = []" using assms d by (auto simp: alloc_inv_def)
  ultimately show ?thesis using assms d by (auto simp: alloc_inv_def)
qed

text \<open>\<open>general_free\<close> of the first block gives it to \<^verbatim>\<open>free\<close> and counts it off, but leaves the list
  unchanged with the freed block at its head, so the list no longer agrees with the counters.\<close>

theorem general_free_first_stays:
  assumes "alloc_inv bs st (x # xs)"
  shows "\<exists>st'. general_free (x + 16) bs st = Some ((bs, st'), 0, Some x)
     \<and> blist bs (al_first st') (x # xs) \<and> pointer_no st' = int (length xs) \<and> \<not> alloc_inv bs st' (x # xs)"
proof -
  have "al_first st = Some x" using assms by (simp add: alloc_inv_def)
  then show ?thesis using assms by (auto simp: general_free_def Let_def alloc_inv_def)
qed

text \<open>\<open>TmemReset\<close> ends, gives every block of the list to \<^verbatim>\<open>free\<close> once and leaves the empty state.\<close>

theorem TmemReset_frees_all:
  assumes "alloc_inv bs st xs"
  shows "TmemReset bs st = Some (alloc_empty, xs)"
  using assms reset_loop_all [of bs "al_first st" xs st "[]"]
  by (simp add: TmemReset_def alloc_inv_def alloc_empty_def)

end
