(* ===== verification/Cube_Hashlist.thy ===== *)
theory Cube_Hashlist
  imports Cube_Prelude Cube_List Cube_Memfunc Cube_Alloc
begin

text \<open>
  The hash lists of \<^verbatim>\<open>cubelib/basefunc/basefunc.c\<close>: a table of record lists indexed by the first
  bytes of a 32-byte uuid, searched by uuid or by name and walked with a cursor. The heads of
  the table stand 24 bytes apart, the records are addresses of a byte memory that holds
  \<^verbatim>\<open>UUID_HEAD\<close>: the uuid at the record, the name 32 bytes behind it.
\<close>

section \<open>Operations\<close>

record hashlist =
  hl_heap :: "nat lheap"
  hl_mem :: mem
  hl_num :: nat
  hl_desc :: nat
  hl_table :: nat
  hl_curr_index :: nat
  hl_curr_head :: "nat option"
  hl_freed :: "nat list"

definition get_hash_index :: "mem \<Rightarrow> nat \<Rightarrow> nat" where
  "get_hash_index m uuid = unat (get32 m uuid AND drop_bit (16 - 10) 0xffff)"

definition get_hash_subindex :: "mem \<Rightarrow> nat \<Rightarrow> nat" where
  "get_hash_subindex m uuid = unat (m uuid AND drop_bit (8 - 8) 0xff)"

definition hl_head :: "hashlist \<Rightarrow> nat \<Rightarrow> nat" where
  "hl_head hl i = hl_table hl + 24 * i"

fun init_heads :: "nat \<Rightarrow> nat \<Rightarrow> nat lheap \<Rightarrow> nat lheap" where
  "init_heads table 0 h = h"
| "init_heads table (Suc n) h =
     set_rcd (table + 24 * n) 0 (INIT_LIST_HEAD (table + 24 * n) (init_heads table n h))"

definition init_hash_list :: "nat lheap \<Rightarrow> mem \<Rightarrow> int \<Rightarrow> bool \<Rightarrow> nat option \<Rightarrow> hashlist option" where
  "init_hash_list h m order head_ok hash_table =
     (if order < 0 then None
      else if order > 10 then None
      else if \<not> head_ok then None
      else case hash_table of
             None \<Rightarrow> None
           | Some t \<Rightarrow>
               Some \<lparr>hl_heap = init_heads t (2 ^ nat order) h, hl_mem = m, hl_num = 2 ^ nat order,
                     hl_desc = 0, hl_table = t, hl_curr_index = 0, hl_curr_head = None, hl_freed = []\<rparr>)"

definition hashlist_get_desc :: "hashlist \<Rightarrow> nat" where
  "hashlist_get_desc hl = hl_desc hl"

definition hashlist_set_desc :: "hashlist \<Rightarrow> nat \<Rightarrow> hashlist \<times> int" where
  "hashlist_set_desc hl desc = (hl\<lparr>hl_desc := desc\<rparr>, 0)"

text \<open>The bucket of a uuid; \<open>None\<close> for a table that is neither of order 8 nor of order 10.\<close>

definition hash_bucket :: "hashlist \<Rightarrow> nat \<Rightarrow> nat option" where
  "hash_bucket hl elem =
     (if hl_num hl = 256 then Some (get_hash_subindex (hl_mem hl) elem)
      else if hl_num hl = 1024 then Some (get_hash_index (hl_mem hl) elem)
      else None)"

definition hashlist_add_elem :: "hashlist \<Rightarrow> nat option \<Rightarrow> nat \<Rightarrow> hashlist \<times> nat option" where
  "hashlist_add_elem hl new_record elem =
     (case new_record of
        None \<Rightarrow> (hl, None)
      | Some p \<Rightarrow>
          let hl1 = hl\<lparr>hl_heap := INIT_LIST_HEAD p (hl_heap hl)\<rparr>;
              hl2 = (if Pointer_Desc (hl_mem hl1) elem = ALLOC_DYNAMIC
                     then hl1\<lparr>hl_heap := set_rcd p elem (hl_heap hl1),
                              hl_mem := put_ptr (hl_mem hl1) (elem - 4 - 8) (p + 16)\<rparr>
                     else hl1\<lparr>hl_heap := set_rcd p elem (hl_heap hl1)\<rparr>)
          in case hash_bucket hl2 elem of
               None \<Rightarrow> (hl2, None)
             | Some hindex \<Rightarrow>
                 (hl2\<lparr>hl_heap := List_add_tail p (hl_head hl2 hindex) (hl_heap hl2)\<rparr>, Some p))"

fun comp_uuid_from :: "mem \<Rightarrow> nat \<Rightarrow> nat \<Rightarrow> nat \<Rightarrow> int" where
  "comp_uuid_from m src desc 0 = 0"
| "comp_uuid_from m src desc (Suc n) =
     (if get32 m src > get32 m desc then 1
      else if get32 m src < get32 m desc then -1
      else comp_uuid_from m (src + 4) (desc + 4) n)"

definition comp_uuid :: "mem \<Rightarrow> nat \<Rightarrow> nat \<Rightarrow> int" where
  "comp_uuid m src desc = comp_uuid_from m src desc (DIGEST_SIZE div 4)"

definition comp_name :: "mem \<Rightarrow> nat \<Rightarrow> nat \<Rightarrow> int" where
  "comp_name m src desc = Strncmp m src desc (int DIGEST_SIZE)"

definition list_find_nameelem :: "hashlist \<Rightarrow> nat \<Rightarrow> nat \<Rightarrow> nat option option" where
  "list_find_nameelem hl head name =
     ring_find (hl_heap hl) (\<lambda>cur. comp_name (hl_mem hl) (rcd (hl_heap hl) cur + DIGEST_SIZE) name = 0)
       head (nxt (hl_heap hl) head)"

definition list_find_uuidelem :: "hashlist \<Rightarrow> nat \<Rightarrow> nat \<Rightarrow> nat option option" where
  "list_find_uuidelem hl head uuid =
     ring_find (hl_heap hl) (\<lambda>cur. comp_uuid (hl_mem hl) (rcd (hl_heap hl) cur) uuid = 0)
       head (nxt (hl_heap hl) head)"

definition hashlist_find_node :: "hashlist \<Rightarrow> nat \<Rightarrow> nat option option" where
  "hashlist_find_node hl elem =
     (case hash_bucket hl elem of
        None \<Rightarrow> Some None
      | Some hindex \<Rightarrow> list_find_uuidelem hl (hl_head hl hindex) elem)"

definition hashlist_find_elem :: "hashlist \<Rightarrow> nat \<Rightarrow> nat option option" where
  "hashlist_find_elem hl elem =
     (case hashlist_find_node hl elem of
        None \<Rightarrow> None
      | Some None \<Rightarrow> Some None
      | Some (Some c) \<Rightarrow> Some (Some (rcd (hl_heap hl) c)))"

text \<open>The loop of \<open>hashlist_find_elem_byname\<close> over the buckets \<open>i, i + 1, ...\<close>, \<open>k\<close> of them.\<close>

fun byname_loop :: "hashlist \<Rightarrow> nat \<Rightarrow> nat \<Rightarrow> nat \<Rightarrow> nat option option" where
  "byname_loop hl name i 0 = Some None"
| "byname_loop hl name i (Suc k) =
     (case list_find_nameelem hl (hl_head hl i) name of
        None \<Rightarrow> None
      | Some None \<Rightarrow> byname_loop hl name (i + 1) k
      | Some (Some c) \<Rightarrow> Some (Some c))"

definition hashlist_find_elem_byname :: "hashlist \<Rightarrow> nat \<Rightarrow> nat option option" where
  "hashlist_find_elem_byname hl name =
     map_option (map_option (rcd (hl_heap hl))) (byname_loop hl name 0 (hl_num hl))"

definition hashlist_remove_node :: "hashlist \<Rightarrow> nat \<Rightarrow> (hashlist \<times> nat option) option" where
  "hashlist_remove_node hl elem =
     (case hashlist_find_node hl elem of
        None \<Rightarrow> None
      | Some None \<Rightarrow> Some (hl, None)
      | Some (Some c) \<Rightarrow> Some (hl\<lparr>hl_heap := List_del c (hl_heap hl)\<rparr>, Some c))"

definition hashlist_remove_elem :: "hashlist \<Rightarrow> nat \<Rightarrow> (hashlist \<times> nat option) option" where
  "hashlist_remove_elem hl elem =
     (case hashlist_remove_node hl elem of
        None \<Rightarrow> None
      | Some (hl', None) \<Rightarrow> Some (hl', None)
      | Some (hl', Some c) \<Rightarrow>
          Some (hl'\<lparr>hl_freed := c # hl_freed hl'\<rparr>, Some (rcd (hl_heap hl') c)))"

text \<open>
  The cursor: \<open>first_from\<close> and \<open>next_from\<close> are the loops of \<open>hashlist_get_first_parall\<close> and
  \<open>hashlist_get_next_parall\<close>, with the index and the node of the cursor as result.
\<close>

fun first_from :: "hashlist \<Rightarrow> nat \<Rightarrow> nat \<Rightarrow> nat \<times> nat option" where
  "first_from hl i 0 = (0, None)"
| "first_from hl i (Suc k) =
     (let temp = nxt (hl_heap hl) (hl_head hl i)
      in if temp = hl_head hl i then first_from hl (i + 1) k
         else (i, Some temp))"

fun next_from :: "hashlist \<Rightarrow> nat \<Rightarrow> nat \<Rightarrow> nat \<Rightarrow> nat \<times> nat option" where
  "next_from hl temp0 i 0 = (0, None)"
| "next_from hl temp0 i (Suc k) =
     (let temp = nxt (hl_heap hl) temp0
      in if temp = hl_head hl i then next_from hl (hl_head hl (i + 1)) (i + 1) k
         else (i, Some temp))"

definition hashlist_get_first_parall :: "hashlist \<Rightarrow> (nat \<times> nat option) \<times> nat option" where
  "hashlist_get_first_parall hl =
     (let c = first_from hl 0 (hl_num hl) in (c, map_option (rcd (hl_heap hl)) (snd c)))"

definition hashlist_get_next_parall ::
  "hashlist \<Rightarrow> nat \<Rightarrow> nat option \<Rightarrow> (nat \<times> nat option) \<times> nat option" where
  "hashlist_get_next_parall hl curr_index curr_head =
     (case curr_head of
        None \<Rightarrow> ((curr_index, curr_head), None)
      | Some temp \<Rightarrow>
          let c = next_from hl temp curr_index (hl_num hl - curr_index)
          in (c, map_option (rcd (hl_heap hl)) (snd c)))"

definition hashlist_get_first :: "hashlist \<Rightarrow> hashlist \<times> nat option" where
  "hashlist_get_first hl =
     (case hashlist_get_first_parall hl of
        ((i, c), r) \<Rightarrow> (hl\<lparr>hl_curr_index := i, hl_curr_head := c\<rparr>, r))"

definition hashlist_get_next :: "hashlist \<Rightarrow> hashlist \<times> nat option" where
  "hashlist_get_next hl =
     (case hl_curr_head hl of
        None \<Rightarrow> (hl, None)
      | Some temp \<Rightarrow>
          (case hashlist_get_next_parall hl (hl_curr_index hl) (hl_curr_head hl) of
             ((i, c), r) \<Rightarrow> (hl\<lparr>hl_curr_index := i, hl_curr_head := c\<rparr>, r)))"

section \<open>Uuids\<close>

definition uuid_at :: "mem \<Rightarrow> nat \<Rightarrow> byte list" where
  "uuid_at m a = mem_bytes m a DIGEST_SIZE"

lemma bit_get32:
  "bit (get32 m a) n \<longleftrightarrow> n < 32 \<and> bit (m (a + n div 8)) (n mod 8)"
proof (cases "n < 32")
  case True
  let ?b = "\<lambda>i. bit (ucast (m (a + i)) :: u32)"
  have "bit (get32 m a) n \<longleftrightarrow> ?b 0 n \<or> 8 \<le> n \<and> ?b 1 (n - 8) \<or> 16 \<le> n \<and> ?b 2 (n - 16) \<or> 24 \<le> n \<and> ?b 3 (n - 24)"
    using True by (simp add: get32_def bit_or_iff bit_push_bit_iff possible_bit_def)
  also have "\<dots> \<longleftrightarrow> bit (m (a + n div 8)) (n mod 8)"
  proof -
    have w: "?b i k \<longleftrightarrow> k < 8 \<and> bit (m (a + i)) k" if "k < 32" for i k
      using that bit_imp_le_length [of "m (a + i)" k] by (auto simp: bit_unsigned_iff possible_bit_def)
    obtain q r where n: "n div 8 = q" "n mod 8 = r" "n = 8 * q + r" "r < 8" "q < 4"
      using True by (metis mult_div_mod_eq mod_less_divisor zero_less_numeral less_mult_imp_div_less
          numeral_times_numeral mult.commute semiring_norm(12) semiring_norm(13))
    from n(5) consider "q = 0" | "q = 1" | "q = 2" | "q = 3" by linarith
    then show ?thesis using n(4) w [of n 0] w [of "n - 8" 1] w [of "n - 16" 2] w [of "n - 24" 3]
      unfolding n(1,2) by cases (simp_all add: n(3))
  qed
  finally show ?thesis using True by simp
next
  case False
  then show ?thesis using bit_imp_le_length [of "get32 m a" n] by auto
qed

lemma get32_eq_iff: "get32 m a = get32 m' b \<longleftrightarrow> (\<forall>i<4. m (a + i) = m' (b + i))"
proof
  assume e: "get32 m a = get32 m' b"
  show "\<forall>i<4. m (a + i) = m' (b + i)"
  proof (intro allI impI bit_word_eqI)
    fix i n :: nat
    assume "i < 4" "n < LENGTH(8)"
    then have "(8 * i + n) div 8 = i" "(8 * i + n) mod 8 = n" "8 * i + n < 32" by simp_all
    then show "bit (m (a + i)) n = bit (m' (b + i)) n"
      using arg_cong [OF e, of "\<lambda>w. bit w (8 * i + n)"] by (simp add: bit_get32)
  qed
next
  assume "\<forall>i<4. m (a + i) = m' (b + i)"
  then show "get32 m a = get32 m' b" by (intro bit_word_eqI) (auto simp: bit_get32)
qed

lemma comp_uuid_from_zero:
  "comp_uuid_from m a b n = 0 \<longleftrightarrow> (\<forall>i<4 * n. m (a + i) = m (b + i))"
proof (induction n arbitrary: a b)
  case (Suc n)
  have "(\<forall>i<4 * Suc n. m (a + i) = m (b + i)) \<longleftrightarrow>
      (\<forall>i<4. m (a + i) = m (b + i)) \<and> (\<forall>i<4 * n. m (a + 4 + i) = m (b + 4 + i))"
  proof (intro iffI conjI allI impI)
    fix i
    assume h: "(\<forall>i<4. m (a + i) = m (b + i)) \<and> (\<forall>i<4 * n. m (a + 4 + i) = m (b + 4 + i))" "i < 4 * Suc n"
    show "m (a + i) = m (b + i)"
    proof (cases "i < 4")
      case False
      then have "i - 4 < 4 * n" "a + 4 + (i - 4) = a + i" "b + 4 + (i - 4) = b + i" using h(2) by auto
      then show ?thesis using h(1) by metis
    qed (use h in simp)
  qed (auto simp: add.assoc)
  then show ?case using Suc.IH [of "a + 4" "b + 4"] get32_eq_iff [of m a m b]
    by (auto simp: word_less_no not_less_iff_gr_or_eq)
qed simp

lemma comp_uuid_zero_iff: "comp_uuid m a b = 0 \<longleftrightarrow> uuid_at m a = uuid_at m b"
  using comp_uuid_from_zero [of m a b 8] by (simp add: comp_uuid_def uuid_at_def mem_bytes_eq_iff)

section \<open>The invariant\<close>

text \<open>\<open>bs ! i\<close> is the list of nodes in bucket \<open>i\<close>; no node and no head belongs to two rings.\<close>

definition hl_ring :: "hashlist \<Rightarrow> nat list list \<Rightarrow> nat \<Rightarrow> nat set" where
  "hl_ring hl bs i = set (hl_head hl i # bs ! i)"

definition hl_inv :: "hashlist \<Rightarrow> nat list list \<Rightarrow> bool" where
  "hl_inv hl bs \<longleftrightarrow> (hl_num hl = 256 \<or> hl_num hl = 1024) \<and> length bs = hl_num hl
     \<and> (\<forall>i<hl_num hl. dlist (hl_heap hl) (hl_head hl i) (bs ! i)
          \<and> (\<forall>x\<in>set (bs ! i). hash_bucket hl (rcd (hl_heap hl) x) = Some i))
     \<and> (\<forall>i<hl_num hl. \<forall>j<hl_num hl. i \<noteq> j \<longrightarrow> hl_ring hl bs i \<inter> hl_ring hl bs j = {})"

definition hl_elems :: "hashlist \<Rightarrow> nat list list \<Rightarrow> nat list" where
  "hl_elems hl bs = map (rcd (hl_heap hl)) (concat bs)"

lemma get32_mask_less: "unat (w AND 1023 :: u32) < 1024"
  using word_and_le1 [of w 1023] by (simp add: word_le_nat_alt)

lemma hash_bucket_total:
  assumes "hl_num hl = 256 \<or> hl_num hl = 1024"
  shows "\<exists>i<hl_num hl. hash_bucket hl e = Some i"
  using assms get32_mask_less by (auto simp: hash_bucket_def get_hash_index_def get_hash_subindex_def)

lemma hl_inv_bucket: "hl_inv hl bs \<Longrightarrow> \<exists>i. hash_bucket hl e = Some i \<and> i < hl_num hl"
  using hash_bucket_total [of hl e] by (auto simp: hl_inv_def)

lemma uuid_at_nth: "uuid_at m a = uuid_at m b \<longleftrightarrow> (\<forall>i<32. m (a + i) = m (b + i))"
  by (simp add: uuid_at_def mem_bytes_eq_iff)

lemma hash_bucket_cong:
  assumes "uuid_at (hl_mem hl) a = uuid_at (hl_mem hl) b"
  shows "hash_bucket hl a = hash_bucket hl b"
proof -
  have e: "\<forall>i<32. hl_mem hl (a + i) = hl_mem hl (b + i)" using assms by (simp add: uuid_at_nth)
  then have "get32 (hl_mem hl) a = get32 (hl_mem hl) b" by (simp add: get32_eq_iff)
  moreover have "hl_mem hl a = hl_mem hl b" using e [rule_format, of 0] by simp
  ultimately show ?thesis by (simp add: hash_bucket_def get_hash_index_def get_hash_subindex_def)
qed

lemma find_append: "find P (xs @ ys) = (case find P xs of None \<Rightarrow> find P ys | Some x \<Rightarrow> Some x)"
  by (induction xs) auto

lemma find_none: "(\<And>x. x \<in> set xs \<Longrightarrow> \<not> P x) \<Longrightarrow> find P xs = None"
  by (simp add: find_None_iff)

lemma find_concat_unique:
  "i < length bs \<Longrightarrow> (\<And>j x. j < length bs \<Longrightarrow> j \<noteq> i \<Longrightarrow> x \<in> set (bs ! j) \<Longrightarrow> \<not> P x) \<Longrightarrow>
   find P (concat bs) = find P (bs ! i)"
proof (induction bs arbitrary: i)
  case (Cons b bs)
  show ?case
  proof (cases i)
    case 0
    have "find P (concat bs) = None"
    proof (rule find_none)
      fix x assume "x \<in> set (concat bs)"
      then obtain b' where "b' \<in> set bs" "x \<in> set b'" by auto
      then obtain j where "j < length bs" "x \<in> set (bs ! j)" by (metis in_set_conv_nth)
      then show "\<not> P x" using Cons.prems(2) [of "Suc j" x] 0 by simp
    qed
    then show ?thesis using 0 by (simp add: find_append split: option.split)
  next
    case (Suc k)
    have "find P b = None" by (rule find_none) (use Cons.prems(2) [of 0] Suc in simp)
    moreover have "find P (concat bs) = find P (bs ! k)"
      by (rule Cons.IH) (use Cons.prems(1) Cons.prems(2) [of "Suc _"] Suc in auto)
    ultimately show ?thesis using Suc by (simp add: find_append)
  qed
qed simp

text \<open>The bucket search is a search of all stored nodes for an equal uuid.\<close>

lemma hashlist_find_node_spec:
  assumes "hl_inv hl bs"
  shows "hashlist_find_node hl u =
    Some (find (\<lambda>c. uuid_at (hl_mem hl) (rcd (hl_heap hl) c) = uuid_at (hl_mem hl) u) (concat bs))"
proof -
  obtain i where i: "i < hl_num hl" "hash_bucket hl u = Some i"
    using assms hash_bucket_total [of hl u] by (auto simp: hl_inv_def)
  let ?P = "\<lambda>c. uuid_at (hl_mem hl) (rcd (hl_heap hl) c) = uuid_at (hl_mem hl) u"
  have d: "dlist (hl_heap hl) (hl_head hl i) (bs ! i)" using assms i by (simp add: hl_inv_def)
  have "find ?P (concat bs) = find ?P (bs ! i)"
  proof (rule find_concat_unique)
    show "i < length bs" using assms i by (simp add: hl_inv_def)
    fix j x
    assume j: "j < length bs" "j \<noteq> i" "x \<in> set (bs ! j)"
    then have "hash_bucket hl (rcd (hl_heap hl) x) = Some j" using assms by (simp add: hl_inv_def)
    then show "\<not> ?P x" using hash_bucket_cong [of hl "rcd (hl_heap hl) x" u] i j by auto
  qed
  then show ?thesis
    using ring_find_dlist [OF d] i by (simp add: hashlist_find_node_def list_find_uuidelem_def comp_uuid_zero_iff)
qed

lemma find_map_comp: "map_option f (find (P \<circ> f) xs) = find P (map f xs)"
  by (induction xs) auto

lemma hashlist_find_elem_spec:
  assumes "hl_inv hl bs"
  shows "hashlist_find_elem hl u =
    Some (find (\<lambda>e. uuid_at (hl_mem hl) e = uuid_at (hl_mem hl) u) (hl_elems hl bs))"
  using hashlist_find_node_spec [OF assms, of u]
    find_map_comp [of "rcd (hl_heap hl)" "\<lambda>e. uuid_at (hl_mem hl) e = uuid_at (hl_mem hl) u" "concat bs"]
  by (auto simp: hashlist_find_elem_def hl_elems_def comp_def split: option.splits)

section \<open>Adding and removing\<close>

lemma hl_head_update [simp]:
  "hl_head (hl\<lparr>hl_heap := h\<rparr>) = hl_head hl" "hl_head (hl\<lparr>hl_mem := m\<rparr>) = hl_head hl"
  "hl_head (hl\<lparr>hl_freed := f\<rparr>) = hl_head hl"
  "hash_bucket (hl\<lparr>hl_heap := h\<rparr>) = hash_bucket hl" "hash_bucket (hl\<lparr>hl_freed := f\<rparr>) = hash_bucket hl"
  by (auto simp: hl_head_def hash_bucket_def fun_eq_iff)

text \<open>A change of one bucket that leaves the links and records of all others alone.\<close>

lemma hl_inv_update:
  assumes inv: "hl_inv hl bs" and i: "i < hl_num hl"
    and d: "dlist h' (hl_head hl i) xs"
    and b: "\<And>x. x \<in> set xs \<Longrightarrow> hash_bucket hl (rcd h' x) = Some i"
    and new: "\<And>x j. x \<in> set xs \<Longrightarrow> j < hl_num hl \<Longrightarrow> j \<noteq> i \<Longrightarrow> x \<notin> hl_ring hl bs j"
    and frame: "\<And>x j. j < hl_num hl \<Longrightarrow> j \<noteq> i \<Longrightarrow> x \<in> hl_ring hl bs j \<Longrightarrow>
      nxt h' x = nxt (hl_heap hl) x \<and> prv h' x = prv (hl_heap hl) x \<and> rcd h' x = rcd (hl_heap hl) x"
  shows "hl_inv (hl\<lparr>hl_heap := h'\<rparr>) (bs[i := xs])"
proof -
  have len: "length bs = hl_num hl" using inv by (simp add: hl_inv_def)
  have ring: "hl_ring (hl\<lparr>hl_heap := h'\<rparr>) (bs[i := xs]) j =
      (if j = i then set (hl_head hl i # xs) else hl_ring hl bs j)" if "j < hl_num hl" for j
    using that i len by (simp add: hl_ring_def)
  have "dlist h' (hl_head hl j) (bs ! j)" if "j < hl_num hl" "j \<noteq> i" for j
  proof (rule dlist_frame)
    show "dlist (hl_heap hl) (hl_head hl j) (bs ! j)" using inv that by (simp add: hl_inv_def)
    show "nxt h' a = nxt (hl_heap hl) a \<and> prv h' a = prv (hl_heap hl) a" if "a \<in> set (hl_head hl j # bs ! j)" for a
      using frame [OF \<open>j < hl_num hl\<close> \<open>j \<noteq> i\<close>, of a] that by (simp add: hl_ring_def)
  qed
  moreover have "hash_bucket hl (rcd h' x) = Some j" if "j < hl_num hl" "j \<noteq> i" "x \<in> set (bs ! j)" for j x
  proof -
    have "rcd h' x = rcd (hl_heap hl) x" using frame [OF that(1,2), of x] that(3) by (simp add: hl_ring_def)
    then show ?thesis using inv that by (simp add: hl_inv_def)
  qed
  moreover have "hl_ring (hl\<lparr>hl_heap := h'\<rparr>) (bs[i := xs]) j \<inter> hl_ring (hl\<lparr>hl_heap := h'\<rparr>) (bs[i := xs]) k = {}"
    if "j < hl_num hl" "k < hl_num hl" "j \<noteq> k" for j k
  proof -
    have old: "hl_ring hl bs j \<inter> hl_ring hl bs k = {}" using inv that by (simp add: hl_inv_def)
    have hd: "hl_head hl i \<notin> hl_ring hl bs l" if "l < hl_num hl" "l \<noteq> i" for l
      using inv i that by (auto simp: hl_inv_def hl_ring_def)
    have new': "set (hl_head hl i # xs) \<inter> hl_ring hl bs l = {}" if "l < hl_num hl" "l \<noteq> i" for l
      using new [OF _ that] hd [OF that] by auto
    show ?thesis
      using old new' [of j] new' [of k] that unfolding ring [OF that(1)] ring [OF that(2)]
      by (cases "j = i"; cases "k = i") (simp_all add: Int_commute)
  qed
  ultimately show ?thesis using inv i d b len by (auto simp: hl_inv_def nth_list_update)
qed

lemma hashlist_add_elem_inv:
  assumes inv: "hl_inv hl bs" and fresh: "\<And>i. i < hl_num hl \<Longrightarrow> p \<notin> hl_ring hl bs i"
    and desc: "Pointer_Desc (hl_mem hl) e \<noteq> ALLOC_DYNAMIC" and i: "hash_bucket hl e = Some i" "i < hl_num hl"
  shows "hl_inv (fst (hashlist_add_elem hl (Some p) e)) (bs[i := bs ! i @ [p]])"
    and "hashlist_add_elem hl (Some p) e =
      (hl\<lparr>hl_heap := List_add_tail p (hl_head hl i) (set_rcd p e (INIT_LIST_HEAD p (hl_heap hl)))\<rparr>, Some p)"
    and "hl_elems (fst (hashlist_add_elem hl (Some p) e)) (bs[i := bs ! i @ [p]])
      = map (\<lambda>x. if x = p then e else rcd (hl_heap hl) x) (concat (bs[i := bs ! i @ [p]]))"
proof -
  let ?h1 = "set_rcd p e (INIT_LIST_HEAD p (hl_heap hl))"
  let ?h2 = "List_add_tail p (hl_head hl i) ?h1"
  have d: "dlist (hl_heap hl) (hl_head hl i) (bs ! i)" using inv i by (simp add: hl_inv_def)
  have fr: "p \<notin> set (hl_head hl i # bs ! i)" using fresh [OF i(2)] by (simp add: hl_ring_def)
  have d1: "dlist ?h1 (hl_head hl i) (bs ! i)"
    by (rule dlist_frame [OF d]) (use fr in \<open>auto simp: INIT_LIST_HEAD_def\<close>)
  show add: "hashlist_add_elem hl (Some p) e = (hl\<lparr>hl_heap := ?h2\<rparr>, Some p)"
    using desc i by (simp add: hashlist_add_elem_def Let_def)
  have "hl_inv (hl\<lparr>hl_heap := ?h2\<rparr>) (bs[i := bs ! i @ [p]])"
  proof (rule hl_inv_update [OF inv i(2)])
    show "dlist ?h2 (hl_head hl i) (bs ! i @ [p])" by (rule dlist_add_tail [OF d1 fr])
    show "hash_bucket hl (rcd ?h2 x) = Some i" if "x \<in> set (bs ! i @ [p])" for x
      using that inv i fr by (auto simp: hl_inv_def)
    fix x j
    assume j: "j < hl_num hl" "j \<noteq> i"
    have dis: "hl_ring hl bs j \<inter> hl_ring hl bs i = {}" using inv i j by (simp add: hl_inv_def)
    then show "x \<notin> hl_ring hl bs j" if "x \<in> set (bs ! i @ [p])"
      using that fresh [OF j(1)] by (auto simp: hl_ring_def)
    assume x: "x \<in> hl_ring hl bs j"
    then have "x \<noteq> p" "x \<notin> set (hl_head hl i # bs ! i)"
      using fresh [OF j(1)] dis by (auto simp: hl_ring_def)
    then show "nxt ?h2 x = nxt (hl_heap hl) x \<and> prv ?h2 x = prv (hl_heap hl) x \<and> rcd ?h2 x = rcd (hl_heap hl) x"
      using List_add_tail_outside [OF d1] by (simp add: INIT_LIST_HEAD_def)
  qed
  then show "hl_inv (fst (hashlist_add_elem hl (Some p) e)) (bs[i := bs ! i @ [p]])" using add by simp
  show "hl_elems (fst (hashlist_add_elem hl (Some p) e)) (bs[i := bs ! i @ [p]])
      = map (\<lambda>x. if x = p then e else rcd (hl_heap hl) x) (concat (bs[i := bs ! i @ [p]]))"
    using add by (simp add: hl_elems_def fun_upd_def)
qed

text \<open>The search of the one bucket a uuid can be in.\<close>

lemma hashlist_find_elem_bucket:
  assumes "hl_inv hl bs" "hash_bucket hl u = Some i" "i < hl_num hl"
  shows "hashlist_find_elem hl u =
    Some (find (\<lambda>e. uuid_at (hl_mem hl) e = uuid_at (hl_mem hl) u) (map (rcd (hl_heap hl)) (bs ! i)))"
proof -
  have d: "dlist (hl_heap hl) (hl_head hl i) (bs ! i)" using assms by (simp add: hl_inv_def)
  show ?thesis
    using ring_find_dlist [OF d] assms(2)
      find_map_comp [of "rcd (hl_heap hl)" "\<lambda>e. uuid_at (hl_mem hl) e = uuid_at (hl_mem hl) u" "bs ! i"]
    by (auto simp: hashlist_find_elem_def hashlist_find_node_def list_find_uuidelem_def comp_uuid_zero_iff
        comp_def split: option.splits)
qed

definition hl_fresh :: "hashlist \<Rightarrow> nat \<Rightarrow> bool" where
  "hl_fresh hl p \<longleftrightarrow> (\<exists>bs. hl_inv hl bs \<and> (\<forall>i<hl_num hl. p \<notin> hl_ring hl bs i))"

definition hl_ok :: "mem \<Rightarrow> hashlist \<Rightarrow> bool" where
  "hl_ok m hl \<longleftrightarrow> hl_mem hl = m \<and> (\<exists>bs. hl_inv hl bs)"

lemma hashlist_add_elem_find:
  assumes inv: "hl_inv hl bs" and fresh: "\<And>i. i < hl_num hl \<Longrightarrow> p \<notin> hl_ring hl bs i"
    and desc: "Pointer_Desc (hl_mem hl) e \<noteq> ALLOC_DYNAMIC"
  shows "hashlist_find_elem (fst (hashlist_add_elem hl (Some p) e)) u =
    (if uuid_at (hl_mem hl) e = uuid_at (hl_mem hl) u \<and> hashlist_find_elem hl u = Some None
     then Some (Some e) else hashlist_find_elem hl u)"
proof -
  obtain i where i: "hash_bucket hl e = Some i" "i < hl_num hl"
    using hl_inv_bucket [OF inv] by blast
  obtain k where k: "hash_bucket hl u = Some k" "k < hl_num hl"
    using hl_inv_bucket [OF inv] by blast
  note add = hashlist_add_elem_inv [OF inv fresh desc i]
  let ?hl = "fst (hashlist_add_elem hl (Some p) e)"
  let ?P = "\<lambda>e. uuid_at (hl_mem hl) e = uuid_at (hl_mem hl) u"
  have new: "hashlist_find_elem ?hl u =
      Some (find ?P (map (\<lambda>x. if x = p then e else rcd (hl_heap hl) x) ((bs[i := bs ! i @ [p]]) ! k)))"
    using hashlist_find_elem_bucket [OF add(1), of u k] k add(2) by (simp add: fun_upd_def)
  have len: "length bs = hl_num hl" using inv by (simp add: hl_inv_def)
  have "p \<notin> set (bs ! k)" using fresh [OF k(2)] by (simp add: hl_ring_def)
  then have same: "map (\<lambda>x. if x = p then e else rcd (hl_heap hl) x) (bs ! k) = map (rcd (hl_heap hl)) (bs ! k)"
    by auto
  note old = hashlist_find_elem_bucket [OF inv k]
  show ?thesis
  proof (cases "i = k")
    case True
    then show ?thesis using new old same len k by (auto simp: find_append split: option.splits)
  next
    case False
    then have "uuid_at (hl_mem hl) e \<noteq> uuid_at (hl_mem hl) u" using hash_bucket_cong [of hl e u] i k by auto
    then show ?thesis using new old same False by simp
  qed
qed

section \<open>The contract of a table searched by uuid\<close>

text \<open>\<open>same\<close> says that two keys are equal; the first element added under a key is the one found.\<close>

locale uuid_table =
  fixes invar :: "'t \<Rightarrow> bool"
    and lookup :: "'t \<Rightarrow> 'u \<Rightarrow> 'e option option"
    and ready :: "'t \<Rightarrow> 'x \<Rightarrow> bool"
    and same :: "'x \<Rightarrow> 'u \<Rightarrow> bool"
    and elem :: "'x \<Rightarrow> 'e"
    and add :: "'t \<Rightarrow> 'x \<Rightarrow> 't"
  assumes add_invar: "invar t \<Longrightarrow> ready t x \<Longrightarrow> invar (add t x)"
    and add_lookup: "invar t \<Longrightarrow> ready t x \<Longrightarrow>
      lookup (add t x) u = (if same x u \<and> lookup t u = Some None then Some (Some (elem x)) else lookup t u)"
begin

fun add_all :: "'t \<Rightarrow> 'x list \<Rightarrow> 't" where
  "add_all t [] = t"
| "add_all t (x # xs) = add_all (add t x) xs"

fun ready_all :: "'t \<Rightarrow> 'x list \<Rightarrow> bool" where
  "ready_all t [] = True"
| "ready_all t (x # xs) = (ready t x \<and> ready_all (add t x) xs)"

lemma add_all_invar: "invar t \<Longrightarrow> ready_all t xs \<Longrightarrow> invar (add_all t xs)"
  by (induction xs arbitrary: t) (auto intro: add_invar)

lemma add_all_keeps:
  "invar t \<Longrightarrow> ready_all t xs \<Longrightarrow> lookup t u \<noteq> Some None \<Longrightarrow> lookup (add_all t xs) u = lookup t u"
proof (induction xs arbitrary: t)
  case (Cons x xs)
  have "lookup (add t x) u = lookup t u" using Cons.prems add_lookup by simp
  then show ?case using Cons.IH [of "add t x"] Cons.prems add_invar by simp
qed simp

lemma add_all_lookup:
  "invar t \<Longrightarrow> ready_all t xs \<Longrightarrow> lookup t u = Some None \<Longrightarrow>
   lookup (add_all t xs) u = Some (map_option elem (find (\<lambda>x. same x u) xs))"
proof (induction xs arbitrary: t)
  case (Cons x xs)
  have l: "lookup (add t x) u = (if same x u then Some (Some (elem x)) else Some None)"
    using Cons.prems add_lookup by simp
  show ?case
  proof (cases "same x u")
    case True
    then show ?thesis using l add_all_keeps [of "add t x" xs u] Cons.prems add_invar by simp
  next
    case False
    then show ?thesis using l Cons.IH [of "add t x"] Cons.prems add_invar by simp
  qed
qed simp

end

definition hl_add1 :: "hashlist \<Rightarrow> nat \<times> nat \<Rightarrow> hashlist" where
  "hl_add1 hl x = fst (hashlist_add_elem hl (Some (fst x)) (snd x))"

definition hl_ready :: "mem \<Rightarrow> hashlist \<Rightarrow> nat \<times> nat \<Rightarrow> bool" where
  "hl_ready m hl x \<longleftrightarrow> hl_fresh hl (fst x) \<and> Pointer_Desc m (snd x) \<noteq> ALLOC_DYNAMIC"

lemma hl_add1_invariant:
  assumes "hl_mem hl = m" "hl_ready m hl x"
  shows "hl_ok m (hl_add1 hl x)" "hl_fresh hl q \<Longrightarrow> q \<noteq> fst x \<Longrightarrow> hl_fresh (hl_add1 hl x) q"
    "hashlist_find_elem (hl_add1 hl x) u = (if uuid_at m (snd x) = uuid_at m u \<and> hashlist_find_elem hl u = Some None
       then Some (Some (snd x)) else hashlist_find_elem hl u)"
proof -
  obtain p e where x: "x = (p, e)" by (cases x)
  obtain bs where inv: "hl_inv hl bs" and fresh: "\<And>i. i < hl_num hl \<Longrightarrow> p \<notin> hl_ring hl bs i"
    using assms(2) x by (auto simp: hl_ready_def hl_fresh_def)
  have desc: "Pointer_Desc (hl_mem hl) e \<noteq> ALLOC_DYNAMIC" using assms x by (simp add: hl_ready_def)
  obtain i where i: "hash_bucket hl e = Some i" "i < hl_num hl"
    using hl_inv_bucket [OF inv] by blast
  note add = hashlist_add_elem_inv [OF inv fresh desc i]
  show "hl_ok m (hl_add1 hl x)" using add(1,2) assms(1) x by (auto simp: hl_ok_def hl_add1_def)
  show "hashlist_find_elem (hl_add1 hl x) u = (if uuid_at m (snd x) = uuid_at m u \<and> hashlist_find_elem hl u = Some None
       then Some (Some (snd x)) else hashlist_find_elem hl u)"
    using hashlist_add_elem_find [OF inv fresh desc, of u] assms(1) x by (simp add: hl_add1_def)
  assume q: "hl_fresh hl q" "q \<noteq> fst x"
  then obtain cs where cs: "hl_inv hl cs" "\<And>i. i < hl_num hl \<Longrightarrow> q \<notin> hl_ring hl cs i" by (auto simp: hl_fresh_def)
  have "bs ! j = cs ! j" if "j < hl_num hl" for j
  proof -
    have d: "dlist (hl_heap hl) (hl_head hl j) (bs ! j)" "dlist (hl_heap hl) (hl_head hl j) (cs ! j)"
      using inv cs(1) that by (simp_all add: hl_inv_def)
    show ?thesis by (rule dlist_unique [OF d])
  qed
  then have "q \<notin> hl_ring hl bs j" if "j < hl_num hl" for j using cs(2) [OF that] that by (simp add: hl_ring_def)
  then have "q \<notin> hl_ring (hl_add1 hl x) (bs[i := bs ! i @ [p]]) j" if "j < hl_num hl" for j
    using that q(2) add(2) x inv i by (auto simp: hl_add1_def hl_ring_def hl_inv_def nth_list_update)
  then show "hl_fresh (hl_add1 hl x) q" using add(1,2) x by (auto simp: hl_fresh_def hl_add1_def)
qed

interpretation hlt: uuid_table "hl_ok m" hashlist_find_elem "hl_ready m"
    "\<lambda>x u. uuid_at m (snd x) = uuid_at m u" snd hl_add1 for m
  by unfold_locales (auto simp: hl_ok_def intro: hl_add1_invariant(1) [unfolded hl_ok_def, THEN conjunct1]
      hl_add1_invariant(1) [unfolded hl_ok_def, THEN conjunct2] simp: hl_add1_invariant(3))

section \<open>A new hash list\<close>

lemma init_heads_ring:
  "i < n \<Longrightarrow> dlist (init_heads t n h) (t + 24 * i) []"
proof (induction n)
  case (Suc n)
  show ?case
  proof (cases "i = n")
    case True
    have "dlist (INIT_LIST_HEAD (t + 24 * n) (init_heads t n h)) (t + 24 * i) []"
      using True dlist_init by simp
    then show ?thesis by (rule dlist_frame) simp
  next
    case False
    then have "dlist (init_heads t n h) (t + 24 * i) []" using Suc by simp
    then show ?thesis by (rule dlist_frame) (use False in \<open>auto simp: INIT_LIST_HEAD_def\<close>)
  qed
qed simp

lemma init_hash_list_inv:
  assumes "init_hash_list h m order True (Some t) = Some hl" "order = 8 \<or> order = 10"
  shows "hl_inv hl (replicate (2 ^ nat order) [])" "hl_mem hl = m" "hl_table hl = t" "hl_num hl = 2 ^ nat order"
  using assms init_heads_ring [of _ "2 ^ nat order" t h]
  by (auto simp: init_hash_list_def hl_inv_def hl_ring_def hl_head_def)

lemma hlt_ready_all:
  "hl_mem hl = m \<Longrightarrow> (\<And>x. x \<in> set xs \<Longrightarrow> hl_fresh hl (fst x) \<and> Pointer_Desc m (snd x) \<noteq> ALLOC_DYNAMIC) \<Longrightarrow>
   distinct (map fst xs) \<Longrightarrow> hlt.ready_all m hl xs"
proof (induction xs arbitrary: hl)
  case (Cons x xs)
  have r: "hl_ready m hl x" using Cons.prems(2) by (simp add: hl_ready_def)
  have "hl_mem (hl_add1 hl x) = m" using hl_add1_invariant(1) [OF Cons.prems(1) r] by (simp add: hl_ok_def)
  moreover have "hl_fresh (hl_add1 hl x) (fst y)" if "y \<in> set xs" for y
  proof (rule hl_add1_invariant(2) [OF Cons.prems(1) r])
    show "hl_fresh hl (fst y)" using Cons.prems(2) [of y] that by simp
    show "fst y \<noteq> fst x" using Cons.prems(3) that by (metis distinct.simps(2) image_eqI list.set_map list.simps(9))
  qed
  ultimately show ?case using Cons.IH [of "hl_add1 hl x"] Cons.prems r by simp
qed simp

text \<open>(C1) After any number of insertions into a new hash list of order 8 or 10, a search by uuid ends
  and returns the first inserted element with that uuid, and NULL if there is none.\<close>

theorem hashlist_find_after_adds:
  assumes "init_hash_list h m order True (Some t) = Some hl" "order = 8 \<or> order = 10"
    and "distinct (map fst xs)"
    and "\<forall>(p, e) \<in> set xs. (p < t \<or> t + 24 * 2 ^ nat order \<le> p) \<and> Pointer_Desc m e \<noteq> ALLOC_DYNAMIC"
  shows "hashlist_find_elem (hlt.add_all hl xs) u =
    Some (map_option snd (find (\<lambda>x. uuid_at m (snd x) = uuid_at m u) xs))"
proof (rule hlt.add_all_lookup)
  note i = init_hash_list_inv [OF assms(1,2)]
  show "hl_ok m hl" using i by (auto simp: hl_ok_def)
  have "hl_fresh hl p" if "p < t \<or> t + 24 * 2 ^ nat order \<le> p" for p
    using i that unfolding hl_fresh_def
    by (intro exI [of _ "replicate (2 ^ nat order) []"])
      (auto simp: hl_ring_def hl_head_def)
  then have "hl_fresh hl (fst x) \<and> Pointer_Desc m (snd x) \<noteq> ALLOC_DYNAMIC" if "x \<in> set xs" for x
    using assms(4) that by (cases x) fastforce
  then show "hlt.ready_all m hl xs" by (rule hlt_ready_all [OF i(2) _ assms(3)])
  show "hashlist_find_elem hl u = Some None"
    using hashlist_find_elem_spec [OF i(1), of u] by (simp add: hl_elems_def)
qed

theorem hashlist_find_after_adds_witness:
  "\<exists>hl. init_hash_list \<lparr>nxt = (\<lambda>a. a), prv = (\<lambda>a. a), rcd = (\<lambda>a. 0)\<rparr> (\<lambda>a. if a = 20000 then 1 else 0) 8 True (Some 0) = Some hl \<and>
     hashlist_find_elem (hlt.add_all hl [(9000, 19000), (9100, 20000)]) 20000 = Some (Some 20000)"
proof -
  let ?m = "(\<lambda>a. if a = 20000 then 1 else 0) :: mem"
  obtain hl where hl: "init_hash_list \<lparr>nxt = (\<lambda>a. a), prv = (\<lambda>a. a), rcd = (\<lambda>a. 0)\<rparr> ?m 8 True (Some 0) = Some hl"
    by (simp add: init_hash_list_def)
  have "uuid_at ?m 19000 \<noteq> uuid_at ?m 20000" unfolding uuid_at_nth by (auto intro!: exI [of _ 0])
  then show ?thesis
    using hashlist_find_after_adds [OF hl, of "[(9000, 19000), (9100, 20000)]" 20000] hl
    by (simp add: Pointer_Desc_def get32_def)
qed

text \<open>\<open>hashlist_add_elem\<close> compares the whole descriptor of the element with \<open>ALLOC_DYNAMIC\<close> and
  not its type bits: for an element from \<open>Dalloc\<close> the test fails, so the back pointer in front
  of the element is never set.\<close>

theorem hashlist_add_elem_ignores_dynamic:
  assumes "0 \<le> sz" "sz < 2 ^ 28" "Dalloc m (Some b) sz base = (m', Some e)" "hl_mem hl = m'"
  shows "Pointer_Type m' e = ALLOC_DYNAMIC \<and> hl_mem (fst (hashlist_add_elem hl (Some p) e)) = m'"
proof -
  let ?w = "word_of_int sz OR push_bit 28 ALLOC_DYNAMIC"
  have e: "e = b + 12" and desc: "get32 m' (b + 8) = ?w"
    using assms(3) by (auto simp: Dalloc_def Let_def)
  have pd: "Pointer_Desc m' e = ?w" using desc e by (simp add: Pointer_Desc_def add.commute [of 8])
  then have t: "Pointer_Type m' e = ALLOC_DYNAMIC"
    using tagged_desc(1) [OF assms(1,2), of ALLOC_DYNAMIC] by (simp add: Pointer_Type_def)
  have "Pointer_Desc m' e \<noteq> ALLOC_DYNAMIC"
  proof
    assume "Pointer_Desc m' e = ALLOC_DYNAMIC"
    then show False using t by (simp add: Pointer_Type_def)
  qed
  then show ?thesis using t assms(4) by (auto simp: hashlist_add_elem_def Let_def split: option.split)
qed

theorem hashlist_add_elem_ignores_dynamic_witness:
  "\<exists>m'. Dalloc (\<lambda>_. 0) (Some 100) 40 0 = (m', Some 112) \<and>
     hl_mem (fst (hashlist_add_elem \<lparr>hl_heap = \<lparr>nxt = (\<lambda>a. a), prv = (\<lambda>a. a), rcd = (\<lambda>a. 0)\<rparr>, hl_mem = m', hl_num = 256,
       hl_desc = 0, hl_table = 5000, hl_curr_index = 0, hl_curr_head = None, hl_freed = []\<rparr> (Some 9000) 112)) = m'"
proof -
  obtain m' where "Dalloc (\<lambda>_. 0) (Some 100) 40 0 = (m', Some 112)" by (auto simp: Dalloc_def Let_def)
  then show ?thesis using hashlist_add_elem_ignores_dynamic
    [of 40 "\<lambda>_. 0" 100 0 m' 112 "\<lparr>hl_heap = \<lparr>nxt = (\<lambda>a. a), prv = (\<lambda>a. a), rcd = (\<lambda>a. 0)\<rparr>, hl_mem = m',
      hl_num = 256, hl_desc = 0, hl_table = 5000, hl_curr_index = 0, hl_curr_head = None, hl_freed = []\<rparr>" 9000]
    by auto
qed

section \<open>Removal\<close>

lemma find_SomeE:
  "find P xs = Some c \<Longrightarrow> \<exists>ys zs. xs = ys @ c # zs \<and> P c \<and> (\<forall>y\<in>set ys. \<not> P y)"
proof (induction xs)
  case (Cons x xs)
  show ?case
  proof (cases "P x")
    case True
    then show ?thesis using Cons.prems by (intro exI [of _ "[]"] exI [of _ xs]) auto
  next
    case False
    then obtain ys zs where "xs = ys @ c # zs" "P c" "\<forall>y\<in>set ys. \<not> P y" using Cons by auto
    then show ?thesis using False by (intro exI [of _ "x # ys"] exI [of _ zs]) auto
  qed
qed simp

lemma distinct_map_concat_nth: "distinct (map f (concat bs)) \<Longrightarrow> i < length bs \<Longrightarrow> distinct (map f (bs ! i))"
  by (subst (asm) id_take_nth_drop [of i bs]) (auto simp: distinct_map)

lemma find_skip: "\<not> P c \<Longrightarrow> find P (ys @ c # zs) = find P (ys @ zs)"
  by (induction ys) auto

lemma hashlist_find_node_freed: "hashlist_find_node (hl\<lparr>hl_freed := f\<rparr>) u = hashlist_find_node hl u"
  by (cases "hash_bucket hl u") (simp_all add: hashlist_find_node_def list_find_uuidelem_def)

lemma hl_freed_irrelevant [simp]:
  "hl_inv (hl\<lparr>hl_freed := f\<rparr>) = hl_inv hl" "hashlist_find_elem (hl\<lparr>hl_freed := f\<rparr>) = hashlist_find_elem hl"
proof -
  show "hashlist_find_elem (hl\<lparr>hl_freed := f\<rparr>) = hashlist_find_elem hl"
    by (rule ext) (simp add: hashlist_find_elem_def hashlist_find_node_freed split: option.split)
qed (auto simp: fun_eq_iff hl_inv_def hl_ring_def)

lemma hl_inv_del:
  assumes inv: "hl_inv hl bs" and i: "i < hl_num hl" and split: "bs ! i = ys @ c # zs"
  shows "hl_inv (hl\<lparr>hl_heap := List_del c (hl_heap hl)\<rparr>) (bs[i := ys @ zs])"
proof (rule hl_inv_update [OF inv i])
  have d: "dlist (hl_heap hl) (hl_head hl i) (ys @ c # zs)" using inv i split [symmetric] by (simp add: hl_inv_def)
  show "dlist (List_del c (hl_heap hl)) (hl_head hl i) (ys @ zs)" by (rule dlist_del(1) [OF d])
  have ring: "set (ys @ zs) \<subseteq> set (bs ! i)" "set (bs ! i) \<subseteq> hl_ring hl bs i" using split by (auto simp: hl_ring_def)
  fix x assume "x \<in> set (ys @ zs)"
  then have x: "x \<in> set (bs ! i)" using ring by blast
  then show "hash_bucket hl (rcd (List_del c (hl_heap hl)) x) = Some i" using inv i by (simp add: hl_inv_def)
  fix j assume j: "j < hl_num hl" "j \<noteq> i"
  have "hl_ring hl bs j \<inter> hl_ring hl bs i = {}" using inv i j by (simp add: hl_inv_def)
  then show "x \<notin> hl_ring hl bs j" using x ring by blast
next
  have d: "dlist (hl_heap hl) (hl_head hl i) (ys @ c # zs)" using inv i split [symmetric] by (simp add: hl_inv_def)
  fix x j assume j: "j < hl_num hl" "j \<noteq> i" and x: "x \<in> hl_ring hl bs j"
  have "hl_ring hl bs j \<inter> hl_ring hl bs i = {}" using inv i j by (simp add: hl_inv_def)
  then have "x \<notin> set (hl_head hl i # ys @ c # zs)" using x split by (auto simp: hl_ring_def)
  then show "nxt (List_del c (hl_heap hl)) x = nxt (hl_heap hl) x \<and> prv (List_del c (hl_heap hl)) x = prv (hl_heap hl) x
      \<and> rcd (List_del c (hl_heap hl)) x = rcd (hl_heap hl) x"
    using List_del_outside [OF d] by simp
qed

text \<open>(C2) \<open>hashlist_remove_elem\<close> unlinks exactly the first node \<open>c\<close> of the bucket whose element has the
  uuid: it answers the element, as a search for the uuid does, and hands \<open>c\<close> to \<open>Free\<close>; afterwards the bucket
  holds the other nodes in the old order, duplicates of the uuid among them, and every other bucket and the
  elements of all nodes are as before. Without such a node nothing changes. Searches for other uuids are
  not affected, and if no two stored elements share a uuid, the removed one is not found any more.\<close>

theorem hashlist_remove_elem_correct:
  assumes inv: "hl_inv hl bs"
  shows "\<exists>i hl'. hash_bucket hl u = Some i \<and> i < hl_num hl
     \<and> (case find (\<lambda>c. uuid_at (hl_mem hl) (rcd (hl_heap hl) c) = uuid_at (hl_mem hl) u) (bs ! i) of
          None \<Rightarrow> hl' = hl \<and> hashlist_remove_elem hl u = Some (hl, None) \<and> hashlist_find_elem hl u = Some None
        | Some c \<Rightarrow> hashlist_remove_elem hl u = Some (hl', Some (rcd (hl_heap hl) c))
            \<and> hashlist_find_elem hl u = Some (Some (rcd (hl_heap hl) c))
            \<and> hl_inv hl' (bs[i := remove1 c (bs ! i)]) \<and> rcd (hl_heap hl') = rcd (hl_heap hl)
            \<and> hl' = hl\<lparr>hl_heap := hl_heap hl', hl_freed := c # hl_freed hl\<rparr>)
     \<and> (\<forall>v. uuid_at (hl_mem hl) v \<noteq> uuid_at (hl_mem hl) u \<longrightarrow> hashlist_find_elem hl' v = hashlist_find_elem hl v)
     \<and> (distinct (map (uuid_at (hl_mem hl)) (hl_elems hl bs)) \<longrightarrow> hashlist_find_elem hl' u = Some None)"
proof -
  let ?m = "hl_mem hl" and ?h = "hl_heap hl"
  obtain i where i: "hash_bucket hl u = Some i" "i < hl_num hl" using hl_inv_bucket [OF inv] by blast
  have d: "dlist ?h (hl_head hl i) (bs ! i)" using inv i by (simp add: hl_inv_def)
  let ?P = "\<lambda>c. uuid_at ?m (rcd ?h c) = uuid_at ?m u"
  have node: "hashlist_find_node hl u = Some (find ?P (bs ! i))"
    using ring_find_dlist [OF d] i(1) by (simp add: hashlist_find_node_def list_find_uuidelem_def comp_uuid_zero_iff)
  show ?thesis
  proof (cases "find ?P (bs ! i)")
    case None
    have "hashlist_find_elem hl u = Some None" using node None by (simp add: hashlist_find_elem_def)
    moreover have "hashlist_remove_elem hl u = Some (hl, None)"
      using node None by (simp add: hashlist_remove_elem_def hashlist_remove_node_def)
    ultimately show ?thesis using i None by (intro exI [of _ i] exI [of _ hl]) simp
  next
    case (Some c)
    then obtain ys zs where split: "bs ! i = ys @ c # zs" and pc: "?P c" and nys: "\<forall>y\<in>set ys. \<not> ?P y"
      using find_SomeE [OF Some] by blast
    let ?hl = "hl\<lparr>hl_heap := List_del c ?h\<rparr>" and ?bs = "bs[i := ys @ zs]"
    have inv': "hl_inv ?hl ?bs" by (rule hl_inv_del [OF inv i(2) split])
    have rem: "hashlist_remove_elem hl u = Some (?hl\<lparr>hl_freed := c # hl_freed hl\<rparr>, Some (rcd ?h c))"
      using node Some by (simp add: hashlist_remove_elem_def hashlist_remove_node_def)
    have len: "length bs = hl_num hl" using inv by (simp add: hl_inv_def)
    have other: "hashlist_find_elem ?hl v = hashlist_find_elem hl v" if "uuid_at ?m v \<noteq> uuid_at ?m u" for v
    proof -
      obtain k where k: "hash_bucket hl v = Some k" "k < hl_num hl" using hl_inv_bucket [OF inv] by blast
      let ?Q = "\<lambda>e. uuid_at ?m e = uuid_at ?m v"
      have "find ?Q (map (rcd ?h) (?bs ! k)) = find ?Q (map (rcd ?h) (bs ! k))"
        using that pc split len k find_skip [of ?Q "rcd ?h c" "map (rcd ?h) ys" "map (rcd ?h) zs"]
        by (cases "k = i") auto
      then show ?thesis using hashlist_find_elem_bucket [OF inv k] hashlist_find_elem_bucket [OF inv', of v k] k by simp
    qed
    have "hashlist_find_elem ?hl u = Some None" if "distinct (map (uuid_at ?m) (hl_elems hl bs))"
    proof -
      have "distinct (map (\<lambda>x. uuid_at ?m (rcd ?h x)) (bs ! i))"
        using distinct_map_concat_nth [of "\<lambda>x. uuid_at ?m (rcd ?h x)" bs i] that i len
        by (simp add: hl_elems_def comp_def)
      then have "\<forall>y\<in>set zs. \<not> ?P y" using split pc by (force simp: image_iff)
      then have "find (\<lambda>e. uuid_at ?m e = uuid_at ?m u) (map (rcd ?h) (ys @ zs)) = None"
        using nys by (intro find_none) auto
      then show ?thesis using hashlist_find_elem_bucket [OF inv', of u i] i len by simp
    qed
    moreover have "hashlist_find_elem hl u = Some (Some (rcd ?h c))"
      using node Some by (simp add: hashlist_find_elem_def)
    moreover have "remove1 c (bs ! i) = ys @ zs" using split pc nys by (auto simp: remove1_append)
    then have "hl_inv (?hl\<lparr>hl_freed := c # hl_freed hl\<rparr>) (bs[i := remove1 c (bs ! i)])" using inv' by simp
    moreover have "rcd (List_del c ?h) = rcd ?h" by (simp add: List_del_def set_nxt_def set_prv_def Let_def)
    ultimately show ?thesis using rem other i Some
      by (intro exI [of _ i] exI [of _ "?hl\<lparr>hl_freed := c # hl_freed hl\<rparr>"]) simp
  qed
qed

text \<open>A table with one element, whose uuid is all zero.\<close>

definition hl_empty :: hashlist where
  "hl_empty = \<lparr>hl_heap = init_heads 0 256 \<lparr>nxt = (\<lambda>a. a), prv = (\<lambda>a. a), rcd = (\<lambda>a. 0)\<rparr>, hl_mem = (\<lambda>_. 0),
     hl_num = 256, hl_desc = 0, hl_table = 0, hl_curr_index = 0, hl_curr_head = None, hl_freed = []\<rparr>"

definition hl_single :: hashlist where
  "hl_single = fst (hashlist_add_elem hl_empty (Some 9000) 19000)"

lemma hl_single_inv:
  "hl_inv hl_single ([9000] # replicate 255 [])" "hl_elems hl_single ([9000] # replicate 255 []) = [19000]"
  "hl_mem hl_single = (\<lambda>_. 0)"
proof -
  have "init_hash_list \<lparr>nxt = (\<lambda>a. a), prv = (\<lambda>a. a), rcd = (\<lambda>a. 0)\<rparr> (\<lambda>_. 0) 8 True (Some 0) = Some hl_empty"
    by (simp add: init_hash_list_def hl_empty_def)
  from init_hash_list_inv(1) [OF this] have e: "hl_inv hl_empty (replicate 256 [])" by simp
  have r: "(replicate 256 [])[0 :=  replicate 256 [] ! 0 @ [9000]] = [9000 :: nat] # replicate 255 []"
  proof -
    have "replicate 256 [] = [] # replicate 255 ([] :: nat list)" using replicate_Suc [of 255 "[] :: nat list"] by simp
    then show ?thesis by (simp only:) simp
  qed
  have n: "hl_num hl_empty = 256" "hl_mem hl_empty = (\<lambda>_. 0)" by (simp_all add: hl_empty_def)
  have fresh: "9000 \<notin> hl_ring hl_empty (replicate 256 []) i" if "i < hl_num hl_empty" for i
    using that by (simp add: hl_ring_def hl_head_def hl_empty_def)
  have desc: "Pointer_Desc (hl_mem hl_empty) 19000 \<noteq> ALLOC_DYNAMIC"
    by (simp add: n Pointer_Desc_def get32_def)
  have b: "hash_bucket hl_empty 19000 = Some 0" "0 < hl_num hl_empty"
    by (simp_all add: n hash_bucket_def get_hash_subindex_def)
  note a = hashlist_add_elem_inv [OF e fresh desc b, unfolded r]
  show "hl_inv hl_single ([9000] # replicate 255 [])" using a(1) by (simp add: hl_single_def)
  show "hl_elems hl_single ([9000] # replicate 255 []) = [19000]" using a(3) by (simp add: hl_single_def)
  show "hl_mem hl_single = (\<lambda>_. 0)" using a(2) n by (simp add: hl_single_def)
qed

theorem hashlist_remove_elem_correct_witness:
  "\<exists>hl' bs'. hashlist_remove_elem hl_single 77 = Some (hl', Some 19000) \<and> hl_inv hl' bs'
     \<and> hashlist_find_elem hl' 77 = Some None"
proof -
  have "hashlist_find_elem hl_single 77 = Some (Some 19000)"
    using hashlist_find_elem_spec [OF hl_single_inv(1), of 77]
    by (simp add: hl_single_inv uuid_at_def mem_bytes_eq_iff)
  then show ?thesis using hashlist_remove_elem_correct [OF hl_single_inv(1), of 77]
    by (auto simp: hl_single_inv split: option.splits)
qed

section \<open>The cursor\<close>

text \<open>\<open>cursor_at hl bs (i, c) rest\<close>: the cursor stands on node \<open>c\<close> of bucket \<open>i\<close>, with \<open>rest\<close> ahead.\<close>

definition cursor_at :: "hashlist \<Rightarrow> nat list list \<Rightarrow> nat \<times> nat \<Rightarrow> nat list \<Rightarrow> bool" where
  "cursor_at hl bs ic rest \<longleftrightarrow> (case ic of (i, c) \<Rightarrow> i < hl_num hl
     \<and> (\<exists>ys zs. bs ! i = ys @ c # zs \<and> rest = zs @ concat (drop (i + 1) bs)))"

definition cursor_step :: "hashlist \<Rightarrow> nat list list \<Rightarrow> nat list \<Rightarrow> nat \<times> nat option \<Rightarrow> bool" where
  "cursor_step hl bs rest c \<longleftrightarrow>
     (case rest of [] \<Rightarrow> c = (0, None)
      | x # xs \<Rightarrow> snd c = Some x \<and> cursor_at hl bs (fst c, x) xs)"

lemma hl_inv_dlist: "hl_inv hl bs \<Longrightarrow> i < hl_num hl \<Longrightarrow> dlist (hl_heap hl) (hl_head hl i) (bs ! i)"
  by (simp add: hl_inv_def)

lemma next_from_head: "next_from hl (hl_head hl i) i k = first_from hl i k"
  by (induction k arbitrary: i) (auto simp: Let_def)

lemma first_from_spec:
  assumes "hl_inv hl bs"
  shows "i + k = hl_num hl \<Longrightarrow> cursor_step hl bs (concat (drop i bs)) (first_from hl i k)"
proof (induction k arbitrary: i)
  case 0
  then show ?case using assms by (simp add: cursor_step_def hl_inv_def)
next
  case (Suc k)
  have i: "i < hl_num hl" "i < length bs" using Suc.prems assms by (simp_all add: hl_inv_def)
  note d = hl_inv_dlist [OF assms i(1)]
  have drop: "concat (drop i bs) = bs ! i @ concat (drop (i + 1) bs)"
    using Cons_nth_drop_Suc [OF i(2)] by (metis concat.simps(2) Suc_eq_plus1)
  show ?case
  proof (cases "bs ! i")
    case Nil
    then show ?thesis using Suc.IH [of "i + 1"] Suc.prems drop dlist_nxt_head [OF d] by simp
  next
    case (Cons x xs)
    have "x \<noteq> hl_head hl i" using d Cons by (auto simp: dlist_def)
    then show ?thesis using dlist_nxt_head [OF d] Cons drop i
      by (auto simp: cursor_step_def cursor_at_def Let_def)
  qed
qed

lemma next_from_spec:
  assumes inv: "hl_inv hl bs" and c: "cursor_at hl bs (i, c) rest"
  shows "cursor_step hl bs rest (next_from hl c i (hl_num hl - i))"
proof -
  obtain ys zs where s: "i < hl_num hl" "bs ! i = ys @ c # zs" "rest = zs @ concat (drop (i + 1) bs)"
    using c by (auto simp: cursor_at_def)
  obtain k where k: "hl_num hl - i = Suc k" "i + 1 + k = hl_num hl"
    using s(1) by (metis Suc_diff_Suc add_Suc_right Suc_eq_plus1 add.commute le_add_diff_inverse2 less_imp_le_nat add_Suc)
  have d: "dlist (hl_heap hl) (hl_head hl i) (ys @ c # zs)" using hl_inv_dlist [OF inv s(1)] s(2) by simp
  show ?thesis
  proof (cases zs)
    case Nil
    then show ?thesis
      using dlist_nxt_mid [OF d] k s(3) first_from_spec [OF inv k(2)] by (simp add: next_from_head)
  next
    case (Cons z us)
    then have "z \<noteq> hl_head hl i" using d by (auto simp: dlist_def)
    moreover have "bs ! i = (ys @ [c]) @ z # us" using s(2) Cons by simp
    ultimately show ?thesis
      using dlist_nxt_mid [OF d] k s Cons
      by (auto simp: cursor_step_def cursor_at_def Let_def)
  qed
qed

fun hl_scan_from :: "nat \<Rightarrow> hashlist \<Rightarrow> nat list" where
  "hl_scan_from 0 hl = []"
| "hl_scan_from (Suc n) hl =
     (case hashlist_get_next hl of (hl', None) \<Rightarrow> [] | (hl', Some r) \<Rightarrow> r # hl_scan_from n hl')"

definition hl_scan :: "nat \<Rightarrow> hashlist \<Rightarrow> nat list" where
  "hl_scan n hl =
     (case hashlist_get_first hl of (hl', None) \<Rightarrow> [] | (hl', Some r) \<Rightarrow> r # hl_scan_from n hl')"

lemma hl_cursor_irrelevant [simp]:
  "hl_inv (hl\<lparr>hl_curr_index := i, hl_curr_head := c\<rparr>) = hl_inv hl"
  "cursor_at (hl\<lparr>hl_curr_index := i, hl_curr_head := c\<rparr>) = cursor_at hl"
  by (auto simp: fun_eq_iff hl_inv_def hl_ring_def hl_head_def hash_bucket_def cursor_at_def)

lemma hl_scan_from_spec:
  "hl_inv hl bs \<Longrightarrow> hl_curr_head hl = Some c \<Longrightarrow> cursor_at hl bs (hl_curr_index hl, c) rest \<Longrightarrow>
   length rest < n \<Longrightarrow> hl_scan_from n hl = map (rcd (hl_heap hl)) rest"
proof (induction n arbitrary: hl c rest)
  case (Suc n)
  let ?c = "next_from hl c (hl_curr_index hl) (hl_num hl - hl_curr_index hl)"
  have step: "cursor_step hl bs rest ?c" by (rule next_from_spec [OF Suc.prems(1,3)])
  have nx: "hashlist_get_next hl =
      (hl\<lparr>hl_curr_index := fst ?c, hl_curr_head := snd ?c\<rparr>, map_option (rcd (hl_heap hl)) (snd ?c))"
    using Suc.prems(2) by (simp add: hashlist_get_next_def hashlist_get_next_parall_def Let_def split_def)
  show ?case
  proof (cases rest)
    case Nil
    then show ?thesis using step nx by (simp add: cursor_step_def)
  next
    case (Cons x xs)
    let ?hl = "hl\<lparr>hl_curr_index := fst ?c, hl_curr_head := snd ?c\<rparr>"
    have "snd ?c = Some x" "cursor_at hl bs (fst ?c, x) xs" using step Cons by (simp_all add: cursor_step_def)
    then have "hl_scan_from n ?hl = map (rcd (hl_heap ?hl)) xs"
      using Suc.prems(1,4) Cons by (intro Suc.IH [of ?hl x]) simp_all
    then show ?thesis using nx \<open>snd ?c = Some x\<close> Cons by simp
  qed
qed simp

text \<open>(C3) Walking a hash list with \<open>hashlist_get_first\<close> and then \<open>hashlist_get_next\<close> until it answers
  NULL visits every stored element exactly once, bucket by bucket, each bucket in the order
  of insertion.\<close>

theorem hashlist_scan_complete:
  assumes "hl_inv hl bs" "length (hl_elems hl bs) \<le> n"
  shows "hl_scan n hl = hl_elems hl bs"
proof -
  let ?c = "first_from hl 0 (hl_num hl)"
  let ?hl = "hl\<lparr>hl_curr_index := fst ?c, hl_curr_head := snd ?c\<rparr>"
  have step: "cursor_step hl bs (concat bs) ?c" using first_from_spec [OF assms(1), of 0 "hl_num hl"] by simp
  have fst: "hashlist_get_first hl = (?hl, map_option (rcd (hl_heap hl)) (snd ?c))"
    by (simp add: hashlist_get_first_def hashlist_get_first_parall_def Let_def split_def)
  show ?thesis
  proof (cases "concat bs")
    case Nil
    have "?c = (0, None)" using step unfolding Nil by (simp add: cursor_step_def)
    then show ?thesis using fst unfolding hl_scan_def hl_elems_def Nil by simp
  next
    case (Cons x xs)
    then have c: "snd ?c = Some x" "cursor_at hl bs (fst ?c, x) xs" using step by (simp_all add: cursor_step_def)
    have "length xs < n" using assms(2) Cons by (simp add: hl_elems_def)
    then have "hl_scan_from n ?hl = map (rcd (hl_heap ?hl)) xs"
      using assms(1) c by (intro hl_scan_from_spec [of ?hl bs x]) simp_all
    then show ?thesis using fst c Cons by (simp add: hl_scan_def hl_elems_def)
  qed
qed

theorem hashlist_scan_complete_witness: "hl_scan 1 hl_single = [19000]"
  using hashlist_scan_complete [OF hl_single_inv(1), of 1] by (simp add: hl_single_inv)

text \<open>The search by name goes through all elements.\<close>

lemma byname_loop_spec:
  assumes "hl_inv hl bs"
  shows "i + k = hl_num hl \<Longrightarrow> byname_loop hl name i k =
    Some (find (\<lambda>c. comp_name (hl_mem hl) (rcd (hl_heap hl) c + DIGEST_SIZE) name = 0) (concat (drop i bs)))"
proof (induction k arbitrary: i)
  case 0
  then show ?case using assms by (simp add: hl_inv_def)
next
  case (Suc k)
  have i: "i < hl_num hl" "i < length bs" using Suc.prems assms by (simp_all add: hl_inv_def)
  have drop: "concat (drop i bs) = bs ! i @ concat (drop (i + 1) bs)"
    using Cons_nth_drop_Suc [OF i(2)] by (metis concat.simps(2) Suc_eq_plus1)
  show ?case using Suc.IH [of "i + 1"] Suc.prems ring_find_dlist [OF hl_inv_dlist [OF assms i(1)]] drop
    by (auto simp: list_find_nameelem_def find_append split: option.split)
qed

text \<open>\<open>hashlist_find_elem_byname\<close> ends and returns the first element, in the order of the walk,
  whose name agrees with the given one in its first 32 bytes, and NULL if there is none.\<close>

theorem hashlist_find_byname_correct:
  assumes "hl_inv hl bs"
  shows "hashlist_find_elem_byname hl name =
    Some (find (\<lambda>e. Strncmp (hl_mem hl) (e + 32) name 32 = 0) (hl_elems hl bs))"
  using byname_loop_spec [OF assms, of 0 "hl_num hl" name]
    find_map_comp [of "rcd (hl_heap hl)" "\<lambda>e. Strncmp (hl_mem hl) (e + 32) name 32 = 0" "concat bs"]
  by (simp add: hashlist_find_elem_byname_def hl_elems_def comp_name_def comp_def)

lemma Strncmp_zero_mem: "Strncmp (\<lambda>_. 0) a b 32 = 0"
proof -
  have "strncmp_loop (\<lambda>_. 0) a b n = 0" for n by (cases n) simp_all
  then show ?thesis by (simp add: Strncmp_def)
qed

theorem hashlist_find_byname_correct_witness: "hashlist_find_elem_byname hl_single 500 = Some (Some 19000)"
  using hashlist_find_byname_correct [OF hl_single_inv(1), of 500]
  by (simp add: hl_single_inv Strncmp_zero_mem)

end
