(* ===== verification/Cube_Channel.thy ===== *)
theory Cube_Channel
  imports Cube_Prelude Cube_List
begin

text \<open>
  The byte channels of \<^verbatim>\<open>cubelib/channel\<close>: the ring buffer of \<^verbatim>\<open>channel_buf.c\<close> and the channel
  registry of \<^verbatim>\<open>channel.c\<close>. A buffer is its two tails and the bytes behind the header; the
  sizes that reach it are below \<open>2^15\<close>, so its 16-bit fields are integers here. Names are C
  strings, given by their bytes without the terminator.
\<close>

section \<open>The ring buffer\<close>

record cbuf =
  bufsize :: int
  last_read_tail :: int
  last_write_tail :: int
  cb_data :: "byte list"

definition channel_buf_create :: "int \<Rightarrow> bool \<Rightarrow> cbuf option" where
  "channel_buf_create sz alloc_ok =
     (if sz < 0 then None
      else if sz > 32767 then None
      else if \<not> alloc_ok then None
      else Some \<lparr>bufsize = sz, last_read_tail = 0, last_write_tail = 0, cb_data = replicate (nat sz) 0\<rparr>)"

text \<open>
  \<open>channel_membuf_create\<close> on memory of the caller: only the size and the offset are written, the
  tails and the bytes \<open>mem\<close> stay as they are. The header and a pointer both take 8 bytes.
\<close>

definition channel_membuf_create :: "int \<Rightarrow> cbuf option \<Rightarrow> cbuf option" where
  "channel_membuf_create sz buf =
     (if sz < 8 then None
      else if sz > 32767 then None
      else case buf of None \<Rightarrow> None | Some b \<Rightarrow> Some (b\<lparr>bufsize := sz - 8\<rparr>))"

text \<open>\<open>channel_buf_free\<close> clears \<open>bufsize\<close> bytes from the header on, 8 fewer than the block has, and frees it.\<close>

definition channel_buf_free :: "cbuf \<Rightarrow> byte list" where
  "channel_buf_free b = replicate (nat (bufsize b - 8)) 0 @ drop (nat (bufsize b - 8)) (cb_data b)"

definition cb_slice :: "cbuf \<Rightarrow> int \<Rightarrow> int \<Rightarrow> byte list" where
  "cb_slice b from n = take (nat n) (drop (nat from) (cb_data b))"

definition channel_buf_read :: "cbuf \<Rightarrow> int \<Rightarrow> cbuf \<times> byte list \<times> int" where
  "channel_buf_read b sz =
     (let r = last_read_tail b; w = last_write_tail b in
      if r = w then (b, [], 0)
      else if r < w then
        (let left_data = w - r in
         if sz < left_data then (b\<lparr>last_read_tail := r + sz\<rparr>, cb_slice b r sz, sz)
         else (b\<lparr>last_read_tail := w\<rparr>, cb_slice b r left_data, left_data))
      else
        (let left_data = bufsize b - r + w; tail_block_size = bufsize b - r in
         if sz < tail_block_size then (b\<lparr>last_read_tail := r + sz\<rparr>, cb_slice b r sz, sz)
         else if sz < left_data then
           (b\<lparr>last_read_tail := sz - tail_block_size\<rparr>,
            cb_slice b r tail_block_size @ cb_slice b 0 (sz - tail_block_size), sz)
         else
           (b\<lparr>last_read_tail := w\<rparr>,
            cb_slice b r tail_block_size @ cb_slice b 0 (left_data - tail_block_size), left_data)))"

definition cb_store :: "int \<Rightarrow> byte list \<Rightarrow> cbuf \<Rightarrow> cbuf" where
  "cb_store at bs b = b\<lparr>cb_data := buf_put (cb_data b) (nat at) bs\<rparr>"

definition channel_buf_write :: "cbuf \<Rightarrow> byte list \<Rightarrow> cbuf \<times> int" where
  "channel_buf_write b data =
     (let r = last_read_tail b; w = last_write_tail b; sz = int (length data) in
      if r - 1 = w then (b, 0)
      else if r > w then
        (let left_data = r - 1 - w in
         if sz < left_data then ((cb_store w data b)\<lparr>last_write_tail := w + sz\<rparr>, sz)
         else ((cb_store w (take (nat left_data) data) b)\<lparr>last_write_tail := r - 1\<rparr>, left_data))
      else
        (let tail_block_size = bufsize b - w;
             head_block_size = (if r - 1 < 0 then 0 else r - 1);
             left_data = tail_block_size + head_block_size in
         if sz < tail_block_size then ((cb_store w data b)\<lparr>last_write_tail := w + sz\<rparr>, sz)
         else
           (let b1 = cb_store w (take (nat tail_block_size) data) b;
                rest = drop (nat tail_block_size) data in
            if sz < left_data then
              ((cb_store 0 rest b1)\<lparr>last_write_tail := sz - tail_block_size\<rparr>, sz)
            else
              ((cb_store 0 (take (nat head_block_size) rest) b1)\<lparr>last_write_tail := head_block_size\<rparr>, left_data))))"

section \<open>The buffer as a byte queue\<close>

definition cb_inv :: "cbuf \<Rightarrow> bool" where
  "cb_inv b \<longleftrightarrow> int (length (cb_data b)) = bufsize b
     \<and> 0 \<le> last_read_tail b \<and> last_read_tail b < bufsize b
     \<and> 0 \<le> last_write_tail b \<and> last_write_tail b < bufsize b"

definition cb_cont :: "cbuf \<Rightarrow> byte list" where
  "cb_cont b =
     (let r = nat (last_read_tail b); w = nat (last_write_tail b) in
      if r \<le> w then take (w - r) (drop r (cb_data b))
      else drop r (cb_data b) @ take w (cb_data b))"

text \<open>The write that fills the buffer up to its end while the read tail is still at 0.\<close>

definition cb_overrun :: "cbuf \<Rightarrow> byte list \<Rightarrow> bool" where
  "cb_overrun b data \<longleftrightarrow> last_read_tail b = 0 \<and> int (length data) \<ge> bufsize b - last_write_tail b"

lemma buf_put_slices:
  assumes "off + length bs \<le> length d"
  shows "r \<le> off \<Longrightarrow> take (off + length bs - r) (drop r (buf_put d off bs)) = take (off - r) (drop r d) @ bs"
    "off + length bs \<le> r \<Longrightarrow> drop r (buf_put d off bs) = drop r d"
    "take (off + length bs) (buf_put d off bs) = take off d @ bs"
  using assms by (auto simp: buf_put_def drop_take)

definition mk_cbuf :: "byte list \<Rightarrow> nat \<Rightarrow> nat \<Rightarrow> cbuf" where
  "mk_cbuf d r w = \<lparr>bufsize = int (length d), last_read_tail = int r, last_write_tail = int w, cb_data = d\<rparr>"

lemma cb_inv_cases:
  assumes "cb_inv b"
  obtains d r w where "b = mk_cbuf d r w" "r < length d" "w < length d"
  using assms that [of "cb_data b" "nat (last_read_tail b)" "nat (last_write_tail b)"]
  by (auto simp: cb_inv_def mk_cbuf_def)

lemma mk_cbuf_simps [simp]:
  "cb_inv (mk_cbuf d r w) \<longleftrightarrow> r < length d \<and> w < length d"
  "cb_cont (mk_cbuf d r w) = (if r \<le> w then take (w - r) (drop r d) else drop r d @ take w d)"
  "cb_overrun (mk_cbuf d r w) data \<longleftrightarrow> r = 0 \<and> int (length data) \<ge> int (length d) - int w"
  by (auto simp: cb_inv_def mk_cbuf_def cb_cont_def cb_overrun_def Let_def)

lemma mk_cbuf_sel:
  "bufsize (mk_cbuf d r w) = int (length d)" "last_read_tail (mk_cbuf d r w) = int r"
  "last_write_tail (mk_cbuf d r w) = int w" "cb_data (mk_cbuf d r w) = d"
  by (simp_all add: mk_cbuf_def)

text \<open>The two operations on the naturals.\<close>

lemma channel_buf_read_mk:
  assumes "r < length d" "w < length d"
  shows "channel_buf_read (mk_cbuf d r w) (int k) =
    (if r \<le> w then (mk_cbuf d (r + min k (w - r)) w, take (min k (w - r)) (drop r d), int (min k (w - r)))
     else if k < length d - r then (mk_cbuf d (r + k) w, take k (drop r d), int k)
     else let j = min (k - (length d - r)) w
          in (mk_cbuf d j w, drop r d @ take j d, int (length d - r + j)))"
  using assms by (auto simp: channel_buf_read_def cb_slice_def mk_cbuf_def Let_def min_def nat_diff_distrib of_nat_diff)
    (rule arg_cong2 [where f = take], linarith, rule refl)+

lemma channel_buf_write_mk:
  assumes "r < length d" "w < length d"
  shows "channel_buf_write (mk_cbuf d r w) ds =
    (if r > w then let k = min (length ds) (r - 1 - w)
       in (mk_cbuf (buf_put d w (take k ds)) r (w + k), int k)
     else if length ds < length d - w then (mk_cbuf (buf_put d w ds) r (w + length ds), int (length ds))
     else let t = length d - w; j = min (length ds - t) (r - 1)
       in (mk_cbuf (buf_put (buf_put d w (take t ds)) 0 (take j (drop t ds))) r j, int (t + j)))"
  using assms
  by (auto simp: channel_buf_write_def cb_store_def mk_cbuf_def Let_def min_def nat_diff_distrib of_nat_diff)

lemma channel_buf_read_cont:
  assumes inv: "cb_inv b" and sz: "0 \<le> sz" and rd: "channel_buf_read b sz = (b', out, n)"
  shows "cb_inv b' \<and> cb_cont b = out @ cb_cont b' \<and> n = int (length out) \<and>
    length out = min (nat sz) (length (cb_cont b))"
proof -
  obtain d r w where b: "b = mk_cbuf d r w" "r < length d" "w < length d" using inv by (rule cb_inv_cases)
  obtain k where k: "sz = int k" using sz nonneg_int_cases by blast
  note eq = rd [unfolded b(1) k channel_buf_read_mk [OF b(2,3)]]
  have t: "take (w - r) (drop r d) = take m (drop r d) @ take (w - (r + m)) (drop (r + m) d)" if "m \<le> w - r" for m
    using that by (metis add.commute diff_diff_add drop_drop le_add_diff_inverse take_add)
  have t2: "take k (drop r d) @ drop (r + k) d @ xs = drop r d @ xs" for xs
    by (metis add.commute append_assoc append_take_drop_id drop_drop)
  have t3: "take w d = take j d @ take (w - j) (drop j d)" if "j \<le> w" for j
    using that by (metis le_add_diff_inverse take_add)
  consider "r \<le> w" | "w < r" "k < length d - r" | "w < r" "\<not> k < length d - r" by linarith
  then show ?thesis
  proof cases
    case 1
    then show ?thesis using eq b k t [of "min k (w - r)"] by auto
  next
    case 2
    then have "b' = mk_cbuf d (r + k) w" "out = take k (drop r d)" "n = int k" using eq by simp_all
    then show ?thesis using 2 b k by (simp add: t2)
  next
    case 3
    let ?j = "min (k - (length d - r)) w"
    have "b' = mk_cbuf d ?j w" "out = drop r d @ take ?j d" "n = int (length d - r + ?j)"
      using eq 3 by (simp_all add: Let_def)
    then show ?thesis using b k 3 t3 [of ?j] by auto
  qed
qed

lemma channel_buf_write_cont:
  assumes inv: "cb_inv b" and ok: "\<not> cb_overrun b ds" and wr: "channel_buf_write b ds = (b', n)"
  shows "cb_inv b' \<and> cb_cont b' = cb_cont b @ take (nat n) ds \<and> bufsize b' = bufsize b \<and>
    n = min (int (length ds)) (bufsize b - 1 - int (length (cb_cont b)))"
proof -
  obtain d r w where b: "b = mk_cbuf d r w" "r < length d" "w < length d" using inv by (rule cb_inv_cases)
  note eq = wr [unfolded b(1) channel_buf_write_mk [OF b(2,3)]]
  have size: "bufsize (mk_cbuf d' r' w') = int (length d')" for d' r' w' by (simp add: mk_cbuf_def)
  consider "w < r" | "r \<le> w" "length ds < length d - w" | "r \<le> w" "\<not> length ds < length d - w" by linarith
  then show ?thesis
  proof cases
    case 1
    let ?k = "min (length ds) (r - 1 - w)"
    have e: "b' = mk_cbuf (buf_put d w (take ?k ds)) r (w + ?k)" "n = int ?k" using eq 1 by (simp_all add: Let_def)
    have l: "w + length (take ?k ds) \<le> length d" using 1 b by auto
    have "drop r (buf_put d w (take ?k ds)) = drop r d" by (rule buf_put_slices(2) [OF l]) (use 1 in auto)
    moreover have "take (w + ?k) (buf_put d w (take ?k ds)) = take w d @ take ?k ds"
      using buf_put_slices(3) [OF l] by simp
    ultimately show ?thesis using e 1 b l by (auto simp: size)
  next
    case 2
    have l: "w + length ds \<le> length d" using 2 by linarith
    have "b' = mk_cbuf (buf_put d w ds) r (w + length ds)" "n = int (length ds)" using eq 2 by simp_all
    then show ?thesis using 2 b l buf_put_slices(1) [OF l 2(1)] by (auto simp: size)
  next
    case 3
    define t j where "t = length d - w" and "j = min (length ds - t) (r - 1)"
    define d1 rest where "d1 = buf_put d w (take t ds)" and "rest = take j (drop t ds)"
    have r: "0 < r" using ok 3 b by auto
    have e: "b' = mk_cbuf (buf_put d1 0 rest) r j" "n = int (t + j)"
      using eq 3 by (simp_all add: Let_def t_def j_def d1_def rest_def)
    have t: "t \<le> length ds" "w + t = length d" using 3 b by (auto simp: t_def)
    have j: "j < r" "j \<le> length ds - t" using r by (auto simp: j_def)
    have l: "w + length (take t ds) \<le> length d" "length rest = j" using t j by (auto simp: rest_def)
    have d1: "length d1 = length d" using l by (simp add: d1_def)
    have l2: "0 + length rest \<le> length d1" using d1 l j b by linarith
    have "drop r d1 = take (w - r) (drop r d) @ take t ds"
      using buf_put_slices(1) [OF l(1) 3(1)] t d1 by (simp add: d1_def drop_take)
    moreover have "drop r (buf_put d1 0 rest) = drop r d1"
      by (rule buf_put_slices(2) [OF l2]) (use j l in simp)
    moreover have "take j (buf_put d1 0 rest) = rest" using buf_put_slices(3) [OF l2] l by simp
    moreover have "take t ds @ rest = take (t + j) ds" by (simp add: take_add rest_def)
    ultimately have c: "cb_cont b' = cb_cont b @ take (nat n) ds" using e 3 b j by (simp add: nat_add_distrib)
    have len: "length (buf_put d1 0 rest) = length d" using l2 d1 by simp
    have "int (length (cb_cont b)) = int w - int r" using 3 b by simp
    moreover have "int (t + j) = min (int (length ds)) (int (length d) - 1 - (int w - int r))"
      using t r by (auto simp: j_def min_def)
    ultimately show ?thesis using c e b len j by (simp add: size)
  qed
qed

section \<open>The contract of a byte stream\<close>

datatype sop = SWrite "byte list" | SRead int

text \<open>
  A stream takes a prefix of what is written, as much as it has room for, and gives it back in
  order. \<open>ok\<close> tells which writes keep the contract.
\<close>

locale byte_stream =
  fixes inv :: "'b \<Rightarrow> bool"
    and cont :: "'b \<Rightarrow> byte list"
    and ok :: "'b \<Rightarrow> byte list \<Rightarrow> bool"
    and wr :: "'b \<Rightarrow> byte list \<Rightarrow> 'b \<times> int"
    and rd :: "'b \<Rightarrow> int \<Rightarrow> 'b \<times> byte list \<times> int"
  assumes write_law: "inv b \<Longrightarrow> ok b ds \<Longrightarrow> wr b ds = (b', n) \<Longrightarrow> inv b' \<and> cont b' = cont b @ take (nat n) ds"
    and read_law: "inv b \<Longrightarrow> 0 \<le> sz \<Longrightarrow> rd b sz = (b', out, n) \<Longrightarrow> inv b' \<and> cont b = out @ cont b'"
begin

fun run :: "'b \<Rightarrow> sop list \<Rightarrow> 'b \<times> byte list \<times> byte list" where
  "run b [] = (b, [], [])"
| "run b (SWrite ds # ops) =
     (case wr b ds of (b1, n) \<Rightarrow> case run b1 ops of (b2, ins, outs) \<Rightarrow> (b2, take (nat n) ds @ ins, outs))"
| "run b (SRead sz # ops) =
     (case rd b sz of (b1, out, n) \<Rightarrow> case run b1 ops of (b2, ins, outs) \<Rightarrow> (b2, ins, out @ outs))"

fun ok_run :: "'b \<Rightarrow> sop list \<Rightarrow> bool" where
  "ok_run b [] = True"
| "ok_run b (SWrite ds # ops) = (ok b ds \<and> ok_run (fst (wr b ds)) ops)"
| "ok_run b (SRead sz # ops) = (0 \<le> sz \<and> ok_run (fst (rd b sz)) ops)"

lemma run_conserves:
  "inv b \<Longrightarrow> ok_run b ops \<Longrightarrow> run b ops = (b', ins, outs) \<Longrightarrow> inv b' \<and> cont b @ ins = outs @ cont b'"
proof (induction ops arbitrary: b ins outs)
  case (Cons a ops)
  show ?case
  proof (cases a)
    case (SWrite ds)
    obtain b1 n where w: "wr b ds = (b1, n)" by fastforce
    obtain b2 i2 o2 where r: "run b1 ops = (b2, i2, o2)" by (metis prod_cases3)
    have "inv b1 \<and> cont b1 = cont b @ take (nat n) ds" using write_law w Cons.prems SWrite by auto
    then show ?thesis using Cons.IH [of b1 i2 o2] Cons.prems w r SWrite by auto
  next
    case (SRead sz)
    obtain b1 out n where w: "rd b sz = (b1, out, n)" by (metis prod_cases3)
    obtain b2 i2 o2 where r: "run b1 ops = (b2, i2, o2)" by (metis prod_cases3)
    have "inv b1 \<and> cont b = out @ cont b1" using read_law w Cons.prems SRead by auto
    then show ?thesis using Cons.IH [of b1 i2 o2] Cons.prems w r SRead by auto
  qed
qed simp

end

definition cb_fits :: "cbuf \<Rightarrow> byte list \<Rightarrow> bool" where
  "cb_fits b data \<longleftrightarrow> \<not> cb_overrun b data"

interpretation chs: byte_stream cb_inv cb_cont cb_fits channel_buf_write channel_buf_read
proof unfold_locales
  show "cb_inv b' \<and> cb_cont b' = cb_cont b @ take (nat n) ds"
    if "cb_inv b" "cb_fits b ds" "channel_buf_write b ds = (b', n)" for b ds b' n
    using channel_buf_write_cont [OF that(1) _ that(3)] that(2) by (auto simp: cb_fits_def)
  show "cb_inv b' \<and> cb_cont b = out @ cb_cont b'"
    if "cb_inv b" "0 \<le> sz" "channel_buf_read b sz = (b', out, n)" for b sz b' out n
    using channel_buf_read_cont [OF that] by blast
qed

text \<open>(C26) A channel buffer loses, duplicates and reorders no byte: over any run of reads and writes on a
  new buffer, none of them the write that reaches the end of the buffer with the read tail at
  0, the bytes read and those still in the buffer are exactly the bytes accepted, in order.\<close>

theorem channel_buf_conserves_bytes:
  assumes "0 < sz" "channel_buf_create sz True = Some b" "chs.ok_run b ops" "chs.run b ops = (b', ins, outs)"
  shows "outs @ cb_cont b' = ins"
proof -
  have "b = mk_cbuf (replicate (nat sz) 0) 0 0" "sz \<le> 32767"
    using assms(1,2) by (auto simp: channel_buf_create_def mk_cbuf_def split: if_splits)
  then have "cb_inv b" "cb_cont b = []" using assms(1) by simp_all
  then show ?thesis using chs.run_conserves [of b ops b' ins outs] assms(3,4) by simp
qed

lemmas cb_eval = channel_buf_read_def channel_buf_write_def mk_cbuf_def cb_store_def cb_slice_def buf_put_def
  Let_def cb_fits_def cb_overrun_def cb_cont_def

theorem channel_buf_conserves_bytes_witness:
  "\<exists>b' ins outs. chs.run (mk_cbuf [0, 0, 0, 0] 0 0) [SWrite [1, 2], SRead 1, SWrite [3, 4, 5], SRead 9] = (b', ins, outs)
     \<and> outs @ cb_cont b' = ins \<and> outs = [1, 2, 3, 4]"
proof -
  let ?b = "mk_cbuf [0, 0, 0, 0] 0 0" and ?ops = "[SWrite [1, 2], SRead 1, SWrite [3, 4, 5], SRead 9]"
  have c: "channel_buf_create 4 True = Some ?b" by (simp add: channel_buf_create_def mk_cbuf_def eval_nat_numeral)
  have ok: "chs.ok_run ?b ?ops" by (simp add: cb_eval)
  obtain b' ins outs where r: "chs.run ?b ?ops = (b', ins, outs)" by (metis prod_cases3)
  have "snd (snd (chs.run ?b ?ops)) = [1, 2, 3, 4]" by (simp add: cb_eval)
  then show ?thesis using channel_buf_conserves_bytes [OF _ c ok r] r by simp
qed

text \<open>The write that reaches the end of the buffer while the read tail is at 0 moves the write tail
  onto the read tail: it reports that it took \<open>bufsize - last_write_tail\<close> bytes, but the buffer
  is empty afterwards and everything it held is lost.\<close>

theorem channel_buf_overrun_loses_all:
  assumes "cb_inv b" "cb_overrun b ds" "channel_buf_write b ds = (b', n)"
  shows "n = bufsize b - last_write_tail b \<and> 0 < n \<and> cb_cont b' = [] \<and> snd (snd (channel_buf_read b' sz)) = 0"
proof -
  obtain d r w where b: "b = mk_cbuf d r w" "r < length d" "w < length d" using assms(1) by (rule cb_inv_cases)
  have r: "r = 0" "length d - w \<le> length ds" using assms(2) b by auto
  have l: "w + length (take (length d - w) ds) = length d" using r b by auto
  then have "b' = mk_cbuf (buf_put d w (take (length d - w) ds)) 0 0" "n = int (length d) - int w"
    using assms(3) r b by (simp_all add: channel_buf_write_mk)
  then show ?thesis using b by (simp add: mk_cbuf_def channel_buf_read_def cb_cont_def)
qed

theorem channel_buf_overrun_loses_all_witness:
  "cb_cont (mk_cbuf [1, 2, 3] 0 2) = [1, 2] \<and> cb_cont (fst (channel_buf_write (mk_cbuf [1, 2, 3] 0 2) [7])) = []"
  using channel_buf_overrun_loses_all [of "mk_cbuf [1, 2, 3] 0 2" "[7]"
      "fst (channel_buf_write (mk_cbuf [1, 2, 3] 0 2) [7])" "snd (channel_buf_write (mk_cbuf [1, 2, 3] 0 2) [7])" 0]
  by simp

text \<open>(C27) What a write accepts and a read delivers. A write takes as many bytes as there is room for (one byte of the buffer always
  stays free), unless it reaches the end of the buffer while the read tail is at 0: then it reports all bytes up to the end, one
  more than there is room for, and the buffer is empty afterwards. A read delivers as many bytes as there are, from the oldest on.\<close>

theorem channel_buf_amounts:
  assumes "cb_inv b" "0 \<le> sz"
  shows "(if last_read_tail b = 0 \<and> int (length ds) \<ge> bufsize b - last_write_tail b
          then snd (channel_buf_write b ds) = bufsize b - int (length (cb_cont b)) \<and> cb_cont (fst (channel_buf_write b ds)) = []
          else snd (channel_buf_write b ds) = min (int (length ds)) (bufsize b - 1 - int (length (cb_cont b))))
    \<and> snd (snd (channel_buf_read b sz)) = min sz (int (length (cb_cont b)))
    \<and> fst (snd (channel_buf_read b sz)) = take (nat sz) (cb_cont b)"
proof -
  obtain b1 n where w: "channel_buf_write b ds = (b1, n)" by fastforce
  obtain b2 out k where r: "channel_buf_read b sz = (b2, out, k)" by (metis prod_cases3)
  note rc = channel_buf_read_cont [OF assms r]
  then have e: "cb_cont b = out @ cb_cont b2" "k = int (length out)" "length out = min (nat sz) (length (cb_cont b))"
    by blast+
  have out: "out = take (nat sz) (cb_cont b)"
    by (metis append_eq_conv_conj e(1,3) min.commute take_all_iff min_def order_refl)
  have k: "k = min sz (int (length (cb_cont b)))" using e(2,3) assms(2) by linarith
  show ?thesis
  proof (cases "cb_overrun b ds")
    case True
    obtain d r' w' where b: "b = mk_cbuf d r' w'" "r' < length d" "w' < length d" using assms(1) by (rule cb_inv_cases)
    have "bufsize b - last_write_tail b = bufsize b - int (length (cb_cont b))"
      using True b by (auto simp: mk_cbuf_def cb_cont_def cb_overrun_def)
    then show ?thesis using True channel_buf_overrun_loses_all [OF assms(1) True w, of 0] w r out k by (simp add: cb_overrun_def)
  next
    case False
    then have "\<not> (last_read_tail b = 0 \<and> int (length ds) \<ge> bufsize b - last_write_tail b)" by (simp only: cb_overrun_def simp_thms)
    then show ?thesis using channel_buf_write_cont [OF assms(1) False w] w r out k by (simp only: if_False) simp
  qed
qed

theorem channel_buf_amounts_witness:
  "snd (channel_buf_write (mk_cbuf [9, 8, 7, 6] 2 3) [1, 2, 3, 4]) = 2"
  using channel_buf_amounts [of "mk_cbuf [9, 8, 7, 6] 2 3" 0 "[1, 2, 3, 4]"] by (simp add: mk_cbuf_sel)

section \<open>Channels\<close>

abbreviation (input) CHANNEL_READ :: int where "CHANNEL_READ \<equiv> 0x01"
abbreviation (input) CHANNEL_WRITE :: int where "CHANNEL_WRITE \<equiv> 0x02"
abbreviation (input) CHANNEL_FIXMEM :: int where "CHANNEL_FIXMEM \<equiv> 0x100"
abbreviation (input) CHANNEL_SHUTDOWN :: int where "CHANNEL_SHUTDOWN \<equiv> 0x1000"
abbreviation (input) CHANNEL_INIT :: int where "CHANNEL_INIT \<equiv> 1"
abbreviation (input) CHANNEL_BUF_SIZE :: int where "CHANNEL_BUF_SIZE \<equiv> 4000"

record channel =
  ch_name :: "byte list"
  ch_type :: int
  ch_state :: int
  ch_read_buf :: "cbuf option"
  ch_write_buf :: "cbuf option"

text \<open>
  What a channel pointer can be: \<open>ChNull\<close>, the code \<open>-EINVAL\<close> returned as if it were a pointer, or
  a channel. The arguments \<open>ok\<close>, \<open>rok\<close>, \<open>wok\<close> say which of the allocations succeed.
\<close>

datatype chptr = ChNull | ChCode int | Ch channel

definition new_channel :: "byte list \<Rightarrow> int \<Rightarrow> channel" where
  "new_channel name type =
     \<lparr>ch_name = take DIGEST_SIZE name, ch_type = type, ch_state = CHANNEL_INIT, ch_read_buf = None, ch_write_buf = None\<rparr>"

text \<open>The part the two constructors share: \<open>mk_r\<close> and \<open>mk_w\<close> give the buffers of the two directions.\<close>

definition attach_bufs :: "channel \<Rightarrow> cbuf option \<Rightarrow> cbuf option \<Rightarrow> chptr" where
  "attach_bufs ch mk_r mk_w =
     (if ch_type ch AND CHANNEL_READ \<noteq> 0 \<and> mk_r = None then ChNull
      else
        let ch1 = (if ch_type ch AND CHANNEL_READ \<noteq> 0 then ch\<lparr>ch_read_buf := mk_r\<rparr> else ch)
        in if ch_type ch AND CHANNEL_WRITE \<noteq> 0 then
             (if mk_w = None then ChNull else Ch (ch1\<lparr>ch_write_buf := mk_w\<rparr>))
           else Ch ch1)"

definition channel_create :: "byte list \<Rightarrow> int \<Rightarrow> bool \<Rightarrow> bool \<Rightarrow> bool \<Rightarrow> chptr" where
  "channel_create name type ok rok wok =
     (if type \<le> 0 then ChNull
      else if type > CHANNEL_SHUTDOWN then ChNull
      else if \<not> ok then ChNull
      else if type AND CHANNEL_FIXMEM \<noteq> 0 then ChCode (- EINVAL)
      else attach_bufs (new_channel name type) (channel_buf_create CHANNEL_BUF_SIZE rok)
             (channel_buf_create CHANNEL_BUF_SIZE wok))"

definition channel_create_fixmem ::
  "byte list \<Rightarrow> int \<Rightarrow> int \<Rightarrow> cbuf option \<Rightarrow> cbuf option \<Rightarrow> bool \<Rightarrow> chptr" where
  "channel_create_fixmem name type sz readaddr writeaddr ok =
     (if type \<le> 0 then ChNull
      else if type > CHANNEL_SHUTDOWN then ChNull
      else if \<not> ok then ChNull
      else if type AND CHANNEL_FIXMEM = 0 then ChCode (- EINVAL)
      else attach_bufs (new_channel name type) (channel_membuf_create sz readaddr)
             (channel_membuf_create sz writeaddr))"

text \<open>A read or write in one direction. \<open>None\<close> is the access through \<^verbatim>\<open>NULL\<close> when the buffer of the direction is missing.\<close>

definition channel_read :: "channel \<Rightarrow> int \<Rightarrow> (channel \<times> byte list \<times> int) option" where
  "channel_read ch sz =
     (if ch_type ch AND CHANNEL_READ = 0 then Some (ch, [], - EINVAL)
      else case ch_read_buf ch of
             None \<Rightarrow> None
           | Some b \<Rightarrow> (case channel_buf_read b sz of (b', out, n) \<Rightarrow> Some (ch\<lparr>ch_read_buf := Some b'\<rparr>, out, n)))"

definition channel_write :: "channel \<Rightarrow> byte list \<Rightarrow> (channel \<times> int) option" where
  "channel_write ch data =
     (if ch_type ch AND CHANNEL_WRITE = 0 then Some (ch, - EINVAL)
      else case ch_write_buf ch of
             None \<Rightarrow> None
           | Some b \<Rightarrow> (case channel_buf_write b data of (b', n) \<Rightarrow> Some (ch\<lparr>ch_write_buf := Some b'\<rparr>, n)))"

definition channel_inner_read :: "channel \<Rightarrow> int \<Rightarrow> (channel \<times> byte list \<times> int) option" where
  "channel_inner_read ch sz =
     (if ch_type ch AND CHANNEL_WRITE = 0 then Some (ch, [], - EINVAL)
      else case ch_write_buf ch of
             None \<Rightarrow> None
           | Some b \<Rightarrow> (case channel_buf_read b sz of (b', out, n) \<Rightarrow> Some (ch\<lparr>ch_write_buf := Some b'\<rparr>, out, n)))"

definition channel_inner_write :: "channel \<Rightarrow> byte list \<Rightarrow> (channel \<times> int) option" where
  "channel_inner_write ch data =
     (if ch_type ch AND CHANNEL_READ = 0 then Some (ch, - EINVAL)
      else case ch_read_buf ch of
             None \<Rightarrow> None
           | Some b \<Rightarrow> (case channel_buf_write b data of (b', n) \<Rightarrow> Some (ch\<lparr>ch_read_buf := Some b'\<rparr>, n)))"

text \<open>The channels the two constructors return have every buffer their type asks for.\<close>

lemma attach_bufs_complete:
  assumes "attach_bufs ch mk_r mk_w = Ch ch'"
  shows "channel_read ch' sz \<noteq> None \<and> channel_write ch' ds \<noteq> None \<and> channel_inner_read ch' sz \<noteq> None
    \<and> channel_inner_write ch' ds \<noteq> None"
  using assms by (auto simp: attach_bufs_def channel_read_def channel_write_def channel_inner_read_def
      channel_inner_write_def Let_def split: if_splits option.splits prod.splits)

section \<open>The registry\<close>

record chlist =
  cl_heap :: "chptr lheap"
  cl_head :: nat

definition channel_init :: "chptr lheap \<Rightarrow> nat \<Rightarrow> chlist" where
  "channel_init h head = \<lparr>cl_heap = set_rcd head ChNull (INIT_LIST_HEAD head h), cl_head = head\<rparr>"

text \<open>
  The tail the two register functions share. The list head is initialised again each time; the
  node comes zeroed from \<open>Dalloc0\<close>.
\<close>

definition enlist :: "chlist \<Rightarrow> chptr \<Rightarrow> nat option \<Rightarrow> chlist \<times> chptr" where
  "enlist cl ch node =
     (if ch = ChNull then (cl, ChNull)
      else case node of
             None \<Rightarrow> (cl, ChNull)
           | Some p \<Rightarrow>
               (let h1 = INIT_LIST_HEAD (cl_head cl) (cl_heap cl);
                    h2 = set_rcd p ch h1
                in (cl\<lparr>cl_heap := List_add_tail p (cl_head cl) h2\<rparr>, ch)))"

definition channel_register ::
  "chlist \<Rightarrow> byte list \<Rightarrow> int \<Rightarrow> bool \<Rightarrow> bool \<Rightarrow> bool \<Rightarrow> nat option \<Rightarrow> chlist \<times> chptr" where
  "channel_register cl name type ok rok wok node = enlist cl (channel_create name type ok rok wok) node"

definition channel_register_fixmem ::
  "chlist \<Rightarrow> byte list \<Rightarrow> int \<Rightarrow> int \<Rightarrow> cbuf option \<Rightarrow> cbuf option \<Rightarrow> bool \<Rightarrow> nat option \<Rightarrow> chlist \<times> chptr" where
  "channel_register_fixmem cl name type sz readaddr writeaddr ok node =
     (if type AND CHANNEL_FIXMEM = 0 then (cl, ChCode (- EINVAL))
      else enlist cl (channel_create_fixmem name type sz readaddr writeaddr ok) node)"

text \<open>
  \<open>_channel_comp_name\<close> is 0 for a channel whose name agrees with the tag in the first 32 bytes. A
  code stored as a pointer has no name to read: the comparison counts as a mismatch here.
\<close>

definition channel_name_matches :: "byte list \<Rightarrow> chptr \<Rightarrow> bool" where
  "channel_name_matches name c =
     (case c of Ch ch \<Rightarrow> take DIGEST_SIZE (ch_name ch) = take DIGEST_SIZE name | _ \<Rightarrow> False)"

text \<open>\<open>find_elem_with_tag\<close> of \<^verbatim>\<open>attrlist.h\<close>: the do-while walk starts at the head itself.\<close>

definition find_elem_with_tag :: "'a lheap \<Rightarrow> nat \<Rightarrow> ('a \<Rightarrow> bool) \<Rightarrow> nat option option" where
  "find_elem_with_tag h head f =
     (if f (rcd h head) then Some (Some head)
      else ring_find h (\<lambda>a. f (rcd h a)) head (nxt h head))"

definition channel_find :: "chlist \<Rightarrow> byte list \<Rightarrow> chptr option" where
  "channel_find cl name =
     (case find_elem_with_tag (cl_heap cl) (cl_head cl) (channel_name_matches name) of
        None \<Rightarrow> None
      | Some None \<Rightarrow> Some ChNull
      | Some (Some a) \<Rightarrow> Some (rcd (cl_heap cl) a))"

definition cl_inv :: "chlist \<Rightarrow> bool" where
  "cl_inv cl \<longleftrightarrow> rcd (cl_heap cl) (cl_head cl) = ChNull \<and> (\<exists>xs. dlist (cl_heap cl) (cl_head cl) xs)"

lemma channel_init_inv: "cl_inv (channel_init h head)"
proof -
  have "dlist (set_rcd head ChNull (INIT_LIST_HEAD head h)) head []"
    by (rule dlist_frame [OF dlist_init]) simp
  then show ?thesis by (auto simp: cl_inv_def channel_init_def)
qed

lemma enlist_node:
  assumes "cl_inv cl" "ch \<noteq> ChNull" "p \<noteq> cl_head cl" "enlist cl ch (Some p) = (cl', r)"
  shows "r = ch \<and> dlist (cl_heap cl') (cl_head cl') [p] \<and> rcd (cl_heap cl') p = ch
    \<and> cl_head cl' = cl_head cl \<and> rcd (cl_heap cl') (cl_head cl') = ChNull"
proof -
  let ?h = "set_rcd p ch (INIT_LIST_HEAD (cl_head cl) (cl_heap cl))"
  have "dlist ?h (cl_head cl) []" by (rule dlist_frame [OF dlist_init]) simp
  then have "dlist (List_add_tail p (cl_head cl) ?h) (cl_head cl) [p]"
    using dlist_add_tail [of ?h "cl_head cl" "[]" p] assms(3) by simp
  then show ?thesis using assms by (auto simp: enlist_def Let_def cl_inv_def)
qed

text \<open>A registration forgets all earlier ones, since it initialises the list head again: the
  channel just registered is found under its name, and no other name is found.\<close>

theorem channel_register_forgets:
  assumes "cl_inv cl" "p \<noteq> cl_head cl" "channel_register cl name type True True True (Some p) = (cl', Ch ch)"
  shows "cl_inv cl' \<and> channel_find cl' name = Some (Ch ch)
    \<and> (take DIGEST_SIZE other \<noteq> take DIGEST_SIZE name \<longrightarrow> channel_find cl' other = Some ChNull)"
proof -
  have c: "channel_create name type True True True = Ch ch"
    using assms(3) by (auto simp: channel_register_def enlist_def Let_def split: if_splits)
  then have name: "ch_name ch = take DIGEST_SIZE name"
    by (auto simp: channel_create_def attach_bufs_def new_channel_def Let_def split: if_splits)
  have e: "dlist (cl_heap cl') (cl_head cl') [p]" "rcd (cl_heap cl') p = Ch ch" "rcd (cl_heap cl') (cl_head cl') = ChNull"
    using enlist_node [OF assms(1) _ assms(2), of "Ch ch" cl' "Ch ch"] assms(3) c
    unfolding channel_register_def by auto
  show ?thesis using e(2,3) ring_find_dlist [OF e(1)] e(1) name
    by (auto simp: cl_inv_def channel_find_def find_elem_with_tag_def channel_name_matches_def min_def)
qed

definition chlist0 :: chlist where
  "chlist0 = channel_init \<lparr>nxt = (\<lambda>a. a), prv = (\<lambda>a. a), rcd = (\<lambda>a. ChNull)\<rparr> 1"

theorem channel_register_forgets_witness:
  "\<exists>cl1 cl2 a b. channel_register chlist0 [65] 0x21 True True True (Some 2) = (cl1, Ch a)
     \<and> channel_register cl1 [66] 0x21 True True True (Some 3) = (cl2, Ch b)
     \<and> channel_find cl2 [66] = Some (Ch b) \<and> channel_find cl2 [65] = Some ChNull"
proof -
  have head: "cl_head (fst (channel_register cl nm 0x21 True True True (Some p))) = cl_head cl" for cl nm p
    by (simp add: channel_register_def enlist_def Let_def split: option.split)
  have ok: "\<exists>cl' a. channel_register cl nm 0x21 True True True (Some p) = (cl', Ch a)" for cl nm p
    by (simp add: channel_register_def enlist_def Let_def channel_create_def attach_bufs_def new_channel_def
        channel_buf_create_def)
  have i: "cl_inv chlist0" "cl_head chlist0 = 1" by (simp add: chlist0_def channel_init_inv, simp add: chlist0_def channel_init_def)
  obtain cl1 a where 1: "channel_register chlist0 [65] 0x21 True True True (Some 2) = (cl1, Ch a)" using ok by blast
  have "cl_inv cl1" using channel_register_forgets [OF i(1) _ 1] i(2) by simp
  moreover have "cl_head cl1 = 1" using head [of chlist0 "[65]" 2] 1 i(2) by simp
  moreover obtain cl2 b where 2: "channel_register cl1 [66] 0x21 True True True (Some 3) = (cl2, Ch b)" using ok by blast
  ultimately show ?thesis using channel_register_forgets [OF _ _ 2, of "[65]"] 1 2 by auto
qed

end
