(* ===== verification/Cube_SM4.thy ===== *)
theory Cube_SM4
  imports Cube_Prelude
begin

text \<open>
  The SM4 block cipher of \<^verbatim>\<open>cubelib/crypto/sm4.c\<close>. An \<^verbatim>\<open>unsigned long\<close> has 64 bits on the target, so the
  rotations of the source leave bits above the lower 32; the model keeps the 64 bits and the
  proofs show that only the lower half matters. Blocks and buffers are byte lists.
\<close>

section \<open>The cipher\<close>

definition GET_ULONG_BE :: "byte list \<Rightarrow> nat \<Rightarrow> u64" where
  "GET_ULONG_BE b i = push_bit 24 (ucast (b ! i)) OR push_bit 16 (ucast (b ! (i + 1)))
     OR push_bit 8 (ucast (b ! (i + 2))) OR ucast (b ! (i + 3))"

definition PUT_ULONG_BE :: "u64 \<Rightarrow> byte list" where
  "PUT_ULONG_BE n = [ucast (drop_bit 24 n), ucast (drop_bit 16 n), ucast (drop_bit 8 n), ucast n]"

definition SHL :: "u64 \<Rightarrow> nat \<Rightarrow> u64" where
  "SHL x n = push_bit n (x AND 0xFFFFFFFF)"

definition ROTL :: "u64 \<Rightarrow> nat \<Rightarrow> u64" where
  "ROTL x n = SHL x n OR drop_bit (32 - n) x"

definition SboxTable :: "byte list" where
  "SboxTable =
    [0xd6, 0x90, 0xe9, 0xfe, 0xcc, 0xe1, 0x3d, 0xb7, 0x16, 0xb6, 0x14, 0xc2, 0x28, 0xfb, 0x2c, 0x05,
     0x2b, 0x67, 0x9a, 0x76, 0x2a, 0xbe, 0x04, 0xc3, 0xaa, 0x44, 0x13, 0x26, 0x49, 0x86, 0x06, 0x99,
     0x9c, 0x42, 0x50, 0xf4, 0x91, 0xef, 0x98, 0x7a, 0x33, 0x54, 0x0b, 0x43, 0xed, 0xcf, 0xac, 0x62,
     0xe4, 0xb3, 0x1c, 0xa9, 0xc9, 0x08, 0xe8, 0x95, 0x80, 0xdf, 0x94, 0xfa, 0x75, 0x8f, 0x3f, 0xa6,
     0x47, 0x07, 0xa7, 0xfc, 0xf3, 0x73, 0x17, 0xba, 0x83, 0x59, 0x3c, 0x19, 0xe6, 0x85, 0x4f, 0xa8,
     0x68, 0x6b, 0x81, 0xb2, 0x71, 0x64, 0xda, 0x8b, 0xf8, 0xeb, 0x0f, 0x4b, 0x70, 0x56, 0x9d, 0x35,
     0x1e, 0x24, 0x0e, 0x5e, 0x63, 0x58, 0xd1, 0xa2, 0x25, 0x22, 0x7c, 0x3b, 0x01, 0x21, 0x78, 0x87,
     0xd4, 0x00, 0x46, 0x57, 0x9f, 0xd3, 0x27, 0x52, 0x4c, 0x36, 0x02, 0xe7, 0xa0, 0xc4, 0xc8, 0x9e,
     0xea, 0xbf, 0x8a, 0xd2, 0x40, 0xc7, 0x38, 0xb5, 0xa3, 0xf7, 0xf2, 0xce, 0xf9, 0x61, 0x15, 0xa1,
     0xe0, 0xae, 0x5d, 0xa4, 0x9b, 0x34, 0x1a, 0x55, 0xad, 0x93, 0x32, 0x30, 0xf5, 0x8c, 0xb1, 0xe3,
     0x1d, 0xf6, 0xe2, 0x2e, 0x82, 0x66, 0xca, 0x60, 0xc0, 0x29, 0x23, 0xab, 0x0d, 0x53, 0x4e, 0x6f,
     0xd5, 0xdb, 0x37, 0x45, 0xde, 0xfd, 0x8e, 0x2f, 0x03, 0xff, 0x6a, 0x72, 0x6d, 0x6c, 0x5b, 0x51,
     0x8d, 0x1b, 0xaf, 0x92, 0xbb, 0xdd, 0xbc, 0x7f, 0x11, 0xd9, 0x5c, 0x41, 0x1f, 0x10, 0x5a, 0xd8,
     0x0a, 0xc1, 0x31, 0x88, 0xa5, 0xcd, 0x7b, 0xbd, 0x2d, 0x74, 0xd0, 0x12, 0xb8, 0xe5, 0xb4, 0xb0,
     0x89, 0x69, 0x97, 0x4a, 0x0c, 0x96, 0x77, 0x7e, 0x65, 0xb9, 0xf1, 0x09, 0xc5, 0x6e, 0xc6, 0x84,
     0x18, 0xf0, 0x7d, 0xec, 0x3a, 0xdc, 0x4d, 0x20, 0x79, 0xee, 0x5f, 0x3e, 0xd7, 0xcb, 0x39, 0x48]"

definition FK :: "u64 list" where
  "FK = [0xa3b1bac6, 0x56aa3350, 0x677d9197, 0xb27022dc]"

definition CK :: "u64 list" where
  "CK =
    [0x00070e15, 0x1c232a31, 0x383f464d, 0x545b6269,
     0x70777e85, 0x8c939aa1, 0xa8afb6bd, 0xc4cbd2d9,
     0xe0e7eef5, 0xfc030a11, 0x181f262d, 0x343b4249,
     0x50575e65, 0x6c737a81, 0x888f969d, 0xa4abb2b9,
     0xc0c7ced5, 0xdce3eaf1, 0xf8ff060d, 0x141b2229,
     0x30373e45, 0x4c535a61, 0x686f767d, 0x848b9299,
     0xa0a7aeb5, 0xbcc3cad1, 0xd8dfe6ed, 0xf4fb0209,
     0x10171e25, 0x2c333a41, 0x484f565d, 0x646b7279]"

definition sm4Sbox :: "byte \<Rightarrow> byte" where
  "sm4Sbox inch = SboxTable ! unat inch"

definition sm4Lt :: "u64 \<Rightarrow> u64" where
  "sm4Lt ka =
     (let bb = GET_ULONG_BE (map sm4Sbox (PUT_ULONG_BE ka)) 0
      in bb XOR ROTL bb 2 XOR ROTL bb 10 XOR ROTL bb 18 XOR ROTL bb 24)"

definition sm4F :: "u64 \<Rightarrow> u64 \<Rightarrow> u64 \<Rightarrow> u64 \<Rightarrow> u64 \<Rightarrow> u64" where
  "sm4F x0 x1 x2 x3 rk = x0 XOR sm4Lt (x1 XOR x2 XOR x3 XOR rk)"

definition sm4CalciRK :: "u64 \<Rightarrow> u64" where
  "sm4CalciRK ka =
     (let bb = GET_ULONG_BE (map sm4Sbox (PUT_ULONG_BE ka)) 0
      in bb XOR ROTL bb 13 XOR ROTL bb 23)"

text \<open>The arrays \<^verbatim>\<open>k[36]\<close> and \<^verbatim>\<open>ulbuf[36]\<close> after \<open>i\<close> steps of their loops, as lists of length \<open>i + 4\<close>.\<close>

fun setkey_loop :: "nat \<Rightarrow> u64 list \<Rightarrow> u64 list" where
  "setkey_loop 0 k = k"
| "setkey_loop (Suc i) k =
     (let k' = setkey_loop i k
      in k' @ [k' ! i XOR sm4CalciRK (k' ! (i + 1) XOR k' ! (i + 2) XOR k' ! (i + 3) XOR CK ! i)])"

definition sm4_setkey :: "byte list \<Rightarrow> u64 list" where
  "sm4_setkey key =
     drop 4 (setkey_loop 32 (map (\<lambda>j. GET_ULONG_BE key (4 * j) XOR FK ! j) [0, 1, 2, 3]))"

fun round_loop :: "u64 list \<Rightarrow> nat \<Rightarrow> u64 list \<Rightarrow> u64 list" where
  "round_loop sk 0 ulbuf = ulbuf"
| "round_loop sk (Suc i) ulbuf =
     (let u = round_loop sk i ulbuf
      in u @ [sm4F (u ! i) (u ! (i + 1)) (u ! (i + 2)) (u ! (i + 3)) (sk ! i)])"

definition sm4_one_round :: "u64 list \<Rightarrow> byte list \<Rightarrow> byte list" where
  "sm4_one_round sk input =
     (let u = round_loop sk 32 (map (GET_ULONG_BE input) [0, 4, 8, 12])
      in PUT_ULONG_BE (u ! 35) @ PUT_ULONG_BE (u ! 34) @ PUT_ULONG_BE (u ! 33) @ PUT_ULONG_BE (u ! 32))"

record sm4_context =
  sm4_mode :: int
  sm4_sk :: "u64 list"

abbreviation (input) SM4_ENCRYPT :: int where "SM4_ENCRYPT \<equiv> 1"
abbreviation (input) SM4_DECRYPT :: int where "SM4_DECRYPT \<equiv> 0"

definition sm4_setkey_enc :: "byte list \<Rightarrow> sm4_context" where
  "sm4_setkey_enc key = \<lparr>sm4_mode = SM4_ENCRYPT, sm4_sk = sm4_setkey key\<rparr>"

fun swap_keys :: "nat \<Rightarrow> u64 list \<Rightarrow> u64 list" where
  "swap_keys 0 sk = sk"
| "swap_keys (Suc i) sk = (let s = swap_keys i sk in s[i := s ! (31 - i), 31 - i := s ! i])"

definition sm4_setkey_dec :: "byte list \<Rightarrow> sm4_context" where
  "sm4_setkey_dec key = \<lparr>sm4_mode = SM4_ENCRYPT, sm4_sk = swap_keys 16 (sm4_setkey key)\<rparr>"

text \<open>The modes; \<open>len\<close> is the C length, of which whole blocks are processed.\<close>

function sm4_crypt_ecb :: "sm4_context \<Rightarrow> int \<Rightarrow> int \<Rightarrow> byte list \<Rightarrow> byte list" where
  "sm4_crypt_ecb ctx mode len input =
     (if len > 0 then sm4_one_round (sm4_sk ctx) input @ sm4_crypt_ecb ctx mode (len - 16) (drop 16 input)
      else [])"
  by pat_completeness auto
termination
  by (relation "measure (\<lambda>(ctx, mode, len, input). nat len)") auto

definition xor_block :: "byte list \<Rightarrow> byte list \<Rightarrow> byte list" where
  "xor_block a b = map (\<lambda>i. a ! i XOR b ! i) [0..<16]"

function sm4_crypt_cbc :: "sm4_context \<Rightarrow> int \<Rightarrow> int \<Rightarrow> byte list \<Rightarrow> byte list \<Rightarrow> byte list \<times> byte list" where
  "sm4_crypt_cbc ctx mode len iv input =
     (if len > 0 then
        (if mode = SM4_ENCRYPT then
           let out = sm4_one_round (sm4_sk ctx) (xor_block input iv);
               (rest, iv') = sm4_crypt_cbc ctx mode (len - 16) out (drop 16 input)
           in (out @ rest, iv')
         else
           let temp = take 16 input;
               out = xor_block (sm4_one_round (sm4_sk ctx) input) iv;
               (rest, iv') = sm4_crypt_cbc ctx mode (len - 16) temp (drop 16 input)
           in (out @ rest, iv'))
      else ([], iv))"
  by pat_completeness auto
termination
  by (relation "measure (\<lambda>(ctx, mode, len, iv, input). nat len)") auto

declare sm4_crypt_ecb.simps [simp del]
declare sm4_crypt_cbc.simps [simp del]

section \<open>The lower 32 bits\<close>

definition lo :: "u64 \<Rightarrow> u32" where
  "lo x = ucast x"

lemma lo_xor [simp]: "lo (a XOR b) = lo a XOR lo b"
  by (simp add: lo_def unsigned_xor_eq)

lemma byte_lo: "k \<le> 24 \<Longrightarrow> (ucast (drop_bit k (a :: u64)) :: byte) = ucast (drop_bit k (lo a))"
  by (rule bit_word_eqI) (simp add: lo_def bit_unsigned_iff bit_drop_bit_eq)

lemma PUT_eq_lo:
  "PUT_ULONG_BE a = [ucast (drop_bit 24 (lo a)), ucast (drop_bit 16 (lo a)), ucast (drop_bit 8 (lo a)), ucast (lo a)]"
  using byte_lo [of 24 a] byte_lo [of 16 a] byte_lo [of 8 a] byte_lo [of 0 a] by (simp add: PUT_ULONG_BE_def)

lemma PUT_lo: "lo a = lo b \<Longrightarrow> PUT_ULONG_BE a = PUT_ULONG_BE b"
  by (simp only: PUT_eq_lo)

lemma sm4Lt_lo: "lo a = lo b \<Longrightarrow> sm4Lt a = sm4Lt b"
  unfolding sm4Lt_def by (drule PUT_lo) simp

definition T32 :: "u32 \<Rightarrow> u32" where
  "T32 w = lo (sm4Lt (ucast w))"

lemma lo_ucast [simp]: "lo (ucast w) = w"
  unfolding lo_def by (rule bit_word_eqI) (simp add: bit_unsigned_iff)

lemma lo_sm4Lt: "lo (sm4Lt a) = T32 (lo a)"
  unfolding T32_def using sm4Lt_lo [of a "ucast (lo a)"] by simp

lemma lo_sm4F: "lo (sm4F x0 x1 x2 x3 rk) = lo x0 XOR T32 (lo x1 XOR lo x2 XOR lo x3 XOR lo rk)"
  by (simp add: sm4F_def lo_sm4Lt)

section \<open>Bytes and words\<close>

lemma bit_GET:
  "bit (GET_ULONG_BE b i) n \<longleftrightarrow> n < 32 \<and> bit (b ! (i + 3 - n div 8)) (n mod 8)"
proof (cases "n < 32")
  case True
  let ?b = "\<lambda>k. bit (ucast (b ! (i + k)) :: u64)"
  have "bit (GET_ULONG_BE b i) n \<longleftrightarrow> 24 \<le> n \<and> ?b 0 (n - 24) \<or> 16 \<le> n \<and> ?b 1 (n - 16) \<or> 8 \<le> n \<and> ?b 2 (n - 8) \<or> ?b 3 n"
    using True by (auto simp: GET_ULONG_BE_def bit_or_iff bit_push_bit_iff possible_bit_def)
  also have "\<dots> \<longleftrightarrow> bit (b ! (i + 3 - n div 8)) (n mod 8)"
  proof -
    have w: "?b k m \<longleftrightarrow> m < 8 \<and> bit (b ! (i + k)) m" if "m < 32" for k m
      using that bit_imp_le_length [of "b ! (i + k)" m] by (auto simp: bit_unsigned_iff possible_bit_def)
    obtain q r where n: "n div 8 = q" "n mod 8 = r" "n = 8 * q + r" "r < 8" "q < 4"
      using True by (metis mult_div_mod_eq mod_less_divisor zero_less_numeral less_mult_imp_div_less
          numeral_times_numeral mult.commute semiring_norm(12) semiring_norm(13))
    from n(5) consider "q = 0" | "q = 1" | "q = 2" | "q = 3" by linarith
    then show ?thesis using n(4) w [of n 3] w [of "n - 8" 2] w [of "n - 16" 1] w [of "n - 24" 0]
      unfolding n(1,2) by cases (simp_all add: n(3))
  qed
  finally show ?thesis using True by simp
next
  case False
  have "\<not> bit (ucast (w :: byte) :: u64) m" if "8 \<le> m" for w m
    using that bit_imp_le_length [of w m] by (auto simp: bit_unsigned_iff)
  then show ?thesis using False by (auto simp: GET_ULONG_BE_def bit_or_iff bit_push_bit_iff)
qed

lemma PUT_GET: "PUT_ULONG_BE (GET_ULONG_BE b i) = [b ! i, b ! (i + 1), b ! (i + 2), b ! (i + 3)]"
proof -
  have *: "(ucast (drop_bit (8 * k) (GET_ULONG_BE b i)) :: byte) = b ! (i + 3 - k)" if "k < 4" for k
  proof (rule bit_word_eqI)
    fix n :: nat
    assume "n < LENGTH(8)"
    then have "(8 * k + n) div 8 = k" "(8 * k + n) mod 8 = n" "8 * k + n < 32" using that by simp_all
    then show "bit (ucast (drop_bit (8 * k) (GET_ULONG_BE b i)) :: byte) n = bit (b ! (i + 3 - k)) n"
      using \<open>n < LENGTH(8)\<close> by (simp add: bit_unsigned_iff bit_drop_bit_eq bit_GET)
  qed
  show ?thesis using * [of 0] * [of 1] * [of 2] * [of 3] by (simp add: PUT_ULONG_BE_def)
qed

lemma GET_cong:
  assumes "\<And>k. k < 4 \<Longrightarrow> b ! (i + k) = c ! (j + k)"
  shows "GET_ULONG_BE b i = GET_ULONG_BE c j"
  using assms [of 0] assms [of 1] assms [of 2] assms [of 3] by (simp add: GET_ULONG_BE_def)

lemma lo_GET_PUT: "lo (GET_ULONG_BE (PUT_ULONG_BE a) 0) = lo a"
proof -
  have "PUT_ULONG_BE (GET_ULONG_BE (PUT_ULONG_BE a) 0) = PUT_ULONG_BE a"
    unfolding PUT_GET by (simp add: PUT_ULONG_BE_def)
  then have e: "(ucast (drop_bit (8 * k) (lo (GET_ULONG_BE (PUT_ULONG_BE a) 0))) :: byte) = ucast (drop_bit (8 * k) (lo a))"
    if "k < 4" for k
    using that unfolding PUT_eq_lo by (auto simp: less_Suc_eq numeral_eq_Suc)
  show ?thesis
  proof (rule bit_word_eqI)
    fix n :: nat
    assume "n < LENGTH(32)"
    then have "n div 8 < 4" "8 * (n div 8) + n mod 8 = n" by (auto simp: less_mult_imp_div_less)
    then show "bit (lo (GET_ULONG_BE (PUT_ULONG_BE a) 0)) n = bit (lo a) n"
      using arg_cong [OF e [of "n div 8"], of "\<lambda>w. bit w (n mod 8)"] by (simp add: bit_unsigned_iff bit_drop_bit_eq)
  qed
qed

section \<open>Decryption undoes encryption\<close>

lemma length_round_loop [simp]: "length (round_loop sk i u) = i + length u"
  by (induction i) (auto simp: Let_def)

lemma round_loop_nth_stable:
  "length u = 4 \<Longrightarrow> j < i + 4 \<Longrightarrow> round_loop sk (i + d) u ! j = round_loop sk i u ! j"
  by (induction d) (auto simp: Let_def nth_append)

lemma round_loop_rec:
  assumes "length u = 4" "i < n"
  shows "round_loop sk n u ! (i + 4) = sm4F (round_loop sk n u ! i) (round_loop sk n u ! (i + 1))
    (round_loop sk n u ! (i + 2)) (round_loop sk n u ! (i + 3)) (sk ! i)"
proof -
  have st: "round_loop sk n u ! j = round_loop sk i u ! j" if "j < i + 4" for j
    using round_loop_nth_stable [of u j i sk "n - i"] assms that by simp
  have "round_loop sk n u ! (i + 4) = round_loop sk (Suc i) u ! (i + 4)"
    using round_loop_nth_stable [of u "i + 4" "Suc i" sk "n - Suc i"] assms by simp
  also have "\<dots> = sm4F (round_loop sk i u ! i) (round_loop sk i u ! (i + 1))
    (round_loop sk i u ! (i + 2)) (round_loop sk i u ! (i + 3)) (sk ! i)"
    using assms(1) by (simp add: Let_def nth_append)
  finally show ?thesis using st by simp
qed

text \<open>Running the rounds backwards: the run on the swapped words with the reversed keys.\<close>

lemma round_loop_reverse:
  assumes "length u = 4" "length v = 4" "length sk = 32"
    and start: "\<And>i. i < 4 \<Longrightarrow> lo (v ! i) = lo (round_loop sk 32 u ! (35 - i))"
  shows "i \<le> 35 \<Longrightarrow> lo (round_loop (rev sk) 32 v ! i) = lo (round_loop sk 32 u ! (35 - i))"
proof (induction i rule: less_induct)
  case (less i)
  let ?U = "round_loop sk 32 u" and ?V = "round_loop (rev sk) 32 v"
  show ?case
  proof (cases "i < 4")
    case True
    then have "?V ! i = v ! i" using round_loop_nth_stable [of v i 0 "rev sk" 32] assms(2) by simp
    then show ?thesis using start True by simp
  next
    case False
    define j where "j = i - 4"
    have j: "i = j + 4" "j < 32" using False less.prems by (auto simp: j_def)
    define k where "k = 31 - j"
    have k: "k < 32" "35 - j = k + 4" "35 - (j + 1) = k + 3" "35 - (j + 2) = k + 2" "35 - (j + 3) = k + 1" "35 - i = k"
      using j by (auto simp: k_def)
    have "rev sk ! j = sk ! k" using assms(3) j by (simp add: rev_nth k_def)
    then have "lo (?V ! i) = lo (?U ! (k + 4)) XOR T32 (lo (?U ! (k + 3)) XOR lo (?U ! (k + 2)) XOR lo (?U ! (k + 1)) XOR lo (sk ! k))"
      using less.IH [of j] less.IH [of "j + 1"] less.IH [of "j + 2"] less.IH [of "j + 3"] j k
        round_loop_rec [OF assms(2), of j 32 "rev sk"] by (simp only: lo_sm4F)
    also have "lo (?U ! (k + 4)) = lo (?U ! k) XOR T32 (lo (?U ! (k + 1)) XOR lo (?U ! (k + 2)) XOR lo (?U ! (k + 3)) XOR lo (sk ! k))"
      using round_loop_rec [OF assms(1) k(1), of sk] by (simp only: lo_sm4F)
    finally show ?thesis using k by (simp add: ac_simps)
  qed
qed

lemma length_sm4_one_round [simp]: "length (sm4_one_round sk input) = 16"
  by (simp add: sm4_one_round_def PUT_ULONG_BE_def Let_def)

lemma upt16: "[0..<16] = [0, Suc 0, Suc (Suc 0), 3, 4, 5, 6, 7, 8, 9, 10, 11, 12, 13, 14, 15]"
  by code_simp

lemma sm4_one_round_inverse:
  assumes "length sk = 32" "length input = 16"
  shows "sm4_one_round (rev sk) (sm4_one_round sk input) = input"
proof -
  let ?u = "map (GET_ULONG_BE input) [0, 4, 8, 12]"
  let ?U = "round_loop sk 32 ?u"
  let ?c = "sm4_one_round sk input"
  let ?v = "map (GET_ULONG_BE ?c) [0, 4, 8, 12]"
  have c: "?c = PUT_ULONG_BE (?U ! 35) @ PUT_ULONG_BE (?U ! 34) @ PUT_ULONG_BE (?U ! 33) @ PUT_ULONG_BE (?U ! 32)"
    by (simp only: sm4_one_round_def Let_def)
  have "lo (?v ! i) = lo (?U ! (35 - i))" if "i < 4" for i
  proof -
    have p: "length (PUT_ULONG_BE x) = 4" for x by (simp add: PUT_ULONG_BE_def)
    have "GET_ULONG_BE ?c (4 * i) = GET_ULONG_BE (PUT_ULONG_BE (?U ! (35 - i))) 0"
    proof (rule GET_cong)
      fix k :: nat assume "k < 4"
      from that consider "i = 0" | "i = 1" | "i = 2" | "i = 3" by linarith
      then show "?c ! (4 * i + k) = PUT_ULONG_BE (?U ! (35 - i)) ! (0 + k)"
        unfolding c using \<open>k < 4\<close> by cases (simp_all add: nth_append p)
    qed
    moreover have "?v ! i = GET_ULONG_BE ?c (4 * i)"
      using that by (auto simp: less_Suc_eq numeral_eq_Suc)
    ultimately show ?thesis by (simp only: lo_GET_PUT)
  qed
  then have rev: "lo (round_loop (rev sk) 32 ?v ! i) = lo (?U ! (35 - i))" if "i \<le> 35" for i
    using round_loop_reverse [of ?u ?v sk i] assms(1) that by simp
  have u: "?U ! i = ?u ! i" if "i < 4" for i
    using round_loop_nth_stable [of ?u i 0 sk 32] that by simp
  have "sm4_one_round (rev sk) ?c =
      PUT_ULONG_BE (?U ! 0) @ PUT_ULONG_BE (?U ! 1) @ PUT_ULONG_BE (?U ! 2) @ PUT_ULONG_BE (?U ! 3)"
    using rev [of 35] rev [of 34] rev [of 33] rev [of 32]
    unfolding sm4_one_round_def [of "rev sk"] Let_def PUT_eq_lo by simp
  also have "\<dots> = map (\<lambda>i. input ! i) [0..<16]"
    using u [of 0] u [of 1] u [of 2] u [of 3] by (simp add: PUT_GET upt16)
  also have "\<dots> = input" using assms(2) by (metis map_nth)
  finally show ?thesis .
qed

lemma length_setkey_loop [simp]: "length (setkey_loop i k) = i + length k"
  by (induction i) (auto simp: Let_def)

lemma length_sm4_setkey [simp]: "length (sm4_setkey key) = 32"
  by (simp add: sm4_setkey_def)

lemma length_swap_keys [simp]: "length (swap_keys i sk) = length sk"
  by (induction i) (auto simp: Let_def)

lemma swap_keys_nth:
  "length sk = 32 \<Longrightarrow> i \<le> 16 \<Longrightarrow> j < 32 \<Longrightarrow>
   swap_keys i sk ! j = (if j < i \<or> 31 - i < j then sk ! (31 - j) else sk ! j)"
  by (induction i arbitrary: j) (auto simp: Let_def nth_list_update)

lemma swap_keys_rev: "length sk = 32 \<Longrightarrow> swap_keys 16 sk = rev sk"
  by (rule nth_equalityI) (auto simp: swap_keys_nth rev_nth)

lemma sm4_dec_enc_block:
  "length b = 16 \<Longrightarrow> sm4_one_round (sm4_sk (sm4_setkey_dec key)) (sm4_one_round (sm4_sk (sm4_setkey_enc key)) b) = b"
  by (simp add: sm4_setkey_dec_def sm4_setkey_enc_def swap_keys_rev sm4_one_round_inverse)

lemma blocks_induct [consumes 1, case_names zero step]:
  assumes "length (xs :: byte list) = 16 * n"
    and "P 0 []"
    and "\<And>n b bs. length b = 16 \<Longrightarrow> length bs = 16 * n \<Longrightarrow> P n bs \<Longrightarrow> P (Suc n) (b @ bs)"
  shows "P n xs"
  using assms(1)
proof (induction n arbitrary: xs)
  case 0
  then show ?case using assms(2) by simp
next
  case (Suc n)
  have "P (Suc n) (take 16 xs @ drop 16 xs)"
    by (rule assms(3)) (use Suc in auto)
  then show ?case by simp
qed

lemma one_round_prefix:
  assumes "length b = 16"
  shows "sm4_one_round sk (b @ bs) = sm4_one_round sk b"
proof -
  have "GET_ULONG_BE (b @ bs) i = GET_ULONG_BE b i" if "i \<le> 12" for i
    by (rule GET_cong) (use that assms in \<open>simp add: nth_append\<close>)
  then show ?thesis by (simp add: sm4_one_round_def)
qed

lemma ecb_step: "length b = 16 \<Longrightarrow>
    sm4_crypt_ecb ctx mode (int (16 * Suc n)) (b @ bs)
      = sm4_one_round (sm4_sk ctx) b @ sm4_crypt_ecb ctx mode (int (16 * n)) bs"
  by (simp add: sm4_crypt_ecb.simps [of ctx mode "16 + 16 * int n"] one_round_prefix)

lemma ecb_zero: "sm4_crypt_ecb ctx mode 0 bs = []"
  by (simp add: sm4_crypt_ecb.simps)

lemma length_ecb: "length xs = 16 * n \<Longrightarrow> length (sm4_crypt_ecb ctx mode (int (16 * n)) xs) = 16 * n"
proof (induction n xs rule: blocks_induct)
  case (step n b bs)
  then show ?case unfolding ecb_step [OF step(1)] by simp
qed (simp add: ecb_zero)

text \<open>SM4 in ECB mode: decryption with the schedule of \<open>sm4_setkey_dec\<close> gives back every message of
  whole blocks that was encrypted with \<open>sm4_setkey_enc\<close> under the same key.\<close>

theorem sm4_ecb_roundtrip:
  assumes "length xs = 16 * n"
  shows "sm4_crypt_ecb (sm4_setkey_dec key) mode (int (16 * n))
    (sm4_crypt_ecb (sm4_setkey_enc key) mode' (int (16 * n)) xs) = xs"
  using assms
proof (induction n xs rule: blocks_induct)
  case (step n b bs)
  show ?case
    unfolding ecb_step [OF step(1)] ecb_step [OF length_sm4_one_round]
    using sm4_dec_enc_block [OF step(1)] step(3) by simp
qed (simp add: ecb_zero)

theorem sm4_ecb_roundtrip_witness:
  "sm4_crypt_ecb (sm4_setkey_dec (replicate 16 3)) 0 16 (sm4_crypt_ecb (sm4_setkey_enc (replicate 16 3)) 1 16 (replicate 16 7))
   = replicate 16 7"
  using sm4_ecb_roundtrip [of "replicate 16 7" 1 "replicate 16 3" 0 1] by simp

section \<open>CBC\<close>

lemma length_xor_block [simp]: "length (xor_block a b) = 16"
  by (simp add: xor_block_def)

lemma xor_block_cancel: "length a = 16 \<Longrightarrow> xor_block (xor_block a b) b = a"
  by (rule nth_equalityI) (auto simp: xor_block_def ac_simps)

lemma xor_block_prefix: "length a = 16 \<Longrightarrow> xor_block (a @ bs) b = xor_block a b"
  by (simp add: xor_block_def nth_append)

lemma cbc_zero: "sm4_crypt_cbc ctx mode 0 iv bs = ([], iv)"
  by (simp add: sm4_crypt_cbc.simps)

lemma cbc_enc_step:
  assumes "length b = 16"
  shows "sm4_crypt_cbc ctx SM4_ENCRYPT (int (16 * Suc n)) iv (b @ bs) =
    (let out = sm4_one_round (sm4_sk ctx) (xor_block b iv); (rest, iv') = sm4_crypt_cbc ctx SM4_ENCRYPT (int (16 * n)) out bs
     in (out @ rest, iv'))"
  using assms by (subst sm4_crypt_cbc.simps) (simp add: xor_block_prefix)

lemma cbc_dec_step:
  assumes "length b = 16"
  shows "sm4_crypt_cbc ctx SM4_DECRYPT (int (16 * Suc n)) iv (b @ bs) =
    (let out = xor_block (sm4_one_round (sm4_sk ctx) b) iv; (rest, iv') = sm4_crypt_cbc ctx SM4_DECRYPT (int (16 * n)) b bs
     in (out @ rest, iv'))"
  using assms by (subst sm4_crypt_cbc.simps) (simp add: one_round_prefix)

text \<open>(C28) SM4 in CBC mode: decryption with the same key and initial vector gives back every message of
  whole blocks, and leaves in the vector what encryption left there.\<close>

theorem sm4_cbc_roundtrip:
  assumes "length xs = 16 * n"
    and "sm4_crypt_cbc (sm4_setkey_enc key) SM4_ENCRYPT (int (16 * n)) iv xs = (ys, iv1)"
  shows "sm4_crypt_cbc (sm4_setkey_dec key) SM4_DECRYPT (int (16 * n)) iv ys = (xs, iv1)"
  using assms
proof (induction n xs arbitrary: iv ys rule: blocks_induct)
  case (step n b bs)
  let ?out = "sm4_one_round (sm4_sk (sm4_setkey_enc key)) (xor_block b iv)"
  obtain zs iv2 where r: "sm4_crypt_cbc (sm4_setkey_enc key) SM4_ENCRYPT (int (16 * n)) ?out bs = (zs, iv2)" by fastforce
  then have ys: "ys = ?out @ zs" "iv1 = iv2"
    using step.prems unfolding cbc_enc_step [OF step(1)] by (simp_all add: Let_def)
  have "xor_block (sm4_one_round (sm4_sk (sm4_setkey_dec key)) ?out) iv = b"
    using sm4_dec_enc_block [of "xor_block b iv" key] xor_block_cancel [OF step(1)] by simp
  then show ?case
    using step.IH [OF r [unfolded ys(2) [symmetric]]] unfolding ys(1) cbc_dec_step [OF length_sm4_one_round]
    by (simp add: Let_def)
qed (simp add: cbc_zero)

theorem sm4_cbc_roundtrip_witness:
  "\<exists>ys iv1. sm4_crypt_cbc (sm4_setkey_enc (replicate 16 3)) 1 16 (replicate 16 9) (replicate 16 7) = (ys, iv1)
     \<and> sm4_crypt_cbc (sm4_setkey_dec (replicate 16 3)) 0 16 (replicate 16 9) ys = (replicate 16 7, iv1)"
proof -
  obtain ys iv1 where "sm4_crypt_cbc (sm4_setkey_enc (replicate 16 3)) 1 16 (replicate 16 9) (replicate 16 7) = (ys, iv1)"
    by fastforce
  then show ?thesis using sm4_cbc_roundtrip [of "replicate 16 7" 1 "replicate 16 3" "replicate 16 9" ys iv1] by simp
qed

section \<open>The 32-bit reference\<close>

text \<open>SM4 as the standard has it, on 32-bit words with rotations.\<close>

definition ref_tau :: "u32 \<Rightarrow> u32" where
  "ref_tau w = push_bit 24 (ucast (sm4Sbox (ucast (drop_bit 24 w)))) OR push_bit 16 (ucast (sm4Sbox (ucast (drop_bit 16 w))))
     OR push_bit 8 (ucast (sm4Sbox (ucast (drop_bit 8 w)))) OR ucast (sm4Sbox (ucast w))"

definition ref_L :: "u32 \<Rightarrow> u32" where
  "ref_L b = b XOR word_rotl 2 b XOR word_rotl 10 b XOR word_rotl 18 b XOR word_rotl 24 b"

definition ref_L' :: "u32 \<Rightarrow> u32" where
  "ref_L' b = b XOR word_rotl 13 b XOR word_rotl 23 b"

fun ref_words :: "(nat \<Rightarrow> u32) \<Rightarrow> (u32 \<Rightarrow> u32) \<Rightarrow> nat \<Rightarrow> u32 list \<Rightarrow> u32 list" where
  "ref_words c T 0 x = x"
| "ref_words c T (Suc i) x =
     (let y = ref_words c T i x in y @ [y ! i XOR T (y ! (i + 1) XOR y ! (i + 2) XOR y ! (i + 3) XOR c i)])"

definition ref_keys :: "u32 list \<Rightarrow> u32 list" where
  "ref_keys mk = drop 4 (ref_words (\<lambda>i. ucast (CK ! i)) (\<lambda>w. ref_L' (ref_tau w)) 32 (map2 (XOR) mk (map ucast FK)))"

definition ref_crypt :: "u32 list \<Rightarrow> u32 list \<Rightarrow> u32 list" where
  "ref_crypt rk x = rev (drop 32 (ref_words (\<lambda>i. rk ! i) (\<lambda>w. ref_L (ref_tau w)) 32 x))"

lemma bit_lo: "bit (lo x) n \<longleftrightarrow> n < 32 \<and> bit x n"
  by (auto simp: lo_def bit_unsigned_iff possible_bit_def dest: bit_imp_le_length)

lemma lo_ROTL:
  assumes "\<And>k. 32 \<le> k \<Longrightarrow> \<not> bit x k" "0 < n" "n < 32"
  shows "lo (ROTL x n) = word_rotl n (lo x)"
proof (rule bit_word_eqI)
  fix k :: nat
  assume "k < LENGTH(32)"
  then have k: "k < 32" by simp
  have mask: "(0xFFFFFFFF :: u64) = mask 32" by (simp add: mask_eq_exp_minus_1)
  have idx: "(k + (32 - n)) mod 32 = (if n \<le> k then k - n else k + (32 - n))"
    using k assms(2,3) by (auto simp: mod_if)
  have "bit (lo (ROTL x n)) k \<longleftrightarrow> n \<le> k \<and> bit x (k - n) \<or> bit x (32 - n + k)"
    using k assms by (auto simp: bit_lo ROTL_def SHL_def mask bit_or_iff bit_and_iff bit_push_bit_iff bit_mask_iff bit_drop_bit_eq)
  also have "\<dots> \<longleftrightarrow> bit (lo x) ((k + (32 - n)) mod 32)"
    unfolding idx using k assms by (auto simp: bit_lo add.commute)
  also have "\<dots> \<longleftrightarrow> bit (word_rotl n (lo x)) k"
    using k assms(2,3) by (simp add: bit_word_rotl_iff)
  finally show "bit (lo (ROTL x n)) k = bit (word_rotl n (lo x)) k" .
qed

lemma lo_GET: "lo (GET_ULONG_BE b i) = push_bit 24 (ucast (b ! i)) OR push_bit 16 (ucast (b ! (i + 1)))
     OR push_bit 8 (ucast (b ! (i + 2))) OR ucast (b ! (i + 3))"
  unfolding GET_ULONG_BE_def lo_def
  by (rule bit_word_eqI) (auto simp: bit_unsigned_iff bit_or_iff bit_push_bit_iff possible_bit_def)

lemma tau_lo: "lo (GET_ULONG_BE (map sm4Sbox (PUT_ULONG_BE a)) 0) = ref_tau (lo a)"
  unfolding lo_GET PUT_eq_lo by (simp add: ref_tau_def)

lemma GET_high: "32 \<le> k \<Longrightarrow> \<not> bit (GET_ULONG_BE b i) k"
  by (simp add: bit_GET)

lemma lo_sm4Lt_ref: "lo (sm4Lt a) = ref_L (ref_tau (lo a))"
  by (simp add: sm4Lt_def Let_def lo_ROTL [OF GET_high] tau_lo ref_L_def)

lemma lo_sm4CalciRK_ref: "lo (sm4CalciRK a) = ref_L' (ref_tau (lo a))"
  by (simp add: sm4CalciRK_def Let_def lo_ROTL [OF GET_high] tau_lo ref_L'_def)

lemma length_ref_words [simp]: "length (ref_words c T n x) = n + length x"
  by (induction n) (auto simp: Let_def)

lemma round_loop_ref:
  assumes "length u = 4" "n \<le> length sk"
  shows "map lo (round_loop sk n u) = ref_words (\<lambda>i. map lo sk ! i) (\<lambda>w. ref_L (ref_tau w)) n (map lo u)"
  using assms(2)
proof (induction n)
  case (Suc n)
  have nth: "lo (round_loop sk n u ! i) = ref_words (\<lambda>i. map lo sk ! i) (\<lambda>w. ref_L (ref_tau w)) n (map lo u) ! i"
    if "i < n + 4" for i
    using Suc assms(1) that by (metis Suc_leD length_round_loop nth_map)
  show ?case using Suc assms(1) by (simp add: Let_def nth sm4F_def lo_sm4Lt_ref)
qed simp

lemma setkey_loop_ref:
  assumes "length k = 4"
  shows "map lo (setkey_loop n k) = ref_words (\<lambda>i. lo (CK ! i)) (\<lambda>w. ref_L' (ref_tau w)) n (map lo k)"
proof (induction n)
  case (Suc n)
  have nth: "lo (setkey_loop n k ! i) = ref_words (\<lambda>i. lo (CK ! i)) (\<lambda>w. ref_L' (ref_tau w)) n (map lo k) ! i"
    if "i < n + 4" for i
    using Suc assms that by (metis length_setkey_loop nth_map)
  show ?case using Suc assms by (simp add: Let_def nth lo_sm4CalciRK_ref)
qed simp

definition be_words :: "byte list \<Rightarrow> u32 list" where
  "be_words b = map (\<lambda>i. lo (GET_ULONG_BE b i)) [0, 4, 8, 12]"

text \<open>(C29) The 64-bit arithmetic of \<open>sm4_setkey\<close> and \<open>sm4_one_round\<close>, whose rotations leave garbage above
  bit 31, computes the SM4 cipher of the standard on 32-bit words: the round keys and the
  output block are those of the reference.\<close>

theorem sm4_matches_reference:
  "map lo (sm4_setkey key) = ref_keys (be_words key) \<and>
   be_words (sm4_one_round (sm4_setkey key) input) = ref_crypt (ref_keys (be_words key)) (be_words input)"
proof -
  let ?sk = "sm4_setkey key" and ?u = "map (GET_ULONG_BE input) [0, 4, 8, 12]"
  let ?U = "round_loop ?sk 32 ?u"
  have keys: "map lo ?sk = ref_keys (be_words key)"
  proof -
    let ?k = "map (\<lambda>j. GET_ULONG_BE key (4 * j) XOR FK ! j) [0, 1, 2, 3]"
    have "map lo ?k = map2 (XOR) (be_words key) (map ucast FK)"
      by (simp add: be_words_def FK_def lo_xor) (simp add: lo_def)
    then have "map lo (setkey_loop 32 ?k) = ref_words (\<lambda>i. ucast (CK ! i)) (\<lambda>w. ref_L' (ref_tau w)) 32
        (map2 (XOR) (be_words key) (map ucast FK))"
      using setkey_loop_ref [of ?k 32] by (simp only: lo_def length_map list.size)
    then show ?thesis unfolding sm4_setkey_def ref_keys_def by (simp only: drop_map [symmetric])
  qed
  have ref: "map lo ?U = ref_words (\<lambda>i. map lo ?sk ! i) (\<lambda>w. ref_L (ref_tau w)) 32 (be_words input)"
    using round_loop_ref [of ?u 32 ?sk] by (simp add: be_words_def comp_def)
  have d: "drop 32 (map lo ?U) = [lo (?U ! 32), lo (?U ! 33), lo (?U ! 34), lo (?U ! 35)]"
  proof (rule nth_equalityI)
    show "length (drop 32 (map lo ?U)) = length [lo (?U ! 32), lo (?U ! 33), lo (?U ! 34), lo (?U ! 35)]" by simp
    fix i assume "i < length (drop 32 (map lo ?U))"
    then have "i < 4" by simp
    then consider "i = 0" | "i = 1" | "i = 2" | "i = 3" by linarith
    then show "drop 32 (map lo ?U) ! i = [lo (?U ! 32), lo (?U ! 33), lo (?U ! 34), lo (?U ! 35)] ! i"
      by cases simp_all
  qed
  have p: "length (PUT_ULONG_BE x) = 4" for x by (simp add: PUT_ULONG_BE_def)
  have g: "lo (GET_ULONG_BE (us @ PUT_ULONG_BE x @ vs) (length us)) = lo x" for us vs x
    using GET_cong [of "us @ PUT_ULONG_BE x @ vs" "length us" "PUT_ULONG_BE x" 0] lo_GET_PUT [of x]
    by (simp add: nth_append p)
  have "be_words (sm4_one_round ?sk input) = [lo (?U ! 35), lo (?U ! 34), lo (?U ! 33), lo (?U ! 32)]"
    using g [of "[]" "?U ! 35"] g [of "PUT_ULONG_BE (?U ! 35)" "?U ! 34"]
      g [of "PUT_ULONG_BE (?U ! 35) @ PUT_ULONG_BE (?U ! 34)" "?U ! 33"]
      g [of "PUT_ULONG_BE (?U ! 35) @ PUT_ULONG_BE (?U ! 34) @ PUT_ULONG_BE (?U ! 33)" "?U ! 32" "[]"]
    unfolding be_words_def sm4_one_round_def Let_def by (simp add: p)
  then show ?thesis using d keys unfolding ref_crypt_def keys [symmetric] ref [symmetric] by simp
qed

end
