(* ===== verification/Cube_Hashbase.thy ===== *)
theory Cube_Hashbase
  imports Cube_Prelude
begin

text \<open>
  What the hash functions share: big-endian words, the message processed in blocks of 64 bytes,
  the padding with the bit length, and the contract \<open>hash_stream\<close> of a context that is fed a
  message in chunks. \<open>Cube_SM3\<close> and \<open>Cube_SHA1\<close> interpret it.
\<close>

section \<open>Big-endian words\<close>

definition get_be32 :: "byte list \<Rightarrow> nat \<Rightarrow> u32" where
  "get_be32 b i = push_bit 24 (ucast (b ! i)) OR push_bit 16 (ucast (b ! (i + 1)))
     OR push_bit 8 (ucast (b ! (i + 2))) OR ucast (b ! (i + 3))"

definition put_be32 :: "u32 \<Rightarrow> byte list" where
  "put_be32 n = [ucast (drop_bit 24 n), ucast (drop_bit 16 n), ucast (drop_bit 8 n), ucast n]"

lemma length_put_be32 [simp]: "length (put_be32 w) = 4"
  by (simp add: put_be32_def)

definition be64 :: "u64 \<Rightarrow> byte list" where
  "be64 n = put_be32 (ucast (drop_bit 32 n)) @ put_be32 (ucast n)"

lemma length_be64 [simp]: "length (be64 w) = 8"
  by (simp add: be64_def)

section \<open>Blocks and padding\<close>

fun absorb :: "('s \<Rightarrow> byte list \<Rightarrow> 's) \<Rightarrow> nat \<Rightarrow> 's \<Rightarrow> byte list \<Rightarrow> 's" where
  "absorb process 0 s m = s"
| "absorb process (Suc k) s m = absorb process k (process s (take 64 m)) (drop 64 m)"

lemma absorb_add: "absorb p (j + k) s m = absorb p k (absorb p j s m) (drop (64 * j) m)"
  by (induction j arbitrary: s m) (auto simp: add.commute)

lemma absorb_append: "64 * k \<le> length m \<Longrightarrow> absorb p k s (m @ x) = absorb p k s m"
  by (induction k arbitrary: s m) auto

lemma absorb_take: "absorb p k s (take (64 * k) m) = absorb p k s m"
proof (induction k arbitrary: s m)
  case (Suc k)
  have "drop 64 (take (64 * Suc k) m) = take (64 * k) (drop 64 m)" by (simp add: drop_take)
  then show ?case using Suc [of "p s (take 64 m)" "drop 64 m"] by (simp add: min_def)
qed simp

text \<open>The padded message: a one bit, zeros up to 56 modulo 64, the bit length in 64 bits.\<close>

definition pad_zeros :: "nat \<Rightarrow> nat" where
  "pad_zeros n = (if n mod 64 < 56 then 55 - n mod 64 else 119 - n mod 64)"

definition md_pad :: "byte list \<Rightarrow> byte list" where
  "md_pad m = m @ 0x80 # replicate (pad_zeros (length m)) 0 @ be64 (of_nat (8 * length m))"

definition md_hash :: "('s \<Rightarrow> byte list \<Rightarrow> 's) \<Rightarrow> 's \<Rightarrow> byte list \<Rightarrow> 's" where
  "md_hash process iv m = absorb process (length (md_pad m) div 64) iv (md_pad m)"

lemma pad_mod: "(n + 1 + pad_zeros n) mod 64 = 56"
proof -
  have "n = 64 * (n div 64) + n mod 64" "n mod 64 < 64" by simp_all
  moreover define q r where "q = n div 64" "r = n mod 64"
  ultimately have n: "n = 64 * q + r" "r < 64" by simp_all
  have "n + 1 + pad_zeros n = (if r < 56 then 64 * q + 56 else 64 * (q + 1) + 56)"
    unfolding pad_zeros_def q_r_def(2) [symmetric] using n by auto
  then show ?thesis by (simp add: mod_mult_self3 mod_mult_self4 split: if_splits)
qed

section \<open>Feeding a context\<close>

text \<open>
  \<open>rep c s p n\<close>: the context \<open>c\<close> holds the chaining value \<open>s\<close> of the blocks so far, the pending bytes
  \<open>p\<close> and the number \<open>n\<close> of bytes seen; \<open>ok d\<close> bounds a chunk.
\<close>

locale hash_stream =
  fixes process :: "'s \<Rightarrow> byte list \<Rightarrow> 's"
    and rep :: "'c \<Rightarrow> 's \<Rightarrow> byte list \<Rightarrow> nat \<Rightarrow> bool"
    and ok :: "byte list \<Rightarrow> bool"
    and update :: "'c \<Rightarrow> byte list \<Rightarrow> 'c"
  assumes rep_pending: "rep c s p n \<Longrightarrow> length p = n mod 64"
    and update_law: "rep c s p n \<Longrightarrow> ok d \<Longrightarrow>
      rep (update c d) (absorb process ((length p + length d) div 64) s (p @ d))
        (drop (64 * ((length p + length d) div 64)) (p @ d)) (n + length d)"
begin

definition seen :: "'c \<Rightarrow> 's \<Rightarrow> byte list \<Rightarrow> bool" where
  "seen c iv m \<longleftrightarrow> rep c (absorb process (length m div 64) iv m) (drop (64 * (length m div 64)) m) (length m)"

lemma seen_update:
  assumes "seen c iv m" "ok d"
  shows "seen (update c d) iv (m @ d)"
proof -
  define k where "k = length m div 64"
  let ?p = "drop (64 * k) m"
  have k: "64 * k \<le> length m" by (simp add: k_def)
  have r: "rep c (absorb process k iv m) ?p (length m)" using assms(1) by (simp add: seen_def k_def)
  define j where "j = (length ?p + length d) div 64"
  have len: "length (m @ d) = 64 * k + (length ?p + length d)" using k by simp
  then have jk: "length (m @ d) div 64 = k + j" by (simp add: j_def)
  have md: "drop (64 * k) (m @ d) = ?p @ d" using k by simp
  have "absorb process (k + j) iv (m @ d) = absorb process j (absorb process k iv m) (?p @ d)"
    unfolding absorb_add md absorb_append [OF k] ..
  moreover have "drop (64 * (k + j)) (m @ d) = drop (64 * j) (?p @ d)"
    using md by (metis add.commute distrib_left drop_drop)
  ultimately show ?thesis using update_law [OF r assms(2)] unfolding seen_def jk j_def by simp
qed

lemma seen_fold: "seen c iv m \<Longrightarrow> (\<And>d. d \<in> set ds \<Longrightarrow> ok d) \<Longrightarrow> seen (fold (\<lambda>d c. update c d) ds c) iv (m @ concat ds)"
proof (induction ds arbitrary: c m)
  case (Cons d ds)
  then have "seen (update c d) iv (m @ d)" using seen_update by simp
  then show ?case using Cons.IH [of "update c d" "m @ d"] Cons.prems by simp
qed simp

text \<open>A whole number of blocks leaves nothing pending.\<close>

lemma seen_state: "seen c iv m \<Longrightarrow> \<exists>p. rep c (absorb process (length m div 64) iv m) p (length m)"
  by (auto simp: seen_def)

end

end
