(* ===== verification/Cube_SM3.thy ===== *)
theory Cube_SM3
  imports Cube_Prelude Cube_Hashbase
begin

text \<open>
  The SM3 hash and its HMAC, \<^verbatim>\<open>cubelib/crypto/sm3_ext.c\<close>. The theorems show that feeding a message in
  any chunks gives the digest of the padded message, block by block, and that the HMAC is the
  nested hash of RFC 2104.
\<close>

section \<open>The compression function\<close>

text \<open>
  The shift counts of \<^verbatim>\<open>ROTL(T[j],j)\<close> leave the range 1 to 31; the target takes counts modulo 32, which
  is written out.
\<close>

definition SHL32 :: "u32 \<Rightarrow> nat \<Rightarrow> u32" where
  "SHL32 x n = push_bit (n mod 32) (x AND 0xFFFFFFFF)"

definition ROTL32 :: "u32 \<Rightarrow> nat \<Rightarrow> u32" where
  "ROTL32 x n = SHL32 x n OR drop_bit (nat ((32 - int n) mod 32)) x"

definition FF0 :: "u32 \<Rightarrow> u32 \<Rightarrow> u32 \<Rightarrow> u32" where "FF0 x y z = x XOR y XOR z"
definition FF1 :: "u32 \<Rightarrow> u32 \<Rightarrow> u32 \<Rightarrow> u32" where "FF1 x y z = (x AND y) OR (x AND z) OR (y AND z)"
definition GG0 :: "u32 \<Rightarrow> u32 \<Rightarrow> u32 \<Rightarrow> u32" where "GG0 x y z = x XOR y XOR z"
definition GG1 :: "u32 \<Rightarrow> u32 \<Rightarrow> u32 \<Rightarrow> u32" where "GG1 x y z = (x AND y) OR (NOT x AND z)"
definition P0 :: "u32 \<Rightarrow> u32" where "P0 x = x XOR ROTL32 x 9 XOR ROTL32 x 17"
definition P1 :: "u32 \<Rightarrow> u32" where "P1 x = x XOR ROTL32 x 15 XOR ROTL32 x 23"

definition sm3_T :: "nat \<Rightarrow> u32" where
  "sm3_T j = (if j < 16 then 0x79CC4519 else 0x7A879D8A)"

text \<open>\<^verbatim>\<open>W\<close> after \<open>i\<close> steps of the expansion loop, \<open>16 + i\<close> words.\<close>

fun sm3_expand :: "nat \<Rightarrow> u32 list \<Rightarrow> u32 list" where
  "sm3_expand 0 W = W"
| "sm3_expand (Suc i) W =
     (let V = sm3_expand i W; j = i + 16;
          Temp1 = V ! (j - 16) XOR V ! (j - 9);
          Temp2 = ROTL32 (V ! (j - 3)) 15;
          Temp3 = Temp1 XOR Temp2;
          Temp4 = P1 Temp3;
          Temp5 = ROTL32 (V ! (j - 13)) 7 XOR V ! (j - 6)
      in V @ [Temp4 XOR Temp5])"

type_synonym sm3_regs = "u32 \<times> u32 \<times> u32 \<times> u32 \<times> u32 \<times> u32 \<times> u32 \<times> u32"

definition sm3_round ::
  "(u32 \<Rightarrow> u32 \<Rightarrow> u32 \<Rightarrow> u32) \<Rightarrow> (u32 \<Rightarrow> u32 \<Rightarrow> u32 \<Rightarrow> u32) \<Rightarrow> u32 list \<Rightarrow> nat \<Rightarrow> sm3_regs \<Rightarrow> sm3_regs" where
  "sm3_round FF GG W j = (\<lambda>(A, B, C, D, E, F, G, H).
     let SS1 = ROTL32 (ROTL32 A 12 + E + ROTL32 (sm3_T j) j) 7;
         SS2 = SS1 XOR ROTL32 A 12;
         TT1 = FF A B C + D + SS2 + (W ! j XOR W ! (j + 4));
         TT2 = GG E F G + H + SS1 + W ! j
     in (TT1, A, ROTL32 B 9, C, P0 TT2, E, ROTL32 F 19, G))"

definition sm3_process :: "u32 list \<Rightarrow> byte list \<Rightarrow> u32 list" where
  "sm3_process state data =
     (let W = sm3_expand 52 (map (\<lambda>j. get_be32 data (4 * j)) [0..<16]);
          r0 = (state ! 0, state ! 1, state ! 2, state ! 3, state ! 4, state ! 5, state ! 6, state ! 7);
          r1 = fold (sm3_round FF0 GG0 W) [0..<16] r0;
          (A, B, C, D, E, F, G, H) = fold (sm3_round FF1 GG1 W) [16..<64] r1
      in map2 (XOR) state [A, B, C, D, E, F, G, H])"

section \<open>Contexts\<close>

record sm3_context_ext =
  sm3_total0 :: u32
  sm3_total1 :: u32
  sm3_state :: "u32 list"
  sm3_buffer :: "byte list"
  sm3_ipad :: "byte list"
  sm3_opad :: "byte list"

definition sm3_iv :: "u32 list" where
  "sm3_iv = [0x7380166F, 0x4914B2B9, 0x172442D7, 0xDA8A0600, 0xA96F30BC, 0x163138AA, 0xE38DEE4D, 0xB0FB0E4E]"

definition sm3_starts_ext :: "sm3_context_ext \<Rightarrow> sm3_context_ext" where
  "sm3_starts_ext ctx = ctx\<lparr>sm3_total0 := 0, sm3_total1 := 0, sm3_state := sm3_iv\<rparr>"

text \<open>The loop over whole blocks of the input, and the rest it leaves.\<close>

function sm3_blocks :: "u32 list \<Rightarrow> byte list \<Rightarrow> u32 list \<times> byte list" where
  "sm3_blocks state input =
     (if length input \<ge> 64 then sm3_blocks (sm3_process state (take 64 input)) (drop 64 input)
      else (state, input))"
  by pat_completeness auto
termination
  by (relation "measure (\<lambda>(state, input). length input)") auto

declare sm3_blocks.simps [simp del]

definition sm3_update_ext :: "sm3_context_ext \<Rightarrow> byte list \<Rightarrow> sm3_context_ext" where
  "sm3_update_ext ctx input =
     (if input = [] then ctx
      else
        let left = unat (sm3_total0 ctx AND 0x3F);
            fill = 64 - left;
            ilen = length input;
            t0 = sm3_total0 ctx + of_nat ilen;
            ctx1 = ctx\<lparr>sm3_total0 := t0,
                       sm3_total1 := (if t0 < of_nat ilen then sm3_total1 ctx + 1 else sm3_total1 ctx)\<rparr>;
            (ctx2, input2, left2) =
              (if left \<noteq> 0 \<and> ilen \<ge> fill then
                 let buf = buf_put (sm3_buffer ctx1) left (take fill input)
                 in (ctx1\<lparr>sm3_buffer := buf, sm3_state := sm3_process (sm3_state ctx1) buf\<rparr>, drop fill input, 0)
               else (ctx1, input, left));
            (st, rest) = sm3_blocks (sm3_state ctx2) input2
        in (ctx2\<lparr>sm3_state := st\<rparr>)\<lparr>sm3_buffer :=
             (if rest = [] then sm3_buffer ctx2 else buf_put (sm3_buffer ctx2) left2 rest)\<rparr>)"

definition sm3_padding :: "byte list" where
  "sm3_padding = 0x80 # replicate 63 0"

definition sm3_finish_ext :: "sm3_context_ext \<Rightarrow> sm3_context_ext \<times> byte list" where
  "sm3_finish_ext ctx =
     (let high = drop_bit 29 (sm3_total0 ctx) OR push_bit 3 (sm3_total1 ctx);
          low = push_bit 3 (sm3_total0 ctx);
          msglen = put_be32 high @ put_be32 low;
          last = unat (sm3_total0 ctx AND 0x3F);
          padn = (if last < 56 then 56 - last else 120 - last);
          ctx1 = sm3_update_ext ctx (take padn sm3_padding);
          ctx2 = sm3_update_ext ctx1 msglen
      in (ctx2, concat (map put_be32 (sm3_state ctx2))))"

text \<open>A context on the stack before it is set up holds arbitrary bytes, \<open>ctx0\<close>.\<close>

definition sm3_ext :: "sm3_context_ext \<Rightarrow> byte list \<Rightarrow> byte list" where
  "sm3_ext ctx0 input = snd (sm3_finish_ext (sm3_update_ext (sm3_starts_ext ctx0) input))"

definition calculate_context_sm3 :: "sm3_context_ext \<Rightarrow> byte list \<Rightarrow> byte list" where
  "calculate_context_sm3 ctx0 context =
     snd (sm3_finish_ext (sm3_update_ext (sm3_starts_ext ctx0) context))"

text \<open>
  \<open>calculate_sm3\<close> (and \<open>sm3_file_ext\<close>, the same code) on a file given by the chunks \<^verbatim>\<open>fread\<close> delivers:
  \<open>None\<close> for a file that cannot be opened; \<open>err\<close> is \<^verbatim>\<open>ferror\<close>.
\<close>

definition calculate_sm3 :: "sm3_context_ext \<Rightarrow> byte list list option \<Rightarrow> bool \<Rightarrow> int \<times> byte list option" where
  "calculate_sm3 ctx0 file err =
     (case file of
        None \<Rightarrow> (1, None)
      | Some chunks \<Rightarrow>
          let ctx = fold (\<lambda>d c. sm3_update_ext c d) chunks (sm3_starts_ext ctx0)
          in (if err then 2 else 0, Some (snd (sm3_finish_ext ctx))))"

section \<open>HMAC\<close>

definition SM3_hmac_init :: "sm3_context_ext \<Rightarrow> sm3_context_ext \<Rightarrow> byte list \<Rightarrow> sm3_context_ext" where
  "SM3_hmac_init ctx ctx0 key0 =
     (let keylen = (if length key0 > 64 then 32 else length key0);
          key = (if length key0 > 64 then calculate_context_sm3 ctx0 key0 @ replicate 32 0
                 else if length key0 < 64 then key0 @ replicate (64 - length key0) 0
                 else key0);
          ipad = map (\<lambda>i. if i < keylen then 0x36 XOR key ! i else 0x36) [0..<64];
          opad = map (\<lambda>i. if i < keylen then 0x5C XOR key ! i else 0x5C) [0..<64]
      in sm3_update_ext (sm3_starts_ext (ctx\<lparr>sm3_ipad := ipad, sm3_opad := opad\<rparr>)) ipad)"

definition SM3_hmac_update :: "sm3_context_ext \<Rightarrow> byte list \<Rightarrow> sm3_context_ext" where
  "SM3_hmac_update ctx input = sm3_update_ext ctx input"

definition SM3_hmac_finish :: "sm3_context_ext \<Rightarrow> byte list" where
  "SM3_hmac_finish ctx =
     (let (ctx1, tmpbuf) = sm3_finish_ext ctx;
          ctx2 = sm3_update_ext (sm3_starts_ext ctx1) (sm3_opad ctx1);
          ctx3 = sm3_update_ext ctx2 tmpbuf
      in snd (sm3_finish_ext ctx3))"

definition SM3_hmac :: "sm3_context_ext \<Rightarrow> sm3_context_ext \<Rightarrow> byte list \<Rightarrow> byte list \<Rightarrow> byte list" where
  "SM3_hmac ctx ctx0 key input = SM3_hmac_finish (SM3_hmac_update (SM3_hmac_init ctx ctx0 key) input)"

section \<open>Rotations\<close>

lemma ROTL32_word_rotl: "ROTL32 x n = word_rotl n x"
proof (rule bit_word_eqI)
  fix k :: nat
  assume "k < LENGTH(32)"
  then have k: "k < 32" by simp
  define m where "m = n mod 32"
  have m: "m < 32" "nat ((32 - int n) mod 32) = (if m = 0 then 0 else 32 - m)"
  proof -
    show "m < 32" by (simp add: m_def)
    have "(32 - int n) mod 32 = (- int m) mod 32" by (simp add: m_def zmod_int mod_minus_eq)
    also have "\<dots> = (if m = 0 then 0 else 32 - int m)" using \<open>m < 32\<close> by (simp add: zmod_zminus1_eq_if)
    finally show "nat ((32 - int n) mod 32) = (if m = 0 then 0 else 32 - m)" using \<open>m < 32\<close> by auto
  qed
  have mask: "(x AND 0xFFFFFFFF) = x"
  proof -
    have "(0xFFFFFFFF :: u32) = - 1" by code_simp
    then show ?thesis by (simp only: and.right_neutral)
  qed
  have big: "\<not> bit x i" if "32 \<le> i" for i using that bit_imp_le_length [of x i] by auto
  have idx: "(k + (32 - m)) mod 32 = (if m \<le> k then k - m else k + (32 - m))"
    using k m(1) by (auto simp: mod_if)
  have "bit (ROTL32 x n) k \<longleftrightarrow> m \<le> k \<and> bit x (k - m) \<or> bit x ((if m = 0 then 0 else 32 - m) + k)"
    unfolding ROTL32_def SHL32_def mask m(2) m_def [symmetric]
    using k by (auto simp: bit_or_iff bit_push_bit_iff bit_drop_bit_eq)
  also have "\<dots> \<longleftrightarrow> bit x (if m \<le> k then k - m else k + (32 - m))"
    using k m(1) big [of "32 - m + k"] by (auto simp: add.commute)
  also have "\<dots> \<longleftrightarrow> bit (word_rotl n x) k"
    unfolding idx [symmetric] using k by (simp add: bit_word_rotl_iff m_def)
  finally show "bit (ROTL32 x n) k = bit (word_rotl n x) k" .
qed

section \<open>Feeding a message in chunks\<close>

lemma sm3_blocks_absorb:
  "sm3_blocks s d = (absorb sm3_process (length d div 64) s d, drop (64 * (length d div 64)) d)"
proof (induction "length d" arbitrary: s d rule: less_induct)
  case less
  show ?case
  proof (cases "64 \<le> length d")
    case True
    then have "length d div 64 = Suc (length (drop 64 d) div 64)" by (simp add: le_div_geq)
    moreover have "length (drop 64 d) < length d" using True by simp
    ultimately show ?thesis using less.hyps [of "drop 64 d" "sm3_process s (take 64 d)"] True
      by (simp add: sm3_blocks.simps [of s d] add.commute)
  next
    case False
    then show ?thesis by (simp add: sm3_blocks.simps [of s d])
  qed
qed

definition sm3_rep :: "sm3_context_ext \<Rightarrow> u32 list \<Rightarrow> byte list \<Rightarrow> nat \<Rightarrow> bool" where
  "sm3_rep c s p n \<longleftrightarrow> sm3_state c = s \<and> length p = n mod 64 \<and> length (sm3_buffer c) = 64
     \<and> take (length p) (sm3_buffer c) = p
     \<and> sm3_total0 c = of_nat n \<and> sm3_total1 c = of_nat (n div 2 ^ 32)"

definition sm3_chunk :: "byte list \<Rightarrow> bool" where
  "sm3_chunk d \<longleftrightarrow> length d < 2 ^ 31"

lemma total_left: "unat ((of_nat n :: u32) AND 0x3F) = n mod 64"
proof -
  have m: "(0x3F :: u32) = mask 6" by (simp add: mask_eq_exp_minus_1)
  have "unat ((of_nat n :: u32) AND 0x3F) = (n mod 2 ^ 32) mod 64"
    unfolding m take_bit_eq_mask [symmetric] unsigned_take_bit_eq take_bit_eq_mod [of 6 "unat (of_nat n :: u32)"]
    by (simp add: unat_of_nat)
  also have "\<dots> = n mod 64" by (rule mod_mod_cancel) simp
  finally show ?thesis .
qed

lemma total_carry:
  fixes n l :: nat
  assumes "l < 2 ^ 32"
  shows "(if (of_nat n + of_nat l :: u32) < of_nat l then of_nat (n div 2 ^ 32) + 1 else of_nat (n div 2 ^ 32) :: u32)
    = of_nat ((n + l) div 2 ^ 32)"
proof -
  define N :: nat where "N = 2 ^ 32"
  define q r where "q = n div N" and "r = n mod N"
  have N: "0 < N" "l < N" using assms by (simp_all add: N_def)
  have n: "n + l = r + l + q * N" "r < N" using N by (simp_all add: q_def r_def)
  have m: "(n + l) mod N = (if r + l < N then r + l else r + l - N)"
    unfolding n(1) mod_mult_self1 using n(2) N by (simp add: mod_if)
  have d: "(n + l) div N = (if r + l < N then q else q + 1)"
  proof (cases "r + l < N")
    case False
    then have "r + l + q * N = (r + l - N) + (q + 1) * N" "r + l - N < N" using n(2) N by auto
    then show ?thesis unfolding n(1) using False N(1) by (metis div_less div_mult_self1 gr_implies_not0 add_0_right add.commute)
  next
    case True
    then show ?thesis unfolding n(1) using N(1) by simp
  qed
  have "(of_nat n + of_nat l :: u32) < of_nat l \<longleftrightarrow> (n + l) mod N < l"
    using assms by (simp add: N_def word_less_nat_alt unat_of_nat flip: of_nat_add)
  then show ?thesis unfolding N_def [symmetric] d m q_def [symmetric] using n N by auto
qed

text \<open>The part of an update that moves bytes.\<close>

definition feed :: "u32 list \<Rightarrow> byte list \<Rightarrow> nat \<Rightarrow> byte list \<Rightarrow> u32 list \<times> byte list" where
  "feed s buf left d =
     (let (s2, buf2, d2, left2) =
            (if left \<noteq> 0 \<and> length d \<ge> 64 - left then
               let b = buf_put buf left (take (64 - left) d) in (sm3_process s b, b, drop (64 - left) d, 0)
             else (s, buf, d, left));
          (st, rest) = sm3_blocks s2 d2
      in (st, if rest = [] then buf2 else buf_put buf2 left2 rest))"

lemma feed_spec:
  assumes p: "length p < 64" "length buf = 64" "take (length p) buf = p"
    and f: "feed s buf (length p) d = (s', buf')"
  defines "k \<equiv> (length p + length d) div 64"
  shows "s' = absorb sm3_process k s (p @ d) \<and> length buf' = 64 \<and>
    take (length (drop (64 * k) (p @ d))) buf' = drop (64 * k) (p @ d)"
proof -
  have put: "length (buf_put b off x) = 64 \<and> take (off + length x) (buf_put b off x) = take off b @ x"
    if "length b = 64" "off + length x \<le> 64" for b :: "byte list" and off x
    using that by (simp add: buf_put_def)
  consider "p \<noteq> []" "length d \<ge> 64 - length p" | "p = []" | "p \<noteq> []" "length d < 64 - length p" by linarith
  then show ?thesis
  proof cases
    case 1
    define fill where "fill = 64 - length p"
    define b where "b = buf_put buf (length p) (take fill d)"
    define d2 where "d2 = drop fill d"
    have b: "b = take 64 (p @ d)" "length b = 64"
      using put [of buf "length p" "take fill d"] p 1 by (auto simp: b_def fill_def)
    have d2: "d2 = drop 64 (p @ d)" using p(1) by (simp add: d2_def fill_def)
    have k: "k = Suc (length d2 div 64)"
      using 1 p(1) by (simp add: k_def d2_def fill_def le_div_geq)
    define r where "r = drop (64 * (length d2 div 64)) d2"
    have r: "length r < 64" "r = drop (64 * k) (p @ d)"
      by (simp add: r_def minus_mult_div_eq_mod, metis d2 r_def k drop_drop mult_Suc_right add.commute)
    have e: "s' = absorb sm3_process (length d2 div 64) (sm3_process s b) d2" "buf' = (if r = [] then b else buf_put b 0 r)"
    proof -
      have "feed s buf (length p) d =
          (case sm3_blocks (sm3_process s b) d2 of (st, rest) \<Rightarrow> (st, if rest = [] then b else buf_put b 0 rest))"
        unfolding feed_def b_def d2_def fill_def Let_def using 1 by simp
      then show "s' = absorb sm3_process (length d2 div 64) (sm3_process s b) d2" "buf' = (if r = [] then b else buf_put b 0 r)"
        using f unfolding sm3_blocks_absorb prod.case r_def [symmetric] by simp_all
    qed
    have "length buf' = 64 \<and> take (length r) buf' = r" using e(2) put [of b 0 r] b(2) r(1) by simp
    moreover have "s' = absorb sm3_process k s (p @ d)" unfolding e(1) k absorb.simps b(1) d2 ..
    ultimately show ?thesis unfolding r(2) [symmetric] by blast
  next
    case 2
    define r where "r = drop (64 * (length d div 64)) d"
    have r: "length r < 64" by (simp add: r_def minus_mult_div_eq_mod)
    have "s' = absorb sm3_process (length d div 64) s d" "buf' = (if r = [] then buf else buf_put buf 0 r)"
      using f 2 unfolding feed_def sm3_blocks_absorb by (auto simp: Let_def r_def)
    moreover have "length buf' = 64 \<and> take (length r) buf' = r" using calculation(2) put [of buf 0 r] p(2) r by simp
    moreover have "k = length d div 64" using 2 by (simp add: k_def)
    ultimately show ?thesis using 2 unfolding r_def by simp
  next
    case 3
    then have "k = 0" "length d div 64 = 0" by (simp_all add: k_def)
    moreover have "s' = s" "buf' = (if d = [] then buf else buf_put buf (length p) d)"
      using f 3 unfolding feed_def sm3_blocks_absorb by (simp_all add: Let_def split: if_splits)
    moreover have "length buf' = 64 \<and> take (length p + length d) buf' = p @ d"
      using calculation(4) put [of buf "length p" d] p 3 by simp
    ultimately show ?thesis by simp
  qed
qed

lemma sm3_update_feed:
  assumes "d \<noteq> []"
  shows "sm3_update_ext c d =
    (let (st, buf) = feed (sm3_state c) (sm3_buffer c) (unat (sm3_total0 c AND 0x3F)) d;
         t0 = sm3_total0 c + of_nat (length d)
     in c\<lparr>sm3_total0 := t0, sm3_total1 := (if t0 < of_nat (length d) then sm3_total1 c + 1 else sm3_total1 c),
          sm3_state := st, sm3_buffer := buf\<rparr>)"
  using assms by (simp add: sm3_update_ext_def feed_def Let_def split_def)

interpretation sm3s: hash_stream sm3_process sm3_rep sm3_chunk sm3_update_ext
proof unfold_locales
  show "length p = n mod 64" if "sm3_rep c s p n" for c s p n using that by (simp add: sm3_rep_def)
  fix c s p n d
  assume r: "sm3_rep c s p n" and ok: "sm3_chunk d"
  let ?k = "(length p + length d) div 64"
  have "length p < 64" using r by (simp add: sm3_rep_def)
  then have p: "length p < 64" "length p = n mod 64" "length (sm3_buffer c) = 64" "take (length p) (sm3_buffer c) = p" "sm3_state c = s"
    and t: "sm3_total0 c = of_nat n" "sm3_total1 c = of_nat (n div 2 ^ 32)"
    using r unfolding sm3_rep_def by blast+
  show "sm3_rep (sm3_update_ext c d) (absorb sm3_process ?k s (p @ d)) (drop (64 * ?k) (p @ d)) (n + length d)"
  proof (cases "d = []")
    case True
    then show ?thesis using r p(1) by (simp add: sm3_update_ext_def)
  next
    case False
    obtain s' buf' where f: "feed s (sm3_buffer c) (length p) d = (s', buf')" by fastforce
    note fs = feed_spec [OF p(1,3,4) f]
    have left: "unat ((of_nat n :: u32) AND 0x3F) = length p" using total_left [of n] p(2) by simp
    have l: "length d < 2 ^ 32" using ok by (simp add: sm3_chunk_def)
    have u: "sm3_update_ext c d = c\<lparr>sm3_total0 := of_nat (n + length d), sm3_total1 := of_nat ((n + length d) div 2 ^ 32),
        sm3_state := s', sm3_buffer := buf'\<rparr>"
      unfolding sm3_update_feed [OF False] t left p(5) f Let_def prod.case total_carry [OF l, symmetric] by simp
    have "length (drop (64 * ?k) (p @ d)) = (length p + length d) mod 64"
      by (metis length_append length_drop minus_mult_div_eq_mod)
    also have "\<dots> = (n + length d) mod 64" unfolding p(2) by (rule mod_add_left_eq)
    finally have "length (drop (64 * ?k) (p @ d)) = (n + length d) mod 64" .
    then show ?thesis using fs unfolding u by (simp add: sm3_rep_def)
  qed
qed

section \<open>Padding and digest\<close>

lemma msglen_be64:
  "put_be32 (drop_bit 29 (of_nat n :: u32) OR push_bit 3 (of_nat (n div 2 ^ 32) :: u32)) @ put_be32 (push_bit 3 (of_nat n :: u32))
   = be64 (of_nat (8 * n))"
proof -
  have bn: "bit (of_nat m :: 'a::len word) k \<longleftrightarrow> k < LENGTH('a) \<and> bit m k" for m :: nat and k
    by (simp add: bit_of_nat_iff)
  have b8: "bit (8 * n) k \<longleftrightarrow> 3 \<le> k \<and> bit n (k - 3)" for k
    using bit_push_bit_iff [of 3 n k] by (simp add: push_bit_eq_mult mult.commute)
  have bd: "bit (n div 4294967296) (k - 3) \<longleftrightarrow> bit n (29 + k)" if "3 \<le> k" for k
  proof -
    have "bit (drop_bit 32 n) (k - 3) \<longleftrightarrow> bit n (32 + (k - 3))" by (simp add: bit_drop_bit_eq)
    then show ?thesis using that by (simp add: drop_bit_eq_div)
  qed
  have "drop_bit 29 (of_nat n :: u32) OR push_bit 3 (of_nat (n div 2 ^ 32) :: u32) = ucast (drop_bit 32 (of_nat (8 * n) :: u64))"
    by (rule bit_word_eqI)
      (auto simp: bit_or_iff bit_drop_bit_eq bit_push_bit_iff bn bd b8 bit_unsigned_iff
        simp del: of_nat_mult)
  moreover have "push_bit 3 (of_nat n :: u32) = ucast (of_nat (8 * n) :: u64)"
    by (rule bit_word_eqI)
      (auto simp: bit_push_bit_iff bn b8 bit_unsigned_iff simp del: of_nat_mult)
  ultimately show ?thesis by (simp add: be64_def del: of_nat_mult)
qed

lemma take_padding: "k \<le> 63 \<Longrightarrow> take (Suc k) sm3_padding = 0x80 # replicate k 0"
  by (simp add: sm3_padding_def)

lemma sm3_seen_start: "length (sm3_buffer ctx) = 64 \<Longrightarrow> sm3s.seen (sm3_starts_ext ctx) sm3_iv []"
  by (simp add: sm3s.seen_def sm3_rep_def sm3_starts_ext_def)

lemma length_md_pad: "length (md_pad m) = length m + 1 + pad_zeros (length m) + 8"
  by (simp add: md_pad_def)

lemma sm3_finish_digest:
  assumes "sm3s.seen c sm3_iv m"
  shows "snd (sm3_finish_ext c) = concat (map put_be32 (md_hash sm3_process sm3_iv m))"
    and "length (sm3_buffer (fst (sm3_finish_ext c))) = 64"
    and "sm3_opad (fst (sm3_finish_ext c)) = sm3_opad c"
proof -
  let ?n = "length m"
  have t: "sm3_total0 c = of_nat ?n" "sm3_total1 c = of_nat (?n div 2 ^ 32)"
    using assms by (simp_all add: sm3s.seen_def sm3_rep_def)
  let ?msglen = "be64 (of_nat (8 * ?n))"
  let ?pad = "0x80 # replicate (pad_zeros ?n) 0"
  have pz: "pad_zeros ?n \<le> 63" by (auto simp: pad_zeros_def)
  have padn: "(if ?n mod 64 < 56 then 56 - ?n mod 64 else 120 - ?n mod 64) = Suc (pad_zeros ?n)"
    by (auto simp: pad_zeros_def)
  have fin: "sm3_finish_ext c = (let ctx2 = sm3_update_ext (sm3_update_ext c ?pad) ?msglen
      in (ctx2, concat (map put_be32 (sm3_state ctx2))))"
    unfolding sm3_finish_ext_def Let_def t msglen_be64 total_left padn take_padding [OF pz] ..
  have ok: "sm3_chunk ?pad" "sm3_chunk ?msglen" using pz by (simp_all add: sm3_chunk_def)
  have "sm3s.seen (sm3_update_ext (sm3_update_ext c ?pad) ?msglen) sm3_iv ((m @ ?pad) @ ?msglen)"
    by (intro sm3s.seen_update assms ok)
  then have s: "sm3s.seen (sm3_update_ext (sm3_update_ext c ?pad) ?msglen) sm3_iv (md_pad m)"
    by (simp add: md_pad_def)
  then have "sm3_state (sm3_update_ext (sm3_update_ext c ?pad) ?msglen) = md_hash sm3_process sm3_iv m"
    "length (sm3_buffer (sm3_update_ext (sm3_update_ext c ?pad) ?msglen)) = 64"
    by (simp_all add: sm3s.seen_def sm3_rep_def md_hash_def)
  then show "snd (sm3_finish_ext c) = concat (map put_be32 (md_hash sm3_process sm3_iv m))"
    "length (sm3_buffer (fst (sm3_finish_ext c))) = 64" by (simp_all add: fin Let_def)
  have "sm3_opad (sm3_update_ext ctx d) = sm3_opad ctx" for ctx d
    by (cases "d = []") (simp add: sm3_update_ext_def, simp add: sm3_update_feed Let_def split_def)
  then show "sm3_opad (fst (sm3_finish_ext c)) = sm3_opad c" by (simp add: fin Let_def)
qed

definition sm3_digest :: "byte list \<Rightarrow> byte list" where
  "sm3_digest m = concat (map put_be32 (md_hash sm3_process sm3_iv m))"

text \<open>(C30) SM3 over a message fed in any chunks, each shorter than \<open>2^31\<close> bytes, gives the digest of the whole
  message: the message padded with a one bit, zeros and its bit length is compressed block by
  block. In particular \<open>calculate_sm3\<close> does not depend on how \<^verbatim>\<open>fread\<close> cuts the file.\<close>

theorem sm3_streaming_digest:
  assumes "length (sm3_buffer ctx0) = 64" "\<forall>d \<in> set chunks. length d < 2 ^ 31"
  shows "calculate_sm3 ctx0 (Some chunks) False = (0, Some (sm3_digest (concat chunks)))"
proof -
  have "sm3s.seen (fold (\<lambda>d c. sm3_update_ext c d) chunks (sm3_starts_ext ctx0)) sm3_iv ([] @ concat chunks)"
    by (rule sm3s.seen_fold) (use assms sm3_seen_start in \<open>auto simp: sm3_chunk_def\<close>)
  then show ?thesis using sm3_finish_digest(1) by (simp add: calculate_sm3_def sm3_digest_def Let_def)
qed

definition sm3_ctx0 :: sm3_context_ext where
  "sm3_ctx0 = \<lparr>sm3_total0 = 0, sm3_total1 = 0, sm3_state = [], sm3_buffer = replicate 64 0, sm3_ipad = [], sm3_opad = []\<rparr>"

theorem sm3_streaming_digest_witness:
  "calculate_sm3 sm3_ctx0 (Some [[1, 2], replicate 100 7]) False = (0, Some (sm3_digest ([1, 2] @ replicate 100 7)))"
  using sm3_streaming_digest [of sm3_ctx0 "[[1, 2], replicate 100 7]"] by (simp add: sm3_ctx0_def)

lemma calculate_context_sm3_digest:
  assumes "length (sm3_buffer ctx0) = 64" "length m < 2 ^ 31"
  shows "calculate_context_sm3 ctx0 m = sm3_digest m"
proof -
  have "sm3s.seen (sm3_update_ext (sm3_starts_ext ctx0) m) sm3_iv ([] @ m)"
    using assms sm3_seen_start by (intro sm3s.seen_update) (auto simp: sm3_chunk_def)
  then show ?thesis using sm3_finish_digest(1) by (simp add: calculate_context_sm3_def sm3_digest_def)
qed

section \<open>The keyed hash\<close>

lemma length_sm3_process: "length s = 8 \<Longrightarrow> length (sm3_process s d) = 8"
  by (simp add: sm3_process_def Let_def split_def)

lemma length_absorb_sm3: "length s = 8 \<Longrightarrow> length (absorb sm3_process k s d) = 8"
  by (induction k arbitrary: s d) (auto simp: length_sm3_process)

lemma length_sm3_digest [simp]: "length (sm3_digest m) = 32"
proof -
  have "length (md_hash sm3_process sm3_iv m) = 8" by (simp add: md_hash_def length_absorb_sm3 sm3_iv_def)
  then show ?thesis by (simp add: sm3_digest_def length_concat comp_def sum_list_triv)
qed

text \<open>HMAC as in RFC 2104 with blocks of 64 bytes.\<close>

definition hmac_key :: "byte list \<Rightarrow> byte list" where
  "hmac_key key = (if length key > 64 then sm3_digest key @ replicate 32 0 else key @ replicate (64 - length key) 0)"

definition hmac_spec :: "byte list \<Rightarrow> byte list \<Rightarrow> byte list" where
  "hmac_spec key m = sm3_digest (map (\<lambda>b. 0x5C XOR b) (hmac_key key) @ sm3_digest (map (\<lambda>b. 0x36 XOR b) (hmac_key key) @ m))"

lemma length_hmac_key [simp]: "length (hmac_key key) = 64"
  by (auto simp: hmac_key_def)

lemma xor_pad:
  assumes "length key = 64" "keylen \<le> 64" "\<And>i. keylen \<le> i \<Longrightarrow> i < 64 \<Longrightarrow> key ! i = 0"
  shows "map (\<lambda>i. if i < keylen then x XOR key ! i else x) [0..<64] = map (\<lambda>b. x XOR b) (key :: byte list)"
  using assms by (intro nth_equalityI) auto

lemma SM3_hmac_init_pads:
  assumes "length (sm3_buffer ctx0) = 64" "length key < 2 ^ 31"
  shows "SM3_hmac_init ctx ctx0 key =
    (let ip = map (\<lambda>b. 0x36 XOR b) (hmac_key key); op = map (\<lambda>b. 0x5C XOR b) (hmac_key key)
     in sm3_update_ext (sm3_starts_ext (ctx\<lparr>sm3_ipad := ip, sm3_opad := op\<rparr>)) ip)"
proof -
  let ?kl = "if length key > 64 then 32 else length key"
  let ?k = "if length key > 64 then calculate_context_sm3 ctx0 key @ replicate 32 0
            else if length key < 64 then key @ replicate (64 - length key) 0 else key"
  have k: "?k = hmac_key key" using calculate_context_sm3_digest [OF assms] by (simp add: hmac_key_def)
  have z: "hmac_key key ! i = 0" if "?kl \<le> i" "i < 64" for i
    using that by (auto simp: hmac_key_def nth_append split: if_splits)
  have p: "map (\<lambda>i. if i < ?kl then x XOR hmac_key key ! i else x) [0..<64] = map (\<lambda>b. x XOR b) (hmac_key key)" for x
    using z by (intro xor_pad) auto
  show ?thesis unfolding SM3_hmac_init_def k Let_def p ..
qed

lemma sm3_seen_two:
  assumes "length (sm3_buffer ctx) = 64" "length a < 2 ^ 31" "length b < 2 ^ 31"
  shows "sm3s.seen (sm3_update_ext (sm3_update_ext (sm3_starts_ext ctx) a) b) sm3_iv (a @ b)"
proof -
  have "sm3s.seen (sm3_update_ext (sm3_update_ext (sm3_starts_ext ctx) a) b) sm3_iv (([] @ a) @ b)"
    using assms sm3_seen_start by (intro sm3s.seen_update) (auto simp: sm3_chunk_def)
  then show ?thesis by simp
qed

lemma sm3_update_opad [simp]: "sm3_opad (sm3_update_ext ctx d) = sm3_opad ctx"
  by (cases "d = []") (simp add: sm3_update_ext_def, simp add: sm3_update_feed Let_def split_def)

text \<open>(C31) \<open>SM3_hmac\<close> is the HMAC of RFC 2104 over SM3 for every key, short keys padded with zeros and
  keys longer than a block hashed first.\<close>

theorem SM3_hmac_correct:
  assumes "length (sm3_buffer ctx) = 64" "length (sm3_buffer ctx0) = 64" "length key < 2 ^ 31" "length m < 2 ^ 31"
  shows "SM3_hmac ctx ctx0 key m = hmac_spec key m"
proof -
  let ?ip = "map (\<lambda>b. 0x36 XOR b) (hmac_key key)" and ?op = "map (\<lambda>b. 0x5C XOR b) (hmac_key key)"
  let ?c1 = "sm3_update_ext (SM3_hmac_init ctx ctx0 key) m"
  have c1: "sm3s.seen ?c1 sm3_iv (?ip @ m)"
    unfolding SM3_hmac_init_pads [OF assms(2,3)] Let_def
    by (rule sm3_seen_two) (use assms in simp_all)
  have op: "sm3_opad ?c1 = ?op" unfolding SM3_hmac_init_pads [OF assms(2,3)] Let_def by (simp add: sm3_starts_ext_def)
  obtain c2 inner where f: "sm3_finish_ext ?c1 = (c2, inner)" by fastforce
  then have inner: "inner = sm3_digest (?ip @ m)" "length (sm3_buffer c2) = 64" "sm3_opad c2 = ?op"
    using sm3_finish_digest [OF c1] op by (simp_all add: sm3_digest_def)
  have "sm3s.seen (sm3_update_ext (sm3_update_ext (sm3_starts_ext c2) ?op) inner) sm3_iv (?op @ inner)"
    by (rule sm3_seen_two) (use inner in simp_all)
  from sm3_finish_digest(1) [OF this] show ?thesis
    using f inner by (simp add: SM3_hmac_def SM3_hmac_update_def SM3_hmac_finish_def hmac_spec_def sm3_digest_def Let_def)
qed

theorem SM3_hmac_correct_witness:
  "SM3_hmac sm3_ctx0 sm3_ctx0 [1, 2, 3] [4] = hmac_spec [1, 2, 3] [4]"
  using SM3_hmac_correct [of sm3_ctx0 sm3_ctx0 "[1, 2, 3]" "[4]"] by (simp add: sm3_ctx0_def)

end
