(* ===== verification/Cube_SHA1.thy ===== *)
theory Cube_SHA1
  imports Cube_Prelude Cube_Hashbase
begin

text \<open>
  SHA-1, \<^verbatim>\<open>cubelib/crypto/sha1.c\<close>, and \<open>calculate_context_sha1\<close> of \<^verbatim>\<open>crypto_func.c\<close>. The unrolled rounds with
  their in-place schedule of 16 words are shown to be the rounds of the standard, and the
  streaming interface to hash the padded message.
\<close>

section \<open>The transform\<close>

definition rol :: "u32 \<Rightarrow> nat \<Rightarrow> u32" where
  "rol v b = push_bit b v OR drop_bit (32 - b) v"

definition get_le32 :: "byte list \<Rightarrow> nat \<Rightarrow> u32" where
  "get_le32 b i = ucast (b ! i) OR push_bit 8 (ucast (b ! (i + 1))) OR push_bit 16 (ucast (b ! (i + 2)))
     OR push_bit 24 (ucast (b ! (i + 3)))"

definition B0 :: "u32 list \<Rightarrow> nat \<Rightarrow> u32 list" where
  "B0 buf i = buf[i := drop_bit 24 (buf ! i AND 0xff000000) OR drop_bit 8 (buf ! i AND 0x00ff0000)
     OR push_bit 8 (buf ! i AND 0x0000ff00) OR push_bit 24 (buf ! i AND 0x000000ff)]"

text \<open>\<open>(i - 14) & 15\<close> and its like, for \<open>i\<close> from 16 on.\<close>

definition B1 :: "u32 list \<Rightarrow> nat \<Rightarrow> u32 list" where
  "B1 buf i = buf[i mod 16 := rol (buf ! (i mod 16) XOR buf ! ((i - 14) mod 16)
     XOR buf ! ((i - 8) mod 16) XOR buf ! ((i - 3) mod 16)) 1]"

definition F0 :: "u32 \<Rightarrow> u32 \<Rightarrow> u32 \<Rightarrow> u32" where "F0 x y z = (x AND (y XOR z)) XOR z"
definition F1 :: "u32 \<Rightarrow> u32 \<Rightarrow> u32 \<Rightarrow> u32" where "F1 x y z = x XOR y XOR z"
definition F2 :: "u32 \<Rightarrow> u32 \<Rightarrow> u32 \<Rightarrow> u32" where "F2 x y z = ((x OR y) AND z) OR (x AND y)"

type_synonym sha1_regs = "u32 \<times> u32 \<times> u32 \<times> u32 \<times> u32"

text \<open>
  The round macros \<open>R0\<close> to \<open>R4\<close>. Each is applied with its arguments turned by one place, so the
  registers of the model turn after each round; 80 rounds are 16 full turns.
\<close>

definition sha1_macro :: "nat \<Rightarrow> (u32 \<Rightarrow> u32 \<Rightarrow> u32 \<Rightarrow> u32) \<times> u32" where
  "sha1_macro i = (if i < 20 then (F0, 0x5A827999) else if i < 40 then (F1, 0x6ED9EBA1)
     else if i < 60 then (F2, 0x8F1BBCDC) else (F1, 0xCA62C1D6))"

definition sha1_step :: "nat \<Rightarrow> u32 list \<times> sha1_regs \<Rightarrow> u32 list \<times> sha1_regs" where
  "sha1_step i = (\<lambda>(buf, a, b, c, d, e).
     let buf' = (if i < 16 then B0 buf i else B1 buf i);
         e' = e + (fst (sha1_macro i) b c d + buf' ! (i mod 16) + snd (sha1_macro i) + rol a 5)
     in (buf', e', a, rol b 30, c, d))"

definition tpm_sha1_transform :: "u32 list \<Rightarrow> byte list \<Rightarrow> u32 list" where
  "tpm_sha1_transform h data =
     (let buf = map (\<lambda>j. get_le32 data (4 * j)) [0..<16];
          (_, a, b, c, d, e) = fold sha1_step [0..<80] (buf, h ! 0, h ! 1, h ! 2, h ! 3, h ! 4)
      in [h ! 0 + a, h ! 1 + b, h ! 2 + c, h ! 3 + d, h ! 4 + e])"

section \<open>Contexts\<close>

record tpm_sha1_ctx =
  sha1_h :: "u32 list"
  count_lo :: u32
  count_hi :: u32
  sha1_buf :: "byte list"

definition sha1_iv :: "u32 list" where
  "sha1_iv = [0x67452301, 0xEFCDAB89, 0x98BADCFE, 0x10325476, 0xC3D2E1F0]"

definition tpm_sha1_init :: "tpm_sha1_ctx \<Rightarrow> tpm_sha1_ctx" where
  "tpm_sha1_init ctx = ctx\<lparr>sha1_h := sha1_iv, count_lo := 0, count_hi := 0\<rparr>"

function sha1_blocks :: "u32 list \<Rightarrow> byte list \<Rightarrow> nat \<Rightarrow> u32 list \<times> nat" where
  "sha1_blocks h data data_off =
     (if data_off + 64 \<le> length data
      then sha1_blocks (tpm_sha1_transform h (take 64 (drop data_off data))) data (data_off + 64)
      else (h, data_off))"
  by pat_completeness auto
termination
  by (relation "measure (\<lambda>(h, data, off). length data - off)") auto

declare sha1_blocks.simps [simp del]

definition tpm_sha1_update :: "tpm_sha1_ctx \<Rightarrow> byte list \<Rightarrow> tpm_sha1_ctx" where
  "tpm_sha1_update ctx data =
     (let buf_off = unat (drop_bit 3 (count_lo ctx) AND 63);
          (h, buf, data_off, off) =
            (if length data + buf_off \<ge> 64 then
               let first = 64 - buf_off;
                   b = buf_put (sha1_buf ctx) buf_off (take first data);
                   (h', o') = sha1_blocks (tpm_sha1_transform (sha1_h ctx) b) data first
               in (h', b, o', 0)
             else (sha1_h ctx, sha1_buf ctx, 0, buf_off));
          buf' = buf_put buf off (drop data_off data);
          lo = count_lo ctx + of_nat (8 * length data);
          hi = (if lo < count_lo ctx then count_hi ctx + 1 else count_hi ctx) + of_nat (length data div 2 ^ 29)
      in ctx\<lparr>sha1_h := h, sha1_buf := buf', count_lo := lo, count_hi := hi\<rparr>)"

definition tpm_sha1_update_be32 :: "tpm_sha1_ctx \<Rightarrow> u32 \<Rightarrow> tpm_sha1_ctx" where
  "tpm_sha1_update_be32 ctx data =
     tpm_sha1_update ctx [ucast (drop_bit 24 data AND 0xff), ucast (drop_bit 16 data AND 0xff),
       ucast (drop_bit 8 data AND 0xff), ucast (data AND 0xff)]"

partial_function (option) sha1_pad_loop :: "tpm_sha1_ctx \<Rightarrow> tpm_sha1_ctx option" where
  "sha1_pad_loop ctx =
     (if count_lo ctx AND (63 * 8) \<noteq> 56 * 8 then sha1_pad_loop (tpm_sha1_update ctx [0]) else Some ctx)"

definition tpm_sha1_final :: "tpm_sha1_ctx \<Rightarrow> byte list option" where
  "tpm_sha1_final ctx =
     (let counter = map (\<lambda>d. ucast (drop_bit (24 - d * 8) (count_hi ctx) AND 0xff)) [0, 1, 2, 3]
            @ map (\<lambda>d. ucast (drop_bit (24 - d * 8) (count_lo ctx) AND 0xff)) [0, 1, 2, 3]
      in case sha1_pad_loop (tpm_sha1_update ctx [0x80]) of
           None \<Rightarrow> None
         | Some ctx1 \<Rightarrow>
             let ctx2 = tpm_sha1_update ctx1 counter
             in Some (map (\<lambda>d. ucast (drop_bit (8 * (3 - d mod 4)) (sha1_h ctx2 ! (d div 4)) AND 0xff)) [0..<20]))"

definition calculate_context_sha1 :: "tpm_sha1_ctx \<Rightarrow> byte list \<Rightarrow> byte list option" where
  "calculate_context_sha1 ctx0 context = tpm_sha1_final (tpm_sha1_update (tpm_sha1_init ctx0) context)"

section \<open>Counters\<close>

lemma bit_of_nat_word: "bit (of_nat m :: 'a::len word) k \<longleftrightarrow> k < LENGTH('a) \<and> bit m k"
  by (simp add: bit_of_nat_iff)

lemma bit_times8: "bit (8 * n) k \<longleftrightarrow> 3 \<le> k \<and> bit n (k - 3)" for n :: nat
  using bit_push_bit_iff [of 3 n k] by (simp add: push_bit_eq_mult mult.commute)

lemma bit_mod64: "bit (n mod 64) k \<longleftrightarrow> k < 6 \<and> bit n k" for n :: nat
proof -
  have "n mod 64 = take_bit 6 n" by (simp add: take_bit_eq_mod)
  then show ?thesis by (simp add: bit_take_bit_iff)
qed

lemma count_off: "unat (drop_bit 3 (of_nat (8 * n) :: u32) AND 63) = n mod 64"
proof -
  have m: "(63 :: u32) = mask 6" by (simp add: mask_eq_exp_minus_1)
  have "drop_bit 3 (of_nat (8 * n) :: u32) AND 63 = of_nat (n mod 64)"
    unfolding m by (rule bit_word_eqI)
      (auto simp: bit_and_iff bit_drop_bit_eq bit_mask_iff bit_of_nat_word bit_times8 bit_mod64 simp del: of_nat_mult)
  then show ?thesis by (simp add: unat_of_nat del: of_nat_mult)
qed

lemma count_cond: "(of_nat (8 * n) :: u32) AND (63 * 8) = 56 * 8 \<longleftrightarrow> n mod 64 = 56"
proof -
  have m: "(63 * 8 :: u32) = push_bit 3 (mask 6)" by (simp add: mask_eq_exp_minus_1 push_bit_eq_mult)
  have "(of_nat (8 * n) :: u32) AND (63 * 8) = of_nat (8 * (n mod 64))"
    unfolding m by (rule bit_word_eqI)
      (auto simp: bit_and_iff bit_push_bit_iff bit_mask_iff bit_of_nat_word bit_times8 bit_mod64 simp del: of_nat_mult)
  moreover have "(of_nat (8 * (n mod 64)) :: u32) = 56 * 8 \<longleftrightarrow> n mod 64 = 56"
  proof -
    have "unat (of_nat (8 * (n mod 64)) :: u32) = 8 * (n mod 64)"
    proof -
      have "8 * (n mod 64) < 2 ^ LENGTH(32)" using mod_less_divisor [of 64 n] by simp
      then show ?thesis by (simp only: unat_of_nat mod_less)
    qed
    then show ?thesis using word_unat_eq_iff [of "of_nat (8 * (n mod 64)) :: u32" "56 * 8"] by simp
  qed
  ultimately show ?thesis by simp
qed

lemma count_carry:
  fixes n l :: nat
  shows "(if (of_nat (8 * n) + of_nat (8 * l) :: u32) < of_nat (8 * n) then of_nat (8 * n div 2 ^ 32) + 1
      else of_nat (8 * n div 2 ^ 32)) + of_nat (l div 2 ^ 29) = (of_nat (8 * (n + l) div 2 ^ 32) :: u32)"
proof -
  define N a b where "N = (2 :: nat) ^ 32" and "a = 8 * n mod N" and "b = 8 * l mod N"
  define q r where "q = 8 * n div N" and "r = 8 * l div N"
  have N: "0 < N" "a < N" "b < N" by (simp_all add: N_def a_def b_def)
  have s: "8 * (n + l) = a + b + (q + r) * N"
    using mult_div_mod_eq [of N "8 * n"] mult_div_mod_eq [of N "8 * l"]
    unfolding a_def b_def q_def r_def by (simp add: algebra_simps)
  have r: "l div 2 ^ 29 = r"
  proof -
    have "8 * l div (8 * 2 ^ 29) = l div 2 ^ 29" by (rule div_mult_mult1) simp
    then show ?thesis by (simp add: r_def N_def)
  qed
  have d: "8 * (n + l) div N = (if a + b < N then q + r else q + r + 1)"
  proof (cases "a + b < N")
    case True
    then show ?thesis unfolding s using N(1) by simp
  next
    case False
    then have "a + b + (q + r) * N = (a + b - N) + (q + r + 1) * N" "a + b - N < N" using N by auto
    then show ?thesis unfolding s using False N(1)
      by (metis div_less div_mult_self1 gr_implies_not0 add_0_right add.commute)
  qed
  have "(of_nat (8 * n) + of_nat (8 * l) :: u32) < of_nat (8 * n) \<longleftrightarrow> (a + b) mod N < a"
  proof -
    have "unat (of_nat (8 * n) + of_nat (8 * l) :: u32) = (a + b) mod N"
      by (simp add: unat_of_nat a_def b_def N_def mod_add_eq flip: of_nat_add of_nat_mult)
    moreover have "unat (of_nat (8 * n) :: u32) = a" by (simp add: unat_of_nat a_def N_def del: of_nat_mult)
    ultimately show ?thesis by (simp add: word_less_nat_alt)
  qed
  also have "\<dots> \<longleftrightarrow> \<not> a + b < N"
  proof (cases "a + b < N")
    case False
    then have "(a + b) mod N = a + b - N" using N by (simp add: le_mod_geq)
    then show ?thesis using False N by linarith
  qed simp
  finally show ?thesis unfolding N_def [symmetric] d r q_def [symmetric] by simp
qed

section \<open>Feeding a message in chunks\<close>

lemma sha1_blocks_absorb:
  "off \<le> length data \<Longrightarrow> sha1_blocks h data off =
     (absorb tpm_sha1_transform ((length data - off) div 64) h (drop off data), off + 64 * ((length data - off) div 64))"
proof (induction "length data - off" arbitrary: h off rule: less_induct)
  case less
  show ?case
  proof (cases "off + 64 \<le> length data")
    case True
    have k: "(length data - off) div 64 = Suc ((length data - (off + 64)) div 64)"
      using True by (simp add: le_div_geq)
    have "sha1_blocks (tpm_sha1_transform h (take 64 (drop off data))) data (off + 64) =
        (absorb tpm_sha1_transform ((length data - (off + 64)) div 64) (tpm_sha1_transform h (take 64 (drop off data)))
           (drop (off + 64) data), off + 64 + 64 * ((length data - (off + 64)) div 64))"
      using True by (intro less.hyps) auto
    then show ?thesis using True unfolding sha1_blocks.simps [of h data off] k by (simp add: add.commute)
  next
    case False
    then show ?thesis by (simp add: sha1_blocks.simps [of h data off])
  qed
qed

definition sha1_feed :: "u32 list \<Rightarrow> byte list \<Rightarrow> nat \<Rightarrow> byte list \<Rightarrow> u32 list \<times> byte list" where
  "sha1_feed h0 buf0 buf_off data =
     (let (h, buf, data_off, off) =
            (if length data + buf_off \<ge> 64 then
               let first = 64 - buf_off;
                   b = buf_put buf0 buf_off (take first data);
                   (h', o') = sha1_blocks (tpm_sha1_transform h0 b) data first
               in (h', b, o', 0)
             else (h0, buf0, 0, buf_off))
      in (h, buf_put buf off (drop data_off data)))"

lemma sha1_feed_spec:
  assumes p: "length p < 64" "length buf = 64" "take (length p) buf = p"
    and f: "sha1_feed s buf (length p) d = (s', buf')"
  defines "k \<equiv> (length p + length d) div 64"
  shows "s' = absorb tpm_sha1_transform k s (p @ d) \<and> length buf' = 64 \<and>
    take (length (drop (64 * k) (p @ d))) buf' = drop (64 * k) (p @ d)"
proof -
  have put: "length (buf_put b off x) = 64 \<and> take (off + length x) (buf_put b off x) = take off b @ x"
    if "length b = 64" "off + length x \<le> 64" for b :: "byte list" and off x
    using that by (simp add: buf_put_def)
  show ?thesis
  proof (cases "length d + length p \<ge> 64")
    case True
    define first where "first = 64 - length p"
    define b where "b = buf_put buf (length p) (take first d)"
    define d2 where "d2 = drop first d"
    have first: "first \<le> length d" using True by (simp add: first_def)
    have b: "b = take 64 (p @ d)" "length b = 64"
      using put [of buf "length p" "take first d"] p first by (auto simp: b_def first_def)
    have d2: "d2 = drop 64 (p @ d)" "length d - first = length d2" using p(1) by (simp_all add: d2_def first_def)
    have k: "k = Suc (length d2 div 64)"
      using True p(1) by (simp add: k_def d2_def first_def le_div_geq add.commute)
    define r where "r = drop (64 * (length d2 div 64)) d2"
    have r: "length r < 64" "r = drop (64 * k) (p @ d)"
      by (simp add: r_def minus_mult_div_eq_mod, metis d2(1) r_def k drop_drop mult_Suc_right add.commute)
    have r': "r = drop (first + 64 * (length d2 div 64)) d" by (simp add: r_def d2_def add.commute)
    have "sha1_feed s buf (length p) d =
        (case sha1_blocks (tpm_sha1_transform s b) d first of (h', o') \<Rightarrow> (h', buf_put b 0 (drop o' d)))"
      unfolding sha1_feed_def b_def first_def Let_def using True by (simp add: split_def)
    then have e: "s' = absorb tpm_sha1_transform (length d2 div 64) (tpm_sha1_transform s b) d2" "buf' = buf_put b 0 r"
      using f unfolding sha1_blocks_absorb [OF first] prod.case d2(2) r' d2_def [symmetric] by simp_all
    have "length buf' = 64 \<and> take (length r) buf' = r" using e(2) put [of b 0 r] b(2) r(1) by simp
    moreover have "s' = absorb tpm_sha1_transform k s (p @ d)" unfolding e(1) k absorb.simps b(1) d2(1) ..
    ultimately show ?thesis unfolding r(2) [symmetric] by blast
  next
    case False
    then have "k = 0" by (simp add: k_def)
    moreover have "s' = s" "buf' = buf_put buf (length p) d"
      using f False by (auto simp: sha1_feed_def)
    ultimately show ?thesis using put [of buf "length p" d] p False by simp
  qed
qed

lemma sha1_update_feed:
  "tpm_sha1_update c d =
    (let (h, buf) = sha1_feed (sha1_h c) (sha1_buf c) (unat (drop_bit 3 (count_lo c) AND 63)) d;
         lo = count_lo c + of_nat (8 * length d)
     in c\<lparr>sha1_h := h, sha1_buf := buf, count_lo := lo,
          count_hi := (if lo < count_lo c then count_hi c + 1 else count_hi c) + of_nat (length d div 2 ^ 29)\<rparr>)"
  by (simp add: tpm_sha1_update_def sha1_feed_def Let_def split_def)

definition sha1_rep :: "tpm_sha1_ctx \<Rightarrow> u32 list \<Rightarrow> byte list \<Rightarrow> nat \<Rightarrow> bool" where
  "sha1_rep c s p n \<longleftrightarrow> sha1_h c = s \<and> length p = n mod 64 \<and> length (sha1_buf c) = 64
     \<and> take (length p) (sha1_buf c) = p
     \<and> count_lo c = of_nat (8 * n) \<and> count_hi c = of_nat (8 * n div 2 ^ 32)"

interpretation sha1s: hash_stream tpm_sha1_transform sha1_rep "\<lambda>d. True" tpm_sha1_update
proof unfold_locales
  show "length p = n mod 64" if "sha1_rep c s p n" for c s p n using that by (simp add: sha1_rep_def)
  fix c s p n and d :: "byte list"
  assume r: "sha1_rep c s p n"
  let ?k = "(length p + length d) div 64"
  have "length p < 64" using r by (simp add: sha1_rep_def)
  then have p: "length p < 64" "length p = n mod 64" "length (sha1_buf c) = 64" "take (length p) (sha1_buf c) = p" "sha1_h c = s"
    and t: "count_lo c = of_nat (8 * n)" "count_hi c = of_nat (8 * n div 2 ^ 32)"
    using r unfolding sha1_rep_def by blast+
  obtain s' buf' where f: "sha1_feed s (sha1_buf c) (length p) d = (s', buf')" by fastforce
  note fs = sha1_feed_spec [OF p(1,3,4) f]
  have left: "unat (drop_bit 3 (of_nat (8 * n) :: u32) AND 63) = length p" using count_off [of n] p(2) by simp
  have u: "tpm_sha1_update c d = c\<lparr>sha1_h := s', sha1_buf := buf', count_lo := of_nat (8 * (n + length d)),
      count_hi := of_nat (8 * (n + length d) div 2 ^ 32)\<rparr>"
    unfolding sha1_update_feed t left p(5) f Let_def prod.case count_carry by (simp add: distrib_left)
  have "length (drop (64 * ?k) (p @ d)) = (length p + length d) mod 64"
    by (metis length_append length_drop minus_mult_div_eq_mod)
  also have "\<dots> = (n + length d) mod 64" unfolding p(2) by (rule mod_add_left_eq)
  finally have "length (drop (64 * ?k) (p @ d)) = (n + length d) mod 64" .
  then show "sha1_rep (tpm_sha1_update c d) (absorb tpm_sha1_transform ?k s (p @ d)) (drop (64 * ?k) (p @ d)) (n + length d)"
    using fs unfolding u by (simp add: sha1_rep_def)
qed

section \<open>The digest\<close>

definition sha1_digest :: "byte list \<Rightarrow> byte list" where
  "sha1_digest m = concat (map put_be32 (md_hash tpm_sha1_transform sha1_iv m))"

lemma length_transform: "length (tpm_sha1_transform h d) = 5"
  by (simp add: tpm_sha1_transform_def Let_def split_def)

lemma length_absorb_sha1: "length s = 5 \<Longrightarrow> length (absorb tpm_sha1_transform k s d) = 5"
  by (induction k arbitrary: s d) (auto simp: length_transform)

lemma byte_and_ff: "(ucast (w AND 0xff :: u32) :: byte) = ucast w"
proof -
  have m: "(0xff :: u32) = mask 8" by (simp add: mask_eq_exp_minus_1)
  show ?thesis unfolding m by (rule bit_word_eqI) (auto simp: bit_unsigned_iff bit_and_iff bit_mask_iff)
qed

lemma upt20: "[0..<20] = [0, 1, 2, 3, 4, 5, 6, 7, 8, 9, 10, 11, 12, 13, 14, 15, 16, 17, 18, 19]"
  by code_simp

lemma digest_bytes:
  assumes "length h = 5"
  shows "map (\<lambda>d. ucast (drop_bit (8 * (3 - d mod 4)) (h ! (d div 4)) AND 0xff :: u32) :: byte) [0..<20] = concat (map put_be32 h)"
proof -
  obtain a b c d e where "h = [a, b, c, d, e]"
    using assms by (auto simp: numeral_eq_Suc length_Suc_conv)
  then show ?thesis by (simp add: upt20 put_be32_def byte_and_ff)
qed

lemma sha1_seen_fields:
  assumes "sha1s.seen c iv m"
  shows "count_lo c = of_nat (8 * length m)" "count_hi c = of_nat (8 * length m div 2 ^ 32)"
    "sha1_h c = absorb tpm_sha1_transform (length m div 64) iv m"
  using assms unfolding sha1s.seen_def sha1_rep_def by blast+

lemma sha1_pad_loop_ends:
  "sha1s.seen c iv m \<Longrightarrow> k \<le> 63 \<Longrightarrow> (length m + k) mod 64 = 56 \<Longrightarrow>
   \<exists>c'. sha1_pad_loop c = Some c' \<and> sha1s.seen c' iv (m @ replicate k 0)"
proof (induction k arbitrary: c m)
  case 0
  have "count_lo c = of_nat (8 * length m)" by (rule sha1_seen_fields [OF 0(1)])
  then show ?case using 0 count_cond [of "length m"] by (simp add: sha1_pad_loop.simps [of c])
next
  case (Suc k)
  have lo: "count_lo c = of_nat (8 * length m)" by (rule sha1_seen_fields [OF Suc.prems(1)])
  have "length m mod 64 \<noteq> 56"
  proof
    assume "length m mod 64 = 56"
    moreover have "(length m + Suc k) mod 64 = (length m mod 64 + Suc k) mod 64" by (rule mod_add_left_eq [symmetric])
    ultimately have "(56 + Suc k) mod 64 = 56" using Suc.prems(3) by simp
    then show False using Suc.prems(2) by (simp add: mod_if split: if_splits)
  qed
  then have loop: "sha1_pad_loop c = sha1_pad_loop (tpm_sha1_update c [0])"
    using count_cond [of "length m"] lo by (simp add: sha1_pad_loop.simps [of c])
  have "sha1s.seen (tpm_sha1_update c [0]) iv (m @ [0])" using sha1s.seen_update Suc.prems(1) by blast
  then have "\<exists>c'. sha1_pad_loop (tpm_sha1_update c [0]) = Some c' \<and> sha1s.seen c' iv ((m @ [0]) @ replicate k 0)"
    using Suc.prems by (intro Suc.IH) auto
  then show ?case using loop by simp
qed

lemma counter_be64:
  "map (\<lambda>d. ucast (drop_bit (24 - d * 8) (of_nat (8 * n div 2 ^ 32) :: u32) AND 0xff)) [0, 1, 2, 3]
   @ map (\<lambda>d. ucast (drop_bit (24 - d * 8) (of_nat (8 * n) :: u32) AND 0xff)) [0, 1, 2, 3]
   = be64 (of_nat (8 * n))"
proof -
  have bd: "bit (n div 536870912) k \<longleftrightarrow> bit (8 * n) (32 + k)" for k
  proof -
    have "bit (drop_bit 29 n) k \<longleftrightarrow> bit n (29 + k)" by (simp add: bit_drop_bit_eq)
    then show ?thesis by (simp add: drop_bit_eq_div bit_times8)
  qed
  have "ucast (drop_bit 32 (of_nat (8 * n) :: u64)) = (of_nat (8 * n div 2 ^ 32) :: u32)"
    by (rule bit_word_eqI)
      (auto simp: bit_unsigned_iff bit_drop_bit_eq bit_of_nat_word bd simp del: of_nat_mult)
  moreover have "ucast (of_nat (8 * n) :: u64) = (of_nat (8 * n) :: u32)"
    by (rule bit_word_eqI) (auto simp: bit_unsigned_iff bit_of_nat_word simp del: of_nat_mult)
  ultimately show ?thesis by (simp add: be64_def put_be32_def byte_and_ff del: of_nat_mult)
qed

lemma sha1_final_digest:
  assumes "sha1s.seen c sha1_iv m"
  shows "tpm_sha1_final c = Some (sha1_digest m)"
proof -
  let ?n = "length m"
  have t: "count_lo c = of_nat (8 * ?n)" "count_hi c = of_nat (8 * ?n div 2 ^ 32)"
    using sha1_seen_fields [OF assms] by auto
  have "sha1s.seen (tpm_sha1_update c [0x80]) sha1_iv (m @ [0x80])" using sha1s.seen_update assms by blast
  moreover have "pad_zeros ?n \<le> 63" by (auto simp: pad_zeros_def)
  moreover have "(length (m @ [0x80]) + pad_zeros ?n) mod 64 = 56" using pad_mod [of ?n] by simp
  ultimately obtain c1 where c1: "sha1_pad_loop (tpm_sha1_update c [0x80]) = Some c1"
      "sha1s.seen c1 sha1_iv ((m @ [0x80]) @ replicate (pad_zeros ?n) 0)"
    using sha1_pad_loop_ends by blast
  let ?c2 = "tpm_sha1_update c1 (be64 (of_nat (8 * ?n)))"
  have "sha1s.seen ?c2 sha1_iv (((m @ [0x80]) @ replicate (pad_zeros ?n) 0) @ be64 (of_nat (8 * ?n)))"
    by (rule sha1s.seen_update [OF c1(2)]) simp
  from sha1_seen_fields(3) [OF this] have "sha1_h ?c2 = md_hash tpm_sha1_transform sha1_iv m"
    by (simp add: md_hash_def md_pad_def)
  moreover have "length (md_hash tpm_sha1_transform sha1_iv m) = 5"
    by (simp add: md_hash_def length_absorb_sha1 sha1_iv_def)
  ultimately show ?thesis
    unfolding tpm_sha1_final_def t counter_be64 c1(1) Let_def option.case
    by (simp add: digest_bytes sha1_digest_def)
qed

lemma length_sha1_digest: "length (sha1_digest m) = 20"
  by (simp add: sha1_digest_def md_hash_def length_concat length_absorb_sha1 sha1_iv_def put_be32_def
      comp_def sum_list_triv)

lemma calculate_context_sha1_digest:
  assumes "length (sha1_buf ctx0) = 64"
  shows "calculate_context_sha1 ctx0 m = Some (sha1_digest m)"
proof -
  have "sha1s.seen (tpm_sha1_init ctx0) sha1_iv []"
    unfolding sha1s.seen_def using assms by (simp add: sha1_rep_def tpm_sha1_init_def)
  then have "sha1s.seen (tpm_sha1_update (tpm_sha1_init ctx0) m) sha1_iv ([] @ m)"
    by (rule sha1s.seen_update) simp
  then show ?thesis using sha1_final_digest by (simp add: calculate_context_sha1_def)
qed

text \<open>(C32) \<open>calculate_context_sha1\<close> ends, its padding loop included, and gives the SHA-1 digest of the
  message: the padded message compressed block by block with \<open>tpm_sha1_transform\<close>.\<close>

theorem sha1_context_digest:
  assumes "length (sha1_buf ctx0) = 64"
  shows "calculate_context_sha1 ctx0 m = Some (sha1_digest m)"
  using assms by (rule calculate_context_sha1_digest)

theorem sha1_context_digest_witness:
  "calculate_context_sha1 \<lparr>sha1_h = [], count_lo = 5, count_hi = 0, sha1_buf = replicate 64 1\<rparr> [1, 2, 3] = Some (sha1_digest [1, 2, 3])"
  using sha1_context_digest [of "\<lparr>sha1_h = [], count_lo = 5, count_hi = 0, sha1_buf = replicate 64 1\<rparr>" "[1, 2, 3]"] by simp

section \<open>The rounds of the standard\<close>

fun ref_W :: "byte list \<Rightarrow> nat \<Rightarrow> u32" where
  "ref_W data t =
     (if t < 16 then get_be32 data (4 * t)
      else word_rotl 1 (ref_W data (t - 3) XOR ref_W data (t - 8) XOR ref_W data (t - 14) XOR ref_W data (t - 16)))"

declare ref_W.simps [simp del]

definition ref_f :: "nat \<Rightarrow> u32 \<Rightarrow> u32 \<Rightarrow> u32 \<Rightarrow> u32" where
  "ref_f t b c d = (if t < 20 then (b AND c) OR (NOT b AND d) else if t < 40 then b XOR c XOR d
     else if t < 60 then (b AND c) OR (b AND d) OR (c AND d) else b XOR c XOR d)"

definition ref_K :: "nat \<Rightarrow> u32" where
  "ref_K t = (if t < 20 then 0x5A827999 else if t < 40 then 0x6ED9EBA1 else if t < 60 then 0x8F1BBCDC else 0xCA62C1D6)"

definition ref_sha1_round :: "byte list \<Rightarrow> nat \<Rightarrow> sha1_regs \<Rightarrow> sha1_regs" where
  "ref_sha1_round data t = (\<lambda>(a, b, c, d, e).
     (word_rotl 5 a + ref_f t b c d + e + ref_K t + ref_W data t, a, word_rotl 30 b, c, d))"

lemma rol_word_rotl:
  assumes "0 < n" "n < 32"
  shows "rol x n = word_rotl n x"
proof (rule bit_word_eqI)
  fix k :: nat
  assume "k < LENGTH(32)"
  then have k: "k < 32" by simp
  have idx: "(k + (32 - n)) mod 32 = (if n \<le> k then k - n else k + (32 - n))"
    using k assms by (auto simp: mod_if)
  have "bit (rol x n) k \<longleftrightarrow> n \<le> k \<and> bit x (k - n) \<or> bit x (32 - n + k)"
    using k by (auto simp: rol_def bit_or_iff bit_push_bit_iff bit_drop_bit_eq)
  also have "\<dots> \<longleftrightarrow> bit x ((k + (32 - n)) mod 32)"
    unfolding idx using k assms bit_imp_le_length [of x "32 - n + k"] by (auto simp: add.commute)
  also have "\<dots> \<longleftrightarrow> bit (word_rotl n x) k"
    using k assms by (simp add: bit_word_rotl_iff)
  finally show "bit (rol x n) k = bit (word_rotl n x) k" .
qed

lemma macro_f: "fst (sha1_macro t) b c d = ref_f t b c d" "snd (sha1_macro t) = ref_K t"
proof -
  have "F0 b c d = (b AND c) OR (NOT b AND d)" unfolding F0_def
    by (rule bit_word_eqI) (auto simp: bit_simps)
  moreover have "F2 b c d = (b AND c) OR (b AND d) OR (c AND d)" unfolding F2_def
    by (rule bit_word_eqI) (auto simp: bit_simps)
  ultimately show "fst (sha1_macro t) b c d = ref_f t b c d" "snd (sha1_macro t) = ref_K t"
    by (simp_all add: sha1_macro_def ref_f_def ref_K_def F1_def)
qed

lemma swap_le_be:
  fixes i :: nat and b :: "byte list"
  defines "w \<equiv> get_le32 b i"
  shows "drop_bit 24 (w AND 0xff000000) OR drop_bit 8 (w AND 0x00ff0000) OR push_bit 8 (w AND 0x0000ff00)
     OR push_bit 24 (w AND 0x000000ff) = get_be32 b i"
proof (rule bit_word_eqI)
  fix n :: nat
  assume "n < LENGTH(32)"
  then have n32: "n < 32" by simp
  have m: "(0xff000000 :: u32) = push_bit 24 (mask 8)" "(0x00ff0000 :: u32) = push_bit 16 (mask 8)"
    "(0x0000ff00 :: u32) = push_bit 8 (mask 8)" "(0x000000ff :: u32) = mask 8"
    by (simp_all add: mask_eq_exp_minus_1 push_bit_eq_mult)
  have byte: "bit (ucast (x :: byte) :: u32) k \<longleftrightarrow> k < 8 \<and> bit x k" for x k
    using bit_imp_le_length [of x k] by (auto simp: bit_unsigned_iff possible_bit_def)
  obtain q r where n: "n = 8 * q + r" "r < 8" "q < 4"
    using n32 by (metis mult_div_mod_eq mod_less_divisor zero_less_numeral less_mult_imp_div_less
        numeral_times_numeral mult.commute semiring_norm(12) semiring_norm(13))
  from n(3) consider "q = 0" | "q = 1" | "q = 2" | "q = 3" by linarith
  then show "bit (drop_bit 24 (w AND 0xff000000) OR drop_bit 8 (w AND 0x00ff0000) OR push_bit 8 (w AND 0x0000ff00)
     OR push_bit 24 (w AND 0x000000ff)) n = bit (get_be32 b i) n"
    unfolding m w_def get_le32_def get_be32_def
    using n(2) by cases (simp_all add: n(1) bit_or_iff bit_and_iff bit_push_bit_iff bit_drop_bit_eq bit_mask_iff byte)
qed

text \<open>The 16 words in place hold the window \<open>W (i - 16)\<close> to \<open>W (i - 1)\<close> of the schedule.\<close>

definition window :: "byte list \<Rightarrow> nat \<Rightarrow> u32 list \<Rightarrow> bool" where
  "window data i buf \<longleftrightarrow> length buf = 16
     \<and> (\<forall>j<16. buf ! j = (if i \<le> j then get_le32 data (4 * j) else ref_W data (j + 16 * ((i - 1 - j) div 16))))"

lemma window_word:
  assumes "window data i buf" "16 \<le> i" "i - 16 \<le> t" "t < i"
  shows "buf ! (t mod 16) = ref_W data t"
proof -
  have "t mod 16 < 16" "t mod 16 < i" using assms by (simp, metis le_less_trans mod_less_eq_dividend)
  moreover have "t mod 16 + 16 * ((i - 1 - t mod 16) div 16) = t"
  proof -
    define q r where "q = t div 16" and "r = t mod 16"
    have t: "t = 16 * q + r" "r < 16" by (simp_all add: q_def r_def)
    have "(i - 1 - r) div 16 = q" using assms(3,4) t by (intro div_nat_eqI) auto
    then show ?thesis unfolding r_def [symmetric] using t(1) by linarith
  qed
  moreover have "buf ! (t mod 16) = (if i \<le> t mod 16 then get_le32 data (4 * (t mod 16))
      else ref_W data (t mod 16 + 16 * ((i - 1 - t mod 16) div 16)))"
    using assms(1) calculation(1) unfolding window_def by blast
  ultimately show ?thesis by simp
qed

lemma window_set:
  assumes w: "window data i buf"
  shows "window data (i + 1) (buf[i mod 16 := ref_W data i])"
proof -
  have "(buf[i mod 16 := ref_W data i]) ! j =
      (if i + 1 \<le> j then get_le32 data (4 * j) else ref_W data (j + 16 * ((i + 1 - 1 - j) div 16)))" if j: "j < 16" for j
  proof (cases "j = i mod 16")
    case True
    then have "j \<le> i" "j + 16 * ((i - j) div 16) = i"
      by (simp, metis True minus_mod_eq_mult_div mod_less_eq_dividend add.commute le_add_diff_inverse2 nonzero_mult_div_cancel_left zero_neq_numeral)
    moreover have "\<not> Suc i \<le> i mod 16" using mod_less_eq_dividend [of i 16] by linarith
    ultimately show ?thesis using True j w by (simp add: window_def)
  next
    case False
    have "(i - j) div 16 = (i - 1 - j) div 16" if "j < i"
    proof -
      define x where "x = i - 1 - j"
      have x: "i - j = Suc x" "i = j + Suc x" using that by (auto simp: x_def)
      have "Suc x mod 16 \<noteq> 0"
      proof
        assume "Suc x mod 16 = 0"
        then have "i mod 16 = j mod 16" using x(2) by (metis add.right_neutral mod_add_right_eq)
        then show False using False j by simp
      qed
      then show ?thesis unfolding x(1) x_def [symmetric] using div_Suc [of x 16] by simp
    qed
    moreover have "i \<noteq> j" using False j by auto
    ultimately show ?thesis using False j w by (auto simp: window_def nth_list_update)
  qed
  then show ?thesis using w by (simp add: window_def)
qed

lemma window_step:
  assumes w: "window data i buf"
  shows "(if i < 16 then B0 buf i else B1 buf i) = buf[i mod 16 := ref_W data i]"
proof (cases "i < 16")
  case True
  then have "buf ! i = get_le32 data (4 * i)" using w by (simp add: window_def)
  then show ?thesis using True swap_le_be [of data "4 * i"] by (simp add: B0_def ref_W.simps [of data i])
next
  case False
  have word: "buf ! ((i - k) mod 16) = ref_W data (i - k)" if "0 < k" "k \<le> 16" for k
    using False that by (intro window_word [OF w]) auto
  have "i mod 16 = (i - 16) mod 16" using False by (simp add: le_mod_geq)
  then show ?thesis using False word [of 16] word [of 14] word [of 8] word [of 3]
    by (simp add: B1_def ref_W.simps [of data i] rol_word_rotl ac_simps)
qed

lemma sha1_rounds_ref:
  "window data 0 buf \<Longrightarrow> \<exists>b. fold sha1_step [0..<n] (buf, regs) = (b, fold (ref_sha1_round data) [0..<n] regs) \<and> window data n b"
proof (induction n)
  case (Suc n)
  then obtain b where b: "fold sha1_step [0..<n] (buf, regs) = (b, fold (ref_sha1_round data) [0..<n] regs)" "window data n b"
    by blast
  have len: "length b = 16" using b(2) by (simp add: window_def)
  obtain a1 a2 a3 a4 a5 where r: "fold (ref_sha1_round data) [0..<n] regs = (a1, a2, a3, a4, a5)" by (metis prod_cases5)
  have "sha1_step n (b, a1, a2, a3, a4, a5) =
      (b[n mod 16 := ref_W data n], ref_sha1_round data n (a1, a2, a3, a4, a5))"
    using len by (simp add: sha1_step_def window_step [OF b(2)] ref_sha1_round_def macro_f rol_word_rotl Let_def ac_simps)
  then show ?case using b r window_set [OF b(2)] by simp
qed simp

text \<open>(C33) The unrolled SHA-1 rounds, which keep only 16 words of the message schedule and swap the bytes of
  the block in place, are the 80 rounds of the standard on the full schedule.\<close>

theorem tpm_sha1_transform_standard:
  assumes "length h = 5"
  shows "tpm_sha1_transform h data =
    (case fold (ref_sha1_round data) [0..<80] (h ! 0, h ! 1, h ! 2, h ! 3, h ! 4) of
       (a, b, c, d, e) \<Rightarrow> map2 (+) h [a, b, c, d, e])"
proof -
  let ?buf = "map (\<lambda>j. get_le32 data (4 * j)) [0..<16]" and ?r = "(h ! 0, h ! 1, h ! 2, h ! 3, h ! 4)"
  have "window data 0 ?buf" by (simp add: window_def)
  then obtain b where b: "fold sha1_step [0..<80] (?buf, ?r) = (b, fold (ref_sha1_round data) [0..<80] ?r)"
    using sha1_rounds_ref by blast
  obtain x1 x2 x3 x4 x5 where h: "h = [x1, x2, x3, x4, x5]" using assms by (auto simp: numeral_eq_Suc length_Suc_conv)
  show ?thesis unfolding tpm_sha1_transform_def Let_def b by (auto simp: h split: prod.split)
qed

theorem tpm_sha1_transform_standard_witness:
  "length sha1_iv = 5 \<and> tpm_sha1_transform sha1_iv (replicate 64 0) =
    (case fold (ref_sha1_round (replicate 64 0)) [0..<80] (sha1_iv ! 0, sha1_iv ! 1, sha1_iv ! 2, sha1_iv ! 3, sha1_iv ! 4) of
       (a, b, c, d, e) \<Rightarrow> map2 (+) sha1_iv [a, b, c, d, e])"
proof -
  have "length sha1_iv = 5" by (simp add: sha1_iv_def)
  then show ?thesis using tpm_sha1_transform_standard [of sha1_iv "replicate 64 0"] by blast
qed

end
