(* ===== verification/Cube_Radix64.thy ===== *)
theory Cube_Radix64
  imports Cube_Prelude
begin

text \<open>
  The radix-64 text encoding of \<^verbatim>\<open>cubelib/crypto/radix64.c\<close>. The binary buffer and the
  text are byte lists; an encoder loop returns the cells it has written, a decoder returns the
  C result with the bytes it has stored by then.
\<close>

section \<open>Encoding\<close>

text \<open>\<open>radix64_tab\<close>: the 64 characters and \<^verbatim>\<open>'='\<close>.\<close>

definition radix64_tab :: "byte list" where
  "radix64_tab =
    [65, 66, 67, 68, 69, 70, 71, 72, 73, 74, 75, 76, 77, 78, 79, 80, 81, 82, 83, 84, 85, 86, 87, 88, 89, 90,
     97, 98, 99, 100, 101, 102, 103, 104, 105, 106, 107, 108, 109, 110, 111, 112, 113, 114, 115, 116, 117,
     118, 119, 120, 121, 122,
     48, 49, 50, 51, 52, 53, 54, 55, 56, 57, 43, 47, 61]"

text \<open>
  The first loop: three bytes become four six-bit values; a last group of one or two bytes
  leaves the loop by its \<^verbatim>\<open>break\<close>. The list returned is \<^verbatim>\<open>radix64[0..radix64_length-1]\<close>.
\<close>

fun radix64_split :: "byte list \<Rightarrow> byte list" where
  "radix64_split [] = []"
| "radix64_split [b0] = [drop_bit 2 b0, push_bit 4 (b0 mod 4)]"
| "radix64_split [b0, b1] = [drop_bit 2 b0, push_bit 4 (b0 mod 4) + drop_bit 4 b1, push_bit 2 (b1 mod 16)]"
| "radix64_split (b0 # b1 # b2 # bs) =
     [drop_bit 2 b0, push_bit 4 (b0 mod 4) + drop_bit 4 b1, push_bit 2 (b1 mod 16) + drop_bit 6 b2, b2 mod 64]
     @ radix64_split bs"

text \<open>The second loop replaces each value by its character; a NUL ends the text.\<close>

definition bin_to_radix64 :: "byte list \<Rightarrow> byte list \<times> int" where
  "bin_to_radix64 bin =
     (let vs = radix64_split bin
      in (map (\<lambda>v. radix64_tab ! unat v) vs @ [0], int (length vs)))"

section \<open>Decoding\<close>

definition bin_from_radix64_char :: "byte \<Rightarrow> byte" where
  "bin_from_radix64_char c =
     (if 65 \<le> c \<and> c \<le> 90 then c - 65
      else if 97 \<le> c \<and> c \<le> 122 then c - 97 + 26
      else if 48 \<le> c \<and> c \<le> 57 then c - 48 + 26 * 2
      else if c = 43 then 62
      else if c = 47 then 63
      else if c = 61 then 64
      else 0xFF)"

text \<open>
  The loop of \<open>radix64_to_bin\<close> on the text left at \<open>i\<close>: a group of up to four characters is
  translated first, and a bad character returns before the group is stored. \<open>len\<close> is the whole
  length, which the results of the short groups are computed from.
\<close>

fun radix64_join :: "int \<Rightarrow> byte list \<Rightarrow> int \<times> byte list" where
  "radix64_join len text =
     (if text = [] then (len div 4 * 3, [])
      else
        let t = map bin_from_radix64_char (take 4 text)
        in if 0xFF \<in> set t then (- EINVAL, [])
           else
             let b0 = push_bit 2 (t ! 0) + drop_bit 4 (t ! 1);
                 b1 = push_bit 4 (t ! 1) + drop_bit 2 (t ! 2);
                 b2 = push_bit 6 (t ! 2) + t ! 3
             in if length text = 2 then (len div 4 * 3 + 1, [b0])
                else if length text = 3 then (len div 4 * 3 + 2, [b0, b1])
                else (case radix64_join len (drop 4 text) of (r, bs) \<Rightarrow> (r, b0 # b1 # b2 # bs)))"

declare radix64_join.simps [simp del]

definition radix64_to_bin :: "byte list \<Rightarrow> int \<times> byte list" where
  "radix64_to_bin text =
     (if int (length text) mod 4 = 1 then (- EINVAL, []) else radix64_join (int (length text)) text)"

definition bin_to_radix64_len :: "int \<Rightarrow> int" where
  "bin_to_radix64_len len = c_div (len * 4 + 2) 3"

definition radix_to_bin_len :: "int \<Rightarrow> int" where
  "radix_to_bin_len len =
     (if c_mod len 4 = 1 then - EINVAL
      else if c_mod len 4 = 0 then c_div len 4 * 3
      else c_div len 4 * 3 + c_mod len 4 - 1)"

section \<open>Six-bit values\<close>

lemma unat_push_bit_byte: "unat (push_bit k (w :: byte)) = unat w * 2 ^ k mod 256"
  by (simp only: unsigned_push_bit_eq) (simp add: push_bit_eq_mult take_bit_eq_mod)

lemma unat_drop_bit_byte: "unat (drop_bit k (w :: byte)) = unat w div 2 ^ k"
  unfolding unat_drop_bit_eq by (simp only: drop_bit_eq_div)

lemma unat_add_byte: "unat (a + b :: byte) = (unat a + unat b) mod 256"
  by (simp add: unat_word_ariths(1))

lemmas six_bits = unat_push_bit_byte unat_drop_bit_byte unat_add_byte unat_mod_distrib word_unat_eq_iff

text \<open>A byte cut into a high part of \<open>d\<close> possible values and a low part below \<open>k\<close>.\<close>

lemma byte_parts:
  assumes "k * d = 256" "0 < k"
  obtains q r where "unat (b :: byte) = k * q + r" "q < d" "r < k"
proof
  show "unat b = k * (unat b div k) + unat b mod k" by simp
  show "unat b div k < d" using assms unat_byte_less [of b] by (metis less_mult_imp_div_less mult.commute)
  show "unat b mod k < k" using assms by simp
qed

lemma value_bounds:
  fixes b0 b1 b2 :: byte
  shows "unat (drop_bit 2 b0) < 64" "unat (push_bit 4 (b0 mod 4)) < 64" "unat (push_bit 2 (b1 mod 16)) < 64"
    "unat (push_bit 4 (b0 mod 4) + drop_bit 4 b1) < 64" "unat (push_bit 2 (b1 mod 16) + drop_bit 6 b2) < 64"
    "unat (b2 mod 64) < 64"
proof -
  obtain q0 r0 where b0: "unat b0 = 4 * q0 + r0" "q0 < 64" "r0 < 4" by (rule byte_parts [of 4 64]) auto
  obtain q1 r1 where b1: "unat b1 = 16 * q1 + r1" "q1 < 16" "r1 < 16" by (rule byte_parts [of 16 16]) auto
  obtain q2 r2 where b2: "unat b2 = 64 * q2 + r2" "q2 < 4" "r2 < 64" by (rule byte_parts [of 64 4]) auto
  show "unat (drop_bit 2 b0) < 64" "unat (push_bit 4 (b0 mod 4)) < 64" "unat (push_bit 2 (b1 mod 16)) < 64"
    "unat (push_bit 4 (b0 mod 4) + drop_bit 4 b1) < 64" "unat (push_bit 2 (b1 mod 16) + drop_bit 6 b2) < 64"
    "unat (b2 mod 64) < 64"
    using b0 b1 b2 by (simp_all add: six_bits)
qed

lemma join_values:
  fixes b0 b1 b2 :: byte
  shows "push_bit 2 (drop_bit 2 b0) + drop_bit 4 (push_bit 4 (b0 mod 4)) = b0"
    "push_bit 2 (drop_bit 2 b0) + drop_bit 4 (push_bit 4 (b0 mod 4) + drop_bit 4 b1) = b0"
    "push_bit 4 (push_bit 4 (b0 mod 4) + drop_bit 4 b1) + drop_bit 2 (push_bit 2 (b1 mod 16)) = b1"
    "push_bit 4 (push_bit 4 (b0 mod 4) + drop_bit 4 b1) + drop_bit 2 (push_bit 2 (b1 mod 16) + drop_bit 6 b2) = b1"
    "push_bit 6 (push_bit 2 (b1 mod 16) + drop_bit 6 b2) + b2 mod 64 = b2"
proof -
  obtain q0 r0 where b0: "unat b0 = 4 * q0 + r0" "q0 < 64" "r0 < 4" by (rule byte_parts [of 4 64]) auto
  obtain q1 r1 where b1: "unat b1 = 16 * q1 + r1" "q1 < 16" "r1 < 16" by (rule byte_parts [of 16 16]) auto
  obtain q2 r2 where b2: "unat b2 = 64 * q2 + r2" "q2 < 4" "r2 < 64" by (rule byte_parts [of 64 4]) auto
  have low: "(16 * r0 + q1) * 16 mod 256 = 16 * q1" "(4 * r1 + q2) * 64 mod 256 = 64 * q2"
    using mod_mult_self1 [of "16 * q1" r0 256] mod_mult_self1 [of "64 * q2" r1 256] b1 b2
    by (simp_all add: algebra_simps)
  show "push_bit 2 (drop_bit 2 b0) + drop_bit 4 (push_bit 4 (b0 mod 4)) = b0"
    "push_bit 2 (drop_bit 2 b0) + drop_bit 4 (push_bit 4 (b0 mod 4) + drop_bit 4 b1) = b0"
    "push_bit 4 (push_bit 4 (b0 mod 4) + drop_bit 4 b1) + drop_bit 2 (push_bit 2 (b1 mod 16)) = b1"
    "push_bit 4 (push_bit 4 (b0 mod 4) + drop_bit 4 b1) + drop_bit 2 (push_bit 2 (b1 mod 16) + drop_bit 6 b2) = b1"
    "push_bit 6 (push_bit 2 (b1 mod 16) + drop_bit 6 b2) + b2 mod 64 = b2"
    using b0 b1 b2 low by (simp_all add: six_bits mult.commute)
qed

section \<open>The round trip\<close>

lemma tab_inverse:
  assumes "unat v < 64"
  shows "bin_from_radix64_char (radix64_tab ! unat v) = v"
proof -
  have "\<forall>n \<in> set [0..<64]. bin_from_radix64_char (radix64_tab ! n) = of_nat n"
    by code_simp
  with assms have "bin_from_radix64_char (radix64_tab ! unat v) = of_nat (unat v)" by simp
  then show ?thesis by simp
qed

lemma split_bounds: "v \<in> set (radix64_split bin) \<Longrightarrow> unat v < 64"
  by (induction bin rule: radix64_split.induct) (auto simp: value_bounds)

lemma split_inverse:
  "map (\<lambda>v. bin_from_radix64_char (radix64_tab ! unat v)) (radix64_split bin) = radix64_split bin"
  by (rule map_idI) (simp add: tab_inverse split_bounds)

lemma not_FF: "unat (v :: byte) < 64 \<Longrightarrow> v \<noteq> 0xFF"
  by auto

abbreviation radix64_text :: "byte list \<Rightarrow> byte list" where
  "radix64_text bin \<equiv> map (\<lambda>v. radix64_tab ! unat v) (radix64_split bin)"

lemma length_radix64_split: "length (radix64_split bin) = (length bin * 4 + 2) div 3"
  by (induction bin rule: radix64_split.induct) simp_all

lemma join_text:
  "radix64_join len (radix64_text bin) = (len div 4 * 3 + int (length bin mod 3), bin)"
proof (induction bin rule: radix64_split.induct)
  case 1
  then show ?case by (simp add: radix64_join.simps)
next
  case (2 b0)
  show ?case
    by (simp add: radix64_join.simps tab_inverse value_bounds not_FF [THEN not_sym] join_values)
next
  case (3 b0 b1)
  show ?case
    by (simp add: radix64_join.simps tab_inverse value_bounds not_FF [THEN not_sym] join_values)
next
  case (4 b0 b1 b2 bs)
  then show ?case
    by (simp add: radix64_join.simps [of len "_ # _"] tab_inverse value_bounds not_FF [THEN not_sym] join_values)
qed

text \<open>The length of the text, by the remainder of the data.\<close>

lemma text_length_cases:
  obtains (zero) q where "length bin = 3 * q" "length (radix64_split bin) = 4 * q"
  | (one) q where "length bin = 3 * q + 1" "length (radix64_split bin) = 4 * q + 2"
  | (two) q where "length bin = 3 * q + 2" "length (radix64_split bin) = 4 * q + 3"
proof -
  obtain q r where n: "length bin = 3 * q + r" "r < 3"
    by (metis mod_less_divisor mult_div_mod_eq zero_less_numeral)
  then consider "r = 0" | "r = 1" | "r = 2" by linarith
  then show ?thesis using n that by cases (auto simp: length_radix64_split)
qed

lemma radix_to_bin_len_split: "radix_to_bin_len (int (length (radix64_split bin))) = int (length bin)"
  by (rule text_length_cases [of bin]) (simp_all add: radix_to_bin_len_def)

lemma radix64_to_bin_text: "radix64_to_bin (radix64_text bin) = (int (length bin), bin)"
  by (rule text_length_cases [of bin]) (simp_all add: radix64_to_bin_def join_text, presburger)

text \<open>(C36) 
  Decoding the text that \<open>bin_to_radix64\<close> produces, over the length it returns (the NUL is not
  counted), gives back the binary data and its length, whatever the data; the two length
  functions predict the sizes.
\<close>

theorem radix64_roundtrip:
  "\<exists>text n. bin_to_radix64 bin = (text @ [0], n) \<and> n = int (length text)
     \<and> n = bin_to_radix64_len (int (length bin)) \<and> radix_to_bin_len n = int (length bin)
     \<and> set text \<subseteq> set (take 64 radix64_tab)
     \<and> radix64_to_bin text = (int (length bin), bin)"
proof (intro exI conjI)
  show "bin_to_radix64 bin = (radix64_text bin @ [0], int (length (radix64_split bin)))"
    by (simp add: bin_to_radix64_def Let_def)
  show "int (length (radix64_split bin)) = int (length (radix64_text bin))" by simp
  let ?n = "length bin"
  show "int (length (radix64_split bin)) = bin_to_radix64_len (int ?n)"
    by (simp add: bin_to_radix64_len_def length_radix64_split zdiv_int)
  show "radix_to_bin_len (int (length (radix64_split bin))) = int ?n"
    by (rule radix_to_bin_len_split)
  show "set (radix64_text bin) \<subseteq> set (take 64 radix64_tab)"
  proof
    fix c assume "c \<in> set (radix64_text bin)"
    then obtain v where "v \<in> set (radix64_split bin)" "c = radix64_tab ! unat v" by auto
    moreover have "length radix64_tab = 65" by (simp add: radix64_tab_def)
    ultimately show "c \<in> set (take 64 radix64_tab)"
      using split_bounds [of v bin] by (auto simp: in_set_conv_nth intro: exI [of _ "unat v"])
  qed
  show "radix64_to_bin (radix64_text bin) = (int ?n, bin)"
    by (rule radix64_to_bin_text)
qed

section \<open>Rejected texts\<close>

definition radix64_char :: "byte \<Rightarrow> bool" where
  "radix64_char c \<longleftrightarrow> 65 \<le> c \<and> c \<le> 90 \<or> 97 \<le> c \<and> c \<le> 122 \<or> 48 \<le> c \<and> c \<le> 57 \<or> c \<in> {43, 47, 61}"

lemma radix64_char_ok: "bin_from_radix64_char c = 0xFF \<longleftrightarrow> \<not> radix64_char c"
  by (auto simp: bin_from_radix64_char_def radix64_char_def diff_eq_eq diff_add_eq)

lemma FF_in_map: "0xFF \<in> set (map bin_from_radix64_char cs) \<longleftrightarrow> \<not> list_all radix64_char cs"
  by (induction cs) (auto simp: radix64_char_ok [symmetric])

lemma join_reject:
  "0 \<le> len \<Longrightarrow> fst (radix64_join len tx) = -22 \<longleftrightarrow> \<not> list_all radix64_char tx"
proof (induction len tx rule: radix64_join.induct)
  case (1 len tx)
  have pos: "len div 4 * 3 \<noteq> -22" "len div 4 * 3 + 1 \<noteq> -22" "len div 4 * 3 + 2 \<noteq> -22"
    using "1.prems" by (simp_all add: pos_imp_zdiv_nonneg_iff)
  have all: "list_all radix64_char tx \<longleftrightarrow> list_all radix64_char (take 4 tx) \<and> list_all radix64_char (drop 4 tx)"
    by (metis append_take_drop_id list_all_append)
  consider "tx = []" | "tx \<noteq> []" "0xFF \<in> set (map bin_from_radix64_char (take 4 tx))"
    | "tx \<noteq> []" "0xFF \<notin> set (map bin_from_radix64_char (take 4 tx))" by blast
  then show ?case
  proof cases
    case 1
    then show ?thesis using pos by (simp add: radix64_join.simps)
  next
    case 2
    then show ?thesis using all
      unfolding radix64_join.simps [of len tx] FF_in_map Let_def by simp
  next
    case 3
    have short: "drop 4 tx = []" if "length tx = 2 \<or> length tx = 3" using that by auto
    have rest: "fst (radix64_join len (drop 4 tx)) = -22 \<longleftrightarrow> \<not> list_all radix64_char (drop 4 tx)"
      if "length tx \<noteq> 2" "length tx \<noteq> 3"
      using "1.IH" 3 that "1.prems" by blast
    have ok: "list_all radix64_char (take 4 tx)" using 3 unfolding FF_in_map by blast
    show ?thesis using 3(1) ok all pos short rest
      unfolding radix64_join.simps [of len tx] FF_in_map Let_def
      by (auto split: prod.splits)
  qed
qed

text \<open>
  The decoder answers \<^verbatim>\<open>-EINVAL\<close> exactly when the text has a length no encoding has, or contains a
  character that is no letter, digit, plus, slash or equals sign; the equals sign is decoded as the value 64.
\<close>

theorem radix64_to_bin_rejects:
  "fst (radix64_to_bin tx) = -22 \<longleftrightarrow> length tx mod 4 = 1 \<or> list_ex (\<lambda>c. \<not> radix64_char c) tx"
proof -
  have "int (length tx) mod 4 = 1 \<longleftrightarrow> length tx mod 4 = 1"
    by (metis of_nat_1 of_nat_eq_iff of_nat_numeral zmod_int)
  then show ?thesis using join_reject [of "int (length tx)" tx] by (auto simp: radix64_to_bin_def list_ex_iff list_all_iff)
qed

end
