(* ===== verification/Cube_Crypto.thy ===== *)
theory Cube_Crypto
  imports Cube_SM4 Cube_SM3 Cube_SHA1 Cube_Radix64
begin

text \<open>
  The helpers of \<^verbatim>\<open>cubelib/crypto/crypto_func.c\<close> on top of the primitives: digests as text
  uuids, the PCR extension, the uuid of a process, and password encryption of data and of text.
  Buffers are byte lists, strings are lists without their NUL. An uninitialised object of the
  stack is an argument of its function, and so is whether an allocation succeeds.
\<close>

section \<open>Digests and uuids\<close>

text \<open>The inner loop of \<open>digest_to_uuid\<close>: two digits of one byte.\<close>

definition uuid_digit :: "byte \<Rightarrow> byte" where
  "uuid_digit tempdata = (if tempdata > 9 then tempdata - 10 + 97 else tempdata + 48)"

fun digest_to_uuid :: "nat \<Rightarrow> byte list \<Rightarrow> byte list" where
  "digest_to_uuid 0 digest = []"
| "digest_to_uuid (Suc n) digest =
     (let char_value = hd digest
      in uuid_digit (drop_bit 4 char_value) # uuid_digit (drop_bit 4 (push_bit 4 char_value))
         # digest_to_uuid n (tl digest))"

definition uuid_digit_value :: "byte \<Rightarrow> byte option" where
  "uuid_digit_value c =
     (if 48 \<le> c \<and> c \<le> 57 then Some (c - 48)
      else if 97 \<le> c \<and> c \<le> 102 then Some (c - 97 + 10)
      else if 65 \<le> c \<and> c \<le> 70 then Some (c - 65 + 10)
      else None)"

text \<open>
  \<open>uuid_to_digest\<close> over \<open>k\<close> characters from index \<open>i\<close>; the digest is updated in place and keeps
  what a rejected text has stored already.
\<close>

fun uuid_to_digest_loop :: "nat \<Rightarrow> nat \<Rightarrow> byte list \<Rightarrow> byte list \<Rightarrow> byte list \<times> int" where
  "uuid_to_digest_loop 0 i uuid digest = (digest, 0)"
| "uuid_to_digest_loop (Suc k) i uuid digest =
     (case uuid_digit_value (uuid ! i) of
        None \<Rightarrow> (digest, - EINVAL)
      | Some char_value \<Rightarrow>
          uuid_to_digest_loop k (i + 1) uuid
            (digest[i div 2 := if i mod 2 = 0 then push_bit 4 char_value
                               else digest ! (i div 2) + char_value]))"

definition uuid_to_digest :: "byte list \<Rightarrow> byte list \<Rightarrow> byte list \<times> int" where
  "uuid_to_digest uuid digest = uuid_to_digest_loop (DIGEST_SIZE * 2) 0 uuid digest"

abbreviation (input) PCR_SIZE :: nat where "PCR_SIZE \<equiv> 20"

definition extend_pcr_sm3digest :: "tpm_sha1_ctx \<Rightarrow> byte list \<Rightarrow> byte list \<Rightarrow> byte list option" where
  "extend_pcr_sm3digest ctx0 pcr_value sm3digest =
     (let buffer = take PCR_SIZE pcr_value @ take DIGEST_SIZE sm3digest
      in map_option (\<lambda>digest. take PCR_SIZE digest @ drop PCR_SIZE pcr_value)
           (calculate_context_sha1 ctx0 buffer))"

definition comp_proc_uuid :: "sm3_context_ext \<Rightarrow> byte list \<Rightarrow> byte list option \<Rightarrow> byte list" where
  "comp_proc_uuid ctx0 dev_uuid name =
     (let buffer = buf_put (replicate (DIGEST_SIZE * 2) 0) 0 (take DIGEST_SIZE dev_uuid);
          buffer = (case name of
                      None \<Rightarrow> buffer
                    | Some s \<Rightarrow>
                        if length s < DIGEST_SIZE then buf_put buffer DIGEST_SIZE s
                        else buf_put buffer DIGEST_SIZE (take DIGEST_SIZE s))
      in calculate_context_sm3 ctx0 buffer)"

section \<open>Password encryption\<close>

text \<open>\<open>memset\<close> and \<open>strncpy\<close> into the 32 bytes of \<open>keypass\<close>.\<close>

definition keypass_of :: "byte list \<Rightarrow> byte list" where
  "keypass_of passwd = buf_put (replicate DIGEST_SIZE 0) 0 (take DIGEST_SIZE passwd)"

definition crypt_iv :: "byte list" where
  "crypt_iv = [0x01, 0x23, 0x45, 0x67, 0x89, 0xab, 0xcd, 0xef, 0xfe, 0xdc, 0xba, 0x98, 0x76, 0x54, 0x32, 0x10]"

text \<open>\<open>for(i=0;i<=size-16;i+=16)\<close>: the whole blocks, one call of \<open>sm4_crypt_ecb\<close> each.\<close>

fun sm4_block_loop :: "sm4_context \<Rightarrow> nat \<Rightarrow> byte list \<Rightarrow> byte list" where
  "sm4_block_loop ctx 0 input = []"
| "sm4_block_loop ctx (Suc n) input = sm4_crypt_ecb ctx 1 16 input @ sm4_block_loop ctx n (drop 16 input)"

text \<open>\<open>for(;i<out_size;i++)\<close>: the bytes after the last whole block.\<close>

definition xor_tail :: "byte list \<Rightarrow> byte list" where
  "xor_tail input =
     map (\<lambda>i. input ! i XOR crypt_iv ! (i mod 16)) [length input div 16 * 16..<length input]"

definition sm4_context_crypt :: "bool \<Rightarrow> byte list \<Rightarrow> byte list \<Rightarrow> int \<times> byte list option" where
  "sm4_context_crypt malloc_ok input passwd =
     (if int (length input) \<le> 0 then (- EINVAL, None)
      else if \<not> malloc_ok then (- ENOMEM, None)
      else let ctx = sm4_setkey_enc (keypass_of passwd)
           in (int (length input), Some (sm4_block_loop ctx (length input div 16) input @ xor_tail input)))"

definition sm4_context_decrypt :: "bool \<Rightarrow> byte list \<Rightarrow> byte list \<Rightarrow> int \<times> byte list option" where
  "sm4_context_decrypt malloc_ok input passwd =
     (if int (length input) \<le> 0 then (- EINVAL, None)
      else if \<not> malloc_ok then (- ENOMEM, None)
      else let ctx = sm4_setkey_dec (keypass_of passwd)
           in (int (length input), Some (sm4_block_loop ctx (length input div 16) input @ xor_tail input)))"

definition sm4_data_prepare :: "byte list \<Rightarrow> int \<times> byte list" where
  "sm4_data_prepare input_data =
     (let pad_len = 16 - length input_data mod 16
      in (int (length input_data + pad_len), input_data @ replicate pad_len (of_nat pad_len)))"

definition sm4_data_recover :: "byte list \<Rightarrow> int \<times> byte list" where
  "sm4_data_recover input_data =
     (let pad_value = last input_data
      in if unat pad_value \<ge> 16 then (- EINVAL, [])
         else let output_len = int (length input_data) - int (unat pad_value)
              in (output_len, take (nat output_len) input_data))"

definition sm4_text_crypt :: "bool \<Rightarrow> bool \<Rightarrow> byte list \<Rightarrow> byte list \<Rightarrow> int \<times> byte list option" where
  "sm4_text_crypt dalloc_ok talloc_ok input passwd =
     (let in_size = int (length input) + 1
      in if in_size = 0 then (0, None)
         else
           let crypt_size = (in_size div 16 + 1) * 16;
               out_size = bin_to_radix64_len crypt_size + 1
           in if \<not> dalloc_ok then (- EINVAL, None)
              else if \<not> talloc_ok then (- EINVAL, None)
              else
                let (ret, output_buf) = sm4_data_prepare (input @ [0])
                in if ret \<noteq> crypt_size then (- EINVAL, None)
                   else
                     let ctx = sm4_setkey_enc (keypass_of passwd);
                         crypt_buf = sm4_block_loop ctx (nat crypt_size div 16) output_buf;
                         (output_buf, ret) = bin_to_radix64 crypt_buf
                     in if ret \<noteq> out_size - 1 then (- EINVAL, None)
                        else (out_size, Some (output_buf[nat out_size - 1 := 0])))"

text \<open>
  \<open>sm4_text_decrypt\<close> as it stands: \<open>crypt_buf\<close> is the zeroed block of \<open>Talloc0\<close> and \<open>keypass\<close> whatever
  the stack holds; neither \<open>input\<close> nor \<open>passwd\<close> is read beyond the length of the former.
\<close>

definition sm4_text_decrypt ::
  "bool \<Rightarrow> bool \<Rightarrow> byte list \<Rightarrow> byte list \<Rightarrow> byte list \<Rightarrow> int \<times> byte list option" where
  "sm4_text_decrypt talloc_ok dalloc_ok keypass input passwd =
     (let in_size = int (length input)
      in if in_size = 0 then (0, None)
         else
           let crypt_size = radix_to_bin_len in_size
           in if c_mod crypt_size 16 \<noteq> 0 then (- EINVAL, None)
              else if \<not> talloc_ok then (- EINVAL, None)
              else
                let crypt_buf = replicate (nat crypt_size) 0;
                    ctx = sm4_setkey_dec keypass;
                    decrypt_buf = sm4_block_loop ctx (nat crypt_size div 16) crypt_buf;
                    (ret, crypt_buf) = sm4_data_recover decrypt_buf
                in if ret < 0 then (ret, None)
                   else if \<not> dalloc_ok then (- ENOMEM, None)
                   else (ret, Some (take (nat ret) crypt_buf)))"

section \<open>Uuids\<close>

lemma uuid_digit_inverse: "unat v < 16 \<Longrightarrow> uuid_digit_value (uuid_digit v) = Some v"
proof -
  assume "unat v < 16"
  moreover have "\<forall>n \<in> set [0..<16]. uuid_digit_value (uuid_digit (of_nat n)) = Some (of_nat n)" by code_simp
  ultimately have "uuid_digit_value (uuid_digit (of_nat (unat v))) = Some (of_nat (unat v))"
    by (metis atLeast_upt lessThan_iff)
  then show ?thesis by simp
qed

lemma length_digest_to_uuid [simp]: "length (digest_to_uuid n d) = 2 * n"
  by (induction n arbitrary: d) (auto simp: Let_def)

lemma digest_to_uuid_nth:
  "i < n \<Longrightarrow> length d = n \<Longrightarrow>
   digest_to_uuid n d ! (2 * i) = uuid_digit (drop_bit 4 (d ! i)) \<and>
   digest_to_uuid n d ! (2 * i + 1) = uuid_digit (drop_bit 4 (push_bit 4 (d ! i)))"
proof (induction n arbitrary: d i)
  case (Suc n)
  then obtain a as where "d = a # as" by (cases d) auto
  then show ?case using Suc by (cases i) (auto simp: Let_def)
qed simp

lemma nibbles:
  fixes b :: byte
  shows "unat (drop_bit 4 b) < 16" "unat (drop_bit 4 (push_bit 4 b)) < 16"
    "push_bit 4 (drop_bit 4 b) + drop_bit 4 (push_bit 4 b) = b"
proof -
  obtain q r where b: "unat b = 16 * q + r" "q < 16" "r < 16" by (rule byte_parts [of 16 16]) auto
  have "(16 * q + r) * 16 mod 256 = 16 * r"
    using mod_mult_self1 [of "16 * r" q 256] b by (simp add: algebra_simps)
  then show "unat (drop_bit 4 b) < 16" "unat (drop_bit 4 (push_bit 4 b)) < 16"
    "push_bit 4 (drop_bit 4 b) + drop_bit 4 (push_bit 4 b) = b"
    using b by (simp_all add: six_bits)
qed

lemma uuid_to_digest_step:
  assumes "length d = n" "length old = n" "i < n"
    and "\<And>j. j < 2 * n \<Longrightarrow> uuid ! j = digest_to_uuid n d ! j"
  shows "uuid_to_digest_loop (Suc (Suc k)) (2 * i) uuid (take i d @ drop i old)
    = uuid_to_digest_loop k (2 * (i + 1)) uuid (take (i + 1) d @ drop (i + 1) old)"
proof -
  have u: "uuid_digit_value (uuid ! (2 * i)) = Some (drop_bit 4 (d ! i))"
    "uuid_digit_value (uuid ! (Suc (2 * i))) = Some (drop_bit 4 (push_bit 4 (d ! i)))"
    using assms digest_to_uuid_nth [of i n d] uuid_digit_inverse nibbles by auto
  have at: "(take i d @ drop i old)[i := x] = take i d @ x # drop (i + 1) old" for x
    using assms by (simp add: list_update_append Cons_nth_drop_Suc [symmetric])
  have "(take i d @ x # drop (i + 1) old)[i := y] = take i d @ y # drop (i + 1) old" for x y
    using assms by (simp add: list_update_append)
  moreover have "(take i d @ x # drop (i + 1) old) ! i = x" for x
    using assms by (simp add: nth_append)
  moreover have "take (i + 1) d = take i d @ [d ! i]" using assms by (simp add: take_Suc_conv_app_nth)
  ultimately show ?thesis using u nibbles at by simp
qed

lemma uuid_to_digest_loop_inverse:
  assumes "length d = n" "length old = n"
    and "\<And>j. j < 2 * n \<Longrightarrow> uuid ! j = digest_to_uuid n d ! j"
  shows "i + k = n \<Longrightarrow> uuid_to_digest_loop (2 * k) (2 * i) uuid (take i d @ drop i old) = (d, 0)"
proof (induction k arbitrary: i)
  case 0
  then show ?case using assms by simp
next
  case (Suc k)
  then have "uuid_to_digest_loop (2 * k) (2 * (i + 1)) uuid (take (i + 1) d @ drop (i + 1) old) = (d, 0)"
    by (intro Suc.IH) simp
  moreover have "2 * Suc k = Suc (Suc (2 * k))" "i < n" using Suc.prems by simp_all
  ultimately show ?case using uuid_to_digest_step [OF assms(1,2) _ assms(3)] by simp
qed

text \<open>
  A digest written as a 64-character uuid and read back is the same digest, whatever the target
  held and whatever follows the uuid.
\<close>

theorem uuid_digest_roundtrip:
  assumes "length digest = DIGEST_SIZE" "length old = DIGEST_SIZE"
  shows "uuid_to_digest (digest_to_uuid DIGEST_SIZE digest @ rest) old = (digest, 0)"
  using uuid_to_digest_loop_inverse [of digest 32 old "digest_to_uuid 32 digest @ rest" 0 32] assms
  by (simp add: uuid_to_digest_def nth_append)

theorem uuid_digest_roundtrip_witness:
  "uuid_to_digest (digest_to_uuid DIGEST_SIZE (replicate 32 0xa7) @ [33]) (replicate 32 1) = (replicate 32 0xa7, 0)"
  by (rule uuid_digest_roundtrip) simp_all

text \<open>
  Extending a PCR replaces its 20 bytes by the SHA-1 digest of the old value followed by the
  32 bytes of the SM3 digest.
\<close>

theorem extend_pcr_digest:
  assumes "length (sha1_buf ctx0) = 64" "length pcr = PCR_SIZE" "length d = DIGEST_SIZE"
  shows "extend_pcr_sm3digest ctx0 pcr d = Some (sha1_digest (pcr @ d)) \<and> length (sha1_digest (pcr @ d)) = PCR_SIZE"
  using assms calculate_context_sha1_digest [of ctx0 "pcr @ d"] length_sha1_digest
  by (simp add: extend_pcr_sm3digest_def)

theorem extend_pcr_digest_witness:
  "extend_pcr_sm3digest \<lparr>sha1_h = [], count_lo = 0, count_hi = 0, sha1_buf = replicate 64 1\<rparr> (replicate 20 2) (replicate 32 3)
   = Some (sha1_digest (replicate 20 2 @ replicate 32 3))"
  using extend_pcr_digest [of "\<lparr>sha1_h = [], count_lo = 0, count_hi = 0, sha1_buf = replicate 64 1\<rparr>"
    "replicate 20 2" "replicate 32 3"] by simp

text \<open>
  The uuid of a process is the SM3 digest of the device uuid followed by the first 32 bytes of the
  name, filled up with NULs.
\<close>

theorem comp_proc_uuid_digest:
  assumes "length (sm3_buffer ctx0) = 64" "length dev = DIGEST_SIZE"
  shows "comp_proc_uuid ctx0 dev name
    = sm3_digest (dev @ take DIGEST_SIZE (case_option [] id name @ replicate DIGEST_SIZE 0))"
proof -
  have *: "buf_put (buf_put (replicate 64 0) 0 dev) 32 s = dev @ s @ replicate (32 - length s) 0"
    if "length s \<le> 32" for s :: "byte list"
    using that assms(2) by (simp add: buf_put_def)
  have "buf_put (replicate 64 0) 0 dev = dev @ replicate 32 0"
    using assms(2) by (simp add: buf_put_def)
  then show ?thesis using * [of "the name"] * [of "take 32 (the name)"] assms
    by (cases name) (simp_all add: comp_proc_uuid_def Let_def calculate_context_sm3_digest)
qed

theorem comp_proc_uuid_digest_witness:
  "comp_proc_uuid \<lparr>sm3_total0 = 0, sm3_total1 = 0, sm3_state = [], sm3_buffer = replicate 64 0, sm3_ipad = [], sm3_opad = []\<rparr>
     (replicate 32 5) (Some [97, 98]) = sm3_digest (replicate 32 5 @ [97, 98] @ replicate 30 0)"
  using comp_proc_uuid_digest [of "\<lparr>sm3_total0 = 0, sm3_total1 = 0, sm3_state = [], sm3_buffer = replicate 64 0,
    sm3_ipad = [], sm3_opad = []\<rparr>" "replicate 32 5" "Some [97, 98]"] by (simp add: id_def)

section \<open>Password encryption\<close>

lemma pad_to_blocks: "n + (16 - n mod 16) = 16 * (n div 16 + 1)" for n :: nat
proof -
  obtain q r where "n = 16 * q + r" "r < 16"
    by (metis mod_less_divisor mult_div_mod_eq zero_less_numeral)
  then show ?thesis by simp
qed

lemma block_call: "length b = 16 \<Longrightarrow> sm4_crypt_ecb ctx 1 16 (b @ bs) = sm4_one_round (sm4_sk ctx) b"
  using ecb_step [of b ctx 1 0 bs] ecb_zero by simp

lemma length_block_call: "length (sm4_crypt_ecb ctx 1 16 xs) = 16"
  by (simp add: sm4_crypt_ecb.simps)

lemma length_sm4_block_loop: "length (sm4_block_loop ctx n xs) = 16 * n"
  by (induction n arbitrary: xs) (simp_all add: length_block_call)

lemma sm4_block_loop_inverse:
  assumes "length xs = 16 * n"
  shows "sm4_block_loop (sm4_setkey_dec key) n (sm4_block_loop (sm4_setkey_enc key) n (xs @ ys) @ zs) = xs"
  using assms
proof (induction n xs rule: blocks_induct)
  case (step n b bs)
  then show ?case by (simp add: block_call sm4_dec_enc_block)
qed simp

lemma length_xor_tail: "length (xor_tail xs) = length xs mod 16"
  by (simp add: xor_tail_def minus_div_mult_eq_mod)

lemma xor_tail_append:
  assumes "length xs = 16 * n" "length ys < 16"
  shows "xor_tail (xs @ ys) = map (\<lambda>i. ys ! i XOR crypt_iv ! i) [0..<length ys]"
proof -
  have 1: "length (xs @ ys) div 16 * 16 = n * 16" "length (xs @ ys) = length ys + n * 16" using assms by simp_all
  show ?thesis unfolding xor_tail_def 1 using assms by (intro nth_equalityI) (simp_all add: nth_append)
qed

lemma xor_tail_inverse:
  assumes "length xs = 16 * n" "length xs' = 16 * n" "length ys < 16"
  shows "xor_tail (xs' @ xor_tail (xs @ ys)) = ys"
  using assms length_xor_tail [of "xs @ ys"]
  by (subst xor_tail_append) (auto simp: xor_tail_append ac_simps intro: nth_equalityI)

text \<open>(C37) 
  Decrypting with the password data was encrypted with gives the data back, of any length from
  one byte on: whole blocks through the cipher, the bytes after the last one through the mask.
\<close>

theorem sm4_context_roundtrip:
  assumes "data \<noteq> []"
  shows "\<exists>out. sm4_context_crypt True data passwd = (int (length data), Some out) \<and> length out = length data
     \<and> sm4_context_decrypt True out passwd = (int (length data), Some data)"
proof -
  let ?n = "length data div 16" and ?key = "keypass_of passwd"
  define xs ys where "xs = take (16 * ?n) data" "ys = drop (16 * ?n) data"
  have data: "data = xs @ ys" "length xs = 16 * ?n" "length ys < 16"
    by (simp_all add: xs_ys_def minus_mult_div_eq_mod min_absorb2)
  let ?out = "sm4_block_loop (sm4_setkey_enc ?key) ?n data @ xor_tail data"
  have len: "length ?out = length data" by (simp add: length_sm4_block_loop length_xor_tail)
  have "sm4_block_loop (sm4_setkey_dec ?key) ?n ?out = xs"
    using sm4_block_loop_inverse [of xs ?n ?key ys] data by metis
  moreover have "xor_tail ?out = ys"
    using xor_tail_inverse [of xs ?n "sm4_block_loop (sm4_setkey_enc ?key) ?n data" ys] data
    by (metis length_sm4_block_loop)
  ultimately have "sm4_context_decrypt True ?out passwd = (int (length data), Some data)"
    using assms len data(1) [symmetric] by (simp add: sm4_context_decrypt_def)
  then show ?thesis using len assms by (auto simp: sm4_context_crypt_def Let_def)
qed

theorem sm4_context_roundtrip_witness:
  "\<exists>out. sm4_context_crypt True (replicate 20 7) [112, 119] = (20, Some out) \<and> length out = 20
     \<and> sm4_context_decrypt True out [112, 119] = (20, Some (replicate 20 7))"
  using sm4_context_roundtrip [of "replicate 20 7" "[112, 119]"] by simp

text \<open>
  Padding is undone by \<open>sm4_data_recover\<close> when the data does not fill its last block; data of whole
  blocks gets sixteen bytes of value 16, which \<open>sm4_data_recover\<close> rejects.
\<close>

theorem sm4_data_padding:
  "sm4_data_recover (snd (sm4_data_prepare xs))
     = (if length xs mod 16 = 0 then (- EINVAL, []) else (int (length xs), xs))"
proof -
  let ?p = "16 - length xs mod 16"
  have p: "0 < ?p" "?p \<le> 16" "length xs mod 16 < 16" by simp_all
  have u: "unat (of_nat ?p :: byte) = ?p" unfolding unat_of_nat using p by simp
  have l: "last (xs @ replicate ?p (of_nat ?p)) = (of_nat ?p :: byte)" using p by simp
  show ?thesis using p u l
    unfolding sm4_data_recover_def sm4_data_prepare_def Let_def snd_conv l u by auto
qed

text \<open>
  \<open>sm4_text_crypt\<close> always succeeds when its two allocations do: its output is a NUL-terminated radix-64
  text, the returned size counts the NUL, and decoding, decrypting and unpadding that text yields the
  input string with its NUL, except when string and NUL fill whole blocks.
\<close>

theorem sm4_text_crypt_decodes:
  "\<exists>tx bin. sm4_text_crypt True True input passwd = (int (length tx) + 1, Some (tx @ [0]))
     \<and> radix64_to_bin tx = (int (length bin), bin) \<and> length bin mod 16 = 0
     \<and> sm4_block_loop (sm4_setkey_dec (keypass_of passwd)) (length bin div 16) bin
         = snd (sm4_data_prepare (input @ [0]))"
proof -
  let ?in = "input @ [0]"
  define n where "n = length ?in div 16 + 1"
  have "length ?in + (16 - length ?in mod 16) = 16 * n"
    unfolding n_def by (rule pad_to_blocks)
  then have prep: "sm4_data_prepare ?in = (int (16 * n), snd (sm4_data_prepare ?in))"
      "length (snd (sm4_data_prepare ?in)) = 16 * n"
    by (simp_all add: sm4_data_prepare_def Let_def)
  let ?c = "sm4_block_loop (sm4_setkey_enc (keypass_of passwd)) n (snd (sm4_data_prepare ?in))"
  let ?tx = "radix64_text ?c"
  have lc: "length ?c = 16 * n" by (rule length_sm4_block_loop)
  have lt: "int (length (radix64_split ?c)) = bin_to_radix64_len (int (16 * n))"
    using lc by (simp add: bin_to_radix64_len_def length_radix64_split zdiv_int)
  have csz: "((int (length input) + 1) div 16 + 1) * 16 = int (16 * n)"
    by (simp add: n_def zdiv_int)
  have len: "bin_to_radix64_len (16 * int n) = int (length ?tx)" using lt by simp
  have enc: "bin_to_radix64 ?c = (?tx @ [0], int (length ?tx))"
    by (simp add: bin_to_radix64_def Let_def)
  have "nat (int (length ?tx) + 1) - 1 = length ?tx" by simp
  then have nul: "(?tx @ [0])[nat (int (length ?tx) + 1) - 1 := 0] = ?tx @ [0]"
    by (simp only: list_update_length)
  have "nat (int (16 * n)) div 16 = n" by simp
  then have "sm4_text_crypt True True input passwd = (int (length ?tx) + 1, Some (?tx @ [0]))"
    unfolding sm4_text_crypt_def Let_def csz
    by (subst prep(1)) (simp add: enc nul len del: length_map One_nat_def)
  moreover have "sm4_block_loop (sm4_setkey_dec (keypass_of passwd)) (length ?c div 16) ?c
      = snd (sm4_data_prepare ?in)"
    using sm4_block_loop_inverse [OF prep(2), of "keypass_of passwd" "[]" "[]"] lc by simp
  ultimately show ?thesis using radix64_to_bin_text [of ?c] lc by (intro exI [of _ ?tx] exI [of _ ?c]) simp
qed

text \<open>
  \<open>sm4_text_decrypt\<close> does not decrypt: its result depends on the length of its input and on the bytes the
  stack held, not on the text and not on the password.
\<close>

theorem sm4_text_decrypt_ignores_input:
  assumes "length input = length input'"
  shows "sm4_text_decrypt talloc_ok dalloc_ok keypass input passwd
    = sm4_text_decrypt talloc_ok dalloc_ok keypass input' passwd'"
  using assms by (simp add: sm4_text_decrypt_def)

theorem sm4_text_decrypt_ignores_input_witness:
  "sm4_text_decrypt True True (replicate 32 0) [65, 66] [1] = sm4_text_decrypt True True (replicate 32 0) [67, 68] [2]"
  by (rule sm4_text_decrypt_ignores_input) simp

end
