(* ===== verification/Cube_Msgqueue.thy ===== *)
theory Cube_Msgqueue
  imports Cube_List Cube_Prelude
begin

text \<open>
  The message queue of an extension module, \<^verbatim>\<open>cubelib/ex_module/sec_msgqueue.c\<close>: a ring of
  record nodes with a counter and a state. Each call runs its body under the queue's lock, so
  the operations are the atomic steps. The results of \<^verbatim>\<open>malloc\<close> and of the lock functions are
  arguments.
\<close>

section \<open>Operations\<close>

record 'a mqueue =
  mq_heap :: "'a lheap"
  mq_head :: nat
  mq_state :: int
  mq_num :: int

definition message_queue_init :: "'a lheap \<Rightarrow> nat option \<Rightarrow> int \<Rightarrow> int \<times> 'a mqueue option" where
  "message_queue_init h block lock_ret =
     (case block of
        None \<Rightarrow> (- ENOMEM, None)
      | Some p \<Rightarrow>
          if lock_ret < 0 then (- EINVAL, None)
          else (0, Some \<lparr>mq_heap = INIT_LIST_HEAD p h, mq_head = p, mq_state = 0, mq_num = 0\<rparr>))"

definition message_queue_putmsg_raw :: "'a mqueue \<Rightarrow> nat option \<Rightarrow> 'a \<Rightarrow> 'a mqueue \<times> int" where
  "message_queue_putmsg_raw q block msg =
     (case block of
        None \<Rightarrow> (q, - ENOMEM)
      | Some newrecord \<Rightarrow>
          let h1 = set_rcd newrecord msg (INIT_LIST_HEAD newrecord (mq_heap q))
          in (q\<lparr>mq_num := mq_num q + 1, mq_heap := List_add_tail newrecord (mq_head q) h1\<rparr>, 0))"

definition message_queue_putmsg :: "'a mqueue \<Rightarrow> nat option \<Rightarrow> 'a \<Rightarrow> 'a mqueue \<times> int" where
  "message_queue_putmsg q block msg =
     (if mq_state q < 0 then (q, - EINVAL) else message_queue_putmsg_raw q block msg)"

text \<open>The node taken is \<^verbatim>\<open>recordhead->list.prev\<close>.\<close>

definition message_queue_getmsg_raw :: "'a mqueue \<Rightarrow> 'a mqueue \<times> 'a option \<times> int" where
  "message_queue_getmsg_raw q =
     (if mq_num q = 0 then (q, None, 0)
      else let newrecord = prv (mq_heap q) (mq_head q)
           in (q\<lparr>mq_num := mq_num q - 1, mq_heap := List_del newrecord (mq_heap q)\<rparr>,
               Some (rcd (mq_heap q) newrecord), 0))"

text \<open>\<open>msg\<close> is what the caller's pointer held; the early return leaves it.\<close>

definition message_queue_getmsg :: "'a mqueue \<Rightarrow> 'a option \<Rightarrow> 'a mqueue \<times> 'a option \<times> int" where
  "message_queue_getmsg q msg =
     (if mq_state q < 0 then (q, msg, - EINVAL) else message_queue_getmsg_raw q)"

text \<open>The drain loop of \<open>message_queue_reset\<close>; the list collects the arguments of \<open>message_free\<close>.\<close>

partial_function (option) reset_drain ::
  "'a mqueue \<Rightarrow> 'a option \<Rightarrow> 'a option list \<Rightarrow> ('a mqueue \<times> 'a option list) option" where
  "reset_drain q msg freed =
     (if mq_num q > 0 then
        (let g = message_queue_getmsg q msg;
             q' = fst g; msg' = fst (snd g); ret = snd (snd g)
         in if ret \<le> 0 then Some (q', freed @ [msg']) else reset_drain q' msg' (freed @ [msg']))
      else Some (q, freed))"

text \<open>\<open>msg\<close> is the uninitialised local pointer.\<close>

definition message_queue_reset :: "'a mqueue \<Rightarrow> 'a option \<Rightarrow> ('a mqueue \<times> 'a option list \<times> int) option" where
  "message_queue_reset q msg =
     (if mq_state q < 0 then Some (q, [], - EINVAL)
      else map_option (\<lambda>(q', freed). (q', freed, 0)) (reset_drain (q\<lparr>mq_state := -1\<rparr>) msg []))"

text \<open>The last component says whether the queue itself is freed.\<close>

definition message_queue_destroy ::
  "'a mqueue \<Rightarrow> 'a option \<Rightarrow> int \<Rightarrow> ('a mqueue \<times> 'a option list \<times> int \<times> bool) option" where
  "message_queue_destroy q msg lock_ret =
     map_option (\<lambda>(q', freed, _). if lock_ret < 0 then (q', freed, lock_ret, False) else (q', freed, 0, True))
       (message_queue_reset q msg)"

section \<open>The invariant and the contract\<close>

definition mq_nodes :: "'a mqueue \<Rightarrow> nat list \<Rightarrow> bool" where
  "mq_nodes q ns \<longleftrightarrow> dlist (mq_heap q) (mq_head q) ns \<and> mq_num q = int (length ns)"

text \<open>The contract of a last-in first-out container whose insertion needs a resource \<open>'x\<close>.\<close>

locale lifo =
  fixes holds :: "'q \<Rightarrow> 'n list \<Rightarrow> 'a list \<Rightarrow> bool"
    and free :: "'n \<Rightarrow> 'q \<Rightarrow> 'n list \<Rightarrow> bool"
    and put :: "'q \<Rightarrow> 'n \<Rightarrow> 'a \<Rightarrow> 'q"
    and get :: "'q \<Rightarrow> 'q \<times> 'a option"
  assumes put_holds: "holds q ns xs \<Longrightarrow> free n q ns \<Longrightarrow> holds (put q n x) (n # ns) (x # xs)"
    and put_free: "free m q ns \<Longrightarrow> m \<noteq> n \<Longrightarrow> free m (put q n x) (n # ns)"
    and get_top: "holds q (n # ns) (x # xs) \<Longrightarrow> \<exists>q'. get q = (q', Some x) \<and> holds q' ns xs"
begin

fun put_all :: "'q \<Rightarrow> ('n \<times> 'a) list \<Rightarrow> 'q" where
  "put_all q [] = q"
| "put_all q (p # ps) = put_all (put q (fst p) (snd p)) ps"

fun get_all :: "nat \<Rightarrow> 'q \<Rightarrow> 'a list" where
  "get_all 0 q = []"
| "get_all (Suc k) q = (case get q of (q', Some x) \<Rightarrow> x # get_all k q' | (q', None) \<Rightarrow> [])"

lemma put_all_holds:
  "holds q ns xs \<Longrightarrow> distinct (map fst ps) \<Longrightarrow> (\<And>p. p \<in> set ps \<Longrightarrow> free (fst p) q ns) \<Longrightarrow>
   holds (put_all q ps) (rev (map fst ps) @ ns) (rev (map snd ps) @ xs)"
proof (induction ps arbitrary: q ns xs)
  case (Cons p ps)
  have "holds (put q (fst p) (snd p)) (fst p # ns) (snd p # xs)" using Cons.prems by (intro put_holds) auto
  moreover have "free (fst r) (put q (fst p) (snd p)) (fst p # ns)" if "r \<in> set ps" for r
  proof (rule put_free)
    show "free (fst r) q ns" using Cons.prems(3) [of r] that by simp
    show "fst r \<noteq> fst p" using Cons.prems(2) imageI [OF that, of fst] by (metis distinct.simps(2) list.simps(9) set_map)
  qed
  ultimately show ?case using Cons.IH Cons.prems(2) by simp
qed simp

lemma get_all_holds: "holds q ns xs \<Longrightarrow> length ns = length xs \<Longrightarrow> k \<le> length xs \<Longrightarrow> get_all k q = take k xs"
proof (induction k arbitrary: q ns xs)
  case (Suc k)
  then obtain n ns' x xs' where e: "ns = n # ns'" "xs = x # xs'" by (cases ns; cases xs) auto
  then obtain q' where "get q = (q', Some x)" "holds q' ns' xs'" using Suc.prems get_top by blast
  then show ?case using Suc.IH [of q' ns' xs'] Suc.prems e by simp
qed simp

lemma last_in_first_out:
  assumes "holds q [] []" "distinct (map fst ps)" "\<And>p. p \<in> set ps \<Longrightarrow> free (fst p) q []"
  shows "get_all (length ps) (put_all q ps) = rev (map snd ps)"
  using put_all_holds [OF assms] get_all_holds by force

end

text \<open>The queue, with its nodes and messages from the ring's end to its head.\<close>

definition mq_holds :: "'a mqueue \<Rightarrow> nat list \<Rightarrow> 'a list \<Rightarrow> bool" where
  "mq_holds q ns xs \<longleftrightarrow> mq_nodes q (rev ns) \<and> map (rcd (mq_heap q)) ns = xs \<and> mq_state q = 0"

definition mq_free :: "nat \<Rightarrow> 'a mqueue \<Rightarrow> nat list \<Rightarrow> bool" where
  "mq_free n q ns \<longleftrightarrow> n \<noteq> mq_head q \<and> n \<notin> set ns"

definition mq_put1 :: "'a mqueue \<Rightarrow> nat \<Rightarrow> 'a \<Rightarrow> 'a mqueue" where
  "mq_put1 q n x = fst (message_queue_putmsg q (Some n) x)"

definition mq_get1 :: "'a mqueue \<Rightarrow> 'a mqueue \<times> 'a option" where
  "mq_get1 q = (case message_queue_getmsg q None of (q', m, _) \<Rightarrow> (q', m))"

lemma dlist_init_other:
  assumes "dlist h p xs" "n \<notin> set (p # xs)"
  shows "dlist (set_rcd n r (INIT_LIST_HEAD n h)) p xs"
  using assms(1) by (rule dlist_frame) (use assms(2) in \<open>auto simp: INIT_LIST_HEAD_def\<close>)

lemma putmsg_ok:
  assumes "mq_nodes q ns" "0 \<le> mq_state q" "n \<noteq> mq_head q" "n \<notin> set ns"
  shows "\<exists>q'. message_queue_putmsg q (Some n) x = (q', 0) \<and> mq_nodes q' (ns @ [n])
    \<and> mq_head q' = mq_head q \<and> mq_state q' = mq_state q \<and> rcd (mq_heap q') = (rcd (mq_heap q))(n := x)"
proof -
  let ?h = "set_rcd n x (INIT_LIST_HEAD n (mq_heap q))"
  have "dlist ?h (mq_head q) ns" using assms by (intro dlist_init_other) (auto simp: mq_nodes_def)
  then have "dlist (List_add_tail n (mq_head q) ?h) (mq_head q) (ns @ [n])"
    using assms by (intro dlist_add_tail) auto
  then show ?thesis using assms
    by (simp add: message_queue_putmsg_def message_queue_putmsg_raw_def mq_nodes_def)
qed

lemma getmsg_ok:
  assumes "mq_nodes q (ns @ [n])" "0 \<le> mq_state q"
  shows "\<exists>q'. message_queue_getmsg q m0 = (q', Some (rcd (mq_heap q) n), 0) \<and> mq_nodes q' ns
    \<and> mq_head q' = mq_head q \<and> mq_state q' = mq_state q \<and> rcd (mq_heap q') = rcd (mq_heap q)"
proof -
  have d: "dlist (mq_heap q) (mq_head q) (ns @ n # [])" using assms by (simp add: mq_nodes_def)
  have "prv (mq_heap q) (mq_head q) = n" using dlist_prv_head [OF d] by simp
  then show ?thesis using dlist_del(1) [OF d] assms
    by (simp add: message_queue_getmsg_def message_queue_getmsg_raw_def mq_nodes_def)
qed

interpretation mql: lifo mq_holds mq_free mq_put1 mq_get1
proof unfold_locales
  fix q :: "'a mqueue" and ns xs n x
  assume a: "mq_holds q ns xs" "mq_free n q ns"
  then obtain q' where "message_queue_putmsg q (Some n) x = (q', 0)" "mq_nodes q' (rev ns @ [n])"
      "mq_state q' = 0" "rcd (mq_heap q') = (rcd (mq_heap q))(n := x)"
    using putmsg_ok [of q "rev ns" n x] by (auto simp: mq_holds_def mq_free_def)
  then show "mq_holds (mq_put1 q n x) (n # ns) (x # xs)"
    using a by (auto simp: mq_holds_def mq_put1_def mq_free_def)
next
  fix q :: "'a mqueue" and ns n m x
  assume "mq_free m q ns" "m \<noteq> n"
  then show "mq_free m (mq_put1 q n x) (n # ns)"
    by (auto simp: mq_free_def mq_put1_def message_queue_putmsg_def message_queue_putmsg_raw_def)
next
  fix q :: "'a mqueue" and ns xs n x
  assume "mq_holds q (n # ns) (x # xs)"
  then show "\<exists>q'. mq_get1 q = (q', Some x) \<and> mq_holds q' ns xs"
    using getmsg_ok [of q "rev ns" n None] by (auto simp: mq_holds_def mq_get1_def)
qed

text \<open>
  Messages put into a new queue, each with a fresh node, come out in the reverse order: the queue
  appends at the tail of its ring and also takes from there.
\<close>

theorem message_queue_is_lifo:
  assumes "message_queue_init h (Some p) 0 = (0, Some q)"
    and "distinct (p # map fst msgs)"
  shows "mql.get_all (length msgs) (mql.put_all q msgs) = rev (map snd msgs)"
proof -
  have q: "q = \<lparr>mq_heap = INIT_LIST_HEAD p h, mq_head = p, mq_state = 0, mq_num = 0\<rparr>"
    using assms(1) by (simp add: message_queue_init_def)
  have "mq_holds q [] []" by (simp add: q mq_holds_def mq_nodes_def dlist_init)
  moreover have "mq_free (fst r) q []" if "r \<in> set msgs" for r
    using assms(2) that by (force simp: q mq_free_def)
  ultimately show ?thesis using assms(2) by (intro mql.last_in_first_out) auto
qed

theorem message_queue_is_lifo_witness:
  "\<exists>q. message_queue_init \<lparr>nxt = id, prv = id, rcd = \<lambda>_. 0\<rparr> (Some 5) 0 = (0, Some q)
     \<and> mql.get_all 2 (mql.put_all q [(6, 10), (7, 20)]) = [20, 10 :: nat]"
proof -
  obtain q where q: "message_queue_init \<lparr>nxt = id, prv = id, rcd = \<lambda>_. 0 :: nat\<rparr> (Some 5) 0 = (0, Some q)"
    by (simp add: message_queue_init_def)
  with message_queue_is_lifo [OF q, of "[(6, 10), (7, 20)]"] show ?thesis by (auto simp: numeral_2_eq_2)
qed

text \<open>
  Resetting a queue that holds messages frees none of them: the state is set first, so the first
  \<open>message_queue_getmsg\<close> fails, \<open>message_free\<close> gets the uninitialised pointer, and the loop ends
  with every message still in the ring and the queue refusing further calls.
\<close>

theorem message_queue_reset_keeps_messages:
  assumes "mq_nodes q ns" "ns \<noteq> []" "0 \<le> mq_state q"
  shows "\<exists>q'. message_queue_reset q garbage = Some (q', [garbage], 0) \<and> mq_nodes q' ns
     \<and> message_queue_getmsg q' m0 = (q', m0, - EINVAL) \<and> message_queue_putmsg q' b x = (q', - EINVAL)"
proof -
  have "mq_num q > 0" using assms by (simp add: mq_nodes_def)
  then have "message_queue_reset q garbage = Some (q\<lparr>mq_state := -1\<rparr>, [garbage], 0)"
    using assms(3) by (simp add: message_queue_reset_def reset_drain.simps message_queue_getmsg_def)
  then show ?thesis using assms(1)
    by (simp add: mq_nodes_def message_queue_getmsg_def message_queue_putmsg_def)
qed

theorem message_queue_reset_keeps_messages_witness:
  "\<exists>q'. message_queue_reset \<lparr>mq_heap = \<lparr>nxt = (\<lambda>a. a)(0 := 1, 1 := 0), prv = (\<lambda>a. a)(0 := 1, 1 := 0), rcd = \<lambda>_. 8 :: nat\<rparr>,
      mq_head = 0, mq_state = 0, mq_num = 1\<rparr> (Some 99) = Some (q', [Some 99], 0) \<and> mq_nodes q' [1]"
  using message_queue_reset_keeps_messages [of "\<lparr>mq_heap = \<lparr>nxt = (\<lambda>a. a)(0 := 1, 1 := 0),
      prv = (\<lambda>a. a)(0 := 1, 1 := 0), rcd = \<lambda>_. 8 :: nat\<rparr>, mq_head = 0, mq_state = 0, mq_num = 1\<rparr>" "[1]" "Some 99" None None 0]
  by (auto simp: mq_nodes_def dlist_def)

end
