(* ===== verification/Cube_Slot.thy ===== *)
theory Cube_Slot
  imports Cube_List Cube_Prelude
begin

text \<open>
  The slots of \<^verbatim>\<open>cubelib/ex_module/ex_module_slot.c\<close>: a port declares typed pins, a sock of the
  port collects one entity per pin and becomes active when every pin is taken, and a slot list
  holds ports or socks. Entities are of any type; a pointer that may be \<open>NULL\<close> is an option.
\<close>

section \<open>Ports\<close>

text \<open>\<open>ENTITY_NONE\<close> is the value of a cleared pin, zero in C.\<close>

datatype entity_type = ENTITY_NONE | ENTITY_RECORD | ENTITY_MESSAGE

record slot_pin =
  pin_num :: int
  pin_entity :: entity_type
  pin_type :: int
  pin_subtype :: int

record slot_port =
  port_name :: "byte list"
  slot_size :: int
  pins :: "slot_pin list"

definition clear_pin :: slot_pin where
  "clear_pin = \<lparr>pin_num = 0, pin_entity = ENTITY_NONE, pin_type = 0, pin_subtype = 0\<rparr>"

text \<open>The two flags are the answers of \<^verbatim>\<open>malloc\<close>.\<close>

definition slot_port_init :: "bool \<Rightarrow> bool \<Rightarrow> byte list \<Rightarrow> int \<Rightarrow> slot_port option" where
  "slot_port_init malloc1 malloc2 name n =
     (if n < 0 then None
      else if n > 64 then None
      else if \<not> malloc1 then None
      else if n > 0 \<and> \<not> malloc2 then None
      else Some \<lparr>port_name = buf_put (replicate DIGEST_SIZE 0) 0 (take DIGEST_SIZE name),
                 slot_size = n, pins = replicate (nat n) clear_pin\<rparr>)"

text \<open>\<open>for(i=0;i<slot_size;i++) if(pins[i].type==0) break\<close>\<close>

fun free_pin_loop :: "slot_pin list \<Rightarrow> nat \<Rightarrow> nat \<Rightarrow> nat" where
  "free_pin_loop ps i 0 = i"
| "free_pin_loop ps i (Suc k) = (if pin_type (ps ! i) = 0 then i else free_pin_loop ps (i + 1) k)"

text \<open>
  When no pin has type 0 the pin pointer stays on the last pin, while the number stored is the
  final value of \<open>i\<close>.
\<close>

definition slot_port_addpin :: "bool \<Rightarrow> slot_port \<Rightarrow> entity_type \<Rightarrow> int \<Rightarrow> int \<Rightarrow> slot_port \<times> int" where
  "slot_port_addpin malloc_ok port et ty st =
     (if slot_size port > 64 then (port, - EINVAL)
      else if slot_size port = 0 \<or> pin_entity (pins port ! (nat (slot_size port) - 1)) \<noteq> ENTITY_NONE then
        (if slot_size port \<ge> 64 then (port, - EINVAL)
         else if \<not> malloc_ok then (port, - ENOMEM)
         else let pin = \<lparr>pin_num = slot_size port, pin_entity = et, pin_type = ty, pin_subtype = st\<rparr>
              in (port\<lparr>pins := take (nat (slot_size port)) (pins port) @ [pin],
                       slot_size := slot_size port + 1\<rparr>, pin_num pin))
      else
        let n = nat (slot_size port);
            i = free_pin_loop (pins port) 0 n;
            at = (if i < n then i else n - 1);
            pin = \<lparr>pin_num = int i, pin_entity = et, pin_type = ty, pin_subtype = st\<rparr>
        in (port\<lparr>pins := (pins port)[at := pin]\<rparr>, pin_num pin))"

definition slot_port_addrecordpin :: "bool \<Rightarrow> slot_port \<Rightarrow> int \<Rightarrow> int \<Rightarrow> slot_port \<times> int" where
  "slot_port_addrecordpin malloc_ok port ty st = slot_port_addpin malloc_ok port ENTITY_RECORD ty st"

definition slot_port_addmessagepin :: "bool \<Rightarrow> slot_port \<Rightarrow> int \<Rightarrow> int \<Rightarrow> slot_port \<times> int" where
  "slot_port_addmessagepin malloc_ok port ty st = slot_port_addpin malloc_ok port ENTITY_MESSAGE ty st"

section \<open>Socks\<close>

record 'e slot_sock =
  sock_uuid :: "byte list"
  entity_num :: int
  slot_mask :: u64
  slot_flags :: u64
  entitys :: "'e option list"

text \<open>
  \<open>1<<n\<close> is a shift of a 32-bit \<^verbatim>\<open>int\<close>; the target takes the count modulo 32. The value is then
  converted to \<^verbatim>\<open>long long\<close>, with its sign.
\<close>

definition int_bit :: "nat \<Rightarrow> u32" where
  "int_bit n = push_bit (n mod 32) 1"

definition slot_flag :: "nat \<Rightarrow> u64" where
  "slot_flag i = scast (int_bit i)"

text \<open>
  The two arguments answer the two \<^verbatim>\<open>malloc\<close>s. The first is tested (\<open>Some None\<close> is \<^verbatim>\<open>NULL\<close>); the second is
  not, and \<open>None\<close> is the \<open>Memset\<close> through \<^verbatim>\<open>NULL\<close> when it fails.
\<close>

definition slot_create_sock :: "bool \<Rightarrow> bool \<Rightarrow> slot_port \<Rightarrow> byte list \<Rightarrow> 'e slot_sock option option" where
  "slot_create_sock malloc_ok entitys_ok port uuid =
     (if \<not> malloc_ok then Some None
      else if \<not> entitys_ok \<and> slot_size port \<noteq> 0 then None
      else Some (Some \<lparr>sock_uuid = take DIGEST_SIZE uuid, entity_num = slot_size port,
                 slot_mask = scast (int_bit (nat (slot_size port)) - 1), slot_flags = 0,
                 entitys = replicate (nat (slot_size port)) None\<rparr>))"

definition pin_matches :: "slot_pin \<Rightarrow> entity_type \<Rightarrow> int \<Rightarrow> int \<Rightarrow> bool" where
  "pin_matches pin et ty st \<longleftrightarrow> pin_entity pin = et \<and> pin_type pin = ty \<and> pin_subtype pin = st"

fun addentity_loop ::
  "slot_port \<Rightarrow> entity_type \<Rightarrow> int \<Rightarrow> int \<Rightarrow> 'e \<Rightarrow> nat \<Rightarrow> nat \<Rightarrow> 'e slot_sock \<Rightarrow> 'e slot_sock" where
  "addentity_loop port et ty st e i 0 sock = sock"
| "addentity_loop port et ty st e i (Suc k) sock =
     (if pin_matches (pins port ! i) et ty st then
        (if slot_flag i AND slot_flags sock \<noteq> 0 then addentity_loop port et ty st e (i + 1) k sock
         else sock\<lparr>slot_flags := slot_flags sock OR slot_flag i, entitys := (entitys sock)[i := Some e]\<rparr>)
      else addentity_loop port et ty st e (i + 1) k sock)"

definition slot_sock_isactive :: "'e slot_sock \<Rightarrow> int" where
  "slot_sock_isactive sock = (if slot_mask sock = slot_flags sock then 1 else 0)"

definition slot_sock_isempty :: "'e slot_sock \<Rightarrow> int" where
  "slot_sock_isempty sock = (if slot_flags sock = 0 then 1 else 0)"

definition slot_sock_addentity ::
  "slot_port \<Rightarrow> 'e slot_sock \<Rightarrow> entity_type \<Rightarrow> int \<Rightarrow> int \<Rightarrow> 'e \<Rightarrow> 'e slot_sock \<times> int" where
  "slot_sock_addentity port sock et ty st e =
     (let sock' = addentity_loop port et ty st e 0 (nat (slot_size port)) sock
      in (sock', if slot_mask sock' = slot_flags sock' then 1 else 0))"

text \<open>The record argument carries its type and subtype; \<open>None\<close> is \<open>NULL\<close>.\<close>

definition slot_sock_addrecord :: "slot_port \<Rightarrow> 'e slot_sock \<Rightarrow> (int \<times> int \<times> 'e) option \<Rightarrow> 'e slot_sock \<times> int" where
  "slot_sock_addrecord port sock rec =
     (case rec of
        None \<Rightarrow> (sock, - EINVAL)
      | Some (ty, st, e) \<Rightarrow> slot_sock_addentity port sock ENTITY_RECORD ty st e)"

definition slot_sock_addrecorddata ::
  "slot_port \<Rightarrow> 'e slot_sock \<Rightarrow> int \<Rightarrow> int \<Rightarrow> 'e \<Rightarrow> 'e slot_sock \<times> int" where
  "slot_sock_addrecorddata port sock ty st e = slot_sock_addentity port sock ENTITY_RECORD ty st e"

text \<open>\<open>ty\<close> and \<open>st\<close> are the answers of \<open>message_get_type\<close> and \<open>message_get_subtype\<close>.\<close>

definition slot_sock_addmsg :: "slot_port \<Rightarrow> 'e slot_sock \<Rightarrow> int \<Rightarrow> int \<Rightarrow> 'e \<Rightarrow> 'e slot_sock \<times> int" where
  "slot_sock_addmsg port sock ty st msg =
     (if ty < 0 then (sock, ty)
      else if st < 0 then (sock, st)
      else slot_sock_addentity port sock ENTITY_MESSAGE ty st msg)"

fun removeentity_loop ::
  "slot_port \<Rightarrow> entity_type \<Rightarrow> int \<Rightarrow> int \<Rightarrow> nat \<Rightarrow> nat \<Rightarrow> 'e slot_sock \<Rightarrow> 'e slot_sock \<times> 'e option" where
  "removeentity_loop port et ty st i 0 sock = (sock, None)"
| "removeentity_loop port et ty st i (Suc k) sock =
     (if pin_matches (pins port ! i) et ty st then
        (if slot_flag i AND slot_flags sock = 0 then removeentity_loop port et ty st (i + 1) k sock
         else (sock\<lparr>slot_flags := slot_flags sock AND NOT (slot_flag i), entitys := (entitys sock)[i := None]\<rparr>,
               entitys sock ! i))
      else removeentity_loop port et ty st (i + 1) k sock)"

definition slot_sock_removeentity ::
  "slot_port \<Rightarrow> 'e slot_sock \<Rightarrow> entity_type \<Rightarrow> int \<Rightarrow> int \<Rightarrow> 'e slot_sock \<times> 'e option" where
  "slot_sock_removeentity port sock et ty st = removeentity_loop port et ty st 0 (nat (slot_size port)) sock"

definition slot_sock_removerecord :: "slot_port \<Rightarrow> 'e slot_sock \<Rightarrow> int \<Rightarrow> int \<Rightarrow> 'e slot_sock \<times> 'e option" where
  "slot_sock_removerecord port sock ty st = slot_sock_removeentity port sock ENTITY_RECORD ty st"

definition slot_sock_removemessage :: "slot_port \<Rightarrow> 'e slot_sock \<Rightarrow> int \<Rightarrow> int \<Rightarrow> 'e slot_sock \<times> 'e option" where
  "slot_sock_removemessage port sock ty st = slot_sock_removeentity port sock ENTITY_MESSAGE ty st"

section \<open>Slot lists\<close>

record 'a slot_list =
  sl_heap :: "'a option lheap"
  sl_head :: nat
  sl_num :: int
  sl_curr :: nat

text \<open>The current position starts as \<open>NULL\<close>, the address 0.\<close>

definition slot_list_init :: "'a option lheap \<Rightarrow> nat option \<Rightarrow> 'a slot_list option" where
  "slot_list_init h block =
     map_option (\<lambda>p. \<lparr>sl_heap = INIT_LIST_HEAD p h, sl_head = p, sl_num = 0, sl_curr = 0\<rparr>) block"

definition slot_list_addslot :: "'a slot_list \<Rightarrow> nat option \<Rightarrow> 'a option \<Rightarrow> 'a slot_list \<times> int" where
  "slot_list_addslot sl block port =
     (case block of
        None \<Rightarrow> (sl, - ENOMEM)
      | Some n \<Rightarrow>
          (sl\<lparr>sl_heap := List_add_tail n (sl_head sl) (set_rcd n port (INIT_LIST_HEAD n (sl_heap sl)))\<rparr>, 0))"

definition slot_list_at :: "'a slot_list \<Rightarrow> nat \<Rightarrow> 'a slot_list \<times> 'a option" where
  "slot_list_at sl c = (sl\<lparr>sl_curr := c\<rparr>, if c = sl_head sl then None else rcd (sl_heap sl) c)"

definition slot_list_getfirst :: "'a slot_list \<Rightarrow> 'a slot_list \<times> 'a option" where
  "slot_list_getfirst sl = slot_list_at sl (nxt (sl_heap sl) (sl_head sl))"

definition slot_list_getnext :: "'a slot_list \<Rightarrow> 'a slot_list \<times> 'a option" where
  "slot_list_getnext sl = slot_list_at sl (nxt (sl_heap sl) (sl_curr sl))"

text \<open>The loop of both searches.\<close>

partial_function (option) slot_find_loop ::
  "('a \<Rightarrow> bool) \<Rightarrow> 'a slot_list \<Rightarrow> 'a option \<Rightarrow> ('a slot_list \<times> 'a option) option" where
  "slot_find_loop ok sl slot =
     (if slot \<noteq> None then
        (if ok (the slot) then Some (sl, slot)
         else let (sl', slot') = slot_list_getnext sl in slot_find_loop ok sl' slot')
      else Some (sl, None))"

definition slot_list_findport :: "slot_port slot_list \<Rightarrow> byte list \<Rightarrow> (slot_port slot_list \<times> slot_port option) option" where
  "slot_list_findport sl name =
     (let (sl', p) = slot_list_getfirst sl in slot_find_loop (\<lambda>port. strneq DIGEST_SIZE (port_name port) name) sl' p)"

definition slot_list_findsock ::
  "'e slot_sock slot_list \<Rightarrow> byte list \<Rightarrow> ('e slot_sock slot_list \<times> 'e slot_sock option) option" where
  "slot_list_findsock sl uuid =
     (let (sl', s) = slot_list_getfirst sl
      in slot_find_loop (\<lambda>sock. take DIGEST_SIZE (sock_uuid sock) = take DIGEST_SIZE uuid) sl' s)"

text \<open>The loop of \<open>slot_list_removesock\<close>; \<open>Inl\<close> is the error code it returns as a pointer.\<close>

partial_function (option) removesock_loop ::
  "'e slot_sock slot_list \<Rightarrow> byte list \<Rightarrow> ('e slot_sock slot_list \<times> (int + 'e slot_sock option)) option" where
  "removesock_loop sl uuid =
     (if sl_curr sl \<noteq> sl_head sl then
        (let node = sl_curr sl; sock = rcd (sl_heap sl) node
         in if sock = None then Some (sl, Inl (- EINVAL))
            else let sl' = sl\<lparr>sl_curr := nxt (sl_heap sl) node\<rparr>
                 in if take DIGEST_SIZE (sock_uuid (the sock)) = take DIGEST_SIZE uuid
                    then Some (sl'\<lparr>sl_heap := List_del node (sl_heap sl')\<rparr>, Inr sock)
                    else removesock_loop sl' uuid)
      else Some (sl, Inr None))"

definition slot_list_removesock ::
  "'e slot_sock slot_list \<Rightarrow> byte list \<Rightarrow> ('e slot_sock slot_list \<times> (int + 'e slot_sock option)) option" where
  "slot_list_removesock sl uuid = removesock_loop (sl\<lparr>sl_curr := nxt (sl_heap sl) (sl_head sl)\<rparr>) uuid"

section \<open>Ports fill their pins in order\<close>

text \<open>The declared pins \<open>ps\<close> of a port, followed by \<open>k\<close> cleared ones.\<close>

definition port_wf :: "slot_port \<Rightarrow> slot_pin list \<Rightarrow> nat \<Rightarrow> bool" where
  "port_wf port ps k \<longleftrightarrow> pins port = ps @ replicate k clear_pin \<and> slot_size port = int (length ps + k)
     \<and> length ps + k \<le> 64 \<and> list_all (\<lambda>p. pin_entity p \<noteq> ENTITY_NONE \<and> pin_type p \<noteq> 0) ps
     \<and> map pin_num ps = map int [0..<length ps]"

lemma free_pin_loop_first:
  "i + m = length us \<Longrightarrow> m < k \<Longrightarrow> list_all (\<lambda>p. pin_type p \<noteq> 0) us \<Longrightarrow> pin_type c = 0 \<Longrightarrow>
   free_pin_loop (us @ c # vs) i k = length us"
proof (induction k arbitrary: i m)
  case (Suc k)
  show ?case
  proof (cases m)
    case 0
    then show ?thesis using Suc.prems by simp
  next
    case (Suc m')
    then have "pin_type (us ! i) \<noteq> 0" using Suc.prems by (auto simp: list_all_length)
    moreover have "free_pin_loop (us @ c # vs) (i + 1) k = length us"
      using Suc Suc.prems Suc.IH [of "i + 1" m'] by simp
    ultimately show ?thesis using Suc Suc.prems by (simp add: nth_append)
  qed
qed simp

text \<open>
  Pins added to a port made for \<open>n\<close> pins fill its cleared pins in order and then extend it, up to 64;
  the result is the number of the pin, and a full port is refused unchanged.
\<close>

theorem slot_port_addpin_fills:
  assumes wf: "port_wf port ps k" and new: "et \<noteq> ENTITY_NONE" "ty \<noteq> 0"
  shows "if length ps < 64
    then \<exists>port'. slot_port_addpin True port et ty st = (port', int (length ps))
       \<and> port_wf port' (ps @ [\<lparr>pin_num = int (length ps), pin_entity = et, pin_type = ty, pin_subtype = st\<rparr>]) (k - 1)
       \<and> port_name port' = port_name port
    else slot_port_addpin True port et ty st = (port, - EINVAL)"
proof (cases k)
  case 0
  have last: "slot_size port = 0 \<or> pin_entity (pins port ! (nat (slot_size port) - 1)) \<noteq> ENTITY_NONE"
    using wf 0 by (cases ps rule: rev_cases) (auto simp: port_wf_def nat_add_distrib)
  have "\<not> slot_size port > 64" using wf by (simp add: port_wf_def)
  then show ?thesis using wf 0 new last
    by (simp add: slot_port_addpin_def port_wf_def)
next
  case (Suc k')
  have p: "pins port = ps @ clear_pin # replicate k' clear_pin" "nat (slot_size port) = length ps + Suc k'"
    "slot_size port \<noteq> 0" "\<not> slot_size port > 64" "length ps < 64"
    using wf Suc by (simp_all add: port_wf_def)
  have "pins port ! (nat (slot_size port) - 1) = clear_pin"
    using p(1,2) by (simp add: nth_append nth_Cons')
  then have "\<not> (slot_size port = 0 \<or> pin_entity (pins port ! (nat (slot_size port) - 1)) \<noteq> ENTITY_NONE)"
    using p(3) by (simp add: clear_pin_def)
  moreover have "free_pin_loop (pins port) 0 (nat (slot_size port)) = length ps"
    unfolding p(1,2) using wf
    by (intro free_pin_loop_first) (auto simp: port_wf_def clear_pin_def list_all_iff)
  ultimately have "slot_port_addpin True port et ty st =
      (port\<lparr>pins := ps @ \<lparr>pin_num = int (length ps), pin_entity = et, pin_type = ty, pin_subtype = st\<rparr>
         # replicate k' clear_pin\<rparr>, int (length ps))"
    using p by (simp add: slot_port_addpin_def Let_def)
  then show ?thesis using p wf Suc new by (simp add: port_wf_def)
qed

theorem slot_port_addpin_fills_witness:
  "\<exists>port'. slot_port_addpin True \<lparr>port_name = [], slot_size = 2, pins = replicate 2 clear_pin\<rparr> ENTITY_RECORD 5 6 = (port', 0)
     \<and> port_wf port' [\<lparr>pin_num = 0, pin_entity = ENTITY_RECORD, pin_type = 5, pin_subtype = 6\<rparr>] 1"
proof -
  have "port_wf \<lparr>port_name = [], slot_size = 2, pins = replicate 2 clear_pin\<rparr> [] 2"
    by (simp add: port_wf_def)
  from slot_port_addpin_fills [OF this, of ENTITY_RECORD 5 6] show ?thesis by auto
qed

section \<open>Flags\<close>

lemma bit_slot_flag: "i < 31 \<Longrightarrow> bit (slot_flag i) j \<longleftrightarrow> j = i"
  by (auto simp: slot_flag_def int_bit_def bit_signed_iff bit_exp_iff min_def)

lemma bit_slot_mask: "n \<le> 31 \<Longrightarrow> bit (scast (int_bit n - 1) :: u64) j \<longleftrightarrow> j < n"
proof -
  assume "n \<le> 31"
  moreover have "(int_bit n - 1 :: u32) = mask n" if "n \<le> 31"
    using that by (simp add: int_bit_def mask_eq_exp_minus_1 push_bit_of_1)
  ultimately show ?thesis by (auto simp: bit_signed_iff bit_mask_iff min_def)
qed

lemma slot_flag_and: "i < 31 \<Longrightarrow> slot_flag i AND w = 0 \<longleftrightarrow> \<not> bit w i"
  unfolding bit_eq_iff [of "slot_flag i AND w" 0] by (auto simp: bit_and_iff bit_slot_flag)

text \<open>A sock of a port with at most 31 pins: flag \<open>i\<close> says whether pin \<open>i\<close> has its entity.\<close>

definition sock_wf :: "slot_port \<Rightarrow> 'e slot_sock \<Rightarrow> bool" where
  "sock_wf port sock \<longleftrightarrow> slot_size port = int (length (entitys sock)) \<and> length (entitys sock) \<le> 31
     \<and> (\<forall>j. bit (slot_mask sock) j \<longleftrightarrow> j < length (entitys sock))
     \<and> (\<forall>j. bit (slot_flags sock) j \<longleftrightarrow> j < length (entitys sock) \<and> entitys sock ! j \<noteq> None)"

lemma u64_bits: "a = b \<longleftrightarrow> (\<forall>j. bit a j \<longleftrightarrow> bit b j)" for a b :: u64
  by (auto intro: bit_word_eqI)

lemma None_notin: "None \<notin> set xs \<longleftrightarrow> (\<forall>j<length xs. xs ! j \<noteq> None)"
  by (metis in_set_conv_nth)

lemma mask_eq_flags:
  assumes "sock_wf port sock"
  shows "slot_mask sock = slot_flags sock \<longleftrightarrow> None \<notin> set (entitys sock)"
  unfolding None_notin u64_bits using assms by (auto simp: sock_wf_def)

lemma flags_zero: "sock_wf port sock \<Longrightarrow> slot_flags sock = 0 \<longleftrightarrow> (\<forall>e \<in> set (entitys sock). e = None)"
  unfolding u64_bits all_set_conv_all_nth by (auto simp: sock_wf_def)

lemma sock_wf_update:
  assumes "sock_wf port sock" "i < length (entitys sock)"
  shows "sock_wf port (sock\<lparr>slot_flags := slot_flags sock OR slot_flag i, entitys := (entitys sock)[i := Some e]\<rparr>)"
    and "sock_wf port (sock\<lparr>slot_flags := slot_flags sock AND NOT (slot_flag i), entitys := (entitys sock)[i := None]\<rparr>)"
proof -
  have i: "i < 31" using assms by (simp add: sock_wf_def)
  show "sock_wf port (sock\<lparr>slot_flags := slot_flags sock OR slot_flag i, entitys := (entitys sock)[i := Some e]\<rparr>)"
    using assms by (auto simp: sock_wf_def bit_or_iff bit_slot_flag [OF i] nth_list_update)
  have "bit (slot_flags sock AND NOT (slot_flag i)) j \<longleftrightarrow> bit (slot_flags sock) j \<and> j \<noteq> i" for j
    using bit_imp_le_length [of "slot_flags sock" j] by (auto simp: bit_and_iff bit_not_iff bit_slot_flag [OF i])
  then show "sock_wf port (sock\<lparr>slot_flags := slot_flags sock AND NOT (slot_flag i), entitys := (entitys sock)[i := None]\<rparr>)"
    using assms by (auto simp: sock_wf_def nth_list_update)
qed

section \<open>Socks collect one entity per pin\<close>

lemma slot_create_sock_wf:
  assumes "slot_size port = int n" "n \<le> 31"
  shows "\<exists>sock. slot_create_sock True True port uuid = Some (Some sock) \<and> sock_wf port sock
    \<and> entitys sock = replicate n None \<and> sock_uuid sock = take DIGEST_SIZE uuid"
  using assms by (auto simp: slot_create_sock_def sock_wf_def bit_slot_mask)

definition open_pin :: "slot_port \<Rightarrow> 'e slot_sock \<Rightarrow> entity_type \<Rightarrow> int \<Rightarrow> int \<Rightarrow> nat \<Rightarrow> bool" where
  "open_pin port sock et ty st j \<longleftrightarrow> pin_matches (pins port ! j) et ty st \<and> entitys sock ! j = None"

definition taken_pin :: "slot_port \<Rightarrow> 'e slot_sock \<Rightarrow> entity_type \<Rightarrow> int \<Rightarrow> int \<Rightarrow> nat \<Rightarrow> bool" where
  "taken_pin port sock et ty st j \<longleftrightarrow> pin_matches (pins port ! j) et ty st \<and> entitys sock ! j \<noteq> None"

lemma wf_flag:
  assumes "sock_wf port sock" "i < length (entitys sock)"
  shows "slot_flag i AND slot_flags sock = 0 \<longleftrightarrow> entitys sock ! i = None"
  using assms slot_flag_and [of i "slot_flags sock"] by (auto simp: sock_wf_def)

lemma addentity_loop_find:
  assumes "sock_wf port sock"
  shows "i + k = length (entitys sock) \<Longrightarrow> addentity_loop port et ty st e i k sock =
    (case find (open_pin port sock et ty st) [i..<length (entitys sock)] of
       None \<Rightarrow> sock
     | Some j \<Rightarrow> sock\<lparr>slot_flags := slot_flags sock OR slot_flag j, entitys := (entitys sock)[j := Some e]\<rparr>)"
proof (induction k arbitrary: i)
  case (Suc k)
  have "slot_flag i AND slot_flags sock = 0 \<longleftrightarrow> entitys sock ! i = None"
    using assms Suc.prems by (intro wf_flag) auto
  moreover have "[i..<length (entitys sock)] = i # [Suc i..<length (entitys sock)]"
    using Suc.prems by (intro upt_conv_Cons) simp
  ultimately show ?case using Suc.IH [of "i + 1"] Suc.prems by (simp add: open_pin_def)
qed simp

lemma removeentity_loop_find:
  assumes "sock_wf port sock"
  shows "i + k = length (entitys sock) \<Longrightarrow> removeentity_loop port et ty st i k sock =
    (case find (taken_pin port sock et ty st) [i..<length (entitys sock)] of
       None \<Rightarrow> (sock, None)
     | Some j \<Rightarrow> (sock\<lparr>slot_flags := slot_flags sock AND NOT (slot_flag j), entitys := (entitys sock)[j := None]\<rparr>,
                  entitys sock ! j))"
proof (induction k arbitrary: i)
  case (Suc k)
  have "slot_flag i AND slot_flags sock = 0 \<longleftrightarrow> entitys sock ! i = None"
    using assms Suc.prems by (intro wf_flag) auto
  moreover have "[i..<length (entitys sock)] = i # [Suc i..<length (entitys sock)]"
    using Suc.prems by (intro upt_conv_Cons) simp
  ultimately show ?case using Suc.IH [of "i + 1"] Suc.prems by (simp add: taken_pin_def)
qed simp

lemma find_upt: "find P [0..<n] = Some j \<Longrightarrow> j < n \<and> P j"
  by (auto simp: find_Some_iff)

text \<open>(C38) 
  Adding an entity stores it at the first pin of its type that is still open, and reports 1 exactly
  when every pin has its entity then; an entity no open pin wants leaves the sock unchanged. For
  ports of up to 31 pins.
\<close>

theorem slot_sock_addentity_correct:
  assumes "sock_wf port sock"
  shows "\<exists>sock' ret. slot_sock_addentity port sock et ty st e = (sock', ret) \<and> sock_wf port sock'
    \<and> entitys sock' = (case find (open_pin port sock et ty st) [0..<length (entitys sock)] of
         None \<Rightarrow> entitys sock | Some j \<Rightarrow> (entitys sock)[j := Some e])
    \<and> ret = (if None \<in> set (entitys sock') then 0 else 1) \<and> slot_sock_isactive sock' = ret"
proof -
  let ?n = "length (entitys sock)"
  let ?s = "addentity_loop port et ty st e 0 ?n sock"
  have n: "nat (slot_size port) = ?n" using assms by (simp add: sock_wf_def)
  have s: "?s = (case find (open_pin port sock et ty st) [0..<?n] of None \<Rightarrow> sock
     | Some j \<Rightarrow> sock\<lparr>slot_flags := slot_flags sock OR slot_flag j, entitys := (entitys sock)[j := Some e]\<rparr>)"
    using addentity_loop_find [OF assms, of 0 ?n] by simp
  then have wf: "sock_wf port ?s" using assms sock_wf_update(1) [OF assms] find_upt by (auto split: option.split)
  have "entitys ?s = (case find (open_pin port sock et ty st) [0..<?n] of
         None \<Rightarrow> entitys sock | Some j \<Rightarrow> (entitys sock)[j := Some e])"
    unfolding s by (simp split: option.split)
  then show ?thesis using wf mask_eq_flags [OF wf] n
    by (simp add: slot_sock_addentity_def slot_sock_isactive_def Let_def)
qed

theorem slot_sock_addentity_correct_witness:
  "\<exists>sock' ret. slot_sock_addentity
      \<lparr>port_name = [], slot_size = 1, pins = [\<lparr>pin_num = 0, pin_entity = ENTITY_RECORD, pin_type = 5, pin_subtype = 6\<rparr>]\<rparr>
      \<lparr>sock_uuid = [], entity_num = 1, slot_mask = 1, slot_flags = 0, entitys = [None]\<rparr> ENTITY_RECORD 5 6 (42 :: nat) = (sock', ret)
    \<and> entitys sock' = [Some 42] \<and> ret = 1"
proof -
  let ?port = "\<lparr>port_name = [], slot_size = 1, pins = [\<lparr>pin_num = 0, pin_entity = ENTITY_RECORD, pin_type = 5, pin_subtype = 6\<rparr>]\<rparr>"
  let ?sock = "\<lparr>sock_uuid = [], entity_num = 1, slot_mask = 1, slot_flags = 0, entitys = [None]\<rparr> :: nat slot_sock"
  have "sock_wf ?port ?sock" by (auto simp: sock_wf_def bit_1_iff nth_Cons')
  from slot_sock_addentity_correct [OF this, of ENTITY_RECORD 5 6 42] show ?thesis
    by (auto simp: open_pin_def pin_matches_def)
qed

text \<open>
  Removing an entity of a type takes the one at the first pin of that type that holds one, and
  returns it; when there is none the result is \<open>NULL\<close> and the sock unchanged. For ports of up to
  31 pins.
\<close>

theorem slot_sock_removeentity_correct:
  assumes "sock_wf port sock"
  shows "\<exists>sock' r. slot_sock_removeentity port sock et ty st = (sock', r) \<and> sock_wf port sock'
    \<and> (case find (taken_pin port sock et ty st) [0..<length (entitys sock)] of
         None \<Rightarrow> sock' = sock \<and> r = None
       | Some j \<Rightarrow> entitys sock' = (entitys sock)[j := None] \<and> r = entitys sock ! j \<and> r \<noteq> None)
    \<and> (slot_sock_isempty sock' = 1 \<longleftrightarrow> list_all (\<lambda>x. x = None) (entitys sock'))"
proof -
  let ?n = "length (entitys sock)"
  let ?s = "removeentity_loop port et ty st 0 ?n sock"
  have n: "nat (slot_size port) = ?n" using assms by (simp add: sock_wf_def)
  have s: "?s = (case find (taken_pin port sock et ty st) [0..<?n] of None \<Rightarrow> (sock, None)
     | Some j \<Rightarrow> (sock\<lparr>slot_flags := slot_flags sock AND NOT (slot_flag j), entitys := (entitys sock)[j := None]\<rparr>,
                  entitys sock ! j))"
    using removeentity_loop_find [OF assms, of 0 ?n] by simp
  then have wf: "sock_wf port (fst ?s)" using assms sock_wf_update(2) [OF assms] find_upt by (auto split: option.split)
  have "case find (taken_pin port sock et ty st) [0..<?n] of
         None \<Rightarrow> fst ?s = sock \<and> snd ?s = None
       | Some j \<Rightarrow> entitys (fst ?s) = (entitys sock)[j := None] \<and> snd ?s = entitys sock ! j \<and> snd ?s \<noteq> None"
    unfolding s by (auto simp: taken_pin_def dest: find_upt split: option.split)
  then show ?thesis using wf flags_zero [OF wf] n
    by (intro exI [of _ "fst ?s"] exI [of _ "snd ?s"])
      (simp add: slot_sock_removeentity_def slot_sock_isempty_def list_all_iff)
qed

theorem slot_sock_removeentity_correct_witness:
  "\<exists>sock' r. slot_sock_removeentity
      \<lparr>port_name = [], slot_size = 1, pins = [\<lparr>pin_num = 0, pin_entity = ENTITY_RECORD, pin_type = 5, pin_subtype = 6\<rparr>]\<rparr>
      \<lparr>sock_uuid = [], entity_num = 1, slot_mask = 1, slot_flags = 1, entitys = [Some (42 :: nat)]\<rparr> ENTITY_RECORD 5 6 = (sock', r)
    \<and> entitys sock' = [None] \<and> r = Some 42"
proof -
  let ?port = "\<lparr>port_name = [], slot_size = 1, pins = [\<lparr>pin_num = 0, pin_entity = ENTITY_RECORD, pin_type = 5, pin_subtype = 6\<rparr>]\<rparr>"
  let ?sock = "\<lparr>sock_uuid = [], entity_num = 1, slot_mask = 1, slot_flags = 1, entitys = [Some 42]\<rparr> :: nat slot_sock"
  have "sock_wf ?port ?sock" by (auto simp: sock_wf_def bit_1_iff)
  from slot_sock_removeentity_correct [OF this, of ENTITY_RECORD 5 6] show ?thesis
    by (auto simp: taken_pin_def pin_matches_def)
qed

text \<open>
  A port of 32 pins, which \<open>slot_port_init\<close> allows, makes the shift of the mask overflow: the mask is
  zero and a sock of the port is active before it holds any entity.
\<close>

theorem slot_create_sock_32_pins_active:
  assumes "slot_port_init True True name 32 = Some port"
  shows "\<exists>sock. slot_create_sock True True port uuid = Some (Some sock) \<and> slot_sock_isactive sock = 1
     \<and> slot_sock_isempty sock = 1 \<and> entitys sock = replicate 32 None"
proof -
  have "slot_size port = 32" using assms by (auto simp: slot_port_init_def)
  then show ?thesis
    by (simp add: slot_create_sock_def slot_sock_isactive_def slot_sock_isempty_def int_bit_def)
qed

theorem slot_create_sock_32_pins_active_witness:
  "\<exists>port sock. slot_port_init True True [112] 32 = Some port \<and>
     slot_create_sock True True port (replicate 32 1) = Some (Some (sock :: nat slot_sock)) \<and> slot_sock_isactive sock = 1"
proof -
  obtain port where "slot_port_init True True [112] 32 = Some port" by (simp add: slot_port_init_def)
  with slot_create_sock_32_pins_active [OF this, of "replicate 32 1"] show ?thesis by blast
qed

section \<open>Searching and removing\<close>

text \<open>The slots of a list in ring order, none of them \<open>NULL\<close>.\<close>

definition sl_holds :: "'a slot_list \<Rightarrow> nat list \<Rightarrow> 'a list \<Rightarrow> bool" where
  "sl_holds sl ns xs \<longleftrightarrow> dlist (sl_heap sl) (sl_head sl) ns \<and> map (rcd (sl_heap sl)) ns = map Some xs"

lemma slot_find_loop_walk:
  "sl_holds sl (ys @ zs) (us @ vs) \<Longrightarrow> length ys = length us \<Longrightarrow> sl_curr sl = hd (zs @ [sl_head sl]) \<Longrightarrow>
   slot = (if zs = [] then None else rcd (sl_heap sl) (hd zs)) \<Longrightarrow>
   \<exists>c. slot_find_loop ok sl slot = Some (sl\<lparr>sl_curr := c\<rparr>, find ok vs)"
proof (induction zs arbitrary: sl slot ys us vs)
  case Nil
  then have "length (us @ vs) = length us" by (metis append_Nil2 length_map sl_holds_def)
  then have "vs = []" "sl\<lparr>sl_curr := sl_curr sl\<rparr> = sl" by simp_all
  then show ?case using Nil by (intro exI [of _ "sl_curr sl"]) (simp add: slot_find_loop.simps)
next
  case (Cons z zs)
  have len: "length (ys @ z # zs) = length (us @ vs)" using Cons.prems(1) by (metis length_map sl_holds_def)
  then obtain v vs' where v: "vs = v # vs'" using Cons.prems(2) by (cases vs) auto
  have d: "dlist (sl_heap sl) (sl_head sl) (ys @ z # zs)" and m: "rcd (sl_heap sl) z = Some v"
    using Cons.prems(1,2) v by (auto simp: sl_holds_def)
  show ?case
  proof (cases "ok v")
    case True
    then show ?thesis using Cons.prems m v
      by (intro exI [of _ "sl_curr sl"]) (simp add: slot_find_loop.simps)
  next
    case False
    let ?sl = "sl\<lparr>sl_curr := nxt (sl_heap sl) z\<rparr>"
    let ?slot = "if zs = [] then None else rcd (sl_heap sl) (hd zs)"
    have n: "nxt (sl_heap sl) z = hd (zs @ [sl_head sl])" by (rule dlist_nxt_mid [OF d])
    have "hd zs \<noteq> sl_head sl" if "zs \<noteq> []" using d hd_in_set [OF that] by (auto simp: dlist_def)
    then have g: "slot_list_getnext sl = (?sl, ?slot)"
      using Cons.prems(3) n by (auto simp: slot_list_getnext_def slot_list_at_def hd_append)
    have "\<exists>c. slot_find_loop ok ?sl ?slot = Some (?sl\<lparr>sl_curr := c\<rparr>, find ok vs')"
    proof (rule Cons.IH [of ?sl "ys @ [z]" "us @ [v]"])
      show "sl_holds ?sl ((ys @ [z]) @ zs) ((us @ [v]) @ vs')" using Cons.prems(1) v by (simp add: sl_holds_def)
    qed (use Cons.prems(2) n in simp_all)
    then obtain c where "slot_find_loop ok ?sl ?slot = Some (sl\<lparr>sl_curr := c\<rparr>, find ok vs')" by auto
    then have "slot_find_loop ok sl (Some v) = Some (sl\<lparr>sl_curr := c\<rparr>, find ok vs')"
      using False g by (simp add: slot_find_loop.simps [of ok sl])
    then show ?thesis using Cons.prems(4) False v m by auto
  qed
qed

lemma slot_list_search:
  assumes "sl_holds sl ns xs" "slot_list_getfirst sl = (sl', p)"
  shows "\<exists>c. slot_find_loop ok sl' p = Some (sl\<lparr>sl_curr := c\<rparr>, find ok xs)"
proof -
  have d: "dlist (sl_heap sl) (sl_head sl) ns" using assms(1) by (simp add: sl_holds_def)
  have "hd ns \<noteq> sl_head sl" if "ns \<noteq> []" using d hd_in_set [OF that] by (auto simp: dlist_def)
  then have g: "sl' = sl\<lparr>sl_curr := hd (ns @ [sl_head sl])\<rparr>" "p = (if ns = [] then None else rcd (sl_heap sl) (hd ns))"
    using assms(2) dlist_nxt_head [OF d] by (auto simp: slot_list_getfirst_def slot_list_at_def hd_append split: if_splits)
  have "\<exists>c. slot_find_loop ok sl' p = Some (sl'\<lparr>sl_curr := c\<rparr>, find ok xs)"
    by (rule slot_find_loop_walk [of sl' "[]" ns "[]" xs]) (use assms(1) g in \<open>simp_all add: sl_holds_def\<close>)
  then show ?thesis using g(1) by simp
qed

text \<open>
  The searches for a port by name and for a sock by uuid end and return the first match in list
  order, or \<open>NULL\<close>; only the cursor of the list changes.
\<close>

theorem slot_list_find_correct:
  assumes "sl_holds ports ns ps" "sl_holds socks ms ss"
  shows "(\<exists>c. slot_list_findport ports name
      = Some (ports\<lparr>sl_curr := c\<rparr>, find (\<lambda>p. strneq DIGEST_SIZE (port_name p) name) ps))
    \<and> (\<exists>c. slot_list_findsock socks uuid
      = Some (socks\<lparr>sl_curr := c\<rparr>, find (\<lambda>s. take DIGEST_SIZE (sock_uuid s) = take DIGEST_SIZE uuid) ss))"
proof -
  obtain p' p s' s where f: "slot_list_getfirst ports = (p', p)" "slot_list_getfirst socks = (s', s)" by fastforce
  show ?thesis unfolding slot_list_findport_def slot_list_findsock_def f Let_def prod.case
    using slot_list_search [OF assms(1) f(1)] slot_list_search [OF assms(2) f(2)] by simp
qed

theorem slot_list_find_correct_witness:
  "\<exists>c d. slot_list_findport \<lparr>sl_heap = \<lparr>nxt = (\<lambda>a. a)(1 := 2, 2 := 1), prv = (\<lambda>a. a)(1 := 2, 2 := 1),
        rcd = \<lambda>_. Some \<lparr>port_name = [97], slot_size = 0, pins = []\<rparr>\<rparr>, sl_head = 1, sl_num = 0, sl_curr = 0\<rparr> [97]
      = Some (\<lparr>sl_heap = \<lparr>nxt = (\<lambda>a. a)(1 := 2, 2 := 1), prv = (\<lambda>a. a)(1 := 2, 2 := 1),
        rcd = \<lambda>_. Some \<lparr>port_name = [97], slot_size = 0, pins = []\<rparr>\<rparr>, sl_head = 1, sl_num = 0, sl_curr = c\<rparr>,
        Some \<lparr>port_name = [97], slot_size = 0, pins = []\<rparr>)
   \<and> slot_list_findsock \<lparr>sl_heap = INIT_LIST_HEAD 1 \<lparr>nxt = id, prv = id, rcd = \<lambda>_. None :: nat slot_sock option\<rparr>,
        sl_head = 1, sl_num = 0, sl_curr = 0\<rparr> [1]
      = Some (\<lparr>sl_heap = INIT_LIST_HEAD 1 \<lparr>nxt = id, prv = id, rcd = \<lambda>_. None\<rparr>, sl_head = 1, sl_num = 0, sl_curr = d\<rparr>, None)"
proof -
  let ?p = "\<lparr>port_name = [97], slot_size = 0, pins = []\<rparr>"
  let ?ports = "\<lparr>sl_heap = \<lparr>nxt = (\<lambda>a. a)(1 := 2, 2 := 1), prv = (\<lambda>a. a)(1 := 2, 2 := 1), rcd = \<lambda>_. Some ?p\<rparr>,
    sl_head = 1, sl_num = 0, sl_curr = 0\<rparr> :: slot_port slot_list"
  let ?socks = "\<lparr>sl_heap = INIT_LIST_HEAD 1 \<lparr>nxt = id, prv = id, rcd = \<lambda>_. None\<rparr>, sl_head = 1, sl_num = 0, sl_curr = 0\<rparr>
    :: nat slot_sock slot_list"
  have "sl_holds ?ports [2] [?p]" "sl_holds ?socks [] []"
    using dlist_init [of 1] by (simp_all add: sl_holds_def dlist_def)
  from slot_list_find_correct [OF this, of "[97]" "[1]"] show ?thesis
    by (auto simp: strneq_same)
qed

fun remove_first :: "('a \<Rightarrow> bool) \<Rightarrow> 'a list \<Rightarrow> 'a list" where
  "remove_first ok [] = []"
| "remove_first ok (x # xs) = (if ok x then xs else x # remove_first ok xs)"

lemma removesock_walk:
  defines "ok \<equiv> \<lambda>uuid s. take DIGEST_SIZE (sock_uuid s) = take DIGEST_SIZE uuid"
  shows "sl_holds sl (ys @ zs) (us @ vs) \<Longrightarrow> length ys = length us \<Longrightarrow> sl_curr sl = hd (zs @ [sl_head sl]) \<Longrightarrow>
   \<exists>sl' ns'. removesock_loop sl uuid = Some (sl', Inr (find (ok uuid) vs)) \<and> sl_holds sl' ns' (us @ remove_first (ok uuid) vs)"
proof (induction zs arbitrary: sl ys us vs)
  case Nil
  then have "length (us @ vs) = length us" by (metis append_Nil2 length_map sl_holds_def)
  then have "vs = []" by simp
  then show ?case using Nil by (auto simp: removesock_loop.simps)
next
  case (Cons z zs)
  have len: "length (ys @ z # zs) = length (us @ vs)" using Cons.prems(1) by (metis length_map sl_holds_def)
  then obtain v vs' where v: "vs = v # vs'" using Cons.prems(2) by (cases vs) auto
  have d: "dlist (sl_heap sl) (sl_head sl) (ys @ z # zs)" and m: "rcd (sl_heap sl) z = Some v"
    using Cons.prems(1,2) v by (auto simp: sl_holds_def)
  have z: "z \<noteq> sl_head sl" "sl_curr sl = z" using d Cons.prems(3) by (auto simp: dlist_def)
  let ?sl = "sl\<lparr>sl_curr := nxt (sl_heap sl) z\<rparr>"
  show ?case
  proof (cases "ok uuid v")
    case True
    then have "removesock_loop sl uuid = Some (?sl\<lparr>sl_heap := List_del z (sl_heap sl)\<rparr>, Inr (Some v))"
      using m z by (simp add: removesock_loop.simps [of sl uuid] ok_def)
    moreover have "sl_holds (?sl\<lparr>sl_heap := List_del z (sl_heap sl)\<rparr>) (ys @ zs) (us @ vs')"
      using dlist_del(1) [OF d] Cons.prems(1,2) v by (auto simp: sl_holds_def)
    ultimately show ?thesis using True v by auto
  next
    case False
    have "removesock_loop sl uuid = removesock_loop ?sl uuid"
      using m z False by (simp add: removesock_loop.simps [of sl uuid] ok_def)
    moreover have "\<exists>sl' ns'. removesock_loop ?sl uuid = Some (sl', Inr (find (ok uuid) vs'))
        \<and> sl_holds sl' ns' ((us @ [v]) @ remove_first (ok uuid) vs')"
      by (rule Cons.IH [of ?sl "ys @ [z]"]) (use Cons.prems dlist_nxt_mid [OF d] v in \<open>simp_all add: sl_holds_def\<close>)
    ultimately show ?thesis using False v by simp
  qed
qed

text \<open>
  Removing a sock by uuid unlinks exactly the first sock with that uuid and returns it; without one
  the list is unchanged and the result \<open>NULL\<close>.
\<close>

theorem slot_list_removesock_correct:
  assumes "sl_holds sl ns ss"
  shows "\<exists>sl' ns'. slot_list_removesock sl uuid
      = Some (sl', Inr (find (\<lambda>s. take DIGEST_SIZE (sock_uuid s) = take DIGEST_SIZE uuid) ss))
    \<and> sl_holds sl' ns' (remove_first (\<lambda>s. take DIGEST_SIZE (sock_uuid s) = take DIGEST_SIZE uuid) ss)"
proof -
  let ?sl = "sl\<lparr>sl_curr := nxt (sl_heap sl) (sl_head sl)\<rparr>"
  have "sl_curr ?sl = hd (ns @ [sl_head ?sl])" using assms dlist_nxt_head by (auto simp: sl_holds_def)
  moreover have "sl_holds ?sl ([] @ ns) ([] @ ss)" using assms by (simp add: sl_holds_def)
  ultimately show ?thesis using removesock_walk [of ?sl "[]" ns "[]" ss uuid]
    by (simp add: slot_list_removesock_def)
qed

theorem slot_list_removesock_correct_witness:
  "\<exists>sl' ns'. slot_list_removesock \<lparr>sl_heap = INIT_LIST_HEAD 1 \<lparr>nxt = id, prv = id, rcd = \<lambda>_. None :: nat slot_sock option\<rparr>,
        sl_head = 1, sl_num = 0, sl_curr = 0\<rparr> [7] = Some (sl', Inr None) \<and> sl_holds sl' ns' []"
  using slot_list_removesock_correct [of "\<lparr>sl_heap = INIT_LIST_HEAD 1 \<lparr>nxt = id, prv = id,
      rcd = \<lambda>_. None :: nat slot_sock option\<rparr>, sl_head = 1, sl_num = 0, sl_curr = 0\<rparr>" "[]" "[]" "[7]"]
  by (simp add: sl_holds_def dlist_init)

end
