(* ===== verification/Cube_Json.thy ===== *)
theory Cube_Json
  imports Cube_Strconv
begin

text \<open>
  The JSON trees of \<^verbatim>\<open>cubelib/json/json.c\<close>: the node operations, the value readers, the
  parser \<open>json_solve_str\<close> and the printer \<open>json_print_str\<close>. Nodes live in a store under
  addresses; the ring of a node's child records is the list of its children (the rings
  themselves are the subject of \<open>Cube_List\<close>), and \<open>curr_child\<close> a position in it, the length
  standing for the ring's head. A C string is its list of bytes before the NUL. The answers of the
  allocator are a sequence in the store, from which every allocation takes one; new nodes have fresh addresses.
\<close>

section \<open>Characters and nodes\<close>

definition IsValueEnd :: "byte \<Rightarrow> bool" where
  "IsValueEnd c \<longleftrightarrow> c = 32 \<or> c = 44 \<or> c = 0 \<or> c = 125 \<or> c = 93 \<or> c = 9 \<or> c = 13 \<or> c = 10"

definition IsSplitChar :: "byte \<Rightarrow> bool" where
  "IsSplitChar c \<longleftrightarrow> c = 44 \<or> c = 32 \<or> c = 13 \<or> c = 10 \<or> c = 9"

definition IsIgnoreChar :: "byte \<Rightarrow> bool" where
  "IsIgnoreChar c \<longleftrightarrow> c = 32 \<or> c = 13 \<or> c = 10 \<or> c = 9"

abbreviation (input) JSON_ELEM_NULL :: int where "JSON_ELEM_NULL \<equiv> 0"
abbreviation (input) JSON_ELEM_NUM :: int where "JSON_ELEM_NUM \<equiv> 1"
abbreviation (input) JSON_ELEM_STRING :: int where "JSON_ELEM_STRING \<equiv> 2"
abbreviation (input) JSON_ELEM_BOOL :: int where "JSON_ELEM_BOOL \<equiv> 3"
abbreviation (input) JSON_ELEM_MAP :: int where "JSON_ELEM_MAP \<equiv> 4"
abbreviation (input) JSON_ELEM_ARRAY :: int where "JSON_ELEM_ARRAY \<equiv> 5"
abbreviation (input) JSON_ELEM_VALUE :: int where "JSON_ELEM_VALUE \<equiv> 0x1000"

text \<open>\<open>elem_type\<close> is the type with \<open>JSON_ELEM_VALUE\<close> added for a node without a name.\<close>

record json_node =
  elem_type :: int
  jname :: "byte list"
  value_str :: "byte list option"
  jvalue :: int
  elem_no :: int
  childlist :: "nat list"
  curr_child :: "nat option"
  father :: "nat option"
  comp_no :: int
  comp_pointer :: "nat option"

record jheap =
  jnode :: "nat \<Rightarrow> json_node"
  jnext :: nat
  jmalloc :: "nat \<Rightarrow> bool"

text \<open>One allocation: the answer, and the answers that are left.\<close>

definition jalloc :: "jheap \<Rightarrow> jheap \<times> bool" where
  "jalloc h = (h\<lparr>jmalloc := \<lambda>k. jmalloc h (Suc k)\<rparr>, jmalloc h 0)"

definition empty_node :: json_node where
  "empty_node = \<lparr>elem_type = 0, jname = [], value_str = None, jvalue = 0, elem_no = 0, childlist = [],
     curr_child = None, father = None, comp_no = 0, comp_pointer = None\<rparr>"

definition upd_node :: "nat \<Rightarrow> (json_node \<Rightarrow> json_node) \<Rightarrow> jheap \<Rightarrow> jheap" where
  "upd_node p f h = h\<lparr>jnode := (jnode h)(p := f (jnode h p))\<rparr>"

section \<open>Node operations\<close>

definition json_get_first_child :: "jheap \<Rightarrow> nat \<Rightarrow> jheap \<times> nat option" where
  "json_get_first_child h p =
     (upd_node p (\<lambda>n. n\<lparr>curr_child := Some 0\<rparr>) h,
      if childlist (jnode h p) = [] then None else Some (childlist (jnode h p) ! 0))"

text \<open>
  \<open>None\<close> is the fault of a cursor that is still \<open>NULL\<close>. Stepping past the last child moves to the
  head, whose record is \<open>NULL\<close>.
\<close>

definition json_get_next_child :: "jheap \<Rightarrow> nat \<Rightarrow> (jheap \<times> nat option) option" where
  "json_get_next_child h p =
     (let n = jnode h p
      in case curr_child n of
           None \<Rightarrow> None
         | Some k \<Rightarrow>
             if k = length (childlist n) then Some (h, None)
             else Some (upd_node p (\<lambda>n. n\<lparr>curr_child := Some (k + 1)\<rparr>) h,
                        if k + 1 = length (childlist n) then None else Some (childlist n ! (k + 1))))"

text \<open>The position of the first record of a child, the walk of \<open>json_remove_node\<close>.\<close>

fun child_index :: "nat list \<Rightarrow> nat \<Rightarrow> nat option" where
  "child_index [] c = None"
| "child_index (x # xs) c = (if x = c then Some 0 else map_option Suc (child_index xs c))"

text \<open>
  The cursor leaves a record that is removed for the next one; positions behind the removed record
  move down by one. \<open>None\<close> is the fault of a \<open>NULL\<close> cursor.
\<close>

definition json_remove_node :: "jheap \<Rightarrow> nat \<Rightarrow> (jheap \<times> int) option" where
  "json_remove_node h node =
     (case father (jnode h node) of
        None \<Rightarrow> Some (h, - EINVAL)
      | Some f \<Rightarrow>
          let fn = jnode h f
          in case curr_child fn of
               None \<Rightarrow> None
             | Some k \<Rightarrow>
                 let q = (if k < length (childlist fn) \<and> childlist fn ! k = node then k + 1 else k)
                 in case child_index (childlist fn) node of
                      None \<Rightarrow> Some (upd_node f (\<lambda>n. n\<lparr>curr_child := Some q\<rparr>) h, - EINVAL)
                    | Some j \<Rightarrow>
                        Some (upd_node f (\<lambda>n. n\<lparr>curr_child := Some (if j < q then q - 1 else q),
                                childlist := take j (childlist n) @ drop (j + 1) (childlist n),
                                elem_no := elem_no n - 1\<rparr>) h, 0))"

definition json_get_father :: "jheap \<Rightarrow> nat option \<Rightarrow> nat option" where
  "json_get_father h c = (case c of None \<Rightarrow> None | Some p \<Rightarrow> father (jnode h p))"

definition json_get_type :: "jheap \<Rightarrow> nat option \<Rightarrow> int" where
  "json_get_type h c = (case c of None \<Rightarrow> - EINVAL | Some p \<Rightarrow> elem_type (jnode h p) mod JSON_ELEM_VALUE)"

definition json_is_value :: "jheap \<Rightarrow> nat option \<Rightarrow> int" where
  "json_is_value h c =
     (case c of None \<Rightarrow> - EINVAL | Some p \<Rightarrow> elem_type (jnode h p) div JSON_ELEM_VALUE mod 2 * JSON_ELEM_VALUE)"

definition json_get_valuestr :: "jheap \<Rightarrow> nat option \<Rightarrow> byte list option" where
  "json_get_valuestr h c = (case c of None \<Rightarrow> None | Some p \<Rightarrow> value_str (jnode h p))"

definition json_set_valuestr :: "jheap \<Rightarrow> nat option \<Rightarrow> byte list option \<Rightarrow> jheap \<times> byte list option" where
  "json_set_valuestr h c str =
     (case c of None \<Rightarrow> (h, None)
      | Some p \<Rightarrow> (upd_node p (\<lambda>n. n\<lparr>value_str := str\<rparr>) h, value_str (jnode h p)))"

definition json_get_elemno :: "jheap \<Rightarrow> nat option \<Rightarrow> int" where
  "json_get_elemno h c = (case c of None \<Rightarrow> - EINVAL | Some p \<Rightarrow> elem_no (jnode h p))"

definition json_comp_elemno :: "jheap \<Rightarrow> nat \<Rightarrow> jheap \<times> int" where
  "json_comp_elemno h p =
     (if json_get_type h (Some p) = JSON_ELEM_MAP \<or> json_get_type h (Some p) = JSON_ELEM_ARRAY
      then (upd_node p (\<lambda>n. n\<lparr>elem_no := int (length (childlist n))\<rparr>) h, int (length (childlist (jnode h p))))
      else (h, 0))"

text \<open>The node and its record are two allocations; when the second fails, the node is lost.\<close>

definition new_json_node :: "jheap \<Rightarrow> nat option \<Rightarrow> jheap \<times> nat option" where
  "new_json_node h f =
     (let (h1, ok1) = jalloc h
      in if \<not> ok1 then (h1, None)
         else
           let (h2, ok2) = jalloc h1
           in if \<not> ok2 then (h2, None)
              else
                let p = jnext h2;
                    h3 = h2\<lparr>jnode := (jnode h2)(p := empty_node\<lparr>father := f\<rparr>), jnext := p + 1\<rparr>
                in (case f of
                      None \<Rightarrow> h3
                    | Some q \<Rightarrow> upd_node q (\<lambda>n. n\<lparr>childlist := childlist n @ [p], curr_child := Some (length (childlist n))\<rparr>) h3,
                    Some p))"

definition json_set_type :: "jheap \<Rightarrow> nat option \<Rightarrow> int \<Rightarrow> bool \<Rightarrow> jheap \<times> int" where
  "json_set_type h node datatype isvalue =
     (case node of
        None \<Rightarrow> (h, - EINVAL)
      | Some p \<Rightarrow>
          if datatype < JSON_ELEM_NULL \<or> datatype > JSON_ELEM_ARRAY then (h, - EINVAL)
          else
            let ret = (if isvalue then JSON_ELEM_VALUE else 0);
                old = elem_type (jnode h p);
                h1 = (if isvalue then upd_node p (\<lambda>n. n\<lparr>elem_type := old OR JSON_ELEM_VALUE\<rparr>) h else h)
            in if datatype = JSON_ELEM_NULL then (h1, ret)
               else (upd_node p (\<lambda>n. n\<lparr>elem_type := ret + datatype\<rparr>) h1, ret + datatype))"

text \<open>The flag tells whether the record that is returned is not \<^verbatim>\<open>NULL\<close>.\<close>

definition json_add_child :: "jheap \<Rightarrow> nat \<Rightarrow> nat \<Rightarrow> jheap \<times> bool" where
  "json_add_child h p child =
     (let (h1, ok) = jalloc h
      in (if ok then upd_node p (\<lambda>n. n\<lparr>childlist := child # childlist n, curr_child := Some 0\<rparr>) h1 else h1, ok))"

text \<open>
  \<open>json_find_elem\<close>: the loop over the children; the last argument is the number of children, which
  bounds it.
\<close>

fun find_elem_loop :: "byte list \<Rightarrow> jheap \<Rightarrow> nat \<Rightarrow> nat option \<Rightarrow> nat \<Rightarrow> (jheap \<times> nat option) option" where
  "find_elem_loop name h root this fuel =
     (case this of
        None \<Rightarrow> Some (h, None)
      | Some c \<Rightarrow>
          if strneq DIGEST_SIZE name (jname (jnode h c)) then Some (h, Some c)
          else (case fuel of
                  0 \<Rightarrow> None
                | Suc k \<Rightarrow>
                    (case json_get_next_child h root of
                       None \<Rightarrow> None
                     | Some (h', c') \<Rightarrow> find_elem_loop name h' root c' k)))"

declare find_elem_loop.simps [simp del]

definition json_find_elem :: "byte list \<Rightarrow> jheap \<Rightarrow> nat \<Rightarrow> (jheap \<times> nat option) option" where
  "json_find_elem name h root =
     (if json_get_type h (Some root) \<noteq> JSON_ELEM_MAP then Some (h, None)
      else let (h', c) = json_get_first_child h root
           in find_elem_loop name h' root c (length (childlist (jnode h root))))"

definition json_node_set_no :: "jheap \<Rightarrow> nat option \<Rightarrow> int \<Rightarrow> jheap \<times> int" where
  "json_node_set_no h c no =
     (case c of None \<Rightarrow> (h, - EINVAL) | Some p \<Rightarrow> (upd_node p (\<lambda>n. n\<lparr>comp_no := no\<rparr>) h, 0))"

definition json_node_get_no :: "jheap \<Rightarrow> nat option \<Rightarrow> int" where
  "json_node_get_no h c = (case c of None \<Rightarrow> - EINVAL | Some p \<Rightarrow> comp_no (jnode h p))"

definition json_node_set_pointer :: "jheap \<Rightarrow> nat option \<Rightarrow> nat option \<Rightarrow> jheap \<times> int" where
  "json_node_set_pointer h c ptr =
     (case c of None \<Rightarrow> (h, - EINVAL) | Some p \<Rightarrow> (upd_node p (\<lambda>n. n\<lparr>comp_pointer := ptr\<rparr>) h, 0))"

definition json_node_get_pointer :: "jheap \<Rightarrow> nat option \<Rightarrow> nat option" where
  "json_node_get_pointer h c = (case c of None \<Rightarrow> None | Some p \<Rightarrow> comp_pointer (jnode h p))"

text \<open>
  \<open>json_node_getvalue\<close>: result code and the bytes of the cleared output buffer; \<open>None\<close> where the C
  function returns an uninitialised length. The switch is on the whole \<open>elem_type\<close>.
\<close>

definition json_node_getvalue :: "jheap \<Rightarrow> nat option \<Rightarrow> nat \<Rightarrow> (int \<times> byte list) option" where
  "json_node_getvalue h c max_len =
     (case c of
        None \<Rightarrow> Some (- EINVAL, [])
      | Some p \<Rightarrow>
          let n = jnode h p;
              out = (\<lambda>bs. buf_put (replicate max_len 0) 0 bs);
              num = (\<lambda>k. Some (int k, out (le_bytes k (jvalue n))))
          in if elem_type n = JSON_ELEM_NULL then Some (0, out [])
             else if elem_type n = JSON_ELEM_NUM then
               (if max_len \<ge> 8 then num 8 else if max_len \<ge> 4 then num 4
                else if max_len \<ge> 2 then num 2 else if max_len \<ge> 1 then num 1 else None)
             else if elem_type n = JSON_ELEM_BOOL then
               (if max_len \<ge> 4 then num 4
                else if max_len \<ge> 2 then num 2 else if max_len \<ge> 1 then num 1 else None)
             else if elem_type n = JSON_ELEM_STRING then
               (case value_str n of
                  None \<Rightarrow> Some (0, out [])
                | Some s \<Rightarrow> let t = take max_len (takeWhile (\<lambda>b. b \<noteq> 0) s) in Some (int (length t), out t))
             else Some (- EINVAL, out []))"

definition json_node_getname :: "jheap \<Rightarrow> nat option \<Rightarrow> int \<times> byte list" where
  "json_node_getname h c =
     (case c of
        None \<Rightarrow> (- EINVAL, [])
      | Some p \<Rightarrow>
          let t = take DIGEST_SIZE (takeWhile (\<lambda>b. b \<noteq> 0) (jname (jnode h p)))
          in (int (length t), if length t < DIGEST_SIZE then t @ [0] else t))"

section \<open>Value readers\<close>

text \<open>The byte at \<open>i\<close> of a string; at its length stands the NUL.\<close>

definition rd :: "byte list \<Rightarrow> nat \<Rightarrow> byte" where
  "rd s i = (if i < length s then s ! i else 0)"

definition dec_digit :: "byte \<Rightarrow> bool" where
  "dec_digit c \<longleftrightarrow> 48 \<le> c \<and> c \<le> 57"

text \<open>\<open>for(;i<DIGEST_SIZE;i++)\<close>; the last argument is \<open>DIGEST_SIZE-i\<close>, \<open>None\<close> is \<^verbatim>\<open>-EINVAL\<close>.\<close>

fun num_loop :: "byte list \<Rightarrow> nat \<Rightarrow> int \<Rightarrow> nat \<Rightarrow> (nat \<times> int) option" where
  "num_loop s i v 0 = None"
| "num_loop s i v (Suc k) =
     (if rd s i = 0 then None
      else if IsValueEnd (rd s i) then Some (i, v)
      else if \<not> dec_digit (rd s i) then None
      else num_loop s (i + 1) (wrap32 (v * 10 + (uint (rd s i) - 48))) k)"

definition json_get_numvalue :: "byte list \<Rightarrow> (nat \<times> int) option" where
  "json_get_numvalue s =
     (if rd s 0 \<noteq> 46 then
        (let neg = (rd s 0 = 45); i = (if neg then 1 else 0)
         in if \<not> dec_digit (rd s i) then None
            else case num_loop s (i + 1) (uint (rd s i) - 48) (DIGEST_SIZE - (i + 1)) of
                   None \<Rightarrow> None
                 | Some (j, v) \<Rightarrow> Some (j, if neg then wrap32 (- v) else v))
      else num_loop s 0 0 DIGEST_SIZE)"

text \<open>\<open>Memcmp(json_str,w,length w)==0\<close>\<close>

definition lit :: "byte list \<Rightarrow> byte list \<Rightarrow> bool" where
  "lit s w \<longleftrightarrow> map (rd s) [0..<length w] = w"

definition w_true :: "byte list" where "w_true = [116, 114, 117, 101]"
definition w_True :: "byte list" where "w_True = [84, 114, 117, 101]"
definition w_TRUE :: "byte list" where "w_TRUE = [84, 82, 85, 69]"
definition w_false :: "byte list" where "w_false = [102, 97, 108, 115, 101]"
definition w_False :: "byte list" where "w_False = [70, 97, 108, 115, 101]"
definition w_FALSE :: "byte list" where "w_FALSE = [70, 65, 76, 83, 69]"

text \<open>Every accepted word stores 1, the words for false too.\<close>

definition json_get_boolvalue :: "byte list \<Rightarrow> (nat \<times> int) option" where
  "json_get_boolvalue s =
     (if rd s 0 = 116 then (if lit s w_true then Some (4, 1) else None)
      else if rd s 0 = 84 then (if lit s w_True then Some (4, 1) else if lit s w_TRUE then Some (4, 1) else None)
      else if rd s 0 = 102 then (if lit s w_false then Some (5, 1) else None)
      else if rd s 0 = 70 then (if lit s w_False then Some (5, 1) else if lit s w_FALSE then Some (5, 1) else None)
      else None)"

fun null_loop :: "byte list \<Rightarrow> nat \<Rightarrow> nat \<Rightarrow> nat option" where
  "null_loop s i 0 = Some i"
| "null_loop s i (Suc k) =
     (if rd s i = 0 then None else if IsValueEnd (rd s i) then Some i else null_loop s (i + 1) k)"

definition json_get_nullvalue :: "byte list \<Rightarrow> (nat \<times> byte list) option" where
  "json_get_nullvalue s =
     (if rd s 0 \<noteq> 110 \<or> rd s 0 \<noteq> 78 then None
      else case null_loop s 0 6 of
             None \<Rightarrow> None
           | Some i \<Rightarrow> if i = 0 \<or> i = 6 then None else Some (i, take i s))"

text \<open>
  The loop of \<open>json_get_strvalue\<close>, which every caller hands the \<^verbatim>\<open>value_buffer\<close> of 512 bytes. An escape
  takes the next byte whatever it is; when that byte is the NUL, the loop reads on behind the string.
  Nothing bounds the bytes written either. \<open>StrOver\<close> is the outcome of a read or a write out of bounds.
\<close>

datatype strres = StrErr | StrOver | StrOk nat "byte list"

function str_loop :: "byte list \<Rightarrow> nat \<Rightarrow> byte list \<Rightarrow> strres" where
  "str_loop s i acc =
     (if i < 1024 then
        (if i > length s then StrOver
         else if rd s i = 34 then (if length acc < 512 then StrOk (i + 1) acc else StrOver)
         else if rd s i = 0 then StrErr
         else if length acc \<ge> 512 then StrOver
         else if rd s i = 92 then str_loop s (i + 2) (acc @ [rd s (i + 1)])
         else str_loop s (i + 1) (acc @ [rd s i]))
      else if i = 1024 then StrErr
      else if length acc < 512 then StrOk (i + 1) acc else StrOver)"
  by pat_completeness auto
termination
  by (relation "measure (\<lambda>(s, i, acc). 1024 - i)") auto

declare str_loop.simps [simp del]

definition json_get_strvalue :: "byte list \<Rightarrow> strres" where
  "json_get_strvalue s = (if rd s 0 \<noteq> 34 then StrErr else str_loop s 1 [])"

section \<open>The parser\<close>

text \<open>
  The state between two rounds of the loop of \<open>json_solve_str\<close>, and what a round may do: go on, return
  a code without setting \<^verbatim>\<open>*root\<close>, or access memory out of bounds or through \<^verbatim>\<open>NULL\<close>.
\<close>

record jparse =
  jp_heap :: jheap
  jp_curr :: "nat option"
  jp_off :: nat

datatype jround = JNext jparse | JRet int | JOver

function skip_chars :: "(byte \<Rightarrow> bool) \<Rightarrow> byte list \<Rightarrow> nat \<Rightarrow> nat" where
  "skip_chars skip s off = (if rd s off \<noteq> 0 \<and> skip (rd s off) then skip_chars skip s (off + 1) else off)"
  by pat_completeness auto
termination
  by (relation "measure (\<lambda>(skip, s, off). length s - off)") (auto simp: rd_def split: if_splits)

declare skip_chars.simps [simp del]

text \<open>\<open>JSON_ELEM_NULL\<close>: only the root starts without a type.\<close>

definition json_step_null :: "byte list \<Rightarrow> jparse \<Rightarrow> nat \<Rightarrow> jround" where
  "json_step_null s st p =
     (let off = skip_chars IsSplitChar s (jp_off st)
      in if rd s off = 123 then
           JNext (st\<lparr>jp_heap := fst (json_set_type (jp_heap st) (Some p) JSON_ELEM_MAP True), jp_off := off + 1\<rparr>)
         else if rd s off = 91 then
           JNext (st\<lparr>jp_heap := fst (json_set_type (jp_heap st) (Some p) JSON_ELEM_ARRAY True), jp_off := off + 1\<rparr>)
         else JRet (- EINVAL))"

text \<open>The end of a map or an array: back to the father, which counts the element.\<close>

definition json_close :: "jparse \<Rightarrow> nat \<Rightarrow> jround" where
  "json_close st p =
     (let f = json_get_father (jp_heap st) (Some p);
          h = (case f of None \<Rightarrow> jp_heap st | Some q \<Rightarrow> upd_node q (\<lambda>n. n\<lparr>elem_no := elem_no n + 1\<rparr>) (jp_heap st))
      in JNext \<lparr>jp_heap = h, jp_curr = f, jp_off = jp_off st + 1\<rparr>)"

text \<open>A child that could not be allocated becomes the current node all the same, which ends the loop.\<close>

definition json_open :: "jheap \<Rightarrow> nat option \<Rightarrow> int \<Rightarrow> bool \<Rightarrow> nat \<Rightarrow> jround" where
  "json_open h c ty isvalue off =
     JNext \<lparr>jp_heap = fst (json_set_type h c ty isvalue), jp_curr = c, jp_off = off + 1\<rparr>"

text \<open>
  A scalar read into the child \<open>c\<close> of \<open>p\<close>, which the code does not test for \<^verbatim>\<open>NULL\<close>; the father counts the element.
\<close>

definition json_scalar :: "jheap \<Rightarrow> nat \<Rightarrow> nat option \<Rightarrow> int \<Rightarrow> bool \<Rightarrow> (json_node \<Rightarrow> json_node) \<Rightarrow> nat \<Rightarrow> jround" where
  "json_scalar h p c ty isvalue store off =
     (case c of
        None \<Rightarrow> JOver
      | Some q \<Rightarrow>
          JNext \<lparr>jp_heap = upd_node p (\<lambda>n. n\<lparr>elem_no := elem_no n + 1\<rparr>)
                   (upd_node q store (fst (json_set_type h c ty isvalue))), jp_curr = Some p, jp_off = off\<rparr>)"

text \<open>An \<^verbatim>\<open>int\<close> copied over the low half of the cleared \<^verbatim>\<open>long long\<close> of a node.\<close>

definition set_int :: "int \<Rightarrow> json_node \<Rightarrow> json_node" where
  "set_int v n = n\<lparr>jvalue := v mod 4294967296\<rparr>"

text \<open>
  The value of a member (\<open>arr\<close> false) or of an array element (\<open>arr\<close> true). The two pieces of code
  differ in the flag, in the length they allow for strings, and in the minus sign, which only a
  member may have. A string gets a block of its own; the \<^verbatim>\<open>Memcpy\<close> copies as many bytes from the value buffer as the text had.
\<close>

definition json_value_step :: "bool \<Rightarrow> byte list \<Rightarrow> jheap \<Rightarrow> nat \<Rightarrow> nat option \<Rightarrow> nat \<Rightarrow> jround" where
  "json_value_step arr s h p c off =
     (let t = drop off s
      in if rd s off = 123 then json_open h c JSON_ELEM_MAP arr off
         else if rd s off = 91 then json_open h c JSON_ELEM_ARRAY arr off
         else if rd s off = 34 then
           (case json_get_strvalue t of
              StrErr \<Rightarrow> JRet (- EINVAL)
            | StrOver \<Rightarrow> JOver
            | StrOk ret v \<Rightarrow>
                if ret > DIGEST_SIZE * (if arr then 16 else 24) + 2 then JRet (- EINVAL)
                else if c = None then JOver
                else
                  let (h1, ok) = jalloc h
                  in if \<not> ok then JRet (- ENOMEM)
                     else if ret > 512 then JOver
                     else json_scalar h1 p c JSON_ELEM_STRING arr (\<lambda>n. n\<lparr>value_str := Some v\<rparr>) (off + ret))
         else if (\<not> arr \<and> rd s off = 45) \<or> dec_digit (rd s off) then
           (case json_get_numvalue t of
              None \<Rightarrow> JRet (- EINVAL)
            | Some (ret, v) \<Rightarrow>
                if ret \<ge> DIGEST_SIZE then JRet (int ret)
                else json_scalar h p c JSON_ELEM_NUM arr (set_int v) (off + ret))
         else
           (case json_get_boolvalue t of
              None \<Rightarrow> JRet (- EINVAL)
            | Some (ret, v) \<Rightarrow>
                if ret \<ge> DIGEST_SIZE then JRet (int ret)
                else json_scalar h p c JSON_ELEM_BOOL arr (set_int v) (off + ret)))"

definition json_step_map :: "byte list \<Rightarrow> jparse \<Rightarrow> nat \<Rightarrow> jround" where
  "json_step_map s st p =
     (let off = jp_off st
      in if rd s off = 125 then json_close st p
         else if rd s off = 44 then JNext (st\<lparr>jp_off := off + 1\<rparr>)
         else if rd s off \<noteq> 34 then JRet (- EINVAL)
         else
           let (h, c) = new_json_node (jp_heap st) (Some p)
           in case json_get_strvalue (drop off s) of
                StrErr \<Rightarrow> JRet (- EINVAL)
              | StrOver \<Rightarrow> JOver
              | StrOk ret v \<Rightarrow>
                  if ret \<ge> DIGEST_SIZE then JRet (int ret)
                  else if c = None then JOver
                  else
                    let h1 = upd_node (the c) (\<lambda>n. n\<lparr>jname := takeWhile (\<lambda>b. b \<noteq> 0) v\<rparr>) h;
                        off1 = skip_chars IsIgnoreChar s (off + ret)
                    in if rd s off1 \<noteq> 58 then JRet (- EINVAL)
                       else json_value_step False s h1 p c (skip_chars IsIgnoreChar s (off1 + 1)))"

definition json_step_array :: "byte list \<Rightarrow> jparse \<Rightarrow> nat \<Rightarrow> jround" where
  "json_step_array s st p =
     (let off = jp_off st
      in if rd s off = 93 then json_close st p
         else if rd s off = 44 then JNext (st\<lparr>jp_off := off + 1\<rparr>)
         else let (h, c) = new_json_node (jp_heap st) (Some p) in json_value_step True s h p c off)"

text \<open>One round of the loop, with a current node \<open>p\<close>.\<close>

definition json_round :: "byte list \<Rightarrow> jparse \<Rightarrow> jround" where
  "json_round s st =
     (if IsSplitChar (rd s (jp_off st)) then JNext (st\<lparr>jp_off := jp_off st + 1\<rparr>)
      else
        let p = the (jp_curr st); ty = json_get_type (jp_heap st) (jp_curr st)
        in if ty = JSON_ELEM_NULL then json_step_null s st p
           else if ty = JSON_ELEM_MAP then json_step_map s st p
           else if ty = JSON_ELEM_ARRAY then json_step_array s st p
           else JRet (- EINVAL))"

text \<open>Every round that goes on consumes input; this is why the loop ends.\<close>

lemma skip_chars_le: "off \<le> skip_chars skip s off"
proof (induction skip s off rule: skip_chars.induct)
  case (1 skip s off)
  then show ?case by (subst skip_chars.simps) auto
qed

lemma str_loop_le: "str_loop s i acc = StrOk r v \<Longrightarrow> i < r"
proof (induction s i acc rule: str_loop.induct)
  case (1 s i acc)
  then show ?case by (subst (asm) (3) str_loop.simps) (auto split: if_splits)
qed

lemma strvalue_pos: "json_get_strvalue s = StrOk r v \<Longrightarrow> 0 < r"
  by (auto simp: json_get_strvalue_def dest: str_loop_le split: if_splits)

lemma num_loop_le: "num_loop s i v k = Some (j, w) \<Longrightarrow> i \<le> j"
  by (induction s i v k rule: num_loop.induct) (auto split: if_splits)

lemma numvalue_pos: "json_get_numvalue s = Some (j, v) \<Longrightarrow> rd s 0 = 45 \<or> dec_digit (rd s 0) \<Longrightarrow> 0 < j"
  by (auto simp: json_get_numvalue_def Let_def dec_digit_def dest: num_loop_le split: if_splits option.splits)

lemma boolvalue_pos: "json_get_boolvalue s = Some (j, v) \<Longrightarrow> 0 < j"
  by (auto simp: json_get_boolvalue_def split: if_splits)

lemma rd_drop [simp]: "rd (drop n s) i = rd s (n + i)"
  by (auto simp: rd_def)

lemma json_value_step_off:
  "json_value_step arr s h p c off = JNext st \<Longrightarrow> off < jp_off st"
  by (auto simp: json_value_step_def json_open_def json_scalar_def jalloc_def Let_def
      dest!: strvalue_pos boolvalue_pos numvalue_pos split: if_splits strres.splits option.splits)

lemma json_round_off:
  assumes "json_round s st = JNext st'"
  shows "jp_off st < jp_off st'"
proof -
  have null: "jp_off st < jp_off st'" if "json_step_null s st p = JNext st'" for p
    using that skip_chars_le [of "jp_off st" IsSplitChar s]
    by (auto simp: json_step_null_def Let_def split: if_splits)
  have array: "jp_off st < jp_off st'" if "json_step_array s st p = JNext st'" for p
    using that json_value_step_off
    by (force simp: json_step_array_def json_close_def Let_def split: if_splits prod.splits)
  have map: "jp_off st < jp_off st'" if m: "json_step_map s st p = JNext st'" for p
  proof (cases "rd s (jp_off st) = 34")
    case True
    then obtain h c r v where v: "json_get_strvalue (drop (jp_off st) s) = StrOk r v"
        "json_value_step False s h p c
           (skip_chars IsIgnoreChar s (skip_chars IsIgnoreChar s (jp_off st + r) + 1)) = JNext st'"
      using m by (auto simp: json_step_map_def Let_def split: if_splits prod.splits strres.splits)
    have "jp_off st + r \<le> skip_chars IsIgnoreChar s (jp_off st + r)" by (rule skip_chars_le)
    then show ?thesis
      using json_value_step_off [OF v(2)] skip_chars_le [of "skip_chars IsIgnoreChar s (jp_off st + r) + 1" IsIgnoreChar s]
      by linarith
  next
    case False
    then show ?thesis using m by (auto simp: json_step_map_def json_close_def Let_def split: if_splits)
  qed
  show ?thesis using assms null map array
    by (auto simp: json_round_def Let_def split: if_splits)
qed

text \<open>The outcome of \<open>json_solve_str\<close>: the tree and the offset, a bare return code, or an access out of bounds or through \<^verbatim>\<open>NULL\<close>.\<close>

datatype jsolved = Solved jheap nat | Code int | Overrun

function json_loop :: "byte list \<Rightarrow> jparse \<Rightarrow> jsolved" where
  "json_loop s st =
     (if rd s (jp_off st) = 0 then Solved (jp_heap st) (jp_off st)
      else case json_round s st of
             JRet r \<Rightarrow> Code r
           | JOver \<Rightarrow> Overrun
           | JNext st' \<Rightarrow>
               if jp_curr st' = None then Solved (jp_heap st') (jp_off st') else json_loop s st')"
  by pat_completeness auto
termination
  by (relation "measure (\<lambda>(s, st). length s - jp_off st)")
    (auto simp: rd_def dest: json_round_off split: if_splits)

declare json_loop.simps [simp del]

text \<open>The root, when it can be allocated, is at \<open>jnext h\<close>.\<close>

definition json_solve_str :: "jheap \<Rightarrow> byte list \<Rightarrow> jsolved" where
  "json_solve_str h str =
     (let (h1, root) = new_json_node h None
      in if root = None then Code (- ENOMEM)
         else json_loop str \<lparr>jp_heap = h1, jp_curr = root, jp_off = 0\<rparr>)"

section \<open>The printer\<close>

text \<open>
  The state of the loop of \<open>json_print_str\<close>: the tree, the current node and the bytes written. A round
  goes on, returns a code, or dereferences a \<open>NULL\<close> pointer.
\<close>

record jprint =
  pr_heap :: jheap
  pr_curr :: "nat option"
  pr_out :: "byte list"

datatype jpround = PNext jprint | PRet int jprint | PFault

text \<open>The bytes \<open>Itoa\<close> writes for the value of a node, truncated to \<^verbatim>\<open>int\<close>.\<close>

definition itoa_bytes :: "int \<Rightarrow> byte list" where
  "itoa_bytes v = (case Itoa (\<lambda>_. 0) (wrap32 v) 0 of (m, len) \<Rightarrow> mem_bytes m 0 len)"

definition print_close :: "nat \<Rightarrow> jprint \<Rightarrow> nat \<Rightarrow> byte list \<Rightarrow> jpround" where
  "print_close root st p bs =
     (let st' = st\<lparr>pr_out := pr_out st @ bs\<rparr>
      in if p = root then PRet (int (length (pr_out st'))) st'
         else PNext (st'\<lparr>pr_curr := json_get_father (pr_heap st) (Some p)\<rparr>))"

text \<open>A child is printed, or entered when it is a map or an array.\<close>

definition print_child :: "jprint \<Rightarrow> nat \<Rightarrow> jpround" where
  "print_child st c =
     (let n = jnode (pr_heap st) c; ty = json_get_type (pr_heap st) (Some c)
      in if ty = JSON_ELEM_MAP \<or> ty = JSON_ELEM_ARRAY then
           PNext (st\<lparr>pr_curr := Some c, pr_heap := upd_node c (\<lambda>n. n\<lparr>comp_no := 0\<rparr>) (pr_heap st)\<rparr>)
         else if ty = JSON_ELEM_STRING then
           (case value_str n of
              None \<Rightarrow> PFault
            | Some v \<Rightarrow>
                PNext (st\<lparr>pr_out := pr_out st @ [34] @ take (DIGEST_SIZE * 16) (takeWhile (\<lambda>b. b \<noteq> 0) v) @ [34]\<rparr>))
         else if ty = JSON_ELEM_NUM then PNext (st\<lparr>pr_out := pr_out st @ itoa_bytes (jvalue n)\<rparr>)
         else if ty = JSON_ELEM_BOOL then
           PNext (st\<lparr>pr_out := pr_out st @ (if jvalue n \<noteq> 0 then w_true else w_false)\<rparr>)
         else PRet (- EINVAL) st)"

definition print_name :: "json_node \<Rightarrow> byte list" where
  "print_name n = [34] @ take DIGEST_SIZE (takeWhile (\<lambda>b. b \<noteq> 0) (jname n)) @ [34, 58]"

text \<open>The round on a map (\<open>arr\<close> false, which prints names) or an array; the codes differ in the brackets.\<close>

definition print_round :: "bool \<Rightarrow> nat \<Rightarrow> jprint \<Rightarrow> nat \<Rightarrow> jpround" where
  "print_round arr root st p =
     (let n = jnode (pr_heap st) p;
          bra = (if arr then 91 else 123); ket = (if arr then 93 else 125);
          emit = (\<lambda>st c. print_child (if arr then st
                    else st\<lparr>pr_out := pr_out st @ print_name (jnode (pr_heap st) c)\<rparr>) c);
          count = upd_node p (\<lambda>n. n\<lparr>comp_no := comp_no n + 1\<rparr>)
      in if elem_no n = 0 then print_close root st p [bra, ket]
         else if comp_no n = 0 then
           (case json_get_first_child (pr_heap st) p of
              (h, None) \<Rightarrow> PRet (- EINVAL) (st\<lparr>pr_heap := h, pr_out := pr_out st @ [bra]\<rparr>)
            | (h, Some c) \<Rightarrow> emit (st\<lparr>pr_heap := count h, pr_out := pr_out st @ [bra]\<rparr>) c)
         else if comp_no n = elem_no n then print_close root st p [ket]
         else
           (case json_get_next_child (pr_heap st) p of
              None \<Rightarrow> PFault
            | Some (h, None) \<Rightarrow> PRet (- EINVAL) (st\<lparr>pr_heap := h\<rparr>)
            | Some (h, Some c) \<Rightarrow> emit (st\<lparr>pr_heap := count h, pr_out := pr_out st @ [44]\<rparr>) c))"

definition json_print_round :: "nat \<Rightarrow> jprint \<Rightarrow> jpround" where
  "json_print_round root st =
     (let ty = json_get_type (pr_heap st) (pr_curr st)
      in if ty = JSON_ELEM_MAP then print_round False root st (the (pr_curr st))
         else if ty = JSON_ELEM_ARRAY then print_round True root st (the (pr_curr st))
         else PRet (- EINVAL) st)"

text \<open>
  \<open>do { ... } while(1)\<close>: the loop ends by a return only. \<open>Some None\<close> is a fault, \<open>Some (Some (r, st))\<close>
  the result \<open>r\<close>, \<open>None\<close> a loop that never ends.
\<close>

partial_function (option) json_print_loop :: "nat \<Rightarrow> jprint \<Rightarrow> (int \<times> jprint) option option" where
  "json_print_loop root st =
     (case json_print_round root st of
        PFault \<Rightarrow> Some None
      | PRet r st' \<Rightarrow> Some (Some (r, st'))
      | PNext st' \<Rightarrow> json_print_loop root st')"

definition json_print_str :: "jheap \<Rightarrow> nat \<Rightarrow> (int \<times> jprint) option option" where
  "json_print_str h root =
     json_print_loop root \<lparr>pr_heap = fst (json_node_set_no h (Some root) 0), pr_curr = Some root, pr_out = []\<rparr>"

end
