(* ===== verification/Cube_Json_Text.thy ===== *)
theory Cube_Json_Text
  imports Cube_Json
begin

text \<open>
  Abstract JSON values, their text, and the lemmas on the value readers of \<open>Cube_Json\<close>: each reader
  takes back exactly the text of its value. The parser and the printer are related to these values
  in \<open>Cube_Json_Roundtrip\<close>.
\<close>

section \<open>Values and their text\<close>

text \<open>\<open>VNode True\<close> is an array, whose members have empty names, \<open>VNode False\<close> a map.\<close>

datatype jval = VNum int | VStr "byte list" | VTrue | VNode bool jmems
and jmems = MNil | MCons "byte list" jval jmems

fun render :: "jval \<Rightarrow> byte list" and render_mems :: "bool \<Rightarrow> jmems \<Rightarrow> byte list" where
  "render (VNum n) = itoa_bytes n"
| "render (VStr t) = 34 # t @ [34]"
| "render VTrue = w_true"
| "render (VNode arr ms) = (if arr then 91 else 123) # render_mems arr ms @ [if arr then 93 else 125]"
| "render_mems arr MNil = []"
| "render_mems arr (MCons nm v ms) =
     (if arr then [] else 34 # nm @ [34, 58]) @ render v @ (case ms of MNil \<Rightarrow> [] | _ \<Rightarrow> 44 # render_mems arr ms)"

text \<open>Bytes that stand for themselves inside quotes.\<close>

definition plain :: "byte list \<Rightarrow> bool" where
  "plain t \<longleftrightarrow> list_all (\<lambda>b. b \<noteq> 0 \<and> b \<noteq> 34 \<and> b \<noteq> 92) t"

text \<open>
  The values the parser can hold: numbers in the range of \<^verbatim>\<open>int\<close>, not negative in arrays; plain strings
  that fit the value buffer of 512 bytes with their NUL and the byte copied after it; names of at most 29
  plain bytes.
\<close>

fun wf_val :: "bool \<Rightarrow> jval \<Rightarrow> bool" and wf_mems :: "bool \<Rightarrow> jmems \<Rightarrow> bool" where
  "wf_val arr (VNum n) \<longleftrightarrow> \<bar>n\<bar> \<le> 2147483647 \<and> (arr \<longrightarrow> 0 \<le> n)"
| "wf_val arr (VStr t) \<longleftrightarrow> plain t \<and> length t \<le> 510"
| "wf_val arr VTrue \<longleftrightarrow> True"
| "wf_val arr (VNode arr' ms) \<longleftrightarrow> wf_mems arr' ms"
| "wf_mems arr MNil \<longleftrightarrow> True"
| "wf_mems arr (MCons nm v ms) \<longleftrightarrow>
     plain nm \<and> length nm \<le> 29 \<and> (arr \<longrightarrow> nm = []) \<and> wf_val arr v \<and> wf_mems arr ms"

section \<open>Text at an offset\<close>

definition at :: "byte list \<Rightarrow> nat \<Rightarrow> byte list \<Rightarrow> bool" where
  "at s off t \<longleftrightarrow> (\<exists>r. drop off s = t @ r)"

lemma at_append: "at s off (t @ u) \<longleftrightarrow> at s off t \<and> at s (off + length t) u"
proof
  assume "at s off (t @ u)"
  then obtain r where "drop off s = t @ u @ r" by (auto simp: at_def)
  moreover from this have "drop (off + length t) s = u @ r"
    by (metis add.commute append_eq_conv_conj drop_drop)
  ultimately show "at s off t \<and> at s (off + length t) u" by (auto simp: at_def)
next
  assume "at s off t \<and> at s (off + length t) u"
  then obtain r r' where r: "drop off s = t @ r" "drop (off + length t) s = u @ r'" by (auto simp: at_def)
  from r(1) have "drop (off + length t) s = r" by (metis add.commute append_eq_conv_conj drop_drop)
  with r show "at s off (t @ u)" by (auto simp: at_def)
qed

lemma at_Cons: "at s off (b # t) \<longleftrightarrow> at s off [b] \<and> at s (off + 1) t"
  using at_append [of s off "[b]" t] by simp

lemma at_single: "at s off [b] \<Longrightarrow> rd s off = b \<and> off < length s"
proof -
  assume "at s off [b]"
  then obtain r where "drop off s = b # r" by (auto simp: at_def)
  moreover from this have "off < length s" by (metis drop_all leI list.distinct(1))
  ultimately show ?thesis by (metis rd_def nth_via_drop)
qed

lemma at_rd: "at s off t \<Longrightarrow> i < length t \<Longrightarrow> rd s (off + i) = t ! i \<and> off + i < length s"
proof -
  assume a: "at s off t" "i < length t"
  then have "t = take i t @ [t ! i] @ drop (Suc i) t" by (simp add: id_take_nth_drop)
  then have "at s off (take i t @ [t ! i] @ drop (Suc i) t)" using a(1) by simp
  then have "at s (off + length (take i t)) [t ! i]" unfolding at_append by blast
  then show ?thesis using a(2) at_single by simp
qed

lemma at_length: "at s off t \<Longrightarrow> off + length t \<le> length s \<or> t = []"
  by (cases t rule: rev_cases) (auto simp: at_append dest!: at_single)

section \<open>The readers take back the text\<close>

lemma dec_char_digit: "dec_char b \<Longrightarrow> dec_digit b \<and> uint b - 48 = get_char_value b \<and> \<not> IsValueEnd b \<and> b \<noteq> 45 \<and> b \<noteq> 46"
proof -
  assume "dec_char b"
  then obtain d where d: "0 \<le> d" "d < 10" "b = word_of_int d + 48" by (auto simp: dec_char_def)
  then have u: "uint b = d + 48" by (simp add: uint_digit)
  have "uint b \<noteq> uint c" if "uint c < 48 \<or> 57 < uint c" for c using u d that by auto
  then have "b \<noteq> c" if "uint c < 48 \<or> 57 < uint c" for c using that by metis
  then have "\<not> IsValueEnd b" "b \<noteq> 45" "b \<noteq> 46" unfolding IsValueEnd_def by force+
  moreover have "dec_digit b" using u d by (simp add: dec_digit_def word_le_def)
  moreover have "uint b - 48 = get_char_value b" using u d by (simp add: get_char_value_digit)
  ultimately show ?thesis by blast
qed

lemma num_loop_digits:
  "list_all dec_char ds \<Longrightarrow> at s i (ds @ [e]) \<Longrightarrow> IsValueEnd e \<Longrightarrow> e \<noteq> 0 \<Longrightarrow> length ds < k \<Longrightarrow>
   num_loop s i v k = Some (i + length ds, dec_fold v ds)"
proof (induction ds arbitrary: i v k)
  case Nil
  then obtain k' where "k = Suc k'" by (cases k) auto
  moreover have "rd s i = e" using Nil at_single by simp
  ultimately show ?case using Nil by simp
next
  case (Cons d ds)
  then obtain k' where k: "k = Suc k'" by (cases k) auto
  have rest: "at s (i + 1) (ds @ [e])" and d: "rd s i = d"
    using Cons.prems(2) at_Cons [of s i d "ds @ [e]"] at_single by auto
  have "num_loop s (i + 1) (wrap32 (v * 10 + get_char_value d)) k' = Some (i + 1 + length ds, dec_fold (wrap32 (v * 10 + get_char_value d)) ds)"
    using Cons rest k by (intro Cons.IH) auto
  moreover have "d \<noteq> 0" using Cons.prems(1) dec_char_not by auto
  ultimately show ?case using k d dec_char_digit [of d] Cons.prems(1) by simp
qed

definition itoa_text :: "int \<Rightarrow> byte list" where
  "itoa_text n = (if n < 0 then [45] else []) @ rev (itoa_digits \<bar>n\<bar>)"

lemma mem_bytes_prefix: "mem_bytes (mem_write m a (bs @ cs)) a (length bs) = bs"
  by (rule nth_equalityI) (auto simp: mem_write_apply nth_append)

lemma itoa_bytes_text:
  assumes "\<bar>n\<bar> \<le> 2147483647"
  shows "itoa_bytes n = itoa_text n"
proof -
  let ?ds = "itoa_digits \<bar>n\<bar> @ (if n < 0 then [45] else [])"
  have w: "wrap32 n = n" "(if n < 0 then wrap32 (- n) else n) = \<bar>n\<bar>" using assms by auto
  have "Itoa (\<lambda>_. 0) (wrap32 n) 0 = (mem_write (\<lambda>_. 0) 0 (rev ?ds @ [0]), length (rev ?ds))"
    unfolding Itoa_def w Let_def swap_loop_rev by simp
  then have "itoa_bytes n = rev ?ds" unfolding itoa_bytes_def by (simp only: prod.case mem_bytes_prefix)
  then show ?thesis by (simp add: itoa_text_def)
qed

lemma itoa_text_digits:
  assumes "0 \<le> n" "n \<le> 2147483647"
  shows "\<exists>d ds. rev (itoa_digits n) = d # ds \<and> dec_char d \<and> list_all dec_char ds \<and> length ds \<le> 9
    \<and> dec_fold (uint d - 48) ds = n"
proof -
  have "rev (itoa_digits n) \<noteq> []" using assms by (simp add: itoa_digits_unfold)
  then obtain d ds where r: "rev (itoa_digits n) = d # ds" by (cases "rev (itoa_digits n)") auto
  have "list_all dec_char (rev (itoa_digits n))" using itoa_digits_dec assms by (simp add: list_all_iff)
  then have dec: "dec_char d" "list_all dec_char ds" unfolding r by simp_all
  have "length (rev (itoa_digits n)) \<le> 10" using itoa_digits_length [of n 10] assms by simp
  then have "length ds \<le> 9" unfolding r by simp
  moreover have "dec_fold 0 (d # ds) = n" using dec_fold_itoa assms r by metis
  moreover have "wrap32 (get_char_value d) = uint d - 48"
    using dec dec_char_digit [of d] by (auto simp: dec_char_def get_char_value_digit)
  ultimately show ?thesis using r dec by auto
qed

lemma numvalue_text:
  assumes "\<bar>n\<bar> \<le> 2147483647" "at s 0 (itoa_text n @ [e])" "IsValueEnd e" "e \<noteq> 0"
  shows "json_get_numvalue s = Some (length (itoa_text n), n)"
proof -
  obtain d ds where d: "rev (itoa_digits \<bar>n\<bar>) = d # ds" "dec_char d" "list_all dec_char ds" "length ds \<le> 9"
      "dec_fold (uint d - 48) ds = \<bar>n\<bar>"
    using itoa_text_digits [of "\<bar>n\<bar>"] assms(1) by auto
  let ?i = "if n < 0 then 1 else 0 :: nat"
  have t: "itoa_text n @ [e] = (if n < 0 then [45] else []) @ d # ds @ [e]" by (simp add: itoa_text_def d(1))
  have a: "at s ?i (d # ds @ [e])" using assms(2) unfolding t at_append by (simp split: if_splits)
  have rd: "rd s ?i = d" "at s (?i + 1) (ds @ [e])" using a at_Cons [of s ?i d "ds @ [e]"] at_single by auto
  have neg: "rd s 0 = 45 \<longleftrightarrow> n < 0" "rd s 0 \<noteq> 46"
    using assms(2) rd dec_char_digit [OF d(2)] at_single [of s 0 45] unfolding t at_append by (auto split: if_splits)
  have "num_loop s (?i + 1) (uint d - 48) (DIGEST_SIZE - (?i + 1)) = Some (?i + 1 + length ds, \<bar>n\<bar>)"
    using num_loop_digits [OF d(3) rd(2) assms(3,4)] d(4,5) by simp
  then have "json_get_numvalue s = Some (?i + 1 + length ds, if n < 0 then wrap32 (- \<bar>n\<bar>) else \<bar>n\<bar>)"
    unfolding json_get_numvalue_def using neg rd dec_char_digit [OF d(2)] by (simp add: Let_def)
  moreover have "length (itoa_text n) = ?i + 1 + length ds" by (simp add: itoa_text_def d(1))
  moreover have "(if n < 0 then wrap32 (- \<bar>n\<bar>) else \<bar>n\<bar>) = n" using assms(1) by auto
  ultimately show ?thesis by simp
qed

lemma str_loop_plain:
  "plain t \<Longrightarrow> at s i (t @ [34]) \<Longrightarrow> i + length t < 1024 \<Longrightarrow>
   str_loop s i acc = (if length (acc @ t) < 512 then StrOk (i + length t + 1) (acc @ t) else StrOver)"
proof (induction t arbitrary: i acc)
  case Nil
  then have "rd s i = 34" "i \<le> length s" using at_single by (auto simp: less_imp_le)
  then show ?case using Nil by (simp add: str_loop.simps)
next
  case (Cons b t)
  have b: "rd s i = b" "i \<le> length s" "at s (i + 1) (t @ [34])"
    using Cons.prems(2) at_Cons [of s i b "t @ [34]"] at_single [of s i b] by (auto simp: less_imp_le)
  have "str_loop s (i + 1) (acc @ [b])
      = (if length ((acc @ [b]) @ t) < 512 then StrOk (i + 1 + length t + 1) ((acc @ [b]) @ t) else StrOver)"
    using Cons b by (intro Cons.IH) (auto simp: plain_def)
  then show ?case using Cons.prems b by (subst str_loop.simps) (auto simp: plain_def)
qed

lemma strvalue_text:
  assumes "plain t" "at s 0 (34 # t @ [34])" "length t \<le> 1022"
  shows "json_get_strvalue s = (if length t < 512 then StrOk (length t + 2) t else StrOver)"
proof -
  have "rd s 0 = 34" "at s 1 (t @ [34])" using assms(2) at_Cons [of s 0 34 "t @ [34]"] at_single by auto
  then show ?thesis using str_loop_plain [of t s 1 "[]"] assms by (simp add: json_get_strvalue_def)
qed

lemma strvalue_plain:
  assumes "plain t" "at s 0 (34 # t @ [34])" "length t \<le> 511"
  shows "json_get_strvalue s = StrOk (length t + 2) t"
  using strvalue_text [OF assms(1,2)] assms(3) by simp

lemma at_drop: "at (drop off s) i t \<longleftrightarrow> at s (off + i) t"
  by (simp add: at_def add.commute)

lemma boolvalue_true: "at s 0 w_true \<Longrightarrow> json_get_boolvalue s = Some (4, 1)"
proof -
  assume a: "at s 0 w_true"
  have "map (rd s) [0..<length w_true] = w_true"
    using at_rd [OF a] by (intro nth_equalityI) auto
  moreover have "rd s 0 = 116" using at_rd [OF a, of 0] by (simp add: w_true_def)
  ultimately show ?thesis by (simp add: json_get_boolvalue_def lit_def)
qed

lemma takeWhile_plain [simp]: "plain t \<Longrightarrow> takeWhile (\<lambda>b. b \<noteq> 0) t = t"
  by (auto simp: plain_def list_all_iff takeWhile_eq_all_conv)

lemma skip_chars_stop: "\<not> skip (rd s off) \<Longrightarrow> skip_chars skip s off = off"
  by (simp add: skip_chars.simps)

end
