(* ===== verification/Cube_Json_Roundtrip.thy ===== *)
theory Cube_Json_Roundtrip
  imports Cube_Json_Text
begin

text \<open>
  The parser and the printer of \<^verbatim>\<open>json.c\<close> against the abstract values of \<open>Cube_Json_Text\<close>: the tree
  that \<open>json_solve_str\<close> builds from the text of a value represents the value, and \<open>json_print_str\<close>
  writes the text of the value that a tree represents.
\<close>

section \<open>Trees that represent values\<close>

fun nodes :: "jval \<Rightarrow> nat" and nodes_mems :: "jmems \<Rightarrow> nat" where
  "nodes (VNum n) = 1"
| "nodes (VStr t) = 1"
| "nodes VTrue = 1"
| "nodes (VNode arr ms) = 1 + nodes_mems ms"
| "nodes_mems MNil = 0"
| "nodes_mems (MCons nm v ms) = nodes v + nodes_mems ms"

text \<open>Nodes are allocated in the order of the text: a node, its subtrees, its next sibling.\<close>

fun kids :: "nat \<Rightarrow> jmems \<Rightarrow> nat list" where
  "kids a MNil = []"
| "kids a (MCons nm v ms) = a # kids (a + nodes v) ms"

fun jrep :: "(nat \<Rightarrow> json_node) \<Rightarrow> nat \<Rightarrow> jval \<Rightarrow> bool \<Rightarrow> bool"
  and jreps :: "(nat \<Rightarrow> json_node) \<Rightarrow> nat \<Rightarrow> bool \<Rightarrow> nat \<Rightarrow> jmems \<Rightarrow> bool" where
  "jrep N c (VNum n) fl \<longleftrightarrow> elem_type (N c) = (if fl then 4097 else 1) \<and> jvalue (N c) = n mod 4294967296"
| "jrep N c (VStr t) fl \<longleftrightarrow> elem_type (N c) = (if fl then 4098 else 2) \<and> value_str (N c) = Some t"
| "jrep N c VTrue fl \<longleftrightarrow> elem_type (N c) = (if fl then 4099 else 3) \<and> jvalue (N c) = 1"
| "jrep N c (VNode arr ms) fl \<longleftrightarrow> elem_type (N c) = (if fl then 4096 else 0) + (if arr then 5 else 4)
     \<and> childlist (N c) = kids (c + 1) ms \<and> elem_no (N c) = int (length (kids (c + 1) ms)) \<and> jreps N c arr (c + 1) ms"
| "jreps N p arr a MNil \<longleftrightarrow> True"
| "jreps N p arr a (MCons nm v ms) \<longleftrightarrow> father (N a) = Some p \<and> jname (N a) = nm \<and> jrep N a v arr
     \<and> jreps N p arr (a + nodes v) ms"

lemma nodes_pos: "0 < nodes v"
  by (cases v) auto

text \<open>What a tree says about its value: everything but the cursors of a walk.\<close>

definition shape :: "json_node \<Rightarrow> json_node" where
  "shape n = n\<lparr>curr_child := None, comp_no := 0\<rparr>"

lemma shape_sel:
  "shape m = shape n \<Longrightarrow> elem_type m = elem_type n \<and> jname m = jname n \<and> value_str m = value_str n
     \<and> jvalue m = jvalue n \<and> elem_no m = elem_no n \<and> childlist m = childlist n \<and> father m = father n"
  unfolding shape_def by (cases m; cases n) simp

lemma jrep_shape:
  shows "(\<And>a. c \<le> a \<Longrightarrow> a < c + nodes v \<Longrightarrow> shape (N' a) = shape (N a)) \<Longrightarrow> jrep N' c v fl = jrep N c v fl"
    and "(\<And>a. b \<le> a \<Longrightarrow> a < b + nodes_mems ms \<Longrightarrow> shape (N' a) = shape (N a)) \<Longrightarrow>
      jreps N' p arr b ms = jreps N p arr b ms"
proof (induction v and ms arbitrary: c fl and b p arr rule: jval.induct jmems.induct)
  case (VNum n)
  then show ?case using shape_sel [OF VNum.prems [of c]] by simp
next
  case (VStr t)
  then show ?case using shape_sel [OF VStr.prems [of c]] by simp
next
  case VTrue
  then show ?case using shape_sel [OF VTrue.prems [of c]] by simp
next
  case (VNode arr' ms)
  have "jreps N' c arr' (c + 1) ms = jreps N c arr' (c + 1) ms" using VNode by auto
  then show ?case using shape_sel [OF VNode.prems [of c]] by simp
next
  case (MCons nm v ms)
  have "jrep N' b v arr = jrep N b v arr" using MCons by simp
  moreover have "jreps N' p arr (b + nodes v) ms = jreps N p arr (b + nodes v) ms" using MCons by simp
  ultimately show ?case using shape_sel [OF MCons.prems [of b]] nodes_pos [of v] by simp
qed simp

lemma jrep_cong:
  "(\<And>a. c \<le> a \<Longrightarrow> a < c + nodes v \<Longrightarrow> N' a = N a) \<Longrightarrow> jrep N' c v fl = jrep N c v fl"
  by (rule jrep_shape(1)) simp

lemma jreps_cong:
  "(\<And>a. b \<le> a \<Longrightarrow> a < b + nodes_mems ms \<Longrightarrow> N' a = N a) \<Longrightarrow> jreps N' p arr b ms = jreps N p arr b ms"
  by (rule jrep_shape(2)) simp

section \<open>Heap steps\<close>

lemma upd_node_sel [simp]:
  "jnode (upd_node p f h) = (jnode h)(p := f (jnode h p))" "jnext (upd_node p f h) = jnext h"
  by (simp_all add: upd_node_def)

text \<open>A store in which every allocation succeeds.\<close>

definition jok :: "jheap \<Rightarrow> bool" where
  "jok h \<longleftrightarrow> (\<forall>k. jmalloc h k)"

lemma jok_upd [simp]:
  "jok (upd_node p f h) = jok h" "jok (h\<lparr>jnode := N, jnext := k\<rparr>) = jok h"
  by (simp_all add: jok_def upd_node_def)

lemma jalloc_ok [simp]: "jok h \<Longrightarrow> jalloc h = (h, True)"
  by (cases h) (auto simp: jok_def jalloc_def)

lemma new_json_node_ok:
  "jok h \<Longrightarrow> new_json_node h f =
     (let p = jnext h; h3 = h\<lparr>jnode := (jnode h)(p := empty_node\<lparr>father := f\<rparr>), jnext := p + 1\<rparr>
      in (case f of None \<Rightarrow> h3
          | Some q \<Rightarrow> upd_node q (\<lambda>n. n\<lparr>childlist := childlist n @ [p], curr_child := Some (length (childlist n))\<rparr>) h3,
          Some p))"
  by (simp add: new_json_node_def Let_def)

lemma set_type_heap:
  "0 < ty \<Longrightarrow> ty \<le> 5 \<Longrightarrow>
   jnode (fst (json_set_type h (Some c) ty fl)) = (jnode h)(c := (jnode h c)\<lparr>elem_type := (if fl then 4096 else 0) + ty\<rparr>)
   \<and> jnext (fst (json_set_type h (Some c) ty fl)) = jnext h \<and> jok (fst (json_set_type h (Some c) ty fl)) = jok h"
  by (auto simp: json_set_type_def Let_def)

lemma loop_next:
  "rd s (jp_off st) \<noteq> 0 \<Longrightarrow> json_round s st = JNext st' \<Longrightarrow> jp_curr st' \<noteq> None \<Longrightarrow>
   json_loop s st = json_loop s st'"
  by (subst json_loop.simps) auto

lemma mk_jparse: "st = \<lparr>jp_heap = jp_heap st, jp_curr = jp_curr st, jp_off = jp_off st\<rparr>"
  by simp

text \<open>What a scalar leaves behind.\<close>

definition scalar_heap :: "jheap \<Rightarrow> nat \<Rightarrow> nat \<Rightarrow> int \<Rightarrow> bool \<Rightarrow> (json_node \<Rightarrow> json_node) \<Rightarrow> jheap" where
  "scalar_heap h p c ty fl store =
     upd_node p (\<lambda>n. n\<lparr>elem_no := elem_no n + 1\<rparr>) (upd_node c store (fst (json_set_type h (Some c) ty fl)))"

lemma scalar_heap_sel:
  assumes "0 < ty" "ty \<le> 5" "p \<noteq> c"
  shows "jnext (scalar_heap h p c ty fl store) = jnext h" "jok (scalar_heap h p c ty fl store) = jok h"
    "jnode (scalar_heap h p c ty fl store) c = store ((jnode h c)\<lparr>elem_type := (if fl then 4096 else 0) + ty\<rparr>)"
    "jnode (scalar_heap h p c ty fl store) p = (jnode h p)\<lparr>elem_no := elem_no (jnode h p) + 1\<rparr>"
    "a \<noteq> p \<Longrightarrow> a \<noteq> c \<Longrightarrow> jnode (scalar_heap h p c ty fl store) a = jnode h a"
  using assms set_type_heap [OF assms(1,2), of h c fl] by (simp_all add: scalar_heap_def fun_upd_apply)

lemma json_scalar_heap:
  "json_scalar h p (Some c) ty fl store off = JNext \<lparr>jp_heap = scalar_heap h p c ty fl store, jp_curr = Some p, jp_off = off\<rparr>"
  by (simp add: json_scalar_def scalar_heap_def)

section \<open>The parser builds the tree of the value\<close>

text \<open>
  \<open>took s h p c v arr nm off r\<close>: the round \<open>r\<close>, taken on heap \<open>h\<close> for the new child \<open>c\<close> of \<open>p\<close>, leads
  the loop to offset \<open>off\<close> with the tree of \<open>v\<close> at \<open>c\<close>, counted in \<open>p\<close>, and no other old node changed.
\<close>

definition took :: "byte list \<Rightarrow> jheap \<Rightarrow> nat \<Rightarrow> nat \<Rightarrow> jval \<Rightarrow> bool \<Rightarrow> byte list \<Rightarrow> nat \<Rightarrow> jround \<Rightarrow> bool" where
  "took s h p c v arr nm off r \<longleftrightarrow> (\<exists>st1 h2. r = JNext st1 \<and> jp_curr st1 \<noteq> None
     \<and> json_loop s st1 = json_loop s \<lparr>jp_heap = h2, jp_curr = Some p, jp_off = off\<rparr>
     \<and> jok h2 \<and> jnext h2 = c + nodes v \<and> jrep (jnode h2) c v arr \<and> father (jnode h2 c) = Some p \<and> jname (jnode h2 c) = nm
     \<and> jnode h2 p = (jnode h p)\<lparr>elem_no := elem_no (jnode h p) + 1\<rparr>
     \<and> (\<forall>a<c. a \<noteq> p \<longrightarrow> jnode h2 a = jnode h a))"

definition took_mems :: "byte list \<Rightarrow> jheap \<Rightarrow> nat \<Rightarrow> nat \<Rightarrow> jmems \<Rightarrow> bool \<Rightarrow> bool" where
  "took_mems s h p off ms arr \<longleftrightarrow> (\<exists>h2 cc.
     json_loop s \<lparr>jp_heap = h, jp_curr = Some p, jp_off = off\<rparr>
       = json_loop s \<lparr>jp_heap = h2, jp_curr = Some p, jp_off = off + length (render_mems arr ms)\<rparr>
     \<and> jok h2 \<and> jnext h2 = jnext h + nodes_mems ms \<and> jreps (jnode h2) p arr (jnext h) ms
     \<and> jnode h2 p = (jnode h p)\<lparr>childlist := childlist (jnode h p) @ kids (jnext h) ms,
         elem_no := elem_no (jnode h p) + int (length (kids (jnext h) ms)), curr_child := cc\<rparr>
     \<and> (\<forall>a<jnext h. a \<noteq> p \<longrightarrow> jnode h2 a = jnode h a))"

lemma scalar_took:
  assumes "p < c" "jok h \<and> jnext h = c + 1" "jnode h c = empty_node\<lparr>father := Some p, jname := nm\<rparr>" "0 < ty" "ty \<le> 5"
    and "nodes v = 1" "jrep (jnode (scalar_heap h p c ty arr store)) c v arr"
    and "\<And>n. father (store n) = father n \<and> jname (store n) = jname n"
  shows "took s h p c v arr nm off (json_scalar h p (Some c) ty arr store off)"
proof -
  have "p \<noteq> c" using assms(1) by simp
  note sel = scalar_heap_sel [OF assms(4,5) this]
  show ?thesis
    unfolding took_def json_scalar_heap using assms
    by (intro exI [of _ "\<lparr>jp_heap = scalar_heap h p c ty arr store, jp_curr = Some p, jp_off = off\<rparr>"]
        exI [of _ "scalar_heap h p c ty arr store"]) (auto simp: sel)
qed

lemma num_took:
  assumes "p < c" "jok h \<and> jnext h = c + 1" "jnode h c = empty_node\<lparr>father := Some p, jname := nm\<rparr>"
    and "wf_val arr (VNum n)" "at s off (render (VNum n) @ [e])" "IsValueEnd e" "e \<noteq> 0"
  shows "took s h p c (VNum n) arr nm (off + length (render (VNum n))) (json_value_step arr s h p (Some c) off)"
proof -
  have t: "render (VNum n) = itoa_text n" using assms(4) by (simp add: itoa_bytes_text)
  have v: "json_get_numvalue (drop off s) = Some (length (itoa_text n), n)"
    using assms(4-7) t by (intro numvalue_text) (auto simp: at_drop)
  obtain d ds where d: "rev (itoa_digits \<bar>n\<bar>) = d # ds" "dec_char d" "length ds \<le> 9"
    using itoa_text_digits [of "\<bar>n\<bar>"] assms(4) by auto
  have len: "length (itoa_text n) < 32" using d by (simp add: itoa_text_def)
  have "render (VNum n) @ [e] = [if n < 0 then 45 else d] @ (if n < 0 then d # ds else ds) @ [e]"
    unfolding t itoa_text_def d(1) by simp
  then have "at s off ([if n < 0 then 45 else d] @ (if n < 0 then d # ds else ds) @ [e])" using assms(5) by metis
  then have "at s off [if n < 0 then 45 else d]" unfolding at_append by blast
  then have "rd s off = (if n < 0 then 45 else d)" using at_single by blast
  moreover have "d \<noteq> 123 \<and> d \<noteq> 91 \<and> d \<noteq> 34 \<and> dec_digit d"
    using dec_char_digit [OF d(2)] by (auto simp: dec_digit_def)
  ultimately have "rd s off \<noteq> 123 \<and> rd s off \<noteq> 91 \<and> rd s off \<noteq> 34 \<and> (\<not> arr \<and> rd s off = 45 \<or> dec_digit (rd s off))"
    using assms(4) by (auto simp: dec_digit_def)
  then have "json_value_step arr s h p (Some c) off
      = json_scalar h p (Some c) JSON_ELEM_NUM arr (set_int n) (off + length (itoa_text n))"
    using v len by (simp add: json_value_step_def Let_def)
  moreover have "took s h p c (VNum n) arr nm off' (json_scalar h p (Some c) JSON_ELEM_NUM arr (set_int n) off')" for off'
    using assms(1-3) by (intro scalar_took) (auto simp: scalar_heap_sel set_int_def)
  ultimately show ?thesis using t by simp
qed

lemma str_took:
  assumes "p < c" "jok h \<and> jnext h = c + 1" "jnode h c = empty_node\<lparr>father := Some p, jname := nm\<rparr>"
    and "wf_val arr (VStr t)" "at s off (render (VStr t))"
  shows "took s h p c (VStr t) arr nm (off + length (render (VStr t))) (json_value_step arr s h p (Some c) off)"
proof -
  have v: "json_get_strvalue (drop off s) = StrOk (length t + 2) t"
    using assms(4,5) by (intro strvalue_plain) (auto simp: at_drop)
  have "rd s off = 34" using assms(5) at_Cons [of s off 34 "t @ [34]"] at_single by auto
  then have "json_value_step arr s h p (Some c) off
      = json_scalar h p (Some c) JSON_ELEM_STRING arr (\<lambda>n. n\<lparr>value_str := Some t\<rparr>) (off + (length t + 2))"
    using v assms(2,4) by (simp add: json_value_step_def Let_def)
  moreover have "took s h p c (VStr t) arr nm off' (json_scalar h p (Some c) JSON_ELEM_STRING arr (\<lambda>n. n\<lparr>value_str := Some t\<rparr>) off')" for off'
    using assms(1-3) by (intro scalar_took) (auto simp: scalar_heap_sel)
  ultimately show ?thesis by simp
qed

lemma true_took:
  assumes "p < c" "jok h \<and> jnext h = c + 1" "jnode h c = empty_node\<lparr>father := Some p, jname := nm\<rparr>"
    and "at s off (render VTrue)"
  shows "took s h p c VTrue arr nm (off + length (render VTrue)) (json_value_step arr s h p (Some c) off)"
proof -
  have v: "json_get_boolvalue (drop off s) = Some (4, 1)"
    using assms(4) by (intro boolvalue_true) (simp add: at_drop)
  have "rd s off = 116" using at_rd [OF assms(4), of 0] by (simp add: w_true_def)
  then have "json_value_step arr s h p (Some c) off = json_scalar h p (Some c) JSON_ELEM_BOOL arr (set_int 1) (off + 4)"
    using v by (simp add: json_value_step_def Let_def dec_digit_def)
  moreover have "took s h p c VTrue arr nm off' (json_scalar h p (Some c) JSON_ELEM_BOOL arr (set_int 1) off')" for off'
    using assms(1-3) by (intro scalar_took) (auto simp: scalar_heap_sel set_int_def)
  moreover have "length (render VTrue) = 4" by (simp add: w_true_def)
  ultimately show ?thesis by metis
qed

text \<open>A map or an array: the opening bracket, the members, and the closing bracket that leads back to \<open>p\<close>.\<close>

lemma node_took:
  assumes "p < c" "jok h \<and> jnext h = c + 1" "jnode h c = empty_node\<lparr>father := Some p, jname := nm\<rparr>"
    and at: "at s off (render (VNode arr' ms))"
    and mems: "\<And>h. jok h \<and> jnext h = c + 1 \<Longrightarrow> elem_type (jnode h c) mod 4096 = (if arr' then 5 else 4) \<Longrightarrow>
      took_mems s h c (off + 1) ms arr'"
  shows "took s h p c (VNode arr' ms) arr nm (off + length (render (VNode arr' ms))) (json_value_step arr s h p (Some c) off)"
proof -
  let ?ty = "if arr' then 5 else 4 :: int" and ?ket = "if arr' then 93 else 125 :: byte"
  let ?h1 = "fst (json_set_type h (Some c) ?ty arr)"
  let ?stop = "off + 1 + length (render_mems arr' ms)"
  have open1: "at s off [if arr' then 91 else 123]" and close1: "at s ?stop [?ket]"
    using at at_Cons [of s off "if arr' then 91 else 123" "render_mems arr' ms @ [?ket]"]
    by (auto simp: at_append)
  have o: "rd s off = (if arr' then 91 else 123)" using at_single [OF open1] by blast
  have k: "rd s ?stop = ?ket" using at_single [OF close1] by blast
  have step: "json_value_step arr s h p (Some c) off
      = JNext \<lparr>jp_heap = ?h1, jp_curr = Some c, jp_off = off + 1\<rparr>"
    using o by (cases arr') (simp_all add: json_value_step_def json_open_def)
  have h1: "jnode ?h1 = (jnode h)(c := (jnode h c)\<lparr>elem_type := (if arr then 4096 else 0) + ?ty\<rparr>)" "jok ?h1 \<and> jnext ?h1 = c + 1"
    using set_type_heap [of ?ty h c arr] assms(2) by auto
  obtain h2 cc where m: "json_loop s \<lparr>jp_heap = ?h1, jp_curr = Some c, jp_off = off + 1\<rparr>
        = json_loop s \<lparr>jp_heap = h2, jp_curr = Some c, jp_off = ?stop\<rparr>"
      "jok h2 \<and> jnext h2 = c + 1 + nodes_mems ms" "jreps (jnode h2) c arr' (c + 1) ms"
      "jnode h2 c = (jnode ?h1 c)\<lparr>childlist := childlist (jnode ?h1 c) @ kids (c + 1) ms,
         elem_no := elem_no (jnode ?h1 c) + int (length (kids (c + 1) ms)), curr_child := cc\<rparr>"
      "\<forall>a<c + 1. a \<noteq> c \<longrightarrow> jnode h2 a = jnode ?h1 a"
    using mems [of ?h1] h1 unfolding took_mems_def by (cases arr) auto
  have c: "elem_type (jnode h2 c) = (if arr then 4096 else 0) + ?ty" "childlist (jnode h2 c) = kids (c + 1) ms"
    "elem_no (jnode h2 c) = int (length (kids (c + 1) ms))" "father (jnode h2 c) = Some p" "jname (jnode h2 c) = nm"
    using m(4) h1(1) assms(3) by (simp_all add: empty_node_def)
  let ?h3 = "upd_node p (\<lambda>n. n\<lparr>elem_no := elem_no n + 1\<rparr>) h2"
  have "json_get_type h2 (Some c) = ?ty" using c(1) by (simp add: json_get_type_def)
  then have "json_round s \<lparr>jp_heap = h2, jp_curr = Some c, jp_off = ?stop\<rparr>
      = JNext \<lparr>jp_heap = ?h3, jp_curr = Some p, jp_off = ?stop + 1\<rparr>"
    using k c(4) by (cases arr') (simp_all add: json_round_def IsSplitChar_def json_step_map_def json_step_array_def
        json_close_def json_get_father_def)
  then have "json_loop s \<lparr>jp_heap = h2, jp_curr = Some c, jp_off = ?stop\<rparr>
      = json_loop s \<lparr>jp_heap = ?h3, jp_curr = Some p, jp_off = ?stop + 1\<rparr>"
    using k by (intro loop_next) auto
  moreover have "jreps (jnode ?h3) c arr' (c + 1) ms"
    using m(3) assms(1) by (subst jreps_cong [of _ _ _ "jnode h2"]) (auto simp: fun_upd_apply)
  moreover have "jnode h2 a = jnode h a" if "a < c" for a using m(5) h1(1) that by (simp add: fun_upd_apply)
  ultimately show ?thesis unfolding step took_def using m c assms(1)
    by (intro exI [of _ "\<lparr>jp_heap = ?h1, jp_curr = Some c, jp_off = off + 1\<rparr>"] exI [of _ ?h3])
      (auto simp: fun_upd_apply)
qed

text \<open>The bytes a value can begin with.\<close>

lemma render_first:
  assumes "wf_val arr v"
  shows "\<exists>b bs. render v = b # bs \<and> (b \<in> {34, 116, 91, 123} \<or> \<not> arr \<and> b = 45 \<or> dec_digit b)"
proof (cases v)
  case (VNum n)
  obtain d ds where "rev (itoa_digits \<bar>n\<bar>) = d # ds" "dec_char d"
    using itoa_text_digits [of "\<bar>n\<bar>"] assms VNum by auto
  then show ?thesis using assms VNum dec_char_digit [of d] by (auto simp: itoa_bytes_text itoa_text_def)
qed (auto simp: w_true_def)

lemma first_not_split: "b \<in> {34, 116, 91, 123} \<or> b = 45 \<or> dec_digit b \<Longrightarrow>
    \<not> IsSplitChar b \<and> \<not> IsIgnoreChar b \<and> b \<noteq> 0 \<and> b \<noteq> 93 \<and> b \<noteq> 44"
  by (auto simp: IsSplitChar_def IsIgnoreChar_def dec_digit_def)

text \<open>The round that creates the next member or element of \<open>p\<close> and reads its value.\<close>

definition child_heap :: "jheap \<Rightarrow> nat \<Rightarrow> byte list \<Rightarrow> jheap" where
  "child_heap h p nm = upd_node (jnext h) (\<lambda>n. n\<lparr>jname := nm\<rparr>) (fst (new_json_node h (Some p)))"

lemma child_heap_sel:
  assumes "jok h \<and> p < jnext h"
  shows "jok (child_heap h p nm) \<and> jnext (child_heap h p nm) = jnext h + 1"
    "jnode (child_heap h p nm) (jnext h) = empty_node\<lparr>father := Some p, jname := nm\<rparr>"
    "jnode (child_heap h p nm) p = (jnode h p)\<lparr>childlist := childlist (jnode h p) @ [jnext h],
       curr_child := Some (length (childlist (jnode h p)))\<rparr>"
    "a \<noteq> p \<Longrightarrow> a \<noteq> jnext h \<Longrightarrow> jnode (child_heap h p nm) a = jnode h a"
  using assms by (auto simp: child_heap_def new_json_node_ok Let_def fun_upd_apply)

lemma member_round:
  assumes "jok h \<and> elem_type (jnode h p) mod 4096 = (if arr then 5 else 4)"
    and "at s off ((if arr then [] else 34 # nm @ [34, 58]) @ render v)" "wf_val arr v"
    and "plain nm" "length nm \<le> 29" "arr \<longrightarrow> nm = []"
  shows "json_round s \<lparr>jp_heap = h, jp_curr = Some p, jp_off = off\<rparr>
      = json_value_step arr s (child_heap h p nm) p (Some (jnext h)) (off + (if arr then 0 else length nm + 3))
    \<and> rd s off \<noteq> 0"
proof -
  obtain b bs where b: "render v = b # bs" "b \<in> {34, 116, 91, 123} \<or> \<not> arr \<and> b = 45 \<or> dec_digit b"
    using render_first [OF assms(3)] by blast
  have nb: "\<not> IsSplitChar b \<and> \<not> IsIgnoreChar b \<and> b \<noteq> 0 \<and> b \<noteq> 93 \<and> b \<noteq> 44"
    using b(2) first_not_split [of b] by blast
  have ty: "json_get_type h (Some p) = (if arr then 5 else 4)" using assms(1) by (simp add: json_get_type_def)
  obtain h0 where new: "new_json_node h (Some p) = (h0, Some (jnext h))" using assms(1) by (simp add: new_json_node_ok Let_def)
  show ?thesis
  proof (cases arr)
    case True
    then have "rd s off = b" using assms(2) b(1) at_Cons [of s off b bs] at_single by auto
    moreover have "fst (new_json_node h (Some p)) = child_heap h p nm"
      using assms(1,6) True by (simp add: child_heap_def new_json_node_ok Let_def upd_node_def empty_node_def fun_upd_apply)
        (metis fun_upd_twist)
    ultimately have "new_json_node h (Some p) = (child_heap h p nm, Some (jnext h))" "rd s off = b"
      using new by (simp_all add: prod_eq_iff)
    then show ?thesis using True ty nb
      by (simp add: json_round_def json_step_array_def)
  next
    case False
    let ?e = "off + (length nm + 2)"
    have a: "at s off (34 # nm @ [34])" "at s ?e [58]" "at s (?e + 1) [b]"
    proof -
      have "at s off (((34 # nm @ [34]) @ [58]) @ [b] @ bs)" using assms(2) False b(1) by simp
      then show "at s off (34 # nm @ [34])" "at s ?e [58]" "at s (?e + 1) [b]"
        unfolding at_append by auto
    qed
    have r: "rd s off = 34" "rd s ?e = 58" "rd s (?e + 1) = b"
      using a at_Cons [of s off 34 "nm @ [34]"] at_single by auto
    have v: "json_get_strvalue (drop off s) = StrOk (length nm + 2) nm"
      using assms(4,5) a(1) by (intro strvalue_plain) (auto simp: at_drop)
    have skip: "skip_chars IsIgnoreChar s ?e = ?e" "skip_chars IsIgnoreChar s (?e + 1) = ?e + 1"
      using r nb by (auto intro!: skip_chars_stop simp: IsIgnoreChar_def)
    have "json_step_map s \<lparr>jp_heap = h, jp_curr = Some p, jp_off = off\<rparr> p
        = json_value_step False s (child_heap h p nm) p (Some (jnext h)) (?e + 1)"
      unfolding json_step_map_def Let_def using r v skip new assms(4,5)
      by (simp add: child_heap_def)
    then show ?thesis using False ty r
      by (simp add: json_round_def IsSplitChar_def numeral_3_eq_3)
  qed
qed

lemma kids_frame: "length (kids a ms) = length (kids b ms)"
  by (induction ms arbitrary: a b rule: jmems.induct [where ?P1.0 = "\<lambda>_. True"]) auto

text \<open>One member and the rest of the members, put together.\<close>

lemma mems_cons_took:
  assumes p: "jok h \<and> p < jnext h" and ty: "elem_type (jnode h p) mod 4096 = (if arr then 5 else 4)"
    and wf: "wf_mems arr (MCons nm v ms)"
    and at: "at s off (render_mems arr (MCons nm v ms) @ [if arr then 93 else 125])"
    and val: "\<And>h p c off e. p < c \<Longrightarrow> jok h \<and> jnext h = c + 1 \<Longrightarrow> jnode h c = empty_node\<lparr>father := Some p, jname := nm\<rparr> \<Longrightarrow>
      at s off (render v @ [e]) \<Longrightarrow> IsValueEnd e \<Longrightarrow> e \<noteq> 0 \<Longrightarrow>
      took s h p c v arr nm (off + length (render v)) (json_value_step arr s h p (Some c) off)"
    and rest: "\<And>h off. jok h \<and> p < jnext h \<Longrightarrow> elem_type (jnode h p) mod 4096 = (if arr then 5 else 4) \<Longrightarrow>
      at s off (render_mems arr ms @ [if arr then 93 else 125]) \<Longrightarrow> took_mems s h p off ms arr"
  shows "took_mems s h p off (MCons nm v ms) arr"
proof -
  let ?n = "if arr then 0 else length nm + 3" and ?ket = "if arr then 93 else 125 :: byte"
  let ?c = "jnext h" and ?h1 = "child_heap h p nm"
  let ?e = "case ms of MNil \<Rightarrow> ?ket | _ \<Rightarrow> 44"
  let ?tail = "case ms of MNil \<Rightarrow> [] | _ \<Rightarrow> render_mems arr ms @ [?ket]"
  let ?off1 = "off + ?n + length (render v)"
  have len: "length (if arr then [] else 34 # nm @ [34, 58]) = ?n" by simp
  have "at s off ((if arr then [] else 34 # nm @ [34, 58]) @ (render v @ [?e]) @ ?tail)"
    using at by (cases ms) simp_all
  then have a: "at s off ((if arr then [] else 34 # nm @ [34, 58]) @ render v)" "at s (off + ?n) (render v @ [?e])"
      "at s (?off1 + 1) ?tail"
    unfolding at_append len by (auto simp: add.assoc)
  have e: "IsValueEnd ?e" "?e \<noteq> 0" by (auto simp: IsValueEnd_def split: jmems.split)
  note sel = child_heap_sel [OF p, where nm = nm]
  have round: "json_round s \<lparr>jp_heap = h, jp_curr = Some p, jp_off = off\<rparr> = json_value_step arr s ?h1 p (Some ?c) (off + ?n)"
      "rd s off \<noteq> 0"
    using member_round [OF conjI [OF conjunct1 [OF p] ty] a(1)] wf by auto
  obtain st1 h2 where t: "json_value_step arr s ?h1 p (Some ?c) (off + ?n) = JNext st1" "jp_curr st1 \<noteq> None"
      "json_loop s st1 = json_loop s \<lparr>jp_heap = h2, jp_curr = Some p, jp_off = ?off1\<rparr>"
      "jok h2 \<and> jnext h2 = ?c + nodes v" "jrep (jnode h2) ?c v arr" "father (jnode h2 ?c) = Some p" "jname (jnode h2 ?c) = nm"
      "jnode h2 p = (jnode ?h1 p)\<lparr>elem_no := elem_no (jnode ?h1 p) + 1\<rparr>"
      "\<forall>a<?c. a \<noteq> p \<longrightarrow> jnode h2 a = jnode ?h1 a"
    using val [OF conjunct2 [OF p] sel(1) sel(2) a(2) e] unfolding took_def by blast
  have first: "json_loop s \<lparr>jp_heap = h, jp_curr = Some p, jp_off = off\<rparr>
      = json_loop s \<lparr>jp_heap = h2, jp_curr = Some p, jp_off = ?off1\<rparr>"
    using loop_next [of s "\<lparr>jp_heap = h, jp_curr = Some p, jp_off = off\<rparr>" st1] round t(1-3) by simp
  have old: "jnode h2 a = jnode h a" if "a < ?c" "a \<noteq> p" for a using t(9) sel(4) [of a] that by simp
  show ?thesis
  proof (cases "ms = MNil")
    case True
    then show ?thesis unfolding took_mems_def
      using first t(4-8) sel(3) old
      by (intro exI [of _ h2] exI [of _ "Some (length (childlist (jnode h p)))"]) (auto simp: add.assoc numeral_3_eq_3)
  next
    case False
    then have ms: "?e = 44" "?tail = render_mems arr ms @ [?ket]" by (cases ms; simp)+
    have "rd s ?off1 = 44" using a(2) ms(1) at_single unfolding at_append by (simp add: add.assoc)
    then have comma: "json_loop s \<lparr>jp_heap = h2, jp_curr = Some p, jp_off = ?off1\<rparr>
        = json_loop s \<lparr>jp_heap = h2, jp_curr = Some p, jp_off = ?off1 + 1\<rparr>"
      by (intro loop_next) (auto simp: json_round_def IsSplitChar_def)
    have "took_mems s h2 p (?off1 + 1) ms arr"
      using a(3) ms(2) t(4,8) sel(3) ty p nodes_pos [of v] by (intro rest) auto
    then obtain h3 cc where m: "json_loop s \<lparr>jp_heap = h2, jp_curr = Some p, jp_off = ?off1 + 1\<rparr>
          = json_loop s \<lparr>jp_heap = h3, jp_curr = Some p, jp_off = ?off1 + 1 + length (render_mems arr ms)\<rparr>"
        "jok h3 \<and> jnext h3 = jnext h2 + nodes_mems ms" "jreps (jnode h3) p arr (jnext h2) ms"
        "jnode h3 p = (jnode h2 p)\<lparr>childlist := childlist (jnode h2 p) @ kids (jnext h2) ms,
           elem_no := elem_no (jnode h2 p) + int (length (kids (jnext h2) ms)), curr_child := cc\<rparr>"
        "\<forall>a<jnext h2. a \<noteq> p \<longrightarrow> jnode h3 a = jnode h2 a"
      unfolding took_mems_def by blast
    have keep: "jnode h3 a = jnode h2 a" if "?c \<le> a" "a < ?c + nodes v" for a using m(5) t(4) p that by auto
    have "jrep (jnode h3) ?c v arr" using jrep_cong [of ?c v "jnode h3" "jnode h2"] keep t(5) by simp
    moreover have "jnode h3 ?c = jnode h2 ?c" using keep [of ?c] nodes_pos [of v] by simp
    moreover have "json_loop s \<lparr>jp_heap = h, jp_curr = Some p, jp_off = off\<rparr>
        = json_loop s \<lparr>jp_heap = h3, jp_curr = Some p, jp_off = off + length (render_mems arr (MCons nm v ms))\<rparr>"
    proof -
      have off: "off + length (render_mems arr (MCons nm v ms)) = ?off1 + 1 + length (render_mems arr ms)"
        using False by (cases ms) auto
      show ?thesis unfolding off by (simp only: first comma m(1))
    qed
    moreover have "\<forall>a<?c. a \<noteq> p \<longrightarrow> jnode h3 a = jnode h a" using m(5) t(4) old by auto
    ultimately show ?thesis unfolding took_mems_def
      using m(2-4) t(4,6-8) sel(3)
      by (intro exI [of _ h3] exI [of _ cc]) simp
  qed
qed

lemma parse_text:
  shows "wf_val arr v \<Longrightarrow> p < c \<Longrightarrow> jok h \<and> jnext h = c + 1 \<Longrightarrow> jnode h c = empty_node\<lparr>father := Some p, jname := nm\<rparr> \<Longrightarrow>
      at s off (render v @ [e]) \<Longrightarrow> IsValueEnd e \<Longrightarrow> e \<noteq> 0 \<Longrightarrow>
      took s h p c v arr nm (off + length (render v)) (json_value_step arr s h p (Some c) off)"
    and "wf_mems arr ms \<Longrightarrow> jok h \<and> p < jnext h \<Longrightarrow> elem_type (jnode h p) mod 4096 = (if arr then 5 else 4) \<Longrightarrow>
      at s off (render_mems arr ms @ [if arr then 93 else 125]) \<Longrightarrow> took_mems s h p off ms arr"
proof (induction v and ms arbitrary: arr p c h nm off e and arr p h off rule: jval.induct jmems.induct)
  case (VNum n)
  then show ?case by (intro num_took) auto
next
  case (VStr t)
  then show ?case by (intro str_took) (auto simp: at_append [of s off "34 # t @ [34]" "[e]", simplified])
next
  case VTrue
  then show ?case by (intro true_took) (auto simp: at_append)
next
  case (VNode arr' ms)
  have at: "at s off (render (VNode arr' ms))" using VNode.prems(5) unfolding at_append by blast
  then have "at s (off + 1) (render_mems arr' ms @ [if arr' then 93 else 125])"
    using at_Cons [of s off "if arr' then 91 else 123" "render_mems arr' ms @ [if arr' then 93 else 125]"] by simp
  then show ?case using VNode at by (intro node_took) auto
next
  case MNil
  then show ?case unfolding took_mems_def
    by (intro exI [of _ h] exI [of _ "curr_child (jnode h p)"]) simp
next
  case (MCons nm v ms)
  show ?case
  proof (rule mems_cons_took [OF MCons.prems(2,3,1,4)])
    show "took s h p c v arr nm (off + length (render v)) (json_value_step arr s h p (Some c) off)"
      if "p < c" "jok h \<and> jnext h = c + 1" "jnode h c = empty_node\<lparr>father := Some p, jname := nm\<rparr>"
        "at s off (render v @ [e])" "IsValueEnd e" "e \<noteq> 0" for h p c off e
      using that MCons.prems(1) by (intro MCons.IH(1)) auto
    show "took_mems s h p off ms arr"
      if "jok h \<and> p < jnext h" "elem_type (jnode h p) mod 4096 = (if arr then 5 else 4)"
        "at s off (render_mems arr ms @ [if arr then 93 else 125])" for h off
      using that MCons.prems(1) by (intro MCons.IH(2)) auto
  qed
qed

lemma json_solve_text:
  assumes "wf_mems arr ms" "jok h"
  shows "\<exists>h'. json_solve_str h (render (VNode arr ms) @ rest) = Solved h' (length (render (VNode arr ms)))
    \<and> jrep (jnode h') (jnext h) (VNode arr ms) True \<and> father (jnode h' (jnext h)) = None
    \<and> (\<forall>a<jnext h. jnode h' a = jnode h a)"
proof -
  let ?s = "render (VNode arr ms) @ rest" and ?r = "jnext h"
  let ?ty = "if arr then 5 else 4 :: int" and ?ket = "if arr then 93 else 125 :: byte"
  let ?h1 = "h\<lparr>jnode := (jnode h)(?r := empty_node), jnext := ?r + 1\<rparr>"
  let ?h2 = "fst (json_set_type ?h1 (Some ?r) ?ty True)" and ?stop = "1 + length (render_mems arr ms)"
  have n: "new_json_node h None = (?h1, Some ?r)" using assms(2) by (simp add: new_json_node_ok empty_node_def Let_def)
  have ok: "jok ?h1" using assms(2) by simp
  have h2: "jnode ?h2 = (jnode h)(?r := empty_node\<lparr>elem_type := 4096 + ?ty\<rparr>)" "jok ?h2 \<and> jnext ?h2 = ?r + 1"
    using set_type_heap [of ?ty ?h1 ?r True] ok by auto
  have "at ?s 0 ([if arr then 91 else 123] @ (render_mems arr ms @ [?ket]) @ rest)" by (simp add: at_def)
  then have a: "rd ?s 0 = (if arr then 91 else 123)" "at ?s 1 (render_mems arr ms @ [?ket])"
    unfolding at_append using at_single by auto
  have k: "rd ?s ?stop = ?ket" using a(2) at_single unfolding at_append by simp
  have "json_round ?s \<lparr>jp_heap = ?h1, jp_curr = Some ?r, jp_off = 0\<rparr> = JNext \<lparr>jp_heap = ?h2, jp_curr = Some ?r, jp_off = 1\<rparr>"
    using a(1) skip_chars_stop [of IsSplitChar ?s 0]
    by (cases arr) (simp_all add: json_round_def IsSplitChar_def json_get_type_def json_step_null_def empty_node_def)
  then have first: "json_solve_str h ?s = json_loop ?s \<lparr>jp_heap = ?h2, jp_curr = Some ?r, jp_off = 1\<rparr>"
    using a(1) loop_next [of ?s "\<lparr>jp_heap = ?h1, jp_curr = Some ?r, jp_off = 0\<rparr>" "\<lparr>jp_heap = ?h2, jp_curr = Some ?r, jp_off = 1\<rparr>"]
    by (auto simp: json_solve_str_def n)
  have "took_mems ?s ?h2 ?r 1 ms arr"
    using assms(1) a(2) h2 by (intro parse_text(2)) auto
  then obtain h3 cc where m: "json_loop ?s \<lparr>jp_heap = ?h2, jp_curr = Some ?r, jp_off = 1\<rparr>
        = json_loop ?s \<lparr>jp_heap = h3, jp_curr = Some ?r, jp_off = ?stop\<rparr>"
      "jreps (jnode h3) ?r arr (?r + 1) ms"
      "jnode h3 ?r = (jnode ?h2 ?r)\<lparr>childlist := childlist (jnode ?h2 ?r) @ kids (?r + 1) ms,
         elem_no := elem_no (jnode ?h2 ?r) + int (length (kids (?r + 1) ms)), curr_child := cc\<rparr>"
      "\<forall>a<?r + 1. a \<noteq> ?r \<longrightarrow> jnode h3 a = jnode ?h2 a"
    using h2(2) unfolding took_mems_def by auto
  have r: "elem_type (jnode h3 ?r) = 4096 + ?ty" "father (jnode h3 ?r) = None"
    "childlist (jnode h3 ?r) = kids (?r + 1) ms" "elem_no (jnode h3 ?r) = int (length (kids (?r + 1) ms))"
    using m(3) h2(1) by (simp_all add: empty_node_def)
  then have "json_get_type h3 (Some ?r) = ?ty" by (simp add: json_get_type_def)
  then have "json_round ?s \<lparr>jp_heap = h3, jp_curr = Some ?r, jp_off = ?stop\<rparr>
      = JNext \<lparr>jp_heap = h3, jp_curr = None, jp_off = ?stop + 1\<rparr>"
    using k r(2) by (cases arr) (simp_all add: json_round_def IsSplitChar_def json_step_map_def json_step_array_def
        json_close_def json_get_father_def)
  then have "json_loop ?s \<lparr>jp_heap = h3, jp_curr = Some ?r, jp_off = ?stop\<rparr> = Solved h3 (?stop + 1)"
    using k by (subst json_loop.simps) simp
  then have "json_solve_str h ?s = Solved h3 (length (render (VNode arr ms)))" using first m(1) by simp
  moreover have "\<forall>a<?r. jnode h3 a = jnode h a" using m(4) h2(1) by (simp add: fun_upd_apply)
  ultimately show ?thesis using r m(2) by (intro exI [of _ h3]) auto
qed

text \<open>(C22) 
  The parser builds, from the text of any map or array whose values it can hold, the tree of that
  value: \<open>json_solve_str\<close> ends behind the closing bracket, whatever follows, the root represents the
  value, and no node allocated before is changed.
\<close>

theorem json_solve_str_correct:
  assumes "wf_mems arr ms" "\<forall>k. jmalloc h k"
  shows "\<exists>h'. json_solve_str h (render (VNode arr ms) @ rest) = Solved h' (length (render (VNode arr ms)))
    \<and> jrep (jnode h') (jnext h) (VNode arr ms) True \<and> father (jnode h' (jnext h)) = None
    \<and> (\<forall>a<jnext h. jnode h' a = jnode h a)"
  using assms unfolding jok_def [symmetric] by (rule json_solve_text)

theorem json_solve_str_correct_witness:
  "\<exists>h'. json_solve_str \<lparr>jnode = \<lambda>_. empty_node, jnext = 3, jmalloc = \<lambda>_. True\<rparr>
      (render (VNode False (MCons [97] (VNode True (MCons [] (VNum 5) (MCons [] VTrue MNil))) MNil)) @ [32, 120])
      = Solved h' (length (render (VNode False (MCons [97] (VNode True (MCons [] (VNum 5) (MCons [] VTrue MNil))) MNil))))
    \<and> jrep (jnode h') 3 (VNode False (MCons [97] (VNode True (MCons [] (VNum 5) (MCons [] VTrue MNil))) MNil)) True"
proof -
  have "wf_mems False (MCons [97] (VNode True (MCons [] (VNum 5) (MCons [] VTrue MNil))) MNil)"
    by (simp add: plain_def)
  from json_solve_str_correct [OF this, where h = "\<lparr>jnode = \<lambda>_. empty_node, jnext = 3, jmalloc = \<lambda>_. True\<rparr>" and rest = "[32, 120]"]
  show ?thesis unfolding jheap.simps by simp blast
qed

end
