(* ===== verification/Cube_Json_Print.thy ===== *)
theory Cube_Json_Print
  imports Cube_Json_Roundtrip
begin

text \<open>
  The printer of \<^verbatim>\<open>json.c\<close> writes the text of any tree, its loop ends, and printing what was parsed
  gives the text back. A tree is described by its nodes, wherever they were allocated; the trees the
  parser builds are a special case.
\<close>

section \<open>Trees and their text\<close>

text \<open>A tree with the addresses and the names of the children.\<close>

datatype dval = DNum int | DStr "byte list" | DBool bool | DNode bool dmems
  and dmems = DNil | DCons nat "byte list" dval dmems

fun dkids :: "dmems \<Rightarrow> nat list" where
  "dkids DNil = []"
| "dkids (DCons c nm v ms) = c # dkids ms"

fun ids :: "dval \<Rightarrow> nat list" and ids_mems :: "dmems \<Rightarrow> nat list" where
  "ids (DNode arr ms) = ids_mems ms"
| "ids _ = []"
| "ids_mems DNil = []"
| "ids_mems (DCons c nm v ms) = c # ids v @ ids_mems ms"

text \<open>
  The node \<open>c\<close> is the root of the tree. The printer reads the low half of the number, the first
  512 bytes of a string and the first 32 of a name, up to a NUL.
\<close>

fun drep :: "(nat \<Rightarrow> json_node) \<Rightarrow> nat \<Rightarrow> dval \<Rightarrow> bool"
  and dreps :: "(nat \<Rightarrow> json_node) \<Rightarrow> nat \<Rightarrow> bool \<Rightarrow> dmems \<Rightarrow> bool" where
  "drep N c (DNum n) \<longleftrightarrow> elem_type (N c) mod 4096 = 1 \<and> wrap32 (jvalue (N c)) = n \<and> n \<noteq> - 2147483648"
| "drep N c (DStr t) \<longleftrightarrow> elem_type (N c) mod 4096 = 2
     \<and> (\<exists>s. value_str (N c) = Some s \<and> t = take 512 (takeWhile (\<lambda>b. b \<noteq> 0) s))"
| "drep N c (DBool b) \<longleftrightarrow> elem_type (N c) mod 4096 = 3 \<and> b = (jvalue (N c) \<noteq> 0)"
| "drep N c (DNode arr ms) \<longleftrightarrow> elem_type (N c) mod 4096 = (if arr then 5 else 4)
     \<and> childlist (N c) = dkids ms \<and> elem_no (N c) = int (length (dkids ms)) \<and> dreps N c arr ms"
| "dreps N p arr DNil \<longleftrightarrow> True"
| "dreps N p arr (DCons c nm v ms) \<longleftrightarrow> father (N c) = Some p
     \<and> nm = take 32 (takeWhile (\<lambda>b. b \<noteq> 0) (jname (N c))) \<and> drep N c v \<and> dreps N p arr ms"

definition dname :: "bool \<Rightarrow> byte list \<Rightarrow> byte list" where
  "dname arr nm = (if arr then [] else 34 # nm @ [34, 58])"

fun dtext :: "dval \<Rightarrow> byte list" and dtext_mems :: "bool \<Rightarrow> dmems \<Rightarrow> byte list" where
  "dtext (DNum n) = itoa_text n"
| "dtext (DStr t) = 34 # t @ [34]"
| "dtext (DBool b) = (if b then w_true else w_false)"
| "dtext (DNode arr ms) = (if arr then 91 else 123) # dtext_mems arr ms @ [if arr then 93 else 125]"
| "dtext_mems arr DNil = []"
| "dtext_mems arr (DCons c nm v ms) = dname arr nm @ dtext v
     @ (case ms of DNil \<Rightarrow> [] | _ \<Rightarrow> 44 # dtext_mems arr ms)"

lemma drep_shape:
  assumes "\<And>a. shape (N' a) = shape (N a)"
  shows "drep N' c v = drep N c v" "dreps N' p arr ms = dreps N p arr ms"
proof (induction v and ms arbitrary: c and p arr rule: dval.induct dmems.induct)
qed (use shape_sel [OF assms] in simp_all)

section \<open>Rounds of the printer\<close>

definition cont :: "nat \<Rightarrow> jpround \<Rightarrow> (int \<times> jprint) option option" where
  "cont root r = (case r of PFault \<Rightarrow> Some None | PRet c st \<Rightarrow> Some (Some (c, st)) | PNext st \<Rightarrow> json_print_loop root st)"

lemma print_loop_cont: "json_print_loop root st = cont root (json_print_round root st)"
  by (subst json_print_loop.simps) (simp add: cont_def)

text \<open>Two heaps whose nodes differ in the cursors only, and only at the nodes of \<open>A\<close>.\<close>

definition walked :: "nat set \<Rightarrow> jheap \<Rightarrow> jheap \<Rightarrow> bool" where
  "walked A h h' \<longleftrightarrow> (\<forall>a. shape (jnode h' a) = shape (jnode h a)) \<and> (\<forall>a. a \<notin> A \<longrightarrow> jnode h' a = jnode h a)"

lemma walked_trans: "walked A h h1 \<Longrightarrow> walked B h1 h2 \<Longrightarrow> A \<union> B \<subseteq> C \<Longrightarrow> walked C h h2"
  unfolding walked_def by (metis UnI1 UnI2 subsetD)

lemma walked_jrep: "walked A h h' \<Longrightarrow> jrep (jnode h') c v fl = jrep (jnode h) c v fl"
  unfolding walked_def by (intro jrep_shape(1)) blast

lemma walked_jreps: "walked A h h' \<Longrightarrow> jreps (jnode h') p arr b ms = jreps (jnode h) p arr b ms"
  unfolding walked_def by (intro jrep_shape(2)) blast

lemma walked_sel:
  "walked A h h' \<Longrightarrow> elem_type (jnode h' a) = elem_type (jnode h a) \<and> jname (jnode h' a) = jname (jnode h a)
     \<and> elem_no (jnode h' a) = elem_no (jnode h a) \<and> childlist (jnode h' a) = childlist (jnode h a)
     \<and> father (jnode h' a) = father (jnode h a)"
  unfolding walked_def using shape_sel by blast

lemma walked_drep:
  assumes "walked A h h'"
  shows "drep (jnode h') c v = drep (jnode h) c v" "dreps (jnode h') p arr ms = dreps (jnode h) p arr ms"
  using assms by (auto simp: walked_def intro!: drep_shape)

text \<open>\<open>printed root h p A r h2 out\<close>: the round \<open>r\<close> leads the loop back to \<open>p\<close> with \<open>out\<close> written.\<close>

definition printed :: "nat \<Rightarrow> jheap \<Rightarrow> nat \<Rightarrow> nat set \<Rightarrow> (int \<times> jprint) option option \<Rightarrow> byte list \<Rightarrow> bool" where
  "printed root h p A r out \<longleftrightarrow>
     (\<exists>h2. r = json_print_loop root \<lparr>pr_heap = h2, pr_curr = Some p, pr_out = out\<rparr> \<and> walked A h h2)"

lemma walked_refl: "walked A h h"
  by (simp add: walked_def)

lemma wrap32_mod: "wrap32 (n mod 4294967296) = wrap32 n"
  by (simp add: wrap32_def mod_simps)

lemma scalar_printed:
  assumes "drep (jnode h) c v" "\<And>arr ms. v \<noteq> DNode arr ms"
  shows "printed root h p A (cont root (print_child \<lparr>pr_heap = h, pr_curr = Some p, pr_out = out\<rparr> c)) (out @ dtext v)"
proof -
  have "itoa_bytes (jvalue (jnode h c)) = itoa_text (wrap32 (jvalue (jnode h c)))"
    if "wrap32 (jvalue (jnode h c)) \<noteq> - 2147483648"
  proof -
    have "\<bar>wrap32 (jvalue (jnode h c))\<bar> \<le> 2147483647" using that wrap32_range [of "jvalue (jnode h c)"] by linarith
    from itoa_bytes_text [OF this] show ?thesis using wrap32_range [of "jvalue (jnode h c)"] by (simp add: itoa_bytes_def)
  qed
  then have "print_child \<lparr>pr_heap = h, pr_curr = Some p, pr_out = out\<rparr> c
      = PNext \<lparr>pr_heap = h, pr_curr = Some p, pr_out = out @ dtext v\<rparr>"
    using assms by (cases v) (auto simp: print_child_def json_get_type_def)
  then show ?thesis unfolding printed_def cont_def by (auto intro: walked_refl)
qed

section \<open>Members\<close>

definition mems_tail :: "bool \<Rightarrow> dmems \<Rightarrow> byte list" where
  "mems_tail arr ms = (case ms of DNil \<Rightarrow> [] | _ \<Rightarrow> 44 # dtext_mems arr ms)"

text \<open>The node \<open>p\<close> of the printer's walk, \<open>pre\<close> of its children printed and those of \<open>ms\<close> left.\<close>

definition at_member :: "jheap \<Rightarrow> nat \<Rightarrow> bool \<Rightarrow> nat list \<Rightarrow> dmems \<Rightarrow> bool" where
  "at_member h p arr pre ms \<longleftrightarrow> elem_type (jnode h p) mod 4096 = (if arr then 5 else 4)
     \<and> childlist (jnode h p) = pre @ dkids ms \<and> elem_no (jnode h p) = int (length (pre @ dkids ms))
     \<and> comp_no (jnode h p) = int (length pre) \<and> pre \<noteq> [] \<and> curr_child (jnode h p) = Some (length pre - 1)
     \<and> dreps (jnode h) p arr ms"

text \<open>A round that goes to the next child.\<close>

lemma next_member_round:
  assumes "at_member h p arr pre (DCons a nm v ms)" "p \<noteq> a"
  shows "\<exists>h1. json_print_loop root \<lparr>pr_heap = h, pr_curr = Some p, pr_out = out\<rparr>
      = cont root (print_child \<lparr>pr_heap = h1, pr_curr = Some p, pr_out = out @ [44] @ dname arr nm\<rparr> a)
    \<and> walked {p} h h1 \<and> comp_no (jnode h1 p) = int (length (pre @ [a])) \<and> curr_child (jnode h1 p) = Some (length pre)"
proof -
  let ?n = "jnode h p"
  note am = assms(1) [unfolded at_member_def]
  define h0 where "h0 = upd_node p (\<lambda>n. n\<lparr>curr_child := Some (length pre)\<rparr>) h"
  define h1 where "h1 = upd_node p (\<lambda>n. n\<lparr>comp_no := comp_no n + 1\<rparr>) h0"
  have len: "length (childlist ?n) > length pre" "length pre \<ge> 1" using am by (simp_all add: Suc_le_eq)
  have cl: "childlist ?n = pre @ a # dkids ms" and cc: "curr_child ?n = Some (length pre - 1)"
    and cn: "comp_no ?n = int (length pre)" and en: "elem_no ?n = int (length pre) + 1 + int (length (dkids ms))"
    and ty: "elem_type ?n mod 4096 = (if arr then 5 else 4)" and pre: "pre \<noteq> []"
    and nm: "nm = take 32 (takeWhile (\<lambda>b. b \<noteq> 0) (jname (jnode h a)))"
    using am by simp_all
  have next1: "json_get_next_child h p = Some (h0, Some a)"
  proof -
    obtain m where "length pre = Suc m" using len(2) by (cases "length pre") auto
    then show ?thesis using cl cc by (simp add: json_get_next_child_def Let_def nth_append h0_def)
  qed
  have h1: "jnode h1 p = ?n\<lparr>curr_child := Some (length pre), comp_no := comp_no ?n + 1\<rparr>"
      "\<And>b. b \<noteq> p \<Longrightarrow> jnode h1 b = jnode h b"
    by (simp_all add: h1_def h0_def fun_upd_apply)
  have "print_name (jnode h1 a) = 34 # nm @ [34, 58]"
    using h1(2) [of a] assms(2) unfolding nm by (simp add: print_name_def)
  then have "json_print_round root \<lparr>pr_heap = h, pr_curr = Some p, pr_out = out\<rparr>
      = print_child \<lparr>pr_heap = h1, pr_curr = Some p, pr_out = out @ [44] @ dname arr nm\<rparr> a"
    using cn en ty len pre next1
    by (cases arr) (simp_all add: json_print_round_def json_get_type_def print_round_def Let_def dname_def h1_def)
  moreover have "shape (jnode h1 b) = shape (jnode h b)" for b
    using h1(1) h1(2) [of b] by (cases "b = p") (simp_all add: shape_def)
  then have "walked {p} h h1" using h1(2) by (simp add: walked_def)
  ultimately show ?thesis using h1(1) cn by (subst print_loop_cont) auto
qed

text \<open>
  What is proved of a list of members: \<open>rest_prints\<close> of the members that are left, \<open>all_print\<close> of all
  members of a node. No node is its own descendant, and the root is none.
\<close>

definition rest_prints :: "nat \<Rightarrow> bool \<Rightarrow> dmems \<Rightarrow> bool" where
  "rest_prints root arr ms \<longleftrightarrow> (\<forall>h p pre out. at_member h p arr pre ms \<longrightarrow> p \<notin> set (ids_mems ms) \<longrightarrow>
     (\<exists>h2. json_print_loop root \<lparr>pr_heap = h, pr_curr = Some p, pr_out = out\<rparr>
        = json_print_loop root \<lparr>pr_heap = h2, pr_curr = Some p, pr_out = out @ mems_tail arr ms\<rparr>
      \<and> walked ({p} \<union> set (ids_mems ms)) h h2 \<and> comp_no (jnode h2 p) = elem_no (jnode h2 p)))"

definition all_print :: "nat \<Rightarrow> bool \<Rightarrow> dmems \<Rightarrow> bool" where
  "all_print root arr ms \<longleftrightarrow> (\<forall>h c out. drep (jnode h) c (DNode arr ms) \<longrightarrow> comp_no (jnode h c) = 0 \<longrightarrow>
     ms \<noteq> DNil \<longrightarrow> c \<notin> set (ids_mems ms) \<longrightarrow>
     (\<exists>h2. json_print_loop root \<lparr>pr_heap = h, pr_curr = Some c, pr_out = out\<rparr>
        = json_print_loop root \<lparr>pr_heap = h2, pr_curr = Some c, pr_out = out @ [if arr then 91 else 123] @ dtext_mems arr ms\<rparr>
      \<and> walked ({c} \<union> set (ids_mems ms)) h h2 \<and> comp_no (jnode h2 c) = elem_no (jnode h2 c)))"

lemma mems_printed_cons:
  assumes val: "\<And>h p out. drep (jnode h) a v \<Longrightarrow> father (jnode h a) = Some p \<Longrightarrow> p \<notin> set (a # ids v) \<Longrightarrow>
      printed root h p (set (a # ids v)) (cont root (print_child \<lparr>pr_heap = h, pr_curr = Some p, pr_out = out\<rparr> a)) (out @ dtext v)"
    and rest: "rest_prints root arr ms"
  shows "rest_prints root arr (DCons a nm v ms)"
  unfolding rest_prints_def
proof (intro allI impI)
  fix h p pre out
  assume m: "at_member h p arr pre (DCons a nm v ms)" and p: "p \<notin> set (ids_mems (DCons a nm v ms))"
  let ?out1 = "out @ [44] @ dname arr nm"
  obtain h1 where h1: "json_print_loop root \<lparr>pr_heap = h, pr_curr = Some p, pr_out = out\<rparr>
        = cont root (print_child \<lparr>pr_heap = h1, pr_curr = Some p, pr_out = ?out1\<rparr> a)"
      "walked {p} h h1" "comp_no (jnode h1 p) = int (length (pre @ [a]))" "curr_child (jnode h1 p) = Some (length pre)"
    using next_member_round [OF m] p by auto
  have r1: "drep (jnode h1) a v" "father (jnode h1 a) = Some p"
    using m walked_drep [OF h1(2)] walked_sel [OF h1(2)] by (auto simp: at_member_def)
  obtain h2 where h2: "cont root (print_child \<lparr>pr_heap = h1, pr_curr = Some p, pr_out = ?out1\<rparr> a)
        = json_print_loop root \<lparr>pr_heap = h2, pr_curr = Some p, pr_out = ?out1 @ dtext v\<rparr>"
      "walked (set (a # ids v)) h1 h2"
    using val [OF r1, of ?out1] p unfolding printed_def by auto
  have p2: "jnode h2 p = jnode h1 p" using h2(2) p by (simp add: walked_def)
  have w2: "walked ({p} \<union> set (a # ids v)) h h2" by (rule walked_trans [OF h1(2) h2(2)]) simp
  have "at_member h2 p arr (pre @ [a]) ms"
    using m walked_sel [OF w2, of p] walked_drep [OF w2] h1(3,4) p2 by (simp add: at_member_def)
  then obtain h3 where h3: "json_print_loop root \<lparr>pr_heap = h2, pr_curr = Some p, pr_out = ?out1 @ dtext v\<rparr>
        = json_print_loop root \<lparr>pr_heap = h3, pr_curr = Some p, pr_out = (?out1 @ dtext v) @ mems_tail arr ms\<rparr>"
      "walked ({p} \<union> set (ids_mems ms)) h2 h3" "comp_no (jnode h3 p) = elem_no (jnode h3 p)"
    using rest [unfolded rest_prints_def, rule_format, of h2 p "pre @ [a]" "?out1 @ dtext v"] p by auto
  have "walked ({p} \<union> set (ids_mems (DCons a nm v ms))) h h3"
    by (rule walked_trans [OF w2 h3(2)]) auto
  moreover have "(?out1 @ dtext v) @ mems_tail arr ms = out @ mems_tail arr (DCons a nm v ms)"
    by (simp add: mems_tail_def)
  ultimately show "\<exists>h2. json_print_loop root \<lparr>pr_heap = h, pr_curr = Some p, pr_out = out\<rparr>
        = json_print_loop root \<lparr>pr_heap = h2, pr_curr = Some p, pr_out = out @ mems_tail arr (DCons a nm v ms)\<rparr>
      \<and> walked ({p} \<union> set (ids_mems (DCons a nm v ms))) h h2 \<and> comp_no (jnode h2 p) = elem_no (jnode h2 p)"
    using h1(1) h2(1) h3(1,3) by metis
qed

text \<open>A whole map or array: its opening bracket and its first child, then the others.\<close>

lemma node_opens:
  assumes r: "drep (jnode h) c (DNode arr (DCons a nm v ms))" and n0: "comp_no (jnode h c) = 0" and ac: "a \<noteq> c"
  shows "\<exists>h1. json_print_loop root \<lparr>pr_heap = h, pr_curr = Some c, pr_out = out\<rparr>
      = cont root (print_child \<lparr>pr_heap = h1, pr_curr = Some c,
          pr_out = out @ [if arr then 91 else 123] @ dname arr nm\<rparr> a)
    \<and> walked {c} h h1 \<and> comp_no (jnode h1 c) = 1 \<and> curr_child (jnode h1 c) = Some 0"
proof -
  define h0 where "h0 = upd_node c (\<lambda>n. n\<lparr>curr_child := Some 0\<rparr>) h"
  define h1 where "h1 = upd_node c (\<lambda>n. n\<lparr>comp_no := comp_no n + 1\<rparr>) h0"
  have ty: "elem_type (jnode h c) mod 4096 = (if arr then 5 else 4)"
    and nm: "nm = take 32 (takeWhile (\<lambda>b. b \<noteq> 0) (jname (jnode h a)))"
    and en: "elem_no (jnode h c) \<noteq> 0" and cl: "childlist (jnode h c) = a # dkids ms"
    using r by (auto split: if_splits)
  have first: "json_get_first_child h c = (h0, Some a)" using cl by (simp add: json_get_first_child_def h0_def)
  have h1: "jnode h1 c = (jnode h c)\<lparr>curr_child := Some 0, comp_no := comp_no (jnode h c) + 1\<rparr>"
      "\<And>b. b \<noteq> c \<Longrightarrow> jnode h1 b = jnode h b"
    by (simp_all add: h1_def h0_def fun_upd_apply)
  have "print_name (jnode h1 a) = 34 # nm @ [34, 58]"
    using h1(2) [OF ac] unfolding nm by (simp add: print_name_def)
  then have "json_print_round root \<lparr>pr_heap = h, pr_curr = Some c, pr_out = out\<rparr>
      = print_child \<lparr>pr_heap = h1, pr_curr = Some c, pr_out = out @ [if arr then 91 else 123] @ dname arr nm\<rparr> a"
    using ty en n0 first
    by (cases arr) (simp_all add: json_print_round_def json_get_type_def print_round_def Let_def dname_def h1_def)
  moreover have "shape (jnode h1 b) = shape (jnode h b)" for b
    using h1(1) h1(2) [of b] by (cases "b = c") (simp_all add: shape_def)
  then have "walked {c} h h1" using h1(2) by (simp add: walked_def)
  ultimately show ?thesis using h1(1) n0 by (subst print_loop_cont) auto
qed

lemma all_print_cons:
  assumes val: "\<And>h p out. drep (jnode h) a v \<Longrightarrow> father (jnode h a) = Some p \<Longrightarrow> p \<notin> set (a # ids v) \<Longrightarrow>
      printed root h p (set (a # ids v)) (cont root (print_child \<lparr>pr_heap = h, pr_curr = Some p, pr_out = out\<rparr> a)) (out @ dtext v)"
    and rest: "rest_prints root arr ms"
  shows "all_print root arr (DCons a nm v ms)"
  unfolding all_print_def
proof (intro allI impI)
  fix h :: jheap and c out
  assume r: "drep (jnode h) c (DNode arr (DCons a nm v ms))" and n0: "comp_no (jnode h c) = 0"
    and c: "c \<notin> set (ids_mems (DCons a nm v ms))"
  let ?out1 = "out @ [if arr then 91 else 123] @ dname arr nm"
  obtain h1 where h1: "json_print_loop root \<lparr>pr_heap = h, pr_curr = Some c, pr_out = out\<rparr>
        = cont root (print_child \<lparr>pr_heap = h1, pr_curr = Some c, pr_out = ?out1\<rparr> a)"
      "walked {c} h h1" "comp_no (jnode h1 c) = 1" "curr_child (jnode h1 c) = Some 0"
    using node_opens [OF r n0] c by auto
  have r1: "drep (jnode h1) a v" "father (jnode h1 a) = Some c"
    using r walked_drep [OF h1(2)] walked_sel [OF h1(2)] by auto
  obtain h2 where h2: "cont root (print_child \<lparr>pr_heap = h1, pr_curr = Some c, pr_out = ?out1\<rparr> a)
        = json_print_loop root \<lparr>pr_heap = h2, pr_curr = Some c, pr_out = ?out1 @ dtext v\<rparr>"
      "walked (set (a # ids v)) h1 h2"
    using val [OF r1, of ?out1] c unfolding printed_def by auto
  have c2: "jnode h2 c = jnode h1 c" using h2(2) c by (simp add: walked_def)
  have w2: "walked ({c} \<union> set (a # ids v)) h h2" by (rule walked_trans [OF h1(2) h2(2)]) simp
  have "at_member h2 c arr [a] ms"
    using r walked_sel [OF w2, of c] walked_drep [OF w2] h1(3,4) c2 by (auto simp: at_member_def)
  then obtain h3 where h3: "json_print_loop root \<lparr>pr_heap = h2, pr_curr = Some c, pr_out = ?out1 @ dtext v\<rparr>
        = json_print_loop root \<lparr>pr_heap = h3, pr_curr = Some c, pr_out = (?out1 @ dtext v) @ mems_tail arr ms\<rparr>"
      "walked ({c} \<union> set (ids_mems ms)) h2 h3" "comp_no (jnode h3 c) = elem_no (jnode h3 c)"
    using rest [unfolded rest_prints_def, rule_format, of h2 c "[a]" "?out1 @ dtext v"] c by auto
  have "walked ({c} \<union> set (ids_mems (DCons a nm v ms))) h h3"
    by (rule walked_trans [OF w2 h3(2)]) auto
  moreover have "(?out1 @ dtext v) @ mems_tail arr ms = out @ [if arr then 91 else 123] @ dtext_mems arr (DCons a nm v ms)"
    by (simp add: mems_tail_def)
  ultimately show "\<exists>h2. json_print_loop root \<lparr>pr_heap = h, pr_curr = Some c, pr_out = out\<rparr>
        = json_print_loop root \<lparr>pr_heap = h2, pr_curr = Some c,
            pr_out = out @ [if arr then 91 else 123] @ dtext_mems arr (DCons a nm v ms)\<rparr>
      \<and> walked ({c} \<union> set (ids_mems (DCons a nm v ms))) h h2 \<and> comp_no (jnode h2 c) = elem_no (jnode h2 c)"
    using h1(1) h2(1) h3(1,3) by metis
qed

text \<open>The closing of a node, empty or printed to its end.\<close>

lemma node_closes:
  assumes r: "drep (jnode h) c (DNode arr ms)" and all: "all_print root arr ms" and n0: "comp_no (jnode h c) = 0"
    and c: "c \<notin> set (ids_mems ms)"
  shows "\<exists>h2. json_print_loop root \<lparr>pr_heap = h, pr_curr = Some c, pr_out = out\<rparr>
      = cont root (if c = root then PRet (int (length (out @ dtext (DNode arr ms))))
            \<lparr>pr_heap = h2, pr_curr = Some c, pr_out = out @ dtext (DNode arr ms)\<rparr>
          else PNext \<lparr>pr_heap = h2, pr_curr = father (jnode h c), pr_out = out @ dtext (DNode arr ms)\<rparr>)
    \<and> walked ({c} \<union> set (ids_mems ms)) h h2"
proof (cases "ms = DNil")
  case True
  have "elem_type (jnode h c) mod 4096 = (if arr then 5 else 4)" "elem_no (jnode h c) = 0"
    using r True by (auto split: if_splits)
  then have "json_print_round root \<lparr>pr_heap = h, pr_curr = Some c, pr_out = out\<rparr>
      = print_close root \<lparr>pr_heap = h, pr_curr = Some c, pr_out = out\<rparr> c [if arr then 91 else 123, if arr then 93 else 125]"
    by (cases arr) (simp_all add: json_print_round_def json_get_type_def print_round_def Let_def)
  then show ?thesis using True
    by (subst print_loop_cont)
      (auto simp: print_close_def json_get_father_def intro!: exI [of _ h] walked_refl)
next
  case False
  then obtain h2 where h2: "json_print_loop root \<lparr>pr_heap = h, pr_curr = Some c, pr_out = out\<rparr>
        = json_print_loop root \<lparr>pr_heap = h2, pr_curr = Some c, pr_out = out @ [if arr then 91 else 123] @ dtext_mems arr ms\<rparr>"
      "walked ({c} \<union> set (ids_mems ms)) h h2" "comp_no (jnode h2 c) = elem_no (jnode h2 c)"
    using all [unfolded all_print_def, rule_format, OF r n0 _ c] by blast
  have "dkids ms \<noteq> []" using False by (cases ms) auto
  then have "elem_type (jnode h2 c) mod 4096 = (if arr then 5 else 4)" "elem_no (jnode h2 c) \<noteq> 0"
    "father (jnode h2 c) = father (jnode h c)"
    using r walked_sel [OF h2(2), of c] by (auto split: if_splits)
  then have "json_print_round root \<lparr>pr_heap = h2, pr_curr = Some c, pr_out = out @ [if arr then 91 else 123] @ dtext_mems arr ms\<rparr>
      = (if c = root then PRet (int (length (out @ dtext (DNode arr ms))))
            \<lparr>pr_heap = h2, pr_curr = Some c, pr_out = out @ dtext (DNode arr ms)\<rparr>
          else PNext \<lparr>pr_heap = h2, pr_curr = father (jnode h c), pr_out = out @ dtext (DNode arr ms)\<rparr>)"
    using h2(3) by (cases arr) (simp_all add: json_print_round_def json_get_type_def print_round_def Let_def
        print_close_def json_get_father_def)
  then show ?thesis using h2(1,2) print_loop_cont by auto
qed

section \<open>The printer writes the text\<close>

lemma node_printed:
  assumes "drep (jnode h) c (DNode arr' ms)" "father (jnode h c) = Some p" "c \<noteq> root" "c \<notin> set (ids_mems ms)"
    and "all_print root arr' ms"
  shows "printed root h p (set (c # ids (DNode arr' ms)))
    (cont root (print_child \<lparr>pr_heap = h, pr_curr = Some p, pr_out = out\<rparr> c)) (out @ dtext (DNode arr' ms))"
proof -
  let ?h1 = "upd_node c (\<lambda>n. n\<lparr>comp_no := 0\<rparr>) h"
  have w1: "walked {c} h ?h1" by (auto simp: walked_def shape_def fun_upd_apply)
  have "json_get_type h (Some c) = 4 \<or> json_get_type h (Some c) = 5"
    using assms(1) by (auto simp: json_get_type_def)
  then have "print_child \<lparr>pr_heap = h, pr_curr = Some p, pr_out = out\<rparr> c
      = PNext \<lparr>pr_heap = ?h1, pr_curr = Some c, pr_out = out\<rparr>"
    by (simp add: print_child_def)
  then have "cont root (print_child \<lparr>pr_heap = h, pr_curr = Some p, pr_out = out\<rparr> c)
      = json_print_loop root \<lparr>pr_heap = ?h1, pr_curr = Some c, pr_out = out\<rparr>" by (simp add: cont_def)
  moreover have "drep (jnode ?h1) c (DNode arr' ms)" using assms(1) walked_drep(1) [OF w1] by blast
  ultimately obtain h2 where "cont root (print_child \<lparr>pr_heap = h, pr_curr = Some p, pr_out = out\<rparr> c)
      = cont root (PNext \<lparr>pr_heap = h2, pr_curr = Some p, pr_out = out @ dtext (DNode arr' ms)\<rparr>)"
      "walked ({c} \<union> set (ids_mems ms)) ?h1 h2"
    using node_closes [of ?h1 c arr' ms root out] assms(2-5) walked_sel [OF w1, of c] by auto
  moreover have "walked (set (c # ids (DNode arr' ms))) h h2" by (rule walked_trans [OF w1 calculation(2)]) auto
  ultimately show ?thesis unfolding printed_def by (auto simp: cont_def)
qed

lemma print_text:
  shows "distinct (c # ids v) \<Longrightarrow> root \<notin> set (c # ids v) \<Longrightarrow> drep (jnode h) c v \<Longrightarrow> father (jnode h c) = Some p \<Longrightarrow>
      p \<notin> set (c # ids v) \<Longrightarrow>
      printed root h p (set (c # ids v)) (cont root (print_child \<lparr>pr_heap = h, pr_curr = Some p, pr_out = out\<rparr> c)) (out @ dtext v)"
    and "distinct (ids_mems ms) \<Longrightarrow> root \<notin> set (ids_mems ms) \<Longrightarrow> rest_prints root arr ms \<and> all_print root arr ms"
proof (induction v and ms arbitrary: h c p out and arr rule: dval.induct dmems.induct)
  case (DNum n)
  show ?case by (rule scalar_printed [OF DNum.prems(3)]) simp
next
  case (DStr t)
  show ?case by (rule scalar_printed [OF DStr.prems(3)]) simp
next
  case (DBool b)
  show ?case by (rule scalar_printed [OF DBool.prems(3)]) simp
next
  case (DNode arr' ms)
  then show ?case by (intro node_printed) auto
next
  case DNil
  have "rest_prints root arr DNil"
    unfolding rest_prints_def at_member_def mems_tail_def by (auto intro!: walked_refl)
  then show ?case by (simp add: all_print_def)
next
  case (DCons a nm v ms)
  have rest: "rest_prints root arr ms" using DCons.IH(2) DCons.prems by auto
  have val: "printed root h p (set (a # ids v))
      (cont root (print_child \<lparr>pr_heap = h, pr_curr = Some p, pr_out = out\<rparr> a)) (out @ dtext v)"
    if "drep (jnode h) a v" "father (jnode h a) = Some p" "p \<notin> set (a # ids v)" for h p out
    using DCons.IH(1) [of a h p out] DCons.prems that by auto
  show ?case using mems_printed_cons [OF val rest] all_print_cons [OF val rest] by blast
qed

lemma print_tree:
  assumes "drep (jnode h) root (DNode arr ms)" "distinct (root # ids_mems ms)"
  shows "\<exists>h'. json_print_str h root = Some (Some (int (length (dtext (DNode arr ms))),
      \<lparr>pr_heap = h', pr_curr = Some root, pr_out = dtext (DNode arr ms)\<rparr>))
    \<and> walked (set (root # ids_mems ms)) h h'"
proof -
  let ?h1 = "upd_node root (\<lambda>n. n\<lparr>comp_no := 0\<rparr>) h"
  have w1: "walked {root} h ?h1" by (auto simp: walked_def shape_def fun_upd_apply)
  have r: "drep (jnode ?h1) root (DNode arr ms)" using assms(1) walked_drep(1) [OF w1] by blast
  obtain h2 where h2: "json_print_loop root \<lparr>pr_heap = ?h1, pr_curr = Some root, pr_out = []\<rparr>
      = cont root (PRet (int (length (dtext (DNode arr ms)))) \<lparr>pr_heap = h2, pr_curr = Some root, pr_out = dtext (DNode arr ms)\<rparr>)"
      "walked ({root} \<union> set (ids_mems ms)) ?h1 h2"
    using node_closes [OF r, of root "[]"] print_text(2) [of ms root arr] assms(2) by auto
  have "json_print_str h root = Some (Some (int (length (dtext (DNode arr ms))),
      \<lparr>pr_heap = h2, pr_curr = Some root, pr_out = dtext (DNode arr ms)\<rparr>))"
    using h2(1) by (simp add: json_print_str_def json_node_set_no_def cont_def)
  moreover have "walked (set (root # ids_mems ms)) h h2" by (rule walked_trans [OF w1 h2(2)]) simp
  ultimately show ?thesis by blast
qed

text \<open>(C23) 
  The printer ends on every tree whose root is a map or an array, wherever its nodes are allocated, when
  no node occurs twice in it, each node counts its children and its children point to it: it returns the
  length of the text of the tree and has written exactly that text. A truth value is printed as \<^verbatim>\<open>true\<close> or
  \<^verbatim>\<open>false\<close>, a number as the \<^verbatim>\<open>int\<close> in its low half (other than \<^verbatim>\<open>INT_MIN\<close>), of a string at most 512 bytes
  and of a name at most 32. Only \<open>curr_child\<close> and \<open>comp_no\<close> of nodes of the tree change.
\<close>

theorem json_print_str_correct:
  assumes "drep (jnode h) root (DNode arr ms)" "distinct (root # ids_mems ms)"
  shows "\<exists>h'. json_print_str h root = Some (Some (int (length (dtext (DNode arr ms))),
      \<lparr>pr_heap = h', pr_curr = Some root, pr_out = dtext (DNode arr ms)\<rparr>))
    \<and> (\<forall>a. (jnode h' a)\<lparr>curr_child := None, comp_no := 0\<rparr> = (jnode h a)\<lparr>curr_child := None, comp_no := 0\<rparr>)
    \<and> (\<forall>a. a \<notin> set (root # ids_mems ms) \<longrightarrow> jnode h' a = jnode h a)"
  using print_tree [OF assms] unfolding walked_def shape_def by blast

definition tree_example :: jheap where
  "tree_example = \<lparr>jnode = (\<lambda>_. empty_node)(
      1 := empty_node\<lparr>elem_type := 4101, childlist := [2, 3], elem_no := 2\<rparr>,
      2 := empty_node\<lparr>elem_type := 4097, jvalue := 42, father := Some 1\<rparr>,
      3 := empty_node\<lparr>elem_type := 4098, value_str := Some [104, 105], father := Some 1\<rparr>), jnext = 4, jmalloc = \<lambda>_. True\<rparr>"

text \<open>A map with a false member behind an array, its nodes in no order.\<close>

definition print_example :: jheap where
  "print_example = \<lparr>jnode = (\<lambda>_. empty_node)(
      7 := empty_node\<lparr>elem_type := 4, childlist := [9, 2], elem_no := 2\<rparr>,
      2 := empty_node\<lparr>elem_type := 3, jname := [98], father := Some 7\<rparr>,
      9 := empty_node\<lparr>elem_type := 5, jname := [97], childlist := [4], elem_no := 1, father := Some 7, curr_child := Some 0\<rparr>,
      4 := empty_node\<lparr>elem_type := 4097, jvalue := 4294967295, father := Some 9\<rparr>), jnext = 10, jmalloc = \<lambda>_. True\<rparr>"

theorem json_print_str_correct_witness:
  "\<exists>st. json_print_str print_example 7 = Some (Some (20, st))
    \<and> pr_out st = [123, 34, 97, 34, 58, 91, 45, 49, 93, 44, 34, 98, 34, 58, 102, 97, 108, 115, 101, 125]"
proof -
  let ?ms = "DCons 9 [97] (DNode True (DCons 4 [] (DNum (- 1)) DNil)) (DCons 2 [98] (DBool False) DNil)"
  have "drep (jnode print_example) 7 (DNode False ?ms)"
    by (simp add: print_example_def empty_node_def fun_upd_apply wrap32_def)
  moreover have "distinct (7 # ids_mems ?ms)" by simp
  moreover have "dtext (DNode False ?ms) = [123, 34, 97, 34, 58, 91, 45, 49, 93, 44, 34, 98, 34, 58, 102, 97, 108, 115, 101, 125]"
    by (simp add: dname_def w_false_def itoa_text_def itoa_digits_unfold)
  ultimately show ?thesis using json_print_str_correct [of print_example 7 False ?ms] by auto
qed

section \<open>The trees of the parser\<close>

text \<open>The tree of a value whose nodes are allocated one after the other.\<close>

fun val_of :: "nat \<Rightarrow> jval \<Rightarrow> dval" and mems_of :: "nat \<Rightarrow> jmems \<Rightarrow> dmems" where
  "val_of c (VNum n) = DNum n"
| "val_of c (VStr t) = DStr t"
| "val_of c VTrue = DBool True"
| "val_of c (VNode arr ms) = DNode arr (mems_of (c + 1) ms)"
| "mems_of a MNil = DNil"
| "mems_of a (MCons nm v ms) = DCons a nm (val_of a v) (mems_of (a + nodes v) ms)"

lemma dkids_of: "dkids (mems_of a ms) = kids a ms"
  by (induction ms arbitrary: a rule: jmems.induct [where ?P1.0 = "\<lambda>_. True"]) auto

lemma ids_of:
  "ids (val_of c v) = [c + 1..<c + nodes v]" "ids_mems (mems_of a ms) = [a..<a + nodes_mems ms]"
proof (induction v and ms arbitrary: c and a rule: jval.induct jmems.induct)
  case (MCons nm v ms)
  have "[a..<a + (nodes v + nodes_mems ms)] = [a..<a + nodes v] @ [a + nodes v..<a + nodes v + nodes_mems ms]"
    using upt_add_eq_append [of a "a + nodes v" "nodes_mems ms"] by (simp add: add.assoc)
  moreover have "[a..<a + nodes v] = a # [a + 1..<a + nodes v]" using nodes_pos [of v] by (simp add: upt_conv_Cons)
  ultimately show ?case using MCons by simp
qed simp_all

lemma text_of:
  "wf_val arr v \<Longrightarrow> dtext (val_of c v) = render v" "wf_mems arr ms \<Longrightarrow> dtext_mems arr (mems_of a ms) = render_mems arr ms"
proof (induction v and ms arbitrary: arr c and arr a rule: jval.induct jmems.induct)
  case (MCons nm v ms)
  have "dtext (val_of a v) = render v" "dtext_mems arr (mems_of (a + nodes v) ms) = render_mems arr ms"
    using MCons.IH(1) [of arr] MCons.IH(2) [of arr] MCons.prems by simp_all
  then show ?case by (cases ms) (simp_all add: dname_def)
qed (simp_all add: itoa_bytes_text)

lemma rep_of:
  "wf_val arr v \<Longrightarrow> jrep N c v fl \<Longrightarrow> drep N c (val_of c v)"
  "wf_mems arr ms \<Longrightarrow> jreps N p arr a ms \<Longrightarrow> dreps N p arr (mems_of a ms)"
proof (induction v and ms arbitrary: arr c fl and p arr a rule: jval.induct jmems.induct)
  case (VNum n)
  then have "wrap32 n = n" by auto
  then show ?case using VNum by (auto simp: wrap32_mod)
next
  case (VNode arr' ms)
  then show ?case by (auto simp: dkids_of)
qed auto

lemma json_print_tree:
  assumes "jrep (jnode h) root (VNode arr ms) fl" "wf_mems arr ms"
  shows "\<exists>h' cur. json_print_str h root
      = Some (Some (int (length (render (VNode arr ms))), \<lparr>pr_heap = h', pr_curr = cur, pr_out = render (VNode arr ms)\<rparr>))"
proof -
  have wf: "wf_val False (VNode arr ms)" using assms(2) by simp
  have "distinct (root # ids_mems (mems_of (root + 1) ms))" unfolding ids_of by simp
  moreover have "dtext (DNode arr (mems_of (root + 1) ms)) = render (VNode arr ms)" using text_of(1) [OF wf, of root] by simp
  moreover have "drep (jnode h) root (DNode arr (mems_of (root + 1) ms))" using rep_of(1) [OF wf assms(1)] by simp
  ultimately show ?thesis using print_tree by metis
qed

text \<open>(C21) 
  Printing what was parsed gives the text back, for a text as the printer writes it and an allocator that
  succeeds: a map or an array without blanks or escapes, whose strings have at most 510 bytes and whose names
  at most 29, with numbers of at most 31 bits (in an array not negative), nested maps and arrays, and
  \<^verbatim>\<open>true\<close>. The tree that \<open>json_solve_str\<close> builds is printed by \<open>json_print_str\<close> as that same text.
  (\<^verbatim>\<open>false\<close> is excluded because it is read as true, \<open>json_false_reads_true\<close>.)
\<close>

theorem json_parse_print_roundtrip:
  assumes "wf_mems arr ms" "\<forall>k. jmalloc h k"
  shows "\<exists>h' st. json_solve_str h (render (VNode arr ms)) = Solved h' (length (render (VNode arr ms)))
    \<and> json_print_str h' (jnext h) = Some (Some (int (length (render (VNode arr ms))), st))
    \<and> pr_out st = render (VNode arr ms)"
proof -
  obtain h' where "json_solve_str h (render (VNode arr ms)) = Solved h' (length (render (VNode arr ms)))"
      "jrep (jnode h') (jnext h) (VNode arr ms) True"
    using json_solve_text [of arr ms h "[]"] assms by (auto simp: jok_def)
  then show ?thesis using json_print_tree [OF _ assms(1)] by fastforce
qed

theorem json_parse_print_roundtrip_witness:
  "\<exists>h' st. json_solve_str \<lparr>jnode = \<lambda>_. empty_node, jnext = 0, jmalloc = \<lambda>_. True\<rparr> (render (VNode True (MCons [] VTrue MNil)))
      = Solved h' (length (render (VNode True (MCons [] VTrue MNil))))
    \<and> json_print_str h' 0 = Some (Some (int (length (render (VNode True (MCons [] VTrue MNil)))), st))
    \<and> pr_out st = render (VNode True (MCons [] VTrue MNil))"
proof -
  have "wf_mems True (MCons [] VTrue MNil)" by (simp add: plain_def)
  from json_parse_print_roundtrip [OF this, of "\<lparr>jnode = \<lambda>_. empty_node, jnext = 0, jmalloc = \<lambda>_. True\<rparr>"]
  show ?thesis by simp
qed

end
