(* ===== verification/Cube_Json_Nodes.thy ===== *)
theory Cube_Json_Nodes
  imports Cube_Json_Print
begin

text \<open>
  The node operations of \<^verbatim>\<open>json.c\<close> on the child list, and where the parser and the readers depart
  from the values they are given: long names, escapes at the end, the truth values, negative numbers.
\<close>

section \<open>Searching and removing children\<close>

lemma find_elem_loop_walk:
  "childlist (jnode h root) = pre @ cs \<Longrightarrow> curr_child (jnode h root) = Some (length pre) \<Longrightarrow>
   length cs \<le> fuel \<Longrightarrow> this = (case cs of [] \<Rightarrow> None | c # _ \<Rightarrow> Some c) \<Longrightarrow>
   \<exists>h'. find_elem_loop name h root this fuel = Some (h', find (\<lambda>c. strneq DIGEST_SIZE name (jname (jnode h c))) cs)
     \<and> walked {root} h h'"
proof (induction cs arbitrary: h pre fuel this)
  case Nil
  then show ?case by (subst find_elem_loop.simps) (auto intro: walked_refl)
next
  case (Cons c cs)
  obtain k where k: "fuel = Suc k" using Cons.prems(3) by (cases fuel) auto
  show ?case
  proof (cases "strneq DIGEST_SIZE name (jname (jnode h c))")
    case True
    then show ?thesis using Cons.prems(4) by (subst find_elem_loop.simps) (auto intro: walked_refl)
  next
    case False
    let ?h = "upd_node root (\<lambda>n. n\<lparr>curr_child := Some (length pre + 1)\<rparr>) h"
    let ?cur = "case cs of [] \<Rightarrow> None | d # _ \<Rightarrow> Some d"
    have next1: "json_get_next_child h root = Some (?h, ?cur)"
      using Cons.prems(1,2) by (cases cs) (auto simp: json_get_next_child_def Let_def nth_append)
    have w: "walked {root} h ?h" by (auto simp: walked_def shape_def fun_upd_apply)
    have same: "jname (jnode ?h a) = jname (jnode h a)" for a using walked_sel [OF w, of a] by blast
    obtain h' where h': "find_elem_loop name ?h root ?cur k
        = Some (h', find (\<lambda>c. strneq DIGEST_SIZE name (jname (jnode ?h c))) cs)" "walked {root} ?h h'"
      using Cons.IH [of ?h "pre @ [c]" k ?cur] Cons.prems(1,3) k by auto
    have "walked {root} h h'" by (rule walked_trans [OF w h'(2)]) simp
    then show ?thesis using False k next1 h'(1) Cons.prems(4) unfolding same
      by (subst find_elem_loop.simps) simp
  qed
qed

lemma find_elem_map:
  assumes "json_get_type h (Some root) = JSON_ELEM_MAP"
  obtains h' where "json_find_elem name h root
      = Some (h', find (\<lambda>c. strneq DIGEST_SIZE name (jname (jnode h c))) (childlist (jnode h root)))" "walked {root} h h'"
proof -
  let ?h = "upd_node root (\<lambda>n. n\<lparr>curr_child := Some 0\<rparr>) h" and ?cs = "childlist (jnode h root)"
  let ?cur = "case ?cs of [] \<Rightarrow> None | c # _ \<Rightarrow> Some c"
  have first: "json_get_first_child h root = (?h, ?cur)"
    by (cases ?cs) (auto simp: json_get_first_child_def)
  have w: "walked {root} h ?h" by (auto simp: walked_def shape_def fun_upd_apply)
  have same: "jname (jnode ?h a) = jname (jnode h a)" for a using walked_sel [OF w, of a] by blast
  obtain h' where "find_elem_loop name ?h root ?cur (length ?cs)
      = Some (h', find (\<lambda>c. strneq DIGEST_SIZE name (jname (jnode ?h c))) ?cs)" "walked {root} ?h h'"
    using find_elem_loop_walk [of ?h root "[]" ?cs "length ?cs" ?cur name] by auto
  then show thesis using that assms first walked_trans [OF w, of "{root}" h' "{root}"] unfolding same
    by (simp add: json_find_elem_def)
qed

text \<open>(C34) 
  \<open>json_find_elem\<close> ends and returns the first member whose name agrees with the given one in its first
  32 bytes, or \<open>NULL\<close>; on a node that is no map it returns \<open>NULL\<close>. Only the cursor of the map changes.
\<close>

theorem json_find_elem_correct:
  "\<exists>h'. json_find_elem name h root
      = Some (h', if json_get_type h (Some root) = JSON_ELEM_MAP
                  then find (\<lambda>c. strneq DIGEST_SIZE name (jname (jnode h c))) (childlist (jnode h root)) else None)
    \<and> walked {root} h h'"
proof (cases "json_get_type h (Some root) = JSON_ELEM_MAP")
  case True
  then show ?thesis by (auto elim: find_elem_map [of h root name])
next
  case False
  then show ?thesis by (auto simp: json_find_elem_def intro: walked_refl)
qed

lemma child_index_split: "child_index (us @ c # vs) c = Some (length us)" if "c \<notin> set us"
  using that by (induction us) auto

text \<open>(C35) 
  Removing a node that its father lists takes the node out of the list, counts it off, and leaves the
  father's cursor on the child it was on, or on the next one when that was the node removed.
\<close>

theorem json_remove_node_correct:
  assumes "father (jnode h node) = Some f" "childlist (jnode h f) = us @ node # vs" "distinct (us @ node # vs)"
    and "curr_child (jnode h f) = Some k" "k \<le> length (us @ node # vs)"
  shows "\<exists>h' k'. json_remove_node h node = Some (h', 0)
    \<and> jnode h' f = (jnode h f)\<lparr>childlist := us @ vs, elem_no := elem_no (jnode h f) - 1, curr_child := Some k'\<rparr>
    \<and> (\<forall>a. a \<noteq> f \<longrightarrow> jnode h' a = jnode h a)
    \<and> drop k' (us @ vs) = (if k \<le> length us then drop k us @ vs else drop (k - 1 - length us) vs)"
proof -
  let ?cs = "us @ node # vs"
  have n: "node \<notin> set us" "node \<notin> set vs" using assms(3) by auto
  have cur: "k < length ?cs \<and> ?cs ! k = node \<longleftrightarrow> k = length us"
  proof
    assume "k < length ?cs \<and> ?cs ! k = node"
    then show "k = length us" using assms(3) nth_eq_iff_index_eq [of ?cs k "length us"] by simp
  qed simp
  let ?q = "if k = length us then k + 1 else k"
  let ?k' = "if length us < ?q then ?q - 1 else ?q"
  let ?h = "upd_node f (\<lambda>n. n\<lparr>curr_child := Some ?k', childlist := take (length us) (childlist n) @ drop (length us + 1) (childlist n),
      elem_no := elem_no n - 1\<rparr>) h"
  have "json_remove_node h node = Some (?h, 0)"
    using assms(1,2,4) cur child_index_split [OF n(1), of vs] unfolding json_remove_node_def Let_def by simp
  moreover have "jnode ?h f = (jnode h f)\<lparr>childlist := us @ vs, elem_no := elem_no (jnode h f) - 1, curr_child := Some ?k'\<rparr>"
    using assms(2) by simp
  moreover have "drop ?k' (us @ vs) = (if k \<le> length us then drop k us @ vs else drop (k - 1 - length us) vs)"
    by auto
  ultimately show ?thesis by (intro exI [of _ ?h] exI [of _ ?k']) (auto simp: fun_upd_apply)
qed

theorem json_remove_node_correct_witness:
  "\<exists>h' k'. json_remove_node (tree_example\<lparr>jnode := (jnode tree_example)(1 := (jnode tree_example 1)\<lparr>curr_child := Some 1\<rparr>)\<rparr>) 3
     = Some (h', 0) \<and> childlist (jnode h' 1) = [2] \<and> elem_no (jnode h' 1) = 1"
proof -
  let ?h = "tree_example\<lparr>jnode := (jnode tree_example)(1 := (jnode tree_example 1)\<lparr>curr_child := Some 1\<rparr>)\<rparr>"
  have "father (jnode ?h 3) = Some 1" "childlist (jnode ?h 1) = [2] @ 3 # []" "curr_child (jnode ?h 1) = Some 1"
    "elem_no (jnode ?h 1) = 2"
    by (simp_all add: tree_example_def empty_node_def fun_upd_apply)
  then show ?thesis using json_remove_node_correct [of ?h 3 1 "[2]" "[]" 1] by auto
qed

section \<open>Inputs the parser mishandles\<close>

lemma solve_first:
  fixes h :: jheap
  assumes "jmalloc h 0" "jmalloc h 1"
  defines "r \<equiv> jnext h"
  shows "\<exists>h2. json_solve_str h (123 # t) = json_loop (123 # t) \<lparr>jp_heap = h2, jp_curr = Some r, jp_off = 1\<rparr>
    \<and> json_get_type h2 (Some r) = JSON_ELEM_MAP"
proof -
  let ?s = "123 # t" and ?h1 = "h\<lparr>jnode := (jnode h)(r := empty_node), jnext := r + 1, jmalloc := \<lambda>k. jmalloc h (Suc (Suc k))\<rparr>"
  let ?h2 = "fst (json_set_type ?h1 (Some r) JSON_ELEM_MAP True)"
  have n: "new_json_node h None = (?h1, Some r)" using assms(1,2) by (simp add: new_json_node_def jalloc_def empty_node_def Let_def r_def)
  have a: "rd ?s 0 = 123" by (simp add: rd_def)
  have "json_round ?s \<lparr>jp_heap = ?h1, jp_curr = Some r, jp_off = 0\<rparr> = JNext \<lparr>jp_heap = ?h2, jp_curr = Some r, jp_off = 1\<rparr>"
    using a skip_chars_stop [of IsSplitChar ?s 0]
    by (simp add: json_round_def IsSplitChar_def json_get_type_def json_step_null_def empty_node_def)
  then have "json_solve_str h ?s = json_loop ?s \<lparr>jp_heap = ?h2, jp_curr = Some r, jp_off = 1\<rparr>"
    using a loop_next [of ?s "\<lparr>jp_heap = ?h1, jp_curr = Some r, jp_off = 0\<rparr>" "\<lparr>jp_heap = ?h2, jp_curr = Some r, jp_off = 1\<rparr>"]
    by (auto simp: json_solve_str_def n)
  moreover have "json_get_type ?h2 (Some r) = JSON_ELEM_MAP"
    using set_type_heap [of JSON_ELEM_MAP ?h1 r True] by (simp add: json_get_type_def)
  ultimately show ?thesis by blast
qed

text \<open>The round that reads the name of a member, when the name reader does not give a short name.\<close>

lemma name_round:
  assumes "json_get_type h2 (Some r) = JSON_ELEM_MAP" "rd s 1 = 34"
  shows "json_loop s \<lparr>jp_heap = h2, jp_curr = Some r, jp_off = 1\<rparr> =
    (case json_get_strvalue (drop 1 s) of
       StrErr \<Rightarrow> Code (- EINVAL) | StrOver \<Rightarrow> Overrun
     | StrOk ret v \<Rightarrow> if ret \<ge> DIGEST_SIZE then Code (int ret)
         else json_loop s \<lparr>jp_heap = h2, jp_curr = Some r, jp_off = 1\<rparr>)"
  using assms by (cases "json_get_strvalue (drop 1 s)")
    (simp_all add: json_loop.simps [of s] json_round_def IsSplitChar_def json_step_map_def split: prod.split)

text \<open>
  A member name of thirty to 511 bytes makes \<open>json_solve_str\<close> return the number of bytes read, a
  positive code like that of a success, without setting \<^verbatim>\<open>*root\<close>.
\<close>

theorem json_long_name_positive_code:
  assumes "plain nm" "30 \<le> length nm" "length nm \<le> 511" "jmalloc h 0" "jmalloc h 1"
  shows "json_solve_str h (123 # 34 # nm @ 34 # rest) = Code (int (length nm) + 2)"
proof -
  let ?s = "123 # 34 # nm @ 34 # rest"
  obtain h2 where h2: "json_solve_str h ?s = json_loop ?s \<lparr>jp_heap = h2, jp_curr = Some (jnext h), jp_off = 1\<rparr>"
      "json_get_type h2 (Some (jnext h)) = JSON_ELEM_MAP" using solve_first [OF assms(4,5)] by blast
  have "json_get_strvalue (drop 1 ?s) = StrOk (length nm + 2) nm"
    using assms by (intro strvalue_plain) (auto simp: at_def)
  then show ?thesis using h2 name_round [OF h2(2), of ?s] assms by (simp add: rd_def)
qed

theorem json_long_name_positive_code_witness:
  "json_solve_str \<lparr>jnode = \<lambda>_. empty_node, jnext = 0, jmalloc = \<lambda>_. True\<rparr> (123 # 34 # replicate 30 97 @ 34 # [58, 49, 125]) = Code 32"
  using json_long_name_positive_code [of "replicate 30 97" "\<lparr>jnode = \<lambda>_. empty_node, jnext = 0, jmalloc = \<lambda>_. True\<rparr>" "[58, 49, 125]"]
  by (simp add: plain_def list_all_iff)

text \<open>(C40) 
  A member name of 512 to 1022 bytes, first in the map, is written behind the end of \<^verbatim>\<open>value_buffer\<close> before
  any check of its length. The root's two allocations succeed; the one of the member does not matter.
\<close>

theorem json_name_overruns_buffer:
  assumes "plain nm" "512 \<le> length nm" "length nm \<le> 1022" "jmalloc h 0" "jmalloc h 1"
  shows "json_solve_str h (123 # 34 # nm @ 34 # rest) = Overrun"
proof -
  let ?s = "123 # 34 # nm @ 34 # rest"
  obtain h2 where h2: "json_solve_str h ?s = json_loop ?s \<lparr>jp_heap = h2, jp_curr = Some (jnext h), jp_off = 1\<rparr>"
      "json_get_type h2 (Some (jnext h)) = JSON_ELEM_MAP" using solve_first [OF assms(4,5)] by blast
  have "json_get_strvalue (drop 1 ?s) = (if length nm < 512 then StrOk (length nm + 2) nm else StrOver)"
    using assms by (intro strvalue_text) (auto simp: at_def)
  then show ?thesis using h2 name_round [OF h2(2), of ?s] assms by (simp add: rd_def)
qed

theorem json_name_overruns_buffer_witness:
  "json_solve_str \<lparr>jnode = \<lambda>_. empty_node, jnext = 0, jmalloc = \<lambda>_. True\<rparr> (123 # 34 # replicate 600 97 @ 34 # [58, 49, 125]) = Overrun"
  using json_name_overruns_buffer [of "replicate 600 97" "\<lparr>jnode = \<lambda>_. empty_node, jnext = 0, jmalloc = \<lambda>_. True\<rparr>" "[58, 49, 125]"]
  by (simp add: plain_def list_all_iff)

lemma str_loop_escape_end:
  "plain t \<Longrightarrow> at s i (t @ [92]) \<Longrightarrow> length s = i + length t + 1 \<Longrightarrow> i + length t < 1022 \<Longrightarrow> str_loop s i acc = StrOver"
proof (induction t arbitrary: i acc)
  case Nil
  then have "rd s i = 92" using at_single by simp
  then show ?case using Nil by (simp add: str_loop.simps)
next
  case (Cons b t)
  have b: "rd s i = b" "at s (i + 1) (t @ [92])"
    using Cons.prems(2) at_Cons [of s i b "t @ [92]"] at_single [of s i b] by auto
  have "str_loop s (i + 1) (acc @ [b]) = StrOver"
    using Cons b by (intro Cons.IH) (auto simp: plain_def)
  then show ?case using Cons.prems b by (subst str_loop.simps) (auto simp: plain_def)
qed

text \<open>
  A string that ends with a backslash inside a name makes the parser read behind the terminating NUL.
\<close>

theorem json_trailing_escape_overreads:
  assumes "plain nm" "length nm \<le> 1000" "jmalloc h 0" "jmalloc h 1"
  shows "json_solve_str h (123 # 34 # nm @ [92]) = Overrun"
proof -
  let ?s = "123 # 34 # nm @ [92]"
  obtain h2 where h2: "json_solve_str h ?s = json_loop ?s \<lparr>jp_heap = h2, jp_curr = Some (jnext h), jp_off = 1\<rparr>"
      "json_get_type h2 (Some (jnext h)) = JSON_ELEM_MAP" using solve_first [OF assms(3,4)] by blast
  have "json_get_strvalue (drop 1 ?s) = StrOver"
    using assms str_loop_escape_end [of nm "34 # nm @ [92]" 1 "[]"]
    by (simp add: json_get_strvalue_def rd_def at_def)
  then show ?thesis using h2 name_round [OF h2(2), of ?s] by (simp add: rd_def)
qed

theorem json_trailing_escape_overreads_witness:
  "json_solve_str \<lparr>jnode = \<lambda>_. empty_node, jnext = 0, jmalloc = \<lambda>_. True\<rparr> [123, 34, 97, 92] = Overrun"
  using json_trailing_escape_overreads [of "[97]" "\<lparr>jnode = \<lambda>_. empty_node, jnext = 0, jmalloc = \<lambda>_. True\<rparr>"] by (simp add: plain_def)

text \<open>
  Reading a value into eight bytes: a negative member number comes out as the number plus \<open>2^32\<close>, since
  the parser fills only the low half of the 64-bit field.
\<close>

theorem json_negative_member_value:
  assumes "jrep (jnode h) c (VNum n) False" "n < 0" "- 2147483648 \<le> n"
  shows "json_node_getvalue h (Some c) 8 = Some (8, le_bytes 8 (n + 4294967296))"
proof -
  have "n mod 4294967296 = n + 4294967296"     using mod_pos_pos_trivial [of "n + 4294967296" 4294967296] assms(2,3) by simp
  moreover have "length (le_bytes 8 x) = 8" for x by (simp add: le_bytes_def)
  ultimately show ?thesis using assms(1) by (simp add: json_node_getvalue_def Let_def buf_put_def)
qed

theorem json_negative_member_value_witness:
  "json_node_getvalue \<lparr>jnode = \<lambda>_. empty_node\<lparr>elem_type := 1, jvalue := 4294967291\<rparr>, jnext = 1, jmalloc = \<lambda>_. True\<rparr> (Some 0) 8
   = Some (8, le_bytes 8 4294967291)"
  using json_negative_member_value [of "\<lparr>jnode = \<lambda>_. empty_node\<lparr>elem_type := 1, jvalue := 4294967291\<rparr>, jnext = 1, jmalloc = \<lambda>_. True\<rparr>" 0 "- 5"]
  by simp

text \<open>
  The values of array elements cannot be read: \<open>json_node_getvalue\<close> compares the whole type, flag
  included, and answers \<^verbatim>\<open>-EINVAL\<close>.
\<close>

theorem json_array_element_value:
  assumes "jrep (jnode h) c v True"
  shows "json_node_getvalue h (Some c) len = Some (- EINVAL, replicate len 0)"
proof -
  have "elem_type (jnode h c) > 4096" using assms by (cases v) (auto split: if_splits)
  then show ?thesis by (simp add: json_node_getvalue_def Let_def)
qed

theorem json_array_element_value_witness:
  "json_node_getvalue tree_example (Some 2) 4 = Some (- EINVAL, replicate 4 0)"
proof -
  have "jrep (jnode tree_example) 2 (VNum 42) True"
    by (simp add: tree_example_def empty_node_def fun_upd_apply)
  then show ?thesis by (rule json_array_element_value)
qed

text \<open>
  Both truth values are stored as true, and the reader for null rejects every text.
\<close>

theorem json_false_reads_true:
  assumes "lit s w_false \<or> lit s w_False \<or> lit s w_FALSE"
  shows "json_get_boolvalue s = Some (5, 1) \<and> json_get_nullvalue t = None"
proof -
  have head: "lit s (w # ws) \<Longrightarrow> rd s 0 = w" for w ws
    unfolding lit_def by (metis length_Cons list.sel(1) list.simps(9) upt_conv_Cons zero_less_Suc)
  then have "rd s 0 = 102 \<and> lit s w_false \<or> rd s 0 = 70 \<and> (lit s w_False \<or> lit s w_FALSE)"
    using assms unfolding w_false_def w_False_def w_FALSE_def by blast
  then show ?thesis by (auto simp: json_get_boolvalue_def json_get_nullvalue_def)
qed

theorem json_false_reads_true_witness: "json_get_boolvalue [102, 97, 108, 115, 101, 125] = Some (5, 1)"
proof -
  have "lit [102, 97, 108, 115, 101, 125] w_false" by (simp add: lit_def w_false_def rd_def upt_rec)
  then show ?thesis using json_false_reads_true by blast
qed

end
