(* ===== verification/Cube_Error.thy ===== *)
theory Cube_Error
  imports Cube_Prelude
begin

text \<open>
  The error page of \<^verbatim>\<open>cubelib/error/error.c\<close>: a ring of error records behind a header of 28 bytes in
  one page of 4096. The sites count from the start of the page. The ring ends at \<open>buf_size\<close>, which
  the code takes as a site although it is the size of the area, so the ring is
  the bytes from 28 up to 4068. An \<^verbatim>\<open>ERR_INFO\<close> takes 12 bytes: a 16-bit code,
  two bytes of padding, and two integers.
\<close>

abbreviation (input) CUBEERR_NOMEM :: int where "CUBEERR_NOMEM \<equiv> 2"
abbreviation (input) CUBEERR_OVERFLOW :: int where "CUBEERR_OVERFLOW \<equiv> 3"
abbreviation (input) ERR_PAGE_SIZE :: int where "ERR_PAGE_SIZE \<equiv> 4096"
abbreviation (input) ERRPAGE_INIT :: int where "ERRPAGE_INIT \<equiv> 1"

record cube_error_page =
  ep_offset :: int
  ep_state :: int
  errinfo_num :: int
  throw_num :: int
  start_site :: int
  end_site :: int
  ep_buf_size :: int
  ep_bytes :: "byte list"

text \<open>The answer of \<^verbatim>\<open>malloc\<close> is an argument; without a page the global pointer keeps its value.\<close>

definition cubeerr_init :: "byte list option \<Rightarrow> cube_error_page option \<Rightarrow> int \<times> cube_error_page option" where
  "cubeerr_init buf error_page =
     (case buf of
        None \<Rightarrow> (- CUBEERR_NOMEM, error_page)
      | Some bs \<Rightarrow>
          (0, Some \<lparr>ep_offset = 28, ep_state = ERRPAGE_INIT, errinfo_num = 0, throw_num = 0,
                    start_site = 28, end_site = 28, ep_buf_size = ERR_PAGE_SIZE - 28, ep_bytes = bs\<rparr>))"

definition ep_slice :: "cube_error_page \<Rightarrow> int \<Rightarrow> int \<Rightarrow> byte list" where
  "ep_slice p from n = take (nat n) (drop (nat from) (ep_bytes p))"

definition ep_store :: "int \<Rightarrow> byte list \<Rightarrow> cube_error_page \<Rightarrow> cube_error_page" where
  "ep_store site bs p = p\<lparr>ep_bytes := buf_put (ep_bytes p) (nat site) bs\<rparr>"

definition cubeerr_get_head :: "cube_error_page \<Rightarrow> byte list" where
  "cubeerr_get_head p =
     (let left_size = ep_buf_size p - start_site p
      in if left_size > 12 then ep_slice p (start_site p) 12
         else ep_slice p (start_site p) left_size @ ep_slice p (ep_offset p) (12 - left_size))"

definition cubeerr_write_buf :: "byte list \<Rightarrow> cube_error_page \<Rightarrow> cube_error_page" where
  "cubeerr_write_buf bs p =
     (let sz = int (length bs); left_size = ep_buf_size p - end_site p
      in if sz \<le> 0 then p
         else if left_size > sz then (ep_store (end_site p) bs p)\<lparr>end_site := end_site p + sz\<rparr>
         else (ep_store (ep_offset p) (drop (nat left_size) bs)
                 (ep_store (end_site p) (take (nat left_size) bs) p))\<lparr>end_site := ep_offset p + sz - left_size\<rparr>)"

text \<open>
  An \<^verbatim>\<open>ERR_INFO\<close> on the stack: its bytes with the padding \<open>pad\<close>, and the bytes \<open>after\<close> that follow it.
  The member \<^verbatim>\<open>errinfo\<close> has length 0, so \<^verbatim>\<open>err_info->errinfo\<close> are the bytes after the structure.
\<close>

definition info_bytes :: "byte list \<Rightarrow> int \<Rightarrow> int \<Rightarrow> int \<Rightarrow> byte list" where
  "info_bytes pad code para sz = le_bytes 2 code @ pad @ le_bytes 4 para @ le_bytes 4 sz"

definition head_errinfo_size :: "byte list \<Rightarrow> int" where
  "head_errinfo_size h = wrap32 (le_value (drop 8 h))"

definition cubeerr_write_info :: "byte list \<Rightarrow> byte list \<Rightarrow> cube_error_page \<Rightarrow> cube_error_page \<times> int" where
  "cubeerr_write_info err_info errinfo p =
     (let p1 = cubeerr_write_buf errinfo (cubeerr_write_buf err_info p)
      in (p1\<lparr>errinfo_num := errinfo_num p1 + 1\<rparr>, 0))"

text \<open>\<open>read_buf\<close> is \<open>NULL\<close> in the only calls, so the bytes read are dropped.\<close>

definition cubeerr_read_buf :: "int \<Rightarrow> cube_error_page \<Rightarrow> cube_error_page" where
  "cubeerr_read_buf sz p =
     (let left_size = ep_buf_size p - start_site p
      in if sz \<le> 0 then p
         else if left_size > sz then p\<lparr>start_site := start_site p + sz\<rparr>
         else p\<lparr>start_site := ep_offset p + sz - left_size\<rparr>)"

definition cubeerr_empty_size :: "cube_error_page \<Rightarrow> int" where
  "cubeerr_empty_size p =
     (if end_site p \<ge> start_site p then ep_buf_size p - end_site p + (start_site p - ep_offset p)
      else start_site p - end_site p)"

definition throw_oldest :: "cube_error_page \<Rightarrow> cube_error_page" where
  "throw_oldest p =
     (let h = cubeerr_get_head p;
          p1 = cubeerr_read_buf (head_errinfo_size h) (cubeerr_read_buf 12 p)
      in p1\<lparr>throw_num := throw_num p1 + 1, errinfo_num := errinfo_num p1 - 1\<rparr>)"

partial_function (option) throw_loop :: "int \<Rightarrow> cube_error_page \<Rightarrow> cube_error_page option" where
  "throw_loop info_size p =
     (if info_size > cubeerr_empty_size p then throw_loop info_size (throw_oldest p) else Some p)"

text \<open>
  \<open>cubeerr_write\<close>: the string \<open>err_string\<close> gives only the length. \<open>None\<close> is a loop that never ends.
\<close>

definition cubeerr_write ::
  "byte list \<Rightarrow> (nat \<Rightarrow> byte) \<Rightarrow> int \<Rightarrow> int \<Rightarrow> byte list \<Rightarrow> cube_error_page \<Rightarrow> (cube_error_page \<times> int) option" where
  "cubeerr_write pad after err_code para err_string p =
     (let errinfo_size = int (length err_string);
          info_size = 12 + errinfo_size
      in if info_size > 512 then Some (p\<lparr>throw_num := throw_num p + 1\<rparr>, - CUBEERR_OVERFLOW)
         else case throw_loop info_size p of
                None \<Rightarrow> None
              | Some p1 \<Rightarrow>
                  Some (cubeerr_write_info (info_bytes pad err_code para errinfo_size)
                          (map after [0..<length err_string]) p1))"

section \<open>The ring as a queue of records\<close>

text \<open>The bytes of the ring \<open>d\<close> between the read position \<open>r\<close> and the write position \<open>w\<close>.\<close>

definition ring_cont :: "byte list \<Rightarrow> nat \<Rightarrow> nat \<Rightarrow> byte list" where
  "ring_cont d r w = (if r \<le> w then take (w - r) (drop r d) else drop r d @ take w d)"

definition ring_put :: "byte list \<Rightarrow> nat \<Rightarrow> byte list \<Rightarrow> byte list" where
  "ring_put d w bs = (if w + length bs < length d then buf_put d w bs
     else buf_put (buf_put d w (take (length d - w) bs)) 0 (drop (length d - w) bs))"

definition ring_add :: "byte list \<Rightarrow> nat \<Rightarrow> nat \<Rightarrow> nat" where
  "ring_add d w k = (if w + k < length d then w + k else w + k - length d)"

lemma length_ring_cont:
  "r < length d \<Longrightarrow> w < length d \<Longrightarrow> length (ring_cont d r w) = (if r \<le> w then w - r else length d - r + w)"
  by (auto simp: ring_cont_def)

lemma length_ring_put:
  "w < length d \<Longrightarrow> length bs \<le> length d \<Longrightarrow> length (ring_put d w bs) = length d"
  by (auto simp: ring_put_def)

lemma ring_put_cont:
  assumes "r < length d" "w < length d" "length (ring_cont d r w) + length bs < length d"
  shows "ring_cont (ring_put d w bs) r (ring_add d w (length bs)) = ring_cont d r w @ bs"
proof (cases "r \<le> w")
  case True
  then have l: "w - r + length bs < length d" using assms by (simp add: length_ring_cont)
  show ?thesis
  proof (cases "w + length bs < length d")
    case True
    then show ?thesis using \<open>r \<le> w\<close>
      by (simp add: ring_cont_def ring_put_def ring_add_def buf_put_def drop_take)
  next
    case False
    let ?k = "length d - w" and ?b = "drop (length d - w) bs"
    have "length ?b < r" using False l \<open>r \<le> w\<close> assms by simp
    then show ?thesis using False \<open>r \<le> w\<close> assms
      by (auto simp: ring_cont_def ring_put_def ring_add_def buf_put_def drop_take)
  qed
next
  case False
  then have "w + length bs < r" using assms by (simp add: length_ring_cont)
  then show ?thesis using False assms
    by (simp add: ring_cont_def ring_put_def ring_add_def buf_put_def)
qed

lemma ring_read_cont:
  assumes "r < length d" "w < length d" "k \<le> length (ring_cont d r w)"
  shows "ring_cont d (ring_add d r k) w = drop k (ring_cont d r w)"
  using assms by (auto simp: ring_cont_def ring_add_def drop_take add.commute split: if_splits)

definition ep_ring :: "cube_error_page \<Rightarrow> byte list" where
  "ep_ring p = take 4040 (drop 28 (ep_bytes p))"

abbreviation ep_r :: "cube_error_page \<Rightarrow> nat" where "ep_r p \<equiv> nat (start_site p - 28)"
abbreviation ep_w :: "cube_error_page \<Rightarrow> nat" where "ep_w p \<equiv> nat (end_site p - 28)"

definition ep_wf :: "cube_error_page \<Rightarrow> bool" where
  "ep_wf p \<longleftrightarrow> ep_offset p = 28 \<and> ep_buf_size p = 4068 \<and> length (ep_bytes p) = 4096
     \<and> 28 \<le> start_site p \<and> start_site p < 4068 \<and> 28 \<le> end_site p \<and> end_site p < 4068"

definition ep_cont :: "cube_error_page \<Rightarrow> byte list" where
  "ep_cont p = ring_cont (ep_ring p) (ep_r p) (ep_w p)"

lemma ep_wf_ring [simp]: "ep_wf p \<Longrightarrow> length (ep_ring p) = 4040 \<and> ep_r p < 4040 \<and> ep_w p < 4040"
  by (auto simp: ep_wf_def ep_ring_def)

lemma ep_ring_put:
  "length bytes = 4096 \<Longrightarrow> w + length bs \<le> 4040 \<Longrightarrow>
   take 4040 (drop 28 (buf_put bytes (28 + w) bs)) = buf_put (take 4040 (drop 28 bytes)) w bs"
  by (rule nth_equalityI) (auto simp: nth_buf_put)

lemma write_buf_ring:
  assumes "ep_wf p" "length bs \<le> 4040"
  shows "ep_ring (cubeerr_write_buf bs p) = ring_put (ep_ring p) (ep_w p) bs"
    and "ep_w (cubeerr_write_buf bs p) = ring_add (ep_ring p) (ep_w p) (length bs)"
    and "ep_wf (cubeerr_write_buf bs p)"
proof -
  obtain w where w: "end_site p = 28 + int w" "w < 4040"
    using assms(1) by (auto simp: ep_wf_def dest!: zle_iff_zadd [THEN iffD1])
  have p: "length (ep_bytes p) = 4096" "ep_buf_size p = 4068" "ep_offset p = 28" using assms(1) by (auto simp: ep_wf_def)
  have n: "nat (28 + int w) = 28 + w" "nat (4040 - int w) = 4040 - w" using w by linarith+
  have put: "take 4040 (drop 28 (buf_put (ep_bytes p) (28 + w) cs)) = buf_put (ep_ring p) w cs"
    if "w + length cs \<le> 4040" for cs using p that by (simp add: ep_ring_put ep_ring_def)
  show "ep_ring (cubeerr_write_buf bs p) = ring_put (ep_ring p) (ep_w p) bs"
  proof (cases "w + length bs < 4040")
    case True
    then show ?thesis using w p put assms(1)
      by (auto simp: cubeerr_write_buf_def ep_store_def ring_put_def Let_def n ep_ring_def)
  next
    case False
    let ?a = "take (4040 - w) bs" and ?b = "drop (4040 - w) bs"
    have l: "length (buf_put (ep_bytes p) (28 + w) ?a) = 4096" using w p by (intro trans [OF length_buf_put]) auto
    have "take 4040 (drop 28 (buf_put (buf_put (ep_bytes p) (28 + w) ?a) (28 + 0) ?b))
        = buf_put (take 4040 (drop 28 (buf_put (ep_bytes p) (28 + w) ?a))) 0 ?b"
      using assms(2) by (intro ep_ring_put l) auto
    also have "\<dots> = buf_put (buf_put (ep_ring p) w ?a) 0 ?b" using w by (subst put) auto
    finally show ?thesis using False w p assms(1) \<open>w < 4040\<close>
      by (auto simp: cubeerr_write_buf_def ep_store_def ring_put_def Let_def ep_ring_def n)
  qed
  show "ep_w (cubeerr_write_buf bs p) = ring_add (ep_ring p) (ep_w p) (length bs)"
    using w p assms by (auto simp: cubeerr_write_buf_def ep_store_def ring_add_def Let_def)
  show "ep_wf (cubeerr_write_buf bs p)"
    using w p assms by (auto simp: cubeerr_write_buf_def ep_store_def Let_def ep_wf_def n)
qed

lemma write_buf_frame [simp]:
  "start_site (cubeerr_write_buf bs p) = start_site p"
  "errinfo_num (cubeerr_write_buf bs p) = errinfo_num p"
  "throw_num (cubeerr_write_buf bs p) = throw_num p"
  by (auto simp: cubeerr_write_buf_def ep_store_def Let_def)

lemma write_buf_cont:
  assumes "ep_wf p" "length (ep_cont p) + length bs < 4040"
  shows "ep_cont (cubeerr_write_buf bs p) = ep_cont p @ bs"
proof -
  have "length bs \<le> 4040" using assms(2) by simp
  then show ?thesis using assms ring_put_cont [of "ep_r p" "ep_ring p" "ep_w p" bs] write_buf_ring [of p bs]
    by (simp add: ep_cont_def)
qed

lemma read_buf_ring:
  assumes "ep_wf p" "0 \<le> k" "k \<le> 4040"
  shows "ep_r (cubeerr_read_buf k p) = ring_add (ep_ring p) (ep_r p) (nat k)"
    and "ep_wf (cubeerr_read_buf k p)" and "ep_ring (cubeerr_read_buf k p) = ep_ring p"
  using assms by (auto simp: cubeerr_read_buf_def ring_add_def Let_def ep_wf_def ep_ring_def)

lemma read_buf_frame [simp]:
  "end_site (cubeerr_read_buf k p) = end_site p"
  "errinfo_num (cubeerr_read_buf k p) = errinfo_num p"
  "throw_num (cubeerr_read_buf k p) = throw_num p"
  by (auto simp: cubeerr_read_buf_def Let_def)

lemma length_ep_cont:
  assumes "ep_wf p"
  shows "length (ep_cont p) < 4040"
proof -
  have "length (ep_ring p) = 4040" "ep_r p < 4040" "ep_w p < 4040" using ep_wf_ring [OF assms] by blast+
  then show ?thesis by (auto simp: ep_cont_def length_ring_cont)
qed

lemma read_buf_cont:
  assumes "ep_wf p" "k \<le> length (ep_cont p)"
  shows "ep_cont (cubeerr_read_buf (int k) p) = drop k (ep_cont p)"
  using assms length_ep_cont [of p] ring_read_cont [of "ep_r p" "ep_ring p" "ep_w p" k] read_buf_ring [of p "int k"]
  by (simp add: ep_cont_def)

lemma empty_size_cont:
  assumes "ep_wf p"
  shows "cubeerr_empty_size p = 4040 - int (length (ep_cont p))"
  using assms by (auto simp: ep_cont_def length_ring_cont cubeerr_empty_size_def ep_wf_def)

lemma get_head_cont:
  assumes "ep_wf p" "12 \<le> length (ep_cont p)"
  shows "cubeerr_get_head p = take 12 (ep_cont p)"
proof -
  obtain r where r: "start_site p = 28 + int r" "r < 4040"
    using assms(1) by (auto simp: ep_wf_def dest!: zle_iff_zadd [THEN iffD1])
  have p: "length (ep_bytes p) = 4096" "ep_buf_size p = 4068" "ep_offset p = 28" using assms(1) by (auto simp: ep_wf_def)
  have n: "nat (28 + int r) = 28 + r" "nat (4040 - int r) = 4040 - r" "nat (int r - 4028) = r - 4028" using r by linarith+
  have head: "cubeerr_get_head p = (if 12 < 4040 - r then take 12 (drop r (ep_ring p))
      else drop r (ep_ring p) @ take (r - 4028) (ep_ring p))"
    using r p by (auto simp: cubeerr_get_head_def ep_slice_def Let_def n ep_ring_def drop_take add.commute nat_add_distrib)
  show ?thesis
  proof (cases "r \<le> ep_w p")
    case True
    then have "12 \<le> ep_w p - r" using assms r by (simp add: ep_cont_def length_ring_cont)
    then show ?thesis using True r head ep_wf_ring [OF assms(1)] by (auto simp: ep_cont_def ring_cont_def)
  next
    case False
    then have "12 \<le> 4040 - r + ep_w p" using assms r by (simp add: ep_cont_def length_ring_cont)
    then show ?thesis using False r head ep_wf_ring [OF assms(1)] by (auto simp: ep_cont_def ring_cont_def)
  qed
qed

text \<open>A record is a head whose size field counts the bytes after it.\<close>

definition err_record :: "byte list \<Rightarrow> bool" where
  "err_record b \<longleftrightarrow> 12 \<le> length b \<and> head_errinfo_size (take 12 b) = int (length b) - 12"

definition ep_inv :: "cube_error_page \<Rightarrow> byte list list \<Rightarrow> bool" where
  "ep_inv p rs \<longleftrightarrow> ep_wf p \<and> ep_cont p = concat rs \<and> errinfo_num p = int (length rs) \<and> list_all err_record rs"

lemma throw_oldest_inv:
  assumes "ep_inv p (b # rs)"
  shows "ep_inv (throw_oldest p) rs" "throw_num (throw_oldest p) = throw_num p + 1"
proof -
  have i: "ep_wf p" "ep_cont p = b @ concat rs" "12 \<le> length b" "head_errinfo_size (take 12 b) = int (length b - 12)"
    using assms by (auto simp: ep_inv_def err_record_def)
  let ?p1 = "cubeerr_read_buf 12 p" and ?k = "length b - 12"
  have l: "length (ep_cont p) < 4040" using length_ep_cont i by blast
  have h: "cubeerr_get_head p = take 12 b" using get_head_cont i by simp
  have p1: "ep_cont ?p1 = drop 12 b @ concat rs" "ep_wf ?p1"
    using read_buf_cont [of p 12] read_buf_ring(2) [of p 12] i by auto
  let ?p2 = "cubeerr_read_buf (int ?k) ?p1"
  have p2: "ep_cont ?p2 = concat rs" "ep_wf ?p2"
    using read_buf_cont [of ?p1 ?k] read_buf_ring(2) [of ?p1 "int ?k"] p1 l i by auto
  have t: "throw_oldest p = ?p2\<lparr>throw_num := throw_num p + 1, errinfo_num := errinfo_num p - 1\<rparr>"
    using h i by (simp add: throw_oldest_def Let_def)
  show "throw_num (throw_oldest p) = throw_num p + 1" by (simp add: t)
  have "ep_wf (throw_oldest p)" "ep_cont (throw_oldest p) = ep_cont ?p2"
    using p2(2) by (simp_all add: t ep_wf_def ep_cont_def ep_ring_def)
  then show "ep_inv (throw_oldest p) rs" using p2(1) assms by (simp add: ep_inv_def t)
qed

text \<open>The records that stay when \<open>sz\<close> more bytes must fit: the longest suffix that leaves room.\<close>

fun keep :: "nat \<Rightarrow> byte list list \<Rightarrow> byte list list" where
  "keep sz [] = []"
| "keep sz (b # rs) = (if sz + length (concat (b # rs)) > 4040 then keep sz rs else b # rs)"

lemma keep_fits: "sz \<le> 4040 \<Longrightarrow> length (concat (keep sz rs)) + sz \<le> 4040"
  by (induction rs) auto

lemma keep_all: "list_all P rs \<Longrightarrow> list_all P (keep sz rs)"
  by (induction rs) auto

lemma throw_loop_keeps:
  assumes "sz \<le> 4040" "ep_inv p rs"
  shows "\<exists>p'. throw_loop (int sz) p = Some p' \<and> ep_inv p' (keep sz rs)
    \<and> throw_num p' = throw_num p + int (length rs - length (keep sz rs))"
  using assms(2)
proof (induction rs arbitrary: p)
  case Nil
  then have "cubeerr_empty_size p = 4040" using empty_size_cont [of p] by (simp add: ep_inv_def)
  then show ?case using Nil assms(1) by (subst throw_loop.simps) simp
next
  case (Cons b rs)
  have e: "cubeerr_empty_size p = 4040 - int (length (concat (b # rs)))"
    using empty_size_cont [of p] Cons.prems by (simp add: ep_inv_def)
  have le: "length (keep sz rs) \<le> length rs" by (induction rs) auto
  show ?case
  proof (cases "sz + length (concat (b # rs)) > 4040")
    case True
    then have "throw_loop (int sz) p = throw_loop (int sz) (throw_oldest p)"
      using e by (subst throw_loop.simps) simp
    then show ?thesis using True Cons.IH [OF throw_oldest_inv(1) [OF Cons.prems]] throw_oldest_inv(2) [OF Cons.prems] le
      by (auto simp: of_nat_diff)
  next
    case False
    then show ?thesis using e Cons.prems by (subst throw_loop.simps) auto
  qed
qed

lemma info_record:
  assumes "length pad = 2" "length str \<le> 500"
  shows "err_record (info_bytes pad code para (int (length str)) @ map after [0..<length str])"
proof -
  have "head_errinfo_size (info_bytes pad code para (int (length str))) = int (length str)"
    using assms by (simp add: head_errinfo_size_def info_bytes_def le_value_le_bytes)
  then show ?thesis using assms by (simp add: err_record_def info_bytes_def)
qed

text \<open>A record that does not fill the ring to its last byte is appended to the latest records.\<close>

lemma cubeerr_write_appends:
  assumes "ep_inv p rs" "length pad = 2" "length str \<le> 500"
    and "length (concat (keep (12 + length str) rs)) + 12 + length str < 4040"
  shows "\<exists>p'. cubeerr_write pad after code para str p = Some (p', 0)
    \<and> ep_inv p' (keep (12 + length str) rs @ [info_bytes pad code para (int (length str)) @ map after [0..<length str]])
    \<and> throw_num p' = throw_num p + int (length rs - length (keep (12 + length str) rs))"
proof -
  let ?k = "keep (12 + length str) rs" and ?h = "info_bytes pad code para (int (length str))"
    and ?e = "map after [0..<length str]"
  obtain p1 where p1: "throw_loop (int (12 + length str)) p = Some p1" "ep_inv p1 ?k"
      "throw_num p1 = throw_num p + int (length rs - length ?k)"
    using throw_loop_keeps [OF _ assms(1), of "12 + length str"] assms(3) by auto
  have l: "length ?h = 12" using assms(2) by (simp add: info_bytes_def)
  let ?p2 = "cubeerr_write_buf ?h p1" and ?p3 = "cubeerr_write_buf ?e (cubeerr_write_buf ?h p1)"
  have c1: "ep_cont p1 = concat ?k" "ep_wf p1" "errinfo_num p1 = int (length ?k)" "list_all err_record ?k"
    using p1(2) by (auto simp: ep_inv_def)
  then have p2: "ep_cont ?p2 = concat ?k @ ?h" "ep_wf ?p2"
    using write_buf_cont [of p1 ?h] write_buf_ring(3) [of p1 ?h] l assms(4) by auto
  then have p3: "ep_cont ?p3 = concat ?k @ ?h @ ?e" "ep_wf ?p3"
    using write_buf_cont [of ?p2 ?e] write_buf_ring(3) [of ?p2 ?e] l assms(3,4) by auto
  let ?p4 = "?p3\<lparr>errinfo_num := errinfo_num ?p3 + 1\<rparr>"
  have "ep_wf ?p4" "ep_cont ?p4 = ep_cont ?p3" using p3(2) by (simp_all add: ep_wf_def ep_cont_def ep_ring_def)
  then have "ep_inv ?p4 (?k @ [?h @ ?e])"
    using p3(1) c1 info_record [OF assms(2,3)] by (simp add: ep_inv_def)
  moreover have "cubeerr_write pad after code para str p = Some (?p4, 0)"
    using p1(1) assms(3) by (simp add: cubeerr_write_def cubeerr_write_info_def Let_def)
  ultimately show ?thesis using p1(3) by auto
qed

section \<open>Filling the ring to its last byte\<close>

lemma ring_full:
  assumes "r < length d" "w < length d" "length (ring_cont d r w) + k = length d" "0 < k"
  shows "ring_add d w k = r"
  using assms by (auto simp: length_ring_cont ring_add_def split: if_splits)

lemma write_buf_full:
  assumes "ep_wf p" "length (ep_cont p) + length bs = 4040"
  shows "ep_cont (cubeerr_write_buf bs p) = []"
proof -
  have b: "0 < length bs" "length bs \<le> 4040" using assms length_ep_cont [of p] by linarith+
  then have "ep_w (cubeerr_write_buf bs p) = ep_r p"
    using assms ring_full [of "ep_r p" "ep_ring p" "ep_w p" "length bs"] write_buf_ring(2) [of p bs]
    by (simp add: ep_cont_def)
  then show ?thesis by (simp add: ep_cont_def ring_cont_def)
qed

text \<open>
  A record that fills the ring to its last byte moves the end onto the start, which the code reads
  as an empty ring: every record is lost, the new one too, while all of them stay counted.
\<close>

theorem cubeerr_exact_fill_loses_all:
  assumes "ep_inv p rs" "length pad = 2" "length str \<le> 500"
    and "length (concat (keep (12 + length str) rs)) + 12 + length str = 4040"
  shows "\<exists>p'. cubeerr_write pad after code para str p = Some (p', 0) \<and> ep_cont p' = []
    \<and> errinfo_num p' = int (length (keep (12 + length str) rs)) + 1 \<and> cubeerr_empty_size p' = 4040
    \<and> throw_num p' = throw_num p + int (length rs - length (keep (12 + length str) rs))"
proof -
  let ?k = "keep (12 + length str) rs" and ?h = "info_bytes pad code para (int (length str))"
    and ?e = "map after [0..<length str]"
  obtain p1 where p1: "throw_loop (int (12 + length str)) p = Some p1" "ep_inv p1 ?k"
      "throw_num p1 = throw_num p + int (length rs - length ?k)"
    using throw_loop_keeps [OF _ assms(1), of "12 + length str"] assms(3) by auto
  have l: "length ?h = 12" using assms(2) by (simp add: info_bytes_def)
  have c1: "ep_cont p1 = concat ?k" "ep_wf p1" "errinfo_num p1 = int (length ?k)" using p1(2) by (auto simp: ep_inv_def)
  let ?p2 = "cubeerr_write_buf ?h p1" and ?p3 = "cubeerr_write_buf ?e (cubeerr_write_buf ?h p1)"
  have w2: "ep_wf ?p2" using write_buf_ring(3) [of p1 ?h] c1 l by simp
  have w3: "ep_wf ?p3" using write_buf_ring(3) [OF w2, of ?e] assms(3) by simp
  have c3: "ep_cont ?p3 = []"
  proof (cases "str = []")
    case True
    then have "ep_cont ?p2 = []" using write_buf_full [of p1 ?h] c1 l assms(4) by simp
    then show ?thesis using True by (simp add: cubeerr_write_buf_def)
  next
    case False
    then have "0 < length str" by simp
    then have "length (concat ?k) + length ?h < 4040" using assms(4) l by linarith
    then have "ep_cont ?p2 = concat ?k @ ?h" using write_buf_cont [of p1 ?h] c1 by simp
    then show ?thesis using write_buf_full [OF w2, of ?e] l assms(4) by simp
  qed
  let ?p4 = "?p3\<lparr>errinfo_num := errinfo_num ?p3 + 1\<rparr>"
  have p4: "ep_wf ?p4" "ep_cont ?p4 = []" using w3 c3 by (simp_all add: ep_wf_def ep_cont_def ep_ring_def)
  moreover have "cubeerr_write pad after code para str p = Some (?p4, 0)"
    using p1(1) assms(3) by (simp add: cubeerr_write_def cubeerr_write_info_def Let_def)
  ultimately show ?thesis using empty_size_cont [OF p4(1)] c1(3) p1(3) by auto
qed

definition record_example :: "nat \<Rightarrow> byte list" where
  "record_example n = info_bytes [0, 0] 0 0 (int n) @ replicate n 0"

definition page_example :: cube_error_page where
  "page_example = \<lparr>ep_offset = 28, ep_state = 1, errinfo_num = 8, throw_num = 0, start_site = 28, end_site = 4056,
     ep_buf_size = 4068, ep_bytes = replicate 28 0 @ concat (replicate 7 (record_example 500) @ [record_example 432])
       @ replicate 40 0\<rparr>"

theorem cubeerr_exact_fill_loses_all_witness:
  "\<exists>p'. cubeerr_write [0, 0] (\<lambda>i. 0) 1 0 [] page_example = Some (p', 0) \<and> ep_cont p' = []
     \<and> errinfo_num p' = 9 \<and> length (ep_cont page_example) = 4028"
proof -
  let ?rs = "replicate 7 (record_example 500) @ [record_example 432]"
  have l: "length (record_example n) = 12 + n" for n by (simp add: record_example_def info_bytes_def)
  have c: "length (concat ?rs) = 4028" by (simp add: l length_concat sum_list_replicate)
  have r: "err_record (record_example n)" if "n \<le> 500" for n
    using that by (simp add: err_record_def record_example_def head_errinfo_size_def info_bytes_def le_value_le_bytes)
  have b: "ep_bytes page_example = replicate 28 0 @ concat ?rs @ replicate 40 0" by (simp only: page_example_def cube_error_page.simps)
  have cont: "ep_cont page_example = concat ?rs"
    unfolding ep_cont_def ring_cont_def ep_ring_def b using c by (simp add: page_example_def)
  have wf: "ep_wf page_example" unfolding ep_wf_def b using c by (simp add: page_example_def)
  have inv: "ep_inv page_example ?rs"
    using cont wf r by (simp add: ep_inv_def page_example_def list_all_iff)
  have k: "keep 12 ?rs = ?rs" using c by (cases ?rs) (auto simp: length_concat)
  show ?thesis
    using cubeerr_exact_fill_loses_all [OF inv, of "[0, 0]" "[]" "\<lambda>i. 0" 1 0] k c cont by auto
qed

section \<open>Every write\<close>

text \<open>(C39) (C39)
  A write into the error ring ends. A string of more than 500 bytes is refused and only counted. Otherwise the oldest records
  are thrown away, each counted, until the new record fits, and the new record, whose string bytes are what follows it on the stack, is
  appended to the latest ones, which stay; only when it fills the ring to its last byte the ring is empty afterwards and
  all records are lost, the new one too.
\<close>

theorem cubeerr_write_keeps_latest:
  assumes "ep_inv p rs" "length pad = 2"
  shows "\<exists>p' r. cubeerr_write pad after code para str p = Some (p', r)
    \<and> (if length str > 500 then r = - CUBEERR_OVERFLOW \<and> ep_inv p' rs \<and> throw_num p' = throw_num p + 1
       else r = 0 \<and> throw_num p' = throw_num p + int (length rs - length (keep (12 + length str) rs))
         \<and> length (concat (keep (12 + length str) rs)) + 12 + length str \<le> 4040
         \<and> (if length (concat (keep (12 + length str) rs)) + 12 + length str < 4040
            then ep_inv p' (keep (12 + length str) rs @ [info_bytes pad code para (int (length str)) @ map after [0..<length str]])
            else ep_cont p' = [] \<and> errinfo_num p' = int (length (keep (12 + length str) rs)) + 1))"
proof (cases "length str > 500")
  case True
  have "ep_wf (p\<lparr>throw_num := n\<rparr>) = ep_wf p" "ep_cont (p\<lparr>throw_num := n\<rparr>) = ep_cont p" for n
    by (simp_all add: ep_wf_def ep_cont_def ep_ring_def)
  then show ?thesis using True assms(1) by (simp add: cubeerr_write_def ep_inv_def)
next
  case False
  let ?n = "length (concat (keep (12 + length str) rs)) + 12 + length str"
  have n: "?n \<le> 4040" using keep_fits [of "12 + length str" rs] False by simp
  show ?thesis
  proof (cases "?n < 4040")
    case True
    then show ?thesis using cubeerr_write_appends [OF assms, of str after code para] False n by fastforce
  next
    case full: False
    then show ?thesis using cubeerr_exact_fill_loses_all [OF assms, of str after code para] False n by fastforce
  qed
qed

theorem cubeerr_write_keeps_latest_witness:
  "\<exists>p'. cubeerr_write [0, 0] (\<lambda>i. 65) 1 7 [72, 105]
       (the (snd (cubeerr_init (Some (replicate 4096 0)) None))) = Some (p', 0)
     \<and> ep_cont p' = [1, 0, 0, 0, 7, 0, 0, 0, 2, 0, 0, 0, 65, 65]"
proof -
  let ?p = "the (snd (cubeerr_init (Some (replicate 4096 0)) None))"
  have "ep_inv ?p []"
    by (simp add: ep_inv_def cubeerr_init_def ep_wf_def ep_cont_def ring_cont_def)
  from cubeerr_write_keeps_latest [OF this, of "[0, 0]" "\<lambda>i. 65" 1 7 "[72, 105]"]
  obtain p' where "cubeerr_write [0, 0] (\<lambda>i. 65) 1 7 [72, 105] ?p = Some (p', 0)"
      "ep_inv p' [info_bytes [0, 0] 1 7 (int (length [72 :: byte, 105])) @ map (\<lambda>i. 65) [0..<length [72 :: byte, 105]]]"
    by auto
  moreover have "info_bytes [0, 0] 1 7 (int (length [72 :: byte, 105])) @ map (\<lambda>i. 65) [0..<length [72 :: byte, 105]]
      = [1, 0, 0, 0, 7, 0, 0, 0, 2, 0, 0, 0, 65, 65]" by code_simp
  ultimately show ?thesis by (auto simp: ep_inv_def)
qed

end
