(* ===== verification/Cube_Struct.thy ===== *)
theory Cube_Struct
  imports Cube_Prelude Cube_Memfunc Cube_Strconv Cube_Alloc
begin

text \<open>
  The data of \<^verbatim>\<open>cubelib/struct_mod\<close>: the descriptions of C structures (\<^verbatim>\<open>struct struct_elem_attr\<close>) and
  the templates built from them (\<^verbatim>\<open>STRUCT_NODE\<close>, \<^verbatim>\<open>struct elem_template\<close> of \<^verbatim>\<open>struct_ops.h\<close>), with the
  state the element operations run on: the templates on a heap of their own, the flat memory that
  holds the described structures, the answers of \<^verbatim>\<open>malloc\<close>, and the address of the stack area
  for local arrays. An address 0 is \<^verbatim>\<open>NULL\<close>; an operation that has no result because it
  accesses memory through \<^verbatim>\<open>NULL\<close>, uses an undefined value or never ends is \<open>None\<close>.
\<close>

section \<open>Descriptions\<close>

datatype elem_type =
    CUBE_TYPE_STRING | CUBE_TYPE_UUID | CUBE_TYPE_INT | CUBE_TYPE_ENUM | CUBE_TYPE_SENUM | CUBE_TYPE_BENUM
  | CUBE_TYPE_FLAG | CUBE_TYPE_SFLAG | CUBE_TYPE_BFLAG | CUBE_TYPE_TIME | CUBE_TYPE_UCHAR | CUBE_TYPE_USHORT
  | CUBE_TYPE_LONGLONG | CUBE_TYPE_BINDATA | CUBE_TYPE_BITMAP | CUBE_TYPE_HEXDATA | CUBE_TYPE_BINARRAY
  | CUBE_TYPE_UUIDARRAY | CUBE_TYPE_DEFUUIDARRAY | CUBE_TYPE_DEFNAMELIST | CUBE_TYPE_BOOL | CUBE_TYPE_ESTRING
  | CUBE_TYPE_JSONSTRING | CUBE_TYPE_NODATA | CUBE_TYPE_ARRAY | CUBE_TYPE_DEFARRAY | CUBE_TYPE_DEFINE
  | CUBE_TYPE_DEFSTR | CUBE_TYPE_DEFSTRARRAY | CUBE_TYPE_SUBSTRUCT | CUBE_TYPE_CHOICE | TPM_TYPE_UINT64
  | TPM_TYPE_UINT32 | TPM_TYPE_UINT16 | CUBE_TYPE_ELEMTYPE | CUBE_TYPE_RECORDTYPE | CUBE_TYPE_RECORDSUBTYPE
  | CUBE_TYPE_USERDEF | CUBE_TYPE_ENDDATA

text \<open>
  An entry of a description: name (\<open>None\<close> in the closing entry), type, size, reference and the name
  of the element that defines a length. The reference is a description, a list of named values, or a number.
\<close>

datatype elem_attr = ELEM_ATTR
    (ea_name: "byte list option") (ea_type: elem_type) (ea_size: int) (ea_ref: attr_ref) (ea_def: "byte list option")
and attr_ref = RefNull | RefStruct "elem_attr list" | RefNames "(byte list \<times> int) list" | RefInt int

section \<open>Templates\<close>

text \<open>An element is addressed by its node and its place in the \<^verbatim>\<open>elem_list\<close> of the node.\<close>

type_synonym eid = "nat \<times> nat"

datatype elem_ref = ERefNull | ERefNode nat | ERefNames "(byte list \<times> int) list option" | ERefAttr attr_ref

record elem_template =
  elem_desc :: elem_attr
  et_offset :: int
  et_size :: int
  et_tempsize :: int
  et_ref :: elem_ref
  et_def :: "eid option"
  et_flag :: u32
  et_index :: int
  et_limit :: int
  et_father :: "eid option"

record struct_node =
  sn_parent :: "nat option"
  sn_offset :: int
  sn_size :: int
  sn_elem_no :: int
  sn_flag :: u32
  struct_desc :: "elem_attr list"
  elem_list :: "elem_template list"
  temp_var :: int
  reentry_count :: int

record estate =
  es_node :: "nat \<Rightarrow> struct_node"
  es_next :: nat
  es_mem :: mem
  es_malloc :: "nat \<Rightarrow> nat option"
  es_calls :: nat
  es_stack :: nat

definition el :: "estate \<Rightarrow> eid \<Rightarrow> elem_template" where
  "el st e = elem_list (es_node st (fst e)) ! snd e"

abbreviation etype :: "estate \<Rightarrow> eid \<Rightarrow> elem_type" where
  "etype st e \<equiv> ea_type (elem_desc (el st e))"

definition upd_snode :: "nat \<Rightarrow> (struct_node \<Rightarrow> struct_node) \<Rightarrow> estate \<Rightarrow> estate" where
  "upd_snode n f st = st\<lparr>es_node := (es_node st)(n := f (es_node st n))\<rparr>"

definition upd_elem :: "eid \<Rightarrow> (elem_template \<Rightarrow> elem_template) \<Rightarrow> estate \<Rightarrow> estate" where
  "upd_elem e f = upd_snode (fst e) (\<lambda>n. n\<lparr>elem_list := (elem_list n)[snd e := f (elem_list n ! snd e)]\<rparr>)"

abbreviation set_mem :: "mem \<Rightarrow> estate \<Rightarrow> estate" where
  "set_mem m st \<equiv> st\<lparr>es_mem := m\<rparr>"

section \<open>Memory\<close>

text \<open>Integers of \<open>k\<close> bytes in memory, read without and with sign.\<close>

definition rd_uint :: "mem \<Rightarrow> nat \<Rightarrow> nat \<Rightarrow> int" where
  "rd_uint m k a = le_value (mem_bytes m a k)"

definition rd_sint :: "mem \<Rightarrow> nat \<Rightarrow> nat \<Rightarrow> int" where
  "rd_sint m k a = (rd_uint m k a + 2 ^ (8 * k - 1)) mod 2 ^ (8 * k) - 2 ^ (8 * k - 1)"

definition wr_int :: "mem \<Rightarrow> nat \<Rightarrow> nat \<Rightarrow> int \<Rightarrow> mem" where
  "wr_int m k a v = mem_write m a (le_bytes k v)"

text \<open>An address plus a C \<^verbatim>\<open>int\<close>.\<close>

definition adr_plus :: "nat \<Rightarrow> int \<Rightarrow> nat" where
  "adr_plus a off = nat (int a + off)"

text \<open>\<open>Memcpy\<close> with an \<^verbatim>\<open>int\<close> count, and \<open>Dalloc0\<close> with the next answer of \<^verbatim>\<open>malloc\<close>.\<close>

abbreviation mcpy :: "mem \<Rightarrow> nat \<Rightarrow> nat \<Rightarrow> int \<Rightarrow> mem" where
  "mcpy m dest src n \<equiv> fst (Memcpy m dest src (word_of_int n))"

definition dalloc0 :: "int \<Rightarrow> nat \<Rightarrow> estate \<Rightarrow> estate \<times> nat option" where
  "dalloc0 sz base st =
     (let (m, p) = Dalloc0 (es_mem st) (es_malloc st (es_calls st)) sz base
      in (st\<lparr>es_mem := m, es_calls := es_calls st + 1\<rparr>, p))"

text \<open>A \<open>Dalloc0\<close> of a template object, which lives on the heap of templates: only its success matters.\<close>

definition talloc_ok :: "estate \<Rightarrow> estate \<times> bool" where
  "talloc_ok st = (st\<lparr>es_calls := es_calls st + 1\<rparr>, es_malloc st (es_calls st) \<noteq> None)"

lemma upd_snode_sel [simp]:
  "es_next (upd_snode n f st) = es_next st" "es_mem (upd_snode n f st) = es_mem st"
  "es_malloc (upd_snode n f st) = es_malloc st" "es_calls (upd_snode n f st) = es_calls st"
  "es_stack (upd_snode n f st) = es_stack st"
  "es_node (upd_snode n f st) = (es_node st)(n := f (es_node st n))"
  by (simp_all add: upd_snode_def)

lemma upd_elem_sel [simp]:
  "es_next (upd_elem e f st) = es_next st" "es_mem (upd_elem e f st) = es_mem st"
  "es_malloc (upd_elem e f st) = es_malloc st" "es_calls (upd_elem e f st) = es_calls st"
  "es_stack (upd_elem e f st) = es_stack st"
  by (simp_all add: upd_elem_def)

lemma rd_uint_wr_int: "rd_uint (wr_int m k a v) k a = v mod 256 ^ k"
  using mem_bytes_mem_write [of m a "le_bytes k v"]
  by (simp add: rd_uint_def wr_int_def le_value_le_bytes)

lemma rd_sint_wr_int:
  assumes "0 < k" "- (2 ^ (8 * k - 1)) \<le> v" "v < 2 ^ (8 * k - 1)"
  shows "rd_sint (wr_int m k a v) k a = v"
proof -
  let ?h = "2 ^ (8 * k - 1) :: int"
  have two: "(2 :: int) ^ (8 * k) = 2 * ?h" using assms(1) by (simp flip: power_Suc)
  have "(256 :: int) ^ k = 2 ^ (8 * k)" by (simp add: power_mult)
  then have "rd_sint (wr_int m k a v) k a = (v mod (2 * ?h) + ?h) mod (2 * ?h) - ?h"
    unfolding rd_sint_def rd_uint_wr_int by (simp add: two)
  also have "(v mod (2 * ?h) + ?h) mod (2 * ?h) = (v + ?h) mod (2 * ?h)" by (rule mod_add_left_eq)
  also have "\<dots> = v + ?h" using assms by (intro mod_pos_pos_trivial) linarith+
  finally show ?thesis by simp
qed

end
