(* ===== verification/Cube_Struct_Ops.thy ===== *)
theory Cube_Struct_Ops
  imports Cube_Struct Cube_Radix64
begin

text \<open>
  \<^verbatim>\<open>cubelib/struct_mod/struct_ops.c\<close>: the operations on single elements that the tables of the structure
  module point to: big-endian integers, uuids, named values, numbers, binary and hexadecimal data as
  bytes and as text. An operation takes the state, the address of the element, the address of
  the data or text, and the element of the template.
\<close>

type_synonym elem_op = "estate \<Rightarrow> nat \<Rightarrow> nat \<Rightarrow> eid \<Rightarrow> (estate \<times> int) option"
type_synonym elem_fun = "estate \<Rightarrow> nat \<Rightarrow> eid \<Rightarrow> int option"

section \<open>Big-endian integers\<close>

definition Decode_UINT16 :: "mem \<Rightarrow> nat \<Rightarrow> u16" where
  "Decode_UINT16 m a = ucast (m (a + 1)) OR push_bit 8 (ucast (m a))"

definition UINT32ToArray :: "mem \<Rightarrow> u32 \<Rightarrow> nat \<Rightarrow> mem" where
  "UINT32ToArray m i out = m(out := ucast (drop_bit 24 i AND 0xFF), out + 1 := ucast (drop_bit 16 i AND 0xFF),
     out + 2 := ucast (drop_bit 8 i AND 0xFF), out + 3 := ucast i AND 0xFF)"

definition UINT64ToArray :: "mem \<Rightarrow> u64 \<Rightarrow> nat \<Rightarrow> mem" where
  "UINT64ToArray m i out = m(out := ucast (drop_bit 56 i AND 0xFF), out + 1 := ucast (drop_bit 48 i AND 0xFF),
     out + 2 := ucast (drop_bit 40 i AND 0xFF), out + 3 := ucast (drop_bit 32 i AND 0xFF),
     out + 4 := ucast (drop_bit 24 i AND 0xFF), out + 5 := ucast (drop_bit 16 i AND 0xFF),
     out + 6 := ucast (drop_bit 8 i AND 0xFF), out + 7 := ucast i AND 0xFF)"

definition UINT16ToArray :: "mem \<Rightarrow> u16 \<Rightarrow> nat \<Rightarrow> mem" where
  "UINT16ToArray m i out = m(out := ucast (drop_bit 8 i AND 0xFF), out + 1 := ucast (i AND 0xFF))"

definition Decode_UINT64 :: "mem \<Rightarrow> nat \<Rightarrow> u64" where
  "Decode_UINT64 m y = foldl (\<lambda>x k. push_bit 8 x OR (ucast (m (y + k)) AND 0xFF)) (ucast (m y)) [1..<8]"

text \<open>\<open>Decode_UINT32\<close> computes the value but returns none; using its result is undefined.\<close>

definition Decode_UINT32 :: "mem \<Rightarrow> nat \<Rightarrow> u32 option" where
  "Decode_UINT32 m y = None"

definition tpm64_get_bin_value :: elem_op where
  "tpm64_get_bin_value st elem addr e =
     Some (set_mem (UINT64ToArray (es_mem st) (word_of_int (rd_sint (es_mem st) 4 elem)) addr) st, 8)"

definition tpm64_set_bin_value :: elem_op where
  "tpm64_set_bin_value st elem addr e =
     Some (set_mem (wr_int (es_mem st) 8 elem (uint (Decode_UINT64 (es_mem st) addr))) st, 8)"

definition tpm32_get_bin_value :: elem_op where
  "tpm32_get_bin_value st elem addr e =
     Some (set_mem (UINT32ToArray (es_mem st) (word_of_int (rd_sint (es_mem st) 4 elem)) addr) st, 4)"

definition tpm32_set_bin_value :: elem_op where
  "tpm32_set_bin_value st elem addr e =
     (case Decode_UINT32 (es_mem st) addr of
        None \<Rightarrow> None
      | Some x \<Rightarrow> Some (set_mem (wr_int (es_mem st) 4 elem (uint x)) st, 4))"

definition tpm16_get_bin_value :: elem_op where
  "tpm16_get_bin_value st elem addr e =
     Some (set_mem (UINT16ToArray (es_mem st) (word_of_int (rd_sint (es_mem st) 4 elem)) addr) st, 2)"

definition tpm16_set_bin_value :: elem_op where
  "tpm16_set_bin_value st elem addr e =
     Some (set_mem (wr_int (es_mem st) 2 elem (uint (Decode_UINT16 (es_mem st) addr))) st, 2)"

section \<open>Strings and uuids\<close>

definition dup_str :: "estate \<Rightarrow> nat \<Rightarrow> int \<Rightarrow> (estate \<times> nat option) option" where
  "dup_str st src sz =
     (if src = 0 then Some (st, None)
      else
        case (if sz = 0 then map_option (\<lambda>n. int n + 1) (Strlen (es_mem st) src)
              else (let len = int (Strnlen (es_mem st) src sz) in Some (if len \<noteq> sz then len + 1 else len))) of
          None \<Rightarrow> None
        | Some len \<Rightarrow>
            let (m, dest) = Talloc (es_mem st) (es_malloc st (es_calls st)) len;
                st1 = st\<lparr>es_mem := m, es_calls := es_calls st + 1\<rparr>
            in Some (case dest of None \<Rightarrow> (st1, None) | Some p \<Rightarrow> (set_mem (mcpy m p src len) st1, Some p)))"

definition estring_get_length :: elem_fun where
  "estring_get_length st value e =
     (if value = 0 then Some 0 else map_option (\<lambda>n. int n + 1) (Strlen (es_mem st) value))"

fun digest_uuid_mem_loop :: "mem \<Rightarrow> nat \<Rightarrow> nat \<Rightarrow> nat \<Rightarrow> nat \<Rightarrow> mem" where
  "digest_uuid_mem_loop m digest uuid i 0 = m"
| "digest_uuid_mem_loop m digest uuid i (Suc k) =
     (let c = m (digest + i)
      in digest_uuid_mem_loop (m(uuid + 2 * i := hex_char (drop_bit 4 c),
           uuid + 2 * i + 1 := hex_char (drop_bit 4 (push_bit 4 c)))) digest uuid (i + 1) k)"

definition digest_to_uuid_mem :: "mem \<Rightarrow> nat \<Rightarrow> nat \<Rightarrow> mem \<times> int" where
  "digest_to_uuid_mem m digest uuid = (digest_uuid_mem_loop m digest uuid 0 DIGEST_SIZE, 64)"

definition hex_digit_value :: "byte \<Rightarrow> byte option" where
  "hex_digit_value c =
     (if 48 \<le> c \<and> c \<le> 57 then Some (c - 48)
      else if 97 \<le> c \<and> c \<le> 102 then Some (c - 97 + 10)
      else if 65 \<le> c \<and> c \<le> 70 then Some (c - 65 + 10)
      else None)"

fun uuid_digest_mem_loop :: "mem \<Rightarrow> nat \<Rightarrow> nat \<Rightarrow> nat \<Rightarrow> nat \<Rightarrow> mem \<times> int" where
  "uuid_digest_mem_loop m uuid digest i 0 = (m, 0)"
| "uuid_digest_mem_loop m uuid digest i (Suc k) =
     (case hex_digit_value (m (uuid + i)) of
        None \<Rightarrow> (m, - EINVAL)
      | Some v \<Rightarrow>
          uuid_digest_mem_loop
            (m(digest + i div 2 := if i mod 2 = 0 then push_bit 4 v else m (digest + i div 2) + v))
            uuid digest (i + 1) k)"

definition uuid_to_digest_mem :: "mem \<Rightarrow> nat \<Rightarrow> nat \<Rightarrow> mem \<times> int" where
  "uuid_to_digest_mem m uuid digest = uuid_digest_mem_loop m uuid digest 0 (DIGEST_SIZE * 2)"

definition uuid_get_text_value :: elem_op where
  "uuid_get_text_value st addr data e =
     (let m = es_mem st
      in if Isstrinuuid m (es_stack st) addr then
           (case Strncpy (fst (Memset m data 0 32)) data addr 24 of
              None \<Rightarrow> None
            | Some (m1, _) \<Rightarrow> map_option (\<lambda>n. (set_mem m1 st, int n)) (Strlen m1 data))
         else let (m1, r) = digest_to_uuid_mem m addr data in Some (set_mem m1 st, r))"

definition uuid_set_text_value :: elem_op where
  "uuid_set_text_value st addr txt e =
     (let m = es_mem st
      in if Strnlen m txt 64 < 24 then
           (case Strncpy (fst (Memset m addr 0 32)) addr txt 24 of
              None \<Rightarrow> None
            | Some (m1, _) \<Rightarrow> Some (set_mem m1 st, 32))
         else let (m1, r) = uuid_to_digest_mem m txt addr in Some (set_mem m1 st, r))"

section \<open>Named values\<close>

text \<open>A packed \<^verbatim>\<open>NAME2VALUE\<close>: the pointer to the name, then the value at offset 8.\<close>

definition namelist_get_bin_value :: elem_op where
  "namelist_get_bin_value st addr data e =
     (let m = es_mem st; name = get_ptr m addr
      in if name = 0 then None
         else case Strlen m name of
                None \<Rightarrow> None
              | Some textlen \<Rightarrow>
                  if textlen > DIGEST_SIZE then Some (st, - EINVAL)
                  else
                    let m1 = mcpy m data name (int textlen + 1);
                        m2 = mcpy m1 (data + textlen + 1) (addr + 8) 4
                    in Some (set_mem m2 st, int textlen + 1 + 4))"

definition namelist_set_bin_value :: elem_op where
  "namelist_set_bin_value st addr data e =
     (case Strlen (es_mem st) data of
        None \<Rightarrow> None
      | Some textlen \<Rightarrow>
          if textlen > DIGEST_SIZE then Some (st, - EINVAL)
          else
            case dalloc0 (int textlen + 1) addr st of
              (st1, None) \<Rightarrow> Some (set_mem (put_ptr (es_mem st1) addr 0) st1, - ENOMEM)
            | (st1, Some p) \<Rightarrow>
                let m1 = put_ptr (es_mem st1) addr p;
                    m2 = mcpy m1 p data (int textlen + 1);
                    m3 = mcpy m2 (addr + 8) (data + textlen + 1) 4
                in Some (set_mem m3 st1, int textlen + 1 + 4))"

definition namelist_clone :: elem_op where
  "namelist_clone st addr clone e =
     (let name = get_ptr (es_mem st) addr
      in if name = 0 then None
         else case Strlen (es_mem st) name of
                None \<Rightarrow> None
              | Some textlen \<Rightarrow>
                  if textlen > DIGEST_SIZE then Some (st, - EINVAL)
                  else
                    case dalloc0 (int textlen + 1) clone st of
                      (st1, None) \<Rightarrow> Some (set_mem (put_ptr (es_mem st1) clone 0) st1, - ENOMEM)
                    | (st1, Some p) \<Rightarrow>
                        let m1 = put_ptr (es_mem st1) clone p;
                            m2 = mcpy m1 p name (int textlen + 1)
                        in Some (set_mem (wr_int m2 4 (clone + 8) (rd_uint m2 4 (addr + 8))) st1, 0))"

definition namelist_get_text_value :: elem_op where
  "namelist_get_text_value st addr txt e =
     (let m = es_mem st; name = get_ptr m addr
      in if name = 0 then None
         else case Strlen m name of
                None \<Rightarrow> None
              | Some textlen \<Rightarrow>
                  if textlen > DIGEST_SIZE then Some (st, - EINVAL)
                  else
                    let m1 = mcpy m txt name (int textlen);
                        value = rd_uint m1 4 (addr + 8);
                        index = et_index (el st e) + 1;
                        st1 = upd_elem e (\<lambda>t. t\<lparr>et_index := index\<rparr>) (set_mem m1 st)
                    in if value < index then Some (st1, - EINVAL)
                       else
                         let (m2, off, st2) =
                               (if value > index
                                then (let (m2, n) = Itoa (m1(txt + textlen := 61)) (wrap32 value) (txt + textlen + 1)
                                      in (m2, textlen + 1 + n, upd_elem e (\<lambda>t. t\<lparr>et_index := wrap32 value\<rparr>) st1))
                                else (m1, textlen, st1))
                         in Some (set_mem (m2(txt + off := 44, txt + off + 1 := 0)) st2, int off + 2))"

text \<open>The local array of 128 bytes stands at the stack address.\<close>

definition namelist_set_text_value :: elem_op where
  "namelist_set_text_value st addr txt e =
     (let buf = es_stack st
      in case Getfiledfromstr (es_mem st) buf txt 44 128 of
           None \<Rightarrow> None
         | Some (m1, textlen) \<Rightarrow>
             if textlen > DIGEST_SIZE * 2 then Some (set_mem m1 st, - EINVAL)
             else
               case Getfiledfromstr m1 (buf + DIGEST_SIZE * 2) buf 61 (int textlen) of
                 None \<Rightarrow> None
               | Some (m2, namelen) \<Rightarrow>
                   let index = et_index (el st e) + 1;
                       given = (namelen \<noteq> textlen);
                       value = (if given then Atoi m2 (buf + namelen + 1) (int textlen - int namelen) mod 4294967296
                                else index);
                       st1 = upd_elem e (\<lambda>t. t\<lparr>et_index := index\<rparr>) (set_mem m2 st)
                   in if given \<and> value < index then Some (st1, - EINVAL)
                      else
                        let st2 = (if given then upd_elem e (\<lambda>t. t\<lparr>et_index := wrap32 value\<rparr>) st1 else st1)
                        in case dalloc0 (int namelen + 1) addr st2 of
                             (st3, None) \<Rightarrow> Some (set_mem (put_ptr (es_mem st3) addr 0) st3, - ENOMEM)
                           | (st3, Some p) \<Rightarrow>
                               let m3 = put_ptr (es_mem st3) addr p;
                                   m4 = (mcpy m3 p txt (int namelen))(p + namelen := 0)
                               in Some (set_mem (wr_int m4 4 (addr + 8) value) st3, int textlen + 1))"

section \<open>Numbers\<close>

text \<open>\<open>_get_char_value\<close> of this file: letters count from 9, and capitals are taken relative to \<open>'a'\<close>.\<close>

definition ops_char_value :: "byte \<Rightarrow> int" where
  "ops_char_value c =
     (if isdigit_c c then uint c - 48
      else if 97 \<le> c \<and> c \<le> 102 then uint c - 97 + 9
      else if 65 \<le> c \<and> c \<le> 70 then uint c - 97 + 9
      else - EINVAL)"

text \<open>The digits from place \<open>i\<close> on, \<open>k\<close> of them; \<open>None\<close> is the error return.\<close>

fun digits_loop :: "mem \<Rightarrow> nat \<Rightarrow> nat \<Rightarrow> int \<Rightarrow> int \<Rightarrow> nat \<Rightarrow> int option" where
  "digits_loop m s i base ret 0 = Some ret"
| "digits_loop m s i base ret (Suc k) =
     (if m (s + i) = 0 then Some ret
      else
        let v = ops_char_value (m (s + i))
        in if v < 0 \<or> v \<ge> base then None else digits_loop m s (i + 1) base (wrap32 (ret * base + v)) k)"

text \<open>
  The head loop of \<open>get_string_value\<close>: unlike that of \<open>Atoi\<close> it does not stop at an ordinary digit, so it
  only ends at a 0 or behind the text. \<open>None\<close> is the return of 0.
\<close>

function string_head :: "mem \<Rightarrow> nat \<Rightarrow> nat \<Rightarrow> nat \<Rightarrow> (nat \<times> int) option" where
  "string_head m s str_len i =
     (if i < str_len then
        if m (s + i) = 0 then Some (i, 10)
        else if m (s + i) = 32 then string_head m s str_len (i + 2)
        else if m (s + i) = 48 then
          (let c = m (s + i + 1)
           in if c = 0 then None
              else if c = 98 \<or> c = 66 then Some (i + 2, 2)
              else if c = 120 \<or> c = 88 then Some (i + 2, 16)
              else Some (i + 1, 8))
        else string_head m s str_len (i + 1)
      else Some (i, 10))"
  by pat_completeness auto
termination
  by (relation "measure (\<lambda>(m, s, str_len, i). str_len - i)") auto

declare string_head.simps [simp del]

definition get_string_value :: elem_fun where
  "get_string_value st addr e =
     (let m = es_mem st;
          str_len = (if etype st e = CUBE_TYPE_STRING then Strnlen m addr (et_size (el st e)) else Strnlen m addr 16)
      in case string_head m addr str_len 0 of
           None \<Rightarrow> Some 0
         | Some (i, base) \<Rightarrow>
             (case digits_loop m addr i base 0 (str_len - i) of None \<Rightarrow> Some (- EINVAL) | Some r \<Rightarrow> Some r))"

definition get_int_value_op :: elem_fun where
  "get_int_value_op st addr e =
     Some (if et_size (el st e) = 1 then rd_sint (es_mem st) 1 addr
           else if et_size (el st e) = 2 then rd_sint (es_mem st) 2 addr
           else rd_sint (es_mem st) 4 addr)"

text \<open>The value and the last digit that \<open>int_get_text_value\<close> prints for each type.\<close>

definition text_number :: "mem \<Rightarrow> elem_type \<Rightarrow> nat \<Rightarrow> int \<times> int" where
  "text_number m ty a =
     (case ty of
        CUBE_TYPE_UCHAR \<Rightarrow> (rd_sint m 1 a, -1)
      | CUBE_TYPE_USHORT \<Rightarrow> (rd_uint m 2 a, -1)
      | CUBE_TYPE_INT \<Rightarrow> (rd_sint m 4 a, -1)
      | TPM_TYPE_UINT32 \<Rightarrow> (rd_uint m 4 a, -1)
      | CUBE_TYPE_LONGLONG \<Rightarrow> (rd_sint m 8 a, -1)
      | TPM_TYPE_UINT64 \<Rightarrow> (rd_uint m 8 a div 10, rd_uint m 8 a mod 10)
      | _ \<Rightarrow> (0, -1))"

function scale_loop :: "int \<Rightarrow> int \<Rightarrow> int \<Rightarrow> int \<times> int" where
  "scale_loop value i len =
     (if value div i = 0 then (i, len)
      else if value div i < 10 then (i, len + 1)
      else scale_loop value (i * 10) (len + 1))"
  by pat_completeness auto
termination
proof (relation "measure (\<lambda>(value, i, len). nat (value div i))")
  fix v i len :: int
  assume "v div i \<noteq> 0" "\<not> v div i < 10"
  then have "v div i div 10 < v div i" by simp
  then show "((v, i * 10, len + 1), v, i, len) \<in> measure (\<lambda>(value, i, len). nat (value div i))"
    using \<open>\<not> v div i < 10\<close> by (simp add: zdiv_zmult2_eq)
qed simp

declare scale_loop.simps [simp del]

function print_digits :: "int \<Rightarrow> int \<Rightarrow> byte list" where
  "print_digits value i =
     word_of_int (value div i + 48) # (if i div 10 > 0 then print_digits (value mod i) (i div 10) else [])"
  by pat_completeness auto
termination
  by (relation "measure (\<lambda>(value, i). nat i)") auto

declare print_digits.simps [simp del]

text \<open>\<open>None\<close>: the negation of the least \<^verbatim>\<open>long long\<close> overflows.\<close>

definition int_get_text_value :: elem_op where
  "int_get_text_value st elem txt e =
     (let (v, end_digit) = text_number (es_mem st) (etype st e) elem
      in if v = - (2 ^ 63) then None
         else
           let neg = (v < 0); value = \<bar>v\<bar>;
               (i, len) = scale_loop value 1 ((if neg then 1 else 0) + 1);
               out = (if neg then [45] else [])
                     @ (if value = 0 then (if end_digit = -1 then [48] else []) else print_digits value i)
                     @ (if end_digit > -1 then [word_of_int (end_digit + 48)] else [])
           in Some (set_mem (mem_write (es_mem st) txt (out @ [0])) st, len + (if end_digit > -1 then 1 else 0)))"

text \<open>The local \<^verbatim>\<open>int ret\<close> stands at the stack address; more bytes than it has are copied for a longer element.\<close>

definition int_set_text_value :: elem_op where
  "int_set_text_value st addr txt e =
     (let m = es_mem st; str_len = Strnlen m txt (int DIGEST_SIZE);
          store = (\<lambda>ret. Some (set_mem (mcpy (wr_int m 4 (es_stack st) ret) addr (es_stack st) (et_size (el st e))) st,
                               int str_len + 1))
      in case atoi_head m txt str_len 0 of
           None \<Rightarrow> store 0
         | Some (i, base) \<Rightarrow>
             (case digits_loop m txt i base 0 (str_len - i) of
                None \<Rightarrow> Some (st, - EINVAL)
              | Some ret \<Rightarrow> store ret))"

section \<open>Binary and hexadecimal data\<close>

definition define_get_text_value :: elem_op where
  "define_get_text_value st addr txt e =
     (let n = et_tempsize (el st e)
      in if n \<le> 0 then Some (st, n)
         else if addr = 0 then None
         else let (out, r) = bin_to_radix64 (mem_bytes (es_mem st) addr (nat n))
              in Some (set_mem (mem_write (es_mem st) txt out) st, r))"

definition define_set_text_value :: elem_op where
  "define_set_text_value st addr txt e =
     (let n = et_tempsize (el st e)
      in if n \<le> 0 then Some (st, n)
         else let (r, out) = radix64_to_bin (mem_bytes (es_mem st) txt (nat (bin_to_radix64_len n)))
              in Some (set_mem (mem_write (es_mem st) addr out) st, r))"

definition bindata_get_text_value :: elem_op where
  "bindata_get_text_value st elem addr e =
     (let n = et_size (el st e)
      in if n = 0 then Some (st, 0)
         else let (out, r) = bin_to_radix64 (mem_bytes (es_mem st) elem (nat n))
              in Some (set_mem (mem_write (es_mem st) addr out) st, r))"

definition bindata_set_text_value :: elem_op where
  "bindata_set_text_value st elem addr e =
     (let n = et_size (el st e)
      in if n = 0 then Some (st, 0)
         else case Strlen (es_mem st) addr of
                None \<Rightarrow> None
              | Some len \<Rightarrow>
                  if len = 0 then Some (st, 0)
                  else if radix_to_bin_len (int len) \<noteq> n then Some (st, - EINVAL)
                  else let (r, out) = radix64_to_bin (mem_bytes (es_mem st) addr len)
                       in Some (set_mem (mem_write (es_mem st) elem out) st, r))"

definition hexdata_get_text_value :: elem_op where
  "hexdata_get_text_value st elem addr e =
     (let n = et_size (el st e)
      in if n = 0 then Some (st, 0)
         else let (m, r) = bin_2_hex (es_mem st) elem (nat n) addr in Some (set_mem m st, r))"

definition hexdata_set_text_value :: elem_op where
  "hexdata_set_text_value st elem addr e =
     (let n = et_size (el st e)
      in if n = 0 then Some (st, 0)
         else let (m, r) = hex_2_bin (es_mem st) addr n elem in Some (set_mem m st, r))"

section \<open>The tables of operations\<close>

record elem_ops =
  op_get_length :: "elem_fun option"
  op_clone_elem :: "elem_op option"
  op_get_bin_value :: "elem_op option"
  op_set_bin_value :: "elem_op option"
  op_get_text_value :: "elem_op option"
  op_set_text_value :: "elem_op option"
  op_get_int_value :: "elem_fun option"

definition null_ops :: elem_ops where
  "null_ops = \<lparr>op_get_length = None, op_clone_elem = None, op_get_bin_value = None, op_set_bin_value = None,
     op_get_text_value = None, op_set_text_value = None, op_get_int_value = None\<rparr>"

definition string_convert_ops :: elem_ops where
  "string_convert_ops = null_ops\<lparr>op_get_int_value := Some get_string_value\<rparr>"

definition bindata_convert_ops :: elem_ops where
  "bindata_convert_ops = null_ops\<lparr>op_get_text_value := Some bindata_get_text_value,
     op_set_text_value := Some bindata_set_text_value\<rparr>"

definition hexdata_convert_ops :: elem_ops where
  "hexdata_convert_ops = null_ops\<lparr>op_get_text_value := Some hexdata_get_text_value,
     op_set_text_value := Some hexdata_set_text_value\<rparr>"

definition uuid_convert_ops :: elem_ops where
  "uuid_convert_ops = null_ops\<lparr>op_get_text_value := Some uuid_get_text_value,
     op_set_text_value := Some uuid_set_text_value\<rparr>"

definition uuidarray_convert_ops :: elem_ops where
  "uuidarray_convert_ops = uuid_convert_ops"

definition defuuidarray_convert_ops :: elem_ops where
  "defuuidarray_convert_ops = uuid_convert_ops"

definition estring_convert_ops :: elem_ops where
  "estring_convert_ops = null_ops\<lparr>op_get_length := Some estring_get_length\<rparr>"

definition define_convert_ops :: elem_ops where
  "define_convert_ops = null_ops\<lparr>op_get_text_value := Some define_get_text_value,
     op_set_text_value := Some define_set_text_value\<rparr>"

definition int_convert_ops :: elem_ops where
  "int_convert_ops = null_ops\<lparr>op_get_int_value := Some get_int_value_op,
     op_get_text_value := Some int_get_text_value, op_set_text_value := Some int_set_text_value\<rparr>"

definition defnamelist_convert_ops :: elem_ops where
  "defnamelist_convert_ops = null_ops\<lparr>op_clone_elem := Some namelist_clone,
     op_get_bin_value := Some namelist_get_bin_value, op_set_bin_value := Some namelist_set_bin_value,
     op_get_text_value := Some namelist_get_text_value, op_set_text_value := Some namelist_set_text_value\<rparr>"

definition tpm_uint64_convert_ops :: elem_ops where
  "tpm_uint64_convert_ops = null_ops\<lparr>op_get_bin_value := Some tpm64_get_bin_value,
     op_set_bin_value := Some tpm64_set_bin_value,
     op_get_text_value := Some int_get_text_value, op_set_text_value := Some int_set_text_value\<rparr>"

definition tpm_uint32_convert_ops :: elem_ops where
  "tpm_uint32_convert_ops = null_ops\<lparr>op_get_bin_value := Some tpm32_get_bin_value,
     op_set_bin_value := Some tpm32_set_bin_value,
     op_get_text_value := Some int_get_text_value, op_set_text_value := Some int_set_text_value\<rparr>"

definition tpm_uint16_convert_ops :: elem_ops where
  "tpm_uint16_convert_ops = null_ops\<lparr>op_get_bin_value := Some tpm16_get_bin_value,
     op_set_bin_value := Some tpm16_set_bin_value,
     op_get_text_value := Some int_get_text_value, op_set_text_value := Some int_set_text_value\<rparr>"

end
