(* ===== verification/Cube_Enum_Flag.thy ===== *)
theory Cube_Enum_Flag
  imports Cube_Struct_Ops
begin

text \<open>
  \<^verbatim>\<open>cubelib/struct_mod/enum_flag_ops.c\<close>: enumeration and flag elements as text, by the list of named values
  of the element. A list without entries may have no array at all (\<open>ERefNames None\<close>).
\<close>

definition nulstring :: "byte list" where
  "nulstring = [78, 85, 76, 76]"

definition cstring :: "mem \<Rightarrow> nat \<Rightarrow> byte list option" where
  "cstring m a = map_option (mem_bytes m a) (Strlen m a)"

text \<open>The list of named values of an element: \<open>None\<close> for a reference of another kind.\<close>

definition name_list :: "elem_ref \<Rightarrow> (byte list \<times> int) list option option" where
  "name_list r = (case r of ERefNames xs \<Rightarrow> Some xs | _ \<Rightarrow> None)"

definition enum_raw :: "mem \<Rightarrow> elem_type \<Rightarrow> nat \<Rightarrow> u32 option" where
  "enum_raw m ty a =
     (case ty of
        CUBE_TYPE_ENUM \<Rightarrow> Some (word_of_int (rd_uint m 4 a))
      | CUBE_TYPE_SENUM \<Rightarrow> Some (word_of_int (rd_uint m 2 a))
      | CUBE_TYPE_BENUM \<Rightarrow> Some (word_of_int (rd_uint m 1 a))
      | _ \<Rightarrow> None)"

definition enum_get_text_value :: elem_op where
  "enum_get_text_value st addr txt e =
     (case et_ref (el st e) of
        ERefNull \<Rightarrow> Some (st, - EINVAL)
      | r \<Rightarrow>
          (case name_list r of
             None \<Rightarrow> None
           | Some xs \<Rightarrow>
               (case enum_raw (es_mem st) (etype st e) addr of
                  None \<Rightarrow> Some (st, - EINVAL)
                | Some v \<Rightarrow>
                    let put = (\<lambda>s. Some (set_mem (mem_write (es_mem st) txt (s @ [0])) st, int (length s) + 1))
                    in case find (\<lambda>(name, k). word_of_int k = v) (case xs of None \<Rightarrow> [] | Some ys \<Rightarrow> ys) of
                         Some (name, k) \<Rightarrow> put name
                       | None \<Rightarrow> if v = 0 then put nulstring else Some (st, - EINVAL))))"

text \<open>
  The loop of \<open>enum_set_text_value\<close> does not stop at a match, so the last one counts; without a match the
  value stays undefined.
\<close>

definition enum_set_text_value :: elem_op where
  "enum_set_text_value st addr txt e =
     (case et_ref (el st e) of
        ERefNull \<Rightarrow> Some (st, - EINVAL)
      | r \<Rightarrow>
          (case name_list r of
             None \<Rightarrow> None
           | Some xs \<Rightarrow>
               (case cstring (es_mem st) txt of
                  None \<Rightarrow> None
                | Some s \<Rightarrow>
                    if s = nulstring then Some (set_mem (wr_int (es_mem st) 4 addr 0) st, 0)
                    else
                      case find (\<lambda>(name, k). name = s) (rev (case xs of None \<Rightarrow> [] | Some ys \<Rightarrow> ys)) of
                        None \<Rightarrow> None
                      | Some (name, k) \<Rightarrow>
                          let v = (word_of_int k :: u32);
                              put = (\<lambda>n. Some (set_mem (wr_int (es_mem st) n addr (uint v)) st, wrap32 (uint v)))
                          in case etype st e of
                               CUBE_TYPE_ENUM \<Rightarrow> put 4
                             | CUBE_TYPE_SENUM \<Rightarrow> if uint v > 32767 then Some (st, - EINVAL) else put 2
                             | CUBE_TYPE_BENUM \<Rightarrow> if uint v > 127 then Some (st, - EINVAL) else put 1
                             | _ \<Rightarrow> Some (st, - EINVAL))))"

definition flag_raw :: "mem \<Rightarrow> elem_type \<Rightarrow> nat \<Rightarrow> u32 option" where
  "flag_raw m ty a =
     (case ty of
        CUBE_TYPE_FLAG \<Rightarrow> Some (word_of_int (rd_uint m 4 a))
      | CUBE_TYPE_SFLAG \<Rightarrow> Some (word_of_int (rd_uint m 2 a))
      | CUBE_TYPE_BFLAG \<Rightarrow> Some (word_of_int (rd_uint m 1 a))
      | _ \<Rightarrow> None)"

text \<open>The names of the flags set, joined by \<open>|\<close>.\<close>

fun flag_names :: "(byte list \<times> int) list \<Rightarrow> u32 \<Rightarrow> byte list \<Rightarrow> byte list" where
  "flag_names [] v out = out"
| "flag_names ((name, k) # xs) v out =
     flag_names xs v (if word_of_int k AND v \<noteq> 0 then out @ (if out \<noteq> [] then [124] else []) @ name else out)"

definition flag_get_text_value :: elem_op where
  "flag_get_text_value st addr txt e =
     (case et_ref (el st e) of
        ERefNull \<Rightarrow> Some (st, - EINVAL)
      | r \<Rightarrow>
          (case name_list r of
             None \<Rightarrow> None
           | Some xs \<Rightarrow>
               (case flag_raw (es_mem st) (etype st e) addr of
                  None \<Rightarrow> Some (st, - EINVAL)
                | Some v \<Rightarrow>
                    let out = flag_names (case xs of None \<Rightarrow> [] | Some ys \<Rightarrow> ys) v [];
                        out = (if out = [] then nulstring else out)
                    in Some (set_mem (mem_write (es_mem st) txt (out @ [0])) st, int (length out) + 1))))"

text \<open>
  The loop of \<open>flag_set_text_value\<close> over the text, with the characters of the current name in \<open>acc\<close>.
  \<open>None\<close>: the name does not fit the array of 32 bytes, or there is no array of names to end the search;
  \<open>Some None\<close>: the error return for an unknown name.
\<close>

fun flag_loop :: "(byte list \<times> int) list option \<Rightarrow> byte list \<Rightarrow> byte list \<Rightarrow> u32 \<Rightarrow> u32 option option" where
  "flag_loop xs [] acc v = Some (Some v)"
| "flag_loop xs (c # cs) acc v =
     (if c = 124 then flag_loop xs cs acc v
      else if length acc \<ge> DIGEST_SIZE then None
      else
        let acc' = acc @ [c]
        in if cs \<noteq> [] \<and> hd cs \<noteq> 124 then flag_loop xs cs acc' v
           else if length acc' \<ge> DIGEST_SIZE then None
           else
             case xs of
               None \<Rightarrow> None
             | Some ys \<Rightarrow>
                 (case find (\<lambda>(name, k). name = acc') ys of
                    None \<Rightarrow> Some None
                  | Some (name, k) \<Rightarrow> flag_loop xs cs [] (v OR word_of_int k)))"

definition flag_set_text_value :: elem_op where
  "flag_set_text_value st addr txt e =
     (case et_ref (el st e) of
        ERefNull \<Rightarrow> Some (st, - EINVAL)
      | r \<Rightarrow>
          (case name_list r of
             None \<Rightarrow> None
           | Some xs \<Rightarrow>
               (case cstring (es_mem st) txt of
                  None \<Rightarrow> None
                | Some s \<Rightarrow>
                    if s = nulstring then Some (set_mem (wr_int (es_mem st) 4 addr 0) st, 0)
                    else
                      case flag_loop xs s [] 0 of
                        None \<Rightarrow> None
                      | Some None \<Rightarrow> Some (st, - EINVAL)
                      | Some (Some v) \<Rightarrow>
                          let put = (\<lambda>n. Some (set_mem (wr_int (es_mem st) n addr (uint v)) st, 0))
                          in case etype st e of
                               CUBE_TYPE_FLAG \<Rightarrow> put 4
                             | CUBE_TYPE_SFLAG \<Rightarrow> put 2
                             | CUBE_TYPE_BFLAG \<Rightarrow> put 1
                             | _ \<Rightarrow> Some (st, - EINVAL))))"

definition enum_convert_ops :: elem_ops where
  "enum_convert_ops = null_ops\<lparr>op_get_text_value := Some enum_get_text_value,
     op_set_text_value := Some enum_set_text_value\<rparr>"

definition flag_convert_ops :: elem_ops where
  "flag_convert_ops = null_ops\<lparr>op_get_text_value := Some flag_get_text_value,
     op_set_text_value := Some flag_set_text_value\<rparr>"

end
