(* ===== verification/Cube_Struct_Init.thy ===== *)
theory Cube_Struct_Init
  imports Cube_Enum_Flag
begin

text \<open>
  \<^verbatim>\<open>cubelib/struct_mod/struct_init.c\<close>: the tables of element types, elements by name, the address and the
  defining value of an element inside a structure, and the transfer of one element
  between a structure and its binary or text form.
\<close>

section \<open>The tables of element types\<close>

abbreviation (input) ELEM_ATTR_POINTER :: u32 where "ELEM_ATTR_POINTER \<equiv> 0x01"
abbreviation (input) ELEM_ATTR_DEFINE :: u32 where "ELEM_ATTR_DEFINE \<equiv> 0x02"
abbreviation (input) ELEM_ATTR_ARRAY :: u32 where "ELEM_ATTR_ARRAY \<equiv> 0x04"
abbreviation (input) ELEM_ATTR_SUBSET :: u32 where "ELEM_ATTR_SUBSET \<equiv> 0x40"
abbreviation (input) ELEM_ATTR_VALUE :: u32 where "ELEM_ATTR_VALUE \<equiv> 0x80"
abbreviation (input) ELEM_ATTR_NUM :: u32 where "ELEM_ATTR_NUM \<equiv> 0x100"
abbreviation (input) ELEM_ATTR_BOOL :: u32 where "ELEM_ATTR_BOOL \<equiv> 0x200"
abbreviation (input) ELEM_ATTR_NAMELIST :: u32 where "ELEM_ATTR_NAMELIST \<equiv> 0x400"
abbreviation (input) ELEM_ATTR_EMPTY :: u32 where "ELEM_ATTR_EMPTY \<equiv> 0x80000"

type_synonym elem_info = "elem_type \<times> elem_ops option \<times> u32 \<times> int"

definition InitElemInfo :: "elem_info list" where
  "InitElemInfo =
    [(CUBE_TYPE_STRING, Some string_convert_ops, ELEM_ATTR_VALUE, -1),
     (CUBE_TYPE_ESTRING, Some estring_convert_ops, ELEM_ATTR_VALUE OR ELEM_ATTR_POINTER, 1),
     (CUBE_TYPE_BINDATA, Some bindata_convert_ops, 0, -1),
     (CUBE_TYPE_HEXDATA, Some hexdata_convert_ops, 0, -1),
     (CUBE_TYPE_DEFINE, Some define_convert_ops, ELEM_ATTR_POINTER OR ELEM_ATTR_DEFINE, 1),
     (CUBE_TYPE_DEFSTR, Some string_convert_ops, ELEM_ATTR_POINTER OR ELEM_ATTR_DEFINE, 1),
     (CUBE_TYPE_DEFSTRARRAY, Some string_convert_ops, ELEM_ATTR_DEFINE OR ELEM_ATTR_ARRAY, -1),
     (CUBE_TYPE_UUID, Some uuid_convert_ops, 0, 32),
     (CUBE_TYPE_UUIDARRAY, Some uuidarray_convert_ops, ELEM_ATTR_ARRAY, 32),
     (CUBE_TYPE_DEFUUIDARRAY, Some defuuidarray_convert_ops, ELEM_ATTR_ARRAY OR ELEM_ATTR_DEFINE, 32),
     (CUBE_TYPE_DEFNAMELIST, Some defnamelist_convert_ops,
        ELEM_ATTR_POINTER OR ELEM_ATTR_DEFINE OR ELEM_ATTR_ARRAY, 12),
     (CUBE_TYPE_INT, Some int_convert_ops, ELEM_ATTR_VALUE OR ELEM_ATTR_NUM, 4),
     (CUBE_TYPE_UCHAR, Some int_convert_ops, ELEM_ATTR_VALUE OR ELEM_ATTR_NUM, 1),
     (CUBE_TYPE_USHORT, Some int_convert_ops, ELEM_ATTR_VALUE OR ELEM_ATTR_NUM, 2),
     (CUBE_TYPE_LONGLONG, Some int_convert_ops, ELEM_ATTR_VALUE OR ELEM_ATTR_NUM, 8),
     (TPM_TYPE_UINT64, Some tpm_uint64_convert_ops, ELEM_ATTR_VALUE OR ELEM_ATTR_NUM, 8),
     (TPM_TYPE_UINT32, Some tpm_uint32_convert_ops, ELEM_ATTR_VALUE OR ELEM_ATTR_NUM, 4),
     (TPM_TYPE_UINT16, Some tpm_uint16_convert_ops, ELEM_ATTR_VALUE OR ELEM_ATTR_NUM, 2),
     (CUBE_TYPE_ENUM, Some enum_convert_ops, ELEM_ATTR_NAMELIST, 4),
     (CUBE_TYPE_SENUM, Some enum_convert_ops, ELEM_ATTR_NAMELIST, 2),
     (CUBE_TYPE_BENUM, Some enum_convert_ops, ELEM_ATTR_NAMELIST, 1),
     (CUBE_TYPE_FLAG, Some flag_convert_ops, ELEM_ATTR_NAMELIST, 4),
     (CUBE_TYPE_SFLAG, Some flag_convert_ops, ELEM_ATTR_NAMELIST, 2),
     (CUBE_TYPE_BFLAG, Some flag_convert_ops, ELEM_ATTR_NAMELIST, 1),
     (CUBE_TYPE_SUBSTRUCT, None, ELEM_ATTR_SUBSET, 0),
     (CUBE_TYPE_ARRAY, None, ELEM_ATTR_ARRAY OR ELEM_ATTR_SUBSET, 0),
     (CUBE_TYPE_DEFARRAY, None, ELEM_ATTR_POINTER OR ELEM_ATTR_ARRAY OR ELEM_ATTR_SUBSET OR ELEM_ATTR_DEFINE, 0),
     (CUBE_TYPE_ENDDATA, None, ELEM_ATTR_EMPTY, 0)]"

record deal_tables =
  tb_ops :: "elem_type \<Rightarrow> elem_ops option"
  tb_flag :: "elem_type \<Rightarrow> u32"
  tb_offset :: "elem_type \<Rightarrow> int"

definition struct_register_ops :: "elem_info \<Rightarrow> deal_tables \<Rightarrow> deal_tables \<times> int" where
  "struct_register_ops info tb =
     (case info of (ty, ops, flag, off) \<Rightarrow>
        if ty = CUBE_TYPE_ENDDATA then (tb, - EINVAL)
        else (tb\<lparr>tb_ops := (tb_ops tb)(ty := ops), tb_flag := (tb_flag tb)(ty := flag),
                 tb_offset := (tb_offset tb)(ty := off)\<rparr>, 0))"

fun register_loop :: "elem_info list \<Rightarrow> deal_tables \<Rightarrow> deal_tables \<times> int" where
  "register_loop [] tb = (tb, 0)"
| "register_loop (info # infos) tb =
     (if fst info = CUBE_TYPE_ENDDATA then (tb, 0)
      else case struct_register_ops info tb of
             (tb', r) \<Rightarrow> if r < 0 then (tb', r) else register_loop infos tb')"

text \<open>\<open>struct_deal_init\<close> clears the table of operations; the others are static and start with zeros.\<close>

definition struct_deal_init :: "deal_tables \<Rightarrow> deal_tables \<times> int" where
  "struct_deal_init tb = register_loop InitElemInfo (tb\<lparr>tb_ops := (\<lambda>_. None)\<rparr>)"

text \<open>
  The three types that \<open>memdb_init\<close> adds. Their operations are for texts only and read the name lists of
  the database: they are \<open>enumtype_get_text_value\<close> and its companions of the database, not entries here.
\<close>

definition MemdbElemInfo :: "elem_info list" where
  "MemdbElemInfo =
    [(CUBE_TYPE_ELEMTYPE, Some null_ops, 0, 4),
     (CUBE_TYPE_RECORDTYPE, Some null_ops, ELEM_ATTR_VALUE, 4),
     (CUBE_TYPE_RECORDSUBTYPE, Some null_ops, ELEM_ATTR_DEFINE, 4),
     (CUBE_TYPE_ENDDATA, None, ELEM_ATTR_EMPTY, 0)]"

text \<open>The tables of the running program: after \<open>struct_deal_init\<close> and \<open>memdb_init\<close>.\<close>

definition deal_table :: deal_tables where
  "deal_table = fst (register_loop MemdbElemInfo
     (fst (struct_deal_init \<lparr>tb_ops = (\<lambda>_. None), tb_flag = (\<lambda>_. 0), tb_offset = (\<lambda>_. 0)\<rparr>)))"

definition testelemattr :: "elem_type \<Rightarrow> u32 \<Rightarrow> int" where
  "testelemattr ty flag = (if ty = CUBE_TYPE_ENDDATA then - EINVAL else sint (tb_flag deal_table ty AND flag))"

definition isdefineelem :: "elem_type \<Rightarrow> bool" where "isdefineelem ty \<longleftrightarrow> testelemattr ty ELEM_ATTR_DEFINE \<noteq> 0"
definition isarrayelem :: "elem_type \<Rightarrow> bool" where "isarrayelem ty \<longleftrightarrow> testelemattr ty ELEM_ATTR_ARRAY \<noteq> 0"
definition ispointerelem :: "elem_type \<Rightarrow> bool" where "ispointerelem ty \<longleftrightarrow> testelemattr ty ELEM_ATTR_POINTER \<noteq> 0"
definition issubsetelem :: "elem_type \<Rightarrow> bool" where "issubsetelem ty \<longleftrightarrow> testelemattr ty ELEM_ATTR_SUBSET \<noteq> 0"
definition isvalidvalue :: "elem_type \<Rightarrow> bool" where "isvalidvalue ty \<longleftrightarrow> testelemattr ty ELEM_ATTR_VALUE \<noteq> 0"
definition isnumelem :: "elem_type \<Rightarrow> bool" where "isnumelem ty \<longleftrightarrow> testelemattr ty ELEM_ATTR_NUM \<noteq> 0"
definition isboolelem :: "elem_type \<Rightarrow> bool" where "isboolelem ty \<longleftrightarrow> testelemattr ty ELEM_ATTR_BOOL \<noteq> 0"
definition isemptyelem :: "elem_type \<Rightarrow> bool" where "isemptyelem ty \<longleftrightarrow> testelemattr ty ELEM_ATTR_EMPTY \<noteq> 0"
definition isnamelistelem :: "elem_type \<Rightarrow> bool" where "isnamelistelem ty \<longleftrightarrow> testelemattr ty ELEM_ATTR_NAMELIST \<noteq> 0"

definition elem_get_ops :: "elem_type \<Rightarrow> elem_ops option" where
  "elem_get_ops ty = tb_ops deal_table ty"

definition get_fixed_elemsize :: "elem_type \<Rightarrow> int" where
  "get_fixed_elemsize ty =
     (if tb_offset deal_table ty > 0 then tb_offset deal_table ty
      else if ispointerelem ty then 8
      else tb_offset deal_table ty)"

text \<open>The three tables, type by type.\<close>

lemma deal_table_flag:
  "tb_flag deal_table ty =
     (case ty of
        CUBE_TYPE_STRING \<Rightarrow> 0x80 | CUBE_TYPE_ESTRING \<Rightarrow> 0x81 | CUBE_TYPE_DEFINE \<Rightarrow> 0x03 | CUBE_TYPE_DEFSTR \<Rightarrow> 0x03
      | CUBE_TYPE_DEFSTRARRAY \<Rightarrow> 0x06 | CUBE_TYPE_UUIDARRAY \<Rightarrow> 0x04 | CUBE_TYPE_DEFUUIDARRAY \<Rightarrow> 0x06
      | CUBE_TYPE_DEFNAMELIST \<Rightarrow> 0x07 | CUBE_TYPE_INT \<Rightarrow> 0x180 | CUBE_TYPE_UCHAR \<Rightarrow> 0x180
      | CUBE_TYPE_USHORT \<Rightarrow> 0x180 | CUBE_TYPE_LONGLONG \<Rightarrow> 0x180 | TPM_TYPE_UINT64 \<Rightarrow> 0x180
      | TPM_TYPE_UINT32 \<Rightarrow> 0x180 | TPM_TYPE_UINT16 \<Rightarrow> 0x180 | CUBE_TYPE_ENUM \<Rightarrow> 0x400
      | CUBE_TYPE_SENUM \<Rightarrow> 0x400 | CUBE_TYPE_BENUM \<Rightarrow> 0x400 | CUBE_TYPE_FLAG \<Rightarrow> 0x400
      | CUBE_TYPE_SFLAG \<Rightarrow> 0x400 | CUBE_TYPE_BFLAG \<Rightarrow> 0x400 | CUBE_TYPE_SUBSTRUCT \<Rightarrow> 0x40
      | CUBE_TYPE_ARRAY \<Rightarrow> 0x44 | CUBE_TYPE_DEFARRAY \<Rightarrow> 0x47 | CUBE_TYPE_RECORDTYPE \<Rightarrow> 0x80
      | CUBE_TYPE_RECORDSUBTYPE \<Rightarrow> 0x02 | _ \<Rightarrow> 0)"
  by (cases ty) (simp_all add: deal_table_def MemdbElemInfo_def struct_deal_init_def InitElemInfo_def struct_register_ops_def fun_upd_apply)

lemma deal_table_offset:
  "tb_offset deal_table ty =
     (case ty of
        CUBE_TYPE_STRING \<Rightarrow> -1 | CUBE_TYPE_ESTRING \<Rightarrow> 1 | CUBE_TYPE_BINDATA \<Rightarrow> -1 | CUBE_TYPE_HEXDATA \<Rightarrow> -1
      | CUBE_TYPE_DEFINE \<Rightarrow> 1 | CUBE_TYPE_DEFSTR \<Rightarrow> 1 | CUBE_TYPE_DEFSTRARRAY \<Rightarrow> -1 | CUBE_TYPE_UUID \<Rightarrow> 32
      | CUBE_TYPE_UUIDARRAY \<Rightarrow> 32 | CUBE_TYPE_DEFUUIDARRAY \<Rightarrow> 32 | CUBE_TYPE_DEFNAMELIST \<Rightarrow> 12
      | CUBE_TYPE_INT \<Rightarrow> 4 | CUBE_TYPE_UCHAR \<Rightarrow> 1 | CUBE_TYPE_USHORT \<Rightarrow> 2 | CUBE_TYPE_LONGLONG \<Rightarrow> 8
      | TPM_TYPE_UINT64 \<Rightarrow> 8 | TPM_TYPE_UINT32 \<Rightarrow> 4 | TPM_TYPE_UINT16 \<Rightarrow> 2
      | CUBE_TYPE_ENUM \<Rightarrow> 4 | CUBE_TYPE_SENUM \<Rightarrow> 2 | CUBE_TYPE_BENUM \<Rightarrow> 1
      | CUBE_TYPE_FLAG \<Rightarrow> 4 | CUBE_TYPE_SFLAG \<Rightarrow> 2 | CUBE_TYPE_BFLAG \<Rightarrow> 1 | CUBE_TYPE_ELEMTYPE \<Rightarrow> 4
      | CUBE_TYPE_RECORDTYPE \<Rightarrow> 4 | CUBE_TYPE_RECORDSUBTYPE \<Rightarrow> 4 | _ \<Rightarrow> 0)"
  by (cases ty) (simp_all add: deal_table_def MemdbElemInfo_def struct_deal_init_def InitElemInfo_def struct_register_ops_def fun_upd_apply)

lemma elem_get_ops_table:
  "elem_get_ops ty =
     (case ty of
        CUBE_TYPE_STRING \<Rightarrow> Some string_convert_ops | CUBE_TYPE_ESTRING \<Rightarrow> Some estring_convert_ops
      | CUBE_TYPE_BINDATA \<Rightarrow> Some bindata_convert_ops | CUBE_TYPE_HEXDATA \<Rightarrow> Some hexdata_convert_ops
      | CUBE_TYPE_DEFINE \<Rightarrow> Some define_convert_ops | CUBE_TYPE_DEFSTR \<Rightarrow> Some string_convert_ops
      | CUBE_TYPE_DEFSTRARRAY \<Rightarrow> Some string_convert_ops | CUBE_TYPE_UUID \<Rightarrow> Some uuid_convert_ops
      | CUBE_TYPE_UUIDARRAY \<Rightarrow> Some uuidarray_convert_ops | CUBE_TYPE_DEFUUIDARRAY \<Rightarrow> Some defuuidarray_convert_ops
      | CUBE_TYPE_DEFNAMELIST \<Rightarrow> Some defnamelist_convert_ops | CUBE_TYPE_INT \<Rightarrow> Some int_convert_ops
      | CUBE_TYPE_UCHAR \<Rightarrow> Some int_convert_ops | CUBE_TYPE_USHORT \<Rightarrow> Some int_convert_ops
      | CUBE_TYPE_LONGLONG \<Rightarrow> Some int_convert_ops | TPM_TYPE_UINT64 \<Rightarrow> Some tpm_uint64_convert_ops
      | TPM_TYPE_UINT32 \<Rightarrow> Some tpm_uint32_convert_ops | TPM_TYPE_UINT16 \<Rightarrow> Some tpm_uint16_convert_ops
      | CUBE_TYPE_ENUM \<Rightarrow> Some enum_convert_ops | CUBE_TYPE_SENUM \<Rightarrow> Some enum_convert_ops
      | CUBE_TYPE_BENUM \<Rightarrow> Some enum_convert_ops | CUBE_TYPE_FLAG \<Rightarrow> Some flag_convert_ops
      | CUBE_TYPE_SFLAG \<Rightarrow> Some flag_convert_ops | CUBE_TYPE_BFLAG \<Rightarrow> Some flag_convert_ops
      | CUBE_TYPE_ELEMTYPE \<Rightarrow> Some null_ops | CUBE_TYPE_RECORDTYPE \<Rightarrow> Some null_ops
      | CUBE_TYPE_RECORDSUBTYPE \<Rightarrow> Some null_ops | _ \<Rightarrow> None)"
  by (cases ty)
    (simp_all add: elem_get_ops_def deal_table_def MemdbElemInfo_def struct_deal_init_def InitElemInfo_def struct_register_ops_def fun_upd_apply)

named_theorems type_simps \<open>the properties of the element types\<close>

lemma type_kinds [type_simps]:
  "isdefineelem ty \<longleftrightarrow> ty \<in> {CUBE_TYPE_DEFINE, CUBE_TYPE_DEFSTR, CUBE_TYPE_DEFSTRARRAY, CUBE_TYPE_DEFUUIDARRAY,
     CUBE_TYPE_DEFNAMELIST, CUBE_TYPE_DEFARRAY, CUBE_TYPE_RECORDSUBTYPE, CUBE_TYPE_ENDDATA}"
  "isarrayelem ty \<longleftrightarrow> ty \<in> {CUBE_TYPE_DEFSTRARRAY, CUBE_TYPE_UUIDARRAY, CUBE_TYPE_DEFUUIDARRAY,
     CUBE_TYPE_DEFNAMELIST, CUBE_TYPE_ARRAY, CUBE_TYPE_DEFARRAY, CUBE_TYPE_ENDDATA}"
  "ispointerelem ty \<longleftrightarrow> ty \<in> {CUBE_TYPE_ESTRING, CUBE_TYPE_DEFINE, CUBE_TYPE_DEFSTR, CUBE_TYPE_DEFNAMELIST,
     CUBE_TYPE_DEFARRAY, CUBE_TYPE_ENDDATA}"
  "issubsetelem ty \<longleftrightarrow> ty \<in> {CUBE_TYPE_SUBSTRUCT, CUBE_TYPE_ARRAY, CUBE_TYPE_DEFARRAY, CUBE_TYPE_ENDDATA}"
  "isvalidvalue ty \<longleftrightarrow> ty \<in> {CUBE_TYPE_STRING, CUBE_TYPE_ESTRING, CUBE_TYPE_INT, CUBE_TYPE_UCHAR, CUBE_TYPE_USHORT,
     CUBE_TYPE_LONGLONG, TPM_TYPE_UINT64, TPM_TYPE_UINT32, TPM_TYPE_UINT16, CUBE_TYPE_RECORDTYPE,
     CUBE_TYPE_ENDDATA}"
  "isnamelistelem ty \<longleftrightarrow> ty \<in> {CUBE_TYPE_ENUM, CUBE_TYPE_SENUM, CUBE_TYPE_BENUM, CUBE_TYPE_FLAG, CUBE_TYPE_SFLAG,
     CUBE_TYPE_BFLAG, CUBE_TYPE_ENDDATA}"
  by (cases ty; simp add: isdefineelem_def isarrayelem_def ispointerelem_def issubsetelem_def isvalidvalue_def
      isnamelistelem_def testelemattr_def deal_table_flag)+

lemma fixed_elemsize [type_simps]:
  "get_fixed_elemsize ty =
     (case ty of
        CUBE_TYPE_STRING \<Rightarrow> -1 | CUBE_TYPE_ESTRING \<Rightarrow> 1 | CUBE_TYPE_BINDATA \<Rightarrow> -1 | CUBE_TYPE_HEXDATA \<Rightarrow> -1
      | CUBE_TYPE_DEFINE \<Rightarrow> 1 | CUBE_TYPE_DEFSTR \<Rightarrow> 1 | CUBE_TYPE_DEFSTRARRAY \<Rightarrow> -1 | CUBE_TYPE_UUID \<Rightarrow> 32
      | CUBE_TYPE_UUIDARRAY \<Rightarrow> 32 | CUBE_TYPE_DEFUUIDARRAY \<Rightarrow> 32 | CUBE_TYPE_DEFNAMELIST \<Rightarrow> 12
      | CUBE_TYPE_INT \<Rightarrow> 4 | CUBE_TYPE_UCHAR \<Rightarrow> 1 | CUBE_TYPE_USHORT \<Rightarrow> 2 | CUBE_TYPE_LONGLONG \<Rightarrow> 8
      | TPM_TYPE_UINT64 \<Rightarrow> 8 | TPM_TYPE_UINT32 \<Rightarrow> 4 | TPM_TYPE_UINT16 \<Rightarrow> 2
      | CUBE_TYPE_ENUM \<Rightarrow> 4 | CUBE_TYPE_SENUM \<Rightarrow> 2 | CUBE_TYPE_BENUM \<Rightarrow> 1
      | CUBE_TYPE_FLAG \<Rightarrow> 4 | CUBE_TYPE_SFLAG \<Rightarrow> 2 | CUBE_TYPE_BFLAG \<Rightarrow> 1
      | CUBE_TYPE_ELEMTYPE \<Rightarrow> 4 | CUBE_TYPE_RECORDTYPE \<Rightarrow> 4 | CUBE_TYPE_RECORDSUBTYPE \<Rightarrow> 4
      | CUBE_TYPE_DEFARRAY \<Rightarrow> 8 | CUBE_TYPE_ENDDATA \<Rightarrow> 8 | _ \<Rightarrow> 0)"
  by (cases ty) (simp_all add: get_fixed_elemsize_def deal_table_offset type_kinds)

end
