(* ===== verification/Cube_Struct_Elem.thy ===== *)
theory Cube_Struct_Elem
  imports Cube_Struct_Init
begin

text \<open>
  The part of \<^verbatim>\<open>cubelib/struct_mod/struct_init.c\<close> that works on one element of a template: finding it by
  name, its address in a structure, the value of the element that defines its length, and the
  transfer between the structure and its binary form, its text form, another structure.
\<close>

section \<open>Elements by name\<close>

definition count_struct_num :: "elem_attr list \<Rightarrow> nat" where
  "count_struct_num desc = length (takeWhile (\<lambda>a. ea_name a \<noteq> None \<and> ea_type a \<noteq> CUBE_TYPE_ENDDATA) desc)"

partial_function (option) get_root_node :: "estate \<Rightarrow> nat \<Rightarrow> nat option" where
  "get_root_node st n = (case sn_parent (es_node st n) of None \<Rightarrow> Some n | Some p \<Rightarrow> get_root_node st p)"

text \<open>The next component of a dotted name and the rest, if any; a component of more than 32 characters is empty.\<close>

definition get_next_name :: "byte list \<Rightarrow> byte list \<times> byte list option" where
  "get_next_name name =
     (let w = takeWhile (\<lambda>c. c \<noteq> 46) name
      in if length w > 32 then ([], None)
         else if length w = length name then (w, None)
         else (w, Some (drop (length w + 1) name)))"

definition get_elem_from_struct :: "estate \<Rightarrow> nat \<Rightarrow> byte list \<Rightarrow> eid option" where
  "get_elem_from_struct st n name =
     map_option (\<lambda>i. (n, i))
       (find (\<lambda>i. ea_name (struct_desc (es_node st n) ! i) = Some name) [0..<nat (sn_elem_no (es_node st n))])"

text \<open>
  \<open>None\<close> is the invalid pointer \<^verbatim>\<open>-EINVAL\<close> the loop returns for an unknown component before the last,
  \<open>Some None\<close> is \<^verbatim>\<open>NULL\<close>.
\<close>

function name_loop :: "estate \<Rightarrow> nat \<Rightarrow> byte list \<Rightarrow> eid option option" where
  "name_loop st n name =
     (case get_next_name name of
        (w, rest) \<Rightarrow>
          if w = [] then Some None
          else
            let e = get_elem_from_struct st n w
            in case rest of
                 None \<Rightarrow> Some e
               | Some name' \<Rightarrow>
                   (case e of
                      None \<Rightarrow> None
                    | Some x \<Rightarrow>
                        if \<not> issubsetelem (etype st x) then Some None
                        else case et_ref (el st x) of
                               ERefNode n' \<Rightarrow> name_loop st n' name'
                             | _ \<Rightarrow> Some None))"
  by pat_completeness auto
termination
  by (relation "measure (\<lambda>(st, n, name). length name)")
    (auto simp: get_next_name_def Let_def length_greater_0_conv [symmetric] simp del: length_greater_0_conv
      split: if_splits intro!: diff_less)

declare name_loop.simps [simp del]

definition get_elem_by_name :: "estate \<Rightarrow> nat \<Rightarrow> byte list \<Rightarrow> eid option option" where
  "get_elem_by_name st start name =
     (case name of
        c # cs \<Rightarrow>
          if c = 47 then (case get_root_node st start of None \<Rightarrow> None | Some r \<Rightarrow> name_loop st r cs)
          else name_loop st start name
      | [] \<Rightarrow> name_loop st start name)"

section \<open>Addresses\<close>

text \<open>An element and the elements that contain it, from the inside out.\<close>

partial_function (option) elem_path :: "estate \<Rightarrow> eid \<Rightarrow> eid list option" where
  "elem_path st e =
     (case et_father (el st e) of
        None \<Rightarrow> Some [e]
      | Some f \<Rightarrow> Option.bind (elem_path st f) (\<lambda>es. Some (e # es)))"

text \<open>The entries of \<^verbatim>\<open>offset_array\<close> from the current one on, which starts as \<open>cur\<close>.\<close>

fun addr_offsets :: "estate \<Rightarrow> eid list \<Rightarrow> int \<Rightarrow> int list" where
  "addr_offsets st [] cur = [cur]"
| "addr_offsets st (e # es) cur =
     (let t = el st e
      in if issubsetelem (etype st e) then
           (if isarrayelem (etype st e) then (cur + et_size t * et_index t) # addr_offsets st es (et_offset t)
            else addr_offsets st es (cur + (et_offset t + et_size t * et_index t)))
         else addr_offsets st es (cur + et_offset t))"

fun deref_offsets :: "mem \<Rightarrow> int list \<Rightarrow> nat \<Rightarrow> nat" where
  "deref_offsets m [] a = a"
| "deref_offsets m (off # offs) a =
     (let p = get_ptr m (adr_plus a off) in if p = 0 then 0 else deref_offsets m offs p)"

definition elem_get_addr :: "estate \<Rightarrow> eid \<Rightarrow> nat \<Rightarrow> nat option" where
  "elem_get_addr st e a =
     (case elem_path st e of
        None \<Rightarrow> None
      | Some path \<Rightarrow>
          let offs = addr_offsets st path 0
          in if length offs > 10 then None
             else let p = deref_offsets (es_mem st) (rev (tl offs)) a
                  in Some (if p = 0 \<and> tl offs \<noteq> [] then 0 else adr_plus p (hd offs)))"

fun path_offset :: "estate \<Rightarrow> eid list \<Rightarrow> int" where
  "path_offset st [] = 0"
| "path_offset st (e # es) =
     (let t = el st e
      in (if issubsetelem (etype st e) \<and> ispointerelem (etype st e) then et_offset t + et_size t * et_index t
          else et_offset t) + path_offset st es)"

definition elem_get_offset :: "estate \<Rightarrow> eid \<Rightarrow> int option" where
  "elem_get_offset st e = map_option (path_offset st) (elem_path st e)"

definition is_elem_in_subset :: "estate \<Rightarrow> eid \<Rightarrow> eid \<Rightarrow> bool option" where
  "is_elem_in_subset st e sub =
     (if issubsetelem (etype st sub) then map_option (\<lambda>es. sub \<in> set (tl es)) (elem_path st e)
      else Some False)"

text \<open>Reading a pointer or an integer through an address that may be \<^verbatim>\<open>NULL\<close>.\<close>

definition deref :: "mem \<Rightarrow> nat \<Rightarrow> nat option" where
  "deref m a = (if a = 0 then None else Some (get_ptr m a))"

definition elem_get_defvalue :: "estate \<Rightarrow> eid \<Rightarrow> nat \<Rightarrow> int option" where
  "elem_get_defvalue st e addr =
     (case et_def (el st e) of
        None \<Rightarrow> Some (- EINVAL)
      | Some d \<Rightarrow>
          (case elem_get_ops (etype st d) of
             None \<Rightarrow> Some (- EINVAL)
           | Some ops \<Rightarrow>
               (case elem_get_addr st d addr of
                  None \<Rightarrow> None
                | Some a \<Rightarrow>
                    let sz = et_size (el st d);
                        neg = (\<lambda>v. if v < 0 then - EINVAL else v)
                    in if a = 0 then None
                       else case op_get_int_value ops of
                              Some f \<Rightarrow> map_option neg (f st a d)
                            | None \<Rightarrow>
                                Some (if sz = 4 \<or> sz = 8 then neg (rd_sint (es_mem st) 4 a)
                                      else if sz = 2 then rd_uint (es_mem st) 2 a
                                      else if sz = 1 then rd_uint (es_mem st) 1 a
                                      else - EINVAL))))"

definition elem_get_bin_length :: "estate \<Rightarrow> nat \<Rightarrow> eid \<Rightarrow> nat \<Rightarrow> int option" where
  "elem_get_bin_length st val e addr =
     (let ty = etype st e; t = el st e
      in if ispointerelem ty then
           (if isdefineelem ty then
              (if addr = 0 then Some (- EINVAL)
               else map_option (\<lambda>r. if r < 0 then r else if isarrayelem ty then r * et_size t else r)
                      (elem_get_defvalue st e addr))
            else if isarrayelem ty then
              (case ea_ref (elem_desc t) of
                 RefInt k \<Rightarrow> let r = et_size t * k in Some (if r < 0 \<or> r > 1024 then - EINVAL else r)
               | _ \<Rightarrow> None)
            else if val = 0 then Some 0
            else let r = int (Strnlen (es_mem st) val 1024) in Some (if r < 1024 then r + 1 else r))
         else Some (if get_fixed_elemsize ty < 0 then et_size t else get_fixed_elemsize ty))"

section \<open>Binary values\<close>

definition unit_size :: "estate \<Rightarrow> eid \<Rightarrow> int" where
  "unit_size st e =
     (let u = get_fixed_elemsize (etype st e)
      in if u < 0 then ea_size (elem_desc (el st e)) else if u = 0 then 1 else u)"

text \<open>An element that holds a pointer to its data.\<close>

definition by_pointer :: "elem_type \<Rightarrow> bool" where
  "by_pointer ty \<longleftrightarrow> ispointerelem ty \<or> (isdefineelem ty \<and> isarrayelem ty)"

definition repeat_num :: "estate \<Rightarrow> eid \<Rightarrow> nat \<Rightarrow> int option" where
  "repeat_num st e addr = (if isdefineelem (etype st e) then elem_get_defvalue st e addr else Some (et_size (el st e)))"

text \<open>
  The loops over the units of an array: \<open>k\<close> units from place \<open>i\<close> on, with \<open>off\<close> bytes of data done. The
  result of an operation is added to the offset unchecked. \<open>get\<close> tells the direction of a plain copy.
\<close>

fun op_loop :: "elem_op \<Rightarrow> estate \<Rightarrow> nat \<Rightarrow> int \<Rightarrow> nat \<Rightarrow> int \<Rightarrow> eid \<Rightarrow> nat \<Rightarrow> nat \<Rightarrow> (estate \<times> int) option" where
  "op_loop f st base u data off e i 0 = Some (st, off)"
| "op_loop f st base u data off e i (Suc k) =
     (case f st (adr_plus base (u * int i)) (adr_plus data off) e of
        None \<Rightarrow> None
      | Some (st', r) \<Rightarrow> op_loop f st' base u data (off + r) e (i + 1) k)"

fun copy_loop :: "bool \<Rightarrow> mem \<Rightarrow> nat \<Rightarrow> int \<Rightarrow> nat \<Rightarrow> int \<Rightarrow> nat \<Rightarrow> nat \<Rightarrow> mem \<times> int" where
  "copy_loop get m base u data off i 0 = (m, off)"
| "copy_loop get m base u data off i (Suc k) =
     (let a = adr_plus base (u * int i); d = adr_plus data off
      in copy_loop get (if get then mcpy m d a u else mcpy m a d u) base u data (off + u) (i + 1) k)"

definition elem_get_bin_value :: "estate \<Rightarrow> nat \<Rightarrow> nat \<Rightarrow> eid \<Rightarrow> (estate \<times> int) option" where
  "elem_get_bin_value st addr data e =
     (let ty = etype st e
      in case (elem_get_addr st e addr, elem_get_ops ty) of
           (Some src, Some ops) \<Rightarrow>
             if by_pointer ty then
               (case repeat_num st e addr of
                  None \<Rightarrow> None
                | Some rep \<Rightarrow>
                    let u = unit_size st e
                    in if isdefineelem ty \<and> rep < 0 then Some (st, rep)
                       else if isarrayelem ty then
                         (let st1 = upd_elem e (\<lambda>t. t\<lparr>et_index := 0\<rparr>) st
                          in if rep \<le> 0 then Some (st1, 0)
                             else case deref (es_mem st) src of
                                    None \<Rightarrow> None
                                  | Some base \<Rightarrow>
                                      (case op_get_bin_value ops of
                                         Some f \<Rightarrow> op_loop f st1 base u data 0 e 0 (nat rep)
                                       | None \<Rightarrow>
                                           if base = 0 \<and> u > 0 then None
                                           else let (m, off) = copy_loop True (es_mem st1) base u data 0 0 (nat rep)
                                                in Some (set_mem m st1, off)))
                       else
                         (case deref (es_mem st) src of
                            None \<Rightarrow> None
                          | Some p \<Rightarrow>
                              (case op_get_bin_value ops of
                                 Some f \<Rightarrow> f st p data e
                               | None \<Rightarrow>
                                   (case (case op_get_length ops of Some g \<Rightarrow> g st p e | None \<Rightarrow> Some (u * rep)) of
                                      None \<Rightarrow> None
                                    | Some ret \<Rightarrow>
                                        if ret < 0 \<and> op_get_length ops \<noteq> None then Some (st, ret)
                                        else if ret = 0 then Some (st, 0)
                                        else if p = 0 then None
                                        else Some (set_mem (mcpy (es_mem st) data p ret) st, ret)))))
             else
               (case (if isdefineelem ty then elem_get_defvalue st e addr else Some 0) of
                  None \<Rightarrow> None
                | Some def_value \<Rightarrow>
                    if def_value < 0 then Some (st, def_value)
                    else
                      let st1 = (if isdefineelem ty then upd_elem e (\<lambda>t. t\<lparr>et_index := def_value\<rparr>) st else st)
                      in if src = 0 then None
                         else case op_get_bin_value ops of
                                Some f \<Rightarrow> f st1 src data e
                              | None \<Rightarrow>
                                  (case elem_get_bin_length st1 (get_ptr (es_mem st) src) e addr of
                                     None \<Rightarrow> None
                                   | Some ret \<Rightarrow>
                                       if ret < 0 then Some (st1, ret)
                                       else Some (set_mem (mcpy (es_mem st) data src ret) st1, ret)))
         | _ \<Rightarrow> None)"

definition elem_set_bin_value :: "estate \<Rightarrow> nat \<Rightarrow> nat \<Rightarrow> eid \<Rightarrow> (estate \<times> int) option" where
  "elem_set_bin_value st addr data e =
     (let ty = etype st e
      in case (elem_get_addr st e addr, elem_get_ops ty) of
           (Some src, Some ops) \<Rightarrow>
             if by_pointer ty then
               (case repeat_num st e addr of
                  None \<Rightarrow> None
                | Some rep \<Rightarrow>
                    let u = unit_size st e
                    in if isdefineelem ty \<and> rep < 0 then Some (st, rep)
                       else if isarrayelem ty then
                         (if src = 0 then None else case dalloc0 (rep * u) src st of
                            (st1, None) \<Rightarrow> Some (set_mem (put_ptr (es_mem st1) src 0) st1, - ENOMEM)
                          | (st1, Some base) \<Rightarrow>
                              let st2 = upd_elem e (\<lambda>t. t\<lparr>et_index := 0\<rparr>) (set_mem (put_ptr (es_mem st1) src base) st1)
                              in case op_set_bin_value ops of
                                   Some f \<Rightarrow> op_loop f st2 base u data 0 e 0 (nat rep)
                                 | None \<Rightarrow>
                                     let (m, off) = copy_loop False (es_mem st2) base u data 0 0 (nat rep)
                                     in Some (set_mem m st2, off))
                       else
                         (case op_set_bin_value ops of
                            Some f \<Rightarrow> if src = 0 then None else f st (get_ptr (es_mem st) src) data e
                          | None \<Rightarrow>
                              (case (case op_get_length ops of Some g \<Rightarrow> g st data e | None \<Rightarrow> Some (u * rep)) of
                                 None \<Rightarrow> None
                               | Some ret \<Rightarrow>
                                   if ret < 0 \<and> op_get_length ops \<noteq> None then Some (st, ret)
                                   else if ret = 0 then Some (st, 0)
                                   else if src = 0 then None
                                   else case dalloc0 ret addr st of
                                          (st1, None) \<Rightarrow> Some (set_mem (put_ptr (es_mem st1) src 0) st1, - ENOMEM)
                                        | (st1, Some p) \<Rightarrow>
                                            Some (set_mem (mcpy (put_ptr (es_mem st1) src p) p data ret) st1, ret))))
             else
               (case (if isdefineelem ty then elem_get_defvalue st e addr else Some 0) of
                  None \<Rightarrow> None
                | Some def_value \<Rightarrow>
                    if def_value < 0 then Some (st, def_value)
                    else
                      let st1 = (if isdefineelem ty then upd_elem e (\<lambda>t. t\<lparr>et_index := def_value\<rparr>) st else st)
                      in if src = 0 then None
                         else case op_set_bin_value ops of
                                Some f \<Rightarrow> f st1 src data e
                              | None \<Rightarrow>
                                  (case elem_get_bin_length st1 (get_ptr (es_mem st) src) e addr of
                                     None \<Rightarrow> None
                                   | Some ret \<Rightarrow>
                                       if ret < 0 then Some (st1, ret)
                                       else Some (set_mem (mcpy (es_mem st) src data ret) st1, ret)))
         | _ \<Rightarrow> None)"

section \<open>Cloning and comparing\<close>

definition elem_clone_value :: "estate \<Rightarrow> nat \<Rightarrow> nat \<Rightarrow> eid \<Rightarrow> (estate \<times> int) option" where
  "elem_clone_value st addr clone e =
     (let ty = etype st e
      in case (elem_get_addr st e addr, elem_get_addr st e clone) of
           (Some src, Some dst) \<Rightarrow>
             if by_pointer ty then
               (let u = unit_size st e;
                    p = get_ptr (es_mem st) src;
                    cp = (\<lambda>ret. if src = 0 \<or> dst = 0 then None else case dalloc0 ret dst st of
                                  (st1, None) \<Rightarrow> Some (set_mem (put_ptr (es_mem st1) dst 0) st1, - ENOMEM)
                                | (st1, Some q) \<Rightarrow>
                                    if p = 0 \<and> ret > 0 then None
                                    else Some (set_mem (mcpy (put_ptr (es_mem st1) dst q) q p ret) st1, ret))
                in if isdefineelem ty then
                     (case elem_get_defvalue st e addr of
                        None \<Rightarrow> None
                      | Some d \<Rightarrow> if d < 0 then Some (st, d) else cp (u * d))
                   else if isarrayelem ty then cp (u * et_size (el st e))
                   else if src = 0 then None
                   else
                     (case elem_get_bin_length st p e addr of
                        None \<Rightarrow> None
                      | Some ret \<Rightarrow> if ret < 0 then Some (st, ret) else cp ret))
             else if src = 0 then None
             else
               (case elem_get_bin_length st (get_ptr (es_mem st) src) e addr of
                  None \<Rightarrow> None
                | Some ret \<Rightarrow>
                    if ret < 0 then Some (st, ret)
                    else if dst = 0 \<and> ret > 0 then None
                    else Some (set_mem (mcpy (es_mem st) dst src ret) st, ret))
         | _ \<Rightarrow> None)"

text \<open>
  No table of operations has a \<^verbatim>\<open>comp_elem\<close>, so \<open>_elem_process_func\<close> always calls \<open>_elem_compare_deffunc\<close>.
\<close>

definition elem_compare_deffunc :: "estate \<Rightarrow> nat \<Rightarrow> nat \<Rightarrow> eid \<Rightarrow> int option" where
  "elem_compare_deffunc st addr dest e =
     (let ty = etype st e
      in case (elem_get_addr st e addr, elem_get_addr st e dest) of
           (Some src, Some dst) \<Rightarrow>
             if src = 0 then None
             else
               (case elem_get_bin_length st (get_ptr (es_mem st) src) e addr of
                  None \<Rightarrow> None
                | Some ret \<Rightarrow>
                    if ret < 0 then Some ret
                    else if dst = 0 then None
                    else if by_pointer ty then
                      (let p = get_ptr (es_mem st) src; q = get_ptr (es_mem st) dst
                       in if p = 0 \<or> q = 0 then None else Some (Strncmp (es_mem st) p q 1024))
                    else Some (Memcmp (es_mem st) dst src (word_of_int ret)))
         | _ \<Rightarrow> None)"

definition elem_compare_value :: "estate \<Rightarrow> nat \<Rightarrow> nat \<Rightarrow> eid \<Rightarrow> int option" where
  "elem_compare_value st addr clone e =
     (case elem_get_ops (etype st e) of None \<Rightarrow> None | Some ops \<Rightarrow> elem_compare_deffunc st addr clone e)"

section \<open>References\<close>

definition elem_get_ref :: "estate \<Rightarrow> eid option \<Rightarrow> elem_ref" where
  "elem_get_ref st e =
     (case e of
        None \<Rightarrow> ERefNull
      | Some x \<Rightarrow> if et_ref (el st x) \<noteq> ERefNull then et_ref (el st x)
                  else (case ea_ref (elem_desc (el st x)) of RefNull \<Rightarrow> ERefNull | r \<Rightarrow> ERefAttr r))"

definition elem_set_ref :: "estate \<Rightarrow> eid option \<Rightarrow> elem_ref \<Rightarrow> estate \<times> int" where
  "elem_set_ref st e r =
     (case e of None \<Rightarrow> (st, - EINVAL) | Some x \<Rightarrow> (upd_elem x (\<lambda>t. t\<lparr>et_ref := r\<rparr>) st, 0))"

definition struct_get_ref :: "estate \<Rightarrow> nat \<Rightarrow> byte list \<Rightarrow> elem_ref option" where
  "struct_get_ref st n name = map_option (elem_get_ref st) (get_elem_by_name st n name)"

definition struct_set_ref :: "estate \<Rightarrow> nat \<Rightarrow> byte list \<Rightarrow> elem_ref \<Rightarrow> (estate \<times> int) option" where
  "struct_set_ref st n name r = map_option (\<lambda>e. elem_set_ref st e r) (get_elem_by_name st n name)"

end
