(* ===== verification/Cube_Struct_Deal.thy ===== *)
theory Cube_Struct_Deal
  imports Cube_Struct_Elem
begin

text \<open>
  \<^verbatim>\<open>cubelib/struct_mod/struct_deal.c\<close>: the walk over a template that every conversion shares, and the
  operations built on it: creating and cloning templates, converting a structure to a blob and
  back, cloning and comparing structures, single elements, and the flags of the elements. The
  callbacks of a walk work on the state and on the parameter block of the operation.
\<close>

section \<open>The walk over a template\<close>

type_synonym 'p cb = "eid \<Rightarrow> estate \<times> 'p \<Rightarrow> ((estate \<times> 'p) \<times> int) option"
type_synonym 'p root_cb = "nat \<Rightarrow> estate \<times> 'p \<Rightarrow> ((estate \<times> 'p) \<times> int) option"

record 'p struct_deal_ops =
  dop_start :: "'p root_cb option"
  dop_testelem :: "'p cb option"
  dop_enterstruct :: "'p cb option"
  dop_exitstruct :: "'p cb option"
  dop_proc_func :: "'p cb"
  dop_finish :: "'p root_cb option"

text \<open>A round goes on at a node, leaves the loop, returns a code, or has no result.\<close>

datatype 'p fround = FNext nat "estate \<times> 'p" | FBreak "estate \<times> 'p" | FRet "estate \<times> 'p" int | FFault

definition call_cb :: "'p cb option \<Rightarrow> eid \<Rightarrow> estate \<times> 'p \<Rightarrow> ((estate \<times> 'p) \<times> int) option" where
  "call_cb f e s = (case f of None \<Rightarrow> Some (s, 0) | Some g \<Rightarrow> g e s)"

definition on_st :: "(estate \<Rightarrow> estate) \<Rightarrow> estate \<times> 'p \<Rightarrow> estate \<times> 'p" where
  "on_st f s = (f (fst s), snd s)"

definition next_elem :: "nat \<Rightarrow> estate \<Rightarrow> estate" where
  "next_elem n = upd_snode n (\<lambda>d. d\<lparr>temp_var := temp_var d + 1\<rparr>)"

definition curr_eid :: "nat \<Rightarrow> estate \<Rightarrow> eid" where
  "curr_eid n st = (n, nat (temp_var (es_node st n)))"

text \<open>All elements of the node \<open>n\<close> are done: back to its parent.\<close>

definition frame_leave :: "'p struct_deal_ops \<Rightarrow> nat \<Rightarrow> estate \<times> 'p \<Rightarrow> 'p fround" where
  "frame_leave funcs n s =
     (case sn_parent (es_node (fst s) n) of
        None \<Rightarrow> FFault
      | Some p \<Rightarrow>
          let e = curr_eid p (fst s);
              s1 = on_st (upd_elem e (\<lambda>t. t\<lparr>et_index := et_index t + 1\<rparr>)) s
          in case call_cb (dop_exitstruct funcs) e s1 of
               None \<Rightarrow> FFault
             | Some (s2, r) \<Rightarrow>
                 if r < 0 then FRet s2 r
                 else if issubsetelem (etype (fst s2) e) then
                   (if et_index (el (fst s2) e) \<ge> et_limit (el (fst s2) e)
                    then FNext p (on_st (next_elem p \<circ> upd_elem e (\<lambda>t. t\<lparr>et_limit := 0, et_index := 0\<rparr>)) s2)
                    else FNext p s2)
                 else FRet s2 (- EINVAL))"

definition frame_elem :: "'p struct_deal_ops \<Rightarrow> nat \<Rightarrow> eid \<Rightarrow> estate \<times> 'p \<Rightarrow> 'p fround" where
  "frame_elem funcs n e s =
     (if issubsetelem (etype (fst s) e) then
        (case call_cb (dop_enterstruct funcs) e s of
           None \<Rightarrow> FFault
         | Some (s1, r) \<Rightarrow>
             if r < 0 then FRet s1 r
             else if isarrayelem (etype (fst s1) e) \<and> et_limit (el (fst s1) e) = 0 then
               (case call_cb (dop_exitstruct funcs) e s1 of
                  None \<Rightarrow> FFault
                | Some (s2, r2) \<Rightarrow> if r2 < 0 then FRet s2 r2 else FNext n (on_st (next_elem n) s2))
             else
               (case et_ref (el (fst s1) e) of
                  ERefNode q \<Rightarrow> FNext q (on_st (upd_snode q (\<lambda>d. d\<lparr>temp_var := 0\<rparr>)) s1)
                | _ \<Rightarrow> FFault))
      else
        (case elem_get_ops (etype (fst s) e) of
           None \<Rightarrow> FRet s (- EINVAL)
         | Some ops \<Rightarrow>
             (case dop_proc_func funcs e s of
                None \<Rightarrow> FFault
              | Some (s1, r) \<Rightarrow> if r < 0 then FRet s1 r else FNext n (on_st (next_elem n) s1))))"

definition frame_round :: "'p struct_deal_ops \<Rightarrow> nat \<Rightarrow> nat \<Rightarrow> estate \<times> 'p \<Rightarrow> 'p fround" where
  "frame_round funcs root n s =
     (let d = es_node (fst s) n
      in if temp_var d > sn_elem_no d then FBreak s
         else if temp_var d = sn_elem_no d then (if n = root then FBreak s else frame_leave funcs n s)
         else
           let e = curr_eid n (fst s)
           in case dop_testelem funcs of
                None \<Rightarrow> frame_elem funcs n e s
              | Some t \<Rightarrow>
                  (case t e s of
                     None \<Rightarrow> FFault
                   | Some (s1, r) \<Rightarrow>
                       if r = 0 then FNext n (on_st (next_elem n) s1) else frame_elem funcs n e s1))"

text \<open>
  The loop: \<open>Some None\<close> is a fault, \<open>Some (Some (s, r))\<close> the result \<open>r\<close>, \<open>None\<close> a walk that never ends.
\<close>

partial_function (option) frame_loop ::
  "'p struct_deal_ops \<Rightarrow> nat \<Rightarrow> nat \<Rightarrow> estate \<times> 'p \<Rightarrow> ((estate \<times> 'p) \<times> int) option option" where
  "frame_loop funcs root n s =
     (case frame_round funcs root n s of
        FNext n' s' \<Rightarrow> frame_loop funcs root n' s'
      | FBreak s' \<Rightarrow>
          Some (case dop_finish funcs of None \<Rightarrow> Some (s', 0) | Some f \<Rightarrow> f root s')
      | FRet s' r \<Rightarrow> Some (Some (s', r))
      | FFault \<Rightarrow> Some None)"

definition convert_frame_func ::
  "'p struct_deal_ops \<Rightarrow> nat \<Rightarrow> estate \<times> 'p \<Rightarrow> ((estate \<times> 'p) \<times> int) option option" where
  "convert_frame_func funcs root s =
     (let s1 = on_st (upd_snode root (\<lambda>d. d\<lparr>temp_var := 0\<rparr>)) s
      in case dop_start funcs of
           None \<Rightarrow> frame_loop funcs root root s1
         | Some f \<Rightarrow>
             (case f root s1 of
                None \<Rightarrow> Some None
              | Some (s2, r) \<Rightarrow> if r < 0 then Some (Some (s2, r)) else frame_loop funcs root root s2))"

section \<open>Creating a template\<close>

text \<open>\<^verbatim>\<open>_namevalue_2_namelist\<close>: at most 1023 named values; \<open>None\<close> where \<open>Salloc0\<close> writes through \<^verbatim>\<open>NULL\<close>.\<close>

definition namevalue_2_namelist :: "attr_ref \<Rightarrow> estate \<Rightarrow> (estate \<times> elem_ref) option" where
  "namevalue_2_namelist r st =
     (let (st1, ok) = talloc_ok st
      in if \<not> ok then None
         else case r of
                RefNull \<Rightarrow> Some (st1, ERefNames None)
              | RefNames xs \<Rightarrow> Some (st1, if length xs < 1024 then ERefNames (Some xs) else ERefNull)
              | _ \<Rightarrow> None)"

record create_para =
  cp_offset :: int
  cp_curr_offset :: int
  cp_curr_node :: nat
  cp_parent_elem :: "eid option"

definition empty_elem :: elem_template where
  "empty_elem = \<lparr>elem_desc = ELEM_ATTR None CUBE_TYPE_NODATA 0 RefNull None, et_offset = 0, et_size = 0,
     et_tempsize = 0, et_ref = ERefNull, et_def = None, et_flag = 0, et_index = 0, et_limit = 0, et_father = None\<rparr>"

definition empty_snode :: struct_node where
  "empty_snode = \<lparr>sn_parent = None, sn_offset = 0, sn_size = 0, sn_elem_no = 0, sn_flag = 0, struct_desc = [],
     elem_list = [], temp_var = 0, reentry_count = 0\<rparr>"

definition sub_desc :: "elem_attr \<Rightarrow> elem_attr list" where
  "sub_desc d = (case ea_ref d of RefStruct ds \<Rightarrow> ds | _ \<Rightarrow> [])"

text \<open>The new node of the sub-structure of element \<open>(n, i)\<close>, whose description is \<open>d\<close>.\<close>

definition new_subnode :: "nat \<Rightarrow> nat \<Rightarrow> elem_attr \<Rightarrow> estate \<Rightarrow> estate" where
  "new_subnode n i d st =
     (let q = es_next st
      in upd_elem (n, i) (\<lambda>t. t\<lparr>et_ref := ERefNode q\<rparr>)
           (st\<lparr>es_next := q + 1,
               es_node := (es_node st)(q := empty_snode\<lparr>struct_desc := sub_desc d, sn_parent := Some n\<rparr>)\<rparr>))"

text \<open>
  The loop that prepares \<open>k\<close> elements of the node \<open>n\<close> from place \<open>i\<close> on; \<open>fat\<close> is the father the elements
  get, if any. \<open>False\<close> is the return for want of memory.
\<close>

fun prep_loop :: "nat \<Rightarrow> eid option \<Rightarrow> nat \<Rightarrow> nat \<Rightarrow> estate \<Rightarrow> estate \<times> bool" where
  "prep_loop n fat i 0 st = (st, True)"
| "prep_loop n fat i (Suc k) st =
     (let d = struct_desc (es_node st n) ! i;
          st1 = upd_elem (n, i) (\<lambda>t. t\<lparr>elem_desc := d, et_father := fat\<rparr>) st
      in if issubsetelem (ea_type d) then
           (let (st2, ok) = talloc_ok st1
            in if \<not> ok then (st2, False) else prep_loop n fat (i + 1) k (new_subnode n i d st2))
         else prep_loop n fat (i + 1) k st1)"

definition prep_node :: "nat \<Rightarrow> eid option \<Rightarrow> nat \<Rightarrow> estate \<Rightarrow> estate \<times> bool" where
  "prep_node n fat elem_no st =
     (let st1 = upd_snode n (\<lambda>d. d\<lparr>sn_elem_no := int elem_no\<rparr>) st;
          (st2, ok) = talloc_ok st1
      in if \<not> ok then (st2, False)
         else prep_loop n fat 0 elem_no (upd_snode n (\<lambda>d. d\<lparr>elem_list := replicate elem_no empty_elem\<rparr>) st2))"

definition create_template_start :: "create_para root_cb" where
  "create_template_start root s =
     (let (st, para) = s;
          para1 = para\<lparr>cp_offset := 0, cp_curr_offset := 0, cp_parent_elem := None, cp_curr_node := root\<rparr>;
          st1 = upd_snode root (\<lambda>d. d\<lparr>reentry_count := reentry_count d + 1\<rparr>) st;
          (st2, ok) = prep_node root None (count_struct_num (struct_desc (es_node st root))) st1
      in Some ((st2, para1), if ok then 0 else - ENOMEM))"

definition create_template_enterstruct :: "create_para cb" where
  "create_template_enterstruct e s =
     (let (st, para) = s; d = elem_desc (el st e)
      in case (et_ref (el st e), ea_ref d) of
           (ERefNode n, RefStruct ds) \<Rightarrow>
             (let (st1, ok) = prep_node n None (count_struct_num (struct_desc (es_node st n))) st
              in if \<not> ok then Some ((st1, para), - ENOMEM)
                 else
                   let st2 = upd_elem e (\<lambda>t. t\<lparr>et_offset := cp_curr_offset para,
                               et_father := (case et_father t of None \<Rightarrow> cp_parent_elem para | f \<Rightarrow> f),
                               et_limit := (if \<not> isarrayelem (ea_type d) \<and> ea_size d > 0 then ea_size d else 1)\<rparr>) st1
                   in Some ((st2, para\<lparr>cp_parent_elem := Some e, cp_curr_offset := 0\<rparr>), 0))
         | _ \<Rightarrow> None)"

text \<open>The element that defines a length: \<open>Some None\<close> is the error return.\<close>

definition define_elem :: "estate \<Rightarrow> nat \<Rightarrow> eid \<Rightarrow> eid option option" where
  "define_elem st n e =
     (case ea_def (elem_desc (el st e)) of
        None \<Rightarrow> None
      | Some name \<Rightarrow>
          (case get_elem_by_name st n name of
             None \<Rightarrow> None
           | Some None \<Rightarrow> Some None
           | Some (Some x) \<Rightarrow> if isvalidvalue (etype st x) then Some (Some x) else Some None))"

definition create_template_exitstruct :: "create_para cb" where
  "create_template_exitstruct e s =
     (let (st, para) = s; t = el st e; ty = etype st e;
          leave = (\<lambda>st1 off. Some ((upd_elem e (\<lambda>t. t\<lparr>et_index := et_limit t\<rparr>) st1,
                      para\<lparr>cp_curr_offset := off, cp_parent_elem := et_father t\<rparr>), 0))
      in if isarrayelem ty then
           (let fin = (\<lambda>st1. leave (upd_elem e (\<lambda>t. t\<lparr>et_size := cp_curr_offset para, et_limit := 0\<rparr>) st1)
                                   (et_offset t + 8))
            in if isdefineelem ty then
                 (case define_elem st (cp_curr_node para) e of
                    None \<Rightarrow> None
                  | Some None \<Rightarrow> Some (s, - EINVAL)
                  | Some (Some x) \<Rightarrow> fin (upd_elem e (\<lambda>t. t\<lparr>et_def := Some x\<rparr>) st))
               else fin st)
         else
           (let limit = (if ea_size (elem_desc t) = 0 then 1 else ea_size (elem_desc t))
            in leave (upd_elem e (\<lambda>t. t\<lparr>et_size := cp_curr_offset para, et_limit := limit\<rparr>) st)
                     (et_offset t + cp_curr_offset para * limit)))"

definition create_template_proc_func :: "create_para cb" where
  "create_template_proc_func e s =
     (let (st, para) = s; d = elem_desc (el st e); ty = ea_type d;
          place = (\<lambda>st1 sz.
             let st2 = upd_elem e (\<lambda>t. t\<lparr>et_offset := cp_curr_offset para, et_size := sz\<rparr>) st1;
                 para2 = para\<lparr>cp_curr_offset := cp_curr_offset para + sz\<rparr>;
                 named = (if isnamelistelem ty then
                            (case namevalue_2_namelist (ea_ref d) st2 of
                               None \<Rightarrow> None
                             | Some (st3, r) \<Rightarrow> Some (upd_elem e (\<lambda>t. t\<lparr>et_ref := r\<rparr>) st3))
                          else Some st2)
             in map_option (\<lambda>st3. ((upd_elem e (\<lambda>t. t\<lparr>et_father := cp_parent_elem para\<rparr>) st3, para2), 0 :: int)) named)
      in if isdefineelem ty then
           (case (case cp_parent_elem para of
                    None \<Rightarrow> Some (cp_curr_node para)
                  | Some f \<Rightarrow> (case et_ref (el st f) of ERefNode n \<Rightarrow> Some n | _ \<Rightarrow> None)) of
              None \<Rightarrow> None
            | Some n \<Rightarrow>
                (case define_elem st n e of
                   None \<Rightarrow> None
                 | Some None \<Rightarrow> Some (s, - EINVAL)
                 | Some (Some x) \<Rightarrow>
                     let st1 = upd_elem e (\<lambda>t. t\<lparr>et_def := Some x, et_offset := cp_curr_offset para\<rparr>) st;
                         sz = (if ispointerelem ty \<or> isarrayelem ty then 8 else get_fixed_elemsize ty)
                     in if sz < 0 then Some ((upd_elem e (\<lambda>t. t\<lparr>et_size := sz\<rparr>) st1, para), - EINVAL)
                        else place st1 sz))
         else
           place (upd_elem e (\<lambda>t. t\<lparr>et_ref := (case ea_ref d of RefNull \<Rightarrow> ERefNull | r \<Rightarrow> ERefAttr r)\<rparr>) st)
             (if ispointerelem ty \<or> isarrayelem ty then 8
              else if get_fixed_elemsize ty < 0 then ea_size d else get_fixed_elemsize ty))"

definition create_template_finish :: "create_para root_cb" where
  "create_template_finish root s =
     Some (on_st (upd_snode root (\<lambda>d. d\<lparr>reentry_count := reentry_count d - 1\<rparr>)) s, 0)"

definition create_template_ops :: "create_para struct_deal_ops" where
  "create_template_ops = \<lparr>dop_start = Some create_template_start, dop_testelem = None,
     dop_enterstruct = Some create_template_enterstruct, dop_exitstruct = Some create_template_exitstruct,
     dop_proc_func = create_template_proc_func, dop_finish = Some create_template_finish\<rparr>"

text \<open>
  The result is the root node, or \<open>None\<close> for \<^verbatim>\<open>NULL\<close>. Where the parameter block cannot be allocated the
  code returns the invalid pointer \<^verbatim>\<open>-ENOMEM\<close>; that and a fault have no result.
\<close>

definition create_struct_template :: "estate \<Rightarrow> elem_attr list \<Rightarrow> (estate \<times> nat option) option" where
  "create_struct_template st desc =
     (let (st1, ok) = talloc_ok st
      in if \<not> ok then Some (st1, None)
         else
           let root = es_next st1;
               st2 = st1\<lparr>es_next := root + 1, es_node := (es_node st1)(root := empty_snode\<lparr>struct_desc := desc\<rparr>)\<rparr>;
               (st3, ok2) = talloc_ok st2
           in if \<not> ok2 then None
              else case convert_frame_func create_template_ops root
                          (st3, \<lparr>cp_offset = 0, cp_curr_offset = 0, cp_curr_node = 0, cp_parent_elem = None\<rparr>) of
                     Some (Some ((st4, para), r)) \<Rightarrow> Some (st4, if r < 0 then None else Some root)
                   | _ \<Rightarrow> None)"

text \<open>The size of the described structure, from its last element; \<open>None\<close> for an empty template.\<close>

definition struct_size :: "estate \<Rightarrow> nat \<Rightarrow> int option" where
  "struct_size st root =
     (let d = es_node st root
      in if sn_elem_no d \<le> 0 then None
         else
           let t = elem_list d ! nat (sn_elem_no d - 1); k = ea_size (elem_desc t)
           in Some (if ea_type (elem_desc t) = CUBE_TYPE_SUBSTRUCT
                    then (if k = 0 then et_offset t + et_size t else et_offset t + et_size t * k)
                    else et_offset t + et_size t))"

end
