(* ===== verification/Cube_Struct_Convert.thy ===== *)
theory Cube_Struct_Convert
  imports Cube_Struct_Deal
begin

text \<open>
  The conversions of \<^verbatim>\<open>cubelib/struct_mod/struct_deal.c\<close> that run on a finished template: structure to blob and
  back, cloning, comparing, whole or only the elements with a flag; reading and
  writing single elements; the flags themselves; and cloning a template.
\<close>

section \<open>Cloning a template\<close>

record clone_para =
  cl_offset :: int
  cl_curr_offset :: int
  cl_clone_node :: nat
  cl_source_node :: nat
  cl_parent_elem :: "eid option"

definition clone_template_start :: "clone_para root_cb" where
  "clone_template_start root s =
     (let (st, para) = s; cn = cl_clone_node para; sn = cl_source_node para;
          st1 = upd_snode sn (\<lambda>d. d\<lparr>reentry_count := reentry_count d + 1\<rparr>) st;
          src = es_node st1 sn;
          st2 = upd_snode cn (\<lambda>d. d\<lparr>struct_desc := struct_desc src\<rparr>) st1;
          (st3, ok) = prep_node cn None (nat (sn_elem_no src)) st2
      in Some ((if ok then upd_snode cn (\<lambda>d. d\<lparr>sn_offset := sn_offset src, sn_size := sn_size src, sn_flag := sn_flag src\<rparr>) st3
                else st3,
                para\<lparr>cl_offset := 0, cl_curr_offset := 0, cl_parent_elem := None\<rparr>),
               if ok then 0 else - ENOMEM))"

definition clone_template_enterstruct :: "clone_para cb" where
  "clone_template_enterstruct e s =
     (let (st, para) = s; up = cl_clone_node para; i = nat (temp_var (es_node st up));
          src_elem = (cl_source_node para, i)
      in case (et_ref (el st e), et_ref (el st src_elem)) of
           (ERefNode cn, ERefNode sn) \<Rightarrow>
             (let para1 = para\<lparr>cl_parent_elem := Some (up, i), cl_clone_node := cn, cl_source_node := sn\<rparr>;
                  src = es_node st sn;
                  st1 = upd_snode cn (\<lambda>d. d\<lparr>sn_parent := Some up, temp_var := 0\<rparr>) st;
                  (st2, ok) = prep_node cn (Some (up, i)) (nat (sn_elem_no src)) st1
              in if \<not> ok then Some ((st2, para1), - ENOMEM)
                 else Some ((upd_snode cn (\<lambda>d. d\<lparr>sn_offset := sn_offset src, sn_size := sn_size src,
                               sn_flag := sn_flag src\<rparr>) st2, para1), 0))
         | _ \<Rightarrow> None)"

definition clone_template_exitstruct :: "clone_para cb" where
  "clone_template_exitstruct e s =
     (let (st, para) = s
      in case (sn_parent (es_node st (cl_clone_node para)), sn_parent (es_node st (cl_source_node para)), cl_parent_elem para) of
           (Some cn, Some sn, Some f) \<Rightarrow>
             Some ((st, para\<lparr>cl_clone_node := cn, cl_source_node := sn, cl_parent_elem := et_father (el st f)\<rparr>), 0)
         | _ \<Rightarrow> None)"

definition clone_template_proc_func :: "clone_para cb" where
  "clone_template_proc_func e s =
     (let (st, para) = s;
          src = el st (cl_source_node para, nat (temp_var (es_node st (cl_clone_node para))));
          st1 = upd_elem e (\<lambda>t. t\<lparr>et_offset := et_offset src, et_size := et_size src, et_flag := et_flag src,
                  et_index := et_index src, et_limit := et_index src, et_ref := et_ref src\<rparr>) st
      in if isdefineelem (etype st1 e) then
           (case define_elem st1 (cl_clone_node para) e of
              None \<Rightarrow> None
            | Some None \<Rightarrow> Some ((st1, para), - EINVAL)
            | Some (Some x) \<Rightarrow> Some ((upd_elem e (\<lambda>t. t\<lparr>et_def := Some x\<rparr>) st1, para), 0))
         else Some ((st1, para), 0))"

definition clone_template_finish :: "clone_para root_cb" where
  "clone_template_finish root s =
     Some (on_st (upd_snode (cl_source_node (snd s)) (\<lambda>d. d\<lparr>reentry_count := reentry_count d - 1\<rparr>)) s, 0)"

definition clone_template_ops :: "clone_para struct_deal_ops" where
  "clone_template_ops = \<lparr>dop_start = Some clone_template_start, dop_testelem = None,
     dop_enterstruct = Some clone_template_enterstruct, dop_exitstruct = Some clone_template_exitstruct,
     dop_proc_func = clone_template_proc_func, dop_finish = Some clone_template_finish\<rparr>"

text \<open>The parameter block is used without a test: no result if it cannot be allocated.\<close>

definition clone_struct_template :: "estate \<Rightarrow> nat \<Rightarrow> (estate \<times> nat option) option" where
  "clone_struct_template st tmpl =
     (let (st1, ok) = talloc_ok st; (st2, ok2) = talloc_ok st1
      in if \<not> ok2 then Some (st2, None)
         else if \<not> ok then None
         else
           let root = es_next st2;
               st3 = st2\<lparr>es_next := root + 1,
                         es_node := (es_node st2)(root := empty_snode\<lparr>struct_desc := struct_desc (es_node st2 tmpl)\<rparr>)\<rparr>
           in case convert_frame_func clone_template_ops root
                     (st3, \<lparr>cl_offset = 0, cl_curr_offset = 0, cl_clone_node = root, cl_source_node = tmpl,
                            cl_parent_elem = None\<rparr>) of
                Some (Some ((st4, para), r)) \<Rightarrow> Some (st4, if r < 0 then None else Some root)
              | _ \<Rightarrow> None)"

section \<open>Structure and blob\<close>

text \<open>\<^verbatim>\<open>struct default_para\<close> and \<^verbatim>\<open>struct part_deal_para\<close>, which starts with the same member.\<close>

record deal_para =
  dp_offset :: int
  dp_flag :: u32

definition set_limit :: "eid \<Rightarrow> int \<Rightarrow> estate \<Rightarrow> estate" where
  "set_limit e k = upd_elem e (\<lambda>t. t\<lparr>et_index := 0, et_limit := k\<rparr>)"

definition desc_limit :: "estate \<Rightarrow> eid \<Rightarrow> int" where
  "desc_limit st e = (let k = ea_size (elem_desc (el st e)) in if k = 0 then 1 else k)"

definition struct_2_blob_enterstruct :: "nat \<Rightarrow> deal_para cb" where
  "struct_2_blob_enterstruct addr e s =
     (let (st, para) = s
      in if et_limit (el st e) = 0 then
           (if isdefineelem (etype st e)
            then map_option (\<lambda>k. ((set_limit e k st, para), 0)) (elem_get_defvalue (set_limit e 0 st) e addr)
            else Some ((set_limit e (desc_limit st e) st, para), 0))
         else Some (s, 0))"

definition struct_2_blob_exitstruct :: "deal_para cb" where
  "struct_2_blob_exitstruct e s = Some (s, 0)"

definition proc_struct_2_blob :: "nat \<Rightarrow> nat \<Rightarrow> deal_para cb" where
  "proc_struct_2_blob addr blob e s =
     (let (st, para) = s
      in map_option (\<lambda>(st1, r). ((st1, if r \<ge> 0 then para\<lparr>dp_offset := dp_offset para + r\<rparr> else para), r))
           (elem_get_bin_value st addr (adr_plus blob (dp_offset para)) e))"

definition part_deal_test :: "deal_para cb" where
  "part_deal_test e s = Some (s, uint (et_flag (el (fst s) e) AND dp_flag (snd s)))"

text \<open>
  The common body of the conversions: \<open>test\<close> tells whether only flagged elements are taken, \<open>checked\<close>
  whether the allocation of the parameter block is tested. The result is the return code.
\<close>

definition run_deal :: "deal_para struct_deal_ops \<Rightarrow> bool \<Rightarrow> nat \<Rightarrow> u32 \<Rightarrow> estate \<Rightarrow> (estate \<times> int) option option" where
  "run_deal funcs checked root flag st =
     (let (st1, ok) = talloc_ok st
      in if \<not> ok then (if checked then Some (Some (st1, - ENOMEM)) else Some None)
         else
           case convert_frame_func funcs root (st1, \<lparr>dp_offset = 0, dp_flag = flag\<rparr>) of
             None \<Rightarrow> None
           | Some None \<Rightarrow> Some None
           | Some (Some ((st2, para), r)) \<Rightarrow> Some (Some (st2, if r < 0 then r else dp_offset para)))"

definition struct_2_blob_ops :: "nat \<Rightarrow> nat \<Rightarrow> bool \<Rightarrow> deal_para struct_deal_ops" where
  "struct_2_blob_ops addr blob test = \<lparr>dop_start = None, dop_testelem = (if test then Some part_deal_test else None),
     dop_enterstruct = Some (struct_2_blob_enterstruct addr), dop_exitstruct = Some struct_2_blob_exitstruct,
     dop_proc_func = proc_struct_2_blob addr blob, dop_finish = None\<rparr>"

definition struct_2_blob :: "estate \<Rightarrow> nat \<Rightarrow> nat \<Rightarrow> nat \<Rightarrow> (estate \<times> int) option option" where
  "struct_2_blob st addr blob tmpl = run_deal (struct_2_blob_ops addr blob False) True tmpl 0 st"

definition struct_2_part_blob :: "estate \<Rightarrow> nat \<Rightarrow> nat \<Rightarrow> nat \<Rightarrow> u32 \<Rightarrow> (estate \<times> int) option option" where
  "struct_2_part_blob st addr blob tmpl flag = run_deal (struct_2_blob_ops addr blob True) True tmpl flag st"

text \<open>
  \<open>blob_2_struct_enterstruct\<close> and \<open>clone_struct_enterstruct\<close>, entering a structure of the target \<open>addr\<close>: the
  number of its repetitions is fixed, and an array gets its memory.
\<close>

definition alloc_enterstruct :: "nat \<Rightarrow> deal_para cb" where
  "alloc_enterstruct addr e s =
     (let (st, para) = s
      in if et_limit (el st e) = 0 then
           (if isarrayelem (etype st e) then
              (case (if isdefineelem (etype st e) then elem_get_defvalue (set_limit e 0 st) e addr else Some (desc_limit st e)) of
                 None \<Rightarrow> None
               | Some k \<Rightarrow>
                   let st1 = set_limit e k st
                   in case (case et_father (el st1 e) of None \<Rightarrow> Some addr | Some f \<Rightarrow> elem_get_addr st1 f addr) of
                        None \<Rightarrow> None
                      | Some a \<Rightarrow>
                          let ea = adr_plus a (et_offset (el st1 e))
                          in if k > 0 then
                               (if ea = 0 then None
                                else case dalloc0 (et_size (el st1 e) * k) ea st1 of
                                       (st2, None) \<Rightarrow> Some ((set_mem (put_ptr (es_mem st2) ea 0) st2, para), - ENOMEM)
                                     | (st2, Some p) \<Rightarrow> Some ((set_mem (put_ptr (es_mem st2) ea p) st2, para), 0))
                             else Some ((st1, para), 0))
            else Some ((set_limit e (desc_limit st e) st, para), 0))
         else Some (s, 0))"

definition proc_blob_2_struct :: "nat \<Rightarrow> nat \<Rightarrow> deal_para cb" where
  "proc_blob_2_struct addr blob e s =
     (let (st, para) = s
      in map_option (\<lambda>(st1, r). ((st1, if r \<ge> 0 then para\<lparr>dp_offset := dp_offset para + r\<rparr> else para), r))
           (elem_set_bin_value st addr (adr_plus blob (dp_offset para)) e))"

definition blob_2_struct_ops :: "nat \<Rightarrow> nat \<Rightarrow> bool \<Rightarrow> deal_para struct_deal_ops" where
  "blob_2_struct_ops addr blob test = \<lparr>dop_start = None, dop_testelem = (if test then Some part_deal_test else None),
     dop_enterstruct = Some (alloc_enterstruct addr), dop_exitstruct = None,
     dop_proc_func = proc_blob_2_struct addr blob, dop_finish = None\<rparr>"

definition blob_2_struct :: "estate \<Rightarrow> nat \<Rightarrow> nat \<Rightarrow> nat \<Rightarrow> (estate \<times> int) option option" where
  "blob_2_struct st blob addr tmpl = run_deal (blob_2_struct_ops addr blob False) False tmpl 0 st"

definition blob_2_part_struct :: "estate \<Rightarrow> nat \<Rightarrow> nat \<Rightarrow> nat \<Rightarrow> u32 \<Rightarrow> (estate \<times> int) option option" where
  "blob_2_part_struct st blob addr tmpl flag = run_deal (blob_2_struct_ops addr blob True) True tmpl flag st"

section \<open>Cloning and comparing structures\<close>

definition proc_clone_struct :: "nat \<Rightarrow> nat \<Rightarrow> deal_para cb" where
  "proc_clone_struct src destr e s = map_option (\<lambda>(st1, r). ((st1, snd s), r)) (elem_clone_value (fst s) src destr e)"

definition clone_struct_ops :: "nat \<Rightarrow> nat \<Rightarrow> bool \<Rightarrow> deal_para struct_deal_ops" where
  "clone_struct_ops src destr test = \<lparr>dop_start = None, dop_testelem = (if test then Some part_deal_test else None),
     dop_enterstruct = Some (alloc_enterstruct destr), dop_exitstruct = None,
     dop_proc_func = proc_clone_struct src destr, dop_finish = None\<rparr>"

definition struct_clone :: "estate \<Rightarrow> nat \<Rightarrow> nat \<Rightarrow> nat \<Rightarrow> (estate \<times> int) option option" where
  "struct_clone st src destr tmpl = run_deal (clone_struct_ops src destr False) False tmpl 0 st"

text \<open>\<open>struct_part_clone\<close> hands the two structures to the walk in the other order.\<close>

definition struct_part_clone :: "estate \<Rightarrow> nat \<Rightarrow> nat \<Rightarrow> nat \<Rightarrow> u32 \<Rightarrow> (estate \<times> int) option option" where
  "struct_part_clone st src destr tmpl flag = run_deal (clone_struct_ops destr src True) True tmpl flag st"

definition clone_struct :: "estate \<Rightarrow> nat \<Rightarrow> nat \<Rightarrow> (estate \<times> nat option) option option" where
  "clone_struct st addr tmpl =
     (case struct_size st tmpl of
        None \<Rightarrow> Some None
      | Some sz \<Rightarrow>
          (case dalloc0 sz addr st of
             (st1, None) \<Rightarrow> Some (Some (st1, None))
           | (st1, Some p) \<Rightarrow>
               (case struct_clone st1 addr p tmpl of
                  None \<Rightarrow> None
                | Some None \<Rightarrow> Some None
                | Some (Some (st2, r)) \<Rightarrow> Some (Some (st2, if r < 0 then None else Some p)))))"

definition compare_struct_enterstruct :: "nat \<Rightarrow> nat \<Rightarrow> deal_para cb" where
  "compare_struct_enterstruct src destr e s =
     (let (st, para) = s
      in if et_limit (el st e) = 0 then
           (if isdefineelem (etype st e) then
              (case elem_get_defvalue (set_limit e 0 st) e destr of
                 None \<Rightarrow> None
               | Some k \<Rightarrow>
                   (case elem_get_defvalue (set_limit e k st) e src of
                      None \<Rightarrow> None
                    | Some k' \<Rightarrow> Some ((set_limit e k st, para), if k' \<noteq> k then - EINVAL else 0)))
            else Some ((set_limit e (desc_limit st e) st, para), 0))
         else Some (s, 0))"

definition proc_compare_struct :: "nat \<Rightarrow> nat \<Rightarrow> deal_para cb" where
  "proc_compare_struct src destr e s =
     map_option (\<lambda>r. (s, if r \<noteq> 0 then - 1 else 0)) (elem_compare_value (fst s) src destr e)"

definition compare_struct_ops :: "nat \<Rightarrow> nat \<Rightarrow> bool \<Rightarrow> deal_para struct_deal_ops" where
  "compare_struct_ops src destr test = \<lparr>dop_start = None, dop_testelem = (if test then Some part_deal_test else None),
     dop_enterstruct = Some (compare_struct_enterstruct src destr), dop_exitstruct = None,
     dop_proc_func = proc_compare_struct src destr, dop_finish = None\<rparr>"

definition struct_compare :: "estate \<Rightarrow> nat \<Rightarrow> nat \<Rightarrow> nat \<Rightarrow> (estate \<times> int) option option" where
  "struct_compare st src destr tmpl = run_deal (compare_struct_ops src destr False) True tmpl 0 st"

definition struct_part_compare :: "estate \<Rightarrow> nat \<Rightarrow> nat \<Rightarrow> nat \<Rightarrow> u32 \<Rightarrow> (estate \<times> int) option option" where
  "struct_part_compare st src destr tmpl flag = run_deal (compare_struct_ops src destr True) True tmpl flag st"

section \<open>Single elements\<close>

definition with_elem :: "estate \<Rightarrow> nat \<Rightarrow> byte list \<Rightarrow> (eid \<Rightarrow> (estate \<times> int) option) \<Rightarrow> (estate \<times> int) option" where
  "with_elem st tmpl name f =
     (case get_elem_by_name st tmpl name of
        None \<Rightarrow> None
      | Some None \<Rightarrow> Some (st, - EINVAL)
      | Some (Some e) \<Rightarrow> f e)"

definition struct_get_elem_no :: "estate \<Rightarrow> nat option \<Rightarrow> int" where
  "struct_get_elem_no st tmpl = (case tmpl of None \<Rightarrow> - EINVAL | Some n \<Rightarrow> sn_elem_no (es_node st n))"

definition struct_read_elem :: "estate \<Rightarrow> byte list \<Rightarrow> nat \<Rightarrow> nat \<Rightarrow> nat \<Rightarrow> (estate \<times> int) option" where
  "struct_read_elem st name addr elem_data tmpl =
     with_elem st tmpl name (\<lambda>e. elem_get_bin_value st addr elem_data e)"

definition struct_write_elem :: "estate \<Rightarrow> byte list \<Rightarrow> nat \<Rightarrow> nat \<Rightarrow> nat \<Rightarrow> (estate \<times> int) option" where
  "struct_write_elem st name addr elem_data tmpl =
     with_elem st tmpl name (\<lambda>e. elem_set_bin_value st addr elem_data e)"

definition struct_read_elem_byno :: "estate \<Rightarrow> int \<Rightarrow> nat \<Rightarrow> nat \<Rightarrow> nat \<Rightarrow> (estate \<times> int) option" where
  "struct_read_elem_byno st no addr elem_data tmpl =
     (if no < 0 \<or> no \<ge> sn_elem_no (es_node st tmpl) then Some (st, - EINVAL)
      else elem_get_bin_value st addr elem_data (tmpl, nat no))"

definition struct_write_elem_byno :: "estate \<Rightarrow> int \<Rightarrow> nat \<Rightarrow> nat \<Rightarrow> nat \<Rightarrow> (estate \<times> int) option" where
  "struct_write_elem_byno st no addr elem_data tmpl =
     (if no < 0 \<or> no \<ge> sn_elem_no (es_node st tmpl) then Some (st, - EINVAL)
      else elem_set_bin_value st addr elem_data (tmpl, nat no))"

text \<open>The buffers of \<open>struct_comp_elem\<close> are two halves of one temporary block.\<close>

definition struct_comp_elem :: "estate \<Rightarrow> byte list \<Rightarrow> nat \<Rightarrow> nat \<Rightarrow> nat \<Rightarrow> (estate \<times> int) option" where
  "struct_comp_elem st name src_addr dest_addr tmpl =
     (let (m, buf) = Talloc0 (es_mem st) (es_malloc st (es_calls st)) 2048;
          st1 = st\<lparr>es_mem := m, es_calls := es_calls st + 1\<rparr>
      in case buf of
           None \<Rightarrow> Some (st1, - ENOMEM)
         | Some b \<Rightarrow>
             (case struct_read_elem st1 name src_addr b tmpl of
                None \<Rightarrow> None
              | Some (st2, n) \<Rightarrow>
                  if n < 0 then Some (st2, n)
                  else case struct_read_elem st2 name dest_addr (b + 1024) tmpl of
                         None \<Rightarrow> None
                       | Some (st3, k) \<Rightarrow>
                           if k < 0 then Some (st3, k)
                           else if n \<noteq> k then Some (st3, 0)
                           else Some (st3, if Memcmp (es_mem st3) b (b + 1024) (word_of_int n) = 0 then 1 else 0)))"

definition struct_comp_elem_value :: "estate \<Rightarrow> byte list \<Rightarrow> nat \<Rightarrow> nat \<Rightarrow> nat \<Rightarrow> (estate \<times> int) option" where
  "struct_comp_elem_value st name addr elem_value tmpl =
     (case struct_read_elem st name addr (es_stack st + 256) tmpl of
        None \<Rightarrow> None
      | Some (st1, n) \<Rightarrow>
          if n < 0 then Some (st1, n)
          else Some (st1, if Memcmp (es_mem st1) (es_stack st + 256) elem_value (word_of_int n) = 0 then 1 else 0))"

section \<open>Flags\<close>

definition or_flag :: "u32 \<Rightarrow> eid \<Rightarrow> estate \<Rightarrow> estate" where
  "or_flag flag e = upd_elem e (\<lambda>t. t\<lparr>et_flag := et_flag t OR flag\<rparr>)"

text \<open>
  The loops of \<open>struct_set_allflag\<close> and \<open>struct_clear_allflag\<close>; \<open>leaf\<close> changes a plain element, \<open>sub\<close> is
  applied on the way into the node \<open>q\<close> of the element \<open>e\<close>. A node without parent or reference is a fault.
\<close>

partial_function (option) flag_walk ::
  "(eid \<Rightarrow> estate \<Rightarrow> estate) \<Rightarrow> (eid \<Rightarrow> nat \<Rightarrow> estate \<Rightarrow> estate) \<Rightarrow> nat \<Rightarrow> nat \<Rightarrow> estate \<Rightarrow> estate option" where
  "flag_walk leaf sub root n st =
     (let d = es_node st n
      in if temp_var d = sn_elem_no d then
           (if n = root then Some st
            else case sn_parent d of None \<Rightarrow> None | Some p \<Rightarrow> flag_walk leaf sub root p st)
         else
           let e = curr_eid n st
           in if issubsetelem (etype st e) then
                (case et_ref (el st e) of
                   ERefNode q \<Rightarrow>
                     flag_walk leaf sub root q (sub e q (upd_snode q (\<lambda>d. d\<lparr>temp_var := 0\<rparr>) (next_elem n st)))
                 | _ \<Rightarrow> None)
              else flag_walk leaf sub root n (next_elem n (leaf e st)))"

definition struct_set_allflag :: "estate \<Rightarrow> nat \<Rightarrow> u32 \<Rightarrow> estate option" where
  "struct_set_allflag st root flag =
     map_option (upd_snode root (\<lambda>d. d\<lparr>sn_flag := sn_flag d OR flag\<rparr>))
       (flag_walk (or_flag flag) (\<lambda>e q. or_flag flag e) root root (upd_snode root (\<lambda>d. d\<lparr>temp_var := 0\<rparr>) st))"

text \<open>
  \<open>struct_clear_allflag\<close> clears the flag of plain elements and of the nodes of sub-structures, not of the
  elements that refer to them; the statement meant to clear the root compares only.
\<close>

definition struct_clear_allflag :: "estate \<Rightarrow> nat \<Rightarrow> u32 \<Rightarrow> estate option" where
  "struct_clear_allflag st root flag =
     flag_walk (\<lambda>e. upd_elem e (\<lambda>t. t\<lparr>et_flag := et_flag t AND NOT flag\<rparr>))
       (\<lambda>e q. upd_snode q (\<lambda>d. d\<lparr>sn_flag := sn_flag d AND NOT flag\<rparr>)) root root
       (upd_snode root (\<lambda>d. d\<lparr>temp_var := 0\<rparr>) st)"

definition struct_get_flag :: "estate \<Rightarrow> nat \<Rightarrow> byte list \<Rightarrow> int option" where
  "struct_get_flag st tmpl name =
     (case get_elem_by_name st tmpl name of
        None \<Rightarrow> None
      | Some None \<Rightarrow> Some (- 1)
      | Some (Some e) \<Rightarrow> Some (sint (et_flag (el st e))))"

text \<open>
  The loop of \<open>struct_set_flag\<close> over a list of names separated by commas at \<open>namelist\<close>; the current
  name is copied to the stack. The elements that contain the named one get the flag too.
\<close>

partial_function (option) set_flag_loop ::
  "nat \<Rightarrow> u32 \<Rightarrow> nat \<Rightarrow> nat \<Rightarrow> int \<Rightarrow> estate \<Rightarrow> (estate \<times> int) option" where
  "set_flag_loop root flag namelist off count st =
     (case Getfiledfromstr (es_mem st) (es_stack st) (namelist + off) 44 33 of
        None \<Rightarrow> None
      | Some (m, i) \<Rightarrow>
          let st1 = set_mem m st
          in if i = 0 then Some (st1, count)
             else
               case cstring m (es_stack st) of
                 None \<Rightarrow> None
               | Some name \<Rightarrow>
                   (case get_elem_by_name st1 root name of
                      None \<Rightarrow> None
                    | Some None \<Rightarrow> Some (st1, - EINVAL)
                    | Some (Some e) \<Rightarrow>
                        let st2 = or_flag flag e st1
                        in case (if issubsetelem (etype st2 e) then
                                   (case et_ref (el st2 e) of ERefNode q \<Rightarrow> struct_set_allflag st2 q flag | _ \<Rightarrow> None)
                                 else Some st2) of
                             None \<Rightarrow> None
                           | Some st3 \<Rightarrow>
                               (case elem_path st3 e of
                                  None \<Rightarrow> None
                                | Some path \<Rightarrow>
                                    set_flag_loop root flag namelist
                                      (if m (namelist + off + i) = 44 then off + i + 1 else off + i) (count + 1)
                                      (fold (or_flag flag) (tl path) st3))))"

definition struct_set_flag :: "estate \<Rightarrow> nat \<Rightarrow> u32 \<Rightarrow> nat \<Rightarrow> (estate \<times> int) option" where
  "struct_set_flag st tmpl flag namelist = set_flag_loop tmpl flag namelist 0 0 st"

end
