(* ===== verification/Cube_Struct_Walk.thy ===== *)
theory Cube_Struct_Walk
  imports Cube_Struct_Convert
begin

text \<open>
  What the walk over a template does. A template of plain elements and repeated sub-structures is
  described by a tree that names its nodes; the walk then amounts to one step
  for each plain element, at its offset, in the order of the structure. The contract that an operation must
  keep for this is a locale; the conversions interpret it.
\<close>

section \<open>Templates as trees\<close>

datatype tnode = TNode nat telems
and telems = TNil | TField elem_attr telems | TSub elem_attr tnode telems

definition plain_type :: "elem_type \<Rightarrow> bool" where
  "plain_type ty \<longleftrightarrow> ty \<in> {CUBE_TYPE_STRING, CUBE_TYPE_UUID, CUBE_TYPE_INT, CUBE_TYPE_UCHAR, CUBE_TYPE_USHORT,
     CUBE_TYPE_LONGLONG, CUBE_TYPE_BINDATA, CUBE_TYPE_HEXDATA, CUBE_TYPE_ENUM, CUBE_TYPE_SENUM, CUBE_TYPE_BENUM,
     CUBE_TYPE_FLAG, CUBE_TYPE_SFLAG, CUBE_TYPE_BFLAG, CUBE_TYPE_ESTRING}"

text \<open>The bytes an element takes in the structure, and the number of repetitions of a sub-structure.\<close>

definition fsize :: "elem_attr \<Rightarrow> int" where
  "fsize d = (if ea_type d = CUBE_TYPE_ESTRING then 8
     else if get_fixed_elemsize (ea_type d) < 0 then ea_size d else get_fixed_elemsize (ea_type d))"

definition reps :: "elem_attr \<Rightarrow> int" where
  "reps d = (if ea_size d = 0 then 1 else ea_size d)"

primrec node_id :: "tnode \<Rightarrow> nat" where
  "node_id (TNode n es) = n"

primrec node_elems :: "tnode \<Rightarrow> telems" where
  "node_elems (TNode n es) = es"

primrec nsize :: "tnode \<Rightarrow> int" and esize :: "telems \<Rightarrow> int" where
  "nsize (TNode n es) = esize es"
| "esize TNil = 0"
| "esize (TField d es) = fsize d + esize es"
| "esize (TSub d t es) = nsize t * reps d + esize es"

primrec node_ids :: "tnode \<Rightarrow> nat list" and elem_ids :: "telems \<Rightarrow> nat list" where
  "node_ids (TNode n es) = n # elem_ids es"
| "elem_ids TNil = []"
| "elem_ids (TField d es) = elem_ids es"
| "elem_ids (TSub d t es) = node_ids t @ elem_ids es"

primrec elem_count :: "telems \<Rightarrow> nat" where
  "elem_count TNil = 0"
| "elem_count (TField d es) = Suc (elem_count es)"
| "elem_count (TSub d t es) = Suc (elem_count es)"

text \<open>The plain elements with their offsets, from offset \<open>b\<close> on, repetitions written out.\<close>

primrec flat_node :: "tnode \<Rightarrow> int \<Rightarrow> (int \<times> elem_attr) list"
  and flat :: "telems \<Rightarrow> int \<Rightarrow> (int \<times> elem_attr) list" where
  "flat_node (TNode n es) b = flat es b"
| "flat TNil b = []"
| "flat (TField d es) b = (b, d) # flat es (b + fsize d)"
| "flat (TSub d t es) b =
     concat (map (\<lambda>j. flat_node t (b + nsize t * int j)) [0..<nat (reps d)]) @ flat es (b + nsize t * reps d)"

text \<open>
  \<open>tok_node st par fat t\<close>: the nodes of the state \<open>st\<close> hold the template \<open>t\<close>, with parent \<open>par\<close> and containing
  element \<open>fat\<close>; no walk is under way.
\<close>

primrec tok_node :: "tnode \<Rightarrow> (nat \<Rightarrow> struct_node) \<Rightarrow> nat option \<Rightarrow> eid option \<Rightarrow> bool"
  and tok_elems :: "telems \<Rightarrow> (nat \<Rightarrow> struct_node) \<Rightarrow> nat \<Rightarrow> eid option \<Rightarrow> nat \<Rightarrow> int \<Rightarrow> bool" where
  "tok_node (TNode n es) nd par fat \<longleftrightarrow>
     sn_parent (nd n) = par \<and> sn_elem_no (nd n) = int (elem_count es) \<and> length (elem_list (nd n)) = elem_count es
     \<and> tok_elems es nd n fat 0 0"
| "tok_elems TNil nd n fat i off \<longleftrightarrow> True"
| "tok_elems (TField d es) nd n fat i off \<longleftrightarrow>
     (let t = elem_list (nd n) ! i
      in elem_desc t = d \<and> plain_type (ea_type d) \<and> 0 \<le> fsize d \<and> et_offset t = off \<and> et_size t = fsize d
         \<and> et_father t = fat)
     \<and> tok_elems es nd n fat (Suc i) (off + fsize d)"
| "tok_elems (TSub d t es) nd n fat i off \<longleftrightarrow>
     (let x = elem_list (nd n) ! i
      in elem_desc x = d \<and> ea_type d = CUBE_TYPE_SUBSTRUCT \<and> 0 \<le> ea_size d \<and> et_offset x = off
         \<and> et_size x = nsize t \<and> et_father x = fat \<and> et_limit x = 0 \<and> et_index x = 0
         \<and> et_ref x = ERefNode (node_id t))
     \<and> tok_node t nd (Some n) (Some (n, i)) \<and> tok_elems es nd n fat (Suc i) (off + nsize t * reps d)"

lemma plain_type_kinds:
  "plain_type ty \<Longrightarrow> \<not> issubsetelem ty \<and> \<not> isarrayelem ty \<and> \<not> isdefineelem ty \<and> elem_get_ops ty \<noteq> None"
  by (auto simp: plain_type_def type_kinds elem_get_ops_table)

lemma substruct_kinds [simp]:
  "issubsetelem CUBE_TYPE_SUBSTRUCT" "\<not> isarrayelem CUBE_TYPE_SUBSTRUCT" "\<not> isdefineelem CUBE_TYPE_SUBSTRUCT"
  by (simp_all add: type_kinds)

lemma reps_pos: "0 \<le> ea_size d \<Longrightarrow> 1 \<le> reps d"
  by (auto simp: reps_def)

text \<open>A template depends on its nodes only, and on these without the place a walk has reached.\<close>

definition same_node :: "struct_node \<Rightarrow> struct_node \<Rightarrow> bool" where
  "same_node a b \<longleftrightarrow> a\<lparr>temp_var := 0\<rparr> = b\<lparr>temp_var := 0\<rparr>"

lemma same_node_refl [simp]: "same_node a a"
  by (simp add: same_node_def)

lemma same_node_sel: "same_node a b \<Longrightarrow> elem_list a = elem_list b \<and> sn_parent a = sn_parent b \<and> sn_elem_no a = sn_elem_no b"
  by (cases a; cases b) (simp add: same_node_def)

lemma same_node_trans: "same_node a b \<Longrightarrow> same_node b c \<Longrightarrow> same_node a c"
  by (simp add: same_node_def)

lemma tok_same:
  fixes nd nd' :: "nat \<Rightarrow> struct_node"
  shows "(\<And>k. k \<in> set (node_ids t) \<Longrightarrow> same_node (nd' k) (nd k)) \<Longrightarrow> tok_node t nd par fat \<Longrightarrow> tok_node t nd' par fat"
    and "(\<And>k. k \<in> insert n (set (elem_ids es)) \<Longrightarrow> same_node (nd' k) (nd k)) \<Longrightarrow> tok_elems es nd n fat i off \<Longrightarrow>
      tok_elems es nd' n fat i off"
proof (induction t and es arbitrary: par fat and n fat i off rule: tnode.induct telems.induct)
  case (TNode n es)
  have "same_node (nd' n) (nd n)" using TNode.prems(1) by simp
  then show ?case using TNode.prems(2) TNode.IH [of n fat 0 0] TNode.prems(1) same_node_sel [of "nd' n" "nd n"] by auto
next
  case TNil
  then show ?case by simp
next
  case (TField d es)
  have "same_node (nd' n) (nd n)" using TField.prems(1) by simp
  then show ?case using TField.prems TField.IH [of n fat "Suc i" "off + fsize d"] same_node_sel [of "nd' n" "nd n"] by auto
next
  case (TSub d t es)
  have "same_node (nd' n) (nd n)" using TSub.prems(1) by simp
  then show ?case using TSub.prems TSub.IH(1) [of "Some n" "Some (n, i)"]
      TSub.IH(2) [of n fat "Suc i" "off + nsize t * reps d"] same_node_sel [of "nd' n" "nd n"] by auto
qed

section \<open>Addresses along a walk\<close>

text \<open>The elements that contain \<open>fat\<close> lie in the nodes \<open>A\<close> and put the contents at offset \<open>x\<close>.\<close>

definition fchain :: "estate \<Rightarrow> nat set \<Rightarrow> eid option \<Rightarrow> int \<Rightarrow> bool" where
  "fchain st A fat x \<longleftrightarrow> (\<exists>path. (case fat of None \<Rightarrow> path = [] | Some f \<Rightarrow> elem_path st f = Some path)
     \<and> fst ` set path \<subseteq> A \<and> (\<forall>cur. addr_offsets st path cur = [cur + x]))"

lemma elem_path_cong:
  "elem_path st f = Some path \<Longrightarrow> (\<And>k. k \<in> fst ` set path \<Longrightarrow> elem_list (es_node st' k) = elem_list (es_node st k)) \<Longrightarrow>
   elem_path st' f = Some path"
proof (induction path arbitrary: f)
  case Nil
  then show ?case by (subst (asm) elem_path.simps) (auto split: option.splits bind_splits)
next
  case (Cons g path)
  have g: "g = f" using Cons.prems(1) by (subst (asm) elem_path.simps) (auto split: option.splits bind_splits)
  have el: "el st' f = el st f" using Cons.prems(2) g by (simp add: el_def)
  show ?case
  proof (cases "et_father (el st f)")
    case None
    then show ?thesis using Cons.prems(1) el by (simp add: elem_path.simps)
  next
    case (Some h)
    then have "elem_path st h = Some path" using Cons.prems(1) g by (subst (asm) elem_path.simps) (auto split: bind_splits)
    then have "elem_path st' h = Some path" using Cons.IH Cons.prems(2) by simp
    then show ?thesis using Some el g by (subst elem_path.simps) simp
  qed
qed

lemma addr_offsets_cong:
  "(\<And>k. k \<in> fst ` set path \<Longrightarrow> elem_list (es_node st' k) = elem_list (es_node st k)) \<Longrightarrow>
   addr_offsets st' path cur = addr_offsets st path cur"
  by (induction path arbitrary: cur) (auto simp: el_def Let_def)

lemma fchain_cong:
  assumes "fchain st A fat x" "\<And>k. k \<in> A \<Longrightarrow> elem_list (es_node st' k) = elem_list (es_node st k)"
  shows "fchain st' A fat x"
proof -
  obtain path where p: "case fat of None \<Rightarrow> path = [] | Some f \<Rightarrow> elem_path st f = Some path"
      "fst ` set path \<subseteq> A" "\<forall>cur. addr_offsets st path cur = [cur + x]" using assms(1) by (auto simp: fchain_def)
  have c: "\<And>k. k \<in> fst ` set path \<Longrightarrow> elem_list (es_node st' k) = elem_list (es_node st k)" using p(2) assms(2) by blast
  have "case fat of None \<Rightarrow> path = [] | Some f \<Rightarrow> elem_path st' f = Some path"
    using p(1) elem_path_cong [OF _ c] by (cases fat) auto
  moreover have "\<forall>cur. addr_offsets st' path cur = [cur + x]" using p(3) addr_offsets_cong [OF c] by simp
  ultimately show ?thesis unfolding fchain_def using p(2) by blast
qed

lemma fchain_root: "fchain st {} None 0"
  by (simp add: fchain_def)

lemma fchain_step:
  assumes "fchain st A fat x" "et_father (el st e) = fat" "etype st e = CUBE_TYPE_SUBSTRUCT" "fst e \<in> B" "A \<subseteq> B"
  shows "fchain st B (Some e) (x + (et_offset (el st e) + et_size (el st e) * et_index (el st e)))"
proof -
  obtain path where p: "case fat of None \<Rightarrow> path = [] | Some f \<Rightarrow> elem_path st f = Some path"
      "fst ` set path \<subseteq> A" "\<forall>cur. addr_offsets st path cur = [cur + x]" using assms(1) by (auto simp: fchain_def)
  have "elem_path st e = Some (e # path)" using p(1) assms(2) by (subst elem_path.simps) (auto split: option.splits)
  then show ?thesis using p(2,3) assms(3,4,5) unfolding fchain_def
    by (intro exI [of _ "e # path"]) (auto simp: Let_def)
qed

lemma fchain_leaf:
  assumes "fchain st A fat x" "et_father (el st e) = fat" "plain_type (etype st e)"
  shows "elem_get_addr st e a = Some (adr_plus a (x + et_offset (el st e)))"
proof -
  obtain path where p: "case fat of None \<Rightarrow> path = [] | Some f \<Rightarrow> elem_path st f = Some path"
      "\<forall>cur. addr_offsets st path cur = [cur + x]" using assms(1) by (auto simp: fchain_def)
  have "elem_path st e = Some (e # path)" using p(1) assms(2) by (subst elem_path.simps) (auto split: option.splits)
  then show ?thesis using p(2) plain_type_kinds [OF assms(3)] by (simp add: elem_get_addr_def Let_def add.commute)
qed

section \<open>The contract of an operation\<close>

type_synonym 'p dat = "mem \<times> nat \<times> 'p"

definition dat :: "estate \<times> 'p \<Rightarrow> 'p dat" where
  "dat s = (es_mem (fst s), es_calls (fst s), snd s)"

text \<open>The steps for a list of plain elements, up to the first that returns an error.\<close>

fun run_leaves :: "(int \<times> elem_attr \<Rightarrow> 'd \<Rightarrow> ('d \<times> int) option) \<Rightarrow> (int \<times> elem_attr) list \<Rightarrow> 'd \<Rightarrow> ('d \<times> int) option" where
  "run_leaves leaf [] d = Some (d, 0)"
| "run_leaves leaf (x # xs) d =
     (case leaf x d of None \<Rightarrow> None | Some (d', r) \<Rightarrow> if r < 0 then Some (d', r) else run_leaves leaf xs d')"

lemma run_leaves_append:
  "run_leaves leaf (xs @ ys) d =
     (case run_leaves leaf xs d of None \<Rightarrow> None | Some (d', r) \<Rightarrow> if r < 0 then Some (d', r) else run_leaves leaf ys d')"
  by (induction xs arbitrary: d) (auto split: option.splits)

definition leaf_at :: "estate \<Rightarrow> eid \<Rightarrow> int \<Rightarrow> elem_attr \<Rightarrow> bool" where
  "leaf_at st e x d \<longleftrightarrow> elem_desc (el st e) = d \<and> plain_type (ea_type d) \<and> et_size (el st e) = fsize d \<and> 0 \<le> fsize d
     \<and> (\<forall>a. elem_get_addr st e a = Some (adr_plus a x))"

definition put_dat :: "estate \<Rightarrow> 'p dat \<Rightarrow> estate \<times> 'p" where
  "put_dat st d = (st\<lparr>es_mem := fst d, es_calls := fst (snd d)\<rparr>, snd (snd d))"

locale frame_walk =
  fixes funcs :: "'p struct_deal_ops"
    and leaf :: "(nat \<Rightarrow> nat option) \<Rightarrow> int \<times> elem_attr \<Rightarrow> 'p dat \<Rightarrow> ('p dat \<times> int) option"
  assumes no_test: "dop_testelem funcs = None"
    and enter: "et_limit (el st e) = 0 \<Longrightarrow> etype st e = CUBE_TYPE_SUBSTRUCT \<Longrightarrow>
      call_cb (dop_enterstruct funcs) e (st, p) = Some ((set_limit e (reps (elem_desc (el st e))) st, p), 0)"
    and enter_again: "et_limit (el st e) \<noteq> 0 \<Longrightarrow> etype st e = CUBE_TYPE_SUBSTRUCT \<Longrightarrow>
      call_cb (dop_enterstruct funcs) e (st, p) = Some ((st, p), 0)"
    and leave: "call_cb (dop_exitstruct funcs) e (st, p) = Some ((st, p), 0)"
    and proc: "leaf_at st e x d \<Longrightarrow> dop_proc_func funcs e (st, p)
      = map_option (\<lambda>(d', r). (put_dat st d', r)) (leaf (es_malloc st) (x, d) (es_mem st, es_calls st, p))"

section \<open>What a walk amounts to\<close>

text \<open>
  \<open>passed st st' n K i\<close>: the walk went from \<open>st\<close> to \<open>st'\<close> through the nodes \<open>K\<close> and stands at place \<open>i\<close> of the
  node \<open>n\<close>; up to the places the walk has reached the template is as before.
\<close>

definition passed :: "estate \<Rightarrow> estate \<Rightarrow> nat \<Rightarrow> nat set \<Rightarrow> nat \<Rightarrow> bool" where
  "passed st st' n K i \<longleftrightarrow> es_next st' = es_next st \<and> es_malloc st' = es_malloc st \<and> es_stack st' = es_stack st
     \<and> (\<forall>k. same_node (es_node st' k) (es_node st k)) \<and> (\<forall>k. k \<noteq> n \<longrightarrow> k \<notin> K \<longrightarrow> es_node st' k = es_node st k)
     \<and> temp_var (es_node st' n) = int i"

definition walks_to ::
  "'p struct_deal_ops \<Rightarrow> nat \<Rightarrow> nat \<Rightarrow> estate \<times> 'p \<Rightarrow> ('p dat \<times> int) option \<Rightarrow> nat \<Rightarrow> (estate \<Rightarrow> bool) \<Rightarrow> bool" where
  "walks_to funcs root n s out n' Q \<longleftrightarrow>
     (case out of
        None \<Rightarrow> frame_loop funcs root n s = Some None
      | Some (d, r) \<Rightarrow>
          if r < 0 then \<exists>s'. frame_loop funcs root n s = Some (Some (s', r)) \<and> dat s' = d
          else \<exists>st'. Q st' \<and> frame_loop funcs root n s = frame_loop funcs root n' (put_dat st' d))"

lemma put_dat_sel [simp]:
  "es_node (fst (put_dat st d)) = es_node st" "es_malloc (fst (put_dat st d)) = es_malloc st"
  "es_next (fst (put_dat st d)) = es_next st" "es_stack (fst (put_dat st d)) = es_stack st"
  "dat (put_dat st d) = d"
  by (simp_all add: put_dat_def dat_def)

lemma put_dat_self: "put_dat st (dat (st, p)) = (st, p)"
  by (simp add: put_dat_def dat_def)

lemma walks_to_step:
  "frame_loop funcs root n s = frame_loop funcs root m s' \<Longrightarrow> walks_to funcs root m s' out n' Q \<Longrightarrow>
   walks_to funcs root n s out n' Q"
  by (cases out) (auto simp: walks_to_def)

lemma walks_to_append:
  assumes "walks_to funcs root n s (run_leaves f xs d) m Q"
    and "\<And>st' d'. Q st' \<Longrightarrow> walks_to funcs root m (put_dat st' d') (run_leaves f ys d') n' Q'"
  shows "walks_to funcs root n s (run_leaves f (xs @ ys) d) n' Q'"
proof (cases "run_leaves f xs d")
  case None
  then show ?thesis using assms(1) by (simp add: walks_to_def run_leaves_append)
next
  case (Some o1)
  obtain d1 r where o1: "o1 = (d1, r)" by (cases o1)
  show ?thesis
  proof (cases "r < 0")
    case True
    then show ?thesis using assms(1) Some o1 by (simp add: walks_to_def run_leaves_append)
  next
    case False
    then obtain st' where "Q st'" "frame_loop funcs root n s = frame_loop funcs root m (put_dat st' d1)"
      using assms(1) Some o1 by (auto simp: walks_to_def)
    then have "walks_to funcs root n s (run_leaves f ys d1) n' Q'" using assms(2) by (blast intro: walks_to_step)
    then show ?thesis using Some o1 False by (simp add: run_leaves_append)
  qed
qed

lemma walks_to_mono:
  "walks_to funcs root n s out n' Q \<Longrightarrow> (\<And>st'. Q st' \<Longrightarrow> Q' st') \<Longrightarrow> walks_to funcs root n s out n' Q'"
  unfolding walks_to_def by (cases out) (auto split: if_splits intro: exI)

lemma passed_refl: "temp_var (es_node st n) = int i \<Longrightarrow> passed st st n K i"
  by (simp add: passed_def)

lemma passed_trans:
  assumes "passed st st1 n K1 i" "passed st1 st2 n K2 j"
  shows "passed st st2 n (K1 \<union> K2) j"
  using assms by (auto simp: passed_def intro: same_node_trans)

lemma passed_sel:
  assumes "passed st st' n K i"
  shows "elem_list (es_node st' k) = elem_list (es_node st k)" "sn_parent (es_node st' k) = sn_parent (es_node st k)"
    "sn_elem_no (es_node st' k) = sn_elem_no (es_node st k)" "el st' e = el st e" "es_malloc st' = es_malloc st"
  using assms same_node_sel [of "es_node st' k" "es_node st k"] same_node_sel [of "es_node st' (fst e)" "es_node st (fst e)"]
  by (simp_all add: passed_def el_def)

lemma el_upd_elem:
  "snd e < length (elem_list (es_node st (fst e))) \<Longrightarrow> el (upd_elem e f st) e' = (if e' = e then f (el st e) else el st e')"
  by (cases e; cases e') (auto simp: el_def upd_elem_def upd_snode_def fun_upd_apply nth_list_update)

lemma el_upd_snode: "(\<And>d. elem_list (f d) = elem_list d) \<Longrightarrow> el (upd_snode n f st) e = el st e"
  by (simp add: el_def fun_upd_apply)

text \<open>The element \<open>e\<close> of \<open>st\<close> in the repetition \<open>j\<close> of \<open>k\<close>.\<close>

definition in_rep :: "eid \<Rightarrow> nat \<Rightarrow> nat \<Rightarrow> estate \<Rightarrow> estate" where
  "in_rep e j k = upd_elem e (\<lambda>t. t\<lparr>et_index := int j, et_limit := int k\<rparr>)"

text \<open>The walk stands at place \<open>i\<close> of the node \<open>n\<close>, before the elements \<open>es\<close>, in structures at offset \<open>x\<close>.\<close>

definition ready :: "nat \<Rightarrow> nat set \<Rightarrow> estate \<Rightarrow> nat \<Rightarrow> telems \<Rightarrow> eid option \<Rightarrow> nat \<Rightarrow> int \<Rightarrow> int \<Rightarrow> bool" where
  "ready root A st n es fat i off x \<longleftrightarrow> tok_elems es (es_node st) n fat i off \<and> temp_var (es_node st n) = int i
     \<and> sn_elem_no (es_node st n) = int (i + elem_count es) \<and> length (elem_list (es_node st n)) = i + elem_count es
     \<and> fchain st A fat x \<and> n \<notin> A \<and> A \<inter> set (elem_ids es) = {} \<and> distinct (n # elem_ids es) \<and> root \<notin> set (elem_ids es)"

lemma ready_passed:
  assumes "ready root A st n es fat i off x" "passed st st' n K i"
  shows "ready root A st' n es fat i off x"
proof -
  have "tok_elems es (es_node st') n fat i off"
    using assms tok_same(2) [of n es "es_node st'" "es_node st" fat i off] by (simp add: ready_def passed_def)
  moreover have "fchain st' A fat x"
    using assms passed_sel(1) [OF assms(2)] fchain_cong [of st A fat x st'] by (simp add: ready_def)
  ultimately show ?thesis using assms passed_sel [OF assms(2)] by (simp add: ready_def passed_def)
qed

lemma ready_field:
  "ready root A st n (TField d es) fat i off x \<Longrightarrow> passed st st' n K (Suc i) \<Longrightarrow> ready root A st' n es fat (Suc i) (off + fsize d) x"
  using ready_passed [of root A "st\<lparr>es_node := (es_node st)(n := (es_node st n)\<lparr>temp_var := int (Suc i)\<rparr>)\<rparr>" n es fat "Suc i" "off + fsize d" x st' K]
    tok_same(2) [of n es "(es_node st)(n := (es_node st n)\<lparr>temp_var := int (Suc i)\<rparr>)" "es_node st" fat "Suc i" "off + fsize d"]
    fchain_cong [of st A fat x "st\<lparr>es_node := (es_node st)(n := (es_node st n)\<lparr>temp_var := int (Suc i)\<rparr>)\<rparr>"]
  by (auto simp: ready_def passed_def same_node_def fun_upd_apply)

lemma ready_sub_rest:
  "ready root A st n (TSub d t es) fat i off x \<Longrightarrow> passed st st' n K (Suc i) \<Longrightarrow>
   ready root A st' n es fat (Suc i) (off + nsize t * reps d) x"
  using ready_passed [of root A "st\<lparr>es_node := (es_node st)(n := (es_node st n)\<lparr>temp_var := int (Suc i)\<rparr>)\<rparr>" n es fat "Suc i" "off + nsize t * reps d" x st' K]
    tok_same(2) [of n es "(es_node st)(n := (es_node st n)\<lparr>temp_var := int (Suc i)\<rparr>)" "es_node st" fat "Suc i" "off + nsize t * reps d"]
    fchain_cong [of st A fat x "st\<lparr>es_node := (es_node st)(n := (es_node st n)\<lparr>temp_var := int (Suc i)\<rparr>)\<rparr>"]
  by (auto simp: ready_def passed_def same_node_def fun_upd_apply)

lemma ready_leaf:
  assumes "ready root A st n (TField d es) fat i off x"
  shows "leaf_at st (n, i) (x + off) d"
  using assms fchain_leaf [of st A fat x "(n, i)"]
  by (simp add: ready_def leaf_at_def el_def Let_def add.commute)

lemma in_rep_sel [simp]:
  "es_mem (in_rep e j k st) = es_mem st" "es_calls (in_rep e j k st) = es_calls st" "es_malloc (in_rep e j k st) = es_malloc st"
  "es_next (in_rep e j k st) = es_next st" "es_stack (in_rep e j k st) = es_stack st"
  by (simp_all add: in_rep_def)

lemma in_rep_node: "m \<noteq> fst e \<Longrightarrow> es_node (in_rep e j k st) m = es_node st m"
  by (simp add: in_rep_def upd_elem_def fun_upd_apply)

lemma in_rep_own:
  "sn_parent (es_node (in_rep e j k st) m) = sn_parent (es_node st m)"
  "sn_elem_no (es_node (in_rep e j k st) m) = sn_elem_no (es_node st m)"
  "temp_var (es_node (in_rep e j k st) m) = temp_var (es_node st m)"
  "length (elem_list (es_node (in_rep e j k st) m)) = length (elem_list (es_node st m))"
  by (simp_all add: in_rep_def upd_elem_def fun_upd_apply)

text \<open>Entering the node \<open>q\<close> of the sub-structure for the repetition \<open>j\<close>.\<close>

lemma ready_enter:
  assumes "ready root A st n (TSub d (TNode q ces) es) fat i off x"
  shows "ready root (insert n A) (upd_snode q (\<lambda>d. d\<lparr>temp_var := 0\<rparr>) (in_rep (n, i) j k st)) q ces (Some (n, i)) 0 0
           (x + (off + esize ces * int j))"
proof -
  let ?st = "upd_snode q (\<lambda>d. d\<lparr>temp_var := 0\<rparr>) (in_rep (n, i) j k st)"
  have ids: "q \<noteq> n" "n \<notin> set (elem_ids ces)" "q \<notin> A" "n \<notin> A" using assms by (auto simp: ready_def)
  have len: "i < length (elem_list (es_node st n))" using assms by (simp add: ready_def)
  have el: "el ?st (n, i) = (el st (n, i))\<lparr>et_index := int j, et_limit := int k\<rparr>"
    using ids len by (simp add: el_upd_snode in_rep_def el_upd_elem)
  have same: "m \<noteq> n \<Longrightarrow> same_node (es_node ?st m) (es_node st m)" for m
    by (auto simp: same_node_def fun_upd_apply in_rep_node)
  have tok: "tok_elems ces (es_node st) q (Some (n, i)) 0 0" using assms by (simp add: ready_def)
  have "same_node (es_node ?st m) (es_node st m)" if "m \<in> insert q (set (elem_ids ces))" for m
    using that same [of m] ids by blast
  then have t1: "tok_elems ces (es_node ?st) q (Some (n, i)) 0 0" by (rule tok_same(2) [OF _ tok])
  have ch0: "fchain st A fat x" using assms by (simp add: ready_def)
  have "elem_list (es_node ?st m) = elem_list (es_node st m)" if "m \<in> A" for m
    using that ids by (cases "m = n") (auto simp: fun_upd_apply in_rep_node)
  then have ch: "fchain ?st A fat x" by (rule fchain_cong [OF ch0])
  have "fchain ?st (insert n A) (Some (n, i)) (x + (off + esize ces * int j))"
    using fchain_step [OF ch, of "(n, i)" "insert n A"] assms el by (auto simp: ready_def el_def Let_def)
  then show ?thesis using t1 assms ids by (auto simp: ready_def in_rep_own fun_upd_apply)
qed

text \<open>Leaving it, after which the element is as before the first repetition.\<close>

lemma passed_back:
  assumes "ready root A st n (TSub d (TNode q ces) es) fat i off x"
    and "passed (upd_snode q (\<lambda>d. d\<lparr>temp_var := 0\<rparr>) (in_rep (n, i) j k st)) st2 q (set (elem_ids ces)) l"
  shows "passed st (upd_elem (n, i) (\<lambda>t. t\<lparr>et_limit := 0, et_index := 0\<rparr>) st2) n (insert q (set (elem_ids ces))) i"
    and "es_node st2 n = es_node (in_rep (n, i) j k st) n"
proof -
  let ?st = "upd_snode q (\<lambda>d. d\<lparr>temp_var := 0\<rparr>) (in_rep (n, i) j k st)"
  let ?e = "(n, i)"
  have ids: "q \<noteq> n" "n \<notin> set (elem_ids ces)" using assms(1) by (auto simp: ready_def)
  have own: "i < length (elem_list (es_node st n))" "et_limit (elem_list (es_node st n) ! i) = 0" "et_index (elem_list (es_node st n) ! i) = 0"
    using assms(1) by (simp_all add: ready_def Let_def)
  show n2: "es_node st2 n = es_node (in_rep ?e j k st) n" using assms(2) ids by (simp add: passed_def fun_upd_apply)
  have reset: "(elem_list (es_node st n) ! i)\<lparr>et_limit := 0, et_index := 0\<rparr> = elem_list (es_node st n) ! i" using own(2,3)
    by (cases "elem_list (es_node st n) ! i") simp
  have home: "es_node (upd_elem ?e (\<lambda>t. t\<lparr>et_limit := 0, et_index := 0\<rparr>) st2) n = es_node st n"
    using own(1) by (simp add: upd_elem_def n2 in_rep_def fun_upd_apply reset)
  have other: "es_node (upd_elem ?e f st2) m = es_node st2 m" if "m \<noteq> n" for m f
    using that by (simp add: upd_elem_def fun_upd_apply)
  have same: "same_node (es_node st2 m) (es_node st m)" if "m \<noteq> n" for m
  proof -
    have "same_node (es_node st2 m) (es_node ?st m)" using assms(2) by (simp add: passed_def)
    moreover have "same_node (es_node ?st m) (es_node st m)" using that by (auto simp: same_node_def fun_upd_apply in_rep_node)
    ultimately show ?thesis by (rule same_node_trans)
  qed
  have kept: "es_node st2 m = es_node st m" if "m \<noteq> n" "m \<notin> insert q (set (elem_ids ces))" for m
    using assms(2) that by (simp add: passed_def fun_upd_apply in_rep_node)
  have "same_node (es_node (upd_elem ?e (\<lambda>t. t\<lparr>et_limit := 0, et_index := 0\<rparr>) st2) m) (es_node st m)" for m
    using home other same by (cases "m = n") simp_all
  moreover have "es_node (upd_elem ?e (\<lambda>t. t\<lparr>et_limit := 0, et_index := 0\<rparr>) st2) m = es_node st m"
    if "m \<noteq> n" "m \<notin> insert q (set (elem_ids ces))" for m
    using kept that other by simp
  ultimately show "passed st (upd_elem ?e (\<lambda>t. t\<lparr>et_limit := 0, et_index := 0\<rparr>) st2) n (insert q (set (elem_ids ces))) i"
    using assms home by (simp add: passed_def ready_def)
qed

context frame_walk
begin

lemma round_leaf:
  assumes "temp_var (es_node st n) = int i" "int i < sn_elem_no (es_node st n)" "leaf_at st (n, i) x d"
  shows "walks_to funcs root n (st, p) (run_leaves (leaf (es_malloc st)) [(x, d)] (dat (st, p))) n
           (\<lambda>st'. passed st st' n {} (Suc i))"
proof -
  have ty: "elem_desc (el st (n, i)) = d" "plain_type (ea_type d)" using assms(3) by (simp_all add: leaf_at_def)
  have e: "curr_eid n st = (n, i)" using assms(1) by (simp add: curr_eid_def)
  obtain ops where ops: "elem_get_ops (ea_type d) = Some ops" using plain_type_kinds [OF ty(2)] by auto
  have round: "frame_round funcs root n (st, p) =
      (case map_option (\<lambda>(d', r). (put_dat st d', r)) (leaf (es_malloc st) (x, d) (dat (st, p))) of
         None \<Rightarrow> FFault
       | Some (s1, r) \<Rightarrow> if r < 0 then FRet s1 r else FNext n (on_st (next_elem n) s1))"
    using assms(1,2) plain_type_kinds [OF ty(2)] ty ops proc [OF assms(3), of p]
    by (simp add: frame_round_def frame_elem_def e no_test Let_def dat_def)
  show ?thesis
  proof (cases "leaf (es_malloc st) (x, d) (dat (st, p))")
    case None
    then show ?thesis using round by (simp add: walks_to_def frame_loop.simps)
  next
    case (Some o1)
    obtain d1 r where o1: "o1 = (d1, r)" by (cases o1)
    show ?thesis
    proof (cases "r < 0")
      case True
      then show ?thesis using round Some o1 by (simp add: walks_to_def frame_loop.simps)
    next
      case False
      have nx: "on_st (next_elem n) (put_dat st d1) = put_dat (next_elem n st) d1"
        by (simp add: on_st_def put_dat_def next_elem_def upd_snode_def)
      have "passed st (next_elem n st) n {} (Suc i)"
        using assms(1) by (auto simp: passed_def next_elem_def upd_snode_def same_node_def fun_upd_apply)
      moreover have "frame_loop funcs root n (st, p) = frame_loop funcs root n (put_dat (next_elem n st) d1)"
        using round Some o1 False by (subst frame_loop.simps) (simp add: nx)
      ultimately show ?thesis using Some o1 False by (auto simp: walks_to_def)
    qed
  qed
qed

lemma round_enter:
  assumes "temp_var (es_node st n) = int i" "int i < sn_elem_no (es_node st n)" "etype st (n, i) = CUBE_TYPE_SUBSTRUCT"
    "et_ref (el st (n, i)) = ERefNode q" "et_limit (el st (n, i)) = 0" "0 \<le> ea_size (elem_desc (el st (n, i)))"
    "i < length (elem_list (es_node st n))"
  shows "frame_loop funcs root n (st, p)
    = frame_loop funcs root q (upd_snode q (\<lambda>d. d\<lparr>temp_var := 0\<rparr>) (in_rep (n, i) 0 (nat (reps (elem_desc (el st (n, i))))) st), p)"
proof -
  let ?e = "(n, i)"
  have e: "curr_eid n st = ?e" using assms(1) by (simp add: curr_eid_def)
  have rep: "set_limit ?e (reps (elem_desc (el st ?e))) st = in_rep ?e 0 (nat (reps (elem_desc (el st ?e)))) st"
    using reps_pos [OF assms(6)] by (simp add: set_limit_def in_rep_def)
  have keep: "etype (in_rep ?e 0 k st) ?e = CUBE_TYPE_SUBSTRUCT" "et_ref (el (in_rep ?e 0 k st) ?e) = ERefNode q" for k
    using assms(3,4,7) by (simp_all add: in_rep_def el_upd_elem)
  have "frame_round funcs root n (st, p)
      = FNext q (upd_snode q (\<lambda>d. d\<lparr>temp_var := 0\<rparr>) (in_rep ?e 0 (nat (reps (elem_desc (el st ?e)))) st), p)"
    using assms(1,2,3) enter [OF assms(5,3), of p] keep
    by (simp add: frame_round_def frame_elem_def e no_test Let_def rep on_st_def)
  then show ?thesis by (subst frame_loop.simps) simp
qed

lemma round_enter_again:
  assumes "temp_var (es_node st n) = int i" "int i < sn_elem_no (es_node st n)" "etype st (n, i) = CUBE_TYPE_SUBSTRUCT"
    "et_ref (el st (n, i)) = ERefNode q" "et_limit (el st (n, i)) \<noteq> 0"
  shows "frame_loop funcs root n (st, p) = frame_loop funcs root q (upd_snode q (\<lambda>d. d\<lparr>temp_var := 0\<rparr>) st, p)"
proof -
  have e: "curr_eid n st = (n, i)" using assms(1) by (simp add: curr_eid_def)
  have "frame_round funcs root n (st, p) = FNext q (upd_snode q (\<lambda>d. d\<lparr>temp_var := 0\<rparr>) st, p)"
    using assms enter_again [OF assms(5,3), of p] by (simp add: frame_round_def frame_elem_def e no_test Let_def on_st_def)
  then show ?thesis by (subst frame_loop.simps) simp
qed

lemma round_leave:
  assumes "temp_var (es_node st q) = sn_elem_no (es_node st q)" "q \<noteq> root" "sn_parent (es_node st q) = Some n"
    "temp_var (es_node st n) = int i" "etype st (n, i) = CUBE_TYPE_SUBSTRUCT" "i < length (elem_list (es_node st n))"
    "et_index (el st (n, i)) = int j" "et_limit (el st (n, i)) = int k"
  shows "frame_loop funcs root q (st, p) = frame_loop funcs root n
    (if Suc j \<ge> k then next_elem n (upd_elem (n, i) (\<lambda>t. t\<lparr>et_limit := 0, et_index := 0\<rparr>) st)
     else upd_elem (n, i) (\<lambda>t. t\<lparr>et_index := int (Suc j)\<rparr>) st, p)"
proof -
  let ?e = "(n, i)"
  let ?s1 = "upd_elem ?e (\<lambda>t. t\<lparr>et_index := et_index t + 1\<rparr>) st"
  have e: "curr_eid n st = ?e" using assms(4) by (simp add: curr_eid_def)
  have el1: "el ?s1 ?e = (el st ?e)\<lparr>et_index := int (Suc j)\<rparr>" using assms(6,7) by (simp add: el_upd_elem)
  have fold: "upd_elem ?e f ?s1 = upd_elem ?e (\<lambda>t. f (t\<lparr>et_index := et_index t + 1\<rparr>)) st" for f
    using assms(6) by (simp add: upd_elem_def upd_snode_def fun_upd_apply)
  have idx: "?s1 = upd_elem ?e (\<lambda>t. t\<lparr>et_index := int (Suc j)\<rparr>) st"
    using assms(7) by (simp add: upd_elem_def upd_snode_def el_def add.commute)
  have "frame_round funcs root q (st, p) = frame_leave funcs q (st, p)"
    using assms(1,2) by (simp add: frame_round_def Let_def)
  also have "\<dots> = FNext n (if Suc j \<ge> k then next_elem n (upd_elem ?e (\<lambda>t. t\<lparr>et_limit := 0, et_index := 0\<rparr>) st)
     else upd_elem ?e (\<lambda>t. t\<lparr>et_index := int (Suc j)\<rparr>) st, p)"
  proof (cases "Suc j \<ge> k")
    case True
    then show ?thesis using assms(3,5,8) el1
      by (simp add: frame_leave_def e Let_def on_st_def leave fold)
  next
    case False
    then show ?thesis using assms(3,5,8) el1
      by (simp add: frame_leave_def e Let_def on_st_def leave) (simp add: idx)
  qed
  finally show ?thesis by (subst frame_loop.simps) simp
qed

lemma leave_rep:
  assumes "ready root A st n (TSub d (TNode q ces) es) fat i off x"
    and "passed (upd_snode q (\<lambda>d. d\<lparr>temp_var := 0\<rparr>) (in_rep (n, i) j k st)) st2 q (set (elem_ids ces)) (elem_count ces)"
  defines "st3 \<equiv> upd_elem (n, i) (\<lambda>t. t\<lparr>et_limit := 0, et_index := 0\<rparr>) st2"
  shows "frame_loop funcs root q (put_dat st2 d') =
    frame_loop funcs root n (put_dat (if Suc j \<ge> k then next_elem n st3 else in_rep (n, i) (Suc j) k st3) d')"
proof -
  let ?e = "(n, i)" and ?st2 = "fst (put_dat st2 d')" and ?r = "in_rep (n, i) j k st"
  have n2: "es_node st2 n = es_node ?r n" by (rule passed_back(2) [OF assms(1,2)])
  have len: "i < length (elem_list (es_node st n))" using assms(1) by (simp add: ready_def)
  have el: "el st2 ?e = (el st ?e)\<lparr>et_index := int j, et_limit := int k\<rparr>"
    using n2 len by (simp add: el_def) (simp add: in_rep_def upd_elem_def fun_upd_apply)
  have ids: "q \<noteq> n" "q \<noteq> root" using assms(1) by (auto simp: ready_def)
  have q: "sn_elem_no (es_node st2 q) = int (elem_count ces)" "sn_parent (es_node st2 q) = Some n"
    "temp_var (es_node st2 q) = int (elem_count ces)"
    using assms(1) passed_sel(2,3) [OF assms(2), of q] assms(2) by (auto simp: ready_def in_rep_own passed_def fun_upd_apply)
  have fin: "frame_loop funcs root q (?st2, snd (snd d')) = frame_loop funcs root n
      (if Suc j \<ge> k then next_elem n (upd_elem ?e (\<lambda>t. t\<lparr>et_limit := 0, et_index := 0\<rparr>) ?st2)
       else upd_elem ?e (\<lambda>t. t\<lparr>et_index := int (Suc j)\<rparr>) ?st2, snd (snd d'))"
  proof (rule round_leave)
    have same: "el ?st2 ?e = el st2 ?e" by (simp add: el_def)
    show "temp_var (es_node ?st2 q) = sn_elem_no (es_node ?st2 q)" "q \<noteq> root" "sn_parent (es_node ?st2 q) = Some n"
      using q ids by simp_all
    show "temp_var (es_node ?st2 n) = int i" using n2 assms(1) by (simp add: in_rep_own ready_def)
    show "etype ?st2 ?e = CUBE_TYPE_SUBSTRUCT" using same el assms(1) by (simp add: ready_def Let_def el_def)
    show "i < length (elem_list (es_node ?st2 n))" using n2 len by (simp add: in_rep_own)
    show "et_index (el ?st2 ?e) = int j" "et_limit (el ?st2 ?e) = int k" using same el by simp_all
  qed
  have swap: "t\<lparr>et_limit := int k, et_index := 1 + int j\<rparr> = t\<lparr>et_index := 1 + int j, et_limit := int k\<rparr>" for t :: elem_template
    by simp
  have idx: "upd_elem ?e (\<lambda>t. t\<lparr>et_index := int (Suc j)\<rparr>) st2 = in_rep ?e (Suc j) k st3"
    using n2 len el by (simp add: st3_def in_rep_def upd_elem_def upd_snode_def fun_upd_apply el_def swap)
  have "put_dat st2 d' = (?st2, snd (snd d'))" by (simp add: put_dat_def)
  moreover have "(if Suc j \<ge> k then next_elem n (upd_elem ?e (\<lambda>t. t\<lparr>et_limit := 0, et_index := 0\<rparr>) ?st2)
       else upd_elem ?e (\<lambda>t. t\<lparr>et_index := int (Suc j)\<rparr>) ?st2, snd (snd d'))
     = put_dat (if Suc j \<ge> k then next_elem n st3 else in_rep ?e (Suc j) k st3) d'"
    unfolding idx [symmetric] by (simp add: st3_def put_dat_def next_elem_def upd_elem_def upd_snode_def)
  ultimately show ?thesis using fin by simp
qed

text \<open>One repetition of a sub-structure, and all of them from \<open>j\<close> on, given what its elements do.\<close>

lemma walk_rep:
  assumes IH: "\<And>st A fat x p. ready root A st q ces fat 0 0 x \<Longrightarrow>
      walks_to funcs root q (st, p) (run_leaves (leaf (es_malloc st)) (flat ces x) (dat (st, p))) q
        (\<lambda>st'. passed st st' q (set (elem_ids ces)) (elem_count ces))"
    and rdy: "ready root A st n (TSub d (TNode q ces) es) fat i off x" and "j < k"
    and rest: "\<And>st3 d'. passed st st3 n (insert q (set (elem_ids ces))) i \<Longrightarrow>
      walks_to funcs root n (put_dat (if Suc j \<ge> k then next_elem n st3 else in_rep (n, i) (Suc j) k st3) d')
        (run_leaves (leaf (es_malloc st)) (concat (map (\<lambda>j. flat ces (x + off + esize ces * int j)) [Suc j..<k])) d') n Q"
  shows "walks_to funcs root q (upd_snode q (\<lambda>d. d\<lparr>temp_var := 0\<rparr>) (in_rep (n, i) j k st), p)
     (run_leaves (leaf (es_malloc st)) (concat (map (\<lambda>j. flat ces (x + off + esize ces * int j)) [j..<k])) (dat (st, p))) n Q"
proof -
  let ?st = "upd_snode q (\<lambda>d. d\<lparr>temp_var := 0\<rparr>) (in_rep (n, i) j k st)"
  have upt: "[j..<k] = j # [Suc j..<k]" using \<open>j < k\<close> by (simp add: upt_rec)
  show ?thesis unfolding upt list.map concat.simps
  proof (rule walks_to_append)
    show "walks_to funcs root q (?st, p) (run_leaves (leaf (es_malloc st)) (flat ces (x + off + esize ces * int j)) (dat (st, p))) q
        (\<lambda>st'. passed ?st st' q (set (elem_ids ces)) (elem_count ces))"
      using IH [OF ready_enter [OF rdy], of j k p] by (simp add: dat_def add.assoc)
  next
    fix st2 d'
    assume st2: "passed ?st st2 q (set (elem_ids ces)) (elem_count ces)"
    show "walks_to funcs root q (put_dat st2 d')
        (run_leaves (leaf (es_malloc st)) (concat (map (\<lambda>j. flat ces (x + off + esize ces * int j)) [Suc j..<k])) d') n Q"
      by (rule walks_to_step [OF leave_rep [OF rdy st2] rest [OF passed_back(1) [OF rdy st2]]])
  qed
qed

lemma walk_reps:
  assumes IH: "\<And>st A fat x p. ready root A st q ces fat 0 0 x \<Longrightarrow>
      walks_to funcs root q (st, p) (run_leaves (leaf (es_malloc st)) (flat ces x) (dat (st, p))) q
        (\<lambda>st'. passed st st' q (set (elem_ids ces)) (elem_count ces))"
    and "ready root A st n (TSub d (TNode q ces) es) fat i off x" "j + Suc m = k"
  shows "walks_to funcs root q (upd_snode q (\<lambda>d. d\<lparr>temp_var := 0\<rparr>) (in_rep (n, i) j k st), p)
     (run_leaves (leaf (es_malloc st)) (concat (map (\<lambda>j. flat ces (x + off + esize ces * int j)) [j..<k])) (dat (st, p))) n
     (\<lambda>st'. passed st st' n (insert q (set (elem_ids ces))) (Suc i))"
  using assms(2,3)
proof (induction m arbitrary: st p j)
  case 0
  show ?case
  proof (rule walk_rep [OF IH 0(1)])
    show "j < k" using 0(2) by simp
    fix st3 and d' :: "'p dat"
    assume st3: "passed st st3 n (insert q (set (elem_ids ces))) i"
    have "passed st (next_elem n st3) n (insert q (set (elem_ids ces))) (Suc i)"
      using st3 by (auto simp: passed_def next_elem_def same_node_def fun_upd_apply)
    then show "walks_to funcs root n (put_dat (if Suc j \<ge> k then next_elem n st3 else in_rep (n, i) (Suc j) k st3) d')
      (run_leaves (leaf (es_malloc st)) (concat (map (\<lambda>j. flat ces (x + off + esize ces * int j)) [Suc j..<k])) d') n
      (\<lambda>st'. passed st st' n (insert q (set (elem_ids ces))) (Suc i))"
      using 0(2) by (auto simp: walks_to_def)
  qed
next
  case (Suc m)
  let ?K = "insert q (set (elem_ids ces))"
  show ?case
  proof (rule walk_rep [OF IH Suc.prems(1)])
    show "j < k" using Suc.prems(2) by simp
    fix st3 and d' :: "'p dat"
    assume st3: "passed st st3 n ?K i"
    let ?st = "fst (put_dat st3 d')" and ?p = "snd (snd d')"
    have "passed st ?st n ?K i" using st3 by (simp add: passed_def)
    note rdy = ready_passed [OF Suc.prems(1) this]
    have dat: "dat (?st, ?p) = d'" by (simp add: dat_def put_dat_def)
    have own: "i < length (elem_list (es_node ?st n))" "k \<noteq> 0" using rdy Suc.prems(2) by (auto simp: ready_def)
    have el: "el (in_rep (n, i) (Suc j) k ?st) (n, i) = (el ?st (n, i))\<lparr>et_index := int (Suc j), et_limit := int k\<rparr>"
      using own(1) by (simp only: in_rep_def) (simp add: el_upd_elem)
    have "walks_to funcs root n (in_rep (n, i) (Suc j) k ?st, ?p)
        (run_leaves (leaf (es_malloc ?st)) (concat (map (\<lambda>j. flat ces (x + off + esize ces * int j)) [Suc j..<k])) (dat (?st, ?p))) n
        (\<lambda>st'. passed ?st st' n ?K (Suc i))"
    proof (rule walks_to_step [OF round_enter_again Suc.IH [OF rdy]])
      show "temp_var (es_node (in_rep (n, i) (Suc j) k ?st) n) = int i"
        "int i < sn_elem_no (es_node (in_rep (n, i) (Suc j) k ?st) n)" using rdy by (simp_all add: in_rep_own ready_def)
      show "etype (in_rep (n, i) (Suc j) k ?st) (n, i) = CUBE_TYPE_SUBSTRUCT"
        "et_ref (el (in_rep (n, i) (Suc j) k ?st) (n, i)) = ERefNode q"
        using el rdy by (simp_all add: ready_def Let_def el_def)
      show "et_limit (el (in_rep (n, i) (Suc j) k ?st) (n, i)) \<noteq> 0" using el own(2) by simp
      show "Suc j + Suc m = k" using Suc.prems(2) by simp
    qed
    then have "walks_to funcs root n (in_rep (n, i) (Suc j) k ?st, ?p)
        (run_leaves (leaf (es_malloc st)) (concat (map (\<lambda>j. flat ces (x + off + esize ces * int j)) [Suc j..<k])) d') n
        (\<lambda>st'. passed st st' n ?K (Suc i))"
      unfolding dat using passed_sel(5) [OF st3] passed_trans [OF \<open>passed st ?st n ?K i\<close>, of _ ?K]
      by (auto elim!: walks_to_mono)
    moreover have "put_dat (in_rep (n, i) (Suc j) k st3) d' = (in_rep (n, i) (Suc j) k ?st, ?p)"
      by (simp add: put_dat_def in_rep_def upd_elem_def upd_snode_def)
    ultimately show "walks_to funcs root n (put_dat (if Suc j \<ge> k then next_elem n st3 else in_rep (n, i) (Suc j) k st3) d')
      (run_leaves (leaf (es_malloc st)) (concat (map (\<lambda>j. flat ces (x + off + esize ces * int j)) [Suc j..<k])) d') n
      (\<lambda>st'. passed st st' n ?K (Suc i))"
      using Suc.prems(2) by simp
  qed
qed


text \<open>The walk over the elements of a node is the steps of its plain elements, in their order.\<close>

lemma walk_elems:
  fixes t :: tnode and es :: telems
  shows "\<And>st A fat x p. ready root A st (node_id t) (node_elems t) fat 0 0 x \<Longrightarrow>
      walks_to funcs root (node_id t) (st, p) (run_leaves (leaf (es_malloc st)) (flat (node_elems t) x) (dat (st, p))) (node_id t)
        (\<lambda>st'. passed st st' (node_id t) (set (elem_ids (node_elems t))) (elem_count (node_elems t)))"
    and "\<And>st A n fat i off x p. ready root A st n es fat i off x \<Longrightarrow>
      walks_to funcs root n (st, p) (run_leaves (leaf (es_malloc st)) (flat es (x + off)) (dat (st, p))) n
        (\<lambda>st'. passed st st' n (set (elem_ids es)) (i + elem_count es))"
proof (induction t and es rule: tnode.induct telems.induct)
  case (TNode n es)
  show ?case using TNode.IH [of A st n fat 0 0 x p] TNode.prems by simp
next
  case TNil
  then have "passed st st n {} i" by (simp add: passed_refl ready_def)
  then show ?case using put_dat_self [of st p] by (auto simp: walks_to_def intro!: exI [of _ st])
next
  case (TField d es)
  have flat: "flat (TField d es) (x + off) = [(x + off, d)] @ flat es (x + (off + fsize d))" by (simp add: add.assoc)
  show ?case unfolding flat
  proof (rule walks_to_append)
    show "walks_to funcs root n (st, p) (run_leaves (leaf (es_malloc st)) [(x + off, d)] (dat (st, p))) n
        (\<lambda>st'. passed st st' n {} (Suc i))"
      using TField.prems by (intro round_leaf ready_leaf [OF TField.prems]) (simp_all add: ready_def)
    fix st' and d' :: "'p dat"
    assume st': "passed st st' n {} (Suc i)"
    then have step: "passed st (fst (put_dat st' d')) n {} (Suc i)" by (simp add: passed_def)
    have "walks_to funcs root n (put_dat st' d') (run_leaves (leaf (es_malloc st)) (flat es (x + (off + fsize d))) d') n
        (\<lambda>st''. passed (fst (put_dat st' d')) st'' n (set (elem_ids es)) (Suc i + elem_count es))"
      using TField.IH [OF ready_field [OF TField.prems step], of "snd (put_dat st' d')"] passed_sel(5) [OF step] by simp
    then show "walks_to funcs root n (put_dat st' d') (run_leaves (leaf (es_malloc st)) (flat es (x + (off + fsize d))) d') n
        (\<lambda>st''. passed st st'' n (set (elem_ids (TField d es))) (i + elem_count (TField d es)))"
      using passed_trans [OF step, of _ "set (elem_ids es)"] by (auto elim!: walks_to_mono)
  qed
next
  case (TSub d t es)
  obtain q ces where t: "t = TNode q ces" by (cases t)
  let ?k = "nat (reps d)" and ?K = "insert q (set (elem_ids ces))"
  have rdy: "ready root A st n (TSub d (TNode q ces) es) fat i off x" using TSub.prems t by simp
  have own: "elem_desc (el st (n, i)) = d" "0 \<le> ea_size d" "etype st (n, i) = CUBE_TYPE_SUBSTRUCT"
    "et_ref (el st (n, i)) = ERefNode q" "et_limit (el st (n, i)) = 0"
    using rdy by (simp_all add: ready_def Let_def el_def)
  have k: "0 < ?k" "int ?k = reps d" using reps_pos [OF own(2)] by simp_all
  have flat: "flat (TSub d t es) (x + off) = concat (map (\<lambda>j. flat ces (x + off + esize ces * int j)) [0..<?k])
      @ flat es (x + (off + nsize t * reps d))"
    using t by (simp add: add.assoc)
  have IH: "\<And>st A fat x p. ready root A st q ces fat 0 0 x \<Longrightarrow>
      walks_to funcs root q (st, p) (run_leaves (leaf (es_malloc st)) (flat ces x) (dat (st, p))) q
        (\<lambda>st'. passed st st' q (set (elem_ids ces)) (elem_count ces))"
    using TSub.IH(1) t by simp
  have first: "frame_loop funcs root n (st, p)
    = frame_loop funcs root q (upd_snode q (\<lambda>d. d\<lparr>temp_var := 0\<rparr>) (in_rep (n, i) 0 ?k st), p)"
    using round_enter [of st n i q root p] own rdy by (simp add: ready_def)
  have reps: "walks_to funcs root n (st, p)
     (run_leaves (leaf (es_malloc st)) (concat (map (\<lambda>j. flat ces (x + off + esize ces * int j)) [0..<?k])) (dat (st, p))) n
     (\<lambda>st'. passed st st' n ?K (Suc i))"
    using k(1) by (intro walks_to_step [OF first walk_reps [OF IH rdy, where m = "?k - 1"]]) simp_all
  show ?case unfolding flat
  proof (rule walks_to_append [OF reps])
    fix st' and d' :: "'p dat"
    assume "passed st st' n ?K (Suc i)"
    then have step: "passed st (fst (put_dat st' d')) n ?K (Suc i)" by (simp add: passed_def)
    have "walks_to funcs root n (put_dat st' d') (run_leaves (leaf (es_malloc st)) (flat es (x + (off + nsize t * reps d))) d') n
        (\<lambda>st''. passed (fst (put_dat st' d')) st'' n (set (elem_ids es)) (Suc i + elem_count es))"
      using TSub.IH(2) [OF ready_sub_rest [OF TSub.prems step], of "snd (put_dat st' d')"] passed_sel(5) [OF step] by simp
    then show "walks_to funcs root n (put_dat st' d') (run_leaves (leaf (es_malloc st)) (flat es (x + (off + nsize t * reps d))) d') n
        (\<lambda>st''. passed st st'' n (set (elem_ids (TSub d t es))) (i + elem_count (TSub d t es)))"
      using passed_trans [OF step, of _ "set (elem_ids es)"] t by (auto elim!: walks_to_mono)
  qed
qed

text \<open>A walk over a whole template, from its root.\<close>

lemma frame_result:
  assumes "ready root {} st1 root es None 0 0 0" "dop_start funcs = None" "dop_finish funcs = None"
    and "st1 = upd_snode root (\<lambda>d. d\<lparr>temp_var := 0\<rparr>) st"
    and "run_leaves (leaf (es_malloc st)) (flat es 0) (dat (st, p)) = out"
  shows "case out of
      None \<Rightarrow> convert_frame_func funcs root (st, p) = Some None
    | Some (d, r) \<Rightarrow>
        if r < 0 then \<exists>s'. convert_frame_func funcs root (st, p) = Some (Some (s', r)) \<and> dat s' = d
        else \<exists>st'. passed st1 st' root (set (elem_ids es)) (elem_count es)
          \<and> convert_frame_func funcs root (st, p) = Some (Some (put_dat st' d, 0))"
proof -
  have start: "convert_frame_func funcs root (st, p) = frame_loop funcs root root (st1, p)"
    using assms(2,4) by (simp add: convert_frame_func_def on_st_def Let_def)
  have "dat (st1, p) = dat (st, p)" "es_malloc st1 = es_malloc st" using assms(4) by (simp_all add: dat_def)
  then have w: "walks_to funcs root root (st1, p) out root (\<lambda>st'. passed st1 st' root (set (elem_ids es)) (elem_count es))"
    using walk_elems(2) [OF assms(1), of p] assms(5) by simp
  have fin: "frame_loop funcs root root (put_dat st' d) = Some (Some (put_dat st' d, 0))"
    if "passed st1 st' root (set (elem_ids es)) (elem_count es)" for st' d
  proof -
    have "temp_var (es_node st' root) = sn_elem_no (es_node st' root)"
      using that passed_sel(3) [OF that] assms(1) by (simp add: passed_def ready_def)
    then show ?thesis using assms(3) by (subst frame_loop.simps) (simp add: frame_round_def Let_def)
  qed
  show ?thesis using w fin unfolding walks_to_def start by (auto split: option.splits if_splits)
qed

end

end
