(* ===== verification/Cube_Struct_Blob.thy ===== *)
theory Cube_Struct_Blob
  imports Cube_Struct_Walk
begin

text \<open>
  The conversions of \<^verbatim>\<open>struct_deal.c\<close> on templates of plain elements and repeated sub-structures: a
  structure to a blob and back, cloning and comparing. Each of them is shown to keep
  the contract of the walk, with the step it makes for one plain element.
\<close>

section \<open>Whole templates\<close>

definition template_at :: "estate \<Rightarrow> nat \<Rightarrow> telems \<Rightarrow> bool" where
  "template_at st root es \<longleftrightarrow> tok_node (TNode root es) (es_node st) None None \<and> distinct (root # elem_ids es)"

definition same_template :: "estate \<Rightarrow> estate \<Rightarrow> bool" where
  "same_template st st' \<longleftrightarrow> es_next st' = es_next st \<and> es_malloc st' = es_malloc st \<and> es_stack st' = es_stack st
     \<and> (\<forall>k. same_node (es_node st' k) (es_node st k))"

lemma template_ready:
  assumes "template_at st root es"
  shows "ready root {} (upd_snode root (\<lambda>d. d\<lparr>temp_var := 0\<rparr>) st) root es None 0 0 0"
proof -
  let ?st = "upd_snode root (\<lambda>d. d\<lparr>temp_var := 0\<rparr>) st"
  have "tok_node (TNode root es) (es_node ?st) None None"
    using assms by (intro tok_same(1) [of "TNode root es" "es_node ?st" "es_node st"])
      (auto simp: template_at_def same_node_def fun_upd_apply)
  then show ?thesis using assms fchain_root by (simp add: ready_def template_at_def fun_upd_apply)
qed

lemma same_template_at:
  assumes "same_template st st'" "template_at st root es"
  shows "template_at st' root es"
  using assms tok_same(1) [of "TNode root es" "es_node st'" "es_node st" None None]
  by (simp add: template_at_def same_template_def)

lemma same_template_trans: "same_template a b \<Longrightarrow> same_template b c \<Longrightarrow> same_template a c"
  by (auto simp: same_template_def intro: same_node_trans)

locale deal_walk = frame_walk funcs leaf
  for funcs :: "deal_para struct_deal_ops"
    and leaf :: "(nat \<Rightarrow> nat option) \<Rightarrow> int \<times> elem_attr \<Rightarrow> deal_para dat \<Rightarrow> (deal_para dat \<times> int) option" +
  assumes no_start: "dop_start funcs = None" and no_finish: "dop_finish funcs = None"
begin

lemma deal_result:
  assumes "template_at st root es" "es_malloc st (es_calls st) \<noteq> None"
    and "run_leaves (leaf (es_malloc st)) (flat es 0) (es_mem st, es_calls st + 1, \<lparr>dp_offset = 0, dp_flag = flag\<rparr>)
      = Some ((m, c, p), r)"
  shows "\<exists>st'. run_deal funcs checked root flag st = Some (Some (st', if r < 0 then r else dp_offset p))
    \<and> es_mem st' = m \<and> es_calls st' = c \<and> (\<not> r < 0 \<longrightarrow> same_template st st')"
proof -
  let ?st = "st\<lparr>es_calls := es_calls st + 1\<rparr>" and ?p = "\<lparr>dp_offset = 0, dp_flag = flag\<rparr>"
  have "template_at ?st root es" using assms(1) by (simp add: template_at_def)
  note ready = template_ready [OF this]
  have "run_leaves (leaf (es_malloc ?st)) (flat es 0) (dat (?st, ?p)) = Some ((m, c, p), r)"
    using assms(3) by (simp add: dat_def)
  note frame = frame_result [OF ready no_start no_finish refl this]
  have run: "run_deal funcs checked root flag st =
      (case convert_frame_func funcs root (?st, ?p) of
         None \<Rightarrow> None
       | Some None \<Rightarrow> Some None
       | Some (Some ((st2, para), r)) \<Rightarrow> Some (Some (st2, if r < 0 then r else dp_offset para)))"
    using assms(2) by (simp add: run_deal_def talloc_ok_def)
  show ?thesis
  proof (cases "r < 0")
    case True
    then obtain s' where s': "convert_frame_func funcs root (?st, ?p) = Some (Some (s', r))" "dat s' = (m, c, p)"
      using frame by auto
    then show ?thesis using run True by (cases s') (simp add: dat_def)
  next
    case False
    then obtain st' where st': "passed (upd_snode root (\<lambda>d. d\<lparr>temp_var := 0\<rparr>) ?st) st' root (set (elem_ids es)) (elem_count es)"
      "convert_frame_func funcs root (?st, ?p) = Some (Some (put_dat st' (m, c, p), 0))"
      using frame by auto
    have "same_node (es_node st' k) (es_node st k)" for k
    proof -
      have "same_node (es_node st' k) (es_node (upd_snode root (\<lambda>d. d\<lparr>temp_var := 0\<rparr>) ?st) k)" using st'(1) by (simp add: passed_def)
      then show ?thesis by (rule same_node_trans) (auto simp: same_node_def fun_upd_apply)
    qed
    then have "same_template st (fst (put_dat st' (m, c, p)))" using st'(1) by (simp add: same_template_def passed_def)
    then show ?thesis using run st'(2) False by (simp add: put_dat_def)
  qed
qed

end

section \<open>Plain elements of a structure\<close>

text \<open>The addresses of an element and its contents: the bytes it is encoded as.\<close>

definition leaf_range :: "nat \<Rightarrow> int \<times> elem_attr \<Rightarrow> nat set" where
  "leaf_range a l = {adr_plus a (fst l)..<adr_plus a (fst l) + nat (fsize (snd l))}"

definition is_string :: "int \<times> elem_attr \<Rightarrow> bool" where
  "is_string l \<longleftrightarrow> ea_type (snd l) = CUBE_TYPE_ESTRING"

definition leaf_code :: "mem \<Rightarrow> nat \<Rightarrow> int \<times> elem_attr \<Rightarrow> byte list" where
  "leaf_code m a l =
     (if is_string l then
        (let q = get_ptr m (adr_plus a (fst l))
         in if q = 0 then [] else case Strlen m q of None \<Rightarrow> [] | Some n \<Rightarrow> mem_bytes m q (n + 1))
      else mem_bytes m (adr_plus a (fst l)) (nat (fsize (snd l))))"

text \<open>The elements of a template lie one behind the other.\<close>

fun in_order :: "int \<Rightarrow> (int \<times> elem_attr) list \<Rightarrow> int \<Rightarrow> bool" where
  "in_order b [] e \<longleftrightarrow> b \<le> e"
| "in_order b (l # ls) e \<longleftrightarrow> b \<le> fst l \<and> 0 \<le> fsize (snd l) \<and> plain_type (ea_type (snd l)) \<and> in_order (fst l + fsize (snd l)) ls e"

lemma in_order_append: "in_order b xs c \<Longrightarrow> in_order c ys e \<Longrightarrow> in_order b (xs @ ys) e"
proof (induction xs arbitrary: b)
  case Nil
  then show ?case by (cases ys) auto
qed auto

lemma in_order_concat:
  "(\<And>j. j < k \<Longrightarrow> in_order (b + s * int j) (f j) (b + s * int j + s)) \<Longrightarrow>
   in_order b (concat (map f [0..<k])) (b + s * int k)"
proof (induction k)
  case (Suc k)
  have "in_order b (concat (map f [0..<k])) (b + s * int k)" using Suc by simp
  moreover have "in_order (b + s * int k) (f k) (b + s * int (Suc k))" using Suc.prems [of k] by (simp add: algebra_simps)
  ultimately show ?case by (simp add: in_order_append)
qed simp

lemma flat_in_order:
  fixes t :: tnode and es :: telems
  shows "tok_node t nd par fat \<Longrightarrow> in_order b (flat_node t b) (b + nsize t)"
    and "tok_elems es nd n fat i off \<Longrightarrow> in_order b (flat es b) (b + esize es)"
proof (induction t and es arbitrary: par fat b and n fat i off b rule: tnode.induct telems.induct)
  case (TNode n es)
  then show ?case using TNode.IH [of n fat 0 0 b] by simp
next
  case TNil
  then show ?case by simp
next
  case (TField d es)
  then show ?case using TField.IH [of n fat "Suc i" "off + fsize d" "b + fsize d"] by (simp add: Let_def add.assoc)
next
  case (TSub d t es)
  have k: "int (nat (reps d)) = reps d" using TSub.prems reps_pos [of d] by (simp add: Let_def)
  have "in_order b (concat (map (\<lambda>j. flat_node t (b + nsize t * int j)) [0..<nat (reps d)])) (b + nsize t * int (nat (reps d)))"
    using TSub.IH(1) [of "Some n" "Some (n, i)"] TSub.prems by (intro in_order_concat) simp
  moreover have "in_order (b + nsize t * reps d) (flat es (b + nsize t * reps d)) (b + nsize t * reps d + esize es)"
    using TSub.IH(2) [of n fat "Suc i" "off + nsize t * reps d" "b + nsize t * reps d"] TSub.prems by simp
  ultimately show ?case using k by (simp add: in_order_append add.assoc)
qed

lemma template_in_order: "template_at st root es \<Longrightarrow> in_order 0 (flat es 0) (esize es)"
  using flat_in_order(2) [of es "es_node st" root None 0 0 0] by (simp add: template_at_def)

lemma in_order_mem: "in_order b ls e \<Longrightarrow> l \<in> set ls \<Longrightarrow> b \<le> fst l \<and> 0 \<le> fsize (snd l) \<and> fst l + fsize (snd l) \<le> e \<and> plain_type (ea_type (snd l))"
proof (induction ls arbitrary: b)
  case (Cons k ls)
  have "in_order c ls e \<Longrightarrow> c \<le> e" for c by (induction ls arbitrary: c) force+
  then show ?case using Cons by (auto dest: Cons.IH)
qed simp

lemma plain_ops:
  assumes "plain_type ty" "ty \<noteq> CUBE_TYPE_ESTRING"
  shows "\<exists>ops. elem_get_ops ty = Some ops \<and> op_get_bin_value ops = None \<and> op_set_bin_value ops = None"
    and "\<not> by_pointer ty" "\<not> ispointerelem ty"
  using assms
  by (auto simp: plain_type_def elem_get_ops_table by_pointer_def type_kinds string_convert_ops_def uuid_convert_ops_def
      int_convert_ops_def bindata_convert_ops_def hexdata_convert_ops_def enum_convert_ops_def flag_convert_ops_def null_ops_def)

lemma estring_ops:
  "elem_get_ops CUBE_TYPE_ESTRING = Some estring_convert_ops" "by_pointer CUBE_TYPE_ESTRING"
  "op_get_bin_value estring_convert_ops = None" "op_set_bin_value estring_convert_ops = None"
  "op_get_length estring_convert_ops = Some estring_get_length" "\<not> isdefineelem CUBE_TYPE_ESTRING" "\<not> isarrayelem CUBE_TYPE_ESTRING"
  "ispointerelem CUBE_TYPE_ESTRING"
  by (simp_all add: elem_get_ops_table by_pointer_def type_kinds estring_convert_ops_def null_ops_def)

text \<open>The length of a string with its NUL, 0 for a pointer that is \<^verbatim>\<open>NULL\<close>.\<close>

definition str_length :: "mem \<Rightarrow> nat \<Rightarrow> int option" where
  "str_length m q = (if q = 0 then Some 0 else map_option (\<lambda>n. int n + 1) (Strlen m q))"

lemma leaf_bin_length:
  assumes "leaf_at st e x d" "ea_type d \<noteq> CUBE_TYPE_ESTRING"
  shows "elem_get_bin_length st v e a = Some (fsize d)"
  using assms plain_ops(3) [of "ea_type d"] by (simp add: elem_get_bin_length_def leaf_at_def fsize_def Let_def)

lemma elem_get_bin_leaf:
  assumes "leaf_at st e x d"
  shows "elem_get_bin_value st addr data e =
     (let src = adr_plus addr x; q = get_ptr (es_mem st) src
      in if src = 0 then None
         else if ea_type d = CUBE_TYPE_ESTRING then
           map_option (\<lambda>r. (set_mem (if r = 0 then es_mem st else mcpy (es_mem st) data q r) st, r)) (str_length (es_mem st) q)
         else Some (set_mem (mcpy (es_mem st) data src (fsize d)) st, fsize d))"
proof (cases "ea_type d = CUBE_TYPE_ESTRING")
  case True
  have *: "0 \<noteq> 1 + int n" for n by linarith
  show ?thesis using assms True
    by (auto simp: leaf_at_def elem_get_bin_value_def estring_ops repeat_num_def deref_def estring_get_length_def
        str_length_def Let_def * split: option.splits)
next
  case False
  have ty: "elem_desc (el st e) = d" "plain_type (ea_type d)" "elem_get_addr st e addr = Some (adr_plus addr x)" "0 \<le> fsize d"
    using assms by (simp_all add: leaf_at_def)
  obtain ops where "elem_get_ops (ea_type d) = Some ops" "op_get_bin_value ops = None" using plain_ops(1) [OF ty(2) False] by blast
  then show ?thesis
    using ty False plain_ops(2) [OF ty(2) False] plain_type_kinds [OF ty(2)] leaf_bin_length [OF assms False]
    by (simp add: elem_get_bin_value_def Let_def)
qed

lemma elem_set_bin_leaf:
  assumes "leaf_at st e x d"
  shows "elem_set_bin_value st addr data e =
     (let src = adr_plus addr x
      in if ea_type d = CUBE_TYPE_ESTRING then
           (case estring_get_length st data e of
              None \<Rightarrow> None
            | Some ret \<Rightarrow>
                if ret = 0 then Some (st, 0)
                else if src = 0 then None
                else case dalloc0 ret addr st of
                       (st1, None) \<Rightarrow> Some (set_mem (put_ptr (es_mem st1) src 0) st1, - ENOMEM)
                     | (st1, Some p) \<Rightarrow> Some (set_mem (mcpy (put_ptr (es_mem st1) src p) p data ret) st1, ret))
         else if src = 0 then None
         else Some (set_mem (mcpy (es_mem st) src data (fsize d)) st, fsize d))"
proof (cases "ea_type d = CUBE_TYPE_ESTRING")
  case True
  have *: "\<not> 1 + int n < 0" for n by linarith
  show ?thesis using assms True
    by (auto simp: leaf_at_def elem_set_bin_value_def estring_ops repeat_num_def estring_get_length_def
        Let_def * split: option.splits prod.splits)
next
  case False
  have ty: "elem_desc (el st e) = d" "plain_type (ea_type d)" "elem_get_addr st e addr = Some (adr_plus addr x)" "0 \<le> fsize d"
    using assms by (simp_all add: leaf_at_def)
  obtain ops where "elem_get_ops (ea_type d) = Some ops" "op_set_bin_value ops = None" using plain_ops(1) [OF ty(2) False] by blast
  then show ?thesis
    using ty False plain_ops(2) [OF ty(2) False] plain_type_kinds [OF ty(2)] leaf_bin_length [OF assms False]
    by (simp add: elem_set_bin_value_def Let_def)
qed

section \<open>A structure to a blob\<close>

definition get_leaf :: "nat \<Rightarrow> nat \<Rightarrow> (nat \<Rightarrow> nat option) \<Rightarrow> int \<times> elem_attr \<Rightarrow> deal_para dat \<Rightarrow> (deal_para dat \<times> int) option" where
  "get_leaf addr blob M l d =
     (case d of (m, c, p) \<Rightarrow>
        let src = adr_plus addr (fst l); data = adr_plus blob (dp_offset p); q = get_ptr m src
        in if src = 0 then None
           else if is_string l then
             map_option (\<lambda>r. ((if r = 0 then m else mcpy m data q r, c, p\<lparr>dp_offset := dp_offset p + r\<rparr>), r)) (str_length m q)
           else Some ((mcpy m data src (fsize (snd l)), c, p\<lparr>dp_offset := dp_offset p + fsize (snd l)\<rparr>), fsize (snd l)))"

lemma substruct_enter:
  "etype st e = CUBE_TYPE_SUBSTRUCT \<Longrightarrow> desc_limit st e = reps (elem_desc (el st e))"
  by (simp add: desc_limit_def reps_def Let_def)

interpretation s2b: deal_walk "struct_2_blob_ops addr blob False" "get_leaf addr blob" for addr blob
proof unfold_locales
  show "dop_testelem (struct_2_blob_ops addr blob False) = None" by (simp add: struct_2_blob_ops_def)
  show "dop_start (struct_2_blob_ops addr blob False) = None" "dop_finish (struct_2_blob_ops addr blob False) = None"
    by (simp_all add: struct_2_blob_ops_def)
  fix st :: estate and e :: eid and p :: deal_para
  show "call_cb (dop_exitstruct (struct_2_blob_ops addr blob False)) e (st, p) = Some ((st, p), 0)"
    by (simp add: struct_2_blob_ops_def call_cb_def struct_2_blob_exitstruct_def)
  assume "etype st e = CUBE_TYPE_SUBSTRUCT"
  then show "et_limit (el st e) = 0 \<Longrightarrow> call_cb (dop_enterstruct (struct_2_blob_ops addr blob False)) e (st, p)
      = Some ((set_limit e (reps (elem_desc (el st e))) st, p), 0)"
    and "et_limit (el st e) \<noteq> 0 \<Longrightarrow> call_cb (dop_enterstruct (struct_2_blob_ops addr blob False)) e (st, p) = Some ((st, p), 0)"
    by (simp_all add: struct_2_blob_ops_def call_cb_def struct_2_blob_enterstruct_def substruct_enter)
next
  fix st :: estate and e :: eid and p :: deal_para and x d
  assume l: "leaf_at st e x d"
  then have pos: "0 \<le> fsize d" by (simp add: leaf_at_def)
  have str: "str_length m q = Some r \<Longrightarrow> 0 \<le> r" for m q r by (auto simp: str_length_def split: if_splits)
  show "dop_proc_func (struct_2_blob_ops addr blob False) e (st, p) =
      map_option (\<lambda>(d', r). (put_dat st d', r)) (get_leaf addr blob (es_malloc st) (x, d) (es_mem st, es_calls st, p))"
    using pos str
    by (auto simp: struct_2_blob_ops_def proc_struct_2_blob_def elem_get_bin_leaf [OF l] get_leaf_def is_string_def put_dat_def
        Let_def option.map_comp comp_def intro!: option.map_cong split: if_splits)
qed

text \<open>Where the contents of an element lie, and that a string there ends.\<close>

definition leaf_src :: "mem \<Rightarrow> nat \<Rightarrow> int \<times> elem_attr \<Rightarrow> nat set" where
  "leaf_src m a l = leaf_range a l \<union> (if is_string l then
     (let q = get_ptr m (adr_plus a (fst l)) in {q..<q + length (leaf_code m a l)}) else {})"

definition leaf_ok :: "mem \<Rightarrow> nat \<Rightarrow> int \<times> elem_attr \<Rightarrow> bool" where
  "leaf_ok m a l \<longleftrightarrow> (is_string l \<longrightarrow> get_ptr m (adr_plus a (fst l)) = 0 \<or> Strlen m (get_ptr m (adr_plus a (fst l))) \<noteq> None)"

lemma mcpy_write:
  assumes "n < 2 ^ 32" "dest + n \<le> src \<or> src + n \<le> dest"
  shows "mcpy m dest src (int n) = mem_write m dest (mem_bytes m src n)"
proof -
  have "unat (word_of_int (int n) :: u32) = n" using assms(1) by (simp add: unat_of_nat take_bit_eq_mod)
  then show ?thesis using Memcpy_copies [of dest src "word_of_int (int n)" m] assms(2) by auto
qed

lemma ranges_apart:
  fixes a b n k :: nat
  assumes "{a..<a + n} \<inter> {b..<b + k} = {}" "n \<noteq> 0" "k \<noteq> 0"
  shows "b + k \<le> a \<or> a + n \<le> b"
proof (rule ccontr)
  assume "\<not> ?thesis"
  then have "max a b \<in> {a..<a + n} \<inter> {b..<b + k}" using assms(2,3) by auto
  then show False using assms(1) by simp
qed

lemma Strlen_cong:
  assumes "Strlen m0 q = Some n" "\<And>x. q \<le> x \<Longrightarrow> x < q + (n + 1) \<Longrightarrow> m x = m0 x"
  shows "Strlen m q = Some n"
proof -
  have "cstr m q (mem_bytes m0 q n)"
    using Strlen_Some [OF assms(1)] assms(2) by (intro cstr_cong [of q "mem_bytes m0 q n" m m0]) auto
  then show ?thesis using Strlen_cstr by fastforce
qed

lemma fsize_string: "is_string l \<Longrightarrow> fsize (snd l) = 8"
  by (simp add: is_string_def fsize_def)

lemma leaf_code_cong:
  assumes "leaf_ok m0 a l" "\<And>x. x \<in> leaf_src m0 a l \<Longrightarrow> m x = m0 x"
  shows "leaf_code m a l = leaf_code m0 a l" "leaf_ok m a l" "leaf_src m a l = leaf_src m0 a l"
    and "is_string l \<Longrightarrow> get_ptr m (adr_plus a (fst l)) = get_ptr m0 (adr_plus a (fst l))"
proof -
  let ?s = "adr_plus a (fst l)"
  show q: "get_ptr m ?s = get_ptr m0 ?s" if "is_string l"
    using assms(2) that by (intro get_ptr_cong) (auto simp: leaf_src_def leaf_range_def fsize_string)
  have len: "Strlen m (get_ptr m0 ?s) = Some n" "mem_bytes m (get_ptr m0 ?s) (n + 1) = mem_bytes m0 (get_ptr m0 ?s) (n + 1)"
    if "is_string l" "get_ptr m0 ?s \<noteq> 0" "Strlen m0 (get_ptr m0 ?s) = Some n" for n
  proof -
    have same: "m x = m0 x" if "get_ptr m0 ?s \<le> x" "x < get_ptr m0 ?s + (n + 1)" for x
      using assms(2) that \<open>is_string l\<close> \<open>get_ptr m0 ?s \<noteq> 0\<close> \<open>Strlen m0 (get_ptr m0 ?s) = Some n\<close>
      by (simp add: leaf_src_def leaf_code_def Let_def)
    show "Strlen m (get_ptr m0 ?s) = Some n" by (rule Strlen_cong [OF that(3) same])
    show "mem_bytes m (get_ptr m0 ?s) (n + 1) = mem_bytes m0 (get_ptr m0 ?s) (n + 1)" using same by (intro mem_bytes_cong) simp
  qed
  show c: "leaf_code m a l = leaf_code m0 a l"
  proof (cases "is_string l")
    case True
    then show ?thesis using q len assms(1) by (auto simp: leaf_code_def leaf_ok_def Let_def)
  next
    case False
    then show ?thesis using assms(2) by (auto simp: leaf_code_def leaf_src_def leaf_range_def intro!: mem_bytes_cong)
  qed
  show "leaf_ok m a l" using assms(1) q len by (auto simp: leaf_ok_def)
  show "leaf_src m a l = leaf_src m0 a l" using q c by (simp add: leaf_src_def)
qed

lemma get_leaf_writes:
  assumes "leaf_ok m a l" "adr_plus a (fst l) \<noteq> 0" "length (leaf_code m a l) < 2 ^ 31" "0 \<le> fsize (snd l)" "dp_offset p = int off"
    and "leaf_src m a l \<inter> {blob + off..<blob + off + length (leaf_code m a l)} = {}"
  shows "get_leaf a blob M l (m, c, p) = Some ((mem_write m (blob + off) (leaf_code m a l), c,
      p\<lparr>dp_offset := int (off + length (leaf_code m a l))\<rparr>), int (length (leaf_code m a l)))"
proof -
  let ?s = "adr_plus a (fst l)" and ?n = "length (leaf_code m a l)"
  have data: "adr_plus blob (int off) = blob + off" by (simp add: adr_plus_def flip: of_nat_add)
  have copy: "mcpy m (blob + off) src (int ?n) = mem_write m (blob + off) (leaf_code m a l)"
    if "{src..<src + ?n} \<subseteq> leaf_src m a l" "leaf_code m a l = mem_bytes m src ?n" "?n \<noteq> 0" for src
  proof -
    have "{src..<src + ?n} \<inter> {blob + off..<blob + off + ?n} = {}" using assms(6) that(1) by blast
    then have "blob + off + ?n \<le> src \<or> src + ?n \<le> blob + off"
      using that(3) ranges_apart by blast
    then show ?thesis using mcpy_write [of ?n "blob + off" src m] assms(3) that(2) by simp
  qed
  show ?thesis
  proof (cases "is_string l")
    case True
    show ?thesis
    proof (cases "get_ptr m ?s = 0")
      case True
      then show ?thesis using assms(2,5) \<open>is_string l\<close> by (simp add: get_leaf_def leaf_code_def str_length_def Let_def)
    next
      case False
      then obtain n where n: "Strlen m (get_ptr m ?s) = Some n" using assms(1) \<open>is_string l\<close> by (auto simp: leaf_ok_def)
      then have code: "leaf_code m a l = mem_bytes m (get_ptr m ?s) (Suc n)" using False \<open>is_string l\<close> by (simp add: leaf_code_def Let_def)
      have "mcpy m (blob + off) (get_ptr m ?s) (int ?n) = mem_write m (blob + off) (leaf_code m a l)"
        using True by (intro copy) (auto simp: leaf_src_def code Let_def)
      then show ?thesis using n False True assms(2,5) code
        by (simp add: get_leaf_def str_length_def Let_def data add.commute)
    qed
  next
    case False
    have code: "leaf_code m a l = mem_bytes m ?s ?n" "int ?n = fsize (snd l)" using False assms(4) by (simp_all add: leaf_code_def)
    have "mcpy m (blob + off) ?s (int ?n) = mem_write m (blob + off) (leaf_code m a l)"
    proof (cases "?n = 0")
      case True
      then show ?thesis using mcpy_write [of 0 "blob + off" ?s m] nat_le_linear [of "blob + off" ?s] by auto
    next
      case False
      then show ?thesis using code by (intro copy) (auto simp: leaf_src_def leaf_range_def)
    qed
    then show ?thesis using False assms(2,5) code(2) by (simp add: get_leaf_def Let_def data)
  qed
qed

text \<open>The encoding of the elements \<open>ls\<close> of a structure at \<open>a\<close>.\<close>

definition blob_code :: "mem \<Rightarrow> nat \<Rightarrow> (int \<times> elem_attr) list \<Rightarrow> byte list" where
  "blob_code m a ls = concat (map (leaf_code m a) ls)"

lemma run_get_leaves:
  assumes "\<forall>l \<in> set ls. leaf_ok m a l \<and> adr_plus a (fst l) \<noteq> 0 \<and> 0 \<le> fsize (snd l) \<and> leaf_src m a l \<inter> {blob..<blob + n} = {}"
    and "length pre + length (blob_code m a ls) \<le> n" "n < 2 ^ 31" "dp_offset p = int (length pre)"
  shows "run_leaves (get_leaf a blob M) ls (mem_write m blob pre, c, p)
    = Some ((mem_write m blob (pre @ blob_code m a ls), c, p\<lparr>dp_offset := int (length (pre @ blob_code m a ls))\<rparr>), 0)"
  using assms(1,2,4)
proof (induction ls arbitrary: pre p)
  case Nil
  then show ?case by (simp add: blob_code_def)
next
  case (Cons l ls)
  let ?m = "mem_write m blob pre" and ?c = "leaf_code m a l"
  have len: "length pre + length ?c + length (blob_code m a ls) \<le> n" using Cons.prems(2) by (simp add: blob_code_def)
  have ok: "leaf_ok m a l" "leaf_src m a l \<inter> {blob..<blob + n} = {}" using Cons.prems(1) by simp_all
  have same: "?m x = m x" if "x \<in> leaf_src m a l" for x
  proof -
    have "x \<notin> {blob..<blob + n}" using that ok(2) by blast
    then show ?thesis using len by (auto simp: mem_write_apply)
  qed
  note cong = leaf_code_cong [OF ok(1) same]
  have "leaf_src m a l \<inter> {blob + length pre..<blob + length pre + length ?c} = {}" using ok(2) len by fastforce
  then have "get_leaf a blob M l (?m, c, p) = Some ((mem_write ?m (blob + length pre) ?c, c,
      p\<lparr>dp_offset := int (length pre + length ?c)\<rparr>), int (length ?c))"
    using get_leaf_writes [of ?m a l p "length pre" blob M c] cong Cons.prems(1,3) len assms(3) by simp
  moreover have "mem_write ?m (blob + length pre) ?c = mem_write m blob (pre @ ?c)" by (simp add: mem_write_append)
  moreover have "run_leaves (get_leaf a blob M) ls (mem_write m blob (pre @ ?c), c, p\<lparr>dp_offset := int (length pre + length ?c)\<rparr>)
      = Some ((mem_write m blob ((pre @ ?c) @ blob_code m a ls), c,
          p\<lparr>dp_offset := int (length ((pre @ ?c) @ blob_code m a ls))\<rparr>), 0)"
    using Cons.IH [of "pre @ ?c" "p\<lparr>dp_offset := int (length pre + length ?c)\<rparr>"] Cons.prems(1) len by simp
  ultimately show ?case by (simp add: blob_code_def)
qed

lemma struct_2_blob_result:
  assumes "template_at st root es" "es_malloc st (es_calls st) \<noteq> None" "0 < addr"
    and "\<forall>l \<in> set (flat es 0). leaf_ok (es_mem st) addr l
      \<and> leaf_src (es_mem st) addr l \<inter> {blob..<blob + length (blob_code (es_mem st) addr (flat es 0))} = {}"
    and "length (blob_code (es_mem st) addr (flat es 0)) < 2 ^ 31"
  shows "\<exists>st'. struct_2_blob st addr blob root = Some (Some (st', int (length (blob_code (es_mem st) addr (flat es 0)))))
    \<and> es_mem st' = mem_write (es_mem st) blob (blob_code (es_mem st) addr (flat es 0)) \<and> es_calls st' = es_calls st + 1
    \<and> same_template st st'"
proof -
  have "adr_plus addr (fst l) \<noteq> 0 \<and> 0 \<le> fsize (snd l)" if "l \<in> set (flat es 0)" for l
    using in_order_mem [OF template_in_order [OF assms(1)] that] assms(3) by (simp add: adr_plus_def)
  then have "run_leaves (get_leaf addr blob (es_malloc st)) (flat es 0) (es_mem st, es_calls st + 1, \<lparr>dp_offset = 0, dp_flag = 0\<rparr>)
      = Some ((mem_write (es_mem st) blob (blob_code (es_mem st) addr (flat es 0)), es_calls st + 1,
         \<lparr>dp_offset = int (length (blob_code (es_mem st) addr (flat es 0))), dp_flag = 0\<rparr>), 0)"
    using run_get_leaves [of "flat es 0" "es_mem st" addr blob "length (blob_code (es_mem st) addr (flat es 0))" "[]"
        "\<lparr>dp_offset = 0, dp_flag = 0\<rparr>" "es_malloc st" "es_calls st + 1"] assms(4,5) by simp
  from s2b.deal_result [OF assms(1,2) this, of True] show ?thesis by (simp add: struct_2_blob_def)
qed

section \<open>Storing the elements of a structure\<close>

text \<open>
  The contract of an operation that fills a structure at \<open>dst\<close> element by element from data in \<open>S\<close>:
  a field gets its bytes, a string gets a block of memory with a copy of it.
\<close>

definition leaf_fits :: "int \<times> elem_attr \<Rightarrow> byte list \<Rightarrow> bool" where
  "leaf_fits l cd \<longleftrightarrow> (if is_string l then \<exists>s. cd = s @ [0] \<and> 0 \<notin> set s else length cd = nat (fsize (snd l)))"

definition block_range :: "nat \<Rightarrow> byte list \<Rightarrow> nat set" where
  "block_range q cd = {q..<q + 12 + length cd}"

text \<open>The answers of \<^verbatim>\<open>malloc\<close> from call \<open>c\<close> on are blocks apart from \<open>R\<close> and from one another.\<close>

fun fresh_blocks :: "(nat \<Rightarrow> nat option) \<Rightarrow> nat \<Rightarrow> byte list list \<Rightarrow> nat set \<Rightarrow> bool" where
  "fresh_blocks M c [] R \<longleftrightarrow> True"
| "fresh_blocks M c (cd # cds) R \<longleftrightarrow>
     (case M c of
        None \<Rightarrow> False
      | Some q \<Rightarrow> q + 12 + length cd < 2 ^ 64 \<and> block_range q cd \<inter> R = {} \<and> fresh_blocks M (c + 1) cds (R \<union> block_range q cd))"

type_synonym pending = "((int \<times> elem_attr) \<times> byte list) list"

definition strings_of :: "pending \<Rightarrow> byte list list" where
  "strings_of ps = map snd (filter (\<lambda>x. is_string (fst x)) ps)"

definition stored :: "mem \<Rightarrow> mem \<Rightarrow> nat \<Rightarrow> nat \<Rightarrow> byte list \<Rightarrow> bool" where
  "stored m m' q b cd \<longleftrightarrow> (\<forall>x. x \<notin> block_range q cd \<longrightarrow> x \<notin> {b..<b + 8} \<longrightarrow> m' x = m x)
     \<and> get_ptr m' b = q + 12 \<and> mem_bytes m' (q + 12) (length cd) = cd"

locale leaf_store =
  fixes f :: "(nat \<Rightarrow> nat option) \<Rightarrow> int \<times> elem_attr \<Rightarrow> deal_para dat \<Rightarrow> (deal_para dat \<times> int) option"
    and dst :: nat and S :: "nat set" and m0 :: mem and pend :: "deal_para \<Rightarrow> pending \<Rightarrow> bool"
  assumes store_field: "pend p ((l, cd) # ps) \<Longrightarrow> \<not> is_string l \<Longrightarrow> (\<forall>x \<in> S. m x = m0 x) \<Longrightarrow> leaf_range dst l \<inter> S = {} \<Longrightarrow>
      adr_plus dst (fst l) \<noteq> 0 \<Longrightarrow> 0 \<le> fsize (snd l) \<Longrightarrow> leaf_fits l cd \<Longrightarrow>
      \<exists>p' r. 0 \<le> r \<and> f M l (m, c, p) = Some ((mem_write m (adr_plus dst (fst l)) cd, c, p'), r) \<and> pend p' ps"
    and store_string: "pend p ((l, cd) # ps) \<Longrightarrow> is_string l \<Longrightarrow> (\<forall>x \<in> S. m x = m0 x) \<Longrightarrow> leaf_range dst l \<inter> S = {} \<Longrightarrow>
      adr_plus dst (fst l) \<noteq> 0 \<Longrightarrow> leaf_fits l cd \<Longrightarrow> M c = Some q \<Longrightarrow> q + 12 + length cd < 2 ^ 64 \<Longrightarrow>
      block_range q cd \<inter> (S \<union> leaf_range dst l) = {} \<Longrightarrow>
      \<exists>p' r m'. 0 \<le> r \<and> f M l (m, c, p) = Some ((m', c + 1, p'), r) \<and> pend p' ps \<and> stored m m' q (adr_plus dst (fst l)) cd"

lemma stored_code:
  assumes "stored m m' q (adr_plus a (fst l)) cd" "is_string l" "leaf_fits l cd"
  shows "leaf_code m' a l = cd" "leaf_ok m' a l" "leaf_src m' a l \<subseteq> leaf_range a l \<union> block_range q cd"
proof -
  obtain s where s: "cd = s @ [0]" "0 \<notin> set s" using assms(2,3) by (auto simp: leaf_fits_def)
  have b: "mem_bytes m' (q + 12) (length s + 1) = s @ [0]" using assms(1) s(1) by (simp add: stored_def)
  then have "mem_bytes m' (q + 12) (length s) @ mem_bytes m' (q + 12 + length s) 1 = s @ [0]" by (simp only: mem_bytes_append)
  then have "cstr m' (q + 12) s" using s(2) by (simp add: cstr_def mem_bytes_Suc)
  then have len: "Strlen m' (q + 12) = Some (length s)" by (rule Strlen_cstr)
  have ptr: "get_ptr m' (adr_plus a (fst l)) = q + 12" using assms(1) by (simp add: stored_def)
  show code: "leaf_code m' a l = cd" using assms(2) ptr len b s(1) by (simp add: leaf_code_def)
  show "leaf_ok m' a l" using ptr len by (simp add: leaf_ok_def)
  show "leaf_src m' a l \<subseteq> leaf_range a l \<union> block_range q cd"
    using assms(2) ptr code by (auto simp: leaf_src_def block_range_def Let_def)
qed

lemma in_order_apart:
  assumes "in_order b (l # ls) e" "0 \<le> b" "k \<in> set ls"
  shows "leaf_range a l \<inter> leaf_range a k = {}"
  using assms in_order_mem [of "fst l + fsize (snd l)" ls e k] by (auto simp: leaf_range_def adr_plus_def)

context leaf_store
begin

lemma store_leaf:
  assumes "pend p ((l, cd) # ps)" "leaf_fits l cd" "\<forall>x \<in> S. m x = m0 x" "leaf_range dst l \<inter> S = {}" "adr_plus dst (fst l) \<noteq> 0"
    "0 \<le> fsize (snd l)" "fresh_blocks M c (strings_of ((l, cd) # ps)) R" "S \<subseteq> R" "leaf_range dst l \<subseteq> R"
  shows "\<exists>p' r m' c' B. 0 \<le> r \<and> f M l (m, c, p) = Some ((m', c', p'), r) \<and> pend p' ps \<and> B \<inter> R = {}
    \<and> fresh_blocks M c' (strings_of ps) (R \<union> B) \<and> leaf_code m' dst l = cd \<and> leaf_ok m' dst l
    \<and> leaf_src m' dst l \<subseteq> leaf_range dst l \<union> B \<and> (\<forall>x. x \<notin> B \<longrightarrow> x \<notin> leaf_range dst l \<longrightarrow> m' x = m x)"
proof (cases "is_string l")
  case True
  then obtain q where q: "M c = Some q" "q + 12 + length cd < 2 ^ 64" "block_range q cd \<inter> R = {}"
    "fresh_blocks M (c + 1) (strings_of ps) (R \<union> block_range q cd)"
    using assms(7) by (auto simp: strings_of_def split: option.splits)
  have "block_range q cd \<inter> (S \<union> leaf_range dst l) = {}" using q(3) assms(8,9) by blast
  from store_string [where M = M and c = c, OF assms(1) True assms(3,4,5,2) q(1,2) this]
  obtain p' r m' where p': "0 \<le> r" "f M l (m, c, p) = Some ((m', c + 1, p'), r)" "pend p' ps" "stored m m' q (adr_plus dst (fst l)) cd"
    by auto
  have "leaf_range dst l = {adr_plus dst (fst l)..<adr_plus dst (fst l) + 8}" using True by (simp add: leaf_range_def fsize_string)
  then have "\<forall>x. x \<notin> block_range q cd \<longrightarrow> x \<notin> leaf_range dst l \<longrightarrow> m' x = m x" using p'(4) by (simp add: stored_def)
  then show ?thesis using p'(1-3) q(3,4) stored_code [OF p'(4) True assms(2)] by blast
next
  case False
  then have cd: "length cd = nat (fsize (snd l))" using assms(2) by (simp add: leaf_fits_def)
  let ?m = "mem_write m (adr_plus dst (fst l)) cd"
  obtain p' r where p': "0 \<le> r" "f M l (m, c, p) = Some ((?m, c, p'), r)" "pend p' ps"
    using store_field [OF assms(1) False assms(3,4,5,6,2)] by blast
  have code: "leaf_code ?m dst l = cd" using False mem_bytes_mem_write [of m "adr_plus dst (fst l)" cd] cd by (simp add: leaf_code_def)
  have "\<forall>x. x \<notin> leaf_range dst l \<longrightarrow> ?m x = m x" using cd by (auto simp: leaf_range_def mem_write_apply)
  moreover have "leaf_ok ?m dst l" "leaf_src ?m dst l \<subseteq> leaf_range dst l" "fresh_blocks M c (strings_of ps) R"
    using False assms(7) by (simp_all add: leaf_ok_def leaf_src_def strings_of_def)
  ultimately show ?thesis using p' code
    by (intro exI [of _ p'] exI [of _ r] exI [of _ ?m] exI [of _ c] exI [of _ "{}"]) simp
qed

lemma run_store:
  assumes "in_order b (map fst ps) e" "0 \<le> b" "0 < dst" "\<forall>x \<in> set ps. leaf_fits (fst x) (snd x)"
    "\<forall>x \<in> set ps. leaf_range dst (fst x) \<inter> S = {} \<and> leaf_range dst (fst x) \<subseteq> R" "S \<subseteq> R"
    "fresh_blocks M c (strings_of ps) R" "pend p ps" "\<forall>x \<in> S. m x = m0 x"
  shows "\<exists>m' c' p'. run_leaves (f M) (map fst ps) (m, c, p) = Some ((m', c', p'), 0) \<and> pend p' []
    \<and> (\<forall>x \<in> set ps. leaf_code m' dst (fst x) = snd x)
    \<and> (\<forall>y \<in> R. (\<forall>x \<in> set ps. y \<notin> leaf_range dst (fst x)) \<longrightarrow> m' y = m y)"
  using assms
proof (induction ps arbitrary: b m c p R)
  case Nil
  then show ?case by simp
next
  case (Cons lc ps)
  obtain l cd where lc: "lc = (l, cd)" by (cases lc)
  have l: "leaf_fits l cd" "leaf_range dst l \<inter> S = {}" "leaf_range dst l \<subseteq> R" "0 \<le> fsize (snd l)" "adr_plus dst (fst l) \<noteq> 0"
    using Cons.prems lc by (auto simp: adr_plus_def)
  have pl: "pend p ((l, cd) # ps)" "fresh_blocks M c (strings_of ((l, cd) # ps)) R" using Cons.prems(7,8) lc by simp_all
  from store_leaf [OF pl(1) l(1) Cons.prems(9) l(2,5,4) pl(2) Cons.prems(6) l(3)] obtain p1 r m1 c1 B where
    st: "0 \<le> r" "f M l (m, c, p) = Some ((m1, c1, p1), r)" "pend p1 ps" "B \<inter> R = {}" "fresh_blocks M c1 (strings_of ps) (R \<union> B)"
      "leaf_code m1 dst l = cd" "leaf_ok m1 dst l" "leaf_src m1 dst l \<subseteq> leaf_range dst l \<union> B"
      "\<forall>x. x \<notin> B \<longrightarrow> x \<notin> leaf_range dst l \<longrightarrow> m1 x = m x"
    by (elim exE conjE) (rule that)
  have src: "\<forall>x \<in> S. m1 x = m0 x"
  proof
    fix x assume x: "x \<in> S"
    then have "x \<notin> B" "x \<notin> leaf_range dst l" using st(4) Cons.prems(6) l(2) by blast+
    then show "m1 x = m0 x" using st(9) Cons.prems(9) x by simp
  qed
  have io: "in_order (fst l + fsize (snd l)) (map fst ps) e" "0 \<le> fst l + fsize (snd l)" using Cons.prems(1,2) lc l(4) by auto
  have rest: "\<forall>x \<in> set ps. leaf_fits (fst x) (snd x)" "S \<subseteq> R \<union> B"
    "\<forall>x \<in> set ps. leaf_range dst (fst x) \<inter> S = {} \<and> leaf_range dst (fst x) \<subseteq> R \<union> B"
    using Cons.prems(4-6) by auto
  from Cons.IH [OF io Cons.prems(3) rest(1,3,2) st(5,3) src] obtain m' c' p' where
    ih: "run_leaves (f M) (map fst ps) (m1, c1, p1) = Some ((m', c', p'), 0)" "pend p' []"
      "\<forall>x \<in> set ps. leaf_code m' dst (fst x) = snd x"
      "\<forall>y \<in> R \<union> B. (\<forall>x \<in> set ps. y \<notin> leaf_range dst (fst x)) \<longrightarrow> m' y = m1 y"
    by (elim exE conjE) (rule that)
  have apart: "leaf_range dst l \<inter> leaf_range dst (fst x) = {}" if "x \<in> set ps" for x
    using in_order_apart [of b l "map fst ps" e "fst x" dst] Cons.prems(1,2) lc that by simp
  have keep: "m' y = m1 y" if "y \<in> leaf_src m1 dst l" for y
  proof -
    have "\<forall>x \<in> set ps. y \<notin> leaf_range dst (fst x)"
    proof
      fix x assume x: "x \<in> set ps"
      have "leaf_range dst (fst x) \<subseteq> R" using Cons.prems(5) x by simp
      then show "y \<notin> leaf_range dst (fst x)" using that st(4,8) apart [OF x] by blast
    qed
    moreover have "y \<in> R \<union> B" using that st(8) l(3) by blast
    ultimately show ?thesis using ih(4) by blast
  qed
  have "leaf_code m' dst l = cd" using leaf_code_cong(1) [OF st(7) keep] st(6) by simp
  moreover have "m' y = m y" if "y \<in> R" "\<forall>x \<in> set (lc # ps). y \<notin> leaf_range dst (fst x)" for y
    using that ih(4) st(4,9) lc by auto
  moreover have "run_leaves (f M) (map fst (lc # ps)) (m, c, p) = Some ((m', c', p'), 0)" using st(1,2) ih(1) lc by simp
  ultimately show ?case using ih(2,3) lc by auto
qed

end

section \<open>A blob to a structure\<close>

definition set_leaf :: "nat \<Rightarrow> nat \<Rightarrow> (nat \<Rightarrow> nat option) \<Rightarrow> int \<times> elem_attr \<Rightarrow> deal_para dat \<Rightarrow> (deal_para dat \<times> int) option" where
  "set_leaf addr blob M l d =
     (case d of (m, c, p) \<Rightarrow>
        let src = adr_plus addr (fst l); data = adr_plus blob (dp_offset p)
        in if is_string l then
             (case str_length m data of
                None \<Rightarrow> None
              | Some r \<Rightarrow>
                  if r = 0 then Some (d, 0)
                  else if src = 0 then None
                  else case Dalloc0 m (M c) r addr of
                         (m1, None) \<Rightarrow> Some ((put_ptr m1 src 0, c + 1, p), - ENOMEM)
                       | (m1, Some q) \<Rightarrow> Some ((mcpy (put_ptr m1 src q) q data r, c + 1, p\<lparr>dp_offset := dp_offset p + r\<rparr>), r))
           else if src = 0 then None
           else Some ((mcpy m src data (fsize (snd l)), c, p\<lparr>dp_offset := dp_offset p + fsize (snd l)\<rparr>), fsize (snd l)))"

lemma alloc_enter_substruct:
  assumes "etype st e = CUBE_TYPE_SUBSTRUCT"
  shows "et_limit (el st e) = 0 \<Longrightarrow> alloc_enterstruct addr e (st, p) = Some ((set_limit e (reps (elem_desc (el st e))) st, p), 0)"
    and "et_limit (el st e) \<noteq> 0 \<Longrightarrow> alloc_enterstruct addr e (st, p) = Some ((st, p), 0)"
  using assms by (simp_all add: alloc_enterstruct_def substruct_enter)

interpretation b2s: deal_walk "blob_2_struct_ops addr blob False" "set_leaf addr blob" for addr blob
proof unfold_locales
  show "dop_testelem (blob_2_struct_ops addr blob False) = None" by (simp add: blob_2_struct_ops_def)
  show "dop_start (blob_2_struct_ops addr blob False) = None" "dop_finish (blob_2_struct_ops addr blob False) = None"
    by (simp_all add: blob_2_struct_ops_def)
  fix st :: estate and e :: eid and p :: deal_para
  show "call_cb (dop_exitstruct (blob_2_struct_ops addr blob False)) e (st, p) = Some ((st, p), 0)"
    by (simp add: blob_2_struct_ops_def call_cb_def)
  assume "etype st e = CUBE_TYPE_SUBSTRUCT"
  then show "et_limit (el st e) = 0 \<Longrightarrow> call_cb (dop_enterstruct (blob_2_struct_ops addr blob False)) e (st, p)
      = Some ((set_limit e (reps (elem_desc (el st e))) st, p), 0)"
    and "et_limit (el st e) \<noteq> 0 \<Longrightarrow> call_cb (dop_enterstruct (blob_2_struct_ops addr blob False)) e (st, p) = Some ((st, p), 0)"
    by (simp_all add: blob_2_struct_ops_def call_cb_def alloc_enter_substruct)
next
  fix st :: estate and e :: eid and p :: deal_para and x d
  assume l: "leaf_at st e x d"
  then have pos: "0 \<le> fsize d" by (simp add: leaf_at_def)
  have str: "str_length m q = Some r \<Longrightarrow> 0 \<le> r" for m q r by (auto simp: str_length_def split: if_splits)
  have len: "estring_get_length st data e = str_length (es_mem st) data" for data by (simp add: estring_get_length_def str_length_def)
  show "dop_proc_func (blob_2_struct_ops addr blob False) e (st, p) =
      map_option (\<lambda>(d', r). (put_dat st d', r)) (set_leaf addr blob (es_malloc st) (x, d) (es_mem st, es_calls st, p))"
    using pos
    by (auto simp: blob_2_struct_ops_def proc_blob_2_struct_def elem_set_bin_leaf [OF l] set_leaf_def is_string_def put_dat_def
        Let_def len dalloc0_def split: option.splits prod.splits dest: str)
qed

text \<open>Storing a string: the block is filled and the pointer to it written.\<close>

lemma stored_string:
  fixes base :: nat
  assumes "q + 12 + length cd < 2 ^ 64" "length cd < 2 ^ 31" "length cd \<noteq> 0" "block_range q cd \<inter> {b..<b + 8} = {}"
    "block_range q cd \<inter> {data..<data + length cd} = {}" "{b..<b + 8} \<inter> {data..<data + length cd} = {}"
    "mem_bytes m data (length cd) = cd"
  defines "m1 \<equiv> put_ptr (fst (Dalloc0 m (Some q) (int (length cd)) base)) b (q + 12)"
  shows "stored m (mcpy m1 (q + 12) data (int (length cd))) q b cd"
proof -
  let ?n = "length cd"
  have m1: "m1 x = m x" if "x \<notin> block_range q cd" "x \<notin> {b..<b + 8}" for x
    using that Dalloc0_Some(2) [of x q "int ?n" m base] by (auto simp: m1_def block_range_def put_ptr_outside)
  have src: "mem_bytes m1 data ?n = cd"
  proof -
    have "mem_bytes m1 data ?n = mem_bytes m data ?n" 
    proof (rule mem_bytes_cong)
      fix x assume x: "data \<le> x" "x < data + ?n"
      have "x \<notin> block_range q cd" "x \<notin> {b..<b + 8}" using assms(5,6) x by (auto simp only: disjoint_iff atLeastLessThan_iff)
      then show "m1 x = m x" by (rule m1)
    qed
    then show ?thesis using assms(7) by simp
  qed
  have "{q + 12..<q + 12 + ?n} \<inter> {data..<data + ?n} = {}" using assms(5) by (auto simp: block_range_def)
  then have "q + 12 + ?n \<le> data \<or> data + ?n \<le> q + 12" using ranges_apart [of "q + 12" ?n data ?n] assms(3) by auto
  then have copy: "mcpy m1 (q + 12) data (int ?n) = mem_write m1 (q + 12) cd"
    using mcpy_write [of ?n "q + 12" data m1] assms(2) src by simp
  have "get_ptr (mem_write m1 (q + 12) cd) b = get_ptr m1 b"
  proof (rule get_ptr_cong)
    fix x assume "b \<le> x" "x < b + 8"
    then have "x \<notin> block_range q cd" using assms(4) by (auto simp: disjoint_iff)
    then show "mem_write m1 (q + 12) cd x = m1 x" by (auto simp: mem_write_apply block_range_def)
  qed
  then have ptr: "get_ptr (mem_write m1 (q + 12) cd) b = q + 12" using assms(1) by (simp add: m1_def)
  have "mem_write m1 (q + 12) cd x = m x" if "x \<notin> block_range q cd" "x \<notin> {b..<b + 8}" for x
    using that m1 by (auto simp: mem_write_apply block_range_def)
  then show ?thesis unfolding copy using ptr by (simp add: stored_def)
qed

definition blob_pend :: "nat \<Rightarrow> nat \<Rightarrow> mem \<Rightarrow> deal_para \<Rightarrow> pending \<Rightarrow> bool" where
  "blob_pend blob n m0 p ps \<longleftrightarrow> 0 < blob \<and> n < 2 ^ 31 \<and> (\<exists>off. dp_offset p = int off \<and> off + length (concat (map snd ps)) = n
     \<and> mem_bytes m0 (blob + off) (length (concat (map snd ps))) = concat (map snd ps))"

lemma blob_pend_Cons:
  assumes "blob_pend blob n m0 p ((l, cd) # ps)" "\<forall>x \<in> {blob..<blob + n}. m x = m0 x"
  obtains off where "dp_offset p = int off" "adr_plus blob (dp_offset p) = blob + off" "mem_bytes m (blob + off) (length cd) = cd"
    "{blob + off..<blob + off + length cd} \<subseteq> {blob..<blob + n}" "length cd < 2 ^ 31" "0 < blob + off"
    "blob_pend blob n m0 (p\<lparr>dp_offset := int (off + length cd)\<rparr>) ps"
proof -
  obtain off where off: "dp_offset p = int off" "off + (length cd + length (concat (map snd ps))) = n"
    "mem_bytes m0 (blob + off) (length cd + length (concat (map snd ps))) = cd @ concat (map snd ps)" "0 < blob" "n < 2 ^ 31"
    using assms(1) by (auto simp: blob_pend_def)
  have split: "mem_bytes m0 (blob + off) (length cd) = cd"
    "mem_bytes m0 (blob + off + length cd) (length (concat (map snd ps))) = concat (map snd ps)"
    using off(3) by (simp_all add: mem_bytes_append)
  have "mem_bytes m (blob + off) (length cd) = mem_bytes m0 (blob + off) (length cd)"
    using assms(2) off(2) by (intro mem_bytes_cong) auto
  moreover have "blob_pend blob n m0 (p\<lparr>dp_offset := int (off + length cd)\<rparr>) ps"
    using off split(2) by (auto simp: blob_pend_def add.assoc intro!: exI [of _ "off + length cd"])
  ultimately show ?thesis using off split(1) by (intro that) (auto simp: adr_plus_def)
qed

interpretation b2s_store: leaf_store "set_leaf dst blob" dst "{blob..<blob + n}" m0 "blob_pend blob n m0" for dst blob n m0
proof
  fix p l cd ps m M c
  assume a: "blob_pend blob n m0 p ((l, cd) # ps)" "\<not> is_string l" "\<forall>x \<in> {blob..<blob + n}. m x = m0 x"
    "leaf_range dst l \<inter> {blob..<blob + n} = {}" "adr_plus dst (fst l) \<noteq> 0" "0 \<le> fsize (snd l)" "leaf_fits l cd"
  let ?b = "adr_plus dst (fst l)"
  obtain off where off: "dp_offset p = int off" "adr_plus blob (dp_offset p) = blob + off" "mem_bytes m (blob + off) (length cd) = cd"
    "{blob + off..<blob + off + length cd} \<subseteq> {blob..<blob + n}" "length cd < 2 ^ 31"
    "blob_pend blob n m0 (p\<lparr>dp_offset := int (off + length cd)\<rparr>) ps" by (rule blob_pend_Cons [OF a(1,3)]) blast
  have len: "int (length cd) = fsize (snd l)" using a(2,6,7) by (simp add: leaf_fits_def)
  have "mcpy m ?b (blob + off) (int (length cd)) = mem_write m ?b cd"
  proof (cases "length cd = 0")
    case True
    then show ?thesis using mcpy_write [of 0 ?b "blob + off" m] nat_le_linear [of ?b "blob + off"] by auto
  next
    case False
    have "{?b..<?b + length cd} \<inter> {blob + off..<blob + off + length cd} = {}"
      using a(4) off(4) len by (auto simp: leaf_range_def)
    then have "?b + length cd \<le> blob + off \<or> blob + off + length cd \<le> ?b"
      using ranges_apart [of ?b "length cd" "blob + off" "length cd"] False by blast
    then show ?thesis using mcpy_write [of "length cd" ?b "blob + off" m] off(3,5) by simp
  qed
  then have "set_leaf dst blob M l (m, c, p) = Some ((mem_write m ?b cd, c, p\<lparr>dp_offset := int (off + length cd)\<rparr>), int (length cd))"
    using a(2,5) off(1,2) len by (simp add: set_leaf_def)
  then show "\<exists>p' r. 0 \<le> r \<and> set_leaf dst blob M l (m, c, p) = Some ((mem_write m ?b cd, c, p'), r) \<and> blob_pend blob n m0 p' ps"
    using off(6) by auto
next
  fix p l cd ps m and M :: "nat \<Rightarrow> nat option" and c q
  assume a: "blob_pend blob n m0 p ((l, cd) # ps)" "is_string l" "\<forall>x \<in> {blob..<blob + n}. m x = m0 x"
    "leaf_range dst l \<inter> {blob..<blob + n} = {}" "adr_plus dst (fst l) \<noteq> 0" "leaf_fits l cd" "M c = Some q"
    "q + 12 + length cd < 2 ^ 64" "block_range q cd \<inter> ({blob..<blob + n} \<union> leaf_range dst l) = {}"
  let ?b = "adr_plus dst (fst l)"
  let ?m = "mcpy (put_ptr (fst (Dalloc0 m (Some q) (int (length cd)) dst)) ?b (q + 12)) (q + 12)"
  obtain off where off: "dp_offset p = int off" "adr_plus blob (dp_offset p) = blob + off" "mem_bytes m (blob + off) (length cd) = cd"
    "{blob + off..<blob + off + length cd} \<subseteq> {blob..<blob + n}" "length cd < 2 ^ 31" "0 < blob + off"
    "blob_pend blob n m0 (p\<lparr>dp_offset := int (off + length cd)\<rparr>) ps" by (rule blob_pend_Cons [OF a(1,3)]) blast
  obtain s where s: "cd = s @ [0]" "0 \<notin> set s" using a(2,6) by (auto simp: leaf_fits_def)
  have "cstr m (blob + off) s"
    using off(3) s mem_bytes_append [of m "blob + off" "length s" 1] by (simp add: cstr_def mem_bytes_Suc)
  then have len: "str_length m (blob + off) = Some (int (length cd))" using off(6) Strlen_cstr s(1) by (simp add: str_length_def)
  have lr: "leaf_range dst l = {?b..<?b + 8}" using a(2) by (simp add: leaf_range_def fsize_string)
  have st: "stored m (?m (blob + off) (int (length cd))) q ?b cd"
  proof (rule stored_string)
    show "block_range q cd \<inter> {?b..<?b + 8} = {}" using a(9) lr by blast
    show "block_range q cd \<inter> {blob + off..<blob + off + length cd} = {}" using a(9) off(4) by blast
    show "{?b..<?b + 8} \<inter> {blob + off..<blob + off + length cd} = {}" using a(4) lr off(4) by blast
  qed (use a(8) off s in simp_all)
  obtain m1 where "Dalloc0 m (Some q) (int (length cd)) dst = (m1, Some (q + 12))" using Dalloc0_Some(1) by blast
  moreover have "length cd \<noteq> 0" using s(1) by simp
  ultimately have "set_leaf dst blob M l (m, c, p)
      = Some ((?m (blob + off) (int (length cd)), c + 1, p\<lparr>dp_offset := int (off + length cd)\<rparr>), int (length cd))"
    using a(2,5,7) off(1,2) len by (simp add: set_leaf_def)
  then show "\<exists>p' r m'. 0 \<le> r \<and> set_leaf dst blob M l (m, c, p) = Some ((m', c + 1, p'), r) \<and> blob_pend blob n m0 p' ps
      \<and> stored m m' q ?b cd"
    using off(7) st by auto
qed

lemma template_ranges:
  assumes "template_at st root es" "l \<in> set (flat es 0)"
  shows "leaf_range dst l \<subseteq> {dst..<dst + nat (esize es)}"
  using in_order_mem [OF template_in_order [OF assms(1)] assms(2)] by (auto simp: leaf_range_def adr_plus_def)

lemma blob_2_struct_result:
  assumes "template_at st root es" "es_malloc st (es_calls st) \<noteq> None" "0 < blob" "0 < dst"
    and ps: "map fst ps = flat es 0" "\<forall>x \<in> set ps. leaf_fits (fst x) (snd x)"
    and n: "n = length (concat (map snd ps))" "n < 2 ^ 31" "mem_bytes (es_mem st) blob n = concat (map snd ps)"
    and "{dst..<dst + nat (esize es)} \<inter> {blob..<blob + n} = {}"
    and "fresh_blocks (es_malloc st) (es_calls st + 1) (strings_of ps) ({blob..<blob + n} \<union> {dst..<dst + nat (esize es)})"
  shows "\<exists>st'. blob_2_struct st blob dst root = Some (Some (st', int n)) \<and> same_template st st'
    \<and> (\<forall>x \<in> set ps. leaf_code (es_mem st') dst (fst x) = snd x)"
proof -
  let ?S = "{blob..<blob + n}" and ?p = "\<lparr>dp_offset = 0, dp_flag = 0\<rparr> :: deal_para"
  have range: "leaf_range dst (fst x) \<subseteq> {dst..<dst + nat (esize es)}" if "x \<in> set ps" for x
  proof -
    have "fst x \<in> set (map fst ps)" using that by simp
    then show ?thesis using template_ranges [OF assms(1)] by (simp only: ps(1))
  qed
  have io: "in_order 0 (map fst ps) (esize es)" using template_in_order [OF assms(1)] ps(1) by simp
  have pend: "blob_pend blob n (es_mem st) ?p ps" using assms(3) n by (auto simp: blob_pend_def intro!: exI [of _ 0])
  have apart: "\<forall>x \<in> set ps. leaf_range dst (fst x) \<inter> ?S = {} \<and> leaf_range dst (fst x) \<subseteq> ?S \<union> {dst..<dst + nat (esize es)}"
    using range assms(10) by blast
  from b2s_store.run_store [OF io order_refl assms(4) ps(2) apart Un_upper1 assms(11) pend, of "es_mem st"]
  obtain m' c' p' where run: "run_leaves (set_leaf dst blob (es_malloc st)) (map fst ps) (es_mem st, es_calls st + 1, ?p) = Some ((m', c', p'), 0)"
    "blob_pend blob n (es_mem st) p' []" "\<forall>x \<in> set ps. leaf_code m' dst (fst x) = snd x" by auto
  have "dp_offset p' = int n" using run(2) by (auto simp: blob_pend_def)
  then show ?thesis
    using b2s.deal_result [OF assms(1,2) run(1) [unfolded ps(1)], of False] run(3) by (auto simp: blob_2_struct_def)
qed

lemma leaf_code_fits:
  assumes "leaf_ok m a l" "is_string l \<Longrightarrow> get_ptr m (adr_plus a (fst l)) \<noteq> 0"
  shows "leaf_fits l (leaf_code m a l)"
proof (cases "is_string l")
  case True
  let ?q = "get_ptr m (adr_plus a (fst l))"
  obtain n where n: "Strlen m ?q = Some n" using assms True by (auto simp: leaf_ok_def)
  have "mem_bytes m (?q + n) 1 = [m (?q + n)]" by (simp add: mem_bytes_def)
  then have "mem_bytes m ?q (n + 1) = mem_bytes m ?q n @ [0]" "0 \<notin> set (mem_bytes m ?q n)"
    using Strlen_Some [OF n] by (simp_all only: cstr_def mem_bytes_append) simp_all
  then show ?thesis using True assms(2) n by (auto simp: leaf_fits_def leaf_code_def)
qed (simp add: leaf_fits_def leaf_code_def)

text \<open>(C4) 
  A structure that is converted to a blob and back keeps the contents of all its elements: for every
  template of plain elements and repeated, nested sub-structures, the blob is the
  encoding of the elements in their order, both conversions return its length, and every element of the new structure has
  the contents it had in the old one, strings included. The strings must not be \<^verbatim>\<open>NULL\<close>, the blob
  lies apart from the structures, and the blocks that \<^verbatim>\<open>malloc\<close> hands out are new.
\<close>

theorem struct_blob_roundtrip:
  assumes "ls = flat es 0" "code = blob_code (es_mem st) addr ls"
    and "template_at st root es" "0 < addr" "0 < blob" "0 < dst"
    and "es_malloc st (es_calls st) \<noteq> None" "es_malloc st (es_calls st + 1) \<noteq> None"
    and "\<forall>l \<in> set ls. leaf_ok (es_mem st) addr l \<and> (is_string l \<longrightarrow> get_ptr (es_mem st) (adr_plus addr (fst l)) \<noteq> 0)
      \<and> leaf_src (es_mem st) addr l \<inter> {blob..<blob + length code} = {}"
    and "length code < 2 ^ 31" "{dst..<dst + nat (esize es)} \<inter> {blob..<blob + length code} = {}"
    and "fresh_blocks (es_malloc st) (es_calls st + 2) (map (leaf_code (es_mem st) addr) (filter is_string (ls)))
      ({blob..<blob + length code} \<union> {dst..<dst + nat (esize es)})"
  shows "\<exists>st1 st2. struct_2_blob st addr blob root = Some (Some (st1, int (length code)))
    \<and> es_mem st1 = mem_write (es_mem st) blob code
    \<and> blob_2_struct st1 blob dst root = Some (Some (st2, int (length code))) \<and> same_template st st2
    \<and> (\<forall>l \<in> set ls. leaf_code (es_mem st2) dst l = leaf_code (es_mem st) addr l)"
proof -
  let ?m = "es_mem st" and ?ps = "map (\<lambda>l. (l, leaf_code (es_mem st) addr l)) (flat es 0)"
  have "\<forall>l \<in> set (flat es 0). leaf_ok ?m addr l \<and> leaf_src ?m addr l \<inter> {blob..<blob + length (blob_code ?m addr (flat es 0))} = {}"
    using assms by auto
  from struct_2_blob_result [OF assms(3,7,4) this] assms(10) obtain st1 where
    st1: "struct_2_blob st addr blob root = Some (Some (st1, int (length code)))" "es_mem st1 = mem_write ?m blob code"
      "es_calls st1 = es_calls st + 1" "same_template st st1" by (auto simp: assms(1,2))
  have mal: "es_malloc st1 = es_malloc st" using st1(4) by (simp add: same_template_def)
  have cc: "concat (map snd ?ps) = code" by (simp add: assms(1,2) blob_code_def comp_def)
  have "strings_of ?ps = map (leaf_code ?m addr) (filter is_string (flat es 0))"
    by (simp add: strings_of_def filter_map comp_def)
  then have fresh: "fresh_blocks (es_malloc st1) (es_calls st1 + 1) (strings_of ?ps) ({blob..<blob + length code} \<union> {dst..<dst + nat (esize es)})"
    using assms(12) st1(3) mal by (simp add: assms(1))
  have fits: "\<forall>x \<in> set ?ps. leaf_fits (fst x) (snd x)" using assms(9) leaf_code_fits by (auto simp: assms(1))
  have "mem_bytes (es_mem st1) blob (length code) = concat (map snd ?ps)" using st1(2) cc by simp
  from blob_2_struct_result [OF same_template_at [OF st1(4) assms(3)] _ assms(5,6) _ fits _ assms(10) this assms(11) fresh]
  obtain st2 where st2: "blob_2_struct st1 blob dst root = Some (Some (st2, int (length code)))" "same_template st1 st2"
    "\<forall>x \<in> set ?ps. leaf_code (es_mem st2) dst (fst x) = snd x"
    using assms(8) st1(3) mal cc by (auto simp: comp_def)
  then show ?thesis using st1 same_template_trans [OF st1(4) st2(2)] by (auto simp: assms(1))
qed

text \<open>An example: an integer, two copies of a sub-structure with one byte, and a string.\<close>

definition attr_example :: "elem_type \<Rightarrow> int \<Rightarrow> elem_attr" where
  "attr_example ty sz = ELEM_ATTR (Some [97]) ty sz RefNull None"

definition telems_example :: telems where
  "telems_example = TField (attr_example CUBE_TYPE_INT 0)
     (TSub (attr_example CUBE_TYPE_SUBSTRUCT 2) (TNode 1 (TField (attr_example CUBE_TYPE_UCHAR 0) TNil))
       (TField (attr_example CUBE_TYPE_ESTRING 0) TNil))"

definition nodes_example :: "nat \<Rightarrow> struct_node" where
  "nodes_example k =
     (let t = (\<lambda>ty sz off n fat. empty_elem\<lparr>elem_desc := attr_example ty sz, et_offset := off, et_size := n, et_father := fat\<rparr>)
      in if k = 0 then empty_snode\<lparr>sn_elem_no := 3, elem_list :=
           [t CUBE_TYPE_INT 0 0 4 None, (t CUBE_TYPE_SUBSTRUCT 2 4 1 None)\<lparr>et_ref := ERefNode 1\<rparr>, t CUBE_TYPE_ESTRING 0 6 8 None]\<rparr>
         else empty_snode\<lparr>sn_parent := Some 0, sn_elem_no := 1, elem_list := [t CUBE_TYPE_UCHAR 0 0 1 (Some (0, 1))]\<rparr>)"

definition state_example :: estate where
  "state_example = \<lparr>es_node = nodes_example, es_next = 2,
     es_mem = mem_write (mem_write (\<lambda>_. 0) 100 [1, 2, 3, 4, 5, 6, 200]) 200 [104, 105], es_malloc = (\<lambda>k. Some (1000 + 100 * k)),
     es_calls = 0, es_stack = 5000\<rparr>"

lemma template_example: "template_at state_example 0 telems_example"
  by (simp add: template_at_def state_example_def telems_example_def nodes_example_def attr_example_def Let_def plain_type_def
      fsize_def reps_def empty_elem_def empty_snode_def fixed_elemsize)

lemma flat_example:
  "flat telems_example 0 = [(0, attr_example CUBE_TYPE_INT 0), (4, attr_example CUBE_TYPE_UCHAR 0),
     (5, attr_example CUBE_TYPE_UCHAR 0), (6, attr_example CUBE_TYPE_ESTRING 0)]"
  by (simp add: telems_example_def fsize_def reps_def fixed_elemsize attr_example_def upt_rec)

lemma ptr_example: "get_ptr (es_mem state_example) 106 = 200"
proof -
  have "{..<8 :: nat} = {0, 1, 2, 3, 4, 5, 6, 7}" by auto
  then show ?thesis by (simp add: state_example_def get_ptr_def fun_upd_apply)
qed

lemma str_example: "cstr (es_mem state_example) 200 [104, 105]"
  by (simp add: cstr_def state_example_def mem_bytes_def upt_rec fun_upd_apply)

lemma code_example:
  "map (leaf_code (es_mem state_example) 100) (flat telems_example 0) = [[1, 2, 3, 4], [5], [6], [104, 105, 0]]"
  using ptr_example Strlen_cstr [OF str_example]
  by (simp add: flat_example leaf_code_def is_string_def attr_example_def fsize_def fixed_elemsize adr_plus_def)
     (simp add: state_example_def mem_bytes_def upt_rec fun_upd_apply)

theorem struct_blob_roundtrip_witness:
  "\<exists>st1 st2. struct_2_blob state_example 100 300 0 = Some (Some (st1, 9))
    \<and> mem_bytes (es_mem st1) 300 9 = [1, 2, 3, 4, 5, 6, 104, 105, 0]
    \<and> blob_2_struct st1 300 400 0 = Some (Some (st2, 9)) \<and> mem_bytes (es_mem st2) 400 4 = [1, 2, 3, 4]"
proof -
  let ?m = "es_mem state_example" and ?ls = "flat telems_example 0"
  have code: "blob_code ?m 100 ?ls = [1, 2, 3, 4, 5, 6, 104, 105, 0]" by (simp add: blob_code_def code_example)
  have len: "length (blob_code ?m 100 ?ls) = 9" by (simp add: code)
  have es: "esize telems_example = 14" by (simp add: telems_example_def fsize_def reps_def fixed_elemsize attr_example_def)
  have mal: "es_malloc state_example k \<noteq> None" for k by (simp add: state_example_def)
  have ok: "\<forall>l \<in> set ?ls. leaf_ok ?m 100 l \<and> (is_string l \<longrightarrow> get_ptr ?m (adr_plus 100 (fst l)) \<noteq> 0)
      \<and> leaf_src ?m 100 l \<inter> {300..<300 + length (blob_code ?m 100 ?ls)} = {}"
    unfolding len using ptr_example Strlen_cstr [OF str_example]
    by (auto simp: flat_example leaf_ok_def leaf_src_def leaf_range_def is_string_def attr_example_def leaf_code_def
        fsize_def fixed_elemsize adr_plus_def)
  have "map (leaf_code ?m 100) (filter is_string ?ls) = [[104, 105, 0]]"
    using code_example by (simp add: flat_example is_string_def attr_example_def)
  then have fresh: "fresh_blocks (es_malloc state_example) (es_calls state_example + 2) (map (leaf_code ?m 100) (filter is_string ?ls))
      ({300..<300 + length (blob_code ?m 100 ?ls)} \<union> {400..<400 + nat (esize telems_example)})"
    unfolding len es by (auto simp: state_example_def block_range_def)
  have pos: "(0::nat) < 100" "(0::nat) < 300" "(0::nat) < 400" by simp_all
  have sz: "length (blob_code ?m 100 ?ls) < 2 ^ 31"
    "{400..<400 + nat (esize telems_example)} \<inter> {300..<300 + length (blob_code ?m 100 ?ls)} = {}" by (simp_all add: len es)
  from struct_blob_roundtrip [OF refl refl template_example pos mal mal ok sz fresh]
  obtain st1 st2 where r: "struct_2_blob state_example 100 300 0 = Some (Some (st1, 9))"
    "es_mem st1 = mem_write ?m 300 (blob_code ?m 100 ?ls)" "blob_2_struct st1 300 400 0 = Some (Some (st2, 9))"
    "\<forall>l \<in> set ?ls. leaf_code (es_mem st2) 400 l = leaf_code ?m 100 l"
    by (auto simp: len)
  have "mem_bytes (es_mem st1) 300 (length (blob_code ?m 100 ?ls)) = blob_code ?m 100 ?ls" by (simp only: r(2) mem_bytes_mem_write)
  note this [unfolded len, unfolded code]
  moreover have "mem_bytes (es_mem st2) 400 4 = [1, 2, 3, 4]"
    using r(4) code_example
    by (simp add: flat_example leaf_code_def is_string_def attr_example_def fsize_def fixed_elemsize adr_plus_def)
  ultimately show ?thesis using r by blast
qed

end
