(* ===== verification/Cube_Struct_Create.thy ===== *)
theory Cube_Struct_Create
  imports Cube_Struct_Blob
begin

text \<open>
  What \<open>create_struct_template\<close> builds: for a description of plain elements and sub-structures of such elements the
  nodes are a template as the walk and the conversions need it, with the element descriptions in order, the offsets and
  sizes of a packed structure and the links between nodes.
\<close>

section \<open>Descriptions\<close>

text \<open>The entries before the one that ends a description.\<close>

definition counted :: "elem_attr list \<Rightarrow> elem_attr list" where
  "counted desc = takeWhile (\<lambda>a. ea_name a \<noteq> None \<and> ea_type a \<noteq> CUBE_TYPE_ENDDATA) desc"

lemma count_counted: "count_struct_num desc = length (counted desc)"
  by (simp add: count_struct_num_def counted_def)

lemma counted_prefix: "\<exists>rest. desc = counted desc @ rest"
  unfolding counted_def by (metis takeWhile_dropWhile_id)

definition names_ok :: "elem_attr \<Rightarrow> bool" where
  "names_ok d \<longleftrightarrow> isnamelistelem (ea_type d) \<longrightarrow> ea_ref d = RefNull \<or> (\<exists>xs. ea_ref d = RefNames xs)"

inductive plain_desc :: "elem_attr list \<Rightarrow> bool" where
  desc_Nil: "plain_desc []"
| desc_field: "plain_type (ea_type d) \<Longrightarrow> 0 \<le> fsize d \<Longrightarrow> names_ok d \<Longrightarrow> plain_desc ds \<Longrightarrow> plain_desc (d # ds)"
| desc_sub: "ea_type d = CUBE_TYPE_SUBSTRUCT \<Longrightarrow> 0 \<le> ea_size d \<Longrightarrow> ea_ref d = RefStruct ss \<Longrightarrow> plain_desc (counted ss) \<Longrightarrow>
    plain_desc ds \<Longrightarrow> plain_desc (d # ds)"

text \<open>A template has the elements of a description.\<close>

primrec follows_node :: "tnode \<Rightarrow> elem_attr list \<Rightarrow> bool" and follows :: "telems \<Rightarrow> elem_attr list \<Rightarrow> bool" where
  "follows_node (TNode n es) ds = follows es ds"
| "follows TNil ds \<longleftrightarrow> ds = []"
| "follows (TField d es) ds \<longleftrightarrow> ds \<noteq> [] \<and> hd ds = d \<and> ea_type d \<noteq> CUBE_TYPE_SUBSTRUCT \<and> follows es (tl ds)"
| "follows (TSub d t es) ds \<longleftrightarrow>
     ds \<noteq> [] \<and> hd ds = d \<and> ea_type d = CUBE_TYPE_SUBSTRUCT \<and> follows_node t (counted (sub_desc d)) \<and> follows es (tl ds)"

lemma follows_Nil: "follows es [] \<longleftrightarrow> es = TNil"
  by (cases es) simp_all

lemma follows_Cons:
  "follows es (d # ds) \<longleftrightarrow>
     (if ea_type d = CUBE_TYPE_SUBSTRUCT
      then \<exists>n ces es'. es = TSub d (TNode n ces) es' \<and> follows ces (counted (sub_desc d)) \<and> follows es' ds
      else \<exists>es'. es = TField d es' \<and> follows es' ds)"
proof (cases es)
  case (TSub d t es')
  then show ?thesis by (cases t) auto
qed auto

section \<open>Prepared nodes\<close>

text \<open>The elements of the node \<open>n\<close> from place \<open>i\<close> on as \<open>prep_loop\<close> leaves them, and the nodes they refer to.\<close>

definition raw :: "estate \<Rightarrow> nat \<Rightarrow> nat \<Rightarrow> elem_attr \<Rightarrow> bool" where
  "raw st q n d \<longleftrightarrow> es_node st q = empty_snode\<lparr>struct_desc := sub_desc d, sn_parent := Some n\<rparr>"

definition node_ref :: "elem_template \<Rightarrow> nat" where
  "node_ref t = (case et_ref t of ERefNode q \<Rightarrow> q | _ \<Rightarrow> 0)"

fun sub_ids :: "estate \<Rightarrow> nat \<Rightarrow> nat \<Rightarrow> elem_attr list \<Rightarrow> nat list" where
  "sub_ids st n i [] = []"
| "sub_ids st n i (d # ds) =
     (if ea_type d = CUBE_TYPE_SUBSTRUCT then [node_ref (el st (n, i))] else []) @ sub_ids st n (Suc i) ds"

fun prepared :: "estate \<Rightarrow> nat \<Rightarrow> nat \<Rightarrow> elem_attr list \<Rightarrow> bool" where
  "prepared st n i [] \<longleftrightarrow> True"
| "prepared st n i (d # ds) \<longleftrightarrow>
     (let t = el st (n, i)
      in elem_desc t = d \<and> et_father t = None \<and> et_limit t = 0 \<and> et_index t = 0
         \<and> (ea_type d = CUBE_TYPE_SUBSTRUCT \<longrightarrow> et_ref t = ERefNode (node_ref t) \<and> raw st (node_ref t) n d))
     \<and> prepared st n (Suc i) ds"

lemma prepared_cong:
  "(\<And>j. i \<le> j \<Longrightarrow> j < i + length ds \<Longrightarrow> el st' (n, j) = el st (n, j)) \<Longrightarrow>
   (\<And>k. k \<in> set (sub_ids st n i ds) \<Longrightarrow> es_node st' k = es_node st k) \<Longrightarrow>
   sub_ids st' n i ds = sub_ids st n i ds \<and> (prepared st n i ds \<longrightarrow> prepared st' n i ds)"
proof (induction ds arbitrary: i)
  case (Cons d ds)
  have e: "el st' (n, i) = el st (n, i)" using Cons.prems(1) by simp
  have "sub_ids st' n (Suc i) ds = sub_ids st n (Suc i) ds \<and> (prepared st n (Suc i) ds \<longrightarrow> prepared st' n (Suc i) ds)"
    using Cons.prems by (intro Cons.IH) auto
  moreover have "ea_type d = CUBE_TYPE_SUBSTRUCT \<Longrightarrow> es_node st' (node_ref (el st (n, i))) = es_node st (node_ref (el st (n, i)))"
    using Cons.prems(2) by simp
  ultimately show ?case using e by (simp add: Let_def raw_def)
qed simp

text \<open>What is left of a state: memory and the answers of \<^verbatim>\<open>malloc\<close>, which never fails.\<close>

definition grows :: "estate \<Rightarrow> estate \<Rightarrow> bool" where
  "grows st st' \<longleftrightarrow> es_next st \<le> es_next st' \<and> es_calls st \<le> es_calls st' \<and> es_malloc st' = es_malloc st
     \<and> es_mem st' = es_mem st \<and> es_stack st' = es_stack st"

lemma grows_refl [simp]: "grows st st" by (simp add: grows_def)
lemma grows_trans: "grows a b \<Longrightarrow> grows b c \<Longrightarrow> grows a c" by (auto simp: grows_def)

definition memory_ok :: "estate \<Rightarrow> bool" where "memory_ok st \<longleftrightarrow> (\<forall>k \<ge> es_calls st. es_malloc st k \<noteq> None)"

lemma memory_ok_grows: "memory_ok st \<Longrightarrow> grows st st' \<Longrightarrow> memory_ok st'"
  by (simp add: memory_ok_def grows_def)

lemma memory_ok_call: "memory_ok st \<Longrightarrow> talloc_ok st = (st\<lparr>es_calls := es_calls st + 1\<rparr>, True)"
  by (simp add: memory_ok_def talloc_ok_def)

section \<open>Preparing a node\<close>

lemma plain_desc_types: "plain_desc ds \<Longrightarrow> d \<in> set ds \<Longrightarrow> issubsetelem (ea_type d) \<longleftrightarrow> ea_type d = CUBE_TYPE_SUBSTRUCT"
  by (induction rule: plain_desc.induct) (auto dest: plain_type_kinds)

text \<open>Everything about the node \<open>n\<close> but its list of elements.\<close>

definition same_rest :: "struct_node \<Rightarrow> struct_node \<Rightarrow> bool" where
  "same_rest a b \<longleftrightarrow> a\<lparr>elem_list := []\<rparr> = b\<lparr>elem_list := []\<rparr> \<and> length (elem_list a) = length (elem_list b)"

lemma same_rest_refl [simp]: "same_rest a a" by (simp add: same_rest_def)
lemma same_rest_trans: "same_rest a b \<Longrightarrow> same_rest b c \<Longrightarrow> same_rest a c" by (simp add: same_rest_def)

lemma same_rest_sel:
  "same_rest a b \<Longrightarrow> sn_parent a = sn_parent b \<and> sn_elem_no a = sn_elem_no b \<and> struct_desc a = struct_desc b
     \<and> temp_var a = temp_var b \<and> length (elem_list a) = length (elem_list b)"
  by (cases a; cases b) (simp add: same_rest_def)

lemma prep_loop_result:
  assumes "\<And>d. d \<in> set ds \<Longrightarrow> issubsetelem (ea_type d) \<longleftrightarrow> ea_type d = CUBE_TYPE_SUBSTRUCT" "memory_ok st" "n < es_next st"
    and "drop i (struct_desc (es_node st n)) = ds @ rest" "length (elem_list (es_node st n)) = i + length ds"
    and "\<forall>j. i \<le> j \<longrightarrow> j < i + length ds \<longrightarrow> el st (n, j) = empty_elem"
  shows "\<exists>st'. prep_loop n None i (length ds) st = (st', True) \<and> prepared st' n i ds \<and> distinct (sub_ids st' n i ds)
    \<and> set (sub_ids st' n i ds) \<subseteq> {es_next st..<es_next st'} \<and> grows st st' \<and> same_rest (es_node st' n) (es_node st n)
    \<and> (\<forall>j<i. el st' (n, j) = el st (n, j)) \<and> (\<forall>k<es_next st. k \<noteq> n \<longrightarrow> es_node st' k = es_node st k)"
  using assms
proof (induction ds arbitrary: i st)
  case (Cons d ds)
  let ?st1 = "upd_elem (n, i) (\<lambda>t. t\<lparr>elem_desc := d, et_father := None\<rparr>) st"
  have d: "struct_desc (es_node st n) ! i = d" using Cons.prems(4) by (metis append_Cons nth_via_drop)
  have len: "i < length (elem_list (es_node st n))" using Cons.prems(5) by simp
  have tail: "drop (Suc i) (struct_desc (es_node st n)) = ds @ rest" using Cons.prems(4) by (metis append_Cons drop_Suc list.sel(3) tl_drop)
  have sub: "issubsetelem (ea_type d) \<longleftrightarrow> ea_type d = CUBE_TYPE_SUBSTRUCT" using Cons.prems(1) by simp
  have el1: "el ?st1 (n, j) = (if j = i then (el st (n, i))\<lparr>elem_desc := d, et_father := None\<rparr> else el st (n, j))" for j
    using len by (simp add: el_upd_elem)
  have node1: "same_rest (es_node ?st1 n) (es_node st n)" "\<And>k. k \<noteq> n \<Longrightarrow> es_node ?st1 k = es_node st k"
    by (simp_all add: same_rest_def upd_elem_def fun_upd_apply)
  show ?case
  proof (cases "ea_type d = CUBE_TYPE_SUBSTRUCT")
    case False
    have "\<exists>st'. prep_loop n None (Suc i) (length ds) ?st1 = (st', True) \<and> prepared st' n (Suc i) ds \<and> distinct (sub_ids st' n (Suc i) ds)
      \<and> set (sub_ids st' n (Suc i) ds) \<subseteq> {es_next ?st1..<es_next st'} \<and> grows ?st1 st' \<and> same_rest (es_node st' n) (es_node ?st1 n)
      \<and> (\<forall>j<Suc i. el st' (n, j) = el ?st1 (n, j)) \<and> (\<forall>k<es_next ?st1. k \<noteq> n \<longrightarrow> es_node st' k = es_node ?st1 k)"
      using Cons.prems tail same_rest_sel [OF node1(1)] by (intro Cons.IH) (simp_all add: el1 memory_ok_def)
    then obtain st' where st': "prep_loop n None (Suc i) (length ds) ?st1 = (st', True)" "prepared st' n (Suc i) ds"
        "distinct (sub_ids st' n (Suc i) ds)" "set (sub_ids st' n (Suc i) ds) \<subseteq> {es_next st..<es_next st'}" "grows st st'"
        "same_rest (es_node st' n) (es_node ?st1 n)" "\<forall>j<Suc i. el st' (n, j) = el ?st1 (n, j)"
        "\<forall>k<es_next st. k \<noteq> n \<longrightarrow> es_node st' k = es_node ?st1 k" by (auto simp: grows_def)
    have "same_rest (es_node st' n) (es_node st n)" using st'(6) node1(1) by (rule same_rest_trans)
    moreover have "el st' (n, i) = empty_elem\<lparr>elem_desc := d, et_father := None\<rparr>"
      using st'(7) Cons.prems(6) by (simp add: el1)
    ultimately show ?thesis using False st' d sub node1
      by (intro exI [of _ st']) (simp add: Let_def empty_elem_def el1)
  next
    case True
    let ?st2 = "?st1\<lparr>es_calls := es_calls st + 1\<rparr>" let ?q = "es_next st"
    define st3 where "st3 = new_subnode n i d ?st2"
    have q: "?q \<noteq> n" using Cons.prems(3) by simp
    have call: "talloc_ok ?st1 = (?st2, True)" using memory_ok_call [of ?st1] Cons.prems(2) by (simp add: memory_ok_def)
    have node: "es_node st3 ?q = empty_snode\<lparr>struct_desc := sub_desc d, sn_parent := Some n\<rparr>" "es_next st3 = Suc ?q"
      "grows st st3" "memory_ok st3" "\<And>k. k \<noteq> ?q \<Longrightarrow> k \<noteq> n \<Longrightarrow> es_node st3 k = es_node st k"
      "same_rest (es_node st3 n) (es_node st n)"
      using q Cons.prems(2) by (simp_all add: st3_def new_subnode_def Let_def upd_elem_def upd_snode_def fun_upd_apply grows_def memory_ok_def same_rest_def)
    have el3: "el st3 (n, j) = (if j = i then (el st (n, i))\<lparr>elem_desc := d, et_father := None, et_ref := ERefNode ?q\<rparr> else el st (n, j))" for j
      using q len by (simp add: st3_def new_subnode_def Let_def el_def upd_elem_def upd_snode_def fun_upd_apply nth_list_update)
    have "\<exists>st'. prep_loop n None (Suc i) (length ds) st3 = (st', True) \<and> prepared st' n (Suc i) ds \<and> distinct (sub_ids st' n (Suc i) ds)
      \<and> set (sub_ids st' n (Suc i) ds) \<subseteq> {es_next st3..<es_next st'} \<and> grows st3 st' \<and> same_rest (es_node st' n) (es_node st3 n)
      \<and> (\<forall>j<Suc i. el st' (n, j) = el st3 (n, j)) \<and> (\<forall>k<es_next st3. k \<noteq> n \<longrightarrow> es_node st' k = es_node st3 k)"
      using Cons.prems tail node same_rest_sel [OF node(6)] by (intro Cons.IH) (simp_all add: el3)
    then obtain st' where st': "prep_loop n None (Suc i) (length ds) st3 = (st', True)" "prepared st' n (Suc i) ds"
        "distinct (sub_ids st' n (Suc i) ds)" "set (sub_ids st' n (Suc i) ds) \<subseteq> {Suc ?q..<es_next st'}" "grows st3 st'"
        "same_rest (es_node st' n) (es_node st3 n)" "\<forall>j<Suc i. el st' (n, j) = el st3 (n, j)"
        "\<forall>k<Suc ?q. k \<noteq> n \<longrightarrow> es_node st' k = es_node st3 k" using node(2) by auto
    have e: "el st' (n, i) = empty_elem\<lparr>elem_desc := d, et_father := None, et_ref := ERefNode ?q\<rparr>"
      using st'(7) Cons.prems(6) by (simp add: el3)
    then have ref: "node_ref (el st' (n, i)) = ?q" by (simp add: node_ref_def)
    have raw: "raw st' ?q n d" using st'(8) node(1) q by (simp add: raw_def)
    have gr: "grows st st'" using node(3) st'(5) by (rule grows_trans)
    have "?q < es_next st'" using st'(5) node(2) by (simp add: grows_def)
    then show ?thesis using True st' d sub call st3_def [symmetric] e ref raw gr node(5) same_rest_trans [OF st'(6) node(6)] el3
      by (intro exI [of _ st']) (auto simp: Let_def empty_elem_def)
  qed
qed auto

lemma prep_node_result:
  assumes "plain_desc (counted ds)" "struct_desc (es_node st q) = ds" "memory_ok st" "q < es_next st"
  obtains st' where "prep_node q None (count_struct_num ds) st = (st', True)" "prepared st' q 0 (counted ds)"
    "distinct (sub_ids st' q 0 (counted ds))" "set (sub_ids st' q 0 (counted ds)) \<subseteq> {es_next st..<es_next st'}" "grows st st'"
    "sn_parent (es_node st' q) = sn_parent (es_node st q)" "sn_elem_no (es_node st' q) = int (length (counted ds))"
    "length (elem_list (es_node st' q)) = length (counted ds)" "temp_var (es_node st' q) = temp_var (es_node st q)"
    "\<And>k. k < es_next st \<Longrightarrow> k \<noteq> q \<Longrightarrow> es_node st' k = es_node st k"
proof -
  let ?c = "counted ds"
  let ?st1 = "upd_snode q (\<lambda>d. d\<lparr>sn_elem_no := int (length ?c)\<rparr>) st" let ?st2 = "?st1\<lparr>es_calls := es_calls st + 1\<rparr>"
  define st3 where "st3 = upd_snode q (\<lambda>d. d\<lparr>elem_list := replicate (length ?c) empty_elem\<rparr>) ?st2"
  have call: "talloc_ok ?st1 = (?st2, True)" using memory_ok_call [of ?st1] assms(3) by (simp add: memory_ok_def)
  have node: "es_node st3 q = (es_node st q)\<lparr>sn_elem_no := int (length ?c), elem_list := replicate (length ?c) empty_elem\<rparr>"
    "grows st st3" "memory_ok st3" "es_next st3 = es_next st" "\<And>k. k \<noteq> q \<Longrightarrow> es_node st3 k = es_node st k"
    using assms(3) by (simp_all add: st3_def fun_upd_apply grows_def memory_ok_def)
  obtain rest where rest: "ds = ?c @ rest" using counted_prefix by blast
  have "\<exists>st'. prep_loop q None 0 (length ?c) st3 = (st', True) \<and> prepared st' q 0 ?c \<and> distinct (sub_ids st' q 0 ?c)
    \<and> set (sub_ids st' q 0 ?c) \<subseteq> {es_next st3..<es_next st'} \<and> grows st3 st' \<and> same_rest (es_node st' q) (es_node st3 q)
    \<and> (\<forall>j<0. el st' (q, j) = el st3 (q, j)) \<and> (\<forall>k<es_next st3. k \<noteq> q \<longrightarrow> es_node st' k = es_node st3 k)"
  proof (rule prep_loop_result)
    show "drop 0 (struct_desc (es_node st3 q)) = ?c @ rest" using assms(2) rest by (simp add: node(1))
  qed (use assms(4) node in \<open>auto simp: el_def plain_desc_types [OF assms(1)]\<close>)
  then obtain st' where st': "prep_loop q None 0 (length ?c) st3 = (st', True)" "prepared st' q 0 ?c" "distinct (sub_ids st' q 0 ?c)"
    "set (sub_ids st' q 0 ?c) \<subseteq> {es_next st..<es_next st'}" "grows st3 st'" "same_rest (es_node st' q) (es_node st3 q)"
    "\<forall>k<es_next st. k \<noteq> q \<longrightarrow> es_node st' k = es_node st3 k" using node(4) by auto
  show thesis
  proof (rule that [of st'])
    show "prep_node q None (count_struct_num ds) st = (st', True)"
      using st'(1) call by (simp add: prep_node_def count_counted Let_def st3_def)
    show "grows st st'" using node(2) st'(5) by (rule grows_trans)
  qed (use st' node same_rest_sel [OF st'(6)] in simp_all)
qed

section \<open>One element\<close>

text \<open>Only the element \<open>i\<close> of the node \<open>n\<close> differs, and the nodes \<open>K\<close>.\<close>

definition touched :: "estate \<Rightarrow> estate \<Rightarrow> nat \<Rightarrow> nat \<Rightarrow> nat set \<Rightarrow> bool" where
  "touched st st' n i K \<longleftrightarrow> (\<forall>k<es_next st. k \<noteq> n \<longrightarrow> k \<notin> K \<longrightarrow> es_node st' k = es_node st k)
     \<and> same_rest (es_node st' n) (es_node st n) \<and> (\<forall>j. j \<noteq> i \<longrightarrow> el st' (n, j) = el st (n, j)) \<and> grows st st'"

lemma touched_refl: "touched st st n i K" by (simp add: touched_def)

lemma touched_trans: "touched a b n i K \<Longrightarrow> touched b c n i K \<Longrightarrow> touched a c n i K"
  unfolding touched_def grows_def by (metis (no_types, opaque_lifting) le_trans less_le_trans same_rest_trans)

lemma touched_upd: "touched st (upd_elem (n, i) f st) n i K"
  by (auto simp: touched_def same_rest_def upd_elem_def el_def fun_upd_apply grows_def nth_list_update)

lemma touched_calls: "touched st (st\<lparr>es_calls := es_calls st + k\<rparr>) n i K"
  by (simp add: touched_def el_def grows_def)

lemma touched_len: "touched st st' n i K \<Longrightarrow> length (elem_list (es_node st' n)) = length (elem_list (es_node st n))"
  using same_rest_sel by (auto simp: touched_def)

lemma el_upd_same: "i < length (elem_list (es_node st n)) \<Longrightarrow> el (upd_elem (n, i) f st) (n, i) = f (el st (n, i))"
  by (simp add: el_upd_elem)

text \<open>The walk stands at place \<open>i\<close> of the node \<open>n\<close>, before the elements \<open>ds\<close>.\<close>

definition standing :: "nat \<Rightarrow> estate \<Rightarrow> nat \<Rightarrow> nat \<Rightarrow> elem_attr list \<Rightarrow> bool" where
  "standing root st n i ds \<longleftrightarrow> prepared st n i ds \<and> distinct (n # sub_ids st n i ds) \<and> root \<notin> set (sub_ids st n i ds)
     \<and> root < es_next st \<and> (\<forall>k \<in> set (n # sub_ids st n i ds). k < es_next st) \<and> temp_var (es_node st n) = int i
     \<and> sn_elem_no (es_node st n) = int (i + length ds) \<and> length (elem_list (es_node st n)) = i + length ds \<and> memory_ok st"

lemma standing_next:
  assumes "standing root st n i (d # ds)" "touched st st1 n i K" "K \<inter> set (sub_ids st n (Suc i) ds) = {}"
  shows "standing root (next_elem n st1) n (Suc i) ds" "sub_ids (next_elem n st1) n (Suc i) ds = sub_ids st n (Suc i) ds"
proof -
  let ?st = "next_elem n st1"
  have el: "el ?st e = el st1 e" for e by (simp add: next_elem_def el_def fun_upd_apply)
  have nodes: "k < es_next st \<Longrightarrow> k \<noteq> n \<Longrightarrow> k \<notin> K \<Longrightarrow> es_node ?st k = es_node st k" for k
    using assms(2) by (simp add: touched_def next_elem_def fun_upd_apply)
  have n: "n \<notin> set (sub_ids st n (Suc i) ds)" "\<forall>k \<in> set (sub_ids st n (Suc i) ds). k < es_next st"
    using assms(1) by (auto simp: standing_def)
  have "sub_ids ?st n (Suc i) ds = sub_ids st n (Suc i) ds \<and> (prepared st n (Suc i) ds \<longrightarrow> prepared ?st n (Suc i) ds)"
  proof (rule prepared_cong)
    show "el ?st (n, j) = el st (n, j)" if "Suc i \<le> j" for j using assms(2) that by (simp add: el touched_def)
    show "es_node ?st k = es_node st k" if "k \<in> set (sub_ids st n (Suc i) ds)" for k
      by (rule nodes) (use that n assms(3) in auto)
  qed
  moreover have "prepared st n (Suc i) ds" using assms(1) by (simp add: standing_def)
  ultimately have p: "prepared ?st n (Suc i) ds" and ids: "sub_ids ?st n (Suc i) ds = sub_ids st n (Suc i) ds" by auto
  show "sub_ids ?st n (Suc i) ds = sub_ids st n (Suc i) ds" by (fact ids)
  have r: "same_rest (es_node st1 n) (es_node st n)" "grows st st1" "es_next st \<le> es_next st1"
    using assms(2) by (simp_all add: touched_def grows_def)
  have mem: "memory_ok ?st" using memory_ok_grows [OF _ r(2)] assms(1) by (simp add: standing_def memory_ok_def next_elem_def)
  show "standing root ?st n (Suc i) ds"
    using assms(1) p ids mem same_rest_sel [OF r(1)] r(3)
    by (auto simp: standing_def next_elem_def fun_upd_apply split: if_splits)
qed

lemma plain_size:
  "plain_type (ea_type d) \<Longrightarrow> (if ispointerelem (ea_type d) \<or> isarrayelem (ea_type d) then 8
     else if get_fixed_elemsize (ea_type d) < 0 then ea_size d else get_fixed_elemsize (ea_type d)) = fsize d"
  by (auto simp: plain_type_def fsize_def type_kinds)

lemma names_made:
  assumes "names_ok d" "isnamelistelem (ea_type d)" "memory_ok st"
  obtains k r where "namevalue_2_namelist (ea_ref d) st = Some (st\<lparr>es_calls := es_calls st + k\<rparr>, r)"
  using assms memory_ok_call [OF assms(3)] by (auto simp: names_ok_def namevalue_2_namelist_def intro: that [of 1])

lemma field_step:
  assumes "standing root st n i (d # ds)" "plain_type (ea_type d)" "names_ok d"
  obtains st1 where "frame_loop create_template_ops root n (st, para)
      = frame_loop create_template_ops root n (next_elem n st1, para\<lparr>cp_curr_offset := cp_curr_offset para + fsize d\<rparr>)"
    "touched st st1 n i {}" "elem_desc (el st1 (n, i)) = d" "et_offset (el st1 (n, i)) = cp_curr_offset para"
    "et_size (el st1 (n, i)) = fsize d" "et_father (el st1 (n, i)) = cp_parent_elem para"
proof -
  let ?e = "(n, i)" and ?para = "para\<lparr>cp_curr_offset := cp_curr_offset para + fsize d\<rparr>"
  have st: "temp_var (es_node st n) = int i" "int i < sn_elem_no (es_node st n)" "i < length (elem_list (es_node st n))" "memory_ok st"
    "elem_desc (el st ?e) = d" using assms(1) by (auto simp: standing_def Let_def)
  have kinds: "\<not> issubsetelem (ea_type d)" "\<not> isdefineelem (ea_type d)" "elem_get_ops (ea_type d) \<noteq> None"
    using plain_type_kinds [OF assms(2)] by simp_all
  define s1 where "s1 = upd_elem ?e (\<lambda>t. t\<lparr>et_ref := (case ea_ref d of RefNull \<Rightarrow> ERefNull | r \<Rightarrow> ERefAttr r)\<rparr>) st"
  define s2 where "s2 = upd_elem ?e (\<lambda>t. t\<lparr>et_offset := cp_curr_offset para, et_size := fsize d\<rparr>) s1"
  have t2: "touched st s2 n i {}" unfolding s2_def s1_def by (rule touched_trans; rule touched_upd)
  have e2: "elem_desc (el s2 ?e) = d" "et_offset (el s2 ?e) = cp_curr_offset para" "et_size (el s2 ?e) = fsize d"
    using st(3,5) touched_len [OF touched_upd] by (simp_all add: s2_def s1_def el_upd_same)
  have m2: "memory_ok s2" using memory_ok_grows [OF st(4)] t2 by (simp add: touched_def)
  obtain s3 where s3: "(if isnamelistelem (ea_type d) then
        (case namevalue_2_namelist (ea_ref d) s2 of None \<Rightarrow> None | Some (st3, r) \<Rightarrow> Some (upd_elem ?e (\<lambda>t. t\<lparr>et_ref := r\<rparr>) st3))
      else Some s2) = Some s3" "touched s2 s3 n i {}" "elem_desc (el s3 ?e) = d" "et_offset (el s3 ?e) = cp_curr_offset para"
      "et_size (el s3 ?e) = fsize d"
  proof (cases "isnamelistelem (ea_type d)")
    case True
    from names_made [OF assms(3) True m2] obtain k r where nm: "namevalue_2_namelist (ea_ref d) s2 = Some (s2\<lparr>es_calls := es_calls s2 + k\<rparr>, r)" .
    let ?s = "s2\<lparr>es_calls := es_calls s2 + k\<rparr>"
    have len: "i < length (elem_list (es_node ?s n))" using st(3) touched_len [OF t2] by simp
    show thesis by (rule that [of "upd_elem ?e (\<lambda>t. t\<lparr>et_ref := r\<rparr>) ?s"])
        (use True nm e2 el_upd_same [OF len] touched_trans [OF touched_calls touched_upd] in \<open>simp_all add: el_def\<close>)
  qed (use that [of s2] e2 touched_refl in simp)
  define s4 where "s4 = upd_elem ?e (\<lambda>t. t\<lparr>et_father := cp_parent_elem para\<rparr>) s3"
  have t4: "touched st s4 n i {}" unfolding s4_def using t2 s3(2) touched_upd by (metis touched_trans)
  have len3: "i < length (elem_list (es_node s3 n))" using st(3) touched_len [OF t2] touched_len [OF s3(2)] by simp
  have "create_template_proc_func ?e (st, para) = Some ((s4, ?para), 0)"
    by (simp only: create_template_proc_func_def Let_def case_prod_conv st(5) kinds(2) if_False plain_size [OF assms(2)]
        s1_def [symmetric] s2_def [symmetric] s3(1) option.map s4_def [symmetric])
  then have "frame_round create_template_ops root n (st, para) = FNext n (next_elem n s4, ?para)"
    using st kinds by (auto simp: frame_round_def frame_elem_def Let_def curr_eid_def create_template_ops_def on_st_def)
  then have "frame_loop create_template_ops root n (st, para) = frame_loop create_template_ops root n (next_elem n s4, ?para)"
    by (subst frame_loop.simps) simp
  from that [OF this t4] show thesis using s3(3-5) el_upd_same [OF len3] by (simp add: s4_def)
qed

section \<open>A sub-structure\<close>

lemma sub_enter:
  fixes para :: create_para
  assumes "standing root st n i (d # ds)" "ea_type d = CUBE_TYPE_SUBSTRUCT" "ea_ref d = RefStruct ss" "plain_desc (counted ss)"
    and "q = node_ref (el st (n, i))"
  obtains st3 where "frame_loop create_template_ops root n (st, para)
      = frame_loop create_template_ops root q (st3, para\<lparr>cp_parent_elem := Some (n, i), cp_curr_offset := 0\<rparr>)"
    "standing root st3 q 0 (counted ss)" "set (sub_ids st3 q 0 (counted ss)) \<subseteq> {es_next st..<es_next st3}" "touched st st3 n i {q}"
    "sn_parent (es_node st3 q) = Some n" "elem_desc (el st3 (n, i)) = d" "et_offset (el st3 (n, i)) = cp_curr_offset para"
    "et_father (el st3 (n, i)) = cp_parent_elem para" "et_ref (el st3 (n, i)) = ERefNode q"
proof -
  let ?e = "(n, i)" and ?c = "counted ss" and ?para = "para\<lparr>cp_parent_elem := Some (n, i), cp_curr_offset := 0\<rparr>"
  have st: "temp_var (es_node st n) = int i" "int i < sn_elem_no (es_node st n)" "i < length (elem_list (es_node st n))" "memory_ok st"
    "elem_desc (el st ?e) = d" "et_father (el st ?e) = None" "et_ref (el st ?e) = ERefNode q"
    "es_node st q = empty_snode\<lparr>struct_desc := ss, sn_parent := Some n\<rparr>" "q < es_next st" "q \<noteq> n" "q \<noteq> root" "n < es_next st" "root < es_next st"
    using assms by (auto simp: standing_def Let_def raw_def sub_desc_def)
  obtain st1 where st1: "prep_node q None (count_struct_num ss) st = (st1, True)" "prepared st1 q 0 ?c" "distinct (sub_ids st1 q 0 ?c)"
      "set (sub_ids st1 q 0 ?c) \<subseteq> {es_next st..<es_next st1}" "grows st st1" "sn_parent (es_node st1 q) = Some n"
      "sn_elem_no (es_node st1 q) = int (length ?c)" "length (elem_list (es_node st1 q)) = length ?c" "temp_var (es_node st1 q) = 0"
      "\<And>k. k < es_next st \<Longrightarrow> k \<noteq> q \<Longrightarrow> es_node st1 k = es_node st k"
    using prep_node_result [OF assms(4), of st q] st(4,8,9) by (auto simp: empty_snode_def)
  have old: "es_node st1 n = es_node st n" using st1(10) st(10,12) by metis
  define k where "k = (if \<not> isarrayelem (ea_type d) \<and> ea_size d > 0 then ea_size d else 1)"
  define st2 where "st2 = upd_elem ?e (\<lambda>t. t\<lparr>et_offset := cp_curr_offset para,
      et_father := (case et_father t of None \<Rightarrow> cp_parent_elem para | f \<Rightarrow> f), et_limit := k\<rparr>) st1"
  define st3 where "st3 = upd_snode q (\<lambda>d. d\<lparr>temp_var := 0\<rparr>) st2"
  have el1: "el st1 ?e = el st ?e" using old by (simp add: el_def)
  have el2: "el st2 ?e = (el st ?e)\<lparr>et_offset := cp_curr_offset para, et_father := cp_parent_elem para, et_limit := k\<rparr>"
    using st(3,6) old el1 by (simp add: st2_def el_upd_same)
  have el3: "el st3 x = el st2 x" for x by (simp add: st3_def el_upd_snode)
  have nodes: "es_node st3 m = es_node st1 m" if "m \<noteq> q" "m \<noteq> n" for m
    using that by (simp add: st3_def st2_def upd_elem_def fun_upd_apply)
  have q3: "es_node st3 q = es_node st1 q"
    using st(10) st1(9) by (simp add: st3_def st2_def upd_elem_def fun_upd_apply)
  have "create_template_enterstruct ?e (st, para) = Some ((st2, ?para), 0)"
    using st1(1) st(5,7,8) assms(3) by (simp add: create_template_enterstruct_def Let_def st2_def k_def)
  then have "frame_round create_template_ops root n (st, para) = FNext q (st3, ?para)"
    using st assms(2) el2 by (simp add: frame_round_def frame_elem_def Let_def curr_eid_def create_template_ops_def on_st_def call_cb_def st3_def)
  then have loop: "frame_loop create_template_ops root n (st, para) = frame_loop create_template_ops root q (st3, ?para)"
    by (subst frame_loop.simps) simp
  have ids: "sub_ids st3 q 0 ?c = sub_ids st1 q 0 ?c \<and> (prepared st1 q 0 ?c \<longrightarrow> prepared st3 q 0 ?c)"
  proof (rule prepared_cong)
    show "el st3 (q, j) = el st1 (q, j)" for j using q3 by (simp add: el_def)
    show "es_node st3 m = es_node st1 m" if "m \<in> set (sub_ids st1 q 0 ?c)" for m
      using that st1(4) st(9,12) by (intro nodes) auto
  qed
  have gr: "grows st st3" using st1(5) by (simp add: grows_def st3_def st2_def)
  have nx: "es_next st3 = es_next st1" by (simp add: st3_def st2_def)
  have "touched st1 st2 n i {q}" unfolding st2_def by (rule touched_upd)
  then have "same_rest (es_node st3 n) (es_node st n)" "\<forall>j. j \<noteq> i \<longrightarrow> el st3 (n, j) = el st (n, j)"
    using old st(10) by (simp_all add: touched_def st3_def fun_upd_apply el_def)
  then have t: "touched st st3 n i {q}" using gr nodes st1(10) by (auto simp: touched_def)
  have "es_next st \<le> es_next st3" using gr by (simp add: grows_def)
  then have "standing root st3 q 0 ?c"
    using ids st1 q3 nx st memory_ok_grows [OF st(4) gr] by (auto simp: standing_def)
  from that [OF loop this _ t] show thesis using ids st1(4,6) q3 nx el2 el3 st(5,7) by simp
qed

lemma sub_leave:
  fixes para :: create_para
  assumes "temp_var (es_node st q) = sn_elem_no (es_node st q)" "q \<noteq> root" "sn_parent (es_node st q) = Some n"
    and "temp_var (es_node st n) = int i" "i < length (elem_list (es_node st n))" "elem_desc (el st (n, i)) = d"
    and "ea_type d = CUBE_TYPE_SUBSTRUCT"
  obtains st5 where "frame_loop create_template_ops root q (st, para) = frame_loop create_template_ops root n (next_elem n st5,
      para\<lparr>cp_curr_offset := et_offset (el st (n, i)) + cp_curr_offset para * reps d, cp_parent_elem := et_father (el st (n, i))\<rparr>)"
    "touched st st5 n i {}" "el st5 (n, i) = (el st (n, i))\<lparr>et_size := cp_curr_offset para, et_limit := 0, et_index := 0\<rparr>"
proof -
  let ?e = "(n, i)"
  let ?para = "para\<lparr>cp_curr_offset := et_offset (el st ?e) + cp_curr_offset para * reps d, cp_parent_elem := et_father (el st ?e)\<rparr>"
  define s1 where "s1 = upd_elem ?e (\<lambda>t. t\<lparr>et_index := et_index t + 1\<rparr>) st"
  define s2 where "s2 = upd_elem ?e (\<lambda>t. t\<lparr>et_size := cp_curr_offset para, et_limit := reps d\<rparr>) s1"
  define s3 where "s3 = upd_elem ?e (\<lambda>t. t\<lparr>et_index := et_limit t\<rparr>) s2"
  define s4 where "s4 = upd_elem ?e (\<lambda>t. t\<lparr>et_limit := 0, et_index := 0\<rparr>) s3"
  have t: "touched st s1 n i {}" "touched s1 s2 n i {}" "touched s2 s3 n i {}" "touched s3 s4 n i {}"
    unfolding s1_def s2_def s3_def s4_def by (rule touched_upd)+
  have len: "i < length (elem_list (es_node s1 n))" "i < length (elem_list (es_node s2 n))" "i < length (elem_list (es_node s3 n))"
    using assms(5) t touched_len by simp_all
  have e: "el s1 ?e = (el st ?e)\<lparr>et_index := et_index (el st ?e) + 1\<rparr>"
      "el s2 ?e = (el s1 ?e)\<lparr>et_size := cp_curr_offset para, et_limit := reps d\<rparr>" "el s3 ?e = (el s2 ?e)\<lparr>et_index := et_limit (el s2 ?e)\<rparr>"
      "el s4 ?e = (el s3 ?e)\<lparr>et_limit := 0, et_index := 0\<rparr>"
    unfolding s1_def s2_def s3_def s4_def by (simp_all add: el_upd_same assms(5) len [unfolded s1_def s2_def s3_def])
  have "create_template_exitstruct ?e (s1, para) = Some ((s3, ?para), 0)"
    using assms(6,7) e(1)
    by (simp add: create_template_exitstruct_def Let_def s3_def s2_def reps_def)
  then have "frame_round create_template_ops root q (st, para) = FNext n (next_elem n s4, ?para)"
    using assms(1-4,6,7) e
    by (simp add: frame_round_def frame_leave_def Let_def curr_eid_def create_template_ops_def on_st_def call_cb_def
        s1_def [symmetric] s4_def [symmetric])
  then have loop: "frame_loop create_template_ops root q (st, para) = frame_loop create_template_ops root n (next_elem n s4, ?para)"
    by (subst frame_loop.simps) simp
  show thesis
    by (rule that [OF loop]) (use t touched_trans e in \<open>blast\<close>, use e in simp)
qed

section \<open>The whole walk\<close>

text \<open>The elements \<open>es\<close> stand at the places from \<open>i\<close> on, and the older nodes are as before.\<close>

definition node_kept :: "struct_node \<Rightarrow> struct_node \<Rightarrow> bool" where
  "node_kept a b \<longleftrightarrow> sn_parent a = sn_parent b \<and> sn_elem_no a = sn_elem_no b \<and> length (elem_list a) = length (elem_list b)"

definition built :: "estate \<Rightarrow> estate \<Rightarrow> nat \<Rightarrow> nat \<Rightarrow> elem_attr list \<Rightarrow> telems \<Rightarrow> eid option \<Rightarrow> int \<Rightarrow> bool" where
  "built st st' n i ds es fat off \<longleftrightarrow> follows es ds \<and> tok_elems es (es_node st') n fat i off
     \<and> temp_var (es_node st' n) = int (i + length ds) \<and> distinct (elem_ids es)
     \<and> set (elem_ids es) \<subseteq> set (sub_ids st n i ds) \<union> {es_next st..<es_next st'}
     \<and> (\<forall>k<es_next st. k \<noteq> n \<longrightarrow> k \<notin> set (sub_ids st n i ds) \<longrightarrow> es_node st' k = es_node st k)
     \<and> (\<forall>j<i. el st' (n, j) = el st (n, j)) \<and> node_kept (es_node st' n) (es_node st n) \<and> grows st st'"

lemma follows_count:
  shows "follows_node t ds \<Longrightarrow> elem_count (node_elems t) = length ds" and "follows es ds \<Longrightarrow> elem_count es = length ds"
proof (induction t and es arbitrary: ds and ds rule: tnode.induct telems.induct)
  case (TField d es)
  then show ?case by (cases ds) auto
next
  case (TSub d t es)
  then show ?case by (cases ds) auto
qed auto

lemma built_field:
  assumes "standing root st n i (d # ds)" "touched st st1 n i {}" "plain_type (ea_type d)" "0 \<le> fsize d"
    and "elem_desc (el st1 (n, i)) = d" "et_offset (el st1 (n, i)) = off" "et_size (el st1 (n, i)) = fsize d" "et_father (el st1 (n, i)) = fat"
    and "built (next_elem n st1) st' n (Suc i) ds es fat (off + fsize d)"
  shows "built st st' n i (d # ds) (TField d es) fat off"
proof -
  let ?st = "next_elem n st1"
  have ids: "sub_ids ?st n (Suc i) ds = sub_ids st n i (d # ds)" "ea_type d \<noteq> CUBE_TYPE_SUBSTRUCT"
    using standing_next(2) [OF assms(1,2)] plain_type_kinds [OF assms(3)] by auto
  have el: "el ?st e = el st1 e" for e by (simp add: next_elem_def el_def fun_upd_apply)
  have t: "same_rest (es_node st1 n) (es_node st n)" "\<And>j. j \<noteq> i \<Longrightarrow> el st1 (n, j) = el st (n, j)" "grows st st1" "es_next st \<le> es_next st1"
    "\<And>k. k < es_next st \<Longrightarrow> k \<noteq> n \<Longrightarrow> es_node st1 k = es_node st k"
    using assms(2) by (simp_all add: touched_def grows_def)
  have b: "follows es ds" "tok_elems es (es_node st') n fat (Suc i) (off + fsize d)" "temp_var (es_node st' n) = int (Suc i + length ds)"
    "distinct (elem_ids es)" "set (elem_ids es) \<subseteq> set (sub_ids st n i (d # ds)) \<union> {es_next st1..<es_next st'}"
    "\<And>k. k < es_next st1 \<Longrightarrow> k \<noteq> n \<Longrightarrow> k \<notin> set (sub_ids st n i (d # ds)) \<Longrightarrow> es_node st' k = es_node ?st k"
    "\<And>j. j < Suc i \<Longrightarrow> el st' (n, j) = el st1 (n, j)" "node_kept (es_node st' n) (es_node ?st n)" "grows ?st st'"
    using assms(9) by (simp_all add: built_def ids(1) el) (simp_all add: next_elem_def)
  have "node_kept (es_node st' n) (es_node st n)"
    using b(8) same_rest_sel [OF t(1)] by (simp add: node_kept_def next_elem_def fun_upd_apply)
  moreover have "grows st st'" using t(3) b(9) by (simp add: grows_def next_elem_def)
  moreover have "es_node st' k = es_node st k" if "k < es_next st" "k \<noteq> n" "k \<notin> set (sub_ids st n i (d # ds))" for k
    using b(6) [of k] t(4,5) that by (simp add: next_elem_def fun_upd_apply)
  moreover have "elem_list (es_node st' n) ! i = el st1 (n, i)" using b(7) [of i] by (simp add: el_def)
  moreover have "set (elem_ids es) \<subseteq> set (sub_ids st n i (d # ds)) \<union> {es_next st..<es_next st'}" using b(5) t(4) by fastforce
  ultimately show ?thesis using b assms(3-8) t(2) ids(2) by (simp add: built_def Let_def del: sub_ids.simps)
qed

text \<open>The walk through a sub-structure touches its node and nodes that are new.\<close>

lemma touched_sub:
  assumes "touched st st3 n i {q}" "built st3 st4 q 0 cs ces fat 0" "set (sub_ids st3 q 0 cs) \<subseteq> {es_next st..<es_next st3}"
    and "n < es_next st" "q \<noteq> n"
  shows "touched st st4 n i {q}" "es_node st4 n = es_node st3 n"
proof -
  have k: "es_node st4 k = es_node st3 k" if "k < es_next st" "k \<noteq> q" for k
  proof -
    have "k < es_next st3" "k \<notin> set (sub_ids st3 q 0 cs)" using that(1) assms(1,3) by (auto simp: touched_def grows_def)
    then show ?thesis using that(2) assms(2) by (simp add: built_def)
  qed
  show n: "es_node st4 n = es_node st3 n" using k assms(4,5) by metis
  have "grows st st4" using assms(1,2) grows_trans by (auto simp: touched_def built_def)
  then show "touched st st4 n i {q}" using assms(1) k n by (simp add: touched_def el_def)
qed

lemma built_sub:
  assumes "standing root st n i (d # ds)" "ea_type d = CUBE_TYPE_SUBSTRUCT" "0 \<le> ea_size d" "q = node_ref (el st (n, i))"
    and "standing root st3 q 0 (counted (sub_desc d))" "set (sub_ids st3 q 0 (counted (sub_desc d))) \<subseteq> {es_next st..<es_next st3}"
    and "touched st st3 n i {q}" "built st3 st4 q 0 (counted (sub_desc d)) ces (Some (n, i)) 0" "sn_parent (es_node st3 q) = Some n"
    and "touched st4 st5 n i {}" "elem_desc (el st5 (n, i)) = d" "et_offset (el st5 (n, i)) = off" "et_size (el st5 (n, i)) = esize ces"
    and "et_father (el st5 (n, i)) = fat" "et_ref (el st5 (n, i)) = ERefNode q" "et_limit (el st5 (n, i)) = 0" "et_index (el st5 (n, i)) = 0"
    and "built (next_elem n st5) st' n (Suc i) ds es fat (off + esize ces * reps d)"
  shows "built st st' n i (d # ds) (TSub d (TNode q ces) es) fat off"
proof -
  let ?c = "counted (sub_desc d)" and ?st = "next_elem n st5" and ?I = "sub_ids st n (Suc i) ds"
  have st: "q \<noteq> n" "n < es_next st" "q < es_next st" "q \<notin> set ?I" "n \<notin> set ?I" "\<forall>k \<in> set ?I. k < es_next st"
    using assms(1,2,4) by (auto simp: standing_def)
  have t4: "touched st st4 n i {q}" by (rule touched_sub(1) [OF assms(7,8,6) st(2,1)])
  have "touched st4 st5 n i {q}" using assms(10) by (simp add: touched_def)
  with t4 have t5: "touched st st5 n i {q}" by (rule touched_trans)
  have I: "sub_ids ?st n (Suc i) ds = ?I" using standing_next(2) [OF assms(1) t5] st(4) by simp
  have el: "el ?st e = el st5 e" for e by (simp add: next_elem_def el_def fun_upd_apply)
  have c: "follows ces ?c" "tok_elems ces (es_node st4) q (Some (n, i)) 0 0" "distinct (elem_ids ces)"
    "node_kept (es_node st4 q) (es_node st3 q)" "set (elem_ids ces) \<subseteq> set (sub_ids st3 q 0 ?c) \<union> {es_next st3..<es_next st4}"
    using assms(8) by (simp_all add: built_def)
  have "es_next st \<le> es_next st3" "es_next st3 \<le> es_next st4" using assms(7,8) by (simp_all add: touched_def built_def grows_def)
  then have new: "set (elem_ids ces) \<subseteq> {es_next st..<es_next st4}" using c(5) assms(6) by fastforce
  have q3: "sn_elem_no (es_node st3 q) = int (length ?c)" "length (elem_list (es_node st3 q)) = length ?c"
    using assms(5) by (simp_all add: standing_def)
  have b: "follows es ds" "tok_elems es (es_node st') n fat (Suc i) (off + esize ces * reps d)" "temp_var (es_node st' n) = int (Suc i + length ds)"
    "distinct (elem_ids es)" "set (elem_ids es) \<subseteq> set ?I \<union> {es_next st5..<es_next st'}"
    "\<And>k. k < es_next st5 \<Longrightarrow> k \<noteq> n \<Longrightarrow> k \<notin> set ?I \<Longrightarrow> es_node st' k = es_node st5 k"
    "\<And>j. j < Suc i \<Longrightarrow> el st' (n, j) = el st5 (n, j)" "node_kept (es_node st' n) (es_node ?st n)" "grows st5 st'"
    using assms(18) by (simp_all add: built_def I el) (simp_all add: next_elem_def fun_upd_apply grows_def)
  have nx: "es_next st \<le> es_next st4" "es_next st4 \<le> es_next st5" "es_next st5 \<le> es_next st'"
    using t4 assms(10) b(9) by (simp_all add: touched_def grows_def)
  have same: "es_node st' k = es_node st4 k" if "k \<in> insert q (set (elem_ids ces))" for k
  proof -
    have k: "k < es_next st4" "k \<noteq> n" "k \<notin> set ?I" using that st new nx(1) by fastforce+
    then show ?thesis using b(6) [of k] nx(2) assms(10) by (simp add: touched_def)
  qed
  have "tok_elems ces (es_node st') q (Some (n, i)) 0 0" by (rule tok_same(2) [OF _ c(2)]) (simp add: same)
  then have node: "tok_node (TNode q ces) (es_node st') (Some n) (Some (n, i))"
    using same [of q] c(4) q3 assms(9) follows_count(2) [OF c(1)] by (simp add: node_kept_def)
  have "elem_list (es_node st' n) ! i = el st5 (n, i)" using b(7) [of i] by (simp add: el_def)
  then have tok: "tok_elems (TSub d (TNode q ces) es) (es_node st') n fat i off"
    using node b(2) assms(2,3,11-17) by (simp add: Let_def)
  have ids: "set (elem_ids ces) \<inter> set (elem_ids es) = {}" "q \<notin> set (elem_ids ces)" "q \<notin> set (elem_ids es)"
    using new b(5) st nx by fastforce+
  have sub: "set (elem_ids (TSub d (TNode q ces) es)) \<subseteq> set (sub_ids st n i (d # ds)) \<union> {es_next st..<es_next st'}"
    using new b(5) nx assms(2,4) by fastforce
  have old: "es_node st' k = es_node st k" if "k < es_next st" "k \<noteq> n" "k \<notin> set (sub_ids st n i (d # ds))" for k
    using that b(6) [of k] nx t5 assms(2,4) by (simp add: touched_def)
  have "node_kept (es_node st' n) (es_node st n)"
    using b(8) t5 same_rest_sel [of "es_node st5 n" "es_node st n"] by (simp add: node_kept_def touched_def next_elem_def fun_upd_apply)
  moreover have "grows st st'" using t5 b(9) grows_trans by (auto simp: touched_def)
  moreover have "\<forall>j<i. el st' (n, j) = el st (n, j)" using b(7) t5 by (simp add: touched_def)
  ultimately show ?thesis unfolding built_def using tok sub old ids c(1,3) b(1,3,4) assms(2) by (simp del: sub_ids.simps)
qed

lemma walk_builds:
  fixes para :: create_para
  shows "plain_desc ds \<Longrightarrow> standing root st n i ds \<Longrightarrow>
    \<exists>st' es. frame_loop create_template_ops root n (st, para)
        = frame_loop create_template_ops root n (st', para\<lparr>cp_curr_offset := cp_curr_offset para + esize es\<rparr>)
      \<and> built st st' n i ds es (cp_parent_elem para) (cp_curr_offset para)"
proof (induction ds arbitrary: st n i para rule: plain_desc.induct)
  case desc_Nil
  then have "built st st n i [] TNil (cp_parent_elem para) (cp_curr_offset para)" by (simp add: built_def standing_def node_kept_def)
  then show ?case by (intro exI [of _ st] exI [of _ TNil]) simp
next
  case (desc_field d ds)
  obtain st1 where st1: "frame_loop create_template_ops root n (st, para)
      = frame_loop create_template_ops root n (next_elem n st1, para\<lparr>cp_curr_offset := cp_curr_offset para + fsize d\<rparr>)"
    "touched st st1 n i {}" "elem_desc (el st1 (n, i)) = d" "et_offset (el st1 (n, i)) = cp_curr_offset para"
    "et_size (el st1 (n, i)) = fsize d" "et_father (el st1 (n, i)) = cp_parent_elem para"
    by (rule field_step [OF desc_field.prems desc_field.hyps(1,3)])
  have "standing root (next_elem n st1) n (Suc i) ds" using standing_next(1) [OF desc_field.prems st1(2)] by simp
  from desc_field.IH [OF this, of "para\<lparr>cp_curr_offset := cp_curr_offset para + fsize d\<rparr>"] obtain st' es where
    loop: "frame_loop create_template_ops root n (next_elem n st1, para\<lparr>cp_curr_offset := cp_curr_offset para + fsize d\<rparr>)
        = frame_loop create_template_ops root n (st', para\<lparr>cp_curr_offset := cp_curr_offset para + fsize d + esize es\<rparr>)"
    and b: "built (next_elem n st1) st' n (Suc i) ds es (cp_parent_elem para) (cp_curr_offset para + fsize d)" by auto
  from built_field [OF desc_field.prems st1(2) desc_field.hyps(1,2) st1(3-6) b]
  show ?case using st1(1) loop by (intro exI [of _ st'] exI [of _ "TField d es"]) (simp add: add.assoc)
next
  case (desc_sub d ss ds)
  let ?q = "node_ref (el st (n, i))" and ?para = "para\<lparr>cp_parent_elem := Some (n, i), cp_curr_offset := 0\<rparr>"
  have ss: "sub_desc d = ss" using desc_sub.hyps(3) by (simp add: sub_desc_def)
  have q: "?q \<noteq> root" "n < es_next st" "?q \<noteq> n" "?q \<notin> set (sub_ids st n (Suc i) ds)" "temp_var (es_node st n) = int i"
      "i < length (elem_list (es_node st n))" using desc_sub.prems desc_sub.hyps(1) by (auto simp: standing_def)
  obtain st3 where st3: "frame_loop create_template_ops root n (st, para) = frame_loop create_template_ops root ?q (st3, ?para)"
    "standing root st3 ?q 0 (counted ss)" "set (sub_ids st3 ?q 0 (counted ss)) \<subseteq> {es_next st..<es_next st3}" "touched st st3 n i {?q}"
    "sn_parent (es_node st3 ?q) = Some n" "elem_desc (el st3 (n, i)) = d" "et_offset (el st3 (n, i)) = cp_curr_offset para"
    "et_father (el st3 (n, i)) = cp_parent_elem para" "et_ref (el st3 (n, i)) = ERefNode ?q"
    by (rule sub_enter [OF desc_sub.prems desc_sub.hyps(1,3,4) refl])
  from desc_sub.IH(1) [OF st3(2), of ?para] obtain st4 ces where
    st4: "frame_loop create_template_ops root ?q (st3, ?para)
        = frame_loop create_template_ops root ?q (st4, ?para\<lparr>cp_curr_offset := esize ces\<rparr>)"
      "built st3 st4 ?q 0 (counted ss) ces (Some (n, i)) 0" by auto
  note t4 = touched_sub [OF st3(4) st4(2) st3(3) q(2,3)]
  have q4: "temp_var (es_node st4 ?q) = sn_elem_no (es_node st4 ?q)" "sn_parent (es_node st4 ?q) = Some n"
    using st4(2) st3(2,5) by (simp_all add: built_def standing_def node_kept_def)
  have n4: "temp_var (es_node st4 n) = int i" "i < length (elem_list (es_node st4 n))"
    using t4(1) q(5,6) same_rest_sel [of "es_node st4 n" "es_node st n"] by (simp_all add: touched_def)
  have e4: "el st4 (n, i) = el st3 (n, i)" using t4(2) by (simp add: el_def)
  obtain st5 where st5: "frame_loop create_template_ops root ?q (st4, ?para\<lparr>cp_curr_offset := esize ces\<rparr>)
      = frame_loop create_template_ops root n (next_elem n st5, para\<lparr>cp_curr_offset := cp_curr_offset para + esize ces * reps d\<rparr>)"
    "touched st4 st5 n i {}" "el st5 (n, i) = (el st3 (n, i))\<lparr>et_size := esize ces, et_limit := 0, et_index := 0\<rparr>"
    by (rule sub_leave [OF q4(1) q(1) q4(2) n4, where d = d and para = "?para\<lparr>cp_curr_offset := esize ces\<rparr>"])
      (use st3(6-8) desc_sub.hyps(1) in \<open>simp_all add: e4\<close>)
  have "touched st4 st5 n i {?q}" using st5(2) by (simp add: touched_def)
  with t4(1) have t5: "touched st st5 n i {?q}" by (rule touched_trans)
  have "standing root (next_elem n st5) n (Suc i) ds" using standing_next(1) [OF desc_sub.prems t5] q(4) by simp
  from desc_sub.IH(2) [OF this, of "para\<lparr>cp_curr_offset := cp_curr_offset para + esize ces * reps d\<rparr>"] obtain st' es where
    loop: "frame_loop create_template_ops root n (next_elem n st5, para\<lparr>cp_curr_offset := cp_curr_offset para + esize ces * reps d\<rparr>)
        = frame_loop create_template_ops root n (st', para\<lparr>cp_curr_offset := cp_curr_offset para + esize ces * reps d + esize es\<rparr>)"
    and b: "built (next_elem n st5) st' n (Suc i) ds es (cp_parent_elem para) (cp_curr_offset para + esize ces * reps d)" by auto
  have "built st st' n i (d # ds) (TSub d (TNode ?q ces) es) (cp_parent_elem para) (cp_curr_offset para)"
    by (rule built_sub [OF desc_sub.prems desc_sub.hyps(1,2) refl _ _ st3(4) _ st3(5) st5(2) _ _ _ _ _ _ _ b])
      (use st3 st4(2) st5(3) in \<open>simp_all add: ss\<close>)
  then show ?case using st3(1) st4(1) st5(1) loop
    by (intro exI [of _ st'] exI [of _ "TSub d (TNode ?q ces) es"]) (simp add: add.assoc)
qed

section \<open>The template\<close>

text \<open>Of its nodes a template depends on the elements, their number and the parents.\<close>

lemma tok_reads:
  fixes nd nd' :: "nat \<Rightarrow> struct_node"
  assumes "\<And>k. elem_list (nd' k) = elem_list (nd k)" "\<And>k. sn_parent (nd' k) = sn_parent (nd k)" "\<And>k. sn_elem_no (nd' k) = sn_elem_no (nd k)"
  shows "tok_node t nd par fat2 \<Longrightarrow> tok_node t nd' par fat2" and "tok_elems es nd n fat i off \<Longrightarrow> tok_elems es nd' n fat i off"
  by (induction t and es arbitrary: par fat2 and n fat i off rule: tnode.induct telems.induct) (simp_all add: assms Let_def)

lemma last_elem_size:
  fixes nd :: "nat \<Rightarrow> struct_node"
  shows "tok_node t nd par fat \<Longrightarrow> node_elems t \<noteq> TNil \<Longrightarrow> True"
    and "tok_elems es nd n fat i off \<Longrightarrow> es \<noteq> TNil \<Longrightarrow>
      (let x = elem_list (nd n) ! (i + elem_count es - 1)
       in et_offset x + et_size x * (if ea_type (elem_desc x) = CUBE_TYPE_SUBSTRUCT then reps (elem_desc x) else 1)) = off + esize es"
proof (induction t and es arbitrary: par fat and n fat i off rule: tnode.induct telems.induct)
  case (TField d es)
  have "ea_type d \<noteq> CUBE_TYPE_SUBSTRUCT" using TField.prems(1) plain_type_kinds [of CUBE_TYPE_SUBSTRUCT] by (auto simp: Let_def)
  then show ?case using TField.prems(1) TField.IH [of n fat "Suc i" "off + fsize d"]
    by (cases "es = TNil") (auto simp: Let_def add.assoc)
next
  case (TSub d t es)
  then show ?case using TSub.IH(2) [of n fat "Suc i" "off + nsize t * reps d"]
    by (cases "es = TNil") (auto simp: Let_def add.assoc)
qed simp_all

lemma created_struct_size:
  assumes "template_at st root es" "es \<noteq> TNil"
  shows "struct_size st root = Some (esize es)"
proof -
  have n: "sn_elem_no (es_node st root) = int (elem_count es)" "tok_elems es (es_node st) root None 0 0"
    using assms(1) by (simp_all add: template_at_def)
  have pos: "0 < elem_count es" using assms(2) by (cases es) simp_all
  then have "nat (int (elem_count es) - 1) = elem_count es - 1" by (simp add: nat_diff_distrib')
  then show ?thesis using last_elem_size(2) [OF n(2) assms(2)] n(1) pos
    by (auto simp: struct_size_def Let_def reps_def split: if_splits)
qed

text \<open>(C5) (C5)
  From a description whose entries are plain elements and sub-structures of such entries \<open>create_struct_template\<close> builds,
  while \<^verbatim>\<open>malloc\<close> succeeds, a template whose elements are the entries in order, each at the offset where the one before it
  ends, with its size, its father and, for a sub-structure, the node of its own elements; \<open>struct_size\<close> gives its size. The walk ends. No
  node that was there before is changed, nor is memory. The entries of a description are those before the first that has no name or
  the type \<^verbatim>\<open>CUBE_TYPE_ENDDATA\<close>.
\<close>

theorem create_struct_template_builds:
  assumes "plain_desc (counted desc)" "\<forall>k \<ge> es_calls st. es_malloc st k \<noteq> None"
  shows "\<exists>st' es. create_struct_template st desc = Some (st', Some (es_next st)) \<and> template_at st' (es_next st) es
    \<and> follows es (counted desc) \<and> (es \<noteq> TNil \<longrightarrow> struct_size st' (es_next st) = Some (esize es))
    \<and> (\<forall>k<es_next st. es_node st' k = es_node st k) \<and> es_mem st' = es_mem st"
proof -
  let ?r = "es_next st" and ?para = "\<lparr>cp_offset = 0, cp_curr_offset = 0, cp_curr_node = es_next st, cp_parent_elem = None\<rparr>"
  define st0 where "st0 = upd_snode ?r (\<lambda>d. d\<lparr>reentry_count := reentry_count d + 1\<rparr>) (upd_snode ?r (\<lambda>d. d\<lparr>temp_var := 0\<rparr>)
      (st\<lparr>es_next := ?r + 1, es_node := (es_node st)(?r := empty_snode\<lparr>struct_desc := desc\<rparr>), es_calls := es_calls st + 2\<rparr>))"
  have mem: "memory_ok st0" "grows st st0" using assms(2) by (simp_all add: memory_ok_def st0_def grows_def)
  have r0: "es_node st0 ?r = empty_snode\<lparr>struct_desc := desc, reentry_count := 1\<rparr>" "es_next st0 = ?r + 1"
    "\<And>k. k \<noteq> ?r \<Longrightarrow> es_node st0 k = es_node st k" by (simp_all add: st0_def fun_upd_apply empty_snode_def)
  obtain st1 where st1: "prep_node ?r None (count_struct_num desc) st0 = (st1, True)" "prepared st1 ?r 0 (counted desc)"
      "distinct (sub_ids st1 ?r 0 (counted desc))" "set (sub_ids st1 ?r 0 (counted desc)) \<subseteq> {es_next st0..<es_next st1}" "grows st0 st1"
      "sn_parent (es_node st1 ?r) = None" "sn_elem_no (es_node st1 ?r) = int (length (counted desc))"
      "length (elem_list (es_node st1 ?r)) = length (counted desc)" "temp_var (es_node st1 ?r) = 0"
      "\<And>k. k < es_next st0 \<Longrightarrow> k \<noteq> ?r \<Longrightarrow> es_node st1 k = es_node st0 k"
    using prep_node_result [OF assms(1), of st0 ?r] mem(1) r0 by (auto simp: empty_snode_def)
  have stand: "standing ?r st1 ?r 0 (counted desc)"
    using st1 r0(2) memory_ok_grows [OF mem(1) st1(5)] by (auto simp: standing_def grows_def)
  from walk_builds [OF assms(1) stand, of ?para] obtain st2 es where st2:
    "frame_loop create_template_ops ?r ?r (st1, ?para) = frame_loop create_template_ops ?r ?r (st2, ?para\<lparr>cp_curr_offset := esize es\<rparr>)"
    "built st1 st2 ?r 0 (counted desc) es None 0" by auto
  define st3 where "st3 = upd_snode ?r (\<lambda>d. d\<lparr>reentry_count := reentry_count d - 1\<rparr>) st2"
  have kept: "sn_parent (es_node st2 ?r) = None" "sn_elem_no (es_node st2 ?r) = int (length (counted desc))"
      "length (elem_list (es_node st2 ?r)) = length (counted desc)" "temp_var (es_node st2 ?r) = int (length (counted desc))"
    using st2(2) st1(6-8) by (simp_all add: built_def node_kept_def)
  have "frame_loop create_template_ops ?r ?r (st2, ?para\<lparr>cp_curr_offset := esize es\<rparr>)
      = Some (Some ((st3, ?para\<lparr>cp_curr_offset := esize es\<rparr>), 0))"
    using kept(2,4) by (subst frame_loop.simps)
      (simp add: frame_round_def create_template_ops_def create_template_finish_def on_st_def st3_def)
  moreover have "convert_frame_func create_template_ops ?r (st\<lparr>es_next := ?r + 1,
        es_node := (es_node st)(?r := empty_snode\<lparr>struct_desc := desc\<rparr>), es_calls := es_calls st + 2\<rparr>,
      \<lparr>cp_offset = 0, cp_curr_offset = 0, cp_curr_node = 0, cp_parent_elem = None\<rparr>) = frame_loop create_template_ops ?r ?r (st1, ?para)"
    using st1(1) by (simp add: convert_frame_func_def create_template_ops_def create_template_start_def on_st_def Let_def st0_def fun_upd_apply)
  ultimately have create: "create_struct_template st desc = Some (st3, Some ?r)"
    using assms(2) st2(1) by (simp add: create_struct_template_def talloc_ok_def Let_def numeral_2_eq_2)
  have tok2: "tok_elems es (es_node st2) ?r None 0 0" and fol: "follows es (counted desc)" using st2(2) by (simp_all add: built_def)
  have ids: "distinct (elem_ids es)" "?r \<notin> set (elem_ids es)" using st2(2) stand st1(5) r0(2) by (auto simp: built_def standing_def grows_def)
  have "template_at st3 ?r es"
  proof -
    have s: "elem_list (es_node st3 k) = elem_list (es_node st2 k)" "sn_parent (es_node st3 k) = sn_parent (es_node st2 k)"
      "sn_elem_no (es_node st3 k) = sn_elem_no (es_node st2 k)" for k by (simp_all add: st3_def fun_upd_apply)
    then have "tok_elems es (es_node st3) ?r None 0 0" using tok2 by (rule tok_reads)
    then show ?thesis using s kept follows_count(2) [OF fol] ids by (simp add: template_at_def)
  qed
  moreover have "es_node st3 k = es_node st k" if "k < ?r" for k
  proof -
    have "k < es_next st1" "k \<notin> set (sub_ids st1 ?r 0 (counted desc))" using that st1(4,5) r0(2) by (auto simp: grows_def)
    then have "es_node st2 k = es_node st1 k" using that st2(2) by (simp add: built_def)
    also have "\<dots> = es_node st k" using that st1(10) [of k] r0 by simp
    finally show ?thesis using that by (simp add: st3_def fun_upd_apply)
  qed
  moreover have "es_mem st3 = es_mem st" using mem(2) st1(5) st2(2) by (simp add: built_def grows_def st3_def)
  ultimately show ?thesis using create fol created_struct_size by blast
qed

text \<open>An integer, two copies of a sub-structure with one byte, and a string.\<close>

definition desc_example :: "elem_attr list" where
  "desc_example = [attr_example CUBE_TYPE_INT 0,
     ELEM_ATTR (Some [98]) CUBE_TYPE_SUBSTRUCT 2 (RefStruct [attr_example CUBE_TYPE_UCHAR 0, ELEM_ATTR None CUBE_TYPE_ENDDATA 0 RefNull None]) None,
     attr_example CUBE_TYPE_ESTRING 0, ELEM_ATTR None CUBE_TYPE_ENDDATA 0 RefNull None]"

lemma plain_example: "plain_desc (counted desc_example)"
proof -
  have field: "plain_desc ds \<Longrightarrow> plain_desc (attr_example ty 0 # ds)"
    if "ty \<in> {CUBE_TYPE_INT, CUBE_TYPE_UCHAR, CUBE_TYPE_ESTRING}" for ty ds
    using that by (intro desc_field) (auto simp: attr_example_def names_ok_def plain_type_def fsize_def fixed_elemsize type_kinds)
  have "counted desc_example = [desc_example ! 0, desc_example ! 1, desc_example ! 2]"
    by (simp add: counted_def desc_example_def attr_example_def)
  moreover have "plain_desc [desc_example ! 0, desc_example ! 1, desc_example ! 2]"
  proof -
    let ?ss = "[attr_example CUBE_TYPE_UCHAR 0, ELEM_ATTR None CUBE_TYPE_ENDDATA 0 RefNull None]"
    have "counted ?ss = [attr_example CUBE_TYPE_UCHAR 0]" by (simp add: counted_def attr_example_def)
    then have "plain_desc [desc_example ! 1, desc_example ! 2]"
      by (intro plain_desc.desc_sub [of "desc_example ! 1" ?ss "[desc_example ! 2]"]) (simp_all add: desc_example_def field desc_Nil)
    then show ?thesis by (simp add: desc_example_def field)
  qed
  ultimately show ?thesis by simp
qed

theorem create_struct_template_builds_witness:
  "\<exists>st' es. create_struct_template state_example desc_example = Some (st', Some 2) \<and> template_at st' 2 es
    \<and> esize es = 14 \<and> struct_size st' 2 = Some 14 \<and> es_node st' 0 = nodes_example 0"
proof -
  have start: "es_next state_example = 2" "es_node state_example = nodes_example" by (simp_all add: state_example_def)
  have "\<forall>k \<ge> es_calls state_example. es_malloc state_example k \<noteq> None" by (simp add: state_example_def)
  from create_struct_template_builds [OF plain_example this] obtain st' es where
    r: "create_struct_template state_example desc_example = Some (st', Some 2)" "template_at st' 2 es" "follows es (counted desc_example)"
      "es \<noteq> TNil \<longrightarrow> struct_size st' 2 = Some (esize es)" "es_node st' 0 = nodes_example 0"
    by (simp only: start) force
  have size: "es \<noteq> TNil \<and> esize es = 14" using r(3)
    by (auto simp: desc_example_def counted_def attr_example_def follows_Cons follows_Nil sub_desc_def fsize_def reps_def fixed_elemsize)
  with r show ?thesis by auto
qed

end
