(* ===== verification/Cube_Struct_Free.thy ===== *)
theory Cube_Struct_Free
  imports Cube_Struct_Convert "HOL-Library.Monad_Syntax"
begin

text \<open>
  Giving structures and templates back, \<open>struct_free\<close>, \<open>struct_free_alloc\<close> and \<open>free_struct_template\<close> of
  \<^verbatim>\<open>cubelib/struct_mod/struct_deal.c\<close>. Blocks that are given back keep their bytes; which ones are is kept in a list beside
  the state. A block is known to \<open>Free\<close> by the descriptor in front of it, so there is no result for a member that is \<^verbatim>\<open>NULL\<close>.
\<close>

section \<open>Structures\<close>

type_synonym fstate = "estate \<times> nat list"

definition free_block :: "nat \<Rightarrow> fstate \<Rightarrow> fstate option" where
  "free_block p s =
     (if p = 0 then None
      else Some (fst s, snd s @ (case snd (Free (es_mem (fst s)) p) of None \<Rightarrow> [] | Some b \<Rightarrow> [b])))"

text \<open>The pointer that an element holds; both callbacks of \<open>struct_free\<close> do the same.\<close>

definition free_elem :: "nat \<Rightarrow> nat list cb" where
  "free_elem addr e s =
     (if ispointerelem (etype (fst s) e) then
        do { a \<leftarrow> elem_get_addr (fst s) e addr;
             s1 \<leftarrow> free_block (get_ptr (es_mem (fst s)) a) s;
             Some (s1, 0) }
      else Some (s, 0))"

definition struct_free_enterstruct :: "nat list cb" where
  "struct_free_enterstruct e s = Some (s, 0)"

definition struct_free_exitstruct :: "nat \<Rightarrow> nat list cb" where
  "struct_free_exitstruct addr = free_elem addr"

definition proc_struct_free :: "nat \<Rightarrow> nat list cb" where
  "proc_struct_free addr = free_elem addr"

definition struct_free_ops :: "nat \<Rightarrow> nat list struct_deal_ops" where
  "struct_free_ops addr = \<lparr>dop_start = None, dop_testelem = None, dop_enterstruct = Some struct_free_enterstruct,
     dop_exitstruct = Some (struct_free_exitstruct addr), dop_proc_func = proc_struct_free addr, dop_finish = None\<rparr>"

text \<open>The structure itself goes last, also after an error.\<close>

definition struct_free :: "nat \<Rightarrow> nat \<Rightarrow> fstate \<Rightarrow> (fstate \<times> int) option" where
  "struct_free addr tmpl s =
     do { res \<leftarrow> convert_frame_func (struct_free_ops addr) tmpl s;
          (s1, r) \<leftarrow> res;
          s2 \<leftarrow> free_block addr s1;
          Some (s2, r) }"

text \<open>
  \<open>struct_free_alloc\<close> walks the nodes itself and takes every element at its offset from the
  address of the whole structure.
\<close>

partial_function (option) free_alloc_loop :: "nat \<Rightarrow> nat \<Rightarrow> nat \<Rightarrow> fstate \<Rightarrow> fstate option" where
  "free_alloc_loop addr root n s =
     (let d = es_node (fst s) n
      in if temp_var d = sn_elem_no d then
           (if n = root then Some s
            else case sn_parent d of None \<Rightarrow> None | Some p \<Rightarrow> free_alloc_loop addr root p s)
         else
           let e = curr_eid n (fst s)
           in if etype (fst s) e = CUBE_TYPE_SUBSTRUCT then
                (case et_ref (el (fst s) e) of
                   ERefNode q \<Rightarrow>
                     free_alloc_loop addr root q (on_st (upd_snode q (\<lambda>d. d\<lparr>temp_var := 0\<rparr>) \<circ> next_elem n) s)
                 | _ \<Rightarrow> None)
              else if ispointerelem (etype (fst s) e) then
                Option.bind (free_block (get_ptr (es_mem (fst s)) (adr_plus addr (et_offset (el (fst s) e)))) s)
                  (\<lambda>s1. free_alloc_loop addr root n (on_st (next_elem n) s1))
              else free_alloc_loop addr root n (on_st (next_elem n) s))"

definition struct_free_alloc :: "nat \<Rightarrow> nat \<Rightarrow> fstate \<Rightarrow> (fstate \<times> int) option" where
  "struct_free_alloc addr root s =
     map_option (\<lambda>s1. (s1, 0)) (free_alloc_loop addr root root (on_st (upd_snode root (\<lambda>d. d\<lparr>temp_var := 0\<rparr>)) s))"

section \<open>Templates\<close>

text \<open>The parts of a template on its heap of nodes: a node, and the array of its elements.\<close>

datatype tmpl_part = NodePart nat | ElemsPart nat

partial_function (option) free_template_loop ::
  "nat \<Rightarrow> nat \<Rightarrow> estate \<Rightarrow> tmpl_part list \<Rightarrow> (estate \<times> tmpl_part list) option" where
  "free_template_loop root n st freed =
     (let d = es_node st n
      in if temp_var d = sn_elem_no d then
           (if n = root then Some (st, freed)
            else case sn_parent d of
                   None \<Rightarrow> None
                 | Some p \<Rightarrow>
                     free_template_loop root p st (freed @ (if elem_list d = [] then [] else [ElemsPart n]) @ [NodePart n]))
         else
           let e = curr_eid n st
           in if etype st e = CUBE_TYPE_SUBSTRUCT then
                (case et_ref (el st e) of
                   ERefNode q \<Rightarrow>
                     free_template_loop root q (upd_snode q (\<lambda>d. d\<lparr>temp_var := 0\<rparr>) (next_elem n st)) freed
                 | _ \<Rightarrow> None)
              else free_template_loop root n (next_elem n st) freed)"

text \<open>
  The nodes of arrays are not of the type \<^verbatim>\<open>CUBE_TYPE_SUBSTRUCT\<close> and stay, and so does the array of
  elements of the root.
\<close>

definition free_struct_template :: "nat \<Rightarrow> estate \<Rightarrow> (estate \<times> tmpl_part list) option" where
  "free_struct_template root st =
     map_option (apsnd (\<lambda>freed. freed @ [NodePart root]))
       (free_template_loop root root (upd_snode root (\<lambda>d. d\<lparr>temp_var := 0\<rparr>) st) [])"

text \<open>The description of an element by its number, or the pointer \<^verbatim>\<open>-EINVAL\<close>.\<close>

definition struct_get_elem :: "estate \<Rightarrow> nat \<Rightarrow> int \<Rightarrow> nat + elem_attr" where
  "struct_get_elem st tmpl elem_no =
     (if elem_no < 0 \<or> elem_no \<ge> sn_elem_no (es_node st tmpl) then Inl (2 ^ 64 - 22)
      else Inr (struct_desc (es_node st tmpl) ! nat elem_no))"

end
