(* ===== verification/Cube_Struct_Text.thy ===== *)
theory Cube_Struct_Text
  imports Cube_Struct_Convert Cube_Json
begin

text \<open>
  Elements as text: \<open>_elem_get_text_value\<close>, \<open>_elem_set_text_value\<close> and \<open>_elem_set_defvalue\<close> of
  \<^verbatim>\<open>cubelib/struct_mod/struct_init.c\<close>, and from \<^verbatim>\<open>struct_deal.c\<close> the operations that read and write a
  named element as text and those that put the text of an element into JSON and take it out again. The table
  \<open>tb\<close> of element operations is an argument: \<open>elem_get_ops\<close> is the one of the structure module, to which the
  database adds the text operations of its own three types.
\<close>

type_synonym ops_table = "elem_type \<Rightarrow> elem_ops option"

section \<open>Local arrays\<close>

text \<open>
  Local arrays of the functions below lie above those of the element operations they call: the field
  buffer of \<open>_elem_set_text_value\<close>, the buffers of \<open>_setvaluefromjson\<close>, those of \<open>_elem_set_defvalue\<close>.
\<close>

abbreviation (input) field_buf :: "estate \<Rightarrow> nat" where "field_buf st \<equiv> es_stack st + 4096"
abbreviation (input) json_buf :: "estate \<Rightarrow> nat" where "json_buf st \<equiv> es_stack st + 6144"
abbreviation (input) number_buf :: "estate \<Rightarrow> nat" where "number_buf st \<equiv> es_stack st + 8192"
abbreviation (input) value_buf :: "estate \<Rightarrow> nat" where "value_buf st \<equiv> es_stack st + 8448"
abbreviation (input) value_var :: "estate \<Rightarrow> nat" where "value_var st \<equiv> es_stack st + 8512"
abbreviation (input) valuestr_buf :: "estate \<Rightarrow> nat" where "valuestr_buf st \<equiv> es_stack st + 12288"

section \<open>The text of an element\<close>

text \<open>
  The loops over the units of an array: \<open>k\<close> units from place \<open>i\<close> on, \<open>off\<close> bytes of text done. The array is
  read through the element at \<open>src\<close>; results of an operation are added to the offset unchecked.
\<close>

fun get_text_loop ::
  "elem_op option \<Rightarrow> estate \<Rightarrow> nat \<Rightarrow> int \<Rightarrow> nat \<Rightarrow> int \<Rightarrow> eid \<Rightarrow> nat \<Rightarrow> nat \<Rightarrow> (estate \<times> int) option" where
  "get_text_loop f st src u txt off e i 0 = Some (st, off)"
| "get_text_loop f st src u txt off e i (Suc k) =
     (let base = get_ptr (es_mem st) src; a = adr_plus base (u * int i); t = adr_plus txt off
      in if src = 0 \<or> base = 0 then None
         else case (case f of
                      Some g \<Rightarrow> g st a t e
                    | None \<Rightarrow> map_option (\<lambda>(m, _). (set_mem m st, int (Strnlen (es_mem st) a u))) (Strncpy (es_mem st) t a u)) of
                None \<Rightarrow> None
              | Some (st1, r) \<Rightarrow>
                  get_text_loop f (set_mem ((es_mem st1)(adr_plus txt (off + r) := 44)) st1) src u txt (off + r + 1) e (i + 1) k)"

definition elem_get_text_value :: "ops_table \<Rightarrow> estate \<Rightarrow> nat \<Rightarrow> nat \<Rightarrow> eid \<Rightarrow> (estate \<times> int) option" where
  "elem_get_text_value tb st addr txt e =
     (let ty = etype st e
      in case (elem_get_addr st e addr, tb ty) of
           (Some src, Some ops) \<Rightarrow>
             if by_pointer ty then
               (case repeat_num st e addr of
                  None \<Rightarrow> None
                | Some rep \<Rightarrow>
                    let u = unit_size st e
                    in if isdefineelem ty \<and> rep < 0 then Some (st, rep)
                       else
                         let st1 = (if isdefineelem ty then upd_elem e (\<lambda>t. t\<lparr>et_tempsize := rep\<rparr>) st else st)
                         in if isarrayelem ty then
                              (case get_text_loop (op_get_text_value ops) (upd_elem e (\<lambda>t. t\<lparr>et_index := 0\<rparr>) st1)
                                      src u txt 0 e 0 (nat rep) of
                                 None \<Rightarrow> None
                               | Some (st2, off) \<Rightarrow>
                                   if rep > 0 then Some (set_mem ((es_mem st2)(adr_plus txt (off - 1) := 0)) st2, off - 1)
                                   else Some (st2, off))
                            else
                              (case op_get_text_value ops of
                                 Some f \<Rightarrow> Option.bind (deref (es_mem st1) src) (\<lambda>p. f st1 p txt e)
                               | None \<Rightarrow>
                                   (case (case op_get_length ops of
                                            Some g \<Rightarrow> Option.bind (deref (es_mem st1) src) (\<lambda>p. g st1 p e)
                                          | None \<Rightarrow> Some (u * rep)) of
                                      None \<Rightarrow> None
                                    | Some ret \<Rightarrow>
                                        if ret < 0 \<and> op_get_length ops \<noteq> None then Some (st1, ret)
                                        else
                                          let copied = (if ret = 0 then Some (es_mem st1)
                                                else if src = 0 \<or> get_ptr (es_mem st1) src = 0 then None
                                                else map_option fst (Strncpy (es_mem st1) txt (get_ptr (es_mem st1) src) ret))
                                          in map_option (\<lambda>m. (set_mem (m(adr_plus txt ret := 0)) st1, ret + 1)) copied)))
             else
               (case (if isdefineelem ty then elem_get_defvalue st e addr else Some 0) of
                  None \<Rightarrow> None
                | Some def_value \<Rightarrow>
                    if def_value < 0 then Some (st, def_value)
                    else
                      let st1 = (if isdefineelem ty then upd_elem e (\<lambda>t. t\<lparr>et_index := def_value\<rparr>) st else st)
                      in if src = 0 then None
                         else case op_get_text_value ops of
                                Some f \<Rightarrow> f st1 src txt e
                              | None \<Rightarrow>
                                  (case elem_get_bin_length st1 (get_ptr (es_mem st1) src) e addr of
                                     None \<Rightarrow> None
                                   | Some ret \<Rightarrow>
                                       if ret < 0 then Some (st1, ret)
                                       else Some (set_mem (mcpy (es_mem st1) txt src ret) st1, ret)))
         | _ \<Rightarrow> None)"

text \<open>
  Storing a text: each field is copied to the local buffer and from there to its unit, and after each
  field, the last one included, the text must not end. The codes of the operations are ignored.
\<close>

fun set_text_loop ::
  "elem_op option \<Rightarrow> estate \<Rightarrow> nat \<Rightarrow> int \<Rightarrow> nat \<Rightarrow> nat \<Rightarrow> eid \<Rightarrow> nat \<Rightarrow> nat \<Rightarrow> (estate \<times> int) option" where
  "set_text_loop f st src u txt off e i 0 = Some (st, int off)"
| "set_text_loop f st src u txt off e i (Suc k) =
     (if txt = 0 then None
      else case Getfiledfromstr (es_mem st) (field_buf st) (txt + off) 44 1024 of
        None \<Rightarrow> None
      | Some (m, len) \<Rightarrow>
          let a = adr_plus (get_ptr m src) (u * int i)
          in case (case f of
                     Some g \<Rightarrow> g (set_mem m st) a (field_buf st) e
                   | None \<Rightarrow> map_option (\<lambda>(m1, _). (set_mem m1 st, 0)) (Strncpy m a (field_buf st) u)) of
               None \<Rightarrow> None
             | Some (st1, r) \<Rightarrow>
                 let c = es_mem st1 (txt + off + len)
                 in if c = 0 then Some (st1, - EINVAL)
                    else set_text_loop f st1 src u txt (if c = 44 then off + len + 1 else off + len) e (i + 1) k)"

text \<open>\<^verbatim>\<open>*(BYTE **)src=Dalloc0(sz,src)\<close>\<close>

definition alloc_at :: "int \<Rightarrow> nat \<Rightarrow> estate \<Rightarrow> estate \<times> nat" where
  "alloc_at sz src st =
     (case dalloc0 sz src st of
        (st1, p) \<Rightarrow> let q = (case p of None \<Rightarrow> 0 | Some b \<Rightarrow> b) in (set_mem (put_ptr (es_mem st1) src q) st1, q))"

definition elem_set_text_value :: "ops_table \<Rightarrow> estate \<Rightarrow> nat \<Rightarrow> nat \<Rightarrow> eid \<Rightarrow> (estate \<times> int) option" where
  "elem_set_text_value tb st addr txt e =
     (let ty = etype st e
      in case (elem_get_addr st e addr, tb ty) of
           (Some src, Some ops) \<Rightarrow>
             if isarrayelem ty \<or> ispointerelem ty then
               (case repeat_num st e addr of
                  None \<Rightarrow> None
                | Some rep \<Rightarrow>
                    let u = unit_size st e
                    in if isdefineelem ty \<and> rep < 0 then Some (st, rep)
                       else if (isdefineelem ty \<or> isarrayelem ty) \<and> src = 0 then None
                       else if isarrayelem ty then
                         (let (st1, p) = alloc_at (rep * u) src st
                          in if p = 0 then Some (st1, - ENOMEM)
                             else set_text_loop (op_set_text_value ops) (upd_elem e (\<lambda>t. t\<lparr>et_index := 0\<rparr>) st1)
                                    src u txt 0 e 0 (nat rep))
                       else
                         let (st1, p) = (if isdefineelem ty then alloc_at (rep * u) src st else (st, get_ptr (es_mem st) src))
                         in case op_set_text_value ops of
                              Some f \<Rightarrow>
                                (if src = 0 \<or> txt = 0 then None
                                 else if isdefineelem ty then
                                   (if p = 0 \<and> rep > 0 then None
                                    else map_option (\<lambda>(st2, r). (upd_elem e (\<lambda>t. t\<lparr>et_tempsize := 0\<rparr>) st2, r))
                                           (f (upd_elem e (\<lambda>t. t\<lparr>et_tempsize := rep\<rparr>) st1) p txt e))
                                 else f st1 p txt e)
                            | None \<Rightarrow>
                                (case (case op_get_length ops of Some g \<Rightarrow> g st1 txt e | None \<Rightarrow> Some (u * rep)) of
                                   None \<Rightarrow> None
                                 | Some ret \<Rightarrow>
                                     if ret < 0 \<and> op_get_length ops \<noteq> None then Some (st1, ret)
                                     else if ret = 0 then Some (st1, 0)
                                     else if src = 0 then None
                                     else
                                       let (st2, q) = alloc_at ret src st1
                                       in if q = 0 then Some (st2, - ENOMEM)
                                          else if txt = 0 then None
                                          else Some (set_mem (mcpy (es_mem st2) q txt ret) st2, ret)))
             else
               (case (if isdefineelem ty then elem_get_defvalue st e addr else Some 0) of
                  None \<Rightarrow> None
                | Some def_value \<Rightarrow>
                    if def_value < 0 then Some (st, def_value)
                    else
                      let st1 = (if isdefineelem ty then upd_elem e (\<lambda>t. t\<lparr>et_index := def_value\<rparr>) st else st)
                      in if src = 0 \<or> txt = 0 then None
                         else case op_set_text_value ops of
                                Some f \<Rightarrow> f st1 src txt e
                              | None \<Rightarrow>
                                  (case elem_get_bin_length st1 (get_ptr (es_mem st1) src) e addr of
                                     None \<Rightarrow> None
                                   | Some ret \<Rightarrow>
                                       if ret < 0 then Some (st1, ret)
                                       else map_option (\<lambda>(m, _). (set_mem m st1, ret))
                                              (Strncpy (fst (Memset (es_mem st1) src 0 ret)) src txt ret)))
         | _ \<Rightarrow> None)"

section \<open>Storing a length\<close>

text \<open>
  \<open>_elem_set_defvalue\<close> writes the number of repetitions into the element that defines it. Without
  operations it returns 0; the terminator of a number is not copied into an inline string.
\<close>

definition elem_set_defvalue :: "ops_table \<Rightarrow> estate \<Rightarrow> eid \<Rightarrow> nat \<Rightarrow> int \<Rightarrow> (estate \<times> int) option" where
  "elem_set_defvalue tb st e addr v =
     (case et_def (el st e) of
        None \<Rightarrow> Some (st, - EINVAL)
      | Some d \<Rightarrow>
          if v < 0 \<or> v > 1024 then Some (st, - EINVAL)
          else
            case tb (etype st d) of
              None \<Rightarrow> Some (st, 0)
            | Some ops \<Rightarrow>
                (case elem_get_addr st d addr of
                   None \<Rightarrow> None
                 | Some a \<Rightarrow>
                     let ty = etype st d;
                         code = map_option (\<lambda>(st1, r). (st1, if r < 0 then - EINVAL else v))
                     in if ty = CUBE_TYPE_STRING \<or> ty = CUBE_TYPE_ESTRING then
                          (let (m, str_len) = Itoa (es_mem st) v (value_buf st); st1 = set_mem m st
                           in if a = 0 then None
                              else case op_set_text_value ops of
                                     Some f \<Rightarrow> code (f st1 a (value_buf st) d)
                                   | None \<Rightarrow>
                                       if ispointerelem ty then
                                         (let (st2, p) = alloc_at (int str_len + 1) a st1
                                          in if p = 0 then Some (st2, - ENOMEM)
                                             else Some (set_mem (mcpy (es_mem st2) p (value_buf st) (int str_len + 1)) st2, v))
                                       else Some (set_mem (mcpy m a (value_buf st) (int str_len)) st1, v))
                        else
                          (let m = wr_int (es_mem st) 4 (value_var st) v; st1 = set_mem m st
                           in case op_set_bin_value ops of
                                Some f \<Rightarrow> if a = 0 then None else code (f st1 a (value_var st) d)
                              | None \<Rightarrow>
                                  let k = get_fixed_elemsize ty
                                  in if k \<le> 0 then Some (st1, - EINVAL)
                                     else if a = 0 then None
                                     else Some (set_mem (mcpy m a (value_var st) k) st1, v))))"

section \<open>Named elements\<close>

definition struct_read_elem_text :: "ops_table \<Rightarrow> estate \<Rightarrow> byte list \<Rightarrow> nat \<Rightarrow> nat \<Rightarrow> nat \<Rightarrow> (estate \<times> int) option" where
  "struct_read_elem_text tb st name addr txt tmpl =
     with_elem st tmpl name (\<lambda>e. elem_get_text_value tb st addr txt e)"

definition struct_write_elem_text :: "ops_table \<Rightarrow> estate \<Rightarrow> byte list \<Rightarrow> nat \<Rightarrow> nat \<Rightarrow> nat \<Rightarrow> (estate \<times> int) option" where
  "struct_write_elem_text tb st name addr txt tmpl =
     with_elem st tmpl name (\<lambda>e. elem_set_text_value tb st addr txt e)"

definition struct_get_elem_value :: "ops_table \<Rightarrow> estate \<Rightarrow> byte list \<Rightarrow> nat \<Rightarrow> nat \<Rightarrow> (estate \<times> int) option" where
  "struct_get_elem_value tb st name addr tmpl =
     with_elem st tmpl name (\<lambda>e.
       case tb (etype st e) of
         None \<Rightarrow> Some (st, - EINVAL)
       | Some ops \<Rightarrow>
           (case op_get_int_value ops of
              None \<Rightarrow> Some (st, - EINVAL)
            | Some f \<Rightarrow> map_option (\<lambda>r. (st, r)) (f st (adr_plus addr (et_offset (el st e))) e)))"

end
