(* ===== verification/Cube_Struct_Json.thy ===== *)
theory Cube_Struct_Json
  imports Cube_Struct_Text
begin

text \<open>
  The conversions between structures and JSON of \<^verbatim>\<open>cubelib/struct_mod/struct_deal.c\<close>: the JSON form of the text
  of an element and its way back, the callbacks that print a structure and those that fill one from a tree, the
  marking of the elements a tree names, and clearing flags. The tree is the heap of nodes of \<^verbatim>\<open>json.c\<close>, which
  a conversion carries in its parameter block because reading a tree moves the cursors of its nodes.
\<close>

section \<open>Text in JSON\<close>

definition getelemjsontype :: "elem_type \<Rightarrow> int" where
  "getelemjsontype ty =
     (if isnumelem ty then JSON_ELEM_NUM
      else if isboolelem ty then JSON_ELEM_BOOL
      else if issubsetelem ty then JSON_ELEM_MAP
      else if isarrayelem ty then JSON_ELEM_ARRAY
      else if isemptyelem ty then 0
      else JSON_ELEM_STRING)"

text \<open>
  The loop of \<open>_getjsonstr\<close> over a list of texts separated by commas or zeros: \<open>k\<close> bytes from place \<open>i\<close> on,
  the offset written so far, whether a text is open, and the number of texts begun.
\<close>

fun getjson_array_loop :: "mem \<Rightarrow> nat \<Rightarrow> nat \<Rightarrow> nat \<Rightarrow> nat \<Rightarrow> bool \<Rightarrow> nat \<Rightarrow> nat \<Rightarrow> mem \<times> nat \<times> bool" where
  "getjson_array_loop m json txt i off isin no 0 = (m, off, isin)"
| "getjson_array_loop m json txt i off isin no (Suc k) =
     (if m (txt + i) = 0 \<or> m (txt + i) = 44 then
        (if isin then getjson_array_loop (m(json + off := 34)) json txt (i + 1) (off + 1) False no k
         else getjson_array_loop m json txt (i + 1) off isin no k)
      else
        let (m1, off1, no1) =
              (if isin then (m, off, no)
               else let (m1, off1) = (if no > 0 then (m(json + off := 44), off + 1) else (m, off))
                    in (m1(json + off1 := 34), off1 + 1, no + 1))
        in getjson_array_loop (m1(json + off1 := m1 (txt + i))) json txt (i + 1) (off1 + 1) True no1 k)"

definition getjsonstr :: "mem \<Rightarrow> nat \<Rightarrow> nat \<Rightarrow> int \<Rightarrow> int \<Rightarrow> mem \<times> int" where
  "getjsonstr m json txt text_len json_type =
     (let str_len = Strnlen m txt text_len
      in if json_type = JSON_ELEM_NUM then (mcpy m json txt (int str_len), int str_len)
         else if json_type = JSON_ELEM_STRING then
           ((mcpy (m(json := 34)) (json + 1) txt (int str_len))(json + str_len + 1 := 34), int str_len + 2)
         else if json_type = JSON_ELEM_ARRAY then
           (let n = nat text_len;
                (m1, off, isin) = getjson_array_loop (m(json := 91)) json txt 0 1 False 0 n;
                c = m1 (adr_plus txt (int n - 1));
                (m2, off2) = (if c \<noteq> 0 \<and> c \<noteq> 44 \<and> isin then (m1(json + off := 34), off + 1) else (m1, off))
            in (m2(json + off2 := 93, json + off2 + 1 := 0), int off2 + 1))
         else (m, - EINVAL))"

definition Ischarinset :: "byte \<Rightarrow> byte list \<Rightarrow> bool" where
  "Ischarinset c cs \<longleftrightarrow> c \<in> set cs"

datatype strip_state = STRIP_START | STRIP_INBRACKET | STRIP_INELEM | STRIP_FINISH

text \<open>
  \<open>_stripjsonarraychar\<close> takes brackets and quotation marks out of a list in place; \<open>off\<close> is the number of
  bytes dropped. The first byte of an element without quotation marks is neither moved nor dropped.
\<close>

record strip =
  sp_mem :: mem
  sp_off :: nat
  sp_brackets :: int
  sp_quotes :: int
  sp_state :: strip_state

definition strip_char :: "nat \<Rightarrow> nat \<Rightarrow> strip \<Rightarrow> strip option" where
  "strip_char txt i s =
     (let m = sp_mem s; c = m (txt + i); off = sp_off s;
          drp = s\<lparr>sp_off := off + 1\<rparr>;
          put = (\<lambda>b. s\<lparr>sp_mem := m(txt + i - off := b)\<rparr>)
      in case sp_state s of
           STRIP_START \<Rightarrow>
             if c = 32 \<or> c = 9 then Some drp
             else if c = 91 then Some (drp\<lparr>sp_brackets := sp_brackets s + 1, sp_state := STRIP_INBRACKET\<rparr>)
             else None
         | STRIP_INBRACKET \<Rightarrow>
             if Ischarinset c [32, 9, 10, 13, 44] then Some drp
             else if c = 34 then
               (if sp_quotes s = 0 then Some (drp\<lparr>sp_quotes := 1, sp_state := STRIP_INELEM\<rparr>) else None)
             else if c = 93 then
               (if sp_brackets s - 1 = 0 then Some (drp\<lparr>sp_brackets := 0, sp_state := STRIP_FINISH\<rparr>) else None)
             else if Ischarinset c [58, 123, 125] then None
             else Some (s\<lparr>sp_state := STRIP_INELEM\<rparr>)
         | STRIP_INELEM \<Rightarrow>
             if c = 44 then
               Some (if sp_quotes s = 0 \<and> sp_brackets s = 1 then (put c)\<lparr>sp_state := STRIP_INBRACKET\<rparr> else put c)
             else if c = 34 then
               (if sp_brackets s = 1 then
                  (if sp_quotes s = 1 then Some ((put 44)\<lparr>sp_quotes := 0, sp_state := STRIP_INBRACKET\<rparr>) else None)
                else Some (put c))
             else if c = 91 then Some (if sp_quotes s = 0 then (put c)\<lparr>sp_brackets := sp_brackets s + 1\<rparr> else put c)
             else if c = 93 then Some (if sp_quotes s = 0 then drp\<lparr>sp_brackets := sp_brackets s - 1\<rparr> else s)
             else Some (put c)
         | STRIP_FINISH \<Rightarrow> None)"

text \<open>The last argument is \<open>len - i\<close>; the memory is kept on errors.\<close>

fun strip_loop :: "nat \<Rightarrow> nat \<Rightarrow> strip \<Rightarrow> nat \<Rightarrow> mem \<times> int" where
  "strip_loop txt i s 0 = (sp_mem s, - EINVAL)"
| "strip_loop txt i s (Suc k) =
     (case strip_char txt i s of
        None \<Rightarrow> (sp_mem s, - EINVAL)
      | Some s1 \<Rightarrow>
          if sp_state s1 = STRIP_FINISH
          then ((sp_mem s1)(txt + i + 1 - sp_off s1 := 0), int i + 1 - int (sp_off s1))
          else strip_loop txt (i + 1) s1 k)"

definition stripjsonarraychar :: "mem \<Rightarrow> nat \<Rightarrow> int \<Rightarrow> mem \<times> int" where
  "stripjsonarraychar m txt len =
     strip_loop txt 0 \<lparr>sp_mem = m, sp_off = 0, sp_brackets = 0, sp_quotes = 0, sp_state = STRIP_START\<rparr> (nat len)"

section \<open>A value from JSON\<close>

text \<open>
  The value string of a node is laid out in memory for the operations on elements. The codes of
  the operations that store the value are ignored. \<open>None\<close> where printing the node has no result.
\<close>

definition put_valuestr :: "estate \<Rightarrow> byte list option \<Rightarrow> estate \<times> nat" where
  "put_valuestr st v =
     (case v of
        None \<Rightarrow> (st, 0)
      | Some s \<Rightarrow> (set_mem (mem_write (es_mem st) (valuestr_buf st) (s @ [0])) st, valuestr_buf st))"

definition setvaluefromjson ::
  "ops_table \<Rightarrow> nat \<Rightarrow> nat option \<Rightarrow> eid \<Rightarrow> estate \<times> jheap \<Rightarrow> ((estate \<times> jheap) \<times> int) option" where
  "setvaluefromjson tb addr node e s =
     (let (st, h) = s; ty = json_get_type h node
      in if ty = JSON_ELEM_STRING then
           (let (st1, a) = put_valuestr st (json_get_valuestr h node)
            in map_option (\<lambda>(st2, r). ((st2, h), 0)) (elem_set_text_value tb st1 addr a e))
         else if ty = JSON_ELEM_NUM \<or> ty = JSON_ELEM_BOOL then
           (case json_node_getvalue h node 8 of
              None \<Rightarrow> None
            | Some (r, bs) \<Rightarrow>
                let st1 = set_mem (mem_write (es_mem st) (number_buf st) bs) st
                in if r < 0 then Some ((st1, h), r)
                   else map_option (\<lambda>(st2, r2). ((st2, h), 0)) (elem_set_bin_value st1 addr (number_buf st) e))
         else if ty = JSON_ELEM_ARRAY then
           (case json_print_str h (the node) of
              Some (Some (r, pr)) \<Rightarrow>
                let m = mem_write (es_mem st) (json_buf st) (pr_out pr)
                in if r < 0 then Some ((set_mem m st, pr_heap pr), r)
                   else
                     let (m1, r1) = stripjsonarraychar m (json_buf st) r; st1 = set_mem m1 st
                     in if r1 < 0 then Some ((st1, pr_heap pr), r1)
                        else map_option (\<lambda>(st2, r2). ((st2, pr_heap pr), 0))
                               (elem_set_text_value tb st1 addr (json_buf st) e)
            | _ \<Rightarrow> None)
         else Some (s, - EINVAL))"

section \<open>Structure to JSON\<close>

text \<open>Writing at the current offset of the text.\<close>

definition put_json :: "nat \<Rightarrow> byte list \<Rightarrow> estate \<times> deal_para \<Rightarrow> estate \<times> deal_para" where
  "put_json json bs s =
     (let (st, para) = s
      in (set_mem (mem_write (es_mem st) (adr_plus json (dp_offset para)) bs) st,
          para\<lparr>dp_offset := dp_offset para + int (length bs)\<rparr>))"

definition elem_name_bytes :: "estate \<Rightarrow> eid \<Rightarrow> byte list" where
  "elem_name_bytes st e = (case ea_name (elem_desc (el st e)) of None \<Rightarrow> [] | Some s \<Rightarrow> takeWhile (\<lambda>b. b \<noteq> 0) s)"

definition print_elem_name :: "nat \<Rightarrow> eid \<Rightarrow> estate \<times> deal_para \<Rightarrow> estate \<times> deal_para" where
  "print_elem_name json e s = put_json json ([34] @ take 64 (elem_name_bytes (fst s) e) @ [34, 58]) s"

definition tojson_start :: "nat \<Rightarrow> deal_para root_cb" where
  "tojson_start json root s = Some (put_json json [123] (fst s, (snd s)\<lparr>dp_offset := 0\<rparr>), 1)"

definition tojson_enterstruct :: "nat \<Rightarrow> nat \<Rightarrow> deal_para cb" where
  "tojson_enterstruct addr json e s =
     (let s1 = (if et_limit (el (fst s) e) = 0 then
                  (let s0 = print_elem_name json e s; st0 = fst s0
                   in if isdefineelem (etype st0 e)
                      then map_option (\<lambda>k. (set_limit e k st0, snd s0)) (elem_get_defvalue (set_limit e 0 st0) e addr)
                      else Some (set_limit e (desc_limit st0 e) st0, snd s0))
                else Some s)
      in map_option (\<lambda>s2.
           let t = el (fst s2) e;
               s3 = (if et_limit t = 0 then put_json json [91] s2
                     else if et_limit t = 1 then
                       put_json json (if isdefineelem (etype (fst s2) e) then [91, 123] else [123]) s2
                     else if et_limit t > 1 then put_json json (if et_index t = 0 then [91, 123] else [123]) s2
                     else s2)
           in (s3, dp_offset (snd s3))) s1)"

text \<open>The last comma of the members is overwritten by the closing brace.\<close>

definition tojson_exitstruct :: "nat \<Rightarrow> deal_para cb" where
  "tojson_exitstruct json e s =
     (let t = el (fst s) e;
          s1 = (if et_limit t = 0 then put_json json [93] s
                else
                  let s0 = put_json json [125] (fst s, (snd s)\<lparr>dp_offset := dp_offset (snd s) - 1\<rparr>)
                  in if et_limit t = 1 \<and> isdefineelem (etype (fst s) e) \<or> et_limit t > 1 \<and> et_index t \<ge> et_limit t
                     then put_json json [93] s0 else s0);
          s2 = put_json json [44] s1
      in Some (s2, dp_offset (snd s2)))"

text \<open>
  The text of an element goes through a temporary block of 2048 bytes, whose allocation is not checked;
  the code of \<open>_getjsonstr\<close> is added to the offset.
\<close>

definition tojson_proc_func :: "ops_table \<Rightarrow> nat \<Rightarrow> nat \<Rightarrow> deal_para cb" where
  "tojson_proc_func tb addr json e s =
     (case tb (etype (fst s) e) of
        None \<Rightarrow> Some (s, - EINVAL)
      | Some ops \<Rightarrow>
          let st = fst s;
              (m, buf) = Talloc0 (es_mem st) (es_malloc st (es_calls st)) 2048;
              s1 = print_elem_name json e (st\<lparr>es_mem := m, es_calls := es_calls st + 1\<rparr>, snd s);
              ret = dp_offset (snd s1) - dp_offset (snd s)
          in case buf of
               None \<Rightarrow> None
             | Some b \<Rightarrow>
                 (case elem_get_text_value tb (fst s1) addr b e of
                    None \<Rightarrow> None
                  | Some (st2, n) \<Rightarrow>
                      if n < 0 then Some ((st2, snd s1), n)
                      else
                        let off = dp_offset (snd s1);
                            (m2, k) = getjsonstr (es_mem st2) (adr_plus json off) b n (getelemjsontype (etype st2 e))
                        in Some ((set_mem (m2(adr_plus json (off + k) := 44)) st2, (snd s1)\<lparr>dp_offset := off + k + 1\<rparr>),
                                 ret + k + 1)))"

definition tojson_finish :: "nat \<Rightarrow> deal_para root_cb" where
  "tojson_finish json root s =
     (let off = dp_offset (snd s);
          s1 = put_json json [125] (fst s, (snd s)\<lparr>dp_offset := if off > 1 then off - 1 else off\<rparr>)
      in Some ((set_mem ((es_mem (fst s1))(adr_plus json (dp_offset (snd s1)) := 0)) (fst s1), snd s1), 1))"

definition struct_2_json_ops :: "ops_table \<Rightarrow> nat \<Rightarrow> nat \<Rightarrow> bool \<Rightarrow> deal_para struct_deal_ops" where
  "struct_2_json_ops tb addr json test = \<lparr>dop_start = Some (tojson_start json),
     dop_testelem = (if test then Some part_deal_test else None),
     dop_enterstruct = Some (tojson_enterstruct addr json), dop_exitstruct = Some (tojson_exitstruct json),
     dop_proc_func = tojson_proc_func tb addr json, dop_finish = Some (tojson_finish json)\<rparr>"

definition struct_2_json :: "ops_table \<Rightarrow> estate \<Rightarrow> nat \<Rightarrow> nat \<Rightarrow> nat \<Rightarrow> (estate \<times> int) option option" where
  "struct_2_json tb st addr json tmpl = run_deal (struct_2_json_ops tb addr json False) True tmpl 0 st"

definition struct_2_part_json :: "ops_table \<Rightarrow> estate \<Rightarrow> nat \<Rightarrow> nat \<Rightarrow> nat \<Rightarrow> u32 \<Rightarrow> (estate \<times> int) option option" where
  "struct_2_part_json tb st addr json tmpl flag = run_deal (struct_2_json_ops tb addr json True) True tmpl flag st"

section \<open>JSON to structure\<close>

text \<open>
  \<^verbatim>\<open>struct jsonto_para\<close>, \<^verbatim>\<open>struct part_jsonto_para\<close> and \<^verbatim>\<open>struct json_marked_para\<close>, with the heap of nodes.
\<close>

record jsonto_para =
  jt_heap :: jheap
  jt_node :: "nat option"
  jt_flag :: u32

text \<open>\<open>json_find_elem\<close> on a node that may be \<^verbatim>\<open>NULL\<close>; \<open>None\<close> is a loop over the children that does not end.\<close>

definition find_in :: "byte list \<Rightarrow> jheap \<Rightarrow> nat option \<Rightarrow> (jheap \<times> nat option) option" where
  "find_in name h node = (case node of None \<Rightarrow> Some (h, None) | Some p \<Rightarrow> json_find_elem name h p)"

definition jsonto_start :: "nat option \<Rightarrow> jsonto_para root_cb" where
  "jsonto_start root n s = Some (s, if json_get_type (jt_heap (snd s)) root \<noteq> JSON_ELEM_MAP then - EINVAL else 1)"

text \<open>
  The number of repetitions of an array that is entered first: as its length element says, or else, when
  that is 0, as many as the tree has, which is stored as the length.
\<close>

definition jsonto_limit ::
  "ops_table \<Rightarrow> nat \<Rightarrow> jheap \<Rightarrow> nat \<Rightarrow> eid \<Rightarrow> estate \<Rightarrow> (estate \<times> int) option" where
  "jsonto_limit tb addr h c e st =
     (case (if isdefineelem (etype st e) then elem_get_defvalue st e addr else Some (desc_limit st e)) of
        None \<Rightarrow> None
      | Some k \<Rightarrow>
          if k \<noteq> 0 then Some (set_limit e k st, 1)
          else
            let k1 = (if json_get_type h (Some c) = JSON_ELEM_MAP then 1 else json_get_elemno h (Some c));
                st1 = set_limit e k1 st
            in if k1 < 0 then Some (st1, - EINVAL)
               else map_option (\<lambda>(st2, r). (st2, if r < 0 then - EINVAL else 1)) (elem_set_defvalue tb st1 e addr k1))"

definition jsonto_alloc :: "nat \<Rightarrow> eid \<Rightarrow> estate \<Rightarrow> (estate \<times> int) option" where
  "jsonto_alloc addr e st =
     (case (case et_father (el st e) of None \<Rightarrow> Some addr | Some f \<Rightarrow> elem_get_addr st f addr) of
        None \<Rightarrow> None
      | Some a \<Rightarrow>
          let ea = adr_plus a (et_offset (el st e)); k = et_limit (el st e)
          in if k > 0 then
               (if ea = 0 then None
                else let (st1, p) = alloc_at (et_size (el st e) * k) ea st in Some (st1, if p = 0 then - ENOMEM else 1))
             else Some (st, 1))"

text \<open>The first visit of a sub-structure for which the tree has the node \<open>c\<close>.\<close>

definition jsonto_first ::
  "ops_table \<Rightarrow> nat \<Rightarrow> nat \<Rightarrow> eid \<Rightarrow> estate \<times> jsonto_para \<Rightarrow> ((estate \<times> jsonto_para) \<times> int) option" where
  "jsonto_first tb addr c e s =
     (let (st, para) = s; h = jt_heap para; ty = json_get_type h (Some c)
      in if ty \<noteq> JSON_ELEM_MAP \<and> ty \<noteq> JSON_ELEM_ARRAY then Some (s, - EINVAL)
         else
           let para1 = para\<lparr>jt_node := Some c\<rparr>; st1 = set_limit e 0 st
           in if isarrayelem (etype st e) then
                (case jsonto_limit tb addr h c e st1 of
                   None \<Rightarrow> None
                 | Some (st2, r) \<Rightarrow>
                     if r < 0 then Some ((st2, para1), r)
                     else map_option (\<lambda>(st3, r1). ((st3, para1), r1)) (jsonto_alloc addr e st2))
              else Some ((set_limit e (desc_limit st e) st, para1), 1))"

text \<open>The child the repetition starts with.\<close>

definition jsonto_child :: "eid \<Rightarrow> estate \<times> jsonto_para \<Rightarrow> ((estate \<times> jsonto_para) \<times> int) option" where
  "jsonto_child e s =
     (let (st, para) = s; h = jt_heap para; t = el st e;
          to_child = (\<lambda>(h1, c). ((st, para\<lparr>jt_heap := h1, jt_node := c\<rparr>), if c = None then - EINVAL else 1))
      in if et_index t = 0 then
           (if json_get_type h (jt_node para) = JSON_ELEM_ARRAY
            then Some (to_child (json_get_first_child h (the (jt_node para))))
            else Some (s, 1))
         else if et_limit t > 1 then
           Option.bind (jt_node para) (\<lambda>p. map_option to_child (json_get_next_child h p))
         else Some (s, 1))"

definition jsonto_enterstruct :: "ops_table \<Rightarrow> nat \<Rightarrow> jsonto_para cb" where
  "jsonto_enterstruct tb addr e s =
     (if et_limit (el (fst s) e) \<noteq> 0 then jsonto_child e s
      else
        case find_in (elem_name_bytes (fst s) e) (jt_heap (snd s)) (jt_node (snd s)) of
          None \<Rightarrow> None
        | Some (h, None) \<Rightarrow> Some ((fst s, (snd s)\<lparr>jt_heap := h\<rparr>), 0)
        | Some (h, Some c) \<Rightarrow>
            (case jsonto_first tb addr c e (fst s, (snd s)\<lparr>jt_heap := h\<rparr>) of
               None \<Rightarrow> None
             | Some (s1, r) \<Rightarrow> if r < 0 then Some (s1, r) else jsonto_child e s1))"

definition jsonto_exitstruct :: "jsonto_para cb" where
  "jsonto_exitstruct e s =
     (let (st, para) = s; h = jt_heap para; f = json_get_father h (jt_node para)
      in Some ((st, para\<lparr>jt_node := if et_index (el st e) \<ge> et_limit (el st e) \<and> json_is_value h (jt_node para) \<noteq> 0
                                   then json_get_father h f else f\<rparr>), 1))"

definition jsonto_proc_func :: "ops_table \<Rightarrow> nat \<Rightarrow> jsonto_para cb" where
  "jsonto_proc_func tb addr e s =
     (case find_in (elem_name_bytes (fst s) e) (jt_heap (snd s)) (jt_node (snd s)) of
        None \<Rightarrow> None
      | Some (h, None) \<Rightarrow> Some ((fst s, (snd s)\<lparr>jt_heap := h\<rparr>), 0)
      | Some (h, Some c) \<Rightarrow>
          map_option (\<lambda>((st1, h1), r). ((st1, (snd s)\<lparr>jt_heap := h1\<rparr>), r))
            (setvaluefromjson tb addr (Some c) e (fst s, h)))"

definition part_json_test :: "jsonto_para cb" where
  "part_json_test e s = Some (s, uint (et_flag (el (fst s) e) AND jt_flag (snd s)))"

text \<open>A conversion from a tree: the state, the heap of nodes and the return code.\<close>

definition run_json :: "jsonto_para struct_deal_ops \<Rightarrow> nat option \<Rightarrow> nat \<Rightarrow> u32 \<Rightarrow> estate \<times> jheap \<Rightarrow> ((estate \<times> jheap) \<times> int) option option" where
  "run_json funcs node tmpl flag s =
     (let (st, h) = s; (st1, ok) = talloc_ok st
      in if \<not> ok then Some (Some ((st1, h), - ENOMEM))
         else
           map_option (map_option (\<lambda>((st2, para), r). ((st2, jt_heap para), if r < 0 then r else 0)))
             (convert_frame_func funcs tmpl (st1, \<lparr>jt_heap = h, jt_node = node, jt_flag = flag\<rparr>)))"

definition json_2_struct_ops :: "ops_table \<Rightarrow> nat option \<Rightarrow> nat \<Rightarrow> bool \<Rightarrow> jsonto_para struct_deal_ops" where
  "json_2_struct_ops tb root addr test = \<lparr>dop_start = Some (jsonto_start root),
     dop_testelem = (if test then Some part_json_test else None),
     dop_enterstruct = Some (jsonto_enterstruct tb addr), dop_exitstruct = Some jsonto_exitstruct,
     dop_proc_func = jsonto_proc_func tb addr, dop_finish = None\<rparr>"

definition json_2_struct :: "ops_table \<Rightarrow> estate \<times> jheap \<Rightarrow> nat option \<Rightarrow> nat \<Rightarrow> nat \<Rightarrow> ((estate \<times> jheap) \<times> int) option option" where
  "json_2_struct tb s root addr tmpl = run_json (json_2_struct_ops tb root addr False) root tmpl 0 s"

definition json_2_part_struct ::
  "ops_table \<Rightarrow> estate \<times> jheap \<Rightarrow> nat option \<Rightarrow> nat \<Rightarrow> nat \<Rightarrow> u32 \<Rightarrow> ((estate \<times> jheap) \<times> int) option option" where
  "json_2_part_struct tb s root addr tmpl flag = run_json (json_2_struct_ops tb root addr True) root tmpl flag s"

section \<open>Marking the elements of a tree\<close>

text \<open>The member \<open>father_node\<close> is \<open>jt_node\<close>; the root takes its place when the walk starts.\<close>

definition json_marked_start :: "nat option \<Rightarrow> jsonto_para root_cb" where
  "json_marked_start root n s =
     Some (if json_get_type (jt_heap (snd s)) root \<noteq> JSON_ELEM_MAP then (s, - EINVAL)
           else ((fst s, (snd s)\<lparr>jt_node := root\<rparr>), 1))"

definition json_marked_test :: "jsonto_para cb" where
  "json_marked_test e s =
     map_option (\<lambda>(h, c). ((fst s, (snd s)\<lparr>jt_heap := h\<rparr>), if c = None then 0 else sint (jt_flag (snd s))))
       (find_in (elem_name_bytes (fst s) e) (jt_heap (snd s)) (jt_node (snd s)))"

definition json_marked_enterstruct :: "jsonto_para cb" where
  "json_marked_enterstruct e s =
     map_option (\<lambda>(h, c). ((fst s, (snd s)\<lparr>jt_heap := h, jt_node := if c = None then jt_node (snd s) else c\<rparr>), 1))
       (find_in (elem_name_bytes (fst s) e) (jt_heap (snd s)) (jt_node (snd s)))"

definition json_marked_exitstruct :: "jsonto_para cb" where
  "json_marked_exitstruct e s =
     Some (if jt_node (snd s) = None then (s, - EINVAL)
           else ((fst s, (snd s)\<lparr>jt_node := json_get_father (jt_heap (snd s)) (jt_node (snd s))\<rparr>), 1))"

definition json_marked_procfunc :: "jsonto_para cb" where
  "json_marked_procfunc e s =
     (let (st, para) = s; flag = jt_flag para; st1 = or_flag flag e st
      in if jt_node para = None then Some (s, - EINVAL)
         else case (if issubsetelem (etype st1 e) then
                      (case et_ref (el st1 e) of ERefNode q \<Rightarrow> struct_set_allflag st1 q flag | _ \<Rightarrow> None)
                    else Some st1) of
                None \<Rightarrow> None
              | Some st2 \<Rightarrow> map_option (\<lambda>path. ((fold (or_flag flag) (tl path) st2, para), 1)) (elem_path st2 e))"

definition json_marked_struct_ops :: "nat option \<Rightarrow> jsonto_para struct_deal_ops" where
  "json_marked_struct_ops root = \<lparr>dop_start = Some (json_marked_start root), dop_testelem = Some json_marked_test,
     dop_enterstruct = Some json_marked_enterstruct, dop_exitstruct = Some json_marked_exitstruct,
     dop_proc_func = json_marked_procfunc, dop_finish = None\<rparr>"

definition json_marked_struct ::
  "estate \<times> jheap \<Rightarrow> nat option \<Rightarrow> nat \<Rightarrow> u32 \<Rightarrow> ((estate \<times> jheap) \<times> int) option option" where
  "json_marked_struct s root tmpl flag = run_json (json_marked_struct_ops root) None tmpl flag s"

section \<open>Clearing flags\<close>

text \<open>The flag of an element or, for a sub-structure, of its node; \<open>None\<close> without a node.\<close>

definition own_flag :: "estate \<Rightarrow> eid \<Rightarrow> u32 option" where
  "own_flag st e =
     (if issubsetelem (etype st e)
      then (case et_ref (el st e) of ERefNode q \<Rightarrow> Some (sn_flag (es_node st q)) | _ \<Rightarrow> None)
      else Some (et_flag (el st e)))"

text \<open>Whether an element of the node from place \<open>i\<close> on has the flag, \<open>k\<close> elements being left.\<close>

fun any_flag :: "estate \<Rightarrow> nat \<Rightarrow> u32 \<Rightarrow> nat \<Rightarrow> nat \<Rightarrow> bool option" where
  "any_flag st n flag i 0 = Some False"
| "any_flag st n flag i (Suc k) =
     (case own_flag st (n, i) of
        None \<Rightarrow> None
      | Some f \<Rightarrow> if f AND flag \<noteq> 0 then Some True else any_flag st n flag (i + 1) k)"

text \<open>The inner loop: the nodes from \<open>n\<close> up lose the flag as long as none of their elements has it.\<close>

partial_function (option) clear_up :: "nat \<Rightarrow> u32 \<Rightarrow> nat \<Rightarrow> estate \<Rightarrow> estate option" where
  "clear_up root flag n st =
     (case any_flag st n flag 0 (nat (sn_elem_no (es_node st n))) of
        None \<Rightarrow> None
      | Some found \<Rightarrow>
          let st1 = upd_snode n (\<lambda>d. d\<lparr>sn_flag := sn_flag d AND NOT flag\<rparr>) st
          in if found then Some st
             else if n = root then Some st1
             else case sn_parent (es_node st1 n) of None \<Rightarrow> None | Some p \<Rightarrow> clear_up root flag p st1)"

text \<open>A sub-structure that is named gets the flag in all its elements instead of losing it.\<close>

definition clear_named :: "nat \<Rightarrow> u32 \<Rightarrow> eid \<Rightarrow> estate \<Rightarrow> estate option" where
  "clear_named root flag e st =
     Option.bind
       (if issubsetelem (etype st e)
        then (case et_ref (el st e) of ERefNode q \<Rightarrow> struct_set_allflag st q flag | _ \<Rightarrow> None)
        else Some (upd_elem e (\<lambda>t. t\<lparr>et_flag := et_flag t AND NOT flag\<rparr>) st))
       (\<lambda>st1. case et_father (el st1 e) of
                None \<Rightarrow> clear_up root flag root st1
              | Some f \<Rightarrow> (case et_ref (el st1 f) of ERefNode q \<Rightarrow> clear_up root flag q st1 | _ \<Rightarrow> None))"

partial_function (option) clear_flag_loop ::
  "nat \<Rightarrow> u32 \<Rightarrow> nat \<Rightarrow> nat \<Rightarrow> int \<Rightarrow> estate \<Rightarrow> (estate \<times> int) option" where
  "clear_flag_loop root flag namelist off count st =
     (case Getfiledfromstr (es_mem st) (es_stack st) (namelist + off) 44 33 of
        None \<Rightarrow> None
      | Some (m, i) \<Rightarrow>
          let st1 = set_mem m st
          in if i = 0 then Some (st1, count)
             else
               case cstring m (es_stack st) of
                 None \<Rightarrow> None
               | Some name \<Rightarrow>
                   (case get_elem_by_name st1 root name of
                      None \<Rightarrow> None
                    | Some None \<Rightarrow> Some (st1, - EINVAL)
                    | Some (Some e) \<Rightarrow>
                        (case clear_named root flag e st1 of
                           None \<Rightarrow> None
                         | Some st2 \<Rightarrow>
                             clear_flag_loop root flag namelist
                               (if m (namelist + off + i) = 44 then off + i + 1 else off + i) (count + 1) st2)))"

definition struct_clear_flag :: "estate \<Rightarrow> nat \<Rightarrow> u32 \<Rightarrow> nat \<Rightarrow> (estate \<times> int) option" where
  "struct_clear_flag st tmpl flag namelist = clear_flag_loop tmpl flag namelist 0 0 st"

end
