(* ===== verification/Cube_Struct_Json_Laws.thy ===== *)
theory Cube_Struct_Json_Laws
  imports Cube_Struct_Json Cube_Struct_Walk Cube_Json_Text
begin

text \<open>
  What the JSON conversions of structures do: a list of texts put into JSON comes out again with a comma
  behind each text, storing a list needs that comma, and a member that a tree lacks.
\<close>

section \<open>Lists of texts\<close>

abbreviation separator :: "byte \<Rightarrow> bool" where "separator c \<equiv> c = 0 \<or> c = 44"

definition field_ok :: "byte list \<Rightarrow> bool" where
  "field_ok f \<longleftrightarrow> f \<noteq> [] \<and> 0 \<notin> set f \<and> 44 \<notin> set f \<and> 34 \<notin> set f \<and> 93 \<notin> set f"

text \<open>The texts with commas between them, each text closed by a comma, and the list in JSON.\<close>

fun csv :: "byte list list \<Rightarrow> byte list" where
  "csv [] = []"
| "csv [f] = f"
| "csv (f # g # fs) = f @ 44 # csv (g # fs)"

definition closed_csv :: "byte list list \<Rightarrow> byte list" where
  "closed_csv fs = concat (map (\<lambda>f. f @ [44]) fs)"

fun quoted :: "bool \<Rightarrow> byte list list \<Rightarrow> byte list" where
  "quoted begun [] = []"
| "quoted begun (f # fs) = (if begun then [44] else []) @ [34] @ f @ [34] @ quoted True fs"

definition json_array :: "byte list list \<Rightarrow> byte list" where
  "json_array fs = [91] @ quoted False fs @ [93]"

section \<open>Into JSON\<close>

text \<open>What the loop of \<open>_getjsonstr\<close> still writes, the closing quotation mark included.\<close>

fun array_out :: "bool \<Rightarrow> bool \<Rightarrow> byte list \<Rightarrow> byte list" where
  "array_out isin begun [] = (if isin then [34] else [])"
| "array_out isin begun (c # cs) =
     (if separator c then (if isin then [34] else []) @ array_out False begun cs
      else (if isin then [] else if begun then [44, 34] else [34]) @ c # array_out True True cs)"

lemma array_out_field: "0 \<notin> set f \<Longrightarrow> 44 \<notin> set f \<Longrightarrow> array_out True True (f @ ts) = f @ array_out True True ts"
  by (induction f) auto

lemma array_out_csv: "(\<And>f. f \<in> set fs \<Longrightarrow> field_ok f) \<Longrightarrow> array_out False begun (csv fs) = quoted begun fs"
proof (induction fs arbitrary: begun rule: csv.induct)
  case (2 f)
  then have "field_ok f" by simp
  then obtain c cs where "f = c # cs" "c \<noteq> 0" "c \<noteq> 44" "0 \<notin> set cs" "44 \<notin> set cs" by (cases f) (auto simp: field_ok_def)
  then show ?case using array_out_field [of cs "[]"] by simp
next
  case (3 f g fs)
  then have "field_ok f" by simp
  then obtain c cs where "f = c # cs" "c \<noteq> 0" "c \<noteq> 44" "0 \<notin> set cs" "44 \<notin> set cs" by (cases f) (auto simp: field_ok_def)
  then show ?case using array_out_field [of cs "44 # csv (g # fs)"] 3 by simp
qed simp

text \<open>What the loop has written when it has read \<open>ts\<close>, and whether it ends inside a text.\<close>

definition still_in :: "bool \<Rightarrow> byte list \<Rightarrow> bool" where
  "still_in isin ts \<longleftrightarrow> (if ts = [] then isin else \<not> separator (last ts))"

lemma getjson_loop_writes:
  assumes "mem_bytes m (txt + i) k = ts" "isin \<longrightarrow> no > 0"
    and "disjoint_range (json + off) (length (array_out isin (no > 0) ts)) (txt + i) k"
  shows "\<exists>out. getjson_array_loop m json txt i off isin no k = (mem_write m (json + off) out, off + length out, still_in isin ts)
    \<and> array_out isin (no > 0) ts = out @ (if still_in isin ts then [34] else [])"
  using assms
proof (induction k arbitrary: m i off isin no ts)
  case (Suc k)
  obtain c cs where ts: "ts = c # cs" "m (txt + i) = c" "mem_bytes m (txt + (i + 1)) k = cs"
    using Suc.prems(1) by (cases ts) (auto simp: mem_bytes_Suc)
  define bs where "bs = (if separator c then if isin then [34] else [] else (if isin then [] else if no > 0 then [44, 34] else [34]) @ [c])"
  define no' where "no' = (if separator c \<or> isin then no else no + 1)"
  have split: "array_out isin (no > 0) ts = bs @ array_out (\<not> separator c) (no' > 0) cs"
    using Suc.prems(2) by (auto simp: ts(1) bs_def no'_def)
  have step: "getjson_array_loop m json txt i off isin no (Suc k)
      = getjson_array_loop (mem_write m (json + off) bs) json txt (i + 1) (off + length bs) (\<not> separator c) no' k"
    using ts(2) Suc.prems(3) split by (auto simp: Let_def bs_def no'_def disjoint_range_def)
  have w: "mem_bytes (mem_write m (json + off) bs) (txt + (i + 1)) k = cs"
    using ts(3) Suc.prems(3) split by (subst mem_bytes_mem_write_disjoint) (auto simp: disjoint_range_def)
  have disj: "disjoint_range (json + (off + length bs)) (length (array_out (\<not> separator c) (no' > 0) cs)) (txt + (i + 1)) k"
    using Suc.prems(3) split by (auto simp: disjoint_range_def)
  have no: "\<not> separator c \<longrightarrow> no' > 0" using Suc.prems(2) by (simp add: no'_def)
  from Suc.IH [OF w no disj] obtain out where
    ih: "getjson_array_loop (mem_write m (json + off) bs) json txt (i + 1) (off + length bs) (\<not> separator c) no' k
      = (mem_write (mem_write m (json + off) bs) (json + (off + length bs)) out, off + length bs + length out, still_in (\<not> separator c) cs)"
    "array_out (\<not> separator c) (no' > 0) cs = out @ (if still_in (\<not> separator c) cs then [34] else [])" by blast
  have "still_in (\<not> separator c) cs = still_in isin ts" by (auto simp: still_in_def ts(1))
  then show ?case
    using ih split by (intro exI [of _ "bs @ out"]) (simp only: step mem_write_append add.assoc length_append prod.case append_assoc)
qed (auto simp: still_in_def)

lemma getjsonstr_array:
  assumes "\<forall>f \<in> set fs. field_ok f" "mem_bytes m txt (length (csv fs)) = csv fs"
    and "disjoint_range json (length (json_array fs) + 1) txt (length (csv fs))"
  shows "getjsonstr m json txt (int (length (csv fs))) JSON_ELEM_ARRAY
    = (mem_write m json (json_array fs @ [0]), int (length (json_array fs)))"
proof -
  let ?n = "length (csv fs)" and ?m = "m(json := 91)"
  have out: "array_out False False (csv fs) = quoted False fs" using assms(1) array_out_csv by blast
  have b: "mem_bytes ?m (txt + 0) ?n = csv fs"
    using assms(2,3) mem_bytes_mem_write_disjoint [of json "[91]" "txt" ?n m]
    by (auto simp: disjoint_range_def json_array_def)
  have disj: "disjoint_range (json + 1) (length (array_out False (0 < (0::nat)) (csv fs))) (txt + 0) ?n"
    using assms(3) by (simp add: out json_array_def disjoint_range_def) linarith
  obtain ys where loop: "getjson_array_loop ?m json txt 0 1 False 0 ?n
      = (mem_write ?m (json + 1) ys, 1 + length ys, still_in False (csv fs))"
    "quoted False fs = ys @ (if still_in False (csv fs) then [34] else [])"
    using getjson_loop_writes [OF b _ disj] out by auto
  have last: "still_in False (csv fs) \<Longrightarrow> \<not> separator (mem_write ?m (json + 1) ys (adr_plus txt (int ?n - 1)))"
  proof -
    assume st: "still_in False (csv fs)"
    then have n: "?n > 0" "\<not> separator (last (csv fs))" by (auto simp: still_in_def split: if_splits)
    have "mem_bytes (mem_write m json (91 # ys)) txt ?n = csv fs"
      using assms(2,3) loop(2) by (subst mem_bytes_mem_write_disjoint) (auto simp: disjoint_range_def json_array_def)
    then have "csv fs ! (?n - 1) = mem_write m json (91 # ys) (txt + (?n - 1))"
      using n(1) nth_mem_bytes [of "?n - 1" ?n "mem_write m json (91 # ys)" "txt"] by simp
    moreover have "adr_plus txt (int ?n - 1) = txt + (?n - 1)"
      using n(1) by (simp add: adr_plus_def nat_eq_iff of_nat_diff Suc_le_eq)
    ultimately have "mem_write ?m (json + 1) ys (adr_plus txt (int ?n - 1)) = last (csv fs)"
      using n(1) by (simp add: last_conv_nth)
    then show ?thesis using n(2) by simp
  qed
  show ?thesis
    unfolding json_array_def loop(2) using loop(1) last
    by (auto simp: getjsonstr_def Let_def mem_write_append add.assoc)
qed

section \<open>Out of JSON\<close>

lemma strip_elem:
  assumes "34 \<notin> set f" "93 \<notin> set f" "mem_bytes (sp_mem s) (txt + i) (length f) = f" "0 < sp_off s" "sp_off s \<le> i"
    and "sp_state s = STRIP_INELEM" "sp_quotes s = 1" "sp_brackets s = 1"
  shows "strip_loop txt i s (length f + k)
    = strip_loop txt (i + length f) (s\<lparr>sp_mem := mem_write (sp_mem s) (txt + i - sp_off s) f\<rparr>) k"
  using assms
proof (induction f arbitrary: i s)
  case (Cons c f)
  have c: "sp_mem s (txt + i) = c" "mem_bytes (sp_mem s) (txt + (i + 1)) (length f) = f" "c \<noteq> 34" "c \<noteq> 93"
    using Cons.prems(1,2,3) by (auto simp: mem_bytes_Suc)
  let ?s = "s\<lparr>sp_mem := (sp_mem s)(txt + i - sp_off s := c)\<rparr>"
  have w: "mem_bytes (sp_mem ?s) (txt + (i + 1)) (length f) = f"
  proof -
    have "sp_mem ?s = mem_write (sp_mem s) (txt + i - sp_off s) [c]" by simp
    then show ?thesis
      using c(2) Cons.prems(4,5) by (simp only:) (subst mem_bytes_mem_write_disjoint, auto simp: disjoint_range_def)
  qed
  have step: "strip_loop txt i s (length (c # f) + k) = strip_loop txt (i + 1) ?s (length f + k)"
    using c Cons.prems(6-8) by (simp add: strip_char_def Let_def)
  have "strip_loop txt (i + 1) ?s (length f + k)
      = strip_loop txt (i + 1 + length f) (?s\<lparr>sp_mem := mem_write (sp_mem ?s) (txt + (i + 1) - sp_off ?s) f\<rparr>) k"
    using Cons.prems by (intro Cons.IH [OF _ _ w]) auto
  moreover have "txt + (i + 1) - sp_off s = txt + i - sp_off s + 1" using Cons.prems(5) by simp
  ultimately show ?case unfolding step by (simp add: add.assoc)
qed simp

text \<open>From inside the bracket to the end of the list.\<close>

lemma strip_quoted:
  assumes "\<forall>f \<in> set fs. field_ok f" "mem_bytes (sp_mem s) (txt + i) (length (quoted begun fs) + 1) = quoted begun fs @ [93]"
    and "0 < sp_off s" "sp_off s \<le> i" "sp_state s = STRIP_INBRACKET" "sp_quotes s = 0" "sp_brackets s = 1"
  shows "strip_loop txt i s (length (quoted begun fs) + 1 + k)
    = (mem_write (sp_mem s) (txt + i - sp_off s) (closed_csv fs @ [0]), int i - int (sp_off s) + int (length (closed_csv fs)))"
  using assms
proof (induction fs arbitrary: begun i s k)
  case Nil
  then have "sp_mem s (txt + i) = 93" by (simp add: mem_bytes_Suc)
  then show ?case using Nil.prems
    by (simp add: strip_char_def Let_def Ischarinset_def closed_csv_def fun_upd_def)
next
  case (Cons f fs)
  have f: "34 \<notin> set f" "93 \<notin> set f" using Cons.prems(1) by (auto simp: field_ok_def)
  let ?c = "if begun then [44] else [] :: byte list" and ?r = "quoted True fs @ [93]" and ?o = "sp_off s"
  let ?n = "length (quoted True fs)"
  define j where "j = i + length ?c"
  have "mem_bytes (sp_mem s) (txt + i) (length ?c + (1 + (length f + (1 + (?n + 1))))) = ?c @ [34] @ f @ [34] @ ?r"
    using Cons.prems(2) by (auto simp: ac_simps)
  then have b: "mem_bytes (sp_mem s) (txt + i) (length ?c) = ?c" "sp_mem s (txt + j) = 34"
    "mem_bytes (sp_mem s) (txt + (j + 1)) (length f) = f" "sp_mem s (txt + (j + 1 + length f)) = 34"
    "mem_bytes (sp_mem s) (txt + (j + 1 + length f + 1)) (?n + 1) = ?r"
    unfolding mem_bytes_append by (auto simp: j_def mem_bytes_Suc add.assoc split: if_splits)
  let ?s1 = "s\<lparr>sp_off := ?o + length ?c\<rparr>" and ?s2 = "s\<lparr>sp_off := ?o + length ?c + 1, sp_quotes := 1, sp_state := STRIP_INELEM\<rparr>"
  let ?m3 = "mem_write (sp_mem s) (txt + i - ?o) f"
  let ?s4 = "s\<lparr>sp_off := ?o + length ?c + 1, sp_mem := ?m3(txt + i - ?o + length f := 44),
      sp_quotes := 0, sp_state := STRIP_INBRACKET\<rparr>"
  have t1: "strip_loop txt i s (length ?c + (1 + k')) = strip_loop txt j ?s1 (1 + k')" for k'
    using b(1) Cons.prems(5) by (auto simp: j_def mem_bytes_Suc strip_char_def Let_def Ischarinset_def)
  have t2: "strip_loop txt j ?s1 (1 + k') = strip_loop txt (j + 1) ?s2 k'" for k'
    using b(2) Cons.prems(5,6) by (simp add: strip_char_def Let_def Ischarinset_def)
  have t3: "strip_loop txt (j + 1) ?s2 (length f + k') = strip_loop txt (j + 1 + length f) (?s2\<lparr>sp_mem := ?m3\<rparr>) k'" for k'
  proof -
    have "txt + (j + 1) - (?o + length ?c + 1) = txt + i - ?o" by (simp add: j_def)
    then show ?thesis using strip_elem [of f ?s2 "txt" "j + 1" k'] f b(3) Cons.prems(3-7) by (simp add: j_def)
  qed
  have t4: "strip_loop txt (j + 1 + length f) (?s2\<lparr>sp_mem := ?m3\<rparr>) (1 + k') = strip_loop txt (j + 1 + length f + 1) ?s4 k'" for k'
  proof -
    have "?m3 (txt + (j + 1 + length f)) = 34"
      using b(4) Cons.prems(3,4) by (subst mem_write_apply) (auto simp: j_def)
    moreover have "txt + (j + 1 + length f) - (?o + length ?c + 1) = txt + i - ?o + length f"
      using Cons.prems(4) by (simp add: j_def)
    ultimately show ?thesis using Cons.prems(6,7) by (simp add: strip_char_def Let_def add.assoc)
  qed
  have steps: "strip_loop txt i s (length ?c + (1 + (length f + (1 + k')))) = strip_loop txt (j + 1 + length f + 1) ?s4 k'" for k'
    by (simp only: t1 t2 t3 t4)
  have m4: "sp_mem ?s4 = mem_write (sp_mem s) (txt + i - ?o) (f @ [44])" by (simp add: mem_write_append)
  have b5: "mem_bytes (sp_mem ?s4) (txt + (j + 1 + length f + 1)) (?n + 1) = ?r"
    unfolding m4 using b(5) Cons.prems(4) by (subst mem_bytes_mem_write_disjoint) (auto simp: disjoint_range_def j_def)
  have ih: "strip_loop txt (j + 1 + length f + 1) ?s4 (?n + 1 + k)
      = (mem_write (sp_mem ?s4) (txt + (j + 1 + length f + 1) - sp_off ?s4) (closed_csv fs @ [0]),
         int (j + 1 + length f + 1) - int (sp_off ?s4) + int (length (closed_csv fs)))"
    using Cons.prems by (intro Cons.IH [OF _ b5]) (auto simp: j_def)
  have pos: "txt + (j + 1 + length f + 1) - sp_off ?s4 = txt + i - ?o + length (f @ [44])"
    using Cons.prems(4) by (simp add: j_def)
  have cat: "closed_csv (f # fs) @ [0] = (f @ [44]) @ closed_csv fs @ [0]" by (simp add: closed_csv_def)
  have "strip_loop txt i s (length ?c + (1 + (length f + (1 + (?n + 1 + k)))))
      = (mem_write (sp_mem s) (txt + i - ?o) (closed_csv (f # fs) @ [0]),
         int i - int ?o + int (length (closed_csv (f # fs))))"
    unfolding steps ih m4 pos cat mem_write_append [of _ _ "f @ [44]"] by (simp add: closed_csv_def j_def)
  then show ?case by (simp add: ac_simps)
qed

lemma stripjsonarraychar_array:
  assumes "\<forall>f \<in> set fs. field_ok f" "mem_bytes m a (length (json_array fs)) = json_array fs"
  shows "stripjsonarraychar m a (int (length (json_array fs)))
    = (mem_write m a (closed_csv fs @ [0]), int (length (closed_csv fs)))"
proof -
  let ?s = "\<lparr>sp_mem = m, sp_off = 1, sp_brackets = 1, sp_quotes = 0, sp_state = STRIP_INBRACKET\<rparr>"
  have b: "m a = 91" "mem_bytes (sp_mem ?s) (a + 1) (length (quoted False fs) + 1) = quoted False fs @ [93]"
    using assms(2) by (simp_all add: json_array_def mem_bytes_Suc)
  have "stripjsonarraychar m a (int (length (json_array fs))) = strip_loop a 1 ?s (length (quoted False fs) + 1 + 0)"
  proof -
    have "nat (int (length (json_array fs))) = Suc (length (quoted False fs) + 1 + 0)" by (simp add: json_array_def)
    then show ?thesis using b(1)
      by (simp only: stripjsonarraychar_def strip_loop.simps(2)) (simp add: strip_char_def Let_def del: strip_loop.simps)
  qed
  also have "\<dots> = (mem_write m (a + 1 - 1) (closed_csv fs @ [0]), int 1 - int 1 + int (length (closed_csv fs)))"
    using strip_quoted [OF assms(1) b(2), of 0] by simp
  finally show ?thesis by simp
qed

text \<open>(C6) 
  Texts without separators, quotation marks and closing brackets, put into JSON by \<open>_getjsonstr\<close> from
  a list with commas between them, stand there as a JSON array of strings, and \<open>_stripjsonarraychar\<close> takes
  them out of it again, as a terminated list with a comma behind each text.
\<close>

theorem json_array_text_roundtrip:
  assumes "\<forall>f \<in> set fs. field_ok f" "mem_bytes m txt (length (csv fs)) = csv fs"
    and "disjoint_range json (length (json_array fs) + 1) txt (length (csv fs))"
  shows "\<exists>m1 m2. getjsonstr m json txt (int (length (csv fs))) JSON_ELEM_ARRAY = (m1, int (length (json_array fs)))
    \<and> mem_bytes m1 json (length (json_array fs) + 1) = json_array fs @ [0]
    \<and> stripjsonarraychar m1 json (int (length (json_array fs))) = (m2, int (length (closed_csv fs)))
    \<and> mem_bytes m2 json (length (closed_csv fs) + 1) = closed_csv fs @ [0]"
proof -
  let ?m1 = "mem_write m json (json_array fs @ [0])"
  have "mem_bytes ?m1 json (length (json_array fs)) = json_array fs" by (rule mem_bytes_prefix)
  then show ?thesis
    using getjsonstr_array [OF assms] stripjsonarraychar_array [OF assms(1), of ?m1 json]
      mem_bytes_mem_write [of m json "json_array fs @ [0]"] mem_bytes_mem_write [of ?m1 json "closed_csv fs @ [0]"]
    by simp
qed

theorem json_array_text_roundtrip_witness:
  "\<exists>m1 m2. getjsonstr (mem_write (\<lambda>_. 0) 100 [97, 98, 44, 99]) 200 100 4 JSON_ELEM_ARRAY = (m1, 10)
    \<and> mem_bytes m1 200 11 = [91, 34, 97, 98, 34, 44, 34, 99, 34, 93, 0]
    \<and> stripjsonarraychar m1 200 10 = (m2, 5) \<and> mem_bytes m2 200 6 = [97, 98, 44, 99, 44, 0]"
proof -
  let ?fs = "[[97, 98], [99]] :: byte list list"
  have ok: "\<forall>f \<in> set ?fs. field_ok f" by (simp add: field_ok_def)
  have b: "mem_bytes (mem_write (\<lambda>_. 0) 100 [97, 98, 44, 99]) 100 (length (csv ?fs)) = csv ?fs"
    using mem_bytes_mem_write [of "\<lambda>_. 0" 100 "[97, 98, 44, 99]"] by simp
  have d: "disjoint_range 200 (length (json_array ?fs) + 1) 100 (length (csv ?fs))"
    by (simp add: disjoint_range_def json_array_def)
  have e: "closed_csv ?fs = [97, 98, 44, 99, 44]" "json_array ?fs = [91, 34, 97, 98, 34, 44, 34, 99, 34, 93]"
    "csv ?fs = [97, 98, 44, 99]" by (simp_all add: closed_csv_def json_array_def)
  have l: "length (closed_csv ?fs) = 5" "length (json_array ?fs) = 10" "length (csv ?fs) = 4" by (simp_all add: e)
  show ?thesis using json_array_text_roundtrip [OF ok b d, unfolded l, unfolded e] by simp
qed

section \<open>A member that the tree lacks\<close>

lemma next_elem_sel [simp]:
  "el (next_elem n st) e = el st e" "es_mem (next_elem n st) = es_mem st"
  "temp_var (es_node (next_elem n st) n) = temp_var (es_node st n) + 1"
  "sn_elem_no (es_node (next_elem n st) k) = sn_elem_no (es_node st k)"
  by (simp_all add: next_elem_def el_upd_snode fun_upd_apply)

text \<open>Without a node every plain element is passed over.\<close>

lemma jsonto_lost_leaf:
  assumes "jt_node para = None" "\<not> issubsetelem (etype st e)" "elem_get_ops (etype st e) \<noteq> None"
  shows "frame_elem (json_2_struct_ops tb root addr False) n e (st, para) = FNext n (next_elem n st, para)"
  using assms by (auto simp: frame_elem_def json_2_struct_ops_def jsonto_proc_func_def find_in_def on_st_def)

lemma jsonto_lost:
  assumes "jt_node para = None" "0 \<le> temp_var (es_node st n)" "temp_var (es_node st n) \<le> sn_elem_no (es_node st n)"
    and "\<forall>j. temp_var (es_node st n) \<le> int j \<and> int j < sn_elem_no (es_node st n)
      \<longrightarrow> \<not> issubsetelem (etype st (n, j)) \<and> elem_get_ops (etype st (n, j)) \<noteq> None"
  shows "\<exists>st'. frame_loop (json_2_struct_ops tb root addr False) n n (st, para) = Some (Some ((st', para), 0))
    \<and> es_mem st' = es_mem st"
  using assms
proof (induction "nat (sn_elem_no (es_node st n) - temp_var (es_node st n))" arbitrary: st)
  case 0
  then have "temp_var (es_node st n) = sn_elem_no (es_node st n)" by simp
  then show ?case
    by (subst frame_loop.simps) (simp add: frame_round_def Let_def json_2_struct_ops_def)
next
  case (Suc k)
  let ?e = "curr_eid n st"
  have lt: "temp_var (es_node st n) < sn_elem_no (es_node st n)" using Suc.hyps(2) by simp
  then have e: "\<not> issubsetelem (etype st ?e)" "elem_get_ops (etype st ?e) \<noteq> None"
    using Suc.prems(2,4) by (simp_all add: curr_eid_def)
  have "frame_round (json_2_struct_ops tb root addr False) n n (st, para) = FNext n (next_elem n st, para)"
    using lt jsonto_lost_leaf [OF Suc.prems(1) e, of tb root addr n]
    by (simp add: frame_round_def Let_def) (simp add: json_2_struct_ops_def)
  moreover have "\<exists>st'. frame_loop (json_2_struct_ops tb root addr False) n n (next_elem n st, para) = Some (Some ((st', para), 0))
      \<and> es_mem st' = es_mem (next_elem n st)"
    using Suc.hyps(2) Suc.prems lt by (intro Suc.hyps(1)) auto
  ultimately show ?case by (subst frame_loop.simps) simp
qed

text \<open>(C7) 
  When a tree lacks the array that comes first in a template, \<open>json_2_struct\<close> leaves the root of the
  tree for its father, finds none of the members that follow, stores nothing and still returns 0: the
  step out of a structure that was never entered is made as well.
\<close>

theorem json_2_struct_loses_place:
  assumes "es_malloc st (es_calls st) \<noteq> None" "json_get_type h (Some p) = JSON_ELEM_MAP"
    and "json_find_elem (elem_name_bytes st (n, 0)) h p = Some (h', None)" "father (jnode h' p) = None"
    and "0 < sn_elem_no (es_node st n)" "etype st (n, 0) = CUBE_TYPE_ARRAY \<or> etype st (n, 0) = CUBE_TYPE_DEFARRAY"
    and "et_limit (el st (n, 0)) = 0" "et_index (el st (n, 0)) = 0"
    and "\<forall>j. 0 < j \<and> int j < sn_elem_no (es_node st n)
      \<longrightarrow> \<not> issubsetelem (etype st (n, j)) \<and> elem_get_ops (etype st (n, j)) \<noteq> None"
  shows "\<exists>st'. json_2_struct tb (st, h) (Some p) addr n = Some (Some ((st', h'), 0)) \<and> es_mem st' = es_mem st"
proof -
  let ?ops = "json_2_struct_ops tb (Some p) addr False"
  let ?st0 = "upd_snode n (\<lambda>d. d\<lparr>temp_var := 0\<rparr>) (st\<lparr>es_calls := Suc (es_calls st)\<rparr>)"
  let ?para = "\<lparr>jt_heap = h, jt_node = Some p, jt_flag = 0\<rparr>" and ?lost = "\<lparr>jt_heap = h', jt_node = None, jt_flag = 0\<rparr>"
  have el: "el ?st0 e = el st e" for e by (simp add: el_upd_snode) (simp add: el_def)
  have at: "curr_eid n ?st0 = (n, 0)" by (simp add: curr_eid_def)
  have "elem_name_bytes ?st0 (n, 0) = elem_name_bytes st (n, 0)" by (simp add: elem_name_bytes_def el)
  then have "frame_elem ?ops n (n, 0) (?st0, ?para) = FNext n (next_elem n ?st0, ?lost)"
    using assms(3,4,6-8)
    by (auto simp: frame_elem_def json_2_struct_ops_def call_cb_def jsonto_enterstruct_def find_in_def jsonto_exitstruct_def
        json_get_father_def Let_def on_st_def el type_kinds)
  then have "frame_round ?ops n n (?st0, ?para) = FNext n (next_elem n ?st0, ?lost)"
    using assms(5) at by (simp add: frame_round_def Let_def fun_upd_apply) (simp add: json_2_struct_ops_def)
  moreover obtain st' where st': "frame_loop ?ops n n (next_elem n ?st0, ?lost) = Some (Some ((st', ?lost), 0))"
      "es_mem st' = es_mem (next_elem n ?st0)"
    using jsonto_lost [of ?lost "next_elem n ?st0" n tb "Some p" addr] assms(5,9) el by (auto simp: fun_upd_apply)
  ultimately have "frame_loop ?ops n n (?st0, ?para) = Some (Some ((st', ?lost), 0))"
    by (subst frame_loop.simps) simp
  then show ?thesis
    using assms(1,2) st'(2)
    by (auto simp: json_2_struct_def run_json_def talloc_ok_def convert_frame_func_def Let_def on_st_def jsonto_start_def
        json_2_struct_ops_def)
qed

text \<open>An array \<open>a\<close> of one byte and an integer \<open>b\<close>; the tree has the member \<open>b\<close> only.\<close>

definition lost_state :: estate where
  "lost_state =
     (let t = (\<lambda>c ty. \<lparr>elem_desc = ELEM_ATTR (Some [c]) ty 1 RefNull None, et_offset = 0, et_size = 4, et_tempsize = 0,
                  et_ref = ERefNode 1, et_def = None, et_flag = 0, et_index = 0, et_limit = 0, et_father = None\<rparr>);
          d = empty_snode\<lparr>sn_elem_no := 2, elem_list := [t 97 CUBE_TYPE_ARRAY, t 98 CUBE_TYPE_INT]\<rparr>
      in \<lparr>es_node = (\<lambda>_. d), es_next = 2, es_mem = (\<lambda>_. 0), es_malloc = (\<lambda>k. Some (1000 + 100 * k)), es_calls = 0,
          es_stack = 5000\<rparr>)"

definition lost_tree :: jheap where
  "lost_tree = \<lparr>jnode = (\<lambda>k. if k = 0 then empty_node\<lparr>elem_type := JSON_ELEM_MAP, elem_no := 1, childlist := [1]\<rparr>
     else empty_node\<lparr>elem_type := JSON_ELEM_NUM, jname := [98], jvalue := 7, father := Some 0\<rparr>), jnext = 2, jmalloc = \<lambda>_. True\<rparr>"

theorem json_2_struct_loses_place_witness:
  "\<exists>st' h'. json_2_struct elem_get_ops (lost_state, lost_tree) (Some 0) 100 0 = Some (Some ((st', h'), 0))
    \<and> es_mem st' = (\<lambda>_. 0)"
proof -
  have nm: "elem_name_bytes lost_state (0, 0) = [97]" by (simp add: elem_name_bytes_def lost_state_def el_def Let_def)
  have neq: "\<not> strneq DIGEST_SIZE [97] [98]" by (simp add: numeral_eq_Suc)
  obtain h' where h': "json_find_elem [97] lost_tree 0 = Some (h', None)" "father (jnode h' 0) = None"
    by (simp add: json_find_elem_def lost_tree_def json_get_type_def json_get_first_child_def upd_node_def empty_node_def
        find_elem_loop.simps json_get_next_child_def fun_upd_apply neq)
  have "\<exists>st'. json_2_struct elem_get_ops (lost_state, lost_tree) (Some 0) 100 0 = Some (Some ((st', h'), 0))
      \<and> es_mem st' = es_mem lost_state"
  proof (rule json_2_struct_loses_place)
    show "json_find_elem (elem_name_bytes lost_state (0, 0)) lost_tree 0 = Some (h', None)" unfolding nm by (rule h'(1))
    show "\<forall>j. 0 < j \<and> int j < sn_elem_no (es_node lost_state 0) \<longrightarrow>
        \<not> issubsetelem (etype lost_state (0, j)) \<and> elem_get_ops (etype lost_state (0, j)) \<noteq> None"
    proof (intro allI impI)
      fix j assume "0 < j \<and> int j < sn_elem_no (es_node lost_state 0)"
      then have "j = 1" by (simp add: lost_state_def)
      then show "\<not> issubsetelem (etype lost_state (0, j)) \<and> elem_get_ops (etype lost_state (0, j)) \<noteq> None"
        by (simp add: lost_state_def el_def Let_def type_kinds elem_get_ops_table)
    qed
  qed (simp_all add: h'(2), simp_all add: lost_state_def lost_tree_def el_def Let_def json_get_type_def empty_node_def)
  then show ?thesis by (auto simp: lost_state_def)
qed

end
