(* ===== verification/Cube_Memdb_Names.thy ===== *)
theory Cube_Memdb_Names
  imports Cube_Struct_Convert "HOL-Library.Monad_Syntax"
begin

text \<open>
  The lists of named values of \<^verbatim>\<open>cubelib/memdb/memdb_init.c\<close>: \<^verbatim>\<open>struct struct_namelist\<close>, twelve bytes with a count
  and a pointer to packed pairs of a name pointer and a value, the search by name and by value, and
  the merge of two lists that are sorted by value.
\<close>

section \<open>Allocation in the element state\<close>

definition alloc_with :: "(mem \<Rightarrow> nat option \<Rightarrow> int \<Rightarrow> allocated) \<Rightarrow> int \<Rightarrow> estate \<Rightarrow> estate \<times> nat option" where
  "alloc_with f sz st =
     (let (m, p) = f (es_mem st) (es_malloc st (es_calls st)) sz
      in (st\<lparr>es_mem := m, es_calls := es_calls st + 1\<rparr>, p))"

abbreviation talloc :: "int \<Rightarrow> estate \<Rightarrow> estate \<times> nat option" where "talloc \<equiv> alloc_with Talloc"
abbreviation talloc0 :: "int \<Rightarrow> estate \<Rightarrow> estate \<times> nat option" where "talloc0 \<equiv> alloc_with Talloc0"
abbreviation calloc0 :: "int \<Rightarrow> estate \<Rightarrow> estate \<times> nat option" where "calloc0 \<equiv> alloc_with Calloc0"

definition free0 :: "nat \<Rightarrow> estate \<Rightarrow> estate" where
  "free0 p st = set_mem (fst (Free0 (es_mem st) p)) st"

section \<open>Lists of named values\<close>

text \<open>Entry \<open>i\<close> of a packed array of pairs at \<open>a\<close>, and the two fields of a \<^verbatim>\<open>struct_namelist\<close>.\<close>

definition nv_at :: "nat \<Rightarrow> int \<Rightarrow> nat" where "nv_at a i = adr_plus a (12 * i)"
definition nv_name :: "mem \<Rightarrow> nat \<Rightarrow> int \<Rightarrow> nat" where "nv_name m a i = get_ptr m (nv_at a i)"
definition nv_value :: "mem \<Rightarrow> nat \<Rightarrow> int \<Rightarrow> int" where "nv_value m a i = rd_sint m 4 (nv_at a i + 8)"
definition nl_no :: "mem \<Rightarrow> nat \<Rightarrow> int" where "nl_no m l = rd_sint m 4 l"
definition nl_list :: "mem \<Rightarrow> nat \<Rightarrow> nat" where "nl_list m l = get_ptr m (l + 4)"

text \<open>\<^verbatim>\<open>_get_namelist_no\<close>: the entries up to the one without a name.\<close>

partial_function (option) namelist_no_loop :: "mem \<Rightarrow> nat \<Rightarrow> int \<Rightarrow> int option" where
  "namelist_no_loop m a i = (if nv_name m a i \<noteq> 0 then namelist_no_loop m a (i + 1) else Some i)"

definition get_namelist_no :: "mem \<Rightarrow> nat \<Rightarrow> int option" where
  "get_namelist_no m a = (if a = 0 then Some (- EINVAL) else namelist_no_loop m a 0)"

fun value_loop :: "mem \<Rightarrow> nat \<Rightarrow> nat \<Rightarrow> int \<Rightarrow> nat \<Rightarrow> int option" where
  "value_loop m name a i 0 = Some 0"
| "value_loop m name a i (Suc k) =
     do { r \<leftarrow> Strcmp m (nv_name m a i) name;
          if r = 0 then Some (nv_value m a i) else value_loop m name a (i + 1) k }"

definition get_value_namelist :: "mem \<Rightarrow> nat \<Rightarrow> nat \<Rightarrow> int option" where
  "get_value_namelist m name l = value_loop m name (nl_list m l) 0 (nat (nl_no m l))"

fun strval_loop :: "mem \<Rightarrow> int \<Rightarrow> nat \<Rightarrow> int \<Rightarrow> nat \<Rightarrow> nat" where
  "strval_loop m v a i 0 = 0"
| "strval_loop m v a i (Suc k) = (if nv_value m a i = v then nv_name m a i else strval_loop m v a (i + 1) k)"

definition get_str_namelist :: "mem \<Rightarrow> int \<Rightarrow> nat \<Rightarrow> nat" where
  "get_str_namelist m v l = strval_loop m v (nl_list m l) 0 (nat (nl_no m l))"

text \<open>Entry \<open>k\<close> of the list \<open>l\<close> goes to entry \<open>i\<close> of the array \<open>buf\<close>: first the value, then the name.\<close>

definition nv_copy :: "mem \<Rightarrow> nat \<Rightarrow> int \<Rightarrow> nat \<Rightarrow> int \<Rightarrow> mem" where
  "nv_copy m buf i a k =
     (let m1 = wr_int m 4 (nv_at buf i + 8) (nv_value m a k)
      in put_ptr m1 (nv_at buf i) (nv_name m1 a k))"

fun nv_copies :: "mem \<Rightarrow> nat \<Rightarrow> nat \<Rightarrow> int \<Rightarrow> nat \<Rightarrow> mem" where
  "nv_copies m buf a i 0 = m"
| "nv_copies m buf a i (Suc k) = nv_copies (nv_copy m buf i a i) buf a (i + 1) k"

text \<open>The new list of \<open>elem_no\<close> entries copied from the array that \<open>src\<close> finds in the memory.\<close>

definition new_namelist :: "estate \<Rightarrow> (mem \<Rightarrow> nat) \<Rightarrow> int \<Rightarrow> estate \<times> nat option" where
  "new_namelist st src elem_no =
     (case dalloc0 12 0 st of
        (st1, None) \<Rightarrow> (st1, None)
      | (st1, Some p) \<Rightarrow>
          (case dalloc0 (12 * elem_no) (p + 4) st1 of
             (st2, None) \<Rightarrow> (set_mem (put_ptr (es_mem st2) (p + 4) 0) st2, None)
           | (st2, Some q) \<Rightarrow>
               let m1 = put_ptr (es_mem st2) (p + 4) q; m2 = wr_int m1 4 p elem_no
               in (set_mem (nv_copies m2 q (src m2) 0 (nat elem_no)) st2, Some p)))"

definition clone_namelist :: "estate \<Rightarrow> nat \<Rightarrow> estate \<times> nat option" where
  "clone_namelist st l = new_namelist st (\<lambda>m. nl_list m l) (nl_no (es_mem st) l)"

function merge_loop :: "nat \<Rightarrow> nat \<Rightarrow> nat \<Rightarrow> mem \<Rightarrow> int \<Rightarrow> int \<Rightarrow> int \<Rightarrow> int \<Rightarrow> mem \<times> int" where
  "merge_loop l1 l2 buf m i elem_no j k =
     (if i < elem_no then
        if j = nl_no m l1 then merge_loop l1 l2 buf (nv_copy m buf i (nl_list m l2) k) (i + 1) elem_no j (k + 1)
        else if k = nl_no m l2 then merge_loop l1 l2 buf (nv_copy m buf i (nl_list m l1) j) (i + 1) elem_no (j + 1) k
        else if nv_value m (nl_list m l1) j < nv_value m (nl_list m l2) k then
          merge_loop l1 l2 buf (nv_copy m buf i (nl_list m l1) j) (i + 1) elem_no (j + 1) k
        else if nv_value m (nl_list m l1) j > nv_value m (nl_list m l2) k then
          merge_loop l1 l2 buf (nv_copy m buf i (nl_list m l2) k) (i + 1) elem_no j (k + 1)
        else merge_loop l1 l2 buf (nv_copy m buf i (nl_list m l1) j) (i + 1) (elem_no - 1) (j + 1) (k + 1)
      else (m, elem_no))"
  by pat_completeness auto
termination by (relation "measure (\<lambda>(l1, l2, buf, m, i, elem_no, j, k). nat (elem_no - i))") auto

declare merge_loop.simps [simp del]

definition merge_namelist :: "estate \<Rightarrow> nat \<Rightarrow> nat \<Rightarrow> estate \<times> nat option" where
  "merge_namelist st l1 l2 =
     (let elem_no = nl_no (es_mem st) l1 + nl_no (es_mem st) l2
      in case talloc0 (12 * elem_no) st of
           (st1, None) \<Rightarrow> (st1, None)
         | (st1, Some buf) \<Rightarrow>
             let (m, n) = merge_loop l1 l2 buf (es_mem st1) 0 elem_no 0 0
             in case new_namelist (set_mem m st1) (\<lambda>_. buf) n of
                  (st2, None) \<Rightarrow> (st2, None)
                | (st2, Some p) \<Rightarrow> (free0 buf st2, Some p))"

section \<open>What the lists hold\<close>

definition nv_entry :: "mem \<Rightarrow> nat \<Rightarrow> int \<Rightarrow> nat \<times> int" where
  "nv_entry m a i = (nv_name m a i, nv_value m a i)"

definition nv_entries :: "mem \<Rightarrow> nat \<Rightarrow> nat \<Rightarrow> (nat \<times> int) list" where
  "nv_entries m a n = map (\<lambda>i. nv_entry m a (int i)) [0..<n]"

definition nl_entries :: "mem \<Rightarrow> nat \<Rightarrow> (nat \<times> int) list" where
  "nl_entries m l = nv_entries m (nl_list m l) (nat (nl_no m l))"

text \<open>The addresses a list occupies.\<close>

definition nl_addrs :: "mem \<Rightarrow> nat \<Rightarrow> nat set" where
  "nl_addrs m l = {l..<l + 12} \<union> {nl_list m l..<nl_list m l + 12 * nat (nl_no m l)}"

text \<open>The merge of two lists; of two entries with one value the first list's is kept.\<close>

fun merge_nv :: "('a \<times> int) list \<Rightarrow> ('a \<times> int) list \<Rightarrow> ('a \<times> int) list" where
  "merge_nv [] ys = ys"
| "merge_nv (x # xs) [] = x # xs"
| "merge_nv (x # xs) (y # ys) =
     (if snd x < snd y then x # merge_nv xs (y # ys)
      else if snd y < snd x then y # merge_nv (x # xs) ys
      else x # merge_nv xs ys)"

lemma merge_nv_Nil2 [simp]: "merge_nv xs [] = xs"
  by (cases xs) simp_all

lemma rd_sint_range: "0 < k \<Longrightarrow> - (2 ^ (8 * k - 1)) \<le> rd_sint m k a \<and> rd_sint m k a < 2 ^ (8 * k - 1)"
proof -
  assume "0 < k"
  then have "(2 :: int) ^ (8 * k) = 2 * 2 ^ (8 * k - 1)" by (simp flip: power_Suc)
  moreover have "0 \<le> (rd_uint m k a + 2 ^ (8 * k - 1)) mod 2 ^ (8 * k)"
    "(rd_uint m k a + 2 ^ (8 * k - 1)) mod 2 ^ (8 * k) < 2 ^ (8 * k)" by simp_all
  ultimately show ?thesis unfolding rd_sint_def by linarith
qed

lemma get_ptr_less: "get_ptr m a < 2 ^ 64"
proof -
  have "(\<Sum>i<n. unat (m (a + i)) * 256 ^ i) < 256 ^ n" for n
  proof (induction n)
    case (Suc n)
    have "unat (m (a + n)) \<le> 255" using unat_byte_less [of "m (a + n)"] by linarith
    then have "unat (m (a + n)) * 256 ^ n \<le> 255 * 256 ^ n" by (rule mult_right_mono) simp
    then have "(\<Sum>i<n. unat (m (a + i)) * 256 ^ i) + unat (m (a + n)) * 256 ^ n < 256 ^ n + 255 * 256 ^ n"
      using Suc by linarith
    then show ?case by simp
  qed simp
  from this [of 8] show ?thesis by (simp add: get_ptr_def)
qed

lemma rd_sint_cong: "(\<And>x. a \<le> x \<Longrightarrow> x < a + k \<Longrightarrow> m x = m' x) \<Longrightarrow> rd_sint m k a = rd_sint m' k a"
  using mem_bytes_cong [of a k m m'] by (simp add: rd_sint_def rd_uint_def)

lemma wr_int_outside: "x < a \<or> a + k \<le> x \<Longrightarrow> wr_int m k a v x = m x"
  by (auto simp: wr_int_def mem_write_apply)

lemma nv_at_nat [simp]: "0 \<le> i \<Longrightarrow> nv_at a i = a + 12 * nat i"
  by (simp add: nv_at_def adr_plus_def nat_add_distrib nat_mult_distrib)

lemma nv_entry_cong:
  assumes "\<And>x. nv_at a i \<le> x \<Longrightarrow> x < nv_at a i + 12 \<Longrightarrow> m x = m' x"
  shows "nv_entry m a i = nv_entry m' a i"
  unfolding nv_entry_def nv_name_def nv_value_def
  by (intro conjI prod_eqI; simp only: fst_conv snd_conv)
    (rule get_ptr_cong, use assms in simp, rule rd_sint_cong, use assms in simp)

lemma nv_copy_outside: "x < nv_at buf i \<or> nv_at buf i + 12 \<le> x \<Longrightarrow> nv_copy m buf i a k x = m x"
  by (auto simp: nv_copy_def Let_def put_ptr_outside wr_int_outside)

lemma nv_copy_entry:
  assumes "nv_at a k + 12 \<le> nv_at buf i \<or> nv_at buf i + 12 \<le> nv_at a k"
  shows "nv_entry (nv_copy m buf i a k) buf i = nv_entry m a k"
proof -
  let ?b = "nv_at buf i" let ?m1 = "wr_int m 4 (?b + 8) (nv_value m a k)"
  have n: "nv_name ?m1 a k = nv_name m a k"
    unfolding nv_name_def by (rule get_ptr_cong, rule wr_int_outside) (use assms in auto)
  have "get_ptr (put_ptr ?m1 ?b (nv_name m a k)) ?b = nv_name m a k"
    using get_ptr_less [of m "nv_at a k"] by (simp add: nv_name_def)
  moreover have "rd_sint (put_ptr ?m1 ?b (nv_name m a k)) 4 (?b + 8) = rd_sint ?m1 4 (?b + 8)"
    by (rule rd_sint_cong) (simp add: put_ptr_outside)
  moreover have "rd_sint ?m1 4 (?b + 8) = nv_value m a k"
    using rd_sint_range [of 4 m "nv_at a k + 8"] by (intro rd_sint_wr_int) (simp_all add: nv_value_def)
  ultimately show ?thesis
    by (simp add: nv_entry_def nv_copy_def n nv_name_def [of _ buf] nv_value_def [of _ buf])
qed

lemma length_nv_entries [simp]: "length (nv_entries m a n) = n"
  by (simp add: nv_entries_def)

lemma nth_nv_entries [simp]: "i < n \<Longrightarrow> nv_entries m a n ! i = nv_entry m a (int i)"
  by (simp add: nv_entries_def)

lemma nv_entries_Suc: "nv_entries m a (Suc n) = nv_entries m a n @ [nv_entry m a (int n)]"
  by (simp add: nv_entries_def)

lemma nv_entries_cong:
  "(\<And>x. a \<le> x \<Longrightarrow> x < a + 12 * n \<Longrightarrow> m x = m' x) \<Longrightarrow> nv_entries m a n = nv_entries m' a n"
  unfolding nv_entries_def by (auto intro!: nv_entry_cong)

text \<open>One round of a copy: the entry goes behind the \<open>i\<close> entries that are there.\<close>

lemma nv_copy_appends:
  assumes "nv_at a k + 12 \<le> nv_at buf (int i) \<or> nv_at buf (int i) + 12 \<le> nv_at a k"
  shows "nv_entries (nv_copy m buf (int i) a k) buf (Suc i) = nv_entries m buf i @ [nv_entry m a k]"
proof -
  have "nv_entries (nv_copy m buf (int i) a k) buf i = nv_entries m buf i"
    by (rule nv_entries_cong, rule nv_copy_outside) auto
  then show ?thesis using nv_copy_entry [OF assms] by (simp add: nv_entries_Suc)
qed

lemma nl_agree:
  assumes "\<forall>x\<in>nl_addrs m l. m' x = m x"
  shows "nl_no m' l = nl_no m l" "nl_list m' l = nl_list m l" "nl_entries m' l = nl_entries m l"
    and "0 \<le> i \<Longrightarrow> i < nl_no m l \<Longrightarrow> nv_entry m' (nl_list m l) i = nv_entry m (nl_list m l) i"
proof -
  show 1: "nl_no m' l = nl_no m l"
    unfolding nl_no_def by (rule rd_sint_cong) (use assms in \<open>auto simp: nl_addrs_def\<close>)
  show 2: "nl_list m' l = nl_list m l"
    unfolding nl_list_def by (rule get_ptr_cong) (use assms in \<open>auto simp: nl_addrs_def\<close>)
  show "nl_entries m' l = nl_entries m l"
    unfolding nl_entries_def 1 2 by (rule nv_entries_cong) (use assms in \<open>auto simp: nl_addrs_def\<close>)
  show "nv_entry m' (nl_list m l) i = nv_entry m (nl_list m l) i" if "0 \<le> i" "i < nl_no m l"
    by (rule nv_entry_cong, rule assms [rule_format]) (use that in \<open>auto simp: nl_addrs_def\<close>)
qed

section \<open>The merge\<close>

definition same_outside :: "nat set \<Rightarrow> mem \<Rightarrow> mem \<Rightarrow> bool" where
  "same_outside D m m' \<longleftrightarrow> (\<forall>x. x \<notin> D \<longrightarrow> m' x = m x)"

lemma same_outside_trans: "same_outside D m m' \<Longrightarrow> same_outside D m' m'' \<Longrightarrow> same_outside D m m''"
  by (simp add: same_outside_def)

lemma same_outside_mono: "same_outside D m m' \<Longrightarrow> D \<subseteq> E \<Longrightarrow> same_outside E m m'"
  by (auto simp: same_outside_def)

lemma nl_same_outside:
  assumes "same_outside D m m'" "nl_addrs m l \<inter> D = {}"
  shows "nl_no m' l = nl_no m l" "nl_list m' l = nl_list m l" "nl_entries m' l = nl_entries m l"
    and "0 \<le> i \<Longrightarrow> i < nl_no m l \<Longrightarrow> nv_entry m' (nl_list m l) i = nv_entry m (nl_list m l) i"
proof -
  have eq: "\<forall>x\<in>nl_addrs m l. m' x = m x" using assms by (auto simp: same_outside_def)
  note * = nl_agree [where m' = m' and m = m and l = l, OF eq]
  show "nl_no m' l = nl_no m l" "nl_list m' l = nl_list m l" "nl_entries m' l = nl_entries m l" using * by simp_all
  show "nv_entry m' (nl_list m l) i = nv_entry m (nl_list m l) i" if "0 \<le> i" "i < nl_no m l"
    using *(4) that .
qed

text \<open>A round that copies entry \<open>j\<close> of the list \<open>l\<close>, which does not touch the array \<open>buf\<close> of \<open>n\<close> entries.\<close>

lemma merge_copy:
  assumes "same_outside {buf..<buf + 12 * n} m0 m" "nl_addrs m0 l \<inter> {buf..<buf + 12 * n} = {}"
    and "j < nat (nl_no m0 l)" "i < n"
  shows "same_outside {buf..<buf + 12 * n} m0 (nv_copy m buf (int i) (nl_list m l) (int j))"
    and "nv_entries (nv_copy m buf (int i) (nl_list m l) (int j)) buf (Suc i)
           = nv_entries m buf i @ [nl_entries m0 l ! j]"
    and "nv_value m (nl_list m l) (int j) = snd (nl_entries m0 l ! j)"
proof -
  note same = nl_same_outside [OF assms(1,2)]
  let ?a = "nl_list m0 l" let ?D = "{buf..<buf + 12 * n}"
  show "same_outside ?D m0 (nv_copy m buf (int i) (nl_list m l) (int j))"
  proof (unfold same_outside_def, intro allI impI)
    fix x assume "x \<notin> ?D"
    then have "m x = m0 x" "x < buf + 12 * i \<or> buf + 12 * i + 12 \<le> x"
      using assms(1,4) by (auto simp: same_outside_def)
    then show "nv_copy m buf (int i) (nl_list m l) (int j) x = m0 x" by (simp add: nv_copy_outside)
  qed
  have e: "nv_entry m ?a (int j) = nl_entries m0 l ! j"
    using same(4) [of "int j"] assms(3) by (simp add: nl_entries_def)
  then show "nv_value m (nl_list m l) (int j) = snd (nl_entries m0 l ! j)"
    unfolding same by (metis nv_entry_def snd_conv)
  have "?a + 12 * j + 12 \<le> buf + 12 * i \<or> buf + 12 * i + 12 \<le> ?a + 12 * j"
  proof (rule ccontr)
    assume "\<not> ?thesis"
    then have "max (?a + 12 * j) (buf + 12 * i) \<in> nl_addrs m0 l \<inter> ?D"
      using assms(3,4) by (auto simp: nl_addrs_def max_def)
    then show False using assms(2) by blast
  qed
  then show "nv_entries (nv_copy m buf (int i) (nl_list m l) (int j)) buf (Suc i)
      = nv_entries m buf i @ [nl_entries m0 l ! j]"
    unfolding same using nv_copy_appends [of ?a "int j" buf i m] e by simp
qed

lemma merge_loop_entries:
  fixes i j k :: nat
  assumes "same_outside {buf..<buf + 12 * n} m0 m" "n = length xs + length ys"
    and "nl_addrs m0 l1 \<inter> {buf..<buf + 12 * n} = {}" "nl_addrs m0 l2 \<inter> {buf..<buf + 12 * n} = {}"
    and "0 \<le> nl_no m0 l1" "0 \<le> nl_no m0 l2" "xs = nl_entries m0 l1" "ys = nl_entries m0 l2"
    and "j \<le> length xs" "k \<le> length ys" "i \<le> j + k" "e = int i + int (length xs - j) + int (length ys - k)"
  shows "\<exists>m'. merge_loop l1 l2 buf m (int i) e (int j) (int k)
           = (m', int i + int (length (merge_nv (drop j xs) (drop k ys))))
         \<and> same_outside {buf..<buf + 12 * n} m0 m'
         \<and> nv_entries m' buf (i + length (merge_nv (drop j xs) (drop k ys)))
             = nv_entries m buf i @ merge_nv (drop j xs) (drop k ys)"
  using assms(1,9-)
proof (induction "(length xs - j) + (length ys - k)" arbitrary: m i e j k rule: less_induct)
  case less
  note n1 = assms(5,7) and n2 = assms(6,8)
  have no: "nl_no m l1 = int (length xs)" "nl_no m l2 = int (length ys)"
    using nl_same_outside(1) [OF less.prems(1) assms(3)] nl_same_outside(1) [OF less.prems(1) assms(4)] n1 n2
    by (simp_all add: nl_entries_def)
  have j1: "int (Suc j) = int j + 1" "int (Suc k) = int k + 1" "int (Suc i) = int i + 1" for j k i by simp_all
  note step = merge_loop.simps [of l1 l2 buf m "int i" e "int j" "int k"]
  show ?case
  proof (cases "j = length xs \<and> k = length ys")
    case True
    then show ?thesis using less.prems step by simp
  next
    case False
    then have lt: "int i < e" "i < n" using less.prems assms(2) by auto
    let ?dx = "drop j xs" let ?dy = "drop k ys"
    have c1: "j < length xs \<Longrightarrow> ?dx = xs ! j # drop (Suc j) xs" by (simp add: Cons_nth_drop_Suc)
    have c2: "k < length ys \<Longrightarrow> ?dy = ys ! k # drop (Suc k) ys" by (simp add: Cons_nth_drop_Suc)
    have mc1: "j < length xs \<Longrightarrow> j < nat (nl_no m0 l1)" using n1 by (simp add: nl_entries_def)
    have mc2: "k < length ys \<Longrightarrow> k < nat (nl_no m0 l2)" using n2 by (simp add: nl_entries_def)
    note l1 = merge_copy [OF less.prems(1) assms(3) mc1 lt(2), folded n1(2)]
    note l2 = merge_copy [OF less.prems(1) assms(4) mc2 lt(2), folded n2(2)]
    let ?m1 = "nv_copy m buf (int i) (nl_list m l1) (int j)" let ?m2 = "nv_copy m buf (int i) (nl_list m l2) (int k)"
    have first: ?thesis
      if "j < length xs" "merge_loop l1 l2 buf m (int i) e (int j) (int k)
          = merge_loop l1 l2 buf ?m1 (int (Suc i)) e (int (Suc j)) (int k)"
        "merge_nv ?dx ?dy = xs ! j # merge_nv (drop (Suc j) xs) ?dy"
    proof -
      have d: "length xs - Suc j + (length ys - k) < length xs - j + (length ys - k)" using that(1) by linarith
      have p: "(Suc j) \<le> length xs" "k \<le> length ys" "Suc i \<le> Suc j + k"
        "e = int (Suc i) + int (length xs - (Suc j)) + int (length ys - k)" using that(1) less.prems by auto
      show ?thesis using less.hyps [OF d l1(1) [OF that(1)] p]
        unfolding that(2,3) l1(2) [OF that(1)] by (simp add: ac_simps)
    qed
    have second: ?thesis
      if "k < length ys" "merge_loop l1 l2 buf m (int i) e (int j) (int k)
          = merge_loop l1 l2 buf ?m2 (int (Suc i)) e (int j) (int (Suc k))"
        "merge_nv ?dx ?dy = ys ! k # merge_nv ?dx (drop (Suc k) ys)"
    proof -
      have d: "length xs - j + (length ys - Suc k) < length xs - j + (length ys - k)" using that(1) by linarith
      have p: "j \<le> length xs" "Suc k \<le> length ys" "Suc i \<le> j + Suc k"
        "e = int (Suc i) + int (length xs - j) + int (length ys - (Suc k))" using that(1) less.prems by auto
      show ?thesis using less.hyps [OF d l2(1) [OF that(1)] p]
        unfolding that(2,3) l2(2) [OF that(1)] by (simp add: ac_simps)
    qed
    have both: ?thesis
      if "j < length xs" "k < length ys" "merge_loop l1 l2 buf m (int i) e (int j) (int k)
          = merge_loop l1 l2 buf ?m1 (int (Suc i)) (e - 1) (int (Suc j)) (int (Suc k))"
        "merge_nv ?dx ?dy = xs ! j # merge_nv (drop (Suc j) xs) (drop (Suc k) ys)"
    proof -
      have d: "length xs - Suc j + (length ys - Suc k) < length xs - j + (length ys - k)" using that(1,2) by linarith
      have p: "(Suc j) \<le> length xs" "Suc k \<le> length ys" "Suc i \<le> Suc j + Suc k"
        "e - 1 = int (Suc i) + int (length xs - (Suc j)) + int (length ys - (Suc k))" using that(1,2) less.prems by auto
      show ?thesis using less.hyps [OF d l1(1) [OF that(1)] p]
        unfolding that(3,4) l1(2) [OF that(1)] by (simp add: ac_simps)
    qed
    consider "j = length xs" | "j < length xs" "k = length ys" | "j < length xs" "k < length ys"
      using less.prems by linarith
    then show ?thesis
    proof cases
      case 1
      then show ?thesis using False less.prems lt c2 step no by (intro second) (auto simp: add.commute)
    next
      case 2
      then show ?thesis using lt c1 step no by (intro first) (auto simp: add.commute)
    next
      case 3
      consider "snd (xs ! j) < snd (ys ! k)" | "snd (ys ! k) < snd (xs ! j)" | "snd (xs ! j) = snd (ys ! k)"
        by linarith
      then show ?thesis
      proof cases
        case 1
        then show ?thesis using 3 lt c1 c2 step no l1(3) l2(3) by (intro first) (auto simp: add.commute)
      next
        case 2
        then show ?thesis using 3 lt c1 c2 step no l1(3) l2(3) by (intro second) (auto simp: add.commute)
      next
        case 3
        then show ?thesis using \<open>j < length xs\<close> \<open>k < length ys\<close> lt c1 c2 step no l1(3) l2(3)
          by (intro both) (auto simp: add.commute)
      qed
    qed
  qed
qed

lemma nv_copies_entries:
  assumes "same_outside {q..<q + 12 * n} m0 m" "{a..<a + 12 * n} \<inter> {q..<q + 12 * n} = {}" "i + k = n"
    and "nv_entries m q i = nv_entries m0 a i"
  shows "same_outside {q..<q + 12 * n} m0 (nv_copies m q a (int i) k)
       \<and> nv_entries (nv_copies m q a (int i) k) q n = nv_entries m0 a n"
  using assms
proof (induction k arbitrary: m i)
  case (Suc k)
  let ?m = "nv_copy m q (int i) a (int i)"
  have apart: "a + 12 * i + 12 \<le> q + 12 * i \<or> q + 12 * i + 12 \<le> a + 12 * i"
  proof (rule ccontr)
    assume "\<not> ?thesis"
    then have "max (a + 12 * i) (q + 12 * i) \<in> {a..<a + 12 * n} \<inter> {q..<q + 12 * n}"
      using Suc.prems(3) by (auto simp: max_def)
    then show False using Suc.prems(2) by blast
  qed
  have "nv_entry m a (int i) = nv_entry m0 a (int i)"
  proof (rule nv_entry_cong)
    fix x assume "nv_at a (int i) \<le> x" "x < nv_at a (int i) + 12"
    then have "x \<in> {a..<a + 12 * n}" using Suc.prems(3) by auto
    then have "x \<notin> {q..<q + 12 * n}" using Suc.prems(2) by blast
    then show "m x = m0 x" using Suc.prems(1) by (simp add: same_outside_def)
  qed
  then have "nv_entries ?m q (Suc i) = nv_entries m0 a (Suc i)"
    using nv_copy_appends [of a "int i" q i m] apart Suc.prems(4) by (simp add: nv_entries_Suc)
  moreover have "same_outside {q..<q + 12 * n} m0 ?m"
    unfolding same_outside_def
  proof (intro allI impI)
    fix x assume "x \<notin> {q..<q + 12 * n}"
    then have "x < q + 12 * i \<or> q + 12 * i + 12 \<le> x" "m x = m0 x"
      using Suc.prems(1,3) by (auto simp: same_outside_def)
    then show "?m x = m0 x" by (simp add: nv_copy_outside)
  qed
  ultimately show ?case using Suc.IH [of ?m "Suc i"] Suc.prems(2,3) by (simp add: add.commute)
qed simp

lemma same_outside_write:
  "same_outside {a..<a + 8} m (put_ptr m a p)" "same_outside {b..<b + k} m (wr_int m k b v)"
  by (auto simp: same_outside_def put_ptr_outside wr_int_outside)

lemma dalloc0_outside:
  assumes "es_malloc st (es_calls st) = Some b"
  shows "\<exists>m. dalloc0 sz base st = (st\<lparr>es_mem := m, es_calls := es_calls st + 1\<rparr>, Some (b + 12))
      \<and> same_outside {b..<b + 12 + nat sz} (es_mem st) m"
proof -
  let ?m = "fst (Dalloc0 (es_mem st) (Some b) sz base)"
  have "dalloc0 sz base st = (st\<lparr>es_mem := ?m, es_calls := es_calls st + 1\<rparr>, Some (b + 12))"
    unfolding dalloc0_def assms by (subst Dalloc0_Some(1)) simp
  moreover have "same_outside {b..<b + 12 + nat sz} (es_mem st) ?m"
    using Dalloc0_Some(2) by (simp add: same_outside_def)
  ultimately show ?thesis by blast
qed

lemma new_namelist_result:
  assumes "es_malloc st (es_calls st) = Some b1" "es_malloc st (Suc (es_calls st)) = Some b2"
    and "{b1..<b1 + 24} \<inter> {b2..<b2 + 12 + 12 * n} = {}" "{a..<a + 12 * n} \<inter> {b1..<b1 + 24} = {}"
    and "{a..<a + 12 * n} \<inter> {b2..<b2 + 12 + 12 * n} = {}" "b2 + 12 < 2 ^ 64" "n < 2 ^ 31"
    and src: "\<And>m'. same_outside ({b1..<b1 + 24} \<union> {b2..<b2 + 12 + 12 * n}) (es_mem st) m' \<Longrightarrow> src m' = a"
  shows "\<exists>m. new_namelist st src (int n) = (st\<lparr>es_mem := m, es_calls := es_calls st + 2\<rparr>, Some (b1 + 12))
      \<and> same_outside ({b1..<b1 + 24} \<union> {b2..<b2 + 12 + 12 * n}) (es_mem st) m
      \<and> nl_no m (b1 + 12) = int n \<and> nl_list m (b1 + 12) = b2 + 12
      \<and> nl_entries m (b1 + 12) = nv_entries (es_mem st) a n"
proof -
  let ?B1 = "{b1..<b1 + 24}" let ?B2 = "{b2..<b2 + 12 + 12 * n}" let ?B = "?B1 \<union> ?B2"
  obtain m1 where m1: "dalloc0 12 0 st = (st\<lparr>es_mem := m1, es_calls := es_calls st + 1\<rparr>, Some (b1 + 12))"
    "same_outside ?B1 (es_mem st) m1"
    using dalloc0_outside [OF assms(1), of 12 0] by (auto simp: add.commute)
  obtain m2 where m2: "dalloc0 (12 * int n) (b1 + 16) (st\<lparr>es_mem := m1, es_calls := es_calls st + 1\<rparr>)
      = (st\<lparr>es_mem := m2, es_calls := es_calls st + 2\<rparr>, Some (b2 + 12))" "same_outside ?B2 m1 m2"
    using dalloc0_outside [of "st\<lparr>es_mem := m1, es_calls := es_calls st + 1\<rparr>" b2 "12 * int n" "b1 + 16"] assms(2)
    by (auto simp: nat_mult_distrib)
  let ?m3 = "put_ptr m2 (b1 + 16) (b2 + 12)" let ?m4 = "wr_int ?m3 4 (b1 + 12) (int n)"
  have s3: "same_outside ?B1 m2 ?m4"
    by (rule same_outside_trans [of _ _ ?m3]; rule same_outside_mono [OF same_outside_write(1)]
        same_outside_mono [OF same_outside_write(2)]) auto
  have s4: "same_outside ?B (es_mem st) ?m4"
    using m1(2) m2(2) s3 by (auto simp: same_outside_def)
  have a: "nv_entries ?m4 a n = nv_entries (es_mem st) a n"
    by (rule nv_entries_cong) (use s4 assms(4,5) in \<open>auto simp: same_outside_def disjoint_iff\<close>)
  let ?q = "b2 + 12" let ?m5 = "nv_copies ?m4 ?q a 0 n"
  have "{a..<a + 12 * n} \<inter> {?q..<?q + 12 * n} = {}" using assms(5) by auto
  then have m5: "same_outside {?q..<?q + 12 * n} ?m4 ?m5" "nv_entries ?m5 ?q n = nv_entries ?m4 a n"
    using nv_copies_entries [of ?q n ?m4 ?m4 a 0 n] by (simp_all add: same_outside_def nv_entries_def)
  have keep: "?m5 x = ?m4 x" if "x \<in> ?B1" for x
    using m5(1) that assms(3) by (auto simp: same_outside_def)
  have no: "nl_no ?m5 (b1 + 12) = int n"
  proof -
    have "rd_sint ?m5 4 (b1 + 12) = rd_sint ?m4 4 (b1 + 12)" by (rule rd_sint_cong, rule keep) auto
    then show ?thesis using rd_sint_wr_int [of 4 "int n"] assms(7) by (simp add: nl_no_def)
  qed
  have ls: "nl_list ?m5 (b1 + 12) = ?q"
  proof -
    have "get_ptr ?m5 (b1 + 16) = get_ptr ?m3 (b1 + 16)"
      by (rule get_ptr_cong, subst keep) (auto simp: wr_int_outside)
    then show ?thesis using assms(6) by (simp add: nl_list_def add.commute)
  qed
  have "same_outside ?B (es_mem st) ?m5"
    by (rule same_outside_trans [OF s4], rule same_outside_mono [OF m5(1)]) auto
  moreover have "new_namelist st src (int n) = (st\<lparr>es_mem := ?m5, es_calls := es_calls st + 2\<rparr>, Some (b1 + 12))"
    unfolding new_namelist_def m1(1) using m2(1) src [OF s4] by (simp add: Let_def add.commute)
  ultimately show ?thesis using m5(2) a no ls by (intro exI [of _ ?m5]) (simp add: nl_entries_def)
qed

lemma talloc0_outside:
  assumes "es_malloc st (es_calls st) = Some b" "0 \<le> sz" "sz < 2 ^ 28"
  shows "\<exists>m. talloc0 sz st = (st\<lparr>es_mem := m, es_calls := es_calls st + 1\<rparr>, Some (b + 4))
      \<and> same_outside {b..<b + 4 + nat sz} (es_mem st) m \<and> Pointer_Size m (b + 4) = word_of_int sz"
proof -
  let ?m1 = "put32 (es_mem st) b (word_of_int sz)" let ?m2 = "put32 ?m1 b (get32 ?m1 b OR push_bit 28 ALLOC_TEMP)"
  let ?m = "fst (Memset ?m2 (b + 4) 0 sz)"
  have "talloc0 sz st = (st\<lparr>es_mem := ?m, es_calls := es_calls st + 1\<rparr>, Some (b + 4))"
    by (simp add: alloc_with_def assms(1) Talloc0_def Talloc_def Let_def)
  moreover have "same_outside {b..<b + 4 + nat sz} (es_mem st) ?m"
    by (auto simp: same_outside_def Memset_def memset_loop_write mem_write_apply put32_outside)
  moreover have "Pointer_Size ?m (b + 4) = word_of_int sz"
    using tagged_desc(2) [OF assms(2,3), of ALLOC_TEMP]
    by (simp add: Pointer_Size_def Pointer_Desc_def Memset_keeps_header)
  ultimately show ?thesis by blast
qed

lemma free0_outside:
  assumes "Pointer_Size (es_mem st) p = word_of_int sz" "0 \<le> sz" "sz < 2 ^ 28"
  shows "\<exists>m. free0 p st = st\<lparr>es_mem := m\<rparr> \<and> same_outside {p..<p + nat sz} (es_mem st) m"
proof -
  have "uint (word_of_int sz :: u32) = sz" using assms(2,3) by (simp add: uint_word_of_int_eq take_bit_int_eq_self)
  then show ?thesis
    by (auto simp: free0_def Free0_def Let_def assms(1) same_outside_def Memset_def memset_loop_write mem_write_apply)
qed

lemma merge_nv_values: "snd ` set (merge_nv xs ys) = snd ` set xs \<union> snd ` set ys"
  by (induction xs ys rule: merge_nv.induct) (auto simp: image_iff)

lemma merge_nv_sorted:
  "sorted_wrt (<) (map snd xs) \<Longrightarrow> sorted_wrt (<) (map snd ys) \<Longrightarrow> sorted_wrt (<) (map snd (merge_nv xs ys))"
proof (induction xs ys rule: merge_nv.induct)
  case (3 x xs y ys)
  have v: "\<forall>v \<in> snd ` set (merge_nv a b). w < v" if "\<forall>v \<in> snd ` set a. w < v" "\<forall>v \<in> snd ` set b. w < v"
    for w :: int and a b :: "('a \<times> int) list" using that by (simp only: merge_nv_values) blast
  have x: "\<forall>v \<in> snd ` set xs. snd x < v" and y: "\<forall>v \<in> snd ` set ys. snd y < v" using "3.prems" by auto
  consider "snd x < snd y" | "snd y < snd x" | "snd x = snd y" by linarith
  then show ?case
  proof cases
    case 1
    moreover have "\<forall>v \<in> snd ` set (merge_nv xs (y # ys)). snd x < v" using 1 x y by (intro v) auto
    ultimately show ?thesis using 3 by simp
  next
    case 2
    moreover have "\<forall>v \<in> snd ` set (merge_nv (x # xs) ys). snd y < v" using 2 x y by (intro v) auto
    ultimately show ?thesis using 3 by simp
  next
    case 3
    moreover have "\<forall>v \<in> snd ` set (merge_nv xs ys). snd x < v" using 3 x y by (intro v) auto
    ultimately show ?thesis using "3.IH" "3.prems" by simp
  qed
qed simp_all

lemma merge_nv_set:
  "sorted_wrt (<) (map snd xs) \<Longrightarrow> sorted_wrt (<) (map snd ys) \<Longrightarrow>
   set (merge_nv xs ys) = set xs \<union> {y \<in> set ys. snd y \<notin> snd ` set xs}"
  by (induction xs ys rule: merge_nv.induct) (auto simp: image_iff)

lemma length_merge_nv: "length (merge_nv xs ys) \<le> length xs + length ys"
  by (induction xs ys rule: merge_nv.induct) auto

definition merge_blocks :: "estate \<Rightarrow> nat \<Rightarrow> nat \<Rightarrow> nat \<Rightarrow> nat \<Rightarrow> nat \<Rightarrow> nat \<Rightarrow> bool" where
  "merge_blocks st l1 l2 n b0 b1 b2 \<longleftrightarrow>
     es_malloc st (es_calls st) = Some b0 \<and> es_malloc st (es_calls st + 1) = Some b1
     \<and> es_malloc st (es_calls st + 2) = Some b2 \<and> b2 + 12 < 2 ^ 64
     \<and> (let L = nl_addrs (es_mem st) l1 \<union> nl_addrs (es_mem st) l2; B0 = {b0..<b0 + 4 + 12 * n};
            B1 = {b1..<b1 + 24}; B2 = {b2..<b2 + 12 + 12 * n}
        in L \<inter> B0 = {} \<and> L \<inter> B1 = {} \<and> L \<inter> B2 = {} \<and> B0 \<inter> B1 = {} \<and> B0 \<inter> B2 = {} \<and> B1 \<inter> B2 = {})"

lemma merge_namelist_result:
  fixes n :: nat
  assumes "0 \<le> nl_no (es_mem st) l1" "0 \<le> nl_no (es_mem st) l2"
    and n: "int n = nl_no (es_mem st) l1 + nl_no (es_mem st) l2" "12 * n < 2 ^ 28"
    and blocks: "merge_blocks st l1 l2 n b0 b1 b2"
  defines "xs \<equiv> nl_entries (es_mem st) l1" and "ys \<equiv> nl_entries (es_mem st) l2"
  shows "\<exists>st'. merge_namelist st l1 l2 = (st', Some (b1 + 12)) \<and> nl_entries (es_mem st') (b1 + 12) = merge_nv xs ys
      \<and> nl_entries (es_mem st') l1 = xs \<and> nl_entries (es_mem st') l2 = ys"
proof -
  let ?m0 = "es_mem st" let ?buf = "b0 + 4" let ?r = "merge_nv xs ys" let ?k = "length ?r"
  let ?B0 = "{b0..<b0 + 4 + 12 * n}" let ?B1 = "{b1..<b1 + 24}" let ?B2 = "{b2..<b2 + 12 + 12 * n}"
  have len: "length xs + length ys = n" using assms(1-3) by (simp add: xs_def ys_def nl_entries_def)
  then have k: "?k \<le> n" using length_merge_nv [of xs ys] by simp
  note bl = blocks [unfolded merge_blocks_def Let_def]
  from bl obtain m1 where m1: "talloc0 (12 * int n) st = (st\<lparr>es_mem := m1, es_calls := es_calls st + 1\<rparr>, Some ?buf)"
    "same_outside ?B0 ?m0 m1" "Pointer_Size m1 ?buf = word_of_int (12 * int n)"
    using talloc0_outside [of st b0 "12 * int n"] n(2) by (auto simp: nat_mult_distrib)
  have L: "nl_addrs ?m0 l1 \<inter> ?B0 = {}" "nl_addrs ?m0 l2 \<inter> ?B0 = {}" using bl by blast+
  note same1 = nl_same_outside [OF m1(2) L(1)] and same2 = nl_same_outside [OF m1(2) L(2)]
  have ad: "nl_addrs m1 l1 = nl_addrs ?m0 l1" "nl_addrs m1 l2 = nl_addrs ?m0 l2"
    by (simp_all add: nl_addrs_def same1 same2)
  obtain m2 where m2: "merge_loop l1 l2 ?buf m1 0 (int n) 0 0 = (m2, int ?k)"
    "same_outside {?buf..<?buf + 12 * n} m1 m2" "nv_entries m2 ?buf ?k = ?r"
  proof -
    have "\<exists>m'. merge_loop l1 l2 ?buf m1 (int 0) (int n) (int 0) (int 0)
           = (m', int 0 + int (length (merge_nv (drop 0 xs) (drop 0 ys))))
         \<and> same_outside {?buf..<?buf + 12 * n} m1 m'
         \<and> nv_entries m' ?buf (0 + length (merge_nv (drop 0 xs) (drop 0 ys)))
             = nv_entries m1 ?buf 0 @ merge_nv (drop 0 xs) (drop 0 ys)"
      by (rule merge_loop_entries)
        (use len L assms(1,2) in \<open>auto simp: same_outside_def ad same1 same2 xs_def ys_def\<close>)
    then show ?thesis using that by (auto simp: nv_entries_def)
  qed
  let ?st2 = "st\<lparr>es_mem := m2, es_calls := es_calls st + 1\<rparr>"
  have "\<exists>m. new_namelist ?st2 (\<lambda>_. ?buf) (int ?k) = (?st2\<lparr>es_mem := m, es_calls := es_calls ?st2 + 2\<rparr>, Some (b1 + 12))
      \<and> same_outside ({b1..<b1 + 24} \<union> {b2..<b2 + 12 + 12 * ?k}) (es_mem ?st2) m
      \<and> nl_no m (b1 + 12) = int ?k \<and> nl_list m (b1 + 12) = b2 + 12
      \<and> nl_entries m (b1 + 12) = nv_entries (es_mem ?st2) ?buf ?k"
  proof (rule new_namelist_result)
    show "{b1..<b1 + 24} \<inter> {b2..<b2 + 12 + 12 * ?k} = {}" using bl k by auto
    show "{?buf..<?buf + 12 * ?k} \<inter> {b1..<b1 + 24} = {}" using bl k by (auto simp: disjoint_iff)
    show "{?buf..<?buf + 12 * ?k} \<inter> {b2..<b2 + 12 + 12 * ?k} = {}" using bl k by (auto simp: disjoint_iff)
  qed (use bl k n in auto)
  then obtain m3 where m3: "new_namelist ?st2 (\<lambda>_. ?buf) (int ?k) = (st\<lparr>es_mem := m3, es_calls := es_calls st + 3\<rparr>, Some (b1 + 12))"
    "same_outside (?B1 \<union> {b2..<b2 + 12 + 12 * ?k}) m2 m3" "nl_no m3 (b1 + 12) = int ?k" "nl_list m3 (b1 + 12) = b2 + 12"
    "nl_entries m3 (b1 + 12) = ?r"
    using m2(3) by (auto simp: numeral_3_eq_3)
  let ?st3 = "st\<lparr>es_mem := m3, es_calls := es_calls st + 3\<rparr>"
  have s3: "same_outside (?B1 \<union> ?B2) m2 m3" by (rule same_outside_mono [OF m3(2)]) (use k in auto)
  have hd: "m3 x = m1 x" if "b0 \<le> x" "x < b0 + 4" for x
  proof -
    have "x \<notin> ?B1" "x \<notin> ?B2" using that bl by (auto simp: disjoint_iff)
    then show ?thesis using that m2(2) s3 by (simp add: same_outside_def)
  qed
  have "Pointer_Size m3 ?buf = word_of_int (12 * int n)"
    using m1(3) get32_cong [of b0 m3 m1, OF hd] by (simp add: Pointer_Size_def Pointer_Desc_def)
  then obtain m4 where m4: "free0 ?buf ?st3 = set_mem m4 ?st3" "same_outside {?buf..<?buf + 12 * n} m3 m4"
    using free0_outside [of ?st3 ?buf "12 * int n"] n(2)
    by (auto simp: nat_mult_distrib)
  have all: "same_outside (?B0 \<union> ?B1 \<union> ?B2) ?m0 m4"
    using m1(2) m2(2) s3 m4(2) by (auto simp: same_outside_def)
  have e: "nl_entries m4 (b1 + 12) = ?r"
  proof -
    have "nl_addrs m3 (b1 + 12) \<inter> {?buf..<?buf + 12 * n} = {}"
      using bl k by (auto simp: nl_addrs_def m3(3,4) disjoint_iff)
    then show ?thesis using nl_same_outside(3) [OF m4(2)] m3(5) by simp
  qed
  have sw: "set_mem m (st\<lparr>es_calls := c\<rparr>) = st\<lparr>es_mem := m, es_calls := c\<rparr>" for m c by simp
  have "merge_namelist st l1 l2 = (set_mem m4 ?st3, Some (b1 + 12))"
    unfolding merge_namelist_def using m1(1) m2(1) m3(1) m4(1) n(1) by (simp add: Let_def sw)
  moreover have "nl_entries m4 l1 = xs" "nl_entries m4 l2 = ys"
    using nl_same_outside(3) [OF all, of l1] nl_same_outside(3) [OF all, of l2] bl unfolding xs_def ys_def by blast+
  ultimately show ?thesis using e by simp
qed

text \<open>(C20) Merging two name lists that are sorted by value, each value once, gives a new list that is again
  sorted with each value once. It holds every entry of the first list and the entries of the
  second whose value the first lacks, and nothing else; both arguments keep their entries.\<close>

theorem merge_namelist_correct:
  fixes n :: nat
  assumes "0 \<le> nl_no (es_mem st) l1" "0 \<le> nl_no (es_mem st) l2"
    and "int n = nl_no (es_mem st) l1 + nl_no (es_mem st) l2" "12 * n < 2 ^ 28"
    and "merge_blocks st l1 l2 n b0 b1 b2"
    and "sorted_wrt (<) (map snd (nl_entries (es_mem st) l1))" "sorted_wrt (<) (map snd (nl_entries (es_mem st) l2))"
  shows "\<exists>st' p. merge_namelist st l1 l2 = (st', Some p)
      \<and> sorted_wrt (<) (map snd (nl_entries (es_mem st') p))
      \<and> set (nl_entries (es_mem st') p) = set (nl_entries (es_mem st) l1)
          \<union> {e \<in> set (nl_entries (es_mem st) l2). snd e \<notin> snd ` set (nl_entries (es_mem st) l1)}
      \<and> nl_entries (es_mem st') l1 = nl_entries (es_mem st) l1 \<and> nl_entries (es_mem st') l2 = nl_entries (es_mem st) l2"
  using merge_namelist_result [OF assms(1-5)] merge_nv_sorted [OF assms(6,7)] merge_nv_set [OF assms(6,7)] by auto

text \<open>Two lists of two entries that share the value 3, at 100 and 200 with their arrays at 112 and 212.\<close>

definition lists_example :: estate where
  "lists_example = \<lparr>es_node = (\<lambda>_. empty_snode), es_next = 0,
     es_mem = (\<lambda>_. 0)(100 := 2, 104 := 112, 112 := 50, 120 := 1, 124 := 51, 132 := 3,
                       200 := 2, 204 := 212, 212 := 60, 220 := 2, 224 := 61, 232 := 3),
     es_malloc = (\<lambda>i. Some (1000 + 100 * i)), es_calls = 0, es_stack = 5000\<rparr>"

lemma ivl_below: "b \<le> c \<Longrightarrow> {a..<b} \<inter> {c..<d} = {}" for a :: nat
  by auto

lemma get_ptr_bytes:
  "get_ptr m a = unat (m a) + 256 * unat (m (a + 1)) + 256 ^ 2 * unat (m (a + 2)) + 256 ^ 3 * unat (m (a + 3))
     + 256 ^ 4 * unat (m (a + 4)) + 256 ^ 5 * unat (m (a + 5)) + 256 ^ 6 * unat (m (a + 6)) + 256 ^ 7 * unat (m (a + 7))"
proof -
  have "{..<8 :: nat} = {0, 1, 2, 3, 4, 5, 6, 7}" by auto
  then show ?thesis by (simp add: get_ptr_def)
qed

lemma rd_uint_4:
  "rd_uint m 4 a = uint (m a) + 256 * (uint (m (a + 1)) + 256 * (uint (m (a + 2)) + 256 * uint (m (a + 3))))"
  by (simp add: rd_uint_def mem_bytes_def eval_nat_numeral)

lemma lists_example_lists:
  "nl_no (es_mem lists_example) 100 = 2" "nl_list (es_mem lists_example) 100 = 112"
  "nl_no (es_mem lists_example) 200 = 2" "nl_list (es_mem lists_example) 200 = 212"
  by (simp_all add: nl_no_def nl_list_def lists_example_def rd_sint_def rd_uint_4 get_ptr_bytes fun_upd_apply)

lemma lists_example_entries:
  "nl_entries (es_mem lists_example) 100 = [(50, 1), (51, 3)]" "nl_entries (es_mem lists_example) 200 = [(60, 2), (61, 3)]"
  unfolding nl_entries_def lists_example_lists
  by (simp_all add: nv_entries_def upt_rec nv_entry_def nv_name_def nv_value_def lists_example_def rd_sint_def rd_uint_4
      get_ptr_bytes fun_upd_apply)

theorem merge_namelist_correct_witness:
  "\<exists>st' p. merge_namelist lists_example 100 200 = (st', Some p)
     \<and> sorted_wrt (<) (map snd (nl_entries (es_mem st') p))
     \<and> set (nl_entries (es_mem st') p) = {(50, 1), (51, 3), (60, 2)}
     \<and> nl_entries (es_mem st') 100 = [(50, 1), (51, 3)] \<and> nl_entries (es_mem st') 200 = [(60, 2), (61, 3)]"
proof -
  have "es_malloc lists_example = (\<lambda>i. Some (1000 + 100 * i))" "es_calls lists_example = 0"
    by (simp_all add: lists_example_def)
  then have "merge_blocks lists_example 100 200 4 1000 1100 1200"
    unfolding merge_blocks_def nl_addrs_def lists_example_lists Let_def
    by (intro conjI) (simp_all add: Int_Un_distrib2 ivl_below)
  then have "\<exists>st' p. merge_namelist lists_example 100 200 = (st', Some p)
      \<and> sorted_wrt (<) (map snd (nl_entries (es_mem st') p))
      \<and> set (nl_entries (es_mem st') p) = set (nl_entries (es_mem lists_example) 100)
          \<union> {e \<in> set (nl_entries (es_mem lists_example) 200). snd e \<notin> snd ` set (nl_entries (es_mem lists_example) 100)}
      \<and> nl_entries (es_mem st') 100 = nl_entries (es_mem lists_example) 100
      \<and> nl_entries (es_mem st') 200 = nl_entries (es_mem lists_example) 200"
    by (intro merge_namelist_correct [of lists_example 100 200 4 1000 1100 1200]) (simp_all add: lists_example_lists lists_example_entries)
  moreover have "set [(50, 1), (51, 3)] \<union> {e \<in> set [(60, 2), (61, 3)]. snd e \<notin> snd ` set [(50, 1), (51, 3)]}
      = {(50, 1), (51, 3), (60 :: nat, 2 :: int)}" by auto
  ultimately show ?thesis unfolding lists_example_entries by simp
qed

end
