(* ===== verification/Cube_Memdb.thy ===== *)
theory Cube_Memdb
  imports Cube_Memdb_Names Cube_Hashlist Cube_SM3
begin

text \<open>
  The in-memory database, \<^verbatim>\<open>cubelib/memdb/memdb_init.c\<close>: databases of records found by a digest of their indexed
  elements or by name, the descriptions and templates built from stored records, and the text forms
  of record types (\<^verbatim>\<open>type_subtype_ops.c\<close>). A \<^verbatim>\<open>DB_RECORD\<close> lies in the byte memory: uuid at 0, name at 32, type at
  64, subtype at 68, number of names at 72, pointers to the other names at 80 and to the data at 88; its
  tail, which may be a description or a template, is kept by record address. A database
  is known by the address of its \<^verbatim>\<open>memdb_desc\<close>, whose uuid lies there in the memory. Where the
  code follows \<^verbatim>\<open>NULL\<close>, indexes past an array or takes one structure for another there is no result.
\<close>

section \<open>Data\<close>

datatype tail_func = NoTail | NamelistTail | StructDescTail | TypelistTail | SubtypelistTail | RecordtypeTail

datatype db_tail = TailNull | TailMem nat | TailDesc "elem_attr list" | TailTemplate nat

record memdb_desc =
  md_type :: int
  md_subtype :: int
  md_template :: "nat option"
  md_tail_func :: tail_func
  md_record_db :: "nat option"
  md_record_no :: int

text \<open>
  The state of the database: \<open>db_hash\<close> gives the hash lists by address, whose nodes are in \<open>db_heap\<close> and whose
  records are in the memory of \<open>db_es\<close>; \<open>db_base\<close> is the address of \<^verbatim>\<open>memdb_base\<close>; \<open>db_sm3\<close> is the
  digest context as it lies on the stack before its initialisation.
\<close>

record dbstate =
  db_es :: estate
  db_heap :: "nat lheap"
  db_hash :: "nat \<Rightarrow> hashlist"
  db_desc :: "nat \<Rightarrow> memdb_desc"
  db_tail :: "nat \<Rightarrow> db_tail"
  db_static :: "nat option list"
  db_dynamic :: "nat option"
  db_base :: nat
  db_head_template :: "nat option"
  db_elem_template :: "nat option"
  db_sm3 :: sm3_context_ext

abbreviation db_mem :: "dbstate \<Rightarrow> mem" where "db_mem st \<equiv> es_mem (db_es st)"

abbreviation set_es :: "estate \<Rightarrow> dbstate \<Rightarrow> dbstate" where "set_es es st \<equiv> st\<lparr>db_es := es\<rparr>"

abbreviation set_dbmem :: "mem \<Rightarrow> dbstate \<Rightarrow> dbstate" where "set_dbmem m st \<equiv> st\<lparr>db_es := (db_es st)\<lparr>es_mem := m\<rparr>\<rparr>"

definition rec_type :: "mem \<Rightarrow> nat \<Rightarrow> int" where "rec_type m r = rd_sint m 4 (r + 64)"
definition rec_subtype :: "mem \<Rightarrow> nat \<Rightarrow> int" where "rec_subtype m r = rd_sint m 4 (r + 68)"
definition rec_name_no :: "mem \<Rightarrow> nat \<Rightarrow> int" where "rec_name_no m r = rd_sint m 4 (r + 72)"
definition rec_names :: "mem \<Rightarrow> nat \<Rightarrow> nat" where "rec_names m r = get_ptr m (r + 80)"
definition rec_data :: "mem \<Rightarrow> nat \<Rightarrow> nat" where "rec_data m r = get_ptr m (r + 88)"

abbreviation (input) DB_NAMELIST :: int where "DB_NAMELIST \<equiv> 2"
abbreviation (input) DB_STRUCT_DESC :: int where "DB_STRUCT_DESC \<equiv> 3"
abbreviation (input) DB_TYPELIST :: int where "DB_TYPELIST \<equiv> 4"
abbreviation (input) DB_SUBTYPELIST :: int where "DB_SUBTYPELIST \<equiv> 5"
abbreviation (input) DB_RECORDTYPE :: int where "DB_RECORDTYPE \<equiv> 7"
abbreviation (input) DB_BASEEND :: int where "DB_BASEEND \<equiv> 0x10"
abbreviation (input) DB_DTYPE_START :: int where "DB_DTYPE_START \<equiv> 0x100"
abbreviation (input) CUBE_ELEM_FLAG_INDEX :: u32 where "CUBE_ELEM_FLAG_INDEX \<equiv> 1"

section \<open>The names of a record\<close>

text \<open>The first name stands in the head; a search answers 1 for it and \<open>i + 2\<close> for name \<open>i\<close> of the list.\<close>

definition listed_names :: "mem \<Rightarrow> nat \<Rightarrow> int" where
  "listed_names m r = (if m (r + 32) \<noteq> 0 then rec_name_no m r - 1 else rec_name_no m r)"

fun find_name_loop :: "mem \<Rightarrow> nat \<Rightarrow> nat \<Rightarrow> nat \<Rightarrow> nat \<Rightarrow> int" where
  "find_name_loop m names name i 0 = 0"
| "find_name_loop m names name i (Suc k) =
     (if Strncmp m (get_ptr m (names + 8 * i)) name 32 = 0 then int i + 2
      else find_name_loop m names name (i + 1) k)"

definition memdb_record_find_name :: "mem \<Rightarrow> nat \<Rightarrow> nat \<Rightarrow> int" where
  "memdb_record_find_name m r name =
     (if Strncmp m (r + 32) name 32 = 0 then 1
      else if rec_names m r = 0 then 0
      else if listed_names m r < 1 then 0
      else find_name_loop m (rec_names m r) name 0 (nat (listed_names m r)))"

definition memdb_record_add_name :: "estate \<Rightarrow> nat \<Rightarrow> nat \<Rightarrow> (estate \<times> int) option" where
  "memdb_record_add_name st r name =
     (if name = 0 then Some (st, 0)
      else if memdb_record_find_name (es_mem st) r name > 0 then Some (st, 0)
      else
        let n = int (Strnlen (es_mem st) name 32)
        in case dalloc0 (if n < 32 then n + 1 else n) r st of
             (st1, None) \<Rightarrow> Some (st1, - ENOMEM)
           | (st1, Some new_name) \<Rightarrow>
               do { (m1, _) \<leftarrow> Strncpy (es_mem st1) new_name name 32;
                    if rec_names m1 r = 0 then
                      (case dalloc0 8 r (set_mem (wr_int m1 4 (r + 72) (if m1 (r + 32) = 0 then 0 else 1)) st1) of
                         (st2, None) \<Rightarrow> Some (set_mem (put_ptr (es_mem st2) (r + 80) 0) st2, - ENOMEM)
                       | (st2, Some arr) \<Rightarrow>
                           let m2 = put_ptr (put_ptr (es_mem st2) (r + 80) arr) arr new_name
                           in Some (set_mem (wr_int m2 4 (r + 72) (rec_name_no m2 r + 1)) st2, 2))
                    else
                      let m2 = wr_int m1 4 (r + 72) (rec_name_no m1 r + 1); no = listed_names m2 r
                      in case dalloc0 (8 * no) r (set_mem m2 st1) of
                           (st2, None) \<Rightarrow> Some (st2, - ENOMEM)
                         | (st2, Some arr) \<Rightarrow>
                             let names = rec_names (es_mem st2) r;
                                 m3 = mcpy (es_mem st2) arr names (8 * (no - 1));
                                 m4 = put_ptr m3 (adr_plus arr (8 * (no - 1))) new_name;
                                 st3 = free0 names (set_mem m4 st2)
                             in Some (set_mem (put_ptr (es_mem st3) (r + 80) arr) st3, no + 2) })"

section \<open>Finding a database\<close>

text \<open>The hash list at \<open>h\<close> with the heap and the memory of the state, and the state after an operation on it.\<close>

definition hash_view :: "dbstate \<Rightarrow> nat \<Rightarrow> hashlist" where
  "hash_view st h = (db_hash st h)\<lparr>hl_heap := db_heap st, hl_mem := db_mem st\<rparr>"

definition hash_put :: "dbstate \<Rightarrow> nat \<Rightarrow> hashlist \<Rightarrow> dbstate" where
  "hash_put st h hl = set_dbmem (hl_mem hl) (st\<lparr>db_hash := (db_hash st)(h := hl), db_heap := hl_heap hl\<rparr>)"

text \<open>A database as a caller gets it: \<^verbatim>\<open>NULL\<close>, a \<^verbatim>\<open>memdb_desc\<close>, or the hash list of the dynamic databases itself.\<close>

datatype db_ref = DbNull | DbDesc nat | DbDynamic

partial_function (option) bytype_loop ::
  "(nat \<Rightarrow> memdb_desc) \<Rightarrow> hashlist \<Rightarrow> int \<Rightarrow> int \<Rightarrow> nat \<times> nat option \<Rightarrow> nat option \<Rightarrow> db_ref option" where
  "bytype_loop descs hl type subtype cur r =
     (case r of
        None \<Rightarrow> Some DbNull
      | Some d \<Rightarrow>
          if md_type (descs d) = type \<and> md_subtype (descs d) = subtype then Some (DbDesc d)
          else bytype_loop descs hl type subtype (fst (hashlist_get_next_parall hl (fst cur) (snd cur)))
                 (snd (hashlist_get_next_parall hl (fst cur) (snd cur))))"

definition get_dynamic_db_bytype :: "dbstate \<Rightarrow> int \<Rightarrow> int \<Rightarrow> db_ref option" where
  "get_dynamic_db_bytype st type subtype =
     (case db_dynamic st of
        None \<Rightarrow> None
      | Some h \<Rightarrow>
          let hl = hash_view st h
          in bytype_loop (db_desc st) hl type subtype (fst (hashlist_get_first_parall hl)) (snd (hashlist_get_first_parall hl)))"

text \<open>The array of static databases has \<^verbatim>\<open>DB_BASEEND+1\<close> entries, but any type below \<^verbatim>\<open>DB_DTYPE_START\<close> indexes it.\<close>

definition memdb_get_dblist :: "dbstate \<Rightarrow> int \<Rightarrow> int \<Rightarrow> db_ref option" where
  "memdb_get_dblist st type subtype =
     (if type < 0 then Some DbNull
      else if type < DB_DTYPE_START then
        (if nat type < length (db_static st)
         then Some (case db_static st ! nat type of None \<Rightarrow> DbNull | Some d \<Rightarrow> DbDesc d)
         else None)
      else if type = DB_DTYPE_START then Some (case db_dynamic st of None \<Rightarrow> DbNull | Some h \<Rightarrow> DbDynamic)
      else get_dynamic_db_bytype st type subtype)"

text \<open>\<open>with_db\<close> runs an operation on the hash list of a database; \<open>z\<close> is the answer where there is no database.\<close>

definition with_db ::
  "dbstate \<Rightarrow> int \<Rightarrow> int \<Rightarrow> 'a \<Rightarrow> (nat \<Rightarrow> nat \<Rightarrow> (dbstate \<times> 'a) option) \<Rightarrow> (dbstate \<times> 'a) option" where
  "with_db st type subtype z f =
     do { ref \<leftarrow> memdb_get_dblist st type subtype;
          case ref of
            DbNull \<Rightarrow> Some (st, z)
          | DbDynamic \<Rightarrow> None
          | DbDesc d \<Rightarrow> do { h \<leftarrow> md_record_db (db_desc st d); f d h } }"

definition memdb_get_first :: "dbstate \<Rightarrow> int \<Rightarrow> int \<Rightarrow> (dbstate \<times> nat option) option" where
  "memdb_get_first st type subtype =
     with_db st type subtype None
       (\<lambda>d h. let (hl, r) = hashlist_get_first (hash_view st h) in Some (hash_put st h hl, r))"

definition memdb_get_next :: "dbstate \<Rightarrow> int \<Rightarrow> int \<Rightarrow> (dbstate \<times> nat option) option" where
  "memdb_get_next st type subtype =
     with_db st type subtype None
       (\<lambda>d h. let (hl, r) = hashlist_get_next (hash_view st h) in Some (hash_put st h hl, r))"

definition memdb_get_first_record :: "dbstate \<Rightarrow> int \<Rightarrow> int \<Rightarrow> (dbstate \<times> nat option) option" where
  "memdb_get_first_record st type subtype =
     map_option (\<lambda>(st1, r). (st1, map_option (rec_data (db_mem st1)) r)) (memdb_get_first st type subtype)"

definition memdb_get_next_record :: "dbstate \<Rightarrow> int \<Rightarrow> int \<Rightarrow> (dbstate \<times> nat option) option" where
  "memdb_get_next_record st type subtype =
     map_option (\<lambda>(st1, r). (st1, map_option (rec_data (db_mem st1)) r)) (memdb_get_next st type subtype)"

definition memdb_find :: "dbstate \<Rightarrow> nat \<Rightarrow> int \<Rightarrow> int \<Rightarrow> (dbstate \<times> nat option) option" where
  "memdb_find st data type subtype =
     with_db st type subtype None
       (\<lambda>d h. map_option (\<lambda>r. (st, r)) (hashlist_find_elem (hash_view st h) data))"

text \<open>The search that walks a database with its cursor: the first record with \<open>test\<close>, which may stop the search.\<close>

partial_function (option) db_search ::
  "(dbstate \<Rightarrow> nat \<Rightarrow> (dbstate \<times> int) option) \<Rightarrow> int \<Rightarrow> int \<Rightarrow> dbstate \<Rightarrow> nat option \<Rightarrow> (dbstate \<times> nat option) option" where
  "db_search test type subtype st r =
     (case r of
        None \<Rightarrow> Some (st, None)
      | Some a \<Rightarrow>
          Option.bind (test st a) (\<lambda>(st1, ret).
            if ret < 0 then Some (st1, None)
            else if ret > 0 then Some (st1, Some a)
            else Option.bind (memdb_get_next st1 type subtype) (\<lambda>(st2, r2). db_search test type subtype st2 r2)))"

definition db_walk ::
  "(dbstate \<Rightarrow> nat \<Rightarrow> (dbstate \<times> int) option) \<Rightarrow> int \<Rightarrow> int \<Rightarrow> dbstate \<Rightarrow> (dbstate \<times> nat option) option" where
  "db_walk test type subtype st =
     do { (st1, r) \<leftarrow> memdb_get_first st type subtype; db_search test type subtype st1 r }"

definition memdb_find_byname :: "dbstate \<Rightarrow> nat \<Rightarrow> int \<Rightarrow> int \<Rightarrow> (dbstate \<times> nat option) option" where
  "memdb_find_byname st name type subtype =
     db_walk (\<lambda>st1 r. Some (st1, memdb_record_find_name (db_mem st1) r name)) type subtype st"

definition memdb_get_recordtype :: "dbstate \<Rightarrow> int \<Rightarrow> int \<Rightarrow> (dbstate \<times> nat option) option" where
  "memdb_get_recordtype st type subtype =
     db_walk (\<lambda>st1 r. let d = rec_data (db_mem st1) r
                      in Some (st1, if rd_sint (db_mem st1) 4 d = type \<and> rd_sint (db_mem st1) 4 (d + 4) = subtype
                                    then 1 else 0)) DB_RECORDTYPE 0 st"

text \<open>The result is the root of the template; a tail that is not a template has no result.\<close>

definition tail_template :: "db_tail \<Rightarrow> nat option option" where
  "tail_template t = (case t of TailTemplate n \<Rightarrow> Some (Some n) | TailNull \<Rightarrow> Some None | _ \<Rightarrow> None)"

definition memdb_get_template :: "dbstate \<Rightarrow> int \<Rightarrow> int \<Rightarrow> (dbstate \<times> nat option) option" where
  "memdb_get_template st type subtype =
     (if type \<le> 0 then Some (st, None)
      else if type < DB_BASEEND then
        do { ref \<leftarrow> memdb_get_dblist st type subtype;
             case ref of DbDesc d \<Rightarrow> Some (st, md_template (db_desc st d)) | _ \<Rightarrow> None }
      else
        do { (st1, r) \<leftarrow> memdb_get_recordtype st type subtype;
             case r of
               None \<Rightarrow> Some (st1, None)
             | Some a \<Rightarrow> map_option (\<lambda>t. (st1, t)) (tail_template (db_tail st1 a)) })"

definition clone_at :: "dbstate \<Rightarrow> nat option \<Rightarrow> (dbstate \<times> nat option) option" where
  "clone_at st t =
     do { n \<leftarrow> t; (es, c) \<leftarrow> clone_struct_template (db_es st) n; Some (set_es es st, c) }"

definition memdb_clone_template :: "dbstate \<Rightarrow> int \<Rightarrow> int \<Rightarrow> (dbstate \<times> nat option) option" where
  "memdb_clone_template st type subtype =
     (if type \<le> 0 then Some (st, None)
      else if type < DB_BASEEND then
        do { ref \<leftarrow> memdb_get_dblist st type subtype;
             case ref of DbDesc d \<Rightarrow> clone_at st (md_template (db_desc st d)) | _ \<Rightarrow> None }
      else
        do { (st1, r) \<leftarrow> memdb_get_recordtype st type subtype;
             case r of
               None \<Rightarrow> Some (st1, None)
             | Some a \<Rightarrow> do { t \<leftarrow> tail_template (db_tail st1 a); clone_at st1 t } })"

definition memdb_find_first :: "dbstate \<Rightarrow> int \<Rightarrow> int \<Rightarrow> byte list \<Rightarrow> nat \<Rightarrow> (dbstate \<times> nat option) option" where
  "memdb_find_first st type subtype elem_name v =
     do { (st1, t) \<leftarrow> memdb_get_template st type subtype;
          case t of
            None \<Rightarrow> Some (st1, None)
          | Some n \<Rightarrow>
              db_walk (\<lambda>st2 r. map_option (\<lambda>(es, ret). (set_es es st2, ret))
                                 (struct_comp_elem_value (db_es st2) elem_name (rec_data (db_mem st2) r) v n))
                type subtype st1 }"

definition memdb_find_recordtype :: "dbstate \<Rightarrow> int \<Rightarrow> int \<Rightarrow> int option" where
  "memdb_find_recordtype st type subtype =
     map_option (\<lambda>ref. if ref = DbNull then 0 else 1) (memdb_get_dblist st type subtype)"

definition memdb_get_subtypelist :: "dbstate \<Rightarrow> int \<Rightarrow> (dbstate \<times> db_tail) option" where
  "memdb_get_subtypelist st type =
     map_option (\<lambda>(st1, r). (st1, case r of None \<Rightarrow> TailNull | Some a \<Rightarrow> db_tail st1 a))
       (db_walk (\<lambda>st1 r. Some (st1, if rd_sint (db_mem st1) 4 (rec_data (db_mem st1) r) = type then 1 else 0))
          DB_SUBTYPELIST 0 st)"

section \<open>Record types as text\<close>

text \<open>Searches of an array of named values: up to an entry without name, or over \<open>k\<close> entries.\<close>

partial_function (option) enum_find_value :: "mem \<Rightarrow> nat \<Rightarrow> int \<Rightarrow> int \<Rightarrow> nat option option" where
  "enum_find_value m a v i =
     (if nv_name m a i = 0 then Some None
      else if nv_value m a i = v then Some (Some (nv_name m a i))
      else enum_find_value m a v (i + 1))"

partial_function (option) enum_find_name :: "mem \<Rightarrow> nat \<Rightarrow> nat \<Rightarrow> int \<Rightarrow> int option option" where
  "enum_find_name m a name i =
     (if nv_name m a i = 0 then Some None
      else Option.bind (Strcmp m (nv_name m a i) name) (\<lambda>r.
             if r = 0 then Some (Some (nv_value m a i)) else enum_find_name m a name (i + 1)))"

fun list_find_value :: "mem \<Rightarrow> nat \<Rightarrow> int \<Rightarrow> int \<Rightarrow> nat \<Rightarrow> nat option" where
  "list_find_value m a v i 0 = None"
| "list_find_value m a v i (Suc k) =
     (if nv_value m a i = v then Some (nv_name m a i) else list_find_value m a v (i + 1) k)"

fun list_find_name :: "mem \<Rightarrow> nat \<Rightarrow> nat \<Rightarrow> int \<Rightarrow> nat \<Rightarrow> int option option" where
  "list_find_name m a name i 0 = Some None"
| "list_find_name m a name i (Suc k) =
     do { r \<leftarrow> Strcmp m (nv_name m a i) name;
          if r = 0 then Some (Some (nv_value m a i)) else list_find_name m a name (i + 1) k }"

definition put_name :: "dbstate \<Rightarrow> nat \<Rightarrow> nat \<Rightarrow> (dbstate \<times> int) option" where
  "put_name st txt name =
     map_option (\<lambda>len. (set_dbmem (mcpy (db_mem st) txt name (int len + 1)) st, int len + 1)) (Strlen (db_mem st) name)"

definition put_null :: "dbstate \<Rightarrow> nat \<Rightarrow> dbstate \<times> int" where
  "put_null st txt = (set_dbmem (mem_write (db_mem st) txt (nulstring @ [0])) st, 5)"

definition is_null_text :: "mem \<Rightarrow> nat \<Rightarrow> bool" where
  "is_null_text m txt \<longleftrightarrow> mem_bytes m txt 5 = nulstring @ [0]"

definition wr_dbint :: "dbstate \<Rightarrow> nat \<Rightarrow> int \<Rightarrow> dbstate" where
  "wr_dbint st addr v = set_dbmem (wr_int (db_mem st) 4 addr v) st"

definition named_text :: "dbstate \<Rightarrow> nat \<Rightarrow> int \<Rightarrow> nat option \<Rightarrow> (dbstate \<times> int) option" where
  "named_text st txt v found =
     (case found of
        Some name \<Rightarrow> put_name st txt name
      | None \<Rightarrow> Some (if v = 0 then put_null st txt else (st, - EINVAL)))"

definition named_value :: "dbstate \<Rightarrow> nat \<Rightarrow> int option \<Rightarrow> dbstate \<times> int" where
  "named_value st addr found =
     (case found of Some v \<Rightarrow> (wr_dbint st addr v, v) | None \<Rightarrow> (st, - EINVAL))"

definition elemenumlist :: "dbstate \<Rightarrow> nat" where "elemenumlist st = get_ptr (db_mem st) (db_base st + 16)"
definition typeenumlist :: "dbstate \<Rightarrow> nat" where "typeenumlist st = get_ptr (db_mem st) (db_base st + 24)"

definition enumtype_get_text_value :: "dbstate \<Rightarrow> nat \<Rightarrow> nat \<Rightarrow> (dbstate \<times> int) option" where
  "enumtype_get_text_value st addr txt =
     (let m = db_mem st; l = elemenumlist st; v = rd_sint m 4 addr
      in if l = 0 \<or> nl_list m l = 0 \<or> v < 0 then Some (st, - EINVAL)
         else do { found \<leftarrow> enum_find_value m (nl_list m l) v 0; named_text st txt v found })"

definition enumtype_set_text_value :: "dbstate \<Rightarrow> nat \<Rightarrow> nat \<Rightarrow> (dbstate \<times> int) option" where
  "enumtype_set_text_value st addr txt =
     (let m = db_mem st; l = elemenumlist st
      in if l = 0 \<or> nl_list m l = 0 then Some (st, - EINVAL)
         else if is_null_text m txt then Some (wr_dbint st addr 0, 0)
         else do { found \<leftarrow> enum_find_name m (nl_list m l) txt 0; Some (named_value st addr found) })"

definition recordtype_get_text_value :: "dbstate \<Rightarrow> nat \<Rightarrow> nat \<Rightarrow> (dbstate \<times> int) option" where
  "recordtype_get_text_value st addr txt =
     (let m = db_mem st; l = typeenumlist st; v = rd_sint m 4 addr
      in if l = 0 \<or> nl_list m l = 0 \<or> v < 0 then Some (st, - EINVAL)
         else named_text st txt v (list_find_value m (nl_list m l) v 0 (nat (nl_no m l))))"

definition recordtype_set_text_value :: "dbstate \<Rightarrow> nat \<Rightarrow> nat \<Rightarrow> (dbstate \<times> int) option" where
  "recordtype_set_text_value st addr txt =
     (let m = db_mem st; l = typeenumlist st
      in if l = 0 \<or> nl_list m l = 0 then Some (st, - EINVAL)
         else if is_null_text m txt then Some (wr_dbint st addr 0, 0)
         else do { found \<leftarrow> list_find_name m (nl_list m l) txt 0 (nat (nl_no m l));
                   Some (named_value st addr found) })"

text \<open>The type of a subtype element stands in the index of its template element.\<close>

definition subtype_get_text_value :: "dbstate \<Rightarrow> nat \<Rightarrow> nat \<Rightarrow> eid \<Rightarrow> (dbstate \<times> int) option" where
  "subtype_get_text_value st addr txt e =
     (let v = rd_sint (db_mem st) 4 addr; ty = et_index (el (db_es st) e)
      in if v = 0 then Some (put_null st txt)
         else if ty < 0 then Some (st, - EINVAL)
         else
           do { (st1, t) \<leftarrow> memdb_get_subtypelist st ty;
                case t of
                  TailNull \<Rightarrow>
                    (let (m, len) = Itoa (db_mem st1) v txt in Some (set_dbmem m st1, int len))
                | TailMem l \<Rightarrow>
                    (case list_find_value (db_mem st1) (nl_list (db_mem st1) l) v 0 (nat (nl_no (db_mem st1) l)) of
                       None \<Rightarrow> Some (st1, - EINVAL)
                     | Some name \<Rightarrow> put_name st1 txt name)
                | _ \<Rightarrow> None })"

definition subtype_set_text_value :: "dbstate \<Rightarrow> nat \<Rightarrow> nat \<Rightarrow> eid \<Rightarrow> (dbstate \<times> int) option" where
  "subtype_set_text_value st addr txt e =
     (let ty = et_index (el (db_es st) e)
      in if is_null_text (db_mem st) txt then Some (wr_dbint st addr 0, 0)
         else if ty < 0 then Some (st, - EINVAL)
         else
           do { (st1, t) \<leftarrow> memdb_get_subtypelist st ty;
                case t of
                  TailNull \<Rightarrow> Some (st1, - EINVAL)
                | TailMem l \<Rightarrow>
                    (if nl_list (db_mem st1) l = 0 then
                       (let v = Atoi (db_mem st1) txt 32 in Some (if v < 0 then (st1, v) else (wr_dbint st1 addr v, v)))
                     else do { found \<leftarrow> list_find_name (db_mem st1) (nl_list (db_mem st1) l) txt 0 (nat (nl_no (db_mem st1) l));
                               Some (named_value st1 addr found) })
                | _ \<Rightarrow> None })"

text \<open>Types and subtypes by name and back; a list that is missing is an error code, also as a string.\<close>

definition memdb_get_typeno :: "dbstate \<Rightarrow> nat \<Rightarrow> int option" where
  "memdb_get_typeno st name =
     (if typeenumlist st = 0 then Some (- EINVAL) else get_value_namelist (db_mem st) name (typeenumlist st))"

definition memdb_get_typestr :: "dbstate \<Rightarrow> int \<Rightarrow> nat" where
  "memdb_get_typestr st no =
     (if typeenumlist st = 0 then 2 ^ 64 - 22 else get_str_namelist (db_mem st) no (typeenumlist st))"

definition memdb_get_subtypeno :: "dbstate \<Rightarrow> int \<Rightarrow> nat \<Rightarrow> (dbstate \<times> int) option" where
  "memdb_get_subtypeno st no name =
     do { (st1, t) \<leftarrow> memdb_get_subtypelist st no;
          case t of
            TailNull \<Rightarrow> Some (st1, - EINVAL)
          | TailMem l \<Rightarrow> map_option (\<lambda>v. (st1, v)) (get_value_namelist (db_mem st1) name l)
          | _ \<Rightarrow> None }"

definition memdb_get_subtypestr :: "dbstate \<Rightarrow> int \<Rightarrow> int \<Rightarrow> (dbstate \<times> nat) option" where
  "memdb_get_subtypestr st no subno =
     do { (st1, t) \<leftarrow> memdb_get_subtypelist st no;
          case t of
            TailNull \<Rightarrow> Some (st1, 2 ^ 64 - 22)
          | TailMem l \<Rightarrow> Some (st1, get_str_namelist (db_mem st1) subno l)
          | _ \<Rightarrow> None }"

section \<open>Tails\<close>

definition elem_type_of :: "int \<Rightarrow> elem_type option" where
  "elem_type_of c =
     map_of (zip ([1..34] @ [0x60, 0x61, 0x62, 0x80, 0x100])
       [CUBE_TYPE_STRING, CUBE_TYPE_UUID, CUBE_TYPE_INT, CUBE_TYPE_ENUM, CUBE_TYPE_SENUM, CUBE_TYPE_BENUM, CUBE_TYPE_FLAG,
        CUBE_TYPE_SFLAG, CUBE_TYPE_BFLAG, CUBE_TYPE_TIME, CUBE_TYPE_UCHAR, CUBE_TYPE_USHORT, CUBE_TYPE_LONGLONG,
        CUBE_TYPE_BINDATA, CUBE_TYPE_BITMAP, CUBE_TYPE_HEXDATA, CUBE_TYPE_BINARRAY, CUBE_TYPE_UUIDARRAY,
        CUBE_TYPE_DEFUUIDARRAY, CUBE_TYPE_DEFNAMELIST, CUBE_TYPE_BOOL, CUBE_TYPE_ESTRING, CUBE_TYPE_JSONSTRING,
        CUBE_TYPE_NODATA, CUBE_TYPE_ARRAY, CUBE_TYPE_DEFARRAY, CUBE_TYPE_DEFINE, CUBE_TYPE_DEFSTR, CUBE_TYPE_DEFSTRARRAY,
        CUBE_TYPE_SUBSTRUCT, CUBE_TYPE_CHOICE, TPM_TYPE_UINT64, TPM_TYPE_UINT32, TPM_TYPE_UINT16, CUBE_TYPE_ELEMTYPE,
        CUBE_TYPE_RECORDTYPE, CUBE_TYPE_RECORDSUBTYPE, CUBE_TYPE_USERDEF, CUBE_TYPE_ENDDATA]) c"

definition set_tail :: "nat \<Rightarrow> db_tail \<Rightarrow> dbstate \<Rightarrow> dbstate" where
  "set_tail r t st = st\<lparr>db_tail := (db_tail st)(r := t)\<rparr>"

definition namelist_tail_func :: "dbstate \<Rightarrow> nat \<Rightarrow> dbstate \<times> int" where
  "namelist_tail_func st r =
     (let l = rec_data (db_mem st) r; no = nl_no (db_mem st) l
      in case dalloc0 (12 * (no + 1)) r (db_es st) of
           (es, None) \<Rightarrow> (set_es es st, - ENOMEM)
         | (es, Some p) \<Rightarrow>
             (set_tail r (TailMem p) (set_es (set_mem (mcpy (es_mem es) p (nl_list (es_mem es) l) (12 * no)) es) st), 0))"

text \<open>The named values of an array that ends with an entry without name.\<close>

partial_function (option) names_at :: "mem \<Rightarrow> nat \<Rightarrow> int \<Rightarrow> (byte list \<times> int) list option" where
  "names_at m a i =
     (if nv_name m a i = 0 then Some []
      else Option.bind (cstring m (nv_name m a i)) (\<lambda>s.
             Option.bind (names_at m a (i + 1)) (\<lambda>xs. Some ((s, nv_value m a i) # xs))))"

text \<open>A description refers to the descriptions and the name lists in the tails of other records; \<open>Some RefNull\<close> is \<^verbatim>\<open>NULL\<close>.\<close>

definition tail_ref :: "mem \<Rightarrow> db_tail \<Rightarrow> attr_ref option" where
  "tail_ref m t =
     (case t of
        TailNull \<Rightarrow> Some RefNull
      | TailDesc ds \<Rightarrow> Some (RefStruct ds)
      | TailMem a \<Rightarrow> map_option RefNames (names_at m a 0)
      | TailTemplate n \<Rightarrow> None)"

text \<open>
  One element of \<^verbatim>\<open>_struct_octet_to_attr\<close>, from the \<^verbatim>\<open>elem_attr_octet\<close> at \<open>oc\<close>: the name at 0, the type at 8, the
  size at 12, the reference at 16, its name at 48 and the defining element at 80. The name of the
  reference is an array, never \<^verbatim>\<open>NULL\<close>, so a sub-structure is always found by name. The
  answer is \<^verbatim>\<open>NULL\<close> where the reference is missing; a code that names no element type has no result.
\<close>

definition octet_to_attr :: "dbstate \<Rightarrow> nat \<Rightarrow> (dbstate \<times> elem_attr option) option" where
  "octet_to_attr st oc =
     do { let m = db_mem st;
          name \<leftarrow> (if get_ptr m oc = 0 then Some None else map_option Some (cstring m (get_ptr m oc)));
          ty \<leftarrow> elem_type_of (rd_sint m 4 (oc + 8));
          def \<leftarrow> (if m (oc + 80) = 0 then Some None else map_option Some (cstring m (oc + 80)));
          let attr = (\<lambda>r d. ELEM_ATTR name ty (rd_sint m 4 (oc + 12)) r d);
          if issubsetelem ty then
            do { (st1, c) \<leftarrow> memdb_find_byname st (oc + 48) DB_STRUCT_DESC 0;
                 (es, p) \<leftarrow> (if ty = CUBE_TYPE_SUBSTRUCT then dup_str (db_es st1) (oc + 48) 0 else Some (db_es st1, None));
                 d \<leftarrow> (if ty \<noteq> CUBE_TYPE_SUBSTRUCT then Some def
                      else case p of None \<Rightarrow> Some None | Some a \<Rightarrow> map_option Some (cstring (es_mem es) a));
                 case c of
                   None \<Rightarrow> Some (set_es es st1, None)
                 | Some r \<Rightarrow>
                     do { ref \<leftarrow> tail_ref (es_mem es) (db_tail st1 r);
                          Some (set_es es st1, if ref = RefNull then None else Some (attr ref d)) } }
          else if isnamelistelem ty then
            do { (st1, c) \<leftarrow> (if mem_bytes m (oc + 16) 24 = replicate 24 0
                             then memdb_find_byname st (oc + 48) DB_NAMELIST 0
                             else memdb_find st (oc + 16) DB_NAMELIST 0);
                 case c of
                   None \<Rightarrow> Some (st1, None)
                 | Some r \<Rightarrow>
                     do { ref \<leftarrow> tail_ref (db_mem st1) (db_tail st1 r);
                          Some (st1, if ref = RefNull then None else Some (attr ref def)) } }
          else Some (st, Some (attr RefNull def)) }"

fun octets_loop :: "dbstate \<Rightarrow> nat \<Rightarrow> nat \<Rightarrow> (dbstate \<times> elem_attr list option) option" where
  "octets_loop st oc 0 = Some (st, Some [ELEM_ATTR None CUBE_TYPE_NODATA 0 RefNull None])"
| "octets_loop st oc (Suc k) =
     do { (st1, a) \<leftarrow> octet_to_attr st oc;
          case a of
            None \<Rightarrow> Some (st1, None)
          | Some x \<Rightarrow> map_option (\<lambda>(st2, xs). (st2, map_option (\<lambda>ys. x # ys) xs)) (octets_loop st1 (oc + 112) k) }"

definition struct_desc_tail_func :: "dbstate \<Rightarrow> nat \<Rightarrow> (dbstate \<times> int) option" where
  "struct_desc_tail_func st r =
     (let d = rec_data (db_mem st) r; (es, ok) = talloc_ok (db_es st)
      in if \<not> ok then None
         else
           do { (st1, ds) \<leftarrow> octets_loop (set_es es st) (get_ptr (db_mem st) (d + 4)) (nat (rd_sint (db_mem st) 4 d));
                case ds of
                  None \<Rightarrow> Some (set_tail r TailNull st1, - EINVAL)
                | Some xs \<Rightarrow> Some (set_tail r (TailDesc xs) st1, 0) })"

text \<open>The list of a type list or subtype list is the name list with the uuid at \<open>off\<close>; a missing one is no error.\<close>

definition list_tail_func :: "nat \<Rightarrow> dbstate \<Rightarrow> nat \<Rightarrow> (dbstate \<times> int) option" where
  "list_tail_func off st r =
     do { (st1, c) \<leftarrow> memdb_find st (rec_data (db_mem st) r + off) DB_NAMELIST 0;
          case c of
            None \<Rightarrow> Some (st1, 0)
          | Some x \<Rightarrow>
              let d = rec_data (db_mem st1) x
              in Some (if d = 0 then (set_tail r TailNull st1, - EINVAL) else (set_tail r (TailMem d) st1, 0)) }"

definition typelist_tail_func :: "dbstate \<Rightarrow> nat \<Rightarrow> (dbstate \<times> int) option" where
  "typelist_tail_func = list_tail_func 4"

definition subtypelist_tail_func :: "dbstate \<Rightarrow> nat \<Rightarrow> (dbstate \<times> int) option" where
  "subtypelist_tail_func = list_tail_func 8"

text \<open>The flags of a record type: an array of \<open>k\<close> packed pairs of a flag and a list of element names.\<close>

fun index_elems_loop :: "mem \<Rightarrow> nat \<Rightarrow> nat \<Rightarrow> nat" where
  "index_elems_loop m a 0 = 0"
| "index_elems_loop m a (Suc k) =
     (if rd_sint m 4 a = 1 then get_ptr m (a + 4) else index_elems_loop m (a + 12) k)"

fun other_flags_loop :: "nat \<Rightarrow> estate \<Rightarrow> nat \<Rightarrow> nat \<Rightarrow> estate option" where
  "other_flags_loop root st a 0 = Some st"
| "other_flags_loop root st a (Suc k) =
     (if rd_sint (es_mem st) 4 a \<noteq> 1 then
        do { (st1, _) \<leftarrow> struct_set_flag st root (word_of_int (rd_sint (es_mem st) 4 a)) (get_ptr (es_mem st) (a + 4));
             other_flags_loop root st1 (a + 12) k }
      else other_flags_loop root st (a + 12) k)"

definition set_index_flag :: "estate \<Rightarrow> nat \<Rightarrow> nat \<Rightarrow> (estate \<times> int) option" where
  "set_index_flag st root index_elems =
     (if index_elems = 0 then map_option (\<lambda>st1. (st1, 0)) (struct_set_allflag st root CUBE_ELEM_FLAG_INDEX)
      else struct_set_flag st root CUBE_ELEM_FLAG_INDEX index_elems)"

definition recordtype_tail_func :: "dbstate \<Rightarrow> nat \<Rightarrow> (dbstate \<times> int) option" where
  "recordtype_tail_func st r =
     (let rt = rec_data (db_mem st) r
      in do { (st1, c) \<leftarrow> memdb_find st (rt + 8) DB_STRUCT_DESC 0;
              case c of
                None \<Rightarrow> Some (st1, - EINVAL)
              | Some x \<Rightarrow>
                  (case db_tail st1 x of
                     TailDesc ds \<Rightarrow>
                       do { (es, t) \<leftarrow> create_struct_template (db_es st1) ds;
                            case t of
                              None \<Rightarrow> Some (set_tail r TailNull (set_es es st1), - EINVAL)
                            | Some n \<Rightarrow>
                                let st2 = set_tail r (TailTemplate n) (set_es es st1); m = es_mem es;
                                    k = nat (rd_sint m 4 (rt + 40)); a = get_ptr m (rt + 44)
                                in do { (es1, ret) \<leftarrow> set_index_flag es n (index_elems_loop m a k);
                                        if ret < 0 then Some (set_es es1 st2, ret)
                                        else map_option (\<lambda>es2. (set_es es2 st2, 0)) (other_flags_loop n es1 a k) } }
                   | _ \<Rightarrow> None) })"

definition run_tail_func :: "tail_func \<Rightarrow> dbstate \<Rightarrow> nat \<Rightarrow> (dbstate \<times> int) option" where
  "run_tail_func f st r =
     (case f of
        NoTail \<Rightarrow> Some (st, 0)
      | NamelistTail \<Rightarrow> Some (namelist_tail_func st r)
      | StructDescTail \<Rightarrow> struct_desc_tail_func st r
      | TypelistTail \<Rightarrow> typelist_tail_func st r
      | SubtypelistTail \<Rightarrow> subtypelist_tail_func st r
      | RecordtypeTail \<Rightarrow> recordtype_tail_func st r)"

section \<open>Digests, registering and storing\<close>

text \<open>The digest of the indexed elements of a structure, written to \<open>uuid\<close>; the result is the size of their blob.\<close>

definition comp_uuid_with :: "int \<Rightarrow> dbstate \<Rightarrow> nat \<Rightarrow> nat \<Rightarrow> nat \<Rightarrow> (dbstate \<times> int) option" where
  "comp_uuid_with bufsize st data uuid t =
     (case talloc bufsize (db_es st) of
        (es, None) \<Rightarrow> Some (set_es es st, - ENOMEM)
      | (es, Some buf) \<Rightarrow>
          do { res \<leftarrow> struct_2_part_blob es data buf t CUBE_ELEM_FLAG_INDEX;
               (es1, n) \<leftarrow> res;
               let es2 = (if n > 0
                  then set_mem (mem_write (es_mem es1) uuid
                         (calculate_context_sm3 (db_sm3 st) (mem_bytes (es_mem es1) buf (nat n)))) es1
                  else es1);
               Some (set_es (free0 buf es2) st, n) })"

definition memdb_comp_uuid :: "dbstate \<Rightarrow> nat \<Rightarrow> (dbstate \<times> int) option" where
  "memdb_comp_uuid st r =
     do { (st1, t) \<leftarrow> memdb_get_template st (rec_type (db_mem st) r) (rec_subtype (db_mem st) r);
          case t of
            None \<Rightarrow> Some (st1, - EINVAL)
          | Some n \<Rightarrow> comp_uuid_with 4000 st1 (rec_data (db_mem st1) r) r n }"

definition memdb_comp_record_uuid :: "dbstate \<Rightarrow> nat \<Rightarrow> int \<Rightarrow> int \<Rightarrow> nat \<Rightarrow> (dbstate \<times> int) option" where
  "memdb_comp_record_uuid st data type subtype uuid =
     do { (st1, t) \<leftarrow> memdb_get_template st type subtype;
          case t of
            None \<Rightarrow> Some (st1, - EINVAL)
          | Some n \<Rightarrow> if data = 0 then Some (st1, - EINVAL) else comp_uuid_with 2000 st1 data uuid n }"

text \<open>A hash list of order 8 in a new block; without memory \<open>Salloc0\<close> writes through \<^verbatim>\<open>NULL\<close>.\<close>

definition salloc0 :: "int \<Rightarrow> estate \<Rightarrow> (estate \<times> nat) option" where
  "salloc0 sz st =
     do { (m, p) \<leftarrow> Salloc0 (es_mem st) (es_malloc st (es_calls st)) sz;
          a \<leftarrow> p;
          Some (st\<lparr>es_mem := m, es_calls := es_calls st + 1\<rparr>, a) }"

definition new_hash_list :: "dbstate \<Rightarrow> (dbstate \<times> nat) option" where
  "new_hash_list st =
     do { (es1, h) \<leftarrow> salloc0 40 (db_es st);
          (es2, t) \<leftarrow> salloc0 (24 * 256) es1;
          hl \<leftarrow> init_hash_list (db_heap st) (es_mem es2) 8 True (Some t);
          Some (hash_put (set_es es2 st) h hl, h) }"

definition new_desc :: "int \<Rightarrow> int \<Rightarrow> tail_func \<Rightarrow> nat option \<Rightarrow> nat \<Rightarrow> memdb_desc" where
  "new_desc type subtype f t h = \<lparr>md_type = type, md_subtype = subtype, md_template = t, md_tail_func = f,
     md_record_db = Some h, md_record_no = 0\<rparr>"

definition put_desc :: "nat \<Rightarrow> memdb_desc \<Rightarrow> dbstate \<Rightarrow> dbstate" where
  "put_desc d x st = st\<lparr>db_desc := (db_desc st)(d := x)\<rparr>"

definition memdb_register_db ::
  "dbstate \<Rightarrow> int \<Rightarrow> int \<Rightarrow> elem_attr list \<Rightarrow> tail_func \<Rightarrow> nat \<Rightarrow> (dbstate \<times> int) option" where
  "memdb_register_db st type subtype desc f index_elems =
     (if type < 0 then Some (st, - EINVAL)
      else
        do { ref \<leftarrow> memdb_get_dblist st type subtype;
             if ref \<noteq> DbNull then Some (st, - EINVAL)
             else if type \<ge> DB_DTYPE_START then Some (st, - EINVAL)
             else
               do { (es, d) \<leftarrow> salloc0 72 (db_es st);
                    (st1, h) \<leftarrow> new_hash_list ((set_es es st)\<lparr>db_static := (db_static st)[nat type := Some d]\<rparr>);
                    (es2, t) \<leftarrow> create_struct_template (db_es st1) desc;
                    n \<leftarrow> t;
                    (es3, ret) \<leftarrow> set_index_flag es2 n index_elems;
                    Some (put_desc d (new_desc type subtype f t h) (set_es es3 st1), if ret < 0 then ret else 0) } })"

definition alloc_dynamic_db :: "dbstate \<Rightarrow> int \<Rightarrow> int \<Rightarrow> (dbstate \<times> nat option) option" where
  "alloc_dynamic_db st type subtype =
     do { (st1, h) \<leftarrow> new_hash_list st;
          case dalloc0 72 0 (db_es st1) of
            (es, None) \<Rightarrow> Some (set_es es st1, None)
          | (es, Some d) \<Rightarrow> Some (put_desc d (new_desc type subtype NoTail None h) (set_es es st1), Some d) }"

text \<open>A record is added to the hash list \<open>h\<close> with a new node.\<close>

definition hash_add :: "dbstate \<Rightarrow> nat \<Rightarrow> nat \<Rightarrow> dbstate \<times> nat option" where
  "hash_add st h elem =
     (let (es, node) = calloc0 24 (db_es st); st1 = set_es es st;
          (hl, r) = hashlist_add_elem (hash_view st1 h) node elem
      in (hash_put st1 h hl, r))"

definition memdb_register_dynamicdb :: "dbstate \<Rightarrow> int \<Rightarrow> int \<Rightarrow> (dbstate \<times> int) option" where
  "memdb_register_dynamicdb st type subtype =
     (if type \<le> DB_DTYPE_START then Some (st, - EINVAL)
      else
        do { ref \<leftarrow> memdb_get_dblist st type subtype;
             if ref \<noteq> DbNull then Some (st, - EINVAL)
             else
               do { (st1, c) \<leftarrow> memdb_get_recordtype st type subtype;
                    case c of
                      None \<Rightarrow> Some (st1, - EINVAL)
                    | Some r \<Rightarrow>
                        do { (st2, db) \<leftarrow> alloc_dynamic_db st1 type subtype;
                             case db of
                               None \<Rightarrow> Some (st2, - EINVAL)
                             | Some d \<Rightarrow>
                                 let st3 = set_dbmem (mcpy (db_mem st2) d (rec_data (db_mem st2) r + 8) 32) st2
                                 in do { dyn \<leftarrow> db_dynamic st3;
                                         let (st4, node) = hash_add st3 dyn d;
                                         if node = None then Some (st4, - EINVAL)
                                         else
                                           do { t \<leftarrow> tail_template (db_tail st4 r);
                                                Some (put_desc d ((db_desc st4 d)\<lparr>md_template := t, md_tail_func := NoTail\<rparr>) st4,
                                                      0) } } } } })"

definition count_records :: "int \<Rightarrow> nat \<Rightarrow> dbstate \<Rightarrow> dbstate" where
  "count_records k d st = put_desc d ((db_desc st d)\<lparr>md_record_no := md_record_no (db_desc st d) + k\<rparr>) st"

text \<open>\<open>clone_struct\<close> on the state of the database; the result is \<^verbatim>\<open>NULL\<close> (0) or the copy.\<close>

definition db_clone_struct :: "dbstate \<Rightarrow> nat \<Rightarrow> nat \<Rightarrow> (dbstate \<times> nat) option" where
  "db_clone_struct st data t =
     do { res \<leftarrow> clone_struct (db_es st) data t;
          (es, p) \<leftarrow> res;
          Some (set_es es st, case p of None \<Rightarrow> 0 | Some a \<Rightarrow> a) }"

definition set_data :: "nat \<Rightarrow> nat \<Rightarrow> dbstate \<Rightarrow> dbstate" where
  "set_data r p st = set_dbmem (put_ptr (db_mem st) (r + 88) p) st"

text \<open>
  \<open>memdb_store\<close> keeps using the \<^verbatim>\<open>NULL\<close> it found when it has just registered the database. The result is the
  record, or \<^verbatim>\<open>NULL\<close>; where the record cannot be allocated the code returns the pointer \<^verbatim>\<open>-ENOMEM\<close>.
\<close>

definition memdb_store_new :: "dbstate \<Rightarrow> nat \<Rightarrow> nat \<Rightarrow> nat \<Rightarrow> nat \<Rightarrow> nat \<Rightarrow> (dbstate \<times> nat option) option" where
  "memdb_store_new st d h r data name =
     do { st1 \<leftarrow> (if name = 0 then Some st
                 else do { (m, _) \<leftarrow> Strncpy (db_mem st) (r + 32) name 32;
                           Some (set_dbmem (wr_int m 4 (r + 72) 1) st) });
          (st2, ret) \<leftarrow> run_tail_func (md_tail_func (db_desc st1 d)) st1 r;
          if ret < 0 then Some (st2, None)
          else
            do { (st3, t) \<leftarrow> memdb_get_template st2 (rec_type (db_mem st2) r) (rec_subtype (db_mem st2) r);
                 case t of
                   None \<Rightarrow> Some (set_es (free0 r (db_es st3)) st3, None)
                 | Some n \<Rightarrow>
                     do { (st4, p) \<leftarrow> db_clone_struct st3 data n;
                          let (st5, node) = hash_add (set_data r p st4) h r;
                          Some (case node of None \<Rightarrow> (st5, None) | Some _ \<Rightarrow> (count_records 1 d st5, Some r)) } } }"

definition memdb_store_old :: "dbstate \<Rightarrow> int \<Rightarrow> int \<Rightarrow> nat \<Rightarrow> nat \<Rightarrow> nat \<Rightarrow> (dbstate \<times> nat option) option" where
  "memdb_store_old st type subtype old data name =
     do { (st1, t) \<leftarrow> memdb_get_template st type subtype;
          case t of
            None \<Rightarrow> Some (st1, None)
          | Some n \<Rightarrow>
              do { (st2, p) \<leftarrow> db_clone_struct st1 data n;
                   (es, ret) \<leftarrow> memdb_record_add_name (db_es (set_data old p st2)) old name;
                   Some (set_es es (set_data old p st2), if ret < 0 then None else Some old) } }"

definition memdb_store :: "dbstate \<Rightarrow> nat \<Rightarrow> int \<Rightarrow> int \<Rightarrow> nat \<Rightarrow> (dbstate \<times> nat option) option" where
  "memdb_store st data type subtype name =
     do { ref \<leftarrow> memdb_get_dblist st type subtype;
          (st1, ret) \<leftarrow> (if ref = DbNull then memdb_register_dynamicdb st type subtype else Some (st, 0));
          if ret < 0 then Some (st1, None)
          else
            case calloc0 104 (db_es st1) of
              (es, None) \<Rightarrow> Some (set_es es st1, Some (2 ^ 64 - 12))
            | (es, Some r) \<Rightarrow>
                let m = wr_int (wr_int (es_mem es) 4 (r + 64) type) 4 (r + 68) subtype
                in do { (st2, n) \<leftarrow> memdb_comp_uuid (set_data r data (set_tail r TailNull (set_es (set_mem m es) st1))) r;
                        if n < 0 then Some (st2, None)
                        else
                          case ref of
                            DbDesc d \<Rightarrow>
                              do { h \<leftarrow> md_record_db (db_desc st2 d);
                                   old \<leftarrow> hashlist_find_elem (hash_view st2 h) r;
                                   case old of
                                     None \<Rightarrow> memdb_store_new st2 d h r data name
                                   | Some x \<Rightarrow>
                                       memdb_store_old (set_es (free0 r (db_es st2)) st2) type subtype x data name }
                          | _ \<Rightarrow> None } }"

definition memdb_store_record :: "dbstate \<Rightarrow> nat \<Rightarrow> (dbstate \<times> int) option" where
  "memdb_store_record st r =
     (if r = 0 \<or> rec_data (db_mem st) r = 0 then Some (st, - EINVAL)
      else
        let type = rec_type (db_mem st) r; subtype = rec_subtype (db_mem st) r
        in do { ref \<leftarrow> memdb_get_dblist st type subtype;
                case ref of
                  DbNull \<Rightarrow> Some (st, - EINVAL)
                | DbDynamic \<Rightarrow> None
                | DbDesc d \<Rightarrow>
                    do { (st1, ret) \<leftarrow> (if db_tail st r = TailNull
                                       then run_tail_func (md_tail_func (db_desc st d)) st r else Some (st, 0));
                         if ret < 0 then Some (st1, ret)
                         else
                           do { (st2, n) \<leftarrow> memdb_comp_uuid st1 r;
                                if n < 0 then Some (st2, n)
                                else
                                  do { h \<leftarrow> md_record_db (db_desc st2 d);
                                       old \<leftarrow> hashlist_find_elem (hash_view st2 h) r;
                                       (st3, t) \<leftarrow> memdb_get_template st2 type subtype;
                                       case (old, t) of
                                         (None, None) \<Rightarrow> Some (set_es (free0 r (db_es st3)) st3, - EINVAL)
                                       | (None, Some n) \<Rightarrow>
                                           (let (st4, node) = hash_add st3 h r
                                            in Some (case node of None \<Rightarrow> (st4, - EINVAL)
                                                               | Some _ \<Rightarrow> (count_records 1 d st4, 1)))
                                       | (Some x, None) \<Rightarrow> Some (st3, - EINVAL)
                                       | (Some x, Some n) \<Rightarrow>
                                           do { (st4, p) \<leftarrow> db_clone_struct st3 (rec_data (db_mem st3) r) n;
                                                (es, k) \<leftarrow> memdb_record_add_name (db_es (set_data x p st4)) x (r + 32);
                                                Some (set_es es (set_data x p st4), if k < 0 then - EINVAL else k) } } } } })"

section \<open>Removing\<close>

definition memdb_remove :: "dbstate \<Rightarrow> nat \<Rightarrow> int \<Rightarrow> int \<Rightarrow> (dbstate \<times> nat option) option" where
  "memdb_remove st uuid type subtype =
     with_db st type subtype None
       (\<lambda>d h. map_option (\<lambda>(hl, r). ((if r = None then id else count_records (- 1) d) (hash_put st h hl), r))
                (hashlist_remove_elem (hash_view st h) uuid))"

definition memdb_remove_record :: "dbstate \<Rightarrow> nat \<Rightarrow> (dbstate \<times> nat option) option" where
  "memdb_remove_record st r =
     (if r = 0 then Some (st, None)
      else memdb_remove st r (rec_type (db_mem st) r) (rec_subtype (db_mem st) r))"

text \<open>
  The site of a listed name is its index plus two, but the removal takes it as the index plus one. A record
  whose last name goes is taken out of its database and given back.
\<close>

definition drop_listed_name :: "estate \<Rightarrow> nat \<Rightarrow> int \<Rightarrow> int \<Rightarrow> estate \<times> int" where
  "drop_listed_name st r no site =
     (case dalloc0 (8 * (no - 1)) r st of
        (st1, None) \<Rightarrow> (st1, - ENOMEM)
      | (st1, Some arr) \<Rightarrow>
          if no < site then (st1, - EINVAL)
          else
            let names = rec_names (es_mem st1) r;
                st2 = free0 (get_ptr (es_mem st1) (adr_plus names (8 * (site - 1)))) st1;
                m3 = mcpy (es_mem st2) arr names (8 * (site - 1));
                m4 = mcpy m3 (adr_plus arr (8 * (site - 1))) (adr_plus names (8 * site)) (8 * (no - site));
                st4 = free0 names (set_mem m4 st2);
                m5 = put_ptr (es_mem st4) (r + 80) arr
            in (set_mem (wr_int m5 4 (r + 72) (rec_name_no m5 r - 1)) st4, site))"

definition memdb_record_remove_name :: "dbstate \<Rightarrow> nat \<Rightarrow> nat \<Rightarrow> (dbstate \<times> int) option" where
  "memdb_record_remove_name st r name =
     (let m = db_mem st; site = memdb_record_find_name m r name
      in if site \<le> 0 then Some (st, site)
         else if site = 1 \<and> rec_name_no m r = 1 then
           map_option (\<lambda>(st1, _). (st1, 1)) (memdb_remove st r (rec_type m r) (rec_subtype m r))
         else
           do { m1 \<leftarrow> (if site \<noteq> 1 then Some m
                      else if rec_names m r = 0 then None
                      else map_option fst (Strncpy m (r + 32) (get_ptr m (rec_names m r)) 32));
                let (es, ret) = drop_listed_name (set_mem m1 (db_es st)) r (listed_names m r) site;
                Some (set_es es st, ret) })"

definition memdb_remove_byname :: "dbstate \<Rightarrow> nat \<Rightarrow> int \<Rightarrow> int \<Rightarrow> (dbstate \<times> int) option" where
  "memdb_remove_byname st name type subtype =
     do { ref \<leftarrow> memdb_get_dblist st type subtype;
          if ref = DbNull then Some (st, - EINVAL)
          else
            do { (st1, r) \<leftarrow> memdb_find_byname st name type subtype;
                 case r of None \<Rightarrow> Some (st1, 0) | Some a \<Rightarrow> memdb_record_remove_name st1 a name } }"

definition memdb_output_blob :: "dbstate \<Rightarrow> nat \<Rightarrow> nat \<Rightarrow> int \<Rightarrow> int \<Rightarrow> (dbstate \<times> int) option" where
  "memdb_output_blob st data blob type subtype =
     do { (st1, t) \<leftarrow> memdb_get_template st type subtype;
          case t of
            None \<Rightarrow> Some (st1, - EINVAL)
          | Some n \<Rightarrow> do { res \<leftarrow> struct_2_blob (db_es st1) data blob n; (es, k) \<leftarrow> res; Some (set_es es st1, k) } }"

definition memdb_read_blob :: "dbstate \<Rightarrow> nat \<Rightarrow> nat \<Rightarrow> int \<Rightarrow> int \<Rightarrow> (dbstate \<times> int) option" where
  "memdb_read_blob st blob data type subtype =
     do { (st1, t) \<leftarrow> memdb_get_template st type subtype;
          case t of
            None \<Rightarrow> Some (st1, - EINVAL)
          | Some n \<Rightarrow> do { res \<leftarrow> blob_2_struct (db_es st1) blob data n; (es, k) \<leftarrow> res; Some (set_es es st1, k) } }"

section \<open>Initialisation\<close>

definition ascii :: "string \<Rightarrow> byte list" where
  "ascii s = map (\<lambda>c. of_nat (of_char c)) s"

definition desc_entry :: "string \<Rightarrow> elem_type \<Rightarrow> int \<Rightarrow> attr_ref \<Rightarrow> string \<Rightarrow> elem_attr" where
  "desc_entry name ty sz r d = ELEM_ATTR (Some (ascii name)) ty sz r (if d = [] then None else Some (ascii d))"

definition desc_end :: elem_attr where
  "desc_end = ELEM_ATTR None CUBE_TYPE_ENDDATA 0 RefNull None"

definition uuid_head_desc :: "elem_attr list" where
  "uuid_head_desc =
    [desc_entry ''uuid'' CUBE_TYPE_UUID 32 RefNull [], desc_entry ''name'' CUBE_TYPE_STRING 32 RefNull [],
     desc_entry ''type'' CUBE_TYPE_RECORDTYPE 4 RefNull [],
     desc_entry ''subtype'' CUBE_TYPE_RECORDSUBTYPE 4 RefNull ''type'', desc_end]"

definition elem_attr_octet_desc :: "elem_attr list" where
  "elem_attr_octet_desc =
    [desc_entry ''name'' CUBE_TYPE_ESTRING 8 RefNull [], desc_entry ''type'' CUBE_TYPE_ELEMTYPE 4 RefNull [],
     desc_entry ''size'' CUBE_TYPE_INT 4 RefNull [], desc_entry ''ref'' CUBE_TYPE_UUID 32 RefNull [],
     desc_entry ''ref_name'' CUBE_TYPE_STRING 32 RefNull [], desc_entry ''def'' CUBE_TYPE_STRING 32 RefNull [],
     desc_end]"

definition struct_define_desc :: "elem_attr list" where
  "struct_define_desc =
    [desc_entry ''elem_no'' CUBE_TYPE_INT 4 RefNull [],
     desc_entry ''elem_desc'' CUBE_TYPE_DEFARRAY 8 (RefStruct elem_attr_octet_desc) ''elem_no'', desc_end]"

definition struct_namelist_desc :: "elem_attr list" where
  "struct_namelist_desc =
    [desc_entry ''elem_no'' CUBE_TYPE_INT 4 RefNull [],
     desc_entry ''elemlist'' CUBE_TYPE_DEFNAMELIST 8 RefNull ''elem_no'', desc_end]"

definition struct_typelist_desc :: "elem_attr list" where
  "struct_typelist_desc =
    [desc_entry ''elem_no'' CUBE_TYPE_INT 4 RefNull [], desc_entry ''uuid'' CUBE_TYPE_UUID 32 RefNull [], desc_end]"

definition struct_subtypelist_desc :: "elem_attr list" where
  "struct_subtypelist_desc =
    [desc_entry ''type'' CUBE_TYPE_RECORDTYPE 4 RefNull [], desc_entry ''elem_no'' CUBE_TYPE_INT 4 RefNull [],
     desc_entry ''uuid'' CUBE_TYPE_UUID 32 RefNull [], desc_end]"

definition elem_attr_flaglist_array :: "(byte list \<times> int) list" where
  "elem_attr_flaglist_array = [(ascii ''INDEX'', 1), (ascii ''KEY'', 2), (ascii ''INPUT'', 4), (ascii ''DESC'', 16)]"

definition index_list_desc :: "elem_attr list" where
  "index_list_desc =
    [desc_entry ''flag'' CUBE_TYPE_FLAG 4 (RefNames elem_attr_flaglist_array) [],
     desc_entry ''elemlist'' CUBE_TYPE_ESTRING 8 RefNull [], desc_end]"

definition struct_recordtype_desc :: "elem_attr list" where
  "struct_recordtype_desc =
    [desc_entry ''type'' CUBE_TYPE_RECORDTYPE 4 RefNull [],
     desc_entry ''subtype'' CUBE_TYPE_RECORDSUBTYPE 4 RefNull ''type'',
     desc_entry ''uuid'' CUBE_TYPE_UUID 32 RefNull [], desc_entry ''flag_no'' CUBE_TYPE_INT 4 RefNull [],
     desc_entry ''index'' CUBE_TYPE_DEFARRAY 8 (RefStruct index_list_desc) ''flag_no'', desc_end]"

text \<open>The addresses of the static data that \<open>memdb_init\<close> uses: three arrays of named values and four strings.\<close>

record memdb_image =
  elem_type_valuelist_array :: nat
  memdb_elem_type_array :: nat
  struct_type_baselist :: nat
  str_elemenumlist :: nat
  str_typeenumlist :: nat
  str_baseenumlist :: nat
  str_index_elems :: nat

text \<open>A temporary list over a static array, in a block at \<open>l\<close>.\<close>

definition set_templist :: "estate \<Rightarrow> nat \<Rightarrow> nat \<Rightarrow> estate option" where
  "set_templist st l array =
     map_option (\<lambda>n. set_mem (put_ptr (wr_int (es_mem st) 4 l n) (l + 4) array) st) (get_namelist_no (es_mem st) array)"

definition dpointer_set :: "nat option \<Rightarrow> nat \<Rightarrow> estate \<Rightarrow> estate option" where
  "dpointer_set p base st = map_option (\<lambda>a. set_mem (fst (Dpointer_set (es_mem st) a base)) st) p"

fun register_all :: "dbstate \<Rightarrow> (int \<times> elem_attr list \<times> tail_func \<times> nat) list \<Rightarrow> (dbstate \<times> int) option" where
  "register_all st [] = Some (st, 0)"
| "register_all st ((type, desc, f, index_elems) # dbs) =
     do { (st1, ret) \<leftarrow> memdb_register_db st type 0 desc f index_elems;
          if ret < 0 then Some (st1, ret) else register_all st1 dbs }"

fun store_all :: "dbstate \<Rightarrow> (nat \<times> nat) list \<Rightarrow> (dbstate \<times> int) option" where
  "store_all st [] = Some (st, 0)"
| "store_all st ((data, name) # xs) =
     do { (st1, r) \<leftarrow> memdb_store st data DB_NAMELIST 0 name;
          if r = None then Some (st1, - EINVAL) else store_all st1 xs }"

text \<open>
  The element types of \<open>MemdbElemInfo\<close> are in the tables already. The test of the first \<open>Dalloc0\<close> assigns
  \<^verbatim>\<open>NULL\<close> instead of comparing, so its block is lost.
\<close>

definition memdb_init :: "dbstate \<Rightarrow> memdb_image \<Rightarrow> (dbstate \<times> int) option" where
  "memdb_init st img =
     do { (es1, base) \<leftarrow> salloc0 56 (db_es st);
          (es2, _) \<leftarrow> salloc0 (8 * 17) es1;
          let (es3, t) = talloc 12 es2;
          l \<leftarrow> t;
          es4 \<leftarrow> set_templist es3 l (elem_type_valuelist_array img);
          let (es5, t1) = talloc 12 es4;
          l1 \<leftarrow> t1;
          es6 \<leftarrow> set_templist es5 l1 (memdb_elem_type_array img);
          let es7 = fst (dalloc0 12 (base + 16) es6);
          let (es8, merged) = merge_namelist es7 l l1;
          es9 \<leftarrow> dpointer_set merged (base + 16) es8;
          es10 \<leftarrow> set_templist es9 l (struct_type_baselist img);
          let (es11, types) = clone_namelist es10 l;
          es12 \<leftarrow> dpointer_set types (base + 24) es11;
          let st1 = st\<lparr>db_es := es12, db_base := base, db_static := replicate 17 None\<rparr>;
          (es13, ht) \<leftarrow> create_struct_template (db_es st1) uuid_head_desc;
          if ht = None then Some (set_es es13 st1, - EINVAL)
          else
            do { (es14, et) \<leftarrow> create_struct_template es13 elem_attr_octet_desc;
                 let st2 = (set_es es14 st1)\<lparr>db_head_template := ht, db_elem_template := et\<rparr>;
                 if et = None then Some (st2, - EINVAL)
                 else
                   do { (st3, r1) \<leftarrow> memdb_register_db st2 DB_NAMELIST 0 struct_namelist_desc NamelistTail 0;
                        if r1 < 0 then Some (st3, r1)
                        else
                          do { (st4, r2) \<leftarrow> store_all st3 [(elemenumlist st3, str_elemenumlist img),
                                 (typeenumlist st3, str_typeenumlist img), (typeenumlist st3, str_baseenumlist img)];
                               if r2 < 0 then Some (st4, r2)
                               else
                                 do { (st5, r3) \<leftarrow> register_all st4
                                        [(DB_STRUCT_DESC, struct_define_desc, StructDescTail, str_index_elems img),
                                         (DB_TYPELIST, struct_typelist_desc, TypelistTail, 0),
                                         (DB_SUBTYPELIST, struct_subtypelist_desc, SubtypelistTail, 0),
                                         (DB_RECORDTYPE, struct_recordtype_desc, RecordtypeTail, 0)];
                                      if r3 < 0 then Some (st5, r3)
                                      else map_option (\<lambda>(st6, h). (st6\<lparr>db_dynamic := Some h\<rparr>, 0)) (new_hash_list st5) } } } } }"

section \<open>Searching a database\<close>

text \<open>A database that can be searched: its hash list keeps the invariant, with the buckets \<open>bs\<close>.\<close>

definition db_open :: "dbstate \<Rightarrow> int \<Rightarrow> int \<Rightarrow> nat \<Rightarrow> nat list list \<Rightarrow> bool" where
  "db_open st type subtype h bs \<longleftrightarrow>
     (\<exists>d. memdb_get_dblist st type subtype = Some (DbDesc d) \<and> md_record_db (db_desc st d) = Some h)
     \<and> db_dynamic st \<noteq> Some h \<and> hl_inv (hash_view st h) bs"

definition db_records :: "dbstate \<Rightarrow> nat \<Rightarrow> nat list list \<Rightarrow> nat list" where
  "db_records st h bs = hl_elems (hash_view st h) bs"

text \<open>A search changes only the cursor of the hash list.\<close>

definition cursor_moved :: "dbstate \<Rightarrow> nat \<Rightarrow> nat \<times> nat option \<Rightarrow> dbstate" where
  "cursor_moved st h c = hash_put st h ((hash_view st h)\<lparr>hl_curr_index := fst c, hl_curr_head := snd c\<rparr>)"

lemma cursor_moved_sel [simp]:
  "db_es (cursor_moved st h c) = db_es st" "db_heap (cursor_moved st h c) = db_heap st"
  "db_desc (cursor_moved st h c) = db_desc st" "db_tail (cursor_moved st h c) = db_tail st"
  "db_static (cursor_moved st h c) = db_static st" "db_dynamic (cursor_moved st h c) = db_dynamic st"
  "db_base (cursor_moved st h c) = db_base st"
  by (simp_all add: cursor_moved_def hash_put_def hash_view_def)

lemma cursor_moved_view:
  "hash_view (cursor_moved st h c) h = (hash_view st h)\<lparr>hl_curr_index := fst c, hl_curr_head := snd c\<rparr>"
  "h' \<noteq> h \<Longrightarrow> hash_view (cursor_moved st h c) h' = hash_view st h'"
  by (simp_all add: cursor_moved_def hash_put_def hash_view_def fun_upd_apply)

lemma cursor_moved_moved [simp]: "cursor_moved (cursor_moved st h c) h c' = cursor_moved st h c'"
  by (simp add: cursor_moved_def hash_put_def hash_view_def fun_upd_apply)

lemma cursor_moved_dblist:
  assumes "db_dynamic st \<noteq> Some h"
  shows "memdb_get_dblist (cursor_moved st h c) type subtype = memdb_get_dblist st type subtype"
  using assms cursor_moved_view(2) [of _ h st c]
  by (auto simp: memdb_get_dblist_def get_dynamic_db_bytype_def split: option.splits)

lemma db_open_moved [simp]: "db_open (cursor_moved st h c) type subtype h bs = db_open st type subtype h bs"
  by (auto simp: db_open_def cursor_moved_dblist cursor_moved_view)

lemma memdb_get_first_walk:
  assumes "db_open st type subtype h bs"
  defines "c \<equiv> first_from (hash_view st h) 0 (hl_num (hash_view st h))"
  shows "memdb_get_first st type subtype = Some (cursor_moved st h c, map_option (rcd (db_heap st)) (snd c))"
    and "cursor_step (hash_view st h) bs (concat bs) c"
proof -
  have hp: "hl_heap (hash_view st h) = db_heap st" by (simp add: hash_view_def)
  show "memdb_get_first st type subtype = Some (cursor_moved st h c, map_option (rcd (db_heap st)) (snd c))"
    using assms(1) by (auto simp: db_open_def memdb_get_first_def with_db_def hashlist_get_first_def
        hashlist_get_first_parall_def Let_def split_def c_def cursor_moved_def hp)
  show "cursor_step (hash_view st h) bs (concat bs) c"
    using first_from_spec [of "hash_view st h" bs 0] assms(1) by (simp add: db_open_def c_def)
qed

lemma memdb_get_next_walk:
  assumes "db_open st type subtype h bs" "cursor_at (hash_view st h) bs (i, c) rest"
  defines "c' \<equiv> next_from (hash_view st h) c i (hl_num (hash_view st h) - i)"
  shows "memdb_get_next (cursor_moved st h (i, Some c)) type subtype
           = Some (cursor_moved st h c', map_option (rcd (db_heap st)) (snd c'))"
    and "cursor_step (hash_view st h) bs rest c'"
proof -
  let ?st = "cursor_moved st h (i, Some c)" let ?hl = "hash_view st h"
  have nf: "next_from (?hl\<lparr>hl_curr_index := i, hl_curr_head := Some c\<rparr>) a j k = next_from ?hl a j k" for a j k
    by (induction k arbitrary: a j) (simp_all add: hl_head_def Let_def)
  have hp: "hl_heap ?hl = db_heap st" by (simp add: hash_view_def)
  have nx: "hashlist_get_next (hash_view ?st h)
      = ((hash_view ?st h)\<lparr>hl_curr_index := fst c', hl_curr_head := snd c'\<rparr>, map_option (rcd (db_heap st)) (snd c'))"
    by (simp add: hashlist_get_next_def hashlist_get_next_parall_def cursor_moved_view Let_def split_def nf hp c'_def)
  obtain d where d: "memdb_get_dblist ?st type subtype = Some (DbDesc d)" "md_record_db (db_desc ?st d) = Some h"
    using assms(1) by (auto simp: db_open_def cursor_moved_dblist)
  have "memdb_get_next ?st type subtype
      = Some (cursor_moved ?st h c', map_option (rcd (db_heap st)) (snd c'))"
    using d by (simp add: memdb_get_next_def with_db_def nx del: cursor_moved_moved flip: cursor_moved_def [of ?st h c'])
  then show "memdb_get_next ?st type subtype = Some (cursor_moved st h c', map_option (rcd (db_heap st)) (snd c'))"
    by simp
  show "cursor_step ?hl bs rest c'"
    unfolding c'_def by (rule next_from_spec) (use assms in \<open>auto simp: db_open_def\<close>)
qed

lemma db_search_find:
  assumes st: "db_open st type subtype h bs"
    and test: "\<And>c a. test (cursor_moved st h c) a = Some (cursor_moved st h c, f a)" "\<And>a. 0 \<le> f a"
  shows "cursor_step (hash_view st h) bs rest c \<Longrightarrow>
    \<exists>c'. db_search test type subtype (cursor_moved st h c) (map_option (rcd (db_heap st)) (snd c))
      = Some (cursor_moved st h c', find (\<lambda>a. 0 < f a) (map (rcd (db_heap st)) rest))"
proof (induction rest arbitrary: c)
  case Nil
  then show ?case by (auto simp: cursor_step_def db_search.simps)
next
  case (Cons x xs)
  then have c: "snd c = Some x" "cursor_at (hash_view st h) bs (fst c, x) xs" by (simp_all add: cursor_step_def)
  note nx = memdb_get_next_walk [OF st c(2)]
  have cc: "cursor_moved st h (fst c, Some x) = cursor_moved st h c" using c(1) by (metis prod.collapse)
  show ?case
  proof (cases "0 < f (rcd (db_heap st) x)")
    case True
    then show ?thesis using c(1) test by (intro exI [of _ c]) (simp add: db_search.simps)
  next
    case False
    then have "f (rcd (db_heap st) x) = 0" using test(2) [of "rcd (db_heap st) x"] by simp
    then show ?thesis using Cons.IH [OF nx(2)] nx(1) c(1) test(1)
      by (subst db_search.simps) (simp add: cc)
  qed
qed

lemma db_walk_find:
  assumes "db_open st type subtype h bs"
    and "\<And>c a. test (cursor_moved st h c) a = Some (cursor_moved st h c, f a)" "\<And>a. 0 \<le> f a"
  shows "\<exists>c. db_walk test type subtype st = Some (cursor_moved st h c, find (\<lambda>a. 0 < f a) (db_records st h bs))"
  using db_search_find [OF assms] memdb_get_first_walk [OF assms(1)]
  by (auto simp: db_walk_def db_records_def hl_elems_def hash_view_def)

lemma find_name_loop_pos:
  "0 < find_name_loop m names name i k \<longleftrightarrow> (\<exists>j<k. Strncmp m (get_ptr m (names + 8 * (i + j))) name 32 = 0)"
proof (induction k arbitrary: i)
  case (Suc k)
  have "(\<exists>j<Suc k. P (i + j)) \<longleftrightarrow> P i \<or> (\<exists>j<k. P (i + 1 + j))" for P :: "nat \<Rightarrow> bool"
    by (metis Suc_less_eq add.right_neutral add_Suc_shift less_Suc_eq_0_disj plus_1_eq_Suc add.commute zero_less_Suc)
  from this [of "\<lambda>j. Strncmp m (get_ptr m (names + 8 * j)) name 32 = 0"]
  show ?case by (simp only: find_name_loop.simps Suc.IH split: if_split) simp
qed simp

lemma find_name_loop_nonneg: "0 \<le> find_name_loop m names name i k"
  by (induction k arbitrary: i) auto

lemma memdb_record_find_name_nonneg: "0 \<le> memdb_record_find_name m r name"
  by (simp add: memdb_record_find_name_def find_name_loop_nonneg)

text \<open>The names of a record: the one in its head and the listed ones.\<close>

definition rec_has_name :: "mem \<Rightarrow> nat \<Rightarrow> nat \<Rightarrow> bool" where
  "rec_has_name m r name \<longleftrightarrow> Strncmp m (r + 32) name 32 = 0
     \<or> rec_names m r \<noteq> 0 \<and> (\<exists>j<nat (listed_names m r). Strncmp m (get_ptr m (rec_names m r + 8 * j)) name 32 = 0)"

lemma memdb_record_find_name_pos: "0 < memdb_record_find_name m r name \<longleftrightarrow> rec_has_name m r name"
  using find_name_loop_pos [of m "rec_names m r" name 0 "nat (listed_names m r)"]
  by (auto simp: memdb_record_find_name_def rec_has_name_def)

text \<open>(C18) \<open>memdb_find_byname\<close> answers the first record of the database, in the order of its buckets and inside a
  bucket in the order of insertion, that has the name in its head or in its list of names, and
  \<^verbatim>\<open>NULL\<close> exactly when no record has it. Nothing but the cursor of the database changes.\<close>

theorem memdb_find_byname_correct:
  assumes "db_open st type subtype h bs"
  shows "\<exists>c. memdb_find_byname st name type subtype
    = Some (cursor_moved st h c, find (\<lambda>r. rec_has_name (db_mem st) r name) (db_records st h bs))"
  using db_walk_find [OF assms, of "\<lambda>st1 r. Some (st1, memdb_record_find_name (db_mem st1) r name)"
      "\<lambda>r. memdb_record_find_name (db_mem st) r name"]
  by (simp add: memdb_find_byname_def memdb_record_find_name_nonneg memdb_record_find_name_pos)

text \<open>A database of type 2 with the hash list \<open>hl_single\<close>, whose only record has the empty name.\<close>

definition db_example :: dbstate where
  "db_example = \<lparr>db_es = \<lparr>es_node = (\<lambda>_. empty_snode), es_next = 0, es_mem = hl_mem hl_single, es_malloc = (\<lambda>_. None),
       es_calls = 0, es_stack = 0\<rparr>, db_heap = hl_heap hl_single, db_hash = (\<lambda>_. hl_single),
     db_desc = (\<lambda>_. new_desc 2 0 NamelistTail None 900), db_tail = (\<lambda>_. TailNull), db_static = [None, None, Some 800],
     db_dynamic = None, db_base = 0, db_head_template = None, db_elem_template = None, db_sm3 = sm3_ctx0\<rparr>"

lemma db_example_view: "hash_view db_example h = hl_single"
  by (simp add: hash_view_def db_example_def)

theorem memdb_find_byname_correct_witness:
  "\<exists>c. memdb_find_byname db_example 500 2 0 = Some (cursor_moved db_example 900 c, Some 19000)"
proof -
  obtain bs where inv: "hl_inv hl_single bs" and el: "hl_elems hl_single bs = [19000]" using hl_single_inv(1,2) by blast
  have "db_open db_example 2 0 900 bs"
    using inv by (simp add: db_open_def db_example_view) (simp add: memdb_get_dblist_def db_example_def new_desc_def)
  from memdb_find_byname_correct [OF this, of 500]
  show ?thesis using el
    by (simp add: db_records_def db_example_view rec_has_name_def) (simp add: db_example_def hl_single_inv Strncmp_zero_mem)
qed

text \<open>(C19) The template of a record type from \<^verbatim>\<open>DB_BASEEND\<close> on is the tail of the first record-type record with that
  type and subtype; without such a record there is no template.\<close>

theorem memdb_get_template_correct:
  assumes "db_open st DB_RECORDTYPE 0 h bs" "DB_BASEEND \<le> type"
    and "\<And>r. r \<in> set (db_records st h bs) \<Longrightarrow> db_tail st r = TailTemplate (tm r)"
  shows "\<exists>c. memdb_get_template st type subtype
    = Some (cursor_moved st h c, map_option tm
        (find (\<lambda>r. let d = rec_data (db_mem st) r
                   in rd_sint (db_mem st) 4 d = type \<and> rd_sint (db_mem st) 4 (d + 4) = subtype) (db_records st h bs)))"
proof -
  let ?f = "\<lambda>r. let d = rec_data (db_mem st) r
                in if rd_sint (db_mem st) 4 d = type \<and> rd_sint (db_mem st) 4 (d + 4) = subtype then 1 else 0 :: int"
  have pos: "(0 < ?f r) = (let d = rec_data (db_mem st) r
      in rd_sint (db_mem st) 4 d = type \<and> rd_sint (db_mem st) 4 (d + 4) = subtype)" for r
    by (simp add: Let_def)
  have "\<exists>c. memdb_get_recordtype st type subtype = Some (cursor_moved st h c, find (\<lambda>r. 0 < ?f r) (db_records st h bs))"
    unfolding memdb_get_recordtype_def by (rule db_walk_find [OF assms(1)]) (simp_all add: Let_def)
  then obtain c where
    "memdb_get_recordtype st type subtype = Some (cursor_moved st h c, find (\<lambda>r. 0 < ?f r) (db_records st h bs))" ..
  moreover have "db_tail st r = TailTemplate (tm r)" if "find P (db_records st h bs) = Some r" for P r
    using that assms(3) by (auto simp: find_Some_iff)
  ultimately show ?thesis using assms(2) unfolding pos
    by (intro exI [of _ c]) (simp add: memdb_get_template_def tail_template_def split: option.splits)
qed

lemma hl_inv_mem:
  assumes "hl_inv hl bs" "\<And>e. e \<in> set (hl_elems hl bs) \<Longrightarrow> uuid_at m e = uuid_at (hl_mem hl) e"
  shows "hl_inv (hl\<lparr>hl_mem := m\<rparr>) bs"
proof -
  have "hash_bucket (hl\<lparr>hl_mem := m\<rparr>) e = hash_bucket hl e" if "e \<in> set (hl_elems hl bs)" for e
  proof -
    have "\<forall>i<32. m (e + i) = hl_mem hl (e + i)" using assms(2) [OF that] by (simp add: uuid_at_def mem_bytes_eq_iff)
    then have "get32 m e = get32 (hl_mem hl) e" "m e = hl_mem hl e" by (simp_all add: get32_eq_iff) (metis add.right_neutral zero_less_numeral)
    then show ?thesis by (simp add: hash_bucket_def get_hash_index_def get_hash_subindex_def)
  qed
  moreover have "rcd (hl_heap hl) x \<in> set (hl_elems hl bs)" if "i < hl_num hl" "x \<in> set (bs ! i)" for i x
    using that assms(1) by (auto simp: hl_elems_def hl_inv_def intro!: imageI bexI [of _ "bs ! i"])
  ultimately show ?thesis using assms(1) unfolding hl_inv_def hl_ring_def hl_head_def by simp
qed

text \<open>The only record, at 19000, says that its template is that of type 16 and subtype 3.\<close>

definition types_example :: dbstate where
  "types_example = set_dbmem ((\<lambda>_. 0)(19088 := 60, 60 := 16, 64 := 3))
     (db_example\<lparr>db_static := [None, None, None, None, None, None, None, Some 800], db_tail := (\<lambda>_. TailTemplate 5)\<rparr>)"

theorem memdb_get_template_correct_witness:
  "\<exists>c. memdb_get_template types_example 16 3 = Some (cursor_moved types_example 900 c, Some 5)"
proof -
  let ?m = "(\<lambda>_. 0)(19088 := 60, 60 := 16, 64 := 3) :: mem"
  obtain bs where inv: "hl_inv hl_single bs" and el: "hl_elems hl_single bs = [19000]" using hl_single_inv(1,2) by blast
  have v: "hash_view types_example h = hl_single\<lparr>hl_mem := ?m\<rparr>" for h
    by (simp add: hash_view_def types_example_def db_example_def)
  have "hl_inv (hl_single\<lparr>hl_mem := ?m\<rparr>) bs"
    by (rule hl_inv_mem [OF inv]) (simp add: el hl_single_inv uuid_at_def mem_bytes_eq_iff fun_upd_apply)
  then have op: "db_open types_example DB_RECORDTYPE 0 900 bs"
    by (simp add: db_open_def v) (simp add: memdb_get_dblist_def types_example_def db_example_def new_desc_def)
  have r: "db_records types_example 900 bs = [19000]" using el by (simp add: db_records_def v hl_elems_def)
  have d: "db_mem types_example = ?m" "db_tail types_example = (\<lambda>_. TailTemplate 5)" by (simp_all add: types_example_def)
  have "rec_data ?m 19000 = 60" by (simp add: rec_data_def get_ptr_bytes fun_upd_apply)
  then show ?thesis
    using memdb_get_template_correct [OF op, of 16 "\<lambda>_. 5" 3] by (simp add: r d rd_sint_def rd_uint_4 fun_upd_apply Let_def)
qed

text \<open>Storing the first record of a dynamic type that is not registered yet never gives a record: the code
  registers the database but goes on with the missing one. It either faults or reports an error.\<close>

theorem memdb_store_unregistered_fails:
  assumes "memdb_get_dblist st type subtype = Some DbNull"
  shows "memdb_store st data type subtype name = None
    \<or> (\<exists>st' r. memdb_store st data type subtype name = Some (st', r) \<and> r \<in> {None, Some (2 ^ 64 - 12)})"
proof (cases "memdb_store st data type subtype name")
  case (Some res)
  obtain st' r where res: "res = (st', r)" by fastforce
  have "r \<in> {None, Some (2 ^ 64 - 12)}" using assms Some res unfolding memdb_store_def
    by (auto simp: bind_eq_Some_conv Let_def split: if_splits prod.splits option.splits)
  then show ?thesis using Some res by blast
qed simp

text \<open>The last listed name of a record cannot be removed: the site found for it lies behind the end of the list, so the
  code gives up with an error and the record keeps the name.\<close>

theorem memdb_remove_last_name_fails:
  assumes "memdb_record_find_name (db_mem st) r name = listed_names (db_mem st) r + 1" "1 \<le> listed_names (db_mem st) r"
  shows "\<exists>st' e. memdb_record_remove_name st r name = Some (st', e) \<and> e \<in> {- EINVAL, - ENOMEM}"
proof -
  obtain es e where d: "drop_listed_name (db_es st) r (listed_names (db_mem st) r) (listed_names (db_mem st) r + 1) = (es, e)"
    by fastforce
  then have "e \<in> {- EINVAL, - ENOMEM}" by (auto simp: drop_listed_name_def split: prod.splits option.splits)
  moreover have "memdb_record_remove_name st r name = Some (set_es es st, e)"
    using assms d by (simp add: memdb_record_remove_name_def Let_def)
  ultimately show ?thesis by blast
qed

end
