(* ===== verification/Cube_Memdb_Json.thy ===== *)
theory Cube_Memdb_Json
  imports Cube_Memdb Cube_Struct_Json Cube_Struct_Free
begin

text \<open>
  Descriptions in JSON: the readers of \<^verbatim>\<open>cubelib/memdb/memdb.c\<close>, which store a tree with the members \<^verbatim>\<open>head\<close> and \<^verbatim>\<open>record\<close> as
  a record of the database, and \<open>memdb_print\<close> of \<^verbatim>\<open>memdb_init.c\<close>. The text operations that the database registers for
  its three element types run on its state; of what they change there only the memory is kept.
\<close>

section \<open>The conversions on the state of the database\<close>

definition db_text_op :: "(dbstate \<Rightarrow> nat \<Rightarrow> nat \<Rightarrow> eid \<Rightarrow> (dbstate \<times> int) option) \<Rightarrow> dbstate \<Rightarrow> elem_op" where
  "db_text_op f db es a t e = map_option (apfst db_es) (f (set_es es db) a t e)"

definition db_ops :: "dbstate \<Rightarrow> ops_table" where
  "db_ops db ty =
     (let text_ops = (\<lambda>g s. Some (null_ops\<lparr>op_get_text_value := Some (db_text_op g db), op_set_text_value := Some (db_text_op s db)\<rparr>))
      in case ty of
           CUBE_TYPE_ELEMTYPE \<Rightarrow> text_ops (\<lambda>db a t e. enumtype_get_text_value db a t) (\<lambda>db a t e. enumtype_set_text_value db a t)
         | CUBE_TYPE_RECORDTYPE \<Rightarrow> text_ops (\<lambda>db a t e. recordtype_get_text_value db a t) (\<lambda>db a t e. recordtype_set_text_value db a t)
         | CUBE_TYPE_RECORDSUBTYPE \<Rightarrow> text_ops subtype_get_text_value subtype_set_text_value
         | _ \<Rightarrow> elem_get_ops ty)"

type_synonym djstate = "dbstate \<times> jheap"

definition d_json_2_struct :: "nat option \<Rightarrow> nat \<Rightarrow> nat \<Rightarrow> djstate \<Rightarrow> (djstate \<times> int) option" where
  "d_json_2_struct node addr t s =
     do { res \<leftarrow> json_2_struct (db_ops (fst s)) (db_es (fst s), snd s) node addr t;
          ((es, h), r) \<leftarrow> res;
          Some ((set_es es (fst s), h), r) }"

definition d_dalloc0 :: "int \<Rightarrow> nat \<Rightarrow> djstate \<Rightarrow> djstate \<times> nat option" where
  "d_dalloc0 sz base s = (let (es, p) = dalloc0 sz base (db_es (fst s)) in ((set_es es (fst s), snd s), p))"

definition d_template :: "int \<Rightarrow> int \<Rightarrow> djstate \<Rightarrow> (djstate \<times> nat option) option" where
  "d_template type subtype s = map_option (apfst (\<lambda>st. (st, snd s))) (memdb_get_template (fst s) type subtype)"

text \<open>A zeroed \<^verbatim>\<open>DB_RECORD\<close> of a type.\<close>

definition new_record :: "int \<Rightarrow> djstate \<Rightarrow> djstate \<times> nat option" where
  "new_record type s =
     (case calloc0 104 (db_es (fst s)) of
        (es, None) \<Rightarrow> ((set_es es (fst s), snd s), None)
      | (es, Some r) \<Rightarrow> ((set_tail r TailNull (set_es (set_mem (wr_int (es_mem es) 4 (r + 64) type) es) (fst s)), snd s), Some r))"

text \<open>The data of a record is set, its digest computed, and the record stored.\<close>

definition store_read :: "nat \<Rightarrow> nat \<Rightarrow> djstate \<Rightarrow> (djstate \<times> int) option" where
  "store_read r data s =
     do { (st1, n) \<leftarrow> memdb_comp_uuid (set_data r data (fst s)) r;
          if n < 0 then Some ((st1, snd s), n)
          else map_option (apfst (\<lambda>st. (st, snd s))) (memdb_store_record st1 r) }"

section \<open>The readers\<close>

text \<open>What the conversion of a record answers is not looked at by any of the readers.\<close>

definition read_namelist_json_desc :: "nat option \<Rightarrow> nat \<Rightarrow> djstate \<Rightarrow> (djstate \<times> int) option" where
  "read_namelist_json_desc root r s =
     (case d_dalloc0 12 (r + 88) s of
        (s1, None) \<Rightarrow> Some (s1, - ENOMEM)
      | (s1, Some l) \<Rightarrow>
          if rec_type (db_mem (fst s1)) r \<noteq> DB_NAMELIST then Some (s1, - EINVAL)
          else do {
            (h2, node) \<leftarrow> find_in (ascii ''elemlist'') (snd s1) root;
            if node = None then Some ((fst s1, h2), - EINVAL)
            else do {
              (s3, t) \<leftarrow> d_template DB_NAMELIST 0 (fst s1, h2);
              case t of
                None \<Rightarrow> Some (s3, - EINVAL)
              | Some n \<Rightarrow> do { (s4, _) \<leftarrow> d_json_2_struct root l n s3; store_read r l s4 } } })"

definition read_default_json_desc :: "nat option \<Rightarrow> nat \<Rightarrow> djstate \<Rightarrow> (djstate \<times> int) option" where
  "read_default_json_desc root r s =
     (let type = rec_type (db_mem (fst s)) r; subtype = rec_subtype (db_mem (fst s)) r
      in if type \<le> 0 then Some (s, - EINVAL)
         else do {
           (s1, t) \<leftarrow> d_template type subtype s;
           case t of
             None \<Rightarrow> Some (s1, - EINVAL)
           | Some n \<Rightarrow> do {
               sz \<leftarrow> struct_size (db_es (fst s1)) n;
               case d_dalloc0 sz r s1 of
                 (s2, None) \<Rightarrow> Some (s2, - ENOMEM)
               | (s2, Some d) \<Rightarrow> do { (s3, _) \<leftarrow> d_json_2_struct root d n s2; store_read r d s3 } } })"

text \<open>
  The list of names of a type list or a subtype list at \<open>p\<close>, whose number of elements is at \<open>no\<close> and
  whose uuid is at \<open>uu\<close>: either described in the same tree, or found by the uuid that the tree gives. A list of names
  that cannot be read is given back if \<open>discard\<close> says so.
\<close>

definition list_from_names :: "nat \<Rightarrow> nat \<Rightarrow> bool \<Rightarrow> nat \<Rightarrow> nat option \<Rightarrow> djstate \<Rightarrow> (djstate \<times> int) option" where
  "list_from_names no uu discard p root s =
     (case new_record DB_NAMELIST s of
        (s1, None) \<Rightarrow> Some (s1, - ENOMEM)
      | (s1, Some r) \<Rightarrow> do {
          (s2, ret) \<leftarrow> read_namelist_json_desc root r s1;
          if ret < 0 then Some (if discard then (set_es (free0 r (db_es (fst s2))) (fst s2), snd s2) else s2, ret)
          else
            let m = mcpy (db_mem (fst s2)) (p + uu) r 32; l = rec_data m r
            in if l = 0 then None else Some ((set_dbmem (wr_int m 4 (p + no) (nl_no m l)) (fst s2), snd s2), 0) })"

definition list_from_uuid :: "int \<Rightarrow> nat \<Rightarrow> nat \<Rightarrow> nat \<Rightarrow> nat option \<Rightarrow> djstate \<Rightarrow> (djstate \<times> int) option" where
  "list_from_uuid type no uu p root s =
     do { (s1, t) \<leftarrow> d_template type 0 s;
          case t of
            None \<Rightarrow> Some (s1, - EINVAL)
          | Some n \<Rightarrow> do {
              ((st2, h2), _) \<leftarrow> d_json_2_struct root p n s1;
              (st3, x) \<leftarrow> memdb_find st2 (p + uu) DB_NAMELIST 0;
              case x of
                None \<Rightarrow> Some ((st3, h2), - EINVAL)
              | Some a \<Rightarrow>
                  let m = db_mem st3; l = rec_data m a
                  in if rd_sint m 4 (p + no) \<noteq> 0 then Some ((st3, h2), 0)
                     else if l = 0 then None
                     else Some ((set_dbmem (wr_int m 4 (p + no) (nl_no m l)) st3, h2), 0) } }"

text \<open>
  The types of a new type list are merged into those of the database, whose record gets the merged
  list under the same name. \<open>tname\<close> is the address of \<^verbatim>\<open>"typeenumlist"\<close>. A type list whose
  name list is missing has no tail, and the merge follows \<^verbatim>\<open>NULL\<close>.
\<close>

definition merge_types :: "nat \<Rightarrow> nat \<Rightarrow> dbstate \<Rightarrow> (dbstate \<times> int) option" where
  "merge_types tname r st =
     do { (st1, x) \<leftarrow> memdb_find_byname st tname DB_NAMELIST 0;
          case x of
            None \<Rightarrow> Some (st1, - EINVAL)
          | Some a \<Rightarrow> do {
              l \<leftarrow> (case db_tail st1 r of TailMem l \<Rightarrow> Some l | _ \<Rightarrow> None);
              if rec_data (db_mem st1) a = 0 then None
              else
                case merge_namelist (db_es st1) (rec_data (db_mem st1) a) l of
                  (es, None) \<Rightarrow> Some (set_es es st1, - EINVAL)
                | (es, Some b) \<Rightarrow> do {
                    (st3, ret) \<leftarrow> memdb_remove_byname (set_es es st1) tname DB_NAMELIST 0;
                    if ret < 0 then Some (st3, - EINVAL)
                    else do {
                      (st4, _) \<leftarrow> memdb_store st3 b DB_NAMELIST 0 tname;
                      es5 \<leftarrow> dpointer_set (Some b) (db_base st4 + 24) (db_es st4);
                      Some (set_es es5 st4, ret) } } } }"

definition read_typelist_json_desc :: "nat \<Rightarrow> nat option \<Rightarrow> nat \<Rightarrow> djstate \<Rightarrow> (djstate \<times> int) option" where
  "read_typelist_json_desc tname root r s =
     (case d_dalloc0 36 (r + 88) s of
        (s1, None) \<Rightarrow> Some (s1, - ENOMEM)
      | (s1, Some p) \<Rightarrow>
          if rec_type (db_mem (fst s1)) r \<noteq> DB_TYPELIST then Some (s1, - EINVAL)
          else do {
            (h2, node) \<leftarrow> find_in (ascii ''uuid'') (snd s1) root;
            (s3, ret) \<leftarrow> (if node = None then list_from_names 0 4 False p root (fst s1, h2)
                         else list_from_uuid DB_TYPELIST 0 4 p root (fst s1, h2));
            if ret < 0 then Some (s3, ret)
            else do {
              (st4, _) \<leftarrow> memdb_store_record (set_data r p (fst s3)) r;
              map_option (apfst (\<lambda>st. (st, snd s3))) (merge_types tname r st4) } })"

text \<open>The number of the type that a member names; its string goes through the buffer of value strings.\<close>

definition read_type_member :: "nat \<Rightarrow> nat option \<Rightarrow> djstate \<Rightarrow> (djstate \<times> int) option" where
  "read_type_member p root s =
     do { (h1, node) \<leftarrow> find_in (ascii ''type'') (snd s) root;
          if node = None then Some ((fst s, h1), - EINVAL)
          else
            let (es, name) = put_valuestr (db_es (fst s)) (json_get_valuestr h1 node); st1 = set_es es (fst s)
            in do { n \<leftarrow> (if name = 0 \<and> typeenumlist st1 \<noteq> 0 then None else memdb_get_typeno st1 name);
                    Some ((set_dbmem (wr_int (db_mem st1) 4 p n) st1, h1), if n < 0 then - EINVAL else 0) } }"

definition read_subtypelist_json_desc :: "nat option \<Rightarrow> nat \<Rightarrow> djstate \<Rightarrow> (djstate \<times> int) option" where
  "read_subtypelist_json_desc root r s =
     (case d_dalloc0 40 r s of
        (s1, None) \<Rightarrow> Some (s1, - ENOMEM)
      | (s1, Some p) \<Rightarrow>
          if rec_type (db_mem (fst s1)) r \<noteq> DB_SUBTYPELIST then Some (s1, - EINVAL)
          else do {
            (h2, node) \<leftarrow> find_in (ascii ''uuid'') (snd s1) root;
            (s3, ret) \<leftarrow> (if node = None then do {
                 (s2, ret) \<leftarrow> list_from_names 4 8 True p root (fst s1, h2);
                 if ret < 0 then Some (s2, ret) else read_type_member p root s2 }
               else list_from_uuid DB_SUBTYPELIST 4 8 p root (fst s1, h2));
            if ret < 0 then Some (s3, ret)
            else map_option (apfst (\<lambda>st. (st, snd s3))) (memdb_store_record (set_data r p (fst s3)) r) })"

text \<open>\<open>create_struct_template\<close> of the description that the stored record got as its tail.\<close>

definition memdb_read_struct_template :: "nat option \<Rightarrow> djstate \<Rightarrow> (djstate \<times> nat option) option" where
  "memdb_read_struct_template node s =
     (case new_record DB_STRUCT_DESC s of
        (s1, None) \<Rightarrow> None
      | (s1, Some r) \<Rightarrow> do {
          (s2, ret) \<leftarrow> read_default_json_desc node r s1;
          if ret < 0 then Some (s2, None)
          else
            case db_tail (fst s2) r of
              TailDesc ds \<Rightarrow> do {
                (es, t) \<leftarrow> create_struct_template (db_es (fst s2)) ds;
                Some ((set_es es (fst s2), snd s2), t) }
            | _ \<Rightarrow> None })"

text \<open>
  The uuid of the description of a record type at \<open>p\<close>: of the description in the same tree, or, when the member \<^verbatim>\<open>uuid\<close>
  is no digest, of the description with that name; the member is removed then, so that the conversion does not read it.
\<close>

definition recordtype_from_desc :: "nat \<Rightarrow> nat \<Rightarrow> nat option \<Rightarrow> djstate \<Rightarrow> (djstate \<times> int) option" where
  "recordtype_from_desc p r root s =
     do { (h1, node) \<leftarrow> find_in (ascii ''struct_desc'') (snd s) root;
          if node = None then Some ((fst s, h1), - EINVAL)
          else
            case new_record DB_STRUCT_DESC (fst s, h1) of
              (s2, None) \<Rightarrow> Some (s2, - ENOMEM)
            | (s2, Some x) \<Rightarrow> do {
                (s3, ret) \<leftarrow> read_default_json_desc node x
                   (set_dbmem (mcpy (db_mem (fst s2)) (x + 32) (r + 32) 32) (fst s2), snd s2);
                if ret < 0 then Some (s3, ret)
                else Some ((set_dbmem (mcpy (db_mem (fst s3)) (p + 8) x 32) (fst s3), snd s3), 0) } }"

definition recordtype_from_name :: "nat \<Rightarrow> nat \<Rightarrow> djstate \<Rightarrow> (djstate \<times> int) option" where
  "recordtype_from_name p c s =
     (let (es, a) = put_valuestr (db_es (fst s)) (json_get_valuestr (snd s) (Some c)); st1 = set_es es (fst s)
      in if a = 0 then None
         else if Isvaliduuid (db_mem st1) a then Some ((st1, snd s), 0)
         else do {
           (st2, x) \<leftarrow> memdb_find_byname st1 a DB_STRUCT_DESC 0;
           case x of
             None \<Rightarrow> Some ((st2, snd s), - EINVAL)
           | Some d \<Rightarrow> do {
               (h3, _) \<leftarrow> json_remove_node (snd s) c;
               Some ((set_dbmem (mcpy (db_mem st2) (p + 8) d 32) st2, h3), 0) } })"

definition read_recordtype_json_desc :: "nat option \<Rightarrow> nat \<Rightarrow> djstate \<Rightarrow> (djstate \<times> int) option" where
  "read_recordtype_json_desc root r s =
     (let type = rec_type (db_mem (fst s)) r; subtype = rec_subtype (db_mem (fst s)) r
      in if type \<le> 0 then Some (s, - EINVAL)
         else do {
           (s1, t) \<leftarrow> d_template type subtype s;
           case t of
             None \<Rightarrow> Some (s1, - EINVAL)
           | Some n \<Rightarrow>
               (case d_dalloc0 52 r s1 of
                  (s2, None) \<Rightarrow> Some (s2, - ENOMEM)
                | (s2, Some p) \<Rightarrow> do {
                    (h3, node) \<leftarrow> find_in (ascii ''uuid'') (snd s2) root;
                    (s4, ret) \<leftarrow> (case node of
                        None \<Rightarrow> recordtype_from_desc p r root (fst s2, h3)
                      | Some c \<Rightarrow> recordtype_from_name p c (fst s2, h3));
                    if ret < 0 then Some (s4, ret)
                    else do {
                      (s5, _) \<leftarrow> d_json_2_struct root p n s4;
                      (s6, ret6) \<leftarrow> store_read r p s5;
                      if ret6 < 0 then Some (s6, ret6)
                      else map_option (apfst (\<lambda>st. (st, snd s6)))
                             (memdb_register_dynamicdb (fst s6) (rd_sint (db_mem (fst s6)) 4 p) (rd_sint (db_mem (fst s6)) 4 (p + 4))) } }) })"

section \<open>Any description\<close>

abbreviation (input) DB_CONVERTLIST :: int where "DB_CONVERTLIST \<equiv> 6"

text \<open>The reader that the type of the head selects; a list of conversions is accepted and not stored.\<close>

definition read_record_desc :: "nat \<Rightarrow> nat option \<Rightarrow> nat \<Rightarrow> int \<Rightarrow> djstate \<Rightarrow> (djstate \<times> int) option" where
  "read_record_desc tname node r ret s =
     (let type = rec_type (db_mem (fst s)) r
      in if type \<ge> DB_DTYPE_START then read_default_json_desc node r s
         else if type = DB_NAMELIST then read_namelist_json_desc node r s
         else if type = DB_STRUCT_DESC then read_default_json_desc node r s
         else if type = DB_TYPELIST then read_typelist_json_desc tname node r s
         else if type = DB_SUBTYPELIST then read_subtypelist_json_desc node r s
         else if type = DB_CONVERTLIST then Some (s, ret)
         else if type = DB_RECORDTYPE then read_recordtype_json_desc node r s
         else Some (s, - EINVAL))"

definition memdb_read_desc :: "nat \<Rightarrow> nat option \<Rightarrow> djstate \<Rightarrow> (djstate \<times> int) option" where
  "memdb_read_desc tname root s =
     do { (h1, head) \<leftarrow> find_in (ascii ''head'') (snd s) root;
          if head = None then Some ((fst s, h1), - EINVAL)
          else do {
            (h2, record_node) \<leftarrow> find_in (ascii ''record'') h1 root;
            if record_node = None then Some ((fst s, h2), - EINVAL)
            else
              case new_record 0 (fst s, h2) of
                (s3, None) \<Rightarrow> Some (s3, - ENOMEM)
              | (s3, Some r) \<Rightarrow> do {
                  t \<leftarrow> db_head_template (fst s3);
                  (s4, ret) \<leftarrow> d_json_2_struct head r t s3;
                  if ret < 0 then Some (s4, - EINVAL) else read_record_desc tname record_node r ret s4 } } }"

section \<open>Printing\<close>

definition d_struct_2_json :: "nat \<Rightarrow> nat \<Rightarrow> nat \<Rightarrow> dbstate \<Rightarrow> (dbstate \<times> int) option" where
  "d_struct_2_json addr json t st =
     do { res \<leftarrow> struct_2_json (db_ops st) (db_es st) addr json t; (es, r) \<leftarrow> res; Some (set_es es st, r) }"

definition d_put :: "nat \<Rightarrow> int \<Rightarrow> byte list \<Rightarrow> dbstate \<Rightarrow> dbstate" where
  "d_put json off bs st = set_dbmem (mem_write (db_mem st) (adr_plus json off) bs) st"

text \<open>The text of a record, terminated; the result counts the terminator.\<close>

definition memdb_print :: "dbstate \<Rightarrow> nat \<Rightarrow> nat \<Rightarrow> (dbstate \<times> int) option" where
  "memdb_print st r json =
     do { (st1, t) \<leftarrow> memdb_get_template st (rec_type (db_mem st) r) (rec_subtype (db_mem st) r);
          case t of
            None \<Rightarrow> Some (st1, - EINVAL)
          | Some n \<Rightarrow> do {
              let intro = ''{'' @ [CHR 0x22] @ ''head'' @ [CHR 0x22] @ '':'';
              let st2 = d_put json 0 (ascii intro @ [0]) st1;
              let off2 = int (length intro);
              ht \<leftarrow> db_head_template st2;
              (st3, r3) \<leftarrow> d_struct_2_json r (adr_plus json off2) ht st2;
              if r3 < 0 then Some (st3, r3)
              else do {
                let sep = '','' @ [CHR 0x22] @ ''record'' @ [CHR 0x22] @ '':'';
                let st4 = d_put json (off2 + r3) (ascii sep) st3;
                let off4 = off2 + r3 + int (length sep);
                if rec_data (db_mem st4) r = 0 then None
                else do {
                  (st5, r5) \<leftarrow> d_struct_2_json (rec_data (db_mem st4) r) (adr_plus json off4) n st4;
                  if r5 < 0 then Some (st5, r5)
                  else Some (d_put json (off4 + r5) [125, 0] st5, off4 + r5 + 2) } } } }"

text \<open>What the head of a record tells; \<open>0\<close> is \<^verbatim>\<open>NULL\<close>.\<close>

definition memdb_get_elem_type :: "mem \<Rightarrow> nat \<Rightarrow> int" where
  "memdb_get_elem_type m elem = (if elem = 0 then - EINVAL else rec_type m elem)"

definition memdb_get_elem_subtype :: "mem \<Rightarrow> nat \<Rightarrow> int" where
  "memdb_get_elem_subtype m elem = (if elem = 0 then - EINVAL else rec_subtype m elem)"

definition memdb_is_dynamic :: "int \<Rightarrow> int" where
  "memdb_is_dynamic type = (if type \<ge> DB_DTYPE_START then 1 else 0)"

text \<open>A record is given back with its structure; the blocks that are given back are listed beside the state.\<close>

definition memdb_free_record :: "nat \<Rightarrow> dbstate \<times> nat list \<Rightarrow> ((dbstate \<times> nat list) \<times> int) option" where
  "memdb_free_record r s =
     do { (st1, t) \<leftarrow> memdb_get_template (fst s) (rec_type (db_mem (fst s)) r) (rec_subtype (db_mem (fst s)) r);
          case t of
            None \<Rightarrow> Some ((st1, snd s), - EINVAL)
          | Some n \<Rightarrow> do {
              ((es, freed), ret) \<leftarrow> struct_free (rec_data (db_mem st1) r) n (db_es st1, snd s);
              if ret < 0 then Some ((set_es es st1, freed), - EINVAL)
              else do {
                let st2 = set_es (free0 r es) st1;
                (es3, freed3) \<leftarrow> free_block r (db_es st2, freed);
                Some ((set_es es3 st2, freed3), 0) } } }"

end
