(* ===== verification/Cube_Message.thy ===== *)
theory Cube_Message
  imports Cube_Memdb Cube_Crypto
begin

text \<open>
  Messages, \<^verbatim>\<open>cubelib/message/message.c\<close>. A \<^verbatim>\<open>struct message_box\<close> lies in the byte memory as the compiler packs it: the
  \<^verbatim>\<open>MSG_HEAD\<close> in its first 180 bytes, then the templates, the state of the box, the arrays of records and
  expands, the blob and the pointers of the router. The three arrays of the records share one block, the
  blobs first, then the structures, then the sizes; so do those of the expands. A template pointer holds the number
  of the node plus one. Memory that is freed keeps its bytes. Where the code follows \<^verbatim>\<open>NULL\<close>, uses a variable it
  has not set or copies a negative number of bytes there is no result.
\<close>

section \<open>The state\<close>

record tag_msg_kits =
  kit_type :: int
  kit_head_template :: nat
  kit_expand_head_template :: nat
  kit_expand_bin_template :: nat

text \<open>
  \<open>ms_lit\<close> gives the addresses of the string literals, \<open>ms_random\<close> what the reads of \<^verbatim>\<open>/dev/urandom\<close> yield: 32 bytes,
  or the code that \<^verbatim>\<open>get_random_uuid\<close> returns otherwise.
\<close>

record mstate =
  ms_db :: dbstate
  ms_kits :: "tag_msg_kits option"
  ms_lit :: "string \<Rightarrow> nat"
  ms_random :: "nat \<Rightarrow> int + byte list"
  ms_draws :: nat

abbreviation mm :: "mstate \<Rightarrow> mem" where "mm st \<equiv> db_mem (ms_db st)"

abbreviation ms_stack :: "mstate \<Rightarrow> nat" where "ms_stack st \<equiv> es_stack (db_es (ms_db st))"

definition set_mm :: "mem \<Rightarrow> mstate \<Rightarrow> mstate" where "set_mm m st = st\<lparr>ms_db := set_dbmem m (ms_db st)\<rparr>"

abbreviation ri :: "mstate \<Rightarrow> nat \<Rightarrow> int" where "ri st a \<equiv> rd_sint (mm st) 4 a"
abbreviation rp :: "mstate \<Rightarrow> nat \<Rightarrow> nat" where "rp st a \<equiv> get_ptr (mm st) a"

definition wi :: "nat \<Rightarrow> int \<Rightarrow> mstate \<Rightarrow> mstate" where "wi a v st = set_mm (wr_int (mm st) 4 a v) st"
definition wp :: "nat \<Rightarrow> nat \<Rightarrow> mstate \<Rightarrow> mstate" where "wp a p st = set_mm (put_ptr (mm st) a p) st"
definition mcopy :: "nat \<Rightarrow> nat \<Rightarrow> int \<Rightarrow> mstate \<Rightarrow> mstate" where "mcopy dest src n st = set_mm (mcpy (mm st) dest src n) st"

text \<open>\<^verbatim>\<open>memcpy\<close> of the C library, whose count is unsigned.\<close>

definition cmemcpy :: "nat \<Rightarrow> nat \<Rightarrow> int \<Rightarrow> mstate \<Rightarrow> mstate option" where
  "cmemcpy dest src n st = (if n < 0 then None else Some (set_mm (memcpy_loop (mm st) dest src (nat n)) st))"

text \<open>The operations of the layers below, on the state of the messages; \<open>0\<close> is \<^verbatim>\<open>NULL\<close>.\<close>

definition on_es :: "(estate \<Rightarrow> estate \<times> nat option) \<Rightarrow> mstate \<Rightarrow> mstate \<times> nat" where
  "on_es f st = (let (es, p) = f (db_es (ms_db st)) in (st\<lparr>ms_db := set_es es (ms_db st)\<rparr>, case p of None \<Rightarrow> 0 | Some a \<Rightarrow> a))"

definition on_struct :: "(estate \<Rightarrow> (estate \<times> 'a) option option) \<Rightarrow> mstate \<Rightarrow> (mstate \<times> 'a) option" where
  "on_struct f st =
     do { res \<leftarrow> f (db_es (ms_db st)); (es, r) \<leftarrow> res; Some (st\<lparr>ms_db := set_es es (ms_db st)\<rparr>, r) }"

definition on_db :: "(dbstate \<Rightarrow> (dbstate \<times> 'a) option) \<Rightarrow> mstate \<Rightarrow> (mstate \<times> 'a) option" where
  "on_db f st = do { (db, r) \<leftarrow> f (ms_db st); Some (st\<lparr>ms_db := db\<rparr>, r) }"

definition m_dalloc0 :: "int \<Rightarrow> nat \<Rightarrow> mstate \<Rightarrow> mstate \<times> nat" where "m_dalloc0 sz b = on_es (dalloc0 sz b)"
definition m_dalloc :: "int \<Rightarrow> nat \<Rightarrow> mstate \<Rightarrow> mstate \<times> nat" where "m_dalloc sz b = on_es (alloc_with (\<lambda>m a s. Dalloc m a s b) sz)"
definition m_talloc0 :: "int \<Rightarrow> mstate \<Rightarrow> mstate \<times> nat" where "m_talloc0 sz = on_es (talloc0 sz)"
definition m_talloc :: "int \<Rightarrow> mstate \<Rightarrow> mstate \<times> nat" where "m_talloc sz = on_es (talloc sz)"
definition m_calloc0 :: "int \<Rightarrow> mstate \<Rightarrow> mstate \<times> nat" where "m_calloc0 sz = on_es (calloc0 sz)"

definition m_malloc :: "mstate \<Rightarrow> mstate \<times> nat" where
  "m_malloc = on_es (\<lambda>es. (es\<lparr>es_calls := es_calls es + 1\<rparr>, es_malloc es (es_calls es)))"

definition tmpl_ptr :: "nat option \<Rightarrow> nat" where "tmpl_ptr t = (case t of None \<Rightarrow> 0 | Some n \<Rightarrow> n + 1)"

definition get_template :: "int \<Rightarrow> int \<Rightarrow> mstate \<Rightarrow> (mstate \<times> nat) option" where
  "get_template type subtype = on_db (\<lambda>db. map_option (apsnd tmpl_ptr) (memdb_get_template db type subtype))"

text \<open>The conversions with a template pointer \<open>t\<close>; null pointers are followed by the code.\<close>

definition m_struct_size :: "mstate \<Rightarrow> nat \<Rightarrow> int option" where
  "m_struct_size st t = (if t = 0 then None else struct_size (db_es (ms_db st)) (t - 1))"

definition m_struct_2_blob :: "nat \<Rightarrow> nat \<Rightarrow> nat \<Rightarrow> mstate \<Rightarrow> (mstate \<times> int) option" where
  "m_struct_2_blob addr blob t st = (if t = 0 \<or> addr = 0 then None else on_struct (\<lambda>es. struct_2_blob es addr blob (t - 1)) st)"

definition m_blob_2_struct :: "nat \<Rightarrow> nat \<Rightarrow> nat \<Rightarrow> mstate \<Rightarrow> (mstate \<times> int) option" where
  "m_blob_2_struct blob addr t st = (if t = 0 \<or> blob = 0 then None else on_struct (\<lambda>es. blob_2_struct es blob addr (t - 1)) st)"

definition m_struct_clone :: "nat \<Rightarrow> nat \<Rightarrow> nat \<Rightarrow> mstate \<Rightarrow> (mstate \<times> int) option" where
  "m_struct_clone src dest t st = (if t = 0 \<or> src = 0 \<or> dest = 0 then None else on_struct (\<lambda>es. struct_clone es src dest (t - 1)) st)"

definition m_clone_struct :: "nat \<Rightarrow> nat \<Rightarrow> mstate \<Rightarrow> (mstate \<times> nat) option" where
  "m_clone_struct addr t st =
     (if t = 0 \<or> addr = 0 then None
      else map_option (apsnd (\<lambda>p. case p of None \<Rightarrow> 0 | Some a \<Rightarrow> a)) (on_struct (\<lambda>es. clone_struct es addr (t - 1)) st))"

section \<open>The layout of a message box\<close>

abbreviation (input) MH_VERSION :: nat where "MH_VERSION \<equiv> 4"
abbreviation (input) MH_SENDER :: nat where "MH_SENDER \<equiv> 8"
abbreviation (input) MH_RECEIVER :: nat where "MH_RECEIVER \<equiv> 40"
abbreviation (input) MH_ROUTE :: nat where "MH_ROUTE \<equiv> 72"
abbreviation (input) MH_FLOW :: nat where "MH_FLOW \<equiv> 104"
abbreviation (input) MH_STATE :: nat where "MH_STATE \<equiv> 108"
abbreviation (input) MH_FLAG :: nat where "MH_FLAG \<equiv> 112"
abbreviation (input) MH_LJUMP :: nat where "MH_LJUMP \<equiv> 116"
abbreviation (input) MH_RJUMP :: nat where "MH_RJUMP \<equiv> 120"
abbreviation (input) MH_TYPE :: nat where "MH_TYPE \<equiv> 124"
abbreviation (input) MH_SUBTYPE :: nat where "MH_SUBTYPE \<equiv> 128"
abbreviation (input) MH_RECORD_NUM :: nat where "MH_RECORD_NUM \<equiv> 132"
abbreviation (input) MH_RECORD_SIZE :: nat where "MH_RECORD_SIZE \<equiv> 136"
abbreviation (input) MH_EXPAND_NUM :: nat where "MH_EXPAND_NUM \<equiv> 140"
abbreviation (input) MH_EXPAND_SIZE :: nat where "MH_EXPAND_SIZE \<equiv> 144"
abbreviation (input) MH_NONCE :: nat where "MH_NONCE \<equiv> 148"
abbreviation (input) MB_HEAD_TEMPLATE :: nat where "MB_HEAD_TEMPLATE \<equiv> 180"
abbreviation (input) MB_RECORD_TEMPLATE :: nat where "MB_RECORD_TEMPLATE \<equiv> 188"
abbreviation (input) MB_STATE :: nat where "MB_STATE \<equiv> 196"
abbreviation (input) MB_HEAD_SIZE :: nat where "MB_HEAD_SIZE \<equiv> 200"
abbreviation (input) MB_RECORD :: nat where "MB_RECORD \<equiv> 204"
abbreviation (input) MB_PRECORD :: nat where "MB_PRECORD \<equiv> 212"
abbreviation (input) MB_RSIZES :: nat where "MB_RSIZES \<equiv> 220"
abbreviation (input) MB_EXPAND :: nat where "MB_EXPAND \<equiv> 228"
abbreviation (input) MB_PEXPAND :: nat where "MB_PEXPAND \<equiv> 236"
abbreviation (input) MB_ESIZES :: nat where "MB_ESIZES \<equiv> 244"
abbreviation (input) MB_BLOB :: nat where "MB_BLOB \<equiv> 252"
abbreviation (input) MB_OFFSET :: nat where "MB_OFFSET \<equiv> 260"
abbreviation (input) MB_POLICY :: nat where "MB_POLICY \<equiv> 264"
abbreviation (input) MB_ACTIVE :: nat where "MB_ACTIVE \<equiv> 272"
abbreviation (input) MB_PATH_SITE :: nat where "MB_PATH_SITE \<equiv> 280"
abbreviation (input) MSG_HEAD_SIZE :: int where "MSG_HEAD_SIZE \<equiv> 180"
abbreviation (input) MSG_BOX_SIZE :: int where "MSG_BOX_SIZE \<equiv> 288"
abbreviation (input) MSG_EXPAND_HEAD_SIZE :: int where "MSG_EXPAND_HEAD_SIZE \<equiv> 12"
abbreviation (input) MSG_EXPAND_SIZE :: int where "MSG_EXPAND_SIZE \<equiv> 20"

abbreviation (input) MSG_BOX_INIT :: int where "MSG_BOX_INIT \<equiv> 1"
abbreviation (input) MSG_BOX_ADD :: int where "MSG_BOX_ADD \<equiv> 2"
abbreviation (input) MSG_BOX_EXPAND :: int where "MSG_BOX_EXPAND \<equiv> 3"
abbreviation (input) MSG_BOX_LOADDATA :: int where "MSG_BOX_LOADDATA \<equiv> 0x1000"
abbreviation (input) MSG_BOX_REBUILDING :: int where "MSG_BOX_REBUILDING \<equiv> 0x1001"
abbreviation (input) MSG_FLAG_CRYPT :: int where "MSG_FLAG_CRYPT \<equiv> 0x10"
abbreviation (input) MESSAGE_VERSION :: int where "MESSAGE_VERSION \<equiv> 0x00010001"
abbreviation (input) MAX_EXPAND_NUM :: int where "MAX_EXPAND_NUM \<equiv> 10"
abbreviation (input) DTYPE_MESSAGE :: int where "DTYPE_MESSAGE \<equiv> 0x200"
abbreviation (input) DTYPE_MSG_EXPAND :: int where "DTYPE_MSG_EXPAND \<equiv> 0x201"
abbreviation (input) SUBTYPE_EXPAND :: int where "SUBTYPE_EXPAND \<equiv> 2"
abbreviation (input) SUBTYPE_TYPES :: int where "SUBTYPE_TYPES \<equiv> 9"

text \<open>Entry \<open>i\<close> of an array of pointers or of ints.\<close>

definition at8 :: "nat \<Rightarrow> int \<Rightarrow> nat" where "at8 a i = adr_plus a (8 * i)"
definition at4 :: "nat \<Rightarrow> int \<Rightarrow> nat" where "at4 a i = adr_plus a (4 * i)"

section \<open>Heads and attributes\<close>

definition message_get_head :: "nat \<Rightarrow> nat" where "message_get_head b = b"

definition message_get_expand_template :: "mstate \<Rightarrow> nat option" where
  "message_get_expand_template st = map_option kit_expand_head_template (ms_kits st)"

definition message_get_expand_bin_template :: "mstate \<Rightarrow> nat option" where
  "message_get_expand_bin_template st = map_option kit_expand_bin_template (ms_kits st)"

text \<open>Attributes with and without a test of the message pointer.\<close>

definition checked_get :: "mstate \<Rightarrow> nat \<Rightarrow> nat \<Rightarrow> int" where
  "checked_get st b off = (if b = 0 then - EINVAL else ri st (b + off))"

definition checked_set :: "mstate \<Rightarrow> nat \<Rightarrow> nat \<Rightarrow> int \<Rightarrow> mstate \<times> int" where
  "checked_set st b off v = (if b = 0 then (st, - EINVAL) else (wi (b + off) v st, 0))"

definition message_get_state :: "mstate \<Rightarrow> nat \<Rightarrow> int" where "message_get_state st b = checked_get st b MH_STATE"
definition message_get_flow :: "mstate \<Rightarrow> nat \<Rightarrow> int" where "message_get_flow st b = checked_get st b MH_FLOW"
definition message_get_type :: "mstate \<Rightarrow> nat \<Rightarrow> int" where "message_get_type st b = checked_get st b MH_TYPE"
definition message_get_subtype :: "mstate \<Rightarrow> nat \<Rightarrow> int" where "message_get_subtype st b = checked_get st b MH_SUBTYPE"
definition message_set_flag :: "mstate \<Rightarrow> nat \<Rightarrow> int \<Rightarrow> mstate \<times> int" where "message_set_flag st b v = checked_set st b MH_FLAG v"
definition message_set_state :: "mstate \<Rightarrow> nat \<Rightarrow> int \<Rightarrow> mstate \<times> int" where "message_set_state st b v = checked_set st b MH_STATE v"
definition message_set_flow :: "mstate \<Rightarrow> nat \<Rightarrow> int \<Rightarrow> mstate \<times> int" where "message_set_flow st b v = checked_set st b MH_FLOW v"

definition message_get_flag :: "mstate \<Rightarrow> nat \<Rightarrow> int option" where
  "message_get_flag st b = (if b = 0 then None else Some (ri st (b + MH_FLAG)))"

definition message_get_policy :: "mstate \<Rightarrow> nat \<Rightarrow> nat option" where
  "message_get_policy st b = (if b = 0 then None else Some (rp st (b + MB_POLICY)))"

definition message_set_policy :: "mstate \<Rightarrow> nat \<Rightarrow> nat \<Rightarrow> mstate \<times> int" where
  "message_set_policy st b p = (if b = 0 then (st, - EINVAL) else (wp (b + MB_POLICY) p st, 0))"

text \<open>The functions that return a pointer give \<^verbatim>\<open>-EINVAL\<close> as an address.\<close>

abbreviation (input) einval_ptr :: nat where "einval_ptr \<equiv> 2 ^ 64 - 22"

definition message_set_activemsg :: "mstate \<Rightarrow> nat \<Rightarrow> nat \<Rightarrow> mstate \<times> nat" where
  "message_set_activemsg st b active =
     (if b = 0 then (st, einval_ptr) else let st1 = wp (b + MB_ACTIVE) active st in (st1, rp st1 (b + MB_ACTIVE)))"

definition message_get_activemsg :: "mstate \<Rightarrow> nat \<Rightarrow> nat" where
  "message_get_activemsg st b = (if b = 0 then einval_ptr else rp st (b + MB_ACTIVE))"

definition message_get_sender :: "nat \<Rightarrow> nat" where "message_get_sender b = (if b = 0 then 0 else b + MH_SENDER)"
definition message_get_receiver :: "nat \<Rightarrow> nat" where "message_get_receiver b = (if b = 0 then 0 else b + MH_RECEIVER)"

definition message_get_uuid :: "mstate \<Rightarrow> nat \<Rightarrow> nat \<Rightarrow> mstate \<times> int" where
  "message_get_uuid st b uuid = (if b = 0 then (st, - EINVAL) else (mcopy uuid (b + MH_NONCE) 32 st, 32))"

definition message_set_route :: "mstate \<Rightarrow> nat \<Rightarrow> nat \<Rightarrow> (mstate \<times> int) option" where
  "message_set_route st b route =
     (if b = 0 then Some (st, - EINVAL)
      else do { len \<leftarrow> Strlen (mm st) route;
                Some (mcopy (b + MH_ROUTE) route (if len < 32 then int len + 1 else 32) st, 0) })"

text \<open>
  Names of the sender and of the receiver: a text of 64 characters is decoded as a digest, but the text is then
  copied over the result.
\<close>

definition set_name :: "mstate \<Rightarrow> nat \<Rightarrow> nat \<Rightarrow> (mstate \<times> int) option" where
  "set_name st field name =
     do { let st1 = set_mm (fst (Memset (mm st) field 0 32)) st;
          len \<leftarrow> Strlen (mm st1) name;
          if len = 64 then
            (let (d, r) = uuid_to_digest (mem_bytes (mm st1) name 64) (mem_bytes (mm st1) field 32);
                 st2 = set_mm (mem_write (mm st1) field d) st1
             in if r < 0 then Some (st2, r)
                else map_option (\<lambda>(m, _). (set_mm m st2, 0)) (Strncpy (mm st2) field name 24))
          else if len > 24 then Some (st1, - EINVAL)
          else map_option (\<lambda>(m, _). (set_mm m st1, 0)) (Strncpy (mm st1) field name 24) }"

definition set_name_uuid :: "mstate \<Rightarrow> nat \<Rightarrow> nat \<Rightarrow> (mstate \<times> int) option" where
  "set_name_uuid st field uuid =
     (let st1 = set_mm (fst (Memset (mm st) field 0 32)) st
      in if Isstrinuuid (mm st1) (ms_stack st) uuid then map_option (\<lambda>(m, _). (set_mm m st1, 0)) (Strncpy (mm st1) field uuid 24)
         else Some (mcopy field uuid 32 st1, 0))"

definition message_set_sender :: "mstate \<Rightarrow> nat \<Rightarrow> nat \<Rightarrow> (mstate \<times> int) option" where
  "message_set_sender st b sender = (if b = 0 then Some (st, - EINVAL) else set_name st (b + MH_SENDER) sender)"

definition message_set_receiver :: "mstate \<Rightarrow> nat \<Rightarrow> nat \<Rightarrow> (mstate \<times> int) option" where
  "message_set_receiver st b receiver = (if b = 0 then Some (st, - EINVAL) else set_name st (b + MH_RECEIVER) receiver)"

definition message_set_sender_uuid :: "mstate \<Rightarrow> nat \<Rightarrow> nat \<Rightarrow> (mstate \<times> int) option" where
  "message_set_sender_uuid st b uuid =
     (if b = 0 then Some (st, - EINVAL) else set_name_uuid st (b + MH_SENDER) uuid)"

definition message_set_receiver_uuid :: "mstate \<Rightarrow> nat \<Rightarrow> nat \<Rightarrow> (mstate \<times> int) option" where
  "message_set_receiver_uuid st b uuid =
     (if b = 0 then Some (st, - EINVAL) else set_name_uuid st (b + MH_RECEIVER) uuid)"

definition message_get_blob :: "mstate \<Rightarrow> nat \<Rightarrow> int \<times> nat option" where
  "message_get_blob st b =
     (if b = 0 then (- EINVAL, None)
      else if rp st (b + MB_BLOB) = 0 then (0, None)
      else (ri st (b + MH_RECORD_SIZE), Some (rp st (b + MB_BLOB))))"

definition message_set_blob :: "mstate \<Rightarrow> nat \<Rightarrow> nat \<Rightarrow> int \<Rightarrow> mstate \<times> int" where
  "message_set_blob st b blob sz =
     (if b = 0 then (st, 0) else (wi (b + MH_RECORD_SIZE) sz (wp (b + MB_BLOB) blob st), sz))"

section \<open>Creating messages\<close>

definition msg_load_template :: "mstate \<Rightarrow> int \<Rightarrow> string \<Rightarrow> (mstate \<times> nat) option" where
  "msg_load_template st type name =
     do { (st1, subtype) \<leftarrow> on_db (\<lambda>db. memdb_get_subtypeno db type (ms_lit st name)) st;
          if subtype < 0 then Some (st1, 0) else get_template type subtype st1 }"

definition msgfunc_init :: "mstate \<Rightarrow> (mstate \<times> int) option" where
  "msgfunc_init st =
     do { (es, _) \<leftarrow> salloc0 32 (db_es (ms_db st));
          let st1 = st\<lparr>ms_db := set_es es (ms_db st)\<rparr>;
          type \<leftarrow> memdb_get_typeno (ms_db st1) (ms_lit st ''MESSAGE'');
          let kits = \<lparr>kit_type = type, kit_head_template = 0, kit_expand_head_template = 0, kit_expand_bin_template = 0\<rparr>;
          if type < 0 then Some (st1\<lparr>ms_kits := Some kits\<rparr>, type)
          else do {
            (st2, h) \<leftarrow> msg_load_template (st1\<lparr>ms_kits := Some kits\<rparr>) type ''HEAD'';
            let kits = kits\<lparr>kit_head_template := h\<rparr>;
            if h = 0 then Some (st2\<lparr>ms_kits := Some kits\<rparr>, - EINVAL)
            else do {
              (st3, e) \<leftarrow> msg_load_template (st2\<lparr>ms_kits := Some kits\<rparr>) type ''EXPAND'';
              let kits = kits\<lparr>kit_expand_bin_template := e\<rparr>;
              if e = 0 then Some (st3\<lparr>ms_kits := Some kits\<rparr>, - EINVAL)
              else do {
                (st4, x) \<leftarrow> msg_load_template (st3\<lparr>ms_kits := Some kits\<rparr>) type ''EXPAND_HEAD'';
                Some (st4\<lparr>ms_kits := Some (kits\<lparr>kit_expand_head_template := x\<rparr>)\<rparr>, if x = 0 then - EINVAL else 0) } } } }"

definition message_init :: "mstate \<Rightarrow> (mstate \<times> nat) option" where
  "message_init st =
     (let (st1, b) = m_calloc0 MSG_BOX_SIZE st
      in if b = 0 then Some (st1, 0)
         else do { kits \<leftarrow> ms_kits st;
                   Some (wi (b + MB_STATE) MSG_BOX_INIT (wp (b + MB_HEAD_TEMPLATE) (kit_head_template kits)
                     (wi (b + MH_VERSION) MESSAGE_VERSION (set_mm (mem_write (mm st1) b (ascii ''MESG'')) st1))), b) })"

text \<open>
  The block with the three arrays of \<open>num\<close> entries, whose addresses go to the box fields \<open>f\<close>, \<open>f + 8\<close> and \<open>f + 16\<close>.
\<close>

definition new_sites :: "nat \<Rightarrow> nat \<Rightarrow> int \<Rightarrow> mstate \<Rightarrow> mstate \<times> bool" where
  "new_sites b f num st =
     (let (st1, r) = m_dalloc0 (20 * num) b st; st2 = wp (b + f) r st1
      in if r = 0 then (st2, False)
         else (wp (b + (f + 16)) (at8 r (2 * num)) (wp (b + (f + 8)) (at8 r num) st2), True))"

definition message_alloc_record_site :: "mstate \<Rightarrow> nat \<Rightarrow> mstate \<times> int" where
  "message_alloc_record_site st b =
     (let num = ri st (b + MH_RECORD_NUM)
      in if b = 0 then (st, - EINVAL)
         else if num > 0 then apsnd (\<lambda>ok. if ok then 0 else - ENOMEM) (new_sites b MB_RECORD num st)
         else (st, 0))"

definition message_alloc_expand_site :: "mstate \<Rightarrow> nat \<Rightarrow> mstate \<times> int" where
  "message_alloc_expand_site st b =
     (let num = ri st (b + MH_EXPAND_NUM)
      in if b = 0 then (st, - EINVAL)
         else if num > 0 then apsnd (\<lambda>ok. if ok then 0 else - ENOMEM) (new_sites b MB_EXPAND num st)
         else (st, 0))"

definition message_record_init :: "mstate \<Rightarrow> nat \<Rightarrow> (mstate \<times> int) option" where
  "message_record_init st b =
     (if b = 0 then Some (st, - EINVAL)
      else do { (st1, t) \<leftarrow> get_template (ri st (b + MH_TYPE)) (ri st (b + MH_SUBTYPE)) st;
                let st2 = wp (b + MB_RECORD_TEMPLATE) t st1;
                if t = 0 then Some (st2, - EINVAL) else Some (fst (message_alloc_record_site st2 b), 0) })"

definition message_load_record_template :: "mstate \<Rightarrow> nat \<Rightarrow> (mstate \<times> nat) option" where
  "message_load_record_template st b =
     (if b = 0 then None
      else if rp st (b + MB_RECORD_TEMPLATE) \<noteq> 0 then Some (st, rp st (b + MB_RECORD_TEMPLATE))
      else do { (st1, t) \<leftarrow> get_template (ri st (b + MH_TYPE)) (ri st (b + MH_SUBTYPE)) st;
                Some (wp (b + MB_RECORD_TEMPLATE) t st1, t) })"

text \<open>\<^verbatim>\<open>get_random_uuid\<close> into the nonce.\<close>

definition random_nonce :: "mstate \<Rightarrow> nat \<Rightarrow> mstate \<times> int" where
  "random_nonce st addr =
     (let st1 = st\<lparr>ms_draws := ms_draws st + 1\<rparr>
      in case ms_random st (ms_draws st) of
           Inl r \<Rightarrow> (st1, r)
         | Inr bs \<Rightarrow> (set_mm (mem_write (mm st1) addr bs) st1, 32))"

definition message_create :: "mstate \<Rightarrow> int \<Rightarrow> int \<Rightarrow> nat \<Rightarrow> (mstate \<times> nat) option" where
  "message_create st type subtype active =
     do { (st1, b) \<leftarrow> message_init st;
          if b = 0 then Some (st1, 0)
          else do {
            let st2 = wi (b + MH_STATE) MSG_BOX_INIT (wi (b + MB_STATE) MSG_BOX_INIT
                  (wi (b + MH_SUBTYPE) subtype (wi (b + MH_TYPE) type st1)));
            (st3, r) \<leftarrow> message_record_init st2 b;
            if r < 0 then Some (st3, 0)
            else let st4 = wp (b + MB_ACTIVE) active st3
                 in if active = 0 then
                      (let (st5, k) = random_nonce st4 (b + MH_NONCE) in Some (st5, if k \<le> 0 then 0 else b))
                    else Some (mcopy (b + MH_NONCE) (active + MH_NONCE) 32 st4, b) } }"

section \<open>Adding records\<close>

text \<open>Growing the arrays at the field \<open>f\<close> with the counter at \<open>c\<close>: the old entries are copied to the new block.\<close>

definition add_sites :: "mstate \<Rightarrow> nat \<Rightarrow> nat \<Rightarrow> nat \<Rightarrow> int \<Rightarrow> (mstate \<times> int) option" where
  "add_sites st b c f increment =
     (let no = ri st (b + c); st1 = wi (b + c) (no + increment) st;
          old = (\<lambda>i. rp st1 (b + (f + 8 * i)));
          (st2, ok) = new_sites b f (ri st1 (b + c)) st1
      in if \<not> ok then Some (st2, - ENOMEM)
         else if no > 0 then
           do { st3 \<leftarrow> cmemcpy (rp st2 (b + f)) (old 0) (8 * no) st2;
                st4 \<leftarrow> cmemcpy (rp st3 (b + (f + 8))) (old 1) (8 * no) st3;
                st5 \<leftarrow> cmemcpy (rp st4 (b + (f + 16))) (old 2) (4 * no) st4;
                Some (st5, 0) }
         else Some (st2, 0))"

definition message_add_record_site :: "mstate \<Rightarrow> nat \<Rightarrow> int \<Rightarrow> (mstate \<times> int) option" where
  "message_add_record_site st b increment =
     (if b = 0 then Some (st, - EINVAL) else add_sites st b MH_RECORD_NUM MB_RECORD increment)"

text \<open>The first site at or behind \<open>i\<close> with neither a structure nor a blob, within the next \<open>k\<close>.\<close>

fun free_site :: "mem \<Rightarrow> nat \<Rightarrow> nat \<Rightarrow> int \<Rightarrow> nat \<Rightarrow> int" where
  "free_site m precord rec i 0 = i"
| "free_site m precord rec i (Suc k) =
     (if get_ptr m (at8 precord i) = 0 \<and> get_ptr m (at8 rec i) = 0 then i else free_site m precord rec (i + 1) k)"

text \<open>
  The search for a site in \<^verbatim>\<open>message_add_record\<close> and \<^verbatim>\<open>message_add_record_blob\<close>; the return code is set only when a new
  site is added, so with a free site there is no result.
\<close>

definition record_site :: "mstate \<Rightarrow> nat \<Rightarrow> (mstate \<times> int \<times> int) option" where
  "record_site st b =
     (let no = ri st (b + MH_RECORD_NUM);
          site = free_site (mm st) (rp st (b + MB_PRECORD)) (rp st (b + MB_RECORD)) 0 (nat no)
      in if site = no then map_option (\<lambda>(st1, r). (st1, site, r)) (message_add_record_site st b 1) else None)"

definition message_add_record :: "mstate \<Rightarrow> nat \<Rightarrow> nat \<Rightarrow> (mstate \<times> int) option" where
  "message_add_record st b rec =
     (if b = 0 then Some (st, - EINVAL)
      else if rec = 0 then Some (st, - EINVAL)
      else do {
        (st1, site, r) \<leftarrow> record_site st b;
        let t = rp st1 (b + MB_RECORD_TEMPLATE);
        if r < 0 then Some (st1, r)
        else if t = 0 then Some (st1, - EINVAL)
        else do {
          sz \<leftarrow> m_struct_size st1 t;
          let (st2, p) = m_dalloc0 sz b st1;
          let slot = at8 (rp st2 (b + MB_PRECORD)) site;
          let st3 = wp slot p st2;
          if p = 0 then Some (st3, - ENOMEM)
          else do {
            (st4, k) \<leftarrow> m_struct_clone rec p t st3;
            if k < 0 then Some (st4, k) else Some (wi (b + MB_STATE) MSG_BOX_ADD st4, k) } } })"

definition message_add_record_blob :: "mstate \<Rightarrow> nat \<Rightarrow> int \<Rightarrow> nat \<Rightarrow> (mstate \<times> int) option" where
  "message_add_record_blob st b record_size rec =
     (if b = 0 then Some (st, - EINVAL)
      else if rec = 0 then Some (st, - EINVAL)
      else do {
        let record_no = ri st (b + MH_RECORD_NUM);
        (st1, _, r) \<leftarrow> record_site st b;
        if r < 0 then Some (st1, r)
        else
          let (st2, data) = m_dalloc record_size b st1
          in if data = 0 then Some (st2, - ENOMEM)
             else do {
               st3 \<leftarrow> cmemcpy data rec record_size st2;
               let st4 = wp (at8 (rp st3 (b + MB_RECORD)) record_no) data st3;
               let st5 = wi (at4 (rp st4 (b + MB_RSIZES)) record_no) record_size st4;
               let st6 = wi (b + MH_RECORD_SIZE) (ri st5 (b + MH_RECORD_SIZE) + record_size) st5;
               Some (wi (b + MB_STATE) MSG_BOX_ADD st6, r) } })"

section \<open>Adding expands\<close>

text \<open>The head of an expand: the size of its data, its type and subtype, and the pointer to its structure.\<close>

definition ex_data_size :: "mem \<Rightarrow> nat \<Rightarrow> int" where "ex_data_size m e = rd_sint m 4 e"
definition ex_type :: "mem \<Rightarrow> nat \<Rightarrow> int" where "ex_type m e = rd_sint m 4 (e + 4)"
definition ex_subtype :: "mem \<Rightarrow> nat \<Rightarrow> int" where "ex_subtype m e = rd_sint m 4 (e + 8)"
definition ex_expand :: "mem \<Rightarrow> nat \<Rightarrow> nat" where "ex_expand m e = get_ptr m (e + 12)"

definition message_add_expand_site :: "mstate \<Rightarrow> nat \<Rightarrow> int \<Rightarrow> (mstate \<times> int) option" where
  "message_add_expand_site st b increment =
     (if b = 0 then Some (st, - EINVAL) else add_sites st b MH_EXPAND_NUM MB_EXPAND increment)"

definition message_add_expand :: "mstate \<Rightarrow> nat \<Rightarrow> nat \<Rightarrow> (mstate \<times> int) option" where
  "message_add_expand st b expand =
     (if b = 0 then Some (st, - EINVAL)
      else if expand = 0 then Some (st, - EINVAL)
      else do {
        let curr_site = ri st (b + MH_EXPAND_NUM);
        (st1, r) \<leftarrow> message_add_expand_site st b 1;
        if r < 0 then Some (st1, - EINVAL)
        else do {
          let (st2, e) = m_dalloc0 MSG_EXPAND_SIZE b st1;
          if e = 0 then Some (st2, - ENOMEM)
          else do {
            (st3, t) \<leftarrow> get_template (ex_type (mm st2) expand) (ex_subtype (mm st2) expand) st2;
            if t = 0 then Some (st3, - ENOMEM)
            else do {
              let st4 = wi (e + 4) (ex_type (mm st3) expand) st3;
              let st5 = wi (e + 8) (ex_subtype (mm st4) expand) st4;
              sz \<leftarrow> m_struct_size st5 t;
              let (st6, p) = m_dalloc0 sz e st5;
              let st7 = wp (e + 12) p st6;
              (st8, k) \<leftarrow> m_struct_clone (ex_expand (mm st7) expand) (ex_expand (mm st7) e) t st7;
              if k < 0 then Some (st8, k)
              else Some (wi (b + MB_STATE) MSG_BOX_EXPAND (wp (at8 (rp st8 (b + MB_PEXPAND)) curr_site) e st8), k) } } } })"

definition message_add_expand_data :: "mstate \<Rightarrow> nat \<Rightarrow> int \<Rightarrow> int \<Rightarrow> nat \<Rightarrow> (mstate \<times> int) option" where
  "message_add_expand_data st b type subtype expand =
     (if b = 0 then Some (st, - EINVAL)
      else if expand = 0 then Some (st, - EINVAL)
      else
        let (st1, e) = m_dalloc0 MSG_EXPAND_SIZE b st
        in if e = 0 then Some (st1, - ENOMEM)
           else message_add_expand (wp (e + 12) expand (wi (e + 8) subtype (wi (e + 4) type (wi e 0 st1)))) b e)"

definition message_add_expand_blob :: "mstate \<Rightarrow> nat \<Rightarrow> int \<Rightarrow> nat \<Rightarrow> (mstate \<times> int) option" where
  "message_add_expand_blob st b sz blob =
     (if b = 0 then None
      else do {
        let curr_site = ri st (b + MH_EXPAND_NUM);
        (st1, r) \<leftarrow> message_add_expand_site st b 1;
        if r < 0 then Some (st1, - EINVAL)
        else
          let st2 = wi (at4 (rp st1 (b + MB_ESIZES)) curr_site) sz st1;
              (st3, p) = m_dalloc0 sz b st2;
              st4 = wp (at8 (rp st3 (b + MB_EXPAND)) curr_site) p st3
          in if p = 0 then Some (st4, - ENOMEM) else Some (mcopy p blob sz st4, sz) })"

section \<open>Output\<close>

text \<open>
  The loop of \<^verbatim>\<open>message_record_struct2blob\<close> over \<open>k\<close> records from \<open>i\<close>: \<open>Inl\<close> is a returned error, \<open>Inr\<close> the size of all blobs.
\<close>

fun record_blobs :: "nat \<Rightarrow> nat \<Rightarrow> int \<Rightarrow> nat \<Rightarrow> int \<Rightarrow> mstate \<Rightarrow> (mstate \<times> (int + int)) option" where
  "record_blobs b buffer i 0 acc st = Some (st, Inr acc)"
| "record_blobs b buffer i (Suc k) acc st =
     (if rp st (at8 (rp st (b + MB_RECORD)) i) = 0 then
        (let src = rp st (at8 (rp st (b + MB_PRECORD)) i)
         in if src = 0 then Some (st, Inl (- EINVAL))
            else do {
              (st1, n) \<leftarrow> m_struct_2_blob src buffer (rp st (b + MB_RECORD_TEMPLATE)) st;
              if n < 0 then Some (st1, Inl n)
              else
                let st2 = wi (at4 (rp st1 (b + MB_RSIZES)) i) n st1;
                    (st3, p) = m_dalloc0 n b st2;
                    st4 = wp (at8 (rp st3 (b + MB_RECORD)) i) p st3
                in if p = 0 then Some (st4, Inl (- ENOMEM))
                   else
                     let st5 = mcopy p buffer (ri st4 (at4 (rp st4 (b + MB_RSIZES)) i)) st4
                     in record_blobs b buffer (i + 1) k (acc + ri st5 (at4 (rp st5 (b + MB_RSIZES)) i)) st5 })
      else record_blobs b buffer (i + 1) k (acc + ri st (at4 (rp st (b + MB_RSIZES)) i)) st)"

definition message_record_struct2blob :: "mstate \<Rightarrow> nat \<Rightarrow> (mstate \<times> int) option" where
  "message_record_struct2blob st b =
     (if b = 0 then Some (st, - EINVAL)
      else
        let (st1, buffer) = m_talloc0 4096 st
        in if buffer = 0 then Some (st1, - ENOMEM)
           else do {
             (st2, r) \<leftarrow> record_blobs b buffer 0 (nat (ri st1 (b + MH_RECORD_NUM))) 0 st1;
             case r of
               Inl e \<Rightarrow> Some (st2, e)
             | Inr acc \<Rightarrow> Some (wi (b + MH_RECORD_SIZE) acc st2, acc) })"

text \<open>Expand \<open>i\<close> as a blob: one without a structure must have its blob; the size in the head of a new blob is that of the data.\<close>

definition expand_blob :: "nat \<Rightarrow> nat \<Rightarrow> int \<Rightarrow> mstate \<Rightarrow> (mstate \<times> (int + int)) option" where
  "expand_blob b buffer i st =
     (let e = rp st (at8 (rp st (b + MB_PEXPAND)) i); bin = rp st (at8 (rp st (b + MB_EXPAND)) i)
      in if e = 0 then
           (if bin = 0 then Some (st, Inl (- EINVAL))
            else let st1 = wi (at4 (rp st (b + MB_ESIZES)) i) (ex_data_size (mm st) bin + MSG_EXPAND_HEAD_SIZE) st
                 in Some (st1, Inr (ri st1 (at4 (rp st1 (b + MB_ESIZES)) i))))
         else do {
           (st1, t) \<leftarrow> get_template (ex_type (mm st) e) (ex_subtype (mm st) e) st;
           if t = 0 then Some (st1, Inl (- EINVAL))
           else do {
             kits \<leftarrow> ms_kits st1;
             (st2, offset) \<leftarrow> m_struct_2_blob e buffer (kit_expand_head_template kits) st1;
             if offset < 0 then Some (st2, Inl offset)
             else do {
               (st3, n) \<leftarrow> m_struct_2_blob (ex_expand (mm st2) e) (adr_plus buffer offset) t st2;
               if n < 0 then Some (st3, Inl n)
               else
                 let st4 = wi (at4 (rp st3 (b + MB_ESIZES)) i) (n + offset) st3;
                     (st5, p) = m_dalloc0 (n + offset) b st4;
                     st6 = wp (at8 (rp st5 (b + MB_EXPAND)) i) p st5
                 in if p = 0 then Some (st6, Inl (- ENOMEM))
                    else
                      let st7 = mcopy p buffer (ri st6 (at4 (rp st6 (b + MB_ESIZES)) i)) st6;
                          st8 = wi p n st7
                      in Some (st8, Inr (ri st8 (at4 (rp st8 (b + MB_ESIZES)) i))) } } })"

fun expand_blobs :: "nat \<Rightarrow> nat \<Rightarrow> int \<Rightarrow> nat \<Rightarrow> int \<Rightarrow> mstate \<Rightarrow> (mstate \<times> (int + int)) option" where
  "expand_blobs b buffer i 0 acc st = Some (st, Inr acc)"
| "expand_blobs b buffer i (Suc k) acc st =
     do { (st1, r) \<leftarrow> expand_blob b buffer i st;
          case r of
            Inl e \<Rightarrow> Some (st1, Inl e)
          | Inr n \<Rightarrow> expand_blobs b buffer (i + 1) k (acc + n) st1 }"

definition message_expand_struct2blob :: "mstate \<Rightarrow> nat \<Rightarrow> (mstate \<times> int) option" where
  "message_expand_struct2blob st b =
     (if b = 0 then Some (st, - EINVAL)
      else
        let (st1, buffer) = m_talloc0 4096 st
        in if buffer = 0 then Some (st1, - ENOMEM)
           else do {
             (st2, r) \<leftarrow> expand_blobs b buffer 0 (nat (ri st1 (b + MH_EXPAND_NUM))) 0 st1;
             case r of
               Inl e \<Rightarrow> Some (st2, e)
             | Inr acc \<Rightarrow> Some (wi (b + MH_EXPAND_SIZE) acc st2, acc) })"

text \<open>The blobs of the array at the field \<open>f\<close> are copied by \<open>cp\<close> one behind the other from \<open>buffer + offset\<close> on.\<close>

fun put_blobs ::
  "(nat \<Rightarrow> nat \<Rightarrow> int \<Rightarrow> mstate \<Rightarrow> mstate option) \<Rightarrow> nat \<Rightarrow> nat \<Rightarrow> nat \<Rightarrow> int \<Rightarrow> nat \<Rightarrow> int \<Rightarrow> mstate \<Rightarrow> (mstate \<times> int) option" where
  "put_blobs cp b f buffer i 0 offset st = Some (st, offset)"
| "put_blobs cp b f buffer i (Suc k) offset st =
     do { st1 \<leftarrow> cp (adr_plus buffer offset) (rp st (at8 (rp st (b + f)) i)) (ri st (at4 (rp st (b + (f + 16))) i)) st;
          put_blobs cp b f buffer (i + 1) k (offset + ri st1 (at4 (rp st1 (b + (f + 16))) i)) st1 }"

definition mcopy_cp :: "nat \<Rightarrow> nat \<Rightarrow> int \<Rightarrow> mstate \<Rightarrow> mstate option" where
  "mcopy_cp dest src n st = Some (mcopy dest src n st)"

text \<open>Neither an encrypted message nor one without a template can be put out without its blob.\<close>

definition blob_missing :: "mstate \<Rightarrow> nat \<Rightarrow> bool" where
  "blob_missing st b =
     (rp st (b + MB_BLOB) = 0
      \<and> (ri st (b + MH_FLAG) AND MSG_FLAG_CRYPT \<noteq> 0 \<or> rp st (b + MB_RECORD_TEMPLATE) = 0))"

text \<open>The records behind \<open>offset\<close> of the buffer; the result is the new offset or an error code.\<close>

definition put_records :: "(nat \<Rightarrow> nat \<Rightarrow> int \<Rightarrow> mstate \<Rightarrow> mstate option) \<Rightarrow> mstate \<Rightarrow> nat \<Rightarrow> nat \<Rightarrow> int \<Rightarrow> (mstate \<times> (int + int)) option" where
  "put_records cp st b buffer offset =
     (if rp st (b + MB_BLOB) \<noteq> 0 then
        (let n = ri st (b + MH_RECORD_SIZE)
         in Some (mcopy (adr_plus buffer offset) (rp st (b + MB_BLOB)) n st, Inr (offset + n)))
      else do {
        (st1, r) \<leftarrow> message_record_struct2blob st b;
        if r < 0 then Some (st1, Inl r)
        else map_option (apsnd Inr) (put_blobs cp b MB_RECORD buffer 0 (nat (ri st1 (b + MH_RECORD_NUM))) offset st1) })"

definition message_output_blob :: "mstate \<Rightarrow> nat \<Rightarrow> nat \<Rightarrow> (mstate \<times> int) option" where
  "message_output_blob st b out =
     (if b = 0 then Some (st, - EINVAL)
      else if out = 0 then Some (st, - EINVAL)
      else
        let (st1, buffer) = m_talloc0 4096 st
        in if buffer = 0 then Some (st1, - ENOMEM)
           else if blob_missing st1 b then Some (st1, - EINVAL)
           else if ri st1 (b + MH_RECORD_NUM) < 0 then Some (st1, - EINVAL)
           else if ri st1 (b + MH_EXPAND_NUM) < 0 then Some (st1, - EINVAL)
           else do {
             (st2, r) \<leftarrow> put_records mcopy_cp st1 b buffer MSG_HEAD_SIZE;
             case r of
               Inl e \<Rightarrow> Some (st2, e)
             | Inr offset \<Rightarrow>
                 do { (st3, k) \<leftarrow> message_expand_struct2blob st2 b;
                      if k < 0 then Some (st3, k)
                      else do {
                        (st4, _) \<leftarrow> put_blobs mcopy_cp b MB_EXPAND buffer 0 (nat (ri st3 (b + MH_EXPAND_NUM))) offset st3;
                        let st5 = mcopy buffer b MSG_HEAD_SIZE st4;
                        let n = MSG_HEAD_SIZE + ri st5 (b + MH_RECORD_SIZE) + ri st5 (b + MH_EXPAND_SIZE);
                        let st6 = wp (b + MB_BLOB) buffer st5;
                        let (st7, p) = m_dalloc0 n b st6;
                        let st8 = wp out p st7;
                        if p = 0 then Some (st8, - ENOMEM) else Some (mcopy p buffer n st8, n) } } })"

definition message_output_record_blob :: "mstate \<Rightarrow> nat \<Rightarrow> nat \<Rightarrow> (mstate \<times> int) option" where
  "message_output_record_blob st b out =
     (if b = 0 then Some (st, - EINVAL)
      else if out = 0 then Some (st, - EINVAL)
      else
        let (st1, buffer) = m_talloc 4096 st
        in if buffer = 0 then Some (st1, - ENOMEM)
           else if blob_missing st1 b then Some (st1, - EINVAL)
           else if ri st1 (b + MH_RECORD_NUM) < 0 then Some (st1, - EINVAL)
           else do {
             (st2, r) \<leftarrow> put_records cmemcpy st1 b buffer 0;
             case r of
               Inl e \<Rightarrow> Some (st2, e)
             | Inr offset \<Rightarrow>
                 let (st3, p) = m_talloc offset st2; st4 = wp out p st3
                 in if p = 0 then Some (st4, - ENOMEM) else Some (mcopy p buffer offset st4, offset) })"

section \<open>Records and expands of a message\<close>

text \<open>\<^verbatim>\<open>message_get_record\<close> answers the return code and what it stores behind \<^verbatim>\<open>msg_record\<close>, if anything.\<close>

definition message_get_record :: "mstate \<Rightarrow> nat \<Rightarrow> int \<Rightarrow> (mstate \<times> int \<times> nat option) option" where
  "message_get_record st b no =
     (if b = 0 then Some (st, - EINVAL, None)
      else if no < 0 then Some (st, - EINVAL, Some 0)
      else if no \<ge> ri st (b + MH_RECORD_NUM) then Some (st, 0, Some 0)
      else do {
        (st1, t) \<leftarrow> message_load_record_template st b;
        (st2, r) \<leftarrow>
          (if rp st1 (at8 (rp st1 (b + MB_PRECORD)) no) = 0 then
             do { sz \<leftarrow> m_struct_size st1 t;
                  let (st3, p) = m_dalloc0 sz b st1;
                  let st4 = wp (at8 (rp st3 (b + MB_PRECORD)) no) p st3;
                  if p = 0 then Some (st4, - ENOMEM)
                  else do {
                    (st5, k) \<leftarrow> m_blob_2_struct (rp st4 (at8 (rp st4 (b + MB_RECORD)) no)) p t st4;
                    if k < 0 then Some (st5, k) else Some (wi (at4 (rp st5 (b + MB_RSIZES)) no) k st5, 0) } }
           else Some (st1, 0));
        if r < 0 then Some (st2, r, Some 0)
        else do {
          (st6, c) \<leftarrow> m_clone_struct (rp st2 (at8 (rp st2 (b + MB_PRECORD)) no)) t st2;
          Some (st6, if c = 0 then - EINVAL else 0, Some c) } })"

text \<open>
  \<^verbatim>\<open>message_get_expand\<close>. For an expand that is only a blob the second conversion has its arguments swapped: the empty new
  structure is read into the blob.
\<close>

definition get_bin_expand :: "mstate \<Rightarrow> nat \<Rightarrow> int \<Rightarrow> nat \<Rightarrow> (mstate \<times> (int \<times> nat option + nat \<times> nat)) option" where
  "get_bin_expand st b no t =
     do { let (st1, h) = m_talloc0 MSG_EXPAND_SIZE st;
          if h = 0 then Some (st1, Inl (- ENOMEM, Some 0))
          else do {
            (st2, k) \<leftarrow> m_blob_2_struct (rp st1 (at8 (rp st1 (b + MB_EXPAND)) no)) h t st1;
            if k < 0 then Some (st2, Inl (k, Some 0))
            else do {
              (st3, t1) \<leftarrow> get_template (ex_type (mm st2) h) (ex_subtype (mm st2) h) st2;
              if t1 = 0 then Some (st3, Inl (0, Some 0))
              else do {
                let (st4, p) = m_talloc0 MSG_EXPAND_SIZE st3;
                let st5 = wp (at8 (rp st4 (b + MB_PEXPAND)) no) p st4;
                if p = 0 then Some (st5, Inl (- ENOMEM, Some 0))
                else do {
                  (st6, n) \<leftarrow> m_blob_2_struct p (rp st5 (at8 (rp st5 (b + MB_EXPAND)) no)) t1 st5;
                  if n < 0 then Some (st6, Inl (n, Some 0))
                  else Some (wi (at4 (rp st6 (b + MB_ESIZES)) no) n st6, Inr (h, t1)) } } } } }"

definition get_struct_expand :: "mstate \<Rightarrow> nat \<Rightarrow> (mstate \<times> (int \<times> nat option + nat \<times> nat)) option" where
  "get_struct_expand st h =
     do { (st1, t) \<leftarrow> get_template (ex_type (mm st) h) (ex_subtype (mm st) h) st;
          Some (st1, if t = 0 then Inl (- EINVAL, Some 0) else Inr (h, t)) }"

definition message_get_expand :: "mstate \<Rightarrow> nat \<Rightarrow> int \<Rightarrow> (mstate \<times> int \<times> nat option) option" where
  "message_get_expand st b no =
     (if b = 0 then Some (st, - EINVAL, None)
      else if no < 0 then Some (st, - EINVAL, Some 0)
      else if no \<ge> ri st (b + MH_EXPAND_NUM) then Some (st, 0, Some 0)
      else do {
        (st1, t) \<leftarrow> get_template DTYPE_MESSAGE SUBTYPE_EXPAND st;
        let e = rp st1 (at8 (rp st1 (b + MB_PEXPAND)) no);
        (st2, r) \<leftarrow> (if e = 0 then get_bin_expand st1 b no t else get_struct_expand st1 e);
        case r of
          Inl x \<Rightarrow> Some (st2, fst x, snd x)
        | Inr (h, t1) \<Rightarrow>
            do { let (st3, p) = m_talloc0 MSG_EXPAND_SIZE st2;
                 if p = 0 then Some (st3, - ENOMEM, Some 0)
                 else do {
                   let st4 = mcopy p h MSG_EXPAND_HEAD_SIZE st3;
                   (st5, c) \<leftarrow> m_clone_struct (ex_expand (mm st4) h) t1 st4;
                   Some (wp (p + 12) c st5, 0, Some p) } } })"

definition ex_is :: "mem \<Rightarrow> nat \<Rightarrow> int \<Rightarrow> int \<Rightarrow> bool" where
  "ex_is m e type subtype \<longleftrightarrow> ex_type m e = type \<and> ex_subtype m e = subtype"

fun define_loop :: "mem \<Rightarrow> nat \<Rightarrow> int \<Rightarrow> int \<Rightarrow> int \<Rightarrow> nat \<Rightarrow> (int \<times> nat) option" where
  "define_loop m pexpand type subtype i 0 = None"
| "define_loop m pexpand type subtype i (Suc k) =
     (let e = get_ptr m (at8 pexpand i)
      in if e \<noteq> 0 \<and> ex_is m e type subtype then Some (i, e) else define_loop m pexpand type subtype (i + 1) k)"

text \<open>The first expand structure of a type: its number and its address, which is \<^verbatim>\<open>NULL\<close> when there is none.\<close>

definition message_get_define_expand :: "mstate \<Rightarrow> nat \<Rightarrow> int \<Rightarrow> int \<Rightarrow> int \<times> nat option" where
  "message_get_define_expand st b type subtype =
     (if b = 0 then (- EINVAL, None)
      else case define_loop (mm st) (rp st (b + MB_PEXPAND)) type subtype 0 (nat (ri st (b + MH_EXPAND_NUM))) of
             None \<Rightarrow> (0, Some 0)
           | Some (i, e) \<Rightarrow> (i, Some e))"

fun replace_loop :: "mem \<Rightarrow> nat \<Rightarrow> int \<Rightarrow> int \<Rightarrow> int \<Rightarrow> nat \<Rightarrow> int option" where
  "replace_loop m pexpand type subtype i 0 = None"
| "replace_loop m pexpand type subtype i (Suc k) =
     (let e = get_ptr m (at8 pexpand i)
      in if e = 0 then None else if ex_is m e type subtype then Some i else replace_loop m pexpand type subtype (i + 1) k)"

definition message_replace_define_expand :: "mstate \<Rightarrow> nat \<Rightarrow> nat \<Rightarrow> int \<Rightarrow> int \<Rightarrow> (mstate \<times> int) option" where
  "message_replace_define_expand st b addr type subtype =
     (if b = 0 then Some (st, - EINVAL)
      else case replace_loop (mm st) (rp st (b + MB_PEXPAND)) type subtype 0 (nat (ri st (b + MH_EXPAND_NUM))) of
             None \<Rightarrow> Some (st, 0)
           | Some i \<Rightarrow>
               do { let slot = at8 (rp st (b + MB_EXPAND)) i;
                    let st1 = (if rp st slot \<noteq> 0 then (let s = wp slot 0 st in wi (at4 (rp s (b + MB_ESIZES)) i) 0 s) else st);
                    let st2 = wp (at8 (rp st1 (b + MB_PEXPAND)) i) addr st1;
                    (st3, _) \<leftarrow> get_template type subtype st2;
                    Some (st3, i) })"

text \<open>The shift of the arrays by one from index \<open>i\<close> on, \<open>k\<close> times: the last step reads behind the last expand.\<close>

fun shift_expands :: "nat \<Rightarrow> int \<Rightarrow> nat \<Rightarrow> mstate \<Rightarrow> mstate" where
  "shift_expands b i 0 st = st"
| "shift_expands b i (Suc k) st =
     (let st1 = wp (at8 (rp st (b + MB_EXPAND)) i) (rp st (at8 (rp st (b + MB_EXPAND)) (i + 1))) st;
          st2 = wp (at8 (rp st1 (b + MB_PEXPAND)) i) (rp st1 (at8 (rp st1 (b + MB_PEXPAND)) (i + 1))) st1;
          st3 = wi (at4 (rp st2 (b + MB_ESIZES)) i) (ri st2 (at4 (rp st2 (b + MB_ESIZES)) (i + 1))) st2
      in shift_expands b (i + 1) k st3)"

text \<open>\<open>out\<close> is the address for the removed structure, which may be \<^verbatim>\<open>NULL\<close>.\<close>

definition message_remove_indexed_expand :: "mstate \<Rightarrow> nat \<Rightarrow> int \<Rightarrow> nat \<Rightarrow> mstate \<times> int" where
  "message_remove_indexed_expand st b no out =
     (if b = 0 then (st, - EINVAL)
      else if no < 0 then (st, - EINVAL)
      else if no \<ge> ri st (b + MH_EXPAND_NUM) then (st, - EINVAL)
      else
        let st1 = (if out \<noteq> 0 then wp out (rp st (at8 (rp st (b + MB_PEXPAND)) no)) st else st);
            st2 = shift_expands b no (nat (ri st1 (b + MH_EXPAND_NUM) - no)) st1
        in (wi (b + MH_EXPAND_NUM) (ri st2 (b + MH_EXPAND_NUM) - 1) st2, 0))"

fun remove_loop :: "mem \<Rightarrow> nat \<Rightarrow> nat \<Rightarrow> int \<Rightarrow> int \<Rightarrow> int \<Rightarrow> nat \<Rightarrow> int option" where
  "remove_loop m pexpand expand type subtype i 0 = None"
| "remove_loop m pexpand expand type subtype i (Suc k) =
     (let p = get_ptr m (at8 pexpand i); e = (if p \<noteq> 0 then p else get_ptr m (at8 expand i))
      in if e = 0 then None
         else if ex_is m e type subtype then Some i else remove_loop m pexpand expand type subtype (i + 1) k)"

definition message_remove_expand :: "mstate \<Rightarrow> nat \<Rightarrow> int \<Rightarrow> int \<Rightarrow> nat \<Rightarrow> mstate \<times> int" where
  "message_remove_expand st b type subtype out =
     (if b = 0 then (st, - EINVAL)
      else
        let st1 = (if out \<noteq> 0 then wp out 0 st else st)
        in case remove_loop (mm st1) (rp st1 (b + MB_PEXPAND)) (rp st1 (b + MB_EXPAND)) type subtype 0
                  (nat (ri st1 (b + MH_EXPAND_NUM))) of
             None \<Rightarrow> (st1, 0)
           | Some i \<Rightarrow> (fst (message_remove_indexed_expand st1 b i out), 0))"

definition message_read_elem :: "mstate \<Rightarrow> nat \<Rightarrow> byte list \<Rightarrow> int \<Rightarrow> nat \<Rightarrow> (mstate \<times> int) option" where
  "message_read_elem st b item_name index val =
     (if b = 0 then Some (st, - EINVAL)
      else if val = 0 then Some (st, - EINVAL)
      else if rp st (b + MB_HEAD_TEMPLATE) = 0 then Some (st, - EINVAL)
      else do {
        (st1, t) \<leftarrow> message_load_record_template st b;
        if t = 0 then Some (st1, - EINVAL)
        else if index \<ge> ri st1 (b + MH_RECORD_NUM) then Some (st1, - EINVAL)
        else if index < 0 then Some (st1, - EINVAL)
        else let src = rp st1 (at8 (rp st1 (b + MB_PRECORD)) index)
             in if src = 0 then Some (st1, - EINVAL)
                else do {
                  (es, n) \<leftarrow> struct_read_elem (db_es (ms_db st1)) item_name src (ms_stack st1) (t - 1);
                  let st2 = st1\<lparr>ms_db := set_es es (ms_db st1)\<rparr>;
                  if n < 0 then Some (st2, n)
                  else if n \<ge> 128 then Some (st2, - EINVAL)
                  else do {
                    let (st3, p) = m_malloc st2;
                    if p = 0 then None
                    else do { st4 \<leftarrow> cmemcpy p (ms_stack st3) (n + 1) (wp val p st3); Some (st4, n) } } } })"

end
