(* ===== verification/Cube_Message_Read.thy ===== *)
theory Cube_Message_Read
  imports Cube_Message
begin

text \<open>
  The second half of \<^verbatim>\<open>cubelib/message/message.c\<close>: reading a message from a blob or from a source in pieces, loading its
  records and expands into structures, the texts of message types, cloning and freeing.
\<close>

section \<open>Reading\<close>

text \<open>
  \<^verbatim>\<open>message_read_head\<close> stores the new box behind \<open>out\<close>. The size of the blob is compared as an unsigned number, so a negative
  one passes.
\<close>

definition message_read_head :: "mstate \<Rightarrow> nat \<Rightarrow> nat \<Rightarrow> int \<Rightarrow> (mstate \<times> int) option" where
  "message_read_head st out blob blob_size =
     (if out = 0 then Some (st, - EINVAL)
      else if 0 \<le> blob_size \<and> blob_size < MSG_HEAD_SIZE then Some (st, - EINVAL)
      else if blob = 0 then Some (st, - EINVAL)
      else do {
        (st1, b) \<leftarrow> message_init st;
        if b = 0 then Some (st1, - EINVAL)
        else if ri st1 (b + MB_STATE) \<noteq> MSG_BOX_INIT then Some (st1, - EINVAL)
        else do {
          (st2, head_size) \<leftarrow> m_blob_2_struct blob b (rp st1 (b + MB_HEAD_TEMPLATE)) st1;
          if head_size \<le> 0 then Some (st2, - EINVAL)
          else
            let st3 = wi (b + MB_OFFSET) 0 (wi (b + MB_HEAD_SIZE) head_size st2)
            in if ri st3 (b + MH_RECORD_NUM) < 0 then Some (st3, - EINVAL)
               else if ri st3 (b + MH_EXPAND_NUM) < 0 then Some (st3, - EINVAL)
               else if ri st3 (b + MH_EXPAND_NUM) > MAX_EXPAND_NUM then Some (st3, - EINVAL)
               else if mem_bytes (mm st3) b 4 \<noteq> ascii ''MESG'' then Some (st3, - EINVAL)
               else if ri st3 (b + MH_VERSION) \<noteq> MESSAGE_VERSION then Some (st3, - EINVAL)
               else
                 let (st4, data) = m_malloc (wi (b + MB_STATE) MSG_BOX_LOADDATA st3)
                 in if data = 0 then Some (st4, - ENOMEM)
                    else Some (wp out b (wp (b + MB_BLOB) data st4), MSG_HEAD_SIZE) } })"

text \<open>The blobs of \<open>k\<close> expands from number \<open>i\<close> on, which lie from \<open>data + off\<close> on; the result tells whether the memory sufficed.\<close>

fun read_expands :: "nat \<Rightarrow> nat \<Rightarrow> int \<Rightarrow> nat \<Rightarrow> int \<Rightarrow> mstate \<Rightarrow> mstate \<times> bool" where
  "read_expands b data i 0 off st = (st, True)"
| "read_expands b data i (Suc k) off st =
     (let st1 = wi (at4 (rp st (b + MB_ESIZES)) i) (ri st (adr_plus data off) + MSG_EXPAND_HEAD_SIZE) st;
          n = ri st1 (at4 (rp st1 (b + MB_ESIZES)) i);
          (st2, p) = m_dalloc0 n b st1;
          st3 = wp (at8 (rp st2 (b + MB_EXPAND)) i) p st2
      in if p = 0 then (st3, False)
         else
           let st4 = mcopy p (adr_plus data off) (ri st3 (at4 (rp st3 (b + MB_ESIZES)) i)) st3
           in read_expands b data (i + 1) k (off + ri st4 (at4 (rp st4 (b + MB_ESIZES)) i)) st4)"

definition payload :: "mstate \<Rightarrow> nat \<Rightarrow> int" where
  "payload st b = ri st (b + MH_RECORD_SIZE) + ri st (b + MH_EXPAND_SIZE)"

definition message_read_data :: "mstate \<Rightarrow> nat \<Rightarrow> nat \<Rightarrow> int \<Rightarrow> (mstate \<times> int) option" where
  "message_read_data st b blob data_size =
     (if b = 0 then None
      else if ri st (b + MB_STATE) \<noteq> MSG_BOX_LOADDATA then Some (st, - EINVAL)
      else if blob = 0 then Some (st, - EINVAL)
      else if data_size \<le> 0 then Some (st, - EINVAL)
      else
        let data = rp st (b + MB_BLOB); off = ri st (b + MB_OFFSET)
        in if data_size + off \<ge> payload st b then
             do { let new_size = payload st b - off;
                  st1 \<leftarrow> cmemcpy (adr_plus data off) blob new_size st;
                  let st2 = wi (b + MB_OFFSET) 0 st1;
                  let st3 = fst (message_alloc_record_site st2 b);
                  let st4 = fst (message_alloc_expand_site st3 b);
                  let (st5, ok) = read_expands b data 0 (nat (ri st4 (b + MH_EXPAND_NUM))) (ri st2 (b + MH_RECORD_SIZE)) st4;
                  if \<not> ok then Some (st5, - ENOMEM)
                  else Some (wi (b + MB_STATE) MSG_BOX_REBUILDING (wi (b + MB_OFFSET) 0 st5), new_size) }
           else
             do { st1 \<leftarrow> cmemcpy (adr_plus data off) blob data_size st;
                  Some (wi (b + MB_OFFSET) (ri st1 (b + MB_OFFSET) + data_size) st1, 0) })"

definition message_read_from_blob :: "mstate \<Rightarrow> nat \<Rightarrow> nat \<Rightarrow> int \<Rightarrow> (mstate \<times> int) option" where
  "message_read_from_blob st out blob data_size =
     do { (st1, r) \<leftarrow> message_read_head st out blob data_size;
          if r < 0 then Some (st1, r)
          else do { (st2, k) \<leftarrow> message_read_data st1 (rp st1 out) (adr_plus blob r) (data_size - r);
                    Some (st2, if k < 0 then k else k + r) } }"

text \<open>
  \<^verbatim>\<open>message_read_from_src\<close> with a reader that takes the state of the source and a size, and answers the new state of the source,
  its return code and the bytes it has stored into the buffer on the stack.
\<close>

definition read_src :: "('s \<Rightarrow> int \<Rightarrow> 's \<times> int \<times> byte list) \<Rightarrow> 's \<Rightarrow> int \<Rightarrow> mstate \<Rightarrow> mstate \<times> 's \<times> int" where
  "read_src read_func src n st =
     (let (src1, r, bs) = read_func src n in (set_mm (mem_write (mm st) (ms_stack st) bs) st, src1, r))"

partial_function (option) src_loop ::
  "('s \<Rightarrow> int \<Rightarrow> 's \<times> int \<times> byte list) \<Rightarrow> nat \<Rightarrow> int \<Rightarrow> 's \<Rightarrow> int \<Rightarrow> int \<Rightarrow> mstate \<Rightarrow> (mstate \<times> 's \<times> int) option" where
  "src_loop read_func b message_size src offset seek st =
     (if offset < message_size then
        let n = min (message_size - offset) 4096; (st1, src1, r) = read_src read_func src n st
        in if r \<le> 0 then Some (st1, src1, seek)
           else Option.bind (message_read_data st1 b (ms_stack st1) r)
                  (\<lambda>(st2, k). if k < n then Some (st2, src1, seek)
                              else src_loop read_func b message_size src1 (offset + n) (seek + n) st2)
      else Some (st, src, seek))"

definition message_read_from_src ::
  "('s \<Rightarrow> int \<Rightarrow> 's \<times> int \<times> byte list) \<Rightarrow> mstate \<Rightarrow> nat \<Rightarrow> 's \<Rightarrow> (mstate \<times> 's \<times> int) option" where
  "message_read_from_src read_func st out src =
     (let (st1, src1, r) = read_src read_func src MSG_HEAD_SIZE st
      in if r < 0 then Some (st1, src1, r)
         else if r < MSG_HEAD_SIZE then Some (st1, src1, - EINVAL)
         else do {
           (st2, k) \<leftarrow> message_read_head st1 out (ms_stack st1) r;
           if k < 0 then Some (st2, src1, - EINVAL)
           else let b = rp st2 out
                in src_loop read_func b (payload st2 b) src1 0 MSG_HEAD_SIZE st2 })"

section \<open>Loading records and expands\<close>

text \<open>
  The search of \<^verbatim>\<open>message_load_record\<close> for the first record without a blob; the entry is read before its number is compared
  with the number of records. \<open>None\<close> stands for the return with 0.
\<close>

fun loaded_loop :: "mem \<Rightarrow> nat \<Rightarrow> int \<Rightarrow> nat \<Rightarrow> int option" where
  "loaded_loop m rec i 0 = (if get_ptr m (at8 rec i) \<noteq> 0 then None else Some i)"
| "loaded_loop m rec i (Suc k) = (if get_ptr m (at8 rec i) \<noteq> 0 then loaded_loop m rec (i + 1) k else Some i)"

fun load_records :: "nat \<Rightarrow> int \<Rightarrow> nat \<Rightarrow> mstate \<Rightarrow> (mstate \<times> int) option" where
  "load_records b i 0 st = Some (st, 0)"
| "load_records b i (Suc k) st =
     do { let st1 = wp (at8 (rp st (b + MB_RECORD)) i) (adr_plus (rp st (b + MB_BLOB)) (ri st (b + MB_OFFSET))) st;
          (st2, ret, rec) \<leftarrow> message_get_record st1 b i;
          if ret < 0 then Some (st2, ret)
          else if rec = Some 0 then Some (st2, - EINVAL)
          else
            let st3 = wi (b + MB_OFFSET) (ri st2 (b + MB_OFFSET) + ri st2 (at4 (rp st2 (b + MB_RSIZES)) i)) st2
            in load_records b (i + 1) k st3 }"

definition message_load_record :: "mstate \<Rightarrow> nat \<Rightarrow> (mstate \<times> int) option" where
  "message_load_record st b =
     (if b = 0 then Some (st, - EINVAL)
      else do {
        (st1, t) \<leftarrow> message_load_record_template st b;
        if t = 0 then Some (st1, - EINVAL)
        else do {
          let st2 = (if rp st1 (b + MB_RECORD) = 0 then fst (message_alloc_record_site st1 b) else st1);
          let num = ri st2 (b + MH_RECORD_NUM);
          if num \<le> 0 then None
          else case loaded_loop (mm st2) (rp st2 (b + MB_RECORD)) 0 (nat num) of
                 None \<Rightarrow> Some (st2, 0)
               | Some no \<Rightarrow>
                   if no \<ge> num then None
                   else do {
                     (st3, r) \<leftarrow> load_records b no (nat (num - no)) st2;
                     if r < 0 then Some (st3, r)
                     else
                       Some (wi (b + MB_OFFSET) (ri st3 (b + MB_OFFSET) + ri st3 (at4 (rp st3 (b + MB_RSIZES)) num)) st3, 1) } } })"

fun load_expands :: "nat \<Rightarrow> int \<Rightarrow> nat \<Rightarrow> int \<Rightarrow> mstate \<Rightarrow> (mstate \<times> int) option" where
  "load_expands b i 0 offset st = Some (st, offset)"
| "load_expands b i (Suc k) offset st =
     (let e = rp st (at8 (rp st (b + MB_EXPAND)) i)
      in if offset \<ge> ri st (b + MH_EXPAND_SIZE) then Some (st, - EINVAL)
         else if e = 0 then Some (st, - EINVAL)
         else if ex_data_size (mm st) e < 0 then Some (st, - EINVAL)
         else do {
           (st1, t) \<leftarrow> get_template (ex_type (mm st) e) (ex_subtype (mm st) e) st;
           if t = 0 then load_expands b (i + 1) k offset st1
           else do {
             sz \<leftarrow> m_struct_size st1 t;
             let (st2, buffer) = m_dalloc0 sz b st1;
             if buffer = 0 then Some (st2, - ENOMEM)
             else do {
               (st3, n) \<leftarrow> m_blob_2_struct (rp st2 (at8 (rp st2 (b + MB_EXPAND)) i) + 12) buffer t st2;
               if n \<noteq> ex_data_size (mm st3) e then Some (st3, - EINVAL)
               else
                 let (st4, p) = m_dalloc0 MSG_EXPAND_SIZE b st3;
                     st5 = wp (at8 (rp st4 (b + MB_PEXPAND)) i) p st4
                 in if p = 0 then Some (st5, - EINVAL)
                    else
                      let st6 = wp (p + 12) buffer st5;
                          st7 = wi (p + 4) (ex_type (mm st6) e) st6;
                          st8 = wi (p + 8) (ex_subtype (mm st7) e) st7
                      in load_expands b (i + 1) k (offset + ex_data_size (mm st8) e + MSG_EXPAND_HEAD_SIZE) st8 } } })"

definition message_load_expand :: "mstate \<Rightarrow> nat \<Rightarrow> (mstate \<times> int) option" where
  "message_load_expand st b =
     (if b = 0 then Some (st, - EINVAL) else load_expands b 0 (nat (ri st (b + MH_EXPAND_NUM))) 0 st)"

fun read_records :: "nat \<Rightarrow> nat \<Rightarrow> int \<Rightarrow> int \<Rightarrow> nat \<Rightarrow> int \<Rightarrow> mstate \<Rightarrow> (mstate \<times> int) option" where
  "read_records b blob data_size i 0 off st = Some (st, 0)"
| "read_records b blob data_size i (Suc k) off st =
     do { let t = rp st (b + MB_RECORD_TEMPLATE);
          sz \<leftarrow> m_struct_size st t;
          let (st1, p) = m_dalloc0 sz b st;
          let st2 = wp (at8 (rp st1 (b + MB_PRECORD)) i) p st1;
          if p = 0 then Some (st2, - ENOMEM)
          else do {
            (st3, n) \<leftarrow> m_blob_2_struct (adr_plus blob off) p t st2;
            if n < 0 then Some (st3, n)
            else if n + off > data_size then Some (st3, - EINVAL)
            else read_records b blob data_size (i + 1) k (off + n) st3 } }"

definition message_read_record_blob :: "mstate \<Rightarrow> nat \<Rightarrow> nat \<Rightarrow> int \<Rightarrow> (mstate \<times> int) option" where
  "message_read_record_blob st b blob data_size =
     (if b = 0 then Some (st, - EINVAL)
      else if blob = 0 then Some (st, - EINVAL)
      else if data_size \<le> 0 then Some (st, - EINVAL)
      else do {
        (st1, t) \<leftarrow> message_load_record_template st b;
        if t = 0 then Some (st1, - EINVAL)
        else read_records b blob data_size 0 (nat (ri st1 (b + MH_RECORD_NUM))) 0 st1 })"

section \<open>The texts of message types\<close>

text \<open>
  \<^verbatim>\<open>message_get_typestr\<close> builds the text on the stack. Without a subtype text only the type is given; the
  error codes that the database may return as addresses are followed.
\<close>

definition dup_text :: "nat \<Rightarrow> int \<Rightarrow> mstate \<Rightarrow> (mstate \<times> nat) option" where
  "dup_text src n st =
     do { (es, p) \<leftarrow> dup_str (db_es (ms_db st)) src n;
          Some (st\<lparr>ms_db := set_es es (ms_db st)\<rparr>, case p of None \<Rightarrow> 0 | Some a \<Rightarrow> a) }"

definition message_get_typestr :: "mstate \<Rightarrow> nat \<Rightarrow> (mstate \<times> nat) option" where
  "message_get_typestr st b =
     (if b = 0 then Some (st, 0)
      else
        let type = ri st (b + MH_TYPE); subtype = ri st (b + MH_SUBTYPE);
            typestr = memdb_get_typestr (ms_db st) type; buffer = ms_stack st
        in if typestr = 0 then Some (st, 0)
           else if typestr = einval_ptr then None
           else do {
             (st1, sub) \<leftarrow> (if subtype = 0 then dup_text (ms_lit st ''NULL'') 0 st
                            else on_db (\<lambda>db. memdb_get_subtypestr db type subtype) st);
             if subtype \<noteq> 0 \<and> sub = 0 then dup_text typestr 0 st1
             else if sub = 0 \<or> sub = einval_ptr then None
             else do {
               (m1, _) \<leftarrow> Strncpy (mm st1) buffer typestr 32;
               (m2, _) \<leftarrow> Strcat m1 buffer (ms_lit st '' '');
               (m3, _) \<leftarrow> Strncat m2 buffer sub 32;
               dup_text buffer 65 (set_mm m3 st1) } })"

text \<open>
  The loops of \<^verbatim>\<open>message_read_typestr\<close>. The search for the opening bracket steps by two characters; the others copy
  characters to the buffer up to one of the set \<open>ends\<close>, or skip spaces. \<open>None\<close> stands for the return of \<^verbatim>\<open>-EINVAL\<close>.
\<close>

function find_open :: "mem \<Rightarrow> nat \<Rightarrow> nat \<Rightarrow> nat \<Rightarrow> nat option" where
  "find_open m str len off =
     (if m (str + off) = 40 then Some (off + 1) else if off + 2 \<ge> len then None else find_open m str len (off + 2))"
  by pat_completeness auto
termination by (relation "measure (\<lambda>(m, str, len, off). len - off)") auto

function copy_until :: "byte list \<Rightarrow> nat \<Rightarrow> nat \<Rightarrow> nat \<Rightarrow> mem \<Rightarrow> nat \<Rightarrow> nat \<Rightarrow> mem \<times> (nat \<times> nat) option" where
  "copy_until ends str len buffer m i off =
     (if m (str + off) \<in> set ends then (m, Some (i, off))
      else
        let m1 = m(buffer + i := m (str + off))
        in if off + 1 \<ge> len then (m1, None) else copy_until ends str len buffer m1 (i + 1) (off + 1))"
  by pat_completeness auto
termination by (relation "measure (\<lambda>(ends, str, len, buffer, m, i, off). len - off)") auto

function skip_blanks :: "mem \<Rightarrow> nat \<Rightarrow> nat \<Rightarrow> nat \<Rightarrow> nat option" where
  "skip_blanks m str len off =
     (if m (str + off + 1) = 32 then (if off + 1 \<ge> len then None else skip_blanks m str len (off + 1)) else Some (off + 1))"
  by pat_completeness auto
termination by (relation "measure (\<lambda>(m, str, len, off). len - off)") auto

declare find_open.simps [simp del] copy_until.simps [simp del] skip_blanks.simps [simp del]

definition put_end :: "nat \<Rightarrow> mstate \<Rightarrow> mstate" where "put_end a st = set_mm ((mm st)(a := 0)) st"

definition message_read_typestr :: "mstate \<Rightarrow> nat \<Rightarrow> nat \<Rightarrow> nat \<Rightarrow> (mstate \<times> int) option" where
  "message_read_typestr st str typ sub =
     (if str = 0 then Some (st, - EINVAL)
      else
        let len = Strnlen (mm st) str 65; buffer = ms_stack st
        in if len \<ge> 64 then Some (st, - EINVAL)
           else case find_open (mm st) str len 0 of
                  None \<Rightarrow> Some (st, - EINVAL)
                | Some off \<Rightarrow>
                    (case copy_until [44, 41] str len buffer (mm st) 0 off of
                       (m, None) \<Rightarrow> Some (set_mm m st, - EINVAL)
                     | (m, Some (i, off1)) \<Rightarrow>
                         do { let st1 = put_end (buffer + i) (set_mm m st);
                              t \<leftarrow> memdb_get_typeno (ms_db st1) buffer;
                              let st2 = wi typ t st1;
                              if t < 0 then Some (st2, t)
                              else
                                let st3 = wi sub 0 st2
                                in if mm st3 (str + off1) = 41 then Some (st3, int off1)
                                   else case skip_blanks (mm st3) str len off1 of
                                          None \<Rightarrow> Some (st3, - EINVAL)
                                        | Some off2 \<Rightarrow>
                                            (case copy_until [41] str len buffer (mm st3) 0 off2 of
                                               (m, None) \<Rightarrow> Some (set_mm m st3, - EINVAL)
                                             | (m, Some (i, off3)) \<Rightarrow>
                                                 if i = 0 then Some (set_mm m st3, int off3)
                                                 else do {
                                                   let st4 = put_end (buffer + i) (set_mm m st3);
                                                   (st5, s) \<leftarrow> on_db (\<lambda>db. memdb_get_subtypeno db t buffer) st4;
                                                   Some (wi sub s st5, if s < 0 then s else int off3) }) }))"

section \<open>Freeing and cloning\<close>

fun clear_slots :: "nat \<Rightarrow> nat \<Rightarrow> int \<Rightarrow> nat \<Rightarrow> mstate \<Rightarrow> mstate" where
  "clear_slots b f i 0 st = st"
| "clear_slots b f i (Suc k) st =
     (let clear = (\<lambda>a s. if rp s a \<noteq> 0 then wp a 0 s else s);
          st1 = clear (at8 (rp st (b + f)) i) st;
          st2 = clear (at8 (rp st1 (b + (f + 8))) i) st1
      in clear_slots b f (i + 1) k st2)"

text \<open>
  The effect of \<^verbatim>\<open>message_free\<close> on the memory. The array of the records and both templates are freed without a test, though
  they may be \<^verbatim>\<open>NULL\<close>.
\<close>

definition message_free :: "mstate \<Rightarrow> nat \<Rightarrow> mstate option" where
  "message_free st b =
     (if b = 0 then Some st
      else
        let st1 = clear_slots b MB_EXPAND 0 (nat (ri st (b + MH_EXPAND_NUM))) st;
            st2 = clear_slots b MB_RECORD 0 (nat (ri st1 (b + MH_RECORD_NUM))) st1
        in if rp st2 (b + MB_RECORD) = 0 \<or> rp st2 (b + MB_RECORD_TEMPLATE) = 0 \<or> rp st2 (b + MB_HEAD_TEMPLATE) = 0 then None
           else Some st2)"

definition free_null :: "mstate \<Rightarrow> nat \<Rightarrow> (mstate \<times> nat) option" where
  "free_null st b = map_option (\<lambda>s. (s, 0)) (message_free st b)"

fun clone_records :: "nat \<Rightarrow> nat \<Rightarrow> int \<Rightarrow> nat \<Rightarrow> mstate \<Rightarrow> (mstate \<times> bool) option" where
  "clone_records src new i 0 st = Some (st, True)"
| "clone_records src new i (Suc k) st =
     (let r = rp st (at8 (rp st (src + MB_PRECORD)) i)
      in if r = 0 then Some (st, False)
         else do {
           (st1, c) \<leftarrow> m_clone_struct r (rp st (src + MB_RECORD_TEMPLATE)) st;
           if c = 0 then Some (st1, False)
           else do { (st2, _) \<leftarrow> message_add_record st1 new c; clone_records src new (i + 1) k st2 } })"

text \<open>The traces of a message, its aspect points and route records stay with the original.\<close>

definition is_trace :: "mem \<Rightarrow> nat \<Rightarrow> bool" where
  "is_trace m e \<longleftrightarrow> ex_type m e = DTYPE_MSG_EXPAND \<and> ex_subtype m e \<in> {1, 2, 3}"

fun clone_expands :: "nat \<Rightarrow> nat \<Rightarrow> int \<Rightarrow> nat \<Rightarrow> mstate \<Rightarrow> (mstate \<times> bool) option" where
  "clone_expands src new i 0 st = Some (st, True)"
| "clone_expands src new i (Suc k) st =
     (let e = rp st (at8 (rp st (src + MB_PEXPAND)) i)
      in if e \<noteq> 0 then
           (if is_trace (mm st) e then clone_expands src new (i + 1) k st
            else do {
              (st1, r) \<leftarrow> message_add_expand_data st new (ex_type (mm st) e) (ex_subtype (mm st) e) (ex_expand (mm st) e);
              if r < 0 then Some (st1, False) else clone_expands src new (i + 1) k st1 })
         else if rp st (at8 (rp st (src + MB_EXPAND)) i) \<noteq> 0 then clone_expands src new (i + 1) k st
         else Some (st, False))"

definition clone_content :: "mstate \<Rightarrow> nat \<Rightarrow> nat \<Rightarrow> (mstate \<times> nat + mstate) option" where
  "clone_content st src new =
     (if ri st (src + MH_FLAG) AND MSG_FLAG_CRYPT \<noteq> 0 \<or> rp st (new + MB_RECORD_TEMPLATE) = 0 then
        (if rp st (src + MB_BLOB) = 0 then Some (Inl (st, 0))
         else
           let (st1, blob) = m_malloc st
           in if blob = 0 then Some (Inl (st1, 0))
              else
                let st2 = wi (new + MH_RECORD_NUM) (ri st1 (src + MH_RECORD_NUM)) st1;
                    st3 = mcopy blob (rp st2 (src + MB_BLOB)) (ri st2 (src + MH_RECORD_SIZE)) st2
                in Some (Inr (wp (new + MB_BLOB) blob st3)))
      else
        do { let st1 = wi (new + MH_RECORD_SIZE) 0 (wi (new + MH_RECORD_NUM) 0 st);
             (st2, ok) \<leftarrow> clone_records src new 0 (nat (ri st1 (src + MH_RECORD_NUM))) st1;
             if ok then Some (Inr st2) else map_option Inl (free_null st2 new) })"

definition message_clone :: "mstate \<Rightarrow> nat \<Rightarrow> (mstate \<times> nat) option" where
  "message_clone st src =
     (if src = 0 then Some (st, einval_ptr)
      else do {
        (st1, new) \<leftarrow> message_init st;
        if new = 0 then Some (st1, einval_ptr)
        else do {
          let st2 = mcopy new src MSG_HEAD_SIZE st1;
          let st3 = wi (new + MH_EXPAND_SIZE) 0 (wi (new + MH_EXPAND_NUM) 0 (wi (new + MH_RECORD_NUM) 0
                (wi (new + MB_STATE) MSG_BOX_INIT st2)));
          (st4, r) \<leftarrow> message_record_init st3 new;
          if r < 0 then free_null st4 new
          else do {
            c \<leftarrow> clone_content st4 src new;
            case c of
              Inl x \<Rightarrow> Some x
            | Inr st5 \<Rightarrow>
                do { (st6, ok) \<leftarrow> clone_expands src new 0 (nat (ri st5 (src + MH_EXPAND_NUM))) st5;
                     if ok then Some (wp (new + MB_ACTIVE) src st6, new) else free_null st6 new } } } })"

definition message_gen_typesmsg :: "mstate \<Rightarrow> int \<Rightarrow> int \<Rightarrow> nat \<Rightarrow> (mstate \<times> nat) option" where
  "message_gen_typesmsg st type subtype active =
     do { (st1, b) \<leftarrow> message_create st DTYPE_MESSAGE SUBTYPE_TYPES active;
          if b = 0 then Some (st1, einval_ptr)
          else do {
            let (st2, p) = m_talloc 8 st1;
            if p = 0 then Some (st2, einval_ptr)
            else do { (st3, _) \<leftarrow> message_add_record (wi (p + 4) subtype (wi p type st2)) b p; Some (st3, b) } } }"

end
