(* ===== verification/Cube_Message_Laws.thy ===== *)
theory Cube_Message_Laws
  imports Cube_Message_Read
begin

text \<open>
  Properties of messages: searching and removing expands on the arrays of the box, adding records as blobs, and
  reading a message in pieces.
\<close>

section \<open>Fields of the memory\<close>

named_theorems field_simps2

lemma state_simps [simp]:
  "mm (set_mm m st) = m" "mm (wi a v st) = wr_int (mm st) 4 a v" "mm (wp a p st) = put_ptr (mm st) a p"
  "ms_stack (set_mm m st) = ms_stack st" "ms_stack (wi a v st) = ms_stack st" "ms_stack (wp a p st) = ms_stack st"
  by (simp_all add: set_mm_def wi_def wp_def)

lemma get_ptr_other [field_simps2]:
  "a + 8 \<le> x \<or> x + 8 \<le> a \<Longrightarrow> get_ptr (put_ptr m a p) x = get_ptr m x"
  "a + k \<le> x \<or> x + 8 \<le> a \<Longrightarrow> get_ptr (wr_int m k a v) x = get_ptr m x"
  by (auto intro!: get_ptr_cong simp: put_ptr_outside wr_int_outside)

lemma rd_sint_other [field_simps2]:
  "a + 8 \<le> x \<or> x + n \<le> a \<Longrightarrow> rd_sint (put_ptr m a p) n x = rd_sint m n x"
  "a + k \<le> x \<or> x + n \<le> a \<Longrightarrow> rd_sint (wr_int m k a v) n x = rd_sint m n x"
  by (auto intro!: rd_sint_cong simp: put_ptr_outside wr_int_outside)

lemma rd_sint_same [field_simps2]: "rd_sint (wr_int m 4 a (rd_sint m' 4 x)) 4 a = rd_sint m' 4 x"
  using rd_sint_range [of 4 m' x] by (intro rd_sint_wr_int) auto

lemma get_ptr_same [field_simps2]: "get_ptr (put_ptr m a (get_ptr m' x)) a = get_ptr m' x"
  using get_ptr_less by simp

lemma at_int [simp]: "at8 a (int i) = a + 8 * i" "at4 a (int i) = a + 4 * i"
  "at8 a (int i + 1) = a + 8 * Suc i" "at4 a (int i + 1) = a + 4 * Suc i"
  by (simp_all add: at8_def at4_def adr_plus_def nat_add_distrib nat_mult_distrib)

section \<open>The sites of a message\<close>

text \<open>Entry \<open>i\<close> of the arrays at the box field \<open>f\<close>: the blob, the structure and the size; and the first \<open>n\<close> entries.\<close>

definition site :: "mem \<Rightarrow> nat \<Rightarrow> nat \<Rightarrow> nat \<Rightarrow> nat \<times> nat \<times> int" where
  "site m b f i = (get_ptr m (get_ptr m (b + f) + 8 * i), get_ptr m (get_ptr m (b + (f + 8)) + 8 * i),
     rd_sint m 4 (get_ptr m (b + (f + 16)) + 4 * i))"

definition msg_expands :: "mem \<Rightarrow> nat \<Rightarrow> (nat \<times> nat \<times> int) list" where
  "msg_expands m b = map (site m b MB_EXPAND) [0..<nat (rd_sint m 4 (b + MH_EXPAND_NUM))]"

definition msg_records :: "mem \<Rightarrow> nat \<Rightarrow> (nat \<times> nat \<times> int) list" where
  "msg_records m b = map (site m b MB_RECORD) [0..<nat (rd_sint m 4 (b + MH_RECORD_NUM))]"

text \<open>The address of the head of an expand: its structure, or else its blob.\<close>

fun ex_addr :: "nat \<times> nat \<times> int \<Rightarrow> nat" where "ex_addr (bin, p, n) = (if p \<noteq> 0 then p else bin)"
fun ex_struct :: "nat \<times> nat \<times> int \<Rightarrow> nat" where "ex_struct (bin, p, n) = p"

lemma define_loop_find:
  "define_loop m P type subtype (int i) k
     = map_option (\<lambda>j. (int j, get_ptr m (P + 8 * j)))
         (find (\<lambda>j. get_ptr m (P + 8 * j) \<noteq> 0 \<and> ex_is m (get_ptr m (P + 8 * j)) type subtype) [i..<i + k])"
proof (induction k arbitrary: i)
  case (Suc k)
  have "[i..<i + Suc k] = i # [Suc i..<Suc i + k]" by (simp add: upt_rec)
  then show ?case using Suc.IH [of "Suc i"] by (simp only: find.simps) (simp add: Let_def add.commute)
qed simp

text \<open>\<^verbatim>\<open>message_get_define_expand\<close> gives the number and the address of the first expand structure with the type and subtype,
  and the number 0 with \<^verbatim>\<open>NULL\<close> when no expand has them.\<close>

theorem message_get_define_expand_correct:
  assumes "b \<noteq> 0"
  shows "message_get_define_expand st b type subtype
    = (let es = msg_expands (mm st) b
       in case find (\<lambda>i. ex_struct (es ! i) \<noteq> 0 \<and> ex_is (mm st) (ex_struct (es ! i)) type subtype) [0..<length es] of
            None \<Rightarrow> (0, Some 0)
          | Some i \<Rightarrow> (int i, Some (ex_struct (es ! i))))"
proof -
  let ?n = "nat (ri st (b + MH_EXPAND_NUM))" let ?P = "rp st (b + MB_PEXPAND)"
  let ?es = "msg_expands (mm st) b"
  have st: "ex_struct (?es ! i) = rp st (?P + 8 * i)" if "i < ?n" for i
    using that by (simp add: msg_expands_def site_def)
  let ?f = "find (\<lambda>i. ex_struct (?es ! i) \<noteq> 0 \<and> ex_is (mm st) (ex_struct (?es ! i)) type subtype) [0..<?n]"
  have "find (\<lambda>j. rp st (?P + 8 * j) \<noteq> 0 \<and> ex_is (mm st) (rp st (?P + 8 * j)) type subtype) [0..<?n] = ?f"
    by (rule find_cong) (simp_all add: st)
  then have loop: "define_loop (mm st) ?P type subtype 0 ?n = map_option (\<lambda>j. (int j, rp st (?P + 8 * j))) ?f"
    using define_loop_find [of "mm st" ?P type subtype 0 ?n] by simp
  have len: "length ?es = ?n" by (simp add: msg_expands_def)
  show ?thesis
  proof (cases ?f)
    case None
    then show ?thesis using assms loop by (simp add: message_get_define_expand_def len)
  next
    case (Some i)
    then have "i < ?n" by (auto simp: find_Some_iff)
    with Some show ?thesis using assms loop by (simp add: message_get_define_expand_def len st)
  qed
qed

section \<open>Removing an expand\<close>

text \<open>The arrays at the field \<open>f\<close> lie in one block of \<open>N\<close> entries at \<open>E\<close>, outside of the box.\<close>

definition site_block :: "mem \<Rightarrow> nat \<Rightarrow> nat \<Rightarrow> nat \<Rightarrow> nat \<Rightarrow> bool" where
  "site_block m b f E N \<longleftrightarrow> get_ptr m (b + f) = E \<and> get_ptr m (b + (f + 8)) = E + 8 * N \<and> get_ptr m (b + (f + 16)) = E + 16 * N
     \<and> (E + 20 * N \<le> b \<or> b + 288 \<le> E)"

lemma site_block_site:
  "site_block m b f E N \<Longrightarrow> site m b f i = (get_ptr m (E + 8 * i), get_ptr m (E + 8 * N + 8 * i), rd_sint m 4 (E + 16 * N + 4 * i))"
  by (simp add: site_block_def site_def)

lemma site_block_keep:
  assumes "site_block m b f E N" "\<forall>x. b \<le> x \<and> x < b + 288 \<longrightarrow> m' x = m x" "f + 24 \<le> 288"
  shows "site_block m' b f E N"
proof -
  have "get_ptr m' a = get_ptr m a" if "a \<in> {b + f, b + (f + 8), b + (f + 16)}" for a
    using that assms(2,3) by (intro get_ptr_cong) auto
  then show ?thesis using assms(1) by (simp add: site_block_def)
qed

lemma shift_step:
  assumes "site_block m b MB_EXPAND E N" "i < N"
    and m1: "m1 = put_ptr m (E + 8 * i) (get_ptr m (E + 8 * Suc i))"
    and m2: "m2 = put_ptr m1 (E + 8 * N + 8 * i) (get_ptr m1 (E + 8 * N + 8 * Suc i))"
    and m3: "m3 = wr_int m2 4 (E + 16 * N + 4 * i) (rd_sint m2 4 (E + 16 * N + 4 * Suc i))"
  shows "same_outside {E..<E + 20 * N} m m3" "site_block m3 b MB_EXPAND E N"
    and "j < N \<Longrightarrow> j \<noteq> i \<Longrightarrow> site m3 b MB_EXPAND j = site m b MB_EXPAND j"
    and "Suc i < N \<Longrightarrow> site m3 b MB_EXPAND i = site m b MB_EXPAND (Suc i)"
proof -
  show so: "same_outside {E..<E + 20 * N} m m3"
    unfolding same_outside_def using assms(2) by (auto simp: m3 m2 m1 put_ptr_outside wr_int_outside)
  have "\<forall>x. b \<le> x \<and> x < b + 288 \<longrightarrow> m3 x = m x"
    using so assms(1) unfolding same_outside_def site_block_def by (auto simp: Let_def)
  then show b3: "site_block m3 b MB_EXPAND E N" by (rule site_block_keep [OF assms(1)]) simp
  note s = site_block_site [OF assms(1)] site_block_site [OF b3]
  show "site m3 b MB_EXPAND j = site m b MB_EXPAND j" if "j < N" "j \<noteq> i"
  proof -
    from that have "j < i \<or> i < j" by linarith
    then show ?thesis using that assms(2) unfolding s
      by (elim disjE) (simp_all add: m3 m2 m1 get_ptr_other rd_sint_other)
  qed
  show "site m3 b MB_EXPAND i = site m b MB_EXPAND (Suc i)" if "Suc i < N"
    using that unfolding s
    by (simp add: m3 m2 m1 get_ptr_same rd_sint_same get_ptr_other rd_sint_other)
qed

lemma shift_expands_sites:
  assumes "site_block (mm st) b MB_EXPAND E N" "i + k \<le> N"
  shows "\<exists>m. shift_expands b (int i) k st = set_mm m st \<and> same_outside {E..<E + 20 * N} (mm st) m \<and> site_block m b MB_EXPAND E N
    \<and> (\<forall>j<i. site m b MB_EXPAND j = site (mm st) b MB_EXPAND j)
    \<and> (\<forall>j. i \<le> j \<and> Suc j < i + k \<longrightarrow> site m b MB_EXPAND j = site (mm st) b MB_EXPAND (Suc j))"
  using assms
proof (induction k arbitrary: i st)
  case 0
  then show ?case by (intro exI [of _ "mm st"]) (auto simp: set_mm_def same_outside_def)
next
  case (Suc k)
  let ?m = "mm st"
  define m1 where "m1 = put_ptr ?m (E + 8 * i) (get_ptr ?m (E + 8 * Suc i))"
  define m2 where "m2 = put_ptr m1 (E + 8 * N + 8 * i) (get_ptr m1 (E + 8 * N + 8 * Suc i))"
  define m3 where "m3 = wr_int m2 4 (E + 16 * N + 4 * i) (rd_sint m2 4 (E + 16 * N + 4 * Suc i))"
  have iN: "i < N" using Suc.prems by simp
  note step = shift_step [OF Suc.prems(1) iN m1_def m2_def m3_def]
  have box: "get_ptr m1 (b + 236) = E + 8 * N" "get_ptr m2 (b + 244) = E + 16 * N"
    using Suc.prems(1) iN by (auto simp: site_block_def m1_def m2_def get_ptr_other)
  have "shift_expands b (int i) (Suc k) st = shift_expands b (int (Suc i)) k (set_mm m3 st)"
  proof -
    have "wp (at8 (rp st (b + 228)) (int i)) (rp st (at8 (rp st (b + 228)) (int i + 1))) st = set_mm m1 st"
      using Suc.prems(1) by (simp add: site_block_def m1_def wp_def)
    moreover have "wp (at8 (get_ptr m1 (b + 236)) (int i)) (get_ptr m1 (at8 (get_ptr m1 (b + 236)) (int i + 1))) (set_mm m1 st) = set_mm m2 st"
      unfolding box by (simp add: m2_def wp_def) (simp add: set_mm_def)
    moreover have "wi (at4 (get_ptr m2 (b + 244)) (int i)) (rd_sint m2 4 (at4 (get_ptr m2 (b + 244)) (int i + 1))) (set_mm m2 st) = set_mm m3 st"
      unfolding box by (simp add: m3_def wi_def) (simp add: set_mm_def)
    ultimately show ?thesis by (simp add: Let_def add.commute del: at_int state_simps(2,3))
  qed
  moreover obtain m where m: "shift_expands b (int (Suc i)) k (set_mm m3 st) = set_mm m (set_mm m3 st)"
    "same_outside {E..<E + 20 * N} m3 m" "site_block m b MB_EXPAND E N"
    "\<forall>j<Suc i. site m b MB_EXPAND j = site m3 b MB_EXPAND j"
    "\<forall>j. Suc i \<le> j \<and> Suc j < Suc i + k \<longrightarrow> site m b MB_EXPAND j = site m3 b MB_EXPAND (Suc j)"
    using Suc.IH [of "set_mm m3 st" "Suc i"] step(2) Suc.prems(2) by auto
  moreover have "site m b MB_EXPAND j = site ?m b MB_EXPAND j" if "j < i" for j
    using that m(4) step(3) [of j] iN by simp
  moreover have "site m b MB_EXPAND j = site ?m b MB_EXPAND (Suc j)" if "i \<le> j" "Suc j < i + Suc k" for j
  proof (cases "j = i")
    case True
    then show ?thesis using that m(4) step(4) Suc.prems(2) by simp
  next
    case False
    then show ?thesis using that m(5) step(3) [of "Suc j"] Suc.prems(2) by simp
  qed
  ultimately show ?case using same_outside_trans [OF step(1)] by (intro exI [of _ m]) (simp add: set_mm_def)
qed

lemma remove_loop_find:
  assumes "\<And>j. i \<le> j \<Longrightarrow> j < i + k \<Longrightarrow> ex_addr (get_ptr m (E + 8 * j), get_ptr m (P + 8 * j), n) \<noteq> 0"
  shows "remove_loop m P E type subtype (int i) k
     = map_option int (find (\<lambda>j. ex_is m (ex_addr (get_ptr m (E + 8 * j), get_ptr m (P + 8 * j), n)) type subtype) [i..<i + k])"
  using assms
proof (induction k arbitrary: i)
  case (Suc k)
  have "[i..<i + Suc k] = i # [Suc i..<Suc i + k]" by (simp add: upt_rec)
  moreover have "ex_addr (get_ptr m (E + 8 * i), get_ptr m (P + 8 * i), n) \<noteq> 0" by (rule Suc.prems) auto
  moreover have "remove_loop m P E type subtype (int (Suc i)) k
     = map_option int (find (\<lambda>j. ex_is m (ex_addr (get_ptr m (E + 8 * j), get_ptr m (P + 8 * j), n)) type subtype) [Suc i..<Suc i + k])"
    by (rule Suc.IH, rule Suc.prems) auto
  ultimately show ?case by (simp only: find.simps) (auto simp: Let_def add.commute)
qed simp

lemma extract_find_index:
  "List.extract P xs = (case find (\<lambda>i. P (xs ! i)) [0..<length xs] of
     None \<Rightarrow> None | Some i \<Rightarrow> Some (take i xs, xs ! i, drop (Suc i) xs))"
proof (cases "find (\<lambda>i. P (xs ! i)) [0..<length xs]")
  case None
  then have "List.extract P xs = None" by (auto simp: find_None_iff extract_None_iff in_set_conv_nth)
  with None show ?thesis by simp
next
  case (Some i)
  then have i: "i < length xs" "P (xs ! i)" "\<forall>j<i. \<not> P (xs ! j)" by (auto simp: find_Some_iff)
  then have "\<not> (\<exists>y\<in>set (take i xs). P y)" by (auto simp: in_set_conv_nth)
  with i Some show ?thesis by (auto simp: extract_Some_iff id_take_nth_drop [symmetric])
qed

lemma msg_expands_keep:
  assumes "site_block m b MB_EXPAND E N" "rd_sint m 4 (b + MH_EXPAND_NUM) \<le> int N"
    and "\<And>x. E \<le> x \<and> x < E + 20 * N \<or> b \<le> x \<and> x < b + 288 \<Longrightarrow> m' x = m x"
  shows "msg_expands m' b = msg_expands m b" "site_block m' b MB_EXPAND E N"
    "rd_sint m' 4 (b + MH_EXPAND_NUM) = rd_sint m 4 (b + MH_EXPAND_NUM)"
proof -
  show b': "site_block m' b MB_EXPAND E N" by (rule site_block_keep [OF assms(1)]) (simp_all add: assms(3))
  show num: "rd_sint m' 4 (b + MH_EXPAND_NUM) = rd_sint m 4 (b + MH_EXPAND_NUM)"
    by (rule rd_sint_cong, rule assms(3)) auto
  have "site m' b MB_EXPAND i = site m b MB_EXPAND i" if "i < N" for i
    unfolding site_block_site [OF assms(1)] site_block_site [OF b'] using that
    by (auto intro!: get_ptr_cong rd_sint_cong assms(3))
  then show "msg_expands m' b = msg_expands m b" using assms(2) num by (auto simp: msg_expands_def)
qed

lemma message_remove_indexed_expand_sites:
  assumes "b \<noteq> 0" "out \<noteq> 0" "site_block (mm st) b MB_EXPAND E N" "ri st (b + MH_EXPAND_NUM) \<le> int N"
    and "out + 8 \<le> E \<or> E + 20 * N \<le> out" "out + 8 \<le> b \<or> b + 288 \<le> out" "i < length (msg_expands (mm st) b)"
  shows "\<exists>m. message_remove_indexed_expand st b (int i) out = (set_mm m st, 0)
    \<and> msg_expands m b = take i (msg_expands (mm st) b) @ drop (Suc i) (msg_expands (mm st) b)
    \<and> get_ptr m out = ex_struct (msg_expands (mm st) b ! i)
    \<and> same_outside ({out..<out + 8} \<union> {b + 140..<b + 144} \<union> {E..<E + 20 * N}) (mm st) m"
proof -
  let ?es = "msg_expands (mm st) b" let ?num = "ri st (b + MH_EXPAND_NUM)"
  have len: "length ?es = nat ?num" by (simp add: msg_expands_def)
  then have i: "int i < ?num" "i < N" using assms(4,7) by linarith+
  define m1 where "m1 = put_ptr (mm st) out (rp st (E + 8 * N + 8 * i))"
  have out: "m1 x = mm st x" if "E \<le> x \<and> x < E + 20 * N \<or> b \<le> x \<and> x < b + 288" for x
    using that assms(5,6) by (auto simp: m1_def put_ptr_outside)
  have keep1: "msg_expands m1 b = ?es" "site_block m1 b MB_EXPAND E N" "rd_sint m1 4 (b + MH_EXPAND_NUM) = ?num"
    using msg_expands_keep [OF assms(3,4), of m1] out by blast+
  obtain m where m: "shift_expands b (int i) (nat ?num - i) (set_mm m1 st) = set_mm m (set_mm m1 st)"
    "same_outside {E..<E + 20 * N} m1 m" "site_block m b MB_EXPAND E N"
    "\<forall>j<i. site m b MB_EXPAND j = site m1 b MB_EXPAND j"
    "\<forall>j. i \<le> j \<and> Suc j < nat ?num \<longrightarrow> site m b MB_EXPAND j = site m1 b MB_EXPAND (Suc j)"
    proof -
    have "i + (nat ?num - i) \<le> N" "i + (nat ?num - i) = nat ?num" using assms(4) i by linarith+
    then show ?thesis using that shift_expands_sites [of "set_mm m1 st" b E N i "nat ?num - i"] keep1(2) by auto
  qed
  have num: "rd_sint m 4 (b + MH_EXPAND_NUM) = ?num"
    using m(2) assms(3) i(2) by (intro rd_sint_cong) (auto simp: same_outside_def site_block_def out)
  let ?m = "wr_int m 4 (b + MH_EXPAND_NUM) (?num - 1)"
  have num2: "rd_sint ?m 4 (b + MH_EXPAND_NUM) = ?num - 1"
    using i(1) rd_sint_range [of 4 "mm st" "b + MH_EXPAND_NUM"] by (intro rd_sint_wr_int) auto
  have str: "rp st (E + 8 * N + 8 * i) = ex_struct (?es ! i)"
    using i(1) site_block_site [OF assms(3)] by (simp add: msg_expands_def)
  have "message_remove_indexed_expand st b (int i) out = (set_mm ?m st, 0)"
  proof -
    have "wp out (rp st (at8 (rp st (b + MB_PEXPAND)) (int i))) st = set_mm m1 st"
      using assms(3) by (simp add: site_block_def m1_def wp_def)
    moreover have "nat (rd_sint m1 4 (b + MH_EXPAND_NUM) - int i) = nat ?num - i" unfolding keep1(3) using i(1) by simp
    ultimately show ?thesis using assms(1,2) i(1) m(1) num
      by (simp add: message_remove_indexed_expand_def Let_def wi_def del: state_simps(2,3)) (simp add: set_mm_def)
  qed
  moreover have "msg_expands ?m b = take i ?es @ drop (Suc i) ?es"
  proof (rule nth_equalityI)
    have site2: "site ?m b MB_EXPAND j = site m b MB_EXPAND j" if "j < N" for j
      using m(3) that unfolding site_def site_block_def by (auto simp: get_ptr_other rd_sint_other)
    have nth: "?es ! j = site m1 b MB_EXPAND j" if "j < nat ?num" for j
      using that unfolding keep1(1) [symmetric] by (simp only: msg_expands_def keep1(3)) simp
    show "length (msg_expands ?m b) = length (take i ?es @ drop (Suc i) ?es)"
      using i(1) len num2 by (simp add: msg_expands_def)
    fix j assume "j < length (msg_expands ?m b)"
    then have j: "j < nat (?num - 1)" using num2 by (simp add: msg_expands_def)
    then have "msg_expands ?m b ! j = site m b MB_EXPAND j"
      using num2 site2 assms(4) by (simp add: msg_expands_def)
    also have "\<dots> = (take i ?es @ drop (Suc i) ?es) ! j"
      using j i(1) m(4,5) len nth by (auto simp: nth_append min_def)
    finally show "msg_expands ?m b ! j = (take i ?es @ drop (Suc i) ?es) ! j" .
  qed
  moreover have "get_ptr ?m out = ex_struct (?es ! i)"
  proof -
    have "get_ptr ?m out = get_ptr m out" using assms(6) by (intro get_ptr_other(2)) auto
    also have "\<dots> = get_ptr m1 out" using m(2) assms(5) by (intro get_ptr_cong) (auto simp: same_outside_def)
    also have "\<dots> = ex_struct (?es ! i)" unfolding m1_def get_ptr_same by (rule str)
    finally show ?thesis .
  qed
  moreover have "same_outside ({out..<out + 8} \<union> {b + 140..<b + 144} \<union> {E..<E + 20 * N}) (mm st) ?m"
    using m(2) by (auto simp: same_outside_def m1_def wr_int_outside put_ptr_outside)
  ultimately show ?thesis by blast
qed

text \<open>(C14) \<^verbatim>\<open>message_remove_expand\<close> takes exactly the first expand with the type and subtype out of the message and hands its
  structure to the caller; all other expands keep their order, and only the caller's pointer, the counter and the arrays change.\<close>

theorem message_remove_expand_correct:
  assumes "b \<noteq> 0" "out \<noteq> 0" "site_block (mm st) b MB_EXPAND E N" "ri st (b + MH_EXPAND_NUM) \<le> int N"
    and "out + 8 \<le> E \<or> E + 20 * N \<le> out" "out + 8 \<le> b \<or> b + 288 \<le> out"
    and "\<forall>x \<in> set (msg_expands (mm st) b). ex_addr x \<noteq> 0 \<and> (out + 8 \<le> ex_addr x \<or> ex_addr x + 12 \<le> out)"
  shows "\<exists>m. message_remove_expand st b type subtype out = (set_mm m st, 0)
    \<and> same_outside ({out..<out + 8} \<union> {b + 140..<b + 144} \<union> {E..<E + 20 * N}) (mm st) m
    \<and> (case List.extract (\<lambda>x. ex_is (mm st) (ex_addr x) type subtype) (msg_expands (mm st) b) of
         None \<Rightarrow> msg_expands m b = msg_expands (mm st) b \<and> get_ptr m out = 0
       | Some (before, x, after) \<Rightarrow> msg_expands m b = before @ after \<and> get_ptr m out = ex_struct x)"
proof -
  let ?es = "msg_expands (mm st) b" let ?num = "ri st (b + MH_EXPAND_NUM)"
  define m1 where "m1 = put_ptr (mm st) out 0"
  have out: "m1 x = mm st x" if "E \<le> x \<and> x < E + 20 * N \<or> b \<le> x \<and> x < b + 288" for x
    using that assms(5,6) by (auto simp: m1_def put_ptr_outside)
  have keep1: "msg_expands m1 b = ?es" "site_block m1 b MB_EXPAND E N" "rd_sint m1 4 (b + MH_EXPAND_NUM) = ?num"
    using msg_expands_keep [OF assms(3,4), of m1] out by blast+
  have is1: "ex_is m1 (ex_addr x) type subtype = ex_is (mm st) (ex_addr x) type subtype" if "x \<in> set ?es" for x
    using assms(7) that by (auto simp: ex_is_def ex_type_def ex_subtype_def m1_def rd_sint_other)
  have site1: "?es ! j = (get_ptr m1 (E + 8 * j), get_ptr m1 (E + 8 * N + 8 * j), rd_sint m1 4 (E + 16 * N + 4 * j))" if "j < nat ?num" for j
    using that site_block_site [OF keep1(2)] keep1(3) unfolding keep1(1) [symmetric] by (simp add: msg_expands_def)
  have len: "length ?es = nat ?num" by (simp add: msg_expands_def)
  let ?f = "find (\<lambda>i. ex_is (mm st) (ex_addr (?es ! i)) type subtype) [0..<length ?es]"
  have loop: "remove_loop m1 (E + 8 * N) E type subtype 0 (nat ?num) = map_option int ?f"
  proof -
    have addr: "ex_addr (get_ptr m1 (E + 8 * j), get_ptr m1 (E + 8 * N + 8 * j), 0) = ex_addr (?es ! j)" if "j < nat ?num" for j
      using site1 [OF that] by simp
    then have "remove_loop m1 (E + 8 * N) E type subtype 0 (nat ?num)
      = map_option int (find (\<lambda>j. ex_is m1 (ex_addr (get_ptr m1 (E + 8 * j), get_ptr m1 (E + 8 * N + 8 * j), 0)) type subtype) [0..<nat ?num])"
      using remove_loop_find [of 0 "nat ?num" m1 E "E + 8 * N" 0 type subtype] assms(7) len by simp
    also have "\<dots> = map_option int ?f"
      by (rule arg_cong [where f = "map_option int"], rule find_cong) (use addr is1 len in \<open>simp_all add: nth_mem\<close>)
    finally show ?thesis .
  qed
  have st1: "wp out 0 st = set_mm m1 st" by (simp add: wp_def m1_def)
  have ptrs: "get_ptr m1 (b + MB_PEXPAND) = E + 8 * N" "get_ptr m1 (b + MB_EXPAND) = E" using keep1(2) by (simp_all add: site_block_def)
  show ?thesis
  proof (cases ?f)
    case None
    have "message_remove_expand st b type subtype out = (set_mm m1 st, 0)"
      using assms(1,2) loop None by (simp add: message_remove_expand_def st1 ptrs keep1(3))
    moreover have "get_ptr m1 out = 0" by (simp add: m1_def)
    moreover have "same_outside ({out..<out + 8} \<union> {b + 140..<b + 144} \<union> {E..<E + 20 * N}) (mm st) m1"
      by (auto simp: same_outside_def m1_def put_ptr_outside)
    ultimately show ?thesis using keep1(1) by (intro exI [of _ m1]) (simp add: extract_find_index None)
  next
    case (Some i)
    then have i: "i < length (msg_expands (mm (set_mm m1 st)) b)" by (auto simp: find_Some_iff keep1(1))
    have "site_block (mm (set_mm m1 st)) b MB_EXPAND E N" "ri (set_mm m1 st) (b + MH_EXPAND_NUM) \<le> int N"
      using keep1 assms(4) by simp_all
    from message_remove_indexed_expand_sites [OF assms(1,2) this assms(5,6) i] obtain m where
      m: "message_remove_indexed_expand (set_mm m1 st) b (int i) out = (set_mm m (set_mm m1 st), 0)"
      "msg_expands m b = take i ?es @ drop (Suc i) ?es" "get_ptr m out = ex_struct (?es ! i)"
      "same_outside ({out..<out + 8} \<union> {b + 140..<b + 144} \<union> {E..<E + 20 * N}) m1 m"
      by (auto simp: keep1(1))
    have "message_remove_expand st b type subtype out = (set_mm m st, 0)"
      using assms(1,2) loop Some m(1) by (simp add: message_remove_expand_def st1 ptrs keep1(3)) (simp add: set_mm_def)
    moreover have "same_outside ({out..<out + 8} \<union> {b + 140..<b + 144} \<union> {E..<E + 20 * N}) (mm st) m"
      using m(4) by (auto simp: same_outside_def m1_def put_ptr_outside)
    ultimately show ?thesis using m(2,3) by (intro exI [of _ m]) (simp add: extract_find_index Some)
  qed
qed

section \<open>Allocations\<close>

text \<open>The answer of \<^verbatim>\<open>malloc\<close> to the call after the next \<open>k\<close>.\<close>

definition coming :: "mstate \<Rightarrow> nat \<Rightarrow> nat option" where
  "coming st k = es_malloc (db_es (ms_db st)) (es_calls (db_es (ms_db st)) + k)"

lemma coming_simps [simp]: "coming (set_mm m st) k = coming st k" "coming (wi a v st) k = coming st k" "coming (wp a p st) k = coming st k"
  by (simp_all add: coming_def set_mm_def wi_def wp_def)

lemma Dalloc0_zero: "p + 12 \<le> x \<Longrightarrow> x < p + 12 + nat sz \<Longrightarrow> fst (Dalloc0 m (Some p) sz base) x = 0"
  by (simp add: Dalloc0_def Dalloc_def Let_def Memset_def memset_loop_write mem_write_apply)

lemma m_dalloc0_result:
  assumes "coming st 0 = Some q"
  obtains st' where "m_dalloc0 sz b st = (st', q + 12)" "same_outside {q..<q + 12 + nat sz} (mm st) (mm st')"
    "\<And>x. q + 12 \<le> x \<Longrightarrow> x < q + 12 + nat sz \<Longrightarrow> mm st' x = 0" "\<And>k. coming st' k = coming st (Suc k)"
proof -
  let ?es = "db_es (ms_db st)" let ?m = "fst (Dalloc0 (mm st) (Some q) sz b)"
  have q: "es_malloc ?es (es_calls ?es) = Some q" using assms by (simp add: coming_def)
  have "dalloc0 sz b ?es = (?es\<lparr>es_mem := ?m, es_calls := es_calls ?es + 1\<rparr>, Some (q + 12))"
    unfolding dalloc0_def q by (subst Dalloc0_Some(1)) simp
  then have "m_dalloc0 sz b st = (st\<lparr>ms_db := set_es (?es\<lparr>es_mem := ?m, es_calls := es_calls ?es + 1\<rparr>) (ms_db st)\<rparr>, q + 12)"
    by (simp add: m_dalloc0_def on_es_def)
  from that [OF this] show thesis
    using Dalloc0_Some(2) Dalloc0_zero by (simp add: same_outside_def coming_def)
qed

lemma m_dalloc_result:
  assumes "coming st 0 = Some q"
  obtains st' where "m_dalloc sz b st = (st', q + 12)" "same_outside {q..<q + 12} (mm st) (mm st')"
    "\<And>k. coming st' k = coming st (Suc k)"
proof -
  let ?es = "db_es (ms_db st)" let ?m = "fst (Dalloc (mm st) (Some q) sz b)"
  have q: "es_malloc ?es (es_calls ?es) = Some q" using assms by (simp add: coming_def)
  have "m_dalloc sz b st = (st\<lparr>ms_db := set_es (?es\<lparr>es_mem := ?m, es_calls := es_calls ?es + 1\<rparr>) (ms_db st)\<rparr>, q + 12)"
    by (simp add: m_dalloc_def on_es_def alloc_with_def q Dalloc_def Let_def)
  moreover have "same_outside {q..<q + 12} (mm st) ?m"
    unfolding same_outside_def by (auto simp: Dalloc_def Let_def put32_outside put_ptr_outside)
  ultimately show thesis using that by (simp add: coming_def)
qed

lemma cmemcpy_disjoint:
  assumes "0 \<le> n" "dest + nat n \<le> src \<or> src + nat n \<le> dest"
  shows "cmemcpy dest src n st = Some (set_mm (mem_write (mm st) dest (mem_bytes (mm st) src (nat n))) st)"
proof -
  have "dest \<le> src \<or> src + nat n \<le> dest" using assms(2) by linarith
  then show ?thesis using assms(1) by (simp add: cmemcpy_def memcpy_loop_copy)
qed

section \<open>Adding a record as a blob\<close>

lemma get_ptr_zero: "(\<And>x. a \<le> x \<Longrightarrow> x < a + 8 \<Longrightarrow> m x = 0) \<Longrightarrow> get_ptr m a = 0"
  by (simp add: get_ptr_def)

lemma rd_sint_zero: "(\<And>x. a \<le> x \<Longrightarrow> x < a + 4 \<Longrightarrow> m x = 0) \<Longrightarrow> rd_sint m 4 a = 0"
  by (simp add: rd_sint_def rd_uint_def mem_bytes_def upt_rec)

text \<open>What \<open>new_sites\<close> leaves: fresh empty arrays for \<open>n\<close> entries.\<close>

lemma new_sites_result:
  assumes "coming st 0 = Some q" "q + 12 + 20 * n < 2 ^ 64" "q + 12 + 20 * n \<le> b \<or> b + 288 \<le> q" "f + 24 \<le> 288"
  obtains st' where "new_sites b f (int n) st = (st', True)" "site_block (mm st') b f (q + 12) n"
    "same_outside ({q..<q + 12 + 20 * n} \<union> {b + f..<b + f + 24}) (mm st) (mm st')"
    "\<And>x. q + 12 \<le> x \<Longrightarrow> x < q + 12 + 20 * n \<Longrightarrow> mm st' x = 0" "\<And>k. coming st' k = coming st (Suc k)"
proof -
  obtain st1 where st1: "m_dalloc0 (20 * int n) b st = (st1, q + 12)" "same_outside {q..<q + 12 + 20 * n} (mm st) (mm st1)"
    "\<And>x. q + 12 \<le> x \<Longrightarrow> x < q + 12 + 20 * n \<Longrightarrow> mm st1 x = 0" "\<And>k. coming st1 k = coming st (Suc k)"
    using m_dalloc0_result [OF assms(1), of "20 * int n" b] by (auto simp: nat_mult_distrib)
  have a: "at8 (q + 12) (2 * int n) = q + 12 + 16 * n" by (simp add: at8_def adr_plus_def nat_add_distrib nat_mult_distrib)
  let ?st = "wp (b + (f + 16)) (q + 12 + 16 * n) (wp (b + (f + 8)) (q + 12 + 8 * n) (wp (b + f) (q + 12) st1))"
  have "new_sites b f (int n) st = (?st, True)"
    unfolding new_sites_def st1(1) by (simp add: Let_def a)
  moreover have "site_block (mm ?st) b f (q + 12) n"
    using assms(2,3) by (auto simp: site_block_def get_ptr_other)
  moreover have "same_outside ({q..<q + 12 + 20 * n} \<union> {b + f..<b + f + 24}) (mm st) (mm ?st)"
    using st1(2) by (auto simp: same_outside_def put_ptr_outside)
  moreover have "mm ?st x = 0" if "q + 12 \<le> x" "x < q + 12 + 20 * n" for x
    using that st1(3) assms(3,4) by (auto simp: put_ptr_outside)
  ultimately show thesis using that st1(4) by simp
qed

lemma get_ptr_shift: "(\<And>k. k < 8 \<Longrightarrow> m' (a' + k) = m (a + k)) \<Longrightarrow> get_ptr m' a' = get_ptr m a"
  by (simp add: get_ptr_def)

lemma rd_sint_shift: "(\<And>k. k < 4 \<Longrightarrow> m' (a' + k) = m (a + k)) \<Longrightarrow> rd_sint m' 4 a' = rd_sint m 4 a"
  unfolding rd_sint_def rd_uint_def by (metis mem_bytes_eq_iff)

text \<open>Three copies into the fresh block at \<open>R\<close>, which has room for \<open>Suc n\<close> entries.\<close>

lemma copied_sites:
  assumes "site_block m b f R (Suc n)" "site_block m0 b f E N" "n \<le> N"
    and old: "\<And>x. E \<le> x \<Longrightarrow> x < E + 20 * N \<Longrightarrow> m x = m0 x"
    and fbox: "f + 24 \<le> 288" and far: "R + 20 * Suc n \<le> E \<or> E + 20 * N \<le> R"
    and zero: "\<And>x. R \<le> x \<Longrightarrow> x < R + 20 * Suc n \<Longrightarrow> m x = 0"
    and m3: "m3 = mem_write m R (mem_bytes m E (8 * n))"
    and m4: "m4 = mem_write m3 (R + 8 * Suc n) (mem_bytes m3 (E + 8 * N) (8 * n))"
    and m5: "m5 = mem_write m4 (R + 16 * Suc n) (mem_bytes m4 (E + 16 * N) (4 * n))"
  shows "same_outside {R..<R + 20 * Suc n} m m5" "site_block m5 b f R (Suc n)"
    "\<And>i. i < n \<Longrightarrow> site m5 b f i = site m0 b f i" "site m5 b f n = (0, 0, 0)"
proof -
  show so: "same_outside {R..<R + 20 * Suc n} m m5"
    by (auto simp: same_outside_def m5 m4 m3 mem_write_apply)
  then have box: "m5 x = m x" if "b \<le> x" "x < b + 288" for x
    using that assms(1) by (auto simp: same_outside_def site_block_def)
  have far2: "m3 x = m x" "m4 x = m x" if "E \<le> x" "x < E + 20 * N" for x
    using that far assms(3) by (auto simp: m3 m4 mem_write_apply)
  have p1: "m5 (R + k) = m0 (E + k)" if "k < 8 * n" for k
    using that assms(3) old by (simp add: m5 m4 m3 mem_write_apply mem_bytes_def)
  have p2: "m5 (R + 8 * Suc n + k) = m0 (E + 8 * N + k)" if "k < 8 * n" for k
    using that assms(3) old far2(1) by (simp add: m5 m4 mem_write_apply mem_bytes_def)
  have p3: "m5 (R + 16 * Suc n + k) = m0 (E + 16 * N + k)" if "k < 4 * n" for k
    using that assms(3) old far2(2) by (simp add: m5 mem_write_apply mem_bytes_def)
  show b5: "site_block m5 b f R (Suc n)"
    by (rule site_block_keep [OF assms(1) _ fbox]) (simp add: box)
  show "site m5 b f i = site m0 b f i" if "i < n" for i
  proof -
    have "get_ptr m5 (R + 8 * i) = get_ptr m0 (E + 8 * i)" using that p1 [of "8 * i + _"] by (intro get_ptr_shift) (simp add: add.assoc)
    moreover have "get_ptr m5 (R + 8 * Suc n + 8 * i) = get_ptr m0 (E + 8 * N + 8 * i)"
      using that p2 [of "8 * i + _"] by (intro get_ptr_shift) (simp add: add.assoc)
    moreover have "rd_sint m5 4 (R + 16 * Suc n + 4 * i) = rd_sint m0 4 (E + 16 * N + 4 * i)"
      using that p3 [of "4 * i + _"] by (intro rd_sint_shift) (simp add: add.assoc)
    ultimately show ?thesis unfolding site_block_site [OF b5] site_block_site [OF assms(2)] by simp
  qed
  show "site m5 b f n = (0, 0, 0)" unfolding site_block_site [OF b5]
    by (auto intro!: get_ptr_zero rd_sint_zero simp: m5 m4 m3 mem_write_apply zero)
qed

lemma add_sites_appends:
  assumes "coming st 0 = Some q" "q + 12 + 20 * Suc n < 2 ^ 64" "q + 12 + 20 * Suc n \<le> b \<or> b + 288 \<le> q"
    and "c + 4 \<le> f" "f + 24 \<le> 288" "ri st (b + c) = int n" "n + 1 < 2 ^ 31"
    and "n = 0 \<or> site_block (mm st) b f E N \<and> n \<le> N \<and> (q + 12 + 20 * Suc n \<le> E \<or> E + 20 * N \<le> q)"
  obtains st' where "add_sites st b c f 1 = Some (st', 0)" "ri st' (b + c) = int (Suc n)"
    "site_block (mm st') b f (q + 12) (Suc n)" "\<And>i. i < n \<Longrightarrow> site (mm st') b f i = site (mm st) b f i"
    "site (mm st') b f n = (0, 0, 0)"
    "same_outside ({b + c..<b + c + 4} \<union> {b + f..<b + f + 24} \<union> {q..<q + 12 + 20 * Suc n}) (mm st) (mm st')"
    "\<And>k. coming st' k = coming st (Suc k)"
proof -
  let ?st1 = "wi (b + c) (int n + 1) st"
  have num1: "ri ?st1 (b + c) = int (Suc n)" using assms(7) by (simp add: rd_sint_wr_int)
  have "coming ?st1 0 = Some q" using assms(1) by simp
  then obtain st2 where st2: "new_sites b f (int (Suc n)) ?st1 = (st2, True)" "site_block (mm st2) b f (q + 12) (Suc n)"
    "same_outside ({q..<q + 12 + 20 * Suc n} \<union> {b + f..<b + f + 24}) (mm ?st1) (mm st2)"
    "\<And>x. q + 12 \<le> x \<Longrightarrow> x < q + 12 + 20 * Suc n \<Longrightarrow> mm st2 x = 0" "\<And>k. coming st2 k = coming st (Suc k)"
    using new_sites_result [OF _ assms(2,3,5)] by (metis coming_simps(2))
  have so2: "same_outside ({b + c..<b + c + 4} \<union> {b + f..<b + f + 24} \<union> {q..<q + 12 + 20 * Suc n}) (mm st) (mm st2)"
    using st2(3) by (auto simp: same_outside_def wr_int_outside)
  have num2: "ri st2 (b + c) = int (Suc n)"
    unfolding num1 [symmetric] using st2(3) assms(3,4,5) by (intro rd_sint_cong) (auto simp: same_outside_def)
  show thesis
  proof (cases "n = 0")
    case True
    have "add_sites st b c f 1 = Some (st2, 0)" using assms(6) num1 st2(1) True by (simp add: add_sites_def Let_def)
    moreover have "site (mm st2) b f n = (0, 0, 0)" unfolding site_block_site [OF st2(2)]
      by (auto intro!: get_ptr_zero rd_sint_zero simp: st2(4))
    ultimately show ?thesis using that [OF _ num2 st2(2) _ _ so2 st2(5)] True by simp
  next
    case False
    then have blk: "site_block (mm st) b f E N" "n \<le> N" and far: "q + 12 + 20 * Suc n \<le> E \<or> E + 20 * N \<le> q" using assms(8) by auto
    let ?R = "q + 12"
    define m3 where "m3 = mem_write (mm st2) ?R (mem_bytes (mm st2) E (8 * n))"
    define m4 where "m4 = mem_write m3 (?R + 8 * Suc n) (mem_bytes m3 (E + 8 * N) (8 * n))"
    define m5 where "m5 = mem_write m4 (?R + 16 * Suc n) (mem_bytes m4 (E + 16 * N) (4 * n))"
    have old: "mm st2 x = mm st x" if "E \<le> x" "x < E + 20 * N" for x
      using that so2 far blk(1) assms(4,5) by (auto simp: same_outside_def site_block_def)
    have far': "?R + 20 * Suc n \<le> E \<or> E + 20 * N \<le> ?R" using far by auto
    note cs = copied_sites [OF st2(2) blk old assms(5) far' st2(4) m3_def m4_def m5_def]
    have "add_sites st b c f 1 = Some (set_mm m5 st2, 0)"
    proof -
      have ptr1: "get_ptr (mm ?st1) (b + f) = E" "get_ptr (mm ?st1) (b + (f + 8)) = E + 8 * N" "get_ptr (mm ?st1) (b + (f + 16)) = E + 16 * N"
        using blk(1) assms(4) by (simp_all add: site_block_def get_ptr_other)
      have ptr2: "get_ptr m3 (b + (f + 8)) = ?R + 8 * Suc n" "get_ptr m4 (b + (f + 16)) = ?R + 16 * Suc n"
      proof -
        have box: "m3 x = mm st2 x" "m4 x = mm st2 x" if "b \<le> x" "x < b + 288" for x
          using that assms(3) by (auto simp: m4_def m3_def mem_write_apply)
        then have "get_ptr m3 (b + (f + 8)) = get_ptr (mm st2) (b + (f + 8))" "get_ptr m4 (b + (f + 16)) = get_ptr (mm st2) (b + (f + 16))"
          using assms(5) by (auto intro!: get_ptr_cong)
        then show "get_ptr m3 (b + (f + 8)) = ?R + 8 * Suc n" "get_ptr m4 (b + (f + 16)) = ?R + 16 * Suc n"
          using st2(2) by (simp_all add: site_block_def)
      qed
      have c1: "cmemcpy ?R E (8 * int n) st2 = Some (set_mm m3 st2)"
        using far blk(2) by (subst cmemcpy_disjoint) (auto simp: m3_def nat_mult_distrib)
      have c2: "cmemcpy (?R + 8 * Suc n) (E + 8 * N) (8 * int n) (set_mm m3 st2) = Some (set_mm m4 st2)"
        using far blk(2) by (subst cmemcpy_disjoint) (auto simp: m4_def nat_mult_distrib set_mm_def)
      have c3: "cmemcpy (?R + 16 * Suc n) (E + 16 * N) (4 * int n) (set_mm m4 st2) = Some (set_mm m5 st2)"
        using far blk(2) by (subst cmemcpy_disjoint) (auto simp: m5_def nat_mult_distrib set_mm_def)
      have "get_ptr (mm st2) (b + f) = ?R" using st2(2) by (simp add: site_block_def)
      then show ?thesis using False assms(6) num1 st2(1) ptr1 ptr2 c1 c2 c3 by (simp add: add_sites_def Let_def)
    qed
    moreover have "same_outside ({b + c..<b + c + 4} \<union> {b + f..<b + f + 24} \<union> {q..<q + 12 + 20 * Suc n}) (mm st) m5"
      using so2 cs(1) by (auto simp: same_outside_def)
    moreover have "rd_sint m5 4 (b + c) = int (Suc n)"
      unfolding num2 [symmetric] using cs(1) assms(3,4,5) by (intro rd_sint_cong) (auto simp: same_outside_def)
    ultimately show ?thesis using that [of "set_mm m5 st2"] cs(2-4) st2(5) by simp
  qed
qed

lemma free_site_none:
  assumes "\<And>j. i \<le> j \<Longrightarrow> j < i + k \<Longrightarrow> get_ptr m (P + 8 * j) \<noteq> 0 \<or> get_ptr m (R + 8 * j) \<noteq> 0"
  shows "free_site m P R (int i) k = int (i + k)"
  using assms
proof (induction k arbitrary: i)
  case (Suc k)
  have "get_ptr m (P + 8 * i) \<noteq> 0 \<or> get_ptr m (R + 8 * i) \<noteq> 0" by (rule Suc.prems) auto
  moreover have "free_site m P R (int (Suc i)) k = int (Suc i + k)" by (rule Suc.IH, rule Suc.prems) auto
  ultimately show ?case by (simp add: add.commute)
qed simp

lemma site_block_int:
  assumes "site_block m b f E N" "b \<le> a" "a + 4 \<le> b + f \<or> b + f + 24 \<le> a" "a + 4 \<le> b + 288"
  shows "site_block (wr_int m 4 a v) b f E N" "i < N \<Longrightarrow> site (wr_int m 4 a v) b f i = site m b f i"
proof -
  show b': "site_block (wr_int m 4 a v) b f E N"
    using assms unfolding site_block_def by (elim conjE disjE) (simp_all add: get_ptr_other)
  show "site (wr_int m 4 a v) b f i = site m b f i" if "i < N"
    unfolding site_block_site [OF assms(1)] site_block_site [OF b']
    using assms that unfolding site_block_def by (elim conjE disjE) (simp_all add: get_ptr_other rd_sint_other)
qed

lemma site_block_put:
  assumes "site_block m b f E N" "n < N" "f + 24 \<le> 288" "p < 2 ^ 64" "- (2 ^ 31) \<le> v" "v < 2 ^ 31"
    and m': "m' = wr_int (put_ptr m (E + 8 * n) p) 4 (E + 16 * N + 4 * n) v"
  shows "site_block m' b f E N" "i < N \<Longrightarrow> i \<noteq> n \<Longrightarrow> site m' b f i = site m b f i"
    "site m' b f n = (p, fst (snd (site m b f n)), v)" "same_outside {E..<E + 20 * N} m m'"
proof -
  show so: "same_outside {E..<E + 20 * N} m m'"
    unfolding same_outside_def using assms(2) by (auto simp: m' put_ptr_outside wr_int_outside)
  then have "\<forall>x. b \<le> x \<and> x < b + 288 \<longrightarrow> m' x = m x"
    using assms(1) unfolding same_outside_def site_block_def by auto
  then show b': "site_block m' b f E N" by (rule site_block_keep [OF assms(1) _ assms(3)])
  note s = site_block_site [OF assms(1)] site_block_site [OF b']
  show "site m' b f i = site m b f i" if "i < N" "i \<noteq> n"
  proof -
    from that have "i < n \<or> n < i" by linarith
    then show ?thesis using that assms(2) unfolding s by (elim disjE) (simp_all add: m' get_ptr_other rd_sint_other)
  qed
  show "site m' b f n = (p, fst (snd (site m b f n)), v)"
    using assms(2,4-6) unfolding s by (simp add: m' get_ptr_other rd_sint_other rd_sint_wr_int)
qed

lemma record_site_full:
  assumes "b \<noteq> 0" "ri st (b + MH_RECORD_NUM) = int n" "\<forall>x \<in> set (msg_records (mm st) b). ex_addr x \<noteq> 0"
    and "message_add_record_site st b 1 = Some (st1, r)"
  shows "record_site st b = Some (st1, int n, r)"
proof -
  have "get_ptr (mm st) (rp st (b + MB_PRECORD) + 8 * j) \<noteq> 0 \<or> get_ptr (mm st) (rp st (b + MB_RECORD) + 8 * j) \<noteq> 0" if "j < n" for j
    using assms(2,3) that by (auto simp: msg_records_def site_def split: if_splits)
  then have "free_site (mm st) (rp st (b + MB_PRECORD)) (rp st (b + MB_RECORD)) 0 n = int n"
    using free_site_none [of 0 n "mm st"] by simp
  then show ?thesis using assms(2,4) by (simp add: record_site_def)
qed

text \<open>(C15) Adding a record as a blob to a message without a free site appends one site that holds a copy of the blob, keeps all
  records before it and counts its bytes; only the box, the new arrays and the copy change.\<close>

theorem message_add_record_blob_correct:
  assumes "b \<noteq> 0" "rec \<noteq> 0" "ri st (b + MH_RECORD_NUM) = int n" "n + 1 < 2 ^ 31" "0 \<le> sz" "sz < 2 ^ 31"
    and "n = 0 \<or> site_block (mm st) b MB_RECORD E N \<and> n \<le> N \<and> (q + 12 + 20 * Suc n \<le> E \<or> E + 20 * N \<le> q)"
    and "\<forall>x \<in> set (msg_records (mm st) b). ex_addr x \<noteq> 0"
    and "coming st 0 = Some q" "q + 12 + 20 * Suc n < 2 ^ 64" "q + 12 + 20 * Suc n \<le> b \<or> b + 288 \<le> q"
    and "coming st 1 = Some d" "d + 12 + nat sz < 2 ^ 64" "d + 12 + nat sz \<le> b \<or> b + 288 \<le> d"
    and "d + 12 + nat sz \<le> q \<or> q + 12 + 20 * Suc n \<le> d"
    and "rec + nat sz \<le> b \<or> b + 288 \<le> rec" "rec + nat sz \<le> q \<or> q + 12 + 20 * Suc n \<le> rec" "rec + nat sz \<le> d \<or> d + 12 + nat sz \<le> rec"
  shows "\<exists>st'. message_add_record_blob st b sz rec = Some (st', 0)
    \<and> msg_records (mm st') b = msg_records (mm st) b @ [(d + 12, 0, sz)]
    \<and> mem_bytes (mm st') (d + 12) (nat sz) = mem_bytes (mm st) rec (nat sz)
    \<and> same_outside ({b..<b + 288} \<union> {q..<q + 12 + 20 * Suc n} \<union> {d..<d + 12 + nat sz}) (mm st) (mm st')"
proof -
  let ?D = "d + 12" let ?R = "q + 12" let ?n = "nat sz"
  obtain st1 where st1: "add_sites st b MH_RECORD_NUM MB_RECORD 1 = Some (st1, 0)" "ri st1 (b + MH_RECORD_NUM) = int (Suc n)"
    "site_block (mm st1) b MB_RECORD ?R (Suc n)" "\<And>i. i < n \<Longrightarrow> site (mm st1) b MB_RECORD i = site (mm st) b MB_RECORD i"
    "site (mm st1) b MB_RECORD n = (0, 0, 0)"
    "same_outside ({b + 132..<b + 132 + 4} \<union> {b + 204..<b + 204 + 24} \<union> {q..<q + 12 + 20 * Suc n}) (mm st) (mm st1)"
    "\<And>k. coming st1 k = coming st (Suc k)"
    using add_sites_appends [OF assms(9-11), of MH_RECORD_NUM MB_RECORD E N] assms(3,4,7) by auto
  have "coming st1 0 = Some d" using st1(7) assms(12) by simp
  then obtain st2 where st2: "m_dalloc sz b st1 = (st2, ?D)" "same_outside {d..<d + 12} (mm st1) (mm st2)"
    using m_dalloc_result by metis
  define mC where "mC = mem_write (mm st2) ?D (mem_bytes (mm st2) rec ?n)"
  have cp: "cmemcpy ?D rec sz st2 = Some (set_mm mC st2)"
    using assms(5,18) by (subst cmemcpy_disjoint) (auto simp: mC_def)
  have soC: "same_outside {d..<d + 12 + ?n} (mm st1) mC"
    using st2(2) by (auto simp: same_outside_def mC_def mem_write_apply)
  have recC: "mem_bytes (mm st2) rec ?n = mem_bytes (mm st) rec ?n"
    using st1(6) st2(2) assms(16-18) by (intro mem_bytes_cong) (auto simp: same_outside_def)
  have boxC: "mC x = mm st1 x" if "b \<le> x \<and> x < b + 288 \<or> q \<le> x \<and> x < q + 12 + 20 * Suc n" for x
    using that soC assms(14,15) by (auto simp: same_outside_def)
  have blkC: "site_block mC b MB_RECORD ?R (Suc n)" by (rule site_block_keep [OF st1(3)]) (simp_all add: boxC)
  define mE where "mE = wr_int (put_ptr mC (?R + 8 * n) ?D) 4 (?R + 16 * Suc n + 4 * n) sz"
  have nS: "n < Suc n" and D64: "?D < 2 ^ 64" and lo: "- (2 ^ 31) \<le> sz" using assms(5,13) by auto
  have b24: "MB_RECORD + 24 \<le> 288" by simp
  note put = site_block_put [OF blkC nS b24 D64 lo assms(6) mE_def]
  define mF where "mF = wr_int mE 4 (b + MH_RECORD_SIZE) (rd_sint mE 4 (b + MH_RECORD_SIZE) + sz)"
  define mG where "mG = wr_int mF 4 (b + MB_STATE) MSG_BOX_ADD"
  have F: "site_block mF b MB_RECORD ?R (Suc n)" "\<And>i. i < Suc n \<Longrightarrow> site mF b MB_RECORD i = site mE b MB_RECORD i"
    unfolding mF_def by (rule site_block_int [OF put(1)]; simp)+
  have G: "site_block mG b MB_RECORD ?R (Suc n)" "\<And>i. i < Suc n \<Longrightarrow> site mG b MB_RECORD i = site mF b MB_RECORD i"
    unfolding mG_def by (rule site_block_int [OF F(1)]; simp)+
  have "message_add_record_blob st b sz rec = Some (set_mm mG st2, 0)"
  proof -
    have "get_ptr mC (b + MB_RECORD) = ?R" "get_ptr (put_ptr mC (?R + 8 * n) ?D) (b + MB_RSIZES) = ?R + 16 * Suc n"
      using blkC unfolding site_block_def by (auto simp: get_ptr_other)
    moreover have "record_site st b = Some (st1, int n, 0)"
      using record_site_full [OF assms(1,3,8)] st1(1) assms(1) by (simp add: message_add_record_site_def)
    ultimately show ?thesis using assms(1-3) st2(1) cp
      by (simp add: message_add_record_blob_def mG_def mF_def mE_def wi_def wp_def) (simp add: set_mm_def)
  qed
  moreover have "msg_records mG b = msg_records (mm st) b @ [(?D, 0, sz)]"
  proof -
    have "rd_sint mG 4 (b + MH_RECORD_NUM) = int (Suc n)"
    proof -
      have "rd_sint mG 4 (b + MH_RECORD_NUM) = rd_sint mE 4 (b + MH_RECORD_NUM)" by (simp add: mG_def mF_def rd_sint_other)
      also have "\<dots> = rd_sint (mm st1) 4 (b + MH_RECORD_NUM)"
        using put(4) boxC blkC by (intro rd_sint_cong) (auto simp: same_outside_def site_block_def)
      finally show ?thesis using st1(2) by simp
    qed
    moreover have "site mC b MB_RECORD i = site (mm st1) b MB_RECORD i" if "i < Suc n" for i
      unfolding site_block_site [OF blkC] site_block_site [OF st1(3)] using that
      by (auto intro!: get_ptr_cong rd_sint_cong boxC)
    ultimately show ?thesis using put(2,3) F(2) G(2) st1(4,5) assms(3) by (simp add: msg_records_def nat_add_distrib)
  qed
  moreover have "mem_bytes mG ?D ?n = mem_bytes (mm st) rec ?n"
  proof -
    have "mG x = mC x" if "d + 12 \<le> x" "x < d + 12 + ?n" for x
      using that put(4) assms(14,15) by (auto simp: mG_def mF_def wr_int_outside same_outside_def)
    then have "mem_bytes mG ?D ?n = mem_bytes mC ?D ?n" by (intro mem_bytes_cong) auto
    also have "\<dots> = mem_bytes (mm st2) rec ?n"
      using mem_bytes_mem_write [of "mm st2" ?D "mem_bytes (mm st2) rec ?n"] by (simp add: mC_def)
    finally show ?thesis using recC by simp
  qed
  moreover have "same_outside ({b..<b + 288} \<union> {q..<q + 12 + 20 * Suc n} \<union> {d..<d + 12 + ?n}) (mm st) mG"
    using st1(6) soC put(4) by (auto simp: same_outside_def mG_def mF_def wr_int_outside)
  ultimately show ?thesis by (intro exI [of _ "set_mm mG st2"]) simp
qed

text \<open>A box at 1000 without records, with the coming blocks at 5000 and 6000.\<close>

definition msg_example :: "mem \<Rightarrow> mstate" where
  "msg_example m = \<lparr>ms_db = set_dbmem m (db_example\<lparr>db_es := (db_es db_example)\<lparr>es_malloc := (\<lambda>i. Some (5000 + 1000 * i)), es_stack := 20000\<rparr>\<rparr>),
     ms_kits = None, ms_lit = (\<lambda>_. 0), ms_random = (\<lambda>_. Inl 0), ms_draws = 0\<rparr>"

lemma msg_example_simps: "mm (msg_example m) = m" "coming (msg_example m) i = Some (5000 + 1000 * i)" "ms_stack (msg_example m) = 20000"
  by (simp_all add: msg_example_def coming_def db_example_def)

theorem message_add_record_blob_correct_witness:
  "\<exists>st'. message_add_record_blob (msg_example (\<lambda>_. 0)) 1000 3 2000 = Some (st', 0)
    \<and> msg_records (mm st') 1000 = [(6012, 0, 3)] \<and> mem_bytes (mm st') 6012 3 = [0, 0, 0]"
proof -
  have num: "rd_sint (\<lambda>_. 0) 4 1132 = 0" by (rule rd_sint_zero) simp
  let ?st = "msg_example (\<lambda>_. 0)"
  have "\<exists>st'. message_add_record_blob ?st 1000 3 2000 = Some (st', 0)
    \<and> msg_records (mm st') 1000 = msg_records (mm ?st) 1000 @ [(6000 + 12, 0, 3)]
    \<and> mem_bytes (mm st') (6000 + 12) (nat 3) = mem_bytes (mm ?st) 2000 (nat 3)
    \<and> same_outside ({1000..<1000 + 288} \<union> {5000..<5000 + 12 + 20 * Suc 0} \<union> {6000..<6000 + 12 + nat 3}) (mm ?st) (mm st')"
    by (rule message_add_record_blob_correct [where E = 0 and N = 0 and n = 0])
      (simp_all add: msg_example_simps msg_records_def num)
  moreover have "msg_records (mm ?st) 1000 = []" "mem_bytes (mm ?st) 2000 (nat 3) = [0, 0, 0]"
    by (simp_all add: msg_example_simps msg_records_def num mem_bytes_def upt_rec)
  ultimately show ?thesis by auto
qed

text \<open>A message at 1000 with two expand structures, at 4000 of type 0 and at 4100 of type 7 and subtype 2.\<close>

definition ex_mem :: mem where
  "ex_mem = (\<lambda>_. 0)(1140 := 2, 1228 := 184, 1229 := 11, 1236 := 200, 1237 := 11, 1244 := 216, 1245 := 11,
     3016 := 160, 3017 := 15, 3024 := 4, 3025 := 16, 4104 := 7, 4108 := 2)"

lemma ex_mem_values:
  "rd_sint ex_mem 4 1140 = 2" "get_ptr ex_mem 1228 = 3000" "get_ptr ex_mem 1236 = 3016" "get_ptr ex_mem 1244 = 3032"
  "get_ptr ex_mem 3000 = 0" "get_ptr ex_mem 3008 = 0" "get_ptr ex_mem 3016 = 4000" "get_ptr ex_mem 3024 = 4100"
  "rd_sint ex_mem 4 3032 = 0" "rd_sint ex_mem 4 3036 = 0" "rd_sint ex_mem 4 4004 = 0" "rd_sint ex_mem 4 4008 = 0"
  "rd_sint ex_mem 4 4104 = 7" "rd_sint ex_mem 4 4108 = 2"
  by (simp_all add: ex_mem_def get_ptr_bytes rd_sint_def rd_uint_4 fun_upd_apply)

lemma ex_mem_expands: "msg_expands ex_mem 1000 = [(0, 4000, 0), (0, 4100, 0)]"
  by (simp add: msg_expands_def site_def ex_mem_values upt_rec)

theorem message_get_define_expand_correct_witness: "message_get_define_expand (msg_example ex_mem) 1000 7 2 = (1, Some 4100)"
  using message_get_define_expand_correct [of 1000 "msg_example ex_mem" 7 2]
  by (simp add: msg_example_simps ex_mem_expands ex_is_def ex_type_def ex_subtype_def ex_mem_values upt_rec)

theorem message_remove_expand_correct_witness:
  "\<exists>m. message_remove_expand (msg_example ex_mem) 1000 7 2 2000 = (set_mm m (msg_example ex_mem), 0)
    \<and> msg_expands m 1000 = [(0, 4000, 0)] \<and> get_ptr m 2000 = 4100"
proof -
  let ?st = "msg_example ex_mem"
  have blk: "site_block ex_mem 1000 MB_EXPAND 3000 2" by (simp add: site_block_def ex_mem_values)
  have "\<exists>m. message_remove_expand ?st 1000 7 2 2000 = (set_mm m ?st, 0)
    \<and> same_outside ({2000..<2000 + 8} \<union> {1000 + 140..<1000 + 144} \<union> {3000..<3000 + 20 * 2}) (mm ?st) m
    \<and> (case List.extract (\<lambda>x. ex_is (mm ?st) (ex_addr x) 7 2) (msg_expands (mm ?st) 1000) of
         None \<Rightarrow> msg_expands m 1000 = msg_expands (mm ?st) 1000 \<and> get_ptr m 2000 = 0
       | Some (before, x, after) \<Rightarrow> msg_expands m 1000 = before @ after \<and> get_ptr m 2000 = ex_struct x)"
    by (rule message_remove_expand_correct) (simp_all add: blk msg_example_simps ex_mem_values ex_mem_expands)
  moreover have "List.extract (\<lambda>x. ex_is (mm ?st) (ex_addr x) 7 2) (msg_expands (mm ?st) 1000) = Some ([(0, 4000, 0)], (0, 4100, 0), [])"
    by (simp add: extract_Some_iff msg_example_simps ex_mem_expands ex_is_def ex_type_def ex_subtype_def ex_mem_values)
  ultimately show ?thesis by auto
qed

section \<open>Reading in pieces\<close>

text \<open>The box is loading its payload of \<open>P\<close> bytes to the blob at \<open>B\<close> and has the bytes \<open>data\<close> of it.\<close>

definition loading :: "mstate \<Rightarrow> nat \<Rightarrow> nat \<Rightarrow> nat \<Rightarrow> byte list \<Rightarrow> bool" where
  "loading st b B P data \<longleftrightarrow> b \<noteq> 0 \<and> ri st (b + MB_STATE) = MSG_BOX_LOADDATA \<and> payload st b = int P \<and> rp st (b + MB_BLOB) = B
     \<and> ri st (b + MB_OFFSET) = int (length data) \<and> mem_bytes (mm st) B (length data) = data \<and> length data < P \<and> P < 2 ^ 31
     \<and> (B + P \<le> b \<or> b + 288 \<le> B)"

text \<open>A piece of \<open>n\<close> bytes at \<open>a\<close>, outside of the box and of its blob.\<close>

definition piece_ok :: "nat \<Rightarrow> nat \<Rightarrow> nat \<Rightarrow> nat \<times> nat \<Rightarrow> bool" where
  "piece_ok b B P c \<longleftrightarrow> fst c \<noteq> 0 \<and> 0 < snd c \<and> (fst c + snd c \<le> B \<or> B + P \<le> fst c) \<and> (fst c + snd c \<le> b \<or> b + 288 \<le> fst c)"

definition piece :: "mem \<Rightarrow> nat \<times> nat \<Rightarrow> byte list" where "piece m c = mem_bytes m (fst c) (snd c)"

lemma length_piece [simp]: "length (piece m c) = snd c" by (simp add: piece_def)

lemma mem_bytes_two:
  "length xs = n \<Longrightarrow> mem_bytes m a n = xs \<Longrightarrow> mem_bytes m (a + n) (length ys) = ys \<Longrightarrow> mem_bytes m a (length (xs @ ys)) = xs @ ys"
  by (simp add: mem_bytes_append)

lemma box_bytes_keep:
  assumes "\<And>x. b \<le> x \<Longrightarrow> x < b + 260 \<or> b + 264 \<le> x \<Longrightarrow> x < b + 288 \<Longrightarrow> m' x = m x"
  shows "a + 4 \<le> 260 \<Longrightarrow> rd_sint m' 4 (b + a) = rd_sint m 4 (b + a)" "a + 8 \<le> 260 \<Longrightarrow> get_ptr m' (b + a) = get_ptr m (b + a)"
  by (intro rd_sint_cong get_ptr_cong assms; simp)+

lemma read_piece:
  assumes "loading st b B P data" "piece_ok b B P c" "length data + snd c < P"
  obtains st' where "message_read_data st b (fst c) (int (snd c)) = Some (st', 0)"
    "loading st' b B P (data @ piece (mm st) c)" "same_outside ({B..<B + P} \<union> {b + 260..<b + 264}) (mm st) (mm st')"
    "\<And>k. coming st' k = coming st k" "ms_stack st' = ms_stack st"
proof -
  let ?l = "length data" let ?n = "snd c" let ?a = "fst c"
  have dis: "B + ?l + ?n \<le> ?a \<or> ?a + ?n \<le> B + ?l" using assms(2,3) by (auto simp: piece_ok_def)
  define m1 where "m1 = mem_write (mm st) (B + ?l) (piece (mm st) c)"
  define m2 where "m2 = wr_int m1 4 (b + MB_OFFSET) (rd_sint m1 4 (b + MB_OFFSET) + int ?n)"
  have L: "b \<noteq> 0" "ri st (b + MB_STATE) = MSG_BOX_LOADDATA" "payload st b = int P" "rp st (b + MB_BLOB) = B"
    "ri st (b + MB_OFFSET) = int ?l" "mem_bytes (mm st) B ?l = data" "P < 2 ^ 31" "B + P \<le> b \<or> b + 288 \<le> B"
    using assms(1) by (auto simp: loading_def)
  have m1: "m1 x = mm st x" if "x < B \<or> B + P \<le> x \<or> x < B + ?l" for x
    using that assms(3) by (auto simp: m1_def mem_write_apply)
  have off: "rd_sint m1 4 (b + MB_OFFSET) = int ?l"
    unfolding L(5) [symmetric] using L(8) by (intro rd_sint_cong m1) auto
  have cp: "cmemcpy (adr_plus B (int ?l)) ?a (int ?n) st = Some (set_mm m1 st)"
    using dis by (simp add: adr_plus_def nat_add_distrib cmemcpy_disjoint m1_def piece_def)
  have "message_read_data st b ?a (int ?n) = Some (set_mm m2 st, 0)"
    using L assms(2,3) cp by (simp add: message_read_data_def piece_ok_def m2_def wi_def) (simp add: set_mm_def)
  moreover have so: "same_outside ({B..<B + P} \<union> {b + 260..<b + 264}) (mm st) m2"
    using m1 by (auto simp: same_outside_def m2_def wr_int_outside)
  moreover have "loading (set_mm m2 st) b B P (data @ piece (mm st) c)"
  proof -
    have keep: "rd_sint m2 4 (b + a) = rd_sint (mm st) 4 (b + a)" "get_ptr m2 (b + MB_BLOB) = get_ptr (mm st) (b + MB_BLOB)"
      if "a + 4 \<le> 260" for a
      using that so L(8) by (intro box_bytes_keep; auto simp: same_outside_def)+
    have "m2 x = m1 x" if "B \<le> x" "x < B + P" for x using that L(8) by (auto simp: m2_def wr_int_outside)
    moreover have "mem_bytes m1 (B + ?l) (length (piece (mm st) c)) = piece (mm st) c"
      unfolding m1_def by (rule mem_bytes_mem_write)
    moreover have "mem_bytes m1 B ?l = mem_bytes (mm st) B ?l" using m1 by (intro mem_bytes_cong) auto
    then have "mem_bytes m1 B ?l = data" using L(6) by simp
    moreover have "mem_bytes m2 B ?l = mem_bytes m1 B ?l" using \<open>\<And>x. B \<le> x \<Longrightarrow> x < B + P \<Longrightarrow> m2 x = m1 x\<close> assms(3)
      by (intro mem_bytes_cong) auto
    moreover have "mem_bytes m2 (B + ?l) ?n = mem_bytes m1 (B + ?l) ?n"
      using \<open>\<And>x. B \<le> x \<Longrightarrow> x < B + P \<Longrightarrow> m2 x = m1 x\<close> assms(3) by (intro mem_bytes_cong) auto
    ultimately have "mem_bytes m2 B ?l = data" "mem_bytes m2 (B + ?l) (length (piece (mm st) c)) = piece (mm st) c" by simp_all
    then have "mem_bytes m2 B (length (data @ piece (mm st) c)) = data @ piece (mm st) c" by (intro mem_bytes_two) simp_all
    moreover have "rd_sint m2 4 (b + MB_OFFSET) = int (?l + ?n)"
      unfolding m2_def off using assms(3) L(7) by (subst rd_sint_wr_int) auto
    ultimately show ?thesis using L assms(3) keep(1) [of MB_STATE] keep(1) [of MH_RECORD_SIZE] keep(1) [of MH_EXPAND_SIZE] keep(2) [of 0]
      by (simp add: loading_def payload_def)
  qed
  ultimately show thesis using that [of "set_mm m2 st"] by simp
qed

text \<open>A run of \<open>message_read_data\<close> over a list of pieces.\<close>

fun read_pieces :: "mstate \<Rightarrow> nat \<Rightarrow> (nat \<times> nat) list \<Rightarrow> mstate option" where
  "read_pieces st b [] = Some st"
| "read_pieces st b (c # cs) = do { (st1, _) \<leftarrow> message_read_data st b (fst c) (int (snd c)); read_pieces st1 b cs }"

lemma read_pieces_append: "read_pieces st b (cs @ ds) = Option.bind (read_pieces st b cs) (\<lambda>st1. read_pieces st1 b ds)"
  by (induction cs arbitrary: st) (auto intro!: Option.bind_cong split: prod.splits)

lemma piece_keep:
  assumes "same_outside ({B..<B + P} \<union> {b + 260..<b + 264}) m m'" "piece_ok b B P c"
  shows "piece m' c = piece m c"
  unfolding piece_def using assms by (intro mem_bytes_cong) (auto simp: same_outside_def piece_ok_def)

lemma read_pieces_loading:
  assumes "loading st b B P data" "\<forall>c \<in> set cs. piece_ok b B P c" "length data + sum_list (map snd cs) < P"
  shows "\<exists>st'. read_pieces st b cs = Some st' \<and> loading st' b B P (data @ concat (map (piece (mm st)) cs))
    \<and> same_outside ({B..<B + P} \<union> {b + 260..<b + 264}) (mm st) (mm st') \<and> (\<forall>k. coming st' k = coming st k)"
  using assms
proof (induction cs arbitrary: st data)
  case (Cons c cs)
  have "piece_ok b B P c" "length data + snd c < P" using Cons.prems by auto
  from read_piece [OF Cons.prems(1) this] obtain st1 where st1: "message_read_data st b (fst c) (int (snd c)) = Some (st1, 0)"
    "loading st1 b B P (data @ piece (mm st) c)" "same_outside ({B..<B + P} \<union> {b + 260..<b + 264}) (mm st) (mm st1)"
    "\<And>k. coming st1 k = coming st k" by metis
  have "\<exists>st'. read_pieces st1 b cs = Some st' \<and> loading st' b B P ((data @ piece (mm st) c) @ concat (map (piece (mm st1)) cs))
    \<and> same_outside ({B..<B + P} \<union> {b + 260..<b + 264}) (mm st1) (mm st') \<and> (\<forall>k. coming st' k = coming st1 k)"
    using Cons.prems by (intro Cons.IH [OF st1(2)]) auto
  then obtain st' where st': "read_pieces st1 b cs = Some st'" "loading st' b B P ((data @ piece (mm st) c) @ concat (map (piece (mm st1)) cs))"
    "same_outside ({B..<B + P} \<union> {b + 260..<b + 264}) (mm st1) (mm st')" "\<forall>k. coming st' k = coming st1 k" by blast
  have m: "map (piece (mm st1)) cs = map (piece (mm st)) cs"
    using piece_keep [OF st1(3)] Cons.prems(2) by simp
  have "loading st' b B P (data @ concat (map (piece (mm st)) (c # cs)))" using st'(2) unfolding m by simp
  then show ?case using st1(1,4) st'(1,4) same_outside_trans [OF st1(3) st'(3)] by (intro exI [of _ st']) simp
qed (simp add: same_outside_def)

text \<open>The sites of the \<open>n\<close> records of a message are allocated empty.\<close>

lemma alloc_record_sites:
  assumes "b \<noteq> 0" "ri st (b + MH_RECORD_NUM) = int n"
    and "n = 0 \<or> coming st 0 = Some q \<and> q + 12 + 20 * n < 2 ^ 64 \<and> (q + 12 + 20 * n \<le> b \<or> b + 288 \<le> q)"
  obtains st' where "fst (message_alloc_record_site st b) = st'" "msg_records (mm st') b = replicate n (0, 0, 0)"
    "n = 0 \<and> st' = st \<or> site_block (mm st') b MB_RECORD (q + 12) n"
    "n \<noteq> 0 \<Longrightarrow> same_outside ({q..<q + 12 + 20 * n} \<union> {b + MB_RECORD..<b + MB_RECORD + 24}) (mm st) (mm st')"
    "ri st' (b + MH_RECORD_NUM) = int n"
proof (cases "n = 0")
  case True
  then show ?thesis using that [of st] assms by (simp add: message_alloc_record_site_def Let_def msg_records_def)
next
  case False
  have b24: "MB_RECORD + 24 \<le> 288" by simp
  from False assms(3) have a: "coming st 0 = Some q" "q + 12 + 20 * n < 2 ^ 64" "q + 12 + 20 * n \<le> b \<or> b + 288 \<le> q" by auto
  obtain s where s: "new_sites b MB_RECORD (int n) st = (s, True)" "site_block (mm s) b MB_RECORD (q + 12) n"
    "same_outside ({q..<q + 12 + 20 * n} \<union> {b + MB_RECORD..<b + MB_RECORD + 24}) (mm st) (mm s)"
    "\<And>x. q + 12 \<le> x \<Longrightarrow> x < q + 12 + 20 * n \<Longrightarrow> mm s x = 0"
    using new_sites_result [OF a b24] by metis
  have site0: "site (mm s) b MB_RECORD i = (0, 0, 0)" if "i < n" for i
    unfolding site_block_site [OF s(2)] using that by (auto intro!: get_ptr_zero rd_sint_zero s(4))
  have num: "ri s (b + MH_RECORD_NUM) = int n"
    unfolding assms(2) [symmetric] using s(3) a(3) by (intro rd_sint_cong) (auto simp: same_outside_def)
  have rec: "msg_records (mm s) b = replicate n (0, 0, 0)" unfolding msg_records_def num by (rule nth_equalityI) (simp_all add: site0)
  have res: "fst (message_alloc_record_site st b) = s"
    using False s(1) assms(1,2) by (simp add: message_alloc_record_site_def Let_def)
  show ?thesis by (rule that [OF res rec _ _ num]) (use s(2,3) in auto)
qed

lemma msg_records_int:
  assumes "n = 0 \<or> site_block m b MB_RECORD E n" "rd_sint m 4 (b + MH_RECORD_NUM) = int n" "b + 228 \<le> a" "a + 4 \<le> b + 288"
  shows "msg_records (wr_int m 4 a v) b = msg_records m b"
proof -
  have num: "rd_sint (wr_int m 4 a v) 4 (b + MH_RECORD_NUM) = int n" using assms(2,3) by (simp add: rd_sint_other)
  have "site (wr_int m 4 a v) b MB_RECORD i = site m b MB_RECORD i" if "i < n" for i
    using site_block_int(2) [of m b MB_RECORD E n a i v] assms(1,3,4) that by auto
  then show ?thesis unfolding msg_records_def num assms(2) by simp
qed

text \<open>The last piece: the payload is complete.\<close>

lemma read_last_piece:
  assumes "loading st b B P data" "piece_ok b B P c" "P \<le> length data + snd c" "ri st (b + MH_EXPAND_NUM) = 0"
    and "ri st (b + MH_RECORD_NUM) = int n"
    and "n = 0 \<or> coming st 0 = Some q \<and> q + 12 + 20 * n < 2 ^ 64 \<and> (q + 12 + 20 * n \<le> b \<or> b + 288 \<le> q)
      \<and> (q + 12 + 20 * n \<le> B \<or> B + P \<le> q)"
  shows "\<exists>st'. message_read_data st b (fst c) (int (snd c)) = Some (st', int (P - length data))
    \<and> ri st' (b + MB_STATE) = MSG_BOX_REBUILDING \<and> ri st' (b + MB_OFFSET) = 0
    \<and> mem_bytes (mm st') B P = take P (data @ piece (mm st) c) \<and> msg_records (mm st') b = replicate n (0, 0, 0)"
proof -
  let ?l = "length data" let ?a = "fst c"
  have "?l < P" using assms(1) by (simp add: loading_def)
  then obtain k where P: "P = ?l + k" "0 < k" using less_imp_add_positive by auto
  have L: "b \<noteq> 0" "ri st (b + MB_STATE) = MSG_BOX_LOADDATA" "payload st b = int ?l + int k" "rp st (b + MB_BLOB) = B"
    "ri st (b + MB_OFFSET) = int ?l" "mem_bytes (mm st) B ?l = data" "B + P \<le> b \<or> b + 288 \<le> B" "k \<le> snd c"
    using assms(1,3) P(1) by (auto simp: loading_def)
  define m1 where "m1 = mem_write (mm st) (B + ?l) (mem_bytes (mm st) ?a k)"
  define m2 where "m2 = wr_int m1 4 (b + MB_OFFSET) 0"
  have cp: "cmemcpy (adr_plus B (int ?l)) ?a (int k) st = Some (set_mm m1 st)"
  proof -
    have "B + ?l + k \<le> ?a \<or> ?a + k \<le> B + ?l" using assms(2) L(8) P(1) by (auto simp: piece_ok_def)
    then show ?thesis by (simp add: adr_plus_def nat_add_distrib cmemcpy_disjoint m1_def)
  qed
  have m2: "m2 x = mm st x" if "x < B \<or> B + P \<le> x" "x < b + 260 \<or> b + 264 \<le> x" for x
    using that P(1) by (auto simp: m2_def m1_def mem_write_apply wr_int_outside)
  have fld: "rd_sint m2 4 (b + a) = ri st (b + a)" if "a + 4 \<le> 260" for a
    using that L(7) by (intro rd_sint_cong m2) auto
  let ?s = "set_mm m2 st"
  have "ri ?s (b + MH_RECORD_NUM) = int n"
    "n = 0 \<or> coming ?s 0 = Some q \<and> q + 12 + 20 * n < 2 ^ 64 \<and> (q + 12 + 20 * n \<le> b \<or> b + 288 \<le> q)"
    using assms(5,6) fld [of MH_RECORD_NUM] by auto
  from alloc_record_sites [OF L(1) this] obtain st3 where st3: "fst (message_alloc_record_site ?s b) = st3"
    "msg_records (mm st3) b = replicate n (0, 0, 0)" "n = 0 \<and> st3 = ?s \<or> site_block (mm st3) b MB_RECORD (q + 12) n"
    "n \<noteq> 0 \<Longrightarrow> same_outside ({q..<q + 12 + 20 * n} \<union> {b + MB_RECORD..<b + MB_RECORD + 24}) m2 (mm st3)" "ri st3 (b + MH_RECORD_NUM) = int n"
    by (metis state_simps(1))
  have keep3: "mm st3 x = m2 x" if "b \<le> x \<and> x < b + 204 \<or> b + 228 \<le> x \<and> x < b + 288 \<or> B \<le> x \<and> x < B + P" for x
  proof (cases "n = 0")
    case True
    then show ?thesis using st3(3) that assms(5) st3(1) fld [of MH_RECORD_NUM] L(1)
      by (auto simp: message_alloc_record_site_def Let_def)
  next
    case False
    then show ?thesis using that st3(4) assms(6) L(7) by (auto simp: same_outside_def)
  qed
  have num3: "ri st3 (b + MH_EXPAND_NUM) = 0"
  proof -
    have "rd_sint (mm st3) 4 (b + MH_EXPAND_NUM) = rd_sint m2 4 (b + MH_EXPAND_NUM)" by (intro rd_sint_cong keep3) auto
    then show ?thesis using assms(4) fld [of MH_EXPAND_NUM] by simp
  qed
  let ?m4 = "wr_int (mm st3) 4 (b + MB_OFFSET) 0"
  let ?m = "wr_int ?m4 4 (b + MB_STATE) MSG_BOX_REBUILDING"
  have "message_read_data st b ?a (int (snd c)) = Some (set_mm ?m st3, int k)"
  proof -
    have "fst (message_alloc_expand_site st3 b) = st3" using num3 L(1) by (simp add: message_alloc_expand_site_def Let_def)
    moreover have "wi (b + MB_OFFSET) 0 (set_mm m1 st) = set_mm m2 st" by (simp add: wi_def m2_def) (simp add: set_mm_def)
    ultimately show ?thesis using L(1-5,8) assms(2) cp st3(1) num3
      by (simp add: message_read_data_def piece_ok_def wi_def) (simp add: set_mm_def)
  qed
  moreover have "mem_bytes ?m B P = take P (data @ piece (mm st) c)"
  proof -
    have "mem_bytes ?m B P = mem_bytes m1 B P"
      using keep3 L(7) by (intro mem_bytes_cong) (auto simp: m2_def wr_int_outside)
    also have "\<dots> = mem_bytes m1 B ?l @ mem_bytes m1 (B + ?l) k" unfolding P(1) by (rule mem_bytes_append)
    also have "mem_bytes m1 B ?l = mem_bytes (mm st) B ?l" by (intro mem_bytes_cong) (auto simp: m1_def mem_write_apply)
    also have "mem_bytes m1 (B + ?l) k = mem_bytes (mm st) ?a k"
      using mem_bytes_mem_write [of "mm st" "B + ?l" "mem_bytes (mm st) ?a k"] by (simp add: m1_def)
    finally show ?thesis using L(6,8) P(1) by (simp add: piece_def min_absorb1)
  qed
  moreover have "msg_records ?m b = replicate n (0, 0, 0)"
  proof -
    have blk: "n = 0 \<or> site_block (mm st3) b MB_RECORD (q + 12) n" using st3(3) by auto
    have m4: "msg_records ?m4 b = msg_records (mm st3) b" by (rule msg_records_int [OF blk st3(5)]) simp_all
    have "n = 0 \<or> site_block ?m4 b MB_RECORD (q + 12) n" using blk site_block_int(1) [of "mm st3" b MB_RECORD] by auto
    moreover have "rd_sint ?m4 4 (b + MH_RECORD_NUM) = int n" using st3(5) by (simp add: rd_sint_other)
    moreover have "site ?m b MB_RECORD i = site ?m4 b MB_RECORD i" if "site_block ?m4 b MB_RECORD (q + 12) n" "i < n" for i
      using site_block_int(2) [OF that(1) _ _ _ that(2), of "b + MB_STATE"] by simp
    moreover have "rd_sint ?m 4 (b + MH_RECORD_NUM) = int n" using st3(5) by (simp add: rd_sint_other)
    ultimately have "msg_records ?m b = msg_records ?m4 b" by (auto simp: msg_records_def)
    then show ?thesis using m4 st3(2) by simp
  qed
  ultimately show ?thesis using P(1) by (intro exI [of _ "set_mm ?m st3"]) (simp add: rd_sint_wr_int rd_sint_other)
qed

text \<open>(C13) Reading a message of records in pieces of any sizes leaves exactly its payload in the blob of the box, in order, and the
  box in the state of rebuilding with one empty site for each record.\<close>

theorem message_read_in_pieces:
  assumes "loading st b B P []" "\<forall>c \<in> set (cs @ [c]). piece_ok b B P c"
    and "sum_list (map snd cs) < P" "P \<le> sum_list (map snd cs) + snd c"
    and "ri st (b + MH_EXPAND_NUM) = 0" "ri st (b + MH_RECORD_NUM) = int n"
    and "n = 0 \<or> coming st 0 = Some q \<and> q + 12 + 20 * n < 2 ^ 64 \<and> (q + 12 + 20 * n \<le> b \<or> b + 288 \<le> q)
      \<and> (q + 12 + 20 * n \<le> B \<or> B + P \<le> q)"
  shows "\<exists>st'. read_pieces st b (cs @ [c]) = Some st' \<and> ri st' (b + MB_STATE) = MSG_BOX_REBUILDING
    \<and> mem_bytes (mm st') B P = take P (concat (map (piece (mm st)) (cs @ [c]))) \<and> msg_records (mm st') b = replicate n (0, 0, 0)"
proof -
  obtain st1 where st1: "read_pieces st b cs = Some st1" "loading st1 b B P (concat (map (piece (mm st)) cs))"
    "same_outside ({B..<B + P} \<union> {b + 260..<b + 264}) (mm st) (mm st1)" "\<forall>k. coming st1 k = coming st k"
    using read_pieces_loading [OF assms(1), of cs] assms(2,3) by auto
  have B: "B + P \<le> b \<or> b + 288 \<le> B" using assms(1) by (simp add: loading_def)
  have fld: "ri st1 (b + a) = ri st (b + a)" if "a + 4 \<le> 260" for a
    using that st1(3) B by (intro box_bytes_keep(1)) (auto simp: same_outside_def)
  have len: "length (concat (map (piece (mm st)) cs)) = sum_list (map snd cs)" by (simp add: length_concat comp_def)
  have "piece (mm st1) c = piece (mm st) c" using piece_keep [OF st1(3)] assms(2) by simp
  moreover obtain st' where "message_read_data st1 b (fst c) (int (snd c)) = Some (st', int (P - length (concat (map (piece (mm st)) cs))))"
    "ri st' (b + MB_STATE) = MSG_BOX_REBUILDING" "msg_records (mm st') b = replicate n (0, 0, 0)"
    "mem_bytes (mm st') B P = take P (concat (map (piece (mm st)) cs) @ piece (mm st1) c)"
    using read_last_piece [OF st1(2), of c n q] assms(2,4-7) fld [of MH_EXPAND_NUM] fld [of MH_RECORD_NUM] st1(4) len by auto
  ultimately show ?thesis using st1(1) by (intro exI [of _ st']) (simp add: read_pieces_append)
qed

text \<open>(C17) A message whose payload is longer than the buffer of 4096 bytes is never read from a source in full: after the
  first piece the loop of \<^verbatim>\<open>message_read_from_src\<close> ends, reports only the head as read and leaves the box loading.\<close>

theorem src_loop_stops_after_first_piece:
  assumes "loading st b B P []" "4096 < P" "read_func src 4096 = (src1, 4096, bs)" "length bs = 4096"
    and "piece_ok b B P (ms_stack st, 4096)"
  shows "\<exists>st'. src_loop read_func b (int P) src 0 MSG_HEAD_SIZE st = Some (st', src1, MSG_HEAD_SIZE) \<and> loading st' b B P bs"
proof -
  let ?st = "set_mm (mem_write (mm st) (ms_stack st) bs) st"
  have box: "mm ?st x = mm st x" if "b \<le> x \<and> x < b + 288" for x
    using that assms(4,5) by (auto simp: mem_write_apply piece_ok_def)
  have "rd_sint (mm ?st) 4 (b + a) = ri st (b + a)" "get_ptr (mm ?st) (b + MB_BLOB) = rp st (b + MB_BLOB)" if "a + 4 \<le> 288" for a
    using that by (intro rd_sint_cong get_ptr_cong box; simp)+
  note f = this(1) [of MB_STATE] this(1) [of MH_RECORD_SIZE] this(1) [of MH_EXPAND_SIZE] this(1) [of MB_OFFSET] this(2) [of 0]
  have l: "loading ?st b B P []" using assms(1) f by (simp add: loading_def payload_def)
  have "piece (mm ?st) (ms_stack st, 4096) = bs"
    using mem_bytes_mem_write [of "mm st" "ms_stack st" bs] assms(4) by (simp add: piece_def)
  then obtain st' where st': "message_read_data ?st b (ms_stack st) 4096 = Some (st', 0)" "loading st' b B P bs"
    using read_piece [OF l assms(5)] assms(2) by auto
  have "min (int P - 0) 4096 = 4096" using assms(2) by simp
  then have "src_loop read_func b (int P) src 0 MSG_HEAD_SIZE st = Some (st', src1, MSG_HEAD_SIZE)"
    using assms(2,3) st'(1) by (subst src_loop.simps) (simp add: read_src_def)
  then show ?thesis using st'(2) by blast
qed

text \<open>A box at 1000 that loads a payload of \<open>l0 + 256 * l1\<close> bytes with one record to 3000, and two pieces at 2000 and 2100.\<close>

definition load_mem :: "byte \<Rightarrow> byte \<Rightarrow> mem" where
  "load_mem l0 l1 = (\<lambda>_. 0)(1132 := 1, 1136 := l0, 1137 := l1, 1197 := 16, 1252 := 184, 1253 := 11,
     2000 := 1, 2001 := 2, 2002 := 3, 2100 := 4, 2101 := 5)"

lemma load_mem_loading:
  assumes "uint l0 + 256 * uint l1 = int P" "0 < P" "P < 2 ^ 15"
  shows "loading (msg_example (load_mem l0 l1)) 1000 3000 P []" "ri (msg_example (load_mem l0 l1)) 1132 = 1"
    "ri (msg_example (load_mem l0 l1)) 1140 = 0"
  using assms unfolding loading_def payload_def msg_example_simps load_mem_def
  by (simp_all add: rd_sint_def rd_uint_4 get_ptr_bytes fun_upd_apply)

theorem message_read_in_pieces_witness:
  "\<exists>st'. read_pieces (msg_example (load_mem 5 0)) 1000 [(2000, 3), (2100, 2)] = Some st'
    \<and> ri st' 1196 = MSG_BOX_REBUILDING \<and> mem_bytes (mm st') 3000 5 = [1, 2, 3, 4, 5] \<and> msg_records (mm st') 1000 = [(0, 0, 0)]"
proof -
  let ?st = "msg_example (load_mem 5 0)"
  have ld: "loading ?st 1000 3000 5 []" "ri ?st 1132 = 1" "ri ?st 1140 = 0" using load_mem_loading [of 5 0 5] by simp_all
  have "\<exists>st'. read_pieces ?st 1000 ([(2000, 3)] @ [(2100, 2)]) = Some st' \<and> ri st' (1000 + MB_STATE) = MSG_BOX_REBUILDING
    \<and> mem_bytes (mm st') 3000 5 = take 5 (concat (map (piece (mm ?st)) ([(2000, 3)] @ [(2100, 2)])))
    \<and> msg_records (mm st') 1000 = replicate 1 (0, 0, 0)"
    by (rule message_read_in_pieces [OF ld(1), where q = 5000]) (simp_all add: ld(2,3) [unfolded msg_example_simps(1)] piece_ok_def msg_example_simps)
  moreover have "concat (map (piece (mm ?st)) ([(2000, 3)] @ [(2100, 2)])) = [1, 2, 3, 4, 5]"
    by (simp add: msg_example_simps piece_def mem_bytes_def load_mem_def fun_upd_apply upt_rec)
  ultimately show ?thesis by simp
qed

theorem src_loop_stops_after_first_piece_witness:
  "\<exists>st'. src_loop (\<lambda>s n. (s + n, n, replicate (nat n) 7)) 1000 8000 0 0 MSG_HEAD_SIZE (msg_example (load_mem 64 31))
     = Some (st', 4096 :: int, MSG_HEAD_SIZE) \<and> loading st' 1000 3000 8000 (replicate 4096 7)"
proof -
  let ?st = "msg_example (load_mem 64 31)"
  have ld: "loading ?st 1000 3000 8000 []" using load_mem_loading [of 64 31 8000] by simp
  have "\<exists>st'. src_loop (\<lambda>s n. (s + n, n, replicate (nat n) 7)) 1000 (int 8000) 0 0 MSG_HEAD_SIZE ?st
     = Some (st', 4096 :: int, MSG_HEAD_SIZE) \<and> loading st' 1000 3000 8000 (replicate 4096 7)"
    by (rule src_loop_stops_after_first_piece [OF ld]) (simp_all add: piece_ok_def msg_example_simps)
  then show ?thesis by simp
qed

end
