(* ===== verification/Cube_Message_Json.thy ===== *)
theory Cube_Message_Json
  imports Cube_Message_Read Cube_Memdb_Json
begin

text \<open>
  Messages and JSON: \<open>message_output_json\<close> and \<open>message_output_clear_json\<close> of \<^verbatim>\<open>cubelib/message/message.c\<close>, and
  \<^verbatim>\<open>cubelib/message/json_message.c\<close>, which builds a message from a text.
\<close>

section \<open>The conversions on the state of the messages\<close>

abbreviation (input) CUBE_ELEM_FLAG_KEY :: u32 where "CUBE_ELEM_FLAG_KEY \<equiv> 2"
abbreviation (input) MSG_BOX_RECOVER :: int where "MSG_BOX_RECOVER \<equiv> 0x1002"
abbreviation (input) SUBTYPE_NODEFINE_HEAD :: int where "SUBTYPE_NODEFINE_HEAD \<equiv> 0x100"

definition m_struct_2_json :: "nat \<Rightarrow> nat \<Rightarrow> nat \<Rightarrow> mstate \<Rightarrow> (mstate \<times> int) option" where
  "m_struct_2_json addr json t st =
     (if t = 0 \<or> addr = 0 then None else on_struct (\<lambda>es. struct_2_json (db_ops (ms_db st)) es addr json (t - 1)) st)"

definition m_struct_2_part_json :: "nat \<Rightarrow> nat \<Rightarrow> nat \<Rightarrow> u32 \<Rightarrow> mstate \<Rightarrow> (mstate \<times> int) option" where
  "m_struct_2_part_json addr json t flag st =
     (if t = 0 \<or> addr = 0 then None
      else on_struct (\<lambda>es. struct_2_part_json (db_ops (ms_db st)) es addr json (t - 1) flag) st)"

text \<open>Filling a structure from a tree: all elements, or those with a flag.\<close>

definition m_json_2_struct ::
  "u32 option \<Rightarrow> nat option \<Rightarrow> nat \<Rightarrow> nat \<Rightarrow> mstate \<times> jheap \<Rightarrow> ((mstate \<times> jheap) \<times> int) option" where
  "m_json_2_struct flag node addr t s =
     (let (st, h) = s; tb = db_ops (ms_db st); es = db_es (ms_db st)
      in if t = 0 \<or> addr = 0 then None
         else
           do { res \<leftarrow> (case flag of
                    None \<Rightarrow> json_2_struct tb (es, h) node addr (t - 1)
                  | Some f \<Rightarrow> json_2_part_struct tb (es, h) node addr (t - 1) f);
                ((es1, h1), r) \<leftarrow> res;
                Some ((st\<lparr>ms_db := set_es es1 (ms_db st)\<rparr>, h1), r) })"

definition m_clone_template :: "nat \<Rightarrow> mstate \<Rightarrow> (mstate \<times> nat) option" where
  "m_clone_template t st =
     (if t = 0 then None
      else do { (es, n) \<leftarrow> clone_struct_template (db_es (ms_db st)) (t - 1);
                Some (st\<lparr>ms_db := set_es es (ms_db st)\<rparr>, tmpl_ptr n) })"

definition clone_type_template :: "int \<Rightarrow> int \<Rightarrow> mstate \<Rightarrow> (mstate \<times> nat) option" where
  "clone_type_template type subtype = on_db (\<lambda>db. map_option (apsnd tmpl_ptr) (memdb_clone_template db type subtype))"

section \<open>A message as text\<close>

text \<open>Bytes at the end of the text, and a string that goes there through the buffer; both give the new offset.\<close>

definition put_text :: "nat \<Rightarrow> int \<Rightarrow> byte list \<Rightarrow> mstate \<Rightarrow> mstate \<times> int" where
  "put_text txt offset bs st = (set_mm (mem_write (mm st) (adr_plus txt offset) bs) st, offset + int (length bs))"

definition put_string :: "nat \<Rightarrow> nat \<Rightarrow> int \<Rightarrow> string \<Rightarrow> mstate \<Rightarrow> mstate \<times> int" where
  "put_string buffer txt offset s st =
     (let st1 = set_mm (mem_write (mm st) buffer (ascii s @ [0])) st
      in (set_mm (mem_write (mm st1) (adr_plus txt offset) (ascii s @ [0])) st1, offset + int (length s)))"

text \<open>The records from \<open>i\<close> on, converted by the template \<open>t\<close>; \<open>Inl\<close> is a returned error.\<close>

fun json_records :: "nat \<Rightarrow> nat \<Rightarrow> nat \<Rightarrow> int \<Rightarrow> nat \<Rightarrow> int \<Rightarrow> mstate \<Rightarrow> (mstate \<times> (int + int)) option" where
  "json_records b t txt i 0 offset st = Some (st, Inr offset)"
| "json_records b t txt i (Suc k) offset st =
     (let (st1, offset1) = (if i > 0 then put_text txt offset [44] st else (st, offset))
      in do { (st2, r) \<leftarrow> m_struct_2_json (rp st1 (at8 (rp st1 (b + MB_PRECORD)) i)) (adr_plus txt offset1) t st1;
              if r < 0 then Some (st2, Inl r) else json_records b t txt (i + 1) k (offset1 + r) st2 })"

definition bin_text :: string where
  "bin_text = ''{'' @ [CHR 0x22] @ ''BIN_FORMAT'' @ [CHR 0x22] @ '':''"

text \<open>
  The record part: nothing, the blob in radix-64, or the records, for which \<open>clone\<close> tells whether a copy of
  the template is used.
\<close>

definition json_record_part :: "bool \<Rightarrow> nat \<Rightarrow> nat \<Rightarrow> nat \<Rightarrow> int \<Rightarrow> mstate \<Rightarrow> (mstate \<times> (int + int)) option" where
  "json_record_part clone b buffer txt offset st =
     (if ri st (b + MH_FLAG) AND MSG_FLAG_CRYPT \<noteq> 0 \<or> rp st (b + MB_RECORD_TEMPLATE) = 0 then
        (if rp st (b + MB_BLOB) = 0 then
           (let (st1, off1) = put_string buffer txt offset (''{'' @ [CHR 0x22] @ ''EMPTY'' @ [CHR 0x22] @ '':'' @ [CHR 0x22, CHR 0x22]) st
            in Some (apsnd Inr (put_text txt off1 [125] st1)))
         else
           (let (st1, off1) = put_string buffer txt offset bin_text st;
                (st2, off2) = put_text txt off1 [34] st1;
                (code, r) = bin_to_radix64 (mem_bytes (mm st2) (rp st2 (b + MB_BLOB)) (nat (ri st2 (b + MH_RECORD_SIZE))));
                st3 = set_mm (mem_write (mm st2) (adr_plus txt off2) code) st2
            in Some (apsnd Inr (put_text txt (off2 + r) [34, 125] st3))))
      else
        (let (st1, off1) = put_text txt offset [91] st; t = rp st1 (b + MB_RECORD_TEMPLATE)
         in do { (st2, t') \<leftarrow> (if clone then m_clone_template t st1 else Some (st1, t));
                 if t' = 0 then Some (st2, Inl (- EINVAL))
                 else do {
                   (st3, r) \<leftarrow> json_records b t' txt 0 (nat (ri st2 (b + MH_RECORD_NUM))) off1 st2;
                   case r of Inl e \<Rightarrow> Some (st3, Inl e) | Inr off2 \<Rightarrow> Some (apsnd Inr (put_text txt off2 [93] st3)) } }))"

text \<open>
  One expand: a blob is converted to its head first, whose code is added to the offset unchecked; a structure of
  an unknown type is printed as a head as well.
\<close>

definition json_expand :: "bool \<Rightarrow> nat \<Rightarrow> nat \<Rightarrow> nat \<Rightarrow> int \<Rightarrow> int \<Rightarrow> mstate \<Rightarrow> (mstate \<times> (int + int)) option" where
  "json_expand clone b buffer txt i offset st =
     (let e = rp st (at8 (rp st (b + MB_PEXPAND)) i)
      in do {
        kits \<leftarrow> ms_kits st;
        if e = 0 then
          (let (st1, x) = m_talloc0 MSG_EXPAND_SIZE st
           in if x = 0 then Some (st1, Inl (- ENOMEM))
              else do {
                (st2, r) \<leftarrow> m_blob_2_struct (rp st1 (at8 (rp st1 (b + MB_EXPAND)) i)) x (kit_expand_bin_template kits) st1;
                if r < 0 then Some (st2, Inl r)
                else do {
                  (st3, r1) \<leftarrow> m_struct_2_json x (adr_plus txt offset) (kit_expand_bin_template kits) st2;
                  Some (st3, Inr (offset + r1)) } })
        else do {
          (st1, t) \<leftarrow> (if clone then clone_type_template else get_template) (ex_type (mm st) e) (ex_subtype (mm st) e) st;
          if t = 0 then do {
            (st2, r) \<leftarrow> m_struct_2_json e (adr_plus txt offset) (kit_expand_bin_template kits) st1;
            Some (st2, Inr offset) }
          else do {
            (st2, r) \<leftarrow> m_struct_2_json e (adr_plus txt offset) (kit_expand_head_template kits) st1;
            if r < 0 then Some (st2, Inl r)
            else do {
              let (st3, off1) = put_string buffer txt (offset + r - 1) ('','' @ [CHR 0x22] @ ''expand'' @ [CHR 0x22] @ '':'') st2;
              (st4, r1) \<leftarrow> m_struct_2_json (ex_expand (mm st3) (rp st3 (at8 (rp st3 (b + MB_PEXPAND)) i))) (adr_plus txt off1) t st3;
              if r1 < 0 then Some (st4, Inl r1)
              else
                let (st5, off2) = put_text txt (off1 + r1) [125] st4
                in Some (fst (put_text txt off2 [0] st5), Inr off2) } } } })"

fun json_expands :: "bool \<Rightarrow> nat \<Rightarrow> nat \<Rightarrow> nat \<Rightarrow> int \<Rightarrow> nat \<Rightarrow> int \<Rightarrow> mstate \<Rightarrow> (mstate \<times> (int + int)) option" where
  "json_expands clone b buffer txt i 0 offset st = Some (st, Inr offset)"
| "json_expands clone b buffer txt i (Suc k) offset st =
     do { (st1, r) \<leftarrow> json_expand clone b buffer txt i offset st;
          case r of
            Inl e \<Rightarrow> Some (st1, Inl e)
          | Inr off1 \<Rightarrow>
              let (st2, off2) = put_text txt off1 [44] st1
              in json_expands clone b buffer txt (i + 1) k off2 st2 }"

text \<open>What follows the head; the comma behind the last expand is taken back.\<close>

definition json_body :: "bool \<Rightarrow> nat \<Rightarrow> nat \<Rightarrow> nat \<Rightarrow> int \<Rightarrow> mstate \<Rightarrow> (mstate \<times> int) option" where
  "json_body clone b buffer txt offset st =
     (let (st1, off1) = put_string buffer txt offset ('','' @ [CHR 0x22] @ ''RECORD'' @ [CHR 0x22] @ '':'') st
      in do {
        (st2, r) \<leftarrow> json_record_part clone b buffer txt off1 st1;
        case r of
          Inl e \<Rightarrow> Some (st2, e)
        | Inr off2 \<Rightarrow>
            (let (st3, off3) = put_string buffer txt off2 ('','' @ [CHR 0x22] @ ''EXPAND'' @ [CHR 0x22] @ '' :['') st2;
                 n = nat (ri st3 (b + MH_EXPAND_NUM))
             in do {
               (st4, r4) \<leftarrow> json_expands clone b buffer txt 0 n off3 st3;
               case r4 of
                 Inl e \<Rightarrow> Some (st4, e)
               | Inr off4 \<Rightarrow> Some (put_string buffer txt (if n \<noteq> 0 then off4 - 1 else off4) '']}'' st4) }) })"

definition head_text :: string where
  "head_text = ''{ '' @ [CHR 0x22] @ ''HEAD'' @ [CHR 0x22] @ '':''"

text \<open>The head of a message without a template is converted by the template of an undefined head.\<close>

definition json_nodefine_head :: "nat \<Rightarrow> nat \<Rightarrow> mstate \<Rightarrow> (mstate \<times> int) option" where
  "json_nodefine_head b a st =
     do { (st1, t) \<leftarrow> get_template DTYPE_MESSAGE SUBTYPE_NODEFINE_HEAD st;
          if t = 0 then Some (st1, - EINVAL) else m_struct_2_json b a t st1 }"

definition message_output_json :: "mstate \<Rightarrow> nat \<Rightarrow> nat \<Rightarrow> (mstate \<times> int) option" where
  "message_output_json st b txt =
     (if b = 0 then Some (st, - EINVAL)
      else if txt = 0 then Some (st, - EINVAL)
      else
        let (st1, buffer) = m_talloc 4096 st
        in if buffer = 0 then Some (st1, - EINVAL)
           else do {
             let st2 = fst (put_text txt 0 (ascii head_text @ [0]) st1);
             let offset = int (length head_text);
             (st3, r) \<leftarrow> (if rp st2 (b + MB_RECORD_TEMPLATE) \<noteq> 0
                 then do { kits \<leftarrow> ms_kits st2; m_struct_2_json b (adr_plus txt offset) (kit_head_template kits) st2 }
                 else json_nodefine_head b (adr_plus txt offset) st2);
             if r < 0 then Some (st3, r) else json_body False b buffer txt (offset + r) st3 })"

text \<open>Of the head only the elements with the flag of a key are put out, and a copy of its template is made for nothing.\<close>

definition message_output_clear_json :: "mstate \<Rightarrow> nat \<Rightarrow> nat \<Rightarrow> (mstate \<times> int) option" where
  "message_output_clear_json st b txt =
     (if b = 0 then Some (st, - EINVAL)
      else if txt = 0 then Some (st, - EINVAL)
      else
        let (st1, buffer) = m_talloc 2048 st
        in if buffer = 0 then Some (st1, - ENOMEM)
           else do {
             let st2 = fst (put_text txt 0 (ascii head_text @ [0]) st1);
             let offset = int (length head_text);
             kits \<leftarrow> ms_kits st2;
             (st3, r) \<leftarrow> (if kit_head_template kits \<noteq> 0 then do {
                   (st3, t) \<leftarrow> m_clone_template (kit_head_template kits) st2;
                   if t = 0 then Some (st3, - EINVAL)
                   else do {
                     (st4, r) \<leftarrow> m_struct_2_part_json b (adr_plus txt offset) (kit_head_template kits) CUBE_ELEM_FLAG_KEY st3;
                     Some (st4, if r < 0 then - EINVAL else r) } }
                 else json_nodefine_head b (adr_plus txt offset) st2);
             if r < 0 then Some (st3, r) else json_body True b buffer txt (offset + r) st3 })"

section \<open>A message from a text\<close>

text \<open>A member under one of two names, of a node that may be \<^verbatim>\<open>NULL\<close>.\<close>

definition find_either :: "string \<Rightarrow> string \<Rightarrow> nat option \<Rightarrow> jheap \<Rightarrow> (jheap \<times> nat option) option" where
  "find_either upper lower node h =
     do { (h1, c) \<leftarrow> find_in (ascii upper) h node;
          if c = None then find_in (ascii lower) h1 node else Some (h1, c) }"

definition json_first :: "nat \<Rightarrow> mstate \<times> jheap \<Rightarrow> (mstate \<times> jheap) \<times> nat option" where
  "json_first node s = (let (h1, c) = json_get_first_child (snd s) node in ((fst s, h1), c))"

definition json_next :: "nat \<Rightarrow> mstate \<times> jheap \<Rightarrow> ((mstate \<times> jheap) \<times> nat option) option" where
  "json_next node s = map_option (\<lambda>(h1, c). ((fst s, h1), c)) (json_get_next_child (snd s) node)"

text \<open>The blob of a message whose record part is the map \<^verbatim>\<open>{"BIN_FORMAT":...}\<close>; a map with another member is accepted.\<close>

definition read_bin_format :: "nat \<Rightarrow> nat \<Rightarrow> mstate \<times> jheap \<Rightarrow> ((mstate \<times> jheap) \<times> int) option" where
  "read_bin_format b c s =
     (let (st, h) = s; (_, name) = json_node_getname h (Some c)
      in if takeWhile (\<lambda>x. x \<noteq> 0) name \<noteq> ascii ''BIN_FORMAT'' then Some (s, 0)
         else
           let (st1, buf) = m_malloc st
           in if buf = 0 then Some ((st1, h), - ENOMEM)
              else do {
                (r, bs) \<leftarrow> json_node_getvalue h (Some c) 4096;
                let st2 = set_mm (mem_write (mm st1) buf bs) st1;
                if r < 0 then Some ((st2, h), - EINVAL)
                else
                  let len = Strnlen (mm st2) buf 4096;
                      st3 = wi (b + MH_RECORD_SIZE) (radix_to_bin_len (int len)) st2;
                      (st4, blob) = m_malloc st3;
                      st5 = wp (b + MB_BLOB) blob st4
                  in if blob = 0 then Some ((st5, h), - ENOMEM)
                     else
                       let (_, out) = radix64_to_bin (mem_bytes (mm st5) buf len)
                       in Some ((set_mm (mem_write (mm st5) blob out) st5, h), 0) })"

text \<open>
  The loop over the children of the record node, whose bound is read anew each time; neither the code of the
  conversion nor that of \<^verbatim>\<open>message_add_record\<close> is looked at.
\<close>

partial_function (option) read_json_records ::
  "nat \<Rightarrow> nat \<Rightarrow> int \<Rightarrow> nat option \<Rightarrow> mstate \<times> jheap \<Rightarrow> ((mstate \<times> jheap) \<times> int) option" where
  "read_json_records b record_node i cur s =
     (if i \<ge> ri (fst s) (b + MH_RECORD_NUM) then Some (s, 0)
      else if cur = None then Some (s, - EINVAL)
      else do {
        let t = rp (fst s) (b + MB_RECORD_TEMPLATE);
        sz \<leftarrow> m_struct_size (fst s) t;
        let (st1, p) = m_dalloc0 sz b (fst s);
        if p = 0 then Some ((st1, snd s), - ENOMEM)
        else do {
          ((st2, h2), r2) \<leftarrow> m_json_2_struct None cur p t (st1, snd s);
          (st3, r3) \<leftarrow> message_add_record st2 b p;
          (s4, next) \<leftarrow> json_next record_node (st3, h2);
          read_json_records b record_node (i + 1) next s4 } })"

text \<open>One expand: with a member \<^verbatim>\<open>expand\<close> a structure of its type, otherwise a blob behind its head.\<close>

definition read_json_expand :: "nat \<Rightarrow> nat \<Rightarrow> mstate \<times> jheap \<Rightarrow> ((mstate \<times> jheap) \<times> int) option" where
  "read_json_expand b c s =
     (let (st, h) = s; (st1, e) = m_dalloc0 MSG_EXPAND_SIZE b st
      in if e = 0 then Some ((st1, h), - ENOMEM)
         else do {
           (h1, data) \<leftarrow> find_in (ascii ''expand'') h (Some c);
           if data \<noteq> None then do {
             tmpl \<leftarrow> message_get_expand_template st1;
             ((st2, h2), r2) \<leftarrow> m_json_2_struct None (Some c) e tmpl (st1, h1);
             if r2 < 0 then Some ((st2, h2), r2)
             else do {
               (st3, t) \<leftarrow> get_template (ex_type (mm st2) e) (ex_subtype (mm st2) e) st2;
               if t = 0 then Some ((st3, h2), - EINVAL)
               else do {
                 let st4 = wi e 0 st3;
                 sz \<leftarrow> m_struct_size st4 t;
                 let (st5, p) = m_dalloc0 sz b st4;
                 let st6 = wp (e + 12) p st5;
                 if p = 0 then Some ((st6, h2), - ENOMEM)
                 else do {
                   ((st7, h7), r7) \<leftarrow> m_json_2_struct None data p t (st6, h2);
                   if r7 < 0 then Some ((st7, h7), r7)
                   else do { (st8, r8) \<leftarrow> message_add_expand st7 b e; Some ((st8, h7), 0) } } } } }
           else do {
             tmpl \<leftarrow> message_get_expand_bin_template st1;
             ((st2, h2), r2) \<leftarrow> m_json_2_struct None (Some c) e tmpl (st1, h1);
             if r2 < 0 then Some ((st2, h2), r2)
             else do {
               let n = ex_data_size (mm st2) e;
               let blob_size = n + MSG_EXPAND_HEAD_SIZE;
               let (st3, blob) = m_talloc0 blob_size st2;
               if blob = 0 then Some ((st3, h2), - ENOMEM)
               else do {
                 let st4 = mcopy blob e MSG_EXPAND_HEAD_SIZE st3;
                 let src = ex_expand (mm st4) e;
                 if src = 0 \<and> n \<noteq> 0 then None
                 else do {
                   (st5, r5) \<leftarrow> message_add_expand_blob (mcopy (blob + 12) src n st4) b blob_size blob;
                   Some ((st5, h2), 0) } } } } })"

fun read_json_expands :: "nat \<Rightarrow> nat \<Rightarrow> nat \<Rightarrow> nat option \<Rightarrow> mstate \<times> jheap \<Rightarrow> ((mstate \<times> jheap) \<times> int) option" where
  "read_json_expands b node 0 cur s = Some (s, 0)"
| "read_json_expands b node (Suc k) cur s =
     (case cur of
        None \<Rightarrow> Some (s, - EINVAL)
      | Some c \<Rightarrow>
          do { (s1, r) \<leftarrow> read_json_expand b c s;
               if r < 0 then Some (s1, r)
               else do { (s2, next) \<leftarrow> json_next node s1; read_json_expands b node k next s2 } })"

text \<open>A tag must be a string of the four bytes \<^verbatim>\<open>MESG\<close>.\<close>

definition tag_ok :: "jheap \<Rightarrow> nat option \<Rightarrow> bool option" where
  "tag_ok h tag =
     (case tag of
        None \<Rightarrow> Some True
      | Some c \<Rightarrow> map_option (\<lambda>(r, bs). r = 4 \<and> take 4 bs = ascii ''MESG'') (json_node_getvalue h (Some c) 10))"

definition read_json_expand_part :: "nat \<Rightarrow> nat \<Rightarrow> mstate \<times> jheap \<Rightarrow> ((mstate \<times> jheap) \<times> int) option" where
  "read_json_expand_part b root s =
     (let expand_no = ri (fst s) (b + MH_EXPAND_NUM); st1 = wi (b + MH_EXPAND_NUM) 0 (fst s)
      in do { (h1, node) \<leftarrow> find_either ''EXPAND'' ''expand'' (Some root) (snd s);
              case node of
                None \<Rightarrow> Some ((st1, h1), 0)
              | Some x \<Rightarrow>
                  (let (s2, cur) = json_first x (st1, h1) in read_json_expands b x (nat expand_no) cur s2) })"

definition read_json_record_part :: "nat \<Rightarrow> nat \<Rightarrow> mstate \<times> jheap \<Rightarrow> ((mstate \<times> jheap) \<times> int) option" where
  "read_json_record_part b root s =
     do { (h1, node) \<leftarrow> find_either ''RECORD'' ''record'' (Some root) (snd s);
          case node of
            None \<Rightarrow> Some ((fst s, h1), - EINVAL)
          | Some x \<Rightarrow>
              (let (s2, cur) = json_first x (fst s, h1)
               in case cur of
                    None \<Rightarrow> Some (s2, - EINVAL)
                  | Some c \<Rightarrow>
                      if json_get_type (snd s2) (Some x) = JSON_ELEM_MAP then read_bin_format b c s2
                      else read_json_records b x 0 cur s2) }"

text \<open>The parts of a message whose head the tree has at \<open>head\<close>; the code of the conversion of the head is ignored.\<close>

definition read_json_parts ::
  "u32 option \<Rightarrow> nat \<Rightarrow> nat option \<Rightarrow> mstate \<times> jheap \<Rightarrow> ((mstate \<times> jheap) \<times> (int + nat)) option" where
  "read_json_parts flag root head s =
     do { (st1, b) \<leftarrow> message_init (fst s);
          if b = 0 then None
          else do {
            ((st2, h2), r2) \<leftarrow> m_json_2_struct flag head (message_get_head b) (rp st1 (b + MB_HEAD_TEMPLATE)) (st1, snd s);
            (st3, r3) \<leftarrow> message_record_init st2 b;
            if r3 < 0 then Some ((st3, h2), Inl r3)
            else do {
              (s4, r4) \<leftarrow> read_json_record_part b root (st3, h2);
              if r4 < 0 then Some (s4, Inl r4)
              else do {
                (s5, r5) \<leftarrow> read_json_expand_part b root s4;
                if r5 < 0 then Some (s5, Inl r5) else Some (s5, Inr b) } } } }"

text \<open>
  The common body of \<open>json_2_message\<close> and \<open>json_2_clear_message\<close>, which takes only the elements of the head with
  the flag of a key. \<open>out\<close> gets the message. A text for which the parser sets no root has no result.
\<close>

definition json_to_message :: "u32 option \<Rightarrow> mstate \<times> jheap \<Rightarrow> nat \<Rightarrow> nat \<Rightarrow> ((mstate \<times> jheap) \<times> int) option" where
  "json_to_message flag s json_str out =
     (let (st, h) = s
      in do {
        text \<leftarrow> cstring (mm st) json_str;
        case json_solve_str h text of
          Overrun \<Rightarrow> None
        | Code r \<Rightarrow> (if r < 0 then Some (s, r) else None)
        | Solved h1 offset \<Rightarrow>
            (let root = jnext h
             in do {
               (h2, head) \<leftarrow> find_either ''HEAD'' ''head'' (Some root) h1;
               if head = None then Some ((st, h2), - EINVAL)
               else do {
                 (h3, tag) \<leftarrow> find_in (ascii ''tag'') h2 head;
                 ok \<leftarrow> tag_ok h3 tag;
                 if \<not> ok then Some ((st, h3), - EINVAL)
                 else do {
                   (s4, r) \<leftarrow> read_json_parts flag root head (st, h3);
                   case r of
                     Inl e \<Rightarrow> Some (s4, e)
                   | Inr b \<Rightarrow> Some ((wi (b + MB_STATE) MSG_BOX_RECOVER (wp out b (fst s4)), snd s4), int offset) } } }) })"

definition json_2_message :: "mstate \<times> jheap \<Rightarrow> nat \<Rightarrow> nat \<Rightarrow> ((mstate \<times> jheap) \<times> int) option" where
  "json_2_message s json_str out = json_to_message None s json_str out"

definition json_2_clear_message :: "mstate \<times> jheap \<Rightarrow> nat \<Rightarrow> nat \<Rightarrow> ((mstate \<times> jheap) \<times> int) option" where
  "json_2_clear_message s json_str out = json_to_message (Some CUBE_ELEM_FLAG_KEY) s json_str out"

end
