(* ===== verification/Cube_Message_Json_Laws.thy ===== *)
theory Cube_Message_Json_Laws
  imports Cube_Message_Laws Cube_Message_Json Cube_Json_Nodes
begin

text \<open>
  The blob of a message through JSON: the record part that \<open>message_output_json\<close> writes for a message without a record
  template is the text of a map with the member \<^verbatim>\<open>BIN_FORMAT\<close>, and a message read from a tree with this record
  part gets the same blob.
\<close>

section \<open>The text of a blob\<close>

text \<open>The record part as a value; \<open>blob_text\<close> is its text.\<close>

definition blob_value :: "byte list \<Rightarrow> jval" where
  "blob_value bs = VNode False (MCons (ascii ''BIN_FORMAT'') (VStr (radix64_text bs)) MNil)"

abbreviation blob_text :: "byte list \<Rightarrow> byte list" where "blob_text bs \<equiv> render (blob_value bs)"

lemma blob_text_parts:
  "blob_text bs = ascii bin_text @ [34] @ radix64_text bs @ [34, 125]"
  by (simp add: blob_value_def ascii_def bin_text_def)

lemma length_bin_text: "length bin_text = 14" "length (ascii bin_text) = 14"
  by (simp_all add: ascii_def bin_text_def)

lemma radix64_text_plain: "plain (radix64_text bs)"
proof -
  have tab: "list_all (\<lambda>c. c \<noteq> 0 \<and> c \<noteq> 34 \<and> c \<noteq> 92) radix64_tab" by (simp add: radix64_tab_def)
  have len: "length radix64_tab = 65" by (simp add: radix64_tab_def)
  show ?thesis unfolding plain_def list_all_iff
  proof
    fix c assume "c \<in> set (radix64_text bs)"
    then obtain v where "v \<in> set (radix64_split bs)" "c = radix64_tab ! unat v" by auto
    then have "c \<in> set radix64_tab" using split_bounds [of v bs] len by (auto intro!: nth_mem)
    then show "c \<noteq> 0 \<and> c \<noteq> 34 \<and> c \<noteq> 92" using tab by (auto simp: list_all_iff)
  qed
qed

lemma wf_blob_value: "length bs \<le> 382 \<Longrightarrow> wf_val False (blob_value bs)"
  using radix64_text_plain [of bs] by (auto simp: blob_value_def length_radix64_split plain_def ascii_def)

lemma adr_plus_plus: "0 \<le> off \<Longrightarrow> adr_plus a (off + int k) = adr_plus a off + k"
  by (simp add: adr_plus_def nat_add_distrib)

lemma same_outside_mem_write: "{a..<a + length bs} \<subseteq> D \<Longrightarrow> same_outside D m (mem_write m a bs)"
  by (auto simp: same_outside_def mem_write_apply)

lemma same_reads:
  assumes "same_outside D m m'"
  shows "{x..<x + 8} \<inter> D = {} \<Longrightarrow> get_ptr m' x = get_ptr m x"
    and "{x..<x + n} \<inter> D = {} \<Longrightarrow> rd_sint m' n x = rd_sint m n x"
    and "{x..<x + n} \<inter> D = {} \<Longrightarrow> mem_bytes m' x n = mem_bytes m x n"
  using assms by (auto simp: same_outside_def intro!: get_ptr_cong rd_sint_cong mem_bytes_cong)

lemma box_part:
  fixes b f n :: nat
  assumes "{b..<b + 288} \<inter> D = {}" "f + n \<le> 288"
  shows "{b + f..<b + f + n} \<inter> D = {}"
proof -
  have "{b + f..<b + f + n} \<subseteq> {b..<b + 288}" using assms(2) by auto
  then show ?thesis using assms(1) by blast
qed

lemma set_mm_twice: "set_mm m (set_mm m' st) = set_mm m st"
  by (simp add: set_mm_def)

lemma record_part_blob:
  assumes "rp st (b + MB_RECORD_TEMPLATE) = 0" "rp st (b + MB_BLOB) = q" "q \<noteq> 0" "ri st (b + MH_RECORD_SIZE) = int n"
    and "bs = mem_bytes (mm st) q n" "0 \<le> offset" "a = adr_plus txt offset" "L = length (blob_text bs)"
    and "({b..<b + 288} \<union> {q..<q + n}) \<inter> ({a..<a + L} \<union> {buffer..<buffer + 15}) = {}"
  obtains st1 where "json_record_part clone b buffer txt offset st = Some (st1, Inr (offset + int L))"
    "mem_bytes (mm st1) a L = blob_text bs"
proof -
  let ?D = "{a..<a + L} \<union> {buffer..<buffer + 15}" and ?R = "radix64_text bs" and ?k = "length (radix64_split bs)"
  have L: "L = 14 + (1 + (?k + 2))" using assms(8) by (simp add: blob_text_parts length_bin_text)
  define m1 where "m1 = mem_write (mem_write (mm st) buffer (ascii bin_text @ [0])) a (ascii bin_text @ [0])"
  define m2 where "m2 = mem_write m1 (a + 14) [34]"
  define m3 where "m3 = mem_write m2 (a + 15) (?R @ [0])"
  define m4 where "m4 = mem_write m3 (a + 15 + ?k) [34, 125]"
  have so1: "same_outside ?D (mm st) m1" unfolding m1_def
    by (rule same_outside_trans; rule same_outside_mem_write) (auto simp: length_bin_text L)
  have so: "same_outside ?D (mm st) m2" unfolding m2_def
    by (rule same_outside_trans [OF so1 same_outside_mem_write]) (auto simp: L)
  have sz: "rd_sint m2 4 (b + MH_RECORD_SIZE) = int n"
    using assms(4,9) by (subst same_reads(2) [OF so]) (auto simp: disjoint_iff)
  have ptr: "get_ptr m2 (b + MB_BLOB) = q" using assms(2,9) by (subst same_reads(1) [OF so]) (auto simp: disjoint_iff)
  have blob: "mem_bytes m2 q n = bs" using assms(5,9) by (subst same_reads(3) [OF so]) (auto simp: disjoint_iff)
  have ads: "adr_plus txt (offset + 14) = a + 14" "adr_plus txt (offset + 15) = a + 15"
      "adr_plus txt (offset + 15 + int ?k) = a + 15 + ?k"
    using assms(6,7) adr_plus_plus [of offset "txt" 14] adr_plus_plus [of offset "txt" 15]
      adr_plus_plus [of offset "txt" "15 + ?k"] by (simp_all add: add.assoc)
  have put1: "put_string buffer txt offset bin_text st = (set_mm m1 st, offset + 14)"
    using assms(7) by (simp add: put_string_def Let_def length_bin_text m1_def state_simps set_mm_def)
  have whole: "mem_bytes m4 a L = blob_text bs"
  proof -
    have "mem_bytes m4 a 14 = mem_bytes m1 a 14"
      by (rule mem_bytes_cong) (simp add: m4_def m3_def m2_def mem_write_apply)
    also have "\<dots> = ascii bin_text" using mem_bytes_prefix [of _ a "ascii bin_text" "[0]"] by (simp add: m1_def length_bin_text)
    finally have 1: "mem_bytes m4 a 14 = ascii bin_text" .
    have 2: "mem_bytes m4 (a + 14) 1 = [34]"
      by (simp add: m4_def m3_def m2_def mem_write_apply mem_bytes_def)
    have "mem_bytes m4 (a + 15) ?k = mem_bytes m3 (a + 15) ?k"
      by (rule mem_bytes_cong) (simp add: m4_def mem_write_apply)
    then have 3: "mem_bytes m4 (a + 15) ?k = ?R" using mem_bytes_prefix [of m2 "a + 15" ?R "[0]"] by (simp add: m3_def)
    have 4: "mem_bytes m4 (a + 15 + ?k) 2 = [34, 125]"
      using mem_bytes_mem_write [of m3 "a + 15 + ?k" "[34, 125]"] by (simp add: m4_def numeral_2_eq_2)
    show ?thesis unfolding L mem_bytes_append 1 2 using 3 4 by (simp add: blob_text_parts add.commute [of a 15])
  qed
  show thesis
  proof (rule that)
    have put2: "put_text txt (offset + 14) [34] (set_mm m1 st) = (set_mm m2 st, offset + 15)"
      by (simp add: put_text_def ads m2_def state_simps set_mm_twice)
    have put4: "put_text txt (offset + 15 + int ?k) [34, 125] (set_mm m3 st) = (set_mm m4 st, offset + int L)"
      by (simp add: put_text_def ads m4_def state_simps set_mm_twice L)
    show "json_record_part clone b buffer txt offset st = Some (set_mm m4 st, Inr (offset + int L))"
      using assms(1-3)
      by (simp add: json_record_part_def put1 put2 put4 Let_def state_simps bin_to_radix64_def ads sz ptr blob
          m3_def [symmetric] set_mm_twice)
    show "mem_bytes (mm (set_mm m4 st)) a L = blob_text bs" using whole by (simp add: state_simps)
  qed
qed

section \<open>The blob of a tree\<close>

lemma m_malloc_result:
  assumes "coming st 0 = Some q"
  obtains st' where "m_malloc st = (st', q)" "mm st' = mm st" "\<And>k. coming st' k = coming st (Suc k)"
proof -
  let ?es = "db_es (ms_db st)"
  have "m_malloc st = (st\<lparr>ms_db := set_es (?es\<lparr>es_calls := es_calls ?es + 1\<rparr>) (ms_db st)\<rparr>, q)"
    using assms by (simp add: m_malloc_def on_es_def coming_def)
  from that [OF this] show thesis by (simp add: coming_def)
qed

lemma buf_put_front: "length bs \<le> n \<Longrightarrow> buf_put (replicate n 0) 0 bs = bs @ replicate (n - length bs) 0"
  by (simp add: buf_put_def)

lemma takeWhile_plain_text: "plain t \<Longrightarrow> takeWhile (\<lambda>b. b \<noteq> 0) (t @ 0 # r) = t" "plain t \<Longrightarrow> takeWhile (\<lambda>b. b \<noteq> 0) t = t"
  by (induction t) (auto simp: plain_def)

lemma read_bin_format_blob:
  assumes "jname (jnode h c) = ascii ''BIN_FORMAT''" "elem_type (jnode h c) = JSON_ELEM_STRING"
    and "value_str (jnode h c) = Some (radix64_text bs)" "length bs \<le> 382"
    and "coming st 0 = Some buf" "buf \<noteq> 0" "coming st 1 = Some blob" "blob \<noteq> 0" "blob < 2 ^ 64"
    and "{b..<b + 288} \<inter> ({buf..<buf + 4096} \<union> {blob..<blob + length bs}) = {}"
  obtains st' where "read_bin_format b c (st, h) = Some ((st', h), 0)" "rp st' (b + MB_BLOB) = blob"
    "ri st' (b + MH_RECORD_SIZE) = int (length bs)" "mem_bytes (mm st') blob (length bs) = bs"
proof -
  let ?R = "radix64_text bs" and ?k = "length (radix64_split bs)"
  have k: "?k \<le> 510" "int ?k = int (length ?R)" using assms(4) by (simp_all add: length_radix64_split)
  obtain st1 where st1: "m_malloc st = (st1, buf)" "mm st1 = mm st" "\<And>i. coming st1 i = coming st (Suc i)"
    using m_malloc_result [OF assms(5)] by blast
  define m2 where "m2 = mem_write (mm st1) buf (?R @ replicate (4096 - ?k) 0)"
  have get: "json_node_getvalue h (Some c) 4096 = Some (int ?k, ?R @ replicate (4096 - ?k) 0)"
    using assms(2,3) k radix64_text_plain [of bs]
    by (simp add: json_node_getvalue_def takeWhile_plain_text buf_put_front Let_def)
  have "mem_bytes m2 buf 4096 = ?R @ replicate (4096 - ?k) 0"
    using mem_bytes_mem_write [of "mm st1" buf "?R @ replicate (4096 - ?k) 0"] k by (simp add: m2_def)
  moreover have "replicate (4096 - ?k) (0 :: byte) = 0 # replicate (4095 - ?k) 0"
    using k replicate_Suc [of "4095 - ?k" "0 :: byte"] by (simp add: Suc_diff_le [symmetric])
  ultimately have "takeWhile (\<lambda>b. b \<noteq> 0) (mem_bytes m2 buf 4096) = ?R"
    using takeWhile_plain_text(1) [OF radix64_text_plain, of bs "replicate (4095 - ?k) 0"] by simp
  then have len: "Strnlen m2 buf 4096 = ?k" by (simp add: Strnlen_takeWhile)
  define st3 where "st3 = wi (b + MH_RECORD_SIZE) (int (length bs)) (set_mm m2 st1)"
  obtain st4 where st4: "m_malloc st3 = (st4, blob)" "mm st4 = mm st3"
    by (rule m_malloc_result [of st3 blob]) (use assms(7) st1(3) in \<open>simp_all add: st3_def\<close>)
  define m5 where "m5 = put_ptr (mm st3) (b + MB_BLOB) blob"
  have "same_outside {b..<b + 288} m2 m5"
    by (auto simp: same_outside_def m5_def st3_def state_simps put_ptr_outside wr_int_outside)
  then have "mem_bytes m5 buf ?k = mem_bytes m2 buf ?k" using assms(10) k(1) by (intro same_reads(3)) auto
  also have "\<dots> = ?R" using mem_bytes_prefix [of "mm st1" buf ?R] by (simp add: m2_def)
  finally have code: "mem_bytes m5 buf ?k = ?R" .
  let ?m = "mem_write m5 blob bs"
  have so: "same_outside {blob..<blob + length bs} m5 ?m" by (rule same_outside_mem_write) simp
  have box: "{b..<b + 288} \<inter> {blob..<blob + length bs} = {}" using assms(10) by blast
  show thesis
  proof (rule that)
    have "takeWhile (\<lambda>x. x \<noteq> 0) (snd (json_node_getname h (Some c))) = ascii ''BIN_FORMAT''"
      by (simp add: json_node_getname_def assms(1) ascii_def Let_def)
    then show "read_bin_format b c (st, h) = Some ((set_mm ?m (wp (b + MB_BLOB) blob st4), h), 0)"
      using assms(6,8) get len st4 code radix_to_bin_len_split [of bs]
      by (simp add: read_bin_format_def case_prod_unfold st1(1) Let_def m2_def [symmetric] st3_def [symmetric]
          state_simps m5_def [symmetric] radix64_to_bin_text)
    have "get_ptr ?m (b + MB_BLOB) = get_ptr m5 (b + MB_BLOB)"
      by (rule same_reads(1) [OF so]) (rule box_part [OF box], simp)
    then show "rp (set_mm ?m (wp (b + MB_BLOB) blob st4)) (b + MB_BLOB) = blob"
      using assms(9) by (simp add: state_simps m5_def)
    have "rd_sint ?m 4 (b + MH_RECORD_SIZE) = rd_sint m5 4 (b + MH_RECORD_SIZE)"
      by (rule same_reads(2) [OF so]) (rule box_part [OF box], simp)
    then show "ri (set_mm ?m (wp (b + MB_BLOB) blob st4)) (b + MH_RECORD_SIZE) = int (length bs)"
      using assms(4) by (simp add: state_simps m5_def st3_def rd_sint_other rd_sint_wr_int)
    show "mem_bytes (mm (set_mm ?m (wp (b + MB_BLOB) blob st4))) blob (length bs) = bs" by (simp add: state_simps)
  qed
qed

text \<open>A map whose record part is the value of a blob, behind a head.\<close>

definition blob_message :: "jval \<Rightarrow> byte list \<Rightarrow> jmems \<Rightarrow> jval" where
  "blob_message hv bs ms = VNode False (MCons (ascii ''HEAD'') hv (MCons (ascii ''RECORD'') (blob_value bs) ms))"

lemma read_record_part_blob:
  assumes "jrep (jnode h) root (blob_message hv bs ms) True" "length bs \<le> 382"
    and "coming st 0 = Some buf" "buf \<noteq> 0" "coming st 1 = Some blob" "blob \<noteq> 0" "blob < 2 ^ 64"
    and "{b..<b + 288} \<inter> ({buf..<buf + 4096} \<union> {blob..<blob + length bs}) = {}"
  obtains st' h' where "read_json_record_part b root (st, h) = Some ((st', h'), 0)" "rp st' (b + MB_BLOB) = blob"
    "ri st' (b + MH_RECORD_SIZE) = int (length bs)" "mem_bytes (mm st') blob (length bs) = bs"
proof -
  let ?x = "root + 1 + nodes hv"
  have map: "json_get_type h (Some root) = JSON_ELEM_MAP" using assms(1) by (simp add: blob_message_def json_get_type_def)
  obtain h1 where h1: "json_find_elem (ascii ''RECORD'') h root
      = Some (h1, find (\<lambda>c. strneq DIGEST_SIZE (ascii ''RECORD'') (jname (jnode h c))) (childlist (jnode h root)))"
    "walked {root} h h1" by (rule find_elem_map [OF map])
  have ne: "\<not> strneq DIGEST_SIZE (ascii ''RECORD'') (ascii ''HEAD'')" by code_simp
  have names: "jname (jnode h (Suc root)) = ascii ''HEAD''" "jname (jnode h ?x) = ascii ''RECORD''"
    using assms(1) by (simp_all add: blob_message_def)
  have "childlist (jnode h root) = (root + 1) # ?x # kids (?x + nodes (blob_value bs)) ms"
    using assms(1) by (simp add: blob_message_def)
  then have found: "find_either ''RECORD'' ''record'' (Some root) h = Some (h1, Some ?x)"
    using h1(1) ne names by (simp add: find_either_def find_in_def strneq_same)
  have r1: "jrep (jnode h1) ?x (blob_value bs) False" using assms(1) walked_jrep [OF h1(2)] by (simp add: blob_message_def)
  let ?h2 = "upd_node ?x (\<lambda>n. n\<lparr>curr_child := Some 0\<rparr>) h1"
  have first: "json_get_first_child h1 ?x = (?h2, Some (Suc ?x))"
    using r1 by (simp add: json_get_first_child_def blob_value_def)
  have "jname (jnode ?h2 (Suc ?x)) = ascii ''BIN_FORMAT''" "elem_type (jnode ?h2 (Suc ?x)) = JSON_ELEM_STRING"
      "value_str (jnode ?h2 (Suc ?x)) = Some (radix64_text bs)"
    using r1 by (simp_all add: blob_value_def fun_upd_apply)
  then obtain st' where st': "read_bin_format b (Suc ?x) (st, ?h2) = Some ((st', ?h2), 0)" "rp st' (b + MB_BLOB) = blob"
      "ri st' (b + MH_RECORD_SIZE) = int (length bs)" "mem_bytes (mm st') blob (length bs) = bs"
    using read_bin_format_blob [where h = ?h2 and c = "Suc ?x" and st = st and b = b] assms(2-8) by blast
  have "json_get_type ?h2 (Some ?x) = JSON_ELEM_MAP" using r1 by (simp add: json_get_type_def blob_value_def fun_upd_apply)
  then have "read_json_record_part b root (st, h) = Some ((st', ?h2), 0)"
    using found first st'(1) by (simp add: read_json_record_part_def json_first_def)
  then show thesis by (rule that) (use st' in simp_all)
qed

text \<open>(C16) (C16)
  The blob of a message without a record template survives its way through JSON. The record part that
  \<open>message_output_json\<close> writes is the text of the blob, and when a map with this record part is parsed, whatever its head
  and its other members are, \<open>json_2_message\<close> gives the new message a blob with the same bytes and the same size. The
  blob may have 382 bytes, whose code fills the string buffer of the parser.
\<close>

theorem message_blob_json_roundtrip:
  assumes "rp st (b + MB_RECORD_TEMPLATE) = 0" "rp st (b + MB_BLOB) = q" "q \<noteq> 0" "ri st (b + MH_RECORD_SIZE) = int n"
    and "bs = mem_bytes (mm st) q n" "n \<le> 382" "0 \<le> offset" "a = adr_plus txt offset" "L = length (blob_text bs)"
    and "({b..<b + 288} \<union> {q..<q + n}) \<inter> ({a..<a + L} \<union> {buffer..<buffer + 15}) = {}"
    and "wf_val False hv" "wf_mems False ms" "s = render (blob_message hv bs ms)"
    and "coming st' 0 = Some buf" "buf \<noteq> 0" "coming st' 1 = Some blob" "blob \<noteq> 0" "blob < 2 ^ 64"
    and "{b'..<b' + 288} \<inter> ({buf..<buf + 4096} \<union> {blob..<blob + n}) = {}" and "\<forall>k. jmalloc h k"
  shows "\<exists>st1 h1 st2 h2. json_record_part clone b buffer txt offset st = Some (st1, Inr (offset + int L))
    \<and> mem_bytes (mm st1) a L = blob_text bs
    \<and> json_solve_str h s = Solved h1 (length s)
    \<and> read_json_record_part b' (jnext h) (st', h1) = Some ((st2, h2), 0)
    \<and> rp st2 (b' + MB_BLOB) = blob \<and> ri st2 (b' + MH_RECORD_SIZE) = int n \<and> mem_bytes (mm st2) blob n = bs"
proof -
  have n: "length bs = n" using assms(5) by simp
  obtain st1 where st1: "json_record_part clone b buffer txt offset st = Some (st1, Inr (offset + int L))"
      "mem_bytes (mm st1) a L = blob_text bs" by (rule record_part_blob [OF assms(1-5,7-10)])
  have "wf_mems False (MCons (ascii ''HEAD'') hv (MCons (ascii ''RECORD'') (blob_value bs) ms))"
    using assms(6,11,12) wf_blob_value [of bs] n by (simp add: plain_def ascii_def)
  from json_solve_text [OF this, of h "[]"] assms(20) obtain h1 where h1: "json_solve_str h s = Solved h1 (length s)"
      "jrep (jnode h1) (jnext h) (blob_message hv bs ms) True" unfolding assms(13) blob_message_def jok_def by auto
  obtain st2 h2 where "read_json_record_part b' (jnext h) (st', h1) = Some ((st2, h2), 0)" "rp st2 (b' + MB_BLOB) = blob"
      "ri st2 (b' + MH_RECORD_SIZE) = int n" "mem_bytes (mm st2) blob n = bs"
    using read_record_part_blob [OF h1(2), of st' buf blob b'] assms(6,14-19) n by blast
  with st1 h1(1) show ?thesis by blast
qed

text \<open>A message at 1000 whose blob at 3000 has three bytes, and a state whose \<^verbatim>\<open>malloc\<close> hands out blocks 8000 apart.\<close>

definition blob_mem :: mem where
  "blob_mem = (\<lambda>_. 0)(1136 := 3, 1252 := 184, 1253 := 11, 3000 := 1, 3001 := 2, 3002 := 3)"

definition blob_reader :: mstate where
  "blob_reader = (let st = msg_example (\<lambda>_. 0); db = ms_db st
     in st\<lparr>ms_db := db\<lparr>db_es := (db_es db)\<lparr>es_malloc := (\<lambda>i. Some (10000 + 8000 * i))\<rparr>\<rparr>\<rparr>)"

lemma blob_mem_values:
  "get_ptr blob_mem 1188 = 0" "get_ptr blob_mem 1252 = 3000" "rd_sint blob_mem 4 1136 = 3" "mem_bytes blob_mem 3000 3 = [1, 2, 3]"
  by (simp_all add: blob_mem_def get_ptr_bytes rd_sint_def rd_uint_4 fun_upd_apply mem_bytes_def upt_rec)

lemma blob_reader_blocks: "coming blob_reader k = Some (10000 + 8000 * k)"
  by (simp add: coming_def blob_reader_def msg_example_def db_example_def Let_def)

theorem message_blob_json_roundtrip_witness:
  "\<exists>st1 h1 st2 h2. json_record_part False 1000 50000 40000 10 (msg_example blob_mem) = Some (st1, Inr 31)
    \<and> mem_bytes (mm st1) 40010 21 = blob_text [1, 2, 3]
    \<and> json_solve_str \<lparr>jnode = \<lambda>_. empty_node, jnext = 3, jmalloc = \<lambda>_. True\<rparr> (render (blob_message (VNode False MNil) [1, 2, 3] MNil)) = Solved h1 42
    \<and> read_json_record_part 1000 3 (blob_reader, h1) = Some ((st2, h2), 0)
    \<and> rp st2 1252 = 18000 \<and> ri st2 1136 = 3 \<and> mem_bytes (mm st2) 18000 3 = [1, 2, 3]"
proof -
  have len: "length (blob_text [1, 2, 3]) = 21" by (simp add: blob_text_parts length_bin_text)
  have all: "length (render (blob_message (VNode False MNil) [1, 2, 3] MNil)) = 42" by code_simp
  show ?thesis
    using message_blob_json_roundtrip [of "msg_example blob_mem" 1000 3000 3 "[1, 2, 3]" 10 40010 40000 21 50000
        "VNode False MNil" MNil "render (blob_message (VNode False MNil) [1, 2, 3] MNil)" blob_reader 10000 18000 1000
        "\<lparr>jnode = \<lambda>_. empty_node, jnext = 3, jmalloc = \<lambda>_. True\<rparr>" False]
    by (simp add: msg_example_simps blob_mem_values blob_reader_blocks len all adr_plus_def Int_Un_distrib Int_Un_distrib2)
qed

end
