(* ===== verification/Cube_Route.thy ===== *)
theory Cube_Route
  imports Cube_Message_Read Cube_List
begin

text \<open>
  Policies and routes, \<^verbatim>\<open>cubelib/dispatch/route_tree.c\<close>. The structures lie in the byte memory: a \<^verbatim>\<open>ROUTE_PATH\<close> has the name at 0,
  the sender at 32, ljump 64, rjump 68, state 72, flow 76 and its three lists at 88, 128 and 168. The links and records of the
  lists are in a heap of list nodes with the same addresses, as a \<^verbatim>\<open>Record_List\<close> begins with its links; the other
  fields of a \<^verbatim>\<open>NODE_LIST\<close>, policy_num at 28 and curr at 32, are in the memory. Where the code follows
  \<^verbatim>\<open>NULL\<close> or a value it has not set there is no result.
\<close>

section \<open>The state\<close>

text \<open>The addresses of the static lists, of which \<open>rt_hash\<close> begins an array of 256, and the three templates.\<close>

record rstate =
  rt_ms :: mstate
  rt_heap :: "nat lheap"
  rt_route_forest :: nat
  rt_aspect_forest :: nat
  rt_waiting :: nat
  rt_hash :: nat
  rt_policy_template :: nat
  rt_match_template :: nat
  rt_rule_template :: nat

abbreviation rmm :: "rstate \<Rightarrow> mem" where "rmm st \<equiv> mm (rt_ms st)"
abbreviation qi :: "rstate \<Rightarrow> nat \<Rightarrow> int" where "qi st a \<equiv> rd_sint (rmm st) 4 a"
abbreviation qp :: "rstate \<Rightarrow> nat \<Rightarrow> nat" where "qp st a \<equiv> get_ptr (rmm st) a"

definition rup :: "(mstate \<Rightarrow> mstate) \<Rightarrow> rstate \<Rightarrow> rstate" where "rup f st = st\<lparr>rt_ms := f (rt_ms st)\<rparr>"
definition hup :: "(nat lheap \<Rightarrow> nat lheap) \<Rightarrow> rstate \<Rightarrow> rstate" where "hup f st = st\<lparr>rt_heap := f (rt_heap st)\<rparr>"

definition rpair :: "(mstate \<Rightarrow> mstate \<times> 'a) \<Rightarrow> rstate \<Rightarrow> rstate \<times> 'a" where
  "rpair f st = (let (ms, r) = f (rt_ms st) in (st\<lparr>rt_ms := ms\<rparr>, r))"

definition ropt :: "(mstate \<Rightarrow> (mstate \<times> 'a) option) \<Rightarrow> rstate \<Rightarrow> (rstate \<times> 'a) option" where
  "ropt f st = do { (ms, r) \<leftarrow> f (rt_ms st); Some (st\<lparr>rt_ms := ms\<rparr>, r) }"

definition r_strncpy :: "nat \<Rightarrow> nat \<Rightarrow> int \<Rightarrow> rstate \<Rightarrow> rstate option" where
  "r_strncpy dest src n st =
     (if dest = 0 \<or> src = 0 then None else do { (m, _) \<leftarrow> Strncpy (rmm st) dest src n; Some (rup (set_mm m) st) })"

abbreviation (input) NL_NUM :: nat where "NL_NUM \<equiv> 28"
abbreviation (input) NL_CURR :: nat where "NL_CURR \<equiv> 32"
abbreviation (input) RP_SENDER :: nat where "RP_SENDER \<equiv> 32"
abbreviation (input) RP_LJUMP :: nat where "RP_LJUMP \<equiv> 64"
abbreviation (input) RP_RJUMP :: nat where "RP_RJUMP \<equiv> 68"
abbreviation (input) RP_STATE :: nat where "RP_STATE \<equiv> 72"
abbreviation (input) RP_FLOW :: nat where "RP_FLOW \<equiv> 76"
abbreviation (input) RP_MATCH :: nat where "RP_MATCH \<equiv> 88"
abbreviation (input) RP_ROUTE :: nat where "RP_ROUTE \<equiv> 128"
abbreviation (input) RP_RESPONSE :: nat where "RP_RESPONSE \<equiv> 168"
abbreviation (input) MSG_FLAG_LOCAL :: int where "MSG_FLAG_LOCAL \<equiv> 1"
abbreviation (input) MSG_FLAG_FOLLOW :: int where "MSG_FLAG_FOLLOW \<equiv> 0x100"
abbreviation (input) MSG_FLAG_ASPECT :: int where "MSG_FLAG_ASPECT \<equiv> 0x200"
abbreviation (input) MSG_FLOW_QUERY :: int where "MSG_FLOW_QUERY \<equiv> 8"
abbreviation (input) MSG_FLOW_DUP :: int where "MSG_FLOW_DUP \<equiv> 0x20"
abbreviation (input) MSG_FLOW_ASPECT :: int where "MSG_FLOW_ASPECT \<equiv> 0x40"
abbreviation (input) MSG_FLOW_FINISH :: int where "MSG_FLOW_FINISH \<equiv> 0x8000"
abbreviation (input) MSG_STATE_MATCH :: int where "MSG_STATE_MATCH \<equiv> 1"
abbreviation (input) MSG_STATE_RESPONSE :: int where "MSG_STATE_RESPONSE \<equiv> 0x40"
abbreviation (input) POLICY_CLOSE :: int where "POLICY_CLOSE \<equiv> 2"
abbreviation (input) POLICY_IGNORE :: int where "POLICY_IGNORE \<equiv> 5"
abbreviation (input) enomem_ptr :: nat where "enomem_ptr \<equiv> 2 ^ 64 - 12"

section \<open>Node lists\<close>

definition hash_index :: "mem \<Rightarrow> nat \<Rightarrow> nat" where "hash_index m uuid = unat (get32 m uuid AND 0xff)"

definition hash_list :: "rstate \<Rightarrow> nat \<Rightarrow> nat" where "hash_list st uuid = rt_hash st + 40 * hash_index (rmm st) uuid"

definition tracenode_comp_uuid :: "rstate \<Rightarrow> nat \<Rightarrow> nat \<Rightarrow> int" where
  "tracenode_comp_uuid st head uuid =
     (if head = 0 then - EINVAL
      else let trace_node = rcd (rt_heap st) head
           in if trace_node = 0 then - EINVAL else Memcmp (rmm st) trace_node uuid 32)"

definition init_node_list :: "nat \<Rightarrow> rstate \<Rightarrow> rstate" where
  "init_node_list a st =
     rup (wi (a + NL_NUM) 0) (hup (\<lambda>h. set_rcd a 0 (INIT_LIST_HEAD a h)) (rup (\<lambda>ms. set_mm (fst (Memset (mm ms) a 0 40)) ms) st))"

text \<open>The new node, or \<open>0\<close>.\<close>

definition node_list_add :: "rstate \<Rightarrow> nat \<Rightarrow> nat \<Rightarrow> rstate \<times> nat" where
  "node_list_add st list rec =
     (if list = 0 then (st, 0)
      else
        let (st1, p) = rpair (m_dalloc0 24 0) st
        in if p = 0 then (st1, 0)
           else
             let st2 = hup (\<lambda>h. List_add_tail p list (set_rcd p rec (INIT_LIST_HEAD p h))) st1
             in (rup (wi (list + NL_NUM) (qi st2 (list + NL_NUM) + 1)) st2, p))"

definition node_list_del :: "rstate \<Rightarrow> nat \<Rightarrow> rstate" where "node_list_del st rec = hup (List_del rec) st"

definition node_list_getfirst :: "rstate \<Rightarrow> nat \<Rightarrow> rstate \<times> nat" where
  "node_list_getfirst st list = (let c = nxt (rt_heap st) list in (rup (wp (list + NL_CURR) c) st, c))"

definition node_list_getnext :: "rstate \<Rightarrow> nat \<Rightarrow> (rstate \<times> nat) option" where
  "node_list_getnext st list =
     (let cur = qp st (list + NL_CURR)
      in if cur = 0 then None
         else if nxt (rt_heap st) cur = list then Some (rup (wp (list + NL_CURR) 0) st, 0)
         else let c = nxt (rt_heap st) cur in Some (rup (wp (list + NL_CURR) c) st, c))"

definition init_hash_forest :: "rstate \<Rightarrow> rstate" where
  "init_hash_forest st = fold (\<lambda>i. init_node_list (rt_hash st + 40 * i)) [0..<256] st"

definition router_tree_init :: "rstate \<Rightarrow> (rstate \<times> int) option" where
  "router_tree_init st =
     do { let st1 = init_node_list (rt_waiting st) (init_node_list (rt_aspect_forest st) (init_node_list (rt_route_forest st) st));
          let st2 = init_hash_forest st1;
          (st3, p) \<leftarrow> ropt (get_template 0x210 1) st2;
          (st4, m) \<leftarrow> ropt (get_template 0x210 2) (st3\<lparr>rt_policy_template := p\<rparr>);
          (st5, r) \<leftarrow> ropt (get_template 0x210 3) (st4\<lparr>rt_match_template := m\<rparr>);
          Some (st5\<lparr>rt_rule_template := r\<rparr>, 0) }"

section \<open>Paths and their rules\<close>

definition route_path_getname :: "rstate \<Rightarrow> nat \<Rightarrow> (rstate \<times> nat) option" where
  "route_path_getname st path =
     (if path = 0 then Some (st, 0)
      else
        let namelen = int (Strnlen (rmm st) path 32); (st1, t) = rpair (m_talloc0 (namelen + 1)) st
        in if t = 0 then None else do { st2 \<leftarrow> r_strncpy t path namelen st1; Some (st2, t) })"

definition route_path_create :: "rstate \<Rightarrow> rstate \<times> nat" where
  "route_path_create st =
     (let (st1, p) = rpair (m_dalloc0 208 0) st
      in if p = 0 then (st1, 0)
         else (init_node_list (p + RP_RESPONSE) (init_node_list (p + RP_ROUTE) (init_node_list (p + RP_MATCH) st1)), p))"

text \<open>A \<^verbatim>\<open>ROUTE_NODE\<close>: its path at 0, the target rule at 12, its list node at 24 and the branches at 32.\<close>

definition route_node_create :: "rstate \<Rightarrow> nat \<Rightarrow> (rstate \<times> nat) option" where
  "route_node_create st rule =
     (let (st1, p) = rpair (m_dalloc0 72 0) st
      in if p = 0 then Some (st1, 0)
         else do {
           (st2, r) \<leftarrow> (if rule = 0 then Some (st1, 0) else ropt (m_struct_clone rule (p + 12) (rt_rule_template st1)) st1);
           if r < 0 then Some (st2, 0) else Some (init_node_list (p + 32) st2, p) })"

fun nxt_times :: "nat lheap \<Rightarrow> nat \<Rightarrow> nat \<Rightarrow> nat" where
  "nxt_times h cur 0 = cur"
| "nxt_times h cur (Suc k) = nxt_times h (nxt h cur) k"

text \<open>The node is stored behind the pointer only when the list is long enough.\<close>

definition route_get_node_byjump :: "rstate \<Rightarrow> nat \<Rightarrow> int \<Rightarrow> int \<Rightarrow> int \<times> nat option" where
  "route_get_node_byjump st path ljump rjump =
     (let node_path = path + (if rjump \<ge> 0 then RP_ROUTE else RP_RESPONSE)
      in if qi st (node_path + NL_NUM) < ljump then (0, None)
         else let node = rcd (rt_heap st) (nxt_times (rt_heap st) node_path (nat ljump))
              in (if node \<noteq> 0 then 1 else 0, Some node))"

text \<open>The first and the next record of a list; the head of the list has the record \<^verbatim>\<open>NULL\<close>.\<close>

definition policy_getfirst :: "rstate \<Rightarrow> nat \<Rightarrow> rstate \<times> int \<times> nat" where
  "policy_getfirst st list = (let c = nxt (rt_heap st) list in (rup (wp (list + NL_CURR) c) st, 0, rcd (rt_heap st) c))"

definition policy_getnext :: "rstate \<Rightarrow> nat \<Rightarrow> nat \<Rightarrow> rstate \<times> int \<times> nat" where
  "policy_getnext st list old =
     (let cur = qp st (list + NL_CURR)
      in if cur = 0 then (st, - EINVAL, old)
         else if cur = list then (st, 0, 0)
         else let c = nxt (rt_heap st) cur in (rup (wp (list + NL_CURR) c) st, 0, rcd (rt_heap st) c))"

definition dispatch_policy_getfirst :: "rstate \<Rightarrow> rstate \<times> int \<times> nat" where
  "dispatch_policy_getfirst st = policy_getfirst st (rt_route_forest st)"
definition dispatch_policy_getnext :: "rstate \<Rightarrow> nat \<Rightarrow> rstate \<times> int \<times> nat" where
  "dispatch_policy_getnext st old = policy_getnext st (rt_route_forest st) old"
definition dispatch_policy_getfirstmatchrule :: "rstate \<Rightarrow> nat \<Rightarrow> rstate \<times> int \<times> nat" where
  "dispatch_policy_getfirstmatchrule st path = policy_getfirst st (path + RP_MATCH)"
definition dispatch_policy_getfirstrouterule :: "rstate \<Rightarrow> nat \<Rightarrow> rstate \<times> int \<times> nat" where
  "dispatch_policy_getfirstrouterule st path = policy_getfirst st (path + RP_ROUTE)"
definition route_policy_getnextmatchrule :: "rstate \<Rightarrow> nat \<Rightarrow> nat \<Rightarrow> rstate \<times> int \<times> nat" where
  "route_policy_getnextmatchrule st path old = policy_getnext st (path + RP_MATCH) old"
definition route_policy_getnextrouterule :: "rstate \<Rightarrow> nat \<Rightarrow> nat \<Rightarrow> rstate \<times> int \<times> nat" where
  "route_policy_getnextrouterule st path old = policy_getnext st (path + RP_ROUTE) old"

definition route_policy_addmatchrule :: "rstate \<Rightarrow> nat \<Rightarrow> nat \<Rightarrow> rstate \<times> int" where
  "route_policy_addmatchrule st path rule =
     (let (st1, p) = node_list_add st (path + RP_MATCH) rule in (st1, if p = 0 then 0 else 1))"

definition add_route_node :: "rstate \<Rightarrow> nat \<Rightarrow> nat \<Rightarrow> nat \<Rightarrow> (rstate \<times> int) option" where
  "add_route_node st path list rule =
     (if rule = 0 then Some (st, 0)
      else do {
        (st1, node) \<leftarrow> route_node_create st rule;
        if node = 0 then Some (st1, - EINVAL)
        else
          let (st2, rec) = node_list_add (rup (wp node path) st1) list node
          in if rec = 0 then Some (st2, 0) else Some (rup (wp (node + 24) rec) st2, 1) })"

definition route_policy_addrouterule :: "rstate \<Rightarrow> nat \<Rightarrow> nat \<Rightarrow> (rstate \<times> int) option" where
  "route_policy_addrouterule st path rule = add_route_node st path (path + RP_ROUTE) rule"
definition route_tree_addresponserule :: "rstate \<Rightarrow> nat \<Rightarrow> nat \<Rightarrow> (rstate \<times> int) option" where
  "route_tree_addresponserule st path rule = add_route_node st path (path + RP_RESPONSE) rule"

text \<open>\<^verbatim>\<open>route_add_policy\<close> returns the address of the new list node as an \<^verbatim>\<open>int\<close>, cut to 32 bits.\<close>

definition ptr_to_int :: "nat \<Rightarrow> int" where "ptr_to_int p = wrap32 (int p)"

definition route_add_policy_to :: "rstate \<Rightarrow> nat \<Rightarrow> nat \<Rightarrow> rstate \<times> int" where
  "route_add_policy_to st list policy = (let (st1, p) = node_list_add st list policy in (st1, if p = 0 then 0 else 1))"
definition route_add_policy :: "rstate \<Rightarrow> nat \<Rightarrow> rstate \<times> int" where
  "route_add_policy st policy = apsnd ptr_to_int (node_list_add st (rt_route_forest st) policy)"

definition route_path_getstate :: "rstate \<Rightarrow> nat \<Rightarrow> int" where
  "route_path_getstate st path = (if path = 0 then - EINVAL else qi st (path + RP_STATE))"

section \<open>Waiting messages\<close>

definition waiting_message_add :: "rstate \<Rightarrow> nat \<Rightarrow> rstate \<times> int" where
  "waiting_message_add st msg = (let (st1, p) = node_list_add st (rt_waiting st) msg in (st1, if p = 0 then 0 else 1))"

definition waiting_message_del :: "rstate \<Rightarrow> nat \<Rightarrow> rstate" where
  "waiting_message_del st rec =
     (let st1 = node_list_del st rec in rup (wi (rt_waiting st + NL_NUM) (qi st1 (rt_waiting st + NL_NUM) - 1)) st1)"

definition waiting_message_getfirst :: "rstate \<Rightarrow> rstate \<times> nat" where
  "waiting_message_getfirst st =
     (let r = nxt (rt_heap st) (rt_waiting st)
      in (rup (wp (rt_waiting st + NL_CURR) r) st, if r = 0 then 0 else rcd (rt_heap st) r))"

definition waiting_message_removehead :: "rstate \<Rightarrow> rstate \<times> nat" where
  "waiting_message_removehead st =
     (if qi st (rt_waiting st + NL_NUM) = 0 then (st, 0)
      else
        let r = nxt (rt_heap st) (rt_waiting st); st1 = rup (wp (rt_waiting st + NL_CURR) r) st
        in if r = 0 then (st1, 0) else (waiting_message_del st1 r, rcd (rt_heap st1) r))"

definition waiting_message_getnext :: "rstate \<Rightarrow> rstate \<times> nat" where
  "waiting_message_getnext st =
     (let r = qp st (rt_waiting st + NL_CURR)
      in if r = 0 then (st, 0)
         else
           let st1 = rup (wp (rt_waiting st + NL_CURR) (nxt (rt_heap st) r)) st;
               st2 = waiting_message_del st1 r; c = qp st2 (rt_waiting st + NL_CURR)
           in (st2, if c = 0 then 0 else rcd (rt_heap st2) c))"

section \<open>Matching a message against a policy\<close>

definition route_match_sender :: "rstate \<Rightarrow> nat \<Rightarrow> nat \<Rightarrow> int" where
  "route_match_sender st path sender =
     (if path = 0 then 0 else if Strncmp (rmm st) (path + RP_SENDER) sender 32 \<noteq> 0 then 0 else 1)"

definition route_match_message_jump :: "rstate \<Rightarrow> nat \<Rightarrow> nat \<Rightarrow> int" where
  "route_match_message_jump st path msg =
     (if path = 0 then 0
      else if (qi st (path + RP_RJUMP) = 0 \<or> qi st (path + RP_RJUMP) = qi st (msg + MH_RJUMP))
        \<and> (qi st (path + RP_LJUMP) = 0 \<or> qi st (path + RP_LJUMP) = qi st (msg + MH_LJUMP)) then 1 else 0)"

text \<open>
  A \<^verbatim>\<open>MATCH_RULE\<close>: operator 0, area 4, type 8, subtype 12, template 32, value 40. A rule on the head that agrees in the type but
  not in the subtype leaves the result of the rule before.
\<close>

definition head_result :: "mem \<Rightarrow> nat \<Rightarrow> nat \<Rightarrow> int \<Rightarrow> int" where
  "head_result m msg rule result =
     (let type = rd_sint m 4 (rule + 8); subtype = rd_sint m 4 (rule + 12)
      in if type = 0 then 1
         else if type = rd_sint m 4 (msg + MH_TYPE) then
           (if subtype = 0 then 1 else if subtype = rd_sint m 4 (msg + MH_SUBTYPE) then 1 else result)
         else 0)"

definition same_value :: "nat \<Rightarrow> nat \<Rightarrow> nat \<Rightarrow> rstate \<Rightarrow> (rstate \<times> int) option" where
  "same_value val data t st =
     (if val = 0 \<or> data = 0 then None
      else map_option (apsnd (\<lambda>c. if c = 0 then 1 else 0))
        (ropt (on_struct (\<lambda>es. struct_part_compare es val data (t - 1) 0x10000000)) st))"

definition record_result :: "rstate \<Rightarrow> nat \<Rightarrow> nat \<Rightarrow> (rstate \<times> int) option" where
  "record_result st msg rule =
     (let type = qi st (rule + 8); subtype = qi st (rule + 12); t = qp st (rule + 32)
      in if type = 0 then Some (st, 1)
         else if type \<noteq> qi st (msg + MH_TYPE) \<or> subtype \<noteq> qi st (msg + MH_SUBTYPE) then Some (st, 0)
         else if t = 0 then Some (st, 1)
         else do {
           (ms, r, rec) \<leftarrow> message_get_record (rt_ms st) msg 0;
           let st1 = st\<lparr>rt_ms := ms\<rparr>;
           if r < 0 then Some (st1, r)
           else case rec of None \<Rightarrow> None | Some a \<Rightarrow> if a = 0 then Some (st1, 0) else same_value (qp st1 (rule + 40)) a t st1 })"

definition expand_result :: "rstate \<Rightarrow> nat \<Rightarrow> nat \<Rightarrow> (rstate \<times> int) option" where
  "expand_result st msg rule =
     (case snd (message_get_define_expand (rt_ms st) msg (qi st (rule + 8)) (qi st (rule + 12))) of
        None \<Rightarrow> None
      | Some e \<Rightarrow>
          if e = 0 then Some (st, 0)
          else if qp st (rule + 40) = 0 then Some (st, 1)
          else if qp st (rule + 32) = 0 then Some (st, 0)
          else same_value (qp st (rule + 40)) (ex_expand (rmm st) e) (qp st (rule + 32)) st)"

definition rule_result :: "rstate \<Rightarrow> nat \<Rightarrow> nat \<Rightarrow> int \<Rightarrow> (rstate \<times> int) option" where
  "rule_result st msg rule result =
     (let area = qi st (rule + 4)
      in if area = 0 \<or> area = 2 then Some (st, head_result (rmm st) msg rule result)
         else if area = 4 then record_result st msg rule
         else if area = 8 then expand_result st msg rule
         else Some (st, 0))"

text \<open>The switch over the operators: a returned value, or the new intermediate result.\<close>

definition rule_switch :: "int \<Rightarrow> int \<Rightarrow> int \<Rightarrow> int + int" where
  "rule_switch op result prev =
     (if op = 1 then (if result = 0 then Inl result else Inr 1)
      else if op = 2 then (if result > 0 then Inl result else Inr prev)
      else if op = 3 then (if result > 0 then Inl 0 else Inr 1)
      else if op = 4 then (if result = 0 then Inl 1 else Inr prev)
      else Inl (- EINVAL))"

partial_function (option) rules_loop :: "nat \<Rightarrow> nat \<Rightarrow> nat \<Rightarrow> int \<Rightarrow> int \<Rightarrow> int \<Rightarrow> rstate \<Rightarrow> (rstate \<times> int) option" where
  "rules_loop path msg rule result prev num st =
     (if rule = 0 then Some (st, if num = 0 then 0 else prev)
      else Option.bind (rule_result st msg rule result)
        (\<lambda>(st1, r).
           if r < 0 then Some (st1, r)
           else case rule_switch (qi st1 rule) r prev of
                  Inl x \<Rightarrow> Some (st1, x)
                | Inr prev1 \<Rightarrow>
                    (case route_policy_getnextmatchrule st1 path rule of
                       (st2, ret, next) \<Rightarrow>
                         if ret < 0 then Some (st2, ret) else rules_loop path msg next r prev1 (num + 1) st2)))"

definition route_match_rules :: "rstate \<Rightarrow> nat \<Rightarrow> nat \<Rightarrow> (rstate \<times> int) option" where
  "route_match_rules st path msg =
     (if msg = 0 then Some (st, - EINVAL)
      else if path = 0 then None
      else if qi st (path + RP_RJUMP) \<noteq> 0 \<and> qi st (path + RP_RJUMP) \<noteq> qi st (msg + MH_RJUMP) then Some (st, - EINVAL)
      else
        let (st1, ret, rule) = dispatch_policy_getfirstmatchrule st path
        in if ret < 0 then Some (st1, ret) else rules_loop path msg rule 0 0 0 st1)"

definition route_match_message :: "rstate \<Rightarrow> nat \<Rightarrow> nat \<Rightarrow> (rstate \<times> int) option" where
  "route_match_message st path msg =
     (if msg = 0 then Some (st, - EINVAL)
      else if path = 0 then None
      else if rmm st (msg + MH_ROUTE) \<noteq> 0 \<and> Strncmp (rmm st) path (msg + MH_ROUTE) 32 \<noteq> 0 then Some (st, 0)
      else
        let (st1, ret, rule) = dispatch_policy_getfirstmatchrule st path
        in if ret < 0 then Some (st1, ret) else rules_loop path msg rule 0 0 0 st1)"

definition route_match_aspect_branch :: "rstate \<Rightarrow> nat \<Rightarrow> nat \<Rightarrow> (rstate \<times> int) option" where
  "route_match_aspect_branch st msg branch = (if branch = 0 then None else route_match_rules st (qp st (branch + 16)) msg)"

text \<open>The test of one policy: the code to stop with, or \<open>None\<close> to go on.\<close>

definition test_policy :: "rstate \<Rightarrow> nat \<Rightarrow> nat \<Rightarrow> (rstate \<times> int option) option" where
  "test_policy st msg policy =
     (if qi st (policy + RP_STATE) = POLICY_CLOSE \<or> qi st (policy + RP_STATE) = POLICY_IGNORE then Some (st, None)
      else if route_match_sender st policy (msg + MH_SENDER) > 0 \<and> route_match_message_jump st policy msg > 0 then
        map_option (apsnd (\<lambda>r. if r = 0 then None else Some r)) (route_match_message st policy msg)
      else Some (st, None))"

text \<open>The first policy, in the order of the list, that is open and matches; the result is the code and the policy found.\<close>

partial_function (option) find_policy_loop :: "nat \<Rightarrow> int \<Rightarrow> nat \<Rightarrow> rstate \<Rightarrow> (rstate \<times> int \<times> nat) option" where
  "find_policy_loop msg ret policy st =
     (if policy = 0 then Some (st, ret, 0)
      else Option.bind (test_policy st msg policy)
        (\<lambda>(st1, res).
           case res of
             Some r \<Rightarrow> Some (st1, r, if r > 0 then policy else 0)
           | None \<Rightarrow>
               (case dispatch_policy_getnext st1 policy of
                  (st2, r, p) \<Rightarrow> if r < 0 then Some (st2, r, 0) else find_policy_loop msg r p st2)))"

definition router_find_route_policy :: "rstate \<Rightarrow> nat \<Rightarrow> (rstate \<times> int \<times> nat) option" where
  "router_find_route_policy st msg =
     (let (st1, ret, policy) = dispatch_policy_getfirst st
      in if ret < 0 then Some (st1, ret, 0)
         else if msg = 0 then Some (st1, - EINVAL, 0)
         else find_policy_loop msg ret policy st1)"

text \<open>Without a policy of the name the function ends without a return value, here \<open>None\<close> as its code.\<close>

definition name_matches :: "mem \<Rightarrow> nat \<Rightarrow> nat \<Rightarrow> int \<Rightarrow> int \<Rightarrow> bool" where
  "name_matches m policy name rjump ljump \<longleftrightarrow>
     Strncmp m name policy 32 = 0
     \<and> rd_sint m 4 (policy + RP_RJUMP) \<in> {0, rjump, - rjump}
     \<and> (ljump = 0 \<or> rd_sint m 4 (policy + RP_LJUMP) \<in> {0, ljump})"

partial_function (option) find_name_policy :: "nat \<Rightarrow> int \<Rightarrow> int \<Rightarrow> nat \<Rightarrow> rstate \<Rightarrow> (rstate \<times> int option \<times> nat) option" where
  "find_name_policy name rjump ljump policy st =
     (if policy = 0 then Some (st, None, 0)
      else if name_matches (rmm st) policy name rjump ljump then Some (st, Some 0, policy)
      else case dispatch_policy_getnext st policy of (st1, _, p) \<Rightarrow> find_name_policy name rjump ljump p st1)"

definition router_find_policy_byname :: "rstate \<Rightarrow> nat \<Rightarrow> int \<Rightarrow> int \<Rightarrow> (rstate \<times> int option \<times> nat) option" where
  "router_find_policy_byname st name rjump ljump =
     (let (st1, ret, policy) = dispatch_policy_getfirst st
      in if ret < 0 then Some (st1, Some ret, 0) else find_name_policy name rjump ljump policy st1)"

section \<open>The site of a message on its route\<close>

definition get_curr_pathsite :: "rstate \<Rightarrow> nat \<Rightarrow> nat" where
  "get_curr_pathsite st msg = (let c = qp st (msg + MB_PATH_SITE) in if c = 0 then 0 else rcd (rt_heap st) c)"

definition set_next_pathsite :: "rstate \<Rightarrow> nat \<Rightarrow> rstate \<times> nat" where
  "set_next_pathsite st msg =
     (let c = qp st (msg + MB_PATH_SITE); path = qp st (msg + MB_POLICY); next = nxt (rt_heap st) c
      in if c = 0 then (st, 0)
         else if next = path + RP_ROUTE then (rup (wp (msg + MB_PATH_SITE) 0) st, 0)
         else (rup (wp (msg + MB_PATH_SITE) next) st, rcd (rt_heap st) next))"

definition get_next_pathsite :: "rstate \<Rightarrow> nat \<Rightarrow> nat" where
  "get_next_pathsite st msg =
     (let c = qp st (msg + MB_PATH_SITE); path = qp st (msg + MB_POLICY); next = nxt (rt_heap st) c
      in if c = 0 then 0 else if next = path + RP_ROUTE then 0 else rcd (rt_heap st) next)"

text \<open>A \<^verbatim>\<open>TRACE_NODE\<close>: the uuid of the message 0, flag 32, source 36, target 68, path 108.\<close>

definition create_trace_node :: "rstate \<Rightarrow> nat \<Rightarrow> rstate \<times> nat" where
  "create_trace_node st msg =
     (let list = hash_list st (msg + MH_NONCE); (st1, p) = rpair (m_dalloc0 116 0) st
      in if p = 0 then (st1, 0)
         else
           let st2 = rup (mcopy p (msg + MH_NONCE) 32) st1;
               st3 = rup (mcopy (p + 36) (msg + MH_SENDER) 32) st2;
               st4 = rup (wp (p + 108) (qp st3 (msg + MB_POLICY))) st3
           in (fst (node_list_add st4 list p), p))"

text \<open>A trace is kept for a query that is not a response.\<close>

definition trace_query :: "rstate \<Rightarrow> nat \<Rightarrow> rstate \<times> int" where
  "trace_query st msg =
     (if message_get_flow (rt_ms st) msg = MSG_FLOW_QUERY \<and> qi st (msg + MH_STATE) \<noteq> MSG_STATE_RESPONSE then
        (let (st1, p) = create_trace_node st msg in (st1, if p = 0 then - EINVAL else 1))
      else (st, 1))"

definition message_route_setstart :: "rstate \<Rightarrow> nat \<Rightarrow> nat \<Rightarrow> (rstate \<times> int) option" where
  "message_route_setstart st msg path =
     (if msg = 0 \<or> path = 0 then None
      else do {
        let st1 = rup (wp (msg + MB_POLICY) path) st;
        let st2 = rup (wi (msg + MH_FLOW) (qi st1 (path + RP_FLOW))) st1;
        let st3 = rup (wi (msg + MH_STATE) MSG_STATE_MATCH) st2;
        st4 \<leftarrow> r_strncpy (msg + MH_ROUTE) path 32 st3;
        Some (trace_query (rup (wp (msg + MB_PATH_SITE) (path + RP_ROUTE)) st4) msg) })"

definition message_route_setremotestart :: "rstate \<Rightarrow> nat \<Rightarrow> (rstate \<times> int) option" where
  "message_route_setremotestart st msg =
     (if msg = 0 then None
      else do {
        (st1, ret, path) \<leftarrow> router_find_policy_byname st (msg + MH_ROUTE) (qi st (msg + MH_RJUMP)) 0;
        r \<leftarrow> ret;
        if r < 0 then Some (st1, r)
        else if path = 0 then Some (st1, 1)
        else
          let st2 = rup (wp (msg + MB_POLICY) path) st1;
              site = path + (if qi st2 (msg + MH_STATE) \<noteq> MSG_STATE_RESPONSE then RP_ROUTE else RP_RESPONSE)
          in Some (trace_query (rup (wp (msg + MB_PATH_SITE) site) st2) msg) })"

section \<open>Traces and aspects\<close>

partial_function (option) find_flowtype_node :: "rstate \<Rightarrow> nat \<Rightarrow> nat \<Rightarrow> int \<Rightarrow> nat \<Rightarrow> nat option" where
  "find_flowtype_node st list uuid flow cur =
     (if cur = list then Some 0
      else
        let t = rcd (rt_heap st) cur
        in if t = 0 then Some 0
           else if Memcmp (rmm st) t uuid 32 = 0 \<and> (qi st (t + 32) = MSG_FLOW_ASPECT) = (flow = MSG_FLOW_ASPECT) then Some cur
           else find_flowtype_node st list uuid flow (nxt (rt_heap st) cur))"

definition message_route_findtrace :: "rstate \<Rightarrow> nat \<Rightarrow> int \<Rightarrow> nat option" where
  "message_route_findtrace st msg flow =
     (if msg = 0 then Some 0
      else
        let list = hash_list st (msg + MH_NONCE)
        in map_option (\<lambda>r. if r = 0 then 0 else rcd (rt_heap st) r)
             (find_flowtype_node st list (msg + MH_NONCE) flow (nxt (rt_heap st) list)))"

definition clear_local :: "nat \<Rightarrow> rstate \<Rightarrow> rstate" where
  "clear_local msg st = rup (wi (msg + MH_FLAG) (qi st (msg + MH_FLAG) AND NOT MSG_FLAG_LOCAL)) st"

definition message_route_settracesrc :: "rstate \<Rightarrow> nat \<Rightarrow> nat \<Rightarrow> (rstate \<times> int) option" where
  "message_route_settracesrc st msg node =
     (if msg = 0 then None
      else if node = 0 then Some (rup (wi (msg + MH_FLOW) MSG_FLOW_FINISH) st, 0)
      else
        let st1 = rup (mcopy (msg + MH_RECEIVER) (node + 36) 32) st;
            st2 = rup (wi (msg + MH_STATE) MSG_STATE_RESPONSE) st1
        in Some (clear_local msg st2, 1))"

definition message_route_settracetarget :: "rstate \<Rightarrow> nat \<Rightarrow> nat \<Rightarrow> (rstate \<times> int) option" where
  "message_route_settracetarget st msg node =
     (if msg = 0 then None
      else if node = 0 then Some (rup (wi (msg + MH_FLOW) MSG_FLOW_FINISH) st, 0)
      else
        let st1 = clear_local msg (rup (mcopy (msg + MH_SENDER) (node + 68) 32) st);
            st2 = rup (wp (msg + MB_POLICY) (qp st1 (node + 108))) st1
        in Some (rup (wp (msg + MB_PATH_SITE) (qp st2 (msg + MB_POLICY) + RP_RESPONSE)) st2, 1))"

definition message_route_gettracetarget :: "rstate \<Rightarrow> nat \<Rightarrow> nat \<Rightarrow> (rstate \<times> int) option" where
  "message_route_gettracetarget st msg node =
     (if msg = 0 \<or> node = 0 then None else Some (rup (mcopy (node + 68) (msg + MH_RECEIVER) 32) st, 1))"

text \<open>
  An \<^verbatim>\<open>ASPECT_NODE\<close>: the new uuid 0, flag 32, the old uuid 36, sender 68, receiver 100, route 132, the five ints from flow to rjump
  from 164 on, site 184, path 192. The message gets a new uuid; its route is overwritten by the name of the sender.
\<close>

definition fill_aspect_node :: "nat \<Rightarrow> nat \<Rightarrow> rstate \<Rightarrow> rstate" where
  "fill_aspect_node msg p st3 =
     (let copy = (\<lambda>off field s. rup (mcopy (p + off) (msg + field) 32) s);
          int4 = (\<lambda>off field s. rup (wi (p + off) (qi s (msg + field))) s);
          st4 = copy 132 MH_ROUTE (copy 100 MH_RECEIVER (copy 68 MH_SENDER (copy 0 MH_NONCE st3)));
          st5 = int4 180 MH_RJUMP (int4 176 MH_LJUMP (int4 172 MH_FLAG (int4 168 MH_STATE (int4 164 MH_FLOW st4))));
          st6 = rup (wp (p + 192) (qp st5 (msg + MB_POLICY))) st5
      in rup (wp (p + 184) (qp st6 (msg + MB_PATH_SITE))) st6)"

definition create_aspect_node :: "rstate \<Rightarrow> nat \<Rightarrow> (rstate \<times> nat) option" where
  "create_aspect_node st msg =
     (let (st1, p) = rpair (m_dalloc0 200 0) st
      in if p = 0 then Some (st1, enomem_ptr)
         else if msg = 0 then None
         else do {
           let st2 = rup (wi (p + 32) MSG_FLOW_ASPECT) (rup (mcopy (p + 36) (msg + MH_NONCE) 32) st1);
           let st3 = fst (rpair (\<lambda>ms. random_nonce ms (msg + MH_NONCE)) st2);
           st8 \<leftarrow> r_strncpy (msg + MH_ROUTE) (msg + MH_SENDER) 32 (fill_aspect_node msg p st3);
           Some (fst (node_list_add st8 (hash_list st8 (msg + MH_NONCE)) p), p) })"

abbreviation (input) flag_mask :: int where "flag_mask \<equiv> 0xf0"

definition recover_aspect_message :: "rstate \<Rightarrow> nat \<Rightarrow> nat \<Rightarrow> rstate" where
  "recover_aspect_message st msg node =
     (let copy = (\<lambda>field off s. rup (mcopy (msg + field) (node + off) 32) s);
          int4 = (\<lambda>field off s. rup (wi (msg + field) (qi s (node + off))) s);
          st1 = copy MH_ROUTE 132 (copy MH_RECEIVER 100 (copy MH_SENDER 68 (copy MH_NONCE 36 st)));
          st2 = int4 MH_STATE 168 (int4 MH_FLOW 164 st1);
          st3 = rup (wi (msg + MH_FLAG) ((qi st2 (msg + MH_FLAG) AND flag_mask) OR (qi st2 (node + 172) AND NOT flag_mask))) st2;
          st4 = int4 MH_RJUMP 180 (int4 MH_LJUMP 176 st3);
          st5 = rup (wp (msg + MB_POLICY) (qp st4 (node + 192))) st4
      in rup (wp (msg + MB_PATH_SITE) (qp st5 (node + 184))) st5)"

definition message_route_aspectrecover :: "rstate \<Rightarrow> nat \<Rightarrow> nat \<Rightarrow> (rstate \<times> int) option" where
  "message_route_aspectrecover st msg node = (if msg = 0 \<or> node = 0 then None else Some (recover_aspect_message st msg node, 1))"

definition set_jumps :: "nat \<Rightarrow> rstate \<Rightarrow> rstate" where
  "set_jumps msg st = rup (wi (msg + MH_RJUMP) 1) (rup (wi (msg + MH_LJUMP) 1) st)"

definition set_aspect_flag :: "nat \<Rightarrow> rstate \<Rightarrow> rstate" where
  "set_aspect_flag msg st = rup (wi (msg + MH_FLAG) (qi st (msg + MH_FLAG) OR MSG_FLAG_ASPECT)) st"

text \<open>A \<^verbatim>\<open>BRANCH_NODE\<close> has its type at 12 and its path at 16. A failed allocation is returned as an address and not noticed.\<close>

definition route_aspect_message :: "rstate \<Rightarrow> nat \<Rightarrow> nat \<Rightarrow> (rstate \<times> int) option" where
  "route_aspect_message st msg branch =
     (if branch = 0 then None
      else if qi st (branch + 12) \<noteq> MSG_FLOW_ASPECT then Some (st, - EINVAL)
      else do {
        (st1, node) \<leftarrow> create_aspect_node st msg;
        if node = 0 then Some (st1, - EINVAL)
        else do {
          (st2, _) \<leftarrow> message_route_setstart (set_aspect_flag msg (set_jumps msg st1)) msg (qp st (branch + 16));
          Some (st2, 1) } })"

definition route_dup_message :: "rstate \<Rightarrow> nat \<Rightarrow> nat \<Rightarrow> (rstate \<times> nat) option" where
  "route_dup_message st msg branch =
     (if branch = 0 then None
      else if qi st (branch + 12) \<noteq> MSG_FLOW_DUP then Some (st, 0)
      else do {
        let path = qp st (branch + 16);
        (st1, new) \<leftarrow> ropt (\<lambda>ms. message_clone ms msg) st;
        if new = 0 then Some (st1, 0)
        else if new = einval_ptr then None
        else if path = 0 then None
        else do {
          st2 \<leftarrow> r_strncpy (new + MH_ROUTE) path 32 (set_jumps new (set_aspect_flag new st1));
          st3 \<leftarrow> r_strncpy (new + MH_SENDER) (msg + MH_SENDER) 32 st2;
          (st4, _) \<leftarrow> message_route_setstart st3 new path;
          Some (st4, new) } })"

section \<open>Targets\<close>

text \<open>
  A \<^verbatim>\<open>ROUTE_RULE\<close>: the type of the target 0 and its name 4. The local variables of \<^verbatim>\<open>rule_get_target\<close> lie above the buffers of the
  functions it calls. The answer is the return code and what is stored behind \<^verbatim>\<open>result\<close>, \<open>None\<close> if that is not set.
\<close>

abbreviation (input) ROUTE_TARGET_LOCAL :: int where "ROUTE_TARGET_LOCAL \<equiv> 1"
abbreviation (input) ROUTE_TARGET_NAME :: int where "ROUTE_TARGET_NAME \<equiv> 2"
abbreviation (input) ROUTE_TARGET_UUID :: int where "ROUTE_TARGET_UUID \<equiv> 4"
abbreviation (input) ROUTE_TARGET_CONN :: int where "ROUTE_TARGET_CONN \<equiv> 8"
abbreviation (input) ROUTE_TARGET_RECORD :: int where "ROUTE_TARGET_RECORD \<equiv> 0x10"
abbreviation (input) ROUTE_TARGET_EXPAND :: int where "ROUTE_TARGET_EXPAND \<equiv> 0x20"
abbreviation (input) ROUTE_TARGET_PORT :: int where "ROUTE_TARGET_PORT \<equiv> 0x80"
abbreviation (input) ROUTE_TARGET_FINISH :: int where "ROUTE_TARGET_FINISH \<equiv> 0x1000"

definition rule_name :: "rstate \<Rightarrow> nat \<Rightarrow> nat option" where
  "rule_name st rule = (let a = qp st (rule + 4) in if a = 0 then None else Some a)"

type_synonym target = "rstate \<times> int \<times> nat option"

definition target_local :: "rstate \<Rightarrow> nat" where "target_local st = ms_stack (rt_ms st) + 1024"

definition change_flag :: "(int \<Rightarrow> int) \<Rightarrow> nat \<Rightarrow> rstate \<Rightarrow> rstate" where
  "change_flag f msg st = fst (rpair (\<lambda>ms. message_set_flag ms msg (f (qi st (msg + MH_FLAG)))) st)"

definition local_off :: "int \<Rightarrow> int" where "local_off f = f AND NOT MSG_FLAG_LOCAL"
definition local_on :: "int \<Rightarrow> int" where "local_on f = f OR MSG_FLAG_LOCAL"

definition target_name :: "(int \<Rightarrow> int) \<Rightarrow> rstate \<Rightarrow> nat \<Rightarrow> nat \<Rightarrow> target option" where
  "target_name f st rule msg =
     (let (st1, t) = rpair (m_talloc0 32) st
      in if t = 0 then None
         else do {
           st2 \<leftarrow> r_strncpy t (qp st1 (rule + 4)) 32 st1;
           (st3, _) \<leftarrow> ropt (\<lambda>ms. message_set_receiver ms msg t) st2;
           Some (change_flag f msg st3, qi st rule, Some t) })"

definition target_uuid :: "rstate \<Rightarrow> nat \<Rightarrow> target option" where
  "target_uuid st rule =
     do { name \<leftarrow> rule_name st rule;
          let n = Strnlen (rmm st) name 64;
          let (st1, t) = rpair (m_talloc0 32) st;
          if n = 64 then
            (if t = 0 then Some (st1, - ENOMEM, Some 0)
             else
               let (d, r) = uuid_to_digest (mem_bytes (rmm st1) name 64) (mem_bytes (rmm st1) t 32);
                   st2 = rup (set_mm (mem_write (rmm st1) t d)) st1
               in if r < 0 then Some (st2, r, Some 0) else Some (st2, ROUTE_TARGET_UUID, Some t))
          else if n < 24 then
            (if t = 0 then None else Some (rup (mcopy t name (int n)) st1, ROUTE_TARGET_UUID, Some t))
          else Some (st1, - EINVAL, Some 0) }"

definition target_conn :: "rstate \<Rightarrow> nat \<Rightarrow> nat \<Rightarrow> target option" where
  "target_conn st rule msg =
     (let (st1, t) = rpair (m_talloc0 32) st
      in if t = 0 then Some (st1, - ENOMEM, Some 0)
         else do {
           name \<leftarrow> rule_name st1 rule;
           let n = Strnlen (rmm st1) name 64;
           if n > 23 then Some (st1, - EINVAL, Some 0)
           else do {
           let st2 = rup (mcopy (t + 1) name (int n)) (rup (set_mm ((rmm st1)(t := 58))) st1);
           (st3, _) \<leftarrow> ropt (\<lambda>ms. message_set_receiver ms msg t) st2;
           Some (change_flag local_off msg st3, ROUTE_TARGET_CONN, Some t) } })"

text \<open>The receiver from a value: a text or a digest.\<close>

definition set_value_receiver :: "rstate \<Rightarrow> nat \<Rightarrow> nat \<Rightarrow> rstate option" where
  "set_value_receiver st msg t =
     do { (st1, _) \<leftarrow> (if Isstrinuuid (rmm st) (ms_stack (rt_ms st)) t then ropt (\<lambda>ms. message_set_receiver ms msg t) st
                       else ropt (\<lambda>ms. message_set_receiver_uuid ms msg t) st);
          Some (change_flag local_off msg st1) }"

definition target_record :: "rstate \<Rightarrow> nat \<Rightarrow> nat \<Rightarrow> target option" where
  "target_record st rule msg =
     do { a \<leftarrow> rule_name st rule;
          name \<leftarrow> cstring (rmm st) a;
          (st1, r) \<leftarrow> ropt (\<lambda>ms. message_read_elem ms msg name 0 (target_local st)) st;
          if r < 0 then Some (st1, - EINVAL, Some 0)
          else do { let t = qp st1 (target_local st);
                    st2 \<leftarrow> set_value_receiver st1 msg t;
                    Some (st2, ROUTE_TARGET_RECORD, Some t) } }"

text \<open>The search for the colon behind the type: \<open>None\<close> at the end of the text.\<close>

function find_colon :: "mem \<Rightarrow> nat \<Rightarrow> nat \<Rightarrow> nat \<Rightarrow> nat option" where
  "find_colon m str len off =
     (if m (str + off) = 58 then Some (off + 1) else if off + 1 \<ge> len then None else find_colon m str len (off + 1))"
  by pat_completeness auto
termination by (relation "measure (\<lambda>(m, str, len, off). len - off)") auto

declare find_colon.simps [simp del]

definition target_expand :: "rstate \<Rightarrow> nat \<Rightarrow> nat \<Rightarrow> target option" where
  "target_expand st rule msg =
     do { name \<leftarrow> rule_name st rule;
          len \<leftarrow> Strlen (rmm st) name;
          if len > 96 then Some (st, - EINVAL, Some 0)
          else do {
            let typ = target_local st;
            (st1, off) \<leftarrow> ropt (\<lambda>ms. message_read_typestr ms name typ (typ + 4)) st;
            if off < 0 then Some (st1, off, Some 0)
            else case find_colon (rmm st1) name len (nat off) of
                   None \<Rightarrow> Some (st1, - EINVAL, Some 0)
                 | Some off1 \<Rightarrow>
                     do { let type = qi st1 typ;
                          let subtype = qi st1 (typ + 4);
                          let (ret, e) = message_get_define_expand (rt_ms st1) msg type subtype;
                          if ret < 0 \<or> e = Some 0 then Some (st1, - EINVAL, Some 0)
                          else do {
                            (st2, t) \<leftarrow> ropt (get_template type subtype) st1;
                            if t = 0 then Some (st2, - EINVAL, Some 0)
                            else do {
                              let (st3, target) = rpair (m_talloc 65) st2;
                              x \<leftarrow> e;
                              elem \<leftarrow> cstring (rmm st3) (name + off1);
                              (es, r) \<leftarrow> (if target = 0 then None
                                          else struct_read_elem (db_es (ms_db (rt_ms st3))) elem (ex_expand (rmm st3) x) target (t - 1));
                              let st4 = rup (\<lambda>ms. ms\<lparr>ms_db := set_es es (ms_db ms)\<rparr>) st3;
                              if r < 0 then Some (st4, r, Some 0)
                              else do { st5 \<leftarrow> set_value_receiver st4 msg target; Some (st5, ROUTE_TARGET_EXPAND, Some target) } } } } } }"

definition rule_get_target :: "rstate \<Rightarrow> nat \<Rightarrow> nat \<Rightarrow> target option" where
  "rule_get_target st rule msg =
     (let type = qi st rule
      in if type = ROUTE_TARGET_NAME then target_name local_off st rule msg
         else if type = ROUTE_TARGET_PORT \<or> type = ROUTE_TARGET_LOCAL then target_name local_on st rule msg
         else if type = ROUTE_TARGET_UUID then target_uuid st rule
         else if type = ROUTE_TARGET_CONN then target_conn st rule msg
         else if type = ROUTE_TARGET_RECORD then target_record st rule msg
         else if type = ROUTE_TARGET_EXPAND then target_expand st rule msg
         else if type = ROUTE_TARGET_FINISH then Some (st, ROUTE_TARGET_FINISH, None)
         else Some (st, - EINVAL, Some 0))"

definition message_route_setnext :: "rstate \<Rightarrow> nat \<Rightarrow> (rstate \<times> int) option" where
  "message_route_setnext st msg =
     (if msg = 0 then None
      else
        let (st1, node) = set_next_pathsite st msg
        in if node = 0 then Some (rup (\<lambda>ms. set_mm (fst (Memset (mm ms) (msg + MH_RECEIVER) 0 32)) ms) st1, 0)
           else map_option (\<lambda>(st2, r, _). (st2, r)) (rule_get_target st1 (node + 12) msg))"

section \<open>Answers\<close>

fun dup_expands :: "nat \<Rightarrow> nat \<Rightarrow> int \<Rightarrow> nat \<Rightarrow> mstate \<Rightarrow> (mstate \<times> int) option" where
  "dup_expands msg active i 0 st = Some (st, 0)"
| "dup_expands msg active i (Suc k) st =
     do { (st1, ret, e) \<leftarrow> message_get_expand st active i;
          if ret < 0 then Some (st1, ret)
          else if e = Some 0 then
            (let bin = rp st1 (at8 (rp st1 (active + MB_EXPAND)) i)
             in if bin = 0 then dup_expands msg active (i + 1) k st1
                else do { (st2, r) \<leftarrow> message_add_expand_blob st1 msg (ri st1 (at4 (rp st1 (active + MB_ESIZES)) i)) bin;
                          if r < 0 then Some (st2, r) else dup_expands msg active (i + 1) k st2 })
          else do { x \<leftarrow> e;
                    (st2, r) \<leftarrow> message_add_expand st1 msg x;
                    if r < 0 then Some (st2, r) else dup_expands msg active (i + 1) k st2 } }"

text \<open>
  A message that answers another takes its flow, state, flag, route, jumps, uuid, policy and site, and unless it follows
  on its own its expands.
\<close>

definition router_dup_activemsg_info :: "rstate \<Rightarrow> nat \<Rightarrow> (rstate \<times> int) option" where
  "router_dup_activemsg_info st msg =
     (if msg = 0 then Some (st, - EINVAL)
      else
        let active = message_get_activemsg (rt_ms st) msg
        in if active = 0 then Some (st, 0)
           else if active = msg then Some (st, 0)
           else
             ropt (\<lambda>ms.
               do { let int4 = (\<lambda>field s. wi (msg + field) (ri s (active + field)) s);
                    let ms1 = int4 MH_FLAG (int4 MH_STATE (int4 MH_FLOW ms));
                    (ms2, _) \<leftarrow> message_set_route ms1 msg (active + MH_ROUTE);
                    let ms3 = int4 MH_RJUMP (mcopy (msg + MH_NONCE) (active + MH_NONCE) 32 (int4 MH_RJUMP (int4 MH_LJUMP ms2)));
                    let done = (\<lambda>s. let s1 = wp (msg + MB_POLICY) (rp s (active + MB_POLICY)) s
                                    in (wp (msg + MB_PATH_SITE) (rp s1 (active + MB_PATH_SITE)) s1, 1));
                    if ri ms3 (msg + MH_FLAG) AND MSG_FLAG_FOLLOW = 0 then
                      (let (ms4, buf) = m_talloc0 4 ms3
                       in if buf = 0 then Some (ms4, - ENOMEM)
                          else do { (ms5, r) \<leftarrow> dup_expands msg active 0 (nat (ri ms4 (active + MH_EXPAND_NUM))) ms4;
                                    if r < 0 then Some (ms5, r) else Some (done ms5) })
                    else Some (done ms3) }) st)"

end
