(* ===== verification/Cube_Route_Laws.thy ===== *)
theory Cube_Route_Laws
  imports Cube_Route Cube_Message_Laws
begin

text \<open>
  Properties of the router: a message visits the nodes of its route in order, what is kept of a query or of the message of an
  aspect and given back, and the policy found is the first that is open and matches.
\<close>

section \<open>The state\<close>

lemma rstate_simps [simp]:
  "rt_ms (rup f st) = f (rt_ms st)" "rt_heap (rup f st) = rt_heap st" "rt_hash (rup f st) = rt_hash st"
  "rt_route_forest (rup f st) = rt_route_forest st"
  "rt_ms (hup g st) = rt_ms st" "rt_heap (hup g st) = g (rt_heap st)" "rt_hash (hup g st) = rt_hash st"
  "rt_route_forest (hup g st) = rt_route_forest st"
  by (simp_all add: rup_def hup_def)

lemma rstate_waiting [simp]: "rt_waiting (rup f st) = rt_waiting st" "rt_waiting (hup g st) = rt_waiting st"
  by (simp_all add: rup_def hup_def)

lemma coming_writes [simp]: "coming (wi a v ms) k = coming ms k" "coming (set_mm m ms) k = coming ms k"
  by (simp_all add: wi_def set_mm_def coming_def)

text \<open>Two heaps with the same links at a node.\<close>

definition same_links :: "nat lheap \<Rightarrow> nat lheap \<Rightarrow> nat \<Rightarrow> bool" where
  "same_links h h' a \<longleftrightarrow> nxt h' a = nxt h a \<and> prv h' a = prv h a"

lemma strncpy_loop_frame:
  "\<exists>m' d' n'. strncpy_loop m d s (int n) = Some (m', d', n') \<and> same_outside {d..<d + n} m m' \<and> (n' > 0 \<longrightarrow> d' \<in> {d..<d + n})"
proof (induction n arbitrary: m d s)
  case 0
  then show ?case by (cases "m s = 0") (auto simp: same_outside_def strncpy_loop.simps [of m d s])
next
  case (Suc n)
  show ?case
  proof (cases "m s = 0")
    case True
    then show ?thesis by (auto simp: same_outside_def strncpy_loop.simps [of m d s])
  next
    case False
    obtain m' d' n' where *: "strncpy_loop (m(d := m s)) (d + 1) (s + 1) (int n) = Some (m', d', n')"
      "same_outside {d + 1..<d + 1 + n} (m(d := m s)) m'" "n' > 0 \<longrightarrow> d' \<in> {d + 1..<d + 1 + n}"
      using Suc.IH by blast
    have "strncpy_loop m d s (int (Suc n)) = Some (m', d', n')"
      using False *(1) by (simp add: strncpy_loop.simps [of m d s])
    then show ?thesis using *(2,3) by (auto simp: same_outside_def)
  qed
qed

lemma Strncpy_frame:
  assumes "0 \<le> n"
  obtains m' r where "Strncpy m d s n = Some (m', r)" "same_outside {d..<d + nat n} m m'"
proof -
  obtain k where n: "n = int k" using assms nonneg_int_cases by blast
  obtain m' d' n' where *: "strncpy_loop m d s n = Some (m', d', n')" "same_outside {d..<d + k} m m'" "n' > 0 \<longrightarrow> d' \<in> {d..<d + k}"
    using strncpy_loop_frame [of m d s k] n by blast
  show thesis
  proof (cases "d = s")
    case True
    then show thesis using that [of m s] by (simp add: Strncpy_def same_outside_def)
  next
    case False
    then show thesis using that [of "if n' > 0 then m'(d' := 0) else m'" d] *
      by (auto simp: Strncpy_def same_outside_def n)
  qed
qed

lemma r_strncpy_frame:
  assumes "dest \<noteq> 0" "src \<noteq> 0" "0 \<le> n"
  obtains m where "r_strncpy dest src n st = Some (rup (set_mm m) st)" "same_outside {dest..<dest + nat n} (rmm st) m"
proof -
  obtain m' r where "Strncpy (rmm st) dest src n = Some (m', r)" "same_outside {dest..<dest + nat n} (rmm st) m'"
    using Strncpy_frame [OF assms(3)] by blast
  then show thesis using that [of m'] assms(1,2) by (simp add: r_strncpy_def)
qed

section \<open>The walk along a route\<close>

text \<open>\<open>k\<close> steps along the route, with the nodes they return.\<close>

fun route_walk :: "nat \<Rightarrow> nat \<Rightarrow> rstate \<Rightarrow> nat list \<times> rstate" where
  "route_walk msg 0 st = ([], st)"
| "route_walk msg (Suc k) st =
     (let (st1, node) = set_next_pathsite st msg; (nodes, st2) = route_walk msg k st1 in (node # nodes, st2))"

lemma route_walk_ended:
  assumes "qp st (msg + MB_PATH_SITE) = 0"
  shows "route_walk msg k st = (replicate k 0, st)"
  using assms by (induction k) (simp_all add: set_next_pathsite_def)

lemma route_walk_from:
  assumes "dlist (rt_heap st) (path + RP_ROUTE) (ns @ ms)" "qp st (msg + MB_POLICY) = path"
    "qp st (msg + MB_PATH_SITE) = last ((path + RP_ROUTE) # ns)" "\<forall>n\<in>set (ns @ ms). n \<noteq> 0 \<and> n < 2 ^ 64"
  shows "\<exists>st2. route_walk msg (length ms + 1 + k) st = (map (rcd (rt_heap st)) ms @ replicate (k + 1) 0, st2)
    \<and> rt_heap st2 = rt_heap st \<and> qp st2 (msg + MB_PATH_SITE) = 0
    \<and> same_outside {msg + MB_PATH_SITE..<msg + MB_PATH_SITE + 8} (rmm st) (rmm st2)"
  using assms
proof (induction ms arbitrary: ns st)
  case Nil
  let ?st1 = "rup (wp (msg + MB_PATH_SITE) 0) st"
  have c: "last ((path + RP_ROUTE) # ns) \<noteq> 0" using Nil.prems(4) by auto
  have "nxt (rt_heap st) (last ((path + RP_ROUTE) # ns)) = path + RP_ROUTE"
  proof (cases ns rule: rev_cases)
    case Nil
    then show ?thesis using dlist_nxt_head [OF Nil.prems(1)] by simp
  next
    case (snoc us u)
    then show ?thesis using dlist_nxt_mid [of "rt_heap st" "path + RP_ROUTE" us u "[]"] Nil.prems(1) by simp
  qed
  then have "set_next_pathsite st msg = (?st1, 0)" using c Nil.prems by (simp add: set_next_pathsite_def Let_def)
  moreover have "route_walk msg k ?st1 = (replicate k 0, ?st1)" by (rule route_walk_ended) simp
  ultimately show ?case by (auto simp: same_outside_def put_ptr_outside)
next
  case (Cons n ms)
  let ?st1 = "rup (wp (msg + MB_PATH_SITE) n) st"
  have c: "last ((path + RP_ROUTE) # ns) \<noteq> 0" using Cons.prems(4) by auto
  have "nxt (rt_heap st) (last ((path + RP_ROUTE) # ns)) = n"
  proof (cases ns rule: rev_cases)
    case Nil
    then show ?thesis using dlist_nxt_head [OF Cons.prems(1)] by simp
  next
    case (snoc us u)
    then show ?thesis using dlist_nxt_mid [of "rt_heap st" "path + RP_ROUTE" us u "n # ms"] Cons.prems(1) by simp
  qed
  moreover have "n \<noteq> path + RP_ROUTE" using Cons.prems(1) by (auto simp: dlist_def)
  ultimately have step: "set_next_pathsite st msg = (?st1, rcd (rt_heap st) n)"
    using c Cons.prems by (simp add: set_next_pathsite_def Let_def)
  have "\<exists>st2. route_walk msg (length ms + 1 + k) ?st1 = (map (rcd (rt_heap ?st1)) ms @ replicate (k + 1) 0, st2)
    \<and> rt_heap st2 = rt_heap ?st1 \<and> qp st2 (msg + MB_PATH_SITE) = 0
    \<and> same_outside {msg + MB_PATH_SITE..<msg + MB_PATH_SITE + 8} (rmm ?st1) (rmm st2)"
    using Cons.prems by (intro Cons.IH [of ?st1 "ns @ [n]"]) (simp_all add: get_ptr_other)
  then show ?case using step by (fastforce simp: same_outside_def put_ptr_outside)
qed

text \<open>(C10) A message that is not a query and is set on the start of a route then visits the nodes of the route in the order of the
  list, one per step, and after the last gets \<^verbatim>\<open>NULL\<close> and has left the route for good.\<close>

theorem message_route_visits_nodes:
  assumes "msg \<noteq> 0" "path \<noteq> 0" "path + RP_ROUTE < 2 ^ 64" "path + 208 \<le> msg \<or> msg + 288 \<le> path"
    and flow: "qi st (path + RP_FLOW) \<noteq> MSG_FLOW_QUERY"
    and ns: "dlist (rt_heap st) (path + RP_ROUTE) ns" "\<forall>n\<in>set ns. n \<noteq> 0 \<and> n < 2 ^ 64"
  shows "\<exists>st1 st2. message_route_setstart st msg path = Some (st1, 1)
    \<and> route_walk msg (length ns + 1 + k) st1 = (map (rcd (rt_heap st)) ns @ replicate (k + 1) 0, st2)
    \<and> qp st2 (msg + MB_PATH_SITE) = 0 \<and> same_outside {msg..<msg + 288} (rmm st) (rmm st2)"
proof -
  let ?s1 = "rup (wp (msg + MB_POLICY) path) st"
  let ?s3 = "rup (wi (msg + MH_STATE) MSG_STATE_MATCH) (rup (wi (msg + MH_FLOW) (qi ?s1 (path + RP_FLOW))) ?s1)"
  obtain m where m: "r_strncpy (msg + MH_ROUTE) path 32 ?s3 = Some (rup (set_mm m) ?s3)"
    "same_outside {msg + MH_ROUTE..<msg + MH_ROUTE + nat 32} (rmm ?s3) m"
    using r_strncpy_frame [of "msg + MH_ROUTE" path 32 ?s3] assms(2) by auto
  let ?st1 = "rup (wp (msg + MB_PATH_SITE) (path + RP_ROUTE)) (rup (set_mm m) ?s3)"
  have flow1: "rd_sint m 4 (msg + MH_FLOW) = qi ?s1 (path + RP_FLOW)"
  proof -
    have "rd_sint m 4 (msg + MH_FLOW) = qi ?s3 (msg + MH_FLOW)"
      using m(2) by (intro rd_sint_cong) (auto simp: same_outside_def)
    then show ?thesis by (simp add: rd_sint_other rd_sint_same)
  qed
  have "get_ptr m (msg + MB_POLICY) = qp ?s3 (msg + MB_POLICY)"
    using m(2) by (intro get_ptr_cong) (auto simp: same_outside_def)
  then have policy: "get_ptr m (msg + MB_POLICY) = path" using assms(3) by (simp add: get_ptr_other)
  have "qi ?s1 (path + RP_FLOW) = qi st (path + RP_FLOW)" using assms(4) by (auto intro!: rd_sint_other)
  then have "qi ?st1 (msg + MH_FLOW) \<noteq> MSG_FLOW_QUERY" using flow flow1 by (simp add: rd_sint_other)
  then have start: "message_route_setstart st msg path = Some (?st1, 1)"
    using assms(1,2) m(1) by (simp add: message_route_setstart_def trace_query_def message_get_flow_def checked_get_def Let_def)
  have "\<exists>st2. route_walk msg (length ns + 1 + k) ?st1 = (map (rcd (rt_heap ?st1)) ns @ replicate (k + 1) 0, st2)
    \<and> rt_heap st2 = rt_heap ?st1 \<and> qp st2 (msg + MB_PATH_SITE) = 0
    \<and> same_outside {msg + MB_PATH_SITE..<msg + MB_PATH_SITE + 8} (rmm ?st1) (rmm st2)"
    by (rule route_walk_from [where ns = "[]" and path = path])
      (use ns policy assms(3) in \<open>simp_all add: get_ptr_other\<close>)
  then obtain st2 where st2: "route_walk msg (length ns + 1 + k) ?st1 = (map (rcd (rt_heap st)) ns @ replicate (k + 1) 0, st2)"
    "qp st2 (msg + MB_PATH_SITE) = 0" "same_outside {msg + MB_PATH_SITE..<msg + MB_PATH_SITE + 8} (rmm ?st1) (rmm st2)"
    by auto
  have "same_outside {msg..<msg + 288} (rmm st) (rmm st2)"
    using st2(3) m(2) by (auto simp: same_outside_def put_ptr_outside wr_int_outside)
  then show ?thesis using start st2 by blast
qed

section \<open>Traces\<close>

text \<open>Whether the trace or aspect node \<open>t\<close> has the uuid and the kind.\<close>

definition trace_of :: "mem \<Rightarrow> nat \<Rightarrow> int \<Rightarrow> nat \<Rightarrow> bool" where
  "trace_of m uuid flow t \<longleftrightarrow>
     mem_bytes m t 32 = mem_bytes m uuid 32 \<and> (rd_sint m 4 (t + 32) = MSG_FLOW_ASPECT \<longleftrightarrow> flow = MSG_FLOW_ASPECT)"

lemma Memcmp_32: "Memcmp m p q 32 = 0 \<longleftrightarrow> mem_bytes m p 32 = mem_bytes m q 32"
  by (simp add: Memcmp_def memcmp_loop_zero_iff mem_bytes_eq_iff)

lemma find_flowtype_node_find:
  assumes "dlist (rt_heap st) list (ms @ ns)" "\<forall>n\<in>set ns. rcd (rt_heap st) n \<noteq> 0"
  shows "find_flowtype_node st list uuid flow (hd (ns @ [list]))
    = Some (case find (\<lambda>n. trace_of (rmm st) uuid flow (rcd (rt_heap st) n)) ns of None \<Rightarrow> 0 | Some n \<Rightarrow> n)"
  using assms
proof (induction ns arbitrary: ms)
  case Nil
  then show ?case by (simp add: find_flowtype_node.simps [of st list uuid flow list])
next
  case (Cons n ns)
  have "n \<noteq> list" using Cons.prems(1) by (auto simp: dlist_def)
  moreover have "nxt (rt_heap st) n = hd (ns @ [list])" by (rule dlist_nxt_mid [OF Cons.prems(1)])
  moreover have "find_flowtype_node st list uuid flow (hd (ns @ [list]))
    = Some (case find (\<lambda>n. trace_of (rmm st) uuid flow (rcd (rt_heap st) n)) ns of None \<Rightarrow> 0 | Some n \<Rightarrow> n)"
    using Cons.prems by (intro Cons.IH [of "ms @ [n]"]) simp_all
  ultimately show ?case using Cons.prems(2)
    by (simp add: find_flowtype_node.simps [of st list uuid flow n] trace_of_def Memcmp_32 Let_def)
qed

lemma findtrace_find:
  assumes "dlist (rt_heap st) (hash_list st (msg + MH_NONCE)) ns" "\<forall>n\<in>set ns. n \<noteq> 0 \<and> rcd (rt_heap st) n \<noteq> 0" "msg \<noteq> 0"
  shows "message_route_findtrace st msg flow
    = Some (case find (trace_of (rmm st) (msg + MH_NONCE) flow) (map (rcd (rt_heap st)) ns) of None \<Rightarrow> 0 | Some t \<Rightarrow> t)"
proof -
  let ?P = "\<lambda>n. trace_of (rmm st) (msg + MH_NONCE) flow (rcd (rt_heap st) n)"
  have map: "find (trace_of (rmm st) (msg + MH_NONCE) flow) (map (rcd (rt_heap st)) ns) = map_option (rcd (rt_heap st)) (find ?P ns)"
    by (induction ns) simp_all
  have "n \<noteq> 0" if "find ?P ns = Some n" for n using that assms(2) by (auto simp: find_Some_iff)
  moreover have "find_flowtype_node st (hash_list st (msg + MH_NONCE)) (msg + MH_NONCE) flow (nxt (rt_heap st) (hash_list st (msg + MH_NONCE)))
    = Some (case find ?P ns of None \<Rightarrow> 0 | Some n \<Rightarrow> n)"
    using find_flowtype_node_find [of st "hash_list st (msg + MH_NONCE)" "[]" ns] assms(1,2) dlist_nxt_head [OF assms(1)] by simp
  ultimately show ?thesis using assms(3) unfolding map
    by (auto simp: message_route_findtrace_def Let_def split: option.splits)
qed

text \<open>
  A node added to a list: the coming block is linked at the tail with the record, and nothing is written but this block and the
  counter of the list.
\<close>

lemma node_list_add_result:
  assumes "coming (rt_ms st) 0 = Some q" "dlist (rt_heap st) list ns" "q + 12 \<notin> set (list # ns)" "list \<noteq> 0"
  obtains st' where "node_list_add st list r = (st', q + 12)" "dlist (rt_heap st') list (ns @ [q + 12])"
    "\<And>n. rcd (rt_heap st') n = (if n = q + 12 then r else rcd (rt_heap st) n)"
    "same_outside ({q..<q + 36} \<union> {list + NL_NUM..<list + NL_NUM + 4}) (rmm st) (rmm st')" "rt_hash st' = rt_hash st"
    "rt_waiting st' = rt_waiting st" "\<And>a. a \<notin> set (list # ns) \<Longrightarrow> a \<noteq> q + 12 \<Longrightarrow> same_links (rt_heap st) (rt_heap st') a"
    "\<And>k. coming (rt_ms st') k = coming (rt_ms st) (Suc k)"
proof -
  obtain ms where ms: "m_dalloc0 24 0 (rt_ms st) = (ms, q + 12)" "same_outside {q..<q + 12 + nat 24} (rmm st) (mm ms)"
    "\<And>k. coming ms k = coming (rt_ms st) (Suc k)"
    by (rule m_dalloc0_result [OF assms(1), of 24 0]) blast
  let ?h0 = "set_rcd (q + 12) r (INIT_LIST_HEAD (q + 12) (rt_heap st))"
  let ?st2 = "hup (\<lambda>h. List_add_tail (q + 12) list (set_rcd (q + 12) r (INIT_LIST_HEAD (q + 12) h))) (st\<lparr>rt_ms := ms\<rparr>)"
  let ?st' = "rup (wi (list + NL_NUM) (qi ?st2 (list + NL_NUM) + 1)) ?st2"
  have "node_list_add st list r = (?st', q + 12)"
    using assms(4) ms(1) by (simp add: node_list_add_def rpair_def Let_def)
  moreover have ring: "dlist ?h0 list ns"
    using assms(2) by (rule dlist_frame) (use assms(3) in \<open>auto simp: INIT_LIST_HEAD_def\<close>)
  then have "dlist (rt_heap ?st') list (ns @ [q + 12])" using dlist_add_tail [of ?h0 list ns "q + 12"] assms(3) by simp
  moreover have "same_links (rt_heap st) (rt_heap ?st') a" if "a \<notin> set (list # ns)" "a \<noteq> q + 12" for a
    using List_add_tail_outside [OF ring that] that(2) by (simp add: same_links_def INIT_LIST_HEAD_def)
  moreover have "rcd (rt_heap ?st') n = (if n = q + 12 then r else rcd (rt_heap st) n)" for n
    by (simp add: set_rcd_def fun_upd_apply)
  moreover have "same_outside ({q..<q + 36} \<union> {list + NL_NUM..<list + NL_NUM + 4}) (rmm st) (rmm ?st')"
    using ms(2) by (auto simp: same_outside_def wr_int_outside)
  ultimately show thesis using that [of ?st'] ms(3) by simp
qed

definition apart :: "nat \<Rightarrow> nat \<Rightarrow> nat \<Rightarrow> nat \<Rightarrow> bool" where
  "apart a n b k \<longleftrightarrow> a + n \<le> b \<or> b + k \<le> a"

lemma mcopy_apart: "apart d 32 s 32 \<Longrightarrow> mcopy d s 32 st = set_mm (mem_write (mm st) d (mem_bytes (mm st) s 32)) st"
  using memcpy_loop_copy [of d s 32 "mm st"] by (auto simp: mcopy_def apart_def Memcpy_def)

lemma apart_reads:
  assumes "same_outside D m m'" "\<And>x. a \<le> x \<Longrightarrow> x < a + n \<Longrightarrow> x \<notin> D"
  shows "mem_bytes m' a n = mem_bytes m a n" "n = 8 \<Longrightarrow> get_ptr m' a = get_ptr m a" "n = 4 \<Longrightarrow> rd_sint m' 4 a = rd_sint m 4 a"
  using assms by (auto simp: same_outside_def intro!: mem_bytes_cong get_ptr_cong rd_sint_cong)

lemma same_outside_writes [intro]:
  "length bs = n \<Longrightarrow> same_outside {a..<a + n} m (mem_write m a bs)"
  "same_outside {a..<a + 8} m (put_ptr m a p)" "same_outside {a..<a + 4} m (wr_int m 4 a v)"
  by (auto simp: same_outside_def mem_write_apply put_ptr_outside wr_int_outside)

lemma create_trace_node_result:
  assumes "coming (rt_ms st) 0 = Some q" "coming (rt_ms st) 1 = Some d"
    and list: "list = hash_list st (msg + MH_NONCE)" "list \<noteq> 0" "dlist (rt_heap st) list ns" "d + 12 \<notin> set (list # ns)"
    and free: "apart q 128 msg 288" "apart q 128 d 36" "apart q 128 list 40"
  obtains st' where "create_trace_node st msg = (st', q + 12)" "dlist (rt_heap st') list (ns @ [d + 12])"
    "\<And>n. rcd (rt_heap st') n = (if n = d + 12 then q + 12 else rcd (rt_heap st) n)" "rt_hash st' = rt_hash st"
    "mem_bytes (rmm st') (q + 12) 32 = mem_bytes (rmm st) (msg + MH_NONCE) 32"
    "mem_bytes (rmm st') (q + 48) 32 = mem_bytes (rmm st) (msg + MH_SENDER) 32"
    "rd_sint (rmm st') 4 (q + 44) = 0" "get_ptr (rmm st') (q + 120) = get_ptr (rmm st) (msg + MB_POLICY)"
    "same_outside ({q..<q + 128} \<union> {d..<d + 36} \<union> {list + NL_NUM..<list + NL_NUM + 4}) (rmm st) (rmm st')"
    "rt_waiting st' = rt_waiting st" "\<And>a. a \<notin> set (list # ns) \<Longrightarrow> a \<noteq> d + 12 \<Longrightarrow> same_links (rt_heap st) (rt_heap st') a"
    "\<And>k. coming (rt_ms st') k = coming (rt_ms st) (Suc (Suc k))"
proof -
  obtain ms where ms: "m_dalloc0 116 0 (rt_ms st) = (ms, q + 12)" "same_outside {q..<q + 12 + nat 116} (rmm st) (mm ms)"
    "\<And>x. q + 12 \<le> x \<Longrightarrow> x < q + 12 + nat 116 \<Longrightarrow> mm ms x = 0" "\<And>k. coming ms k = coming (rt_ms st) (Suc k)"
    by (rule m_dalloc0_result [OF assms(1), of 116 0]) blast
  let ?p = "q + 12" let ?A = "mm ms"
  have so0: "same_outside {q..<q + 128} (rmm st) ?A" using ms(2) by (simp add: add.commute)
  define B where "B = mem_write ?A ?p (mem_bytes ?A (msg + MH_NONCE) 32)"
  define C where "C = mem_write B (q + 48) (mem_bytes B (msg + MH_SENDER) 32)"
  define D where "D = put_ptr C (q + 120) (get_ptr C (msg + MB_POLICY))"
  have so: "same_outside {?p..<?p + 32} ?A B" "same_outside {q + 48..<q + 48 + 32} B C" "same_outside {q + 120..<q + 120 + 8} C D"
    unfolding B_def C_def D_def by (rule same_outside_writes; simp)+
  let ?st4 = "st\<lparr>rt_ms := set_mm D ms\<rparr>"
  have ap: "apart ?p 32 (msg + MH_NONCE) 32" "apart (q + 48) 32 (msg + MH_SENDER) 32"
    using free(1) by (auto simp: apart_def)
  have "rup (wp (?p + 108) (qp (rup (mcopy (?p + 36) (msg + MH_SENDER) 32) (rup (mcopy ?p (msg + MH_NONCE) 32) (st\<lparr>rt_ms := ms\<rparr>))) (msg + MB_POLICY)))
      (rup (mcopy (?p + 36) (msg + MH_SENDER) 32) (rup (mcopy ?p (msg + MH_NONCE) 32) (st\<lparr>rt_ms := ms\<rparr>))) = ?st4"
    using ap by (simp add: mcopy_apart rup_def wp_def D_def C_def B_def add.commute) (simp add: set_mm_def)
  moreover have "coming (rt_ms ?st4) 0 = Some d" using ms(4) assms(2) by simp
  then obtain st' where st': "node_list_add ?st4 list ?p = (st', d + 12)" "dlist (rt_heap st') list (ns @ [d + 12])"
    "\<And>n. rcd (rt_heap st') n = (if n = d + 12 then ?p else rcd (rt_heap ?st4) n)"
    "same_outside ({d..<d + 36} \<union> {list + NL_NUM..<list + NL_NUM + 4}) (rmm ?st4) (rmm st')" "rt_hash st' = rt_hash ?st4"
    "rt_waiting st' = rt_waiting ?st4" "\<And>a. a \<notin> set (list # ns) \<Longrightarrow> a \<noteq> d + 12 \<Longrightarrow> same_links (rt_heap ?st4) (rt_heap st') a"
    "\<And>k. coming (rt_ms st') k = coming (rt_ms ?st4) (Suc k)"
    by (rule node_list_add_result [where list = list and ns = ns and st = ?st4 and r = ?p]) (use list in simp_all)
  ultimately have "create_trace_node st msg = (st', ?p)"
    using ms(1) list(1) by (simp add: create_trace_node_def rpair_def Let_def)
  have so5: "same_outside ({d..<d + 36} \<union> {list + NL_NUM..<list + NL_NUM + 4}) D (rmm st')" using st'(4) by simp
  show thesis
  proof (rule that)
    show "create_trace_node st msg = (st', ?p)" by fact
    show "mem_bytes (rmm st') ?p 32 = mem_bytes (rmm st) (msg + MH_NONCE) 32"
    proof -
      have "mem_bytes (rmm st') ?p 32 = mem_bytes D ?p 32" by (rule apart_reads(1) [OF so5]) (use free(2,3) in \<open>auto simp: apart_def\<close>)
      also have "\<dots> = mem_bytes C ?p 32" by (rule apart_reads(1) [OF so(3)]) auto
      also have "\<dots> = mem_bytes B ?p 32" by (rule apart_reads(1) [OF so(2)]) auto
      also have "\<dots> = mem_bytes ?A (msg + MH_NONCE) 32"
        unfolding B_def using mem_bytes_mem_write [of ?A ?p "mem_bytes ?A (msg + MH_NONCE) 32"] by simp
      also have "\<dots> = mem_bytes (rmm st) (msg + MH_NONCE) 32" by (rule apart_reads(1) [OF so0]) (use free(1) in \<open>auto simp: apart_def\<close>)
      finally show ?thesis .
    qed
    show "mem_bytes (rmm st') (q + 48) 32 = mem_bytes (rmm st) (msg + MH_SENDER) 32"
    proof -
      have "mem_bytes (rmm st') (q + 48) 32 = mem_bytes D (q + 48) 32" by (rule apart_reads(1) [OF so5]) (use free(2,3) in \<open>auto simp: apart_def\<close>)
      also have "\<dots> = mem_bytes C (q + 48) 32" by (rule apart_reads(1) [OF so(3)]) auto
      also have "\<dots> = mem_bytes B (msg + MH_SENDER) 32"
        unfolding C_def using mem_bytes_mem_write [of B "q + 48" "mem_bytes B (msg + MH_SENDER) 32"] by simp
      also have "\<dots> = mem_bytes ?A (msg + MH_SENDER) 32" by (rule apart_reads(1) [OF so(1)]) (use free(1) in \<open>auto simp: apart_def\<close>)
      also have "\<dots> = mem_bytes (rmm st) (msg + MH_SENDER) 32" by (rule apart_reads(1) [OF so0]) (use free(1) in \<open>auto simp: apart_def\<close>)
      finally show ?thesis .
    qed
    show "rd_sint (rmm st') 4 (q + 44) = 0"
    proof -
      have "rd_sint (rmm st') 4 (q + 44) = rd_sint D 4 (q + 44)" by (rule apart_reads(3) [OF so5]) (use free(2,3) in \<open>auto simp: apart_def\<close>)
      also have "\<dots> = rd_sint C 4 (q + 44)" by (rule apart_reads(3) [OF so(3)]) auto
      also have "\<dots> = rd_sint B 4 (q + 44)" by (rule apart_reads(3) [OF so(2)]) auto
      also have "\<dots> = rd_sint ?A 4 (q + 44)" by (rule apart_reads(3) [OF so(1)]) auto
      also have "\<dots> = 0" by (rule rd_sint_zero) (use ms(3) in auto)
      finally show ?thesis .
    qed
    show "get_ptr (rmm st') (q + 120) = get_ptr (rmm st) (msg + MB_POLICY)"
    proof -
      have "get_ptr (rmm st') (q + 120) = get_ptr D (q + 120)" by (rule apart_reads(2) [OF so5]) (use free(2,3) in \<open>auto simp: apart_def\<close>)
      also have "\<dots> = get_ptr C (msg + MB_POLICY)" by (simp add: D_def get_ptr_same)
      also have "\<dots> = get_ptr B (msg + MB_POLICY)" by (rule apart_reads(2) [OF so(2)]) (use free(1) in \<open>auto simp: apart_def\<close>)+
      also have "\<dots> = get_ptr ?A (msg + MB_POLICY)" by (rule apart_reads(2) [OF so(1)]) (use free(1) in \<open>auto simp: apart_def\<close>)+
      also have "\<dots> = get_ptr (rmm st) (msg + MB_POLICY)" by (rule apart_reads(2) [OF so0]) (use free(1) in \<open>auto simp: apart_def\<close>)+
      finally show ?thesis .
    qed
    show "same_outside ({q..<q + 128} \<union> {d..<d + 36} \<union> {list + NL_NUM..<list + NL_NUM + 4}) (rmm st) (rmm st')"
      using so0 so so5 by (auto simp: same_outside_def)
  qed (use st' ms(4) in simp_all)
qed

lemma node_reads:
  assumes "mem_bytes m' t k = mem_bytes m t k" "f + n \<le> k"
  shows "mem_bytes m' (t + f) n = mem_bytes m (t + f) n" "n = 8 \<Longrightarrow> get_ptr m' (t + f) = get_ptr m (t + f)"
    "n = 4 \<Longrightarrow> rd_sint m' 4 (t + f) = rd_sint m 4 (t + f)"
proof -
  have same: "m' (t + i) = m (t + i)" if "i < k" for i using assms(1) that by (auto simp: mem_bytes_eq_iff)
  have eq: "m' x = m x" if "t + f \<le> x" "x < t + f + n" for x using same [of "x - t"] that assms(2) by auto
  show "mem_bytes m' (t + f) n = mem_bytes m (t + f) n" by (rule mem_bytes_cong) (rule eq)
  show "n = 8 \<Longrightarrow> get_ptr m' (t + f) = get_ptr m (t + f)" by (rule get_ptr_cong) (rule eq, simp_all)
  show "n = 4 \<Longrightarrow> rd_sint m' 4 (t + f) = rd_sint m 4 (t + f)" by (rule rd_sint_cong) (rule eq, simp_all)
qed

lemma hash_list_cong:
  assumes "mem_bytes (rmm st') u' 32 = mem_bytes (rmm st) u 32" "rt_hash st' = rt_hash st"
  shows "hash_list st' u' = hash_list st u"
proof -
  have "get32 (rmm st') u' = get32 (rmm st) u" using assms(1) by (simp add: get32_eq_iff mem_bytes_eq_iff)
  then show ?thesis using assms(2) by (simp add: hash_list_def hash_index_def)
qed

lemma find_last: "(\<And>x. x \<in> set xs \<Longrightarrow> \<not> P x) \<Longrightarrow> P y \<Longrightarrow> find P (xs @ [y]) = Some y"
  by (induction xs) auto

lemma settracesrc_result:
  assumes "msg \<noteq> 0" "t \<noteq> 0" "apart t 116 msg 288"
  obtains st' where "message_route_settracesrc st msg t = Some (st', 1)" "mem_bytes (rmm st') (msg + MH_RECEIVER) 32 = mem_bytes (rmm st) (t + 36) 32"
    "qi st' (msg + MH_STATE) = MSG_STATE_RESPONSE" "same_outside {msg..<msg + 288} (rmm st) (rmm st')" "rt_heap st' = rt_heap st" "rt_hash st' = rt_hash st"
proof -
  let ?A = "mem_write (rmm st) (msg + MH_RECEIVER) (mem_bytes (rmm st) (t + 36) 32)"
  let ?s1 = "rup (set_mm ?A) st" let ?B = "wr_int ?A 4 (msg + MH_STATE) MSG_STATE_RESPONSE"
  let ?s2 = "rup (wi (msg + MH_STATE) MSG_STATE_RESPONSE) ?s1"
  let ?C = "wr_int ?B 4 (msg + MH_FLAG) (rd_sint ?B 4 (msg + MH_FLAG) AND NOT MSG_FLAG_LOCAL)"
  have "rup (mcopy (msg + MH_RECEIVER) (t + 36) 32) st = ?s1"
    using assms(3) mcopy_apart [of "msg + MH_RECEIVER" "t + 36" "rt_ms st"] by (auto simp: rup_def apart_def)
  then have res: "message_route_settracesrc st msg t = Some (clear_local msg ?s2, 1)"
    using assms(1,2) by (simp add: message_route_settracesrc_def Let_def)
  have mem: "rmm (clear_local msg ?s2) = ?C" by (simp add: clear_local_def)
  have so: "same_outside {msg + 108..<msg + 108 + 4} ?A ?B" "same_outside {msg + 112..<msg + 112 + 4} ?B ?C" by (rule same_outside_writes)+
  show thesis
  proof (rule that [OF res])
    have "mem_bytes ?C (msg + MH_RECEIVER) 32 = mem_bytes ?B (msg + MH_RECEIVER) 32" by (rule apart_reads(1) [OF so(2)]) auto
    also have "\<dots> = mem_bytes ?A (msg + MH_RECEIVER) 32" by (rule apart_reads(1) [OF so(1)]) auto
    also have "\<dots> = mem_bytes (rmm st) (t + 36) 32"
      using mem_bytes_mem_write [of "rmm st" "msg + MH_RECEIVER" "mem_bytes (rmm st) (t + 36) 32"] by simp
    finally show "mem_bytes (rmm (clear_local msg ?s2)) (msg + MH_RECEIVER) 32 = mem_bytes (rmm st) (t + 36) 32" unfolding mem .
    have "rd_sint ?C 4 (msg + MH_STATE) = rd_sint ?B 4 (msg + MH_STATE)" by (rule apart_reads(3) [OF so(2)]) auto
    then show "qi (clear_local msg ?s2) (msg + MH_STATE) = MSG_STATE_RESPONSE" unfolding mem by (simp add: rd_sint_wr_int)
    show "same_outside {msg..<msg + 288} (rmm st) (rmm (clear_local msg ?s2))"
      unfolding mem using so by (auto simp: same_outside_def mem_write_apply)
  qed (simp_all add: clear_local_def)
qed

lemma settracetarget_result:
  assumes "msg \<noteq> 0" "t \<noteq> 0" "apart t 116 msg 288" "qp st (t + 108) + RP_RESPONSE < 2 ^ 64"
  obtains st' where "message_route_settracetarget st msg t = Some (st', 1)" "mem_bytes (rmm st') (msg + MH_RECEIVER) 32 = mem_bytes (rmm st) (msg + MH_RECEIVER) 32"
    "qi st' (msg + MH_STATE) = qi st (msg + MH_STATE)" "qp st' (msg + MB_POLICY) = qp st (t + 108)" "qp st' (msg + MB_PATH_SITE) = qp st (t + 108) + RP_RESPONSE"
    "mem_bytes (rmm st') (msg + MH_SENDER) 32 = mem_bytes (rmm st) (t + 68) 32"
proof -
  let ?A = "mem_write (rmm st) (msg + MH_SENDER) (mem_bytes (rmm st) (t + 68) 32)"
  let ?B = "wr_int ?A 4 (msg + MH_FLAG) (rd_sint ?A 4 (msg + MH_FLAG) AND NOT MSG_FLAG_LOCAL)"
  let ?s1 = "clear_local msg (rup (set_mm ?A) st)"
  let ?C = "put_ptr ?B (msg + MB_POLICY) (get_ptr ?B (t + 108))"
  let ?D = "put_ptr ?C (msg + MB_PATH_SITE) (get_ptr ?C (msg + MB_POLICY) + RP_RESPONSE)"
  have "rup (mcopy (msg + MH_SENDER) (t + 68) 32) st = rup (set_mm ?A) st"
    using assms(3) mcopy_apart [of "msg + MH_SENDER" "t + 68" "rt_ms st"] by (auto simp: rup_def apart_def)
  then obtain st' where st': "message_route_settracetarget st msg t = Some (st', 1)" "rmm st' = ?D"
    using assms(1,2) by (simp add: message_route_settracetarget_def Let_def clear_local_def)
  have so: "same_outside {msg + 8..<msg + 8 + 32} (rmm st) ?A" "same_outside {msg + 112..<msg + 112 + 4} ?A ?B"
    "same_outside {msg + 264..<msg + 264 + 8} ?B ?C" "same_outside {msg + 280..<msg + 280 + 8} ?C ?D"
    by (rule same_outside_writes; simp)+
  then have all: "same_outside ({msg + 8..<msg + 40} \<union> {msg + 112..<msg + 116} \<union> {msg + 264..<msg + 272} \<union> {msg + 280..<msg + 288}) (rmm st) ?D"
    by (auto simp: same_outside_def)
  have early: "same_outside ({msg + 8..<msg + 40} \<union> {msg + 112..<msg + 116}) (rmm st) ?B"
    using so(1,2) by (auto simp: same_outside_def)
  have p: "get_ptr ?B (t + 108) = qp st (t + 108)"
    by (rule apart_reads(2) [OF early]) (use assms(3) in \<open>auto simp: apart_def\<close>)
  then have C: "get_ptr ?C (msg + MB_POLICY) = qp st (t + 108)" using get_ptr_less by simp
  show thesis
  proof (rule that [OF st'(1)], unfold st'(2))
    show "mem_bytes ?D (msg + MH_RECEIVER) 32 = mem_bytes (rmm st) (msg + MH_RECEIVER) 32" by (rule apart_reads(1) [OF all]) auto
    show "rd_sint ?D 4 (msg + MH_STATE) = qi st (msg + MH_STATE)" by (rule apart_reads(3) [OF all]) auto
    have "mem_bytes ?D (msg + MH_SENDER) 32 = mem_bytes ?C (msg + MH_SENDER) 32" by (rule apart_reads(1) [OF so(4)]) auto
    also have "\<dots> = mem_bytes ?B (msg + MH_SENDER) 32" by (rule apart_reads(1) [OF so(3)]) auto
    also have "\<dots> = mem_bytes ?A (msg + MH_SENDER) 32" by (rule apart_reads(1) [OF so(2)]) auto
    also have "\<dots> = mem_bytes (rmm st) (t + 68) 32"
      using mem_bytes_mem_write [of "rmm st" "msg + MH_SENDER" "mem_bytes (rmm st) (t + 68) 32"] by simp
    finally show "mem_bytes ?D (msg + MH_SENDER) 32 = mem_bytes (rmm st) (t + 68) 32" .
    show "get_ptr ?D (msg + MB_POLICY) = qp st (t + 108)" using C by (subst apart_reads(2) [OF so(4)]) auto
    show "get_ptr ?D (msg + MB_PATH_SITE) = qp st (t + 108) + RP_RESPONSE" unfolding C using assms(4) by (intro get_ptr_put_ptr) simp
  qed
qed

section \<open>Aspects\<close>

lemmas write_outside = mem_write_apply put_ptr_outside wr_int_outside

lemma reads_over [field_simps2]:
  "a + length bs \<le> x \<or> x + n \<le> a \<Longrightarrow> mem_bytes (mem_write m a bs) x n = mem_bytes m x n"
  "a + 8 \<le> x \<or> x + n \<le> a \<Longrightarrow> mem_bytes (put_ptr m a p) x n = mem_bytes m x n"
  "a + k \<le> x \<or> x + n \<le> a \<Longrightarrow> mem_bytes (wr_int m k a v) x n = mem_bytes m x n"
  "a + length bs \<le> x \<or> x + 8 \<le> a \<Longrightarrow> get_ptr (mem_write m a bs) x = get_ptr m x"
  "a + length bs \<le> x \<or> x + n \<le> a \<Longrightarrow> rd_sint (mem_write m a bs) n x = rd_sint m n x"
  "length bs = n \<Longrightarrow> mem_bytes (mem_write m a bs) a n = bs"
  by (auto intro!: mem_bytes_cong get_ptr_cong rd_sint_cong simp: write_outside)

text \<open>The fields of a message that an aspect keeps, and the memory with the node filled at \<open>p\<close>.\<close>

record aspect_info =
  ai_sender :: "byte list"
  ai_receiver :: "byte list"
  ai_route :: "byte list"
  ai_nonce :: "byte list"
  ai_ints :: "int list"
  ai_policy :: nat
  ai_site :: nat

definition aspect_info_of :: "mem \<Rightarrow> nat \<Rightarrow> aspect_info" where
  "aspect_info_of m b = \<lparr>ai_sender = mem_bytes m (b + MH_SENDER) 32, ai_receiver = mem_bytes m (b + MH_RECEIVER) 32,
     ai_route = mem_bytes m (b + MH_ROUTE) 32, ai_nonce = mem_bytes m (b + MH_NONCE) 32,
     ai_ints = map (\<lambda>f. rd_sint m 4 (b + f)) [MH_FLOW, MH_STATE, MH_LJUMP, MH_RJUMP],
     ai_policy = get_ptr m (b + MB_POLICY), ai_site = get_ptr m (b + MB_PATH_SITE)\<rparr>"

definition node_info_of :: "mem \<Rightarrow> nat \<Rightarrow> aspect_info" where
  "node_info_of m p = \<lparr>ai_sender = mem_bytes m (p + 68) 32, ai_receiver = mem_bytes m (p + 100) 32,
     ai_route = mem_bytes m (p + 132) 32, ai_nonce = mem_bytes m (p + 36) 32,
     ai_ints = map (\<lambda>f. rd_sint m 4 (p + f)) [164, 168, 176, 180], ai_policy = get_ptr m (p + 192), ai_site = get_ptr m (p + 184)\<rparr>"

lemma rup_mem [simp]:
  "rup (wi a v) (rup (set_mm m) st) = rup (set_mm (wr_int m 4 a v)) st"
  "rup (wp a p) (rup (set_mm m) st) = rup (set_mm (put_ptr m a p)) st"
  "rup (set_mm m') (rup (set_mm m) st) = rup (set_mm m') st"
  "apart d 32 s 32 \<Longrightarrow> rup (mcopy d s 32) (rup (set_mm m) st) = rup (set_mm (mem_write m d (mem_bytes m s 32))) st"
  by (simp_all add: rup_def wi_def wp_def mcopy_apart) (simp_all add: set_mm_def)

lemma rup_same: "rup (set_mm (rmm st)) st = st"
  by (simp add: rup_def set_mm_def)

lemma aspect_node_filled:
  fixes M0 :: mem
  assumes ap: "apart p 200 msg 288" and M0: "same_outside {q..<p + 200} m M0" "apart q (p + 200 - q) msg 288" "length new = 32" "q \<le> p"
  obtains M where "fill_aspect_node msg p (rup (set_mm (mem_write (wr_int (mem_write M0 (p + 36) (mem_bytes m (msg + MH_NONCE) 32)) 4 (p + 32) MSG_FLOW_ASPECT)
      (msg + MH_NONCE) new)) st) = rup (set_mm M) st" "same_outside ({q..<p + 200} \<union> {msg + MH_NONCE..<msg + MH_NONCE + 32}) m M"
    "mem_bytes M p 32 = new" "mem_bytes M (msg + MH_NONCE) 32 = new" "rd_sint M 4 (p + 32) = MSG_FLOW_ASPECT"
    "node_info_of M p = aspect_info_of m msg" "rd_sint M 4 (p + 172) = rd_sint m 4 (msg + MH_FLAG)"
proof -
  let ?st3 = "rup (set_mm (mem_write (wr_int (mem_write M0 (p + 36) (mem_bytes m (msg + MH_NONCE) 32)) 4 (p + 32) MSG_FLOW_ASPECT) (msg + MH_NONCE) new)) st"
  define copy where "copy off field s = rup (mcopy (p + off) (msg + field) 32) s" for off field s
  define int4 where "int4 off field s = rup (wi (p + off) (qi s (msg + field))) s" for off field s
  define st4 where "st4 = copy 132 MH_ROUTE (copy 100 MH_RECEIVER (copy 68 MH_SENDER (copy 0 MH_NONCE ?st3)))"
  define st5 where "st5 = int4 180 MH_RJUMP (int4 176 MH_LJUMP (int4 172 MH_FLAG (int4 168 MH_STATE (int4 164 MH_FLOW st4))))"
  define st6 where "st6 = rup (wp (p + 192) (qp st5 (msg + MB_POLICY))) st5"
  define st7 where "st7 = rup (wp (p + 184) (qp st6 (msg + MB_PATH_SITE))) st6"
  have fill: "fill_aspect_node msg p ?st3 = st7"
    unfolding fill_aspect_node_def Let_def st7_def st6_def st5_def st4_def copy_def int4_def by (rule refl)
  let ?b = "\<lambda>f. mem_bytes m (msg + f) 32" let ?i = "\<lambda>f. rd_sint m 4 (msg + f)" let ?p = "\<lambda>f. get_ptr m (msg + f)"
  have ap2: "apart (p + a) 32 (msg + f) 32" if "a + 32 \<le> 200" "f + 32 \<le> 288" for a f using ap that by (auto simp: apart_def)
  have reads: "f + 32 \<le> 288 \<Longrightarrow> mem_bytes M0 (msg + f) 32 = ?b f" "f + 4 \<le> 288 \<Longrightarrow> rd_sint M0 4 (msg + f) = ?i f"
    "f + 8 \<le> 288 \<Longrightarrow> get_ptr M0 (msg + f) = ?p f" for f
    using M0(2) ap by (auto intro!: apart_reads [OF M0(1)] simp: apart_def)
  define M4 where "M4 = mem_write (mem_write (mem_write (mem_write (mem_write (wr_int (mem_write M0 (p + 36) (?b MH_NONCE)) 4 (p + 32) MSG_FLOW_ASPECT)
    (msg + MH_NONCE) new) p new) (p + 68) (?b MH_SENDER)) (p + 100) (?b MH_RECEIVER)) (p + 132) (?b MH_ROUTE)"
  define M5 where "M5 = wr_int (wr_int (wr_int (wr_int (wr_int M4 4 (p + 164) (?i MH_FLOW)) 4 (p + 168) (?i MH_STATE)) 4 (p + 172) (?i MH_FLAG))
    4 (p + 176) (?i MH_LJUMP)) 4 (p + 180) (?i MH_RJUMP)"
  define M where "M = put_ptr (put_ptr M5 (p + 192) (?p MB_POLICY)) (p + 184) (?p MB_PATH_SITE)"
  have or: "p + 200 \<le> msg \<or> msg + 288 \<le> p" using ap by (simp add: apart_def)
  have M4: "st4 = rup (set_mm M4) st" "mem_bytes M4 (msg + MH_NONCE) 32 = new"
    "\<And>f. f + 4 \<le> 148 \<Longrightarrow> rd_sint M4 4 (msg + f) = ?i f" "\<And>f. 180 \<le> f \<Longrightarrow> f + 8 \<le> 288 \<Longrightarrow> get_ptr M4 (msg + f) = ?p f"
    unfolding st4_def copy_def M4_def using or ap2 [of 0] M0(3) by (elim disjE; simp add: ap2 reads reads_over rd_sint_other get_ptr_other)+
  have M5: "st5 = rup (set_mm M5) st" "\<And>f. 180 \<le> f \<Longrightarrow> f + 8 \<le> 288 \<Longrightarrow> get_ptr M5 (msg + f) = ?p f" "mem_bytes M5 (msg + MH_NONCE) 32 = new"
    unfolding st5_def int4_def M4(1) M5_def using or by (elim disjE; simp add: M4 reads_over rd_sint_other get_ptr_other)+
  have "st7 = rup (set_mm M) st" "mem_bytes M (msg + MH_NONCE) 32 = new"
    unfolding st7_def st6_def M5(1) M_def using or by (elim disjE; simp add: M5 reads_over get_ptr_other)+
  moreover have "same_outside ({q..<p + 200} \<union> {msg + MH_NONCE..<msg + MH_NONCE + 32}) m M"
  proof -
    have "M x = m x" if "x \<notin> {q..<p + 200}" "x \<notin> {msg + MH_NONCE..<msg + MH_NONCE + 32}" for x
    proof -
      have "x < p \<or> p + 200 \<le> x" "x < msg + MH_NONCE \<or> msg + MH_NONCE + 32 \<le> x" using that M0(4) by auto
      moreover from this(1) have "M x = M4 x" unfolding M_def M5_def by (elim disjE; simp add: put_ptr_outside wr_int_outside)
      moreover have "M0 x = m x" using M0(1) that(1) by (simp add: same_outside_def)
      ultimately show ?thesis unfolding M4_def by (elim disjE; simp add: mem_write_apply wr_int_outside M0(3))
    qed
    then show ?thesis by (auto simp: same_outside_def)
  qed
  moreover have "mem_bytes M p 32 = new" "rd_sint M 4 (p + 32) = MSG_FLOW_ASPECT" "rd_sint M 4 (p + 172) = ?i MH_FLAG"
    "node_info_of M p = aspect_info_of m msg"
    unfolding M_def M5_def M4_def node_info_of_def aspect_info_of_def using or M0(3)
    by (elim disjE; simp add: reads_over rd_sint_other get_ptr_other rd_sint_same get_ptr_same rd_sint_wr_int)+
  ultimately show thesis using that fill by auto
qed

lemma m_dalloc0_random: "m_dalloc0 sz b st = (st', p) \<Longrightarrow> ms_random st' = ms_random st \<and> ms_draws st' = ms_draws st"
  by (auto simp: m_dalloc0_def on_es_def split: prod.splits)

lemma create_aspect_node_result:
  assumes "coming (rt_ms st) 0 = Some q" "coming (rt_ms st) 1 = Some d" "msg \<noteq> 0"
    and new: "ms_random (rt_ms st) (ms_draws (rt_ms st)) = Inr new" "length new = 32"
    and list: "list = rt_hash st + 40 * hash_index (mem_write (rmm st) (msg + MH_NONCE) new) (msg + MH_NONCE)" "list \<noteq> 0"
      "dlist (rt_heap st) list ns" "d + 12 \<notin> set (list # ns)"
    and free: "apart q 212 msg 288" "apart q 212 d 36" "apart q 212 list 40" "apart msg 288 d 36" "apart msg 288 list 40"
  obtains st' where "create_aspect_node st msg = Some (st', q + 12)" "dlist (rt_heap st') list (ns @ [d + 12])"
    "\<And>n. rcd (rt_heap st') n = (if n = d + 12 then q + 12 else rcd (rt_heap st) n)" "rt_hash st' = rt_hash st"
    "mem_bytes (rmm st') (q + 12) 32 = new" "mem_bytes (rmm st') (msg + MH_NONCE) 32 = new" "rd_sint (rmm st') 4 (q + 44) = MSG_FLOW_ASPECT"
    "node_info_of (rmm st') (q + 12) = aspect_info_of (rmm st) msg" "rd_sint (rmm st') 4 (q + 184) = qi st (msg + MH_FLAG)"
    "same_outside ({q..<q + 212} \<union> {d..<d + 36} \<union> {list + NL_NUM..<list + NL_NUM + 4} \<union> {msg..<msg + 288}) (rmm st) (rmm st')"
    "hash_list st' (msg + MH_NONCE) = list"
    "rt_waiting st' = rt_waiting st" "\<And>a. a \<notin> set (list # ns) \<Longrightarrow> a \<noteq> d + 12 \<Longrightarrow> same_links (rt_heap st) (rt_heap st') a"
    "\<And>k. coming (rt_ms st') k = coming (rt_ms st) (Suc (Suc k))"
proof -
  let ?p = "q + 12" let ?m = "rmm st"
  obtain ms where ms: "m_dalloc0 200 0 (rt_ms st) = (ms, ?p)" "same_outside {q..<q + 12 + nat 200} ?m (mm ms)"
    "\<And>x. q + 12 \<le> x \<Longrightarrow> x < q + 12 + nat 200 \<Longrightarrow> mm ms x = 0" "\<And>k. coming ms k = coming (rt_ms st) (Suc k)"
    by (rule m_dalloc0_result [OF assms(1), of 200 0]) blast
  have rand: "ms_random ms = ms_random (rt_ms st)" "ms_draws ms = ms_draws (rt_ms st)" using m_dalloc0_random [OF ms(1)] by auto
  have so0: "same_outside {q..<?p + 200} ?m (mm ms)" using ms(2) by (simp add: add.commute)
  have ap: "apart ?p 200 msg 288" "apart q (?p + 200 - q) msg 288" using free(1) by (auto simp: apart_def)
  let ?A = "st\<lparr>rt_ms := ms\<rparr>" let ?B = "st\<lparr>rt_ms := ms\<lparr>ms_draws := ms_draws ms + 1\<rparr>\<rparr>"
  define M1 where "M1 = wr_int (mem_write (mm ms) (?p + 36) (mem_bytes ?m (msg + MH_NONCE) 32)) 4 (?p + 32) MSG_FLOW_ASPECT"
  have "mem_bytes (mm ms) (msg + MH_NONCE) 32 = mem_bytes ?m (msg + MH_NONCE) 32"
    by (rule apart_reads(1) [OF so0]) (use free(1) in \<open>auto simp: apart_def\<close>)
  then have st2: "rup (wi (?p + 32) MSG_FLOW_ASPECT) (rup (mcopy (?p + 36) (msg + MH_NONCE) 32) ?A) = rup (set_mm M1) ?A"
    using mcopy_apart [of "?p + 36" "msg + MH_NONCE" ms] free(1) by (auto simp: M1_def rup_def apart_def wi_def) (simp_all add: set_mm_def)
  have st3: "fst (rpair (\<lambda>ms. random_nonce ms (msg + MH_NONCE)) (rup (set_mm M1) ?A)) = rup (set_mm (mem_write M1 (msg + MH_NONCE) new)) ?B"
    using new(1) rand by (simp add: rpair_def random_nonce_def rup_def set_mm_def Let_def)
  obtain M where M: "fill_aspect_node msg ?p (rup (set_mm (mem_write M1 (msg + MH_NONCE) new)) ?B) = rup (set_mm M) ?B"
    "same_outside ({q..<?p + 200} \<union> {msg + MH_NONCE..<msg + MH_NONCE + 32}) ?m M"
    "mem_bytes M ?p 32 = new" "mem_bytes M (msg + MH_NONCE) 32 = new" "rd_sint M 4 (?p + 32) = MSG_FLOW_ASPECT"
    "node_info_of M ?p = aspect_info_of ?m msg" "rd_sint M 4 (?p + 172) = qi st (msg + MH_FLAG)"
    unfolding M1_def by (rule aspect_node_filled [OF ap(1) so0 ap(2) new(2), of ?B]) simp_all
  have create: "create_aspect_node st msg = do { st8 \<leftarrow> r_strncpy (msg + MH_ROUTE) (msg + MH_SENDER) 32 (rup (set_mm M) ?B);
       Some (fst (node_list_add st8 (hash_list st8 (msg + MH_NONCE)) ?p), ?p) }"
  proof -
    have "rpair (m_dalloc0 200 0) st = (?A, ?p)" using ms(1) by (simp add: rpair_def)
    then show ?thesis using assms(3) unfolding create_aspect_node_def
      by (simp only: Let_def prod.case st2 st3 M(1) fst_conv if_False) simp
  qed
  obtain N where N: "r_strncpy (msg + MH_ROUTE) (msg + MH_SENDER) 32 (rup (set_mm M) ?B) = Some (rup (set_mm N) ?B)"
    "same_outside {msg + MH_ROUTE..<msg + MH_ROUTE + 32} M N"
    using r_strncpy_frame [of "msg + MH_ROUTE" "msg + MH_SENDER" 32 "rup (set_mm M) ?B"] by auto
  let ?st8 = "rup (set_mm N) ?B"
  have nonce: "mem_bytes N (msg + MH_NONCE) 32 = new" using apart_reads(1) [OF N(2), of "msg + MH_NONCE" 32] M(4) by auto
  have hash: "hash_list ?st8 (msg + MH_NONCE) = list"
    using hash_list_cong [of ?st8 "msg + MH_NONCE" "rup (set_mm (mem_write ?m (msg + MH_NONCE) new)) ?B" "msg + MH_NONCE"] nonce new(2) list(1)
    by (simp add: reads_over hash_list_def rup_def)
  have "coming (rt_ms ?st8) 0 = Some d" using ms(4) [of 0] assms(2) by (simp add: coming_def set_mm_def)
  then obtain st' where st': "node_list_add ?st8 list ?p = (st', d + 12)" "dlist (rt_heap st') list (ns @ [d + 12])"
    "\<And>n. rcd (rt_heap st') n = (if n = d + 12 then ?p else rcd (rt_heap ?st8) n)"
    "same_outside ({d..<d + 36} \<union> {list + NL_NUM..<list + NL_NUM + 4}) (rmm ?st8) (rmm st')" "rt_hash st' = rt_hash ?st8"
    "rt_waiting st' = rt_waiting ?st8" "\<And>a. a \<notin> set (list # ns) \<Longrightarrow> a \<noteq> d + 12 \<Longrightarrow> same_links (rt_heap ?st8) (rt_heap st') a"
    "\<And>k. coming (rt_ms st') k = coming (rt_ms ?st8) (Suc k)"
    by (rule node_list_add_result [where list = list and ns = ns and st = ?st8 and r = ?p]) (use list in simp_all)
  have so5: "same_outside ({d..<d + 36} \<union> {list + NL_NUM..<list + NL_NUM + 4}) N (rmm st')" using st'(4) by simp
  have node: "mem_bytes (rmm st') ?p 200 = mem_bytes M ?p 200"
  proof -
    have "mem_bytes (rmm st') ?p 200 = mem_bytes N ?p 200"
      by (rule apart_reads(1) [OF so5]) (use free(2,3) in \<open>auto simp: apart_def\<close>)
    also have "\<dots> = mem_bytes M ?p 200" by (rule apart_reads(1) [OF N(2)]) (use free(1) in \<open>auto simp: apart_def\<close>)
    finally show ?thesis .
  qed
  note at = node_reads [OF node]
  have msg: "mem_bytes (rmm st') (msg + MH_NONCE) 32 = new"
    using apart_reads(1) [OF so5, of "msg + MH_NONCE" 32] nonce free(4,5) by (auto simp: apart_def)
  show thesis
  proof (rule that)
    show "create_aspect_node st msg = Some (st', ?p)" using create N(1) hash st'(1) by simp
    show "mem_bytes (rmm st') ?p 32 = new" using at(1) [of 0 32] M(3) by simp
    show "rd_sint (rmm st') 4 (q + 44) = MSG_FLOW_ASPECT" using at(3) [of 32 4] M(5) by (simp add: add.commute)
    show "rd_sint (rmm st') 4 (q + 184) = qi st (msg + MH_FLAG)" using at(3) [of 172 4] M(7) by (simp add: add.commute)
    show "node_info_of (rmm st') ?p = aspect_info_of ?m msg"
      using at(1) [of 68 32] at(1) [of 100 32] at(1) [of 132 32] at(1) [of 36 32] at(2) [of 192 8] at(2) [of 184 8]
        at(3) [of 164 4] at(3) [of 168 4] at(3) [of 176 4] at(3) [of 180 4] unfolding M(6) [symmetric] node_info_of_def by simp
    show "same_outside ({q..<q + 212} \<union> {d..<d + 36} \<union> {list + NL_NUM..<list + NL_NUM + 4} \<union> {msg..<msg + 288}) ?m (rmm st')"
      using M(2) N(2) so5 by (auto simp: same_outside_def)
    show "hash_list st' (msg + MH_NONCE) = list" using hash_list_cong [of st' "msg + MH_NONCE" ?st8 "msg + MH_NONCE"] msg nonce st'(5) hash by simp
  next
    show "coming (rt_ms st') k = coming (rt_ms st) (Suc (Suc k))" for k
      using st'(8) [of k] ms(4) [of "Suc k"] by (simp add: coming_def set_mm_def rup_def)
  qed (use st' msg in simp_all)
qed

lemma int32_and_or:
  fixes a b :: int
  assumes "- (2 ^ 31) \<le> a \<and> a < 2 ^ 31" "- (2 ^ 31) \<le> b \<and> b < 2 ^ 31"
  shows "- (2 ^ 31) \<le> (a AND flag_mask) OR (b AND NOT flag_mask) \<and> (a AND flag_mask) OR (b AND NOT flag_mask) < 2 ^ 31"
proof -
  have "signed_take_bit 31 a = a" "signed_take_bit 31 b = b" using assms by (simp_all only: signed_take_bit_int_eq_self_iff)
  moreover have "signed_take_bit 31 flag_mask = flag_mask" "signed_take_bit 31 (NOT flag_mask) = NOT flag_mask"
    by (simp_all only: signed_take_bit_int_eq_self_iff) simp_all
  moreover have bit: "signed_take_bit 31 ((x AND y) OR (z AND w)) = (signed_take_bit 31 x AND signed_take_bit 31 y) OR (signed_take_bit 31 z AND signed_take_bit 31 w)"
    for x y z w :: int by (rule bit_eqI) (auto simp: bit_signed_take_bit_iff bit_or_iff bit_and_iff)
  ultimately have "signed_take_bit 31 ((a AND flag_mask) OR (b AND NOT flag_mask)) = (a AND flag_mask) OR (b AND NOT flag_mask)"
    by (metis bit)
  then show ?thesis by (simp only: signed_take_bit_int_eq_self_iff)
qed

lemma recover_aspect_message_result:
  assumes "apart t 200 msg 288"
  shows "aspect_info_of (rmm (recover_aspect_message st msg t)) msg = node_info_of (rmm st) t"
    and "qi (recover_aspect_message st msg t) (msg + MH_FLAG) = (qi st (msg + MH_FLAG) AND flag_mask) OR (qi st (t + 172) AND NOT flag_mask)"
proof -
  let ?m = "rmm st" let ?f = "(qi st (msg + MH_FLAG) AND flag_mask) OR (qi st (t + 172) AND NOT flag_mask)"
  let ?b = "\<lambda>f. mem_bytes ?m (t + f) 32" let ?i = "\<lambda>f. rd_sint ?m 4 (t + f)"
  define copy where "copy field off s = rup (mcopy (msg + field) (t + off) 32) s" for field off s
  define int4 where "int4 field off s = rup (wi (msg + field) (qi s (t + off))) s" for field off s
  define st1 where "st1 = copy MH_ROUTE 132 (copy MH_RECEIVER 100 (copy MH_SENDER 68 (copy MH_NONCE 36 (rup (set_mm ?m) st))))"
  define st2 where "st2 = int4 MH_STATE 168 (int4 MH_FLOW 164 st1)"
  define st3 where "st3 = rup (wi (msg + MH_FLAG) ((qi st2 (msg + MH_FLAG) AND flag_mask) OR (qi st2 (t + 172) AND NOT flag_mask))) st2"
  define st4 where "st4 = int4 MH_RJUMP 180 (int4 MH_LJUMP 176 st3)"
  define st5 where "st5 = rup (wp (msg + MB_POLICY) (qp st4 (t + 192))) st4"
  define st6 where "st6 = rup (wp (msg + MB_PATH_SITE) (qp st5 (t + 184))) st5"
  have res: "recover_aspect_message st msg t = st6"
    unfolding recover_aspect_message_def Let_def st6_def st5_def st4_def st3_def st2_def st1_def copy_def int4_def
    by (simp only: rup_same)
  have or: "t + 200 \<le> msg \<or> msg + 288 \<le> t" using assms by (simp add: apart_def)
  have ap: "apart (msg + f) 32 (t + a) 32" if "a + 32 \<le> 200" "f + 32 \<le> 288" for a f using assms that by (auto simp: apart_def)
  define M1 where "M1 = mem_write (mem_write (mem_write (mem_write ?m (msg + MH_NONCE) (?b 36)) (msg + MH_SENDER) (?b 68)) (msg + MH_RECEIVER) (?b 100)) (msg + MH_ROUTE) (?b 132)"
  define M3 where "M3 = wr_int (wr_int (wr_int M1 4 (msg + MH_FLOW) (?i 164)) 4 (msg + MH_STATE) (?i 168)) 4 (msg + MH_FLAG) ?f"
  define M4 where "M4 = wr_int (wr_int M3 4 (msg + MH_LJUMP) (?i 176)) 4 (msg + MH_RJUMP) (?i 180)"
  define M where "M = put_ptr (put_ptr M4 (msg + MB_POLICY) (get_ptr ?m (t + 192))) (msg + MB_PATH_SITE) (get_ptr ?m (t + 184))"
  have M1: "st1 = rup (set_mm M1) st" "rd_sint M1 4 (msg + MH_FLAG) = qi st (msg + MH_FLAG)"
    "\<And>f. f + 4 \<le> 200 \<Longrightarrow> rd_sint M1 4 (t + f) = ?i f" "\<And>f. f + 8 \<le> 200 \<Longrightarrow> get_ptr M1 (t + f) = get_ptr ?m (t + f)"
    unfolding st1_def copy_def M1_def using or by (elim disjE; simp add: ap reads_over)+
  have M3: "st3 = rup (set_mm M3) st" "\<And>f. f + 4 \<le> 200 \<Longrightarrow> rd_sint M3 4 (t + f) = ?i f"
    "\<And>f. f + 8 \<le> 200 \<Longrightarrow> get_ptr M3 (t + f) = get_ptr ?m (t + f)"
    unfolding st3_def st2_def int4_def M3_def M1(1) using or by (elim disjE; simp add: M1 rd_sint_other get_ptr_other)+
  have M4: "st4 = rup (set_mm M4) st" "\<And>f. f + 8 \<le> 200 \<Longrightarrow> get_ptr M4 (t + f) = get_ptr ?m (t + f)"
    unfolding st4_def int4_def M4_def M3(1) using or by (elim disjE; simp add: M3 rd_sint_other get_ptr_other)+
  have M: "st6 = rup (set_mm M) st"
    unfolding st6_def st5_def M_def M4(1) using or by (elim disjE; simp add: M4 get_ptr_other)
  show "aspect_info_of (rmm (recover_aspect_message st msg t)) msg = node_info_of ?m t"
    unfolding res M aspect_info_of_def node_info_of_def M_def M4_def M3_def M1_def
    by (simp add: reads_over rd_sint_other get_ptr_other rd_sint_same get_ptr_same)
  have "- (2 ^ 31) \<le> ?f \<and> ?f < 2 ^ 31" by (intro int32_and_or) (use rd_sint_range [of 4] in auto)
  then show "qi (recover_aspect_message st msg t) (msg + MH_FLAG) = ?f"
    unfolding res M M_def M4_def M3_def by (simp add: rd_sint_other get_ptr_other rd_sint_wr_int)
qed

section \<open>Matching\<close>

text \<open>The text in a field of \<open>n\<close> bytes.\<close>

definition text_in :: "mem \<Rightarrow> nat \<Rightarrow> nat \<Rightarrow> byte list" where "text_in m a n = takeWhile (\<lambda>c. c \<noteq> 0) (mem_bytes m a n)"

lemma strncmp_loop_text: "strncmp_loop m a b n = 0 \<longleftrightarrow> text_in m a n = text_in m b n"
proof (induction n arbitrary: a b)
  case (Suc n)
  then show ?case using Suc.IH [of "Suc a" "Suc b"]
    by (cases "n = 0") (auto simp: text_in_def mem_bytes_Suc)
qed (simp add: text_in_def)

lemma Strncmp_text: "Strncmp m a b 32 = 0 \<longleftrightarrow> text_in m a 32 = text_in m b 32"
  by (simp add: Strncmp_def strncmp_loop_text)

text \<open>
  What a list of rules on the head says of a message: each rule has an operator and a value, and the first rule that decides gives the verdict.
  The operators are and 1, or 2, not 3 and or-not 4. If no rule decides, the message is accepted if there is an and or a not.
\<close>

fun rule_values :: "mem \<Rightarrow> nat \<Rightarrow> int \<Rightarrow> nat list \<Rightarrow> (int \<times> bool) list" where
  "rule_values m msg r [] = []"
| "rule_values m msg r (rule # rules) =
     (let v = head_result m msg rule r in (rd_sint m 4 rule, v > 0) # rule_values m msg v rules)"

fun decides :: "int \<times> bool \<Rightarrow> bool" where "decides (op, v) \<longleftrightarrow> (op \<in> {1, 4} \<and> \<not> v) \<or> (op \<in> {2, 3} \<and> v)"

definition verdict :: "(int \<times> bool) list \<Rightarrow> bool" where
  "verdict vs = (case find decides vs of Some (op, v) \<Rightarrow> op \<in> {2, 4} | None \<Rightarrow> \<exists>(op, v)\<in>set vs. op \<in> {1, 3})"

text \<open>The same, rule by rule.\<close>

fun judge :: "(int \<times> bool) list \<Rightarrow> bool \<Rightarrow> bool" where
  "judge [] prev = prev"
| "judge ((op, v) # vs) prev = (if decides (op, v) then op \<in> {2, 4} else judge vs (prev \<or> op \<in> {1, 3}))"

lemma judge_find: "judge vs prev = (case find decides vs of Some (op, v) \<Rightarrow> op \<in> {2, 4} | None \<Rightarrow> prev \<or> (\<exists>(op, v)\<in>set vs. op \<in> {1, 3}))"
  by (induction vs prev rule: judge.induct) (auto simp del: decides.simps split: option.splits)

lemma judge_verdict: "judge vs False = verdict vs"
  by (simp add: judge_find verdict_def cong: option.case_cong)

lemma head_result_range: "r \<in> {0, 1} \<Longrightarrow> head_result m msg rule r \<in> {0, 1}"
  by (simp add: head_result_def Let_def)

text \<open>A list of rules on the head, which with the message lies outside of \<open>D\<close>.\<close>

definition quiet :: "nat set \<Rightarrow> nat \<Rightarrow> nat \<Rightarrow> bool" where "quiet D a n \<longleftrightarrow> (\<forall>x. a \<le> x \<longrightarrow> x < a + n \<longrightarrow> x \<notin> D)"

definition head_rules :: "mem \<Rightarrow> nat lheap \<Rightarrow> nat set \<Rightarrow> nat \<Rightarrow> nat list \<Rightarrow> bool" where
  "head_rules m h D list ns \<longleftrightarrow> dlist h list ns \<and> rcd h list = 0 \<and> list \<noteq> 0 \<and> list < 2 ^ 64 \<and> {list + NL_CURR..<list + NL_CURR + 8} \<subseteq> D
     \<and> (\<forall>n\<in>set ns. n \<noteq> 0 \<and> n < 2 ^ 64 \<and> rcd h n \<noteq> 0 \<and> quiet D (rcd h n) 16 \<and> rd_sint m 4 (rcd h n + 4) \<in> {0, 2} \<and> rd_sint m 4 (rcd h n) \<in> {1, 2, 3, 4})"

lemma quiet_reads:
  assumes "same_outside D m m'" "quiet D a k" "f + n \<le> k"
  shows "mem_bytes m' (a + f) n = mem_bytes m (a + f) n" "n = 8 \<Longrightarrow> get_ptr m' (a + f) = get_ptr m (a + f)" "n = 4 \<Longrightarrow> rd_sint m' 4 (a + f) = rd_sint m 4 (a + f)"
  using assms(2,3) by (auto intro!: apart_reads [OF assms(1)] simp: quiet_def)

lemma head_result_quiet:
  assumes "same_outside D m m'" "quiet D rule 16" "quiet D msg 288"
  shows "head_result m' msg rule r = head_result m msg rule r"
  using quiet_reads(3) [OF assms(1,2), of 8 4] quiet_reads(3) [OF assms(1,2), of 12 4]
    quiet_reads(3) [OF assms(1,3), of MH_TYPE 4] quiet_reads(3) [OF assms(1,3), of MH_SUBTYPE 4] by (simp add: head_result_def Let_def)

lemma rule_switch_judge:
  assumes "op \<in> {1, 2, 3, 4}" "r \<in> {0, 1}" "prev \<in> {0, 1}"
  shows "rule_switch op r prev = (if decides (op, r > 0) then Inl (of_bool (op \<in> {2, 4})) else Inr (of_bool (prev > 0 \<or> op \<in> {1, 3})))"
  using assms by (auto simp: rule_switch_def)

lemma rules_step:
  assumes "head_rules m (rt_heap st) D (path + RP_MATCH) (us @ n # ns)" "quiet D msg 288" "same_outside D m (rmm st)"
    and "qp st (path + RP_MATCH + NL_CURR) = n" "r \<in> {0, 1}" "prev \<in> {0, 1}"
    and v: "v = head_result m msg (rcd (rt_heap st) n) r" and op: "op = rd_sint m 4 (rcd (rt_heap st) n)" and c: "c = hd (ns @ [path + RP_MATCH])"
  shows "rules_loop path msg (rcd (rt_heap st) n) r prev num st
    = (if decides (op, v > 0) then Some (st, of_bool (op \<in> {2, 4}))
       else rules_loop path msg (rcd (rt_heap st) c) v (of_bool (prev > 0 \<or> op \<in> {1, 3})) (num + 1) (rup (wp (path + RP_MATCH + NL_CURR) c) st))"
proof -
  let ?h = "rt_heap st" let ?list = "path + RP_MATCH" let ?rule = "rcd ?h n"
  have n: "n \<noteq> 0" "?rule \<noteq> 0" "quiet D ?rule 16" "rd_sint m 4 (?rule + 4) \<in> {0, 2}" "rd_sint m 4 ?rule \<in> {1, 2, 3, 4}"
    and l: "dlist ?h ?list (us @ n # ns)"
    using assms(1) by (auto simp: head_rules_def)
  have area: "qi st (?rule + 4) = rd_sint m 4 (?rule + 4)" "qi st ?rule = op"
    using quiet_reads(3) [OF assms(3) n(3), of 4 4] quiet_reads(3) [OF assms(3) n(3), of 0 4] op by auto
  have res: "rule_result st msg ?rule r = Some (st, v)"
    using n(4) area(1) head_result_quiet [OF assms(3) n(3) assms(2)] v by (auto simp: rule_result_def Let_def)
  have v01: "v \<in> {0, 1}" unfolding v using assms(5) by (rule head_result_range)
  have nx: "nxt ?h n = c" using dlist_nxt_mid [OF l] c by simp
  have neq: "n \<noteq> ?list" using l by (auto simp: dlist_def)
  have getnext: "route_policy_getnextmatchrule st path ?rule = (rup (wp (?list + NL_CURR) c) st, 0, rcd ?h c)"
    using assms(4) n(1) neq nx by (simp add: route_policy_getnextmatchrule_def policy_getnext_def Let_def)
  have "rules_loop path msg ?rule r prev num st =
     (case rule_switch op v prev of Inl x \<Rightarrow> Some (st, x)
      | Inr prev1 \<Rightarrow> rules_loop path msg (rcd ?h c) v prev1 (num + 1) (rup (wp (?list + NL_CURR) c) st))"
    using n(2) res v01 area(2) getnext by (subst rules_loop.simps) (auto split: sum.splits)
  also have "\<dots> = (if decides (op, v > 0) then Some (st, of_bool (op \<in> {2, 4}))
       else rules_loop path msg (rcd ?h c) v (of_bool (prev > 0 \<or> op \<in> {1, 3})) (num + 1) (rup (wp (?list + NL_CURR) c) st))"
    using n(5) op by (subst rule_switch_judge [OF _ v01 assms(6)]) (simp, cases "decides (op, v > 0)", simp_all only: if_True if_False sum.case)
  finally show ?thesis .
qed

lemma rules_loop_judge:
  assumes "head_rules m (rt_heap st) D (path + RP_MATCH) (us @ n # ns)" "quiet D msg 288" "same_outside D m (rmm st)"
    and "qp st (path + RP_MATCH + NL_CURR) = n" "r \<in> {0, 1}" "prev \<in> {0, 1}" "0 \<le> num"
  shows "\<exists>st'. rules_loop path msg (rcd (rt_heap st) n) r prev num st
      = Some (st', of_bool (judge (rule_values m msg r (map (rcd (rt_heap st)) (n # ns))) (prev > 0)))
    \<and> rt_heap st' = rt_heap st \<and> rt_route_forest st' = rt_route_forest st
    \<and> same_outside {path + RP_MATCH + NL_CURR..<path + RP_MATCH + NL_CURR + 8} (rmm st) (rmm st')"
  using assms
proof (induction ns arbitrary: us n st r prev num)
  case Nil
  let ?h = "rt_heap st" let ?list = "path + RP_MATCH" let ?v = "head_result m msg (rcd ?h n) r" let ?op = "rd_sint m 4 (rcd ?h n)"
  have "rcd ?h ?list = 0" using Nil.prems(1) by (simp add: head_rules_def)
  then have stop: "rules_loop path msg (rcd ?h ?list) v p (num + 1) s = Some (s, p)" for v p s
    using Nil.prems(7) by (simp add: rules_loop.simps)
  show ?case
  proof (cases "decides (?op, ?v > 0)")
    case True
    then show ?thesis using rules_step [OF Nil.prems(1-6) refl refl refl] by (auto simp: Let_def same_outside_def simp del: decides.simps)
  next
    case False
    then show ?thesis using rules_step [OF Nil.prems(1-6) refl refl refl] stop
      by (auto simp: Let_def same_outside_def put_ptr_outside simp del: decides.simps)
  qed
next
  case (Cons a ns)
  let ?h = "rt_heap st" let ?list = "path + RP_MATCH" let ?v = "head_result m msg (rcd ?h n) r" let ?op = "rd_sint m 4 (rcd ?h n)"
  let ?st = "rup (wp (?list + NL_CURR) a) st" let ?prev = "of_bool (prev > 0 \<or> ?op \<in> {1, 3}) :: int"
  note step = rules_step [OF Cons.prems(1-6) refl refl refl, of num]
  show ?case
  proof (cases "decides (?op, ?v > 0)")
    case True
    then show ?thesis using step by (auto simp: Let_def same_outside_def simp del: decides.simps)
  next
    case False
    have D: "{?list + NL_CURR..<?list + NL_CURR + 8} \<subseteq> D" "a < 2 ^ 64" using Cons.prems(1) by (auto simp: head_rules_def)
    have so: "same_outside {?list + NL_CURR..<?list + NL_CURR + 8} (rmm st) (rmm ?st)" by (auto simp: same_outside_def put_ptr_outside)
    have "same_outside D m (rmm ?st)"
      using same_outside_trans [OF Cons.prems(3) same_outside_mono [OF so D(1)]] .
    moreover have "head_rules m (rt_heap ?st) D ?list ((us @ [n]) @ a # ns)" using Cons.prems(1) by simp
    moreover have "qp ?st (?list + NL_CURR) = a" using D(2) by simp
    moreover have "?v \<in> {0, 1}" using Cons.prems(5) by (rule head_result_range)
    moreover have "0 \<le> num + 1" "?prev \<in> {0, 1}" using Cons.prems(7) by auto
    ultimately obtain st' where "rules_loop path msg (rcd (rt_heap ?st) a) ?v ?prev (num + 1) ?st
        = Some (st', of_bool (judge (rule_values m msg ?v (map (rcd (rt_heap ?st)) (a # ns))) (?prev > 0)))"
      "rt_heap st' = rt_heap ?st" "rt_route_forest st' = rt_route_forest ?st"
      "same_outside {?list + NL_CURR..<?list + NL_CURR + 8} (rmm ?st) (rmm st')"
      using Cons.IH [of ?st "us @ [n]" a ?v ?prev "num + 1"] Cons.prems(2) by blast
    moreover have "same_outside {?list + NL_CURR..<?list + NL_CURR + 8} (rmm st) (rmm st')" using so calculation(4) by (rule same_outside_trans)
    ultimately show ?thesis using step False by (intro exI [of _ st']) (auto simp: Let_def simp del: decides.simps)
  qed
qed

lemma quiet_text: "same_outside D m m' \<Longrightarrow> quiet D a k \<Longrightarrow> f + n \<le> k \<Longrightarrow> text_in m' (a + f) n = text_in m (a + f) n"
  using quiet_reads(1) [of D m m' a k f n] by (simp add: text_in_def)

lemma route_match_message_result:
  assumes rules: "head_rules m (rt_heap st) D (path + RP_MATCH) ns" and so: "quiet D msg 288" "quiet D path 80" "same_outside D m (rmm st)" "msg \<noteq> 0" "path \<noteq> 0"
  shows "\<exists>st'. route_match_message st path msg
      = Some (st', of_bool ((m (msg + MH_ROUTE) = 0 \<or> text_in m path 32 = text_in m (msg + MH_ROUTE) 32)
          \<and> verdict (rule_values m msg 0 (map (rcd (rt_heap st)) ns))))
    \<and> rt_heap st' = rt_heap st \<and> rt_route_forest st' = rt_route_forest st
    \<and> same_outside {path + RP_MATCH + NL_CURR..<path + RP_MATCH + NL_CURR + 8} (rmm st) (rmm st')"
proof -
  let ?h = "rt_heap st" let ?list = "path + RP_MATCH" let ?c = "hd (ns @ [?list])"
  let ?st = "rup (wp (?list + NL_CURR) ?c) st" let ?r = "{?list + NL_CURR..<?list + NL_CURR + 8}"
  have l: "dlist ?h ?list ns" "rcd ?h ?list = 0" "?r \<subseteq> D" using rules by (auto simp: head_rules_def)
  have nx: "nxt ?h ?list = ?c" by (rule dlist_nxt_head [OF l(1)])
  have c: "?c \<noteq> 0" "?c < 2 ^ 64" using rules by (cases ns; auto simp: head_rules_def)+
  have first: "dispatch_policy_getfirstmatchrule st path = (?st, 0, rcd ?h ?c)"
    by (simp add: dispatch_policy_getfirstmatchrule_def policy_getfirst_def nx Let_def)
  have "rmm st (msg + MH_ROUTE) = m (msg + MH_ROUTE)" using so(1,3) by (simp add: same_outside_def quiet_def)
  then have free: "(rmm st (msg + MH_ROUTE) \<noteq> 0 \<and> Strncmp (rmm st) path (msg + MH_ROUTE) 32 \<noteq> 0)
      \<longleftrightarrow> \<not> (m (msg + MH_ROUTE) = 0 \<or> text_in m path 32 = text_in m (msg + MH_ROUTE) 32)"
    using quiet_text [OF so(3,2), of 0 32] quiet_text [OF so(3,1), of MH_ROUTE 32] by (simp add: Strncmp_text)
  have so1: "same_outside ?r (rmm st) (rmm ?st)" by (auto simp: same_outside_def put_ptr_outside)
  have "\<exists>st'. rules_loop path msg (rcd ?h ?c) 0 0 0 ?st = Some (st', of_bool (verdict (rule_values m msg 0 (map (rcd ?h) ns))))
    \<and> rt_heap st' = ?h \<and> rt_route_forest st' = rt_route_forest st \<and> same_outside ?r (rmm st) (rmm st')"
  proof (cases ns)
    case Nil
    then show ?thesis using l(2) so1 by (intro exI [of _ ?st]) (simp add: rules_loop.simps verdict_def)
  next
    case (Cons n ns')
    have "same_outside D m (rmm ?st)" using same_outside_trans [OF so(3) same_outside_mono [OF so1 l(3)]] .
    then obtain st' where "rules_loop path msg (rcd ?h n) 0 0 0 ?st = Some (st', of_bool (judge (rule_values m msg 0 (map (rcd ?h) (n # ns'))) False))"
      "rt_heap st' = ?h" "rt_route_forest st' = rt_route_forest st" "same_outside ?r (rmm ?st) (rmm st')"
      using rules_loop_judge [of m ?st D path "[]" n ns' msg 0 0 0] rules so(1) c(2) Cons by auto
    then show ?thesis using Cons same_outside_trans [OF so1, of "rmm st'"] by (intro exI [of _ st']) (simp add: judge_verdict)
  qed
  moreover have "route_match_message st path msg
      = (if \<not> (m (msg + MH_ROUTE) = 0 \<or> text_in m path 32 = text_in m (msg + MH_ROUTE) 32) then Some (st, 0) else rules_loop path msg (rcd ?h ?c) 0 0 0 ?st)"
    using so(4,5) unfolding route_match_message_def free first by simp
  ultimately show ?thesis by (auto simp: same_outside_def)
qed

text \<open>(C9) A policy whose rules are all on the head of the message accepts a message exactly if the message names no other route and the rules,
  each with its operator, say so; the match writes nothing but the position in the list of the rules.\<close>

theorem route_match_message_correct:
  assumes "msg \<noteq> 0" "path \<noteq> 0"
    and "head_rules (rmm st) (rt_heap st) {path + RP_MATCH + NL_CURR..<path + RP_MATCH + NL_CURR + 8} (path + RP_MATCH) ns"
    and "quiet {path + RP_MATCH + NL_CURR..<path + RP_MATCH + NL_CURR + 8} msg 288"
  shows "\<exists>st'. route_match_message st path msg
      = Some (st', of_bool ((rmm st (msg + MH_ROUTE) = 0 \<or> text_in (rmm st) path 32 = text_in (rmm st) (msg + MH_ROUTE) 32)
          \<and> verdict (rule_values (rmm st) msg 0 (map (rcd (rt_heap st)) ns))))
    \<and> rt_heap st' = rt_heap st \<and> same_outside {path + RP_MATCH + NL_CURR..<path + RP_MATCH + NL_CURR + 8} (rmm st) (rmm st')"
  using route_match_message_result [OF assms(3,4) _ _ assms(1,2)] by (fastforce simp: quiet_def same_outside_def)

section \<open>The policy of a message\<close>

text \<open>Whether the policy is open and accepts the message; \<open>rs\<close> gives the list nodes of its rules.\<close>

definition policy_accepts :: "mem \<Rightarrow> nat lheap \<Rightarrow> nat \<Rightarrow> (nat \<Rightarrow> nat list) \<Rightarrow> nat \<Rightarrow> bool" where
  "policy_accepts m h msg rs p \<longleftrightarrow> rd_sint m 4 (p + RP_STATE) \<notin> {POLICY_CLOSE, POLICY_IGNORE}
     \<and> text_in m (p + RP_SENDER) 32 = text_in m (msg + MH_SENDER) 32
     \<and> rd_sint m 4 (p + RP_RJUMP) \<in> {0, rd_sint m 4 (msg + MH_RJUMP)} \<and> rd_sint m 4 (p + RP_LJUMP) \<in> {0, rd_sint m 4 (msg + MH_LJUMP)}
     \<and> (m (msg + MH_ROUTE) = 0 \<or> text_in m p 32 = text_in m (msg + MH_ROUTE) 32)
     \<and> verdict (rule_values m msg 0 (map (rcd h) (rs p)))"

definition policy_ok :: "mem \<Rightarrow> nat lheap \<Rightarrow> nat set \<Rightarrow> nat \<Rightarrow> (nat \<Rightarrow> nat list) \<Rightarrow> nat \<Rightarrow> bool" where
  "policy_ok m h D forest rs p \<longleftrightarrow> p \<noteq> 0 \<and> quiet D p 80 \<and> head_rules m h D (p + RP_MATCH) (rs p) \<and> apart (forest + NL_CURR) 8 (p + RP_MATCH + NL_CURR) 8"

definition policies_ok :: "mem \<Rightarrow> nat lheap \<Rightarrow> nat set \<Rightarrow> nat \<Rightarrow> (nat \<Rightarrow> nat list) \<Rightarrow> nat list \<Rightarrow> bool" where
  "policies_ok m h D forest rs ns \<longleftrightarrow> dlist h forest ns \<and> rcd h forest = 0 \<and> forest \<noteq> 0 \<and> forest < 2 ^ 64
     \<and> {forest + NL_CURR..<forest + NL_CURR + 8} \<subseteq> D \<and> (\<forall>n\<in>set ns. n \<noteq> 0 \<and> n < 2 ^ 64 \<and> policy_ok m h D forest rs (rcd h n))"

lemma test_policy_result:
  assumes ok: "policy_ok m (rt_heap st) D forest rs p" and so: "quiet D msg 288" "same_outside D m (rmm st)" "msg \<noteq> 0"
  shows "\<exists>st'. test_policy st msg p = Some (st', if policy_accepts m (rt_heap st) msg rs p then Some 1 else None)
    \<and> rt_heap st' = rt_heap st \<and> rt_route_forest st' = rt_route_forest st
    \<and> same_outside {p + RP_MATCH + NL_CURR..<p + RP_MATCH + NL_CURR + 8} (rmm st) (rmm st')"
proof -
  have p: "p \<noteq> 0" "quiet D p 80" "head_rules m (rt_heap st) D (p + RP_MATCH) (rs p)" using ok by (simp_all add: policy_ok_def)
  obtain st' where st': "route_match_message st p msg
      = Some (st', of_bool ((m (msg + MH_ROUTE) = 0 \<or> text_in m p 32 = text_in m (msg + MH_ROUTE) 32) \<and> verdict (rule_values m msg 0 (map (rcd (rt_heap st)) (rs p)))))"
    "rt_heap st' = rt_heap st" "rt_route_forest st' = rt_route_forest st"
    "same_outside {p + RP_MATCH + NL_CURR..<p + RP_MATCH + NL_CURR + 8} (rmm st) (rmm st')"
    using route_match_message_result [OF p(3) so(1) p(2) so(2,3) p(1)] by blast
  have state: "qi st (p + RP_STATE) = rd_sint m 4 (p + RP_STATE)" using quiet_reads(3) [OF so(2) p(2), of RP_STATE 4] by simp
  have sender: "route_match_sender st p (msg + MH_SENDER) > 0 \<longleftrightarrow> text_in m (p + RP_SENDER) 32 = text_in m (msg + MH_SENDER) 32"
    using p(1) quiet_text [OF so(2) p(2), of RP_SENDER 32] quiet_text [OF so(2,1), of MH_SENDER 32]
    by (simp add: route_match_sender_def Strncmp_text)
  have jump: "route_match_message_jump st p msg > 0
      \<longleftrightarrow> rd_sint m 4 (p + RP_RJUMP) \<in> {0, rd_sint m 4 (msg + MH_RJUMP)} \<and> rd_sint m 4 (p + RP_LJUMP) \<in> {0, rd_sint m 4 (msg + MH_LJUMP)}"
    using p(1) quiet_reads(3) [OF so(2) p(2), of RP_RJUMP 4] quiet_reads(3) [OF so(2) p(2), of RP_LJUMP 4]
      quiet_reads(3) [OF so(2,1), of MH_RJUMP 4] quiet_reads(3) [OF so(2,1), of MH_LJUMP 4]
    by (simp add: route_match_message_jump_def)
  show ?thesis
  proof (cases "qi st (p + RP_STATE) \<notin> {POLICY_CLOSE, POLICY_IGNORE} \<and> route_match_sender st p (msg + MH_SENDER) > 0 \<and> route_match_message_jump st p msg > 0")
    case True
    then have "test_policy st msg p = Some (st', if policy_accepts m (rt_heap st) msg rs p then Some 1 else None)"
      using st'(1) unfolding test_policy_def policy_accepts_def state sender jump by auto
    then show ?thesis using st' by blast
  next
    case False
    then have "test_policy st msg p = Some (st, None)" "\<not> policy_accepts m (rt_heap st) msg rs p"
      unfolding test_policy_def policy_accepts_def state sender jump by auto
    then show ?thesis by (intro exI [of _ st]) (simp add: same_outside_def)
  qed
qed

lemma find_policy_step:
  assumes "policies_ok m (rt_heap st) D (rt_route_forest st) rs (us @ n # ns)" "quiet D msg 288" "same_outside D m (rmm st)" "msg \<noteq> 0"
    and "qp st (rt_route_forest st + NL_CURR) = n" and c: "c = hd (ns @ [rt_route_forest st])"
  obtains st1 where "find_policy_loop msg ret (rcd (rt_heap st) n) st
      = (if policy_accepts m (rt_heap st) msg rs (rcd (rt_heap st) n) then Some (st1, 1, rcd (rt_heap st) n)
         else find_policy_loop msg 0 (rcd (rt_heap st) c) st1)"
    "rt_heap st1 = rt_heap st" "rt_route_forest st1 = rt_route_forest st" "same_outside D m (rmm st1)"
    "\<not> policy_accepts m (rt_heap st) msg rs (rcd (rt_heap st) n) \<Longrightarrow> qp st1 (rt_route_forest st + NL_CURR) = c"
proof -
  let ?h = "rt_heap st" let ?F = "rt_route_forest st" let ?p = "rcd ?h n"
  have ok: "policy_ok m ?h D ?F rs ?p" "n \<noteq> 0" and l: "dlist ?h ?F (us @ n # ns)" and F: "?F \<noteq> 0" "?F < 2 ^ 64" "{?F + NL_CURR..<?F + NL_CURR + 8} \<subseteq> D"
    and cc: "c < 2 ^ 64"
    using assms(1) c by (cases ns; auto simp: policies_ok_def)+
  obtain st' where st': "test_policy st msg ?p = Some (st', if policy_accepts m ?h msg rs ?p then Some 1 else None)"
    "rt_heap st' = ?h" "rt_route_forest st' = ?F" "same_outside {?p + RP_MATCH + NL_CURR..<?p + RP_MATCH + NL_CURR + 8} (rmm st) (rmm st')"
    using test_policy_result [OF ok(1) assms(2-4)] by blast
  have p: "?p \<noteq> 0" "{?p + RP_MATCH + NL_CURR..<?p + RP_MATCH + NL_CURR + 8} \<subseteq> D" using ok(1) by (auto simp: policy_ok_def head_rules_def)
  have so: "same_outside D m (rmm st')" using same_outside_trans [OF assms(3) same_outside_mono [OF st'(4) p(2)]] .
  show thesis
  proof (cases "policy_accepts m ?h msg rs ?p")
    case True
    then show thesis using that [of st'] st' p(1) so by (simp add: find_policy_loop.simps [of msg ret ?p st])
  next
    case False
    let ?st = "rup (wp (?F + NL_CURR) c) st'"
    have "qp st' (?F + NL_CURR) = qp st (?F + NL_CURR)"
      by (rule apart_reads(2) [OF st'(4)]) (use ok(1) in \<open>auto simp: policy_ok_def apart_def\<close>)
    moreover have "nxt ?h n = c" using dlist_nxt_mid [OF l] c by simp
    moreover have "n \<noteq> ?F" using l by (auto simp: dlist_def)
    ultimately have getnext: "dispatch_policy_getnext st' ?p = (?st, 0, rcd ?h c)"
      using assms(5) ok(2) st'(2,3) by (simp add: dispatch_policy_getnext_def policy_getnext_def Let_def)
    have "same_outside {?F + NL_CURR..<?F + NL_CURR + 8} (rmm st') (rmm ?st)" by (auto simp: same_outside_def put_ptr_outside)
    then have "same_outside D m (rmm ?st)" using same_outside_trans [OF so same_outside_mono [OF _ F(3)]] by blast
    then show thesis using False that [of ?st] st' p(1) getnext cc by (simp add: find_policy_loop.simps [of msg ret ?p st])
  qed
qed

lemma find_policy_loop_find:
  assumes "policies_ok m (rt_heap st) D (rt_route_forest st) rs (us @ n # ns)" "quiet D msg 288" "same_outside D m (rmm st)" "msg \<noteq> 0"
    and "qp st (rt_route_forest st + NL_CURR) = n"
  shows "\<exists>st'. find_policy_loop msg ret (rcd (rt_heap st) n) st
      = Some (st', case find (policy_accepts m (rt_heap st) msg rs) (map (rcd (rt_heap st)) (n # ns)) of None \<Rightarrow> (0, 0) | Some p \<Rightarrow> (1, p))
    \<and> rt_heap st' = rt_heap st"
  using assms
proof (induction ns arbitrary: us n st ret)
  case Nil
  have "rcd (rt_heap st) (rt_route_forest st) = 0" using Nil.prems(1) by (simp add: policies_ok_def)
  then have stop: "find_policy_loop msg 0 (rcd (rt_heap st) (rt_route_forest st)) s = Some (s, 0, 0)" for s by (simp add: find_policy_loop.simps)
  show ?case by (rule find_policy_step [OF Nil.prems refl, of ret]) (auto simp: stop)
next
  case (Cons a ns)
  have a: "a = hd ((a # ns) @ [rt_route_forest st])" by simp
  obtain st1 where st1: "find_policy_loop msg ret (rcd (rt_heap st) n) st
      = (if policy_accepts m (rt_heap st) msg rs (rcd (rt_heap st) n) then Some (st1, 1, rcd (rt_heap st) n)
         else find_policy_loop msg 0 (rcd (rt_heap st) a) st1)"
    "rt_heap st1 = rt_heap st" "rt_route_forest st1 = rt_route_forest st" "same_outside D m (rmm st1)"
    "\<not> policy_accepts m (rt_heap st) msg rs (rcd (rt_heap st) n) \<Longrightarrow> qp st1 (rt_route_forest st + NL_CURR) = a"
    by (rule find_policy_step [OF Cons.prems a, of ret]) blast
  show ?case
  proof (cases "policy_accepts m (rt_heap st) msg rs (rcd (rt_heap st) n)")
    case True
    then show ?thesis using st1(1,2) by auto
  next
    case False
    then show ?thesis using Cons.IH [of st1 "us @ [n]" a 0] Cons.prems(1,2,4) st1 by auto
  qed
qed

text \<open>(C8) The router gives a message the first policy of the forest, in the order of the list, that is open, has the sender of the message, admits
  its jumps and its route, and whose rules accept it; the search for the policy of a message ends, and without such a
  policy its code is 0 and the policy \<^verbatim>\<open>NULL\<close>.\<close>

theorem router_find_route_policy_correct:
  assumes "policies_ok (rmm st) (rt_heap st) D (rt_route_forest st) rs ns" "quiet D msg 288" "msg \<noteq> 0"
  shows "\<exists>st'. router_find_route_policy st msg
      = Some (st', case find (policy_accepts (rmm st) (rt_heap st) msg rs) (map (rcd (rt_heap st)) ns) of None \<Rightarrow> (0, 0) | Some p \<Rightarrow> (1, p))
    \<and> rt_heap st' = rt_heap st"
proof -
  let ?h = "rt_heap st" let ?F = "rt_route_forest st" let ?c = "hd (ns @ [?F])" let ?st = "rup (wp (?F + NL_CURR) ?c) st"
  have l: "dlist ?h ?F ns" "rcd ?h ?F = 0" "{?F + NL_CURR..<?F + NL_CURR + 8} \<subseteq> D" using assms(1) by (simp_all add: policies_ok_def)
  have c: "?c < 2 ^ 64" using assms(1) by (cases ns) (simp_all add: policies_ok_def)
  have run: "router_find_route_policy st msg = find_policy_loop msg 0 (rcd ?h ?c) ?st"
    using assms(3) dlist_nxt_head [OF l(1)] by (simp add: router_find_route_policy_def dispatch_policy_getfirst_def policy_getfirst_def Let_def)
  show ?thesis
  proof (cases ns)
    case Nil
    then show ?thesis using run l(2) by (simp add: find_policy_loop.simps)
  next
    case (Cons n ns')
    have "same_outside {?F + NL_CURR..<?F + NL_CURR + 8} (rmm st) (rmm ?st)" by (auto simp: same_outside_def put_ptr_outside)
    then have "same_outside D (rmm st) (rmm ?st)" by (rule same_outside_mono) (rule l(3))
    then show ?thesis using find_policy_loop_find [of "rmm st" ?st D rs "[]" n ns' msg 0] assms c run Cons by simp
  qed
qed

section \<open>Examples\<close>

text \<open>The message at 1000, the forest at 30000, the hash lists from 40000 on; the fresh uuids are all zero.\<close>

definition route_example :: "mem \<Rightarrow> nat lheap \<Rightarrow> rstate" where
  "route_example m h = \<lparr>rt_ms = (msg_example m)\<lparr>ms_random := (\<lambda>_. Inr (replicate 32 0))\<rparr>, rt_heap = h, rt_route_forest = 30000, rt_aspect_forest = 30040,
     rt_waiting = 30080, rt_hash = 40000, rt_policy_template = 0, rt_match_template = 0, rt_rule_template = 0\<rparr>"

lemma route_example_simps [simp]: "rmm (route_example m h) = m" "rt_heap (route_example m h) = h" "rt_route_forest (route_example m h) = 30000"
  "rt_hash (route_example m h) = 40000" "coming (rt_ms (route_example m h)) i = Some (5000 + 1000 * i)"
  "ms_random (rt_ms (route_example m h)) n = Inr (replicate 32 0)"
  by (simp_all add: route_example_def msg_example_simps(1)) (simp add: msg_example_def coming_def db_example_def)

text \<open>A route at 2000 of two nodes, and a forest of a closed policy at 2000 and an open one at 4000 with one rule at 7200.\<close>

definition two_nodes :: "nat \<Rightarrow> nat \<Rightarrow> nat \<Rightarrow> nat lheap" where
  "two_nodes l r s = \<lparr>nxt = (\<lambda>a. a)(l := 3000, 3000 := 3100, 3100 := l, 4088 := 3300, 3300 := 4088),
     prv = (\<lambda>a. a)(l := 3100, 3000 := l, 3100 := 3000, 4088 := 3300, 3300 := 4088), rcd = (\<lambda>_. 0)(3000 := r, 3100 := s, 3300 := 7200)\<rparr>"

definition policy_mem :: mem where "policy_mem = (\<lambda>_. 0)(1124 := 5, 2072 := 2, 7200 := 1, 7208 := 5)"

lemma two_nodes_lists: "l \<notin> {0, 3000, 3100, 3300, 4088} \<Longrightarrow> dlist (two_nodes l r s) l [3000, 3100]"
  "l \<notin> {3000, 3100, 3300, 4088} \<Longrightarrow> dlist (two_nodes l r s) 4088 [3300]"
  "a \<notin> {l, 3000, 3100, 3300, 4088} \<Longrightarrow> dlist (two_nodes l r s) a []"
  by (auto simp: dlist_def two_nodes_def fun_upd_apply)

lemma policy_mem_values: "rd_sint policy_mem 4 7200 = 1" "rd_sint policy_mem 4 7204 = 0" "rd_sint policy_mem 4 7208 = 5" "rd_sint policy_mem 4 7212 = 0"
  "rd_sint policy_mem 4 1124 = 5" "rd_sint policy_mem 4 2072 = 2" "rd_sint policy_mem 4 4072 = 0"
  by (simp_all add: policy_mem_def rd_sint_def rd_uint_4 fun_upd_apply)

lemma text_in_empty: "m a = 0 \<Longrightarrow> text_in m a n = []"
  by (cases n) (simp_all add: text_in_def mem_bytes_Suc)

theorem message_route_visits_nodes_witness:
  "\<exists>st1 st2. message_route_setstart (route_example (\<lambda>_. 0) (two_nodes 2128 7000 7100)) 1000 2000 = Some (st1, 1)
    \<and> route_walk 1000 4 st1 = ([7000, 7100, 0, 0], st2)"
proof -
  let ?h = "two_nodes 2128 7000 7100" let ?st = "route_example (\<lambda>_. 0) ?h"
  have z: "rd_sint (\<lambda>_. 0) 4 a = 0" for a by (rule rd_sint_zero) simp
  have "\<exists>st1 st2. message_route_setstart ?st 1000 2000 = Some (st1, 1)
    \<and> route_walk 1000 (length [3000, 3100 :: nat] + 1 + 1) st1 = (map (rcd (rt_heap ?st)) [3000, 3100] @ replicate (1 + 1) 0, st2)
    \<and> qp st2 (1000 + MB_PATH_SITE) = 0 \<and> same_outside {1000..<1000 + 288} (rmm ?st) (rmm st2)"
    by (rule message_route_visits_nodes) (simp_all add: two_nodes_lists(1) z)
  moreover have "map (rcd (rt_heap ?st)) [3000, 3100] @ replicate (1 + 1) 0 = [7000, 7100, 0, 0]" by (simp add: two_nodes_def fun_upd_apply)
  moreover have "length [3000, 3100 :: nat] + 1 + 1 = 4" by simp
  ultimately show ?thesis by metis
qed

theorem route_match_message_correct_witness:
  "\<exists>st'. route_match_message (route_example policy_mem (two_nodes 30000 2000 4000)) 4000 1000 = Some (st', 1)"
proof -
  let ?st = "route_example policy_mem (two_nodes 30000 2000 4000)"
  have r: "rcd (two_nodes 30000 2000 4000) 3300 = 7200" "rcd (two_nodes 30000 2000 4000) 4088 = 0" by (simp_all add: two_nodes_def fun_upd_apply)
  have "\<exists>st'. route_match_message ?st 4000 1000
      = Some (st', of_bool ((rmm ?st (1000 + MH_ROUTE) = 0 \<or> text_in (rmm ?st) 4000 32 = text_in (rmm ?st) (1000 + MH_ROUTE) 32)
          \<and> verdict (rule_values (rmm ?st) 1000 0 (map (rcd (rt_heap ?st)) [3300]))))
    \<and> rt_heap st' = rt_heap ?st \<and> same_outside {4000 + RP_MATCH + NL_CURR..<4000 + RP_MATCH + NL_CURR + 8} (rmm ?st) (rmm st')"
    by (rule route_match_message_correct) (simp_all add: head_rules_def quiet_def r policy_mem_values two_nodes_lists(2))
  moreover have "policy_mem 1072 = 0" by (simp add: policy_mem_def fun_upd_apply)
  moreover have "verdict (rule_values policy_mem 1000 0 [7200])" by (simp add: verdict_def head_result_def policy_mem_values Let_def)
  ultimately show ?thesis by (auto simp: r)
qed

theorem router_find_route_policy_correct_witness:
  "\<exists>st'. router_find_route_policy (route_example policy_mem (two_nodes 30000 2000 4000)) 1000 = Some (st', 1, 4000)"
proof -
  let ?h = "two_nodes 30000 2000 4000" let ?st = "route_example policy_mem ?h" let ?rs = "\<lambda>p :: nat. if p = 4000 then [3300 :: nat] else []"
  let ?D = "{30032..<30040} \<union> {2120..<2128} \<union> {4120..<4128 :: nat}"
  have r: "rcd ?h 3300 = 7200" "rcd ?h 4088 = 0" "rcd ?h 2088 = 0" "rcd ?h 30000 = 0" "rcd ?h 3000 = 2000" "rcd ?h 3100 = 4000" by (simp_all add: two_nodes_def fun_upd_apply)
  have ok: "policy_ok policy_mem ?h ?D 30000 ?rs 2000" "policy_ok policy_mem ?h ?D 30000 ?rs 4000"
    by (auto simp: policy_ok_def head_rules_def quiet_def apart_def r policy_mem_values two_nodes_lists)
  have "\<exists>st'. router_find_route_policy ?st 1000
      = Some (st', case find (policy_accepts (rmm ?st) (rt_heap ?st) 1000 ?rs) (map (rcd (rt_heap ?st)) [3000, 3100]) of None \<Rightarrow> (0, 0) | Some p \<Rightarrow> (1, p))
    \<and> rt_heap st' = rt_heap ?st"
    by (rule router_find_route_policy_correct [where D = ?D])
      (use ok in \<open>auto simp: policies_ok_def quiet_def r two_nodes_lists(1)\<close>)
  moreover have "\<not> policy_accepts policy_mem ?h 1000 ?rs 2000" by (simp add: policy_accepts_def policy_mem_values)
  moreover have "rd_sint policy_mem 4 4068 = 0" "rd_sint policy_mem 4 4064 = 0" "policy_mem 4032 = 0" "policy_mem 1008 = 0" "policy_mem 1072 = 0"
    by (simp_all add: policy_mem_def rd_sint_def rd_uint_4 fun_upd_apply)
  then have "policy_accepts policy_mem ?h 1000 ?rs 4000"
    by (simp add: policy_accepts_def policy_mem_values text_in_empty r verdict_def head_result_def Let_def)
  ultimately show ?thesis by (auto simp: r)
qed

text \<open>An empty hash list at 40000, and a message of the sender A.\<close>

definition lone_head :: "nat lheap" where "lone_head = \<lparr>nxt = (\<lambda>a. a), prv = (\<lambda>a. a), rcd = (\<lambda>_. 0)\<rparr>"

definition sender_mem :: mem where "sender_mem = (\<lambda>_. 0)(1008 := 65)"

lemma example_hash: "(\<forall>i<4. m (u + i) = 0) \<Longrightarrow> hash_index m u = 0"
  using get32_eq_iff [of m u "\<lambda>_. 0" u] by (simp add: hash_index_def get32_def)

lemma sender_hash: "hash_index sender_mem 1148 = 0" "hash_index (mem_write sender_mem 1148 (replicate 32 0)) 1148 = 0"
  by (rule example_hash; simp add: sender_mem_def mem_write_apply fun_upd_apply)+

lemma lone_list: "dlist lone_head a []"
  by (simp add: dlist_def lone_head_def)

lemma sender_zero: "a \<noteq> 1008 \<Longrightarrow> sender_mem a = 0"
  by (simp add: sender_mem_def fun_upd_apply)


end
