(* ===== verification/Cube_Route_Runs.thy ===== *)
theory Cube_Route_Runs
  imports Cube_Route_Laws
begin

text \<open>
  Runs of the router, \<^verbatim>\<open>proc/src/sys_plugin/router_process_func.c\<close>. Between the moment a query or a message with an aspect is sent
  and the moment its answer comes, the router goes on: it adds messages to the waiting list and takes them from it, keeps traces
  and aspects of other messages, and writes to messages and to the targets of traces. The steps are a relation on the state of the
  router; an invariant of all runs shows that a trace or an aspect node that was kept is found again.
\<close>

section \<open>The lists of the router\<close>

text \<open>The heads of the waiting list and of the 256 hash lists, which are static variables, and the nodes on these lists.\<close>

definition hash_heads :: "rstate \<Rightarrow> nat set" where
  "hash_heads st = (\<lambda>i. rt_hash st + 40 * i) ` {..<256}"

definition list_heads :: "rstate \<Rightarrow> nat set" where
  "list_heads st = insert (rt_waiting st) (hash_heads st)"

definition head_bytes :: "rstate \<Rightarrow> nat set" where
  "head_bytes st = (\<Union>l\<in>list_heads st. {l..<l + 40})"

definition on_lists :: "rstate \<Rightarrow> nat set" where
  "on_lists st = {(nxt (rt_heap st) ^^ k) l |k l. l \<in> list_heads st}"

text \<open>The lists are rings of their own, \<open>f\<close> gives their nodes.\<close>

definition lists_ok :: "rstate \<Rightarrow> (nat \<Rightarrow> nat list) \<Rightarrow> bool" where
  "lists_ok st f \<longleftrightarrow> 0 \<notin> list_heads st \<and> rt_waiting st \<notin> hash_heads st
     \<and> (\<forall>l\<in>list_heads st. dlist (rt_heap st) l (f l))
     \<and> (\<forall>l\<in>list_heads st. \<forall>k\<in>list_heads st. l \<noteq> k \<longrightarrow> set (l # f l) \<inter> set (k # f k) = {})"

lemma heads_cong:
  "rt_hash st' = rt_hash st \<Longrightarrow> rt_waiting st' = rt_waiting st \<Longrightarrow>
   list_heads st' = list_heads st \<and> hash_heads st' = hash_heads st \<and> head_bytes st' = head_bytes st"
  by (simp add: list_heads_def hash_heads_def head_bytes_def)

lemma hash_list_head: "hash_list st u \<in> hash_heads st"
proof -
  have "hash_index (rmm st) u < 256"
    using word_and_le1 [of "get32 (rmm st) u" 255] by (simp add: hash_index_def word_le_nat_alt)
  then show ?thesis by (auto simp: hash_list_def hash_heads_def)
qed

lemma hash_in_heads: "l \<in> hash_heads st \<Longrightarrow> l \<in> list_heads st"
  by (simp add: list_heads_def)

lemma ring_closed:
  assumes "dlist h p xs" "a \<in> set (p # xs)"
  shows "(nxt h ^^ k) a \<in> set (p # xs)"
proof (induction k)
  case (Suc k)
  let ?b = "(nxt h ^^ k) a"
  have "nxt h ?b \<in> set (p # xs)"
  proof (cases "?b = p")
    case True
    then show ?thesis using dlist_nxt_head [OF assms(1)] by (cases xs) auto
  next
    case False
    then obtain ys zs where "xs = ys @ ?b # zs" using Suc split_list by fastforce
    then show ?thesis using dlist_nxt_mid [of h p ys ?b zs] assms(1) by (cases zs) auto
  qed
  then show ?case by simp
qed (use assms(2) in simp)

lemma ring_reached:
  assumes "dlist h p (xs @ zs)"
  shows "a \<in> set xs \<Longrightarrow> \<exists>k. (nxt h ^^ k) p = a"
  using assms
proof (induction xs arbitrary: a zs rule: rev_induct)
  case (snoc x xs)
  have "\<exists>k. (nxt h ^^ k) p = x"
  proof (cases xs rule: rev_cases)
    case Nil
    then show ?thesis using dlist_nxt_head [OF snoc.prems(2)] by (intro exI [of _ 1]) simp
  next
    case (snoc ys y)
    obtain k where k: "(nxt h ^^ k) p = y"
      using snoc.IH [of y "x # zs"] snoc.prems(2) snoc by auto
    have "nxt h y = x" using dlist_nxt_mid [of h p ys y "x # zs"] snoc.prems(2) snoc by simp
    then show ?thesis using k by (intro exI [of _ "Suc k"]) simp
  qed
  then show ?case using snoc.IH [of a "x # zs"] snoc.prems by auto
qed simp

lemma on_lists_rings:
  assumes "lists_ok st f"
  shows "on_lists st = (\<Union>l\<in>list_heads st. set (l # f l))"
proof -
  have d: "dlist (rt_heap st) l (f l)" if "l \<in> list_heads st" for l using assms that by (simp add: lists_ok_def)
  have "(nxt (rt_heap st) ^^ k) l \<in> set (l # f l)" if "l \<in> list_heads st" for k l
    using ring_closed [OF d [OF that], of l k] by simp
  moreover have "\<exists>k. a = (nxt (rt_heap st) ^^ k) l" if "l \<in> list_heads st" "a \<in> set (l # f l)" for a l
  proof (cases "a = l")
    case True
    then show ?thesis by (intro exI [of _ 0]) simp
  next
    case False
    then show ?thesis using ring_reached [of "rt_heap st" l "f l" "[]" a] d [OF that(1)] that(2) by auto
  qed
  ultimately show ?thesis unfolding on_lists_def by blast
qed

lemma same_outside_keep: "same_outside D m m' \<Longrightarrow> K \<inter> D = {} \<Longrightarrow> \<forall>a\<in>K. m' a = m a"
  unfolding same_outside_def by blast

section \<open>Steps\<close>

text \<open>
  A step of the router that leaves the bytes \<open>K\<close> alone. Blocks from the allocator are fresh: they do not overlap \<open>K\<close> or the static
  heads, and no list holds the new node. \<open>wait\<close> and \<open>take\<close> change the waiting list, \<open>trace\<close> and \<open>aspect\<close> keep a node for
  some message, and \<open>other\<close> is everything that leaves the lists alone: writes to messages and traces, allocations, other structures.
\<close>

definition fresh :: "nat set \<Rightarrow> rstate \<Rightarrow> nat \<Rightarrow> nat \<Rightarrow> bool" where
  "fresh K st a n \<longleftrightarrow> {a..<a + n} \<inter> (K \<union> head_bytes st) = {}"

inductive router_step :: "nat set \<Rightarrow> rstate \<Rightarrow> rstate \<Rightarrow> bool" for K where
  wait: "coming (rt_ms st) 0 = Some d \<Longrightarrow> fresh K st d 36 \<Longrightarrow> d + 12 \<notin> on_lists st \<Longrightarrow>
    waiting_message_add st msg = (st', r) \<Longrightarrow> router_step K st st'"
| take: "waiting_message_removehead st = (st', msg) \<Longrightarrow> router_step K st st'"
| trace: "coming (rt_ms st) 0 = Some q \<Longrightarrow> coming (rt_ms st) 1 = Some d \<Longrightarrow> fresh K st q 128 \<Longrightarrow> fresh K st d 36 \<Longrightarrow>
    d + 12 \<notin> on_lists st \<Longrightarrow> apart q 128 d 36 \<Longrightarrow> apart q 128 msg 288 \<Longrightarrow>
    create_trace_node st msg = (st', t) \<Longrightarrow> router_step K st st'"
| aspect: "coming (rt_ms st) 0 = Some q \<Longrightarrow> coming (rt_ms st) 1 = Some d \<Longrightarrow> fresh K st q 212 \<Longrightarrow> fresh K st d 36 \<Longrightarrow>
    d + 12 \<notin> on_lists st \<Longrightarrow> apart q 212 d 36 \<Longrightarrow> apart q 212 msg 288 \<Longrightarrow> apart msg 288 d 36 \<Longrightarrow> fresh K st msg 288 \<Longrightarrow>
    msg \<noteq> 0 \<Longrightarrow> ms_random (rt_ms st) (ms_draws (rt_ms st)) = Inr new \<Longrightarrow> length new = 32 \<Longrightarrow>
    create_aspect_node st msg = Some (st', t) \<Longrightarrow> router_step K st st'"
| other: "\<forall>a\<in>K. mm ms a = rmm st a \<Longrightarrow> router_step K st (st\<lparr>rt_ms := ms\<rparr>)"

text \<open>The functions that write to a message or to the target of a trace are steps, also for the trace itself whose other bytes are \<open>K\<close>.\<close>

definition trace_bytes :: "nat \<Rightarrow> nat set" where
  "trace_bytes t = {t..<t + 68} \<union> {t + 108..<t + 116}"

lemma gettracetarget_step:
  assumes "message_route_gettracetarget st msg node = Some (st', r)" "apart node 116 msg 288" "{node + 68..<node + 100} \<inter> K = {}"
  shows "router_step K st st'"
proof -
  let ?ms = "set_mm (mem_write (rmm st) (node + 68) (mem_bytes (rmm st) (msg + MH_RECEIVER) 32)) (rt_ms st)"
  have "st' = st\<lparr>rt_ms := ?ms\<rparr>"
    using assms(1,2) mcopy_apart [of "node + 68" "msg + MH_RECEIVER" "rt_ms st"]
    by (auto simp: message_route_gettracetarget_def rup_def apart_def split: if_splits)
  moreover have "a < node + 68 \<or> node + 100 \<le> a" if "a \<in> K" for a
  proof (rule ccontr)
    assume "\<not> ?thesis"
    then have "a \<in> {node + 68..<node + 100}" by simp
    then show False using assms(3) that by blast
  qed
  then have "mm ?ms a = rmm st a" if "a \<in> K" for a using that by (fastforce simp: mem_write_apply)
  ultimately show ?thesis using router_step.other [of K ?ms st] by simp
qed

lemma settracesrc_step:
  assumes "message_route_settracesrc st msg node = Some (st', r)" "msg \<noteq> 0" "node \<noteq> 0" "apart node 116 msg 288"
    and "{msg..<msg + 288} \<inter> K = {}"
  shows "router_step K st st'"
proof -
  obtain st1 where st1: "message_route_settracesrc st msg node = Some (st1, 1)" "same_outside {msg..<msg + 288} (rmm st) (rmm st1)"
    by (rule settracesrc_result [OF assms(2-4)]) blast
  have "st' = st\<lparr>rt_ms := rt_ms st'\<rparr>"
    using assms(1-3) by (auto simp: message_route_settracesrc_def clear_local_def rup_def Let_def)
  moreover have "rmm st' a = rmm st a" if "a \<in> K" for a
    using st1 assms(1) same_outside_keep [OF st1(2), of K] assms(5) that by auto
  ultimately show ?thesis using router_step.other [of K "rt_ms st'" st] by metis
qed

lemma router_step_mono: "router_step K' st st' \<Longrightarrow> K \<subseteq> K' \<Longrightarrow> router_step K st st'"
proof (induction rule: router_step.induct)
  case (wait st d msg st' r)
  then show ?case by (intro router_step.wait [of st d K msg st' r]) (auto simp: fresh_def)
next
  case (take st st' msg)
  then show ?case by (intro router_step.take)
next
  case (trace st q d msg st' t)
  then show ?case by (intro router_step.trace [of st q d K msg st' t]) (auto simp: fresh_def)
next
  case (aspect st q d msg new st' t)
  then show ?case by (intro router_step.aspect [of st q d K msg new st' t]) (auto simp: fresh_def)
next
  case (other ms st)
  then show ?case by (intro router_step.other) blast
qed

section \<open>What every run keeps\<close>

text \<open>
  The lists are rings, the list \<open>list\<close> still begins with the nodes \<open>us\<close>, which have their records, and the bytes \<open>K\<close> are as they were.
\<close>

definition kept :: "nat set \<Rightarrow> rstate \<Rightarrow> nat \<Rightarrow> nat list \<Rightarrow> rstate \<Rightarrow> bool" where
  "kept K st0 list us st \<longleftrightarrow> rt_hash st = rt_hash st0 \<and> rt_waiting st = rt_waiting st0 \<and> (\<forall>a\<in>K. rmm st a = rmm st0 a)
     \<and> (\<forall>n\<in>set us. rcd (rt_heap st) n = rcd (rt_heap st0) n)
     \<and> (\<exists>f vs. lists_ok st f \<and> f list = us @ vs \<and> (\<forall>n\<in>set (f list). n \<noteq> 0 \<and> rcd (rt_heap st) n \<noteq> 0))"

text \<open>
  The list \<open>l\<close>, whose nodes were \<open>ns\<close>, got a node \<open>e\<close> with the record \<open>r\<close> at its end; the links of no other node changed, and
  only bytes of \<open>D\<close> were written.
\<close>

definition appended :: "rstate \<Rightarrow> nat \<Rightarrow> nat list \<Rightarrow> nat \<Rightarrow> nat \<Rightarrow> nat set \<Rightarrow> rstate \<Rightarrow> bool" where
  "appended st l ns e r D st' \<longleftrightarrow> rt_hash st' = rt_hash st \<and> rt_waiting st' = rt_waiting st \<and> same_outside D (rmm st) (rmm st')
     \<and> dlist (rt_heap st') l (ns @ [e]) \<and> (\<forall>a. a \<notin> set (l # ns) \<longrightarrow> a \<noteq> e \<longrightarrow> same_links (rt_heap st) (rt_heap st') a)
     \<and> (\<forall>n. rcd (rt_heap st') n = (if n = e then r else rcd (rt_heap st) n))"

lemma lists_ok_append:
  assumes ok: "lists_ok st f" and l: "l \<in> list_heads st" and e: "e \<notin> on_lists st" and app: "appended st l (f l) e r D st'"
  shows "lists_ok st' (f(l := f l @ [e]))"
proof -
  have same: "rt_hash st' = rt_hash st" "rt_waiting st' = rt_waiting st" and ring: "dlist (rt_heap st') l (f l @ [e])"
    and links: "\<And>a. a \<notin> set (l # f l) \<Longrightarrow> a \<noteq> e \<Longrightarrow> same_links (rt_heap st) (rt_heap st') a"
    using app by (simp_all add: appended_def)
  have h: "list_heads st' = list_heads st" "hash_heads st' = hash_heads st" using heads_cong [OF same] by auto
  have e': "e \<notin> set (k # f k)" if "k \<in> list_heads st" for k using e that unfolding on_lists_rings [OF ok] by blast
  have apart: "set (l # f l) \<inter> set (k # f k) = {}" if "k \<in> list_heads st" "k \<noteq> l" for k
    using ok that l by (simp add: lists_ok_def)
  have "dlist (rt_heap st') k (f k)" if k: "k \<in> list_heads st" "k \<noteq> l" for k
  proof (rule dlist_frame)
    show "dlist (rt_heap st) k (f k)" using ok k(1) by (simp add: lists_ok_def)
    fix a assume a: "a \<in> set (k # f k)"
    then have "a \<notin> set (l # f l)" "a \<noteq> e" using apart [OF k] e' [OF k(1)] by auto
    then show "nxt (rt_heap st') a = nxt (rt_heap st) a \<and> prv (rt_heap st') a = prv (rt_heap st) a"
      using links by (simp add: same_links_def)
  qed
  then show ?thesis using ok ring e' unfolding lists_ok_def h same(2) by (auto 4 3)
qed

lemma keptE:
  assumes "kept K st0 list us st"
  obtains f vs where "lists_ok st f" "f list = us @ vs" "\<forall>n\<in>set (f list). n \<noteq> 0 \<and> rcd (rt_heap st) n \<noteq> 0"
    "list_heads st = list_heads st0" "hash_heads st = hash_heads st0" "head_bytes st = head_bytes st0"
  using assms heads_cong [of st st0] by (auto simp: kept_def)

lemma kept_append:
  assumes kept: "kept K st0 list us st" and f: "lists_ok st f" "f list = us @ vs" "\<forall>n\<in>set (f list). n \<noteq> 0 \<and> rcd (rt_heap st) n \<noteq> 0"
    and list: "list \<in> hash_heads st" and l: "l \<in> list_heads st" and e: "e \<notin> on_lists st" "e \<noteq> 0" "r \<noteq> 0 \<or> l \<notin> hash_heads st"
    and app: "appended st l (f l) e r D st'" and D: "K \<inter> D = {}"
  shows "kept K st0 list us st'"
proof -
  have same: "rt_hash st' = rt_hash st" "rt_waiting st' = rt_waiting st" "same_outside D (rmm st) (rmm st')"
    and rcds: "\<And>n. rcd (rt_heap st') n = (if n = e then r else rcd (rt_heap st) n)"
    using app by (simp_all add: appended_def)
  have ne: "e \<notin> set (f list)" using e(1) on_lists_rings [OF f(1)] hash_in_heads [OF list] by auto
  have "lists_ok st' (f(l := f l @ [e]))" by (rule lists_ok_append [OF f(1) l e(1) app])
  moreover have "(f(l := f l @ [e])) list = us @ (if l = list then vs @ [e] else vs)" using f(2) by auto
  moreover have "\<forall>n\<in>set ((f(l := f l @ [e])) list). n \<noteq> 0 \<and> rcd (rt_heap st') n \<noteq> 0"
    using f(3) e(2,3) list ne by (auto simp: rcds)
  moreover have "\<forall>n\<in>set us. rcd (rt_heap st') n = rcd (rt_heap st0) n" using kept f(2) ne by (auto simp: kept_def rcds)
  moreover have "\<forall>a\<in>K. rmm st' a = rmm st a" by (rule same_outside_keep [OF same(3) D])
  ultimately show ?thesis using kept same(1,2) unfolding kept_def by metis
qed

lemma list_free:
  assumes "lists_ok st f" "l \<in> list_heads st" "e \<notin> on_lists st"
  shows "dlist (rt_heap st) l (f l)" "e \<notin> set (l # f l)" "l \<noteq> 0" "{l + NL_NUM..<l + NL_NUM + 4} \<subseteq> head_bytes st"
    "fresh K st a n \<Longrightarrow> 0 < n \<Longrightarrow> apart a n l 40" "K \<inter> head_bytes st = {} \<Longrightarrow> K \<inter> {l + NL_NUM..<l + NL_NUM + 4} = {}"
proof -
  show "dlist (rt_heap st) l (f l)" using assms(1,2) by (simp add: lists_ok_def)
  show "l \<noteq> 0" using assms(1,2) unfolding lists_ok_def by metis
  show "e \<notin> set (l # f l)" using assms(2,3) unfolding on_lists_rings [OF assms(1)] by blast
  have l: "{l..<l + 40} \<subseteq> head_bytes st" using assms(2) unfolding head_bytes_def by blast
  then show "{l + NL_NUM..<l + NL_NUM + 4} \<subseteq> head_bytes st" by fastforce
  then show "K \<inter> head_bytes st = {} \<Longrightarrow> K \<inter> {l + NL_NUM..<l + NL_NUM + 4} = {}" by blast
  assume "fresh K st a n" and n: "0 < n"
  then have "{a..<a + n} \<inter> {l..<l + 40} = {}" using l unfolding fresh_def by blast
  then show "apart a n l 40" using n by (auto simp: apart_def Int_atLeastLessThan)
qed

lemma wait_kept:
  assumes kept: "kept K st0 list us st" and list: "list \<in> hash_heads st0" and K: "K \<inter> head_bytes st0 = {}"
    and d: "coming (rt_ms st) 0 = Some d" "fresh K st d 36" "d + 12 \<notin> on_lists st" and step: "waiting_message_add st msg = (st', r)"
  shows "kept K st0 list us st'"
proof -
  let ?w = "rt_waiting st"
  obtain f vs where f: "lists_ok st f" "f list = us @ vs" "\<forall>n\<in>set (f list). n \<noteq> 0 \<and> rcd (rt_heap st) n \<noteq> 0"
    and same: "list_heads st = list_heads st0" "hash_heads st = hash_heads st0" "head_bytes st = head_bytes st0" by (rule keptE [OF kept])
  have w: "?w \<in> list_heads st" "?w \<notin> hash_heads st" using f(1) by (auto simp: lists_ok_def list_heads_def)
  note free = list_free [OF f(1) w(1) d(3)]
  obtain s where s: "node_list_add st ?w msg = (s, d + 12)" "appended st ?w (f ?w) (d + 12) msg ({d..<d + 36} \<union> {?w + NL_NUM..<?w + NL_NUM + 4}) s"
    by (rule node_list_add_result [OF d(1) free(1-3), of msg]) (auto simp: appended_def)
  have "st' = s" using step s(1) by (simp add: waiting_message_add_def)
  moreover have "K \<inter> ({d..<d + 36} \<union> {?w + NL_NUM..<?w + NL_NUM + 4}) = {}"
    using free(6) [of K] K same(3) d(2) unfolding fresh_def by blast
  ultimately show ?thesis
    using kept_append [OF kept f _ w(1) d(3) _ _ s(2)] list w(2) same(2) by simp
qed

lemma trace_kept:
  assumes kept: "kept K st0 list us st" and list: "list \<in> hash_heads st0" and K: "K \<inter> head_bytes st0 = {}"
    and q: "coming (rt_ms st) 0 = Some q" "coming (rt_ms st) 1 = Some d" "fresh K st q 128" "fresh K st d 36"
      "d + 12 \<notin> on_lists st" "apart q 128 d 36" "apart q 128 msg 288"
    and step: "create_trace_node st msg = (st', t)"
  shows "kept K st0 list us st'"
proof -
  let ?l = "hash_list st (msg + MH_NONCE)" let ?D = "{q..<q + 128} \<union> {d..<d + 36} \<union> {?l + NL_NUM..<?l + NL_NUM + 4}"
  obtain f vs where f: "lists_ok st f" "f list = us @ vs" "\<forall>n\<in>set (f list). n \<noteq> 0 \<and> rcd (rt_heap st) n \<noteq> 0"
    and same: "list_heads st = list_heads st0" "hash_heads st = hash_heads st0" "head_bytes st = head_bytes st0" by (rule keptE [OF kept])
  have l: "?l \<in> list_heads st" using hash_in_heads [OF hash_list_head] .
  note free = list_free [OF f(1) l q(5)]
  have ap: "apart q 128 ?l 40" using free(5) [OF q(3)] by simp
  obtain s where s: "create_trace_node st msg = (s, q + 12)" "appended st ?l (f ?l) (d + 12) (q + 12) ?D s"
    by (rule create_trace_node_result [OF q(1,2) refl free(3,1,2) q(7,6) ap]) (auto simp: appended_def)
  have "st' = s" using step s(1) by simp
  moreover have "K \<inter> ?D = {}" using free(6) [of K] K same(3) q(3,4) unfolding fresh_def by blast
  ultimately show ?thesis using kept_append [OF kept f _ l q(5) _ _ s(2)] list same(2) by simp
qed

lemma aspect_kept:
  assumes kept: "kept K st0 list us st" and list: "list \<in> hash_heads st0" and K: "K \<inter> head_bytes st0 = {}"
    and q: "coming (rt_ms st) 0 = Some q" "coming (rt_ms st) 1 = Some d" "fresh K st q 212" "fresh K st d 36"
      "d + 12 \<notin> on_lists st" "apart q 212 d 36" "apart q 212 msg 288" "apart msg 288 d 36" "fresh K st msg 288"
    and new: "msg \<noteq> 0" "ms_random (rt_ms st) (ms_draws (rt_ms st)) = Inr new" "length new = 32"
    and step: "create_aspect_node st msg = Some (st', t)"
  shows "kept K st0 list us st'"
proof -
  let ?i = "hash_index (mem_write (rmm st) (msg + MH_NONCE) new) (msg + MH_NONCE)" let ?l = "rt_hash st + 40 * ?i"
  let ?D = "{q..<q + 212} \<union> {d..<d + 36} \<union> {?l + NL_NUM..<?l + NL_NUM + 4} \<union> {msg..<msg + 288}"
  obtain f vs where f: "lists_ok st f" "f list = us @ vs" "\<forall>n\<in>set (f list). n \<noteq> 0 \<and> rcd (rt_heap st) n \<noteq> 0"
    and same: "list_heads st = list_heads st0" "hash_heads st = hash_heads st0" "head_bytes st = head_bytes st0" by (rule keptE [OF kept])
  have "?l = hash_list (rup (set_mm (mem_write (rmm st) (msg + MH_NONCE) new)) st) (msg + MH_NONCE)" by (simp add: hash_list_def)
  then have "?l \<in> hash_heads st" using hash_list_head [of "rup (set_mm (mem_write (rmm st) (msg + MH_NONCE) new)) st" "msg + MH_NONCE"]
    by (simp add: hash_heads_def)
  then have l: "?l \<in> list_heads st" by (rule hash_in_heads)
  note free = list_free [OF f(1) l q(5)]
  have ap: "apart q 212 ?l 40" "apart msg 288 ?l 40" using free(5) [OF q(3)] free(5) [OF q(9)] by simp_all
  obtain s where s: "create_aspect_node st msg = Some (s, q + 12)" "appended st ?l (f ?l) (d + 12) (q + 12) ?D s"
    by (rule create_aspect_node_result [OF q(1,2) new refl free(3,1,2) q(7,6) ap(1) q(8) ap(2)]) (auto simp: appended_def)
  have "st' = s" using step s(1) by simp
  moreover have "K \<inter> ?D = {}" using free(6) [of K] K same(3) q(3,4,9) unfolding fresh_def by blast
  ultimately show ?thesis using kept_append [OF kept f _ l q(5) _ _ s(2)] list same(2) by simp
qed

lemma take_kept:
  assumes kept: "kept K st0 list us st" and list: "list \<in> hash_heads st0" and K: "K \<inter> head_bytes st0 = {}"
    and step: "waiting_message_removehead st = (st', msg)"
  shows "kept K st0 list us st'"
proof -
  let ?w = "rt_waiting st" let ?h = "rt_heap st" let ?D = "{?w + NL_NUM..<?w + NL_CURR + 8}"
  obtain f vs where f: "lists_ok st f" "f list = us @ vs" "\<forall>n\<in>set (f list). n \<noteq> 0 \<and> rcd (rt_heap st) n \<noteq> 0"
    and same: "list_heads st = list_heads st0" "hash_heads st = hash_heads st0" "head_bytes st = head_bytes st0" by (rule keptE [OF kept])
  have w: "?w \<in> list_heads st" "?w \<notin> hash_heads st" using f(1) by (auto simp: lists_ok_def list_heads_def)
  have d: "dlist ?h ?w (f ?w)" using f(1) w(1) by (simp add: lists_ok_def)
  have st': "rt_hash st' = rt_hash st" "rt_waiting st' = ?w" "same_outside ?D (rmm st) (rmm st')"
      "rt_heap st' = ?h \<or> rt_heap st' = List_del (nxt ?h ?w) ?h"
    using step by (auto simp: waiting_message_removehead_def waiting_message_del_def node_list_del_def Let_def same_outside_def
        put_ptr_outside wr_int_outside split: if_splits)
  have hb: "{?w..<?w + 40} \<subseteq> head_bytes st" using w(1) unfolding head_bytes_def by blast
  then have "K \<inter> ?D = {}" using K same(3) by fastforce
  then have mem: "\<forall>a\<in>K. rmm st' a = rmm st a" using same_outside_keep [OF st'(3)] by blast
  have heads: "list_heads st' = list_heads st" "hash_heads st' = hash_heads st" using heads_cong [OF st'(1,2)] by auto
  have rcds: "rcd (rt_heap st') = rcd ?h" using st'(4) by auto
  have listw: "list \<noteq> ?w" using list w(2) same(2) by auto
  have "\<exists>g. lists_ok st' g \<and> g list = f list"
  proof (cases "rt_heap st' = ?h \<or> f ?w = []")
    case True
    have "nxt ?h ?w = ?w" if "f ?w = []" using dlist_nxt_head [OF d] that by simp
    then have "rt_heap st' = ?h" using True st'(4) by (auto simp: List_del_def)
    then have "lists_ok st' f" using f(1) heads st'(2) by (simp add: lists_ok_def)
    then show ?thesis by blast
  next
    case False
    then obtain x xs where x: "f ?w = x # xs" "rt_heap st' = List_del x ?h"
      using st'(4) dlist_nxt_head [OF d] by (cases "f ?w") auto
    have ring: "dlist (rt_heap st') ?w xs" using dlist_del(1) [of ?h ?w "[]" x xs] d x by simp
    have "dlist (rt_heap st') k (f k)" if k: "k \<in> list_heads st" "k \<noteq> ?w" for k
    proof (rule dlist_frame)
      show "dlist ?h k (f k)" using f(1) k(1) by (simp add: lists_ok_def)
      fix a assume "a \<in> set (k # f k)"
      moreover have "set (?w # f ?w) \<inter> set (k # f k) = {}" using f(1) w(1) k unfolding lists_ok_def by metis
      ultimately have "a \<notin> set (?w # [] @ x # xs)" using x(1) by auto
      then show "nxt (rt_heap st') a = nxt ?h a \<and> prv (rt_heap st') a = prv ?h a"
        using List_del_outside [of ?h ?w "[]" x xs a] d x by simp
    qed
    then have rings: "\<forall>k\<in>list_heads st. dlist (rt_heap st') k ((f(?w := xs)) k)" using ring by simp
    have sub: "set (k # (f(?w := xs)) k) \<subseteq> set (k # f k)" for k using x(1) by auto
    have "\<forall>l\<in>list_heads st. \<forall>k\<in>list_heads st. l \<noteq> k \<longrightarrow> set (l # f l) \<inter> set (k # f k) = {}"
      using f(1) unfolding lists_ok_def by (elim conjE) assumption
    then have "\<forall>l\<in>list_heads st. \<forall>k\<in>list_heads st. l \<noteq> k \<longrightarrow> set (l # (f(?w := xs)) l) \<inter> set (k # (f(?w := xs)) k) = {}"
      using sub by blast
    then have "lists_ok st' (f(?w := xs))" using f(1) rings unfolding lists_ok_def heads st'(2) by simp
    then show ?thesis using listw by (intro exI [of _ "f(?w := xs)"]) simp
  qed
  then show ?thesis using kept mem rcds f(2,3) st'(1,2) unfolding kept_def by metis
qed

lemma other_kept:
  assumes "kept K st0 list us st" "\<forall>a\<in>K. mm ms a = rmm st a"
  shows "kept K st0 list us (st\<lparr>rt_ms := ms\<rparr>)"
proof -
  have "lists_ok (st\<lparr>rt_ms := ms\<rparr>) f = lists_ok st f" for f
    by (simp add: lists_ok_def list_heads_def hash_heads_def)
  then show ?thesis using assms by (simp add: kept_def)
qed

lemma router_step_kept:
  assumes "router_step K st st'" "kept K st0 list us st" "list \<in> hash_heads st0" "K \<inter> head_bytes st0 = {}"
  shows "kept K st0 list us st'"
  using assms
proof (induction rule: router_step.induct)
  case (wait st d msg st' r)
  show ?case by (rule wait_kept [OF wait.prems wait.hyps])
next
  case (take st st' msg)
  show ?case by (rule take_kept [OF take.prems take.hyps])
next
  case (trace st q d msg st' t)
  show ?case by (rule trace_kept [OF trace.prems trace.hyps])
next
  case (aspect st q d msg new st' t)
  show ?case by (rule aspect_kept [OF aspect.prems aspect.hyps])
next
  case (other ms st)
  show ?case by (rule other_kept [OF other.prems(1) other.hyps])
qed

lemma router_run_kept:
  assumes "(router_step K)\<^sup>*\<^sup>* st st'" "kept K st0 list us st" "list \<in> hash_heads st0" "K \<inter> head_bytes st0 = {}"
  shows "kept K st0 list us st'"
  using assms by (induction rule: rtranclp_induct) (blast intro: router_step_kept)+

text \<open>A node that was added to a hash list is found when it is the first that matches.\<close>

lemma find_first: "(\<And>x. x \<in> set xs \<Longrightarrow> \<not> P x) \<Longrightarrow> P y \<Longrightarrow> find P (xs @ y # zs) = Some y"
  by (induction xs) auto

lemma appended_kept:
  assumes "lists_ok st f" "list \<in> hash_heads st" "e \<notin> on_lists st" "e \<noteq> 0" "r \<noteq> 0" "appended st list (f list) e r D st'"
    and "\<forall>n\<in>set (f list). n \<noteq> 0 \<and> rcd (rt_heap st) n \<noteq> 0"
  shows "kept K st' list (f list @ [e]) st'"
proof -
  have "lists_ok st' (f(list := f list @ [e]))" by (rule lists_ok_append [OF assms(1) hash_in_heads [OF assms(2)] assms(3,6)])
  moreover have "(f(list := f list @ [e])) list = (f list @ [e]) @ []" by simp
  moreover have "\<forall>n\<in>set ((f(list := f list @ [e])) list). n \<noteq> 0 \<and> rcd (rt_heap st') n \<noteq> 0"
    using assms(4-7) by (auto simp: appended_def)
  ultimately show ?thesis unfolding kept_def by blast
qed

lemma kept_found:
  assumes kept: "kept K st1 list (ns @ [e]) st2" and t: "rcd (rt_heap st1) e = t"
    and list: "list = hash_list st2 (ans + MH_NONCE)" and ans: "ans \<noteq> 0"
    and old: "\<forall>n\<in>set ns. \<not> trace_of (rmm st2) (ans + MH_NONCE) flow (rcd (rt_heap st1) n)"
    and new: "trace_of (rmm st2) (ans + MH_NONCE) flow t"
  shows "message_route_findtrace st2 ans flow = Some t"
proof -
  obtain f vs where f: "lists_ok st2 f" "f list = (ns @ [e]) @ vs" "\<forall>n\<in>set (f list). n \<noteq> 0 \<and> rcd (rt_heap st2) n \<noteq> 0"
    by (rule keptE [OF kept])
  have rcds: "\<forall>n\<in>set (ns @ [e]). rcd (rt_heap st2) n = rcd (rt_heap st1) n" using kept by (simp add: kept_def)
  have "dlist (rt_heap st2) list (f list)" using f(1) hash_in_heads [OF hash_list_head] unfolding list by (simp add: lists_ok_def)
  then have "message_route_findtrace st2 ans flow
      = Some (case find (trace_of (rmm st2) (ans + MH_NONCE) flow) (map (rcd (rt_heap st2)) (f list)) of None \<Rightarrow> 0 | Some t \<Rightarrow> t)"
    using f(3) ans unfolding list by (intro findtrace_find) auto
  moreover have "map (rcd (rt_heap st2)) (f list) = map (rcd (rt_heap st1)) ns @ t # map (rcd (rt_heap st2)) vs"
    using rcds t f(2) by simp
  moreover have "find (trace_of (rmm st2) (ans + MH_NONCE) flow) (map (rcd (rt_heap st1)) ns @ t # map (rcd (rt_heap st2)) vs) = Some t"
    using old new by (intro find_first) auto
  ultimately show ?thesis by simp
qed

section \<open>Answers find what was kept\<close>

text \<open>(C11) The answer to a query finds the trace that was kept for the query, whatever the router does in between: it may add and take
  waiting messages, keep traces and aspects of other messages, and write to everything but the uuid, flag, source and policy of the
  trace, its target included. Only an earlier trace in the same list whose uuid is that of the answer would be found first. With the
  trace the answer is sent back to the sender of the query as a response (\<open>message_route_settracesrc\<close>, the way back), or set on the
  response path of the policy of the query with the target of the trace as its sender (\<open>message_route_settracetarget\<close>, an
  answer from outside).\<close>

theorem query_answer_returns:
  assumes blocks: "coming (rt_ms st) 0 = Some q" "coming (rt_ms st) 1 = Some d" "fresh {} st q 128" "apart q 128 msg 288" "apart q 128 d 36"
    and lists: "lists_ok st f" "d + 12 \<notin> on_lists st" "list = hash_list st (msg + MH_NONCE)"
      "\<forall>n\<in>set (f list). n \<noteq> 0 \<and> rcd (rt_heap st) n \<noteq> 0"
    and trace: "create_trace_node st msg = (st1, t)"
    and run: "(router_step (trace_bytes t))\<^sup>*\<^sup>* st1 st2"
    and ans: "ans \<noteq> 0" "apart t 116 ans 288" "mem_bytes (rmm st2) (ans + MH_NONCE) 32 = mem_bytes (rmm st) (msg + MH_NONCE) 32"
    and old: "\<forall>n\<in>set (f list). \<not> trace_of (rmm st2) (ans + MH_NONCE) flow (rcd (rt_heap st) n)"
    and flow: "flow \<noteq> MSG_FLOW_ASPECT" and policy: "qp st (msg + MB_POLICY) + RP_RESPONSE < 2 ^ 64"
  shows "message_route_findtrace st2 ans flow = Some t
    \<and> (\<exists>st3. message_route_settracesrc st2 ans t = Some (st3, 1)
         \<and> mem_bytes (rmm st3) (ans + MH_RECEIVER) 32 = mem_bytes (rmm st) (msg + MH_SENDER) 32 \<and> qi st3 (ans + MH_STATE) = MSG_STATE_RESPONSE)
    \<and> (\<exists>st3. message_route_settracetarget st2 ans t = Some (st3, 1)
         \<and> mem_bytes (rmm st3) (ans + MH_SENDER) 32 = mem_bytes (rmm st2) (t + 68) 32
         \<and> qp st3 (ans + MB_POLICY) = qp st (msg + MB_POLICY) \<and> qp st3 (ans + MB_PATH_SITE) = qp st (msg + MB_POLICY) + RP_RESPONSE)"
proof -
  let ?D = "{q..<q + 128} \<union> {d..<d + 36} \<union> {list + NL_NUM..<list + NL_NUM + 4}" let ?K = "trace_bytes t"
  have hl: "list \<in> hash_heads st" unfolding lists(3) by (rule hash_list_head)
  note free = list_free [OF lists(1) hash_in_heads [OF hl] lists(2)]
  have ap: "apart q 128 list 40" using free(5) [OF blocks(3)] by simp
  obtain s where s: "create_trace_node st msg = (s, q + 12)" "appended st list (f list) (d + 12) (q + 12) ?D s"
    "mem_bytes (rmm s) (q + 12) 32 = mem_bytes (rmm st) (msg + MH_NONCE) 32"
    "mem_bytes (rmm s) (q + 48) 32 = mem_bytes (rmm st) (msg + MH_SENDER) 32"
    "rd_sint (rmm s) 4 (q + 44) = 0" "get_ptr (rmm s) (q + 120) = get_ptr (rmm st) (msg + MB_POLICY)"
    by (rule create_trace_node_result [OF blocks(1,2) lists(3) free(3,1,2) blocks(4,5) ap]) (auto simp: appended_def)
  have [simp]: "st1 = s" "t = q + 12" using trace s(1) by simp_all
  have same: "rt_hash s = rt_hash st" "rt_waiting s = rt_waiting st" using s(2) by (simp_all add: appended_def)
  have hs: "head_bytes s = head_bytes st" "hash_heads s = hash_heads st" using heads_cong [OF same] by auto
  have "kept ?K s list (f list @ [d + 12]) s"
    by (rule appended_kept [OF lists(1) hl lists(2) _ _ s(2) lists(4)]) simp_all
  moreover have "?K \<subseteq> {q..<q + 128}" by (auto simp: trace_bytes_def)
  then have "?K \<inter> head_bytes s = {}" using blocks(3) hs(1) unfolding fresh_def by blast
  ultimately have kept: "kept ?K s list (f list @ [d + 12]) st2" using router_run_kept [OF run] hl hs(2) by simp
  have K: "\<And>a. a \<in> ?K \<Longrightarrow> rmm st2 a = rmm s a" and hash: "rt_hash st2 = rt_hash st" using kept same by (simp_all add: kept_def)
  have "mem_bytes (rmm st2) t 68 = mem_bytes (rmm s) t 68" by (rule mem_bytes_cong) (rule K, simp add: trace_bytes_def)
  note at = node_reads [OF this]
  have p: "qp st2 (t + 108) = qp st (msg + MB_POLICY)"
    using get_ptr_cong [of "t + 108" "rmm st2" "rmm s"] K s(6) by (simp add: trace_bytes_def add.commute)
  have new: "trace_of (rmm st2) (ans + MH_NONCE) flow t"
    using flow s(3,5) ans(3) at(1) [of 0 32] at(3) [of 32 4] by (simp add: trace_of_def add.commute)
  have found: "message_route_findtrace st2 ans flow = Some t"
  proof (rule kept_found [OF kept])
    show "list = hash_list st2 (ans + MH_NONCE)" using hash_list_cong [OF ans(3) hash] lists(3) by simp
    show "\<forall>n\<in>set (f list). \<not> trace_of (rmm st2) (ans + MH_NONCE) flow (rcd (rt_heap s) n)"
      using old s(2) free(2) by (auto simp: appended_def)
  qed (use s(2) ans(1) new in \<open>simp_all add: appended_def\<close>)
  have t: "t \<noteq> 0" by simp
  obtain st3 where st3: "message_route_settracesrc st2 ans t = Some (st3, 1)"
    "mem_bytes (rmm st3) (ans + MH_RECEIVER) 32 = mem_bytes (rmm st2) (t + 36) 32" "qi st3 (ans + MH_STATE) = MSG_STATE_RESPONSE"
    by (rule settracesrc_result [OF ans(1) t ans(2)]) blast
  have "qp st2 (t + 108) + RP_RESPONSE < 2 ^ 64" using p policy by simp
  then obtain st4 where st4: "message_route_settracetarget st2 ans t = Some (st4, 1)" "qp st4 (ans + MB_POLICY) = qp st2 (t + 108)"
    "qp st4 (ans + MB_PATH_SITE) = qp st2 (t + 108) + RP_RESPONSE" "mem_bytes (rmm st4) (ans + MH_SENDER) 32 = mem_bytes (rmm st2) (t + 68) 32"
    by (rule settracetarget_result [OF ans(1) t ans(2)]) blast
  have "mem_bytes (rmm st2) (t + 36) 32 = mem_bytes (rmm st) (msg + MH_SENDER) 32" using at(1) [of 36 32] s(4) by (simp add: add.commute)
  then show ?thesis using found st3 st4 p by auto
qed

text \<open>(C12) A message that an aspect sends on with a fresh uuid finds its node again under this uuid when it comes back, whatever the
  router does in between without writing to the node, if no older node has the uuid. The recovery gives it the old uuid, sender,
  receiver, route, flow, state, jumps, policy and site; of its flag the bits outside of the mask are the old ones, and those of the mask
  are as they came back.\<close>

theorem aspect_message_recovers:
  assumes blocks: "coming (rt_ms st) 0 = Some q" "coming (rt_ms st) 1 = Some d" "fresh {} st q 212" "fresh {} st msg 288"
      "apart q 212 msg 288" "apart q 212 d 36" "apart msg 288 d 36"
    and new: "msg \<noteq> 0" "ms_random (rt_ms st) (ms_draws (rt_ms st)) = Inr new" "length new = 32"
    and lists: "lists_ok st f" "d + 12 \<notin> on_lists st"
      "list = rt_hash st + 40 * hash_index (mem_write (rmm st) (msg + MH_NONCE) new) (msg + MH_NONCE)"
      "\<forall>n\<in>set (f list). n \<noteq> 0 \<and> rcd (rt_heap st) n \<noteq> 0"
    and create: "create_aspect_node st msg = Some (st1, t)"
    and run: "(router_step {t..<t + 200})\<^sup>*\<^sup>* st1 st2"
    and ret: "ans \<noteq> 0" "apart t 200 ans 288" "mem_bytes (rmm st2) (ans + MH_NONCE) 32 = mem_bytes (rmm st1) (msg + MH_NONCE) 32"
    and old: "\<forall>n\<in>set (f list). \<not> trace_of (rmm st2) (ans + MH_NONCE) MSG_FLOW_ASPECT (rcd (rt_heap st) n)"
  shows "mem_bytes (rmm st1) (msg + MH_NONCE) 32 = new \<and> message_route_findtrace st2 ans MSG_FLOW_ASPECT = Some t
    \<and> (\<exists>st3. message_route_aspectrecover st2 ans t = Some (st3, 1) \<and> aspect_info_of (rmm st3) ans = aspect_info_of (rmm st) msg
         \<and> qi st3 (ans + MH_FLAG) = (qi st2 (ans + MH_FLAG) AND flag_mask) OR (qi st (msg + MH_FLAG) AND NOT flag_mask))"
proof -
  let ?D = "{q..<q + 212} \<union> {d..<d + 36} \<union> {list + NL_NUM..<list + NL_NUM + 4} \<union> {msg..<msg + 288}" let ?K = "{t..<t + 200}"
  have "list = hash_list (rup (set_mm (mem_write (rmm st) (msg + MH_NONCE) new)) st) (msg + MH_NONCE)" using lists(3) by (simp add: hash_list_def)
  then have hl: "list \<in> hash_heads st" using hash_list_head [of "rup (set_mm (mem_write (rmm st) (msg + MH_NONCE) new)) st" "msg + MH_NONCE"]
    by (simp add: hash_heads_def)
  note free = list_free [OF lists(1) hash_in_heads [OF hl] lists(2)]
  have ap: "apart q 212 list 40" "apart msg 288 list 40" using free(5) [OF blocks(3)] free(5) [OF blocks(4)] by simp_all
  obtain s where s: "create_aspect_node st msg = Some (s, q + 12)" "appended st list (f list) (d + 12) (q + 12) ?D s"
    "mem_bytes (rmm s) (q + 12) 32 = new" "mem_bytes (rmm s) (msg + MH_NONCE) 32 = new" "rd_sint (rmm s) 4 (q + 44) = MSG_FLOW_ASPECT"
    "node_info_of (rmm s) (q + 12) = aspect_info_of (rmm st) msg" "rd_sint (rmm s) 4 (q + 184) = qi st (msg + MH_FLAG)"
    "hash_list s (msg + MH_NONCE) = list"
    by (rule create_aspect_node_result [OF blocks(1,2) new lists(3) free(3,1,2) blocks(5,6) ap(1) blocks(7) ap(2)]) (auto simp: appended_def)
  have [simp]: "st1 = s" "t = q + 12" using create s(1) by simp_all
  have same: "rt_hash s = rt_hash st" "rt_waiting s = rt_waiting st" using s(2) by (simp_all add: appended_def)
  have hs: "head_bytes s = head_bytes st" "hash_heads s = hash_heads st" using heads_cong [OF same] by auto
  have "kept ?K s list (f list @ [d + 12]) s"
    by (rule appended_kept [OF lists(1) hl lists(2) _ _ s(2) lists(4)]) simp_all
  moreover have "?K \<subseteq> {q..<q + 212}" by auto
  then have "?K \<inter> head_bytes s = {}" using blocks(3) hs(1) unfolding fresh_def by blast
  ultimately have kept: "kept ?K s list (f list @ [d + 12]) st2" using router_run_kept [OF run] hl hs(2) by simp
  have K: "\<And>a. a \<in> ?K \<Longrightarrow> rmm st2 a = rmm s a" and hash: "rt_hash st2 = rt_hash s" using kept by (simp_all add: kept_def)
  have "mem_bytes (rmm st2) t 200 = mem_bytes (rmm s) t 200" by (rule mem_bytes_cong) (rule K, simp)
  note at = node_reads [OF this]
  have here: "trace_of (rmm st2) (ans + MH_NONCE) MSG_FLOW_ASPECT t"
    using s(3-5) ret(3) at(1) [of 0 32] at(3) [of 32 4] by (simp add: trace_of_def add.commute)
  have found: "message_route_findtrace st2 ans MSG_FLOW_ASPECT = Some t"
  proof (rule kept_found [OF kept])
    show "list = hash_list st2 (ans + MH_NONCE)" using hash_list_cong [OF _ hash] ret(3) s(8) by simp
    show "\<forall>n\<in>set (f list). \<not> trace_of (rmm st2) (ans + MH_NONCE) MSG_FLOW_ASPECT (rcd (rt_heap s) n)"
      using old s(2) free(2) by (auto simp: appended_def)
  qed (use s(2) ret(1) here in \<open>simp_all add: appended_def\<close>)
  have "node_info_of (rmm st2) t = node_info_of (rmm s) t"
    using at(1) [of 68 32] at(1) [of 100 32] at(1) [of 132 32] at(1) [of 36 32] at(2) [of 192 8] at(2) [of 184 8]
      at(3) [of 164 4] at(3) [of 168 4] at(3) [of 176 4] at(3) [of 180 4] unfolding node_info_of_def by simp
  moreover have "qi st2 (t + 172) = qi st (msg + MH_FLAG)" using at(3) [of 172 4] s(7) by (simp add: add.commute)
  ultimately show ?thesis using found s(4,6) ret(1) recover_aspect_message_result [of t ans st2] ret(2)
    by (simp add: message_route_aspectrecover_def)
qed

section \<open>Examples\<close>

text \<open>
  The empty lists of the example; after a node was kept, the message is added to the waiting list, the target of the trace is
  written and the message is taken from the list again.
\<close>

lemma example_waiting [simp]: "rt_waiting (route_example m h) = 30080"
  by (simp add: route_example_def)

lemma example_heads: "list_heads (route_example m h) = insert 30080 ((\<lambda>i. 40000 + 40 * i) ` {..<256})"
  by (simp add: list_heads_def hash_heads_def)

lemma example_head_bytes: "head_bytes (route_example m h) \<subseteq> {30080..<30120} \<union> {40000..<50240}"
  unfolding head_bytes_def example_heads by auto

lemma example_lists_ok: "lists_ok (route_example m lone_head) (\<lambda>_. [])"
  unfolding lists_ok_def example_heads by (auto simp: hash_heads_def lone_list)

lemma example_on_lists: "on_lists (route_example m lone_head) \<subseteq> {30080} \<union> {40000..<50240}"
  unfolding on_lists_rings [OF example_lists_ok] example_heads by auto

lemma example_fresh: "a + n \<le> 30080 \<Longrightarrow> fresh {} (route_example m h) a n"
  using example_head_bytes [of m h] unfolding fresh_def by fastforce

lemma example_nodes:
  assumes app: "appended (route_example m lone_head) 40000 [] 6012 r D st1"
  shows "head_bytes st1 \<subseteq> {30080..<30120} \<union> {40000..<50240}" "7012 \<notin> on_lists st1" "rt_waiting st1 = 30080"
    "\<And>K. K \<subseteq> {..<7000} \<Longrightarrow> fresh K st1 7000 36"
proof -
  let ?st = "route_example m lone_head"
  have same: "rt_hash st1 = rt_hash ?st" "rt_waiting st1 = rt_waiting ?st" using app by (simp_all add: appended_def)
  have h: "list_heads st1 = list_heads ?st" "head_bytes st1 = head_bytes ?st" using heads_cong [OF same] by auto
  then show hb: "head_bytes st1 \<subseteq> {30080..<30120} \<union> {40000..<50240}" using example_head_bytes by simp
  have m: "40000 \<in> list_heads ?st" unfolding example_heads by (auto intro!: image_eqI [of _ _ 0])
  have n: "6012 \<notin> on_lists ?st" using example_on_lists [of m] by auto
  have "lists_ok st1 ((\<lambda>_. [])(40000 := [6012]))"
    using lists_ok_append [OF example_lists_ok m n, of r D st1] app by simp
  then show "7012 \<notin> on_lists st1" unfolding on_lists_rings [OF \<open>lists_ok st1 _\<close>] h(1) example_heads by auto
  show "rt_waiting st1 = 30080" using same by simp
  show "fresh K st1 7000 36" if "K \<subseteq> {..<7000}" for K using that hb unfolding fresh_def by fastforce
qed

lemma example_wait:
  assumes "appended (route_example m lone_head) 40000 [] 6012 r D st1" "coming (rt_ms st1) 0 = Some 7000" "K \<subseteq> {..<7000}"
    and "waiting_message_add st1 1000 = (sa, k)"
  shows "router_step K st1 sa"
  using router_step.wait [OF assms(2) example_nodes(4) [OF assms(1,3)] _ assms(4)] example_nodes(2) [OF assms(1)] by simp

lemma example_kept:
  assumes app: "appended (route_example m lone_head) 40000 [] 6012 r D st1" and r: "r \<noteq> 0" and K: "K \<subseteq> {..<7000}"
    and run: "(router_step K)\<^sup>*\<^sup>* st1 st2"
  shows "\<forall>a\<in>K. rmm st2 a = rmm st1 a"
proof -
  have m: "40000 \<in> hash_heads (route_example m lone_head)" by (auto simp: hash_heads_def intro!: image_eqI [of _ _ 0])
  have n: "6012 \<notin> on_lists (route_example m lone_head)" using example_on_lists [of m] by auto
  have "kept K st1 40000 ([] @ [6012]) st1"
    by (rule appended_kept [OF example_lists_ok m n _ r, of D st1]) (use app in simp_all)
  moreover have "40000 \<in> hash_heads st1" using m app by (simp add: appended_def hash_heads_def)
  moreover have "K \<inter> head_bytes st1 = {}" using K example_nodes(1) [OF app] by fastforce
  ultimately have "kept K st1 40000 ([] @ [6012]) st2" by (rule router_run_kept [OF run])
  then show ?thesis by (simp add: kept_def)
qed

lemma router_run_mono: "(router_step K')\<^sup>*\<^sup>* st st' \<Longrightarrow> K \<subseteq> K' \<Longrightarrow> (router_step K)\<^sup>*\<^sup>* st st'"
  by (rule rtranclp_mono [THEN predicate2D]) (auto intro: router_step_mono)

theorem query_answer_returns_witness:
  "\<exists>st1 sa sb sc k msg. create_trace_node (route_example sender_mem lone_head) 1000 = (st1, 5012)
    \<and> waiting_message_add st1 1000 = (sa, k) \<and> message_route_gettracetarget sa 1000 5012 = Some (sb, 1)
    \<and> waiting_message_removehead sb = (sc, msg) \<and> message_route_findtrace sc 1000 0 = Some 5012
    \<and> (\<exists>st3. message_route_settracesrc sc 1000 5012 = Some (st3, 1) \<and> mem_bytes (rmm st3) 1040 32 = mem_bytes sender_mem 1008 32)
    \<and> (\<exists>st3. message_route_settracetarget sc 1000 5012 = Some (st3, 1) \<and> qp st3 1280 = 168)"
proof -
  let ?st = "route_example sender_mem lone_head"
  have hl: "40000 = hash_list ?st (1000 + MH_NONCE)" by (simp add: hash_list_def sender_hash)
  have free: "apart 5000 128 1000 288" "apart 5000 128 6000 36" "apart 5000 128 40000 40" by (simp_all add: apart_def)
  obtain st1 where st1: "create_trace_node ?st 1000 = (st1, 5012)" "appended ?st 40000 [] 6012 5012
      ({5000..<5128} \<union> {6000..<6036} \<union> {40028..<40032}) st1" "\<And>k. coming (rt_ms st1) k = coming (rt_ms ?st) (Suc (Suc k))"
    by (rule create_trace_node_result [of ?st 5000 6000 40000 1000 "[]"]) (use hl free lone_list in \<open>simp_all add: appended_def\<close>)
  let ?N = "{1000..<1288} :: nat set" let ?K = "?N \<union> trace_bytes 5012"
  have K7: "?K \<subseteq> {..<7000}" unfolding trace_bytes_def by auto
  obtain sa k where sa: "waiting_message_add st1 1000 = (sa, k)" by fastforce
  obtain sb where sb: "message_route_gettracetarget sa 1000 5012 = Some (sb, 1)" by (simp add: message_route_gettracetarget_def)
  obtain sc msg where sc: "waiting_message_removehead sb = (sc, msg)" by fastforce
  have "router_step ?K st1 sa" by (rule example_wait [OF st1(2) _ K7 sa]) (use st1(3) [of 0] in simp)
  moreover have "{5012 + 68..<5012 + 100} \<inter> ?K = {}" by (auto simp: trace_bytes_def)
  then have "router_step ?K sa sb" by (intro gettracetarget_step [OF sb]) (simp_all add: apart_def)
  ultimately have run: "(router_step ?K)\<^sup>*\<^sup>* st1 sc"
    using router_step.take [OF sc] by (meson converse_rtranclp_into_rtranclp r_into_rtranclp)
  have same: "\<forall>a\<in>?K. rmm sc a = rmm st1 a" by (rule example_kept [OF st1(2) _ K7 run]) simp
  have run1: "(router_step (trace_bytes 5012))\<^sup>*\<^sup>* st1 sc" by (rule router_run_mono [OF run]) simp
  have "mem_bytes (rmm sc) (1000 + MH_NONCE) 32 = mem_bytes (rmm st1) (1000 + MH_NONCE) 32" by (rule mem_bytes_cong) (use same in auto)
  also have "\<dots> = mem_bytes (rmm ?st) (1000 + MH_NONCE) 32"
    by (rule mem_bytes_cong) (use st1(2) in \<open>auto simp: appended_def same_outside_def\<close>)
  finally have nonce: "mem_bytes (rmm sc) (1000 + MH_NONCE) 32 = mem_bytes (rmm ?st) (1000 + MH_NONCE) 32" .
  have p: "qp ?st (1000 + MB_POLICY) = 0" by (rule get_ptr_zero) (simp add: sender_zero)
  have fr: "fresh {} ?st 5000 128" by (rule example_fresh) simp
  have new: "6000 + 12 \<notin> on_lists ?st" using example_on_lists [of sender_mem] by auto
  show ?thesis
    using query_answer_returns [OF _ _ fr free(1,2) example_lists_ok new hl _ st1(1) run1 _ _ nonce, of 0] st1(1) sa sb sc p
    by (auto simp: apart_def)
qed

theorem aspect_message_recovers_witness:
  "\<exists>st1 sa sb sc k msg st3. create_aspect_node (route_example sender_mem lone_head) 1000 = Some (st1, 5012)
    \<and> waiting_message_add st1 1000 = (sa, k) \<and> waiting_message_removehead sa = (sb, msg)
    \<and> message_route_findtrace sb 1000 MSG_FLOW_ASPECT = Some 5012 \<and> message_route_aspectrecover sb 1000 5012 = Some (st3, 1)
    \<and> aspect_info_of (rmm st3) 1000 = aspect_info_of sender_mem 1000"
proof -
  let ?st = "route_example sender_mem lone_head" let ?new = "replicate 32 (0 :: byte)"
  have rand: "1000 \<noteq> (0 :: nat)" "ms_random (rt_ms ?st) (ms_draws (rt_ms ?st)) = Inr ?new" "length ?new = 32" by simp_all
  have hl: "40000 = rt_hash ?st + 40 * hash_index (mem_write (rmm ?st) (1000 + MH_NONCE) ?new) (1000 + MH_NONCE)" by (simp add: sender_hash)
  have free: "apart 5000 212 1000 288" "apart 5000 212 6000 36" "apart 1000 288 6000 36" "apart 5000 212 40000 40" "apart 1000 288 40000 40"
    by (simp_all add: apart_def)
  obtain st1 where st1: "create_aspect_node ?st 1000 = Some (st1, 5012)" "appended ?st 40000 [] 6012 5012
      ({5000..<5212} \<union> {6000..<6036} \<union> {40028..<40032} \<union> {1000..<1288}) st1" "\<And>k. coming (rt_ms st1) k = coming (rt_ms ?st) (Suc (Suc k))"
    by (rule create_aspect_node_result [of ?st 5000 6000 1000 ?new 40000 "[]", OF _ _ rand hl _ _ _ free(1,2,4,3,5)])
      (use lone_list in \<open>simp_all add: appended_def\<close>)
  let ?K = "{1000..<1288} \<union> {5012..<5012 + 200} :: nat set"
  have K7: "?K \<subseteq> {..<7000}" by auto
  obtain sa k where sa: "waiting_message_add st1 1000 = (sa, k)" by fastforce
  obtain sb msg where sb: "waiting_message_removehead sa = (sb, msg)" by fastforce
  have "router_step ?K st1 sa" by (rule example_wait [OF st1(2) _ K7 sa]) (use st1(3) [of 0] in simp)
  then have run: "(router_step ?K)\<^sup>*\<^sup>* st1 sb"
    using router_step.take [OF sb] by (meson converse_rtranclp_into_rtranclp r_into_rtranclp)
  have same: "\<forall>a\<in>?K. rmm sb a = rmm st1 a" by (rule example_kept [OF st1(2) _ K7 run]) simp
  have run1: "(router_step {5012..<5012 + 200})\<^sup>*\<^sup>* st1 sb" by (rule router_run_mono [OF run]) simp
  have nonce: "mem_bytes (rmm sb) (1000 + MH_NONCE) 32 = mem_bytes (rmm st1) (1000 + MH_NONCE) 32"
    by (rule mem_bytes_cong) (use same in auto)
  have fr: "fresh {} ?st 5000 212" "fresh {} ?st 1000 288" by (rule example_fresh; simp)+
  have new: "6000 + 12 \<notin> on_lists ?st" using example_on_lists [of sender_mem] by auto
  show ?thesis
    using aspect_message_recovers [OF _ _ fr free(1-3) rand example_lists_ok new hl _ st1(1) run1 _ _ nonce] st1(1) sa sb
    by (auto simp: apart_def)
qed

end
