(* ===== verification/Cube_Route_Json.thy ===== *)
theory Cube_Route_Json
  imports Cube_Route Cube_Message_Json
begin

text \<open>
  Reading policies, \<open>route_read_policy\<close> and \<open>read_policy_from_buffer\<close> of \<^verbatim>\<open>cubelib/dispatch/route_tree.c\<close>: a tree with the
  members \<^verbatim>\<open>policy_head\<close>, \<^verbatim>\<open>MATCH_RULES\<close> and \<^verbatim>\<open>ROUTE_RULES\<close> becomes a path with its rules, or a branch at a node of
  a path that exists already. Several returns give an error code where a pointer is meant.
\<close>

section \<open>Trees on the state of the router\<close>

type_synonym rjstate = "rstate \<times> jheap"

definition on_json :: "(mstate \<times> jheap \<Rightarrow> ((mstate \<times> jheap) \<times> 'a) option) \<Rightarrow> rjstate \<Rightarrow> (rjstate \<times> 'a) option" where
  "on_json f s = do { ((ms, h), r) \<leftarrow> f (rt_ms (fst s), snd s); Some (((fst s)\<lparr>rt_ms := ms\<rparr>, h), r) }"

definition m_json_marked_struct :: "nat option \<Rightarrow> nat \<Rightarrow> u32 \<Rightarrow> mstate \<times> jheap \<Rightarrow> ((mstate \<times> jheap) \<times> int) option" where
  "m_json_marked_struct node t flag s =
     (if t = 0 then None
      else
        do { res \<leftarrow> json_marked_struct (db_es (ms_db (fst s)), snd s) node (t - 1) flag;
             ((es1, h1), r) \<leftarrow> res;
             Some (((fst s)\<lparr>ms_db := set_es es1 (ms_db (fst s))\<rparr>, h1), r) })"

abbreviation (input) match_flag :: u32 where "match_flag \<equiv> 0x10000000"
abbreviation (input) MSG_FLOW_DELIVER :: int where "MSG_FLOW_DELIVER \<equiv> 4"
abbreviation (input) ROUTE_TARGET_FINISH :: int where "ROUTE_TARGET_FINISH \<equiv> 0x1000"

text \<open>A \<^verbatim>\<open>POLICY_HEAD\<close>: the pointer to the name 0, state 8, type 12, sender 16, the pointer to the new name 48, ljump 56, rjump 60.\<close>

abbreviation (input) PH_STATE :: nat where "PH_STATE \<equiv> 8"
abbreviation (input) PH_TYPE :: nat where "PH_TYPE \<equiv> 12"
abbreviation (input) PH_SENDER :: nat where "PH_SENDER \<equiv> 16"
abbreviation (input) PH_NEWNAME :: nat where "PH_NEWNAME \<equiv> 48"
abbreviation (input) PH_LJUMP :: nat where "PH_LJUMP \<equiv> 56"
abbreviation (input) PH_RJUMP :: nat where "PH_RJUMP \<equiv> 60"

section \<open>The head\<close>

text \<open>
  A copying or aspect policy becomes a branch of the node its jumps lead to; \<open>Inl\<close> is the pointer that
  \<open>route_read_policy\<close> returns. There is no result where the search for the policy or for the node sets nothing.
\<close>

definition read_branch :: "nat \<Rightarrow> nat \<Rightarrow> rstate \<Rightarrow> (rstate \<times> (nat + unit)) option" where
  "read_branch path policy st =
     (let ljump = qi st (policy + PH_LJUMP); rjump = qi st (policy + PH_RJUMP); type = qi st (policy + PH_TYPE)
      in if qp st policy = 0 then None
         else do {
           (st1, code, normal) \<leftarrow> router_find_policy_byname st (qp st policy) rjump ljump;
           ret \<leftarrow> code;
           if ret < 0 then Some (st1, Inl (nat (2 ^ 64 + ret)))
           else if normal = 0 then Some (st1, Inl 0)
           else if ljump = 0 then Some (st1, Inl einval_ptr)
           else do {
             node \<leftarrow> snd (route_get_node_byjump st1 normal ljump rjump);
             if node = 0 then Some (st1, Inl einval_ptr)
             else
               let (st2, branch) = rpair (m_talloc0 24) st1
               in if branch = 0 then Some (st2, Inl enomem_ptr)
                  else
                    let st3 = rup (wp (branch + 16) path) (rup (wi (branch + 12) type) (rup (wp branch normal) st2));
                        (st4, rec) = node_list_add st3 (node + 32) branch
                    in if rec = 0 then Some (st4, Inl 0)
                       else do {
                         st5 \<leftarrow> r_strncpy path (qp st4 (policy + PH_NEWNAME)) 32 st4;
                         Some (rup (wi (path + RP_FLOW) (if type = MSG_FLOW_DUP then MSG_FLOW_DELIVER else MSG_FLOW_QUERY)) st5,
                               Inr ()) } } })"

definition read_plain_head :: "nat \<Rightarrow> nat \<Rightarrow> rstate \<Rightarrow> (rstate \<times> (nat + unit)) option" where
  "read_plain_head path policy st =
     do { st1 \<leftarrow> r_strncpy path (qp st policy) 32 st;
          st2 \<leftarrow> r_strncpy (path + RP_SENDER) (policy + PH_SENDER) 32 st1;
          Some (rup (wi (path + RP_FLOW) (qi st2 (policy + PH_TYPE))) st2, Inr ()) }"

definition set_policy_jumps :: "nat \<Rightarrow> nat \<Rightarrow> rstate \<Rightarrow> rstate" where
  "set_policy_jumps path policy st =
     (let st1 = rup (wi (path + RP_LJUMP) (qi st (policy + PH_LJUMP))) st;
          st2 = rup (wi (path + RP_RJUMP) \<bar>qi st1 (policy + PH_RJUMP)\<bar>) st1
      in rup (wi (path + RP_STATE) (qi st2 (policy + PH_STATE))) st2)"

section \<open>Rules\<close>

text \<open>
  The value of a match rule: its template is a copy of that of the record type in which the elements that the tree
  names are marked, and only these are read.
\<close>

definition read_match_value :: "nat \<Rightarrow> nat \<Rightarrow> nat \<Rightarrow> rjstate \<Rightarrow> (rjstate \<times> bool) option" where
  "read_match_value rule policy node s =
     do { (st1, t0) \<leftarrow> ropt (get_template (qi (fst s) (rule + 8)) (qi (fst s) (rule + 12))) (fst s);
          if t0 = 0 then Some ((st1, snd s), False)
          else do {
            (st2, t) \<leftarrow> ropt (m_clone_template t0) st1;
            if t = 0 then Some ((st2, snd s), False)
            else do {
              (s3, r3) \<leftarrow> on_json (m_json_marked_struct (Some node) t match_flag) (rup (wp (rule + 32) t) st2, snd s);
              if r3 < 0 then Some (s3, False)
              else do {
                sz \<leftarrow> m_struct_size (rt_ms (fst s3)) t;
                let (st4, v) = rpair (m_dalloc0 sz policy) (fst s3);
                if v = 0 then Some ((st4, snd s3), False)
                else do {
                  (s5, r5) \<leftarrow> on_json (m_json_2_struct (Some match_flag) (Some node) v (qp st4 (rule + 32))) (st4, snd s3);
                  if r5 < 0 then Some (s5, False) else Some ((rup (wp (rule + 40) v) (fst s5), snd s5), True) } } } } }"

definition r_json_next :: "nat \<Rightarrow> rjstate \<Rightarrow> (rjstate \<times> nat option) option" where
  "r_json_next node s = map_option (\<lambda>(h1, c). ((fst s, h1), c)) (json_get_next_child (snd s) node)"

partial_function (option) read_match_rules :: "nat \<Rightarrow> nat \<Rightarrow> nat \<Rightarrow> nat option \<Rightarrow> rjstate \<Rightarrow> (rjstate \<times> bool) option" where
  "read_match_rules path policy list node s =
     (case node of
        None \<Rightarrow> Some (s, True)
      | Some c \<Rightarrow>
          (let (st1, rule) = rpair (m_dalloc0 48 path) (fst s)
           in if rule = 0 then Some ((st1, snd s), False)
              else do {
                (s2, r2) \<leftarrow> on_json (m_json_2_struct None (Some c) rule (rt_match_template st1)) (st1, snd s);
                if r2 < 0 then Some (s2, False)
                else do {
                  (h3, v) \<leftarrow> find_in (ascii ''value'') (snd s2) (Some c);
                  (s4, ok) \<leftarrow> (case v of None \<Rightarrow> Some ((fst s2, h3), True) | Some x \<Rightarrow> read_match_value rule policy x (fst s2, h3));
                  if \<not> ok then Some (s4, False)
                  else do {
                    (s5, n) \<leftarrow> r_json_next list (fst (route_policy_addmatchrule (fst s4) path rule), snd s4);
                    read_match_rules path policy list n s5 } } }))"

text \<open>The rules of a route; \<open>add\<close> is \<open>route_policy_addrouterule\<close> or \<open>route_tree_addresponserule\<close>.\<close>

partial_function (option) read_route_rules ::
  "(rstate \<Rightarrow> nat \<Rightarrow> nat \<Rightarrow> (rstate \<times> int) option) \<Rightarrow> nat \<Rightarrow> nat \<Rightarrow> nat option \<Rightarrow> rjstate \<Rightarrow> (rjstate \<times> bool) option" where
  "read_route_rules add path list node s =
     (case node of
        None \<Rightarrow> Some (s, True)
      | Some c \<Rightarrow>
          (let (st1, rule) = rpair (m_dalloc0 12 path) (fst s)
           in if rule = 0 then Some ((st1, snd s), False)
              else do {
                (s2, r2) \<leftarrow> on_json (m_json_2_struct None (Some c) rule (rt_rule_template st1)) (st1, snd s);
                if r2 < 0 then Some (s2, False)
                else do {
                  (st3, r3) \<leftarrow> add (fst s2) path rule;
                  if r3 < 0 then Some ((st3, snd s2), False)
                  else do {
                    (s4, n) \<leftarrow> r_json_next list (st3, snd s2);
                    read_route_rules add path list n s4 } } }))"

definition add_finish ::
  "(rstate \<Rightarrow> nat \<Rightarrow> nat \<Rightarrow> (rstate \<times> int) option) \<Rightarrow> nat \<Rightarrow> rjstate \<Rightarrow> (rjstate \<times> bool) option" where
  "add_finish add path s =
     (let (st1, rule) = rpair (m_dalloc0 12 path) (fst s)
      in if rule = 0 then Some ((st1, snd s), False)
         else do { (st2, r) \<leftarrow> add (rup (wi rule ROUTE_TARGET_FINISH) st1) path rule;
                   Some ((st2, snd s), \<not> r < 0) })"

text \<open>The rules at the node \<open>node\<close>, and behind them the one that ends the route.\<close>

definition read_route ::
  "(rstate \<Rightarrow> nat \<Rightarrow> nat \<Rightarrow> (rstate \<times> int) option) \<Rightarrow> nat \<Rightarrow> nat option \<Rightarrow> rjstate \<Rightarrow> (rjstate \<times> bool) option" where
  "read_route add path node s =
     do { (s1, ok) \<leftarrow> (case node of
              None \<Rightarrow> Some (s, True)
            | Some x \<Rightarrow> (let (h1, c) = json_get_first_child (snd s) x in read_route_rules add path x c (fst s, h1)));
          if ok then add_finish add path s1 else Some (s1, False) }"

section \<open>Policies\<close>

text \<open>Everything below the head; the response route is read for queries only and may be missing.\<close>

definition read_policy_rules :: "nat \<Rightarrow> nat \<Rightarrow> nat option \<Rightarrow> rjstate \<Rightarrow> (rjstate \<times> bool) option" where
  "read_policy_rules path policy node s =
     do { (h1, matches) \<leftarrow> find_in (ascii ''MATCH_RULES'') (snd s) node;
          case matches of
            None \<Rightarrow> Some ((fst s, h1), False)
          | Some mnode \<Rightarrow> do {
              (h2, routes) \<leftarrow> find_in (ascii ''ROUTE_RULES'') h1 node;
              if routes = None then Some ((fst s, h2), False)
              else do {
                let (h3, c) = json_get_first_child h2 mnode;
                (s4, ok4) \<leftarrow> read_match_rules path policy mnode c (fst s, h3);
                if \<not> ok4 then Some (s4, False)
                else do {
                  (h5, main) \<leftarrow> find_in (ascii ''main_policy'') (snd s4) routes;
                  if main = None then Some ((fst s4, h5), False)
                  else do {
                    (s6, ok6) \<leftarrow> read_route route_policy_addrouterule path main (fst s4, h5);
                    if \<not> ok6 \<or> qi (fst s6) (path + RP_FLOW) \<noteq> MSG_FLOW_QUERY then Some (s6, ok6)
                    else do {
                      (h7, response) \<leftarrow> find_in (ascii ''response_policy'') (snd s6) routes;
                      read_route route_tree_addresponserule path response (fst s6, h7) } } } } } }"

definition route_read_policy :: "nat option \<Rightarrow> rjstate \<Rightarrow> (rjstate \<times> nat) option" where
  "route_read_policy node s =
     (let (st1, path) = route_path_create (fst s)
      in if path = 0 then Some ((st1, snd s), 0)
         else do {
           (h2, head) \<leftarrow> find_in (ascii ''policy_head'') (snd s) node;
           if head = None then Some ((st1, h2), 0)
           else do {
             let (st3, policy) = rpair (m_talloc0 64) st1;
             if policy = 0 then Some ((st3, h2), 0)
             else do {
               (s4, r4) \<leftarrow> on_json (m_json_2_struct None head policy (rt_policy_template st3)) (st3, h2);
               if r4 < 0 then Some (s4, 0)
               else do {
                 let type = qi (fst s4) (policy + PH_TYPE);
                 (st5, r5) \<leftarrow> (if type = MSG_FLOW_DUP \<or> type = MSG_FLOW_ASPECT then read_branch path policy (fst s4)
                               else read_plain_head path policy (fst s4));
                 case r5 of
                   Inl p \<Rightarrow> Some ((st5, snd s4), p)
                 | Inr _ \<Rightarrow> do {
                     (s6, ok) \<leftarrow> read_policy_rules path policy node (set_policy_jumps path policy st5, snd s4);
                     Some (s6, if ok then path else 0) } } } } })"

text \<open>
  The texts of a buffer, one policy each. The root of the tree before is used again for a text
  for which the parser sets none; an error code taken for a pointer is added as a policy.
\<close>

partial_function (option) read_policies :: "nat \<Rightarrow> nat \<Rightarrow> int \<Rightarrow> nat option \<Rightarrow> int \<Rightarrow> rjstate \<Rightarrow> (rjstate \<times> int) option" where
  "read_policies buffer offset max_len root count s =
     (if int offset \<ge> max_len then Some (s, count)
      else do {
        text \<leftarrow> cstring (rmm (fst s)) (buffer + offset);
        (h1, root1, k) \<leftarrow> (case json_solve_str (snd s) text of
            Overrun \<Rightarrow> None
          | Code r \<Rightarrow> Some (snd s, root, r)
          | Solved h n \<Rightarrow> Some (h, Some (jnext (snd s)), int n));
        if k \<le> 0 then Some ((fst s, h1), count)
        else if root1 = None then None
        else do {
          (s2, policy) \<leftarrow> route_read_policy root1 (fst s, h1);
          if policy = 0 then Some (s2, count)
          else
            let (st3, r) = route_add_policy (fst s2) policy
            in if r < 0 then Some ((st3, snd s2), - EINVAL)
               else read_policies buffer (offset + nat k) max_len root1 (count + 1) (st3, snd s2) } })"

definition read_policy_from_buffer :: "nat \<Rightarrow> int \<Rightarrow> rjstate \<Rightarrow> (rjstate \<times> int) option" where
  "read_policy_from_buffer buffer max_len s = read_policies buffer 0 max_len None 0 s"

end
