(* ===== verification/Spec2Isabelle.thy ===== *)
theory Spec2Isabelle
  imports Cube_Prelude Cube_Memfunc Cube_Strconv Cube_List Cube_Containers Cube_Alloc Cube_Hashlist
    Cube_Channel Cube_SM4 Cube_Hashbase Cube_SM3 Cube_SHA1 Cube_Radix64 Cube_Crypto Cube_Msgqueue Cube_Slot
    Cube_Json Cube_Json_Text Cube_Json_Roundtrip Cube_Json_Print Cube_Json_Nodes
    Cube_Error Cube_Struct Cube_Struct_Ops Cube_Enum_Flag Cube_Struct_Init Cube_Struct_Elem Cube_Struct_Deal
    Cube_Struct_Convert Cube_Struct_Walk Cube_Struct_Blob Cube_Struct_Create Cube_Struct_Free Cube_Struct_Text Cube_Struct_Json Cube_Struct_Json_Laws Cube_Memdb_Names Cube_Memdb Cube_Memdb_Json
    Cube_Message Cube_Message_Read Cube_Message_Laws
    Cube_Message_Json Cube_Message_Json_Laws Cube_Route Cube_Route_Laws Cube_Route_Runs Cube_Route_Json
begin

text \<open>
  A verification development of the cube library (\<^verbatim>\<open>src/cubelib\<close>), the C library of a security-middleware framework in
  which processes exchange typed messages that are routed by policies.

  \<^bold>\<open>The program.\<close> At the bottom are string and memory functions (\<^verbatim>\<open>string/memfunc.c\<close>), tagged allocators
  (\<^verbatim>\<open>alloc/alloc.c\<close>), intrusive lists (\<^verbatim>\<open>include/list.h\<close>), containers (\<^verbatim>\<open>basefunc/basefunc.c\<close>), byte channels
  (\<^verbatim>\<open>channel/\<close>), digests, ciphers and text codes (\<^verbatim>\<open>crypto/\<close>), a JSON parser and printer (\<^verbatim>\<open>json/json.c\<close>) and a ring of
  error records (\<^verbatim>\<open>error/error.c\<close>). On these rest the structure descriptions (\<^verbatim>\<open>struct_mod/\<close>): a template, a tree of nodes
  built from an array of element descriptions, drives the conversion of C structures to blobs and back. The
  in-memory database (\<^verbatim>\<open>memdb/\<close>) keeps records found by digest or name, and the templates of record types. Messages
  (\<^verbatim>\<open>message/message.c\<close>) carry records and expands, which are blobs or structures converted by the templates of the
  database. The dispatcher (\<^verbatim>\<open>dispatch/route_tree.c\<close>) matches messages against policies and leads them along
  routes. Modules exchange messages through queues (\<^verbatim>\<open>ex_module/sec_msgqueue.c\<close>) and wait for several of them at slots
  (\<^verbatim>\<open>ex_module/ex_module_slot.c\<close>).

  \<^bold>\<open>Conventions.\<close> Memory is a function from addresses to bytes; addresses are natural numbers, \<open>0\<close> is \<^verbatim>\<open>NULL\<close>, pointers and
  ints lie in it little-endian with 8 and 4 bytes. C ints are \<open>int\<close> where their overflow is undefined or cannot happen
  and wrap when they are stored; the ciphers, digests and flags use words of their width. \<^verbatim>\<open>malloc\<close> is a supply of
  answers that is part of the state (of \<open>estate\<close> for structures, records, messages and routes, of \<open>jheap\<close> for JSON nodes) or an
  argument (containers, channels, queues, slots, ciphers, the error page): every failure is a case of the model, also where the code does
  not test for it, and theorems that need success or fresh blocks say so. An option result is \<open>None\<close> where the code follows \<^verbatim>\<open>NULL\<close>, uses a variable that was never set,
  leaves the objects the model knows, or does not end; a theorem that says \<open>Some\<close> therefore shows that none of
  this happens. Error codes are the negative numbers of the code. Loops with a bound are recursive functions with a
  termination proof, others are partial functions whose theorems show that they return; only \<open>find_elem_loop\<close> of the JSON nodes
  counts its steps, from the number of children.

  \<^bold>\<open>Theories.\<close>
  \<^item> \<^verbatim>\<open>Cube_Prelude\<close>: types, collections of facts, memory as bytes, little-endian codes.
  \<^item> \<^verbatim>\<open>Cube_Memfunc\<close>, \<^verbatim>\<open>Cube_Strconv\<close> (\<^verbatim>\<open>memfunc.c\<close>): one function per C function; texts of numbers, bit maps, hexadecimal texts.
  \<^item> \<^verbatim>\<open>Cube_Alloc\<close> (\<^verbatim>\<open>alloc.c\<close>): the tagged allocators, what a descriptor tells, the list of temporary blocks.
  \<^item> \<^verbatim>\<open>Cube_List\<close> (\<^verbatim>\<open>list.h\<close>), \<^verbatim>\<open>Cube_Containers\<close> and \<^verbatim>\<open>Cube_Hashlist\<close> (\<^verbatim>\<open>basefunc.c\<close>): lists on a heap of links; queues against the locale
    \<open>fifo\<close>, of which the pointer queue and the list queue are interpretations; hash lists against the locale \<open>uuid_table\<close>.
  \<^item> \<^verbatim>\<open>Cube_Channel\<close> (\<^verbatim>\<open>channel.c\<close>, \<^verbatim>\<open>channel_buf.c\<close>): ring buffers against the locale \<open>byte_stream\<close>.
  \<^item> \<^verbatim>\<open>Cube_SM4\<close>, \<^verbatim>\<open>Cube_Hashbase\<close>, \<^verbatim>\<open>Cube_SM3\<close>, \<^verbatim>\<open>Cube_SHA1\<close>, \<^verbatim>\<open>Cube_Radix64\<close>, \<^verbatim>\<open>Cube_Crypto\<close> (\<^verbatim>\<open>crypto/\<close>): the cipher against the standard and its modes,
    the streaming digests as interpretations of the locale \<open>hash_stream\<close>, text codes and the helpers on top.
  \<^item> \<^verbatim>\<open>Cube_Json\<close> and \<^verbatim>\<open>Cube_Json_Text\<close>, \<^verbatim>\<open>_Roundtrip\<close>, \<^verbatim>\<open>_Print\<close>, \<^verbatim>\<open>_Nodes\<close> (\<^verbatim>\<open>json.c\<close>): the parser as a loop over a heap of nodes, what it builds
    from the text of a value, the printer, and the operations on nodes.
  \<^item> \<^verbatim>\<open>Cube_Error\<close> (\<^verbatim>\<open>error.c\<close>), \<^verbatim>\<open>Cube_Msgqueue\<close> (\<^verbatim>\<open>sec_msgqueue.c\<close>, the locale \<open>lifo\<close>), \<^verbatim>\<open>Cube_Slot\<close> (\<^verbatim>\<open>ex_module_slot.c\<close>).
  \<^item> \<^verbatim>\<open>Cube_Struct\<close>, \<^verbatim>\<open>_Ops\<close>, \<^verbatim>\<open>Cube_Enum_Flag\<close>, \<^verbatim>\<open>_Init\<close>, \<^verbatim>\<open>_Elem\<close>, \<^verbatim>\<open>_Deal\<close>, \<^verbatim>\<open>_Convert\<close> (\<^verbatim>\<open>struct_mod/\<close>): descriptions, the operations of each element type, the
    walk \<^verbatim>\<open>_convert_frame_func\<close> over a template with its callbacks, and every conversion built from it;
    \<^verbatim>\<open>Cube_Struct_Walk\<close> and \<^verbatim>\<open>Cube_Struct_Blob\<close> show in the locales \<open>frame_walk\<close>, \<open>deal_walk\<close> and \<open>leaf_store\<close> that the walk
    visits the leaves of a template in order, and the round trip through a blob;
    \<^verbatim>\<open>Cube_Struct_Create\<close>: the templates that \<open>create_struct_template\<close> builds are of the form those theorems ask for.
  \<^item> \<^verbatim>\<open>Cube_Struct_Text\<close>, \<^verbatim>\<open>Cube_Struct_Json\<close> (\<^verbatim>\<open>struct_init.c\<close>, \<^verbatim>\<open>struct_deal.c\<close>): elements as text, structures to JSON and back, marking the
    elements a tree names, clearing flags; \<^verbatim>\<open>Cube_Struct_Json_Laws\<close>: lists of texts through JSON, and a member that the tree lacks;
    \<^verbatim>\<open>Cube_Struct_Free\<close>: which blocks are given back with a structure or a template.
  \<^item> \<^verbatim>\<open>Cube_Memdb_Names\<close>, \<^verbatim>\<open>Cube_Memdb\<close> (\<^verbatim>\<open>memdb_init.c\<close>, \<^verbatim>\<open>type_subtype_ops.c\<close>): name lists and their merge, databases, record names, templates of
    types, storing, removing, searching and the start-up; \<^verbatim>\<open>Cube_Memdb_Json\<close> (\<^verbatim>\<open>memdb.c\<close>): records and templates read from descriptions
    in JSON, printing a record, giving it back.
  \<^item> \<^verbatim>\<open>Cube_Message\<close>, \<^verbatim>\<open>Cube_Message_Read\<close> (\<^verbatim>\<open>message.c\<close>): the message box as it is packed in memory, and every operation on it;
    \<^verbatim>\<open>Cube_Message_Laws\<close>: searching and removing expands, adding records, reading in pieces.
  \<^item> \<^verbatim>\<open>Cube_Message_Json\<close> (\<^verbatim>\<open>message.c\<close>, \<^verbatim>\<open>json_message.c\<close>): messages printed as JSON and read from it; \<^verbatim>\<open>Cube_Message_Json_Laws\<close>: the blob of a
    message on the way through the text and the tree.
  \<^item> \<^verbatim>\<open>Cube_Route\<close> (\<^verbatim>\<open>route_tree.c\<close>): policies, their rules and routes, traces, aspects, targets and answers on the byte memory of the messages;
    \<^verbatim>\<open>Cube_Route_Laws\<close>: the walk along a route, what is kept of a query or an aspect, the policy of a message; \<^verbatim>\<open>Cube_Route_Runs\<close>: the steps
    the router takes between sending and answer as an inductive relation, an invariant of its runs, and that answers find what was
    kept; \<^verbatim>\<open>Cube_Route_Json\<close>: policies read from JSON.

  \<^bold>\<open>What the theorems show.\<close> Each property is marked with its number in its theory. They are of four sorts: what an operation
  computes on every input that its callers may give (searches return the first match, removals take out exactly
  one element, digests and ciphers agree with the standards, parsers build the tree of the text); that encoders and
  decoders undo each other; that a data structure refines an abstract one, keeps its invariant or bounds; and what
  goes wrong on inputs the code does not handle, which is stated as the code behaves.

  \<^bold>\<open>Not modelled.\<close> Freeing of containers, channels and ports, whose only effect is to hand memory back; the connectors
  (\<^verbatim>\<open>connector/\<close>), whose operations are socket calls; \<^verbatim>\<open>ex_module.c\<close> (threads, mutexes and \<^verbatim>\<open>dlopen\<close>); the configuration
  reader and the process plugins (files, sockets and threads around the modelled library); \<^verbatim>\<open>sm3.c\<close>, a second
  implementation of the digest modelled from \<^verbatim>\<open>sm3_ext.c\<close>.
\<close>

end
